(* ===== verification/Prelude.thy ===== *)
theory Prelude
  imports Main "HOL-Library.Word" "HOL-Library.Monad_Syntax"
begin

text \<open>
  Shared vocabulary of the development.

  The program is C and C++ for a 64-bit little-endian Linux host.  This theory fixes how its
  machine level values appear in the models:
  \<^item> a byte of memory or of a message is an \<open>8 word\<close>; \<open>unsigned short\<close>, \<open>unsigned int\<close> and
    \<open>uint64_t\<close> are words of 16, 32 and 64 bits;
  \<^item> a \<open>size_t\<close> is a \<open>nat\<close> and every sum that the code forms on it is taken modulo \<open>2 ^ 64\<close>
    (\<open>size_add\<close>);
  \<^item> a C \<open>int\<close> is an \<open>int\<close>; the implicit conversion of a \<open>size_t\<close> to \<open>int\<close> is \<open>to_int32\<close>;
  \<^item> a block of memory is a byte list; an access outside it is undefined behaviour in C and is
    the value \<open>None\<close> here (\<open>mem_read\<close>, \<open>mem_write\<close>), so that a theorem \<open>f x = Some y\<close> says that
    \<open>f\<close> stays inside its memory;
  \<^item> \<open>malloc\<close> is \<open>c_malloc\<close>: which requests succeed, and what the fresh bytes hold, is an argument.

  The collections \<open>byte_order\<close> and \<open>mem_simps\<close> gather the rewrite rules that the component
  theories share.
\<close>

named_theorems byte_order \<open>byte order conversions and their inverses\<close>
named_theorems mem_simps \<open>reads and writes of memory blocks\<close>

unbundle bit_operations_syntax

type_synonym byte = "8 word"
type_synonym u16 = "16 word"
type_synonym u32 = "32 word"
type_synonym u64 = "64 word"

text \<open>An allocator: the requests that succeed, and the bytes found in fresh memory.\<close>

type_synonym heap = "(nat \<Rightarrow> bool) \<times> (nat \<Rightarrow> byte)"

subsection \<open>Integer conversions\<close>

definition size_add :: "nat \<Rightarrow> nat \<Rightarrow> nat" where
  "size_add a b = (a + b) mod 2 ^ 64"

definition to_int32 :: "nat \<Rightarrow> int" where
  "to_int32 n = sint (word_of_nat n :: u32)"

text \<open>Adding an \<open>int\<close> to a \<open>size_t\<close>: the operand is converted, so the sum wraps.\<close>

definition size_add_int :: "nat \<Rightarrow> int \<Rightarrow> nat" where
  "size_add_int a i = nat ((int a + i) mod 2 ^ 64)"

lemma size_add_small [simp]: "a + b < 2 ^ 64 \<Longrightarrow> size_add a b = a + b"
  by (simp add: size_add_def)

lemma to_int32_small [simp]: "n < 2 ^ 31 \<Longrightarrow> to_int32 n = int n"
  by (simp add: to_int32_def signed_of_nat signed_take_bit_int_eq_self)

lemma size_add_int_nat [simp]: "a + n < 2 ^ 64 \<Longrightarrow> size_add_int a (int n) = a + n"
proof -
  assume "a + n < 2 ^ 64"
  then have "int a + int n < 2 ^ 64" by (metis of_nat_add of_nat_less_numeral_power_cancel_iff)
  then have "(int a + int n) mod 2 ^ 64 = int (a + n)" by simp
  then show ?thesis by (simp add: size_add_int_def nat_int)
qed

subsection \<open>Memory blocks\<close>

definition c_malloc :: "heap \<Rightarrow> nat \<Rightarrow> byte list option" where
  "c_malloc h n = (if n < 2 ^ 63 \<and> fst h n then Some (map (snd h) [0..<n]) else None)"

definition mem_read :: "byte list \<Rightarrow> nat \<Rightarrow> nat \<Rightarrow> byte list option" where
  "mem_read m i n = (if i + n \<le> length m then Some (take n (drop i m)) else None)"

definition mem_write :: "byte list \<Rightarrow> nat \<Rightarrow> byte list \<Rightarrow> byte list option" where
  "mem_write m i bs =
     (if i + length bs \<le> length m
      then Some (take i m @ bs @ drop (i + length bs) m) else None)"

lemma c_malloc_Some: "c_malloc h n = Some m \<Longrightarrow> length m = n \<and> n < 2 ^ 63"
  by (auto simp: c_malloc_def split: if_splits)

lemma mem_read_ok [mem_simps]:
  "i + n \<le> length m \<Longrightarrow> mem_read m i n = Some (take n (drop i m))"
  by (simp add: mem_read_def)

lemma mem_write_ok [mem_simps]:
  "i + length bs \<le> length m \<Longrightarrow>
     mem_write m i bs = Some (take i m @ bs @ drop (i + length bs) m)"
  by (simp add: mem_write_def)

lemma length_mem_write: "mem_write m i bs = Some m' \<Longrightarrow> length m' = length m"
  by (auto simp: mem_write_def split: if_splits)

subsection \<open>Slices\<close>

definition segment :: "nat \<Rightarrow> nat \<Rightarrow> 'a list \<Rightarrow> 'a list" where
  "segment i j xs = take (j - i) (drop i xs)"

lemma length_segment [simp]: "j \<le> length xs \<Longrightarrow> length (segment i j xs) = j - i"
  by (simp add: segment_def)

lemma segment_0 [simp]: "segment 0 (length xs) xs = xs"
  by (simp add: segment_def)

lemma segment_empty [simp]: "j \<le> i \<Longrightarrow> segment i j xs = []"
  by (simp add: segment_def)

lemma segment_append_write:
  assumes "i \<le> j" "j \<le> length m"
  shows "segment i (j + length bs) (take j m @ bs @ rest) = segment i j m @ bs"
proof -
  have "drop i (take j m @ bs @ rest) = drop i (take j m) @ bs @ rest"
    using assms by simp
  moreover have "length (drop i (take j m)) = j - i"
    using assms by simp
  ultimately show ?thesis
    using assms by (simp add: segment_def drop_take)
qed

lemma take_segment: "n \<le> j - i \<Longrightarrow> take n (segment i j xs) = take n (drop i xs)"
  by (simp add: segment_def min_absorb1)

lemma drop_segment: "drop n (segment i j xs) = segment (i + n) j xs"
  by (simp add: segment_def drop_take add.commute diff_diff_add)

subsection \<open>Byte order\<close>

text \<open>
  \<open>le32_load\<close> assembles an \<open>unsigned int\<close> from the four bytes the host stores it in;
  \<open>word_byte w i\<close> is the \<open>i\<close>-th of these bytes, and \<open>store32\<close> the four of them in memory order.
\<close>

definition le32_load :: "byte \<Rightarrow> byte \<Rightarrow> byte \<Rightarrow> byte \<Rightarrow> u32" where
  "le32_load b0 b1 b2 b3 =
     ucast b0 + push_bit 8 (ucast b1) + push_bit 16 (ucast b2) + push_bit 24 (ucast b3)"

definition word_byte :: "u32 \<Rightarrow> nat \<Rightarrow> byte" where
  "word_byte w i = ucast (drop_bit (8 * i) w AND 0xFF)"

lemma unat_eqI: "unat a = unat b \<Longrightarrow> a = b"
  by (simp add: unsigned_word_eqI)

lemma unat_byte_bound: "unat (b :: byte) < 256" using unsigned_less [of b] by simp

lemma take32_byte: "take_bit 32 (unat (b :: byte)) = unat b"
  using unat_byte_bound [of b] by (intro take_bit_nat_eq_self) simp

lemma take32_unat: "take_bit 32 (unat (w :: u32)) = unat w"
  using unsigned_less [of w] by (intro take_bit_nat_eq_self) simp

lemma unat_push_byte:
  fixes b :: byte
  assumes "n \<le> 24"
  shows "unat (push_bit n (ucast b :: u32)) = 2 ^ n * unat b"
proof -
  have "(2::nat) ^ n \<le> 2 ^ 24" using assms by (intro power_increasing) auto
  then have "2 ^ n * unat b < 2 ^ 24 * 256"
    using unat_byte_bound [of b] by (intro mult_le_less_imp_less) auto
  then show ?thesis
    by (simp add: unsigned_push_bit_eq unsigned_ucast_eq take32_byte)
      (simp add: push_bit_eq_mult take_bit_nat_eq_self mult.commute)
qed

lemma unat_le32_load: "unat (le32_load b0 b1 b2 b3)
   = unat b0 + 256 * unat b1 + 65536 * unat b2 + 16777216 * unat b3"
proof -
  have "unat b0 + 256 * unat b1 + 65536 * unat b2 + 16777216 * unat b3 < 2 ^ 32"
    using unat_byte_bound [of b0] unat_byte_bound [of b1] unat_byte_bound [of b2] unat_byte_bound [of b3] by simp
  then show ?thesis
    unfolding le32_load_def
    by (simp add: unat_word_ariths unat_push_byte) (simp add: unsigned_ucast_eq take_bit_nat_eq_self)
qed

lemma mask8: "(0xFF :: u32) = mask 8" by (simp add: mask_eq_exp_minus_1)

lemma unat_word_byte: "unat (word_byte w i) = (unat w div 2 ^ (8 * i)) mod 256"
proof -
  have "word_byte w i = ucast (drop_bit (8 * i) w)"
    by (rule bit_word_eqI) (auto simp: word_byte_def mask8 bit_simps)
  then have "unat (word_byte w i) = take_bit 8 (drop_bit (8 * i) (unat w))"
    by (simp add: unsigned_ucast_eq unsigned_drop_bit_eq take32_unat)
  then show ?thesis by (simp add: take_bit_eq_mod drop_bit_eq_div)
qed

lemma bytes_of_nat:
  assumes "(n::nat) < 4294967296"
  shows "n mod 256 + 256 * (n div 256 mod 256) + 65536 * (n div 65536 mod 256) + 16777216 * (n div 16777216 mod 256) = n"
proof -
  have "n mod 65536 = 256 * (n div 256 mod 256) + n mod 256"
    using mod_mult2_eq [of n 256 256] by simp
  moreover have "n mod 16777216 = 65536 * (n div 65536 mod 256) + n mod 65536"
    using mod_mult2_eq [of n 65536 256] by simp
  moreover have "n mod 4294967296 = 16777216 * (n div 16777216 mod 256) + n mod 16777216"
    using mod_mult2_eq [of n 16777216 256] by simp
  ultimately show ?thesis using assms by simp
qed

lemma le32_load_bytes: "le32_load (word_byte w 0) (word_byte w 1) (word_byte w 2) (word_byte w 3) = w"
proof (rule unat_eqI)
  have "unat w < 4294967296" using unsigned_less [of w] by simp
  then show "unat (le32_load (word_byte w 0) (word_byte w 1) (word_byte w 2) (word_byte w 3)) = unat w"
    using bytes_of_nat [of "unat w"] by (simp add: unat_le32_load unat_word_byte)
qed

lemma divmod_digit: "(r::nat) < k \<Longrightarrow> (r + k * q) div k = q \<and> (r + k * q) mod k = r"
  by simp

lemma word_byte_load:
  "word_byte (le32_load b0 b1 b2 b3) 0 = b0" "word_byte (le32_load b0 b1 b2 b3) (Suc 0) = b1"
  "word_byte (le32_load b0 b1 b2 b3) 2 = b2" "word_byte (le32_load b0 b1 b2 b3) 3 = b3"
proof -
  let ?n = "unat (le32_load b0 b1 b2 b3)"
  let ?h = "unat b2 + 256 * unat b3" let ?m = "unat b1 + 256 * ?h"
  note bd = unat_byte_bound [of b0] unat_byte_bound [of b1] unat_byte_bound [of b2] unat_byte_bound [of b3]
  have n: "?n = unat b0 + 256 * ?m" by (simp add: unat_le32_load)
  have 1: "?n mod 256 = unat b0" "?n div 256 = ?m" using divmod_digit [OF bd(1), of ?m] n by auto
  have 2: "?m mod 256 = unat b1" "?m div 256 = ?h" using divmod_digit [OF bd(2), of ?h] by auto
  have 3: "?h mod 256 = unat b2" "?h div 256 = unat b3" using divmod_digit [OF bd(3), of "unat b3"] by auto
  have 4: "?n div 65536 = ?h" using div_mult2_eq [of ?n 256 256] 1 2 by simp
  have 5: "?n div 16777216 = unat b3" using div_mult2_eq [of ?n 65536 256] 4 3 by simp
  show "word_byte (le32_load b0 b1 b2 b3) 0 = b0" "word_byte (le32_load b0 b1 b2 b3) (Suc 0) = b1"
    "word_byte (le32_load b0 b1 b2 b3) 2 = b2" "word_byte (le32_load b0 b1 b2 b3) 3 = b3"
    using 1 2 3 4 5 bd by (auto intro!: unat_eqI simp: unat_word_byte)
qed

definition store32 :: "u32 \<Rightarrow> byte list" where
  "store32 w = [word_byte w 0, word_byte w 1, word_byte w 2, word_byte w 3]"

fun load32 :: "byte list \<Rightarrow> u32" where
  "load32 (b0 # b1 # b2 # b3 # _) = le32_load b0 b1 b2 b3"
| "load32 _ = 0"

lemma length_store32 [simp]: "length (store32 w) = 4"
  by (simp add: store32_def)

lemma load_store32 [byte_order]: "load32 (store32 w @ rest) = w" "load32 (store32 w) = w"
  using le32_load_bytes [of w] by (simp_all add: store32_def)

definition htonl :: "u32 \<Rightarrow> u32" where
  "htonl w = le32_load (word_byte w 3) (word_byte w 2) (word_byte w 1) (word_byte w 0)"

lemma htonl_htonl [byte_order]: "htonl (htonl w) = w"
  using le32_load_bytes [of w] by (simp add: htonl_def word_byte_load)

text \<open>An \<open>unsigned short\<close> is handled through its two bytes in the same way.\<close>

definition half_byte :: "u16 \<Rightarrow> nat \<Rightarrow> byte" where
  "half_byte w i = ucast (drop_bit (8 * i) w)"

definition le16_load :: "byte \<Rightarrow> byte \<Rightarrow> u16" where
  "le16_load b0 b1 = ucast b0 OR push_bit 8 (ucast b1)"

lemma le16_load_bytes: "le16_load (half_byte w 0) (half_byte w 1) = w"
  by (rule bit_word_eqI) (auto simp: le16_load_def half_byte_def bit_simps)

lemma half_byte_load: "half_byte (le16_load b0 b1) 0 = b0" "half_byte (le16_load b0 b1) (Suc 0) = b1"
  by (rule bit_word_eqI, auto simp: le16_load_def half_byte_def bit_simps dest: bit_imp_le_length)+

definition store16 :: "u16 \<Rightarrow> byte list" where
  "store16 w = [half_byte w 0, half_byte w 1]"

fun load16 :: "byte list \<Rightarrow> u16" where
  "load16 (b0 # b1 # _) = le16_load b0 b1"
| "load16 _ = 0"

lemma length_store16 [simp]: "length (store16 w) = 2"
  by (simp add: store16_def)

lemma load_store16 [byte_order]: "load16 (store16 w @ rest) = w" "load16 (store16 w) = w"
  using le16_load_bytes [of w] by (simp_all add: store16_def)

definition htons :: "u16 \<Rightarrow> u16" where
  "htons w = le16_load (half_byte w 1) (half_byte w 0)"

lemma htons_htons [byte_order]: "htons (htons w) = w"
  using le16_load_bytes [of w] by (simp add: htons_def half_byte_load)

end
