(* ===== verification/CBuffer.thy ===== *)
theory CBuffer
  imports Prelude
begin

text \<open>
  The growing byte buffer of \<open>Util/src/util/CBuffer.hpp\<close> and \<open>CBuffer.cpp\<close>, which every
  connection of the server reads into and writes from.

  The record \<open>cbuffer\<close> holds the class's four fields; \<open>m_buffer\<close> is the allocated block (the
  empty list for \<open>NULL\<close>).  Each method is one definition.  A method that can touch memory
  returns an option: \<open>None\<close> is undefined behaviour (an access outside the block) or, for the
  growing loop, not returning.  \<open>cb_inv\<close> is the picture drawn in the header's comment,
  \<open>0 <= readerIndex <= writerIndex <= capacity\<close>, and \<open>cb_data\<close> is the abstract content, the
  readable bytes.  The locale \<open>byte_queue\<close> is the contract that the codecs use; it is
  interpreted on the class's own methods.
\<close>

record cbuffer =
  m_buffer :: "byte list"
  m_buffer_len :: nat
  m_write_idx :: nat
  m_read_idx :: nat

definition BUFFER_MAX_READ :: nat where
  "BUFFER_MAX_READ = 8192"

definition DEFAULT_BUFFER_SIZE :: nat where
  "DEFAULT_BUFFER_SIZE = 32"

subsection \<open>Construction, indexes and sizes\<close>

definition CBuffer_new :: cbuffer where
  "CBuffer_new = \<lparr>m_buffer = [], m_buffer_len = 0, m_write_idx = 0, m_read_idx = 0\<rparr>"

definition SetReadIndex :: "cbuffer \<Rightarrow> nat \<Rightarrow> cbuffer" where
  "SetReadIndex b idx = b\<lparr>m_read_idx := idx\<rparr>"

definition AdvanceReadIndex :: "cbuffer \<Rightarrow> int \<Rightarrow> cbuffer" where
  "AdvanceReadIndex b step = b\<lparr>m_read_idx := size_add_int (m_read_idx b) step\<rparr>"

definition SetWriteIndex :: "cbuffer \<Rightarrow> nat \<Rightarrow> cbuffer" where
  "SetWriteIndex b idx = b\<lparr>m_write_idx := idx\<rparr>"

definition AdvanceWriteIndex :: "cbuffer \<Rightarrow> int \<Rightarrow> cbuffer" where
  "AdvanceWriteIndex b step = b\<lparr>m_write_idx := size_add_int (m_write_idx b) step\<rparr>"

definition Readable :: "cbuffer \<Rightarrow> bool" where
  "Readable b \<longleftrightarrow> m_write_idx b > m_read_idx b"

definition Writeable :: "cbuffer \<Rightarrow> bool" where
  "Writeable b \<longleftrightarrow> m_buffer_len b > m_write_idx b"

definition ReadableBytes :: "cbuffer \<Rightarrow> nat" where
  "ReadableBytes b = (if Readable b then m_write_idx b - m_read_idx b else 0)"

definition WriteableBytes :: "cbuffer \<Rightarrow> nat" where
  "WriteableBytes b = (if Writeable b then m_buffer_len b - m_write_idx b else 0)"

definition Capacity :: "cbuffer \<Rightarrow> nat" where
  "Capacity b = m_buffer_len b"

subsection \<open>Growing and shrinking\<close>

text \<open>A \<open>size_t\<close> stored into a \<open>uint32_t\<close>.\<close>

definition trunc32 :: "nat \<Rightarrow> nat" where
  "trunc32 n = n mod 2 ^ 32"

definition Compact :: "heap \<Rightarrow> cbuffer \<Rightarrow> nat \<Rightarrow> (nat \<times> cbuffer) option" where
  "Compact h b leastLength =
     (let writableBytes = trunc32 (WriteableBytes b) in
      if writableBytes < leastLength then Some (0, b)
      else
        let readableBytes = trunc32 (ReadableBytes b);
            total = trunc32 (Capacity b);
            freed = trunc32 (total + 2 ^ 32 - readableBytes)
        in if readableBytes > 0 then
             (case c_malloc h readableBytes of
                None \<Rightarrow> Some (0, b)
              | Some newSpace \<Rightarrow> do {
                  src \<leftarrow> mem_read (m_buffer b) (m_read_idx b) readableBytes;
                  newSpace \<leftarrow> mem_write newSpace 0 src;
                  Some (freed, \<lparr>m_buffer = newSpace, m_buffer_len = readableBytes,
                                m_write_idx = readableBytes, m_read_idx = 0\<rparr>)
                })
           else Some (freed, \<lparr>m_buffer = [], m_buffer_len = readableBytes,
                              m_write_idx = readableBytes, m_read_idx = 0\<rparr>))"

text \<open>The loop \<open>while (newCapacity < minNewCapacity) newCapacity <<= 1\<close> on 64 bits.\<close>

partial_function (option) grow_capacity :: "nat \<Rightarrow> nat \<Rightarrow> nat option" where
  "grow_capacity newCapacity minNewCapacity =
     (if newCapacity < minNewCapacity
      then grow_capacity ((newCapacity * 2) mod 2 ^ 64) minNewCapacity
      else Some newCapacity)"

definition EnsureWritableBytes :: "heap \<Rightarrow> cbuffer \<Rightarrow> nat \<Rightarrow> (bool \<times> cbuffer) option" where
  "EnsureWritableBytes h b minWritableBytes =
     (if WriteableBytes b \<ge> minWritableBytes then Some (True, b)
      else do {
        let newCapacity = Capacity b;
        b \<leftarrow> (if newCapacity > BUFFER_MAX_READ
              then map_option snd (Compact h b minWritableBytes) else Some b);
        let newCapacity = (if newCapacity = 0 then DEFAULT_BUFFER_SIZE else newCapacity);
        let minNewCapacity = size_add (m_write_idx b) minWritableBytes;
        newCapacity \<leftarrow> grow_capacity newCapacity minNewCapacity;
        (case c_malloc h newCapacity of
           None \<Rightarrow> Some (False, b)
         | Some tmp \<Rightarrow> do {
             src \<leftarrow> mem_read (m_buffer b) (m_read_idx b) (ReadableBytes b);
             tmp \<leftarrow> mem_write tmp 0 src;
             Some (True, \<lparr>m_buffer = tmp, m_buffer_len = newCapacity,
                          m_write_idx = ReadableBytes b, m_read_idx = 0\<rparr>)
           })
      })"

definition Reserve :: "heap \<Rightarrow> cbuffer \<Rightarrow> nat \<Rightarrow> (bool \<times> cbuffer) option" where
  "Reserve h b len = EnsureWritableBytes h b len"

definition CBuffer_sized :: "heap \<Rightarrow> nat \<Rightarrow> cbuffer option" where
  "CBuffer_sized h sz = map_option snd (EnsureWritableBytes h CBuffer_new sz)"

definition Limit :: "cbuffer \<Rightarrow> cbuffer" where
  "Limit b = b\<lparr>m_buffer_len := m_write_idx b\<rparr>"

definition Clear :: "cbuffer \<Rightarrow> cbuffer" where
  "Clear b = b\<lparr>m_write_idx := 0, m_read_idx := 0\<rparr>"

subsection \<open>Reading and writing\<close>

text \<open>\<open>Read\<close> returns the result code, the bytes stored through \<open>data_out\<close> and the buffer.\<close>

definition Read :: "cbuffer \<Rightarrow> nat \<Rightarrow> (int \<times> byte list \<times> cbuffer) option" where
  "Read b datlen =
     (if datlen > ReadableBytes b then Some (-1, [], b)
      else do {
        out \<leftarrow> mem_read (m_buffer b) (m_read_idx b) datlen;
        Some (to_int32 datlen, out, b\<lparr>m_read_idx := size_add (m_read_idx b) datlen\<rparr>)
      })"

definition Write :: "heap \<Rightarrow> cbuffer \<Rightarrow> byte list \<Rightarrow> (int \<times> cbuffer) option" where
  "Write h b data_in = do {
     (ok, b) \<leftarrow> EnsureWritableBytes h b (length data_in);
     if \<not> ok then Some (-1, b)
     else do {
       m \<leftarrow> mem_write (m_buffer b) (m_write_idx b) data_in;
       Some (to_int32 (length data_in),
             b\<lparr>m_buffer := m, m_write_idx := size_add (m_write_idx b) (length data_in)\<rparr>)
     }
   }"

text \<open>\<open>Write(CBuffer*, size_t)\<close>: the two buffers are different objects.\<close>

definition WriteFrom :: "heap \<Rightarrow> cbuffer \<Rightarrow> cbuffer \<Rightarrow> nat \<Rightarrow> (int \<times> cbuffer \<times> cbuffer) option" where
  "WriteFrom h b unit_b datlen = do {
     let datlen = (if datlen > ReadableBytes unit_b then ReadableBytes unit_b else datlen);
     src \<leftarrow> mem_read (m_buffer unit_b) (m_read_idx unit_b) datlen;
     (ret, b) \<leftarrow> Write h b src;
     let unit_b = (if ret > 0
                   then unit_b\<lparr>m_read_idx := size_add_int (m_read_idx unit_b) ret\<rparr> else unit_b);
     Some (ret, b, unit_b)
   }"

definition WriteByte :: "heap \<Rightarrow> cbuffer \<Rightarrow> byte \<Rightarrow> (int \<times> cbuffer) option" where
  "WriteByte h b ch = Write h b [ch]"

definition ReadInto :: "heap \<Rightarrow> cbuffer \<Rightarrow> cbuffer \<Rightarrow> nat \<Rightarrow> (int \<times> cbuffer \<times> cbuffer) option" where
  "ReadInto h b unit_b datlen = map_option (\<lambda>(r, u, b'). (r, b', u)) (WriteFrom h unit_b b datlen)"

definition SetBytes :: "cbuffer \<Rightarrow> byte list \<Rightarrow> nat \<Rightarrow> (int \<times> cbuffer) option" where
  "SetBytes b bs index =
     (if size_add index (length bs) > m_write_idx b then Some (-1, b)
      else do {
        m \<leftarrow> mem_write (m_buffer b) index bs;
        Some (to_int32 (length bs), b\<lparr>m_buffer := m\<rparr>)
      })"

definition ReadByte :: "cbuffer \<Rightarrow> (bool \<times> byte list \<times> cbuffer) option" where
  "ReadByte b = map_option (\<lambda>(r, out, b'). (r = 1, out, b')) (Read b 1)"

definition Copyout :: "cbuffer \<Rightarrow> nat \<Rightarrow> (int \<times> byte list) option" where
  "Copyout b datlen =
     (if datlen = 0 then Some (0, [])
      else do {
        let datlen = (if datlen > ReadableBytes b then ReadableBytes b else datlen);
        out \<leftarrow> mem_read (m_buffer b) (m_read_idx b) datlen;
        Some (to_int32 datlen, out)
      })"

definition CopyoutTo :: "heap \<Rightarrow> cbuffer \<Rightarrow> cbuffer \<Rightarrow> nat \<Rightarrow> (int \<times> cbuffer) option" where
  "CopyoutTo h b unit_b datlen = do {
     (ok, unit_b) \<leftarrow> EnsureWritableBytes h unit_b datlen;
     if \<not> ok then Some (-1, unit_b)
     else do {
       (ret, out) \<leftarrow> Copyout b datlen;
       m \<leftarrow> mem_write (m_buffer unit_b) (m_write_idx unit_b) out;
       let unit_b = unit_b\<lparr>m_buffer := m\<rparr>;
       Some (ret, if ret > 0
                  then unit_b\<lparr>m_write_idx := size_add_int (m_write_idx unit_b) ret\<rparr> else unit_b)
     }
   }"

definition SkipBytes :: "cbuffer \<Rightarrow> nat \<Rightarrow> cbuffer" where
  "SkipBytes b len = AdvanceReadIndex b (to_int32 len)"

definition DiscardReadedBytes :: "cbuffer \<Rightarrow> cbuffer option" where
  "DiscardReadedBytes b =
     (if m_read_idx b > 0 then
        if Readable b then do {
          let tmp = ReadableBytes b;
          src \<leftarrow> mem_read (m_buffer b) (m_read_idx b) tmp;
          m \<leftarrow> mem_write (m_buffer b) 0 src;
          Some (b\<lparr>m_buffer := m, m_read_idx := 0, m_write_idx := tmp\<rparr>)
        }
        else Some (b\<lparr>m_read_idx := 0, m_write_idx := 0\<rparr>)
      else Some b)"

definition ToString :: "cbuffer \<Rightarrow> byte list option" where
  "ToString b = mem_read (m_buffer b) (m_read_idx b) (ReadableBytes b)"

subsection \<open>Searching\<close>

text \<open>
  The loop of \<open>IndexOf\<close>: \<open>memchr\<close> over \<open>[start_idx, end)\<close>, then \<open>memcmp\<close> of the whole pattern
  at the position found.  \<open>memcmp\<close> is given \<open>len\<close> bytes wherever the position lies, so it can
  run past \<open>end\<close>.
\<close>

function index_loop :: "byte list \<Rightarrow> byte list \<Rightarrow> nat \<Rightarrow> nat \<Rightarrow> int option" where
  "index_loop m pat start_idx end_idx =
     (if start_idx < end_idx \<and> pat \<noteq> [] then do {
        hay \<leftarrow> mem_read m start_idx (end_idx - start_idx);
        (case find (\<lambda>i. hay ! i = hd pat) [0..<length hay] of
           None \<Rightarrow> Some (-1)
         | Some off \<Rightarrow>
             let p = start_idx + off in
             if length pat = 1 then Some (to_int32 p)
             else do {
               w \<leftarrow> mem_read m p (length pat);
               if w = pat
               then if p + length pat > end_idx then Some (-1) else Some (to_int32 p)
               else index_loop m pat (p + length pat) end_idx
             })
      }
      else Some (-1))"
  by pat_completeness auto
termination
  by (relation "measure (\<lambda>(m, pat, s, e). e - s)") (auto simp: diff_less_mono2)

declare index_loop.simps [simp del]

definition IndexOf :: "cbuffer \<Rightarrow> byte list \<Rightarrow> nat \<Rightarrow> nat \<Rightarrow> int option" where
  "IndexOf b pat start_idx end_idx =
     (if pat = [] then Some (-1)
      else if size_add start_idx (length pat) > end_idx \<or> end_idx > m_write_idx b then Some (-1)
      else index_loop (m_buffer b) pat start_idx end_idx)"

definition IndexOfReadable :: "cbuffer \<Rightarrow> byte list \<Rightarrow> int option" where
  "IndexOfReadable b pat = IndexOf b pat (m_read_idx b) (m_write_idx b)"

subsection \<open>Formatted output and file descriptors\<close>

text \<open>
  \<open>vsnprintf(buffer, space, ...)\<close> for a format whose expansion is \<open>s\<close>: at most \<open>space - 1\<close>
  bytes and a terminating zero are stored, and \<open>length s\<close> is returned.  \<open>None\<close> as the expansion
  is the negative return.  \<open>sz << 1\<close> overflows the \<open>int\<close> from \<open>2 ^ 30\<close> on.
\<close>

definition vsnprintf_store :: "byte list \<Rightarrow> nat \<Rightarrow> nat \<Rightarrow> byte list \<Rightarrow> byte list option" where
  "vsnprintf_store m i space s =
     (if space = 0 then Some m else mem_write m i (take (space - 1) s @ [0]))"

partial_function (option) VPrintf_loop ::
  "heap \<Rightarrow> byte list \<Rightarrow> cbuffer \<Rightarrow> int \<Rightarrow> (int \<times> cbuffer) option" where
  "VPrintf_loop h s b result =
     Option.bind (vsnprintf_store (m_buffer b) (m_write_idx b) (WriteableBytes b) s) (\<lambda>m.
       if length s < WriteableBytes b
       then Some (result + int (length s),
                  AdvanceWriteIndex (b\<lparr>m_buffer := m\<rparr>) (int (length s)))
       else if length s \<ge> 2 ^ 30 then None
       else Option.bind (EnsureWritableBytes h (b\<lparr>m_buffer := m\<rparr>) (2 * length s)) (\<lambda>okb.
              if \<not> fst okb then Some (result + int (length s), snd okb)
              else VPrintf_loop h s (snd okb) (result + int (length s))))"

definition VPrintf :: "heap \<Rightarrow> cbuffer \<Rightarrow> byte list option \<Rightarrow> (int \<times> cbuffer) option" where
  "VPrintf h b fmt = do {
     (ok, b) \<leftarrow> EnsureWritableBytes h b 64;
     if \<not> ok then Some (0, b)
     else (case fmt of None \<Rightarrow> Some (0, b) | Some s \<Rightarrow> VPrintf_loop h s b 0)
   }"

text \<open>
  The system calls are arguments: \<open>snd_call\<close> maps the bytes offered to the result of \<open>send\<close>
  (the count accepted, or an errno); \<open>rd_call\<close> maps the room offered to the result of \<open>readv\<close>.
\<close>

definition WriteFD :: "cbuffer \<Rightarrow> (byte list \<Rightarrow> nat + int) \<Rightarrow> int \<Rightarrow> (int \<times> int \<times> cbuffer) option" where
  "WriteFD b snd_call err =
     (if to_int32 (ReadableBytes b) = 0 then Some (0, err, b)
      else do {
        bytes \<leftarrow> mem_read (m_buffer b) (m_read_idx b)
                   (size_add_int 0 (to_int32 (ReadableBytes b)));
        Some (case snd_call bytes of
                Inr e \<Rightarrow> (-1, e, b)
              | Inl n \<Rightarrow> (int n, err, b\<lparr>m_read_idx := size_add (m_read_idx b) n\<rparr>))
      })"

definition ReadFD :: "heap \<Rightarrow> cbuffer \<Rightarrow> (nat \<Rightarrow> byte list + int) \<Rightarrow> int
    \<Rightarrow> (int \<times> int \<times> cbuffer) option" where
  "ReadFD h b rd_call err =
     (let writable = WriteableBytes b;
          room = (if writable > 32768 then writable else writable + 32768)
      in case rd_call room of
           Inr e \<Rightarrow> Some (-1, e, b)
         | Inl bytes \<Rightarrow>
             if length bytes \<le> writable then do {
               m \<leftarrow> mem_write (m_buffer b) (m_write_idx b) bytes;
               Some (int (length bytes), err,
                     b\<lparr>m_buffer := m, m_write_idx := size_add (m_write_idx b) (length bytes)\<rparr>)
             }
             else do {
               m \<leftarrow> mem_write (m_buffer b) (m_write_idx b) (take writable bytes);
               (_, b) \<leftarrow> Write h (b\<lparr>m_buffer := m, m_write_idx := m_buffer_len b\<rparr>)
                          (drop writable bytes);
               Some (int (length bytes), err, b)
             })"

subsection \<open>Invariant and abstract content\<close>

definition cb_inv :: "cbuffer \<Rightarrow> bool" where
  "cb_inv b \<longleftrightarrow> m_read_idx b \<le> m_write_idx b \<and> m_write_idx b \<le> m_buffer_len b
     \<and> m_buffer_len b \<le> length (m_buffer b) \<and> length (m_buffer b) < 2 ^ 63"

definition cb_data :: "cbuffer \<Rightarrow> byte list" where
  "cb_data b = segment (m_read_idx b) (m_write_idx b) (m_buffer b)"

lemma cb_inv_new [simp]: "cb_inv CBuffer_new"
  by (simp add: cb_inv_def CBuffer_new_def)

lemma cb_data_new [simp]: "cb_data CBuffer_new = []"
  by (simp add: cb_data_def CBuffer_new_def)

lemma ReadableBytes_inv: "cb_inv b \<Longrightarrow> ReadableBytes b = m_write_idx b - m_read_idx b"
  by (auto simp: ReadableBytes_def Readable_def)

lemma WriteableBytes_inv: "cb_inv b \<Longrightarrow> WriteableBytes b = m_buffer_len b - m_write_idx b"
  by (auto simp: WriteableBytes_def Writeable_def)

lemma length_cb_data: "cb_inv b \<Longrightarrow> length (cb_data b) = ReadableBytes b"
  by (simp add: cb_data_def cb_inv_def ReadableBytes_inv)

lemma mem_read_readable:
  assumes "cb_inv b" and "n \<le> ReadableBytes b"
  shows "mem_read (m_buffer b) (m_read_idx b) n = Some (take n (cb_data b))"
proof -
  from assms have "m_read_idx b + n \<le> length (m_buffer b)"
    by (auto simp: ReadableBytes_inv cb_inv_def)
  with assms show ?thesis
    by (simp add: mem_simps cb_data_def take_segment ReadableBytes_inv)
qed

lemma cb_inv_bounds:
  assumes "cb_inv b"
  shows "m_read_idx b < 2 ^ 63" "m_write_idx b < 2 ^ 63" "ReadableBytes b < 2 ^ 63"
    and "m_read_idx b + ReadableBytes b = m_write_idx b"
  using assms by (auto simp: cb_inv_def ReadableBytes_inv)

subsubsection \<open>The growing loop\<close>

lemma grow_capacity_returns:
  assumes "0 < cap" and "need \<le> 2 ^ 63"
  shows "\<exists>c. grow_capacity cap need = Some c \<and> need \<le> c \<and> cap \<le> c"
  using assms
proof (induction "need - cap" arbitrary: cap rule: less_induct)
  case less
  show ?case
  proof (cases "cap < need")
    case True
    with less.prems have "(cap * 2) mod 2 ^ 64 = cap * 2" by simp
    moreover have "\<exists>c. grow_capacity (cap * 2) need = Some c \<and> need \<le> c \<and> cap * 2 \<le> c"
      using True less.prems by (intro less.hyps) auto
    ultimately show ?thesis
      using True by (subst grow_capacity.simps) auto
  next
    case False
    then show ?thesis by (subst grow_capacity.simps) auto
  qed
qed

text \<open>Doubling keeps a request at most twice what is needed.\<close>

lemma grow_capacity_bound:
  assumes "grow_capacity cap need = Some c" and "need \<le> 2 ^ 63" and "0 < cap"
  shows "c = cap \<or> c < 2 * need"
  using assms
proof (induction "need - cap" arbitrary: cap rule: less_induct)
  case less
  show ?case
  proof (cases "cap < need")
    case True
    with less.prems have m: "(cap * 2) mod 2 ^ 64 = cap * 2" by simp
    from less.prems(1) True m have "grow_capacity (cap * 2) need = Some c"
      by (subst (asm) grow_capacity.simps) simp
    then have "c = cap * 2 \<or> c < 2 * need"
      using True less.prems by (intro less.hyps) auto
    then show ?thesis using True by auto
  next
    case False
    with less.prems(1) show ?thesis by (subst (asm) grow_capacity.simps) auto
  qed
qed

subsubsection \<open>Compact and EnsureWritableBytes\<close>

lemma Compact_short: "trunc32 (WriteableBytes b) < n \<Longrightarrow> Compact h b n = Some (0, b)"
  by (simp add: Compact_def Let_def)

lemma trunc32_le: "trunc32 n \<le> n"
  by (simp add: trunc32_def)

text \<open>\<open>EnsureWritableBytes\<close> calls \<open>Compact\<close> only when too little is writable: it changes nothing.\<close>

lemma Compact_in_Ensure: "WriteableBytes b < n \<Longrightarrow> Compact h b n = Some (0, b)"
  using trunc32_le [of "WriteableBytes b"] by (intro Compact_short) linarith

lemma EnsureWritableBytes_grow:
  assumes "WriteableBytes b < n"
  shows "EnsureWritableBytes h b n =
    Option.bind (grow_capacity (if Capacity b = 0 then DEFAULT_BUFFER_SIZE else Capacity b)
                   (size_add (m_write_idx b) n))
      (\<lambda>c. case c_malloc h c of
             None \<Rightarrow> Some (False, b)
           | Some tmp \<Rightarrow> Option.bind (mem_read (m_buffer b) (m_read_idx b) (ReadableBytes b))
               (\<lambda>src. Option.bind (mem_write tmp 0 src)
                 (\<lambda>tmp. Some (True, \<lparr>m_buffer = tmp, m_buffer_len = c,
                          m_write_idx = ReadableBytes b, m_read_idx = 0\<rparr>))))"
  using assms by (simp add: EnsureWritableBytes_def Let_def Compact_in_Ensure)

lemma EnsureWritableBytes_ok:
  assumes inv: "cb_inv b" and small: "m_write_idx b + n \<le> 2 ^ 63"
  shows "\<exists>ok b'. EnsureWritableBytes h b n = Some (ok, b') \<and> cb_inv b'
     \<and> cb_data b' = cb_data b \<and> m_write_idx b' \<le> m_write_idx b
     \<and> (if ok then n \<le> WriteableBytes b' else b' = b)"
proof (cases "n \<le> WriteableBytes b")
  case True
  with inv show ?thesis by (auto simp: EnsureWritableBytes_def)
next
  case False
  let ?cap = "if Capacity b = 0 then DEFAULT_BUFFER_SIZE else Capacity b"
  have "size_add (m_write_idx b) n = m_write_idx b + n" using small by simp
  moreover have "0 < ?cap" by (simp add: DEFAULT_BUFFER_SIZE_def)
  ultimately obtain c where c: "grow_capacity ?cap (size_add (m_write_idx b) n) = Some c"
      "m_write_idx b + n \<le> c"
    using small grow_capacity_returns [of ?cap "m_write_idx b + n"] by auto
  show ?thesis
  proof (cases "c_malloc h c")
    case None
    with False c(1) inv show ?thesis by (auto simp: EnsureWritableBytes_grow)
  next
    case (Some tmp)
    then have len: "length tmp = c" "c < 2 ^ 63" by (auto dest: c_malloc_Some)
    let ?b' = "\<lparr>m_buffer = cb_data b @ drop (ReadableBytes b) tmp, m_buffer_len = c,
      m_write_idx = ReadableBytes b, m_read_idx = 0\<rparr>"
    have le: "ReadableBytes b \<le> m_write_idx b" using inv by (simp add: ReadableBytes_inv)
    have "EnsureWritableBytes h b n = Some (True, ?b')"
      using False c Some len le inv
      by (simp add: EnsureWritableBytes_grow mem_read_readable mem_write_def length_cb_data)
    moreover have "cb_inv ?b'" using len le c(2) inv by (simp add: cb_inv_def length_cb_data)
    moreover have "cb_data ?b' = cb_data b"
      using inv by (simp add: cb_data_def [of ?b'] segment_def length_cb_data)
    moreover have "n \<le> WriteableBytes ?b'"
      using c(2) le by (auto simp: WriteableBytes_def Writeable_def)
    ultimately show ?thesis using le by auto
  qed
qed

subsubsection \<open>Reading, writing and discarding\<close>

text \<open>Room for \<open>n\<close> more bytes in the address space and in the \<open>int\<close> results.\<close>

definition cb_room :: "cbuffer \<Rightarrow> nat \<Rightarrow> bool" where
  "cb_room b n \<longleftrightarrow> m_write_idx b + n \<le> 2 ^ 63 \<and> n < 2 ^ 31"

lemma store_at_write:
  assumes "cb_inv b" and "length xs \<le> WriteableBytes b"
  shows "\<exists>m. mem_write (m_buffer b) (m_write_idx b) xs = Some m
    \<and> cb_inv (b\<lparr>m_buffer := m, m_write_idx := m_write_idx b + length xs\<rparr>)
    \<and> cb_data (b\<lparr>m_buffer := m, m_write_idx := m_write_idx b + length xs\<rparr>) = cb_data b @ xs
    \<and> length m = length (m_buffer b) \<and> size_add (m_write_idx b) (length xs) = m_write_idx b + length xs"
proof -
  have le: "m_write_idx b + length xs \<le> length (m_buffer b)"
    using assms by (auto simp: WriteableBytes_inv cb_inv_def)
  let ?m = "take (m_write_idx b) (m_buffer b) @ xs @ drop (m_write_idx b + length xs) (m_buffer b)"
  have "mem_write (m_buffer b) (m_write_idx b) xs = Some ?m"
    using le by (simp add: mem_simps)
  moreover have "length ?m = length (m_buffer b)" using le by simp
  moreover have "segment (m_read_idx b) (m_write_idx b + length xs) ?m
      = segment (m_read_idx b) (m_write_idx b) (m_buffer b) @ xs"
    using assms(1) le by (intro segment_append_write) (auto simp: cb_inv_def)
  ultimately show ?thesis
    using assms le by (auto simp: cb_inv_def cb_data_def WriteableBytes_inv)
qed

lemma Write_ok:
  assumes "cb_inv b" and "cb_room b (length xs)"
  shows "\<exists>r b'. Write h b xs = Some (r, b') \<and> cb_inv b'
    \<and> m_write_idx b' \<le> m_write_idx b + length xs
    \<and> (r = int (length xs) \<and> cb_data b' = cb_data b @ xs \<or> r = -1 \<and> b' = b)"
proof -
  obtain ok b1 where e: "EnsureWritableBytes h b (length xs) = Some (ok, b1)" "cb_inv b1"
      "cb_data b1 = cb_data b" "m_write_idx b1 \<le> m_write_idx b"
      "if ok then length xs \<le> WriteableBytes b1 else b1 = b"
    using EnsureWritableBytes_ok [of b "length xs" h] assms by (auto simp: cb_room_def)
  show ?thesis
  proof (cases ok)
    case True
    obtain m where "mem_write (m_buffer b1) (m_write_idx b1) xs = Some m"
      "cb_inv (b1\<lparr>m_buffer := m, m_write_idx := m_write_idx b1 + length xs\<rparr>)"
      "cb_data (b1\<lparr>m_buffer := m, m_write_idx := m_write_idx b1 + length xs\<rparr>) = cb_data b1 @ xs"
      "size_add (m_write_idx b1) (length xs) = m_write_idx b1 + length xs"
      using store_at_write [of b1 xs] e True by auto
    with e assms(2) True show ?thesis by (simp add: Write_def cb_room_def)
  next
    case False
    with e show ?thesis by (auto simp: Write_def)
  qed
qed

lemma cb_inv_advance:
  assumes "cb_inv b" and "n \<le> ReadableBytes b"
  shows "cb_inv (b\<lparr>m_read_idx := m_read_idx b + n\<rparr>)"
    and "cb_data (b\<lparr>m_read_idx := m_read_idx b + n\<rparr>) = drop n (cb_data b)"
  using assms by (auto simp: cb_inv_def ReadableBytes_inv cb_data_def drop_segment)

lemma Read_ok:
  assumes "cb_inv b" and "n \<le> ReadableBytes b" and "n < 2 ^ 31"
  shows "Read b n = Some (int n, take n (cb_data b), b\<lparr>m_read_idx := m_read_idx b + n\<rparr>)"
proof -
  have "m_read_idx b + n < 2 ^ 64" using cb_inv_bounds [OF assms(1)] assms(2) by simp
  then show ?thesis using assms by (simp add: Read_def mem_read_readable)
qed

lemma Read_short: "ReadableBytes b < n \<Longrightarrow> Read b n = Some (-1, [], b)"
  by (simp add: Read_def)

lemma SkipBytes_ok:
  assumes "cb_inv b" and "n \<le> ReadableBytes b" and "n < 2 ^ 31"
  shows "SkipBytes b n = b\<lparr>m_read_idx := m_read_idx b + n\<rparr>"
proof -
  have "m_read_idx b + n < 2 ^ 64" using cb_inv_bounds [OF assms(1)] assms(2) by simp
  then show ?thesis using assms by (simp add: SkipBytes_def AdvanceReadIndex_def)
qed

lemma DiscardReadedBytes_ok:
  assumes "cb_inv b"
  shows "\<exists>b'. DiscardReadedBytes b = Some b' \<and> cb_inv b' \<and> cb_data b' = cb_data b
    \<and> m_read_idx b' = 0"
proof (cases "m_read_idx b > 0 \<and> Readable b")
  case True
  let ?m = "cb_data b @ drop (ReadableBytes b) (m_buffer b)"
  have le: "ReadableBytes b \<le> length (m_buffer b)"
    using assms by (auto simp: ReadableBytes_inv cb_inv_def)
  let ?b' = "b\<lparr>m_buffer := ?m, m_read_idx := 0, m_write_idx := ReadableBytes b\<rparr>"
  have "DiscardReadedBytes b = Some ?b'"
    using True assms le
    by (simp add: DiscardReadedBytes_def mem_read_readable mem_write_def length_cb_data Let_def)
  moreover have "ReadableBytes b \<le> m_buffer_len b"
    using assms by (auto simp: ReadableBytes_inv cb_inv_def)
  moreover have "cb_data ?b' = cb_data b"
    using assms by (simp add: cb_data_def [of ?b'] segment_def length_cb_data)
  moreover have "length ?m = length (m_buffer b)" using assms le by (simp add: length_cb_data)
  ultimately show ?thesis
    using assms by (simp add: cb_inv_def)
next
  case False
  with assms show ?thesis
    by (auto simp: DiscardReadedBytes_def Readable_def cb_inv_def cb_data_def)
qed

lemma Compact_ok:
  assumes "cb_inv b" and "ReadableBytes b < 2 ^ 32"
  shows "\<exists>r b'. Compact h b n = Some (r, b') \<and> cb_inv b' \<and> cb_data b' = cb_data b
    \<and> m_write_idx b' \<le> m_write_idx b"
proof -
  let ?r = "ReadableBytes b"
  have r: "trunc32 ?r = ?r" using assms(2) by (simp add: trunc32_def)
  consider "trunc32 (WriteableBytes b) < n" | "n \<le> trunc32 (WriteableBytes b)" "?r = 0"
    | "n \<le> trunc32 (WriteableBytes b)" "?r > 0" by linarith
  then show ?thesis
  proof cases
    case 1
    with assms show ?thesis by (simp add: Compact_short)
  next
    case 2
    then have "cb_data b = []" using length_cb_data [OF assms(1)] by simp
    with 2 r show ?thesis by (simp add: Compact_def Let_def cb_inv_def cb_data_def)
  next
    case 3
    show ?thesis
    proof (cases "c_malloc h ?r")
      case None
      with 3 r assms show ?thesis by (simp add: Compact_def Let_def)
    next
      case (Some tmp)
      let ?b' = "\<lparr>m_buffer = cb_data b, m_buffer_len = ?r, m_write_idx = ?r, m_read_idx = 0\<rparr>"
      have len: "length tmp = ?r" using Some by (auto dest: c_malloc_Some)
      have "\<exists>fr. Compact h b n = Some (fr, ?b')"
        using 3 r Some len assms(1)
        by (simp add: Compact_def Let_def mem_read_readable mem_write_def length_cb_data)
      moreover have "cb_inv ?b'"
        using assms(1) cb_inv_bounds [OF assms(1)] by (simp add: cb_inv_def length_cb_data)
      moreover have "cb_data ?b' = cb_data b"
        using assms(1) by (simp add: cb_data_def [of ?b'] segment_def length_cb_data)
      moreover have "?r \<le> m_write_idx b" using cb_inv_bounds [OF assms(1)] by simp
      ultimately show ?thesis by auto
    qed
  qed
qed

lemma SetBytes_ok:
  assumes "cb_inv b" and "i + length bs < 2 ^ 63" and "length bs < 2 ^ 31"
  shows "\<exists>r b'. SetBytes b bs i = Some (r, b') \<and> cb_inv b' \<and> m_write_idx b' = m_write_idx b
    \<and> (if i + length bs \<le> m_write_idx b then r = int (length bs) else r = -1 \<and> b' = b)"
proof -
  have "size_add i (length bs) = i + length bs" using assms(2) by simp
  moreover have "m_write_idx b \<le> length (m_buffer b)" using assms(1) by (simp add: cb_inv_def)
  ultimately show ?thesis
    using assms by (auto simp: SetBytes_def mem_write_def cb_inv_def)
qed

lemma Limit_Clear_inv [simp]:
  "cb_inv b \<Longrightarrow> cb_inv (Limit b)" "cb_inv b \<Longrightarrow> cb_inv (Clear b)"
  "cb_data (Limit b) = cb_data b" "cb_data (Clear b) = []"
  by (auto simp: Limit_def Clear_def cb_inv_def cb_data_def)

subsection \<open>The contract used by the codecs\<close>

text \<open>
  What a client of the buffer relies on: \<open>put\<close> appends all of its argument or leaves the buffer
  alone and returns \<open>-1\<close>; \<open>get\<close> hands out a prefix and drops it, or refuses.  \<open>room b n\<close> says
  that \<open>n\<close> further bytes fit the address space.
\<close>

locale byte_queue =
  fixes inv :: "'b \<Rightarrow> bool"
    and data :: "'b \<Rightarrow> byte list"
    and room :: "'b \<Rightarrow> nat \<Rightarrow> bool"
    and put :: "'b \<Rightarrow> byte list \<Rightarrow> (int \<times> 'b) option"
    and get :: "'b \<Rightarrow> nat \<Rightarrow> (int \<times> byte list \<times> 'b) option"
  assumes put_spec: "inv b \<Longrightarrow> room b (length xs) \<Longrightarrow>
      \<exists>r b'. put b xs = Some (r, b') \<and> inv b'
        \<and> (r = int (length xs) \<and> data b' = data b @ xs \<or> r = -1 \<and> b' = b)"
    and put_room: "inv b \<Longrightarrow> room b (length xs + n) \<Longrightarrow> put b xs = Some (r, b') \<Longrightarrow> room b' n"
    and room_mono: "room b m \<Longrightarrow> n \<le> m \<Longrightarrow> room b n"
    and get_ok: "inv b \<Longrightarrow> n \<le> length (data b) \<Longrightarrow> n < 2 ^ 31 \<Longrightarrow>
      \<exists>b'. get b n = Some (int n, take n (data b), b') \<and> inv b' \<and> data b' = drop n (data b)"
    and get_short: "inv b \<Longrightarrow> length (data b) < n \<Longrightarrow> get b n = Some (-1, [], b)"
begin

text \<open>Two writes, the second tried only when the first one succeeded: all or a prefix.\<close>

lemma put_put:
  assumes "inv b" and "room b (length xs + length ys)"
    and "put b xs = Some (int (length xs), b1)" and "put b1 ys = Some (int (length ys), b2)"
  shows "inv b2 \<and> data b2 = data b @ xs @ ys"
proof -
  have "room b (length xs)" using assms(2) by (rule room_mono) simp
  with put_spec [OF assms(1)] assms(3) have 1: "inv b1" "data b1 = data b @ xs" by fastforce+
  have "room b1 (length ys)" using put_room [OF assms(1,2,3)] .
  with put_spec [OF 1(1)] assms(4) 1(2) show ?thesis by fastforce
qed

lemma put_then_get:
  assumes "inv b" and "data b = []" and "room b (length xs)" and "length xs < 2 ^ 31"
    and "put b xs = Some (int (length xs), b1)"
  shows "\<exists>b2. get b1 (length xs) = Some (int (length xs), xs, b2) \<and> inv b2 \<and> data b2 = []"
proof -
  have "inv b1" "data b1 = xs" using put_spec [OF assms(1,3)] assms(2,5) by fastforce+
  with get_ok [of b1 "length xs"] assms(4) show ?thesis by auto
qed

end

lemma Write_room:
  assumes "cb_inv b" "cb_room b (length xs + n)" "Write h b xs = Some (r, b')"
  shows "cb_room b' n"
proof -
  have "cb_room b (length xs)" using assms(2) by (simp add: cb_room_def)
  with Write_ok [OF assms(1), of xs h] assms(3) have "m_write_idx b' \<le> m_write_idx b + length xs"
    by auto
  with assms(2) show ?thesis by (auto simp: cb_room_def)
qed

interpretation cb: byte_queue cb_inv cb_data cb_room "Write h" Read for h
proof
  fix b and xs :: "byte list" assume "cb_inv b" "cb_room b (length xs)"
  then show "\<exists>r b'. Write h b xs = Some (r, b') \<and> cb_inv b'
        \<and> (r = int (length xs) \<and> cb_data b' = cb_data b @ xs \<or> r = -1 \<and> b' = b)"
    using Write_ok by blast
next
  fix b n assume "cb_inv b" "n \<le> length (cb_data b)" "n < (2::nat) ^ 31"
  then show "\<exists>b'. Read b n = Some (int n, take n (cb_data b), b') \<and> cb_inv b' \<and> cb_data b' = drop n (cb_data b)"
    using Read_ok [of b n] cb_inv_advance [of b n] by (auto simp: length_cb_data)
next
  fix b n assume "cb_inv b" "length (cb_data b) < n"
  then show "Read b n = Some (-1, [], b)" by (simp add: Read_short length_cb_data)
next
  fix b n r b' and xs :: "byte list"
  assume "cb_inv b" "cb_room b (length xs + n)" "Write h b xs = Some (r, b')"
  then show "cb_room b' n" by (rule Write_room)
qed (simp add: cb_room_def)

subsection \<open>Sequences of operations refine an abstract byte queue\<close>

text \<open>
  The calls a connection makes on its buffers.  The abstract queue is a byte list; a write is
  all or nothing (the allocation may fail) and reports which, a read is all or nothing
  (the bytes may not have arrived), and the housekeeping calls do not change the content.
  \<open>SkipBytes\<close> itself has no test: its callers in the codecs skip a part whose length they have compared with
  \<open>ReadableBytes\<close>, and \<open>OSkip\<close> is such a call together with its comparison.
\<close>

datatype cb_op = OWrite "byte list" | ORead nat | OSkip nat | OReserve nat | OCompact nat
  | ODiscard | OLimit | OClear

fun cb_exec :: "heap \<Rightarrow> cbuffer \<Rightarrow> cb_op \<Rightarrow> (int \<times> byte list \<times> cbuffer) option" where
  "cb_exec h b (OWrite xs) = map_option (\<lambda>(r, b'). (r, [], b')) (Write h b xs)"
| "cb_exec h b (ORead n) = Read b n"
| "cb_exec h b (OSkip n) = (if n \<le> ReadableBytes b then Some (int n, [], SkipBytes b n) else Some (-1, [], b))"
| "cb_exec h b (OReserve n) = map_option (\<lambda>(ok, b'). (of_bool ok, [], b')) (Reserve h b n)"
| "cb_exec h b (OCompact n) = map_option (\<lambda>(r, b'). (int r, [], b')) (Compact h b n)"
| "cb_exec h b ODiscard = map_option (\<lambda>b'. (0, [], b')) (DiscardReadedBytes b)"
| "cb_exec h b OLimit = Some (0, [], Limit b)"
| "cb_exec h b OClear = Some (0, [], Clear b)"

inductive bq_step :: "byte list \<Rightarrow> cb_op \<Rightarrow> int \<Rightarrow> byte list \<Rightarrow> byte list \<Rightarrow> bool" where
  bq_write: "bq_step q (OWrite xs) (int (length xs)) [] (q @ xs)"
| bq_write_fail: "bq_step q (OWrite xs) (-1) [] q"
| bq_read: "n \<le> length q \<Longrightarrow> bq_step q (ORead n) (int n) (take n q) (drop n q)"
| bq_read_fail: "length q < n \<Longrightarrow> bq_step q (ORead n) (-1) [] q"
| bq_skip: "n \<le> length q \<Longrightarrow> bq_step q (OSkip n) (int n) [] (drop n q)"
| bq_skip_none: "length q < n \<Longrightarrow> bq_step q (OSkip n) (-1) [] q"
| bq_reserve: "bq_step q (OReserve n) (of_bool ok) [] q"
| bq_compact: "bq_step q (OCompact n) r [] q"
| bq_discard: "bq_step q ODiscard 0 [] q"
| bq_limit: "bq_step q OLimit 0 [] q"
| bq_clear: "bq_step q OClear 0 [] []"

inductive_simps bq_step_simps:
  "bq_step q (OWrite xs) r out q'" "bq_step q (ORead n) r out q'" "bq_step q (OSkip n) r out q'"
  "bq_step q (OReserve n) r out q'" "bq_step q (OCompact n) r out q'"
  "bq_step q ODiscard r out q'" "bq_step q OLimit r out q'" "bq_step q OClear r out q'"

fun op_need :: "cb_op \<Rightarrow> nat" where
  "op_need (OWrite xs) = length xs"
| "op_need (OReserve n) = n"
| "op_need (ORead n) = n"
| "op_need (OSkip n) = n"
| "op_need _ = 0"

fun cb_run :: "heap \<Rightarrow> cbuffer \<Rightarrow> cb_op list \<Rightarrow> ((int \<times> byte list) list \<times> cbuffer) option" where
  "cb_run h b [] = Some ([], b)"
| "cb_run h b (op # ops) = do {
     (r, out, b) \<leftarrow> cb_exec h b op;
     (outs, b) \<leftarrow> cb_run h b ops;
     Some ((r, out) # outs, b)
   }"

fun bq_run :: "byte list \<Rightarrow> cb_op list \<Rightarrow> (int \<times> byte list) list \<Rightarrow> byte list \<Rightarrow> bool" where
  "bq_run q [] outs q' \<longleftrightarrow> outs = [] \<and> q' = q"
| "bq_run q (op # ops) outs q' \<longleftrightarrow>
     (\<exists>r out q1 outs'. outs = (r, out) # outs' \<and> bq_step q op r out q1 \<and> bq_run q1 ops outs' q')"

lemma cb_exec_simulates:
  assumes inv: "cb_inv b" and small: "m_write_idx b + op_need op < 2 ^ 31"
  shows "\<exists>r out b'. cb_exec h b op = Some (r, out, b') \<and> cb_inv b'
    \<and> bq_step (cb_data b) op r out (cb_data b') \<and> m_write_idx b' \<le> m_write_idx b + op_need op"
proof (cases op)
  case (OWrite xs)
  then show ?thesis
    using Write_ok [OF inv, of xs h] small by (auto simp: cb_room_def bq_step_simps)
next
  case (ORead n)
  show ?thesis
  proof (cases "n \<le> ReadableBytes b")
    case True
    then show ?thesis
      using ORead small inv Read_ok [OF inv True] cb_inv_advance [OF inv True]
      by (simp add: bq_step_simps length_cb_data)
  next
    case False
    then show ?thesis
      using ORead inv by (simp add: Read_short bq_step_simps length_cb_data)
  qed
next
  case (OSkip n)
  then show ?thesis
    using small inv SkipBytes_ok [OF inv, of n] cb_inv_advance [OF inv, of n]
    by (cases "n \<le> ReadableBytes b") (simp_all add: bq_step_simps length_cb_data)
next
  case (OReserve n)
  obtain ok b' where "EnsureWritableBytes h b n = Some (ok, b')" "cb_inv b'"
    "cb_data b' = cb_data b" "m_write_idx b' \<le> m_write_idx b"
    using EnsureWritableBytes_ok [OF inv, of n h] small OReserve by auto
  then show ?thesis using OReserve by (auto simp: Reserve_def bq_step_simps)
next
  case (OCompact n)
  have "ReadableBytes b < 2 ^ 32" using small inv by (simp add: ReadableBytes_inv)
  then show ?thesis using OCompact Compact_ok [OF inv, of h n] by (auto simp: bq_step_simps)
next
  case ODiscard
  obtain b' where "DiscardReadedBytes b = Some b'" "cb_inv b'" "cb_data b' = cb_data b"
    "m_read_idx b' = 0" using DiscardReadedBytes_ok [OF inv] by auto
  moreover from this have "m_write_idx b' = length (cb_data b)"
    using length_cb_data [of b'] by (simp add: ReadableBytes_inv)
  ultimately show ?thesis
    using ODiscard inv by (simp add: bq_step_simps length_cb_data ReadableBytes_inv)
qed (simp_all add: inv bq_step_simps, simp_all add: Limit_def Clear_def)

text \<open>
  C2.  Every sequence of calls on a well-formed buffer (a fresh one is), in which the write index and the sizes of the calls together stay
  below 2 GiB, runs without undefined behaviour and without hanging, keeps the indexes in order, and its results and final
  content are those of the abstract byte queue.  The allocator may fail for any choice of sizes; \<open>SkipBytes\<close>, which
  the code does not check, is called only for bytes that are readable.
\<close>

theorem cbuffer_refines_queue:
  assumes "cb_inv b" and "m_write_idx b + sum_list (map op_need ops) < 2 ^ 31"
  shows "\<exists>outs b'. cb_run h b ops = Some (outs, b') \<and> cb_inv b'
    \<and> bq_run (cb_data b) ops outs (cb_data b')"
  using assms
proof (induction ops arbitrary: b)
  case Nil
  then show ?case by simp
next
  case (Cons op ops)
  obtain r out b1 where 1: "cb_exec h b op = Some (r, out, b1)" "cb_inv b1"
    "bq_step (cb_data b) op r out (cb_data b1)" "m_write_idx b1 \<le> m_write_idx b + op_need op"
    using cb_exec_simulates [of b op h] Cons.prems by auto
  moreover obtain outs b' where "cb_run h b1 ops = Some (outs, b')" "cb_inv b'"
    "bq_run (cb_data b1) ops outs (cb_data b')"
    using Cons.IH [of b1] 1 Cons.prems by auto
  ultimately show ?case by auto
qed

theorem cbuffer_refines_queue_witness:
  "\<exists>outs b'. cb_run ((\<lambda>_. True), (\<lambda>_. 0)) CBuffer_new
       [OWrite [1, 2, 3], ORead 1, OSkip 1, ODiscard, OWrite [4], ORead 2] = Some (outs, b') \<and> cb_inv b'
     \<and> bq_run [] [OWrite [1, 2, 3], ORead 1, OSkip 1, ODiscard, OWrite [4], ORead 2] outs (cb_data b')"
  using cbuffer_refines_queue [of CBuffer_new
      "[OWrite [1, 2, 3], ORead 1, OSkip 1, ODiscard, OWrite [4], ORead 2]" "((\<lambda>_. True), (\<lambda>_. 0))"]
  by (simp add: CBuffer_new_def [THEN arg_cong [where f = m_write_idx]])

subsection \<open>Searching\<close>

lemma index_loop_sound:
  assumes "index_loop m pat s e = Some r" and "0 \<le> r" and "e < 2 ^ 31" and "e \<le> length m"
  shows "\<exists>i. r = int i \<and> s \<le> i \<and> i + length pat \<le> e \<and> segment i (i + length pat) m = pat"
  using assms
proof (induction m pat s e rule: index_loop.induct)
  case (1 m pat s e)
  let ?hay = "take (e - s) (drop s m)"
  have go: "s < e" "pat \<noteq> []"
    using "1.prems"(1,2) by (subst (asm) index_loop.simps, simp split: if_splits)+
  have hay: "mem_read m s (e - s) = Some ?hay" "length ?hay = e - s"
    using go "1.prems"(4) by (auto simp: mem_read_def)
  obtain off where off: "find (\<lambda>i. ?hay ! i = hd pat) [0..<length ?hay] = Some off"
    using "1.prems"(1,2) go hay
    by (subst (asm) index_loop.simps) (auto split: option.splits)
  then have o: "off < e - s" "?hay ! off = hd pat"
    using hay(2) by (auto simp: find_Some_iff)
  let ?p = "s + off"
  have small: "to_int32 ?p = int ?p" using o "1.prems"(3) by (intro to_int32_small) linarith
  show ?case
  proof (cases "length pat = 1")
    case True
    then obtain c where pat: "pat = [c]" by (auto simp: length_Suc_conv)
    have "r = int ?p" using "1.prems"(1) go hay off True small
      by (subst (asm) index_loop.simps) (simp add: Let_def)
    moreover have "segment ?p (?p + 1) m = [m ! ?p]"
      using o "1.prems"(4) by (simp add: segment_def take_Suc_conv_app_nth hd_drop_conv_nth take_Suc)
    moreover have "m ! ?p = c" using o pat go "1.prems"(4) by simp
    ultimately show ?thesis using o pat by (intro exI [of _ ?p]) auto
  next
    case False
    obtain w where w: "mem_read m ?p (length pat) = Some w"
      using "1.prems"(1) go hay off False
      by (cases "mem_read m ?p (length pat)")
        (subst (asm) index_loop.simps, simp add: Let_def)+
    show ?thesis
    proof (cases "w = pat")
      case True
      have "?p + length pat \<le> e" "r = int ?p"
        using "1.prems"(1,2) go hay off w True False small
        by (subst (asm) index_loop.simps, simp add: Let_def split: if_splits)+
      moreover have "segment ?p (?p + length pat) m = pat"
        using w True by (simp add: segment_def mem_read_def split: if_splits)
      ultimately show ?thesis by (intro exI [of _ ?p]) simp
    next
      case ne: False
      have "index_loop m pat (?p + length pat) e = Some r"
        using "1.prems"(1) go hay off w ne False
        by (subst (asm) index_loop.simps) (simp add: Let_def)
      then have "\<exists>i. r = int i \<and> ?p + length pat \<le> i \<and> i + length pat \<le> e
          \<and> segment i (i + length pat) m = pat"
        using "1.IH" [of ?hay off ?p w] "1.prems" go hay off w ne False by simp
      then show ?thesis by auto
    qed
  qed
qed

text \<open>
  A position reported by \<open>IndexOf\<close> is an occurrence of the pattern inside the searched range.
\<close>

theorem IndexOf_sound:
  assumes "cb_inv b" and "m_write_idx b < 2 ^ 31" and "IndexOf b pat s e = Some r" and "0 \<le> r"
  shows "\<exists>i. r = int i \<and> s \<le> i \<and> i + length pat \<le> e
    \<and> segment i (i + length pat) (m_buffer b) = pat"
proof -
  have le: "e \<le> m_write_idx b" "index_loop (m_buffer b) pat s e = Some r"
    using assms(3,4) by (auto simp: IndexOf_def split: if_splits)
  moreover have "m_write_idx b \<le> length (m_buffer b)" using assms(1) by (simp add: cb_inv_def)
  ultimately show ?thesis
    using assms(2,4) by (intro index_loop_sound [OF le(2)]) auto
qed

definition sample_buffer :: "byte list \<Rightarrow> cbuffer" where
  "sample_buffer bs = \<lparr>m_buffer = bs, m_buffer_len = length bs, m_write_idx = length bs, m_read_idx = 0\<rparr>"

lemma sample_buffer_inv [simp]: "length bs < 2 ^ 63 \<Longrightarrow> cb_inv (sample_buffer bs)"
  by (simp add: sample_buffer_def cb_inv_def)

lemma IndexOf_sample: "IndexOf (sample_buffer [5, 7, 9]) [7, 9] 0 3 = Some 1"
  by (simp add: IndexOf_def sample_buffer_def index_loop.simps mem_read_def upt_rec)

theorem IndexOf_sound_witness:
  "\<exists>i. (1::int) = int i \<and> 0 \<le> i \<and> i + length [7, 9 :: byte] \<le> 3
    \<and> segment i (i + length [7, 9 :: byte]) (m_buffer (sample_buffer [5, 7, 9])) = [7, 9]"
proof -
  have "cb_inv (sample_buffer [5, 7, 9])" by simp
  moreover have "m_write_idx (sample_buffer [5, 7, 9]) < 2 ^ 31" by (simp add: sample_buffer_def)
  ultimately show ?thesis
    using IndexOf_sound [of "sample_buffer [5, 7, 9]" "[7, 9]" 0 3 1] IndexOf_sample by simp
qed

text \<open>
  \<open>IndexOf\<close> is not complete: after a failed comparison the scan skips the whole pattern
  length, so the pattern \<open>ab\<close> in \<open>aab\<close> is not found.  It is not memory safe either: \<open>memcmp\<close> of
  \<open>ab\<close> at the last byte of \<open>xba\<close> reads one byte past the allocation.
\<close>

theorem IndexOf_misses_and_overreads:
  "IndexOf (sample_buffer [97, 97, 98]) [97, 98] 0 3 = Some (-1)
   \<and> segment 1 3 (m_buffer (sample_buffer [97, 97, 98])) = [97, 98]
   \<and> IndexOf (sample_buffer [120, 98, 97]) [97, 98] 0 3 = None"
  by (simp add: IndexOf_def sample_buffer_def index_loop.simps mem_read_def segment_def upt_rec)

subsection \<open>Formatted output and input from a descriptor\<close>

lemma vsnprintf_store_ok:
  assumes "cb_inv b"
  shows "\<exists>m. vsnprintf_store (m_buffer b) (m_write_idx b) (WriteableBytes b) s = Some m
    \<and> length m = length (m_buffer b)
    \<and> (length s < WriteableBytes b \<longrightarrow>
        cb_data (b\<lparr>m_buffer := m, m_write_idx := m_write_idx b + length s\<rparr>) = cb_data b @ s)
    \<and> cb_data (b\<lparr>m_buffer := m\<rparr>) = cb_data b"
proof (cases "WriteableBytes b = 0")
  case True
  then show ?thesis by (simp add: vsnprintf_store_def)
next
  case False
  let ?t = "take (WriteableBytes b - 1) s @ [0]"
  have le: "m_write_idx b + length ?t \<le> length (m_buffer b)"
    using False assms by (auto simp: WriteableBytes_inv cb_inv_def)
  let ?w = "m_write_idx b" let ?m = "m_buffer b"
  let ?m' = "take ?w ?m @ ?t @ drop (?w + length ?t) ?m"
  have m: "vsnprintf_store ?m ?w (WriteableBytes b) s = Some ?m'"
    using False le by (simp add: vsnprintf_store_def mem_write_def)
  have rw: "m_read_idx b \<le> ?w" "?w \<le> length ?m" using assms by (auto simp: cb_inv_def)
  have "segment (m_read_idx b) ?w ?m' = segment (m_read_idx b) ?w ?m"
    using segment_append_write [OF rw, of "[]" "?t @ drop (?w + length ?t) ?m"] by simp
  moreover have "segment (m_read_idx b) (?w + length s) ?m' = segment (m_read_idx b) ?w ?m @ s"
    if "length s < WriteableBytes b"
    using segment_append_write [OF rw, of s "[0] @ drop (?w + length ?t) ?m"] that by simp
  moreover have "length ?m' = length ?m" using le by simp
  ultimately show ?thesis using m by (simp add: cb_data_def)
qed

lemma VPrintf_loop_fits:
  assumes "cb_inv b" and "length s < WriteableBytes b" and "m_write_idx b + length s < 2 ^ 63"
  shows "\<exists>b'. VPrintf_loop h s b r = Some (r + int (length s), b') \<and> cb_inv b'
    \<and> cb_data b' = cb_data b @ s"
proof -
  obtain m where m: "vsnprintf_store (m_buffer b) (m_write_idx b) (WriteableBytes b) s = Some m"
    "length m = length (m_buffer b)"
    "cb_data (b\<lparr>m_buffer := m, m_write_idx := m_write_idx b + length s\<rparr>) = cb_data b @ s"
    using vsnprintf_store_ok [OF assms(1)] assms(2) by blast
  have "VPrintf_loop h s b r = Some (r + int (length s),
      b\<lparr>m_buffer := m, m_write_idx := m_write_idx b + length s\<rparr>)"
    using m assms(2,3) by (subst VPrintf_loop.simps) (simp add: AdvanceWriteIndex_def)
  with m assms show ?thesis by (auto simp: cb_inv_def WriteableBytes_inv)
qed

lemma EnsureWritableBytes_total:
  assumes "fst h = (\<lambda>_. True)" and "Capacity b < 2 ^ 31" and "m_write_idx b + n < 2 ^ 30"
    and E: "EnsureWritableBytes h b n = Some (ok, b')"
  shows "ok \<and> Capacity b' < 2 ^ 31"
proof (cases "n \<le> WriteableBytes b")
  case True
  with assms show ?thesis by (simp add: EnsureWritableBytes_def)
next
  case False
  let ?cap = "if Capacity b = 0 then DEFAULT_BUFFER_SIZE else Capacity b"
  have cap: "0 < ?cap" "?cap < 2 ^ 31" using assms(2) by (auto simp: DEFAULT_BUFFER_SIZE_def)
  have sz: "size_add (m_write_idx b) n = m_write_idx b + n" using assms(3) by simp
  obtain c where c: "grow_capacity ?cap (m_write_idx b + n) = Some c"
    using grow_capacity_returns [OF cap(1), of "m_write_idx b + n"] assms(3) by auto
  have "c < 2 ^ 31" using grow_capacity_bound [OF c] cap assms(3) by auto
  moreover from this have "c_malloc h c = Some (map (snd h) [0..<c])"
    using assms(1) by (simp add: c_malloc_def)
  ultimately show ?thesis
    using E c False sz by (auto simp: EnsureWritableBytes_grow Capacity_def split: bind_splits)
qed

text \<open>
  When every allocation succeeds, \<open>VPrintf\<close> returns and appends exactly the formatted text;
  but its result is twice the length of the text whenever the first attempt does not fit, because
  \<open>result += sz\<close> is executed once per attempt.
\<close>

theorem VPrintf_appends_but_counts_twice:
  assumes inv: "cb_inv b" and small: "m_write_idx b + 2 * length s + 64 < 2 ^ 30"
    and cap: "Capacity b < 2 ^ 31" and mal: "fst h = (\<lambda>_. True)"
  shows "\<exists>b1 b'. EnsureWritableBytes h b 64 = Some (True, b1)
    \<and> VPrintf h b (Some s) =
        Some (if length s < WriteableBytes b1 then int (length s) else 2 * int (length s), b')
    \<and> cb_inv b' \<and> cb_data b' = cb_data b @ s"
proof -
  obtain ok1 b1 where b1: "EnsureWritableBytes h b 64 = Some (ok1, b1)" "cb_inv b1"
      "cb_data b1 = cb_data b" "m_write_idx b1 \<le> m_write_idx b"
      "if ok1 then 64 \<le> WriteableBytes b1 else b1 = b"
    using EnsureWritableBytes_ok [OF inv, of 64 h] small by auto
  have ok1: ok1 "Capacity b1 < 2 ^ 31"
    using EnsureWritableBytes_total [OF mal cap _ b1(1)] small by auto
  show ?thesis
  proof (cases "length s < WriteableBytes b1")
    case True
    then show ?thesis
      using VPrintf_loop_fits [OF b1(2) True, of h 0] b1 ok1 small by (simp add: VPrintf_def)
  next
    case False
    obtain m where m: "vsnprintf_store (m_buffer b1) (m_write_idx b1) (WriteableBytes b1) s = Some m"
      "length m = length (m_buffer b1)" "cb_data (b1\<lparr>m_buffer := m\<rparr>) = cb_data b1"
      using vsnprintf_store_ok [OF b1(2)] by blast
    let ?b2 = "b1\<lparr>m_buffer := m\<rparr>"
    have inv2: "cb_inv ?b2" "Capacity ?b2 < 2 ^ 31"
      using b1(2) m(2) ok1(2) by (simp_all add: cb_inv_def Capacity_def)
    obtain ok b3 where b3: "EnsureWritableBytes h ?b2 (2 * length s) = Some (ok, b3)" "cb_inv b3"
        "cb_data b3 = cb_data b" "m_write_idx b3 \<le> m_write_idx b1"
        "if ok then 2 * length s \<le> WriteableBytes b3 else b3 = ?b2"
      using EnsureWritableBytes_ok [OF inv2(1), of "2 * length s" h] m(3) b1(3,4) small by auto
    have ok: ok
      using EnsureWritableBytes_total [OF mal inv2(2) _ b3(1)] b1(4) small by simp
    have "length s < WriteableBytes b3" using b3(5) ok False b1(5) ok1 by simp
    moreover have "m_write_idx b3 + length s < 2 ^ 63" using b3(4) b1(4) small by simp
    ultimately obtain b' where "VPrintf_loop h s b3 (int (length s)) =
        Some (int (length s) + int (length s), b')" "cb_inv b'" "cb_data b' = cb_data b3 @ s"
      using VPrintf_loop_fits [OF b3(2)] by blast
    moreover have "VPrintf_loop h s b1 0 = VPrintf_loop h s b3 (int (length s))"
      using m(1) False small b3(1) ok by (subst VPrintf_loop.simps) simp
    ultimately show ?thesis using b1(1) ok1 b3(3) False by (simp add: VPrintf_def)
  qed
qed

theorem VPrintf_appends_but_counts_twice_witness:
  "\<exists>b1 b'. EnsureWritableBytes ((\<lambda>_. True), (\<lambda>_. 0)) CBuffer_new 64 = Some (True, b1)
    \<and> VPrintf ((\<lambda>_. True), (\<lambda>_. 0)) CBuffer_new (Some (replicate 100 65)) =
        Some (if length (replicate 100 (65 :: byte)) < WriteableBytes b1
              then int (length (replicate 100 (65 :: byte)))
              else 2 * int (length (replicate 100 (65 :: byte))), b')
    \<and> cb_inv b' \<and> cb_data b' = cb_data CBuffer_new @ replicate 100 65"
  by (rule VPrintf_appends_but_counts_twice) (simp_all add: CBuffer_new_def cb_inv_def Capacity_def)

text \<open>
  \<open>ReadFD\<close> never leaves the buffer: it appends the bytes that \<open>readv\<close> delivered.  Only when
  the spill-over from the stack buffer cannot be stored (an allocation fails) is data dropped,
  and then the full count is returned all the same.
\<close>

theorem ReadFD_appends:
  assumes inv: "cb_inv b" and small: "m_write_idx b + length bytes + 2 ^ 32 < 2 ^ 63"
    and len: "length bytes < 2 ^ 31"
    and rd: "rd_call (if WriteableBytes b > 32768 then WriteableBytes b else WriteableBytes b + 32768)
      = Inl bytes"
  shows "\<exists>b'. ReadFD h b rd_call err = Some (int (length bytes), err, b') \<and> cb_inv b'
    \<and> (cb_data b' = cb_data b @ bytes
       \<or> WriteableBytes b < length bytes \<and> cb_data b' = cb_data b @ take (WriteableBytes b) bytes)"
proof (cases "length bytes \<le> WriteableBytes b")
  case True
  with store_at_write [OF inv True] rd show ?thesis by (auto simp: ReadFD_def Let_def)
next
  case False
  let ?w = "WriteableBytes b" let ?t = "take ?w bytes" let ?d = "drop ?w bytes"
  have t: "length ?t = ?w" using False by simp
  have full: "m_write_idx b + ?w = m_buffer_len b"
    using inv by (simp add: WriteableBytes_inv cb_inv_def)
  obtain m where m: "mem_write (m_buffer b) (m_write_idx b) ?t = Some m"
    "cb_inv (b\<lparr>m_buffer := m, m_write_idx := m_buffer_len b\<rparr>)"
    "cb_data (b\<lparr>m_buffer := m, m_write_idx := m_buffer_len b\<rparr>) = cb_data b @ ?t"
    using store_at_write [OF inv, of ?t] t full by auto
  let ?b2 = "b\<lparr>m_buffer := m, m_write_idx := m_buffer_len b\<rparr>"
  have "cb_room ?b2 (length ?d)"
    using small len full False by (simp add: cb_room_def) linarith
  then obtain r b' where w: "Write h ?b2 ?d = Some (r, b')" "cb_inv b'"
    "r = int (length ?d) \<and> cb_data b' = cb_data ?b2 @ ?d \<or> r = -1 \<and> b' = ?b2"
    using Write_ok [OF m(2), of ?d h] by blast
  have "ReadFD h b rd_call err = Some (int (length bytes), err, b')"
    using rd False m(1) w(1) by (simp add: ReadFD_def Let_def)
  with w(2,3) m(3) False show ?thesis by auto
qed

theorem ReadFD_appends_witness:
  "\<exists>b'. ReadFD ((\<lambda>_. True), (\<lambda>_. 0)) CBuffer_new (\<lambda>_. Inl [1, 2]) 0
      = Some (int (length [1, 2 :: byte]), 0, b') \<and> cb_inv b'
    \<and> (cb_data b' = cb_data CBuffer_new @ [1, 2]
       \<or> WriteableBytes CBuffer_new < length [1, 2 :: byte]
         \<and> cb_data b' = cb_data CBuffer_new @ take (WriteableBytes CBuffer_new) [1, 2])"
  by (rule ReadFD_appends) (simp_all add: CBuffer_new_def cb_inv_def)

end
