(* ===== verification/Rc5.thy ===== *)
theory Rc5
  imports Prelude
begin

text \<open>
  The RC5-32 block cipher in CBC mode with padding (\<open>Util/src/util/encrypt/rc5.c\<close> and \<open>rc5.h\<close>) and its two
  callers \<open>Rc5Encrypt\<close> and \<open>Rc5Decrypt\<close> of \<open>Net/src/codec/StarshipCodec.cpp\<close>, which encrypt the
  bodies of client messages.

  Objects behind pointers are records passed and returned; a null pointer is \<open>None\<close>.  A function
  whose result is an option returns \<open>None\<close> for undefined behaviour: an access outside an array, a
  division by zero, a dereferenced null pointer, an uncaught exception of a library call, or a loop
  that does not end.  The main results are that the block functions are inverse to each other, that the
  byte-wise \<open>Update\<close> and \<open>Final\<close> loops compute textbook CBC over the padded message, and that
  decryption restores the message.
\<close>

subsection \<open>Words, rotations and constants\<close>

definition WW :: nat where "WW = 4"

definition BB :: nat where "BB = 8"

definition RC5_FIRST_VERSION :: int where "RC5_FIRST_VERSION = 1"

definition Pw :: u32 where "Pw = 0xb7e15163"

definition Qw :: u32 where "Qw = 0x9e3779b9"

definition ROT_MASK :: u32 where "ROT_MASK = 31"

text \<open>
  Shifts of an \<open>unsigned int\<close>.  The macros shift by \<open>w - (s & ROT_MASK)\<close>, which is 32 when the low bits of
  \<open>s\<close> are zero: undefined in C, and a shift by 0 on the x86-64 target, where the count is taken modulo
  32.  The rotation is the same if such a shift yields 0, since both readings give \<open>x OR x\<close> or
  \<open>x OR 0\<close>.
\<close>

definition c_shl :: "u32 \<Rightarrow> nat \<Rightarrow> u32" where
  "c_shl x n = push_bit (n mod 32) x"

definition c_shr :: "u32 \<Rightarrow> nat \<Rightarrow> u32" where
  "c_shr x n = drop_bit (n mod 32) x"

definition ROTL :: "u32 \<Rightarrow> u32 \<Rightarrow> nat \<Rightarrow> u32" where
  "ROTL x s w = c_shl x (unat (s AND ROT_MASK)) OR c_shr x (w - unat (s AND ROT_MASK))"

definition ROTR :: "u32 \<Rightarrow> u32 \<Rightarrow> nat \<Rightarrow> u32" where
  "ROTR x s w = c_shr x (unat (s AND ROT_MASK)) OR c_shl x (w - unat (s AND ROT_MASK))"

subsection \<open>User keys\<close>

record rc5UserKey =
  keyLength :: nat
  keyBytes :: "byte list option"

definition RC5_Key_Create :: "heap \<Rightarrow> rc5UserKey option" where
  "RC5_Key_Create h = map_option (\<lambda>_. \<lparr>keyLength = 0, keyBytes = None\<rparr>) (c_malloc h 16)"

text \<open>\<open>RC5_Key_Destroy\<close> returns what the key memory holds when it is given back.\<close>

definition RC5_Key_Destroy :: "rc5UserKey option \<Rightarrow> byte list option" where
  "RC5_Key_Destroy pKey =
     (case pKey of None \<Rightarrow> None
      | Some k \<Rightarrow> (case keyBytes k of None \<Rightarrow> None
          | Some bs \<Rightarrow> mem_write bs 0 (replicate (keyLength k) 0)))"

definition RC5_Key_Set :: "heap \<Rightarrow> rc5UserKey \<Rightarrow> nat \<Rightarrow> byte list \<Rightarrow> (int \<times> rc5UserKey) option" where
  "RC5_Key_Set h pKey len bytes =
     (case c_malloc h len of
        None \<Rightarrow> Some (0, pKey)
      | Some copy \<Rightarrow> do {
          bs \<leftarrow> mem_read bytes 0 len;
          copy \<leftarrow> mem_write copy 0 bs;
          Some (1, pKey\<lparr>keyLength := len, keyBytes := Some copy\<rparr>)
        })"

subsection \<open>Key expansion\<close>

definition key_words :: "nat \<Rightarrow> byte list \<Rightarrow> u32 list" where
  "key_words b K =
     fold (\<lambda>i L. L[i div WW := L ! (i div WW) + push_bit (8 * (i mod 4)) (ucast (K ! i AND 0xFF))])
       [0..<b] (replicate ((b + WW - 1) div WW) 0)"

fun fill_S :: "nat \<Rightarrow> u32 list" where
  "fill_S 0 = [Pw]"
| "fill_S (Suc i) = fill_S i @ [last (fill_S i) + Qw]"

fun mix_S :: "nat \<Rightarrow> nat \<Rightarrow> nat \<Rightarrow> u32 \<Rightarrow> u32 \<Rightarrow> u32 list \<Rightarrow> u32 list \<Rightarrow> u32 list" where
  "mix_S 0 i j A B S L = S"
| "mix_S (Suc k) i j A B S L =
     (let A = ROTL (S ! i + A + B) 3 32;
          S = S[i := A];
          B = ROTL (L ! j + A + B) (A + B) 32;
          L = L[j := B]
      in mix_S k ((i + 1) mod length S) ((j + 1) mod length L) A B S L)"

text \<open>
  An empty key makes \<open>j = (j + 1) % LL\<close> divide by zero, a key of more than 256 bytes overruns the
  array \<open>L\<close>.
\<close>

definition RC5_Key_Expand :: "nat \<Rightarrow> byte list \<Rightarrow> nat \<Rightarrow> u32 list option" where
  "RC5_Key_Expand b K R =
     (if b = 0 \<or> b > 256 \<or> length K < b then None
      else
        let L = key_words b K; T = 2 * (R + 1); S = fill_S (T - 1);
            k = (if length L > T then 3 * length L else 3 * T)
        in Some (mix_S k 0 0 0 0 S L))"

subsection \<open>Block encryption and decryption\<close>

fun enc_rounds :: "u32 list \<Rightarrow> nat \<Rightarrow> u32 \<times> u32 \<Rightarrow> u32 \<times> u32" where
  "enc_rounds S 0 AB = AB"
| "enc_rounds S (Suc n) AB =
     (let (A, B) = enc_rounds S n AB; i = Suc n;
          A = A XOR B;
          A = ROTL A B 32 + S ! (2 * i);
          B = B XOR A;
          B = ROTL B A 32 + S ! (2 * i + 1)
      in (A, B))"

fun dec_rounds :: "u32 list \<Rightarrow> nat \<Rightarrow> u32 \<times> u32 \<Rightarrow> u32 \<times> u32" where
  "dec_rounds S 0 AB = AB"
| "dec_rounds S (Suc n) (A, B) =
     (let i = Suc n;
          B = ROTR (B - S ! (2 * i + 1)) A 32;
          B = B XOR A;
          A = ROTR (A - S ! (2 * i)) B 32;
          A = A XOR B
      in dec_rounds S n (A, B))"

definition RC5_Block_Encrypt :: "u32 list \<Rightarrow> nat \<Rightarrow> byte list \<Rightarrow> byte list" where
  "RC5_Block_Encrypt S R inb =
     (let A = le32_load (inb ! 0) (inb ! 1) (inb ! 2) (inb ! 3);
          B = le32_load (inb ! 4) (inb ! 5) (inb ! 6) (inb ! 7);
          A = A + S ! 0;
          B = B + S ! 1;
          (A, B) = enc_rounds S R (A, B)
      in store32 A @ store32 B)"

definition RC5_Block_Decrypt :: "u32 list \<Rightarrow> nat \<Rightarrow> byte list \<Rightarrow> byte list" where
  "RC5_Block_Decrypt S R inb =
     (let A = le32_load (inb ! 0) (inb ! 1) (inb ! 2) (inb ! 3);
          B = le32_load (inb ! 4) (inb ! 5) (inb ! 6) (inb ! 7);
          (A, B) = dec_rounds S R (A, B);
          B = B - S ! 1;
          A = A - S ! 0
      in store32 A @ store32 B)"

subsection \<open>The CBC algorithm object\<close>

record rc5CBCAlg =
  Pad :: int
  R_rounds :: nat
  S_table :: "u32 list"
  I_vec :: "byte list"
  chainBlock :: "byte list"
  inputBlock :: "byte list"
  inputBlockIndex :: nat

definition RC5_CBC_Create :: "heap \<Rightarrow> int \<Rightarrow> int \<Rightarrow> int \<Rightarrow> nat \<Rightarrow> byte list \<Rightarrow> rc5CBCAlg option" where
  "RC5_CBC_Create h pad R Version bb I =
     (if Version \<noteq> RC5_FIRST_VERSION \<or> bb \<noteq> BB \<or> R < 0 \<or> 255 < R then None
      else if c_malloc h 56 = None then None
      else (case c_malloc h (BB * nat (R + 1)) of
              None \<Rightarrow> None
            | Some raw \<Rightarrow>
                Some \<lparr>Pad = pad, R_rounds = nat R,
                      S_table = map (\<lambda>i. load32 (drop (4 * i) raw)) [0..<2 * nat (R + 1)],
                      I_vec = take BB I, chainBlock = map (snd h) [0..<BB],
                      inputBlock = map (snd h) [0..<BB], inputBlockIndex = 0\<rparr>))"

text \<open>\<open>RC5_CBC_Destroy\<close> clears the object; the record is what the freed memory holds.\<close>

definition RC5_CBC_Destroy :: "rc5CBCAlg \<Rightarrow> rc5CBCAlg" where
  "RC5_CBC_Destroy alg =
     alg\<lparr>S_table := replicate (2 * (1 + R_rounds alg)) 0 @ drop (2 * (1 + R_rounds alg)) (S_table alg),
         I_vec := replicate BB 0, inputBlock := replicate BB 0, chainBlock := replicate BB 0,
         Pad := 0, R_rounds := 0, inputBlockIndex := 0\<rparr>"

definition RC5_CBC_SetIV :: "rc5CBCAlg \<Rightarrow> byte list \<Rightarrow> int \<times> rc5CBCAlg" where
  "RC5_CBC_SetIV alg I =
     (1, alg\<lparr>inputBlockIndex := 0, I_vec := take BB I, chainBlock := take BB I,
             inputBlock := replicate BB 0\<rparr>)"

definition RC5_CBC_Encrypt_Init ::
  "rc5CBCAlg option \<Rightarrow> rc5UserKey option \<Rightarrow> (int \<times> rc5CBCAlg option) option" where
  "RC5_CBC_Encrypt_Init pAlg pKey =
     (case (pAlg, pKey) of
        (Some alg, Some key) \<Rightarrow> do {
          S \<leftarrow> RC5_Key_Expand (keyLength key) (case keyBytes key of None \<Rightarrow> [] | Some bs \<Rightarrow> bs)
                (R_rounds alg);
          let (r, alg) = RC5_CBC_SetIV (alg\<lparr>S_table := S\<rparr>) (I_vec alg);
          Some (r, Some alg)
        }
      | _ \<Rightarrow> Some (0, pAlg))"

definition RC5_CBC_Decrypt_Init ::
  "rc5CBCAlg option \<Rightarrow> rc5UserKey option \<Rightarrow> (int \<times> rc5CBCAlg option) option" where
  "RC5_CBC_Decrypt_Init pAlg pKey =
     (case (pAlg, pKey) of
        (Some alg, Some key) \<Rightarrow> do {
          S \<leftarrow> RC5_Key_Expand (keyLength key) (case keyBytes key of None \<Rightarrow> [] | Some bs \<Rightarrow> bs)
                (R_rounds alg);
          let (r, alg) = RC5_CBC_SetIV (alg\<lparr>S_table := S\<rparr>) (I_vec alg);
          Some (r, Some alg)
        }
      | _ \<Rightarrow> Some (0, pAlg))"

subsection \<open>Encryption of a byte stream\<close>

definition xor_bytes :: "byte list \<Rightarrow> byte list \<Rightarrow> byte list" where
  "xor_bytes xs ys = map2 (XOR) xs ys"

text \<open>A full input block: XOR in the chain block, encrypt into it, output it.\<close>

definition enc_flush :: "rc5CBCAlg \<Rightarrow> byte list \<Rightarrow> rc5CBCAlg \<times> byte list" where
  "enc_flush alg C =
     (let inb = xor_bytes (inputBlock alg) (chainBlock alg);
          ch = RC5_Block_Encrypt (S_table alg) (R_rounds alg) inb
      in (alg\<lparr>inputBlockIndex := 0, inputBlock := inb, chainBlock := ch\<rparr>, C @ ch))"

definition put_input :: "rc5CBCAlg \<Rightarrow> byte \<Rightarrow> rc5CBCAlg" where
  "put_input alg p =
     alg\<lparr>inputBlock := (inputBlock alg)[inputBlockIndex alg := p],
         inputBlockIndex := inputBlockIndex alg + 1\<rparr>"

text \<open>The loop \<open>while (plainIndex < N)\<close>; \<open>P\<close> is the input that is left, \<open>C\<close> the output so far.\<close>

partial_function (option) enc_update_loop ::
  "rc5CBCAlg \<Rightarrow> byte list \<Rightarrow> byte list \<Rightarrow> (rc5CBCAlg \<times> byte list) option" where
  "enc_update_loop alg P C =
     (if P = [] then Some (alg, C)
      else
        let (alg, P) = (if inputBlockIndex alg < BB then (put_input alg (hd P), tl P) else (alg, P));
            (alg, C) = (if inputBlockIndex alg = BB then enc_flush alg C else (alg, C))
        in enc_update_loop alg P C)"

definition RC5_CBC_Encrypt_Update ::
  "rc5CBCAlg \<Rightarrow> byte list \<Rightarrow> nat \<Rightarrow> (int \<times> rc5CBCAlg \<times> byte list) option" where
  "RC5_CBC_Encrypt_Update alg P maxCipherLen =
     (if maxCipherLen < ((inputBlockIndex alg + length P) div BB) * BB then Some (0, alg, [])
      else map_option (\<lambda>(alg, C). (1, alg, C)) (enc_update_loop alg P []))"

definition RC5_CBC_Encrypt_Final ::
  "rc5CBCAlg \<Rightarrow> nat \<Rightarrow> int \<times> rc5CBCAlg \<times> byte list" where
  "RC5_CBC_Encrypt_Final alg maxCipherLen =
     (if Pad alg = 0 \<and> inputBlockIndex alg \<noteq> 0 then (0, alg, [])
      else if Pad alg = 0 then (1, alg, [])
      else if maxCipherLen < BB then (0, alg, [])
      else
        let padLength = BB - inputBlockIndex alg;
            alg = fold (\<lambda>_ a. put_input a (of_nat padLength)) [0..<padLength] alg;
            (alg, C) = enc_flush alg [];
            (r, alg) = RC5_CBC_SetIV alg (I_vec alg)
        in (r, alg, C))"

subsection \<open>Decryption of a byte stream\<close>

text \<open>
  The inner loop over one decrypted block: the first block is combined with the initial vector
  stored in \<open>P\<close> beforehand, a later one with the previous ciphertext block in \<open>C\<close>.
\<close>

fun dec_out :: "byte list \<Rightarrow> nat \<Rightarrow> nat \<Rightarrow> nat \<Rightarrow> byte list \<Rightarrow> byte list \<Rightarrow> (nat \<times> byte list) option" where
  "dec_out C cipherIndex j plainIndex [] P = Some (plainIndex, P)"
| "dec_out C cipherIndex j plainIndex (ch # chs) P =
     (if plainIndex \<ge> length P then None
      else if plainIndex < BB
      then dec_out C cipherIndex (j + 1) (plainIndex + 1) chs (P[plainIndex := P ! plainIndex XOR ch])
      else if cipherIndex < 16 \<or> cipherIndex - 16 + j \<ge> length C then None
      else dec_out C cipherIndex (j + 1) (plainIndex + 1) chs
             (P[plainIndex := C ! (cipherIndex - 16 + j) XOR ch]))"

partial_function (option) dec_update_loop ::
  "rc5CBCAlg \<Rightarrow> byte list \<Rightarrow> nat \<Rightarrow> nat \<Rightarrow> byte list \<Rightarrow> (rc5CBCAlg \<times> nat \<times> byte list) option" where
  "dec_update_loop alg C cipherIndex plainIndex P =
     (if cipherIndex < length C then
        let (alg, cipherIndex) =
              (if inputBlockIndex alg < BB then (put_input alg (C ! cipherIndex), cipherIndex + 1)
               else (alg, cipherIndex))
        in if inputBlockIndex alg = BB then
             let ch = RC5_Block_Decrypt (S_table alg) (R_rounds alg) (inputBlock alg);
                 alg = alg\<lparr>inputBlockIndex := 0, chainBlock := ch\<rparr>
             in Option.bind (dec_out C cipherIndex 0 plainIndex ch P)
                  (\<lambda>iP. dec_update_loop alg C cipherIndex (fst iP) (snd iP))
           else dec_update_loop alg C cipherIndex plainIndex P
      else Some (alg, plainIndex, P))"

definition RC5_CBC_Decrypt_Update ::
  "rc5CBCAlg \<Rightarrow> byte list \<Rightarrow> byte list \<Rightarrow> (int \<times> rc5CBCAlg \<times> nat \<times> byte list) option" where
  "RC5_CBC_Decrypt_Update alg C P = do {
     P \<leftarrow> mem_write P 0 (chainBlock alg);
     (alg, plainLen, P) \<leftarrow> dec_update_loop alg C 0 0 P;
     Some (1, alg, plainLen, P)
   }"

subsection \<open>Rc5Encrypt and Rc5Decrypt of the codec\<close>

definition szIv :: "byte list" where
  "szIv = [0x32, 0x30, 0x31, 0x37, 0x2D, 0x30, 0x38, 0x2D, 0x31, 0x30,
           0x20, 0x30, 0x38, 0x3A, 0x35, 0x33, 0x3A, 0x34, 0x37, 0]"

definition Rc5Encrypt :: "heap \<Rightarrow> byte list \<Rightarrow> byte list \<Rightarrow> byte list option" where
  "Rc5Encrypt h key strSrc = do {
     pPlain \<leftarrow> c_malloc h (length strSrc);
     pCipher \<leftarrow> c_malloc h (length strSrc * 2);
     pKey \<leftarrow> RC5_Key_Create h;
     (_, pKey) \<leftarrow> RC5_Key_Set h pKey (length key) key;
     let pAlg = RC5_CBC_Create h 1 16 RC5_FIRST_VERSION BB szIv;
     (_, pAlg) \<leftarrow> RC5_CBC_Encrypt_Init pAlg (Some pKey);
     alg \<leftarrow> pAlg;
     (_, alg, C1) \<leftarrow> RC5_CBC_Encrypt_Update alg strSrc (length strSrc * 2);
     let (_, alg, C2) = RC5_CBC_Encrypt_Final alg (length strSrc * 2 - length C1);
     Some (C1 @ C2)
   }"

definition Rc5Decrypt :: "heap \<Rightarrow> byte list \<Rightarrow> byte list \<Rightarrow> byte list option" where
  "Rc5Decrypt h key strSrc = do {
     pCipher \<leftarrow> c_malloc h (length strSrc);
     pPlain \<leftarrow> c_malloc h (length strSrc);
     pKey \<leftarrow> RC5_Key_Create h;
     (_, pKey) \<leftarrow> RC5_Key_Set h pKey (length key) key;
     let pAlg = RC5_CBC_Create h 1 16 RC5_FIRST_VERSION BB szIv;
     (_, pAlg) \<leftarrow> RC5_CBC_Decrypt_Init pAlg (Some pKey);
     alg \<leftarrow> pAlg;
     (_, alg, numBytesOut, pPlain) \<leftarrow> RC5_CBC_Decrypt_Update alg strSrc pPlain;
     if numBytesOut = 0 then None
     else
       let fillBytes = sint (pPlain ! (numBytesOut - 1));
           plain_length = int numBytesOut - fillBytes
       in if plain_length < 0 \<or> int (length pPlain) < plain_length then None
          else Some (take (nat plain_length) pPlain)
   }"

subsection \<open>Rotations\<close>

lemma mask31: "unat (s AND ROT_MASK) = unat (s::u32) mod 32"
proof -
  have "s AND ROT_MASK = take_bit 5 s" by (simp add: ROT_MASK_def take_bit_eq_mask mask_eq_exp_minus_1)
  then have "unat (s AND ROT_MASK) = take_bit 5 (unat s)" by (simp only: unsigned_take_bit_eq)
  then show ?thesis by (simp add: take_bit_eq_mod)
qed

lemma bit32: "bit (x :: u32) n \<Longrightarrow> n < 32" using bit_imp_le_length by fastforce

lemma ROTL_rotl: "ROTL x s 32 = word_rotl (unat s) x"
proof (rule bit_word_eqI)
  fix n assume n: "n < LENGTH(32)"
  define r where "r = unat s mod 32"
  have r: "r < 32" by (simp add: r_def)
  consider "r = 0" | "0 < r" "r \<le> n" | "0 < r" "n < r" by linarith
  then show "bit (ROTL x s 32) n = bit (word_rotl (unat s) x) n"
  proof cases
    case 1
    then show ?thesis using n by (simp add: ROTL_def c_shl_def c_shr_def mask31 bit_simps r_def)
  next
    case 2
    then have "(n + (32 - r)) mod 32 = n - r" "(32 - r) mod 32 = 32 - r" "\<not> bit x (32 - r + n)"
      using n r bit32 [of x "32 - r + n"] by (auto simp: mod_if)
    then show ?thesis using n r 2 by (auto simp: ROTL_def c_shl_def c_shr_def mask31 bit_simps r_def [symmetric])
  next
    case 3
    then have "(n + (32 - r)) mod 32 = 32 - r + n" "(32 - r) mod 32 = 32 - r"
      using n r by auto
    with 3 n r show ?thesis by (simp add: ROTL_def c_shl_def c_shr_def mask31 bit_simps r_def [symmetric])
  qed
qed

lemma ROTR_rotr: "ROTR x s 32 = word_rotr (unat s) x"
proof (rule bit_word_eqI)
  fix n assume n: "n < LENGTH(32)"
  define r where "r = unat s mod 32"
  have r: "r < 32" by (simp add: r_def)
  have nr: "(n + unat s) mod 32 = (n + r) mod 32" by (simp add: r_def mod_add_right_eq)
  consider "r = 0" | "0 < r" "n + r < 32" | "0 < r" "32 \<le> n + r" by linarith
  then show "bit (ROTR x s 32) n = bit (word_rotr (unat s) x) n"
  proof cases
    case 1
    then show ?thesis using n nr by (simp add: ROTR_def c_shl_def c_shr_def mask31 bit_simps r_def)
  next
    case 2
    then have "(32 - r) mod 32 = 32 - r" "(n + r) mod 32 = n + r" using n r by auto
    then show ?thesis using n r 2 nr
      by (auto simp: ROTR_def c_shl_def c_shr_def mask31 bit_simps r_def [symmetric] add.commute)
  next
    case 3
    then have "(32 - r) mod 32 = 32 - r" "(n + r) mod 32 = n - (32 - r)" "\<not> bit x (n + r)"
      using n r bit32 [of x "n + r"] by (auto simp: mod_if)
    then show ?thesis using n r 3 nr
      by (auto simp: ROTR_def c_shl_def c_shr_def mask31 bit_simps r_def [symmetric] add.commute)
  qed
qed

lemmas rotations = ROTL_rotl ROTR_rotr

subsection \<open>The block functions are inverse to each other\<close>

lemma xor_cancel [simp]: "((x :: 'a :: len word) XOR y) XOR y = x"
  by (simp add: xor.assoc)

lemma dec_enc_rounds: "dec_rounds S n (enc_rounds S n AB) = AB"
proof (induction n arbitrary: AB)
  case 0
  then show ?case by simp
next
  case (Suc n)
  obtain A B where AB: "enc_rounds S n AB = (A, B)" by force
  with Suc [of AB] show ?case
    by (simp add: Let_def rotations)
qed

lemma enc_dec_rounds: "enc_rounds S n (dec_rounds S n AB) = AB"
proof (induction n arbitrary: AB)
  case 0
  then show ?case by simp
next
  case (Suc n)
  obtain A B where AB: "AB = (A, B)" by force
  show ?case by (simp add: AB Let_def Suc.IH rotations)
qed

lemma length8_E:
  assumes "length xs = 8"
  obtains a b c d e f g h where "xs = [a, b, c, d, e, f, g, h]"
  using assms by (auto simp: numeral_eq_Suc length_Suc_conv)

lemma length_block [simp]:
  "length (RC5_Block_Encrypt S R x) = 8" "length (RC5_Block_Decrypt S R x) = 8"
  by (simp_all add: RC5_Block_Encrypt_def RC5_Block_Decrypt_def Let_def split: prod.split)

lemma block_decrypt_encrypt:
  assumes "length x = 8"
  shows "RC5_Block_Decrypt S R (RC5_Block_Encrypt S R x) = x"
proof -
  obtain a b c d e f g h where x: "x = [a, b, c, d, e, f, g, h]"
    using assms length8_E by metis
  let ?AB = "(le32_load a b c d + S ! 0, le32_load e f g h + S ! 1)"
  obtain A B where "enc_rounds S R ?AB = (A, B)" by force
  with dec_enc_rounds [of S R ?AB] le32_load_bytes [of A] le32_load_bytes [of B]
  show ?thesis
    by (simp add: x RC5_Block_Encrypt_def RC5_Block_Decrypt_def Let_def store32_def word_byte_load)
qed

lemma block_encrypt_decrypt:
  assumes "length x = 8"
  shows "RC5_Block_Encrypt S R (RC5_Block_Decrypt S R x) = x"
proof -
  obtain a b c d e f g h where x: "x = [a, b, c, d, e, f, g, h]"
    using assms length8_E by metis
  let ?AB = "(le32_load a b c d, le32_load e f g h)"
  obtain A B where "dec_rounds S R ?AB = (A, B)" by force
  with enc_dec_rounds [of S R ?AB] le32_load_bytes [of "A - S ! 0"] le32_load_bytes [of "B - S ! 1"]
  show ?thesis
    by (simp add: x RC5_Block_Encrypt_def RC5_Block_Decrypt_def Let_def store32_def word_byte_load)
qed

text \<open>
  For every expanded key and number of rounds, \<open>RC5_Block_Decrypt\<close> undoes \<open>RC5_Block_Encrypt\<close> on every
  eight byte block, and conversely.
\<close>

theorem RC5_block_inverse:
  assumes "length x = BB"
  shows "RC5_Block_Decrypt S R (RC5_Block_Encrypt S R x) = x
    \<and> RC5_Block_Encrypt S R (RC5_Block_Decrypt S R x) = x"
  using assms by (simp add: BB_def block_decrypt_encrypt block_encrypt_decrypt)

theorem RC5_block_inverse_witness:
  "RC5_Block_Decrypt [1, 2, 3, 4] 1 (RC5_Block_Encrypt [1, 2, 3, 4] 1 [1, 2, 3, 4, 5, 6, 7, 8])
     = [1, 2, 3, 4, 5, 6, 7, 8]
   \<and> RC5_Block_Encrypt [1, 2, 3, 4] 1 (RC5_Block_Decrypt [1, 2, 3, 4] 1 [1, 2, 3, 4, 5, 6, 7, 8])
     = [1, 2, 3, 4, 5, 6, 7, 8]"
  by (rule RC5_block_inverse) (simp add: BB_def)

subsection \<open>Cipher block chaining, the specification\<close>

text \<open>
  Textbook CBC with a block function \<open>E\<close> and its inverse \<open>D\<close>, over the whole blocks of a message;
  \<open>cbc_chain\<close> is the last ciphertext block and \<open>cbc_rest\<close> the bytes that do not fill a block.
\<close>

fun cbc_enc :: "(byte list \<Rightarrow> byte list) \<Rightarrow> byte list \<Rightarrow> byte list \<Rightarrow> byte list" where
  "cbc_enc E ch m =
     (if length m < 8 then []
      else E (xor_bytes (take 8 m) ch) @ cbc_enc E (E (xor_bytes (take 8 m) ch)) (drop 8 m))"

fun cbc_chain :: "(byte list \<Rightarrow> byte list) \<Rightarrow> byte list \<Rightarrow> byte list \<Rightarrow> byte list" where
  "cbc_chain E ch m =
     (if length m < 8 then ch else cbc_chain E (E (xor_bytes (take 8 m) ch)) (drop 8 m))"

fun cbc_rest :: "byte list \<Rightarrow> byte list" where
  "cbc_rest m = (if length m < 8 then m else cbc_rest (drop 8 m))"

fun cbc_dec :: "(byte list \<Rightarrow> byte list) \<Rightarrow> byte list \<Rightarrow> byte list \<Rightarrow> byte list" where
  "cbc_dec D ch c =
     (if length c < 8 then []
      else xor_bytes (D (take 8 c)) ch @ cbc_dec D (take 8 c) (drop 8 c))"

declare cbc_enc.simps [simp del] cbc_chain.simps [simp del] cbc_rest.simps [simp del]
  cbc_dec.simps [simp del]

lemma xor_bytes_cancel: "length xs = length ys \<Longrightarrow> xor_bytes (xor_bytes xs ys) ys = xs"
  by (induction xs ys rule: list_induct2) (auto simp: xor_bytes_def xor.assoc)

lemma length_xor_bytes [simp]: "length (xor_bytes xs ys) = min (length xs) (length ys)"
  by (simp add: xor_bytes_def)

lemma cbc_rest_length: "length (cbc_rest m) = length m mod 8"
  by (induction m rule: cbc_rest.induct) (subst cbc_rest.simps, simp add: le_mod_geq)

lemma cbc_enc_length:
  "\<forall>x. length (E x) = 8 \<Longrightarrow> length (cbc_enc E ch m) = 8 * (length m div 8)"
proof (induction E ch m rule: cbc_enc.induct)
  case (1 E ch m)
  then show ?case
    by (cases "length m < 8") (simp_all add: cbc_enc.simps [of E ch m] le_div_geq)
qed

lemma cbc_dec_enc:
  assumes "\<forall>x. length (E x) = 8" and "\<forall>x. length x = 8 \<longrightarrow> D (E x) = x"
    and "length ch = 8" and "8 dvd length m"
  shows "cbc_dec D ch (cbc_enc E ch m) = m"
  using assms
proof (induction E ch m rule: cbc_enc.induct)
  case (1 E ch m)
  show ?case
  proof (cases "length m < 8")
    case True
    with "1.prems"(4) have "m = []" by (auto dest: dvd_imp_le)
    then show ?thesis by (simp add: cbc_enc.simps cbc_dec.simps)
  next
    case False
    let ?c = "E (xor_bytes (take 8 m) ch)"
    have "8 dvd length (drop 8 m)" using "1.prems"(4) False by (simp add: dvd_minus_self)
    then have "cbc_dec D ?c (cbc_enc E ?c (drop 8 m)) = drop 8 m"
      using False "1.prems" by (intro "1.IH") auto
    moreover have "xor_bytes (D ?c) ch = take 8 m"
      using "1.prems" False by (simp add: xor_bytes_cancel)
    ultimately show ?thesis
      using False "1.prems"(1)
      by (simp add: cbc_enc.simps [of E ch m]) (simp add: cbc_dec.simps [of D ch])
  qed
qed

lemma cbc_enc_append:
  assumes "\<forall>x. length (E x) = 8"
  shows "cbc_enc E ch (m @ m') = cbc_enc E ch m @ cbc_enc E (cbc_chain E ch m) (cbc_rest m @ m')"
  using assms
proof (induction E ch m rule: cbc_enc.induct)
  case (1 E ch m)
  show ?case
  proof (cases "length m < 8")
    case True
    then show ?thesis by (simp add: cbc_enc.simps [of E ch m] cbc_chain.simps [of E ch m] cbc_rest.simps [of m])
  next
    case False
    then show ?thesis
      using "1.IH" "1.prems"
      by (simp add: cbc_enc.simps [of E ch m] cbc_enc.simps [of E ch "m @ m'"]
          cbc_chain.simps [of E ch m] cbc_rest.simps [of m])
  qed
qed

subsection \<open>The encryption loop computes it\<close>

definition alg_ok :: "rc5CBCAlg \<Rightarrow> bool" where
  "alg_ok a \<longleftrightarrow> length (inputBlock a) = 8 \<and> length (chainBlock a) = 8 \<and> inputBlockIndex a < 8"

definition pending :: "rc5CBCAlg \<Rightarrow> byte list" where
  "pending a = take (inputBlockIndex a) (inputBlock a)"

definition alg_E :: "rc5CBCAlg \<Rightarrow> byte list \<Rightarrow> byte list" where
  "alg_E a = RC5_Block_Encrypt (S_table a) (R_rounds a)"

text \<open>What the loops leave alone: key table, rounds, padding mode and initial vector.\<close>

definition same_key :: "rc5CBCAlg \<Rightarrow> rc5CBCAlg \<Rightarrow> bool" where
  "same_key a b \<longleftrightarrow> S_table a = S_table b \<and> R_rounds a = R_rounds b \<and> Pad a = Pad b \<and> I_vec a = I_vec b"

lemma put_input_simps:
  assumes "alg_ok a"
  shows "pending (put_input a p) = pending a @ [p]" "inputBlockIndex (put_input a p) = Suc (inputBlockIndex a)"
    "length (inputBlock (put_input a p)) = 8" "chainBlock (put_input a p) = chainBlock a"
    "same_key (put_input a p) a"
  using assms by (simp_all add: pending_def put_input_def alg_ok_def same_key_def
      take_Suc_conv_app_nth)

lemma enc_update_loop_step:
  assumes "alg_ok a"
  shows "enc_update_loop a (p # P) C =
    (if Suc (inputBlockIndex a) = 8 then case enc_flush (put_input a p) C of (a', C') \<Rightarrow> enc_update_loop a' P C'
     else enc_update_loop (put_input a p) P C)"
  using assms by (subst enc_update_loop.simps) (simp add: alg_ok_def BB_def put_input_def split: prod.split)

lemma enc_update_loop_cbc:
  assumes "alg_ok a"
  shows "\<exists>a'. enc_update_loop a P C = Some (a', C @ cbc_enc (alg_E a) (chainBlock a) (pending a @ P))
    \<and> alg_ok a' \<and> same_key a' a \<and> chainBlock a' = cbc_chain (alg_E a) (chainBlock a) (pending a @ P)
    \<and> pending a' = cbc_rest (pending a @ P)"
  using assms
proof (induction P arbitrary: a C)
  case Nil
  have "length (pending a) < 8" using Nil by (simp add: pending_def alg_ok_def)
  then show ?case using Nil
    by (subst enc_update_loop.simps)
      (simp add: cbc_enc.simps cbc_chain.simps cbc_rest.simps same_key_def)
next
  case (Cons p P)
  let ?a = "put_input a p"
  note pi = put_input_simps [OF Cons.prems, of p]
  have E: "alg_E b = alg_E a" if "same_key b a" for b using that by (simp add: alg_E_def same_key_def)
  show ?case
  proof (cases "Suc (inputBlockIndex a) = 8")
    case True
    let ?c = "alg_E a (xor_bytes (inputBlock ?a) (chainBlock a))"
    have full: "pending a @ [p] = inputBlock ?a" "length (pending a) = 7"
      using pi True Cons.prems by (simp_all add: pending_def alg_ok_def)
    obtain b where fl: "enc_flush ?a C = (b, C @ ?c)" "chainBlock b = ?c" "pending b = []" "same_key b a" "alg_ok b"
      using pi Cons.prems by (auto simp: enc_flush_def Let_def alg_E_def same_key_def pending_def alg_ok_def)
    obtain a' where a': "enc_update_loop b P (C @ ?c) =
        Some (a', (C @ ?c) @ cbc_enc (alg_E a) ?c P)" "alg_ok a'" "same_key a' b"
        "chainBlock a' = cbc_chain (alg_E a) ?c P" "pending a' = cbc_rest P"
      using Cons.IH [OF fl(5), of "C @ ?c"] fl E [OF fl(4)] by auto
    have tk: "take 8 (pending a @ p # P) = inputBlock ?a" "drop 8 (pending a @ p # P) = P"
      using full by (simp_all flip: full(1))
    have "enc_update_loop a (p # P) C = enc_update_loop b P (C @ ?c)"
      using True fl(1) by (simp add: enc_update_loop_step [OF Cons.prems])
    with a' tk fl(4) full(2) show ?thesis
      by (simp add: cbc_enc.simps [of _ _ "pending a @ p # P"] cbc_chain.simps [of _ _ "pending a @ p # P"]
          cbc_rest.simps [of "pending a @ p # P"] same_key_def)
  next
    case False
    have ok: "alg_ok ?a" using pi False Cons.prems by (simp add: alg_ok_def)
    have "enc_update_loop a (p # P) C = enc_update_loop ?a P C"
      using False by (simp add: enc_update_loop_step [OF Cons.prems])
    with Cons.IH [OF ok, of C] pi E [OF pi(5)] show ?thesis
      by (auto simp: same_key_def)
  qed
qed

lemma fold_put_input:
  assumes "inputBlockIndex a + length ps \<le> 8" "length (inputBlock a) = 8"
  shows "pending (fold (\<lambda>p x. put_input x p) ps a) = pending a @ ps
    \<and> inputBlockIndex (fold (\<lambda>p x. put_input x p) ps a) = inputBlockIndex a + length ps
    \<and> length (inputBlock (fold (\<lambda>p x. put_input x p) ps a)) = 8
    \<and> chainBlock (fold (\<lambda>p x. put_input x p) ps a) = chainBlock a
    \<and> same_key (fold (\<lambda>p x. put_input x p) ps a) a"
  using assms
proof (induction ps arbitrary: a)
  case Nil
  then show ?case by (simp add: same_key_def)
next
  case (Cons p ps)
  have "pending (put_input a p) = pending a @ [p]"
    using Cons.prems by (simp add: pending_def put_input_def take_Suc_conv_app_nth)
  moreover have "inputBlockIndex (put_input a p) + length ps \<le> 8" "length (inputBlock (put_input a p)) = 8"
    "chainBlock (put_input a p) = chainBlock a" "same_key (put_input a p) a"
    using Cons.prems by (simp_all add: put_input_def same_key_def)
  ultimately show ?case using Cons.IH [of "put_input a p"]
    by (auto simp: put_input_def same_key_def)
qed

lemma fold_ignore: "fold (\<lambda>_ x. f x v) [0..<n] a = fold (\<lambda>p x. f x p) (replicate n v) a"
  by (induction n arbitrary: a) (simp_all add: replicate_append_same [symmetric])

text \<open>The padding of RC5-CBC-Pad: 1 to 8 bytes, each holding their number.\<close>

definition pad_bytes :: "nat \<Rightarrow> byte list" where
  "pad_bytes n = replicate (8 - n mod 8) (of_nat (8 - n mod 8))"

lemma length_pad_bytes: "8 dvd n + length (pad_bytes n)" "length (pad_bytes n) = 8 - n mod 8"
  by (simp_all add: pad_bytes_def) presburger

lemma RC5_CBC_Encrypt_Final_cbc:
  assumes "alg_ok a" and "Pad a \<noteq> 0" and "8 \<le> maxlen"
  shows "\<exists>a'. RC5_CBC_Encrypt_Final a maxlen =
    (1, a', cbc_enc (alg_E a) (chainBlock a) (pending a @ pad_bytes (length (pending a))))"
proof -
  let ?n = "8 - inputBlockIndex a" let ?v = "of_nat ?n :: byte"
  define b where "b = fold (\<lambda>p x. put_input x p) (replicate ?n ?v) a"
  have i: "inputBlockIndex a < 8" "length (pending a) = inputBlockIndex a" "length (inputBlock a) = 8"
    using assms(1) by (auto simp: alg_ok_def pending_def)
  have f: "pending b = pending a @ replicate ?n ?v" "inputBlockIndex b = 8" "length (inputBlock b) = 8"
    "chainBlock b = chainBlock a" "same_key b a"
    using fold_put_input [of a "replicate ?n ?v"] i unfolding b_def by auto
  have m: "inputBlock b = pending a @ pad_bytes (length (pending a))"
    using f(1,2,3) i by (simp add: pending_def [of b] pad_bytes_def)
  have len: "length (inputBlock b) = 8" using f(3) .
  have "snd (enc_flush b []) = cbc_enc (alg_E a) (chainBlock a) (inputBlock b)"
    using f(4,5) len
    by (simp add: enc_flush_def Let_def cbc_enc.simps alg_E_def same_key_def)
  moreover have "\<exists>a'. RC5_CBC_Encrypt_Final a maxlen = (1, a', snd (enc_flush b []))"
    using assms(2,3) by (simp add: RC5_CBC_Encrypt_Final_def BB_def Let_def fold_ignore RC5_CBC_SetIV_def b_def
        split: prod.split)
  ultimately show ?thesis using m by simp
qed

subsection \<open>The decryption loop computes it\<close>

lemma xor_bytes_commute: "xor_bytes xs ys = xor_bytes ys xs"
  unfolding xor_bytes_def by (subst zip_commute) (auto simp: xor.commute)

lemma xor_bytes_Cons [simp]: "xor_bytes (x # xs) (y # ys) = (x XOR y) # xor_bytes xs ys"
  by (simp add: xor_bytes_def)

lemma xor_bytes_Nil [simp]: "xor_bytes [] ys = []" "xor_bytes xs [] = []"
  by (simp_all add: xor_bytes_def)

lemma segment_Cons: "i < j \<Longrightarrow> j \<le> length xs \<Longrightarrow> segment i j xs = xs ! i # segment (Suc i) j xs"
  by (simp add: segment_def Cons_nth_drop_Suc [symmetric] take_Cons')

lemma segment_update: "k < i \<Longrightarrow> segment i j (xs[k := v]) = segment i j xs"
  by (simp add: segment_def)

lemma dec_out_first:
  assumes "pi + length chs \<le> 8" and "pi + length chs \<le> length P"
  shows "dec_out C ci j pi chs P = Some (pi + length chs,
    take pi P @ xor_bytes (segment pi (pi + length chs) P) chs @ drop (pi + length chs) P)"
  using assms
proof (induction chs arbitrary: j pi P)
  case Nil
  then show ?case by simp
next
  case (Cons c chs)
  let ?P = "P[pi := P ! pi XOR c]"
  have "dec_out C ci j pi (c # chs) P = dec_out C ci (j + 1) (pi + 1) chs ?P"
    using Cons.prems by (simp add: BB_def)
  also have "\<dots> = Some (pi + 1 + length chs,
      take (pi + 1) ?P @ xor_bytes (segment (pi + 1) (pi + 1 + length chs) ?P) chs @ drop (pi + 1 + length chs) ?P)"
    using Cons.prems by (intro Cons.IH) auto
  finally show ?case
    using Cons.prems segment_Cons [of pi "Suc (pi + length chs)" P]
    by (simp add: take_Suc_conv_app_nth segment_update)
qed

lemma dec_out_later:
  assumes "8 \<le> pi" and "pi + length chs \<le> length P" and "d + j + length chs \<le> length C"
  shows "dec_out C (d + 16) j pi chs P = Some (pi + length chs,
    take pi P @ xor_bytes (segment (d + j) (d + j + length chs) C) chs @ drop (pi + length chs) P)"
  using assms
proof (induction chs arbitrary: j pi P)
  case Nil
  then show ?case by simp
next
  case (Cons c chs)
  let ?P = "P[pi := C ! (d + j) XOR c]"
  have "dec_out C (d + 16) j pi (c # chs) P = dec_out C (d + 16) (j + 1) (pi + 1) chs ?P"
    using Cons.prems by (simp add: BB_def)
  also have "\<dots> = Some (pi + 1 + length chs,
      take (pi + 1) ?P @ xor_bytes (segment (d + (j + 1)) (d + (j + 1) + length chs) C) chs
      @ drop (pi + 1 + length chs) ?P)"
    using Cons.prems by (intro Cons.IH) auto
  finally show ?case
    using Cons.prems segment_Cons [of "d + j" "Suc (d + j + length chs)" C]
    by (simp add: take_Suc_conv_app_nth)
qed

lemma dec_fill:
  assumes "inputBlockIndex a + n < 8" and "ci + n \<le> length C"
  shows "dec_update_loop a C ci pi P =
    dec_update_loop (fold (\<lambda>p x. put_input x p) (segment ci (ci + n) C) a) C (ci + n) pi P"
  using assms
proof (induction n arbitrary: a ci)
  case 0
  then show ?case by simp
next
  case (Suc n)
  let ?a = "put_input a (C ! ci)"
  have "dec_update_loop a C ci pi P = dec_update_loop ?a C (ci + 1) pi P"
    using Suc.prems by (subst dec_update_loop.simps) (simp add: BB_def put_input_def)
  moreover have "inputBlockIndex ?a + n < 8" "ci + 1 + n \<le> length C"
    using Suc.prems by (simp_all add: put_input_def)
  moreover have "segment ci (ci + Suc n) C = C ! ci # segment (ci + 1) (ci + 1 + n) C"
    using Suc.prems segment_Cons [of ci "ci + Suc n" C] by simp
  ultimately show ?case using Suc.IH [of ?a "ci + 1"] by simp
qed

definition alg_D :: "rc5CBCAlg \<Rightarrow> byte list \<Rightarrow> byte list" where
  "alg_D a = RC5_Block_Decrypt (S_table a) (R_rounds a)"

lemma dec_block:
  assumes "alg_ok a" and "inputBlockIndex a = 0" and "ci + 8 \<le> length C"
  shows "\<exists>b. dec_update_loop a C ci pi P =
      Option.bind (dec_out C (ci + 8) 0 pi (alg_D a (segment ci (ci + 8) C)) P)
        (\<lambda>iP. dec_update_loop b C (ci + 8) (fst iP) (snd iP))
    \<and> alg_ok b \<and> inputBlockIndex b = 0 \<and> same_key b a"
proof -
  define b where "b = fold (\<lambda>p x. put_input x p) (segment ci (ci + 7) C) a"
  have len: "length (segment ci (ci + 7) C) = 7" using assms(3) by simp
  have f: "pending b = segment ci (ci + 7) C" "inputBlockIndex b = 7" "length (inputBlock b) = 8"
    "chainBlock b = chainBlock a" "same_key b a"
    using fold_put_input [of a "segment ci (ci + 7) C"] assms(1,2) len
    unfolding b_def by (auto simp: pending_def alg_ok_def)
  define c where "c = put_input b (C ! (ci + 7))"
  have "alg_ok b" using f assms(1) by (simp add: alg_ok_def)
  note c = put_input_simps [OF this, of "C ! (ci + 7)", folded c_def]
  have "segment ci (ci + 8) C = segment ci (ci + 7) C @ [C ! (ci + 7)]"
    using assms(3) by (simp add: segment_def) (simp add: take_Suc_conv_app_nth numeral_eq_Suc)
  then have blk: "inputBlock c = segment ci (ci + 8) C"
    using c f by (simp add: pending_def)
  let ?d = "c\<lparr>inputBlockIndex := 0, chainBlock := alg_D a (segment ci (ci + 8) C)\<rparr>"
  have "dec_update_loop a C ci pi P = dec_update_loop b C (ci + 7) pi P"
    using dec_fill [of a 7 ci C pi P] assms by (simp add: b_def)
  also have "\<dots> = Option.bind (dec_out C (ci + 8) 0 pi (alg_D a (segment ci (ci + 8) C)) P)
        (\<lambda>iP. dec_update_loop ?d C (ci + 8) (fst iP) (snd iP))"
    using assms(3) f c blk
    by (subst dec_update_loop.simps) (simp add: BB_def alg_D_def same_key_def Let_def c_def add.commute)
  moreover have "alg_ok ?d" "same_key ?d a"
    using c f by (simp_all add: alg_ok_def same_key_def alg_D_def)
  ultimately show ?thesis by auto
qed

lemma dec_tail:
  assumes "alg_ok a" and "inputBlockIndex a = 0" and "ci \<le> length C" and "length C < ci + 8"
  shows "\<exists>b. dec_update_loop a C ci pi P = Some (b, pi, P)"
proof -
  have "dec_update_loop a C ci pi P =
      dec_update_loop (fold (\<lambda>p x. put_input x p) (segment ci (length C) C) a) C (length C) pi P"
    using dec_fill [of a "length C - ci" ci C pi P] assms by simp
  then show ?thesis by (simp add: dec_update_loop.simps [of _ C "length C"])
qed

lemma dec_update_loop_cbc:
  assumes "alg_ok a" and "inputBlockIndex a = 0" and "length P = length C" and "8 * q \<le> length C"
    and "prev = (if q = 0 then take 8 P else segment (8 * q - 8) (8 * q) C)"
  shows "\<exists>b. dec_update_loop a C (8 * q) (8 * q) P =
    Some (b, 8 * (length C div 8),
      take (8 * q) P @ cbc_dec (alg_D a) prev (drop (8 * q) C) @ drop (8 * (length C div 8)) P)"
  using assms
proof (induction "length C - 8 * q" arbitrary: a q P prev rule: less_induct)
  case less
  show ?case
  proof (cases "length C < 8 * q + 8")
    case True
    then have "length C div 8 = q" using less.prems(4) by (intro div_nat_eqI) auto
    with dec_tail [OF less.prems(1,2,4), of "8 * q" P] True less.prems show ?thesis
      by (auto simp: cbc_dec.simps)
  next
    case False
    let ?blk = "segment (8 * q) (8 * q + 8) C"
    let ?P = "take (8 * q) P @ xor_bytes (alg_D a ?blk) prev @ drop (8 * q + 8) P"
    have lp: "length prev = 8" using False less.prems(3,5) by auto
    have lD: "length (alg_D a ?blk) = 8" by (simp add: alg_D_def)
    obtain b where b: "dec_update_loop a C (8 * q) (8 * q) P =
        Option.bind (dec_out C (8 * q + 8) 0 (8 * q) (alg_D a ?blk) P)
          (\<lambda>iP. dec_update_loop b C (8 * q + 8) (fst iP) (snd iP))" "alg_ok b" "inputBlockIndex b = 0"
        "same_key b a"
      using dec_block [OF less.prems(1,2), of "8 * q" C "8 * q" P] False by auto
    have out: "dec_out C (8 * q + 8) 0 (8 * q) (alg_D a ?blk) P = Some (8 * q + 8, ?P)"
    proof (cases "q = 0")
      case True
      then show ?thesis
        using dec_out_first [of 0 "alg_D a ?blk" P C 8 0] lD False less.prems(3,5)
        by (simp add: segment_def xor_bytes_commute [of _ "alg_D _ _"])
    next
      case pos: False
      then have "8 * q + 8 = (8 * q - 8) + 16" by simp
      then show ?thesis
        using dec_out_later [of "8 * q" "alg_D a ?blk" P "8 * q - 8" 0 C] lD False less.prems(3,5) pos
        by (simp add: xor_bytes_commute [of _ "alg_D _ _"] add.commute)
    qed
    have lenP: "length ?P = length C" using False less.prems(3) lD lp by simp
    have D: "alg_D b = alg_D a" using b(4) by (simp add: alg_D_def same_key_def)
    obtain b' where b': "dec_update_loop b C (8 * Suc q) (8 * Suc q) ?P =
        Some (b', 8 * (length C div 8),
          take (8 * Suc q) ?P @ cbc_dec (alg_D b) ?blk (drop (8 * Suc q) C) @ drop (8 * (length C div 8)) ?P)"
    proof -
      have "length C - 8 * Suc q < length C - 8 * q" "8 * Suc q \<le> length C"
        "?blk = (if Suc q = 0 then take 8 ?P else segment (8 * Suc q - 8) (8 * Suc q) C)"
        using False by (simp_all add: add.commute)
      from less.hyps [OF this(1) b(2,3) lenP this(2,3)] show thesis using that by blast
    qed
    have tk: "take (8 * Suc q) ?P = take (8 * q) P @ xor_bytes (alg_D a ?blk) prev"
      using False less.prems(3) lD lp by simp
    have "Suc q \<le> length C div 8" using False by (simp add: less_eq_div_iff_mult_less_eq)
    then have "8 * q + 8 \<le> 8 * (length C div 8)" by simp
    then have dr: "drop (8 * (length C div 8)) ?P = drop (8 * (length C div 8)) P"
      using False less.prems(3) lD lp by simp
    have cb: "cbc_dec (alg_D a) prev (drop (8 * q) C) =
        xor_bytes (alg_D a ?blk) prev @ cbc_dec (alg_D a) ?blk (drop (8 * Suc q) C)"
    proof -
      have "\<not> length (drop (8 * q) C) < 8" using False by simp
      then show ?thesis
        by (simp add: cbc_dec.simps [of "alg_D a" prev "drop (8 * q) C"] segment_def add.commute)
    qed
    show ?thesis using b(1) out b' tk dr cb D by (simp add: add.commute)
  qed
qed

subsection \<open>Rc5Encrypt and Rc5Decrypt\<close>

lemma Decrypt_Init_eq: "RC5_CBC_Decrypt_Init = RC5_CBC_Encrypt_Init"
  by (intro ext) (simp add: RC5_CBC_Decrypt_Init_def RC5_CBC_Encrypt_Init_def)

text \<open>Both callers set up the key and the algorithm object in the same way.\<close>

definition heap_serves :: "heap \<Rightarrow> nat \<Rightarrow> bool" where
  "heap_serves h n \<longleftrightarrow> n < 2 ^ 63 \<and> (\<forall>k\<le>n. fst h k)"

lemma heap_serves_malloc: "heap_serves h n \<Longrightarrow> k \<le> n \<Longrightarrow> c_malloc h k = Some (map (snd h) [0..<k])"
  by (simp add: heap_serves_def c_malloc_def)

definition rc5_ready :: "u32 list \<Rightarrow> rc5CBCAlg" where
  "rc5_ready S = \<lparr>Pad = 1, R_rounds = 16, S_table = S, I_vec = take 8 szIv, chainBlock = take 8 szIv,
     inputBlock = replicate 8 0, inputBlockIndex = 0\<rparr>"

lemma rc5_ready_ok:
  "alg_ok (rc5_ready S)" "pending (rc5_ready S) = []" "chainBlock (rc5_ready S) = take 8 szIv"
  "inputBlockIndex (rc5_ready S) = 0" "Pad (rc5_ready S) = 1" "length (take 8 szIv) = 8"
  by (simp_all add: rc5_ready_def alg_ok_def pending_def szIv_def)

lemma rc5_key_setup:
  assumes "heap_serves h n" and "256 \<le> n" and "0 < length key" and "length key \<le> 256"
  obtains pKey S where "RC5_Key_Set h \<lparr>keyLength = 0, keyBytes = None\<rparr> (length key) key = Some (1, pKey)"
    and "RC5_CBC_Encrypt_Init (RC5_CBC_Create h 1 16 RC5_FIRST_VERSION BB szIv) (Some pKey)
      = Some (1, Some (rc5_ready S))"
    and "RC5_Key_Create h = Some \<lparr>keyLength = 0, keyBytes = None\<rparr>"
    and "RC5_Key_Expand (length key) key 16 = Some S"
proof -
  obtain S where S: "RC5_Key_Expand (length key) key 16 = Some S"
    using assms(3,4) by (auto simp: RC5_Key_Expand_def Let_def)
  let ?K = "\<lparr>keyLength = length key, keyBytes = Some key\<rparr>"
  note m = heap_serves_malloc [OF assms(1)]
  have ks: "RC5_Key_Set h \<lparr>keyLength = 0, keyBytes = None\<rparr> (length key) key = Some (1, ?K)"
    using assms(2,4) m [of "length key"] by (simp add: RC5_Key_Set_def mem_read_def mem_write_def)
  have "\<exists>a. RC5_CBC_Create h 1 16 RC5_FIRST_VERSION BB szIv = Some a \<and> R_rounds a = 16
      \<and> I_vec a = take 8 szIv \<and> Pad a = 1"
    using m [of 56] m [of 136] assms(2) by (simp add: RC5_CBC_Create_def BB_def)
  then have "RC5_CBC_Encrypt_Init (RC5_CBC_Create h 1 16 RC5_FIRST_VERSION BB szIv) (Some ?K)
      = Some (1, Some (rc5_ready S))"
    using S by (auto simp: RC5_CBC_Encrypt_Init_def RC5_CBC_SetIV_def rc5_ready_def BB_def)
  moreover have "RC5_Key_Create h = Some \<lparr>keyLength = 0, keyBytes = None\<rparr>"
    using m [of 16] assms(2) by (simp add: RC5_Key_Create_def)
  ultimately show thesis using that ks S by blast
qed

lemma Rc5Encrypt_cbc:
  assumes "heap_serves h (2 * length src + 256)" and "0 < length key" and "length key \<le> 256"
  obtains S where "RC5_Key_Expand (length key) key 16 = Some S"
    and "4 \<le> length src \<Longrightarrow> Rc5Encrypt h key src =
      Some (cbc_enc (RC5_Block_Encrypt S 16) (take 8 szIv) (src @ pad_bytes (length src)))"
    and "length src < 4 \<Longrightarrow> Rc5Encrypt h key src = Some []"
proof -
  obtain pKey S where k: "RC5_Key_Set h \<lparr>keyLength = 0, keyBytes = None\<rparr> (length key) key = Some (1, pKey)"
    "RC5_CBC_Encrypt_Init (RC5_CBC_Create h 1 16 RC5_FIRST_VERSION BB szIv) (Some pKey)
      = Some (1, Some (rc5_ready S))"
    "RC5_Key_Create h = Some \<lparr>keyLength = 0, keyBytes = None\<rparr>" "RC5_Key_Expand (length key) key 16 = Some S"
    using rc5_key_setup [OF assms(1) _ assms(2,3)] by auto
  let ?E = "RC5_Block_Encrypt S 16" and ?I = "take 8 szIv"
  have E: "alg_E (rc5_ready S) = ?E" by (simp add: alg_E_def rc5_ready_def)
  obtain a where a: "enc_update_loop (rc5_ready S) src [] = Some (a, cbc_enc ?E ?I src)" "alg_ok a"
    "same_key a (rc5_ready S)" "chainBlock a = cbc_chain ?E ?I src" "pending a = cbc_rest src"
    using enc_update_loop_cbc [of "rc5_ready S" src "[]"] rc5_ready_ok E by auto
  have Ea: "alg_E a = ?E" "Pad a = 1" using a(3) by (simp_all add: alg_E_def same_key_def rc5_ready_def)
  let ?n = "2 * length src - 8 * (length src div 8)"
  have enc: "Rc5Encrypt h key src = Some (cbc_enc ?E ?I src @ snd (snd (RC5_CBC_Encrypt_Final a ?n)))"
    using k a(1) heap_serves_malloc [OF assms(1)] rc5_ready_ok(4)
    by (auto simp: Rc5Encrypt_def RC5_CBC_Encrypt_Update_def BB_def cbc_enc_length mult.commute
        Let_def split_beta)
  have mod: "length (pending a) mod 8 = length src mod 8" using a(5) by (simp add: cbc_rest_length)
  show thesis
  proof (rule that [OF k(4)])
    assume "4 \<le> length src"
    then have "8 \<le> ?n" by presburger
    with RC5_CBC_Encrypt_Final_cbc [OF a(2), of ?n] Ea a(4,5) mod
    have "snd (snd (RC5_CBC_Encrypt_Final a ?n)) =
        cbc_enc ?E (cbc_chain ?E ?I src) (cbc_rest src @ pad_bytes (length src))"
      by (auto simp: pad_bytes_def [of "length src"] pad_bytes_def [of "length (cbc_rest src)"])
    with enc show "Rc5Encrypt h key src = Some (cbc_enc ?E ?I (src @ pad_bytes (length src)))"
      by (simp add: cbc_enc_append [of ?E ?I src])
  next
    assume "length src < 4"
    then have "RC5_CBC_Encrypt_Final a ?n = (0, a, [])" "cbc_enc ?E ?I src = []"
      using Ea by (simp_all add: RC5_CBC_Encrypt_Final_def BB_def cbc_enc.simps)
    with enc show "Rc5Encrypt h key src = Some []" by simp
  qed
qed

lemma byte_of_nat_small: "n < 128 \<Longrightarrow> sint (of_nat n :: byte) = int n"
proof -
  assume "n < 128"
  then have "signed_take_bit 7 (int n) = int n"
    by (intro signed_take_bit_int_eq_self) auto
  then show ?thesis by (simp add: signed_of_nat)
qed

lemma Rc5Decrypt_cbc:
  assumes "heap_serves h (2 * length ct + 256)" and "0 < length key" and "length key \<le> 256"
    and "RC5_Key_Expand (length key) key 16 = Some S"
    and "cbc_dec (RC5_Block_Decrypt S 16) (take 8 szIv) ct = msg @ pad_bytes (length msg)"
    and "8 dvd length ct" and "length ct = length msg + length (pad_bytes (length msg))"
  shows "Rc5Decrypt h key ct = Some msg"
proof -
  obtain pKey where k: "RC5_Key_Set h \<lparr>keyLength = 0, keyBytes = None\<rparr> (length key) key = Some (1, pKey)"
    "RC5_CBC_Decrypt_Init (RC5_CBC_Create h 1 16 RC5_FIRST_VERSION BB szIv) (Some pKey)
      = Some (1, Some (rc5_ready S))"
    "RC5_Key_Create h = Some \<lparr>keyLength = 0, keyBytes = None\<rparr>"
    using rc5_key_setup [OF assms(1) _ assms(2,3)] assms(4) by (auto simp: Decrypt_Init_eq)
  let ?D = "RC5_Block_Decrypt S 16" and ?I = "take 8 szIv" and ?p = "pad_bytes (length msg)"
  let ?k = "8 - length msg mod 8"
  define P where "P = ?I @ drop 8 (map (snd h) [0..<length ct])"
  have l8: "8 \<le> length ct" using assms(6,7) length_pad_bytes(2) [of "length msg"] by (auto dest: dvd_imp_le)
  have P: "mem_write (map (snd h) [0..<length ct]) 0 ?I = Some P" "length P = length ct" "take 8 P = ?I"
    using l8 rc5_ready_ok(6) by (auto simp: mem_write_def P_def)
  have "alg_D (rc5_ready S) = ?D" by (simp add: alg_D_def rc5_ready_def)
  moreover have "8 * (length ct div 8) = length ct" using assms(6) by simp
  ultimately obtain b where b: "dec_update_loop (rc5_ready S) ct 0 0 P = Some (b, length ct, msg @ ?p)"
    using dec_update_loop_cbc [of "rc5_ready S" P ct 0 ?I] rc5_ready_ok P assms(5) by auto
  have upd: "RC5_CBC_Decrypt_Update (rc5_ready S) ct (map (snd h) [0..<length ct]) = Some (1, b, length ct, msg @ ?p)"
    using P(1) b rc5_ready_ok(3) [of S] by (simp add: RC5_CBC_Decrypt_Update_def)
  have last: "(msg @ ?p) ! (length ct - 1) = of_nat ?k"
  proof -
    have "length ct - 1 = length msg + (?k - 1)" "?k - 1 < ?k"
      using assms(7) by (simp_all add: length_pad_bytes(2))
    then show ?thesis unfolding pad_bytes_def by (metis nth_append_length_plus nth_replicate)
  qed
  have "Rc5Decrypt h key ct = (let plain_length = int (length ct) - sint ((msg @ ?p) ! (length ct - 1)) in
      if plain_length < 0 \<or> int (length (msg @ ?p)) < plain_length then None
      else Some (take (nat plain_length) (msg @ ?p)))"
    using k upd l8 heap_serves_malloc [OF assms(1)] by (auto simp: Rc5Decrypt_def Let_def)
  also have "\<dots> = Some msg"
  proof -
    have "sint ((msg @ ?p) ! (length ct - 1)) = int ?k" unfolding last by (rule byte_of_nat_small) simp
    moreover have "int (length ct) - int ?k = int (length msg)"
      using assms(7) by (simp add: length_pad_bytes(2))
    ultimately show ?thesis by (simp add: Let_def)
  qed
  finally show ?thesis .
qed

lemma Rc5_encrypt_decrypt:
  assumes "heap_serves h (4 * length src + 512)" and "0 < length key" and "length key \<le> 256"
    and "4 \<le> length src" and "length src < 2 ^ 29"
  shows "\<exists>S ct. RC5_Key_Expand (length key) key 16 = Some S
    \<and> Rc5Encrypt h key src = Some ct \<and> Rc5Decrypt h key ct = Some src
    \<and> ct = cbc_enc (RC5_Block_Encrypt S 16) (take 8 szIv) (src @ pad_bytes (length src))
    \<and> length ct = 8 * (length src div 8 + 1)"
proof -
  have serve: "heap_serves h (2 * length src + 256)" using assms(1) by (auto simp: heap_serves_def)
  obtain S where S: "RC5_Key_Expand (length key) key 16 = Some S"
    "Rc5Encrypt h key src =
      Some (cbc_enc (RC5_Block_Encrypt S 16) (take 8 szIv) (src @ pad_bytes (length src)))"
    using Rc5Encrypt_cbc [OF serve assms(2,3)] assms(4) by metis
  let ?ct = "cbc_enc (RC5_Block_Encrypt S 16) (take 8 szIv) (src @ pad_bytes (length src))"
  have tot: "length (src @ pad_bytes (length src)) = 8 * (length src div 8 + 1)"
    by (simp add: length_pad_bytes(2)) presburger
  then have len: "length ?ct = 8 * (length src div 8 + 1)"
    by (simp add: cbc_enc_length del: length_append)
  have serve': "heap_serves h (2 * length ?ct + 256)"
    using assms(1) len by (auto simp: heap_serves_def)
  have dec: "cbc_dec (RC5_Block_Decrypt S 16) (take 8 szIv) ?ct = src @ pad_bytes (length src)"
    using length_pad_bytes(1) rc5_ready_ok(6) by (intro cbc_dec_enc) (auto simp: block_decrypt_encrypt)
  have "Rc5Decrypt h key ?ct = Some src"
    using len tot by (intro Rc5Decrypt_cbc [OF serve' assms(2,3) S(1) dec]) auto
  with S len show ?thesis by blast
qed

text \<open>
  C8.  With a key of 1 to 256 bytes and memory available, \<open>Rc5Encrypt\<close> of a message of at least four
  bytes (and short enough for the code's \<open>int\<close> lengths) runs without an out-of-range access, yields
  textbook CBC over the padded message, a whole number of blocks that is longer than the message, and
  \<open>Rc5Decrypt\<close> with the same key gives the message back.
\<close>

theorem Rc5_roundtrip:
  assumes "heap_serves h (4 * length src + 512)" and "0 < length key" and "length key \<le> 256"
    and "4 \<le> length src" and "length src < 2 ^ 29"
  shows "\<exists>S ct. RC5_Key_Expand (length key) key 16 = Some S
    \<and> Rc5Encrypt h key src = Some ct \<and> Rc5Decrypt h key ct = Some src
    \<and> ct = cbc_enc (RC5_Block_Encrypt S 16) (take 8 szIv) (src @ pad_bytes (length src))
    \<and> length ct = 8 * (length src div 8 + 1)"
  using assms by (rule Rc5_encrypt_decrypt)

theorem Rc5_roundtrip_witness:
  "\<exists>S ct. RC5_Key_Expand (length [1 :: byte, 2, 3]) [1, 2, 3] 16 = Some S
    \<and> Rc5Encrypt (\<lambda>_. True, \<lambda>_. 0) [1, 2, 3] [9, 8, 7, 6, 5] = Some ct
    \<and> Rc5Decrypt (\<lambda>_. True, \<lambda>_. 0) [1, 2, 3] ct = Some [9, 8, 7, 6, 5]
    \<and> ct = cbc_enc (RC5_Block_Encrypt S 16) (take 8 szIv) ([9, 8, 7, 6, 5] @ pad_bytes (length [9 :: byte, 8, 7, 6, 5]))
    \<and> length ct = 8 * (length [9 :: byte, 8, 7, 6, 5] div 8 + 1)"
  by (rule Rc5_roundtrip) (simp_all add: heap_serves_def)

text \<open>
  The limits of the two functions: a message of one to three bytes encrypts to the empty string,
  because the output buffer of twice its size has no room for a block and the failure of \<open>Final\<close> is
  ignored; and \<open>Rc5Decrypt\<close> of fewer than eight bytes always has undefined behaviour, since it writes
  the initial vector into a buffer as short as its input.
\<close>

theorem Rc5_short_messages:
  assumes "heap_serves h 512" and "0 < length key" and "length key \<le> 256"
  shows "(length src < 4 \<longrightarrow> Rc5Encrypt h key src = Some [])
    \<and> (length ct < 8 \<longrightarrow> Rc5Decrypt h key ct = None)"
proof (intro conjI impI)
  assume l: "length src < 4"
  then have "heap_serves h (2 * length src + 256)" using assms(1) by (auto simp: heap_serves_def)
  with l show "Rc5Encrypt h key src = Some []" using Rc5Encrypt_cbc [OF _ assms(2,3)] by metis
next
  assume l: "length ct < 8"
  obtain pKey S where k: "RC5_Key_Set h \<lparr>keyLength = 0, keyBytes = None\<rparr> (length key) key = Some (1, pKey)"
    "RC5_CBC_Decrypt_Init (RC5_CBC_Create h 1 16 RC5_FIRST_VERSION BB szIv) (Some pKey)
      = Some (1, Some (rc5_ready S))"
    "RC5_Key_Create h = Some \<lparr>keyLength = 0, keyBytes = None\<rparr>"
  proof -
    have "(256 :: nat) \<le> 512" by simp
    from rc5_key_setup [OF assms(1) this assms(2,3)] show thesis
      using that unfolding Decrypt_Init_eq by blast
  qed
  have "mem_write (map (snd h) [0..<length ct]) 0 (take 8 szIv) = None"
    using l rc5_ready_ok(6) by (simp add: mem_write_def)
  then have "RC5_CBC_Decrypt_Update (rc5_ready S) ct (map (snd h) [0..<length ct]) = None"
    by (simp add: RC5_CBC_Decrypt_Update_def rc5_ready_ok(3))
  with k l heap_serves_malloc [OF assms(1)] show "Rc5Decrypt h key ct = None"
    by (simp add: Rc5Decrypt_def Let_def)
qed

theorem Rc5_short_messages_witness:
  "Rc5Encrypt (\<lambda>_. True, \<lambda>_. 0) [7] [1, 2, 3] = Some []
   \<and> Rc5Decrypt (\<lambda>_. True, \<lambda>_. 0) [7] [1] = None"
  using Rc5_short_messages [of "(\<lambda>_. True, \<lambda>_. 0)" "[7]" "[1, 2, 3]" "[1]"]
  by (simp add: heap_serves_def)

end
