(* ===== verification/HttpUrl.thy ===== *)
theory HttpUrl
  imports Prelude
begin

text \<open>
  The character classes and the URL parser of \<open>Util/src/util/http/http_parser.c\<close>: the transition function
  \<open>parse_url_char\<close> that the message parser shares, the host parser, and \<open>http_parser_parse_url\<close>, which
  the codecs call on every request line and on every outgoing URL.

  A character is a HOL \<open>char\<close>, read through \<open>code\<close> as \<open>unsigned char\<close>; a 0 in a table of characters is
  \<open>NUL\<close>.  The build leaves \<open>HTTP_PARSER_STRICT\<close> at its default 1, so the strict variants of the
  macros are the ones modelled.  The result structure is passed in and returned, because the code does
  not initialise it: \<open>None\<close> stands for a read outside the URL.
\<close>

subsection \<open>Characters\<close>

definition code :: "char \<Rightarrow> nat" where
  "code c = of_char c"

definition NUL :: char where "NUL = CHR 0x00"

definition CR :: char where "CR = CHR 0x0D"

definition LF :: char where "LF = CHR 0x0A"

definition LOWER :: "char \<Rightarrow> char" where
  "LOWER c = char_of (or (code c) 0x20)"

definition IS_ALPHA :: "char \<Rightarrow> bool" where
  "IS_ALPHA c \<longleftrightarrow> code (CHR ''a'') \<le> code (LOWER c) \<and> code (LOWER c) \<le> code (CHR ''z'')"

definition IS_NUM :: "char \<Rightarrow> bool" where
  "IS_NUM c \<longleftrightarrow> code (CHR ''0'') \<le> code c \<and> code c \<le> code (CHR ''9'')"

definition IS_ALPHANUM :: "char \<Rightarrow> bool" where
  "IS_ALPHANUM c \<longleftrightarrow> IS_ALPHA c \<or> IS_NUM c"

definition IS_HEX :: "char \<Rightarrow> bool" where
  "IS_HEX c \<longleftrightarrow> IS_NUM c \<or> code (CHR ''a'') \<le> code (LOWER c) \<and> code (LOWER c) \<le> code (CHR ''f'')"

definition IS_MARK :: "char \<Rightarrow> bool" where
  "IS_MARK c \<longleftrightarrow> c \<in> set ''-_.!~*'' \<or> c = CHR 0x27 \<or> c \<in> set ''()''"

definition IS_USERINFO_CHAR :: "char \<Rightarrow> bool" where
  "IS_USERINFO_CHAR c \<longleftrightarrow> IS_ALPHANUM c \<or> IS_MARK c \<or> c \<in> set ''%;:&=+$,''"

text \<open>The initialisers give the first 128 entries of each table; the C language sets the others to 0.\<close>

definition tokens :: "char list" where
  "tokens =
     replicate 33 NUL @ ''!'' @ [NUL] @ ''#$%&'' @ [CHR 0x27] @
     [NUL, NUL] @ ''*+'' @ [NUL] @ ''-.'' @ [NUL] @
     ''0123456789'' @ replicate 6 NUL @
     [NUL] @ ''abcdefghijklmnopqrstuvwxyz'' @ [NUL, NUL, NUL] @ ''^_'' @
     ''`abcdefghijklmnopqrstuvwxyz'' @ [NUL] @ ''|'' @ [NUL] @ ''~'' @ [NUL] @
     replicate 128 NUL"

definition unhex :: "int list" where
  "unhex = replicate 48 (-1) @ [0, 1, 2, 3, 4, 5, 6, 7, 8, 9] @ replicate 6 (-1) @
     [-1, 10, 11, 12, 13, 14, 15] @ replicate 9 (-1) @ replicate 16 (-1) @
     [-1, 10, 11, 12, 13, 14, 15] @ replicate 9 (-1) @ replicate 16 (-1) @
     replicate 128 0"

definition normal_url_char :: "nat list" where
  "normal_url_char =
     [0, 0, 0, 0, 2 + 4 + 16 + 32 + 64 + 128, 255, 255, 1 + 2 + 4 + 8 + 16 + 32 + 64,
      255, 255, 255, 255, 255, 255, 255, 1 + 2 + 4 + 8 + 16 + 32 + 64] @ replicate 16 0"

definition BIT_AT :: "nat list \<Rightarrow> nat \<Rightarrow> bool" where
  "BIT_AT a i \<longleftrightarrow> and (a ! (i div 8)) (2 ^ (i mod 8)) \<noteq> 0"

definition TOKEN :: "char \<Rightarrow> char" where
  "TOKEN c = tokens ! code c"

definition STRICT_TOKEN :: "char \<Rightarrow> bool" where
  "STRICT_TOKEN c \<longleftrightarrow> tokens ! code c \<noteq> NUL"

definition IS_URL_CHAR :: "char \<Rightarrow> bool" where
  "IS_URL_CHAR c \<longleftrightarrow> BIT_AT normal_url_char (code c)"

definition IS_HOST_CHAR :: "char \<Rightarrow> bool" where
  "IS_HOST_CHAR c \<longleftrightarrow> IS_ALPHANUM c \<or> c = CHR ''.'' \<or> c = CHR ''-''"

subsection \<open>States\<close>

datatype (plugins only: code) state =
    s_dead | s_start_req_or_res | s_res_or_resp_H | s_start_res | s_res_H | s_res_HT | s_res_HTT
  | s_res_HTTP | s_res_first_http_major | s_res_http_major | s_res_first_http_minor
  | s_res_http_minor | s_res_first_status_code | s_res_status_code | s_res_status_start
  | s_res_status | s_res_line_almost_done | s_start_req | s_req_method | s_req_spaces_before_url
  | s_req_schema | s_req_schema_slash | s_req_schema_slash_slash | s_req_server_start
  | s_req_server | s_req_server_with_at | s_req_path | s_req_query_string_start
  | s_req_query_string | s_req_fragment_start | s_req_fragment | s_req_http_start | s_req_http_H
  | s_req_http_HT | s_req_http_HTT | s_req_http_HTTP | s_req_first_http_major | s_req_http_major
  | s_req_first_http_minor | s_req_http_minor | s_req_line_almost_done | s_header_field_start
  | s_header_field | s_header_value_discard_ws | s_header_value_discard_ws_almost_done
  | s_header_value_discard_lws | s_header_value_start | s_header_value | s_header_value_lws
  | s_header_almost_done | s_chunk_size_start | s_chunk_size | s_chunk_parameters
  | s_chunk_size_almost_done | s_headers_almost_done | s_headers_done | s_chunk_data
  | s_chunk_data_almost_done | s_chunk_data_done | s_body_identity | s_body_identity_eof
  | s_message_done

text \<open>The body states are those after \<open>s_headers_done\<close> in the enumeration.\<close>

definition PARSING_HEADER :: "state \<Rightarrow> bool" where
  "PARSING_HEADER s \<longleftrightarrow>
     s \<notin> {s_chunk_data, s_chunk_data_almost_done, s_chunk_data_done, s_body_identity,
          s_body_identity_eof, s_message_done}"

definition parse_url_char :: "state \<Rightarrow> char \<Rightarrow> state" where
  "parse_url_char s ch =
     (if ch = CHR '' '' \<or> ch = CR \<or> ch = LF then s_dead
      else if ch = CHR 0x09 \<or> ch = CHR 0x0C then s_dead
      else case s of
        s_req_spaces_before_url \<Rightarrow>
          if ch = CHR ''/'' \<or> ch = CHR ''*'' then s_req_path
          else if IS_ALPHA ch then s_req_schema
          else s_dead
      | s_req_schema \<Rightarrow>
          if IS_ALPHA ch then s
          else if ch = CHR '':'' then s_req_schema_slash
          else s_dead
      | s_req_schema_slash \<Rightarrow> if ch = CHR ''/'' then s_req_schema_slash_slash else s_dead
      | s_req_schema_slash_slash \<Rightarrow> if ch = CHR ''/'' then s_req_server_start else s_dead
      | s_req_server_with_at \<Rightarrow>
          if ch = CHR ''@'' then s_dead
          else if ch = CHR ''/'' then s_req_path
          else if ch = CHR ''?'' then s_req_query_string_start
          else if IS_USERINFO_CHAR ch \<or> ch = CHR ''['' \<or> ch = CHR '']'' then s_req_server
          else s_dead
      | s_req_server_start \<Rightarrow>
          if ch = CHR ''/'' then s_req_path
          else if ch = CHR ''?'' then s_req_query_string_start
          else if ch = CHR ''@'' then s_req_server_with_at
          else if IS_USERINFO_CHAR ch \<or> ch = CHR ''['' \<or> ch = CHR '']'' then s_req_server
          else s_dead
      | s_req_server \<Rightarrow>
          if ch = CHR ''/'' then s_req_path
          else if ch = CHR ''?'' then s_req_query_string_start
          else if ch = CHR ''@'' then s_req_server_with_at
          else if IS_USERINFO_CHAR ch \<or> ch = CHR ''['' \<or> ch = CHR '']'' then s_req_server
          else s_dead
      | s_req_path \<Rightarrow>
          if IS_URL_CHAR ch then s
          else if ch = CHR ''?'' then s_req_query_string_start
          else if ch = CHR ''#'' then s_req_fragment_start
          else s_dead
      | s_req_query_string_start \<Rightarrow>
          if IS_URL_CHAR ch then s_req_query_string
          else if ch = CHR ''?'' then s_req_query_string
          else if ch = CHR ''#'' then s_req_fragment_start
          else s_dead
      | s_req_query_string \<Rightarrow>
          if IS_URL_CHAR ch then s_req_query_string
          else if ch = CHR ''?'' then s_req_query_string
          else if ch = CHR ''#'' then s_req_fragment_start
          else s_dead
      | s_req_fragment_start \<Rightarrow>
          if IS_URL_CHAR ch then s_req_fragment
          else if ch = CHR ''?'' then s_req_fragment
          else if ch = CHR ''#'' then s
          else s_dead
      | s_req_fragment \<Rightarrow>
          if IS_URL_CHAR ch then s
          else if ch = CHR ''?'' \<or> ch = CHR ''#'' then s
          else s_dead
      | _ \<Rightarrow> s_dead)"

subsection \<open>The result structure\<close>

datatype url_field = UF_SCHEMA | UF_HOST | UF_PORT | UF_PATH | UF_QUERY | UF_FRAGMENT | UF_USERINFO

text \<open>The bit mask \<open>field_set\<close> is the set of its fields; offsets and lengths are \<open>uint16_t\<close>.\<close>

record http_parser_url =
  field_set :: "url_field set"
  port :: nat
  field_off :: "url_field \<Rightarrow> nat"
  field_len :: "url_field \<Rightarrow> nat"

definition set_off :: "url_field \<Rightarrow> nat \<Rightarrow> http_parser_url \<Rightarrow> http_parser_url" where
  "set_off f v u = u\<lparr>field_off := (field_off u)(f := v mod 2 ^ 16)\<rparr>"

definition set_len :: "url_field \<Rightarrow> nat \<Rightarrow> http_parser_url \<Rightarrow> http_parser_url" where
  "set_len f v u = u\<lparr>field_len := (field_len u)(f := v mod 2 ^ 16)\<rparr>"

definition inc_len :: "url_field \<Rightarrow> http_parser_url \<Rightarrow> http_parser_url" where
  "inc_len f u = set_len f (field_len u f + 1) u"

definition add_field :: "url_field \<Rightarrow> http_parser_url \<Rightarrow> http_parser_url" where
  "add_field f u = u\<lparr>field_set := insert f (field_set u)\<rparr>"

subsection \<open>The host part\<close>

datatype http_host_state =
    s_http_host_dead | s_http_userinfo_start | s_http_userinfo | s_http_host_start
  | s_http_host_v6_start | s_http_host | s_http_host_v6 | s_http_host_v6_end
  | s_http_host_port_start | s_http_host_port

definition http_parse_host_char :: "http_host_state \<Rightarrow> char \<Rightarrow> http_host_state" where
  "http_parse_host_char s ch =
     (case s of
        s_http_userinfo \<Rightarrow>
          if ch = CHR ''@'' then s_http_host_start
          else if IS_USERINFO_CHAR ch then s_http_userinfo else s_http_host_dead
      | s_http_userinfo_start \<Rightarrow>
          if ch = CHR ''@'' then s_http_host_start
          else if IS_USERINFO_CHAR ch then s_http_userinfo else s_http_host_dead
      | s_http_host_start \<Rightarrow>
          if ch = CHR ''['' then s_http_host_v6_start
          else if IS_HOST_CHAR ch then s_http_host else s_http_host_dead
      | s_http_host \<Rightarrow>
          if IS_HOST_CHAR ch then s_http_host
          else if ch = CHR '':'' then s_http_host_port_start else s_http_host_dead
      | s_http_host_v6_end \<Rightarrow> if ch = CHR '':'' then s_http_host_port_start else s_http_host_dead
      | s_http_host_v6 \<Rightarrow>
          if ch = CHR '']'' then s_http_host_v6_end
          else if IS_HEX ch \<or> ch = CHR '':'' \<or> ch = CHR ''.'' then s_http_host_v6 else s_http_host_dead
      | s_http_host_v6_start \<Rightarrow>
          if IS_HEX ch \<or> ch = CHR '':'' \<or> ch = CHR ''.'' then s_http_host_v6 else s_http_host_dead
      | s_http_host_port \<Rightarrow> if IS_NUM ch then s_http_host_port else s_http_host_dead
      | s_http_host_port_start \<Rightarrow> if IS_NUM ch then s_http_host_port else s_http_host_dead
      | s_http_host_dead \<Rightarrow> s_http_host_dead)"

definition host_mark :: "http_host_state \<Rightarrow> http_host_state \<Rightarrow> nat \<Rightarrow> http_parser_url \<Rightarrow> http_parser_url" where
  "host_mark s new_s p u =
     (case new_s of
        s_http_host \<Rightarrow> inc_len UF_HOST (if s \<noteq> s_http_host then set_off UF_HOST p u else u)
      | s_http_host_v6 \<Rightarrow> inc_len UF_HOST (if s \<noteq> s_http_host_v6 then set_off UF_HOST p u else u)
      | s_http_host_port \<Rightarrow>
          inc_len UF_PORT
            (if s \<noteq> s_http_host_port then add_field UF_PORT (set_len UF_PORT 0 (set_off UF_PORT p u)) else u)
      | s_http_userinfo \<Rightarrow>
          inc_len UF_USERINFO
            (if s \<noteq> s_http_userinfo
             then add_field UF_USERINFO (set_len UF_USERINFO 0 (set_off UF_USERINFO p u)) else u)
      | _ \<Rightarrow> u)"

text \<open>The loop runs over \<open>n\<close> characters from \<open>p\<close>; the result is \<open>None\<close> if it reads past the buffer.\<close>

fun host_loop :: "string \<Rightarrow> nat \<Rightarrow> nat \<Rightarrow> http_host_state \<Rightarrow> http_parser_url
    \<Rightarrow> (int \<times> http_host_state \<times> http_parser_url) option" where
  "host_loop buf p 0 s u = Some (0, s, u)"
| "host_loop buf p (Suc n) s u =
     (if p \<ge> length buf then None
      else let new_s = http_parse_host_char s (buf ! p) in
        if new_s = s_http_host_dead then Some (1, s, u)
        else host_loop buf (p + 1) n new_s (host_mark s new_s p u))"

definition http_parse_host :: "string \<Rightarrow> http_parser_url \<Rightarrow> bool \<Rightarrow> (int \<times> http_parser_url) option" where
  "http_parse_host buf u found_at =
     (let off = field_off u UF_HOST; buflen = off + field_len u UF_HOST;
          u = set_len UF_HOST 0 u;
          s = (if found_at then s_http_userinfo_start else s_http_host_start)
      in map_option
           (\<lambda>(r, s, u).
              if r \<noteq> 0 then (1, u)
              else if s \<in> {s_http_host_start, s_http_host_v6_start, s_http_host_v6,
                          s_http_host_port_start, s_http_userinfo, s_http_userinfo_start}
              then (1, u) else (0, u))
           (host_loop buf off (buflen - off) s u))"

subsection \<open>http\_parser\_parse\_url\<close>

text \<open>Which field a state belongs to; \<open>None\<close> for the delimiters, which are skipped.\<close>

definition url_state_field :: "state \<Rightarrow> (url_field option) option" where
  "url_state_field s =
     (case s of
        s_req_schema_slash \<Rightarrow> Some None
      | s_req_schema_slash_slash \<Rightarrow> Some None
      | s_req_server_start \<Rightarrow> Some None
      | s_req_query_string_start \<Rightarrow> Some None
      | s_req_fragment_start \<Rightarrow> Some None
      | s_req_schema \<Rightarrow> Some (Some UF_SCHEMA)
      | s_req_server_with_at \<Rightarrow> Some (Some UF_HOST)
      | s_req_server \<Rightarrow> Some (Some UF_HOST)
      | s_req_path \<Rightarrow> Some (Some UF_PATH)
      | s_req_query_string \<Rightarrow> Some (Some UF_QUERY)
      | s_req_fragment \<Rightarrow> Some (Some UF_FRAGMENT)
      | _ \<Rightarrow> None)"

text \<open>The loop over the URL; \<open>old_uf = None\<close> is \<open>UF_MAX\<close>, the first component is what is returned.\<close>

fun url_loop :: "string \<Rightarrow> nat \<Rightarrow> state \<Rightarrow> url_field option \<Rightarrow> bool \<Rightarrow> http_parser_url
    \<Rightarrow> int \<times> bool \<times> http_parser_url" where
  "url_loop [] p s old_uf found_at u = (0, found_at, u)"
| "url_loop (c # cs) p s old_uf found_at u =
     (let s = parse_url_char s c in
      case url_state_field s of
        None \<Rightarrow> (1, found_at, u)
      | Some None \<Rightarrow> url_loop cs (p + 1) s old_uf found_at u
      | Some (Some uf) \<Rightarrow>
          let found_at = (found_at \<or> s = s_req_server_with_at) in
          if old_uf = Some uf then url_loop cs (p + 1) s old_uf found_at (inc_len uf u)
          else url_loop cs (p + 1) s (Some uf) found_at
                 (add_field uf (set_len uf 1 (set_off uf p u))))"

text \<open>
  \<open>strtoul\<close> in base 10 at a position that holds a digit: the value of the longest run of digits,
  capped at \<open>ULONG_MAX\<close>.
\<close>

definition strtoul10 :: "string \<Rightarrow> nat" where
  "strtoul10 s = min (2 ^ 64 - 1)
     (foldl (\<lambda>v c. v * 10 + (code c - code (CHR ''0''))) 0 (takeWhile IS_NUM s))"

text \<open>\<open>rest\<close> is what follows the URL in memory: \<open>strtoul\<close> may read into it.\<close>

definition http_parser_parse_url ::
  "string \<Rightarrow> string \<Rightarrow> bool \<Rightarrow> http_parser_url \<Rightarrow> (int \<times> http_parser_url) option" where
  "http_parser_parse_url buf rest is_connect u =
     (let u = u\<lparr>field_set := {}, port := 0\<rparr>;
          s = (if is_connect then s_req_server_start else s_req_spaces_before_url);
          (r, found_at, u) = url_loop buf 0 s None False u
      in if r \<noteq> 0 then Some (1, u)
         else
           Option.bind
             (if UF_SCHEMA \<in> field_set u \<or> UF_HOST \<in> field_set u
              then http_parse_host buf u found_at else Some (0, u))
             (\<lambda>(r, u).
                if r \<noteq> 0 then Some (1, u)
                else if is_connect \<and> field_set u \<noteq> {UF_HOST, UF_PORT} then Some (1, u)
                else if UF_PORT \<in> field_set u then
                  let v = strtoul10 (drop (field_off u UF_PORT) (buf @ rest)) in
                  if v > 0xFFFF then Some (1, u) else Some (0, u\<lparr>port := v\<rparr>)
                else Some (0, u)))"

subsection \<open>Offsets and lengths stay inside the URL\<close>

definition fields_below :: "nat \<Rightarrow> url_field set \<Rightarrow> http_parser_url \<Rightarrow> bool" where
  "fields_below n F u \<longleftrightarrow> (\<forall>f \<in> F. field_off u f + field_len u f \<le> n)"

lemma field_simps [simp]:
  "field_set (set_off f v u) = field_set u" "field_set (set_len f v u) = field_set u"
  "field_set (inc_len f u) = field_set u" "field_set (add_field f u) = insert f (field_set u)"
  "field_off (set_len f v u) = field_off u" "field_off (inc_len f u) = field_off u"
  "field_off (add_field f u) = field_off u" "field_len (add_field f u) = field_len u"
  "field_off (set_off f v u) = (field_off u)(f := v mod 2 ^ 16)" "field_len (set_off f v u) = field_len u"
  "field_len (set_len f v u) = (field_len u)(f := v mod 2 ^ 16)"
  "field_len (inc_len f u) = (field_len u)(f := (field_len u f + 1) mod 2 ^ 16)"
  "port (set_off f v u) = port u" "port (set_len f v u) = port u" "port (inc_len f u) = port u"
  "port (add_field f u) = port u"
  by (simp_all add: set_off_def set_len_def inc_len_def add_field_def)

lemma url_state_field_server:
  "url_state_field s_req_server_with_at = Some (Some UF_HOST)"
  by (simp add: url_state_field_def)

lemma fields_below_inc:
  "fields_below p F u \<Longrightarrow> fields_below (p + 1) F (inc_len f u)"
  by (auto simp: fields_below_def)

lemma fields_below_mono: "fields_below p F u \<Longrightarrow> p \<le> q \<Longrightarrow> fields_below q F u"
  by (auto simp: fields_below_def)

lemma fields_below_start:
  assumes "fields_below p F u" and "p < 2 ^ 16"
  shows "fields_below (p + 1) (insert f F) (add_field f (set_len f 1 (set_off f p u)))"
  using assms by (auto simp: fields_below_def)

lemma url_loop_fields:
  assumes "p + length cs < 2 ^ 16" and "fields_below p (field_set u) u"
    and "found_at \<longrightarrow> UF_HOST \<in> field_set u" and "\<forall>f. old_uf = Some f \<longrightarrow> f \<in> field_set u"
    and "url_loop cs p s old_uf found_at u = (0, at, u')"
  shows "fields_below (p + length cs) (field_set u') u' \<and> (at \<longrightarrow> UF_HOST \<in> field_set u')
    \<and> (UF_HOST \<notin> field_set u' \<longrightarrow> field_off u' UF_HOST = field_off u UF_HOST
          \<and> field_len u' UF_HOST = field_len u UF_HOST)
    \<and> field_set u \<subseteq> field_set u' \<and> UF_PORT \<notin> field_set u' - field_set u
    \<and> UF_USERINFO \<notin> field_set u' - field_set u \<and> port u' = port u"
  using assms
proof (induction cs p s old_uf found_at u rule: url_loop.induct)
  case (1 p s old_uf found_at u)
  then show ?case by simp
next
  case (2 c cs p s old_uf found_at u)
  let ?s = "parse_url_char s c"
  consider "url_state_field ?s = Some None" | uf where "url_state_field ?s = Some (Some uf)"
    using "2.prems"(5) by (cases "url_state_field ?s") (auto simp: Let_def split: option.splits)
  then show ?case
  proof cases
    case 1
    have "fields_below (p + 1) (field_set u) u" using "2.prems"(2) by (rule fields_below_mono) simp
    then show ?thesis
      using "2.IH"(1) [OF refl 1 refl] "2.prems" 1 by (simp add: Let_def)
  next
    case (2 uf)
    let ?at = "found_at \<or> ?s = s_req_server_with_at"
    let ?u = "add_field uf (set_len uf 1 (set_off uf p u))"
    have host: "?s = s_req_server_with_at \<Longrightarrow> uf = UF_HOST" using 2 by (auto simp: url_state_field_server)
    have uf: "uf \<noteq> UF_PORT \<and> uf \<noteq> UF_USERINFO"
      using 2 by (auto simp: url_state_field_def split: state.splits)
    show ?thesis
    proof (cases "old_uf = Some uf")
      case True
      then show ?thesis
        using "2.IH"(2) [OF refl 2 refl refl True] "2.prems" 2 host fields_below_inc [OF "2.prems"(2), of uf]
        by (auto simp: Let_def)
    next
      case False
      then show ?thesis
        using "2.IH"(3) [OF refl 2 refl refl False] "2.prems" 2 host uf
          fields_below_start [OF "2.prems"(2), of uf]
        by (auto simp: Let_def split: if_splits)
    qed
  qed
qed

text \<open>
  The host parser works on the part of the buffer that the URL loop has marked, so it never leaves it.
\<close>

definition host_fields :: "url_field set" where
  "host_fields = {UF_HOST, UF_PORT, UF_USERINFO}"

definition host_bounds :: "nat \<Rightarrow> nat \<Rightarrow> http_parser_url \<Rightarrow> bool" where
  "host_bounds n p u \<longleftrightarrow> fields_below n (field_set u) u \<and> fields_below p (field_set u \<inter> host_fields) u
     \<and> UF_HOST \<in> field_set u"

definition host_inv :: "nat \<Rightarrow> nat \<Rightarrow> http_host_state \<Rightarrow> http_parser_url \<Rightarrow> bool" where
  "host_inv n p s u \<longleftrightarrow> host_bounds n p u
     \<and> (s \<in> {s_http_userinfo_start, s_http_userinfo, s_http_host_start, s_http_host_v6_start}
          \<longrightarrow> field_len u UF_HOST = 0)
     \<and> (s = s_http_host_port \<longrightarrow> UF_PORT \<in> field_set u) \<and> (s = s_http_userinfo \<longrightarrow> UF_USERINFO \<in> field_set u)"

lemma host_bounds_Suc: "host_bounds n p u \<Longrightarrow> host_bounds n (Suc p) u"
  by (auto simp: host_bounds_def fields_below_def intro: le_SucI)

lemma host_bounds_le:
  "host_bounds n p u \<Longrightarrow> f \<in> host_fields \<Longrightarrow> f \<in> field_set u \<Longrightarrow> field_off u f + field_len u f \<le> p"
  by (auto simp: host_bounds_def fields_below_def)

lemma host_bounds_inc:
  assumes "host_bounds n p u" and "f \<in> host_fields" and "f \<in> field_set u" and "p < n"
  shows "host_bounds n (Suc p) (inc_len f u)"
proof -
  have "field_off u f + (field_len u f + 1) mod 2 ^ 16 \<le> p + 1"
    using host_bounds_le [OF assms(1-3)] mod_less_eq_dividend [of "field_len u f + 1" "2 ^ 16"] by linarith
  then show ?thesis
    using host_bounds_Suc [OF assms(1)] assms(4) unfolding host_bounds_def fields_below_def
    by (auto simp: fields_below_def)
qed

lemma host_bounds_set:
  assumes "host_bounds n p u" and "p < n" and "n < 2 ^ 16"
  shows "host_bounds n (Suc p) (inc_len f (add_field f (set_len f 0 (set_off f p u))))"
  using assms by (auto simp: host_bounds_def fields_below_def intro: le_SucI)

lemma host_bounds_host:
  assumes "host_bounds n p u" and "p < n" and "n < 2 ^ 16" and "field_len u UF_HOST = 0"
  shows "host_bounds n (Suc p) (inc_len UF_HOST (set_off UF_HOST p u))"
  using assms by (auto simp: host_bounds_def fields_below_def intro: le_SucI)

lemma host_mark_inv:
  assumes "host_inv n p s u" and "p < n" and "n < 2 ^ 16" and new: "new_s = http_parse_host_char s c"
    and "new_s \<noteq> s_http_host_dead"
  shows "host_inv n (Suc p) new_s (host_mark s new_s p u)"
proof -
  have b: "host_bounds n p u" using assms(1) by (simp add: host_inv_def)
  note facts = host_bounds_Suc [OF b] host_bounds_inc [OF b _ _ assms(2)] host_bounds_set [OF b assms(2,3)]
    host_bounds_host [OF b assms(2,3)]
  have hf: "UF_HOST \<in> host_fields" "UF_PORT \<in> host_fields" "UF_USERINFO \<in> host_fields" "UF_HOST \<in> field_set u"
    using b by (simp_all add: host_fields_def host_bounds_def)
  show ?thesis
    using assms(1,5) new
    by (cases s) (auto simp: host_mark_def host_inv_def http_parse_host_char_def facts hf split: if_splits)
qed

lemma port_host_mark [simp]: "port (host_mark s new_s p u) = port u"
  by (cases new_s) (simp_all add: host_mark_def)

lemma host_loop_inv:
  assumes "host_inv n p s u" and "p + k \<le> n" and "n = length buf" and "n < 2 ^ 16"
  shows "\<exists>r s' u'. host_loop buf p k s u = Some (r, s', u') \<and> (r = 0 \<or> r = 1) \<and> fields_below n (field_set u') u'
    \<and> UF_HOST \<in> field_set u' \<and> port u' = port u"
  using assms
proof (induction buf p k s u rule: host_loop.induct)
  case (1 buf p s u)
  then show ?case by (simp add: host_inv_def host_bounds_def)
next
  case (2 buf p k s u)
  let ?s = "http_parse_host_char s (buf ! p)"
  show ?case
  proof (cases "?s = s_http_host_dead")
    case True
    then show ?thesis using "2.prems" by (simp add: host_inv_def host_bounds_def Let_def)
  next
    case False
    have "host_inv n (Suc p) ?s (host_mark s ?s p u)"
      using host_mark_inv [OF _ _ _ refl False] "2.prems" by simp
    then show ?thesis using "2.IH" [OF _ refl False] "2.prems" False by (simp add: Let_def)
  qed
qed

lemma http_parse_host_ok:
  assumes "fields_below (length buf) (field_set u) u" and "length buf < 2 ^ 16"
    and "UF_HOST \<in> field_set u \<or> field_len u UF_HOST = 0 \<and> \<not> found_at"
    and "UF_PORT \<notin> field_set u" and "UF_USERINFO \<notin> field_set u"
  shows "\<exists>r u'. http_parse_host buf u found_at = Some (r, u') \<and> (r = 0 \<or> r = 1)
    \<and> (r = 0 \<longrightarrow> fields_below (length buf) (field_set u') u' \<and> UF_HOST \<in> field_set u' \<and> port u' = port u)"
proof (cases "UF_HOST \<in> field_set u")
  case True
  let ?s = "if found_at then s_http_userinfo_start else s_http_host_start"
  let ?u = "set_len UF_HOST 0 u"
  have "host_inv (length buf) (field_off u UF_HOST) ?s ?u"
    using True assms(1,4,5) by (auto simp: host_inv_def host_bounds_def fields_below_def host_fields_def)
  moreover have "field_off u UF_HOST + field_len u UF_HOST \<le> length buf"
    using True assms(1) by (simp add: fields_below_def)
  ultimately obtain r s' u' where
    "host_loop buf (field_off u UF_HOST) (field_len u UF_HOST) ?s ?u = Some (r, s', u')" "r = 0 \<or> r = 1"
    "fields_below (length buf) (field_set u') u'" "UF_HOST \<in> field_set u'" "port u' = port ?u"
    using host_loop_inv [OF _ _ refl assms(2)] by blast
  then show ?thesis by (auto simp: http_parse_host_def Let_def)
next
  case False
  then show ?thesis using assms(3) by (simp add: http_parse_host_def Let_def)
qed

lemma parse_url_bounds:
  assumes "length buf < 2 ^ 16" and "field_len u UF_HOST = 0"
  shows "\<exists>r u'. http_parser_parse_url buf rest is_connect u = Some (r, u') \<and> (r = 0 \<or> r = 1)
    \<and> (r = 0 \<longrightarrow> (\<forall>f \<in> field_set u'. field_off u' f + field_len u' f \<le> length buf)
        \<and> port u' < 2 ^ 16 \<and> (UF_SCHEMA \<in> field_set u' \<longrightarrow> UF_HOST \<in> field_set u'))"
proof -
  let ?u = "u\<lparr>field_set := {}, port := 0\<rparr>"
  let ?s = "if is_connect then s_req_server_start else s_req_spaces_before_url"
  obtain r at u1 where l: "url_loop buf 0 ?s None False ?u = (r, at, u1)" by (metis prod_cases3)
  show ?thesis
  proof (cases "r = 0")
    case False
    then show ?thesis using l by (simp add: http_parser_parse_url_def Let_def)
  next
    case True
    have f: "fields_below (length buf) (field_set u1) u1" "at \<longrightarrow> UF_HOST \<in> field_set u1"
      "UF_HOST \<notin> field_set u1 \<longrightarrow> field_len u1 UF_HOST = 0" "UF_PORT \<notin> field_set u1"
      "UF_USERINFO \<notin> field_set u1" "port u1 = 0"
      using url_loop_fields [of 0 buf ?u False None ?s at u1] l True assms by (auto simp: fields_below_def)
    show ?thesis
    proof (cases "UF_SCHEMA \<in> field_set u1 \<or> UF_HOST \<in> field_set u1")
      case host: True
      obtain r2 u2 where h: "http_parse_host buf u1 at = Some (r2, u2)" "r2 = 0 \<or> r2 = 1"
        "r2 = 0 \<longrightarrow> fields_below (length buf) (field_set u2) u2 \<and> UF_HOST \<in> field_set u2 \<and> port u2 = port u1"
        using http_parse_host_ok [OF f(1) assms(1) _ f(4,5)] f(2,3) by blast
      show ?thesis
        using l True host h f(6) by (auto simp: http_parser_parse_url_def Let_def fields_below_def)
    next
      case host: False
      then show ?thesis
        using l True f by (auto simp: http_parser_parse_url_def Let_def fields_below_def)
    qed
  qed
qed

text \<open>
  C31.  \<open>http_parser_parse_url\<close>, called on a URL of fewer than 65536 bytes with the host entry of the result
  structure cleared, returns without reading outside the URL.  If it returns 0, every field it
  reports lies inside the URL, the port fits 16 bits, and a URL with a scheme has a host.
\<close>

theorem http_parser_parse_url_in_bounds:
  assumes "length buf < 2 ^ 16" and "field_len u UF_HOST = 0"
  shows "\<exists>r u'. http_parser_parse_url buf rest is_connect u = Some (r, u') \<and> (r = 0 \<or> r = 1)
    \<and> (r = 0 \<longrightarrow> (\<forall>f \<in> field_set u'. field_off u' f + field_len u' f \<le> length buf)
        \<and> port u' < 2 ^ 16 \<and> (UF_SCHEMA \<in> field_set u' \<longrightarrow> UF_HOST \<in> field_set u'))"
  using assms by (rule parse_url_bounds)

definition url_start :: "nat \<Rightarrow> nat \<Rightarrow> http_parser_url" where
  "url_start off len = \<lparr>field_set = {}, port = 0, field_off = (\<lambda>_. off), field_len = (\<lambda>_. len)\<rparr>"

lemma url_sample_path:
  "IS_URL_CHAR (CHR ''x'') \<Longrightarrow> \<exists>u. http_parser_parse_url ''/x'' '' '' False (url_start 0 0) = Some (0, u)
    \<and> field_set u = {UF_PATH}"
  by (simp add: http_parser_parse_url_def Let_def url_start_def parse_url_char_def url_state_field_def CR_def LF_def)

theorem http_parser_parse_url_in_bounds_witness:
  "\<exists>u. http_parser_parse_url ''/x'' '' '' False (url_start 0 0) = Some (0, u)
    \<and> field_off u UF_PATH + field_len u UF_PATH \<le> length ''/x'' \<and> port u < 2 ^ 16"
proof -
  have "IS_URL_CHAR (CHR ''x'')" by (simp add: code_def IS_URL_CHAR_def BIT_AT_def normal_url_char_def)
  then obtain u where u: "http_parser_parse_url ''/x'' '' '' False (url_start 0 0) = Some (0, u)"
    "field_set u = {UF_PATH}" using url_sample_path by blast
  then show ?thesis
    using http_parser_parse_url_in_bounds [of "''/x''" "url_start 0 0" "'' ''" False]
    by (auto simp: url_start_def)
qed

lemma url_sample_classes:
  "IS_ALPHA (CHR ''h'')" "IS_ALPHA (CHR ''t'')" "IS_ALPHA (CHR ''p'')" "\<not> IS_ALPHA (CHR '':'')"
  "IS_URL_CHAR (CHR ''x'')"
  by (simp_all add: IS_ALPHA_def LOWER_def code_def IS_URL_CHAR_def BIT_AT_def normal_url_char_def)

lemma url_sample_loop:
  "url_loop ''http:///x'' 0 s_req_spaces_before_url None False u =
     (0, False, inc_len UF_PATH (add_field UF_PATH (set_len UF_PATH 1 (set_off UF_PATH 7
         (inc_len UF_SCHEMA (inc_len UF_SCHEMA (inc_len UF_SCHEMA
           (add_field UF_SCHEMA (set_len UF_SCHEMA 1 (set_off UF_SCHEMA 0 u))))))))))"
  by (simp add: url_sample_classes parse_url_char_def url_state_field_def Let_def CR_def LF_def)

lemmas host_loop_step = host_loop.simps(2) [of _ _ "pred_numeral k" for k, folded numeral_eq_Suc]

text \<open>
  The function does not clear the host entry itself, and all its callers pass an uninitialised
  structure on the stack.  For \<open>http:///x\<close>, which has a scheme and no host, the outcome then depends on the
  stale entry: with offset 100 and length 1 the host parser reads past the URL, with offset 1 and length 3 the URL
  is accepted although a comment in the code says that it fails, and only with length 0 it is rejected.
\<close>

theorem http_parser_parse_url_stale_host:
  "http_parser_parse_url ''http:///x'' '' '' False (url_start 100 1) = None
   \<and> map_option (\<lambda>(r, u). (r, field_set u = {UF_PATH, UF_SCHEMA}))
       (http_parser_parse_url ''http:///x'' '' '' False (url_start 1 3)) = Some (0, True)
   \<and> map_option fst (http_parser_parse_url ''http:///x'' '' '' False (url_start 0 0)) = Some 1"
  unfolding http_parser_parse_url_def Let_def if_False url_sample_loop
  by (simp add: url_start_def http_parse_host_def Let_def host_loop_step host_loop.simps(2) [of _ _ 0, folded One_nat_def]
      http_parse_host_char_def IS_HOST_CHAR_def IS_ALPHANUM_def url_sample_classes host_mark_def del: url_loop.simps)

end
