(* ===== verification/HttpParser.thy ===== *)
theory HttpParser
  imports HttpUrl
begin

text \<open>
  The incremental HTTP message parser \<open>http_parser_execute\<close> of \<open>Util/src/util/http/http_parser.c\<close>, on which the
  HTTP and WebSocket codecs rest, with the functions around it (\<open>http_parser_init\<close>,
  \<open>http_should_keep_alive\<close>, \<open>http_message_needs_eof\<close>, \<open>http_parser_pause\<close>).

  The parser structure is a record over the type \<open>'u\<close> of the object behind its \<open>data\<close> pointer.  A callback is
  a function that gets the parser and returns its \<open>int\<close> result and the parser it leaves; a null
  pointer is \<open>None\<close>.  The 7-bit field \<open>flags\<close> is the set of its flags; the other counters are natural
  numbers with the wrap-around of their width written out.  The local variables of
  \<open>http_parser_execute\<close> form the record \<open>exec\<close>, each state of the switch is one definition, and the macros that
  leave the function are outcomes: \<open>Break\<close> goes on to the next byte, \<open>Reexec\<close> is \<open>goto reexecute\<close>,
  \<open>Return\<close> leaves with a result and \<open>Abort\<close> is a failed \<open>assert\<close>.
\<close>

subsection \<open>Enumerations and structures\<close>

datatype http_parser_type = HTTP_REQUEST | HTTP_RESPONSE | HTTP_BOTH

datatype http_flag =
    F_CHUNKED | F_CONNECTION_KEEP_ALIVE | F_CONNECTION_CLOSE | F_CONNECTION_UPGRADE
  | F_TRAILING | F_UPGRADE | F_SKIPBODY

datatype (plugins only: code) http_method =
    HTTP_DELETE | HTTP_GET | HTTP_HEAD | HTTP_POST | HTTP_PUT | HTTP_CONNECT | HTTP_OPTIONS
  | HTTP_TRACE | HTTP_COPY | HTTP_LOCK | HTTP_MKCOL | HTTP_MOVE | HTTP_PROPFIND | HTTP_PROPPATCH
  | HTTP_SEARCH | HTTP_UNLOCK | HTTP_REPORT | HTTP_MKACTIVITY | HTTP_CHECKOUT | HTTP_MERGE
  | HTTP_MSEARCH | HTTP_NOTIFY | HTTP_SUBSCRIBE | HTTP_UNSUBSCRIBE | HTTP_PATCH | HTTP_PURGE
  | HTTP_MKCALENDAR

definition method_strings :: "http_method \<Rightarrow> string" where
  "method_strings m = (case m of
     HTTP_DELETE \<Rightarrow> ''DELETE'' | HTTP_GET \<Rightarrow> ''GET'' | HTTP_HEAD \<Rightarrow> ''HEAD'' | HTTP_POST \<Rightarrow> ''POST''
   | HTTP_PUT \<Rightarrow> ''PUT'' | HTTP_CONNECT \<Rightarrow> ''CONNECT'' | HTTP_OPTIONS \<Rightarrow> ''OPTIONS''
   | HTTP_TRACE \<Rightarrow> ''TRACE'' | HTTP_COPY \<Rightarrow> ''COPY'' | HTTP_LOCK \<Rightarrow> ''LOCK'' | HTTP_MKCOL \<Rightarrow> ''MKCOL''
   | HTTP_MOVE \<Rightarrow> ''MOVE'' | HTTP_PROPFIND \<Rightarrow> ''PROPFIND'' | HTTP_PROPPATCH \<Rightarrow> ''PROPPATCH''
   | HTTP_SEARCH \<Rightarrow> ''SEARCH'' | HTTP_UNLOCK \<Rightarrow> ''UNLOCK'' | HTTP_REPORT \<Rightarrow> ''REPORT''
   | HTTP_MKACTIVITY \<Rightarrow> ''MKACTIVITY'' | HTTP_CHECKOUT \<Rightarrow> ''CHECKOUT'' | HTTP_MERGE \<Rightarrow> ''MERGE''
   | HTTP_MSEARCH \<Rightarrow> ''M-SEARCH'' | HTTP_NOTIFY \<Rightarrow> ''NOTIFY'' | HTTP_SUBSCRIBE \<Rightarrow> ''SUBSCRIBE''
   | HTTP_UNSUBSCRIBE \<Rightarrow> ''UNSUBSCRIBE'' | HTTP_PATCH \<Rightarrow> ''PATCH'' | HTTP_PURGE \<Rightarrow> ''PURGE''
   | HTTP_MKCALENDAR \<Rightarrow> ''MKCALENDAR'')"

datatype (plugins only: code) http_errno =
    HPE_OK | HPE_CB_message_begin | HPE_CB_url | HPE_CB_header_field | HPE_CB_header_value
  | HPE_CB_headers_complete | HPE_CB_body | HPE_CB_message_complete | HPE_CB_status
  | HPE_CB_chunk_header | HPE_CB_chunk_complete | HPE_INVALID_EOF_STATE | HPE_HEADER_OVERFLOW
  | HPE_CLOSED_CONNECTION | HPE_INVALID_VERSION | HPE_INVALID_STATUS | HPE_INVALID_METHOD
  | HPE_INVALID_URL | HPE_INVALID_HOST | HPE_INVALID_PORT | HPE_INVALID_PATH
  | HPE_INVALID_QUERY_STRING | HPE_INVALID_FRAGMENT | HPE_LF_EXPECTED | HPE_INVALID_HEADER_TOKEN
  | HPE_INVALID_CONTENT_LENGTH | HPE_INVALID_CHUNK_SIZE | HPE_INVALID_CONSTANT
  | HPE_INVALID_INTERNAL_STATE | HPE_STRICT | HPE_PAUSED | HPE_UNKNOWN

datatype (plugins only: code) header_states =
    h_general | h_C | h_CO | h_CON | h_matching_connection | h_matching_proxy_connection
  | h_matching_content_length | h_matching_transfer_encoding | h_matching_upgrade | h_connection
  | h_content_length | h_transfer_encoding | h_upgrade | h_matching_transfer_encoding_chunked
  | h_matching_connection_token_start | h_matching_connection_keep_alive
  | h_matching_connection_close | h_matching_connection_upgrade | h_matching_connection_token
  | h_transfer_encoding_chunked | h_connection_keep_alive | h_connection_close
  | h_connection_upgrade

record 'u http_parser =
  parser_type :: http_parser_type
  flags :: "http_flag set"
  state :: state
  header_state :: header_states
  index :: nat
  nread :: nat
  content_length :: nat
  http_major :: nat
  http_minor :: nat
  status_code :: nat
  parser_method :: http_method
  http_errno :: http_errno
  upgrade :: bool
  parser_data :: 'u

type_synonym 'u http_cb = "'u http_parser \<Rightarrow> int \<times> 'u http_parser"
type_synonym 'u http_data_cb = "'u http_parser \<Rightarrow> string \<Rightarrow> int \<times> 'u http_parser"

record 'u http_parser_settings =
  on_message_begin :: "'u http_cb option"
  on_url :: "'u http_data_cb option"
  on_status :: "'u http_data_cb option"
  on_header_field :: "'u http_data_cb option"
  on_header_value :: "'u http_data_cb option"
  on_headers_complete :: "'u http_cb option"
  on_body :: "'u http_data_cb option"
  on_message_complete :: "'u http_cb option"
  on_chunk_header :: "'u http_cb option"
  on_chunk_complete :: "'u http_cb option"

definition ULLONG_MAX :: nat where "ULLONG_MAX = 2 ^ 64 - 1"

definition HTTP_MAX_HEADER_SIZE :: nat where "HTTP_MAX_HEADER_SIZE = 80 * 1024"

subsection \<open>Functions on the parser\<close>

definition http_message_needs_eof :: "'u http_parser \<Rightarrow> bool" where
  "http_message_needs_eof q =
     (if parser_type q = HTTP_REQUEST then False
      else if status_code q div 100 = 1 \<or> status_code q = 204 \<or> status_code q = 304
              \<or> F_SKIPBODY \<in> flags q then False
      else if F_CHUNKED \<in> flags q \<or> content_length q \<noteq> ULLONG_MAX then False
      else True)"

definition http_should_keep_alive :: "'u http_parser \<Rightarrow> bool" where
  "http_should_keep_alive q =
     (if http_major q > 0 \<and> http_minor q > 0 \<and> F_CONNECTION_CLOSE \<in> flags q then False
      else if \<not> (http_major q > 0 \<and> http_minor q > 0) \<and> F_CONNECTION_KEEP_ALIVE \<notin> flags q then False
      else \<not> http_message_needs_eof q)"

definition http_parser_init :: "'u http_parser \<Rightarrow> http_parser_type \<Rightarrow> 'u http_parser" where
  "http_parser_init q t =
     \<lparr>parser_type = t, flags = {},
      state = (if t = HTTP_REQUEST then s_start_req else if t = HTTP_RESPONSE then s_start_res
               else s_start_req_or_res),
      header_state = h_general, index = 0, nread = 0, content_length = 0, http_major = 0,
      http_minor = 0, status_code = 0, parser_method = HTTP_DELETE, http_errno = HPE_OK,
      upgrade = False, parser_data = parser_data q\<rparr>"

definition http_parser_settings_init :: "'u http_parser_settings" where
  "http_parser_settings_init =
     \<lparr>on_message_begin = None, on_url = None, on_status = None, on_header_field = None,
      on_header_value = None, on_headers_complete = None, on_body = None,
      on_message_complete = None, on_chunk_header = None, on_chunk_complete = None\<rparr>"

text \<open>\<open>None\<close> is the failed assertion of a parser that is in an error state.\<close>

definition http_parser_pause :: "'u http_parser \<Rightarrow> bool \<Rightarrow> 'u http_parser option" where
  "http_parser_pause q paused =
     (if http_errno q = HPE_OK \<or> http_errno q = HPE_PAUSED
      then Some (q\<lparr>http_errno := if paused then HPE_PAUSED else HPE_OK\<rparr>) else None)"

definition http_body_is_final :: "'u http_parser \<Rightarrow> bool" where
  "http_body_is_final q \<longleftrightarrow> state q = s_message_done"

definition http_method_str :: "http_method \<Rightarrow> string" where
  "http_method_str m = method_strings m"

definition start_state :: "'u http_parser \<Rightarrow> state" where
  "start_state q = (if parser_type q = HTTP_REQUEST then s_start_req else s_start_res)"

definition NEW_MESSAGE :: "'u http_parser \<Rightarrow> state" where
  "NEW_MESSAGE q = (if http_should_keep_alive q then start_state q else s_dead)"

subsection \<open>The local variables of http\_parser\_execute and the macros\<close>

datatype data_mark = header_field_mark | header_value_mark | url_mark | body_mark | status_mark

record 'u exec =
  parser :: "'u http_parser"
  p_state :: state
  pp :: nat
  ch :: char
  marks :: "data_mark \<Rightarrow> nat option"

datatype 'u outcome =
    Break "'u exec" | Reexec "'u exec" | Return nat "'u http_parser" | Abort

definition SET_ERRNO :: "http_errno \<Rightarrow> 'u exec \<Rightarrow> 'u exec" where
  "SET_ERRNO e st = st\<lparr>parser := (parser st)\<lparr>http_errno := e\<rparr>\<rparr>"

definition UPDATE_STATE :: "state \<Rightarrow> 'u exec \<Rightarrow> 'u exec" where
  "UPDATE_STATE s st = st\<lparr>p_state := s\<rparr>"

definition RETURN :: "nat \<Rightarrow> 'u exec \<Rightarrow> 'u outcome" where
  "RETURN v st = Return v ((parser st)\<lparr>state := p_state st\<rparr>)"

text \<open>The label \<open>error\<close>, and \<open>SET_ERRNO(e); goto error\<close>.\<close>

definition goto_error :: "'u exec \<Rightarrow> 'u outcome" where
  "goto_error st =
     (let st = (if http_errno (parser st) = HPE_OK then SET_ERRNO HPE_UNKNOWN st else st)
      in RETURN (pp st) st)"

definition fail :: "http_errno \<Rightarrow> 'u exec \<Rightarrow> 'u outcome" where
  "fail e st = goto_error (SET_ERRNO e st)"

definition ASSERT :: "bool \<Rightarrow> 'u outcome \<Rightarrow> 'u outcome" where
  "ASSERT b k = (if b then k else Abort)"

definition STRICT_CHECK :: "bool \<Rightarrow> 'u exec \<Rightarrow> 'u outcome \<Rightarrow> 'u outcome" where
  "STRICT_CHECK cond st k = (if cond then fail HPE_STRICT st else k)"

definition COUNT_HEADER_SIZE :: "nat \<Rightarrow> 'u exec \<Rightarrow> ('u exec \<Rightarrow> 'u outcome) \<Rightarrow> 'u outcome" where
  "COUNT_HEADER_SIZE v st k =
     (let n = (nread (parser st) + v) mod 2 ^ 32;
          st = st\<lparr>parser := (parser st)\<lparr>nread := n\<rparr>\<rparr>
      in if n > HTTP_MAX_HEADER_SIZE then fail HPE_HEADER_OVERFLOW st else k st)"

definition MARK :: "data_mark \<Rightarrow> 'u exec \<Rightarrow> 'u exec" where
  "MARK m st = (if marks st m = None then st\<lparr>marks := (marks st)(m \<mapsto> pp st)\<rparr> else st)"

text \<open>After a callback has run: an error it reports, the state it leaves, and whether it paused.\<close>

definition after_callback ::
  "http_errno \<Rightarrow> nat \<Rightarrow> int \<times> 'u http_parser \<Rightarrow> 'u exec \<Rightarrow> ('u exec \<Rightarrow> 'u outcome) \<Rightarrow> 'u outcome" where
  "after_callback e er rq st k =
     (let q = (if fst rq \<noteq> 0 then (snd rq)\<lparr>http_errno := e\<rparr> else snd rq);
          st = st\<lparr>parser := q, p_state := state q\<rparr>
      in if http_errno q \<noteq> HPE_OK then Return er q else k st)"

definition CALLBACK_NOTIFY_er ::
  "'u http_cb option \<Rightarrow> http_errno \<Rightarrow> nat \<Rightarrow> 'u exec \<Rightarrow> ('u exec \<Rightarrow> 'u outcome) \<Rightarrow> 'u outcome" where
  "CALLBACK_NOTIFY_er cb e er st k =
     ASSERT (http_errno (parser st) = HPE_OK)
       (case cb of
          None \<Rightarrow> k st
        | Some f \<Rightarrow> after_callback e er (f ((parser st)\<lparr>state := p_state st\<rparr>)) st k)"

definition CALLBACK_NOTIFY ::
  "'u http_cb option \<Rightarrow> http_errno \<Rightarrow> 'u exec \<Rightarrow> ('u exec \<Rightarrow> 'u outcome) \<Rightarrow> 'u outcome" where
  "CALLBACK_NOTIFY cb e st k = CALLBACK_NOTIFY_er cb e (pp st + 1) st k"

definition CALLBACK_NOTIFY_NOADVANCE ::
  "'u http_cb option \<Rightarrow> http_errno \<Rightarrow> 'u exec \<Rightarrow> ('u exec \<Rightarrow> 'u outcome) \<Rightarrow> 'u outcome" where
  "CALLBACK_NOTIFY_NOADVANCE cb e st k = CALLBACK_NOTIFY_er cb e (pp st) st k"

fun data_cb :: "'u http_parser_settings \<Rightarrow> data_mark \<Rightarrow> 'u http_data_cb option" where
  "data_cb S header_field_mark = on_header_field S"
| "data_cb S header_value_mark = on_header_value S"
| "data_cb S url_mark = on_url S"
| "data_cb S body_mark = on_body S"
| "data_cb S status_mark = on_status S"

fun data_err :: "data_mark \<Rightarrow> http_errno" where
  "data_err header_field_mark = HPE_CB_header_field"
| "data_err header_value_mark = HPE_CB_header_value"
| "data_err url_mark = HPE_CB_url"
| "data_err body_mark = HPE_CB_body"
| "data_err status_mark = HPE_CB_status"

text \<open>\<open>till\<close> is the end of the reported data: the code passes the length \<open>till - mark\<close>.\<close>

definition CALLBACK_DATA_er ::
  "'u http_parser_settings \<Rightarrow> string \<Rightarrow> data_mark \<Rightarrow> nat \<Rightarrow> nat \<Rightarrow> 'u exec \<Rightarrow> ('u exec \<Rightarrow> 'u outcome)
     \<Rightarrow> 'u outcome" where
  "CALLBACK_DATA_er S d m till er st k =
     ASSERT (http_errno (parser st) = HPE_OK)
       (case marks st m of
          None \<Rightarrow> k st
        | Some i \<Rightarrow>
            (let k' = (\<lambda>st. k (st\<lparr>marks := (marks st)(m := None)\<rparr>)) in
             case data_cb S m of
               None \<Rightarrow> k' st
             | Some f \<Rightarrow>
                 after_callback (data_err m) er
                   (f ((parser st)\<lparr>state := p_state st\<rparr>) (segment i till d)) st k'))"

definition CALLBACK_DATA ::
  "'u http_parser_settings \<Rightarrow> string \<Rightarrow> data_mark \<Rightarrow> 'u exec \<Rightarrow> ('u exec \<Rightarrow> 'u outcome) \<Rightarrow> 'u outcome" where
  "CALLBACK_DATA S d m st k = CALLBACK_DATA_er S d m (pp st) (pp st + 1) st k"

definition CALLBACK_DATA_NOADVANCE ::
  "'u http_parser_settings \<Rightarrow> string \<Rightarrow> data_mark \<Rightarrow> 'u exec \<Rightarrow> ('u exec \<Rightarrow> 'u outcome) \<Rightarrow> 'u outcome" where
  "CALLBACK_DATA_NOADVANCE S d m st k = CALLBACK_DATA_er S d m (pp st) (pp st) st k"

definition on_parser :: "('u http_parser \<Rightarrow> 'u http_parser) \<Rightarrow> 'u exec \<Rightarrow> 'u exec" where
  "on_parser f st = st\<lparr>parser := f (parser st)\<rparr>"

definition add_flag :: "http_flag \<Rightarrow> 'u exec \<Rightarrow> 'u exec" where
  "add_flag F = on_parser (\<lambda>q. q\<lparr>flags := insert F (flags q)\<rparr>)"

definition set_header_state :: "header_states \<Rightarrow> 'u exec \<Rightarrow> 'u exec" where
  "set_header_state h = on_parser (\<lambda>q. q\<lparr>header_state := h\<rparr>)"

definition set_index :: "nat \<Rightarrow> 'u exec \<Rightarrow> 'u exec" where
  "set_index i = on_parser (\<lambda>q. q\<lparr>index := i mod 256\<rparr>)"

definition digit :: "char \<Rightarrow> nat" where
  "digit c = code c - code (CHR ''0'')"

subsection \<open>Start states and the status line\<close>

definition x_dead :: "'u exec \<Rightarrow> 'u outcome" where
  "x_dead st = (if ch st = CR \<or> ch st = LF then Break st else fail HPE_CLOSED_CONNECTION st)"

definition begin_message :: "'u exec \<Rightarrow> 'u exec" where
  "begin_message = on_parser (\<lambda>q. q\<lparr>flags := {}, content_length := ULLONG_MAX\<rparr>)"

definition x_start_req_or_res :: "'u http_parser_settings \<Rightarrow> 'u exec \<Rightarrow> 'u outcome" where
  "x_start_req_or_res S st =
     (if ch st = CR \<or> ch st = LF then Break st
      else
        let st = begin_message st in
        if ch st = CHR ''H''
        then CALLBACK_NOTIFY (on_message_begin S) HPE_CB_message_begin (UPDATE_STATE s_res_or_resp_H st) Break
        else Reexec (UPDATE_STATE s_start_req (on_parser (\<lambda>q. q\<lparr>parser_type := HTTP_REQUEST\<rparr>) st)))"

definition x_res_or_resp_H :: "'u exec \<Rightarrow> 'u outcome" where
  "x_res_or_resp_H st =
     (if ch st = CHR ''T''
      then Break (UPDATE_STATE s_res_HT (on_parser (\<lambda>q. q\<lparr>parser_type := HTTP_RESPONSE\<rparr>) st))
      else if ch st \<noteq> CHR ''E'' then fail HPE_INVALID_CONSTANT st
      else Break (UPDATE_STATE s_req_method
             (on_parser (\<lambda>q. q\<lparr>parser_type := HTTP_REQUEST, parser_method := HTTP_HEAD, index := 2\<rparr>) st)))"

definition x_start_res :: "'u http_parser_settings \<Rightarrow> 'u exec \<Rightarrow> 'u outcome" where
  "x_start_res S st =
     (let st = begin_message st in
      if ch st = CHR ''H''
      then CALLBACK_NOTIFY (on_message_begin S) HPE_CB_message_begin (UPDATE_STATE s_res_H st) Break
      else if ch st = CR \<or> ch st = LF
      then CALLBACK_NOTIFY (on_message_begin S) HPE_CB_message_begin st Break
      else fail HPE_INVALID_CONSTANT st)"

text \<open>The states that expect one fixed character: \<open>STRICT_CHECK(ch != c)\<close>, then the next state.\<close>

definition x_expect :: "char \<Rightarrow> state \<Rightarrow> 'u exec \<Rightarrow> 'u outcome" where
  "x_expect c s st = STRICT_CHECK (ch st \<noteq> c) st (Break (UPDATE_STATE s st))"

definition x_first_major :: "char \<Rightarrow> state \<Rightarrow> 'u exec \<Rightarrow> 'u outcome" where
  "x_first_major lo s st =
     (if code (ch st) < code lo \<or> code (ch st) > code (CHR ''9'') then fail HPE_INVALID_VERSION st
      else Break (UPDATE_STATE s (on_parser (\<lambda>q. q\<lparr>http_major := digit (ch st)\<rparr>) st)))"

definition x_http_major :: "state \<Rightarrow> 'u exec \<Rightarrow> 'u outcome" where
  "x_http_major s st =
     (if ch st = CHR ''.'' then Break (UPDATE_STATE s st)
      else if \<not> IS_NUM (ch st) then fail HPE_INVALID_VERSION st
      else
        let n = (http_major (parser st) * 10 + digit (ch st)) mod 2 ^ 16;
            st = on_parser (\<lambda>q. q\<lparr>http_major := n\<rparr>) st
        in if n > 999 then fail HPE_INVALID_VERSION st else Break st)"

definition x_first_minor :: "state \<Rightarrow> 'u exec \<Rightarrow> 'u outcome" where
  "x_first_minor s st =
     (if \<not> IS_NUM (ch st) then fail HPE_INVALID_VERSION st
      else Break (UPDATE_STATE s (on_parser (\<lambda>q. q\<lparr>http_minor := digit (ch st)\<rparr>) st)))"

definition more_minor :: "'u exec \<Rightarrow> 'u outcome" where
  "more_minor st =
     (if \<not> IS_NUM (ch st) then fail HPE_INVALID_VERSION st
      else
        let n = (http_minor (parser st) * 10 + digit (ch st)) mod 2 ^ 16;
            st = on_parser (\<lambda>q. q\<lparr>http_minor := n\<rparr>) st
        in if n > 999 then fail HPE_INVALID_VERSION st else Break st)"

definition x_res_http_minor :: "'u exec \<Rightarrow> 'u outcome" where
  "x_res_http_minor st =
     (if ch st = CHR '' '' then Break (UPDATE_STATE s_res_first_status_code st) else more_minor st)"

definition x_res_first_status_code :: "'u exec \<Rightarrow> 'u outcome" where
  "x_res_first_status_code st =
     (if \<not> IS_NUM (ch st)
      then if ch st = CHR '' '' then Break st else fail HPE_INVALID_STATUS st
      else Break (UPDATE_STATE s_res_status_code (on_parser (\<lambda>q. q\<lparr>status_code := digit (ch st)\<rparr>) st)))"

definition x_res_status_code :: "'u exec \<Rightarrow> 'u outcome" where
  "x_res_status_code st =
     (if \<not> IS_NUM (ch st) then
        if ch st = CHR '' '' then Break (UPDATE_STATE s_res_status_start st)
        else if ch st = CR then Break (UPDATE_STATE s_res_line_almost_done st)
        else if ch st = LF then Break (UPDATE_STATE s_header_field_start st)
        else fail HPE_INVALID_STATUS st
      else
        let n = (status_code (parser st) * 10 + digit (ch st)) mod 2 ^ 16;
            st = on_parser (\<lambda>q. q\<lparr>status_code := n\<rparr>) st
        in if n > 999 then fail HPE_INVALID_STATUS st else Break st)"

definition x_res_status_start :: "'u exec \<Rightarrow> 'u outcome" where
  "x_res_status_start st =
     (if ch st = CR then Break (UPDATE_STATE s_res_line_almost_done st)
      else if ch st = LF then Break (UPDATE_STATE s_header_field_start st)
      else Break (set_index 0 (UPDATE_STATE s_res_status (MARK status_mark st))))"

definition x_res_status :: "'u http_parser_settings \<Rightarrow> string \<Rightarrow> 'u exec \<Rightarrow> 'u outcome" where
  "x_res_status S d st =
     (if ch st = CR then CALLBACK_DATA S d status_mark (UPDATE_STATE s_res_line_almost_done st) Break
      else if ch st = LF then CALLBACK_DATA S d status_mark (UPDATE_STATE s_header_field_start st) Break
      else Break st)"

subsection \<open>The request line\<close>

text \<open>The method that the first letter selects; \<open>None\<close> is the default branch.\<close>

definition first_method :: "char \<Rightarrow> http_method option" where
  "first_method c =
     (if c = CHR ''C'' then Some HTTP_CONNECT else if c = CHR ''D'' then Some HTTP_DELETE
      else if c = CHR ''G'' then Some HTTP_GET else if c = CHR ''H'' then Some HTTP_HEAD
      else if c = CHR ''L'' then Some HTTP_LOCK else if c = CHR ''M'' then Some HTTP_MKCOL
      else if c = CHR ''N'' then Some HTTP_NOTIFY else if c = CHR ''O'' then Some HTTP_OPTIONS
      else if c = CHR ''P'' then Some HTTP_POST else if c = CHR ''R'' then Some HTTP_REPORT
      else if c = CHR ''S'' then Some HTTP_SUBSCRIBE else if c = CHR ''T'' then Some HTTP_TRACE
      else if c = CHR ''U'' then Some HTTP_UNLOCK else None)"

definition x_start_req :: "'u http_parser_settings \<Rightarrow> 'u exec \<Rightarrow> 'u outcome" where
  "x_start_req S st =
     (if ch st = CR \<or> ch st = LF then Break st
      else
        let st = begin_message st in
        if \<not> IS_ALPHA (ch st) then fail HPE_INVALID_METHOD st
        else
          let st = on_parser (\<lambda>q. q\<lparr>parser_method := HTTP_DELETE, index := 1\<rparr>) st in
          case first_method (ch st) of
            None \<Rightarrow> fail HPE_INVALID_METHOD st
          | Some m \<Rightarrow>
              CALLBACK_NOTIFY (on_message_begin S) HPE_CB_message_begin
                (UPDATE_STATE s_req_method (on_parser (\<lambda>q. q\<lparr>parser_method := m\<rparr>) st)) Break)"

text \<open>
  How a character that does not continue the method selected so far changes it; \<open>None\<close> is
  \<open>HPE_INVALID_METHOD\<close>.
\<close>

definition switch_method :: "http_method \<Rightarrow> nat \<Rightarrow> char \<Rightarrow> http_method option" where
  "switch_method m i c =
     (if m = HTTP_CONNECT then
        if i = 1 \<and> c = CHR ''H'' then Some HTTP_CHECKOUT
        else if i = 2 \<and> c = CHR ''P'' then Some HTTP_COPY else None
      else if m = HTTP_MKCOL then
        if i = 1 \<and> c = CHR ''O'' then Some HTTP_MOVE
        else if i = 1 \<and> c = CHR ''E'' then Some HTTP_MERGE
        else if i = 1 \<and> c = CHR ''-'' then Some HTTP_MSEARCH
        else if i = 2 \<and> c = CHR ''A'' then Some HTTP_MKACTIVITY
        else if i = 3 \<and> c = CHR ''A'' then Some HTTP_MKCALENDAR else None
      else if m = HTTP_SUBSCRIBE then
        if i = 1 \<and> c = CHR ''E'' then Some HTTP_SEARCH else None
      else if i = 1 \<and> m = HTTP_POST then
        if c = CHR ''R'' then Some HTTP_PROPFIND
        else if c = CHR ''U'' then Some HTTP_PUT
        else if c = CHR ''A'' then Some HTTP_PATCH else None
      else if i = 2 then
        if m = HTTP_PUT then if c = CHR ''R'' then Some HTTP_PURGE else None
        else if m = HTTP_UNLOCK then if c = CHR ''S'' then Some HTTP_UNSUBSCRIBE else None
        else None
      else if i = 4 \<and> m = HTTP_PROPFIND \<and> c = CHR ''P'' then Some HTTP_PROPPATCH
      else None)"

text \<open>The matcher is read with its final \<open>NUL\<close>; a read behind that is not defined.\<close>

definition x_req_method :: "'u exec \<Rightarrow> 'u outcome" where
  "x_req_method st =
     (if ch st = NUL then fail HPE_INVALID_METHOD st
      else
        let m = parser_method (parser st); i = index (parser st); matcher = method_strings m @ [NUL];
            next = set_index (i + 1)
        in ASSERT (i < length matcher)
             (if ch st = CHR '' '' \<and> matcher ! i = NUL then Break (next (UPDATE_STATE s_req_spaces_before_url st))
              else if ch st = matcher ! i then Break (next st)
              else case switch_method m i (ch st) of
                     None \<Rightarrow> fail HPE_INVALID_METHOD st
                   | Some m' \<Rightarrow> Break (next (on_parser (\<lambda>q. q\<lparr>parser_method := m'\<rparr>) st))))"

definition to_url_state :: "'u exec \<Rightarrow> 'u outcome" where
  "to_url_state st =
     (let s = parse_url_char (p_state st) (ch st); st = UPDATE_STATE s st
      in if s = s_dead then fail HPE_INVALID_URL st else Break st)"

definition x_req_spaces_before_url :: "'u exec \<Rightarrow> 'u outcome" where
  "x_req_spaces_before_url st =
     (if ch st = CHR '' '' then Break st
      else
        let st = MARK url_mark st;
            st = (if parser_method (parser st) = HTTP_CONNECT then UPDATE_STATE s_req_server_start st else st)
        in to_url_state st)"

text \<open>\<open>s_req_schema\<close> to \<open>s_req_server_start\<close>: no white space allowed.\<close>

definition x_req_schema :: "'u exec \<Rightarrow> 'u outcome" where
  "x_req_schema st =
     (if ch st = CHR '' '' \<or> ch st = CR \<or> ch st = LF then fail HPE_INVALID_URL st else to_url_state st)"

text \<open>\<open>s_req_server\<close> to \<open>s_req_fragment\<close>: white space ends the URL.\<close>

definition x_req_url :: "'u http_parser_settings \<Rightarrow> string \<Rightarrow> 'u exec \<Rightarrow> 'u outcome" where
  "x_req_url S d st =
     (if ch st = CHR '' '' then CALLBACK_DATA S d url_mark (UPDATE_STATE s_req_http_start st) Break
      else if ch st = CR \<or> ch st = LF then
        let st = on_parser (\<lambda>q. q\<lparr>http_major := 0, http_minor := 9\<rparr>) st;
            s = (if ch st = CR then s_req_line_almost_done else s_header_field_start)
        in CALLBACK_DATA S d url_mark (UPDATE_STATE s st) Break
      else to_url_state st)"

definition x_req_http_start :: "'u exec \<Rightarrow> 'u outcome" where
  "x_req_http_start st =
     (if ch st = CHR ''H'' then Break (UPDATE_STATE s_req_http_H st)
      else if ch st = CHR '' '' then Break st
      else fail HPE_INVALID_CONSTANT st)"

definition x_req_http_minor :: "'u exec \<Rightarrow> 'u outcome" where
  "x_req_http_minor st =
     (if ch st = CR then Break (UPDATE_STATE s_req_line_almost_done st)
      else if ch st = LF then Break (UPDATE_STATE s_header_field_start st)
      else more_minor st)"

definition x_req_line_almost_done :: "'u exec \<Rightarrow> 'u outcome" where
  "x_req_line_almost_done st =
     (if ch st \<noteq> LF then fail HPE_LF_EXPECTED st else Break (UPDATE_STATE s_header_field_start st))"

subsection \<open>Header fields\<close>

definition x_header_field_start :: "'u exec \<Rightarrow> 'u outcome" where
  "x_header_field_start st =
     (if ch st = CR then Break (UPDATE_STATE s_headers_almost_done st)
      else if ch st = LF then Reexec (UPDATE_STATE s_headers_almost_done st)
      else
        let c = TOKEN (ch st) in
        if c = NUL then fail HPE_INVALID_HEADER_TOKEN st
        else
          let st = UPDATE_STATE s_header_field (set_index 0 (MARK header_field_mark st));
              h = (if c = CHR ''c'' then h_C else if c = CHR ''p'' then h_matching_proxy_connection
                   else if c = CHR ''t'' then h_matching_transfer_encoding
                   else if c = CHR ''u'' then h_matching_upgrade else h_general)
          in Break (set_header_state h st))"

text \<open>
  One step of matching a header name or value against the constant \<open>w\<close>, whose \<open>sizeof\<close> counts the
  final \<open>NUL\<close>.
\<close>

definition match_word ::
  "string \<Rightarrow> header_states \<Rightarrow> header_states \<Rightarrow> header_states \<Rightarrow> nat \<Rightarrow> char \<Rightarrow> header_states \<times> nat" where
  "match_word w h h_fail h_done i c =
     (let i = (i + 1) mod 256 in
      if i > length w \<or> c \<noteq> (w @ [NUL]) ! i then (h_fail, i)
      else if i = length w - 1 then (h_done, i)
      else (h, i))"

text \<open>The switch on \<open>header_state\<close> for one token character; \<open>None\<close> is the failed assertion.\<close>

definition field_step :: "header_states \<Rightarrow> nat \<Rightarrow> char \<Rightarrow> char \<Rightarrow> (header_states \<times> nat) option" where
  "field_step h i c raw =
     (case h of
        h_general \<Rightarrow> Some (h, i)
      | h_C \<Rightarrow> Some (if c = CHR ''o'' then h_CO else h_general, (i + 1) mod 256)
      | h_CO \<Rightarrow> Some (if c = CHR ''n'' then h_CON else h_general, (i + 1) mod 256)
      | h_CON \<Rightarrow> Some (if c = CHR ''n'' then h_matching_connection
                      else if c = CHR ''t'' then h_matching_content_length else h_general, (i + 1) mod 256)
      | h_matching_connection \<Rightarrow> Some (match_word ''connection'' h h_general h_connection i c)
      | h_matching_proxy_connection \<Rightarrow> Some (match_word ''proxy-connection'' h h_general h_connection i c)
      | h_matching_content_length \<Rightarrow> Some (match_word ''content-length'' h h_general h_content_length i c)
      | h_matching_transfer_encoding \<Rightarrow>
          Some (match_word ''transfer-encoding'' h h_general h_transfer_encoding i c)
      | h_matching_upgrade \<Rightarrow> Some (match_word ''upgrade'' h h_general h_upgrade i c)
      | h_connection \<Rightarrow> Some (if raw \<noteq> CHR '' '' then h_general else h, i)
      | h_content_length \<Rightarrow> Some (if raw \<noteq> CHR '' '' then h_general else h, i)
      | h_transfer_encoding \<Rightarrow> Some (if raw \<noteq> CHR '' '' then h_general else h, i)
      | h_upgrade \<Rightarrow> Some (if raw \<noteq> CHR '' '' then h_general else h, i)
      | _ \<Rightarrow> None)"

text \<open>The inner loop; the first argument counts the bytes that are left from \<open>p\<close> on.\<close>

fun field_loop :: "nat \<Rightarrow> string \<Rightarrow> 'u exec \<Rightarrow> 'u exec option" where
  "field_loop 0 d st = Some st"
| "field_loop (Suc n) d st =
     (let st = st\<lparr>ch := d ! pp st\<rparr>; c = TOKEN (ch st) in
      if c = NUL then Some st
      else case field_step (header_state (parser st)) (index (parser st)) c (ch st) of
             None \<Rightarrow> None
           | Some (h, i) \<Rightarrow>
               field_loop n d (on_parser (\<lambda>q. q\<lparr>header_state := h, index := i\<rparr>) st\<lparr>pp := pp st + 1\<rparr>))"

definition x_header_field :: "'u http_parser_settings \<Rightarrow> string \<Rightarrow> 'u exec \<Rightarrow> 'u outcome" where
  "x_header_field S d st =
     (let start = pp st in
      case field_loop (length d - start) d st of
        None \<Rightarrow> Abort
      | Some st \<Rightarrow>
          COUNT_HEADER_SIZE (pp st - start) st
            (\<lambda>st. if pp st = length d then Break (st\<lparr>pp := pp st - 1\<rparr>)
                  else if ch st = CHR '':''
                  then CALLBACK_DATA S d header_field_mark (UPDATE_STATE s_header_value_discard_ws st) Break
                  else fail HPE_INVALID_HEADER_TOKEN st))"

subsection \<open>Header values\<close>

definition value_token :: "char \<Rightarrow> header_states" where
  "value_token c =
     (if c = CHR ''k'' then h_matching_connection_keep_alive
      else if c = CHR ''c'' then h_matching_connection_close
      else if c = CHR ''u'' then h_matching_connection_upgrade
      else h_matching_connection_token)"

definition x_header_value_start :: "'u exec \<Rightarrow> 'u outcome" where
  "x_header_value_start st =
     (let st = set_index 0 (UPDATE_STATE s_header_value (MARK header_value_mark st)); c = LOWER (ch st) in
      case header_state (parser st) of
        h_upgrade \<Rightarrow> Break (set_header_state h_general (add_flag F_UPGRADE st))
      | h_transfer_encoding \<Rightarrow>
          Break (set_header_state
            (if c = CHR ''c'' then h_matching_transfer_encoding_chunked else h_general) st)
      | h_content_length \<Rightarrow>
          if \<not> IS_NUM (ch st) then fail HPE_INVALID_CONTENT_LENGTH st
          else Break (on_parser (\<lambda>q. q\<lparr>content_length := digit (ch st)\<rparr>) st)
      | h_connection \<Rightarrow> Break (set_header_state (value_token c) st)
      | h_matching_connection_token_start \<Rightarrow> Break st
      | _ \<Rightarrow> Break (set_header_state h_general st))"

definition x_header_value_discard_ws :: "'u exec \<Rightarrow> 'u outcome" where
  "x_header_value_discard_ws st =
     (if ch st = CHR '' '' \<or> ch st = CHR 0x09 then Break st
      else if ch st = CR then Break (UPDATE_STATE s_header_value_discard_ws_almost_done st)
      else if ch st = LF then Break (UPDATE_STATE s_header_value_discard_lws st)
      else x_header_value_start st)"

text \<open>\<open>memchr\<close> over \<open>lim\<close> bytes from position \<open>i\<close>, as a position in \<open>d\<close>.\<close>

definition mem_chr :: "string \<Rightarrow> nat \<Rightarrow> char \<Rightarrow> nat \<Rightarrow> nat option" where
  "mem_chr d i c lim =
     (let w = take lim (drop i d); k = length (takeWhile (\<lambda>x. x \<noteq> c) w)
      in if k < length w then Some (i + k) else None)"

text \<open>A general value is skipped up to its line end, if that is among the next 80 KB.\<close>

definition skip_value :: "string \<Rightarrow> nat \<Rightarrow> nat" where
  "skip_value d i =
     (let limit = min (length d - i) HTTP_MAX_HEADER_SIZE;
          p_cr = mem_chr d i CR limit; p_lf = mem_chr d i LF limit
      in case p_cr of
           Some a \<Rightarrow> (case p_lf of Some b \<Rightarrow> if a \<ge> b then b else a | None \<Rightarrow> a)
         | None \<Rightarrow> (case p_lf of Some b \<Rightarrow> b | None \<Rightarrow> length d))"

text \<open>
  The switch on \<open>h_state\<close> for one byte of a header value: the result is the new \<open>h_state\<close> and locals, an
  error, or a failed assertion.
\<close>

datatype 'u value_result = V_next header_states "'u exec" | V_fail http_errno | V_abort

definition value_match :: "string \<Rightarrow> header_states \<Rightarrow> header_states \<Rightarrow> header_states \<Rightarrow> char \<Rightarrow> 'u exec
    \<Rightarrow> 'u value_result" where
  "value_match w h h_fail h_done c st =
     (case match_word w h h_fail h_done (index (parser st)) c of
        (h', i) \<Rightarrow> V_next h' (on_parser (\<lambda>q. q\<lparr>index := i\<rparr>) st))"

definition content_length_step :: "'u exec \<Rightarrow> 'u value_result" where
  "content_length_step st =
     (if ch st = CHR '' '' then V_next h_content_length st
      else if \<not> IS_NUM (ch st) then V_fail HPE_INVALID_CONTENT_LENGTH
      else
        let t = (content_length (parser st) * 10 + digit (ch st)) mod 2 ^ 64 in
        if (ULLONG_MAX - 10) div 10 < content_length (parser st) then V_fail HPE_INVALID_CONTENT_LENGTH
        else V_next h_content_length (on_parser (\<lambda>q. q\<lparr>content_length := t\<rparr>) st))"

definition connection_done :: "header_states \<Rightarrow> http_flag \<Rightarrow> 'u exec \<Rightarrow> 'u value_result" where
  "connection_done h F st =
     (if ch st = CHR '','' then V_next h_matching_connection_token_start (set_index 0 (add_flag F st))
      else if ch st \<noteq> CHR '' '' then V_next h_matching_connection_token st
      else V_next h st)"

definition value_step :: "string \<Rightarrow> header_states \<Rightarrow> 'u exec \<Rightarrow> 'u value_result" where
  "value_step d h st =
     (let c = LOWER (ch st) in
      case h of
        h_general \<Rightarrow> V_next h (st\<lparr>pp := skip_value d (pp st) - 1\<rparr>)
      | h_connection \<Rightarrow> V_abort
      | h_transfer_encoding \<Rightarrow> V_abort
      | h_content_length \<Rightarrow> content_length_step st
      | h_matching_transfer_encoding_chunked \<Rightarrow>
          value_match ''chunked'' h h_general h_transfer_encoding_chunked c st
      | h_matching_connection_token_start \<Rightarrow>
          if c = CHR ''k'' then V_next h_matching_connection_keep_alive st
          else if c = CHR ''c'' then V_next h_matching_connection_close st
          else if c = CHR ''u'' then V_next h_matching_connection_upgrade st
          else if STRICT_TOKEN c then V_next h_matching_connection_token st
          else if c = CHR '' '' \<or> c = CHR 0x09 then V_next h st
          else V_next h_general st
      | h_matching_connection_keep_alive \<Rightarrow>
          value_match ''keep-alive'' h h_matching_connection_token h_connection_keep_alive c st
      | h_matching_connection_close \<Rightarrow>
          value_match ''close'' h h_matching_connection_token h_connection_close c st
      | h_matching_connection_upgrade \<Rightarrow>
          value_match ''upgrade'' h h_matching_connection_token h_connection_upgrade c st
      | h_matching_connection_token \<Rightarrow>
          if ch st = CHR '','' then V_next h_matching_connection_token_start (set_index 0 st)
          else V_next h st
      | h_transfer_encoding_chunked \<Rightarrow> V_next (if ch st \<noteq> CHR '' '' then h_general else h) st
      | h_connection_keep_alive \<Rightarrow> connection_done h F_CONNECTION_KEEP_ALIVE st
      | h_connection_close \<Rightarrow> connection_done h F_CONNECTION_CLOSE st
      | h_connection_upgrade \<Rightarrow> connection_done h F_CONNECTION_UPGRADE st
      | _ \<Rightarrow> V_next h_general (UPDATE_STATE s_header_value st))"

text \<open>What follows the inner loop.\<close>

definition value_end :: "string \<Rightarrow> nat \<Rightarrow> header_states \<Rightarrow> 'u exec \<Rightarrow> 'u outcome" where
  "value_end d start h st =
     COUNT_HEADER_SIZE (pp st - start) (set_header_state h st)
       (\<lambda>st. Break (if pp st = length d then st\<lparr>pp := pp st - 1\<rparr> else st))"

text \<open>
  The inner loop itself.  Its first argument bounds the number of iterations; each one moves \<open>p\<close> on,
  so the number of bytes that are left is enough and the bound 0 is only met at the end of the data.
\<close>

fun value_loop :: "nat \<Rightarrow> 'u http_parser_settings \<Rightarrow> string \<Rightarrow> nat \<Rightarrow> header_states \<Rightarrow> 'u exec \<Rightarrow> 'u outcome" where
  "value_loop 0 S d start h st = value_end d start h st"
| "value_loop (Suc n) S d start h st =
     (if pp st = length d then value_end d start h st
      else
        let st = st\<lparr>ch := d ! pp st\<rparr> in
        if ch st = CR then
          CALLBACK_DATA S d header_value_mark (set_header_state h (UPDATE_STATE s_header_almost_done st))
            (value_end d start h)
        else if ch st = LF then
          COUNT_HEADER_SIZE (pp st - start) (UPDATE_STATE s_header_almost_done st)
            (\<lambda>st. CALLBACK_DATA_NOADVANCE S d header_value_mark (set_header_state h st) Reexec)
        else case value_step d h st of
               V_abort \<Rightarrow> Abort
             | V_fail e \<Rightarrow> fail e (set_header_state h st)
             | V_next h st \<Rightarrow> value_loop n S d start h (st\<lparr>pp := pp st + 1\<rparr>))"

definition x_header_value :: "'u http_parser_settings \<Rightarrow> string \<Rightarrow> 'u exec \<Rightarrow> 'u outcome" where
  "x_header_value S d st =
     value_loop (length d - pp st) S d (pp st) (header_state (parser st)) st"

text \<open>The flags that a finished header sets.\<close>

definition finish_header :: "'u exec \<Rightarrow> 'u exec" where
  "finish_header st =
     (case header_state (parser st) of
        h_connection_keep_alive \<Rightarrow> add_flag F_CONNECTION_KEEP_ALIVE st
      | h_connection_close \<Rightarrow> add_flag F_CONNECTION_CLOSE st
      | h_transfer_encoding_chunked \<Rightarrow> add_flag F_CHUNKED st
      | h_connection_upgrade \<Rightarrow> add_flag F_CONNECTION_UPGRADE st
      | _ \<Rightarrow> st)"

definition x_header_value_lws :: "'u exec \<Rightarrow> 'u outcome" where
  "x_header_value_lws st =
     (if ch st = CHR '' '' \<or> ch st = CHR 0x09 then Reexec (UPDATE_STATE s_header_value_start st)
      else Reexec (UPDATE_STATE s_header_field_start (finish_header st)))"

definition x_header_value_discard_lws :: "'u http_parser_settings \<Rightarrow> string \<Rightarrow> 'u exec \<Rightarrow> 'u outcome" where
  "x_header_value_discard_lws S d st =
     (if ch st = CHR '' '' \<or> ch st = CHR 0x09 then Break (UPDATE_STATE s_header_value_discard_ws st)
      else CALLBACK_DATA_NOADVANCE S d header_value_mark
             (UPDATE_STATE s_header_field_start (MARK header_value_mark (finish_header st))) Reexec)"

subsection \<open>End of the headers\<close>

text \<open>
  \<open>on_headers_complete\<close> is called by hand: \<open>parser->state\<close> is not updated before, and its results 0, 1 and
  others have their own meaning.
\<close>

definition x_headers_almost_done :: "'u http_parser_settings \<Rightarrow> 'u exec \<Rightarrow> 'u outcome" where
  "x_headers_almost_done S st =
     STRICT_CHECK (ch st \<noteq> LF) st
       (if F_TRAILING \<in> flags (parser st)
        then CALLBACK_NOTIFY_NOADVANCE (on_chunk_complete S) HPE_CB_chunk_complete
               (UPDATE_STATE s_message_done st) Reexec
        else
          let st = UPDATE_STATE s_headers_done st;
              st = on_parser (\<lambda>q. q\<lparr>upgrade :=
                     {F_UPGRADE, F_CONNECTION_UPGRADE} \<subseteq> flags q \<or> parser_method q = HTTP_CONNECT\<rparr>) st
          in case on_headers_complete S of
               None \<Rightarrow> if http_errno (parser st) \<noteq> HPE_OK then RETURN (pp st) st else Reexec st
             | Some f \<Rightarrow>
                 (case f (parser st) of (r, q) \<Rightarrow>
                    let st = st\<lparr>parser := q\<rparr>;
                        st = (if r = 1 then add_flag F_SKIPBODY st else st)
                    in if r \<noteq> 0 \<and> r \<noteq> 1 then RETURN (pp st) (SET_ERRNO HPE_CB_headers_complete st)
                       else if http_errno (parser st) \<noteq> HPE_OK then RETURN (pp st) st else Reexec st))"

definition complete_message :: "'u http_parser_settings \<Rightarrow> 'u exec \<Rightarrow> ('u exec \<Rightarrow> 'u outcome) \<Rightarrow> 'u outcome" where
  "complete_message S st k =
     CALLBACK_NOTIFY (on_message_complete S) HPE_CB_message_complete
       (UPDATE_STATE (NEW_MESSAGE (parser st)) st) k"

definition x_headers_done :: "'u http_parser_settings \<Rightarrow> 'u exec \<Rightarrow> 'u outcome" where
  "x_headers_done S st =
     STRICT_CHECK (ch st \<noteq> LF) st
       (let st = on_parser (\<lambda>q. q\<lparr>nread := 0\<rparr>) st; q = parser st;
            hasBody = (F_CHUNKED \<in> flags q \<or> content_length q > 0 \<and> content_length q \<noteq> ULLONG_MAX)
        in if upgrade q \<and> (parser_method q = HTTP_CONNECT \<or> F_SKIPBODY \<in> flags q \<or> \<not> hasBody)
           then complete_message S st (\<lambda>st. RETURN (pp st + 1) st)
           else if F_SKIPBODY \<in> flags q then complete_message S st Break
           else if F_CHUNKED \<in> flags q then Break (UPDATE_STATE s_chunk_size_start st)
           else if content_length q = 0 then complete_message S st Break
           else if content_length q \<noteq> ULLONG_MAX then Break (UPDATE_STATE s_body_identity st)
           else if parser_type q = HTTP_REQUEST \<or> \<not> http_message_needs_eof q
           then complete_message S st Break
           else Break (UPDATE_STATE s_body_identity_eof st))"

subsection \<open>The body\<close>

text \<open>\<open>MARK(body)\<close>, then \<open>to_read\<close> bytes are taken at once and \<open>p\<close> moves to the last of them.\<close>

definition take_body :: "string \<Rightarrow> 'u exec \<Rightarrow> 'u exec" where
  "take_body d st =
     (let to_read = min (content_length (parser st)) (length d - pp st);
          st = MARK body_mark st
      in on_parser (\<lambda>q. q\<lparr>content_length := content_length q - to_read\<rparr>) st\<lparr>pp := pp st + to_read - 1\<rparr>)"

definition x_body_identity :: "'u http_parser_settings \<Rightarrow> string \<Rightarrow> 'u exec \<Rightarrow> 'u outcome" where
  "x_body_identity S d st =
     ASSERT (content_length (parser st) \<noteq> 0 \<and> content_length (parser st) \<noteq> ULLONG_MAX)
       (let st = take_body d st in
        if content_length (parser st) = 0
        then CALLBACK_DATA_er S d body_mark (pp st + 1) (pp st) (UPDATE_STATE s_message_done st) Reexec
        else Break st)"

definition x_body_identity_eof :: "string \<Rightarrow> 'u exec \<Rightarrow> 'u outcome" where
  "x_body_identity_eof d st = Break ((MARK body_mark st)\<lparr>pp := length d - 1\<rparr>)"

definition x_message_done :: "'u http_parser_settings \<Rightarrow> 'u exec \<Rightarrow> 'u outcome" where
  "x_message_done S st =
     complete_message S st
       (\<lambda>st. if upgrade (parser st) then RETURN (pp st + 1) st else Break st)"

subsection \<open>Chunked bodies\<close>

definition x_chunk_size_start :: "'u exec \<Rightarrow> 'u outcome" where
  "x_chunk_size_start st =
     ASSERT (nread (parser st) = 1)
       (ASSERT (F_CHUNKED \<in> flags (parser st))
          (let unhex_val = unhex ! code (ch st) in
           if unhex_val = -1 then fail HPE_INVALID_CHUNK_SIZE st
           else Break (UPDATE_STATE s_chunk_size
                  (on_parser (\<lambda>q. q\<lparr>content_length := nat unhex_val\<rparr>) st))))"

definition x_chunk_size :: "'u exec \<Rightarrow> 'u outcome" where
  "x_chunk_size st =
     ASSERT (F_CHUNKED \<in> flags (parser st))
       (if ch st = CR then Break (UPDATE_STATE s_chunk_size_almost_done st)
        else
          let unhex_val = unhex ! code (ch st) in
          if unhex_val = -1 then
            if ch st = CHR '';'' \<or> ch st = CHR '' '' then Break (UPDATE_STATE s_chunk_parameters st)
            else fail HPE_INVALID_CHUNK_SIZE st
          else
            let t = (content_length (parser st) * 16 + nat unhex_val) mod 2 ^ 64 in
            if (ULLONG_MAX - 16) div 16 < content_length (parser st)
            then fail HPE_INVALID_CONTENT_LENGTH st
            else Break (on_parser (\<lambda>q. q\<lparr>content_length := t\<rparr>) st))"

definition x_chunk_parameters :: "'u exec \<Rightarrow> 'u outcome" where
  "x_chunk_parameters st =
     ASSERT (F_CHUNKED \<in> flags (parser st))
       (if ch st = CR then Break (UPDATE_STATE s_chunk_size_almost_done st) else Break st)"

definition x_chunk_size_almost_done :: "'u http_parser_settings \<Rightarrow> 'u exec \<Rightarrow> 'u outcome" where
  "x_chunk_size_almost_done S st =
     ASSERT (F_CHUNKED \<in> flags (parser st))
       (STRICT_CHECK (ch st \<noteq> LF) st
          (let st = on_parser (\<lambda>q. q\<lparr>nread := 0\<rparr>) st;
               st = (if content_length (parser st) = 0
                     then UPDATE_STATE s_header_field_start (add_flag F_TRAILING st)
                     else UPDATE_STATE s_chunk_data st)
           in CALLBACK_NOTIFY (on_chunk_header S) HPE_CB_chunk_header st Break))"

definition x_chunk_data :: "string \<Rightarrow> 'u exec \<Rightarrow> 'u outcome" where
  "x_chunk_data d st =
     ASSERT (F_CHUNKED \<in> flags (parser st))
       (ASSERT (content_length (parser st) \<noteq> 0 \<and> content_length (parser st) \<noteq> ULLONG_MAX)
          (let st = take_body d st in
           Break (if content_length (parser st) = 0 then UPDATE_STATE s_chunk_data_almost_done st else st)))"

definition x_chunk_data_almost_done :: "'u http_parser_settings \<Rightarrow> string \<Rightarrow> 'u exec \<Rightarrow> 'u outcome" where
  "x_chunk_data_almost_done S d st =
     ASSERT (F_CHUNKED \<in> flags (parser st))
       (ASSERT (content_length (parser st) = 0)
          (STRICT_CHECK (ch st \<noteq> CR) st
             (CALLBACK_DATA S d body_mark (UPDATE_STATE s_chunk_data_done st) Break)))"

definition x_chunk_data_done :: "'u http_parser_settings \<Rightarrow> 'u exec \<Rightarrow> 'u outcome" where
  "x_chunk_data_done S st =
     ASSERT (F_CHUNKED \<in> flags (parser st))
       (STRICT_CHECK (ch st \<noteq> LF) st
          (CALLBACK_NOTIFY (on_chunk_complete S) HPE_CB_chunk_complete
             (UPDATE_STATE s_chunk_size_start (on_parser (\<lambda>q. q\<lparr>nread := 0\<rparr>) st)) Break))"

subsection \<open>http\_parser\_execute\<close>

definition exec_switch :: "'u http_parser_settings \<Rightarrow> string \<Rightarrow> 'u exec \<Rightarrow> 'u outcome" where
  "exec_switch S d st =
     (case p_state st of
        s_dead \<Rightarrow> x_dead st
      | s_start_req_or_res \<Rightarrow> x_start_req_or_res S st
      | s_res_or_resp_H \<Rightarrow> x_res_or_resp_H st
      | s_start_res \<Rightarrow> x_start_res S st
      | s_res_H \<Rightarrow> x_expect (CHR ''T'') s_res_HT st
      | s_res_HT \<Rightarrow> x_expect (CHR ''T'') s_res_HTT st
      | s_res_HTT \<Rightarrow> x_expect (CHR ''P'') s_res_HTTP st
      | s_res_HTTP \<Rightarrow> x_expect (CHR ''/'') s_res_first_http_major st
      | s_res_first_http_major \<Rightarrow> x_first_major (CHR ''0'') s_res_http_major st
      | s_res_http_major \<Rightarrow> x_http_major s_res_first_http_minor st
      | s_res_first_http_minor \<Rightarrow> x_first_minor s_res_http_minor st
      | s_res_http_minor \<Rightarrow> x_res_http_minor st
      | s_res_first_status_code \<Rightarrow> x_res_first_status_code st
      | s_res_status_code \<Rightarrow> x_res_status_code st
      | s_res_status_start \<Rightarrow> x_res_status_start st
      | s_res_status \<Rightarrow> x_res_status S d st
      | s_res_line_almost_done \<Rightarrow> x_expect LF s_header_field_start st
      | s_start_req \<Rightarrow> x_start_req S st
      | s_req_method \<Rightarrow> x_req_method st
      | s_req_spaces_before_url \<Rightarrow> x_req_spaces_before_url st
      | s_req_schema \<Rightarrow> x_req_schema st
      | s_req_schema_slash \<Rightarrow> x_req_schema st
      | s_req_schema_slash_slash \<Rightarrow> x_req_schema st
      | s_req_server_start \<Rightarrow> x_req_schema st
      | s_req_server \<Rightarrow> x_req_url S d st
      | s_req_server_with_at \<Rightarrow> x_req_url S d st
      | s_req_path \<Rightarrow> x_req_url S d st
      | s_req_query_string_start \<Rightarrow> x_req_url S d st
      | s_req_query_string \<Rightarrow> x_req_url S d st
      | s_req_fragment_start \<Rightarrow> x_req_url S d st
      | s_req_fragment \<Rightarrow> x_req_url S d st
      | s_req_http_start \<Rightarrow> x_req_http_start st
      | s_req_http_H \<Rightarrow> x_expect (CHR ''T'') s_req_http_HT st
      | s_req_http_HT \<Rightarrow> x_expect (CHR ''T'') s_req_http_HTT st
      | s_req_http_HTT \<Rightarrow> x_expect (CHR ''P'') s_req_http_HTTP st
      | s_req_http_HTTP \<Rightarrow> x_expect (CHR ''/'') s_req_first_http_major st
      | s_req_first_http_major \<Rightarrow> x_first_major (CHR ''1'') s_req_http_major st
      | s_req_http_major \<Rightarrow> x_http_major s_req_first_http_minor st
      | s_req_first_http_minor \<Rightarrow> x_first_minor s_req_http_minor st
      | s_req_http_minor \<Rightarrow> x_req_http_minor st
      | s_req_line_almost_done \<Rightarrow> x_req_line_almost_done st
      | s_header_field_start \<Rightarrow> x_header_field_start st
      | s_header_field \<Rightarrow> x_header_field S d st
      | s_header_value_discard_ws \<Rightarrow> x_header_value_discard_ws st
      | s_header_value_discard_ws_almost_done \<Rightarrow> x_expect LF s_header_value_discard_lws st
      | s_header_value_discard_lws \<Rightarrow> x_header_value_discard_lws S d st
      | s_header_value_start \<Rightarrow> x_header_value_start st
      | s_header_value \<Rightarrow> x_header_value S d st
      | s_header_value_lws \<Rightarrow> x_header_value_lws st
      | s_header_almost_done \<Rightarrow> x_expect LF s_header_value_lws st
      | s_chunk_size_start \<Rightarrow> x_chunk_size_start st
      | s_chunk_size \<Rightarrow> x_chunk_size st
      | s_chunk_parameters \<Rightarrow> x_chunk_parameters st
      | s_chunk_size_almost_done \<Rightarrow> x_chunk_size_almost_done S st
      | s_headers_almost_done \<Rightarrow> x_headers_almost_done S st
      | s_headers_done \<Rightarrow> x_headers_done S st
      | s_chunk_data \<Rightarrow> x_chunk_data d st
      | s_chunk_data_almost_done \<Rightarrow> x_chunk_data_almost_done S d st
      | s_chunk_data_done \<Rightarrow> x_chunk_data_done S st
      | s_body_identity \<Rightarrow> x_body_identity S d st
      | s_body_identity_eof \<Rightarrow> x_body_identity_eof d st
      | s_message_done \<Rightarrow> x_message_done S st)"

text \<open>One round of the \<open>for\<close> loop, or of the switch alone after \<open>goto reexecute\<close>.\<close>

definition exec_step :: "'u http_parser_settings \<Rightarrow> string \<Rightarrow> bool \<Rightarrow> 'u exec \<Rightarrow> 'u outcome" where
  "exec_step S d re st =
     (if re then exec_switch S d st
      else
        let st = st\<lparr>ch := d ! pp st\<rparr> in
        if PARSING_HEADER (p_state st) then COUNT_HEADER_SIZE 1 st (exec_switch S d)
        else exec_switch S d st)"

definition is_marked :: "'u exec \<Rightarrow> data_mark \<Rightarrow> nat" where
  "is_marked st m = (if marks st m = None then 0 else 1)"

text \<open>After the last byte: the data of an open mark is reported.\<close>

definition exec_finish :: "'u http_parser_settings \<Rightarrow> string \<Rightarrow> 'u exec \<Rightarrow> 'u outcome" where
  "exec_finish S d st =
     ASSERT (is_marked st header_field_mark + is_marked st header_value_mark + is_marked st url_mark
             + is_marked st body_mark + is_marked st status_mark \<le> 1)
       (CALLBACK_DATA_NOADVANCE S d header_field_mark st (\<lambda>st.
          CALLBACK_DATA_NOADVANCE S d header_value_mark st (\<lambda>st.
            CALLBACK_DATA_NOADVANCE S d url_mark st (\<lambda>st.
              CALLBACK_DATA_NOADVANCE S d body_mark st (\<lambda>st.
                CALLBACK_DATA_NOADVANCE S d status_mark st (\<lambda>st. RETURN (length d) st))))))"

partial_function (option) exec_loop ::
  "'u http_parser_settings \<Rightarrow> string \<Rightarrow> bool \<Rightarrow> 'u exec \<Rightarrow> (nat \<times> 'u http_parser) option" where
  "exec_loop S d re st =
     (if \<not> re \<and> pp st = length d
      then (case exec_finish S d st of Return n q \<Rightarrow> Some (n, q) | _ \<Rightarrow> None)
      else case exec_step S d re st of
             Break st' \<Rightarrow> exec_loop S d False (st'\<lparr>pp := pp st' + 1\<rparr>)
           | Reexec st' \<Rightarrow> exec_loop S d True st'
           | Return n q \<Rightarrow> Some (n, q)
           | Abort \<Rightarrow> None)"

text \<open>The marks that a continued element starts with.\<close>

definition url_states :: "state set" where
  "url_states = {s_req_path, s_req_schema, s_req_schema_slash, s_req_schema_slash_slash,
     s_req_server_start, s_req_server, s_req_server_with_at, s_req_query_string_start,
     s_req_query_string, s_req_fragment_start, s_req_fragment}"

definition initial_marks :: "state \<Rightarrow> data_mark \<Rightarrow> nat option" where
  "initial_marks s = (\<lambda>m. case m of
     header_field_mark \<Rightarrow> if s = s_header_field then Some 0 else None
   | header_value_mark \<Rightarrow> if s = s_header_value then Some 0 else None
   | url_mark \<Rightarrow> if s \<in> url_states then Some 0 else None
   | status_mark \<Rightarrow> if s = s_res_status then Some 0 else None
   | body_mark \<Rightarrow> None)"

text \<open>The result is \<open>None\<close> if an assertion fails or the loop does not end.\<close>

definition http_parser_execute ::
  "'u http_parser \<Rightarrow> 'u http_parser_settings \<Rightarrow> string \<Rightarrow> (nat \<times> 'u http_parser) option" where
  "http_parser_execute q S d =
     (let st = \<lparr>parser = q, p_state = state q, pp = 0, ch = NUL, marks = initial_marks (state q)\<rparr>
      in if http_errno q \<noteq> HPE_OK then Some (0, q)
         else if d = [] then
           (if state q = s_body_identity_eof then
              (case CALLBACK_NOTIFY_NOADVANCE (on_message_complete S) HPE_CB_message_complete st
                      (\<lambda>st. Return 0 (parser st)) of
                 Return n q \<Rightarrow> Some (n, q) | _ \<Rightarrow> None)
            else if state q \<in> {s_dead, s_start_req_or_res, s_start_res, s_start_req} then Some (0, q)
            else Some (1, q\<lparr>http_errno := HPE_INVALID_EOF_STATE\<rparr>))
         else exec_loop S d False st)"

end
