(* ===== verification/HttpSafety.thy ===== *)
theory HttpSafety
  imports HttpParser
begin

text \<open>
  Safety and termination of the HTTP parser.  For callbacks that keep to the interface (they may use
  the \<open>data\<close> object and pause the parser, but do not touch its private fields), every call of
  \<open>http_parser_execute\<close> returns, none of its assertions fails, it never reads outside the data or outside
  the constant it matches, and it leaves the parser in a state from which the next call is as safe.

  \<open>state_inv\<close> is the invariant of each state of the machine, \<open>exec_inv\<close> adds what the local
  variables satisfy, \<open>good\<close> is what one pass through the switch guarantees, and \<open>rank\<close> decreases along
  every \<open>goto reexecute\<close>.  There is one lemma per state or group of states.
\<close>

subsection \<open>Callbacks and invariants\<close>


named_theorems hp_defs \<open>macros and setters of the parser, unfolded\<close>
named_theorems hp_good \<open>how the macros that leave the switch establish good\<close>

text \<open>What the parser relies on of a callback.\<close>

definition cb_ok :: "'u http_cb \<Rightarrow> bool" where
  "cb_ok f \<longleftrightarrow> (\<forall>q. \<exists>e u. snd (f q) = q\<lparr>http_errno := e, parser_data := u\<rparr>)"

definition settings_ok :: "'u http_parser_settings \<Rightarrow> bool" where
  "settings_ok S \<longleftrightarrow>
     (\<forall>f. Some f \<in> {on_message_begin S, on_headers_complete S, on_message_complete S, on_chunk_header S,
                      on_chunk_complete S} \<longrightarrow> cb_ok f)
   \<and> (\<forall>m f s. data_cb S m = Some f \<longrightarrow> cb_ok (\<lambda>q. f q s))"

definition field_states :: "header_states set" where
  "field_states = {h_general, h_C, h_CO, h_CON, h_matching_connection, h_matching_proxy_connection,
     h_matching_content_length, h_matching_transfer_encoding, h_matching_upgrade, h_connection,
     h_content_length, h_transfer_encoding, h_upgrade}"

text \<open>What holds in every state, and what a single state adds to it.\<close>

definition base_inv :: "'u http_parser \<Rightarrow> bool" where
  "base_inv q \<longleftrightarrow> nread q \<le> HTTP_MAX_HEADER_SIZE \<and> content_length q \<le> ULLONG_MAX
     \<and> http_major q \<le> 999 \<and> http_minor q \<le> 999 \<and> status_code q \<le> 999"

definition extra_inv :: "state \<Rightarrow> 'u http_parser \<Rightarrow> bool" where
  "extra_inv s q = (case s of
     s_req_method \<Rightarrow> index q \<le> length (method_strings (parser_method q))
   | s_header_field \<Rightarrow> header_state q \<in> field_states
   | s_header_value \<Rightarrow> header_state q \<noteq> h_connection \<and> header_state q \<noteq> h_transfer_encoding
   | s_chunk_size_start \<Rightarrow> F_CHUNKED \<in> flags q
   | s_chunk_size \<Rightarrow> F_CHUNKED \<in> flags q \<and> content_length q < ULLONG_MAX
   | s_chunk_parameters \<Rightarrow> F_CHUNKED \<in> flags q \<and> content_length q < ULLONG_MAX
   | s_chunk_size_almost_done \<Rightarrow> F_CHUNKED \<in> flags q \<and> content_length q < ULLONG_MAX
   | s_chunk_data \<Rightarrow> F_CHUNKED \<in> flags q \<and> content_length q \<noteq> 0 \<and> content_length q < ULLONG_MAX
   | s_chunk_data_almost_done \<Rightarrow> F_CHUNKED \<in> flags q \<and> content_length q = 0
   | s_chunk_data_done \<Rightarrow> F_CHUNKED \<in> flags q
   | s_body_identity \<Rightarrow> content_length q \<noteq> 0 \<and> content_length q < ULLONG_MAX
   | _ \<Rightarrow> True)"

definition state_inv :: "state \<Rightarrow> 'u http_parser \<Rightarrow> bool" where
  "state_inv s q \<longleftrightarrow> base_inv q \<and> extra_inv s q"

definition rest_inv :: "state \<Rightarrow> 'u http_parser \<Rightarrow> bool" where
  "rest_inv s q \<longleftrightarrow> state_inv s q \<and> (s = s_chunk_size_start \<longrightarrow> nread q = 0)"

definition parser_inv :: "'u http_parser \<Rightarrow> bool" where
  "parser_inv q \<longleftrightarrow> (http_errno q = HPE_OK \<or> http_errno q = HPE_PAUSED \<longrightarrow> rest_inv (state q) q)"

text \<open>Which mark may be open in a state; there is at most one.\<close>

definition mark_of :: "state \<Rightarrow> data_mark option" where
  "mark_of s = (case s of
     s_header_field \<Rightarrow> Some header_field_mark
   | s_header_value \<Rightarrow> Some header_value_mark
   | s_req_path \<Rightarrow> Some url_mark | s_req_schema \<Rightarrow> Some url_mark | s_req_schema_slash \<Rightarrow> Some url_mark
   | s_req_schema_slash_slash \<Rightarrow> Some url_mark | s_req_server_start \<Rightarrow> Some url_mark
   | s_req_server \<Rightarrow> Some url_mark | s_req_server_with_at \<Rightarrow> Some url_mark
   | s_req_query_string_start \<Rightarrow> Some url_mark | s_req_query_string \<Rightarrow> Some url_mark
   | s_req_fragment_start \<Rightarrow> Some url_mark | s_req_fragment \<Rightarrow> Some url_mark
   | s_body_identity \<Rightarrow> Some body_mark | s_body_identity_eof \<Rightarrow> Some body_mark
   | s_chunk_data \<Rightarrow> Some body_mark | s_chunk_data_almost_done \<Rightarrow> Some body_mark
   | s_res_status \<Rightarrow> Some status_mark
   | _ \<Rightarrow> None)"

definition marks_ok :: "data_mark option \<Rightarrow> nat \<Rightarrow> (data_mark \<Rightarrow> nat option) \<Rightarrow> bool" where
  "marks_ok k n mk \<longleftrightarrow> mk = (\<lambda>_. None) \<or> (\<exists>m i. k = Some m \<and> mk = [m \<mapsto> i] \<and> i \<le> n)"

definition exec_inv :: "string \<Rightarrow> 'u exec \<Rightarrow> bool" where
  "exec_inv d st \<longleftrightarrow> http_errno (parser st) = HPE_OK \<and> state_inv (p_state st) (parser st)
     \<and> marks_ok (mark_of (p_state st)) (pp st) (marks st) \<and> pp st < length d"

text \<open>How many times the switch may be re-entered from a state without a new byte.\<close>

definition rank :: "state \<Rightarrow> nat" where
  "rank s = (if s \<in> {s_header_value_lws, s_header_value_discard_lws} then 4
     else if s = s_header_field_start then 3
     else if s \<in> {s_headers_almost_done, s_body_identity} then 2
     else if s \<in> {s_start_req_or_res, s_headers_done, s_message_done, s_header_value} then 1 else 0)"

text \<open>\<open>n\<close> is the position and \<open>r\<close> the rank at which the switch was entered.\<close>

fun good :: "string \<Rightarrow> nat \<Rightarrow> nat \<Rightarrow> 'u outcome \<Rightarrow> bool" where
  "good d n r (Break st) \<longleftrightarrow> exec_inv d st \<and> rest_inv (p_state st) (parser st) \<and> n \<le> pp st"
| "good d n r (Reexec st) \<longleftrightarrow> exec_inv d st \<and> p_state st \<noteq> s_chunk_size_start \<and> n \<le> pp st
     \<and> rank (p_state st) < r"
| "good d n r (Return k q) \<longleftrightarrow> k \<le> length d \<and> parser_inv q
     \<and> (http_errno q = HPE_OK \<longrightarrow> k = length d \<or> upgrade q)"
| "good d n r Abort \<longleftrightarrow> False"

subsection \<open>Errors and callbacks\<close>

lemma good_fail [hp_good]:
  "e \<noteq> HPE_OK \<Longrightarrow> e \<noteq> HPE_PAUSED \<Longrightarrow> pp st \<le> length d \<Longrightarrow> good d n r (fail e st)"
  by (simp add: fail_def goto_error_def RETURN_def SET_ERRNO_def parser_inv_def)

text \<open>What a successful callback changes.\<close>

definition touch :: "'u exec \<Rightarrow> state \<Rightarrow> 'u \<Rightarrow> 'u exec" where
  "touch st s u = st\<lparr>parser := (parser st)\<lparr>state := s, parser_data := u\<rparr>\<rparr>"

lemma touch_self: "touch st (state (parser st)) (parser_data (parser st)) = st"
  by (simp add: touch_def)

lemma touch_simps [simp]:
  "p_state (touch st s u) = p_state st" "pp (touch st s u) = pp st" "marks (touch st s u) = marks st"
  "ch (touch st s u) = ch st" "parser (touch st s u) = (parser st)\<lparr>state := s, parser_data := u\<rparr>"
  by (simp_all add: touch_def)

lemma touch_p_state [simp]: "touch st s u\<lparr>p_state := p_state st\<rparr> = touch st s u"
  by (cases st) (simp add: touch_def)

lemma state_inv_cong:
  "state_inv s (q\<lparr>state := s', parser_data := u\<rparr>) = state_inv s q"
  "state_inv s (q\<lparr>state := s'\<rparr>) = state_inv s q"
  "state_inv s (q\<lparr>http_errno := e\<rparr>) = state_inv s q"
  "rest_inv s (q\<lparr>http_errno := e\<rparr>) = rest_inv s q"
  "rest_inv s (q\<lparr>state := s', parser_data := u\<rparr>) = rest_inv s q"
  "rest_inv s (q\<lparr>state := s', http_errno := e, parser_data := u\<rparr>) = rest_inv s q"
  "rest_inv s (q\<lparr>state := s'\<rparr>) = rest_inv s q" "rest_inv s (q\<lparr>parser_data := u\<rparr>) = rest_inv s q"
  by (simp_all add: state_inv_def rest_inv_def base_inv_def extra_inv_def split: state.splits)

lemma base_inv_cong [simp]: "base_inv (q\<lparr>state := s, parser_data := u\<rparr>) = base_inv q"
  by (simp add: base_inv_def)

lemma good_after_callback:
  assumes "cb_ok f" and "http_errno (parser st) = HPE_OK" and "rest_inv (p_state st) (parser st)"
    and "er \<le> length d" and "e \<noteq> HPE_OK" and "e \<noteq> HPE_PAUSED"
    and "\<And>s u. good d n r (k (touch st s u))"
  shows "good d n r (after_callback e er (f ((parser st)\<lparr>state := p_state st\<rparr>)) st k)"
proof -
  let ?q = "(parser st)\<lparr>state := p_state st\<rparr>"
  obtain v q where f: "f ?q = (v, q)" by force
  obtain e' u where q: "q = ?q\<lparr>http_errno := e', parser_data := u\<rparr>"
    using assms(1) f unfolding cb_ok_def by (metis snd_conv)
  have t: "st\<lparr>parser := (parser st)\<lparr>state := p_state st, http_errno := HPE_OK, parser_data := u\<rparr>, p_state := p_state st\<rparr>
      = touch st (p_state st) u"
    using assms(2) by (cases st) (simp add: touch_def)
  show ?thesis
  proof (cases "v = 0 \<and> e' = HPE_OK")
    case True
    then have "after_callback e er (f ?q) st k = k (touch st (p_state st) u)"
      using f q t by (simp add: after_callback_def)
    then show ?thesis using assms(7) by simp
  next
    case False
    then show ?thesis using assms(3-6) f q
      by (auto simp: after_callback_def Let_def parser_inv_def state_inv_cong)
  qed
qed

lemma good_NOTIFY_er [hp_good]:
  assumes "\<And>f. cb = Some f \<Longrightarrow> cb_ok f" and "http_errno (parser st) = HPE_OK" and "rest_inv (p_state st) (parser st)"
    and "er \<le> length d" and "e \<noteq> HPE_OK" and "e \<noteq> HPE_PAUSED"
    and "\<And>s u. good d n r (k (touch st s u))"
  shows "good d n r (CALLBACK_NOTIFY_er cb e er st k)"
proof (cases cb)
  case None
  then show ?thesis using assms(2) assms(7) [of "state (parser st)" "parser_data (parser st)"]
    by (simp add: CALLBACK_NOTIFY_er_def ASSERT_def touch_self)
next
  case (Some f)
  then show ?thesis using assms good_after_callback [of f st er d e n r k]
    by (simp add: CALLBACK_NOTIFY_er_def ASSERT_def)
qed

lemma good_DATA_er [hp_good]:
  assumes "settings_ok S" and "http_errno (parser st) = HPE_OK" and "rest_inv (p_state st) (parser st)"
    and "er \<le> length d"
    and "\<And>s u. good d n r (k (touch (st\<lparr>marks := (marks st)(m := None)\<rparr>) s u))"
  shows "good d n r (CALLBACK_DATA_er S d m till er st k)"
proof (cases "marks st m")
  case None
  then have "(marks st)(m := None) = marks st" by (simp add: fun_upd_idem)
  then have "st\<lparr>marks := (marks st)(m := None)\<rparr> = st" by simp
  with None show ?thesis using assms(2) assms(5) [of "state (parser st)" "parser_data (parser st)"]
    by (simp add: CALLBACK_DATA_er_def ASSERT_def touch_self)
next
  case (Some i)
  let ?k = "\<lambda>st. k (st\<lparr>marks := (marks st)(m := None)\<rparr>)"
  have k: "good d n r (?k (touch st s u))" for s u
    using assms(5) [of s u] by (cases st) (simp add: touch_def)
  have err: "data_err m \<noteq> HPE_OK" "data_err m \<noteq> HPE_PAUSED" by (cases m; simp)+
  show ?thesis
  proof (cases "data_cb S m")
    case None
    with Some k [of "state (parser st)" "parser_data (parser st)"] show ?thesis
      using assms(2) by (simp add: CALLBACK_DATA_er_def ASSERT_def touch_self)
  next
    case (Some f)
    with \<open>marks st m = Some i\<close> show ?thesis
      using good_after_callback [of "\<lambda>q. f q (segment i till d)" st er d "data_err m" n r ?k] assms err k
      by (simp add: CALLBACK_DATA_er_def ASSERT_def settings_ok_def)
  qed
qed


declare on_parser_def [hp_defs] UPDATE_STATE_def [hp_defs] add_flag_def [hp_defs] set_header_state_def [hp_defs]
  set_index_def [hp_defs] begin_message_def [hp_defs] STRICT_CHECK_def [hp_defs] ASSERT_def [hp_defs]
  RETURN_def [hp_defs] CALLBACK_NOTIFY_def [hp_defs] CALLBACK_NOTIFY_NOADVANCE_def [hp_defs]
  CALLBACK_DATA_def [hp_defs] CALLBACK_DATA_NOADVANCE_def [hp_defs] Let_def [hp_defs]

lemma marks_ok_none [simp]: "marks_ok k n (\<lambda>_. None)" by (simp add: marks_ok_def)

lemma marks_ok_set [simp]: "i \<le> n \<Longrightarrow> marks_ok (Some m) n [m \<mapsto> i]" by (auto simp: marks_ok_def)

lemma marks_ok_free: "marks_ok None n mk \<Longrightarrow> mk = (\<lambda>_. None)"
  by (simp add: marks_ok_def)

lemma marks_ok_clear: "marks_ok (Some m) n mk \<Longrightarrow> mk(m := None) = (\<lambda>_. None)"
  by (auto simp: marks_ok_def)

lemma digit_num: "IS_NUM c \<Longrightarrow> digit c \<le> 9"
  unfolding IS_NUM_def digit_def code_def by simp linarith

lemma digit_num_le: "IS_NUM c \<Longrightarrow> digit c \<le> 999" "IS_NUM c \<Longrightarrow> digit c < ULLONG_MAX"
  using digit_num [of c] by (simp_all add: ULLONG_MAX_def)

lemma settings_okD:
  assumes "settings_ok S"
  shows "on_message_begin S = Some f \<Longrightarrow> cb_ok f" "on_headers_complete S = Some f \<Longrightarrow> cb_ok f"
    "on_message_complete S = Some f \<Longrightarrow> cb_ok f" "on_chunk_header S = Some f \<Longrightarrow> cb_ok f"
    "on_chunk_complete S = Some f \<Longrightarrow> cb_ok f"
  using assms by (auto simp: settings_ok_def)

definition switch_inv :: "string \<Rightarrow> 'u exec \<Rightarrow> bool" where
  "switch_inv d st \<longleftrightarrow> exec_inv d st \<and> (p_state st = s_chunk_size_start \<longrightarrow> nread (parser st) = 1)"

lemma free_stateD:
  assumes "switch_inv d st" and "mark_of (p_state st) = None"
  shows "marks st = (\<lambda>_. None)" "http_errno (parser st) = HPE_OK" "base_inv (parser st)" "extra_inv (p_state st) (parser st)"
    "pp st < length d"
  using assms marks_ok_free by (auto simp: switch_inv_def exec_inv_def state_inv_def)


subsection \<open>Start line\<close>

text \<open>States without a mark and without a condition of their own.\<close>

definition plain :: "state \<Rightarrow> bool" where
  "plain s \<longleftrightarrow> mark_of s = None \<and> (s \<in> {s_req_method, s_chunk_size_start, s_chunk_size, s_chunk_parameters,
     s_chunk_size_almost_done, s_chunk_data_done} \<longrightarrow> False)"

lemmas plain_simps = plain_def mark_of_def

lemma plainD [simp]:
  "plain s \<Longrightarrow> mark_of s = None" "plain s \<Longrightarrow> extra_inv s q" "plain s \<Longrightarrow> (s = s_chunk_size_start) = False"
  by (cases s; simp add: plain_def mark_of_def extra_inv_def)+

lemma plain_states [simp]:
  "plain s_dead" "plain s_start_req_or_res" "plain s_res_or_resp_H" "plain s_start_res" "plain s_res_H" "plain s_res_HT"
  "plain s_res_HTT" "plain s_res_HTTP" "plain s_res_first_http_major" "plain s_res_http_major"
  "plain s_res_first_http_minor" "plain s_res_http_minor" "plain s_res_first_status_code" "plain s_res_status_code"
  "plain s_res_status_start" "plain s_res_line_almost_done" "plain s_start_req" "plain s_req_spaces_before_url"
  "plain s_req_http_start" "plain s_req_http_H" "plain s_req_http_HT" "plain s_req_http_HTT" "plain s_req_http_HTTP"
  "plain s_req_first_http_major" "plain s_req_http_major" "plain s_req_first_http_minor" "plain s_req_http_minor"
  "plain s_req_line_almost_done" "plain s_header_field_start" "plain s_header_value_discard_ws"
  "plain s_header_value_discard_ws_almost_done" "plain s_header_value_discard_lws" "plain s_header_value_start"
  "plain s_header_value_lws" "plain s_header_almost_done" "plain s_headers_almost_done" "plain s_headers_done"
  "plain s_message_done"
  by (simp_all add: plain_def mark_of_def)

lemma mark_of_states [simp]:
  "mark_of s_req_method = None" "mark_of s_chunk_size_start = None" "mark_of s_chunk_size = None"
  "mark_of s_chunk_parameters = None" "mark_of s_chunk_size_almost_done = None" "mark_of s_chunk_data_done = None"
  "mark_of s_header_field = Some header_field_mark" "mark_of s_header_value = Some header_value_mark"
  "mark_of s_res_status = Some status_mark" "mark_of s_body_identity = Some body_mark"
  "mark_of s_body_identity_eof = Some body_mark" "mark_of s_chunk_data = Some body_mark"
  "mark_of s_chunk_data_almost_done = Some body_mark"
  by (simp_all add: mark_of_def)

lemma extra_inv_states [simp]:
  "extra_inv s_req_method q \<longleftrightarrow> index q \<le> length (method_strings (parser_method q))"
  "extra_inv s_header_field q \<longleftrightarrow> header_state q \<in> field_states"
  "extra_inv s_header_value q \<longleftrightarrow> header_state q \<noteq> h_connection \<and> header_state q \<noteq> h_transfer_encoding"
  "extra_inv s_chunk_size_start q \<longleftrightarrow> F_CHUNKED \<in> flags q"
  "extra_inv s_chunk_size q \<longleftrightarrow> F_CHUNKED \<in> flags q \<and> content_length q < ULLONG_MAX"
  "extra_inv s_chunk_parameters q \<longleftrightarrow> F_CHUNKED \<in> flags q \<and> content_length q < ULLONG_MAX"
  "extra_inv s_chunk_size_almost_done q \<longleftrightarrow> F_CHUNKED \<in> flags q \<and> content_length q < ULLONG_MAX"
  "extra_inv s_chunk_data q \<longleftrightarrow> F_CHUNKED \<in> flags q \<and> content_length q \<noteq> 0 \<and> content_length q < ULLONG_MAX"
  "extra_inv s_chunk_data_almost_done q \<longleftrightarrow> F_CHUNKED \<in> flags q \<and> content_length q = 0"
  "extra_inv s_chunk_data_done q \<longleftrightarrow> F_CHUNKED \<in> flags q"
  "extra_inv s_body_identity q \<longleftrightarrow> content_length q \<noteq> 0 \<and> content_length q < ULLONG_MAX"
  "extra_inv s_body_identity_eof q" "extra_inv s_res_status q"
  by (simp_all add: extra_inv_def)

lemma good_move [hp_good]:
  assumes "switch_inv d st" and "mark_of (p_state st) = None" and "plain s"
  shows "good d (pp st) r (Break (UPDATE_STATE s st))"
  using free_stateD [OF assms(1,2)] assms(3)
  by (simp add: UPDATE_STATE_def exec_inv_def state_inv_def rest_inv_def)

lemma good_stay [hp_good]:
  assumes "switch_inv d st" and "plain (p_state st)"
  shows "good d (pp st) r (Break st)"
  using free_stateD [OF assms(1)] assms(2)
  by (simp add: exec_inv_def state_inv_def rest_inv_def)

lemma good_expect:
  assumes "switch_inv d st" and "mark_of (p_state st) = None" and "plain s"
  shows "good d (pp st) r (x_expect c s st)"
  using free_stateD [OF assms(1,2)] good_move [OF assms]
  by (simp add: x_expect_def STRICT_CHECK_def hp_good)

lemmas inv_move = hp_defs hp_good exec_inv_def state_inv_def rest_inv_def base_inv_def

lemma good_first_major:
  assumes "switch_inv d st" and "mark_of (p_state st) = None" and "plain s"
  shows "good d (pp st) r (x_first_major (CHR ''0'') s st)" "good d (pp st) r (x_first_major (CHR ''1'') s st)"
  using free_stateD [OF assms(1,2)] assms(3)
  by (auto simp: x_first_major_def digit_def inv_move code_def)

lemma good_http_major:
  assumes "switch_inv d st" and "plain (p_state st)" and "plain s"
  shows "good d (pp st) r (x_http_major s st)"
  using free_stateD [OF assms(1)] assms(2,3) good_move [OF assms(1) _ assms(3)]
  by (simp add: x_http_major_def inv_move)

lemma good_first_minor:
  assumes "switch_inv d st" and "mark_of (p_state st) = None" and "plain s"
  shows "good d (pp st) r (x_first_minor s st)"
  using free_stateD [OF assms(1,2)] assms(3)
  by (simp add: x_first_minor_def inv_move digit_num_le)

lemma good_more_minor [hp_good]:
  assumes "switch_inv d st" and "plain (p_state st)"
  shows "good d (pp st) r (more_minor st)"
  using free_stateD [OF assms(1)] assms(2)
  by (simp add: more_minor_def inv_move)

lemma good_res:
  assumes "switch_inv d st" and "plain (p_state st)"
  shows "good d (pp st) r (x_res_http_minor st)" "good d (pp st) r (x_res_first_status_code st)"
    "good d (pp st) r (x_res_status_code st)" "good d (pp st) r (x_res_status_start st)"
    "good d (pp st) r (x_dead st)" "good d (pp st) r (x_req_http_start st)" "good d (pp st) r (x_req_http_minor st)"
    "good d (pp st) r (x_req_line_almost_done st)"
  using free_stateD [OF assms(1)] assms good_move [OF assms(1)] good_more_minor [OF assms]
  by (simp_all add: x_res_http_minor_def x_res_first_status_code_def x_res_status_code_def x_res_status_start_def
      x_dead_def x_req_http_start_def x_req_http_minor_def x_req_line_almost_done_def
      MARK_def inv_move digit_num_le )

lemma good_starts:
  assumes "switch_inv d st" and "plain (p_state st)" and "settings_ok S"
  shows "p_state st = s_start_req_or_res \<Longrightarrow> good d (pp st) (rank s_start_req_or_res) (x_start_req_or_res S st)"
    "p_state st = s_start_res \<Longrightarrow> good d (pp st) r (x_start_res S st)"
    "p_state st = s_res_or_resp_H \<Longrightarrow> good d (pp st) r (x_res_or_resp_H st)"
  using free_stateD [OF assms(1)] assms(1,2) settings_okD [OF assms(3)]
  by (simp_all add: x_start_req_or_res_def x_start_res_def x_res_or_resp_H_def inv_move rank_def
       method_strings_def)

lemma first_method_len: "first_method c = Some m \<Longrightarrow> 1 \<le> length (method_strings m)"
  by (simp add: first_method_def method_strings_def split: if_splits)

lemma good_start_req:
  assumes "switch_inv d st" and "plain (p_state st)" and "settings_ok S"
  shows "good d (pp st) r (x_start_req S st)"
  using free_stateD [OF assms(1)] assms(1,2) settings_okD [OF assms(3)] first_method_len
  by (simp add: x_start_req_def inv_move  split: option.split)

lemma switch_method_len: "switch_method m i c = Some m' \<Longrightarrow> i < length (method_strings m')"
  by (simp add: switch_method_def method_strings_def split: if_splits)

lemma method_strings_no_nul: "i < length (method_strings m) \<Longrightarrow> method_strings m ! i \<noteq> NUL"
  by (cases m) (auto simp: method_strings_def NUL_def nth_Cons' )

lemma method_strings_short: "length (method_strings m) < 255"
  by (cases m) (simp_all add: method_strings_def)

lemma good_req_method:
  assumes "switch_inv d st" and "p_state st = s_req_method"
  shows "good d (pp st) r (x_req_method st)"
proof -
  let ?m = "parser_method (parser st)" let ?i = "index (parser st)"
  note f = free_stateD [OF assms(1)]
  have i: "?i \<le> length (method_strings ?m)" using f(4) assms(2) by (simp add: extra_inv_def mark_of_def)
  then have i': "(?i + 1) mod 256 = ?i + 1" using method_strings_short [of ?m] by simp
  show ?thesis
  proof (cases "?i = length (method_strings ?m)")
    case True
    then show ?thesis using f assms switch_method_len [of ?m ?i "ch st"] i'
      apply (simp add: x_req_method_def inv_move Suc_le_eq split: option.split)
      done
  next
    case False
    then show ?thesis  using f assms switch_method_len [of ?m ?i "ch st"] i i' method_strings_no_nul [of ?i ?m]
      apply (simp add: x_req_method_def nth_append inv_move Suc_le_eq split: option.split)
      done
  qed
qed

lemma parse_url_char_range:
  "parse_url_char s c = s_dead \<or> mark_of (parse_url_char s c) = Some url_mark"
  by (cases s) (simp_all add: parse_url_char_def mark_of_def)

lemma url_mark_states:
  "mark_of s = Some url_mark \<Longrightarrow> extra_inv s q \<and> s \<noteq> s_chunk_size_start"
  by (cases s) (simp_all add: mark_of_def extra_inv_def)

lemma markedD:
  assumes "switch_inv d st" and "mark_of (p_state st) = Some m"
  shows "marks_ok (Some m) (pp st) (marks st)" "(marks st)(m := None) = (\<lambda>_. None)"
    "http_errno (parser st) = HPE_OK" "base_inv (parser st)" "extra_inv (p_state st) (parser st)" "pp st < length d"
  using assms marks_ok_clear by (auto simp: switch_inv_def exec_inv_def state_inv_def)

lemma good_to_url_state [hp_good]:
  assumes "http_errno (parser st) = HPE_OK" "base_inv (parser st)" "marks_ok (Some url_mark) (pp st) (marks st)"
    "pp st < length d" "n \<le> pp st"
  shows "good d n r (to_url_state st)"
  using parse_url_char_range [of "p_state st" "ch st"] url_mark_states [of "parse_url_char (p_state st) (ch st)"] assms
  by (auto simp: to_url_state_def hp_defs hp_good exec_inv_def state_inv_def rest_inv_def)

lemma good_url:
  assumes "switch_inv d st" and "mark_of (p_state st) = Some url_mark" and "settings_ok S"
  shows "good d (pp st) r (x_req_schema st)" "good d (pp st) r (x_req_url S d st)"
  using markedD [OF assms(1,2)] assms(3)
  by (simp_all add: x_req_schema_def x_req_url_def hp_defs hp_good exec_inv_def state_inv_def rest_inv_def base_inv_def)

lemma good_spaces_before_url:
  assumes "switch_inv d st" and "p_state st = s_req_spaces_before_url"
  shows "good d (pp st) r (x_req_spaces_before_url st)"
  using free_stateD [OF assms(1)] assms
  by (simp add: x_req_spaces_before_url_def MARK_def hp_defs hp_good exec_inv_def state_inv_def rest_inv_def)

lemma good_res_status:
  assumes "switch_inv d st" and "p_state st = s_res_status" and "settings_ok S"
  shows "good d (pp st) r (x_res_status S d st)"
  using markedD [OF assms(1)] assms
  by (simp add: x_res_status_def inv_move)

subsection \<open>Header fields and values\<close>

lemma good_header_field_start:
  assumes "switch_inv d st" and "p_state st = s_header_field_start"
  shows "good d (pp st) (rank s_header_field_start) (x_header_field_start st)"
  using free_stateD [OF assms(1)] assms
  by (simp add: x_header_field_start_def MARK_def inv_move field_states_def rank_def)

lemma match_word_range: "fst (match_word w h h_fail h_done i c) \<in> {h, h_fail, h_done}"
  by (simp add: match_word_def Let_def)

lemma field_step_ok:
  assumes "h \<in> field_states"
  shows "\<exists>h' i'. field_step h i c raw = Some (h', i') \<and> h' \<in> field_states"
proof -
  note m = match_word_range [of _ h h_general _ i c]
  show ?thesis using assms m [of "''connection''" h_connection] m [of "''proxy-connection''" h_connection]
      m [of "''content-length''" h_content_length] m [of "''transfer-encoding''" h_transfer_encoding]
      m [of "''upgrade''" h_upgrade]
    by (cases h) (auto simp: field_states_def field_step_def prod_eq_iff)
qed

lemma field_loop_ok:
  assumes "header_state (parser st) \<in> field_states" and "pp st + n = length d"
  shows "\<exists>P c h i. field_loop n d st =
      Some (st\<lparr>parser := (parser st)\<lparr>header_state := h, index := i\<rparr>, pp := P, ch := c\<rparr>)
    \<and> h \<in> field_states \<and> pp st \<le> P \<and> P \<le> length d"
  using assms
proof (induction n arbitrary: st)
  case 0
  have "field_loop 0 d st = Some (st\<lparr>parser := (parser st)\<lparr>header_state := header_state (parser st),
      index := index (parser st)\<rparr>, pp := pp st, ch := ch st\<rparr>)" by simp
  with 0 show ?case by (metis add.right_neutral order_refl)
next
  case (Suc n)
  show ?case
  proof (cases "TOKEN (d ! pp st) = NUL")
    case True
    then have "field_loop (Suc n) d st = Some (st\<lparr>parser := (parser st)\<lparr>header_state := header_state (parser st),
      index := index (parser st)\<rparr>, pp := pp st, ch := d ! pp st\<rparr>)" by simp
    moreover have "pp st \<le> length d" using Suc.prems(2) by simp
    ultimately show ?thesis using Suc.prems(1) by (metis order_refl)
  next
    case False
    obtain h i where f: "field_step (header_state (parser st)) (index (parser st)) (TOKEN (d ! pp st)) (d ! pp st)
        = Some (h, i)" "h \<in> field_states"
      using field_step_ok Suc.prems(1) by blast
    let ?st = "st\<lparr>parser := (parser st)\<lparr>header_state := h, index := i\<rparr>, pp := pp st + 1, ch := d ! pp st\<rparr>"
    obtain P c h' i' where IH: "field_loop n d ?st =
        Some (?st\<lparr>parser := (parser ?st)\<lparr>header_state := h', index := i'\<rparr>, pp := P, ch := c\<rparr>)"
      "h' \<in> field_states" "pp ?st \<le> P" "P \<le> length d"
      using Suc.IH [of ?st] Suc.prems f(2) by auto
    have "field_loop (Suc n) d st = field_loop n d ?st"
      using False f(1) by (cases st) (simp add: Let_def on_parser_def)
    then have "field_loop (Suc n) d st =
        Some (st\<lparr>parser := (parser st)\<lparr>header_state := h', index := i'\<rparr>, pp := P, ch := c\<rparr>)"
      using IH(1) by simp
    moreover have "pp st \<le> P" using IH(3) by simp
    ultimately show ?thesis using IH(2,4) by blast
  qed
qed

lemma good_COUNT [hp_good]:
  assumes "pp st \<le> length d" and "\<And>v. v \<le> HTTP_MAX_HEADER_SIZE \<Longrightarrow> good d n r (k (st\<lparr>parser := (parser st)\<lparr>nread := v\<rparr>\<rparr>))"
  shows "good d n r (COUNT_HEADER_SIZE w st k)"
  using assms by (simp add: COUNT_HEADER_SIZE_def Let_def hp_good)

lemma good_header_field:
  assumes "switch_inv d st" and "p_state st = s_header_field" and "settings_ok S"
  shows "good d (pp st) r (x_header_field S d st)"
proof -
  have m: "mark_of (p_state st) = Some header_field_mark" using assms(2) by simp
  note f = markedD [OF assms(1) m]
  have "header_state (parser st) \<in> field_states" using f(5) assms(2) by simp
  moreover have "pp st + (length d - pp st) = length d" using f(6) by simp
  ultimately obtain P c h i where l1: "field_loop (length d - pp st) d st =
      Some (st\<lparr>parser := (parser st)\<lparr>header_state := h, index := i\<rparr>, pp := P, ch := c\<rparr>)"
    and P: "h \<in> field_states" "pp st \<le> P" "P \<le> length d" using field_loop_ok by blast
  have last_pos: "length d - Suc 0 < length d" "pp st \<le> length d - Suc 0" using f(6) by auto
  have mk: "marks_ok (Some header_field_mark) (length d - 1) (marks st)"
    using f(1,6) by (auto simp: marks_ok_def)
  have "good d (pp st) r
      (COUNT_HEADER_SIZE (P - pp st) (st\<lparr>parser := (parser st)\<lparr>header_state := h, index := i\<rparr>, pp := P, ch := c\<rparr>)
         (\<lambda>st. if pp st = length d then Break (st\<lparr>pp := pp st - 1\<rparr>)
               else if ch st = CHR '':''
               then CALLBACK_DATA S d header_field_mark (UPDATE_STATE s_header_value_discard_ws st) Break
               else fail HPE_INVALID_HEADER_TOKEN st))"
    using f assms P mk last_pos by (intro good_COUNT) (simp_all add: inv_move)
  then show ?thesis by (simp add: x_header_field_def Let_def l1)
qed


lemma good_header_value_start:
  assumes "switch_inv d st" and "plain (p_state st)"
  shows "good d (pp st) r (x_header_value_start st)"
  using free_stateD [OF assms(1)] assms(2)
  by (simp add: x_header_value_start_def MARK_def inv_move value_token_def digit_num_le less_imp_le split: header_states.split)

lemma good_header_value_discard_ws:
  assumes "switch_inv d st" and "p_state st = s_header_value_discard_ws"
  shows "good d (pp st) r (x_header_value_discard_ws st)"
  using free_stateD [OF assms(1)] assms(2) good_header_value_start [OF assms(1)]
  by (simp add: x_header_value_discard_ws_def inv_move)

lemma finish_header_simps [simp]:
  "p_state (finish_header st) = p_state st" "pp (finish_header st) = pp st" "marks (finish_header st) = marks st"
  "ch (finish_header st) = ch st" "http_errno (parser (finish_header st)) = http_errno (parser st)"
  "base_inv (parser (finish_header st)) = base_inv (parser st)"
  by (cases "header_state (parser st)"; simp add: finish_header_def hp_defs base_inv_def)+

lemma good_lws:
  assumes "switch_inv d st"
  shows "p_state st = s_header_value_lws \<Longrightarrow> good d (pp st) (rank s_header_value_lws) (x_header_value_lws st)"
    "p_state st = s_header_value_discard_lws \<Longrightarrow> settings_ok S \<Longrightarrow>
       good d (pp st) (rank s_header_value_discard_lws) (x_header_value_discard_lws S d st)"
  using free_stateD [OF assms(1)]
  by (simp_all add: x_header_value_lws_def x_header_value_discard_lws_def rank_def MARK_def hp_defs hp_good exec_inv_def
      state_inv_def rest_inv_def state_inv_cong)

lemma mem_chr_after:
  assumes "mem_chr d i c lim = Some j"
  shows "i \<le> j" "j < length d" "d ! i \<noteq> c \<Longrightarrow> i < j"
proof -
  let ?w = "take lim (drop i d)" let ?k = "length (takeWhile (\<lambda>x. x \<noteq> c) ?w)"
  have j: "?k < length ?w" "j = i + ?k" using assms by (auto simp: mem_chr_def Let_def split: if_splits)
  then show "i \<le> j" "j < length d" by auto
  assume "d ! i \<noteq> c"
  moreover have "?w \<noteq> []" "0 < lim" "i < length d" using j(1) by auto
  then have "?w = d ! i # tl ?w" by (metis hd_take hd_drop_conv_nth list.collapse)
  ultimately have "0 < ?k" by (metis (mono_tags, lifting) length_greater_0_conv list.distinct(1) takeWhile.simps(2))
  then show "i < j" using j by simp
qed

lemma skip_value_range:
  assumes "i < length d" and "d ! i \<noteq> CR" and "d ! i \<noteq> LF"
  shows "i < skip_value d i" "skip_value d i \<le> length d"
  using assms mem_chr_after(2,3) [of d i CR "min (length d - i) HTTP_MAX_HEADER_SIZE"]
    mem_chr_after(2,3) [of d i LF "min (length d - i) HTTP_MAX_HEADER_SIZE"]
  by (auto simp: skip_value_def Let_def intro: less_imp_le split: option.split)

definition value_states :: "header_states set" where
  "value_states = - {h_connection, h_transfer_encoding}"

definition value_inv :: "string \<Rightarrow> nat \<Rightarrow> header_states \<Rightarrow> 'u exec \<Rightarrow> bool" where
  "value_inv d n h st \<longleftrightarrow> http_errno (parser st) = HPE_OK \<and> base_inv (parser st) \<and> p_state st = s_header_value
     \<and> marks_ok (Some header_value_mark) n (marks st) \<and> h \<in> value_states \<and> n \<le> pp st"

lemma marks_ok_mono: "marks_ok k n mk \<Longrightarrow> n \<le> n' \<Longrightarrow> marks_ok k n' mk"
  unfolding marks_ok_def by (metis le_trans)

lemma mul10_bound: "c \<le> (ULLONG_MAX - 10) div 10 \<Longrightarrow> x \<le> 9 \<Longrightarrow> (c * 10 + x) mod 2 ^ 64 < ULLONG_MAX"
  by (simp add: ULLONG_MAX_def)

lemma mod64_le: "x mod 2 ^ 64 \<le> ULLONG_MAX"
  by (simp add: ULLONG_MAX_def)

text \<open>\<open>value_ok d n k r\<close>: the loop goes on at a position from \<open>k\<close> on, or stops with a parse error.\<close>

fun value_ok :: "string \<Rightarrow> nat \<Rightarrow> nat \<Rightarrow> 'u value_result \<Rightarrow> bool" where
  "value_ok d n k (V_next h st) \<longleftrightarrow> value_inv d n h st \<and> k \<le> pp st \<and> pp st < length d"
| "value_ok d n k (V_fail e) \<longleftrightarrow> e \<noteq> HPE_OK \<and> e \<noteq> HPE_PAUSED"
| "value_ok d n k V_abort \<longleftrightarrow> False"

lemma value_inv_update:
  "value_inv d n h st \<Longrightarrow> h' \<in> value_states \<Longrightarrow> value_inv d n h' st"
  "value_inv d n h (on_parser (\<lambda>q. q\<lparr>index := i\<rparr>) st) = value_inv d n h st"
  "value_inv d n h (set_index i st) = value_inv d n h st"
  "value_inv d n h (add_flag F st) = value_inv d n h st"
  "pp (on_parser f st) = pp st" "pp (set_index i st) = pp st" "pp (add_flag F st) = pp st"
  by (simp_all add: value_inv_def hp_defs base_inv_def)

lemma content_length_step_ok:
  assumes "value_inv d n h_content_length st" and "pp st < length d"
  shows "value_ok d n (pp st) (content_length_step st)"
  using assms digit_num [of "ch st"]
  by (simp add: content_length_step_def value_inv_def hp_defs base_inv_def mod64_le del: power_numeral)

lemma value_match_ok:
  assumes "value_inv d n h st" and "pp st < length d" and "{h, h_fail, h_done} \<subseteq> value_states"
  shows "value_ok d n (pp st) (value_match w h h_fail h_done c st)"
proof -
  obtain h' i where m: "match_word w h h_fail h_done (index (parser st)) c = (h', i)" by force
  then have "h' \<in> value_states" using match_word_range [of w h h_fail h_done "index (parser st)" c] assms(3) by auto
  then show ?thesis using m assms(1,2) by (simp add: value_match_def value_inv_update)
qed

lemma connection_done_ok:
  assumes "value_inv d n h st" and "pp st < length d"
  shows "value_ok d n (pp st) (connection_done h F st)"
  using assms by (simp add: connection_done_def value_inv_update value_states_def)

lemma value_skip_ok:
  assumes "value_inv d n h st" and "pp st < length d" and "d ! pp st \<noteq> CR" and "d ! pp st \<noteq> LF"
  shows "value_inv d n h (st\<lparr>pp := skip_value d (pp st) - Suc 0\<rparr>)" "pp st \<le> skip_value d (pp st) - Suc 0"
    "skip_value d (pp st) - Suc 0 < length d"
proof -
  have s: "pp st < skip_value d (pp st)" "skip_value d (pp st) \<le> length d"
    using skip_value_range [of "pp st" d] assms by auto
  then show p: "pp st \<le> skip_value d (pp st) - Suc 0" "skip_value d (pp st) - Suc 0 < length d" by auto
  show "value_inv d n h (st\<lparr>pp := skip_value d (pp st) - Suc 0\<rparr>)"
    using assms(1) p(1) by (auto simp: value_inv_def)
qed

lemma value_step_ok:
  assumes "value_inv d n h st" and "pp st < length d" and "d ! pp st \<noteq> CR" and "d ! pp st \<noteq> LF"
  shows "value_ok d n (pp st) (value_step d h st)"
proof -
  have "h \<in> value_states" "UPDATE_STATE s_header_value st = st"
    using assms(1) by (simp_all add: value_inv_def UPDATE_STATE_def)
  then show ?thesis
    using assms value_skip_ok [OF assms] value_inv_update(1) [OF assms(1)]
    by (cases h) (simp_all add: value_step_def Let_def value_match_ok connection_done_ok content_length_step_ok
        value_inv_update value_states_def)
qed

lemma good_value_end:
  assumes "value_inv d n h st" and "pp st = length d" and "n < length d"
  shows "good d n r (value_end d start h st)"
proof -
  have "marks_ok (Some header_value_mark) (length d - Suc 0) (marks st)"
    using assms marks_ok_mono [of _ n "marks st" "length d - Suc 0"] by (simp add: value_inv_def)
  moreover have "length d - Suc 0 < length d" "n \<le> length d - Suc 0" using assms(3) by auto
  ultimately show ?thesis
    using assms unfolding value_end_def
    by (intro good_COUNT) (simp_all add: inv_move value_inv_def value_states_def)
qed

lemma good_value_cr:
  assumes "value_inv d n h st" and "pp st < length d" and "settings_ok S"
  shows "good d n r (CALLBACK_DATA S d header_value_mark (set_header_state h (UPDATE_STATE s_header_almost_done st))
    (value_end d start h))"
  using assms marks_ok_clear [of header_value_mark n "marks st"]
  by (simp add: hp_defs hp_good value_inv_def value_end_def exec_inv_def state_inv_def rest_inv_def base_inv_def)

lemma good_value_lf:
  assumes "value_inv d n h st" and "pp st < length d" and "settings_ok S"
  shows "good d n (rank s_header_value) (COUNT_HEADER_SIZE (pp st - start) (UPDATE_STATE s_header_almost_done st)
    (\<lambda>st. CALLBACK_DATA_NOADVANCE S d header_value_mark (set_header_state h st) Reexec))"
  using assms marks_ok_clear [of header_value_mark n "marks st"]
  by (simp add: hp_defs hp_good value_inv_def exec_inv_def state_inv_def rest_inv_def base_inv_def rank_def)

lemma value_inv_pos [simp]:
  "value_inv d n h (st\<lparr>ch := c\<rparr>) = value_inv d n h st"
  "value_inv d n h st \<Longrightarrow> pp st \<le> i \<Longrightarrow> value_inv d n h (st\<lparr>pp := i\<rparr>)"
  by (auto simp: value_inv_def)

lemma good_value_loop:
  assumes "value_inv d n h st" and "pp st \<le> length d" and "length d \<le> pp st + k" and "n < length d"
    and "settings_ok S"
  shows "good d n (rank s_header_value) (value_loop k S d start h st)"
  using assms
proof (induction k arbitrary: h st)
  case 0
  then show ?case by (simp add: good_value_end)
next
  case (Suc k)
  let ?st = "st\<lparr>ch := d ! pp st\<rparr>"
  show ?case
  proof (cases "pp st = length d \<or> d ! pp st = CR \<or> d ! pp st = LF")
    case True
    then show ?thesis
      using Suc.prems good_value_end [of d n h st] good_value_cr [of d n h ?st S "rank s_header_value" start]
        good_value_lf [of d n h ?st S start]
      by (auto simp: CR_def LF_def Let_def)
  next
    case False
    then have ok: "value_ok d n (pp st) (value_step d h ?st)"
      using value_step_ok [of d n h ?st] Suc.prems by simp
    show ?thesis
    proof (cases "value_step d h ?st")
      case (V_next h' st')
      then have "value_inv d n h' st'" "pp st \<le> pp st'" "pp st' < length d" using ok by simp_all
      then have "good d n (rank s_header_value) (value_loop k S d start h' (st'\<lparr>pp := pp st' + 1\<rparr>))"
        using Suc.prems by (intro Suc.IH) auto
      then show ?thesis using False V_next by (simp add: Let_def)
    next
      case (V_fail e)
      then show ?thesis using False ok Suc.prems(2) by (simp add: Let_def hp_good set_header_state_def on_parser_def)
    next
      case V_abort
      then show ?thesis using ok by simp
    qed
  qed
qed

lemma good_header_value:
  assumes "switch_inv d st" and "p_state st = s_header_value" and "settings_ok S"
  shows "good d (pp st) (rank s_header_value) (x_header_value S d st)"
proof -
  have m: "mark_of (p_state st) = Some header_value_mark" using assms(2) by simp
  have "value_inv d (pp st) (header_state (parser st)) st"
    using markedD [OF assms(1) m] assms(2) by (simp add: value_inv_def value_states_def)
  then show ?thesis using markedD(6) [OF assms(1) m] assms(3)
    unfolding x_header_value_def by (intro good_value_loop) auto
qed

subsection \<open>End of headers, body and chunks\<close>

lemma NEW_MESSAGE_plain [simp]: "plain (NEW_MESSAGE q)"
  by (simp add: NEW_MESSAGE_def start_state_def)

lemma good_complete_message:
  assumes "http_errno (parser st) = HPE_OK" "base_inv (parser st)" "marks st = (\<lambda>_. None)" "pp st < length d"
    and "settings_ok S"
    and "\<And>s u. good d n r (k (touch (UPDATE_STATE (NEW_MESSAGE (parser st)) st) s u))"
  shows "good d n r (complete_message S st k)"
  using assms settings_okD [OF assms(5)]
  by (simp add: complete_message_def CALLBACK_NOTIFY_def hp_good UPDATE_STATE_def rest_inv_def state_inv_def)

lemma good_complete_Break:
  assumes "http_errno (parser st) = HPE_OK" "base_inv (parser st)" "marks st = (\<lambda>_. None)" "pp st < length d"
    and "settings_ok S" and "n \<le> pp st"
  shows "good d n r (complete_message S st Break)"
  using assms by (intro good_complete_message) (simp_all add: UPDATE_STATE_def exec_inv_def state_inv_def rest_inv_def)

lemma good_complete_RETURN:
  assumes "http_errno (parser st) = HPE_OK" "base_inv (parser st)" "marks st = (\<lambda>_. None)" "pp st < length d"
    and "settings_ok S" and "upgrade (parser st)"
  shows "good d n r (complete_message S st (\<lambda>st. RETURN (pp st + 1) st))"
  using assms by (intro good_complete_message)
    (simp_all add: UPDATE_STATE_def RETURN_def rest_inv_def state_inv_def parser_inv_def base_inv_def)

lemma good_message_done:
  assumes "switch_inv d st" and "p_state st = s_message_done" and "settings_ok S"
  shows "good d (pp st) r (x_message_done S st)"
  unfolding x_message_done_def using free_stateD [OF assms(1)] assms(2,3)
  by (intro good_complete_message) (simp_all add: UPDATE_STATE_def RETURN_def exec_inv_def rest_inv_def state_inv_def
      parser_inv_def base_inv_def)

lemma good_headers_done:
  assumes "switch_inv d st" and "p_state st = s_headers_done" and "settings_ok S"
  shows "good d (pp st) r (x_headers_done S st)"
proof -
  define st' where "st' = on_parser (\<lambda>q. q\<lparr>nread := 0\<rparr>) st"
  have f: "http_errno (parser st') = HPE_OK" "base_inv (parser st')" "marks st' = (\<lambda>_. None)" "pp st' < length d"
    "pp st' = pp st" "nread (parser st') = 0" "pp st < length d"
    using free_stateD [OF assms(1)] assms(2) by (simp_all add: st'_def on_parser_def base_inv_def)
  have cl: "content_length (parser st') \<le> ULLONG_MAX" using f(2) by (simp add: base_inv_def)
  note c = good_complete_Break [OF f(1-4) assms(3)] good_complete_RETURN [OF f(1-4) assms(3)]
  show ?thesis using f cl c
    unfolding x_headers_done_def Let_def st'_def [symmetric]
    by (simp add: STRICT_CHECK_def hp_good UPDATE_STATE_def exec_inv_def state_inv_def rest_inv_def)
qed

lemma good_headers_almost_done:
  assumes "switch_inv d st" and "p_state st = s_headers_almost_done" and "settings_ok S"
  shows "good d (pp st) (rank s_headers_almost_done) (x_headers_almost_done S st)"
proof (cases "on_headers_complete S")
  case None
  then show ?thesis using free_stateD [OF assms(1)] assms(2) settings_okD [OF assms(3)]
    by (simp add: x_headers_almost_done_def inv_move rank_def)
next
  case (Some f)
  let ?q = "(parser st)\<lparr>upgrade := {F_UPGRADE, F_CONNECTION_UPGRADE} \<subseteq> flags (parser st)
      \<or> parser_method (parser st) = HTTP_CONNECT\<rparr>"
  obtain v q where f: "f ?q = (v, q)" by force
  moreover obtain e u where "q = ?q\<lparr>http_errno := e, parser_data := u\<rparr>"
    using settings_okD(2) [OF assms(3) Some] f unfolding cb_ok_def by (metis snd_conv)
  ultimately show ?thesis using free_stateD [OF assms(1)] assms(2) settings_okD [OF assms(3)] Some
    by (simp add: x_headers_almost_done_def inv_move rank_def parser_inv_def SET_ERRNO_def)
qed

lemma MARK_ok: "marks_ok (Some m) (pp st) (marks st) \<Longrightarrow> marks_ok (Some m) (pp st) (marks (MARK m st))"
  by (auto simp: MARK_def marks_ok_def split: if_splits)

lemma MARK_simps [simp]:
  "p_state (MARK m st) = p_state st" "parser (MARK m st) = parser st" "pp (MARK m st) = pp st" "ch (MARK m st) = ch st"
  by (simp_all add: MARK_def)

lemma take_body_ok:
  assumes "switch_inv d st" and "mark_of (p_state st) = Some body_mark" and "content_length (parser st) \<noteq> 0"
  shows "p_state (take_body d st) = p_state st" "http_errno (parser (take_body d st)) = HPE_OK"
    "flags (parser (take_body d st)) = flags (parser st)" "base_inv (parser (take_body d st))"
    "content_length (parser (take_body d st)) \<le> content_length (parser st)"
    "pp st \<le> pp (take_body d st)" "pp (take_body d st) < length d"
    "marks_ok (Some body_mark) (pp (take_body d st)) (marks (take_body d st))"
proof -
  note f = markedD [OF assms(1,2)]
  let ?n = "min (content_length (parser st)) (length d - pp st)"
  have n: "0 < ?n" using f(6) assms(3) by simp
  have pp: "pp (take_body d st) = pp st + ?n - 1" by (simp add: take_body_def Let_def)
  then show r: "pp st \<le> pp (take_body d st)" "pp (take_body d st) < length d" using n f(6) by auto
  show "p_state (take_body d st) = p_state st" "http_errno (parser (take_body d st)) = HPE_OK"
    "flags (parser (take_body d st)) = flags (parser st)" "base_inv (parser (take_body d st))"
    "content_length (parser (take_body d st)) \<le> content_length (parser st)"
    using f(3,4) by (auto simp: take_body_def Let_def on_parser_def base_inv_def)
  have "marks (take_body d st) = marks (MARK body_mark st)" by (simp add: take_body_def Let_def on_parser_def)
  then show "marks_ok (Some body_mark) (pp (take_body d st)) (marks (take_body d st))"
    using MARK_ok [OF f(1)] r(1) marks_ok_mono by metis
qed

lemma good_body_identity:
  assumes "switch_inv d st" and "p_state st = s_body_identity" and "settings_ok S"
  shows "good d (pp st) (rank s_body_identity) (x_body_identity S d st)"
proof -
  have m: "mark_of (p_state st) = Some body_mark" using assms(2) by simp
  have c: "content_length (parser st) \<noteq> 0" "content_length (parser st) < ULLONG_MAX"
    using markedD(5) [OF assms(1) m] assms(2) by simp_all
  note t = take_body_ok [OF assms(1) m c(1)]
  have cl: "(marks (take_body d st))(body_mark := None) = (\<lambda>_. None)" using marks_ok_clear [OF t(8)] .
  show ?thesis using t c cl assms(2,3)
    by (simp add: x_body_identity_def ASSERT_def Let_def hp_good UPDATE_STATE_def exec_inv_def state_inv_def rest_inv_def
        rank_def)
qed

lemma good_chunk_data:
  assumes "switch_inv d st" and "p_state st = s_chunk_data"
  shows "good d (pp st) r (x_chunk_data d st)"
proof -
  have m: "mark_of (p_state st) = Some body_mark" using assms(2) by simp
  have c: "F_CHUNKED \<in> flags (parser st)" "content_length (parser st) \<noteq> 0" "content_length (parser st) < ULLONG_MAX"
    using markedD(5) [OF assms(1) m] assms(2) by simp_all
  note t = take_body_ok [OF assms(1) m c(2)]
  show ?thesis using t c assms(2)
    by (simp add: x_chunk_data_def ASSERT_def Let_def UPDATE_STATE_def exec_inv_def state_inv_def rest_inv_def)
qed

lemma good_body_identity_eof:
  assumes "switch_inv d st" and "p_state st = s_body_identity_eof"
  shows "good d (pp st) r (x_body_identity_eof d st)"
proof -
  have m: "mark_of (p_state st) = Some body_mark" using assms(2) by simp
  note f = markedD [OF assms(1) m]
  have "pp st \<le> length d - Suc 0" "length d - Suc 0 < length d" using f(6) by auto
  then show ?thesis using f MARK_ok [OF f(1)] marks_ok_mono [of _ "pp st"] assms(2)
    by (simp add: x_body_identity_eof_def exec_inv_def state_inv_def rest_inv_def)
qed

lemma good_chunk_data_almost_done:
  assumes "switch_inv d st" and "p_state st = s_chunk_data_almost_done" and "settings_ok S"
  shows "good d (pp st) r (x_chunk_data_almost_done S d st)"
  using markedD [OF assms(1)] assms(2,3) by (simp add: x_chunk_data_almost_done_def inv_move)

lemma unhex_range: "unhex ! code c = -1 \<or> 0 \<le> unhex ! code c \<and> unhex ! code c \<le> 15"
proof -
  have "code c < length unhex" by (simp add: unhex_def code_def)
  then have "unhex ! code c \<in> set unhex" by simp
  then show ?thesis by (auto simp: unhex_def)
qed

lemma chunk_size_bound: "c \<le> (ULLONG_MAX - 16) div 16 \<Longrightarrow> x \<le> 15 \<Longrightarrow> (c * 16 + x) mod 2 ^ 64 < ULLONG_MAX"
  by (simp add: ULLONG_MAX_def)

lemma good_chunks:
  assumes "switch_inv d st"
  shows "p_state st = s_chunk_size_start \<Longrightarrow> good d (pp st) r (x_chunk_size_start st)"
    "p_state st = s_chunk_size \<Longrightarrow> good d (pp st) r (x_chunk_size st)"
    "p_state st = s_chunk_parameters \<Longrightarrow> good d (pp st) r (x_chunk_parameters st)"
    "p_state st = s_chunk_size_almost_done \<Longrightarrow> settings_ok S \<Longrightarrow> good d (pp st) r (x_chunk_size_almost_done S st)"
    "p_state st = s_chunk_data_done \<Longrightarrow> settings_ok S \<Longrightarrow> good d (pp st) r (x_chunk_data_done S st)"
proof -
  let ?v = "nat (unhex ! code (ch st))"
  have v: "?v \<le> 15" using unhex_range [of "ch st"] by auto
  have v': "?v < ULLONG_MAX" "?v \<le> ULLONG_MAX" using v by (simp_all add: ULLONG_MAX_def)
  note f = free_stateD [OF assms]
  show "p_state st = s_chunk_size_start \<Longrightarrow> good d (pp st) r (x_chunk_size_start st)"
    using f assms v' by (simp add: x_chunk_size_start_def inv_move switch_inv_def)
  show "p_state st = s_chunk_size \<Longrightarrow> good d (pp st) r (x_chunk_size st)"
    using f assms chunk_size_bound [OF _ v] by (simp add: x_chunk_size_def inv_move less_imp_le not_less del: power_numeral)
  show "p_state st = s_chunk_parameters \<Longrightarrow> good d (pp st) r (x_chunk_parameters st)"
    using f assms by (simp add: x_chunk_parameters_def inv_move)
  show "p_state st = s_chunk_size_almost_done \<Longrightarrow> settings_ok S \<Longrightarrow> good d (pp st) r (x_chunk_size_almost_done S st)"
    using f assms settings_okD [of S] by (simp add: x_chunk_size_almost_done_def inv_move)
  show "p_state st = s_chunk_data_done \<Longrightarrow> settings_ok S \<Longrightarrow> good d (pp st) r (x_chunk_data_done S st)"
    using f assms settings_okD [of S] by (simp add: x_chunk_data_done_def inv_move)
qed

subsection \<open>The whole parser\<close>

lemma good_switch:
  assumes "switch_inv d st" and "settings_ok S"
  shows "good d (pp st) (rank (p_state st)) (exec_switch S d st)"
proof -
  note i = assms(1) note S = assms(2)
  note url = good_url [OF i _ S]
  show ?thesis
    by (cases "p_state st")
      (simp_all add: exec_switch_def good_res [OF i] good_starts [OF i _ S] good_start_req [OF i _ S] good_req_method [OF i]
        good_expect [OF i] good_first_major [OF i] good_http_major [OF i] good_first_minor [OF i]
        good_spaces_before_url [OF i] url good_res_status [OF i _ S] good_header_field_start [OF i]
        good_header_field [OF i _ S] good_header_value_start [OF i] good_header_value_discard_ws [OF i]
        good_lws [OF i] S good_header_value [OF i _ S] good_message_done [OF i _ S] good_headers_done [OF i _ S]
        good_headers_almost_done [OF i _ S] good_body_identity [OF i _ S] good_chunk_data [OF i]
        good_body_identity_eof [OF i] good_chunk_data_almost_done [OF i _ S] good_chunks [OF i] mark_of_def)
qed

lemma good_step:
  assumes "settings_ok S" and "exec_inv d st" and "re \<longrightarrow> p_state st \<noteq> s_chunk_size_start"
    and "\<not> re \<longrightarrow> rest_inv (p_state st) (parser st)"
  shows "good d (pp st) (rank (p_state st)) (exec_step S d re st)"
proof (cases re)
  case True
  then show ?thesis using good_switch [of d st S] assms by (simp add: exec_step_def switch_inv_def)
next
  case False
  let ?st = "st\<lparr>ch := d ! pp st\<rparr>"
  have e: "exec_inv d ?st" using assms(2) by (simp add: exec_inv_def)
  show ?thesis
  proof (cases "PARSING_HEADER (p_state st)")
    case True
    let ?n = "(nread (parser st) + 1) mod 2 ^ 32"
    have start: "p_state st = s_chunk_size_start \<Longrightarrow> ?n = 1"
      using assms(4) False by (simp add: rest_inv_def)
    have "good d (pp st) (rank (p_state st)) (exec_switch S d (?st\<lparr>parser := (parser st)\<lparr>nread := ?n\<rparr>\<rparr>))"
      if "?n \<le> HTTP_MAX_HEADER_SIZE"
    proof -
      have "switch_inv d (?st\<lparr>parser := (parser st)\<lparr>nread := ?n\<rparr>\<rparr>)"
        using e that start unfolding switch_inv_def exec_inv_def state_inv_def base_inv_def
        by (auto simp: extra_inv_def split: state.splits)
      from good_switch [OF this assms(1)] show ?thesis by simp
    qed
    then show ?thesis using False True e
      by (simp add: exec_step_def Let_def COUNT_HEADER_SIZE_def good_fail exec_inv_def)
  next
    case body: False
    then have "p_state st \<noteq> s_chunk_size_start" by (auto simp: PARSING_HEADER_def)
    then have "switch_inv d ?st" using e by (simp add: switch_inv_def)
    from good_switch [OF this assms(1)] show ?thesis using False body by (simp add: exec_step_def Let_def)
  qed
qed

lemma marks_ok_count:
  assumes "marks_ok k n (marks st)"
  shows "is_marked st header_field_mark + is_marked st header_value_mark + is_marked st url_mark
    + is_marked st body_mark + is_marked st status_mark \<le> 1"
proof (cases "marks st = (\<lambda>_. None)")
  case False
  then obtain m i where "marks st = [m \<mapsto> i]" using assms by (auto simp: marks_ok_def)
  then show ?thesis by (cases m) (simp_all add: is_marked_def)
qed (simp add: is_marked_def)

lemma good_finish:
  assumes "settings_ok S" and "http_errno (parser st) = HPE_OK" and "rest_inv (p_state st) (parser st)"
    and "marks_ok k n (marks st)" and "pp st = length d"
  shows "good d (length d) 0 (exec_finish S d st)"
  unfolding exec_finish_def ASSERT_def if_P [OF marks_ok_count [OF assms(4)]] CALLBACK_DATA_NOADVANCE_def
  using assms(1-3,5)
  by (intro good_DATA_er) (simp_all add: RETURN_def parser_inv_def state_inv_cong)

lemma exec_inv_advance:
  "exec_inv d st \<Longrightarrow> pp st + 1 < length d \<Longrightarrow> exec_inv d (st\<lparr>pp := pp st + 1\<rparr>)"
  using marks_ok_mono [of _ "pp st" "marks st" "pp st + 1"] by (auto simp: exec_inv_def)

lemma exec_loop_ok:
  assumes "settings_ok S" and "http_errno (parser st) = HPE_OK" and "state_inv (p_state st) (parser st)"
    and "marks_ok (mark_of (p_state st)) (pp st) (marks st)" and "if re then pp st < length d else pp st \<le> length d"
    and "if re then p_state st \<noteq> s_chunk_size_start else rest_inv (p_state st) (parser st)"
  shows "\<exists>n q. exec_loop S d re st = Some (n, q) \<and> n \<le> length d \<and> parser_inv q
    \<and> (http_errno q = HPE_OK \<longrightarrow> n = length d \<or> upgrade q)"
  using assms
proof (induction "(length d - pp st, if re then rank (p_state st) else 5)" arbitrary: re st
    rule: wf_induct_rule [OF wf_lex_prod [OF wf_less_than wf_less_than]])
  case 1
  note IH = "1.hyps" and prems = "1.prems"
  show ?case
  proof (cases "\<not> re \<and> pp st = length d")
    case True
    then have "good d (length d) 0 (exec_finish S d st)" using good_finish prems by auto
    then show ?thesis using True
      by (cases "exec_finish S d st") (auto simp: exec_loop.simps exec_inv_def)
  next
    case False
    then have pos: "pp st < length d" using prems(5) by (auto split: if_splits)
    then have "good d (pp st) (rank (p_state st)) (exec_step S d re st)"
      using good_step [OF prems(1), of d st re] prems by (auto simp: exec_inv_def split: if_splits)
    then have g: "good d (pp st) (rank (p_state st)) (exec_step S d re st)" .
    have unf: "exec_loop S d re st = (case exec_step S d re st of
        Break st' \<Rightarrow> exec_loop S d False (st'\<lparr>pp := pp st' + 1\<rparr>) | Reexec st' \<Rightarrow> exec_loop S d True st'
      | Return n q \<Rightarrow> Some (n, q) | Abort \<Rightarrow> None)"
      by (subst exec_loop.simps) (rule if_not_P [OF False])
    show ?thesis
    proof (cases "exec_step S d re st")
      case (Break st')
      let ?st = "st'\<lparr>pp := pp st' + 1\<rparr>"
      have "exec_loop S d re st = exec_loop S d False ?st" using Break unf by simp
      moreover have i: "exec_inv d st'" "rest_inv (p_state st') (parser st')" "pp st \<le> pp st'" using g Break by simp_all
      moreover have "marks_ok (mark_of (p_state ?st)) (pp ?st) (marks ?st)"
        using i(1) marks_ok_mono [of _ "pp st'" "marks st'" "pp st' + 1"] by (auto simp: exec_inv_def)
      moreover have "length d - Suc (pp st') < length d - pp st" using i(3) pos by simp
      ultimately show ?thesis using IH [of ?st False] prems(1) by (auto simp: exec_inv_def)
    next
      case (Reexec st')
      have "exec_loop S d re st = exec_loop S d True st'" using Reexec unf by simp
      moreover have i: "exec_inv d st'" "p_state st' \<noteq> s_chunk_size_start" "pp st \<le> pp st'"
        "rank (p_state st') < rank (p_state st)" using g Reexec by simp_all
      moreover have "rank (p_state st) < 5" by (simp add: rank_def)
      then have "length d - pp st' < length d - pp st
          \<or> length d - pp st' = length d - pp st \<and> rank (p_state st') < (if re then rank (p_state st) else 5)"
        using i(3,4) pos by auto
      ultimately show ?thesis using IH [of st' True] prems(1) by (auto simp: exec_inv_def)
    next
      case (Return n q)
      then show ?thesis using g unf by simp
    next
      case Abort
      then show ?thesis using g by simp
    qed
  qed
qed

lemma initial_marks_ok: "marks_ok (mark_of s) 0 (initial_marks s)"
proof -
  have "initial_marks s = (\<lambda>_. None)" if "mark_of s = None \<or> mark_of s = Some body_mark"
  proof
    fix m show "initial_marks s m = None" using that
      by (cases s; cases m) (simp_all add: initial_marks_def url_states_def mark_of_def)
  qed
  moreover have "initial_marks s = [m \<mapsto> 0]" if "mark_of s = Some m" "m \<noteq> body_mark" for m
  proof
    fix m' show "initial_marks s m' = [m \<mapsto> 0] m'" using that
      by (cases s; cases m'; simp add: initial_marks_def url_states_def mark_of_def)
  qed
  ultimately show ?thesis by (cases "mark_of s") (auto simp: marks_ok_def)
qed

lemma execute_at_eof:
  assumes "settings_ok S" and "parser_inv q" and "http_errno q = HPE_OK"
  shows "\<exists>n q'. http_parser_execute q S [] = Some (n, q') \<and> n \<le> 1 \<and> parser_inv q' \<and> (http_errno q' = HPE_OK \<longrightarrow> n = 0)"
proof (cases "state q = s_body_identity_eof \<and> on_message_complete S \<noteq> None")
  case True
  then obtain f where f: "on_message_complete S = Some f" by auto
  let ?q = "q\<lparr>state := s_body_identity_eof\<rparr>"
  obtain v q' where v: "f ?q = (v, q')" by force
  then obtain e u where "q' = ?q\<lparr>http_errno := e, parser_data := u\<rparr>"
    using settings_okD(3) [OF assms(1) f] unfolding cb_ok_def by (metis snd_conv)
  then show ?thesis using True assms v f
    by (auto simp: http_parser_execute_def CALLBACK_NOTIFY_NOADVANCE_def CALLBACK_NOTIFY_er_def ASSERT_def after_callback_def
        Let_def parser_inv_def state_inv_cong)
next
  case False
  then show ?thesis using assms
    by (auto simp: http_parser_execute_def CALLBACK_NOTIFY_NOADVANCE_def CALLBACK_NOTIFY_er_def ASSERT_def parser_inv_def)
qed

text \<open>
  C5.  For callbacks that keep to the interface and a parser that satisfies the invariant (a freshly
  initialised one does), \<open>http_parser_execute\<close> returns on every input: no assertion fails and the loop
  ends.  The parser it leaves satisfies the invariant again, so that the next piece of input is as safe, and
  if no error was or is flagged, all bytes were consumed or the connection is upgraded.
\<close>

theorem http_parser_execute_safe:
  assumes "settings_ok S" and "parser_inv q"
  shows "\<exists>n q'. http_parser_execute q S d = Some (n, q') \<and> n \<le> max 1 (length d) \<and> parser_inv q'
    \<and> (http_errno q' = HPE_OK \<and> http_errno q = HPE_OK \<longrightarrow> n = length d \<or> upgrade q')"
proof (cases "http_errno q = HPE_OK")
  case True
  show ?thesis
  proof (cases "d = []")
    case d: False
    then show ?thesis
      using exec_loop_ok [of S "\<lparr>parser = q, p_state = state q, pp = 0, ch = NUL, marks = initial_marks (state q)\<rparr>" False d]
        assms initial_marks_ok True
      by (auto simp: http_parser_execute_def parser_inv_def rest_inv_def)
  next
    case d: True
    then show ?thesis using execute_at_eof [OF assms True] by auto
  qed
next
  case False
  then show ?thesis using assms by (simp add: http_parser_execute_def)
qed

lemma parser_inv_init: "parser_inv (http_parser_init q t)"
  by (simp add: parser_inv_def http_parser_init_def rest_inv_def state_inv_def base_inv_def)

lemma settings_ok_none: "settings_ok (http_parser_settings_init :: 'u http_parser_settings)"
proof -
  have "data_cb (http_parser_settings_init :: 'u http_parser_settings) m = None" for m
    by (cases m) (simp_all add: http_parser_settings_init_def)
  then show ?thesis by (simp add: settings_ok_def http_parser_settings_init_def)
qed

definition blank_parser :: "unit http_parser" where
  "blank_parser = \<lparr>parser_type = HTTP_BOTH, flags = {}, state = s_dead, header_state = h_general, index = 0, nread = 0,
     content_length = 0, http_major = 0, http_minor = 0, status_code = 0, parser_method = HTTP_DELETE,
     http_errno = HPE_OK, upgrade = False, parser_data = ()\<rparr>"

theorem http_parser_execute_safe_witness:
  "\<exists>n q'. http_parser_execute (http_parser_init blank_parser HTTP_BOTH) http_parser_settings_init ''GET / HTTP/1.1''
      = Some (n, q') \<and> n \<le> max 1 (length ''GET / HTTP/1.1'') \<and> parser_inv q'"
  using http_parser_execute_safe [OF settings_ok_none parser_inv_init [of blank_parser HTTP_BOTH],
      of "''GET / HTTP/1.1''"] by blast

subsection \<open>Length fields\<close>

text \<open>The number that a string of decimal digits denotes, and the digits of a chunk size.\<close>

definition decimal :: "nat \<Rightarrow> string \<Rightarrow> nat" where
  "decimal v cs = foldl (\<lambda>v c. v * 10 + digit c) v cs"

text \<open>The value loop on a \<open>Content-Length\<close> header, restricted to its digits.\<close>

fun content_length_run :: "string \<Rightarrow> 'u exec \<Rightarrow> 'u exec option" where
  "content_length_run [] st = Some st"
| "content_length_run (c # cs) st =
     (case content_length_step (st\<lparr>ch := c\<rparr>) of V_next h st' \<Rightarrow> content_length_run cs st' | _ \<Rightarrow> None)"

lemma decimal_ge: "v \<le> decimal v cs"
proof (induction cs arbitrary: v)
  case Nil
  then show ?case by (simp add: decimal_def)
next
  case (Cons c cs)
  have "v \<le> v * 10 + digit c" by simp
  then show ?case using Cons [of "v * 10 + digit c"] by (simp add: decimal_def)
qed

text \<open>
  C30.  The 64-bit arithmetic on \<open>Content-Length\<close> never wraps: after the digits of the header the
  parser either has refused the value or holds exactly the number that they denote, and it refuses only
  values within a factor of ten of the 64-bit range.
\<close>

theorem content_length_exact:
  assumes "\<forall>c \<in> set cs. IS_NUM c"
  shows "(\<forall>st'. content_length_run cs st = Some st' \<longrightarrow>
            content_length (parser st') = decimal (content_length (parser st)) cs)
    \<and> (decimal (content_length (parser st)) cs \<le> (ULLONG_MAX - 10) div 10 \<longrightarrow> content_length_run cs st \<noteq> None)"
  using assms
proof (induction cs arbitrary: st)
  case Nil
  then show ?case by (simp add: decimal_def)
next
  case (Cons c cs)
  let ?v = "content_length (parser st)"
  have sp: "c \<noteq> CHR '' ''" using Cons.prems by (auto simp: IS_NUM_def code_def)
  have d: "digit c \<le> 9" using Cons.prems digit_num by simp
  have dec: "decimal ?v (c # cs) = decimal (?v * 10 + digit c) cs" by (simp add: decimal_def)
  show ?case
  proof (cases "(ULLONG_MAX - 10) div 10 < ?v")
    case True
    then have "content_length_run (c # cs) st = None" "(ULLONG_MAX - 10) div 10 < decimal ?v (c # cs)"
      using sp Cons.prems decimal_ge [of ?v "c # cs"] by (auto simp: content_length_step_def Let_def)
    then show ?thesis by simp
  next
    case False
    then have "(?v * 10 + digit c) mod 2 ^ 64 = ?v * 10 + digit c" using d by (simp add: ULLONG_MAX_def)
    then have "content_length_run (c # cs) st =
        content_length_run cs (on_parser (\<lambda>q. q\<lparr>content_length := ?v * 10 + digit c\<rparr>) (st\<lparr>ch := c\<rparr>))"
      using sp False Cons.prems by (simp add: content_length_step_def Let_def)
    then show ?thesis
      using Cons.IH [of "on_parser (\<lambda>q. q\<lparr>content_length := ?v * 10 + digit c\<rparr>) (st\<lparr>ch := c\<rparr>)"] Cons.prems dec
      by (simp add: on_parser_def)
  qed
qed

definition blank_exec :: "unit exec" where
  "blank_exec = \<lparr>parser = blank_parser, p_state = s_header_value, pp = 0, ch = NUL, marks = (\<lambda>_. None)\<rparr>"

theorem content_length_exact_witness:
  "\<exists>st'. content_length_run ''42'' blank_exec = Some st' \<and> content_length (parser st') = 42"
proof -
  have "\<forall>c \<in> set ''42''. IS_NUM c" by (simp add: IS_NUM_def code_def)
  moreover have "decimal (content_length (parser blank_exec)) ''42'' = 42"
    by (simp add: decimal_def digit_def code_def blank_exec_def blank_parser_def)
  ultimately show ?thesis
    using content_length_exact [of "''42''" blank_exec] by (auto simp: ULLONG_MAX_def)
qed

end
