(* ===== verification/CJson.thy ===== *)
theory CJson
  imports HttpUrl "HOL-Library.Sublist"
begin

text \<open>
  The JSON library \<open>Util/src/util/json/cJSON.c\<close>: parser, printer and constructors.

  A \<open>cJSON\<close> node with its chain of children is a tree.  A pointer into the text is the rest of the
  text from there on, including the final \<open>NUL\<close>; reading through the empty rest is a read behind the
  end of the string.  \<open>None\<close> stands for such undefined behaviour (an access outside a string or outside
  an allocated buffer, a signed overflow); inside it, \<open>PFail ep\<close> is the null result of a parse
  function with the error position it leaves, and an allocation that fails returns null as in the code.
  Which allocations succeed is an argument, and so is the floating point arithmetic of the C library.
\<close>

subsection \<open>Nodes\<close>

datatype json_type =
    cJSON_False | cJSON_True | cJSON_NULL | cJSON_Int | cJSON_Double | cJSON_String
  | cJSON_Array | cJSON_Object

datatype 'd cJSON =
  CJSON (node_type: json_type) (is_reference: bool) (child: "'d cJSON list")
    (valuestring: "string option") (valueint: u64) (valuedouble: 'd) (sign: int)
    (node_string: "string option")

text \<open>
  What the code uses of floating point: zero, the conversion of a 64-bit number, \<open>sign * n * 10 ^ e\<close> as a
  double and as \<open>uint64\<close>, the conversion of a double to \<open>uint64\<close>, and the text that
  \<open>print_double\<close> formats.  The conversion of a number whose integral part is outside the 64-bit range is
  undefined: \<open>u64_scaled\<close> is \<open>None\<close> there.  \<open>u64_of_d\<close>, which only \<open>cJSON_CreateDouble\<close> uses for the
  field \<open>valueint\<close> of a double, is the result on the machine at hand.
\<close>

record 'd fpu =
  d_zero :: 'd
  d_of_u64 :: "u64 \<Rightarrow> 'd"
  d_scaled :: "int \<Rightarrow> int \<Rightarrow> 'd"
  u64_scaled :: "int \<Rightarrow> int \<Rightarrow> u64 option"
  u64_of_d :: "'d \<Rightarrow> u64"
  d_text :: "'d \<Rightarrow> string"

type_synonym alloc = "nat \<Rightarrow> bool"

definition cJSON_blank :: "'d fpu \<Rightarrow> 'd cJSON" where
  "cJSON_blank F = CJSON cJSON_False False [] None 0 (d_zero F) 0 None"

definition cJSON_New_Item :: "'d fpu \<Rightarrow> alloc \<Rightarrow> 'd cJSON option" where
  "cJSON_New_Item F ok = (if ok 72 then Some (cJSON_blank F) else None)"

definition cJSON_strdup :: "alloc \<Rightarrow> string \<Rightarrow> string option" where
  "cJSON_strdup ok s = (if ok (length s + 1) then Some s else None)"

fun set_node_type :: "json_type \<Rightarrow> 'd cJSON \<Rightarrow> 'd cJSON" where
  "set_node_type t (CJSON _ r cs s i d sg n) = CJSON t r cs s i d sg n"

fun set_child :: "'d cJSON list \<Rightarrow> 'd cJSON \<Rightarrow> 'd cJSON" where
  "set_child cs (CJSON t r _ s i d sg n) = CJSON t r cs s i d sg n"

fun set_valuestring :: "string option \<Rightarrow> 'd cJSON \<Rightarrow> 'd cJSON" where
  "set_valuestring s (CJSON t r cs _ i d sg n) = CJSON t r cs s i d sg n"

fun set_number :: "u64 \<Rightarrow> 'd \<Rightarrow> int \<Rightarrow> 'd cJSON \<Rightarrow> 'd cJSON" where
  "set_number i d sg (CJSON t r cs s _ _ _ n) = CJSON t r cs s i d sg n"

fun set_valueint :: "u64 \<Rightarrow> 'd cJSON \<Rightarrow> 'd cJSON" where
  "set_valueint i (CJSON t r cs s _ d sg n) = CJSON t r cs s i d sg n"

fun set_node_string :: "string option \<Rightarrow> 'd cJSON \<Rightarrow> 'd cJSON" where
  "set_node_string n (CJSON t r cs s i d sg _) = CJSON t r cs s i d sg n"

subsection \<open>Reading the text\<close>

datatype 'a pres = POk 'a | PFail "string option"

definition peek :: "string \<Rightarrow> char option" where
  "peek p = (case p of [] \<Rightarrow> None | c # _ \<Rightarrow> Some c)"

definition skip :: "string \<Rightarrow> string option" where
  "skip p = (if p = [] then None else Some (dropWhile (\<lambda>c. c \<noteq> NUL \<and> code c \<le> 32) p))"

subsection \<open>Numbers\<close>

definition digits_value :: "nat \<Rightarrow> string \<Rightarrow> nat" where
  "digits_value v ds = foldl (\<lambda>v c. v * 10 + (code c - code (CHR ''0''))) v ds"

text \<open>A loop over digits: the digits and the rest.\<close>

definition span_digits :: "string \<Rightarrow> string \<times> string" where
  "span_digits p = (takeWhile IS_NUM p, dropWhile IS_NUM p)"

text \<open>The integer and fraction digits: the accumulated number, the scale and the rest.\<close>

definition parse_mantissa :: "string \<Rightarrow> nat \<times> int \<times> string" where
  "parse_mantissa p =
     (let p = (if peek p = Some (CHR ''0'') then tl p else p);
          (n, p) = (case peek p of
                      Some c \<Rightarrow> if IS_NUM c \<and> c \<noteq> CHR ''0''
                                then (digits_value 0 (fst (span_digits p)), snd (span_digits p)) else (0, p)
                    | None \<Rightarrow> (0, p))
      in if peek p = Some (CHR ''.'') \<and> tl p \<noteq> [] \<and> IS_NUM (hd (tl p))
         then let ds = fst (span_digits (tl p))
              in (digits_value n ds, - int (length ds), snd (span_digits (tl p)))
         else (n, 0, p))"

text \<open>The exponent; \<open>None\<close> if \<open>subscale\<close> overflows.\<close>

definition parse_exponent :: "string \<Rightarrow> (int \<times> string) option" where
  "parse_exponent p =
     (if peek p = Some (CHR ''e'') \<or> peek p = Some (CHR ''E'') then
        let p = tl p;
            (sg, p) = (if peek p = Some (CHR ''+'') then (1, tl p)
                       else if peek p = Some (CHR ''-'') then (-1, tl p) else (1, p));
            v = digits_value 0 (fst (span_digits p))
        in if v \<ge> 2 ^ 31 then None else Some (sg * int v, snd (span_digits p))
      else Some (0, p))"

text \<open>
  A number without fraction and exponent is an integer, converted with \<open>(uint64)n\<close>; another one is a double whose
  integral part is converted too.  Both conversions are undefined outside the range of \<open>uint64\<close>.
\<close>

definition parse_number :: "'d fpu \<Rightarrow> 'd cJSON \<Rightarrow> string \<Rightarrow> ('d cJSON \<times> string) pres option" where
  "parse_number F item num =
     (let (sg, p) = (if peek num = Some (CHR ''-'') then (-1, tl num) else (1, num));
          (n, scale, p) = parse_mantissa p
      in Option.bind (parse_exponent p)
           (\<lambda>(subscale, p).
              if scale = 0 \<and> subscale = 0 then
                if n < 2 ^ 64 then
                  let v = of_int sg * of_nat n
                  in Some (POk (set_node_type cJSON_Int (set_number v (d_of_u64 F v) sg item), p))
                else None
              else
                map_option
                  (\<lambda>u. POk (set_node_type cJSON_Double
                         (set_number u (d_scaled F (sg * int n) (scale + subscale)) sg item), p))
                  (u64_scaled F (sg * int n) (scale + subscale))))"

subsection \<open>Strings\<close>

text \<open>The first loop: the number of characters, escapes counted as one, up to the closing quote.\<close>

function string_length :: "string \<Rightarrow> nat \<Rightarrow> nat option" where
  "string_length p len =
     (case p of
        [] \<Rightarrow> None
      | c # q \<Rightarrow>
          if c = CHR 0x22 \<or> c = NUL then Some len
          else if c = CHR 0x5C then string_length (tl q) (len + 1)
          else string_length q (len + 1))"
  by auto
termination by (relation "measure (\<lambda>(p, len). length p)") auto

text \<open>
  \<open>sscanf(p, "%4x", &uc)\<close>: white space, then at most four characters with an optional sign and prefix;
  without a digit \<open>uc\<close> keeps its value.
\<close>

definition is_space :: "char \<Rightarrow> bool" where
  "is_space c \<longleftrightarrow> c = CHR '' '' \<or> 9 \<le> code c \<and> code c \<le> 13"

definition hex_digit :: "char \<Rightarrow> nat" where
  "hex_digit c = (if IS_NUM c then code c - 48 else code (LOWER c) - 87)"

definition sscanf_4x :: "string \<Rightarrow> nat \<Rightarrow> nat" where
  "sscanf_4x p uc =
     (let w = take 4 (dropWhile is_space p);
          (neg, w) = (case w of c # r \<Rightarrow> if c = CHR ''-'' then (True, r) else if c = CHR ''+'' then (False, r) else (False, w)
                              | [] \<Rightarrow> (False, w));
          w = (if length w \<ge> 2 \<and> w ! 0 = CHR ''0'' \<and> LOWER (w ! 1) = CHR ''x'' then drop 2 w else w);
          ds = takeWhile IS_HEX w;
          v = foldl (\<lambda>v c. v * 16 + hex_digit c) 0 ds
      in if ds = [] then uc else if neg then (2 ^ 32 - v) mod 2 ^ 32 else v)"

text \<open>The UTF-8 bytes of a code point, as the \<open>switch (len)\<close> writes them from the last to the first, and
  what it leaves in \<open>uc\<close>.\<close>

definition firstByteMark :: "nat list" where
  "firstByteMark = [0x00, 0x00, 0xC0, 0xE0, 0xF0, 0xF8, 0xFC]"

definition utf8_length :: "nat \<Rightarrow> nat" where
  "utf8_length uc = (if uc < 0x80 then 1 else if uc < 0x800 then 2 else if uc < 0x10000 then 3 else 4)"

fun utf8_tail :: "nat \<Rightarrow> nat \<Rightarrow> string \<Rightarrow> nat \<times> string" where
  "utf8_tail 0 uc acc = (uc, acc)"
| "utf8_tail (Suc k) uc acc = utf8_tail k (uc div 64) (char_of (and (or uc 0x80) 0xBF) # acc)"

definition utf8_encode :: "nat \<Rightarrow> nat \<times> string" where
  "utf8_encode uc =
     (let len = utf8_length uc; (uc', tail) = utf8_tail (len - 1) uc []
      in (uc', char_of (or uc' (firstByteMark ! len)) # tail))"

text \<open>
  The escape \<open>\\u\<close>, with \<open>p\<close> at the \<open>u\<close>: the bytes it writes, the pointer at the last character it
  consumed and the two numbers, which keep stale values.
\<close>

definition unicode_escape :: "string \<Rightarrow> nat \<Rightarrow> nat \<Rightarrow> (string \<times> string \<times> nat \<times> nat) option" where
  "unicode_escape p uc uc2 =
     (let uc = sscanf_4x (tl p) uc; p = drop 4 p in
      if (0xDC00 \<le> uc \<and> uc \<le> 0xDFFF) \<or> uc = 0 then Some ([], p, uc, uc2)
      else if 0xD800 \<le> uc \<and> uc \<le> 0xDBFF then
        (case peek (drop 1 p) of
           None \<Rightarrow> None
         | Some c \<Rightarrow>
             if c \<noteq> CHR 0x5C then Some ([], p, uc, uc2)
             else case peek (drop 2 p) of
                    None \<Rightarrow> None
                  | Some c \<Rightarrow>
                      if c \<noteq> CHR ''u'' then Some ([], p, uc, uc2)
                      else
                        let uc2 = sscanf_4x (drop 3 p) uc2; p = drop 6 p in
                        if uc2 < 0xDC00 \<or> uc2 > 0xDFFF then Some ([], p, uc, uc2)
                        else
                          let uc = or (or 0x10000 ((and uc 0x3FF) * 1024)) (and uc2 0x3FF)
                          in Some (snd (utf8_encode uc), p, fst (utf8_encode uc), uc2))
      else Some (snd (utf8_encode uc), p, fst (utf8_encode uc), uc2))"

definition simple_escape :: "char \<Rightarrow> char" where
  "simple_escape c =
     (if c = CHR ''b'' then CHR 0x08 else if c = CHR ''f'' then CHR 0x0C
      else if c = CHR ''n'' then CHR 0x0A else if c = CHR ''r'' then CHR 0x0D
      else if c = CHR ''t'' then CHR 0x09 else c)"

text \<open>The second loop writes into a buffer of \<open>cap\<close> bytes; \<open>out\<close> is what it has written.\<close>

function string_body :: "nat \<Rightarrow> string \<Rightarrow> string \<Rightarrow> nat \<Rightarrow> nat \<Rightarrow> (string \<times> string) option" where
  "string_body cap p out uc uc2 =
     (case p of
        [] \<Rightarrow> None
      | c # q \<Rightarrow>
          if c = CHR 0x22 \<or> c = NUL then (if length out < cap then Some (out, p) else None)
          else if c \<noteq> CHR 0x5C then
            if length out < cap then string_body cap q (out @ [c]) uc uc2 else None
          else case q of
                 [] \<Rightarrow> None
               | e # _ \<Rightarrow>
                   if e = CHR ''u'' then
                     (case unicode_escape q uc uc2 of
                        None \<Rightarrow> None
                      | Some (bytes, r, uc, uc2) \<Rightarrow>
                          if length out + length bytes \<le> cap \<and> length r < length p
                          then string_body cap (tl r) (out @ bytes) uc uc2 else None)
                   else if length out < cap then string_body cap (tl q) (out @ [simple_escape e]) uc uc2
                   else None)"
  by auto
termination by (relation "measure (\<lambda>(cap, p, out, uc, uc2). length p)") auto

text \<open>\<open>stale\<close> is what the uninitialised \<open>uc\<close> and \<open>uc2\<close> hold.\<close>

definition parse_string ::
  "alloc \<Rightarrow> nat \<times> nat \<Rightarrow> 'd cJSON \<Rightarrow> string \<Rightarrow> ('d cJSON \<times> string) pres option" where
  "parse_string ok stale item str =
     (case peek str of
        None \<Rightarrow> None
      | Some c \<Rightarrow>
          if c \<noteq> CHR 0x22 then Some (PFail (Some str))
          else Option.bind (string_length (tl str) 0) (\<lambda>len.
            if len + 1 \<ge> 2 ^ 31 then None
            else if \<not> ok (len + 1) then Some (PFail None)
            else Option.bind (string_body (len + 1) (tl str) [] (fst stale) (snd stale)) (\<lambda>(out, p).
              let p = (if peek p = Some (CHR 0x22) then tl p else p)
              in Some (POk (set_node_type cJSON_String (set_valuestring (Some out) item), p)))))"

subsection \<open>Values, arrays and objects\<close>

text \<open>Sequencing of parse steps: undefined behaviour and failures are passed on.\<close>

definition pthen :: "'a pres option \<Rightarrow> ('a \<Rightarrow> 'b pres option) \<Rightarrow> 'b pres option" where
  "pthen r k = (case r of None \<Rightarrow> None | Some (PFail ep) \<Rightarrow> Some (PFail ep) | Some (POk x) \<Rightarrow> k x)"

text \<open>\<open>skip\<close> of the result of a parse function.\<close>

definition pskip :: "('d cJSON \<times> string) pres option \<Rightarrow> ('d cJSON \<times> string) pres option" where
  "pskip r = pthen r (\<lambda>(item, p). map_option (\<lambda>p. POk (item, p)) (skip p))"

definition new_item :: "'d fpu \<Rightarrow> alloc \<Rightarrow> ('d cJSON \<Rightarrow> 'b pres option) \<Rightarrow> 'b pres option" where
  "new_item F ok k = (case cJSON_New_Item F ok of None \<Rightarrow> Some (PFail None) | Some node \<Rightarrow> k node)"

text \<open>
  The parse functions call each other: \<open>pv\<close> is \<open>parse_value\<close> at the next level of nesting.  The number
  bounds the iterations of the loops over \<open>,\<close> and the depth of nesting; running out of it is \<open>None\<close>.
  Every iteration and every level consumes a character, so that \<open>cJSON_Parse\<close>, which gives one unit
  per character, never runs out.
\<close>

type_synonym 'd parser_fun = "'d cJSON \<Rightarrow> string \<Rightarrow> ('d cJSON \<times> string) pres option"

definition parse_item :: "'d fpu \<Rightarrow> alloc \<Rightarrow> 'd parser_fun \<Rightarrow> string \<Rightarrow> ('d cJSON \<times> string) pres option" where
  "parse_item F ok pv value =
     new_item F ok (\<lambda>node. case skip value of None \<Rightarrow> None | Some value \<Rightarrow> pskip (pv node value))"

text \<open>
  \<open>parse_array\<close> and \<open>parse_object\<close> have the same shape, with \<open>pv\<close> reading an element or a member: the
  opening bracket, the first item, and the loop over the further ones up to the closing bracket.
\<close>

primrec parse_rest :: "'d fpu \<Rightarrow> alloc \<Rightarrow> 'd parser_fun \<Rightarrow> char \<Rightarrow> nat \<Rightarrow> 'd cJSON \<Rightarrow> 'd cJSON list \<Rightarrow> string
    \<Rightarrow> ('d cJSON \<times> string) pres option" where
  "parse_rest F ok pv close 0 item cs value = None"
| "parse_rest F ok pv close (Suc n) item cs value =
     (if peek value = Some (CHR '','') then
        pthen (parse_item F ok pv (tl value)) (\<lambda>(node, value). parse_rest F ok pv close n item (cs @ [node]) value)
      else if peek value = Some close then Some (POk (set_child cs item, tl value))
      else Some (PFail (Some value)))"

definition parse_list :: "'d fpu \<Rightarrow> alloc \<Rightarrow> 'd parser_fun \<Rightarrow> json_type \<Rightarrow> char \<Rightarrow> char \<Rightarrow> nat \<Rightarrow> 'd parser_fun" where
  "parse_list F ok pv ty open close n item value =
     (if peek value \<noteq> Some open then Some (PFail (Some value))
      else
        let item = set_node_type ty item in
        case skip (tl value) of
          None \<Rightarrow> None
        | Some value \<Rightarrow>
            if peek value = Some close then Some (POk (item, tl value))
            else pthen (parse_item F ok pv value) (\<lambda>(node, value). parse_rest F ok pv close n item [node] value))"

definition parse_array :: "'d fpu \<Rightarrow> alloc \<Rightarrow> 'd parser_fun \<Rightarrow> nat \<Rightarrow> 'd parser_fun" where
  "parse_array F ok pv = parse_list F ok pv cJSON_Array (CHR ''['') (CHR '']'')"

text \<open>The name and the value of one member.\<close>

definition parse_member :: "alloc \<Rightarrow> nat \<times> nat \<Rightarrow> 'd parser_fun \<Rightarrow> 'd parser_fun" where
  "parse_member ok st pv node value =
     pthen (pskip (parse_string ok st node value)) (\<lambda>(node, value).
       let node = set_valuestring None (set_node_string (valuestring node) node) in
       if peek value \<noteq> Some (CHR '':'') then Some (PFail (Some value))
       else case skip (tl value) of None \<Rightarrow> None | Some value \<Rightarrow> pv node value)"

definition parse_object :: "'d fpu \<Rightarrow> alloc \<Rightarrow> nat \<times> nat \<Rightarrow> 'd parser_fun \<Rightarrow> nat \<Rightarrow> 'd parser_fun" where
  "parse_object F ok st pv = parse_list F ok (parse_member ok st pv) cJSON_Object (CHR ''{'') (CHR ''}'')"

primrec parse_value :: "'d fpu \<Rightarrow> alloc \<Rightarrow> nat \<times> nat \<Rightarrow> nat \<Rightarrow> 'd parser_fun" where
  "parse_value F ok st 0 = (\<lambda>item value. None)"
| "parse_value F ok st (Suc n) = (\<lambda>item value.
     if take 4 value = ''null'' then Some (POk (set_node_type cJSON_NULL item, drop 4 value))
     else if take 5 value = ''false'' then Some (POk (set_node_type cJSON_False item, drop 5 value))
     else if take 4 value = ''true''
     then Some (POk (set_valueint 1 (set_node_type cJSON_True item), drop 4 value))
     else case peek value of
            None \<Rightarrow> None
          | Some c \<Rightarrow>
              if c = CHR 0x22 then parse_string ok st item value
              else if c = CHR ''-'' \<or> IS_NUM c then parse_number F item value
              else if c = CHR ''['' then parse_array F ok (parse_value F ok st n) n item value
              else if c = CHR ''{'' then parse_object F ok st (parse_value F ok st n) n item value
              else Some (PFail (Some value)))"

text \<open>The text is a C string: what is before its first \<open>NUL\<close>.\<close>

definition parse_fuel :: "string \<Rightarrow> nat" where
  "parse_fuel p = length p + 1"

definition cJSON_Parse :: "'d fpu \<Rightarrow> alloc \<Rightarrow> nat \<times> nat \<Rightarrow> string \<Rightarrow> 'd cJSON pres option" where
  "cJSON_Parse F ok st text =
     new_item F ok (\<lambda>c.
       case skip (text @ [NUL]) of
         None \<Rightarrow> None
       | Some value \<Rightarrow>
           pthen (parse_value F ok st (parse_fuel value) c value) (\<lambda>(c, rest). Some (POk c)))"

subsection \<open>Printing\<close>

text \<open>
  The printers return a fresh string, \<open>Some None\<close> if an allocation fails, and \<open>None\<close> if the text with
  its \<open>NUL\<close> does not fit the buffer that was allocated for it or the size, an \<open>int\<close>, overflows.
\<close>

definition into_buffer :: "alloc \<Rightarrow> nat \<Rightarrow> string \<Rightarrow> string option option" where
  "into_buffer ok cap text =
     (if cap \<ge> 2 ^ 31 then None
      else if \<not> ok cap then Some None else if length text + 1 \<le> cap then Some (Some text) else None)"

definition dec_char :: "nat \<Rightarrow> char" where
  "dec_char k = char_of (k + 48)"

fun dec_text :: "nat \<Rightarrow> string" where
  "dec_text n = (if n < 10 then [dec_char n] else dec_text (n div 10) @ [dec_char (n mod 10)])"

definition int_text :: "int \<Rightarrow> string" where
  "int_text i = (if i < 0 then ''-'' @ dec_text (nat (- i)) else dec_text (nat i))"

text \<open>
  \<open>INT_MAX\<close>, \<open>INT_MIN\<close> and \<open>UINT_MAX\<close> are converted to \<open>uint64\<close> in the comparisons; \<open>%d\<close> and \<open>%u\<close> take
  the low 32 bits of the argument.
\<close>

definition print_int :: "alloc \<Rightarrow> 'd cJSON \<Rightarrow> string option option" where
  "print_int ok item =
     (let v = valueint item in
      into_buffer ok 22
        (if sign item = -1 then
           if v \<le> 0x7FFFFFFF \<and> v \<ge> 0xFFFFFFFF80000000 then int_text (sint (ucast v :: u32))
           else int_text (sint v)
         else if v \<le> 0xFFFFFFFF then dec_text (unat (ucast v :: u32))
         else dec_text (unat v)))"

definition print_double :: "'d fpu \<Rightarrow> alloc \<Rightarrow> 'd cJSON \<Rightarrow> string option option" where
  "print_double F ok item = into_buffer ok 64 (d_text F (valuedouble item))"

definition escape_length :: "char \<Rightarrow> nat" where
  "escape_length c =
     (if c \<in> set [CHR 0x22, CHR 0x5C, CHR 0x08, CHR 0x0C, CHR 0x0A, CHR 0x0D, CHR 0x09] then 2
      else if code c < 32 then 6 else 1)"

definition hex_char :: "nat \<Rightarrow> char" where
  "hex_char k = (if k < 10 then char_of (k + 48) else char_of (k + 87))"

text \<open>One character; the default case prints \<open>u%04x\<close> of an \<open>unsigned char\<close>.\<close>

definition escape_char :: "char \<Rightarrow> string" where
  "escape_char c =
     (if code c > 31 \<and> c \<noteq> CHR 0x22 \<and> c \<noteq> CHR 0x5C then [c]
      else CHR 0x5C #
        (if c = CHR 0x5C then [CHR 0x5C] else if c = CHR 0x22 then [CHR 0x22]
         else if c = CHR 0x08 then ''b'' else if c = CHR 0x0C then ''f''
         else if c = CHR 0x0A then ''n'' else if c = CHR 0x0D then ''r''
         else if c = CHR 0x09 then ''t''
         else ''u00'' @ [hex_char (code c div 16), hex_char (code c mod 16)]))"

text \<open>A null string prints as the empty text, without quotes.\<close>

definition print_string_ptr :: "alloc \<Rightarrow> string option \<Rightarrow> string option option" where
  "print_string_ptr ok str =
     (case str of
        None \<Rightarrow> Some (cJSON_strdup ok [])
      | Some s \<Rightarrow>
          into_buffer ok (sum_list (map escape_length s) + 3)
            ([CHR 0x22] @ concat (map escape_char s) @ [CHR 0x22]))"

text \<open>The results of printing the elements of an array, up to the first that fails.\<close>

fun print_all :: "string option option list \<Rightarrow> string list option option" where
  "print_all [] = Some (Some [])"
| "print_all (r # rs) =
     (case r of
        None \<Rightarrow> None
      | Some None \<Rightarrow> Some None
      | Some (Some t) \<Rightarrow>
          (case print_all rs of None \<Rightarrow> None | Some None \<Rightarrow> Some None | Some (Some ts) \<Rightarrow> Some (Some (t # ts))))"

text \<open>The names and the values of all the members are printed, even if one fails.\<close>

definition print_each :: "string option option list \<Rightarrow> string list option option" where
  "print_each rs = (if None \<in> set rs then None else Some (those (map the rs)))"

fun join_array :: "bool \<Rightarrow> string list \<Rightarrow> string" where
  "join_array fmt [] = []"
| "join_array fmt [t] = t"
| "join_array fmt (t # ts) = t @ '','' @ (if fmt then '' '' else []) @ join_array fmt ts"

fun join_object :: "bool \<Rightarrow> nat \<Rightarrow> (string \<times> string) list \<Rightarrow> string" where
  "join_object fmt depth [] = []"
| "join_object fmt depth ((nm, t) # ts) =
     (if fmt then replicate depth (CHR 0x09) else []) @ nm @ '':'' @ (if fmt then [CHR 0x09] else []) @ t
     @ (if ts \<noteq> [] then '','' else []) @ (if fmt then [CHR 0x0A] else []) @ join_object fmt depth ts"

definition compose_array :: "alloc \<Rightarrow> bool \<Rightarrow> string list \<Rightarrow> string option option" where
  "compose_array ok fmt entries =
     into_buffer ok (5 + sum_list (map (\<lambda>t. length t + 2 + (if fmt then 1 else 0)) entries))
       (''['' @ join_array fmt entries @ '']'')"

definition compose_object :: "alloc \<Rightarrow> bool \<Rightarrow> nat \<Rightarrow> string list \<Rightarrow> string list \<Rightarrow> string option option" where
  "compose_object ok fmt depth names entries =
     into_buffer ok (7 + (if fmt then depth else 0)
         + sum_list (map (\<lambda>(nm, t). length t + length nm + 2 + (if fmt then 2 + depth else 0)) (zip names entries)))
       (''{'' @ (if fmt then [CHR 0x0A] else []) @ join_object fmt depth (zip names entries)
        @ (if fmt then replicate (depth - 1) (CHR 0x09) else []) @ ''}'')"

definition print_members :: "string list option option \<Rightarrow> string list option option
    \<Rightarrow> (string list \<Rightarrow> string list \<Rightarrow> string option option) \<Rightarrow> string option option" where
  "print_members ns es k =
     (case ns of
        None \<Rightarrow> None
      | Some ns \<Rightarrow>
          (case es of
             None \<Rightarrow> None
           | Some es \<Rightarrow>
               (case ns of
                  None \<Rightarrow> Some None
                | Some ns \<Rightarrow> (case es of None \<Rightarrow> Some None | Some es \<Rightarrow> k ns es))))"

definition res_bind :: "'a option option \<Rightarrow> ('a \<Rightarrow> 'b option option) \<Rightarrow> 'b option option" where
  "res_bind r k = (case r of None \<Rightarrow> None | Some None \<Rightarrow> Some None | Some (Some x) \<Rightarrow> k x)"

text \<open>
  \<open>print_array\<close> and \<open>print_object\<close> are the branches for these types: the entries are printed with their
  buffers first, then the arrays of pointers and the output are allocated.
\<close>

function (sequential) print_value :: "'d fpu \<Rightarrow> alloc \<Rightarrow> 'd cJSON \<Rightarrow> nat \<Rightarrow> bool \<Rightarrow> string option option" where
  "print_value F ok item depth fmt =
     (case node_type item of
        cJSON_NULL \<Rightarrow> Some (cJSON_strdup ok ''null'')
      | cJSON_False \<Rightarrow> Some (cJSON_strdup ok ''false'')
      | cJSON_True \<Rightarrow> Some (cJSON_strdup ok ''true'')
      | cJSON_Int \<Rightarrow> print_int ok item
      | cJSON_Double \<Rightarrow> print_double F ok item
      | cJSON_String \<Rightarrow> print_string_ptr ok (valuestring item)
      | cJSON_Array \<Rightarrow>
          if \<not> ok (length (child item) * 8) then Some None
          else res_bind (print_all (map (\<lambda>c. print_value F ok c (depth + 1) fmt) (child item)))
                 (compose_array ok fmt)
      | cJSON_Object \<Rightarrow>
          if \<not> ok (length (child item) * 8) then Some None
          else print_members (print_each (map (\<lambda>c. print_string_ptr ok (node_string c)) (child item)))
                 (print_each (map (\<lambda>c. print_value F ok c (depth + 1) fmt) (child item)))
                 (compose_object ok fmt (depth + 1)))"
  by pat_completeness auto
termination
proof (relation "measure (\<lambda>(F, ok, item, depth, fmt). size_cJSON (\<lambda>_. 0) item)", goal_cases)
  case 1
  show ?case by simp
next
  case (2 F ok item depth fmt c)
  then show ?case by (cases item) (auto dest: size_list_estimation' [where f = "size_cJSON (\<lambda>_. 0)", OF _ order_refl])
next
  case (3 F ok item depth fmt c)
  then show ?case by (cases item) (auto dest: size_list_estimation' [where f = "size_cJSON (\<lambda>_. 0)", OF _ order_refl])
qed

definition cJSON_Print :: "'d fpu \<Rightarrow> alloc \<Rightarrow> 'd cJSON \<Rightarrow> string option option" where
  "cJSON_Print F ok item = print_value F ok item 0 True"

definition cJSON_PrintUnformatted :: "'d fpu \<Rightarrow> alloc \<Rightarrow> 'd cJSON \<Rightarrow> string option option" where
  "cJSON_PrintUnformatted F ok item = print_value F ok item 0 False"

end
