(* ===== verification/CJsonHeap.thy ===== *)
theory CJsonHeap
  imports CJson "HOL-Library.Monad_Syntax"
begin

text \<open>
  The node lists of \<open>Util/src/util/json/cJSON.c\<close>: creating, linking, looking up, detaching, replacing and deleting nodes.

  Nodes are cells of a heap, linked by \<open>next\<close>, \<open>prev\<close> and \<open>child\<close> as in the code.  Address 0 is the null pointer, and an address
  is never given out twice, so that \<open>None\<close> is every use of a null or freed pointer, and a loop that does not end.  The loops of the code are
  \<open>partial_function\<close>s.  The predicate \<open>seg\<close> says that a part of a chain of cells holds a list of trees; the operations are
  shown to be the operations on lists.
\<close>

subsection \<open>Cells\<close>

type_synonym addr = nat

record 'd node =
  n_next :: addr
  n_prev :: addr
  n_child :: addr
  n_type :: json_type
  n_reference :: bool
  n_valuestring :: "string option"
  n_valueint :: u64
  n_valuedouble :: 'd
  n_sign :: int
  n_string :: "string option"

record 'd jheap =
  cells :: "addr \<Rightarrow> 'd node option"
  brk :: addr

definition hput :: "addr \<Rightarrow> ('d node \<Rightarrow> 'd node) \<Rightarrow> 'd jheap \<Rightarrow> 'd jheap option" where
  "hput p f H = (case cells H p of None \<Rightarrow> None | Some n \<Rightarrow> Some (H\<lparr>cells := (cells H)(p \<mapsto> f n)\<rparr>))"

definition hfree :: "addr \<Rightarrow> 'd jheap \<Rightarrow> 'd jheap option" where
  "hfree p H = (case cells H p of None \<Rightarrow> None | Some n \<Rightarrow> Some (H\<lparr>cells := (cells H)(p := None)\<rparr>))"

definition hnew :: "'d node \<Rightarrow> 'd jheap \<Rightarrow> addr \<times> 'd jheap" where
  "hnew n H = (brk H, H\<lparr>cells := (cells H)(brk H \<mapsto> n), brk := brk H + 1\<rparr>)"

text \<open>The cell of a tree, with its links.\<close>

definition mk_node :: "'d cJSON \<Rightarrow> addr \<Rightarrow> addr \<Rightarrow> addr \<Rightarrow> 'd node" where
  "mk_node t nx pv ch = \<lparr>n_next = nx, n_prev = pv, n_child = ch, n_type = node_type t, n_reference = is_reference t,
     n_valuestring = valuestring t, n_valueint = valueint t, n_valuedouble = valuedouble t, n_sign = sign t, n_string = node_string t\<rparr>"

definition heap_New_Item :: "'d fpu \<Rightarrow> alloc \<Rightarrow> 'd jheap \<Rightarrow> addr \<times> 'd jheap" where
  "heap_New_Item F ok H = (case cJSON_New_Item F ok of None \<Rightarrow> (0, H) | Some t \<Rightarrow> hnew (mk_node t 0 0 0) H)"

subsection \<open>Strings\<close>

definition tolower :: "char \<Rightarrow> nat" where
  "tolower c = (if 65 \<le> code c \<and> code c \<le> 90 then code c + 32 else code c)"

text \<open>The loop ends at the terminating NUL of the first string.\<close>

fun strcase_loop :: "string \<Rightarrow> string \<Rightarrow> int" where
  "strcase_loop [] [] = 0"
| "strcase_loop [] (b # bs) = - int (tolower b)"
| "strcase_loop (a # as) [] = int (tolower a)"
| "strcase_loop (a # as) (b # bs) = (if tolower a = tolower b then strcase_loop as bs else int (tolower a) - int (tolower b))"

definition cJSON_strcasecmp :: "string option \<Rightarrow> string \<Rightarrow> int" where
  "cJSON_strcasecmp s1 s2 = (case s1 of None \<Rightarrow> 1 | Some s1 \<Rightarrow> strcase_loop s1 s2)"

subsection \<open>Deleting\<close>

partial_function (option) cJSON_Delete :: "addr \<Rightarrow> 'd jheap \<Rightarrow> 'd jheap option" where
  "cJSON_Delete c H =
     (if c = 0 then Some H
      else do {
        n \<leftarrow> cells H c;
        H \<leftarrow> (if \<not> n_reference n \<and> n_child n \<noteq> 0 then cJSON_Delete (n_child n) H else Some H);
        H \<leftarrow> hfree c H;
        cJSON_Delete (n_next n) H })"

subsection \<open>Looking up\<close>

partial_function (option) size_loop :: "'d jheap \<Rightarrow> addr \<Rightarrow> int \<Rightarrow> int option" where
  "size_loop H c i = (if c = 0 then Some i else do { n \<leftarrow> cells H c; size_loop H (n_next n) (i + 1) })"

definition cJSON_GetArraySize :: "'d jheap \<Rightarrow> addr \<Rightarrow> int option" where
  "cJSON_GetArraySize H array = do { n \<leftarrow> cells H array; size_loop H (n_child n) 0 }"

partial_function (option) item_loop :: "'d jheap \<Rightarrow> addr \<Rightarrow> int \<Rightarrow> addr option" where
  "item_loop H c item = (if c \<noteq> 0 \<and> item > 0 then do { n \<leftarrow> cells H c; item_loop H (n_next n) (item - 1) } else Some c)"

definition cJSON_GetArrayItem :: "'d jheap \<Rightarrow> addr \<Rightarrow> int \<Rightarrow> addr option" where
  "cJSON_GetArrayItem H array item = do { n \<leftarrow> cells H array; item_loop H (n_child n) item }"

partial_function (option) key_loop :: "'d jheap \<Rightarrow> addr \<Rightarrow> string \<Rightarrow> int \<Rightarrow> (addr \<times> int) option" where
  "key_loop H c s i =
     (if c = 0 then Some (c, i)
      else do {
        n \<leftarrow> cells H c;
        if cJSON_strcasecmp (n_string n) s \<noteq> 0 then key_loop H (n_next n) s (i + 1) else Some (c, i) })"

definition cJSON_GetObjectItem :: "'d jheap \<Rightarrow> addr \<Rightarrow> string \<Rightarrow> addr option" where
  "cJSON_GetObjectItem H object s = do { n \<leftarrow> cells H object; (c, i) \<leftarrow> key_loop H (n_child n) s 0; Some c }"

subsection \<open>Linking\<close>

definition suffix_object :: "addr \<Rightarrow> addr \<Rightarrow> 'd jheap \<Rightarrow> 'd jheap option" where
  "suffix_object prev item H = do {
     H \<leftarrow> hput prev (\<lambda>n. n\<lparr>n_next := item\<rparr>) H;
     hput item (\<lambda>n. n\<lparr>n_prev := prev\<rparr>) H }"

partial_function (option) last_loop :: "'d jheap \<Rightarrow> addr \<Rightarrow> addr option" where
  "last_loop H c = (if c = 0 then Some c else do { n \<leftarrow> cells H c; if n_next n \<noteq> 0 then last_loop H (n_next n) else Some c })"

definition cJSON_AddItemToArray :: "addr \<Rightarrow> addr \<Rightarrow> 'd jheap \<Rightarrow> 'd jheap option" where
  "cJSON_AddItemToArray array item H = do {
     a \<leftarrow> cells H array;
     if item = 0 then Some H
     else if n_child a = 0 then hput array (\<lambda>n. n\<lparr>n_child := item\<rparr>) H
     else do { c \<leftarrow> last_loop H (n_child a); suffix_object c item H } }"

definition cJSON_AddItemToArrayHead :: "addr \<Rightarrow> addr \<Rightarrow> 'd jheap \<Rightarrow> 'd jheap option" where
  "cJSON_AddItemToArrayHead array item H = do {
     a \<leftarrow> cells H array;
     if item = 0 then Some H
     else if n_child a = 0 then hput array (\<lambda>n. n\<lparr>n_child := item\<rparr>) H
     else do {
       c \<leftarrow> cells H (n_child a);
       H \<leftarrow> hput item (\<lambda>n. n\<lparr>n_prev := n_prev c, n_next := n_child a\<rparr>) H;
       H \<leftarrow> hput (n_child a) (\<lambda>n. n\<lparr>n_prev := item\<rparr>) H;
       hput array (\<lambda>n. n\<lparr>n_child := item\<rparr>) H } }"

definition cJSON_AddItemToObject :: "alloc \<Rightarrow> addr \<Rightarrow> string \<Rightarrow> addr \<Rightarrow> 'd jheap \<Rightarrow> 'd jheap option" where
  "cJSON_AddItemToObject ok object s item H =
     (if item = 0 then Some H
      else do {
        H \<leftarrow> hput item (\<lambda>n. n\<lparr>n_string := cJSON_strdup ok s\<rparr>) H;
        cJSON_AddItemToArray object item H })"

text \<open>A write through a pointer that is tested for null first.\<close>

definition hput_if :: "addr \<Rightarrow> ('d node \<Rightarrow> 'd node) \<Rightarrow> 'd jheap \<Rightarrow> 'd jheap option" where
  "hput_if p f H = (if p \<noteq> 0 then hput p f H else Some H)"

definition cJSON_DetachItemFromArray :: "addr \<Rightarrow> int \<Rightarrow> 'd jheap \<Rightarrow> (addr \<times> 'd jheap) option" where
  "cJSON_DetachItemFromArray array which H = do {
     a \<leftarrow> cells H array;
     c \<leftarrow> item_loop H (n_child a) which;
     if c = 0 then Some (0, H)
     else do {
       n \<leftarrow> cells H c;
       H \<leftarrow> hput_if (n_prev n) (\<lambda>m. m\<lparr>n_next := n_next n\<rparr>) H;
       H \<leftarrow> hput_if (n_next n) (\<lambda>m. m\<lparr>n_prev := n_prev n\<rparr>) H;
       H \<leftarrow> (if c = n_child a then hput array (\<lambda>m. m\<lparr>n_child := n_next n\<rparr>) H else Some H);
       H \<leftarrow> hput c (\<lambda>m. m\<lparr>n_prev := 0, n_next := 0\<rparr>) H;
       Some (c, H) } }"

definition cJSON_DeleteItemFromArray :: "addr \<Rightarrow> int \<Rightarrow> 'd jheap \<Rightarrow> 'd jheap option" where
  "cJSON_DeleteItemFromArray array which H = do { (c, H) \<leftarrow> cJSON_DetachItemFromArray array which H; cJSON_Delete c H }"

definition cJSON_DetachItemFromObject :: "addr \<Rightarrow> string \<Rightarrow> 'd jheap \<Rightarrow> (addr \<times> 'd jheap) option" where
  "cJSON_DetachItemFromObject object s H = do {
     a \<leftarrow> cells H object;
     (c, i) \<leftarrow> key_loop H (n_child a) s 0;
     if c \<noteq> 0 then cJSON_DetachItemFromArray object i H else Some (0, H) }"

definition cJSON_DeleteItemFromObject :: "addr \<Rightarrow> string \<Rightarrow> 'd jheap \<Rightarrow> 'd jheap option" where
  "cJSON_DeleteItemFromObject object s H = do { (c, H) \<leftarrow> cJSON_DetachItemFromObject object s H; cJSON_Delete c H }"

definition cJSON_ReplaceItemInArray :: "addr \<Rightarrow> int \<Rightarrow> addr \<Rightarrow> 'd jheap \<Rightarrow> 'd jheap option" where
  "cJSON_ReplaceItemInArray array which newitem H = do {
     a \<leftarrow> cells H array;
     c \<leftarrow> item_loop H (n_child a) which;
     if c = 0 then Some H
     else do {
       n \<leftarrow> cells H c;
       H \<leftarrow> hput newitem (\<lambda>m. m\<lparr>n_next := n_next n, n_prev := n_prev n\<rparr>) H;
       H \<leftarrow> hput_if (n_next n) (\<lambda>m. m\<lparr>n_prev := newitem\<rparr>) H;
       H \<leftarrow> (if c = n_child a then hput array (\<lambda>m. m\<lparr>n_child := newitem\<rparr>) H else hput (n_prev n) (\<lambda>m. m\<lparr>n_next := newitem\<rparr>) H);
       H \<leftarrow> hput c (\<lambda>m. m\<lparr>n_next := 0, n_prev := 0\<rparr>) H;
       cJSON_Delete c H } }"

definition cJSON_ReplaceItemInObject :: "alloc \<Rightarrow> addr \<Rightarrow> string \<Rightarrow> addr \<Rightarrow> 'd jheap \<Rightarrow> 'd jheap option" where
  "cJSON_ReplaceItemInObject ok object s newitem H = do {
     a \<leftarrow> cells H object;
     (c, i) \<leftarrow> key_loop H (n_child a) s 0;
     if c \<noteq> 0 then do {
       H \<leftarrow> hput newitem (\<lambda>m. m\<lparr>n_string := cJSON_strdup ok s\<rparr>) H;
       cJSON_ReplaceItemInArray object i newitem H }
     else Some H }"

subsection \<open>Creating\<close>

definition create_with :: "'d fpu \<Rightarrow> alloc \<Rightarrow> ('d node \<Rightarrow> 'd node) \<Rightarrow> 'd jheap \<Rightarrow> (addr \<times> 'd jheap) option" where
  "create_with F ok f H = (let (item, H) = heap_New_Item F ok H in
     if item \<noteq> 0 then do { H \<leftarrow> hput item f H; Some (item, H) } else Some (item, H))"

definition cJSON_CreateNull :: "'d fpu \<Rightarrow> alloc \<Rightarrow> 'd jheap \<Rightarrow> (addr \<times> 'd jheap) option" where
  "cJSON_CreateNull F ok = create_with F ok (\<lambda>n. n\<lparr>n_type := cJSON_NULL\<rparr>)"

definition cJSON_CreateTrue :: "'d fpu \<Rightarrow> alloc \<Rightarrow> 'd jheap \<Rightarrow> (addr \<times> 'd jheap) option" where
  "cJSON_CreateTrue F ok = create_with F ok (\<lambda>n. n\<lparr>n_type := cJSON_True\<rparr>)"

definition cJSON_CreateFalse :: "'d fpu \<Rightarrow> alloc \<Rightarrow> 'd jheap \<Rightarrow> (addr \<times> 'd jheap) option" where
  "cJSON_CreateFalse F ok = create_with F ok (\<lambda>n. n\<lparr>n_type := cJSON_False\<rparr>)"

definition cJSON_CreateBool :: "'d fpu \<Rightarrow> alloc \<Rightarrow> bool \<Rightarrow> 'd jheap \<Rightarrow> (addr \<times> 'd jheap) option" where
  "cJSON_CreateBool F ok b = create_with F ok (\<lambda>n. n\<lparr>n_type := (if b then cJSON_True else cJSON_False)\<rparr>)"

definition cJSON_CreateDouble :: "'d fpu \<Rightarrow> alloc \<Rightarrow> 'd \<Rightarrow> int \<Rightarrow> 'd jheap \<Rightarrow> (addr \<times> 'd jheap) option" where
  "cJSON_CreateDouble F ok num sg = create_with F ok
     (\<lambda>n. n\<lparr>n_type := cJSON_Double, n_valuedouble := num, n_valueint := u64_of_d F num, n_sign := sg\<rparr>)"

definition cJSON_CreateInt :: "'d fpu \<Rightarrow> alloc \<Rightarrow> u64 \<Rightarrow> int \<Rightarrow> 'd jheap \<Rightarrow> (addr \<times> 'd jheap) option" where
  "cJSON_CreateInt F ok num sg = create_with F ok
     (\<lambda>n. n\<lparr>n_type := cJSON_Int, n_valuedouble := d_of_u64 F num, n_valueint := num, n_sign := sg\<rparr>)"

definition cJSON_CreateString :: "'d fpu \<Rightarrow> alloc \<Rightarrow> string \<Rightarrow> 'd jheap \<Rightarrow> (addr \<times> 'd jheap) option" where
  "cJSON_CreateString F ok s = create_with F ok (\<lambda>n. n\<lparr>n_type := cJSON_String, n_valuestring := cJSON_strdup ok s\<rparr>)"

definition cJSON_CreateArray :: "'d fpu \<Rightarrow> alloc \<Rightarrow> 'd jheap \<Rightarrow> (addr \<times> 'd jheap) option" where
  "cJSON_CreateArray F ok = create_with F ok (\<lambda>n. n\<lparr>n_type := cJSON_Array\<rparr>)"

definition cJSON_CreateObject :: "'d fpu \<Rightarrow> alloc \<Rightarrow> 'd jheap \<Rightarrow> (addr \<times> 'd jheap) option" where
  "cJSON_CreateObject F ok = create_with F ok (\<lambda>n. n\<lparr>n_type := cJSON_Object\<rparr>)"

text \<open>The tree at an address, which the printers read, and the cells that the parser allocates for a tree.\<close>

partial_function (option) read_list :: "'d jheap \<Rightarrow> addr \<Rightarrow> 'd cJSON list option" where
  "read_list H c =
     (if c = 0 then Some []
      else do {
        n \<leftarrow> cells H c;
        cs \<leftarrow> read_list H (n_child n);
        ts \<leftarrow> read_list H (n_next n);
        Some (CJSON (n_type n) (n_reference n) cs (n_valuestring n) (n_valueint n) (n_valuedouble n) (n_sign n) (n_string n) # ts) })"

definition read_tree :: "'d jheap \<Rightarrow> addr \<Rightarrow> 'd cJSON option" where
  "read_tree H p = do {
     n \<leftarrow> cells H p;
     cs \<leftarrow> read_list H (n_child n);
     Some (CJSON (n_type n) (n_reference n) cs (n_valuestring n) (n_valueint n) (n_valuedouble n) (n_sign n) (n_string n)) }"

fun build :: "'d cJSON list \<Rightarrow> addr \<Rightarrow> 'd jheap \<Rightarrow> addr \<times> 'd jheap" where
  "build [] pv H = (0, H)"
| "build (CJSON ty r cs s i d sg nm # ts) pv H =
     (let p = brk H;
          (ch, H) = build cs 0 (H\<lparr>brk := p + 1\<rparr>);
          (nx, H) = build ts p H
      in (p, H\<lparr>cells := (cells H)(p \<mapsto> mk_node (CJSON ty r cs s i d sg nm) nx pv ch)\<rparr>))"

fun seg :: "'d jheap \<Rightarrow> addr \<Rightarrow> addr \<Rightarrow> 'd cJSON list \<Rightarrow> addr \<Rightarrow> addr \<Rightarrow> addr set \<Rightarrow> bool" where
  "seg H c pv [] e l A \<longleftrightarrow> c = e \<and> l = pv \<and> A = {}"
| "seg H c pv (CJSON ty r cs s i d sg nm # ts) e l A \<longleftrightarrow> c \<noteq> 0
     \<and> (\<exists>nx ch lc A1 A2. cells H c = Some (mk_node (CJSON ty r cs s i d sg nm) nx pv ch) \<and> seg H ch 0 cs 0 lc A1 \<and> seg H nx c ts e l A2
          \<and> A = insert c (A1 \<union> A2) \<and> c \<notin> A1 \<union> A2 \<and> A1 \<inter> A2 = {})"

subsection \<open>Segments\<close>

lemma seg_Cons:
  "seg H c pv (t # ts) e l A \<longleftrightarrow> c \<noteq> 0
     \<and> (\<exists>nx ch lc A1 A2. cells H c = Some (mk_node t nx pv ch) \<and> seg H ch 0 (child t) 0 lc A1 \<and> seg H nx c ts e l A2
          \<and> A = insert c (A1 \<union> A2) \<and> c \<notin> A1 \<union> A2 \<and> A1 \<inter> A2 = {})"
  by (cases t) simp

declare seg.simps(2) [simp del]

lemma forest_induct [case_names Nil Cons]:
  assumes "P []" "\<And>t ts. P (child t) \<Longrightarrow> P ts \<Longrightarrow> P (t # ts)"
  shows "P ts"
proof (induction ts rule: measure_induct_rule [where f = "size_list (size_cJSON (\<lambda>_. 0))"])
  case (less ts)
  show ?case
  proof (cases ts)
    case Nil
    then show ?thesis using assms(1) by simp
  next
    case (Cons t us)
    have "P (child t)" by (rule less) (cases t; simp add: Cons)
    moreover have "P us" by (rule less) (cases t; simp add: Cons)
    ultimately show ?thesis using assms(2) Cons by simp
  qed
qed

lemma mk_node_simps [simp]:
  "n_next (mk_node t nx pv ch) = nx" "n_prev (mk_node t nx pv ch) = pv" "n_child (mk_node t nx pv ch) = ch"
  "n_type (mk_node t nx pv ch) = node_type t" "n_reference (mk_node t nx pv ch) = is_reference t" "n_string (mk_node t nx pv ch) = node_string t"
  "n_valuestring (mk_node t nx pv ch) = valuestring t" "n_valueint (mk_node t nx pv ch) = valueint t"
  "n_valuedouble (mk_node t nx pv ch) = valuedouble t" "n_sign (mk_node t nx pv ch) = sign t"
  "mk_node t nx pv ch\<lparr>n_next := nx'\<rparr> = mk_node t nx' pv ch" "mk_node t nx pv ch\<lparr>n_prev := pv'\<rparr> = mk_node t nx pv' ch"
  "mk_node t nx pv ch\<lparr>n_child := ch'\<rparr> = mk_node t nx pv ch'" "mk_node t nx pv ch\<lparr>n_string := s\<rparr> = mk_node (set_node_string s t) nx pv ch"
  "mk_node (set_child cs t) nx pv ch = mk_node t nx pv ch"
  by (cases t; simp add: mk_node_def)+

lemma seg_frame:
  assumes "seg H c pv ts e l A" "\<And>p. p \<in> A \<Longrightarrow> cells H' p = cells H p"
  shows "seg H' c pv ts e l A"
  using assms
proof (induction ts arbitrary: c pv e l A rule: forest_induct)
  case (Cons t ts)
  then obtain nx ch lc A1 A2 where n: "c \<noteq> 0" "cells H c = Some (mk_node t nx pv ch)" "seg H ch 0 (child t) 0 lc A1" "seg H nx c ts e l A2"
    "A = insert c (A1 \<union> A2)" "c \<notin> A1 \<union> A2" "A1 \<inter> A2 = {}" by (auto simp: seg_Cons)
  have "seg H' ch 0 (child t) 0 lc A1" "seg H' nx c ts e l A2" using Cons n by auto
  then show ?case using n Cons.prems(2) by (fastforce simp: seg_Cons)
qed simp

lemma seg_dom: "seg H c pv ts e l A \<Longrightarrow> p \<in> A \<Longrightarrow> p \<noteq> 0 \<and> cells H p \<noteq> None"
proof (induction ts arbitrary: c pv e l A rule: forest_induct)
  case (Cons t ts)
  then obtain nx ch lc A1 A2 where n: "c \<noteq> 0" "cells H c = Some (mk_node t nx pv ch)" "seg H ch 0 (child t) 0 lc A1" "seg H nx c ts e l A2"
    "A = insert c (A1 \<union> A2)" by (auto simp: seg_Cons)
  then show ?case using Cons.IH(1) [OF n(3)] Cons.IH(2) [OF n(4)] Cons.prems(2) by auto
qed simp

lemma seg_head: "seg H c pv ts e l A \<Longrightarrow> ts \<noteq> [] \<Longrightarrow> c \<in> A \<and> c \<noteq> 0"
  by (cases ts) (auto simp: seg_Cons)

lemma seg_end: "seg H c pv ts e l A \<Longrightarrow> ts \<noteq> [] \<Longrightarrow> l \<in> A"
proof (induction ts arbitrary: c pv A)
  case (Cons t ts)
  then obtain nx A2 where "seg H nx c ts e l A2" "A2 \<subseteq> A" "c \<in> A" by (auto simp: seg_Cons)
  then show ?case using Cons.IH by (cases "ts = []") auto
qed simp

lemma seg_append:
  "seg H c pv (xs @ ys) e l A \<longleftrightarrow> (\<exists>m k A1 A2. seg H c pv xs m k A1 \<and> seg H m k ys e l A2 \<and> A = A1 \<union> A2 \<and> A1 \<inter> A2 = {})"
proof (induction xs arbitrary: c pv A)
  case (Cons t xs)
  show ?case
  proof
    assume "seg H c pv ((t # xs) @ ys) e l A"
    then obtain nx ch lc A1 A2 where n: "c \<noteq> 0" "cells H c = Some (mk_node t nx pv ch)" "seg H ch 0 (child t) 0 lc A1" "seg H nx c (xs @ ys) e l A2"
      "A = insert c (A1 \<union> A2)" "c \<notin> A1 \<union> A2" "A1 \<inter> A2 = {}" by (auto simp: seg_Cons)
    from n(4) obtain m k B1 B2 where b: "seg H nx c xs m k B1" "seg H m k ys e l B2" "A2 = B1 \<union> B2" "B1 \<inter> B2 = {}" unfolding Cons.IH by blast
    have "seg H c pv (t # xs) m k (insert c (A1 \<union> B1))" unfolding seg_Cons
      by (intro conjI exI [of _ nx] exI [of _ ch] exI [of _ lc] exI [of _ A1] exI [of _ B1]) (use n b in auto)
    then show "\<exists>m k A1 A2. seg H c pv (t # xs) m k A1 \<and> seg H m k ys e l A2 \<and> A = A1 \<union> A2 \<and> A1 \<inter> A2 = {}"
      by (intro exI [of _ m] exI [of _ k] exI [of _ "insert c (A1 \<union> B1)"] exI [of _ B2]) (use n b in auto)
  next
    assume "\<exists>m k A1 A2. seg H c pv (t # xs) m k A1 \<and> seg H m k ys e l A2 \<and> A = A1 \<union> A2 \<and> A1 \<inter> A2 = {}"
    then obtain m k B1 B2 where b: "seg H c pv (t # xs) m k B1" "seg H m k ys e l B2" "A = B1 \<union> B2" "B1 \<inter> B2 = {}" by blast
    from b(1) obtain nx ch lc A1 A2 where n: "c \<noteq> 0" "cells H c = Some (mk_node t nx pv ch)" "seg H ch 0 (child t) 0 lc A1" "seg H nx c xs m k A2"
      "B1 = insert c (A1 \<union> A2)" "c \<notin> A1 \<union> A2" "A1 \<inter> A2 = {}" unfolding seg_Cons by blast
    have "A2 \<inter> B2 = {}" using n(5) b(4) by blast
    then have s: "seg H nx c (xs @ ys) e l (A2 \<union> B2)" using n(4) b(2) unfolding Cons.IH by blast
    have "A = insert c (A1 \<union> (A2 \<union> B2))" "c \<notin> A1 \<union> (A2 \<union> B2)" "A1 \<inter> (A2 \<union> B2) = {}" using n(5-7) b(3,4) by auto
    then show "seg H c pv ((t # xs) @ ys) e l A" unfolding append_Cons seg_Cons using n(1-3) s by blast
  qed
qed auto

subsection \<open>The loops on a segment\<close>

lemma read_list_seg: "seg H c pv ts 0 l A \<Longrightarrow> read_list H c = Some ts"
proof (induction ts arbitrary: c pv l A rule: forest_induct)
  case Nil
  then show ?case by (simp add: read_list.simps [of H 0])
next
  case (Cons t ts)
  then obtain nx ch lc A1 A2 where n: "c \<noteq> 0" "cells H c = Some (mk_node t nx pv ch)" "seg H ch 0 (child t) 0 lc A1" "seg H nx c ts 0 l A2"
    by (auto simp: seg_Cons)
  then show ?case using Cons.IH(1) [OF n(3)] Cons.IH(2) [OF n(4)] by (simp add: read_list.simps [of H c])
qed

lemma size_loop_seg: "seg H c pv ts 0 l A \<Longrightarrow> size_loop H c i = Some (i + int (length ts))"
proof (induction ts arbitrary: c pv A i)
  case Nil
  then show ?case by (simp add: size_loop.simps [of H 0])
next
  case (Cons t ts)
  then obtain nx ch A2 where n: "c \<noteq> 0" "cells H c = Some (mk_node t nx pv ch)" "seg H nx c ts 0 l A2" by (auto simp: seg_Cons)
  then show ?case using Cons.IH [OF n(3)] by (simp add: size_loop.simps [of H c] algebra_simps)
qed

lemma item_loop_seg: "seg H c pv xs m k A \<Longrightarrow> item_loop H c (int (length xs)) = Some m"
proof (induction xs arbitrary: c pv A)
  case Nil
  then show ?case by (simp add: item_loop.simps [of H m])
next
  case (Cons t ts)
  then obtain nx ch A2 where n: "c \<noteq> 0" "cells H c = Some (mk_node t nx pv ch)" "seg H nx c ts m k A2" by (auto simp: seg_Cons)
  then show ?case using Cons.IH [OF n(3)] by (simp add: item_loop.simps [of H c])
qed

lemma item_loop_first: "i \<le> 0 \<Longrightarrow> item_loop H c i = Some c"
  by (simp add: item_loop.simps [of H c])

lemma item_loop_none: "seg H c pv ts 0 l A \<Longrightarrow> i \<ge> int (length ts) \<Longrightarrow> item_loop H c i = Some 0"
proof (induction ts arbitrary: c pv A i)
  case Nil
  then show ?case by (simp add: item_loop.simps [of H 0])
next
  case (Cons t ts)
  then obtain nx ch A2 where n: "c \<noteq> 0" "cells H c = Some (mk_node t nx pv ch)" "seg H nx c ts 0 l A2" by (auto simp: seg_Cons)
  then show ?case using Cons.IH [OF n(3), of "i - 1"] Cons.prems(2) by (simp add: item_loop.simps [of H c])
qed

abbreviation key_is :: "string \<Rightarrow> 'd cJSON \<Rightarrow> bool" where
  "key_is s t \<equiv> cJSON_strcasecmp (node_string t) s = 0"

lemma key_loop_seg:
  assumes "seg H c pv xs m k A" "\<And>t. t \<in> set xs \<Longrightarrow> \<not> key_is s t" "m = 0 \<or> (\<exists>n. cells H m = Some n \<and> cJSON_strcasecmp (n_string n) s = 0)"
  shows "key_loop H c s i = Some (m, i + int (length xs))"
  using assms
proof (induction xs arbitrary: c pv A i)
  case Nil
  then show ?case by (auto simp: key_loop.simps [of H m])
next
  case (Cons t ts)
  then obtain nx ch A2 where n: "c \<noteq> 0" "cells H c = Some (mk_node t nx pv ch)" "seg H nx c ts m k A2" by (auto simp: seg_Cons)
  then show ?case using Cons.IH [OF n(3) Cons.prems(2,3), of "i + 1"] Cons.prems(2) by (simp add: key_loop.simps [of H c])
qed

lemma last_loop_seg: "seg H c pv ts 0 l A \<Longrightarrow> ts \<noteq> [] \<Longrightarrow> last_loop H c = Some l"
proof (induction ts arbitrary: c pv A)
  case (Cons t ts)
  then obtain nx ch A2 where n: "c \<noteq> 0" "cells H c = Some (mk_node t nx pv ch)" "seg H nx c ts 0 l A2" by (auto simp: seg_Cons)
  show ?case
  proof (cases "ts = []")
    case True
    then show ?thesis using n by (simp add: last_loop.simps [of H c])
  next
    case False
    then show ?thesis using n Cons.IH [OF n(3) False] seg_head [OF n(3) False] by (simp add: last_loop.simps [of H c])
  qed
qed simp

subsection \<open>Changing the ends of a segment\<close>

abbreviation set_cell :: "'d jheap \<Rightarrow> addr \<Rightarrow> 'd node \<Rightarrow> 'd jheap" where
  "set_cell H p n \<equiv> H\<lparr>cells := (cells H)(p \<mapsto> n)\<rparr>"

lemma seg_set_other: "seg H c pv ts e l A \<Longrightarrow> p \<notin> A \<Longrightarrow> seg (set_cell H p n) c pv ts e l A"
  by (erule seg_frame) auto

lemma seg_set_prev:
  assumes "seg H c pv (t # ts) e l A"
  shows "\<exists>n. cells H c = Some n \<and> n_prev n = pv \<and> seg (set_cell H c (n\<lparr>n_prev := pv'\<rparr>)) c pv' (t # ts) e l A"
proof -
  from assms obtain nx ch lc A1 A2 where n: "c \<noteq> 0" "cells H c = Some (mk_node t nx pv ch)" "seg H ch 0 (child t) 0 lc A1" "seg H nx c ts e l A2"
    "A = insert c (A1 \<union> A2)" "c \<notin> A1 \<union> A2" "A1 \<inter> A2 = {}" unfolding seg_Cons by blast
  let ?H = "set_cell H c (mk_node t nx pv' ch)"
  have "seg ?H ch 0 (child t) 0 lc A1" "seg ?H nx c ts e l A2" using n seg_set_other by blast+
  moreover have "cells ?H c = Some (mk_node t nx pv' ch)" by simp
  ultimately have "seg ?H c pv' (t # ts) e l A" unfolding seg_Cons using n(1,5-7) by blast
  then show ?thesis using n(2) by simp
qed

lemma seg_set_next:
  assumes "seg H c pv ts e l A" "ts \<noteq> []"
  shows "\<exists>n. cells H l = Some n \<and> n_next n = e \<and> seg (set_cell H l (n\<lparr>n_next := e'\<rparr>)) c pv ts e' l A"
  using assms
proof (induction ts arbitrary: c pv A)
  case (Cons t ts)
  then obtain nx ch lc A1 A2 where n: "c \<noteq> 0" "cells H c = Some (mk_node t nx pv ch)" "seg H ch 0 (child t) 0 lc A1" "seg H nx c ts e l A2"
    "A = insert c (A1 \<union> A2)" "c \<notin> A1 \<union> A2" "A1 \<inter> A2 = {}" unfolding seg_Cons by blast
  show ?case
  proof (cases "ts = []")
    case True
    then have l: "l = c" "nx = e" "A2 = {}" using n(4) by auto
    let ?H = "set_cell H c (mk_node t e' pv ch)"
    have "seg ?H ch 0 (child t) 0 lc A1" using n seg_set_other by blast
    moreover have "cells ?H c = Some (mk_node t e' pv ch)" by simp
    moreover have "seg ?H e' c ts e' l A2" using True l by simp
    ultimately have "seg ?H c pv (t # ts) e' l A" unfolding seg_Cons using n(1,5-7) by blast
    then show ?thesis using n(2) l by (simp del: fun_upd_apply)
  next
    case False
    from Cons.IH [OF n(4) False] obtain m where m: "cells H l = Some m" "n_next m = e" "seg (set_cell H l (m\<lparr>n_next := e'\<rparr>)) nx c ts e' l A2" by blast
    have "l \<in> A2" using seg_end [OF n(4) False] .
    then have "l \<notin> A1" "l \<noteq> c" using n by blast+
    then have "seg (set_cell H l (m\<lparr>n_next := e'\<rparr>)) ch 0 (child t) 0 lc A1" "cells (set_cell H l (m\<lparr>n_next := e'\<rparr>)) c = Some (mk_node t nx pv ch)"
      using seg_set_other [OF n(3)] n(2) by simp_all
    then have "seg (set_cell H l (m\<lparr>n_next := e'\<rparr>)) c pv (t # ts) e' l A" unfolding seg_Cons using n(1,5-7) m(3) by blast
    then show ?thesis using m by blast
  qed
qed simp

subsection \<open>The operations on lists of trees\<close>

text \<open>A node with its tree, a node that is not linked to a list, and heaps that agree outside a set of addresses.\<close>

definition holds :: "'d jheap \<Rightarrow> addr \<Rightarrow> addr \<Rightarrow> addr \<Rightarrow> 'd cJSON \<Rightarrow> addr set \<Rightarrow> bool" where
  "holds H a nx pv t A \<longleftrightarrow> a \<noteq> 0 \<and> a \<notin> A \<and> (\<exists>ch l. cells H a = Some (mk_node t nx pv ch) \<and> seg H ch 0 (child t) 0 l A)"

definition loose :: "'d jheap \<Rightarrow> addr \<Rightarrow> 'd cJSON \<Rightarrow> addr set \<Rightarrow> bool" where
  "loose H p t B \<longleftrightarrow> seg H p 0 [t] 0 p B"

definition same_outside :: "addr set \<Rightarrow> 'd jheap \<Rightarrow> 'd jheap \<Rightarrow> bool" where
  "same_outside X H H' \<longleftrightarrow> (\<forall>q. q \<notin> X \<longrightarrow> cells H' q = cells H q) \<and> brk H' = brk H"

lemma hput_cell: "cells H p = Some n \<Longrightarrow> hput p f H = Some (set_cell H p (f n))"
  by (simp add: hput_def)

lemma hput_if_simps: "hput_if 0 f H = Some H" "p \<noteq> 0 \<Longrightarrow> hput_if p f H = hput p f H"
  by (simp_all add: hput_if_def)

lemma child_set_child [simp]: "child (set_child cs t) = cs" "child (set_node_string s t) = child t"
  by (cases t; simp)+

lemma loose_iff: "loose H p t B \<longleftrightarrow> p \<noteq> 0 \<and> (\<exists>ch lc A1. cells H p = Some (mk_node t 0 0 ch) \<and> seg H ch 0 (child t) 0 lc A1 \<and> B = insert p A1 \<and> p \<notin> A1)"
  by (auto simp: loose_def seg_Cons)

lemma holdsI: "a \<noteq> 0 \<Longrightarrow> a \<notin> A \<Longrightarrow> cells H a = Some (mk_node t nx pv ch) \<Longrightarrow> seg H ch 0 (child t) 0 l A \<Longrightarrow> holds H a nx pv t A"
  unfolding holds_def by blast

lemma looseI: "p \<noteq> 0 \<Longrightarrow> cells H p = Some (mk_node t 0 0 ch) \<Longrightarrow> seg H ch 0 (child t) 0 lc A1 \<Longrightarrow> p \<notin> A1 \<Longrightarrow> loose H p t (insert p A1)"
  unfolding loose_iff by blast

lemma loose_holds: "loose H p t B \<Longrightarrow> holds H p 0 0 t (B - {p})"
  by (auto simp: loose_iff intro: holdsI)

lemma holds_read: "holds H a nx pv t A \<Longrightarrow> read_tree H a = Some t"
  by (cases t) (auto simp: holds_def read_tree_def dest: read_list_seg)

lemma seg_join: "seg H c pv xs m k A1 \<Longrightarrow> seg H m k ys e l A2 \<Longrightarrow> A1 \<inter> A2 = {} \<Longrightarrow> seg H c pv (xs @ ys) e l (A1 \<union> A2)"
  unfolding seg_append by blast

lemma AddItemToArray_ok:
  assumes "holds H a nx pv t A" "loose H p x B" "A \<inter> B = {}" "a \<notin> B"
  shows "\<exists>H'. cJSON_AddItemToArray a p H = Some H' \<and> holds H' a nx pv (set_child (child t @ [x]) t) (A \<union> B) \<and> same_outside (insert a (A \<union> B)) H H'"
proof -
  obtain ch l where a: "a \<noteq> 0" "a \<notin> A" "cells H a = Some (mk_node t nx pv ch)" "seg H ch 0 (child t) 0 l A" using assms(1) unfolding holds_def by blast
  have p: "p \<noteq> 0" "p \<in> B" using assms(2) by (auto simp: loose_iff)
  show ?thesis
  proof (cases "child t = []")
    case True
    let ?H = "set_cell H a (mk_node t nx pv p)"
    have "ch = 0" "A = {}" using a(4) True by auto
    moreover have "seg ?H p 0 [x] 0 p B" using seg_set_other assms(2,4) unfolding loose_def by blast
    moreover have "cJSON_AddItemToArray a p H = Some ?H" using a p calculation(1) by (simp add: cJSON_AddItemToArray_def hput_cell)
    ultimately show ?thesis using True a(1,2) assms(4) by (intro exI [of _ ?H] conjI holdsI) (auto simp: same_outside_def)
  next
    case False
    from seg_set_next [OF a(4) False, of p] obtain n where n: "cells H l = Some n" "seg (set_cell H l (n\<lparr>n_next := p\<rparr>)) ch 0 (child t) p l A" by blast
    let ?H1 = "set_cell H l (n\<lparr>n_next := p\<rparr>)"
    have l: "l \<in> A" "last_loop H ch = Some l" using seg_end [OF a(4) False] last_loop_seg [OF a(4) False] by simp_all
    then have "l \<notin> B" using assms(3) by blast
    then have "seg ?H1 p 0 [x] 0 p B" using assms(2) seg_set_other unfolding loose_def by blast
    from seg_set_prev [OF this, of l] obtain m where m: "cells ?H1 p = Some m" "seg (set_cell ?H1 p (m\<lparr>n_prev := l\<rparr>)) p l [x] 0 p B" by blast
    let ?H2 = "set_cell ?H1 p (m\<lparr>n_prev := l\<rparr>)"
    have "p \<notin> A" using assms(3) p(2) by blast
    then have "seg ?H2 ch 0 (child t) p l A" by (rule seg_set_other [OF n(2)])
    from seg_join [OF this m(2) assms(3)] have s: "seg ?H2 ch 0 (child t @ [x]) 0 p (A \<union> B)" .
    have "l \<noteq> a" "p \<noteq> a" using l(1) a(2) p(2) assms(4) by blast+
    then have c: "cells ?H2 a = Some (mk_node t nx pv ch)" using a(3) by simp
    have "ch \<noteq> 0" using seg_head [OF a(4) False] by simp
    then have "cJSON_AddItemToArray a p H = Some ?H2"
      using a(3) p(1) l(2) n(1) m(1) by (simp add: cJSON_AddItemToArray_def suffix_object_def hput_cell del: fun_upd_apply)
    moreover have "holds ?H2 a nx pv (set_child (child t @ [x]) t) (A \<union> B)" using s c a(1,2) assms(4) by (intro holdsI) (simp_all del: fun_upd_apply)
    moreover have "same_outside (insert a (A \<union> B)) H ?H2" using l(1) p(2) by (auto simp: same_outside_def)
    ultimately show ?thesis by blast
  qed
qed

lemma AddItemToArrayHead_ok:
  assumes "holds H a nx pv t A" "loose H p x B" "A \<inter> B = {}" "a \<notin> B"
  shows "\<exists>H'. cJSON_AddItemToArrayHead a p H = Some H' \<and> holds H' a nx pv (set_child (x # child t) t) (A \<union> B) \<and> same_outside (insert a (A \<union> B)) H H'"
proof -
  obtain ch l where a: "a \<noteq> 0" "a \<notin> A" "cells H a = Some (mk_node t nx pv ch)" "seg H ch 0 (child t) 0 l A" using assms(1) unfolding holds_def by blast
  obtain chx lc A1 where p: "p \<noteq> 0" "cells H p = Some (mk_node x 0 0 chx)" "seg H chx 0 (child x) 0 lc A1" "B = insert p A1" "p \<notin> A1"
    using assms(2) unfolding loose_iff by blast
  show ?thesis
  proof (cases "child t")
    case Nil
    let ?H = "set_cell H a (mk_node t nx pv p)"
    have "ch = 0" "A = {}" using a(4) Nil by auto
    moreover have "seg ?H p 0 [x] 0 p B" using seg_set_other assms(2,4) unfolding loose_def by blast
    moreover have "cJSON_AddItemToArrayHead a p H = Some ?H" using a p calculation(1) by (simp add: cJSON_AddItemToArrayHead_def hput_cell)
    ultimately show ?thesis using Nil a(1,2) assms(4) by (intro exI [of _ ?H] conjI holdsI) (auto simp: same_outside_def)
  next
    case (Cons y ys)
    let ?H1 = "set_cell H p (mk_node x ch 0 chx)"
    have pA: "p \<notin> A" "p \<noteq> a" using assms(3,4) p(4) by blast+
    have s1: "seg ?H1 ch 0 (y # ys) 0 l A" using seg_set_other [OF a(4) pA(1)] Cons by simp
    have chA: "ch \<in> A" "ch \<noteq> 0" using seg_head [OF s1] by simp_all
    from seg_set_prev [OF s1, of p] obtain m where m: "cells ?H1 ch = Some m" "n_prev m = 0" "seg (set_cell ?H1 ch (m\<lparr>n_prev := p\<rparr>)) ch p (y # ys) 0 l A" by blast
    let ?H2 = "set_cell ?H1 ch (m\<lparr>n_prev := p\<rparr>)" let ?H3 = "set_cell ?H2 a (mk_node t nx pv p)"
    have chp: "ch \<noteq> p" "ch \<notin> A1" "ch \<noteq> a" using chA(1) pA(1) p(4) assms(3) a(2) by blast+
    have aA: "a \<notin> A1" using assms(4) p(4) by blast
    have "seg ?H3 chx 0 (child x) 0 lc A1" by (intro seg_set_other p(3,5) chp(2) aA)
    moreover have "seg ?H3 ch p (y # ys) 0 l A" by (intro seg_set_other m(3) a(2))
    moreover have "cells ?H3 p = Some (mk_node x ch 0 chx)" using chp pA by simp
    moreover have "p \<notin> A1 \<union> A" "A1 \<inter> A = {}" "A \<union> B = insert p (A1 \<union> A)" using p(4,5) pA assms(3) by blast+
    ultimately have s: "seg ?H3 p 0 (x # y # ys) 0 l (A \<union> B)" unfolding seg_Cons [of _ p] using p(1) by blast
    have hm: "cells H ch = Some m" using m(1) chp(1) by simp
    have "cJSON_AddItemToArrayHead a p H = Some ?H3"
      using a(3) p(1,2) chA(2) hm m(1,2) chp(1,3) pA(2) by (simp add: cJSON_AddItemToArrayHead_def hput_def)
    moreover have "holds ?H3 a nx pv (set_child (x # child t) t) (A \<union> B)" using s a(1,2) assms(4) Cons by (intro holdsI) simp_all
    moreover have "same_outside (insert a (A \<union> B)) H ?H3" using chA(1) p(4) by (auto simp: same_outside_def)
    ultimately show ?thesis by blast
  qed
qed

text \<open>The node at an index, between the segments before and after it.\<close>

lemma seg_split:
  assumes "seg H ch 0 (xs @ y # ys) 0 l A"
  obtains m k nx chy lc A1 B1 B2 where "seg H ch 0 xs m k A1" "m \<noteq> 0" "cells H m = Some (mk_node y nx k chy)" "seg H chy 0 (child y) 0 lc B1"
    "seg H nx m ys 0 l B2" "A = A1 \<union> insert m (B1 \<union> B2)" "A1 \<inter> insert m (B1 \<union> B2) = {}" "m \<notin> B1 \<union> B2" "B1 \<inter> B2 = {}"
proof -
  from assms obtain m k A1 A2 where 1: "seg H ch 0 xs m k A1" "seg H m k (y # ys) 0 l A2" "A = A1 \<union> A2" "A1 \<inter> A2 = {}" unfolding seg_append by blast
  from 1(2) obtain nx chy lc B1 B2 where 2: "m \<noteq> 0" "cells H m = Some (mk_node y nx k chy)" "seg H chy 0 (child y) 0 lc B1" "seg H nx m ys 0 l B2"
    "A2 = insert m (B1 \<union> B2)" "m \<notin> B1 \<union> B2" "B1 \<inter> B2 = {}" unfolding seg_Cons by blast
  show thesis using that [OF 1(1) 2(1,2,3,4) _ _ 2(6,7)] 1(3,4) 2(5) by blast
qed

text \<open>Linking what is before and what is after to another address.\<close>

lemma relink_next:
  assumes "seg H ch 0 xs m k A1"
  shows "\<exists>H1. (if xs = [] then Some H else hput k (\<lambda>n. n\<lparr>n_next := m'\<rparr>) H) = Some H1 \<and> seg H1 (if xs = [] then m' else ch) 0 xs m' k A1 \<and> same_outside A1 H H1"
proof (cases "xs = []")
  case False
  from seg_set_next [OF assms False, of m'] seg_end [OF assms False] show ?thesis using False by (auto simp: hput_cell same_outside_def)
qed (use assms in \<open>auto simp: same_outside_def\<close>)

lemma relink_prev:
  assumes "seg H nx m ys 0 l B2"
  shows "\<exists>H1. hput_if nx (\<lambda>n. n\<lparr>n_prev := m'\<rparr>) H = Some H1 \<and> (\<exists>l. seg H1 nx m' ys 0 l B2) \<and> same_outside B2 H H1"
proof (cases ys)
  case Nil
  then show ?thesis using assms by (auto simp: hput_if_def same_outside_def)
next
  case (Cons y zs)
  from seg_set_prev [OF assms [unfolded Cons], of m'] seg_head [OF assms] Cons show ?thesis by (auto simp: hput_if_def hput_cell same_outside_def)
qed

lemma seg_same: "seg H c pv ts e l A \<Longrightarrow> same_outside X H H' \<Longrightarrow> A \<inter> X = {} \<Longrightarrow> seg H' c pv ts e l A"
  by (erule seg_frame) (auto simp: same_outside_def)

lemma same_trans: "same_outside X H H1 \<Longrightarrow> same_outside Y H1 H2 \<Longrightarrow> same_outside (X \<union> Y) H H2"
  by (simp add: same_outside_def)

lemma same_mono: "same_outside X H H' \<Longrightarrow> X \<subseteq> Y \<Longrightarrow> same_outside Y H H'"
  by (auto simp: same_outside_def)

lemma same_set_cell: "same_outside {p} H (set_cell H p n)"
  by (simp add: same_outside_def)

lemma DetachItem_ok:
  assumes "holds H a nx pv t A" "child t = xs @ y # ys" "nat i = length xs"
  shows "\<exists>p H' A' B. cJSON_DetachItemFromArray a i H = Some (p, H') \<and> holds H' a nx pv (set_child (xs @ ys) t) A' \<and> loose H' p y B
    \<and> A = A' \<union> B \<and> A' \<inter> B = {} \<and> same_outside (insert a A) H H'"
proof -
  obtain ch l where a: "a \<noteq> 0" "a \<notin> A" "cells H a = Some (mk_node t nx pv ch)" "seg H ch 0 (xs @ y # ys) 0 l A"
    using assms(1,2) unfolding holds_def by auto
  from a(4) obtain m k nx' chy lc A1 B1 B2 where s: "seg H ch 0 xs m k A1" "m \<noteq> 0" "cells H m = Some (mk_node y nx' k chy)" "seg H chy 0 (child y) 0 lc B1"
    "seg H nx' m ys 0 l B2" and A: "A = A1 \<union> insert m (B1 \<union> B2)" "A1 \<inter> insert m (B1 \<union> B2) = {}" "m \<notin> B1 \<union> B2" "B1 \<inter> B2 = {}" by (rule seg_split)
  have find: "item_loop H ch i = Some m"
  proof (cases "i \<le> 0")
    case True
    then show ?thesis using assms(3) s(1) by (simp add: item_loop_first)
  next
    case False
    then have "i = int (length xs)" using assms(3) by linarith
    then show ?thesis using item_loop_seg [OF s(1)] by simp
  qed
  have first: "m = ch \<longleftrightarrow> xs = []" using s(1) seg_head [OF s(1)] A(2) by (cases "xs = []") auto
  have prv: "k \<noteq> 0 \<longleftrightarrow> xs \<noteq> []" using s(1) seg_end [OF s(1)] seg_dom [OF s(1)] by (cases "xs = []") auto
  from relink_next [OF s(1), of nx'] obtain H1 where H1: "(if xs = [] then Some H else hput k (\<lambda>n. n\<lparr>n_next := nx'\<rparr>) H) = Some H1"
    "seg H1 (if xs = [] then nx' else ch) 0 xs nx' k A1" "same_outside A1 H H1" by blast
  have "seg H1 nx' m ys 0 l B2" using seg_same [OF s(5) H1(3)] A by blast
  from relink_prev [OF this, of k] obtain H2 l' where H2: "hput_if nx' (\<lambda>n. n\<lparr>n_prev := k\<rparr>) H1 = Some H2" "seg H2 nx' k ys 0 l' B2" "same_outside B2 H1 H2" by blast
  let ?H3 = "if xs = [] then set_cell H2 a (mk_node t nx pv nx') else H2" let ?H4 = "set_cell ?H3 m (mk_node y 0 0 chy)"
  have am: "a \<noteq> m" "a \<notin> A1" "a \<notin> B1" "a \<notin> B2" using a(2) A(1) by blast+
  have c2: "cells H2 a = Some (mk_node t nx pv ch)" "cells H2 m = Some (mk_node y nx' k chy)"
    using H1(3) H2(3) a(3) s(3) am A(2,3) by (auto simp: same_outside_def)
  have o: "same_outside {a, m} H2 ?H4" by (auto simp: same_outside_def)
  have "seg ?H4 (if xs = [] then nx' else ch) 0 xs nx' k A1"
    by (rule seg_same [OF seg_same [OF H1(2) H2(3)] o]) (use A am in blast)+
  moreover have "seg ?H4 nx' k ys 0 l' B2" by (rule seg_same [OF H2(2) o]) (use A am in blast)
  ultimately have j: "seg ?H4 (if xs = [] then nx' else ch) 0 (xs @ ys) 0 l' (A1 \<union> B2)" by (rule seg_join) (use A in blast)
  have y: "seg ?H4 chy 0 (child y) 0 lc B1" by (rule seg_same [OF seg_same [OF seg_same [OF s(4) H1(3)] H2(3)] o]) (use A am in blast)+
  have "cells ?H4 a = Some (mk_node t nx pv (if xs = [] then nx' else ch))" using c2(1) am(1) by simp
  with j have h: "holds ?H4 a nx pv (set_child (xs @ ys) t) (A1 \<union> B2)" using a(1) am by (intro holdsI) (simp_all del: fun_upd_apply)
  have lo: "loose ?H4 m y (insert m B1)" using s(2) y A(3) by (intro looseI) (simp_all del: fun_upd_apply, simp)
  have d: "cJSON_DetachItemFromArray a i H = Some (m, ?H4)"
    using a(3) find s(2,3) first prv H1(1) H2(1) c2 am(1)
    by (cases "xs = []") (simp_all add: cJSON_DetachItemFromArray_def hput_if_simps hput_cell)
  have "same_outside (insert a A) H ?H4"
    by (rule same_mono [OF same_trans [OF same_trans [OF H1(3) H2(3)] o]]) (use A in auto)
  moreover have "A = (A1 \<union> B2) \<union> insert m B1" "(A1 \<union> B2) \<inter> insert m B1 = {}" using A by auto
  ultimately show ?thesis using d h lo by blast
qed

text \<open>Deleting frees exactly the cells of the chain; a tree that holds no references owns all of them.\<close>

fun owned :: "'d cJSON \<Rightarrow> bool" where
  "owned (CJSON ty r cs s i d sg nm) \<longleftrightarrow> \<not> r \<and> (\<forall>c \<in> set cs. owned c)"

lemma owned_simps: "owned t \<longleftrightarrow> \<not> is_reference t \<and> (\<forall>c \<in> set (child t). owned c)"
  by (cases t) simp

abbreviation without :: "'d jheap \<Rightarrow> addr set \<Rightarrow> 'd jheap" where
  "without H A \<equiv> H\<lparr>cells := (\<lambda>p. if p \<in> A then None else cells H p)\<rparr>"

lemma Delete_seg: "seg H c pv ts 0 l A \<Longrightarrow> (\<And>t. t \<in> set ts \<Longrightarrow> owned t) \<Longrightarrow> cJSON_Delete c H = Some (without H A)"
proof (induction ts arbitrary: H c pv l A rule: forest_induct)
  case Nil
  then show ?case by (simp add: cJSON_Delete.simps [of 0])
next
  case (Cons t ts)
  then obtain nx ch lc A1 A2 where n: "c \<noteq> 0" "cells H c = Some (mk_node t nx pv ch)" "seg H ch 0 (child t) 0 lc A1" "seg H nx c ts 0 l A2"
    "A = insert c (A1 \<union> A2)" "c \<notin> A1 \<union> A2" "A1 \<inter> A2 = {}" unfolding seg_Cons by blast
  have ow: "\<not> is_reference t" "\<And>x. x \<in> set (child t) \<Longrightarrow> owned x" using Cons.prems(2) [of t] owned_simps [of t] by auto
  let ?H1 = "without H A1" let ?H2 = "?H1\<lparr>cells := (cells ?H1)(c := None)\<rparr>"
  have "cJSON_Delete ch H = Some ?H1" by (rule Cons.IH(1) [OF n(3) ow(2)])
  moreover have "ch = 0 \<Longrightarrow> ?H1 = H"
    using n(3) seg_head [OF n(3)] by (cases "child t = []") (auto intro!: jheap.equality)
  moreover have "seg ?H2 nx c ts 0 l A2" by (rule seg_frame [OF n(4)]) (use n in auto)
  then have "cJSON_Delete nx ?H2 = Some (without ?H2 A2)" by (rule Cons.IH(2)) (simp add: Cons.prems(2))
  moreover have "without ?H2 A2 = without H A" using n(5) by (auto intro!: jheap.equality ext)
  ultimately show ?case using n(1,2,6) ow(1) by (cases "ch = 0") (simp_all add: cJSON_Delete.simps [of c] hfree_def)
qed

lemma same_without: "same_outside A H (without H A)"
  by (simp add: same_outside_def)

lemma DeleteItem_ok:
  assumes "holds H a nx pv t A" "child t = xs @ y # ys" "nat i = length xs" "owned y"
  shows "\<exists>H' A'. cJSON_DeleteItemFromArray a i H = Some H' \<and> holds H' a nx pv (set_child (xs @ ys) t) A' \<and> A' \<subseteq> A \<and> same_outside (insert a A) H H'
    \<and> (\<forall>q \<in> A - A'. cells H' q = None)"
proof -
  from DetachItem_ok [OF assms(1-3)] obtain p H' A' B where d: "cJSON_DetachItemFromArray a i H = Some (p, H')" "holds H' a nx pv (set_child (xs @ ys) t) A'"
    "loose H' p y B" "A = A' \<union> B" "A' \<inter> B = {}" "same_outside (insert a A) H H'" by blast
  have del: "cJSON_Delete p H' = Some (without H' B)" using Delete_seg [OF d(3) [unfolded loose_def]] assms(4) by simp
  have "a \<notin> A" using assms(1) by (simp add: holds_def)
  then have "holds (without H' B) a nx pv (set_child (xs @ ys) t) A'"
    using d(2,4,5) unfolding holds_def by (auto intro: seg_same [OF _ same_without])
  moreover have "same_outside (insert a A) H (without H' B)" by (rule same_mono [OF same_trans [OF d(6) same_without]]) (use d(4) in auto)
  moreover have "cJSON_DeleteItemFromArray a i H = Some (without H' B)" using d(1) del by (simp add: cJSON_DeleteItemFromArray_def)
  ultimately show ?thesis using d(4) by (intro exI [of _ "without H' B"] exI [of _ A']) auto
qed

lemma ReplaceItem_ok:
  assumes "holds H a nx pv t A" "child t = xs @ y # ys" "nat i = length xs" "owned y" "loose H p x B" "A \<inter> B = {}" "a \<notin> B"
  shows "\<exists>H' A'. cJSON_ReplaceItemInArray a i p H = Some H' \<and> holds H' a nx pv (set_child (xs @ x # ys) t) A' \<and> A' \<subseteq> A \<union> B
    \<and> same_outside (insert a (A \<union> B)) H H' \<and> (\<exists>c. item_loop H (n_child (the (cells H a))) i = Some c \<and> c \<in> A \<and> cells H' c = None)"
proof -
  obtain ch l where a: "a \<noteq> 0" "a \<notin> A" "cells H a = Some (mk_node t nx pv ch)" "seg H ch 0 (xs @ y # ys) 0 l A"
    using assms(1,2) unfolding holds_def by auto
  from a(4) obtain m k nx' chy lc A1 B1 B2 where s: "seg H ch 0 xs m k A1" "m \<noteq> 0" "cells H m = Some (mk_node y nx' k chy)" "seg H chy 0 (child y) 0 lc B1"
    "seg H nx' m ys 0 l B2" and A: "A = A1 \<union> insert m (B1 \<union> B2)" "A1 \<inter> insert m (B1 \<union> B2) = {}" "m \<notin> B1 \<union> B2" "B1 \<inter> B2 = {}" by (rule seg_split)
  obtain chx lx Bx where p: "p \<noteq> 0" "cells H p = Some (mk_node x 0 0 chx)" "seg H chx 0 (child x) 0 lx Bx" "B = insert p Bx" "p \<notin> Bx"
    using assms(5) unfolding loose_iff by blast
  have find: "item_loop H ch i = Some m"
  proof (cases "i \<le> 0")
    case True
    then show ?thesis using assms(3) s(1) by (simp add: item_loop_first)
  next
    case False
    then have "i = int (length xs)" using assms(3) by linarith
    then show ?thesis using item_loop_seg [OF s(1)] by simp
  qed
  have first: "m = ch \<longleftrightarrow> xs = []" using s(1) seg_head [OF s(1)] A(2) by (cases "xs = []") auto
  have dis: "p \<notin> A1" "p \<noteq> m" "p \<notin> B1" "p \<notin> B2" "p \<noteq> a" "a \<noteq> m" "a \<notin> A1" "a \<notin> B1" "a \<notin> B2" "a \<notin> Bx" "Bx \<inter> A1 = {}" "Bx \<inter> B1 = {}" "Bx \<inter> B2 = {}" "m \<notin> Bx"
    using assms(6,7) a(2) A(1) p(4) by auto
  let ?H1 = "set_cell H p (mk_node x nx' k chx)"
  have o1: "same_outside {p} H ?H1" by (rule same_set_cell)
  have "seg ?H1 nx' m ys 0 l B2" using seg_same [OF s(5) o1] dis(4) by blast
  from relink_prev [OF this, of p] obtain H2 l' where H2: "hput_if nx' (\<lambda>n. n\<lparr>n_prev := p\<rparr>) ?H1 = Some H2" "seg H2 nx' p ys 0 l' B2" "same_outside B2 ?H1 H2" by blast
  have "seg H2 ch 0 xs m k A1" by (rule seg_same [OF seg_same [OF s(1) o1] H2(3)]) (use A dis in blast)+
  from relink_next [OF this, of p] obtain H3' where H3': "(if xs = [] then Some H2 else hput k (\<lambda>n. n\<lparr>n_next := p\<rparr>) H2) = Some H3'"
    "seg H3' (if xs = [] then p else ch) 0 xs p k A1" "same_outside A1 H2 H3'" by blast
  let ?H3 = "if xs = [] then set_cell H3' a (mk_node t nx pv p) else H3'" let ?H4 = "set_cell ?H3 m (mk_node y 0 0 chy)" let ?H5 = "without ?H4 (insert m B1)"
  have far: "same_outside {p} H ?H1" "same_outside B2 ?H1 H2" "same_outside A1 H2 H3'" "same_outside {a, m} H3' ?H4" "same_outside (insert m B1) ?H4 ?H5"
    using o1 H2(3) H3'(3) by (auto simp: same_outside_def)
  have c3: "cells H3' a = Some (mk_node t nx pv ch)" "cells H3' m = Some (mk_node y nx' k chy)" "cells H3' p = Some (mk_node x nx' k chx)"
    using far(1-3) a(3) s(3) p(2) dis A(2,3) by (auto simp: same_outside_def)
  have x: "seg ?H5 chx 0 (child x) 0 lx Bx"
    by (rule seg_same [OF seg_same [OF seg_same [OF seg_same [OF seg_same [OF p(3) far(1)] far(2)] far(3)] far(4)] far(5)]) (use dis p(5) in blast)+
  have ys: "seg ?H5 nx' p ys 0 l' B2" by (rule seg_same [OF seg_same [OF seg_same [OF H2(2) far(3)] far(4)] far(5)]) (use dis A in blast)+
  have xs: "seg ?H5 (if xs = [] then p else ch) 0 xs p k A1" by (rule seg_same [OF seg_same [OF H3'(2) far(4)] far(5)]) (use dis A in blast)+
  have cp: "cells ?H5 p = Some (mk_node x nx' k chx)" "cells ?H5 a = Some (mk_node t nx pv (if xs = [] then p else ch))" using c3 dis by auto
  have "seg ?H5 p k (x # ys) 0 l' (insert p (Bx \<union> B2))" unfolding seg_Cons using x ys cp(1) p(1,5) dis by blast
  from seg_join [OF xs this] have j: "seg ?H5 (if xs = [] then p else ch) 0 (xs @ x # ys) 0 l' (A1 \<union> insert p (Bx \<union> B2))" using dis A by blast
  then have h: "holds ?H5 a nx pv (set_child (xs @ x # ys) t) (A1 \<union> insert p (Bx \<union> B2))" using a(1) dis cp(2) by (intro holdsI) (simp_all del: fun_upd_apply)
  have y: "seg ?H4 chy 0 (child y) 0 lc B1"
    by (rule seg_same [OF seg_same [OF seg_same [OF seg_same [OF s(4) far(1)] far(2)] far(3)] far(4)]) (use dis A in blast)+
  have "loose ?H4 m y (insert m B1)" using s(2) y A(3) by (intro looseI) (simp_all del: fun_upd_apply, simp)
  then have del: "cJSON_Delete m ?H4 = Some ?H5" using Delete_seg assms(4) unfolding loose_def by fastforce
  have "cJSON_ReplaceItemInArray a i p H = Some ?H5"
    using a(3) find s(2,3) first H2(1) H3'(1) c3 dis p(2) del
    by (cases "xs = []") (simp_all add: cJSON_ReplaceItemInArray_def hput_cell)
  moreover have "same_outside (insert a (A \<union> B)) H ?H5"
    by (rule same_mono [OF same_trans [OF same_trans [OF same_trans [OF same_trans [OF far(1) far(2)] far(3)] far(4)] far(5)]]) (use A p(4) in auto)
  moreover have "cells ?H5 m = None" by simp
  ultimately show ?thesis using h find a(3) A(1) p(4)
    by (intro exI [of _ ?H5] exI [of _ "A1 \<union> insert p (Bx \<union> B2)"]) auto
qed

subsection \<open>New nodes\<close>

definition heap_ok :: "'d jheap \<Rightarrow> bool" where
  "heap_ok H \<longleftrightarrow> 0 < brk H \<and> cells H 0 = None \<and> (\<forall>p \<ge> brk H. cells H p = None)"

lemma build_ok:
  assumes "heap_ok H"
  shows "\<exists>c H' l A. build ts pv H = (c, H') \<and> seg H' c pv ts 0 l A \<and> A \<subseteq> {brk H..<brk H'} \<and> brk H \<le> brk H' \<and> heap_ok H'
    \<and> (\<forall>p < brk H. cells H' p = cells H p)"
  using assms
proof (induction ts arbitrary: H pv rule: forest_induct)
  case Nil
  then show ?case by simp
next
  case (Cons t ts)
  let ?p = "brk H" let ?H0 = "H\<lparr>brk := ?p + 1\<rparr>"
  have "heap_ok ?H0" using Cons.prems by (simp add: heap_ok_def)
  from Cons.IH(1) [OF this, of 0] obtain ch H1 lc A1 where 1: "build (child t) 0 ?H0 = (ch, H1)" "seg H1 ch 0 (child t) 0 lc A1" "A1 \<subseteq> {?p + 1..<brk H1}"
    "?p + 1 \<le> brk H1" "heap_ok H1" "\<forall>p < ?p + 1. cells H1 p = cells H p" by auto
  from Cons.IH(2) [OF 1(5), of ?p] obtain nx H2 l A2 where 2: "build ts ?p H1 = (nx, H2)" "seg H2 nx ?p ts 0 l A2" "A2 \<subseteq> {brk H1..<brk H2}"
    "brk H1 \<le> brk H2" "heap_ok H2" "\<forall>p < brk H1. cells H2 p = cells H1 p" by auto
  let ?H = "set_cell H2 ?p (mk_node t nx pv ch)"
  have b: "build (t # ts) pv H = (?p, ?H)" using 1(1) 2(1) by (cases t) (simp add: Let_def)
  have A: "?p \<notin> A1 \<union> A2" "A1 \<inter> A2 = {}" using 1(3,4) 2(3) by (force, force)
  have "seg H2 ch 0 (child t) 0 lc A1" by (rule seg_frame [OF 1(2)]) (use 1(3) 2(6) in auto)
  then have "seg ?H ch 0 (child t) 0 lc A1" "seg ?H nx ?p ts 0 l A2" using 2(2) A(1) seg_set_other by blast+
  moreover have "cells ?H ?p = Some (mk_node t nx pv ch)" "?p \<noteq> 0" using Cons.prems by (simp_all add: heap_ok_def)
  ultimately have "seg ?H ?p pv (t # ts) 0 l (insert ?p (A1 \<union> A2))" unfolding seg_Cons using A by blast
  moreover have "insert ?p (A1 \<union> A2) \<subseteq> {?p..<brk ?H}" using 1(3,4) 2(3,4) by auto
  moreover have "heap_ok ?H" using 1(4) 2(4,5) Cons.prems by (auto simp: heap_ok_def)
  moreover have "\<forall>p < ?p. cells ?H p = cells H p" using 1(4,6) 2(6) by auto
  moreover have "brk H \<le> brk ?H" using 1(4) 2(4) by simp
  ultimately show ?case using b by blast
qed

lemma build_loose:
  assumes "heap_ok H"
  obtains p H' B where "build [t] 0 H = (p, H')" "loose H' p t B" "B \<subseteq> {brk H..<brk H'}" "brk H \<le> brk H'" "heap_ok H'"
    "\<And>q. q < brk H \<Longrightarrow> cells H' q = cells H q"
proof -
  from build_ok [OF assms, of "[t]" 0] obtain p H' l A where b: "build [t] 0 H = (p, H')" "seg H' p 0 [t] 0 l A" "A \<subseteq> {brk H..<brk H'}" "brk H \<le> brk H'" "heap_ok H'"
    "\<forall>q < brk H. cells H' q = cells H q" by blast
  have "l = p" using b(2) by (auto simp: seg_Cons)
  then show thesis using that [OF b(1) _ b(3-5)] b(2,6) by (simp add: loose_def)
qed

lemma heap_ok_same: "heap_ok H \<Longrightarrow> same_outside X H H' \<Longrightarrow> (\<forall>p \<in> X. p \<noteq> 0 \<and> p < brk H) \<Longrightarrow> heap_ok H'"
  unfolding heap_ok_def same_outside_def by (metis leD)

lemma cell_below: "heap_ok H \<Longrightarrow> cells H p \<noteq> None \<Longrightarrow> p < brk H"
  unfolding heap_ok_def by (meson not_le)

lemma holds_dom:
  assumes "holds H a nx pv t A" "heap_ok H" "p \<in> insert a A"
  shows "p \<noteq> 0 \<and> p < brk H"
proof -
  from assms(1) obtain ch l where "a \<noteq> 0" "cells H a \<noteq> None" "seg H ch 0 (child t) 0 l A" unfolding holds_def by auto
  then have "p \<noteq> 0 \<and> cells H p \<noteq> None" using seg_dom assms(3) by (metis insert_iff)
  then show ?thesis using cell_below [OF assms(2)] by blast
qed

lemma loose_dom: "loose H p t B \<Longrightarrow> heap_ok H \<Longrightarrow> q \<in> B \<Longrightarrow> q \<noteq> 0 \<and> q < brk H"
  unfolding loose_def using seg_dom cell_below by metis

lemma holds_frame: "holds H a nx pv t A \<Longrightarrow> (\<And>q. q \<in> insert a A \<Longrightarrow> cells H' q = cells H q) \<Longrightarrow> holds H' a nx pv t A"
  unfolding holds_def using seg_frame by (metis insert_iff)

subsection \<open>The children of a node as a list\<close>

datatype 'v list_op = Append 'v | Prepend 'v | Remove int | Change int 'v

text \<open>The operations on a list.  An index below 0 is the first element, as in the loops of the code.\<close>

fun list_step :: "'v list_op \<Rightarrow> 'v list \<Rightarrow> 'v list" where
  "list_step (Append v) xs = xs @ [v]"
| "list_step (Prepend v) xs = v # xs"
| "list_step (Remove i) xs = (if nat i < length xs then take (nat i) xs @ drop (nat i + 1) xs else xs)"
| "list_step (Change i v) xs = (if nat i < length xs then xs[nat i := v] else xs)"

fun op_values :: "'v list_op \<Rightarrow> 'v set" where
  "op_values (Append v) = {v}" | "op_values (Prepend v) = {v}" | "op_values (Remove i) = {}" | "op_values (Change i v) = {v}"

text \<open>What the users of the children of a node rely on: each operation succeeds and acts on the abstract list.\<close>

locale child_list =
  fixes inv :: "'h \<Rightarrow> 'v list \<Rightarrow> bool" and step :: "'v list_op \<Rightarrow> 'h \<Rightarrow> 'h option" and valid :: "'v \<Rightarrow> bool"
    and count :: "'h \<Rightarrow> int option" and item :: "'h \<Rightarrow> int \<Rightarrow> 'v option option"
  assumes step_ok: "inv h xs \<Longrightarrow> (\<forall>v \<in> op_values op. valid v) \<Longrightarrow> \<exists>h'. step op h = Some h' \<and> inv h' (list_step op xs)"
    and count_ok: "inv h xs \<Longrightarrow> count h = Some (int (length xs))"
    and item_ok: "inv h xs \<Longrightarrow> item h i = Some (if nat i < length xs then Some (xs ! nat i) else None)"
begin

lemma run_ok:
  assumes "inv h xs" "\<forall>op \<in> set ops. \<forall>v \<in> op_values op. valid v"
  shows "\<exists>h'. foldl (\<lambda>r op. Option.bind r (step op)) (Some h) ops = Some h' \<and> inv h' (fold list_step ops xs)"
  using assms
proof (induction ops arbitrary: h xs)
  case (Cons op ops)
  then obtain h1 where "step op h = Some h1" "inv h1 (list_step op xs)" using step_ok [of h xs op] by auto
  then show ?case using Cons.IH [of h1 "list_step op xs"] Cons.prems(2) by simp
qed simp

lemma run_queries:
  assumes "inv h xs" "\<forall>op \<in> set ops. \<forall>v \<in> op_values op. valid v"
  defines "ys \<equiv> fold list_step ops xs"
  shows "\<exists>h'. foldl (\<lambda>r op. Option.bind r (step op)) (Some h) ops = Some h' \<and> inv h' ys \<and> count h' = Some (int (length ys))
    \<and> (\<forall>i. item h' i = Some (if nat i < length ys then Some (ys ! nat i) else None))"
  using run_ok [OF assms(1,2)] count_ok item_ok unfolding ys_def by blast

end

text \<open>The operations on the node at \<open>a\<close>; a value is a new node with its tree.\<close>

fun child_step :: "addr \<Rightarrow> 'd cJSON list_op \<Rightarrow> 'd jheap \<Rightarrow> 'd jheap option" where
  "child_step a (Append v) H = (let (p, H) = build [v] 0 H in cJSON_AddItemToArray a p H)"
| "child_step a (Prepend v) H = (let (p, H) = build [v] 0 H in cJSON_AddItemToArrayHead a p H)"
| "child_step a (Remove i) H = cJSON_DeleteItemFromArray a i H"
| "child_step a (Change i v) H = (let (p, H) = build [v] 0 H in cJSON_ReplaceItemInArray a i p H)"

definition child_inv :: "addr \<Rightarrow> addr \<Rightarrow> addr \<Rightarrow> 'd cJSON \<Rightarrow> 'd jheap \<Rightarrow> 'd cJSON list \<Rightarrow> bool" where
  "child_inv a nx pv t H xs \<longleftrightarrow> heap_ok H \<and> (\<exists>A. holds H a nx pv (set_child xs t) A) \<and> (\<forall>x \<in> set xs. owned x)"

lemma set_child_twice [simp]: "set_child xs (set_child ys t) = set_child xs t"
  by (cases t) simp

lemma build_beside:
  assumes "heap_ok H" "holds H a nx pv t A"
  obtains p H' B where "build [v] 0 H = (p, H')" "loose H' p v B" "heap_ok H'" "holds H' a nx pv t A" "A \<inter> B = {}" "a \<notin> B"
    "\<And>q. q < brk H \<Longrightarrow> cells H' q = cells H q" "brk H \<le> brk H'"
proof -
  from build_loose [OF assms(1)] obtain p H' B where b: "build [v] 0 H = (p, H')" "loose H' p v B" "B \<subseteq> {brk H..<brk H'}" "brk H \<le> brk H'" "heap_ok H'"
    "\<And>q. q < brk H \<Longrightarrow> cells H' q = cells H q" by blast
  have below: "q \<in> insert a A \<Longrightarrow> q < brk H" for q using holds_dom [OF assms(2,1)] by blast
  have "holds H' a nx pv t A" by (rule holds_frame [OF assms(2)]) (use below b(6) in blast)
  moreover have "A \<inter> B = {}" "a \<notin> B" using below b(3) by (force, force)
  ultimately show thesis using that b by blast
qed

lemma child_item_none:
  assumes "holds H a nx pv t A" "\<not> nat i < length (child t)"
  shows "\<exists>n. cells H a = Some n \<and> item_loop H (n_child n) i = Some 0"
proof -
  from assms(1) obtain ch l where "cells H a = Some (mk_node t nx pv ch)" "seg H ch 0 (child t) 0 l A" unfolding holds_def by blast
  moreover have "item_loop H ch i = Some 0"
  proof (cases "int (length (child t)) \<le> i")
    case True
    then show ?thesis by (rule item_loop_none [OF calculation(2)])
  next
    case False
    then have "length (child t) = 0" "i \<le> 0" using assms(2) by linarith+
    then have "child t = []" "i \<le> 0" by simp_all
    then show ?thesis using calculation(2) by (simp add: item_loop_first)
  qed
  ultimately show ?thesis by simp
qed

lemma set_child_same: "set_child (child t) t = t"
  by (cases t) simp

lemma child_step_ok:
  assumes "child_inv a nx pv t H xs" "\<forall>v \<in> op_values op. owned v"
  shows "\<exists>H'. child_step a op H = Some H' \<and> child_inv a nx pv t H' (list_step op xs)"
proof -
  obtain A where ok: "heap_ok H" "holds H a nx pv (set_child xs t) A" "\<forall>x \<in> set xs. owned x" using assms(1) unfolding child_inv_def by blast
  have fin: "child_inv a nx pv t H2 ys"
    if "heap_ok H1" "holds H1 a nx pv (set_child xs t) A" "B = {} \<or> loose H1 p v B" "same_outside (insert a (A \<union> B)) H1 H2" "holds H2 a nx pv (set_child ys t) A'" "\<forall>x \<in> set ys. owned x"
    for H1 H2 ys B p v A'
  proof -
    have "heap_ok H2" by (rule heap_ok_same [OF that(1,4)]) (use holds_dom [OF that(2,1)] loose_dom [OF _ that(1)] that(3) in blast)
    then show ?thesis using that(5,6) unfolding child_inv_def by blast
  qed
  show ?thesis
  proof (cases op)
    case (Append v)
    from build_beside [OF ok(1,2)] obtain p H1 B where b: "build [v] 0 H = (p, H1)" "loose H1 p v B" "heap_ok H1" "holds H1 a nx pv (set_child xs t) A" "A \<inter> B = {}" "a \<notin> B" by metis
    from AddItemToArray_ok [OF b(4,2,5,6)] obtain H2 where h: "cJSON_AddItemToArray a p H1 = Some H2" "holds H2 a nx pv (set_child (xs @ [v]) t) (A \<union> B)"
      "same_outside (insert a (A \<union> B)) H1 H2" by auto
    have "child_inv a nx pv t H2 (xs @ [v])" by (rule fin [OF b(3,4) disjI2 [OF b(2)] h(3,2)]) (use ok(3) assms(2) Append in auto)
    then show ?thesis using Append b(1) h(1) by simp
  next
    case (Prepend v)
    from build_beside [OF ok(1,2)] obtain p H1 B where b: "build [v] 0 H = (p, H1)" "loose H1 p v B" "heap_ok H1" "holds H1 a nx pv (set_child xs t) A" "A \<inter> B = {}" "a \<notin> B" by metis
    from AddItemToArrayHead_ok [OF b(4,2,5,6)] obtain H2 where h: "cJSON_AddItemToArrayHead a p H1 = Some H2" "holds H2 a nx pv (set_child (v # xs) t) (A \<union> B)"
      "same_outside (insert a (A \<union> B)) H1 H2" by auto
    have "child_inv a nx pv t H2 (v # xs)" by (rule fin [OF b(3,4) disjI2 [OF b(2)] h(3,2)]) (use ok(3) assms(2) Prepend in auto)
    then show ?thesis using Prepend b(1) h(1) by simp
  next
    case (Remove i)
    show ?thesis
    proof (cases "nat i < length xs")
      case True
      have x: "child (set_child xs t) = take (nat i) xs @ xs ! nat i # drop (nat i + 1) xs" using id_take_nth_drop [OF True] by simp
      have "owned (xs ! nat i)" using ok(3) True by simp
      from DeleteItem_ok [OF ok(2) x _ this, of i] True obtain H2 A' where h: "cJSON_DeleteItemFromArray a i H = Some H2"
        "holds H2 a nx pv (set_child (take (nat i) xs @ drop (nat i + 1) xs) t) A'" "same_outside (insert a A) H H2" by auto
      have "child_inv a nx pv t H2 (take (nat i) xs @ drop (nat i + 1) xs)"
        by (rule fin [of H "{}" undefined undefined, OF ok(1,2) _ _ h(2)]) (use h(3) ok(3) in \<open>auto dest: in_set_takeD in_set_dropD\<close>)
      then show ?thesis using Remove h(1) True by simp
    next
      case False
      from child_item_none [OF ok(2), of i] False have "cJSON_DeleteItemFromArray a i H = Some H"
        by (auto simp: cJSON_DeleteItemFromArray_def cJSON_DetachItemFromArray_def cJSON_Delete.simps [of 0])
      then show ?thesis using Remove False assms(1) by simp
    qed
  next
    case (Change i v)
    from build_beside [OF ok(1,2)] obtain p H1 B where b: "build [v] 0 H = (p, H1)" "loose H1 p v B" "heap_ok H1" "holds H1 a nx pv (set_child xs t) A" "A \<inter> B = {}" "a \<notin> B" by metis
    show ?thesis
    proof (cases "nat i < length xs")
      case True
      have x: "child (set_child xs t) = take (nat i) xs @ xs ! nat i # drop (nat i + 1) xs" using id_take_nth_drop [OF True] by simp
      have "owned (xs ! nat i)" using ok(3) True by simp
      from ReplaceItem_ok [OF b(4) x _ this b(2,5,6), of i] True obtain H2 A' where h: "cJSON_ReplaceItemInArray a i p H1 = Some H2"
        "holds H2 a nx pv (set_child (take (nat i) xs @ v # drop (nat i + 1) xs) t) A'" "same_outside (insert a (A \<union> B)) H1 H2" by auto
      have "child_inv a nx pv t H2 (take (nat i) xs @ v # drop (nat i + 1) xs)"
        by (rule fin [OF b(3,4) disjI2 [OF b(2)] h(3,2)]) (use ok(3) assms(2) Change in \<open>auto dest: in_set_takeD in_set_dropD\<close>)
      then show ?thesis using Change b(1) h(1) True upd_conv_take_nth_drop [OF True, of v] by simp
    next
      case False
      from child_item_none [OF b(4), of i] False have "cJSON_ReplaceItemInArray a i p H1 = Some H1" by (auto simp: cJSON_ReplaceItemInArray_def)
      moreover have "child_inv a nx pv t H1 xs" using b(3,4) ok(3) unfolding child_inv_def by blast
      ultimately show ?thesis using Change b(1) False by simp
    qed
  qed
qed

text \<open>The tree of the child at an index, \<open>Some None\<close> if there is none.\<close>

definition child_item :: "addr \<Rightarrow> 'd jheap \<Rightarrow> int \<Rightarrow> 'd cJSON option option" where
  "child_item a H i = do { c \<leftarrow> cJSON_GetArrayItem H a i; if c = 0 then Some None else map_option Some (read_tree H c) }"

lemma seg_nth:
  assumes "seg H ch 0 xs 0 l A" "nat i < length xs"
  shows "\<exists>m nx pv B. item_loop H ch i = Some m \<and> holds H m nx pv (xs ! nat i) B \<and> m \<in> A \<and> B \<subseteq> A"
proof -
  have "seg H ch 0 (take (nat i) xs @ xs ! nat i # drop (nat i + 1) xs) 0 l A" using id_take_nth_drop [OF assms(2)] assms(1) by simp
  then obtain m k nx chy lc A1 B1 B2 where s: "seg H ch 0 (take (nat i) xs) m k A1" "m \<noteq> 0" "cells H m = Some (mk_node (xs ! nat i) nx k chy)"
    "seg H chy 0 (child (xs ! nat i)) 0 lc B1" "seg H nx m (drop (nat i + 1) xs) 0 l B2" "A = A1 \<union> insert m (B1 \<union> B2)" "A1 \<inter> insert m (B1 \<union> B2) = {}"
    "m \<notin> B1 \<union> B2" "B1 \<inter> B2 = {}" by (rule seg_split)
  have "item_loop H ch i = Some m"
  proof (cases "i \<le> 0")
    case True
    then show ?thesis using s(1) by (simp add: item_loop_first)
  next
    case False
    then have "i = int (length (take (nat i) xs))" using assms(2) by simp
    then show ?thesis using item_loop_seg [OF s(1)] by simp
  qed
  moreover have "holds H m nx k (xs ! nat i) B1" using s(2-4,8) by (intro holdsI) auto
  ultimately show ?thesis using s(6) by blast
qed

lemma child_item_ok:
  assumes "child_inv a nx pv t H xs"
  shows "child_item a H i = Some (if nat i < length xs then Some (xs ! nat i) else None)"
proof -
  obtain A where h: "holds H a nx pv (set_child xs t) A" using assms unfolding child_inv_def by blast
  then obtain ch l where c: "cells H a = Some (mk_node t nx pv ch)" "seg H ch 0 xs 0 l A" unfolding holds_def by auto
  show ?thesis
  proof (cases "nat i < length xs")
    case True
    from seg_nth [OF c(2) True] obtain m nx' pv' B where m: "item_loop H ch i = Some m" "holds H m nx' pv' (xs ! nat i) B" by blast
    then have "m \<noteq> 0" by (simp add: holds_def)
    then show ?thesis using m holds_read [OF m(2)] c(1) True by (simp add: child_item_def cJSON_GetArrayItem_def)
  next
    case False
    then show ?thesis using child_item_none [OF h, of i] c(1) by (auto simp: child_item_def cJSON_GetArrayItem_def)
  qed
qed

interpretation children: child_list "child_inv a nx pv t" "child_step a" owned "\<lambda>H. cJSON_GetArraySize H a" "child_item a" for a nx pv t
proof
  fix H xs op i
  assume inv: "child_inv a nx pv t H xs"
  show "\<forall>v \<in> op_values op. owned v \<Longrightarrow> \<exists>H'. child_step a op H = Some H' \<and> child_inv a nx pv t H' (list_step op xs)" by (rule child_step_ok [OF inv])
  show "child_item a H i = Some (if nat i < length xs then Some (xs ! nat i) else None)" by (rule child_item_ok [OF inv])
  show "cJSON_GetArraySize H a = Some (int (length xs))" using inv by (auto simp: child_inv_def holds_def cJSON_GetArraySize_def dest: size_loop_seg [where i = 0])
qed

text \<open>
  C7.  The linked nodes of cJSON implement lists: after any sequence of appending, prepending, deleting by index and replacing by index
  on the children of a node, with new nodes for the values, the node holds the tree whose children are the result of the operations on
  the list.  No operation uses a null or freed pointer, \<open>cJSON_GetArraySize\<close> is the length of the list, and \<open>cJSON_GetArrayItem\<close> finds
  its elements.  A negative index means the first element, and an index past the end changes nothing.
\<close>

theorem cjson_children_refine_list:
  assumes "heap_ok H" "holds H a nx pv t A" "\<forall>x \<in> set (child t). owned x" "\<forall>op \<in> set ops. \<forall>v \<in> op_values op. owned v"
  defines "ys \<equiv> fold list_step ops (child t)"
  shows "\<exists>H'. foldl (\<lambda>r op. Option.bind r (child_step a op)) (Some H) ops = Some H' \<and> heap_ok H' \<and> read_tree H' a = Some (set_child ys t)
    \<and> cJSON_GetArraySize H' a = Some (int (length ys)) \<and> (\<forall>i. child_item a H' i = Some (if nat i < length ys then Some (ys ! nat i) else None))"
proof -
  have "child_inv a nx pv t H (child t)" using assms(1-3) by (auto simp: child_inv_def set_child_same)
  from children.run_queries [OF this assms(4)] show ?thesis unfolding ys_def child_inv_def using holds_read by blast
qed

definition empty_heap :: "'d jheap" where
  "empty_heap = \<lparr>cells = (\<lambda>_. None), brk = 1\<rparr>"

theorem cjson_children_refine_list_witness:
  "\<exists>H'. foldl (\<lambda>r op. Option.bind r (child_step 1 op)) (Some (snd (build [CJSON cJSON_Array False [] None 0 () 0 None] 0 empty_heap)))
      [Append (CJSON cJSON_True False [] None 0 () 0 None), Prepend (CJSON cJSON_NULL False [] None 0 () 0 None), Remove 1] = Some H'
    \<and> cJSON_GetArraySize H' 1 = Some 1"
proof -
  let ?t = "CJSON cJSON_Array False [] None 0 () 0 None" let ?H = "snd (build [?t] 0 empty_heap)"
  let ?ops = "[Append (CJSON cJSON_True False [] None 0 () 0 None), Prepend (CJSON cJSON_NULL False [] None 0 () 0 None), Remove 1]"
  have H: "?H = \<lparr>cells = [1 \<mapsto> mk_node ?t 0 0 0], brk = 2\<rparr>" by (simp add: empty_heap_def)
  have ok: "heap_ok ?H" unfolding H by (simp add: heap_ok_def)
  have h: "holds ?H 1 0 0 ?t {}" unfolding H by (intro holdsI) simp_all
  have "\<forall>op \<in> set ?ops. \<forall>v \<in> op_values op. owned v" by simp
  from cjson_children_refine_list [OF ok h _ this]
  obtain H' where "foldl (\<lambda>r op. Option.bind r (child_step 1 op)) (Some ?H) ?ops = Some H'"
    "cJSON_GetArraySize H' 1 = Some (int (length (fold list_step ?ops (child ?t))))" by (simp only: cJSON.sel list.set ball_empty) blast
  moreover have "length (fold list_step ?ops (child ?t)) = 1" by simp
  ultimately show ?thesis by auto
qed

end
