(* ===== verification/UrlCoder.thy ===== *)
theory UrlCoder
  imports HttpUrl "HOL-Library.List_Lexorder" "HOL-Library.Char_ord"
begin

text \<open>
  Percent encoding and hexadecimal text: \<open>src/code/Core/Util/src/util/http/HttpUrlCoder.cpp\<close> and
  \<open>src/code/Core/Util/src/util/StringCoder.cpp\<close>.

  A \<open>std::string\<close> is a \<open>string\<close>, which may hold the character NUL; a C string is the part of a
  block of characters before its first NUL (\<open>c_str\<close>).  The routines of \<open>HttpUrlCoder.cpp\<close> work on
  blocks: \<open>url_decode\<close> decodes in place, with a read and a write index into the same block, and an
  access outside the block is \<open>None\<close>.  \<open>StringCoder.cpp\<close> works on \<open>std::string\<close>s; a failed \<open>assert\<close>
  and an iterator past the end are \<open>None\<close>.
\<close>

subsection \<open>Characters and blocks\<close>

definition hexchars :: string where "hexchars = ''0123456789ABCDEF''"

definition isxdigit :: "char \<Rightarrow> bool" where
  "isxdigit c = (let n = code c in 48 \<le> n \<and> n \<le> 57 \<or> 65 \<le> n \<and> n \<le> 70 \<or> 97 \<le> n \<and> n \<le> 102)"

definition isalnum :: "char \<Rightarrow> bool" where
  "isalnum c = (let n = code c in 48 \<le> n \<and> n \<le> 57 \<or> 65 \<le> n \<and> n \<le> 90 \<or> 97 \<le> n \<and> n \<le> 122)"

definition get :: "string \<Rightarrow> nat \<Rightarrow> char option" where
  "get buf i = (if i < length buf then Some (buf ! i) else None)"

definition put :: "string \<Rightarrow> nat \<Rightarrow> char \<Rightarrow> string option" where
  "put buf i c = (if i < length buf then Some (buf[i := c]) else None)"

text \<open>The C string that starts a block, and its terminated copy.\<close>

definition c_str :: "string \<Rightarrow> string" where
  "c_str buf = takeWhile (\<lambda>c. c \<noteq> CHR 0x00) buf"

subsection \<open>HttpUrlCoder.cpp\<close>

definition escaped :: "char \<Rightarrow> bool" where
  "escaped c = (let n = code c in
     n < 48 \<and> n \<noteq> 45 \<and> n \<noteq> 46 \<or> n < 65 \<and> n > 57 \<or> n > 90 \<and> n < 97 \<and> n \<noteq> 95 \<or> n > 122)"

definition url_encode_char :: "char \<Rightarrow> string" where
  "url_encode_char c =
     (if c = CHR '' '' then ''+''
      else if escaped c then [CHR ''%'', hexchars ! (code c div 16), hexchars ! (code c mod 16)]
      else [c])"

text \<open>
  The loop writes at \<open>y\<close> the encoding of the character at \<open>x\<close>.  The block has \<open>3 * len + 1\<close>
  characters, a C \<open>int\<close>; a failed \<open>malloc\<close> is not tested.
\<close>

definition put_all :: "string \<Rightarrow> nat \<Rightarrow> string \<Rightarrow> string option" where
  "put_all str y cs = (if y + length cs \<le> length str then Some (take y str @ cs @ drop (y + length cs) str) else None)"

fun url_encode_loop :: "string \<Rightarrow> string \<Rightarrow> nat \<Rightarrow> nat \<Rightarrow> nat \<Rightarrow> (string \<times> nat) option" where
  "url_encode_loop s str x y 0 = Some (str, y)"
| "url_encode_loop s str x y (Suc len) = do {
     c \<leftarrow> get s x;
     str \<leftarrow> put_all str y (url_encode_char c);
     url_encode_loop s str (x + 1) (y + length (url_encode_char c)) len }"

definition url_encode :: "heap \<Rightarrow> string \<Rightarrow> nat \<Rightarrow> (string \<times> nat) option" where
  "url_encode hp s len = do {
     m \<leftarrow> (if 3 * len + 1 < 2 ^ 31 then c_malloc hp (3 * len + 1) else None);
     (str, y) \<leftarrow> url_encode_loop s (map (\<lambda>b. char_of (unat b)) m) 0 0 len;
     str \<leftarrow> put str y (CHR 0x00);
     Some (str, y) }"

definition url_encode_string :: "heap \<Rightarrow> string \<Rightarrow> string option" where
  "url_encode_string hp s = map_option (\<lambda>(buf, _). c_str buf) (url_encode hp (s @ [CHR 0x00]) (length s))"

definition hex_digit_value :: "char \<Rightarrow> int" where
  "hex_digit_value ch =
     (let c = int (code ch); c = (if 65 \<le> c \<and> c \<le> 90 then c + 32 else c)
      in if 48 \<le> c \<and> c \<le> 57 then c - 48 else c - 97 + 10)"

definition htoi :: "char \<Rightarrow> char \<Rightarrow> int" where
  "htoi c0 c1 = hex_digit_value c0 * 16 + hex_digit_value c1"

definition to_char :: "int \<Rightarrow> char" where
  "to_char i = char_of (nat (i mod 256))"

fun url_decode_loop :: "string \<Rightarrow> nat \<Rightarrow> nat \<Rightarrow> nat \<Rightarrow> (string \<times> nat) option" where
  "url_decode_loop str dest data len =
     (if len = 0 then Some (str, dest)
      else do {
        let len = len - 1;
        c \<leftarrow> get str data;
        if c = CHR ''+'' then do {
          str \<leftarrow> put str dest (CHR '' '');
          url_decode_loop str (dest + 1) (data + 1) len }
        else do {
          esc \<leftarrow> (if c = CHR ''%'' \<and> len \<ge> 2 then do {
                    h \<leftarrow> get str (data + 1);
                    if isxdigit h then do {
                      l \<leftarrow> get str (data + 2);
                      Some (if isxdigit l then Some (to_char (htoi h l)) else None) }
                    else Some None }
                  else Some None);
          case esc of
            Some v \<Rightarrow> do {
              str \<leftarrow> put str dest v;
              url_decode_loop str (dest + 1) (data + 3) (len - 2) }
          | None \<Rightarrow> do {
              str \<leftarrow> put str dest c;
              url_decode_loop str (dest + 1) (data + 1) len } } })"

declare url_decode_loop.simps [simp del]

definition url_decode :: "string \<Rightarrow> nat \<Rightarrow> (string \<times> nat) option" where
  "url_decode str len = do {
     (str, dest) \<leftarrow> url_decode_loop str 0 0 len;
     str \<leftarrow> put str dest (CHR 0x00);
     Some (str, dest) }"

text \<open>
  The \<open>std::string\<close> versions copy the C string into an array of \<open>length + 1\<close> characters, whose
  other characters are uninitialised (\<open>fill\<close>), and decode all of it.
\<close>

definition stack_copy :: "(nat \<Rightarrow> char) \<Rightarrow> string \<Rightarrow> string" where
  "stack_copy fill s = (let c = c_str s @ [CHR 0x00] in c @ map fill [length c..<length s + 1])"

definition url_decode_str :: "(nat \<Rightarrow> char) \<Rightarrow> string \<Rightarrow> string option" where
  "url_decode_str fill s = map_option (\<lambda>(buf, _). c_str buf) (url_decode (stack_copy fill s) (length s))"

text \<open>Replacing every \<open>\"\<close> that follows a backslash by \<open>\"\<close>, from left to right.\<close>

fun unescape_quotes :: "string \<Rightarrow> string" where
  "unescape_quotes (a # b # s) =
     (if a = CHR 0x5C \<and> b = CHR 0x22 then b # unescape_quotes s else a # unescape_quotes (b # s))"
| "unescape_quotes s = s"

definition url_decode_original :: "(nat \<Rightarrow> char) \<Rightarrow> string \<Rightarrow> string option" where
  "url_decode_original fill s = do {
     (buf, _) \<leftarrow> url_decode (stack_copy fill s) (length s);
     let buf = (if buf \<noteq> [] \<and> buf ! 0 = CHR 0x22 then buf[0 := CHR '' ''] else buf);
     let n = length (c_str buf);
     let buf = (if n > 0 \<and> n < length buf \<and> buf ! (n - 1) = CHR 0x22 then buf[n - 1 := CHR '' ''] else buf);
     Some (unescape_quotes (c_str buf)) }"

subsection \<open>StringCoder.cpp\<close>

definition ToHex :: "nat \<Rightarrow> char" where
  "ToHex x = char_of (if x > 9 then x + 55 else x + 48)"

definition FromHex :: "char \<Rightarrow> nat option" where
  "FromHex c =
     (let x = code c in
      if 65 \<le> x \<and> x \<le> 90 then Some (x - 65 + 10)
      else if 97 \<le> x \<and> x \<le> 122 then Some (x - 97 + 10)
      else if 48 \<le> x \<and> x \<le> 57 then Some (x - 48)
      else None)"

definition UrlEncode_char :: "char \<Rightarrow> string" where
  "UrlEncode_char c =
     (if isalnum c \<or> c = CHR ''-'' \<or> c = CHR ''_'' \<or> c = CHR ''.'' \<or> c = CHR ''~'' then [c]
      else if c = CHR '' '' then ''+''
      else [CHR ''%'', ToHex (code c div 16), ToHex (code c mod 16)])"

definition UrlEncode :: "string \<Rightarrow> string" where
  "UrlEncode str = concat (map UrlEncode_char str)"

fun UrlDecode :: "string \<Rightarrow> string option" where
  "UrlDecode [] = Some []"
| "UrlDecode (c # str) =
     (if c = CHR ''+'' then map_option ((#) (CHR '' '')) (UrlDecode str)
      else if c = CHR ''%'' then
        (case str of
           h # l # str' \<Rightarrow> do {
             high \<leftarrow> FromHex h;
             low \<leftarrow> FromHex l;
             map_option ((#) (char_of ((high * 16 + low) mod 256))) (UrlDecode str') }
         | _ \<Rightarrow> None)
      else map_option ((#) c) (UrlDecode str))"

definition CharToHex :: "char \<Rightarrow> string" where
  "CharToHex c = [hexchars ! (code c div 16), hexchars ! (code c mod 16)]"

text \<open>The arithmetic of \<open>HexToChar\<close> is on \<open>unsigned char\<close>; \<open>toupper\<close> is that of the C locale.\<close>

definition HexToChar_digit :: "char \<Rightarrow> int" where
  "HexToChar_digit ch =
     (let c1 = int (code ch); c1 = (if 97 \<le> c1 \<and> c1 \<le> 122 then c1 - 32 else c1)
      in if c1 \<ge> 65 then c1 - (65 - 10) else c1 - 48)"

definition HexToChar :: "string \<Rightarrow> char" where
  "HexToChar sHex = to_char (foldl (\<lambda>c ch. (c * 16 + HexToChar_digit ch) mod 256) 0 (take 2 sHex))"

definition EncodeHexToString :: "string \<Rightarrow> string" where
  "EncodeHexToString sSrc = concat (map CharToHex (CHR ''+'' # sSrc))"

text \<open>Past the end of a string of odd length the iterator no longer meets \<open>end()\<close>.\<close>

fun decode_pairs :: "string \<Rightarrow> string option" where
  "decode_pairs [] = Some []"
| "decode_pairs (a # b # s) = map_option ((#) (HexToChar [a, b])) (decode_pairs s)"
| "decode_pairs [a] = None"

definition DecodeStringToHex :: "string \<Rightarrow> string option" where
  "DecodeStringToHex sSrc = (if length sSrc < 2 then None else decode_pairs (drop 2 sSrc))"

text \<open>
  A \<open>std::map\<close> of strings is the list of its entries in the order of its keys; \<open>insert\<close> keeps an
  entry that is there.
\<close>

type_synonym string_map = "(string \<times> string) list"

fun strmap_insert :: "string \<Rightarrow> string \<Rightarrow> string_map \<Rightarrow> string_map" where
  "strmap_insert k v [] = [(k, v)]"
| "strmap_insert k v ((k', v') # m) =
     (if k = k' then (k', v') # m
      else if k < k' then (k, v) # (k', v') # m
      else (k', v') # strmap_insert k v m)"

definition EncodeParameter :: "string_map \<Rightarrow> string" where
  "EncodeParameter mapParameters =
     foldl (\<lambda>str (k, v). (if str \<noteq> [] then str @ ''&'' else str) @ k @ ''='' @ v) [] mapParameters"

record param_state =
  ps_key :: string
  ps_value :: string
  bIsValue :: bool
  ps_map :: string_map

definition flush_param :: "param_state \<Rightarrow> string_map" where
  "flush_param p = (if ps_key p \<noteq> [] then strmap_insert (ps_key p) (ps_value p) (ps_map p) else ps_map p)"

definition param_char :: "param_state \<Rightarrow> char \<Rightarrow> param_state" where
  "param_char p c =
     (if c = CHR ''&'' then \<lparr>ps_key = [], ps_value = [], bIsValue = False, ps_map = flush_param p\<rparr>
      else if c = CHR ''='' then p\<lparr>bIsValue := True\<rparr>
      else if bIsValue p then p\<lparr>ps_value := ps_value p @ [c]\<rparr>
      else p\<lparr>ps_key := ps_key p @ [c]\<rparr>)"

definition after_filter :: "char \<Rightarrow> string \<Rightarrow> string" where
  "after_filter flt strUrl =
     (if flt \<noteq> CHR '' '' \<and> flt \<in> set strUrl then tl (dropWhile (\<lambda>c. c \<noteq> flt) strUrl) else strUrl)"

definition DecodeParameter :: "string \<Rightarrow> char \<Rightarrow> string_map" where
  "DecodeParameter strUrl flt =
     flush_param (foldl param_char \<lparr>ps_key = [], ps_value = [], bIsValue = False, ps_map = []\<rparr>
                        (after_filter flt strUrl))"

subsection \<open>What the percent encodings mean\<close>

text \<open>The text that \<open>url_decode\<close> stands for, as a function on strings.\<close>

fun url_text :: "string \<Rightarrow> string" where
  "url_text (c # h # l # s) =
     (if c = CHR ''+'' then CHR '' '' # url_text (h # l # s)
      else if c = CHR ''%'' \<and> isxdigit h \<and> isxdigit l then to_char (htoi h l) # url_text s
      else c # url_text (h # l # s))"
| "url_text (c # s) = (if c = CHR ''+'' then CHR '' '' else c) # url_text s"
| "url_text [] = []"

lemma length_url_text: "length (url_text s) \<le> length s"
  by (induction s rule: url_text.induct) auto

lemma get_middle [simp]: "get (pre @ s) (length pre + k) = get s k" "get (pre @ s) (length pre) = get s 0"
  by (simp_all add: get_def nth_append)

lemma get_Cons [simp]: "get (c # s) 0 = Some c" "get (c # s) (Suc k) = get s k"
    "get (c # s) (numeral n) = get s (pred_numeral n)"
  by (simp_all add: get_def numeral_eq_Suc)

lemma put_middle: "put (out @ x # s) (length out) c = Some (out @ c # s)"
  by (simp add: put_def)

text \<open>
  The write index never overtakes the read index: the block always consists of the decoded part,
  a gap, the part still to be decoded and the rest.
\<close>

definition decodes_to :: "string \<Rightarrow> string \<Rightarrow> string \<Rightarrow> string \<Rightarrow> string \<Rightarrow> bool" where
  "decodes_to out gap s rest t \<longleftrightarrow>
     (\<exists>gap'. url_decode_loop (out @ gap @ s @ rest) (length out) (length out + length gap) (length s)
              = Some (out @ t @ gap' @ rest, length out + length t)
          \<and> length (gap @ s) = length (t @ gap'))"

lemma put_gap:
  "cs \<noteq> [] \<Longrightarrow> put (out @ gap @ cs @ r) (length out) v = Some ((out @ [v]) @ tl (gap @ cs) @ r)"
proof -
  assume "cs \<noteq> []"
  then obtain x ys where xs: "gap @ cs = x # ys" by (cases "gap @ cs") auto
  then have eq: "out @ gap @ cs @ r = out @ x # ys @ r" by (metis append_Cons append_assoc)
  show ?thesis unfolding eq using xs by (simp add: put_def)
qed

lemma decodes_step:
  assumes "decodes_to (out @ [v]) (tl (gap @ cs)) s rest t" and "cs \<noteq> []"
    and "url_decode_loop (out @ gap @ (cs @ s) @ rest) (length out) (length out + length gap) (length (cs @ s))
       = put (out @ gap @ cs @ s @ rest) (length out) v
           \<bind> (\<lambda>str. url_decode_loop str (length out + 1) (length out + length gap + length cs) (length s))"
  shows "decodes_to out gap (cs @ s) rest (v # t)"
proof -
  have pos: "length (out @ [v]) + length (tl (gap @ cs)) = length out + length gap + length cs"
    using assms(2) by (cases cs) simp_all
  obtain gap' where g: "url_decode_loop ((out @ [v]) @ tl (gap @ cs) @ s @ rest) (length (out @ [v]))
        (length (out @ [v]) + length (tl (gap @ cs))) (length s)
      = Some ((out @ [v]) @ t @ gap' @ rest, length (out @ [v]) + length t)"
    "length (tl (gap @ cs) @ s) = length (t @ gap')"
    using assms(1) by (auto simp: decodes_to_def)
  have "length (gap @ cs @ s) = length (v # t @ gap')" using g(2) assms(2) by (cases cs) simp_all
  moreover have "url_decode_loop (out @ gap @ (cs @ s) @ rest) (length out) (length out + length gap) (length (cs @ s))
      = Some (out @ (v # t) @ gap' @ rest, length out + length (v # t))"
    using g(1) unfolding assms(3) put_gap [OF assms(2)] pos by simp
  ultimately show ?thesis unfolding decodes_to_def by (intro exI [of _ gap']) simp
qed

text \<open>One round of the loop, for a character that stands for itself and for an escape.\<close>

fun plain :: "string \<Rightarrow> bool" where
  "plain (c # h # l # s) = (\<not> (c = CHR ''%'' \<and> isxdigit h \<and> isxdigit l))"
| "plain _ = True"

lemma get_three [simp]:
  "get (out @ gap @ s) (length out + length gap) = get s 0"
  "get (out @ gap @ s) (Suc (length out + length gap)) = get s 1"
  "get (out @ gap @ s) (Suc (Suc (length out + length gap))) = get s 2"
  using get_middle [of "out @ gap" s] by (simp_all add: get_def nth_append)

lemma loop_plain:
  "plain (c # s) \<Longrightarrow> url_decode_loop (out @ gap @ ([c] @ s) @ rest) (length out) (length out + length gap) (length ([c] @ s))
     = put (out @ gap @ [c] @ s @ rest) (length out) (if c = CHR ''+'' then CHR '' '' else c)
         \<bind> (\<lambda>str. url_decode_loop str (length out + 1) (length out + length gap + length [c]) (length s))"
  by (cases "c # s" rule: plain.cases; subst url_decode_loop.simps; auto)

lemma loop_escape:
  "isxdigit h \<Longrightarrow> isxdigit l \<Longrightarrow>
   url_decode_loop (out @ gap @ ([CHR ''%'', h, l] @ s) @ rest) (length out) (length out + length gap) (length ([CHR ''%'', h, l] @ s))
     = put (out @ gap @ [CHR ''%'', h, l] @ s @ rest) (length out) (to_char (htoi h l))
         \<bind> (\<lambda>str. url_decode_loop str (length out + 1) (length out + length gap + length [CHR ''%'', h, l]) (length s))"
  by (subst url_decode_loop.simps) (simp add: numeral_3_eq_3)

lemma url_decode_loop_text: "decodes_to out gap s rest (url_text s)"
proof (induction s arbitrary: out gap rule: url_text.induct [case_names three one two none])
  case (three c h l s)
  show ?case
  proof (cases "plain (c # h # l # s)")
    case True
    then have "decodes_to (out @ [if c = CHR ''+'' then CHR '' '' else c]) (tl (gap @ [c])) (h # l # s) rest (url_text (h # l # s))"
      using three(1,3) by (cases "c = CHR ''+''") auto
    from decodes_step [OF this _ loop_plain [OF True]] True show ?thesis by auto
  next
    case False
    then have c: "c = CHR ''%''" "isxdigit h" "isxdigit l" by auto
    have "decodes_to (out @ [to_char (htoi h l)]) (tl (gap @ [c, h, l])) s rest (url_text s)"
      using three(2) c by auto
    from decodes_step [OF this _ loop_escape [OF c(2,3), folded c(1)]] c show ?thesis by simp
  qed
next
  case (one c)
  from decodes_step [OF one _ loop_plain] show ?case by simp
next
  case (two c d)
  from decodes_step [OF two _ loop_plain] show ?case by simp
next
  case none
  show ?case by (simp add: decodes_to_def url_decode_loop.simps)
qed

lemma url_decode_text:
  "\<exists>gap. url_decode (s @ c # rest) (length s) = Some (url_text s @ CHR 0x00 # gap, length (url_text s))"
proof -
  obtain gap' where g: "url_decode_loop (s @ c # rest) 0 0 (length s) = Some (url_text s @ gap' @ c # rest, length (url_text s))"
    using url_decode_loop_text [of "[]" "[]" s "c # rest"] by (auto simp: decodes_to_def)
  obtain x ys where "gap' @ c # rest = x # ys" by (cases "gap' @ c # rest") auto
  then show ?thesis by (simp add: url_decode_def g put_middle)
qed

lemma c_str_text: "CHR 0x00 \<notin> set s \<Longrightarrow> c_str (s @ CHR 0x00 # rest) = s"
  by (induction s) (auto simp: c_str_def)

lemma c_str_cut: "c_str (s @ CHR 0x00 # rest) = c_str s"
  by (induction s) (auto simp: c_str_def)

lemma url_decode_str_text:
  assumes "CHR 0x00 \<notin> set s"
  shows "url_decode_str fill s = Some (c_str (url_text s))"
proof -
  have "stack_copy fill s = s @ CHR 0x00 # []"
    using assms c_str_text [OF assms, of "[]"] c_str_cut [of s "[]"] by (simp add: stack_copy_def)
  then show ?thesis
    using url_decode_text [of s "CHR 0x00" "[]"] by (auto simp: url_decode_str_def c_str_cut)
qed

subsection \<open>Round trips\<close>

definition url_enc :: "string \<Rightarrow> string" where
  "url_enc s = concat (map url_encode_char s)"

lemma hexchars_all: "list_all (\<lambda>k. isxdigit (hexchars ! k) \<and> hex_digit_value (hexchars ! k) = int k
    \<and> HexToChar_digit (hexchars ! k) = int k \<and> ToHex k = hexchars ! k \<and> FromHex (hexchars ! k) = Some k) [0..<16]"
  by code_simp

lemma hexchars [simp]:
  assumes "k < 16"
  shows "isxdigit (hexchars ! k)" "hex_digit_value (hexchars ! k) = int k"
    "HexToChar_digit (hexchars ! k) = int k" "ToHex k = hexchars ! k" "FromHex (hexchars ! k) = Some k"
  using hexchars_all assms by (simp_all add: list_all_iff)

lemma code_bound [simp]: "code c < 256"
  by (simp add: code_def)

lemma code_div [simp]: "code c div 16 < 16"
  using code_bound [of c] by (simp add: less_mult_imp_div_less)

lemma char_of_code [simp]: "char_of (code c) = c"
  by (simp add: code_def)

lemma to_char_hex [simp]: "to_char (int (code c div 16) * 16 + int (code c mod 16)) = c"
proof -
  have "int (code c div 16) * 16 + int (code c mod 16) = int (code c)"
    by (metis div_mult_mod_eq of_nat_add of_nat_mult of_nat_numeral)
  then show ?thesis using code_bound [of c] by (simp add: to_char_def)
qed

lemma url_text_plain: "c \<noteq> CHR ''%'' \<Longrightarrow> url_text (c # s) = (if c = CHR ''+'' then CHR '' '' else c) # url_text s"
  by (cases "c # s" rule: url_text.cases) auto

lemma url_text_encode_char: "url_text (url_encode_char c @ s) = c # url_text s"
proof -
  have "escaped (CHR ''%'')" "escaped (CHR ''+'')" by (simp_all add: escaped_def code_def)
  then have "\<not> escaped c \<Longrightarrow> c \<noteq> CHR ''%'' \<and> c \<noteq> CHR ''+''" by auto
  then show ?thesis by (auto simp: url_encode_char_def url_text_plain htoi_def)
qed

lemma url_text_url_enc: "url_text (url_enc s) = s"
  by (induction s) (simp_all add: url_enc_def url_text_encode_char)

lemma isalnum_delims: "isalnum c \<Longrightarrow> c \<noteq> CHR ''%'' \<and> c \<noteq> CHR ''+'' \<and> c \<noteq> CHR '' '' \<and> c \<noteq> CHR 0x00"
  by (auto simp: isalnum_def code_def)

lemma UrlDecode_encode_char: "UrlDecode (UrlEncode_char c @ s) = map_option ((#) c) (UrlDecode s)"
  using isalnum_delims [of c] by (auto simp: UrlEncode_char_def)

lemma UrlDecode_UrlEncode: "UrlDecode (UrlEncode s) = Some s"
  by (induction s) (simp_all add: UrlEncode_def UrlDecode_encode_char)

lemma url_text_UrlEncode_char: "url_text (UrlEncode_char c @ s) = c # url_text s"
  using isalnum_delims [of c] by (auto simp: UrlEncode_char_def url_text_plain htoi_def)

lemma url_text_UrlEncode: "url_text (UrlEncode s) = s"
  by (induction s) (simp_all add: UrlEncode_def url_text_UrlEncode_char)

lemma HexToChar_CharToHex: "HexToChar (CharToHex c) = c"
proof -
  have "int (code c div 16) mod 256 = int (code c div 16)"
    using code_div [of c] by (intro mod_pos_pos_trivial) linarith+
  then show ?thesis using to_char_hex [of c] by (simp add: HexToChar_def CharToHex_def to_char_def)
qed

lemma decode_pairs_CharToHex: "decode_pairs (concat (map CharToHex s)) = Some s"
proof (induction s)
  case (Cons c s)
  then show ?case using HexToChar_CharToHex [of c] by (simp add: CharToHex_def)
qed simp

text \<open>The encoder fills its block with the encoding of the string.\<close>

lemma url_encode_loop_text:
  "length (url_enc s) \<le> length gap \<Longrightarrow>
   url_encode_loop (pre @ s @ post) (out @ gap) (length pre) (length out) (length s)
     = Some (out @ url_enc s @ drop (length (url_enc s)) gap, length (out @ url_enc s))"
proof (induction s arbitrary: pre out gap)
  case (Cons c s)
  let ?e = "url_encode_char c"
  from Cons.prems have "length ?e \<le> length gap" "length (url_enc s) \<le> length (drop (length ?e) gap)"
    by (simp_all add: url_enc_def)
  with Cons.IH [of "drop (length ?e) gap" "pre @ [c]" "out @ ?e"]
  show ?case by (simp add: put_all_def url_enc_def add.commute)
qed (simp add: url_enc_def)

lemma length_url_encode_char: "length (url_encode_char c) \<le> 3"
  by (simp add: url_encode_char_def)

lemma length_url_enc: "length (url_enc s) \<le> 3 * length s"
proof (induction s)
  case (Cons c s)
  then show ?case using length_url_encode_char [of c] by (simp add: url_enc_def)
qed (simp add: url_enc_def)

lemma hexchars_not_NUL: "k < 16 \<Longrightarrow> hexchars ! k \<noteq> CHR 0x00"
  using hexchars(1) [of k] by (auto simp: isxdigit_def code_def)

lemma escaped_delims: "\<not> escaped c \<Longrightarrow> c \<noteq> CHR ''%'' \<and> c \<noteq> CHR ''+'' \<and> c \<noteq> CHR 0x00"
  by (auto simp: escaped_def code_def)

lemma url_enc_no_NUL: "CHR 0x00 \<notin> set (url_enc s)"
proof -
  have "CHR 0x00 \<notin> set (url_encode_char c)" for c
    using hexchars_not_NUL [of "code c div 16"] hexchars_not_NUL [of "code c mod 16"] escaped_delims [of c]
    by (auto simp: url_encode_char_def)
  then show ?thesis by (auto simp: url_enc_def)
qed

lemma url_encode_string_text:
  assumes "3 * length s + 1 < 2 ^ 31" "fst hp (3 * length s + 1)"
  shows "url_encode_string hp s = Some (url_enc s)"
proof -
  define gap where "gap = map (\<lambda>b. char_of (unat b) :: char) (map (snd hp) [0..<3 * length s + 1])"
  have g: "length (url_enc s) < length gap" using length_url_enc [of s] by (simp add: gap_def)
  then obtain x ys where "drop (length (url_enc s)) gap = x # ys" by (metis drop_eq_Nil2 linorder_not_le neq_Nil_conv)
  moreover obtain m where "c_malloc hp (3 * length s + 1) = Some m" "map (\<lambda>b. char_of (unat b)) m = gap"
    using assms unfolding c_malloc_def gap_def by simp
  ultimately show ?thesis
    using assms(1) g url_encode_loop_text [of s gap "[]" "[CHR 0x00]" "[]"]
    unfolding url_encode_string_def url_encode_def by (simp add: put_middle c_str_text [OF url_enc_no_NUL])
qed

lemma UrlEncode_no_NUL: "CHR 0x00 \<notin> set (UrlEncode s)"
proof -
  have "\<not> isalnum (CHR 0x00)" by (simp add: isalnum_def code_def)
  then have "CHR 0x00 \<notin> set (UrlEncode_char c)" for c
    using hexchars_not_NUL [of "code c div 16"] hexchars_not_NUL [of "code c mod 16"] by (auto simp: UrlEncode_char_def)
  then show ?thesis by (auto simp: UrlEncode_def)
qed

lemma UrlDecode_url_enc: "UrlDecode (url_enc s) = Some s"
proof -
  have "UrlDecode (url_encode_char c @ r) = map_option ((#) c) (UrlDecode r)" for c r
    using escaped_delims [of c] by (auto simp: url_encode_char_def)
  then show ?thesis by (induction s) (simp_all add: url_enc_def)
qed

text \<open>
  C23.  The text coders are inverse to each other.  For a string \<open>s\<close> without NUL, \<open>url_encode\<close> fills
  the block it allocated without leaving it, and the in-place \<open>url_decode\<close> turns its result back
  into \<open>s\<close> without reading or writing outside its block; the \<open>UrlEncode\<close> and \<open>UrlDecode\<close> of
  \<open>StringCoder.cpp\<close> are inverse on every string, no \<open>assert\<close> fails, and each of the two decoders
  also reads the other library's encoding; so are \<open>EncodeHexToString\<close> and \<open>DecodeStringToHex\<close>.
\<close>

theorem url_coders_roundtrip:
  assumes "3 * length s + 1 < 2 ^ 31" "fst hp (3 * length s + 1)" "CHR 0x00 \<notin> set s"
  shows "(\<exists>t. url_encode_string hp s = Some t \<and> url_decode_str fill t = Some s \<and> UrlDecode t = Some s)
       \<and> UrlDecode (UrlEncode s) = Some s \<and> url_decode_str fill (UrlEncode s) = Some s
       \<and> DecodeStringToHex (EncodeHexToString s) = Some s"
proof (intro conjI)
  show "\<exists>t. url_encode_string hp s = Some t \<and> url_decode_str fill t = Some s \<and> UrlDecode t = Some s"
    using url_encode_string_text [OF assms(1,2)] url_decode_str_text [OF url_enc_no_NUL, of fill s] c_str_text [OF assms(3), of "[]"]
    by (simp add: url_text_url_enc UrlDecode_url_enc c_str_cut)
  show "url_decode_str fill (UrlEncode s) = Some s"
    using url_decode_str_text [OF UrlEncode_no_NUL, of fill s] c_str_text [OF assms(3), of "[]"]
    by (simp add: url_text_UrlEncode c_str_cut)
  show "DecodeStringToHex (EncodeHexToString s) = Some s"
    using decode_pairs_CharToHex [of s] by (simp add: DecodeStringToHex_def EncodeHexToString_def CharToHex_def)
qed (rule UrlDecode_UrlEncode)

theorem url_coders_roundtrip_witness:
  "(\<exists>t. url_encode_string (\<lambda>_. True, \<lambda>_. 0) ''a b&~'' = Some t \<and> url_decode_str (\<lambda>_. CHR ''%'') t = Some ''a b&~''
        \<and> UrlDecode t = Some ''a b&~'')
   \<and> UrlDecode (UrlEncode ''a b&~'') = Some ''a b&~''
   \<and> url_decode_str (\<lambda>_. CHR ''%'') (UrlEncode ''a b&~'') = Some ''a b&~''
   \<and> DecodeStringToHex (EncodeHexToString ''a b&~'') = Some ''a b&~''"
  by (rule url_coders_roundtrip) simp_all

subsection \<open>Parameter lists\<close>

definition no_delims :: "string \<Rightarrow> bool" where
  "no_delims s \<longleftrightarrow> CHR ''&'' \<notin> set s \<and> CHR ''='' \<notin> set s"

definition params_ok :: "string_map \<Rightarrow> bool" where
  "params_ok m \<longleftrightarrow> sorted_wrt (<) (map fst m) \<and> list_all (\<lambda>(k, v). k \<noteq> [] \<and> no_delims k \<and> no_delims v) m"

lemma strmap_insert_last: "list_all (\<lambda>(k', _). k' < k) m \<Longrightarrow> strmap_insert k v m = m @ [(k, v)]"
  by (induction m) auto

lemma fold_key: "no_delims t \<Longrightarrow> \<not> bIsValue p \<Longrightarrow> foldl param_char p t = p\<lparr>ps_key := ps_key p @ t\<rparr>"
  by (induction t arbitrary: p) (auto simp: no_delims_def param_char_def)

lemma fold_value: "no_delims t \<Longrightarrow> bIsValue p \<Longrightarrow> foldl param_char p t = p\<lparr>ps_value := ps_value p @ t\<rparr>"
  by (induction t arbitrary: p) (auto simp: no_delims_def param_char_def)

lemma fold_entry:
  "no_delims k \<Longrightarrow> no_delims v \<Longrightarrow>
   foldl param_char \<lparr>ps_key = [], ps_value = [], bIsValue = False, ps_map = M\<rparr> (k @ ''='' @ v)
     = \<lparr>ps_key = k, ps_value = v, bIsValue = True, ps_map = M\<rparr>"
  by (simp add: fold_key fold_value param_char_def)

definition entry_text :: "string \<times> string \<Rightarrow> string" where
  "entry_text kv = ''&'' @ fst kv @ ''='' @ snd kv"

lemma fold_entries:
  assumes "params_ok ((k, v) # m)" "list_all (\<lambda>(k', _). k' < k) M"
  shows "flush_param (foldl param_char \<lparr>ps_key = k, ps_value = v, bIsValue = True, ps_map = M\<rparr> (concat (map entry_text m)))
     = M @ (k, v) # m"
  using assms
proof (induction m arbitrary: k v M)
  case Nil
  then show ?case by (simp add: flush_param_def params_ok_def strmap_insert_last)
next
  case (Cons kv m)
  obtain k2 v2 where kv: "kv = (k2, v2)" by force
  have ok: "params_ok ((k2, v2) # m)" "no_delims k2" "no_delims v2" "k < k2" "k \<noteq> []"
    using Cons.prems kv by (simp_all add: params_ok_def)
  have M: "list_all (\<lambda>(k', _). k' < k2) (M @ [(k, v)])"
    using Cons.prems(2) ok(4) by (auto simp: list_all_iff intro: less_trans)
  have amp: "param_char \<lparr>ps_key = k, ps_value = v, bIsValue = True, ps_map = M\<rparr> (CHR ''&'')
      = \<lparr>ps_key = [], ps_value = [], bIsValue = False, ps_map = M @ [(k, v)]\<rparr>"
    using ok(5) Cons.prems(2) by (simp add: param_char_def flush_param_def strmap_insert_last)
  have "foldl param_char \<lparr>ps_key = k, ps_value = v, bIsValue = True, ps_map = M\<rparr> (entry_text kv)
      = \<lparr>ps_key = k2, ps_value = v2, bIsValue = True, ps_map = M @ [(k, v)]\<rparr>"
    using fold_entry [OF ok(2,3), of "M @ [(k, v)]"] amp kv by (simp add: entry_text_def)
  then show ?case using Cons.IH [OF ok(1) M] kv by simp
qed

lemma EncodeParameter_text:
  "EncodeParameter [] = []" "EncodeParameter ((k, v) # m) = k @ ''='' @ v @ concat (map entry_text m)"
proof -
  have "acc \<noteq> [] \<Longrightarrow> foldl (\<lambda>str (k, v). (if str \<noteq> [] then str @ ''&'' else str) @ k @ ''='' @ v) acc m
      = acc @ concat (map entry_text m)" for acc
    by (induction m arbitrary: acc) (auto simp: entry_text_def)
  from this [of "k @ ''='' @ v"] show "EncodeParameter ((k, v) # m) = k @ ''='' @ v @ concat (map entry_text m)"
    by (simp add: EncodeParameter_def)
qed (simp add: EncodeParameter_def)

lemma decode_entries:
  "params_ok m \<Longrightarrow>
   flush_param (foldl param_char \<lparr>ps_key = [], ps_value = [], bIsValue = False, ps_map = []\<rparr> (EncodeParameter m)) = m"
proof (cases m)
  case Nil
  then show ?thesis by (simp add: EncodeParameter_text flush_param_def)
next
  case (Cons kv m')
  obtain k v where kv: "kv = (k, v)" by force
  assume m: "params_ok m"
  then have "no_delims k" "no_delims v" using Cons kv by (simp_all add: params_ok_def)
  from fold_entry [OF this, of "[]"] show ?thesis
    using fold_entries [of k v m' "[]"] m Cons kv by (simp add: EncodeParameter_text)
qed

text \<open>
  \<open>DecodeParameter\<close> reads back what \<open>EncodeParameter\<close> wrote: for every map of non-empty names
  to values in which neither holds \<open>&\<close> or \<open>=\<close>, the decoded map is the map that was encoded, also
  when the parameters stand behind a path and the filter character that ends it.
\<close>

theorem parameters_roundtrip:
  assumes "params_ok m" "flt \<notin> set path" "flt \<noteq> CHR '' ''"
  shows "DecodeParameter (EncodeParameter m) (CHR '' '') = m
       \<and> DecodeParameter (path @ flt # EncodeParameter m) flt = m"
proof -
  have "after_filter flt (path @ flt # EncodeParameter m) = EncodeParameter m"
    using assms(2,3) by (induction path) (auto simp: after_filter_def)
  then show ?thesis
    using decode_entries [OF assms(1)] by (simp add: DecodeParameter_def after_filter_def)
qed

theorem parameters_roundtrip_witness:
  "DecodeParameter (EncodeParameter [(''a'', ''1''), (''b'', '''')]) (CHR '' '') = [(''a'', ''1''), (''b'', '''')]
   \<and> DecodeParameter (''/x'' @ CHR ''?'' # EncodeParameter [(''a'', ''1''), (''b'', '''')]) (CHR ''?'')
       = [(''a'', ''1''), (''b'', '''')]"
  by (rule parameters_roundtrip) (code_simp, simp_all)

end
