(* ===== verification/CJsonObject.thy ===== *)
theory CJsonObject
  imports CJsonHeap UrlCoder
begin

text \<open>
  The JSON class \<open>Util/src/util/json/CJsonObject.cpp\<close> on the heap of cJSON nodes.

  An object has its own tree (\<open>m_pJsonData\<close>) or refers to a node of the tree of another one (\<open>m_pExternJsonDataRef\<close>), and owns the
  objects that \<open>operator[]\<close> has given out for its members.  The overloads of a method share one definition that takes how the node is
  created, or how its value is read.  A method is \<open>None\<close> on undefined behaviour: the use of a freed node, or a null string.
\<close>

subsection \<open>Objects\<close>

datatype jobject =
  JObject (m_pJsonData: addr) (m_pExternJsonDataRef: addr) (m_strErrMsg: string)
    (m_mapJsonArrayRef: "(u32 \<times> jobject) list") (m_mapJsonObjectRef: "(string \<times> jobject) list")

text \<open>Floating point, memory and the uninitialised variables of the parser; \<open>j_float\<close> rounds a double to a float.\<close>

record 'd jenv =
  j_fpu :: "'d fpu"
  j_alloc :: alloc
  j_uc :: "nat \<times> nat"
  j_float :: "'d \<Rightarrow> 'd"

definition CJsonObject_new :: jobject where
  "CJsonObject_new = JObject 0 0 '''' [] []"

definition CJsonObject_ref :: "addr \<Rightarrow> jobject" where
  "CJsonObject_ref p = JObject 0 p '''' [] []"

fun set_data :: "addr \<Rightarrow> jobject \<Rightarrow> jobject" where
  "set_data p (JObject d x e as os) = JObject p x e as os"

fun set_err :: "string \<Rightarrow> jobject \<Rightarrow> jobject" where
  "set_err msg (JObject d x e as os) = JObject d x msg as os"

fun set_refs :: "(u32 \<times> jobject) list \<Rightarrow> (string \<times> jobject) list \<Rightarrow> jobject \<Rightarrow> jobject" where
  "set_refs as' os' (JObject d x e as os) = JObject d x e as' os'"

definition GetJsonData :: "jobject \<Rightarrow> addr" where
  "GetJsonData j = (if m_pJsonData j \<noteq> 0 then m_pJsonData j else m_pExternJsonDataRef j)"

definition is_type :: "'d node \<Rightarrow> json_type \<Rightarrow> bool" where
  "is_type n ty \<longleftrightarrow> n_type n = ty \<and> \<not> n_reference n"

subsection \<open>Clear\<close>

lemma refs_size:
  "size_list (size \<circ> snd) as \<le> size_list (size_prod (\<lambda>_. 0) size) as"
  by (induction as) auto

text \<open>\<open>delete\<close> of objects, which clears each with the objects it owns.\<close>

function delete_objects :: "jobject list \<Rightarrow> 'd jheap \<Rightarrow> 'd jheap option" where
  "delete_objects [] H = Some H"
| "delete_objects (JObject d x e as os # rest) H = do {
     H \<leftarrow> cJSON_Delete d H;
     H \<leftarrow> delete_objects (map snd as) H;
     H \<leftarrow> delete_objects (map snd os) H;
     delete_objects rest H }"
  by pat_completeness auto
termination
  by (relation "measure (\<lambda>(os, _). size_list size os)") (auto intro!: le_less_trans [OF refs_size])

definition CJsonObject_Clear :: "jobject \<Rightarrow> 'd jheap \<Rightarrow> (jobject \<times> 'd jheap) option" where
  "CJsonObject_Clear j H = map_option (\<lambda>H. (JObject 0 0 (m_strErrMsg j) [] [], H)) (delete_objects [j] H)"

subsection \<open>Parsing and printing\<close>

text \<open>The nodes of a parsed text, or the error message.\<close>

definition parse_new :: "'d jenv \<Rightarrow> string \<Rightarrow> 'd jheap \<Rightarrow> (string + addr \<times> 'd jheap) option" where
  "parse_new E strJson H =
     (case cJSON_Parse (j_fpu E) (j_alloc E) (j_uc E) (c_str strJson) of
        None \<Rightarrow> None
      | Some (PFail None) \<Rightarrow> None
      | Some (PFail (Some ep)) \<Rightarrow> Some (Inl (''prase json string error at '' @ c_str ep))
      | Some (POk t) \<Rightarrow> Some (Inr (build [t] 0 H)))"

definition Parse :: "'d jenv \<Rightarrow> string \<Rightarrow> jobject \<Rightarrow> 'd jheap \<Rightarrow> (bool \<times> jobject \<times> 'd jheap) option" where
  "Parse E strJson j H = do {
     (j, H) \<leftarrow> CJsonObject_Clear j H;
     r \<leftarrow> parse_new E strJson H;
     Some (case r of Inl msg \<Rightarrow> (False, set_err msg j, H) | Inr (p, H) \<Rightarrow> (True, set_data p j, H)) }"

text \<open>The text of the tree, empty if there is none or memory runs out.\<close>

definition print_focus :: "('d cJSON \<Rightarrow> string option option) \<Rightarrow> jobject \<Rightarrow> 'd jheap \<Rightarrow> string option" where
  "print_focus pr j H =
     (if GetJsonData j = 0 then Some ''''
      else do {
        t \<leftarrow> read_tree H (GetJsonData j);
        r \<leftarrow> pr t;
        Some (case r of None \<Rightarrow> '''' | Some s \<Rightarrow> s) })"

definition CJsonObject_ToString :: "'d jenv \<Rightarrow> jobject \<Rightarrow> 'd jheap \<Rightarrow> string option" where
  "CJsonObject_ToString E = print_focus (cJSON_PrintUnformatted (j_fpu E) (j_alloc E))"

definition ToFormattedString :: "'d jenv \<Rightarrow> jobject \<Rightarrow> 'd jheap \<Rightarrow> string option" where
  "ToFormattedString E = print_focus (cJSON_Print (j_fpu E) (j_alloc E))"

definition CJsonObject_text :: "'d jenv \<Rightarrow> string \<Rightarrow> 'd jheap \<Rightarrow> (jobject \<times> 'd jheap) option" where
  "CJsonObject_text E strJson H = map_option snd (Parse E strJson CJsonObject_new H)"

definition CJsonObject_copy :: "'d jenv \<Rightarrow> jobject \<Rightarrow> 'd jheap \<Rightarrow> (jobject \<times> 'd jheap) option" where
  "CJsonObject_copy E oJsonObject H = do {
     s \<leftarrow> CJsonObject_ToString E oJsonObject H;
     map_option snd (Parse E s CJsonObject_new H) }"

definition assign :: "'d jenv \<Rightarrow> jobject \<Rightarrow> jobject \<Rightarrow> 'd jheap \<Rightarrow> (jobject \<times> 'd jheap) option" where
  "assign E oJsonObject j H = do {
     s \<leftarrow> CJsonObject_ToString E oJsonObject H;
     map_option snd (Parse E (c_str s) j H) }"

definition equal_objects :: "'d jenv \<Rightarrow> jobject \<Rightarrow> jobject \<Rightarrow> 'd jheap \<Rightarrow> bool option" where
  "equal_objects E j1 j2 H = do {
     s1 \<leftarrow> CJsonObject_ToString E j1 H;
     s2 \<leftarrow> CJsonObject_ToString E j2 H;
     Some (s1 = s2) }"

definition IsEmpty :: "jobject \<Rightarrow> bool" where
  "IsEmpty j \<longleftrightarrow> m_pJsonData j = 0 \<and> m_pExternJsonDataRef j = 0"

definition IsArray :: "jobject \<Rightarrow> 'd jheap \<Rightarrow> bool option" where
  "IsArray j H = (if GetJsonData j = 0 then Some False else map_option (\<lambda>n. is_type n cJSON_Array) (cells H (GetJsonData j)))"

text \<open>The loop over the names ends; a name that is null is undefined.\<close>

partial_function (option) keys_loop :: "'d jheap \<Rightarrow> addr \<Rightarrow> string list \<Rightarrow> string list option" where
  "keys_loop H c vecKeys =
     (if c = 0 then Some vecKeys
      else do { n \<leftarrow> cells H c; k \<leftarrow> n_string n; keys_loop H (n_next n) (vecKeys @ [k]) })"

definition GetKeys :: "jobject \<Rightarrow> string list \<Rightarrow> 'd jheap \<Rightarrow> string list option" where
  "GetKeys j vecKeys H =
     (if GetJsonData j = 0 then Some vecKeys
      else do { n \<leftarrow> cells H (GetJsonData j); keys_loop H (n_child n) vecKeys })"

subsection \<open>Members and elements\<close>

definition find_member :: "string \<Rightarrow> jobject \<Rightarrow> 'd jheap \<Rightarrow> addr option" where
  "find_member strKey j H =
     (if GetJsonData j = 0 then Some 0
      else do {
        n \<leftarrow> cells H (GetJsonData j);
        if is_type n cJSON_Object then cJSON_GetObjectItem H (GetJsonData j) (c_str strKey) else Some 0 })"

definition find_element :: "int \<Rightarrow> jobject \<Rightarrow> 'd jheap \<Rightarrow> addr option" where
  "find_element iWhich j H =
     (if GetJsonData j = 0 then Some 0
      else do {
        n \<leftarrow> cells H (GetJsonData j);
        if is_type n cJSON_Array then cJSON_GetArrayItem H (GetJsonData j) iWhich else Some 0 })"

text \<open>A reference is to a node, or to nothing if there is no such member.\<close>

definition subscript_key :: "string \<Rightarrow> jobject \<Rightarrow> 'd jheap \<Rightarrow> (jobject \<times> jobject) option" where
  "subscript_key strKey j H =
     (case map_of (m_mapJsonObjectRef j) strKey of
        Some r \<Rightarrow> Some (r, j)
      | None \<Rightarrow> do {
          pJsonStruct \<leftarrow> find_member strKey j H;
          let r = (if pJsonStruct = 0 then CJsonObject_new else CJsonObject_ref pJsonStruct);
          Some (r, set_refs (m_mapJsonArrayRef j) ((strKey, r) # m_mapJsonObjectRef j) j) })"

definition subscript_index :: "u32 \<Rightarrow> jobject \<Rightarrow> 'd jheap \<Rightarrow> (jobject \<times> jobject) option" where
  "subscript_index uiWhich j H =
     (case map_of (m_mapJsonArrayRef j) uiWhich of
        Some r \<Rightarrow> Some (r, j)
      | None \<Rightarrow> do {
          pJsonStruct \<leftarrow> find_element (sint uiWhich) j H;
          let r = (if pJsonStruct = 0 then CJsonObject_new else CJsonObject_ref pJsonStruct);
          Some (r, set_refs ((uiWhich, r) # m_mapJsonArrayRef j) (m_mapJsonObjectRef j) j) })"

text \<open>
  The text of a node.  \<open>valueint\<close> is unsigned, so that it is never both at most \<open>INT_MAX\<close> and at least \<open>INT_MIN\<close>
  converted to \<open>uint64\<close>.  The text of a double is computed and not returned.
\<close>

definition JsonStruct2Str :: "addr \<Rightarrow> 'd jheap \<Rightarrow> string option" where
  "JsonStruct2Str p H =
     (if p = 0 then Some ''''
      else do {
        n \<leftarrow> cells H p;
        if is_type n cJSON_String then n_valuestring n
        else if is_type n cJSON_Int then
          Some (if n_sign n = - 1 then
                  (if n_valueint n \<le> 0x7FFFFFFF \<and> n_valueint n \<ge> 0xFFFFFFFF80000000 then int_text (sint (ucast (n_valueint n) :: u32))
                   else int_text (sint (n_valueint n)))
                else if n_valueint n \<le> 0xFFFFFFFF then dec_text (unat (ucast (n_valueint n) :: u32))
                else dec_text (unat (n_valueint n)))
        else if is_type n cJSON_Double then Some ''''
        else if is_type n cJSON_False then Some ''false''
        else if is_type n cJSON_True then Some ''true''
        else Some '''' })"

definition call_key_const :: "string \<Rightarrow> jobject \<Rightarrow> 'd jheap \<Rightarrow> string option" where
  "call_key_const strKey j H = do {
     p \<leftarrow> (case map_of (m_mapJsonObjectRef j) strKey of Some r \<Rightarrow> Some (GetJsonData r) | None \<Rightarrow> find_member strKey j H);
     JsonStruct2Str p H }"

definition call_key :: "string \<Rightarrow> jobject \<Rightarrow> 'd jheap \<Rightarrow> (string \<times> jobject) option" where
  "call_key strKey j H = do {
     (p, j) \<leftarrow>
       (case map_of (m_mapJsonObjectRef j) strKey of
          Some r \<Rightarrow> Some (GetJsonData r, j)
        | None \<Rightarrow> do {
            p \<leftarrow> find_member strKey j H;
            Some (p, if p \<noteq> 0 then set_refs (m_mapJsonArrayRef j) ((strKey, CJsonObject_ref p) # m_mapJsonObjectRef j) j else j) });
     s \<leftarrow> JsonStruct2Str p H;
     Some (s, j) }"

definition call_index_const :: "u32 \<Rightarrow> jobject \<Rightarrow> 'd jheap \<Rightarrow> string option" where
  "call_index_const uiWhich j H = do {
     p \<leftarrow> (case map_of (m_mapJsonArrayRef j) uiWhich of Some r \<Rightarrow> Some (GetJsonData r) | None \<Rightarrow> find_element (sint uiWhich) j H);
     JsonStruct2Str p H }"

definition call_index :: "u32 \<Rightarrow> jobject \<Rightarrow> 'd jheap \<Rightarrow> (string \<times> jobject) option" where
  "call_index uiWhich j H = do {
     (p, j) \<leftarrow>
       (case map_of (m_mapJsonArrayRef j) uiWhich of
          Some r \<Rightarrow> Some (GetJsonData r, j)
        | None \<Rightarrow> do {
            p \<leftarrow> find_element (sint uiWhich) j H;
            Some (p, if p \<noteq> 0 then set_refs ((uiWhich, CJsonObject_ref p) # m_mapJsonArrayRef j) (m_mapJsonObjectRef j) j else j) });
     s \<leftarrow> JsonStruct2Str p H;
     Some (s, j) }"

subsection \<open>Get\<close>

text \<open>\<open>Some (Some v)\<close> if the method returns true with the value \<open>v\<close>, \<open>Some None\<close> if it returns false.\<close>

definition get_at :: "('d node \<Rightarrow> 'v option option) \<Rightarrow> addr option \<Rightarrow> 'd jheap \<Rightarrow> 'v option option" where
  "get_at rd r H = do { p \<leftarrow> r; if p = 0 then Some None else do { n \<leftarrow> cells H p; rd n } }"

definition read_string :: "'d node \<Rightarrow> string option option" where
  "read_string n = (if is_type n cJSON_String then map_option Some (n_valuestring n) else Some None)"

definition read_word :: "(u64 \<Rightarrow> 'v) \<Rightarrow> 'd node \<Rightarrow> 'v option option" where
  "read_word f n = (if is_type n cJSON_Int then Some (Some (f (n_valueint n))) else Some None)"

definition read_bool :: "'d node \<Rightarrow> bool option option" where
  "read_bool n = (if is_type n cJSON_False then Some (Some False) else if is_type n cJSON_True then Some (Some True) else Some None)"

definition read_double :: "('d \<Rightarrow> 'v) \<Rightarrow> 'd node \<Rightarrow> 'v option option" where
  "read_double f n = (if is_type n cJSON_Double then Some (Some (f (n_valuedouble n))) else Some None)"

definition Get_string :: "string \<Rightarrow> jobject \<Rightarrow> 'd jheap \<Rightarrow> string option option" where
  "Get_string strKey j H = get_at read_string (find_member strKey j H) H"

definition Get_int32 :: "string \<Rightarrow> jobject \<Rightarrow> 'd jheap \<Rightarrow> int option option" where
  "Get_int32 strKey j H = get_at (read_word (\<lambda>v. sint (ucast v :: u32))) (find_member strKey j H) H"

definition Get_uint32 :: "string \<Rightarrow> jobject \<Rightarrow> 'd jheap \<Rightarrow> u32 option option" where
  "Get_uint32 strKey j H = get_at (read_word ucast) (find_member strKey j H) H"

definition Get_int64 :: "string \<Rightarrow> jobject \<Rightarrow> 'd jheap \<Rightarrow> int option option" where
  "Get_int64 strKey j H = get_at (read_word sint) (find_member strKey j H) H"

definition Get_uint64 :: "string \<Rightarrow> jobject \<Rightarrow> 'd jheap \<Rightarrow> u64 option option" where
  "Get_uint64 strKey j H = get_at (read_word (\<lambda>v. v)) (find_member strKey j H) H"

definition Get_bool :: "string \<Rightarrow> jobject \<Rightarrow> 'd jheap \<Rightarrow> bool option option" where
  "Get_bool strKey j H = get_at read_bool (find_member strKey j H) H"

definition Get_float :: "'d jenv \<Rightarrow> string \<Rightarrow> jobject \<Rightarrow> 'd jheap \<Rightarrow> 'd option option" where
  "Get_float E strKey j H = get_at (read_double (j_float E)) (find_member strKey j H) H"

definition Get_double :: "string \<Rightarrow> jobject \<Rightarrow> 'd jheap \<Rightarrow> 'd option option" where
  "Get_double strKey j H = get_at (read_double (\<lambda>d. d)) (find_member strKey j H) H"

definition Get_string_at :: "int \<Rightarrow> jobject \<Rightarrow> 'd jheap \<Rightarrow> string option option" where
  "Get_string_at iWhich j H = get_at read_string (find_element iWhich j H) H"

definition Get_int32_at :: "int \<Rightarrow> jobject \<Rightarrow> 'd jheap \<Rightarrow> int option option" where
  "Get_int32_at iWhich j H = get_at (read_word (\<lambda>v. sint (ucast v :: u32))) (find_element iWhich j H) H"

definition Get_uint32_at :: "int \<Rightarrow> jobject \<Rightarrow> 'd jheap \<Rightarrow> u32 option option" where
  "Get_uint32_at iWhich j H = get_at (read_word ucast) (find_element iWhich j H) H"

definition Get_int64_at :: "int \<Rightarrow> jobject \<Rightarrow> 'd jheap \<Rightarrow> int option option" where
  "Get_int64_at iWhich j H = get_at (read_word sint) (find_element iWhich j H) H"

definition Get_uint64_at :: "int \<Rightarrow> jobject \<Rightarrow> 'd jheap \<Rightarrow> u64 option option" where
  "Get_uint64_at iWhich j H = get_at (read_word (\<lambda>v. v)) (find_element iWhich j H) H"

definition Get_bool_at :: "int \<Rightarrow> jobject \<Rightarrow> 'd jheap \<Rightarrow> bool option option" where
  "Get_bool_at iWhich j H = get_at read_bool (find_element iWhich j H) H"

definition Get_float_at :: "'d jenv \<Rightarrow> int \<Rightarrow> jobject \<Rightarrow> 'd jheap \<Rightarrow> 'd option option" where
  "Get_float_at E iWhich j H = get_at (read_double (j_float E)) (find_element iWhich j H) H"

definition Get_double_at :: "int \<Rightarrow> jobject \<Rightarrow> 'd jheap \<Rightarrow> 'd option option" where
  "Get_double_at iWhich j H = get_at (read_double (\<lambda>d. d)) (find_element iWhich j H) H"

text \<open>A member that is itself an object: its text is printed and parsed into \<open>oJsonObject\<close>.\<close>

definition get_object :: "'d jenv \<Rightarrow> addr option \<Rightarrow> jobject \<Rightarrow> 'd jheap \<Rightarrow> (bool \<times> jobject \<times> 'd jheap) option" where
  "get_object E r oJsonObject H = do {
     p \<leftarrow> r;
     if p = 0 then Some (False, oJsonObject, H)
     else do {
       t \<leftarrow> read_tree H p;
       s \<leftarrow> cJSON_Print (j_fpu E) (j_alloc E) t;
       s \<leftarrow> s;
       Parse E s oJsonObject H } }"

definition Get_object :: "'d jenv \<Rightarrow> string \<Rightarrow> jobject \<Rightarrow> jobject \<Rightarrow> 'd jheap \<Rightarrow> (bool \<times> jobject \<times> 'd jheap) option" where
  "Get_object E strKey j oJsonObject H = get_object E (find_member strKey j H) oJsonObject H"

definition Get_object_at :: "'d jenv \<Rightarrow> int \<Rightarrow> jobject \<Rightarrow> jobject \<Rightarrow> 'd jheap \<Rightarrow> (bool \<times> jobject \<times> 'd jheap) option" where
  "Get_object_at E iWhich j oJsonObject H = get_object E (find_element iWhich j H) oJsonObject H"

definition GetArraySize :: "jobject \<Rightarrow> 'd jheap \<Rightarrow> int option" where
  "GetArraySize j H =
     (if GetJsonData j = 0 then Some 0
      else do {
        n \<leftarrow> cells H (GetJsonData j);
        if is_type n cJSON_Array then cJSON_GetArraySize H (GetJsonData j) else Some 0 })"

subsection \<open>New nodes for values\<close>

type_synonym 'd creation = "'d jheap \<Rightarrow> (string option + addr \<times> 'd jheap) option"

text \<open>The node of a value, or the failure with the message that it leaves.\<close>

definition created :: "(addr \<times> 'd jheap) option \<Rightarrow> (string option + addr \<times> 'd jheap) option" where
  "created r = do { (p, H) \<leftarrow> r; Some (if p = 0 then Inl None else Inr (p, H)) }"

definition new_string :: "'d jenv \<Rightarrow> string \<Rightarrow> 'd creation" where
  "new_string E strValue H = created (cJSON_CreateString (j_fpu E) (j_alloc E) (c_str strValue) H)"

definition new_int :: "'d jenv \<Rightarrow> u64 \<Rightarrow> int \<Rightarrow> 'd creation" where
  "new_int E v sg H = created (cJSON_CreateInt (j_fpu E) (j_alloc E) v sg H)"

definition new_bool :: "'d jenv \<Rightarrow> bool \<Rightarrow> 'd creation" where
  "new_bool E bValue H = created (cJSON_CreateBool (j_fpu E) (j_alloc E) bValue H)"

definition new_double :: "'d jenv \<Rightarrow> 'd \<Rightarrow> 'd creation" where
  "new_double E dValue H = created (cJSON_CreateDouble (j_fpu E) (j_alloc E) dValue (- 1) H)"

definition new_object :: "'d jenv \<Rightarrow> jobject \<Rightarrow> 'd creation" where
  "new_object E oJsonObject H = do {
     s \<leftarrow> CJsonObject_ToString E oJsonObject H;
     r \<leftarrow> parse_new E (c_str s) H;
     Some (case r of Inl msg \<Rightarrow> Inl (Some msg) | Inr x \<Rightarrow> Inr x) }"

definition fail_with :: "string option \<Rightarrow> jobject \<Rightarrow> jobject" where
  "fail_with msg j = (case msg of None \<Rightarrow> j | Some m \<Rightarrow> set_err m j)"

subsection \<open>The references of an object\<close>

definition drop_key :: "string \<Rightarrow> jobject \<Rightarrow> 'd jheap \<Rightarrow> (jobject \<times> 'd jheap) option" where
  "drop_key strKey j H =
     (case map_of (m_mapJsonObjectRef j) strKey of
        None \<Rightarrow> Some (j, H)
      | Some r \<Rightarrow> do {
          H \<leftarrow> delete_objects [r] H;
          Some (set_refs (m_mapJsonArrayRef j) (filter (\<lambda>kv. fst kv \<noteq> strKey) (m_mapJsonObjectRef j)) j, H) })"

definition drop_indices :: "(u32 \<Rightarrow> bool) \<Rightarrow> jobject \<Rightarrow> 'd jheap \<Rightarrow> (jobject \<times> 'd jheap) option" where
  "drop_indices P j H = do {
     H \<leftarrow> delete_objects (map snd (filter (\<lambda>kv. P (fst kv)) (m_mapJsonArrayRef j))) H;
     Some (set_refs (filter (\<lambda>kv. \<not> P (fst kv)) (m_mapJsonArrayRef j)) (m_mapJsonObjectRef j) j, H) }"

definition no_drop :: "jobject \<Rightarrow> 'd jheap \<Rightarrow> (jobject \<times> 'd jheap) option" where
  "no_drop j H = Some (j, H)"

subsection \<open>Changing the tree\<close>

text \<open>The node a method works on; \<open>Add\<close> creates it if the object is empty.\<close>

definition focus_or_new :: "('d jheap \<Rightarrow> (addr \<times> 'd jheap) option) \<Rightarrow> jobject \<Rightarrow> 'd jheap \<Rightarrow> (addr \<times> jobject \<times> 'd jheap) option" where
  "focus_or_new mk j H =
     (if GetJsonData j \<noteq> 0 then Some (GetJsonData j, j, H)
      else do { (p, H) \<leftarrow> mk H; Some (p, set_data p j, H) })"

definition with_container :: "json_type \<Rightarrow> addr \<Rightarrow> jobject \<Rightarrow> 'd jheap
    \<Rightarrow> (jobject \<Rightarrow> 'd jheap \<Rightarrow> (bool \<times> jobject \<times> 'd jheap) option) \<Rightarrow> (bool \<times> jobject \<times> 'd jheap) option" where
  "with_container ty p j H k =
     (if p = 0 then Some (False, set_err ''json data is null!'' j, H)
      else do {
        n \<leftarrow> cells H p;
        if \<not> is_type n ty
        then Some (False, set_err (if ty = cJSON_Object then ''not a json object! json array?'' else ''not a json array! json object?'') j, H)
        else k j H })"

text \<open>The new node of a method, or its failure.\<close>

definition with_new :: "'d creation \<Rightarrow> jobject \<Rightarrow> 'd jheap
    \<Rightarrow> (addr \<Rightarrow> 'd jheap \<Rightarrow> (bool \<times> jobject \<times> 'd jheap) option) \<Rightarrow> (bool \<times> jobject \<times> 'd jheap) option" where
  "with_new mk j H k = do {
     r \<leftarrow> mk H;
     (case r of Inl msg \<Rightarrow> Some (False, fail_with msg j, H) | Inr (p, H) \<Rightarrow> k p H) }"

definition success :: "(jobject \<times> 'd jheap) option \<Rightarrow> (bool \<times> jobject \<times> 'd jheap) option" where
  "success r = map_option (Pair True) r"

definition add_member :: "'d jenv \<Rightarrow> 'd creation \<Rightarrow> (jobject \<Rightarrow> 'd jheap \<Rightarrow> (jobject \<times> 'd jheap) option) \<Rightarrow> string
    \<Rightarrow> jobject \<Rightarrow> 'd jheap \<Rightarrow> (bool \<times> jobject \<times> 'd jheap) option" where
  "add_member E mk clean strKey j H = do {
     (p, j, H) \<leftarrow> focus_or_new (cJSON_CreateObject (j_fpu E) (j_alloc E)) j H;
     with_container cJSON_Object p j H (\<lambda>j H.
       with_new mk j H (\<lambda>c H. do {
         H \<leftarrow> cJSON_AddItemToObject (j_alloc E) p (c_str strKey) c H;
         g \<leftarrow> cJSON_GetObjectItem H p (c_str strKey);
         if g = 0 then Some (False, j, H) else success (clean j H) })) }"

definition replace_member :: "'d jenv \<Rightarrow> 'd creation \<Rightarrow> (jobject \<Rightarrow> 'd jheap \<Rightarrow> (jobject \<times> 'd jheap) option) \<Rightarrow> string
    \<Rightarrow> jobject \<Rightarrow> 'd jheap \<Rightarrow> (bool \<times> jobject \<times> 'd jheap) option" where
  "replace_member E mk clean strKey j H =
     (let p = GetJsonData j in
      with_container cJSON_Object p j H (\<lambda>j H.
        with_new mk j H (\<lambda>c H. do {
          H \<leftarrow> cJSON_ReplaceItemInObject (j_alloc E) p (c_str strKey) c H;
          g \<leftarrow> cJSON_GetObjectItem H p (c_str strKey);
          if g = 0 then Some (False, j, H) else success (clean j H) })))"

text \<open>Adding an element at the end or as the first; the sizes before and after are compared.\<close>

definition add_element :: "'d jenv \<Rightarrow> (addr \<Rightarrow> addr \<Rightarrow> 'd jheap \<Rightarrow> 'd jheap option) \<Rightarrow> 'd creation
    \<Rightarrow> (int \<Rightarrow> jobject \<Rightarrow> 'd jheap \<Rightarrow> (jobject \<times> 'd jheap) option) \<Rightarrow> jobject \<Rightarrow> 'd jheap \<Rightarrow> (bool \<times> jobject \<times> 'd jheap) option" where
  "add_element E link mk clean j H = do {
     (p, j, H) \<leftarrow> focus_or_new (cJSON_CreateArray (j_fpu E) (j_alloc E)) j H;
     with_container cJSON_Array p j H (\<lambda>j H.
       with_new mk j H (\<lambda>c H. do {
         before \<leftarrow> cJSON_GetArraySize H p;
         H \<leftarrow> link p c H;
         after \<leftarrow> cJSON_GetArraySize H p;
         if after = before then Some (False, j, H) else success (clean after j H) })) }"

definition replace_element :: "'d creation \<Rightarrow> (jobject \<Rightarrow> 'd jheap \<Rightarrow> (jobject \<times> 'd jheap) option) \<Rightarrow> int
    \<Rightarrow> jobject \<Rightarrow> 'd jheap \<Rightarrow> (bool \<times> jobject \<times> 'd jheap) option" where
  "replace_element mk clean iWhich j H =
     (let p = GetJsonData j in
      with_container cJSON_Array p j H (\<lambda>j H.
        with_new mk j H (\<lambda>c H. do {
          H \<leftarrow> cJSON_ReplaceItemInArray p iWhich c H;
          g \<leftarrow> cJSON_GetArrayItem H p iWhich;
          if g = 0 then Some (False, j, H) else success (clean j H) })))"

definition AddEmptySubObject :: "'d jenv \<Rightarrow> string \<Rightarrow> jobject \<Rightarrow> 'd jheap \<Rightarrow> (bool \<times> jobject \<times> 'd jheap) option" where
  "AddEmptySubObject E strKey j H = do {
     (p, j, H) \<leftarrow> focus_or_new (cJSON_CreateObject (j_fpu E) (j_alloc E)) j H;
     with_container cJSON_Object p j H (\<lambda>j H. do {
       (c, H) \<leftarrow> cJSON_CreateObject (j_fpu E) (j_alloc E) H;
       if c = 0 then Some (False, set_err ''create sub empty object error!'' j, H)
       else do { H \<leftarrow> cJSON_AddItemToObject (j_alloc E) p (c_str strKey) c H; Some (True, j, H) } }) }"

definition AddEmptySubArray :: "'d jenv \<Rightarrow> string \<Rightarrow> jobject \<Rightarrow> 'd jheap \<Rightarrow> (bool \<times> jobject \<times> 'd jheap) option" where
  "AddEmptySubArray E strKey j H = do {
     (p, j, H) \<leftarrow> focus_or_new (cJSON_CreateObject (j_fpu E) (j_alloc E)) j H;
     with_container cJSON_Object p j H (\<lambda>j H. do {
       (c, H) \<leftarrow> cJSON_CreateArray (j_fpu E) (j_alloc E) H;
       if c = 0 then Some (False, set_err ''create sub empty array error!'' j, H)
       else do { H \<leftarrow> cJSON_AddItemToObject (j_alloc E) p (c_str strKey) c H; Some (True, j, H) } }) }"

definition Delete_key :: "string \<Rightarrow> jobject \<Rightarrow> 'd jheap \<Rightarrow> (bool \<times> jobject \<times> 'd jheap) option" where
  "Delete_key strKey j H =
     (let p = GetJsonData j in
      with_container cJSON_Object p j H (\<lambda>j H. do {
        H \<leftarrow> cJSON_DeleteItemFromObject p (c_str strKey) H;
        success (drop_key strKey j H) }))"

definition Delete_at :: "int \<Rightarrow> jobject \<Rightarrow> 'd jheap \<Rightarrow> (bool \<times> jobject \<times> 'd jheap) option" where
  "Delete_at iWhich j H =
     (let p = GetJsonData j in
      with_container cJSON_Array p j H (\<lambda>j H. do {
        H \<leftarrow> cJSON_DeleteItemFromArray p iWhich H;
        success (drop_indices (\<lambda>i. i \<ge> word_of_int iWhich) j H) }))"

subsection \<open>The overloads\<close>

text \<open>The methods for an object drop the reference to the member that they replace or hide; those for a value do not.\<close>

definition Add_object :: "'d jenv \<Rightarrow> string \<Rightarrow> jobject \<Rightarrow> jobject \<Rightarrow> 'd jheap \<Rightarrow> (bool \<times> jobject \<times> 'd jheap) option" where
  "Add_object E strKey oJsonObject = add_member E (new_object E oJsonObject) (drop_key strKey) strKey"

definition Add_string :: "'d jenv \<Rightarrow> string \<Rightarrow> string \<Rightarrow> jobject \<Rightarrow> 'd jheap \<Rightarrow> (bool \<times> jobject \<times> 'd jheap) option" where
  "Add_string E strKey strValue = add_member E (new_string E strValue) no_drop strKey"

definition Add_int32 :: "'d jenv \<Rightarrow> string \<Rightarrow> int \<Rightarrow> jobject \<Rightarrow> 'd jheap \<Rightarrow> (bool \<times> jobject \<times> 'd jheap) option" where
  "Add_int32 E strKey iValue = add_member E (new_int E (word_of_int iValue) (- 1)) no_drop strKey"

definition Add_uint32 :: "'d jenv \<Rightarrow> string \<Rightarrow> u32 \<Rightarrow> jobject \<Rightarrow> 'd jheap \<Rightarrow> (bool \<times> jobject \<times> 'd jheap) option" where
  "Add_uint32 E strKey uiValue = add_member E (new_int E (ucast uiValue) 1) no_drop strKey"

definition Add_int64 :: "'d jenv \<Rightarrow> string \<Rightarrow> int \<Rightarrow> jobject \<Rightarrow> 'd jheap \<Rightarrow> (bool \<times> jobject \<times> 'd jheap) option" where
  "Add_int64 E strKey llValue = add_member E (new_int E (word_of_int llValue) (- 1)) no_drop strKey"

definition Add_uint64 :: "'d jenv \<Rightarrow> string \<Rightarrow> u64 \<Rightarrow> jobject \<Rightarrow> 'd jheap \<Rightarrow> (bool \<times> jobject \<times> 'd jheap) option" where
  "Add_uint64 E strKey ullValue = add_member E (new_int E ullValue 1) no_drop strKey"

definition Add_bool :: "'d jenv \<Rightarrow> string \<Rightarrow> bool \<Rightarrow> jobject \<Rightarrow> 'd jheap \<Rightarrow> (bool \<times> jobject \<times> 'd jheap) option" where
  "Add_bool E strKey bValue = add_member E (new_bool E bValue) no_drop strKey"

definition Add_float :: "'d jenv \<Rightarrow> string \<Rightarrow> 'd \<Rightarrow> jobject \<Rightarrow> 'd jheap \<Rightarrow> (bool \<times> jobject \<times> 'd jheap) option" where
  "Add_float E strKey fValue = add_member E (new_double E fValue) no_drop strKey"

definition Add_double :: "'d jenv \<Rightarrow> string \<Rightarrow> 'd \<Rightarrow> jobject \<Rightarrow> 'd jheap \<Rightarrow> (bool \<times> jobject \<times> 'd jheap) option" where
  "Add_double E strKey dValue = add_member E (new_double E dValue) no_drop strKey"

definition Replace_object :: "'d jenv \<Rightarrow> string \<Rightarrow> jobject \<Rightarrow> jobject \<Rightarrow> 'd jheap \<Rightarrow> (bool \<times> jobject \<times> 'd jheap) option" where
  "Replace_object E strKey oJsonObject = replace_member E (new_object E oJsonObject) (drop_key strKey) strKey"

definition Replace_string :: "'d jenv \<Rightarrow> string \<Rightarrow> string \<Rightarrow> jobject \<Rightarrow> 'd jheap \<Rightarrow> (bool \<times> jobject \<times> 'd jheap) option" where
  "Replace_string E strKey strValue = replace_member E (new_string E strValue) no_drop strKey"

definition Replace_int32 :: "'d jenv \<Rightarrow> string \<Rightarrow> int \<Rightarrow> jobject \<Rightarrow> 'd jheap \<Rightarrow> (bool \<times> jobject \<times> 'd jheap) option" where
  "Replace_int32 E strKey iValue = replace_member E (new_int E (word_of_int iValue) (- 1)) no_drop strKey"

definition Replace_uint32 :: "'d jenv \<Rightarrow> string \<Rightarrow> u32 \<Rightarrow> jobject \<Rightarrow> 'd jheap \<Rightarrow> (bool \<times> jobject \<times> 'd jheap) option" where
  "Replace_uint32 E strKey uiValue = replace_member E (new_int E (ucast uiValue) 1) no_drop strKey"

definition Replace_int64 :: "'d jenv \<Rightarrow> string \<Rightarrow> int \<Rightarrow> jobject \<Rightarrow> 'd jheap \<Rightarrow> (bool \<times> jobject \<times> 'd jheap) option" where
  "Replace_int64 E strKey llValue = replace_member E (new_int E (word_of_int llValue) (- 1)) no_drop strKey"

definition Replace_uint64 :: "'d jenv \<Rightarrow> string \<Rightarrow> u64 \<Rightarrow> jobject \<Rightarrow> 'd jheap \<Rightarrow> (bool \<times> jobject \<times> 'd jheap) option" where
  "Replace_uint64 E strKey ullValue = replace_member E (new_int E ullValue 1) no_drop strKey"

definition Replace_bool :: "'d jenv \<Rightarrow> string \<Rightarrow> bool \<Rightarrow> jobject \<Rightarrow> 'd jheap \<Rightarrow> (bool \<times> jobject \<times> 'd jheap) option" where
  "Replace_bool E strKey bValue = replace_member E (new_bool E bValue) no_drop strKey"

definition Replace_float :: "'d jenv \<Rightarrow> string \<Rightarrow> 'd \<Rightarrow> jobject \<Rightarrow> 'd jheap \<Rightarrow> (bool \<times> jobject \<times> 'd jheap) option" where
  "Replace_float E strKey fValue = replace_member E (new_double E fValue) no_drop strKey"

definition Replace_double :: "'d jenv \<Rightarrow> string \<Rightarrow> 'd \<Rightarrow> jobject \<Rightarrow> 'd jheap \<Rightarrow> (bool \<times> jobject \<times> 'd jheap) option" where
  "Replace_double E strKey dValue = replace_member E (new_double E dValue) no_drop strKey"

definition Push_object :: "'d jenv \<Rightarrow> jobject \<Rightarrow> jobject \<Rightarrow> 'd jheap \<Rightarrow> (bool \<times> jobject \<times> 'd jheap) option" where
  "Push_object E oJsonObject = add_element E cJSON_AddItemToArray (new_object E oJsonObject) (\<lambda>n. drop_indices (\<lambda>i. i \<ge> word_of_int n - 1))"

definition Push_string :: "'d jenv \<Rightarrow> string \<Rightarrow> jobject \<Rightarrow> 'd jheap \<Rightarrow> (bool \<times> jobject \<times> 'd jheap) option" where
  "Push_string E strValue = add_element E cJSON_AddItemToArray (new_string E strValue) (\<lambda>_. no_drop)"

definition Push_int32 :: "'d jenv \<Rightarrow> int \<Rightarrow> jobject \<Rightarrow> 'd jheap \<Rightarrow> (bool \<times> jobject \<times> 'd jheap) option" where
  "Push_int32 E iValue = add_element E cJSON_AddItemToArray (new_int E (word_of_int iValue) (- 1)) (\<lambda>_. no_drop)"

definition Push_uint32 :: "'d jenv \<Rightarrow> u32 \<Rightarrow> jobject \<Rightarrow> 'd jheap \<Rightarrow> (bool \<times> jobject \<times> 'd jheap) option" where
  "Push_uint32 E uiValue = add_element E cJSON_AddItemToArray (new_int E (ucast uiValue) 1) (\<lambda>_. no_drop)"

definition Push_int64 :: "'d jenv \<Rightarrow> int \<Rightarrow> jobject \<Rightarrow> 'd jheap \<Rightarrow> (bool \<times> jobject \<times> 'd jheap) option" where
  "Push_int64 E llValue = add_element E cJSON_AddItemToArray (new_int E (word_of_int llValue) (- 1)) (\<lambda>_. no_drop)"

definition Push_uint64 :: "'d jenv \<Rightarrow> u64 \<Rightarrow> jobject \<Rightarrow> 'd jheap \<Rightarrow> (bool \<times> jobject \<times> 'd jheap) option" where
  "Push_uint64 E ullValue = add_element E cJSON_AddItemToArray (new_int E ullValue 1) (\<lambda>_. no_drop)"

definition Push_bool :: "'d jenv \<Rightarrow> bool \<Rightarrow> jobject \<Rightarrow> 'd jheap \<Rightarrow> (bool \<times> jobject \<times> 'd jheap) option" where
  "Push_bool E bValue = add_element E cJSON_AddItemToArray (new_bool E bValue) (\<lambda>_. no_drop)"

definition Push_float :: "'d jenv \<Rightarrow> 'd \<Rightarrow> jobject \<Rightarrow> 'd jheap \<Rightarrow> (bool \<times> jobject \<times> 'd jheap) option" where
  "Push_float E fValue = add_element E cJSON_AddItemToArray (new_double E fValue) (\<lambda>_. no_drop)"

definition Push_double :: "'d jenv \<Rightarrow> 'd \<Rightarrow> jobject \<Rightarrow> 'd jheap \<Rightarrow> (bool \<times> jobject \<times> 'd jheap) option" where
  "Push_double E dValue = add_element E cJSON_AddItemToArray (new_double E dValue) (\<lambda>_. no_drop)"

definition AddAsFirst_object :: "'d jenv \<Rightarrow> jobject \<Rightarrow> jobject \<Rightarrow> 'd jheap \<Rightarrow> (bool \<times> jobject \<times> 'd jheap) option" where
  "AddAsFirst_object E oJsonObject = add_element E cJSON_AddItemToArrayHead (new_object E oJsonObject) (\<lambda>_. drop_indices (\<lambda>_. True))"

definition AddAsFirst_string :: "'d jenv \<Rightarrow> string \<Rightarrow> jobject \<Rightarrow> 'd jheap \<Rightarrow> (bool \<times> jobject \<times> 'd jheap) option" where
  "AddAsFirst_string E strValue = add_element E cJSON_AddItemToArrayHead (new_string E strValue) (\<lambda>_. no_drop)"

definition AddAsFirst_int32 :: "'d jenv \<Rightarrow> int \<Rightarrow> jobject \<Rightarrow> 'd jheap \<Rightarrow> (bool \<times> jobject \<times> 'd jheap) option" where
  "AddAsFirst_int32 E iValue = add_element E cJSON_AddItemToArrayHead (new_int E (word_of_int iValue) (- 1)) (\<lambda>_. no_drop)"

definition AddAsFirst_uint32 :: "'d jenv \<Rightarrow> u32 \<Rightarrow> jobject \<Rightarrow> 'd jheap \<Rightarrow> (bool \<times> jobject \<times> 'd jheap) option" where
  "AddAsFirst_uint32 E uiValue = add_element E cJSON_AddItemToArrayHead (new_int E (ucast uiValue) (- 1)) (\<lambda>_. no_drop)"

definition AddAsFirst_int64 :: "'d jenv \<Rightarrow> int \<Rightarrow> jobject \<Rightarrow> 'd jheap \<Rightarrow> (bool \<times> jobject \<times> 'd jheap) option" where
  "AddAsFirst_int64 E llValue = add_element E cJSON_AddItemToArrayHead (new_int E (word_of_int llValue) (- 1)) (\<lambda>_. no_drop)"

definition AddAsFirst_uint64 :: "'d jenv \<Rightarrow> u64 \<Rightarrow> jobject \<Rightarrow> 'd jheap \<Rightarrow> (bool \<times> jobject \<times> 'd jheap) option" where
  "AddAsFirst_uint64 E ullValue = add_element E cJSON_AddItemToArrayHead (new_int E ullValue (- 1)) (\<lambda>_. no_drop)"

definition AddAsFirst_bool :: "'d jenv \<Rightarrow> bool \<Rightarrow> jobject \<Rightarrow> 'd jheap \<Rightarrow> (bool \<times> jobject \<times> 'd jheap) option" where
  "AddAsFirst_bool E bValue = add_element E cJSON_AddItemToArrayHead (new_bool E bValue) (\<lambda>_. no_drop)"

definition AddAsFirst_float :: "'d jenv \<Rightarrow> 'd \<Rightarrow> jobject \<Rightarrow> 'd jheap \<Rightarrow> (bool \<times> jobject \<times> 'd jheap) option" where
  "AddAsFirst_float E fValue = add_element E cJSON_AddItemToArrayHead (new_double E fValue) (\<lambda>_. no_drop)"

definition AddAsFirst_double :: "'d jenv \<Rightarrow> 'd \<Rightarrow> jobject \<Rightarrow> 'd jheap \<Rightarrow> (bool \<times> jobject \<times> 'd jheap) option" where
  "AddAsFirst_double E dValue = add_element E cJSON_AddItemToArrayHead (new_double E dValue) (\<lambda>_. no_drop)"

definition Replace_object_at :: "'d jenv \<Rightarrow> int \<Rightarrow> jobject \<Rightarrow> jobject \<Rightarrow> 'd jheap \<Rightarrow> (bool \<times> jobject \<times> 'd jheap) option" where
  "Replace_object_at E iWhich oJsonObject = replace_element (new_object E oJsonObject) (drop_indices (\<lambda>i. i = word_of_int iWhich)) iWhich"

definition Replace_string_at :: "'d jenv \<Rightarrow> int \<Rightarrow> string \<Rightarrow> jobject \<Rightarrow> 'd jheap \<Rightarrow> (bool \<times> jobject \<times> 'd jheap) option" where
  "Replace_string_at E iWhich strValue = replace_element (new_string E strValue) no_drop iWhich"

definition Replace_int32_at :: "'d jenv \<Rightarrow> int \<Rightarrow> int \<Rightarrow> jobject \<Rightarrow> 'd jheap \<Rightarrow> (bool \<times> jobject \<times> 'd jheap) option" where
  "Replace_int32_at E iWhich iValue = replace_element (new_int E (word_of_int iValue) (- 1)) no_drop iWhich"

definition Replace_uint32_at :: "'d jenv \<Rightarrow> int \<Rightarrow> u32 \<Rightarrow> jobject \<Rightarrow> 'd jheap \<Rightarrow> (bool \<times> jobject \<times> 'd jheap) option" where
  "Replace_uint32_at E iWhich uiValue = replace_element (new_int E (ucast uiValue) 1) no_drop iWhich"

definition Replace_int64_at :: "'d jenv \<Rightarrow> int \<Rightarrow> int \<Rightarrow> jobject \<Rightarrow> 'd jheap \<Rightarrow> (bool \<times> jobject \<times> 'd jheap) option" where
  "Replace_int64_at E iWhich llValue = replace_element (new_int E (word_of_int llValue) (- 1)) no_drop iWhich"

definition Replace_uint64_at :: "'d jenv \<Rightarrow> int \<Rightarrow> u64 \<Rightarrow> jobject \<Rightarrow> 'd jheap \<Rightarrow> (bool \<times> jobject \<times> 'd jheap) option" where
  "Replace_uint64_at E iWhich ullValue = replace_element (new_int E ullValue 1) no_drop iWhich"

definition Replace_bool_at :: "'d jenv \<Rightarrow> int \<Rightarrow> bool \<Rightarrow> jobject \<Rightarrow> 'd jheap \<Rightarrow> (bool \<times> jobject \<times> 'd jheap) option" where
  "Replace_bool_at E iWhich bValue = replace_element (new_bool E bValue) no_drop iWhich"

definition Replace_float_at :: "'d jenv \<Rightarrow> int \<Rightarrow> 'd \<Rightarrow> jobject \<Rightarrow> 'd jheap \<Rightarrow> (bool \<times> jobject \<times> 'd jheap) option" where
  "Replace_float_at E iWhich fValue = replace_element (new_double E fValue) no_drop iWhich"

definition Replace_double_at :: "'d jenv \<Rightarrow> int \<Rightarrow> 'd \<Rightarrow> jobject \<Rightarrow> 'd jheap \<Rightarrow> (bool \<times> jobject \<times> 'd jheap) option" where
  "Replace_double_at E iWhich dValue = replace_element (new_double E dValue) no_drop iWhich"

subsection \<open>Members of an object\<close>

text \<open>An object whose tree is an object node, and the first member with a name.\<close>

definition json_holds :: "jobject \<Rightarrow> 'd cJSON \<Rightarrow> 'd jheap \<Rightarrow> bool" where
  "json_holds j t H \<longleftrightarrow> heap_ok H \<and> GetJsonData j \<noteq> 0 \<and> node_type t = cJSON_Object \<and> \<not> is_reference t \<and> (\<forall>c \<in> set (child t). owned c)
     \<and> (\<exists>nx pv A. holds H (GetJsonData j) nx pv t A)"

definition member :: "string \<Rightarrow> 'd cJSON \<Rightarrow> 'd cJSON option" where
  "member s t = find (key_is s) (child t)"

lemma strcase_refl: "strcase_loop s s = 0"
  by (induction s) auto

lemma key_is_set [simp]: "key_is s (set_node_string (Some s) x)"
  by (cases x) (simp add: cJSON_strcasecmp_def strcase_refl)

lemma set_child_type [simp]: "node_type (set_child cs t) = node_type t" "is_reference (set_child cs t) = is_reference t"
  "is_reference (set_node_string s t) = is_reference t"
  by (cases t; simp)+

lemma find_skip: "\<forall>c \<in> set xs. \<not> P c \<Longrightarrow> find P (xs @ ys) = find P ys"
  by (induction xs) auto

lemma member_split:
  "(member s t = None \<and> (\<forall>c \<in> set (child t). \<not> key_is s c))
   \<or> (\<exists>xs y ys. member s t = Some y \<and> child t = xs @ y # ys \<and> key_is s y \<and> (\<forall>c \<in> set xs. \<not> key_is s c))"
proof (cases "member s t")
  case None
  then show ?thesis by (auto simp: member_def find_None_iff)
next
  case (Some y)
  then have "y \<in> set (child t)" "key_is s y" by (auto simp: member_def find_Some_iff)
  then obtain xs z ys where "child t = xs @ z # ys" "key_is s z" "\<forall>c \<in> set xs. \<not> key_is s c" using split_list_first_prop [of "child t" "key_is s"] by blast
  moreover have "member s t = Some z" using calculation by (simp add: member_def find_skip)
  ultimately show ?thesis by blast
qed

lemma key_loop_none:
  assumes "holds H a nx pv t A" "member s t = None"
  shows "\<exists>ch. cells H a = Some (mk_node t nx pv ch) \<and> (\<exists>i. key_loop H ch s 0 = Some (0, i))"
proof -
  from assms(1) obtain ch l where c: "cells H a = Some (mk_node t nx pv ch)" "seg H ch 0 (child t) 0 l A" unfolding holds_def by blast
  have "\<And>c. c \<in> set (child t) \<Longrightarrow> \<not> key_is s c" using member_split [of s t] assms(2) by auto
  from key_loop_seg [OF c(2) this, of 0] c(1) show ?thesis by auto
qed

lemma key_loop_found:
  assumes "holds H a nx pv t A" "child t = xs @ y # ys" "key_is s y" "\<forall>c \<in> set xs. \<not> key_is s c"
  shows "\<exists>ch p nx' pv' B. cells H a = Some (mk_node t nx pv ch) \<and> key_loop H ch s 0 = Some (p, int (length xs)) \<and> holds H p nx' pv' y B"
proof -
  from assms(1) obtain ch l where c: "cells H a = Some (mk_node t nx pv ch)" "seg H ch 0 (xs @ y # ys) 0 l A" using assms(2) unfolding holds_def by auto
  from c(2) obtain m k nx' chy lc A1 B1 B2 where s: "seg H ch 0 xs m k A1" "m \<noteq> 0" "cells H m = Some (mk_node y nx' k chy)" "seg H chy 0 (child y) 0 lc B1"
    "seg H nx' m ys 0 l B2" "A = A1 \<union> insert m (B1 \<union> B2)" "A1 \<inter> insert m (B1 \<union> B2) = {}" "m \<notin> B1 \<union> B2" "B1 \<inter> B2 = {}" by (rule seg_split)
  have "key_loop H ch s 0 = Some (m, int (length xs))" using key_loop_seg [OF s(1), of s 0] assms(3,4) s(3) by auto
  moreover have "holds H m nx' k y B1" using s(2-4,8) by (intro holdsI) auto
  ultimately show ?thesis using c(1) by blast
qed

text \<open>The node found, also in heaps that agree on the tree.\<close>

lemma found_at:
  assumes "holds H a nx pv t A" "child t = xs @ y # ys" "key_is s y" "\<forall>c \<in> set xs. \<not> key_is s c"
  shows "\<exists>ch p. p \<noteq> 0 \<and> p \<in> A \<and> (\<forall>H'. (\<forall>q \<in> insert a A. cells H' q = cells H q) \<longrightarrow>
    cells H' a = Some (mk_node t nx pv ch) \<and> key_loop H' ch s 0 = Some (p, int (length xs)) \<and> item_loop H' ch (int (length xs)) = Some p)"
proof -
  from assms(1) obtain ch l where c: "cells H a = Some (mk_node t nx pv ch)" "seg H ch 0 (xs @ y # ys) 0 l A" using assms(2) unfolding holds_def by auto
  from c(2) obtain m k nx' chy lc A1 B1 B2 where s: "seg H ch 0 xs m k A1" "m \<noteq> 0" "cells H m = Some (mk_node y nx' k chy)" "seg H chy 0 (child y) 0 lc B1"
    "seg H nx' m ys 0 l B2" "A = A1 \<union> insert m (B1 \<union> B2)" "A1 \<inter> insert m (B1 \<union> B2) = {}" "m \<notin> B1 \<union> B2" "B1 \<inter> B2 = {}" by (rule seg_split)
  have "cells H' a = Some (mk_node t nx pv ch) \<and> key_loop H' ch s 0 = Some (m, int (length xs)) \<and> item_loop H' ch (int (length xs)) = Some m"
    if same: "\<forall>q \<in> insert a A. cells H' q = cells H q" for H'
  proof -
    have "seg H' ch 0 xs m k A1" by (rule seg_frame [OF s(1)]) (use same s(6) in auto)
    moreover have "cells H' m = Some (mk_node y nx' k chy)" "cells H' a = cells H a" using same s(3,6) by auto
    ultimately show ?thesis using key_loop_seg [of H' ch 0 xs m k A1 s 0] item_loop_seg [of H' ch 0 xs m k A1] assms(3,4) c(1) by auto
  qed
  moreover have "m \<in> A" using s(6) by blast
  ultimately show ?thesis using s(2) by blast
qed

lemma get_member:
  assumes "json_holds j t H"
  shows "(member (c_str k) t = None \<longrightarrow> get_at rd (find_member k j H) H = Some None)
    \<and> (\<forall>y. member (c_str k) t = Some y \<longrightarrow> (\<exists>nx pv ch. get_at rd (find_member k j H) H = rd (mk_node y nx pv ch)))"
proof -
  obtain nx pv A where h: "GetJsonData j \<noteq> 0" "node_type t = cJSON_Object" "\<not> is_reference t" "holds H (GetJsonData j) nx pv t A"
    using assms unfolding json_holds_def by blast
  have obj: "cells H (GetJsonData j) = Some n \<Longrightarrow> is_type n cJSON_Object" for n using h(2-4) by (auto simp: holds_def is_type_def)
  from member_split [of "c_str k" t] show ?thesis
  proof (elim disjE conjE exE)
    assume n: "member (c_str k) t = None"
    from key_loop_none [OF h(4) n] h(1) obj n show ?thesis by (auto simp: get_at_def find_member_def cJSON_GetObjectItem_def)
  next
    fix xs y ys assume y: "member (c_str k) t = Some y" "child t = xs @ y # ys" "key_is (c_str k) y" "\<forall>c \<in> set xs. \<not> key_is (c_str k) c"
    from key_loop_found [OF h(4) y(2-4)] h(1) obj y(1) show ?thesis
      by (auto simp: get_at_def find_member_def cJSON_GetObjectItem_def holds_def) blast
  qed
qed

text \<open>What the methods for a type of values have in common: how the node is made, and that reading it gives the value back.\<close>

locale json_value =
  fixes E :: "'d jenv" and mk :: "'d creation" and x :: "'d cJSON" and rd :: "'d node \<Rightarrow> 'v option option" and v :: 'v
  assumes creates: "(\<forall>n. j_alloc E n) \<Longrightarrow> heap_ok H \<Longrightarrow> \<exists>p H' B. mk H = Some (Inr (p, H')) \<and> loose H' p x B \<and> heap_ok H'
      \<and> B \<subseteq> {brk H..<brk H'} \<and> brk H \<le> brk H' \<and> (\<forall>q < brk H. cells H' q = cells H q)"
    and reads: "rd (mk_node (set_node_string s x) nx pv ch) = Some (Some v)"
    and reads_content: "rd (mk_node z nx pv ch) = rd (mk_node z 0 0 0)"
    and owned_value: "owned x"
begin

lemma created_beside:
  assumes "\<forall>n. j_alloc E n" "heap_ok H" "holds H a nx pv t A"
  shows "\<exists>p H' B. mk H = Some (Inr (p, H')) \<and> loose H' p x B \<and> heap_ok H' \<and> holds H' a nx pv t A \<and> A \<inter> B = {} \<and> a \<notin> B
    \<and> (\<forall>q < brk H. cells H' q = cells H q)"
proof -
  from creates [OF assms(1,2)] obtain p H' B where b: "mk H = Some (Inr (p, H'))" "loose H' p x B" "heap_ok H'" "B \<subseteq> {brk H..<brk H'}" "\<forall>q < brk H. cells H' q = cells H q"
    by blast
  have below: "q \<in> insert a A \<Longrightarrow> q < brk H" for q using holds_dom [OF assms(3,2)] by blast
  have "holds H' a nx pv t A" by (rule holds_frame [OF assms(3)]) (use below b(5) in blast)
  moreover have "A \<inter> B = {}" "a \<notin> B" using below b(4) by (force, force)
  ultimately show ?thesis using b by blast
qed

lemma add_ok:
  fixes k :: string
  assumes "\<forall>n. j_alloc E n" "json_holds j t H"
  defines "y \<equiv> set_node_string (Some (c_str k)) x"
  shows "\<exists>H'. add_member E mk no_drop k j H = Some (True, j, H') \<and> json_holds j (set_child (child t @ [y]) t) H'"
proof -
  let ?a = "GetJsonData j"
  obtain nx pv A where t: "heap_ok H" "?a \<noteq> 0" "node_type t = cJSON_Object" "\<not> is_reference t" "\<forall>c \<in> set (child t). owned c" "holds H ?a nx pv t A"
    using assms(2) unfolding json_holds_def by blast
  from created_beside [OF assms(1) t(1,6)] obtain p H1 B where b: "mk H = Some (Inr (p, H1))" "loose H1 p x B" "heap_ok H1" "holds H1 ?a nx pv t A" "A \<inter> B = {}" "?a \<notin> B"
    "\<forall>q < brk H. cells H1 q = cells H q" by blast
  obtain chx lx Bx where p: "p \<noteq> 0" "cells H1 p = Some (mk_node x 0 0 chx)" "seg H1 chx 0 (child x) 0 lx Bx" "B = insert p Bx" "p \<notin> Bx"
    using b(2) unfolding loose_iff by blast
  let ?H2 = "set_cell H1 p (mk_node y 0 0 chx)"
  have "loose ?H2 p y B" unfolding p(4) using p(1,5) seg_set_other [OF p(3,5)] by (intro looseI) (auto simp: y_def)
  moreover have "holds ?H2 ?a nx pv t A" by (rule holds_frame [OF b(4)]) (use b(5,6) p(4) in auto)
  ultimately obtain H3 where H3: "cJSON_AddItemToArray ?a p ?H2 = Some H3" "holds H3 ?a nx pv (set_child (child t @ [y]) t) (A \<union> B)"
    "same_outside (insert ?a (A \<union> B)) ?H2 H3" using AddItemToArray_ok b(5,6) by blast
  have "heap_ok ?H2" using b(3) p(1,2) by (auto simp: heap_ok_def)
  moreover have "\<forall>q \<in> insert ?a (A \<union> B). q \<noteq> 0 \<and> q < brk H1" using holds_dom [OF b(4,3)] loose_dom [OF b(2,3)] by blast
  ultimately have "heap_ok H3" using heap_ok_same [OF _ H3(3)] by simp
  moreover have "owned y" using owned_value owned_simps [of x] owned_simps [of y] by (simp add: y_def)
  ultimately have inv: "json_holds j (set_child (child t @ [y]) t) H3" unfolding json_holds_def using t(2-5) H3(2) by auto
  have "member (c_str k) (set_child (child t @ [y]) t) \<noteq> None" by (auto simp: member_def find_None_iff y_def)
  with member_split [of "c_str k" "set_child (child t @ [y]) t"] obtain xs z zs where z: "child (set_child (child t @ [y]) t) = xs @ z # zs" "key_is (c_str k) z"
    "\<forall>c \<in> set xs. \<not> key_is (c_str k) c" by blast
  from key_loop_found [OF H3(2) z] obtain g where "cJSON_GetObjectItem H3 ?a (c_str k) = Some g" "g \<noteq> 0" by (auto simp: cJSON_GetObjectItem_def holds_def)
  moreover have "cJSON_AddItemToObject (j_alloc E) ?a (c_str k) p H1 = Some H3"
    using p(1,2) H3(1) assms(1) by (simp add: cJSON_AddItemToObject_def hput_cell y_def cJSON_strdup_def)
  moreover have "\<exists>n. cells H ?a = Some n \<and> is_type n cJSON_Object" using t(3,4,6) by (auto simp: holds_def is_type_def)
  ultimately have "add_member E mk no_drop k j H = Some (True, j, H3)"
    using b(1) t(2) by (auto simp: add_member_def focus_or_new_def with_container_def with_new_def success_def no_drop_def)
  then show ?thesis using inv by blast
qed

lemma get_value:
  assumes "json_holds j t H"
  shows "get_at rd (find_member k j H) H = (case member (c_str k) t of None \<Rightarrow> Some None | Some y \<Rightarrow> rd (mk_node y 0 0 0))"
  using get_member [OF assms, of k rd] reads_content by (auto split: option.split)

lemma add_get:
  assumes "\<forall>n. j_alloc E n" "json_holds j t H"
  shows "\<exists>H' y. add_member E mk no_drop k j H = Some (True, j, H') \<and> json_holds j (set_child (child t @ [y]) t) H'
    \<and> get_at rd (find_member k j H') H' = (if member (c_str k) t = None then Some (Some v) else get_at rd (find_member k j H) H)"
proof -
  let ?y = "set_node_string (Some (c_str k)) x" let ?t = "set_child (child t @ [?y]) t"
  from add_ok [OF assms] obtain H' where a: "add_member E mk no_drop k j H = Some (True, j, H')" "json_holds j ?t H'" by blast
  have "member (c_str k) ?t = (case member (c_str k) t of None \<Rightarrow> Some ?y | Some z \<Rightarrow> Some z)"
    using member_split [of "c_str k" t] by (auto simp: member_def find_skip)
  then have "get_at rd (find_member k j H') H' = (if member (c_str k) t = None then Some (Some v) else get_at rd (find_member k j H) H)"
    using get_value [OF a(2), of k] get_value [OF assms(2), of k] reads by (auto split: option.splits)
  then show ?thesis using a by blast
qed

lemma add_get_new:
  assumes "\<forall>n. j_alloc E n" "json_holds j t H" "member (c_str k) t = None"
  shows "\<exists>H'. add_member E mk no_drop k j H = Some (True, j, H') \<and> get_at rd (find_member k j H') H' = Some (Some v)"
  using add_get [OF assms(1,2), of k] assms(3) by (simp del: not_None_eq) blast

lemma add_get_old:
  assumes "\<forall>n. j_alloc E n" "json_holds j t H" "member (c_str k) t \<noteq> None"
  shows "\<exists>H'. add_member E mk no_drop k j H = Some (True, j, H') \<and> get_at rd (find_member k j H') H' = get_at rd (find_member k j H) H"
  using add_get [OF assms(1,2), of k] assms(3) by (simp del: not_None_eq) blast

lemma replace_get:
  assumes "\<forall>n. j_alloc E n" "json_holds j t H" "member (c_str k) t \<noteq> None"
  shows "\<exists>H' xs y0 ys p. replace_member E mk no_drop k j H = Some (True, j, H') \<and> child t = xs @ y0 # ys
    \<and> json_holds j (set_child (xs @ set_node_string (Some (c_str k)) x # ys) t) H' \<and> get_at rd (find_member k j H') H' = Some (Some v)
    \<and> find_member k j H = Some p \<and> p \<noteq> 0 \<and> cells H' p = None"
proof -
  let ?a = "GetJsonData j" let ?y = "set_node_string (Some (c_str k)) x"
  obtain nx pv A where t: "heap_ok H" "?a \<noteq> 0" "node_type t = cJSON_Object" "\<not> is_reference t" "\<forall>c \<in> set (child t). owned c" "holds H ?a nx pv t A"
    using assms(2) unfolding json_holds_def by blast
  from member_split [of "c_str k" t] assms(3) obtain xs y0 ys where y0: "child t = xs @ y0 # ys" "key_is (c_str k) y0" "\<forall>c \<in> set xs. \<not> key_is (c_str k) c" by auto
  from created_beside [OF assms(1) t(1,6)] obtain p H1 B where b: "mk H = Some (Inr (p, H1))" "loose H1 p x B" "heap_ok H1" "holds H1 ?a nx pv t A" "A \<inter> B = {}" "?a \<notin> B"
    "\<forall>q < brk H. cells H1 q = cells H q" by blast
  obtain chx lx Bx where p: "p \<noteq> 0" "cells H1 p = Some (mk_node x 0 0 chx)" "seg H1 chx 0 (child x) 0 lx Bx" "B = insert p Bx" "p \<notin> Bx"
    using b(2) unfolding loose_iff by blast
  let ?H2 = "set_cell H1 p (mk_node ?y 0 0 chx)"
  have lo: "loose ?H2 p ?y B" unfolding p(4) using p(1,5) seg_set_other [OF p(3,5)] by (intro looseI) auto
  have h2: "holds ?H2 ?a nx pv t A" by (rule holds_frame [OF b(4)]) (use b(5,6) p(4) in auto)
  have "owned y0" using t(5) y0(1) by simp
  from ReplaceItem_ok [OF h2 y0(1) _ this lo b(5,6), of "int (length xs)"] obtain H3 A' c where H3: "cJSON_ReplaceItemInArray ?a (int (length xs)) p ?H2 = Some H3"
    "holds H3 ?a nx pv (set_child (xs @ ?y # ys) t) A'" "same_outside (insert ?a (A \<union> B)) ?H2 H3"
    "item_loop ?H2 (n_child (the (cells ?H2 ?a))) (int (length xs)) = Some c" "cells H3 c = None" by auto
  have "heap_ok ?H2" using b(3) p(1,2) by (auto simp: heap_ok_def)
  moreover have "\<forall>q \<in> insert ?a (A \<union> B). q \<noteq> 0 \<and> q < brk H1" using holds_dom [OF b(4,3)] loose_dom [OF b(2,3)] by blast
  ultimately have "heap_ok H3" using heap_ok_same [OF _ H3(3)] by simp
  moreover have "owned ?y" using owned_value owned_simps [of x] owned_simps [of ?y] by simp
  ultimately have inv: "json_holds j (set_child (xs @ ?y # ys) t) H3" unfolding json_holds_def using t(2-5) H3(2) y0(1) by auto
  have m: "member (c_str k) (set_child (xs @ ?y # ys) t) = Some ?y" using y0(3) by (simp add: member_def find_skip)
  have get: "get_at rd (find_member k j H3) H3 = Some (Some v)" using get_value [OF inv, of k] m reads by simp
  have low: "q \<in> insert ?a A \<Longrightarrow> q < brk H \<and> q \<noteq> p" for q using holds_dom [OF t(6,1)] b(5,6) p(4) by blast
  from found_at [OF t(6) y0] obtain ch q where q: "q \<noteq> 0" "q \<in> A" "\<forall>H'. (\<forall>r \<in> insert ?a A. cells H' r = cells H r) \<longrightarrow>
    cells H' ?a = Some (mk_node t nx pv ch) \<and> key_loop H' ch (c_str k) 0 = Some (q, int (length xs)) \<and> item_loop H' ch (int (length xs)) = Some q" by blast
  have eq1: "\<forall>r \<in> insert ?a A. cells H1 r = cells H r" using b(7) low by blast
  then have eq2: "\<forall>r \<in> insert ?a A. cells ?H2 r = cells H r" using low by simp
  have q1: "cells H1 ?a = Some (mk_node t nx pv ch)" "key_loop H1 ch (c_str k) 0 = Some (q, int (length xs))" using q(3) [rule_format, of H1] eq1 by blast+
  have q2: "cells ?H2 ?a = Some (mk_node t nx pv ch)" "item_loop ?H2 ch (int (length xs)) = Some q" using q(3) [rule_format, of ?H2] eq2 by blast+
  have q0: "cells H ?a = Some (mk_node t nx pv ch)" "key_loop H ch (c_str k) 0 = Some (q, int (length xs))" using q(3) [rule_format, of H] by blast+
  have "c = q" using H3(4) q2 by (simp del: fun_upd_apply)
  then have free: "cells H3 q = None" using H3(5) by simp
  have obj: "is_type (mk_node t nx pv ch) cJSON_Object" using t(3,4) by (simp add: is_type_def)
  have "cJSON_ReplaceItemInObject (j_alloc E) ?a (c_str k) p H1 = Some H3"
    using q1 q(1) p(2) H3(1) assms(1) by (simp add: cJSON_ReplaceItemInObject_def hput_cell cJSON_strdup_def)
  moreover obtain g where "cJSON_GetObjectItem H3 ?a (c_str k) = Some g" "g \<noteq> 0"
    using key_loop_found [OF H3(2), of xs ?y ys "c_str k"] y0(3) by (auto simp: cJSON_GetObjectItem_def holds_def)
  ultimately have "replace_member E mk no_drop k j H = Some (True, j, H3)"
    using b(1) t(2) q0(1) obj by (simp add: replace_member_def with_container_def with_new_def success_def no_drop_def)
  moreover have "find_member k j H = Some q" using t(2) q0 obj by (simp add: find_member_def cJSON_GetObjectItem_def)
  ultimately show ?thesis using y0(1) inv get q(1) free by blast
qed

end

lemma create_loose:
  assumes "heap_ok H" "ok 72" "f (mk_node (cJSON_blank F) 0 0 0) = mk_node x 0 0 0" "child x = []"
  shows "\<exists>p H' B. created (create_with F ok f H) = Some (Inr (p, H')) \<and> loose H' p x B \<and> heap_ok H' \<and> B \<subseteq> {brk H..<brk H'} \<and> brk H \<le> brk H'
    \<and> (\<forall>q < brk H. cells H' q = cells H q)"
proof -
  let ?p = "brk H" let ?H = "H\<lparr>cells := (cells H)(?p \<mapsto> mk_node x 0 0 0), brk := ?p + 1\<rparr>"
  have p: "?p \<noteq> 0" using assms(1) by (simp add: heap_ok_def)
  have "created (create_with F ok f H) = Some (Inr (?p, ?H))"
    using assms(2,3) p by (simp add: created_def create_with_def heap_New_Item_def cJSON_New_Item_def hnew_def hput_def Let_def)
  moreover have "loose ?H ?p x (insert ?p {})" using p assms(4) by (intro looseI) simp_all
  moreover have "heap_ok ?H" using assms(1) by (auto simp: heap_ok_def)
  ultimately show ?thesis by (intro exI [of _ ?p] exI [of _ ?H] exI [of _ "{?p}"]) auto
qed

lemmas value_defs = new_string_def new_int_def new_bool_def new_double_def cJSON_CreateString_def cJSON_CreateInt_def cJSON_CreateBool_def cJSON_CreateDouble_def
lemmas read_defs = read_string_def read_word_def read_bool_def read_double_def is_type_def

interpretation string_value: json_value E "new_string E s" "CJSON cJSON_String False [] (Some (c_str s)) 0 (d_zero (j_fpu E)) 0 None" read_string "c_str s" for E s
  by (unfold_locales, unfold value_defs, rule create_loose) (auto simp: read_defs mk_node_def cJSON_blank_def cJSON_strdup_def)

interpretation int_value: json_value E "new_int E w sg" "CJSON cJSON_Int False [] None w (d_of_u64 (j_fpu E) w) sg None" "read_word f" "f w" for E w sg f
  by (unfold_locales, unfold value_defs, rule create_loose) (auto simp: read_defs mk_node_def cJSON_blank_def)

interpretation bool_value: json_value E "new_bool E b" "CJSON (if b then cJSON_True else cJSON_False) False [] None 0 (d_zero (j_fpu E)) 0 None" read_bool b for E b
  by (unfold_locales, unfold value_defs, rule create_loose) (auto simp: read_defs mk_node_def cJSON_blank_def)

interpretation double_value: json_value E "new_double E d" "CJSON cJSON_Double False [] None (u64_of_d (j_fpu E) d) d (- 1) None" "read_double f" "f d" for E d f
  by (unfold_locales, unfold value_defs, rule create_loose) (auto simp: read_defs mk_node_def cJSON_blank_def)

lemma sint_narrow: "sint (ucast (word_of_int i :: u64) :: u32) = sint (word_of_int i :: u32)"
proof -
  have "(ucast (word_of_int i :: u64) :: u32) = word_of_int i" by transfer simp
  then show ?thesis by simp
qed

subsection \<open>Adding, replacing and reading members\<close>

lemmas get_defs = Get_string_def Get_int32_def Get_uint32_def Get_int64_def Get_uint64_def Get_bool_def Get_float_def Get_double_def
lemmas add_defs = Add_string_def Add_int32_def Add_uint32_def Add_int64_def Add_uint64_def Add_bool_def Add_float_def Add_double_def
lemmas replace_defs = Replace_string_def Replace_int32_def Replace_uint32_def Replace_int64_def Replace_uint64_def Replace_bool_def Replace_float_def
  Replace_double_def

lemma narrow_back: "sint (ucast (word_of_int (sint (i :: u32)) :: u64) :: u32) = sint i"
  unfolding sint_narrow by simp

lemma ucast_up_down [simp]: "(ucast (ucast (u :: u32) :: u64) :: u32) = u"
  by transfer simp

text \<open>
  C19.  A value that is added under a name that no member has, upper and lower case being the same, is the value that \<open>Get\<close> with the same type
  and name returns: strings up to their first NUL, integers of every width, booleans and floating point numbers.
\<close>

theorem json_add_get:
  fixes E :: "'d jenv" and H :: "'d jheap"
  assumes "\<forall>n. j_alloc E n" "json_holds j t H" "member (c_str k) t = None"
  shows "(\<exists>H'. Add_string E k s j H = Some (True, j, H') \<and> Get_string k j H' = Some (Some (c_str s)))
    \<and> (\<exists>H'. Add_int32 E k (sint (i :: u32)) j H = Some (True, j, H') \<and> Get_int32 k j H' = Some (Some (sint i)))
    \<and> (\<exists>H'. Add_uint32 E k i j H = Some (True, j, H') \<and> Get_uint32 k j H' = Some (Some i))
    \<and> (\<exists>H'. Add_int64 E k (sint (l :: u64)) j H = Some (True, j, H') \<and> Get_int64 k j H' = Some (Some (sint l)))
    \<and> (\<exists>H'. Add_uint64 E k l j H = Some (True, j, H') \<and> Get_uint64 k j H' = Some (Some l))
    \<and> (\<exists>H'. Add_bool E k b j H = Some (True, j, H') \<and> Get_bool k j H' = Some (Some b))
    \<and> (\<exists>H'. Add_float E k d j H = Some (True, j, H') \<and> Get_float E k j H' = Some (Some (j_float E d)))
    \<and> (\<exists>H'. Add_double E k d j H = Some (True, j, H') \<and> Get_double k j H' = Some (Some d))"
  unfolding add_defs get_defs
proof (intro conjI)
  note int = int_value.add_get_new [OF assms]
  show "\<exists>H'. add_member E (new_int E (word_of_int (sint i)) (- 1)) no_drop k j H = Some (True, j, H')
      \<and> get_at (read_word (\<lambda>v. sint (ucast v :: u32))) (find_member k j H') H' = Some (Some (sint i))"
    using int [of "word_of_int (sint i)" "- 1" "\<lambda>v. sint (ucast v :: u32)"] unfolding narrow_back .
  show "\<exists>H'. add_member E (new_int E (ucast i) 1) no_drop k j H = Some (True, j, H') \<and> get_at (read_word ucast) (find_member k j H') H' = Some (Some i)"
    using int [of "ucast i" 1 "ucast :: u64 \<Rightarrow> u32"] by simp
  show "\<exists>H'. add_member E (new_int E (word_of_int (sint l)) (- 1)) no_drop k j H = Some (True, j, H')
      \<and> get_at (read_word sint) (find_member k j H') H' = Some (Some (sint l))"
    using int [of "word_of_int (sint l)" "- 1" sint] by simp
qed (rule string_value.add_get_new [OF assms] int_value.add_get_new [OF assms] bool_value.add_get_new [OF assms] double_value.add_get_new [OF assms])+

text \<open>
  C38.  \<open>Replace\<close> of an existing member succeeds, and the object keeps its other members in their places.  But the methods for values leave a reference that \<open>operator[]\<close> has given out for the member: it, and every later \<open>operator[]\<close> with that
  name, refers to the freed node, so that printing it is a use after free.
\<close>

theorem json_replace_dangling:
  fixes E :: "'d jenv" and H :: "'d jheap" and i :: u32 and l :: u64
  assumes "\<forall>n. j_alloc E n" "json_holds j t H" "member (c_str k) t \<noteq> None" "map_of (m_mapJsonObjectRef j) k = None"
    "rep \<in> {Replace_string E k s, Replace_int32 E k (sint i), Replace_uint32 E k i, Replace_int64 E k (sint l), Replace_uint64 E k l, Replace_bool E k b,
            Replace_float E k d, Replace_double E k d}"
  shows "\<exists>r j' H' xs y0 y ys. subscript_key k j H = Some (r, j') \<and> rep j' H = Some (True, j', H')
    \<and> child t = xs @ y0 # ys \<and> json_holds j' (set_child (xs @ y # ys) t) H'
    \<and> subscript_key k j' H' = Some (r, j') \<and> CJsonObject_ToString E r H' = None"
proof -
  obtain p where "find_member k j H = Some p" "p \<noteq> 0" using int_value.replace_get [OF assms(1-3)] by blast
  let ?r = "CJsonObject_ref p" let ?j = "set_refs (m_mapJsonArrayRef j) ((k, ?r) # m_mapJsonObjectRef j) j"
  have sub: "subscript_key k j H = Some (?r, ?j)" using assms(4) \<open>find_member k j H = Some p\<close> \<open>p \<noteq> 0\<close> by (simp add: subscript_key_def Let_def)
  have g: "GetJsonData ?j = GetJsonData j" "m_mapJsonObjectRef ?j = (k, ?r) # m_mapJsonObjectRef j" by (cases j; simp add: GetJsonData_def)+
  have holds: "json_holds ?j t H" using assms(2) g(1) by (simp add: json_holds_def)
  have f: "find_member k ?j H = Some p" using \<open>find_member k j H = Some p\<close> unfolding find_member_def g(1) .
  have "\<exists>H' xs y0 y ys. rep ?j H = Some (True, ?j, H') \<and> child t = xs @ y0 # ys \<and> json_holds ?j (set_child (xs @ y # ys) t) H' \<and> cells H' p = None"
    using assms(5) unfolding replace_defs insert_iff empty_iff
    using string_value.replace_get [OF assms(1) holds assms(3)] int_value.replace_get [OF assms(1) holds assms(3)]
      bool_value.replace_get [OF assms(1) holds assms(3)] double_value.replace_get [OF assms(1) holds assms(3)] f
    by (elim disjE; simp) (metis option.inject)+
  then obtain H' xs y0 y ys where r: "rep ?j H = Some (True, ?j, H')" "child t = xs @ y0 # ys" "json_holds ?j (set_child (xs @ y # ys) t) H'" "cells H' p = None" by blast
  have "subscript_key k ?j H' = Some (?r, ?j)" using g(2) by (simp add: subscript_key_def)
  moreover have "CJsonObject_ToString E ?r H' = None"
    using r(4) \<open>p \<noteq> 0\<close> by (simp add: CJsonObject_ToString_def print_focus_def GetJsonData_def CJsonObject_ref_def read_tree_def)
  ultimately show ?thesis using sub r by blast
qed

text \<open>
  \<open>Add\<close> under a name that a member already has, in upper or lower case, reports success and has no effect for the reader: the new
  member stands behind the old one, and \<open>Get\<close> goes on returning what it returned before, whether it had this type or not.
\<close>

theorem json_add_hidden:
  fixes E :: "'d jenv" and H :: "'d jheap" and i :: u32 and l :: u64
  assumes "\<forall>n. j_alloc E n" "json_holds j t H" "member (c_str k) t \<noteq> None"
  shows "(\<exists>H'. Add_string E k s j H = Some (True, j, H') \<and> Get_string k j H' = Get_string k j H)
    \<and> (\<exists>H'. Add_int32 E k (sint i) j H = Some (True, j, H') \<and> Get_int32 k j H' = Get_int32 k j H)
    \<and> (\<exists>H'. Add_uint32 E k i j H = Some (True, j, H') \<and> Get_uint32 k j H' = Get_uint32 k j H)
    \<and> (\<exists>H'. Add_int64 E k (sint l) j H = Some (True, j, H') \<and> Get_int64 k j H' = Get_int64 k j H)
    \<and> (\<exists>H'. Add_uint64 E k l j H = Some (True, j, H') \<and> Get_uint64 k j H' = Get_uint64 k j H)
    \<and> (\<exists>H'. Add_bool E k b j H = Some (True, j, H') \<and> Get_bool k j H' = Get_bool k j H)
    \<and> (\<exists>H'. Add_float E k d j H = Some (True, j, H') \<and> Get_float E k j H' = Get_float E k j H)
    \<and> (\<exists>H'. Add_double E k d j H = Some (True, j, H') \<and> Get_double k j H' = Get_double k j H)"
  unfolding add_defs get_defs
  by (intro conjI; rule string_value.add_get_old [OF assms] int_value.add_get_old [OF assms] bool_value.add_get_old [OF assms] double_value.add_get_old [OF assms])

subsection \<open>Samples\<close>

definition sample_tree :: "unit cJSON" where
  "sample_tree = CJSON cJSON_Object False [CJSON cJSON_True False [] None 0 () 0 (Some ''Key'')] None 0 () 0 None"

definition sample_jenv :: "unit jenv" where
  "sample_jenv = \<lparr>j_fpu = \<lparr>d_zero = (), d_of_u64 = (\<lambda>_. ()), d_scaled = (\<lambda>_ _. ()), u64_scaled = (\<lambda>_ _. Some 0), u64_of_d = (\<lambda>_. 0), d_text = (\<lambda>_. ''0'')\<rparr>,
     j_alloc = (\<lambda>_. True), j_uc = (0, 0), j_float = (\<lambda>d. d)\<rparr>"

definition sample_heap :: "unit jheap" where
  "sample_heap = snd (build [sample_tree] 0 empty_heap)"

lemma sample_holds: "json_holds (JObject 1 0 '''' [] []) sample_tree sample_heap"
proof -
  have "heap_ok (empty_heap :: unit jheap)" by (simp add: heap_ok_def empty_heap_def)
  then obtain p H' B where b: "build [sample_tree] 0 empty_heap = (p, H')" "loose H' p sample_tree B" "heap_ok H'" by (rule build_loose)
  have "p = 1" using b(1) by (simp add: sample_tree_def empty_heap_def split: prod.splits)
  moreover have "sample_heap = H'" using b(1) by (simp add: sample_heap_def)
  ultimately show ?thesis using loose_holds [OF b(2)] b(3) by (auto simp: json_holds_def GetJsonData_def) (auto simp: sample_tree_def)
qed

lemma sample_alloc: "\<forall>n. j_alloc sample_jenv n"
  by (simp add: sample_jenv_def)

lemma sample_member: "member (c_str ''other'') sample_tree = None" "member (c_str ''KEY'') sample_tree \<noteq> None"
  by code_simp+

theorem json_add_get_witness:
  "\<exists>H'. Add_int32 sample_jenv ''other'' (sint (7 :: u32)) (JObject 1 0 '''' [] []) sample_heap = Some (True, JObject 1 0 '''' [] [], H')
    \<and> Get_int32 ''other'' (JObject 1 0 '''' [] []) H' = Some (Some (sint (7 :: u32)))"
  using json_add_get [OF sample_alloc sample_holds sample_member(1)] by blast

theorem json_replace_dangling_witness:
  "\<exists>r j' H'. subscript_key ''KEY'' (JObject 1 0 '''' [] []) sample_heap = Some (r, j') \<and> Replace_bool sample_jenv ''KEY'' False j' sample_heap = Some (True, j', H')
    \<and> CJsonObject_ToString sample_jenv r H' = None"
proof -
  have "map_of (m_mapJsonObjectRef (JObject 1 0 '''' [] [])) ''KEY'' = None" by simp
  moreover have "Replace_bool sample_jenv ''KEY'' False \<in> {Replace_string sample_jenv ''KEY'' [], Replace_int32 sample_jenv ''KEY'' (sint (0 :: u32)),
      Replace_uint32 sample_jenv ''KEY'' 0, Replace_int64 sample_jenv ''KEY'' (sint (0 :: u64)), Replace_uint64 sample_jenv ''KEY'' 0,
      Replace_bool sample_jenv ''KEY'' False, Replace_float sample_jenv ''KEY'' (), Replace_double sample_jenv ''KEY'' ()}" by simp
  ultimately show ?thesis using json_replace_dangling [OF sample_alloc sample_holds sample_member(2)] by blast
qed

theorem json_add_hidden_witness:
  "\<exists>H'. Add_int32 sample_jenv ''KEY'' (sint (7 :: u32)) (JObject 1 0 '''' [] []) sample_heap = Some (True, JObject 1 0 '''' [] [], H')
    \<and> Get_int32 ''KEY'' (JObject 1 0 '''' [] []) H' = Get_int32 ''KEY'' (JObject 1 0 '''' [] []) sample_heap"
  using json_add_hidden [OF sample_alloc sample_holds sample_member(2)] by blast

end
