(* ===== verification/CJsonText.thy ===== *)
theory CJsonText
  imports CJson
begin

text \<open>
  The texts of \<open>cJSON.c\<close>: printing and parsing are inverse to each other.

  \<open>json\<close> is the abstract value a tree of nodes stands for, \<open>json_node\<close> the tree the parser builds for it
  and \<open>json_text\<close> its text, formatted or not.  The printer yields exactly this text without leaving the
  buffers whose sizes it computes, and the parser, given this text, yields the tree again.
\<close>

subsection \<open>Strings\<close>

lemma code_inject: "code a = code b \<longleftrightarrow> a = b"
  by (metis code_def char_of_char)

lemma code_lt: "code c < 256" by (simp add: code_def)

lemma nat_less_16: "k < 16 \<Longrightarrow> k \<in> {0, 1, 2, 3, 4, 5, 6, 7, 8, 9, 10, 11, 12, 13, 14, 15 :: nat}"
  by (auto simp: numeral_eq_Suc less_Suc_eq)

lemma hex_char_digit:
  assumes "k < 16"
  shows "IS_HEX (hex_char k)" "hex_digit (hex_char k) = k"
  using nat_less_16 [OF assms]
  by (auto simp: hex_char_def hex_digit_def IS_HEX_def IS_NUM_def code_def LOWER_def)

lemma sscanf_u00:
  assumes "k < 256"
  shows "sscanf_4x (CHR ''0'' # CHR ''0'' # hex_char (k div 16) # hex_char (k mod 16) # r) uc = k"
proof -
  have "k div 16 < 16" using assms by auto
  then have h: "IS_HEX (hex_char (k div 16))" "hex_digit (hex_char (k div 16)) = k div 16" "IS_HEX (hex_char (k mod 16))"
    "hex_digit (hex_char (k mod 16)) = k mod 16" using hex_char_digit [of "k div 16"] hex_char_digit [of "k mod 16"] by simp_all
  have z: "IS_HEX (CHR ''0'')" "hex_digit (CHR ''0'') = 0" "\<not> is_space (CHR ''0'')" "LOWER (CHR ''0'') \<noteq> CHR ''x''"
    by (simp_all add: IS_HEX_def IS_NUM_def hex_digit_def code_def is_space_def LOWER_def) (simp add: char_of_def)
  show ?thesis using h z assms by (simp add: sscanf_4x_def Let_def)
qed

lemma utf8_ascii: "code c < 128 \<Longrightarrow> utf8_encode (code c) = (code c, [c])"
  by (simp add: utf8_encode_def utf8_length_def firstByteMark_def) (simp add: code_def)

lemma unicode_escape_control:
  assumes "code c < 32" and "c \<noteq> NUL"
  shows "unicode_escape (''u00'' @ hex_char (code c div 16) # hex_char (code c mod 16) # r) uc uc2
    = Some ([c], hex_char (code c mod 16) # r, code c, uc2)"
proof -
  have "code c \<noteq> 0" using assms(2) code_inject [of c NUL] by (simp add: NUL_def code_def)
  then show ?thesis using assms(1) sscanf_u00 [of "code c" r uc] utf8_ascii [of c]
    by (simp add: unicode_escape_def Let_def)
qed

definition plain_char :: "char \<Rightarrow> bool" where
  "plain_char c \<longleftrightarrow> code c > 31 \<and> c \<noteq> CHR 0x22 \<and> c \<noteq> CHR 0x5C"

definition counted_length :: "char \<Rightarrow> nat" where
  "counted_length c = (if code c < 32 \<and> c \<notin> set [CHR 0x08, CHR 0x0C, CHR 0x0A, CHR 0x0D, CHR 0x09] then 5 else 1)"

lemma escape_cases:
  obtains (plain) "plain_char c" "escape_char c = [c]" "counted_length c = 1" "escape_length c = 1"
  | (simple) e where "escape_char c = [CHR 0x5C, e]" "e \<noteq> CHR ''u''" "simple_escape e = c" "counted_length c = 1"
      "escape_length c = 2"
  | (control) "escape_char c = CHR 0x5C # ''u00'' @ [hex_char (code c div 16), hex_char (code c mod 16)]" "code c < 32"
      "counted_length c = 5" "escape_length c = 6"
proof -
  consider "plain_char c" | "c = CHR 0x22" | "c = CHR 0x5C" | "c = CHR 0x08" | "c = CHR 0x0C" | "c = CHR 0x0A" | "c = CHR 0x0D" | "c = CHR 0x09"
    | "code c < 32" "c \<noteq> CHR 0x08" "c \<noteq> CHR 0x0C" "c \<noteq> CHR 0x0A" "c \<noteq> CHR 0x0D" "c \<noteq> CHR 0x09"
    using linorder_not_less [of 31 "code c"] by (fastforce simp: plain_char_def less_Suc_eq_le)
  then show thesis
  proof cases
    case 1
    then show thesis by (intro plain) (auto simp: plain_char_def escape_char_def counted_length_def escape_length_def code_def)
  next
    case 2 show thesis by (rule simple [of "CHR 0x22"]) (simp_all add: 2 escape_char_def simple_escape_def counted_length_def escape_length_def code_def)
  next
    case 3 show thesis by (rule simple [of "CHR 0x5C"]) (simp_all add: 3 escape_char_def simple_escape_def counted_length_def escape_length_def code_def)
  next
    case 4 show thesis by (rule simple [of "CHR ''b''"]) (simp_all add: 4 escape_char_def simple_escape_def counted_length_def escape_length_def code_def)
  next
    case 5 show thesis by (rule simple [of "CHR ''f''"]) (simp_all add: 5 escape_char_def simple_escape_def counted_length_def escape_length_def code_def)
  next
    case 6 show thesis by (rule simple [of "CHR ''n''"]) (simp_all add: 6 escape_char_def simple_escape_def counted_length_def escape_length_def code_def)
  next
    case 7 show thesis by (rule simple [of "CHR ''r''"]) (simp_all add: 7 escape_char_def simple_escape_def counted_length_def escape_length_def code_def)
  next
    case 8 show thesis by (rule simple [of "CHR ''t''"]) (simp_all add: 8 escape_char_def simple_escape_def counted_length_def escape_length_def code_def)
  next
    case 9
    have "code (CHR 0x22) = 34" "code (CHR 0x5C) = 92" by (simp_all add: code_def)
    with 9(1) have "c \<noteq> CHR 0x22" "c \<noteq> CHR 0x5C" by (metis less_asym numeral_less_iff semiring_norm)+
    with 9 show thesis by (intro control) (simp_all add: escape_char_def counted_length_def escape_length_def)
  qed
qed

declare string_length.simps [simp del] string_body.simps [simp del]

lemma string_length_escape:
  "c \<noteq> NUL \<Longrightarrow> string_length (escape_char c @ r) len = string_length r (len + counted_length c)"
proof -
  assume n: "c \<noteq> NUL"
  have hx: "k < 16 \<Longrightarrow> hex_char k \<noteq> CHR 0x22 \<and> hex_char k \<noteq> NUL \<and> hex_char k \<noteq> CHR 0x5C" for k
  proof -
    assume k: "k < 16"
    then have "code (hex_char k) = (if k < 10 then k + 48 else k + 87)" by (simp add: hex_char_def code_def)
    moreover have "code (CHR 0x22) = 34" "code (CHR 0x5C) = 92" "code NUL = 0" by (simp_all add: code_def NUL_def)
    ultimately have "code (hex_char k) \<noteq> code (CHR 0x22)" "code (hex_char k) \<noteq> code NUL"
      "code (hex_char k) \<noteq> code (CHR 0x5C)" using k by simp_all
    then show ?thesis by (simp add: code_inject)
  qed
  show ?thesis
  proof (cases c rule: escape_cases)
    case plain
    then show ?thesis using n by (simp add: string_length.simps [of "c # r"] plain_char_def)
  next
    case (simple e)
    then show ?thesis by (simp add: string_length.simps [of "CHR 0x5C # _"] NUL_def)
  next
    case control
    have "code c div 16 < 16" using control by auto
    with hx [of "code c div 16"] hx [of "code c mod 16"] control(1)
    have "string_length (escape_char c @ r) len = string_length r (Suc (Suc (Suc (Suc (Suc len)))))"
      by (simp add: string_length.simps [of "_ # _"] NUL_def)
    also have "Suc (Suc (Suc (Suc (Suc len)))) = len + counted_length c" using control by simp
    finally show ?thesis .
  qed
qed

lemma string_length_text:
  "NUL \<notin> set s \<Longrightarrow>
     string_length (concat (map escape_char s) @ CHR 0x22 # r) len = Some (len + sum_list (map counted_length s))"
proof (induction s arbitrary: len)
  case Nil
  show ?case by (simp add: string_length.simps)
next
  case (Cons c s)
  then have "c \<noteq> NUL" "NUL \<notin> set s" by auto
  then show ?case using Cons.IH by (simp add: string_length_escape)
qed

lemma string_body_escape:
  assumes "c \<noteq> NUL" and "length out < cap"
  shows "\<exists>uc'. string_body cap (escape_char c @ r) out uc uc2 = string_body cap r (out @ [c]) uc' uc2"
proof (cases c rule: escape_cases)
  case plain
  then show ?thesis using assms by (auto simp: string_body.simps [of cap "c # r"] plain_char_def)
next
  case (simple e)
  then show ?thesis using assms by (auto simp: string_body.simps [of cap "CHR 0x5C # _"] NUL_def)
next
  case control
  then show ?thesis using assms unicode_escape_control [of c r uc uc2]
    by (auto simp: string_body.simps [of cap "CHR 0x5C # _"] NUL_def)
qed

lemma string_body_text:
  "NUL \<notin> set s \<Longrightarrow> length out + length s < cap \<Longrightarrow>
     string_body cap (concat (map escape_char s) @ CHR 0x22 # r) out uc uc2 = Some (out @ s, CHR 0x22 # r)"
proof (induction s arbitrary: out uc)
  case Nil
  then show ?case by (simp add: string_body.simps)
next
  case (Cons c s)
  obtain uc' where "string_body cap (escape_char c @ concat (map escape_char s) @ CHR 0x22 # r) out uc uc2
      = string_body cap (concat (map escape_char s) @ CHR 0x22 # r) (out @ [c]) uc' uc2"
    using string_body_escape [of c out cap "concat (map escape_char s) @ CHR 0x22 # r" uc uc2] Cons.prems by auto
  then show ?case using Cons.IH [of "out @ [c]" uc'] Cons.prems by simp
qed

definition string_text :: "string \<Rightarrow> string" where
  "string_text s = CHR 0x22 # concat (map escape_char s) @ [CHR 0x22]"

lemma counted_bounds: "1 \<le> counted_length c" "counted_length c \<le> escape_length c" "length (escape_char c) = escape_length c"
  by (cases c rule: escape_cases; simp)+

lemma sum_counted_bounds:
  "length s \<le> sum_list (map counted_length s)"
  "sum_list (map counted_length s) \<le> length (concat (map escape_char s))"
  "length (concat (map escape_char s)) = sum_list (map escape_length s)"
proof (induction s)
  case (Cons c s)
  {
    case 1
    show ?case using Cons.IH(1) counted_bounds(1) [of c] by simp
  next
    case 2
    show ?case using Cons.IH(2) counted_bounds(2,3) [of c] by simp
  next
    case 3
    show ?case using Cons.IH(3) counted_bounds(3) [of c] by simp
  }
qed simp_all

subsection \<open>Numbers\<close>

declare dec_text.simps [simp del]

lemma dec_char_num: "k < 10 \<Longrightarrow> IS_NUM (dec_char k) \<and> code (dec_char k) - code (CHR ''0'') = k"
  by (simp add: dec_char_def IS_NUM_def code_def)

lemma dec_text_nonempty [simp]: "dec_text n \<noteq> []"
  by (subst dec_text.simps) simp

lemma dec_text_digits: "\<forall>c\<in>set (dec_text n). IS_NUM c"
proof (induction n rule: dec_text.induct)
  case (1 n)
  then show ?case by (subst dec_text.simps) (auto simp: dec_char_num)
qed

lemma digits_value_append: "digits_value v (a @ b) = digits_value (digits_value v a) b"
  by (simp add: digits_value_def)

lemma dec_text_value: "digits_value 0 (dec_text n) = n"
proof (induction n rule: dec_text.induct)
  case (1 n)
  show ?case
  proof (cases "n < 10")
    case True
    then show ?thesis using dec_char_num [of n] by (simp add: dec_text.simps [of n] digits_value_def)
  next
    case False
    have "digits_value 0 (dec_text n) = digits_value (n div 10) [dec_char (n mod 10)]"
      using 1 False by (simp add: dec_text.simps [of n] digits_value_append)
    also have "\<dots> = n" using dec_char_num [of "n mod 10"] by (simp add: digits_value_def)
    finally show ?thesis .
  qed
qed

lemma dec_text_head: "n \<noteq> 0 \<Longrightarrow> hd (dec_text n) \<noteq> CHR ''0''"
proof (induction n rule: dec_text.induct)
  case (1 n)
  show ?case
  proof (cases "n < 10")
    case True
    have "code (dec_char n) \<noteq> code (CHR ''0'')" using 1 True by (simp add: dec_char_def code_def)
    then show ?thesis using True by (auto simp: dec_text.simps [of n])
  next
    case False
    then show ?thesis using 1 by (simp add: dec_text.simps [of n])
  qed
qed

lemma dec_text_0: "dec_text 0 = ''0''"
  using code_inject [of "char_of (48 :: nat)" "CHR ''0''"] by (simp add: dec_text.simps dec_char_def code_def)

text \<open>What may follow a value in a printed text.\<close>

definition value_end :: "string \<Rightarrow> bool" where
  "value_end r \<longleftrightarrow> r \<noteq> [] \<and> hd r \<in> set [NUL, CHR '','', CHR '']'', CHR ''}'', CHR 0x0A]"

lemma value_end_cases: "value_end r \<Longrightarrow> (\<And>c q. r = c # q \<Longrightarrow> c \<in> {NUL, CHR '','', CHR '']'', CHR ''}'', CHR 0x0A} \<Longrightarrow> P) \<Longrightarrow> P"
  by (cases r) (auto simp: value_end_def)

lemma value_end_number: "value_end r \<Longrightarrow> \<exists>c q. r = c # q \<and> \<not> IS_NUM c \<and> c \<noteq> CHR ''.'' \<and> c \<noteq> CHR ''e'' \<and> c \<noteq> CHR ''E''"
  by (erule value_end_cases) (auto simp: IS_NUM_def code_def NUL_def)

lemma span_digits_text:
  "\<forall>c\<in>set ds. IS_NUM c \<Longrightarrow> \<not> IS_NUM c \<Longrightarrow> span_digits (ds @ c # q) = (ds, c # q)"
  by (simp add: span_digits_def)

lemma parse_mantissa_text:
  assumes "value_end r"
  shows "parse_mantissa (dec_text n @ r) = (n, 0, r)"
proof -
  obtain c q where r: "r = c # q" and c: "\<not> IS_NUM c" "c \<noteq> CHR ''.''" using value_end_number [OF assms] by auto
  show ?thesis
  proof (cases "n = 0")
    case True
    then show ?thesis using c by (simp add: parse_mantissa_def dec_text_0 r peek_def)
  next
    case False
    obtain d ds where d: "dec_text n = d # ds" by (cases "dec_text n") auto
    have s: "span_digits (d # ds @ c # q) = (dec_text n, c # q)"
      using span_digits_text [OF dec_text_digits c(1), of n q] by (simp add: d)
    have "IS_NUM d" "d \<noteq> CHR ''0''" using dec_text_digits [of n] dec_text_head [OF False] d by auto
    then show ?thesis using c s dec_text_value [of n]
      by (simp add: parse_mantissa_def r peek_def) (simp add: d)
  qed
qed

lemma parse_exponent_none: "value_end r \<Longrightarrow> parse_exponent r = Some (0, r)"
  using value_end_number [of r] by (auto simp: parse_exponent_def peek_def)

lemma of_int_abs_word: "(if i < 0 then -1 else 1) * (of_nat (nat \<bar>i\<bar>) :: u64) = of_int i"
  by (auto simp: of_nat_nat)

lemma parse_number_text:
  assumes "- (2 ^ 63) \<le> i" "i < 2 ^ 64" and r: "value_end r"
  shows "parse_number F item (int_text i @ r)
    = Some (POk (set_node_type cJSON_Int
        (set_number (of_int i) (d_of_u64 F (of_int i)) (if i < 0 then -1 else 1) item), r))"
proof -
  let ?n = "nat \<bar>i\<bar>" and ?s = "if i < 0 then -1 else 1 :: int"
  have n: "?n < 2 ^ 64" using assms(1,2) by (simp add: nat_less_iff abs_if)
  have "IS_NUM (hd (dec_text ?n))" using dec_text_digits [of ?n] by (simp add: list.set_sel(1))
  moreover have "\<not> IS_NUM (CHR ''-'')" by (simp add: IS_NUM_def code_def)
  ultimately have h: "hd (dec_text ?n) \<noteq> CHR ''-''" by metis
  have "(if peek (int_text i @ r) = Some (CHR ''-'') then (-1, tl (int_text i @ r)) else (1, int_text i @ r)) = (?s, dec_text ?n @ r)"
    using h by (cases "dec_text ?n") (auto simp: int_text_def peek_def)
  moreover have "(of_int ?s :: u64) * of_nat ?n = of_int i" using of_int_abs_word [of i] by auto
  ultimately show ?thesis
    using n by (simp add: parse_number_def parse_mantissa_text [OF r] parse_exponent_none [OF r] Let_def split del: if_split)
qed

subsection \<open>Values\<close>

text \<open>A JSON value whose numbers are integers, as a specification of the trees that are printed and parsed back.\<close>

datatype json =
    JNull | JBool bool | JInt int | JStr string | JArr "json list" | JObj "(string \<times> json) list"

fun json_ok :: "json \<Rightarrow> bool" where
  "json_ok JNull \<longleftrightarrow> True"
| "json_ok (JBool b) \<longleftrightarrow> True"
| "json_ok (JInt i) \<longleftrightarrow> - (2 ^ 63) \<le> i \<and> i < 2 ^ 64"
| "json_ok (JStr s) \<longleftrightarrow> NUL \<notin> set s"
| "json_ok (JArr js) \<longleftrightarrow> list_all json_ok js"
| "json_ok (JObj ms) \<longleftrightarrow> list_all (\<lambda>(n, j). NUL \<notin> set n \<and> json_ok j) ms"

fun json_text :: "bool \<Rightarrow> nat \<Rightarrow> json \<Rightarrow> string" where
  "json_text fmt depth JNull = ''null''"
| "json_text fmt depth (JBool b) = (if b then ''true'' else ''false'')"
| "json_text fmt depth (JInt i) = int_text i"
| "json_text fmt depth (JStr s) = string_text s"
| "json_text fmt depth (JArr js) = ''['' @ join_array fmt (map (json_text fmt (depth + 1)) js) @ '']''"
| "json_text fmt depth (JObj ms) =
     ''{'' @ (if fmt then [CHR 0x0A] else [])
     @ join_object fmt (depth + 1) (map (\<lambda>(n, j). (string_text n, json_text fmt (depth + 1) j)) ms)
     @ (if fmt then replicate depth (CHR 0x09) else []) @ ''}''"

fun json_node :: "'d fpu \<Rightarrow> string option \<Rightarrow> json \<Rightarrow> 'd cJSON" where
  "json_node F nm JNull = CJSON cJSON_NULL False [] None 0 (d_zero F) 0 nm"
| "json_node F nm (JBool b) =
     (if b then CJSON cJSON_True False [] None 1 (d_zero F) 0 nm
      else CJSON cJSON_False False [] None 0 (d_zero F) 0 nm)"
| "json_node F nm (JInt i) =
     CJSON cJSON_Int False [] None (of_int i) (d_of_u64 F (of_int i)) (if i < 0 then -1 else 1) nm"
| "json_node F nm (JStr s) = CJSON cJSON_String False [] (Some s) 0 (d_zero F) 0 nm"
| "json_node F nm (JArr js) = CJSON cJSON_Array False (map (json_node F None) js) None 0 (d_zero F) 0 nm"
| "json_node F nm (JObj ms) =
     CJSON cJSON_Object False (map (\<lambda>(n, j). json_node F (Some n) j) ms) None 0 (d_zero F) 0 nm"

lemma int_text_nonempty [simp]: "int_text i \<noteq> []" by (simp add: int_text_def)

lemma json_text_nonempty [simp]: "json_text fmt d j \<noteq> []"
  by (cases j) (auto simp: string_text_def)

lemma node_string_json [simp]: "node_string (json_node F nm j) = nm"
  by (cases j) auto

subsection \<open>Printing\<close>

definition small_ok :: "alloc \<Rightarrow> bool" where
  "small_ok ok \<longleftrightarrow> (\<forall>n. n < 2 ^ 31 \<longrightarrow> ok n)"

lemma print_all_ok: "print_all (map (\<lambda>x. Some (Some (f x))) xs) = Some (Some (map f xs))"
  by (induction xs) auto

lemma those_Some: "those (map (\<lambda>x. Some (f x)) xs) = Some (map f xs)"
  by (induction xs) auto

lemma print_each_ok: "print_each (map (\<lambda>x. Some (Some (f x))) xs) = Some (Some (map f xs))"
  by (auto simp: print_each_def comp_def those_Some)

lemma into_buffer_ok: "small_ok ok \<Longrightarrow> length t < cap \<Longrightarrow> cap < 2 ^ 31 \<Longrightarrow> into_buffer ok cap t = Some (Some t)"
  by (simp add: into_buffer_def small_ok_def)

lemma print_string_text:
  "small_ok ok \<Longrightarrow> length (string_text s) < 2 ^ 28 \<Longrightarrow> print_string_ptr ok (Some s) = Some (Some (string_text s))"
  using sum_counted_bounds(3) [of s]
  by (simp add: print_string_ptr_def string_text_def into_buffer_ok)

lemma dec_text_length: "n < 10 ^ k \<Longrightarrow> 0 < k \<Longrightarrow> length (dec_text n) \<le> k"
proof (induction n arbitrary: k rule: dec_text.induct)
  case (1 n)
  show ?case
  proof (cases "n < 10")
    case True
    then show ?thesis using 1 by (simp add: dec_text.simps [of n])
  next
    case False
    then obtain k' where k: "k = Suc k'" "0 < k'" using 1 by (cases k; cases "k - 1") auto
    then have "n div 10 < 10 ^ k'" using 1 by (simp add: less_mult_imp_div_less mult.commute)
    then show ?thesis using 1 False k by (simp add: dec_text.simps [of n])
  qed
qed

lemma print_int_text:
  assumes ok: "small_ok ok" and i: "- (2 ^ 63) \<le> i" "i < 2 ^ 64"
  shows "print_int ok (json_node F nm (JInt i)) = Some (Some (int_text i))"
proof -
  have a: "nat \<bar>i\<bar> < 10 ^ 20" using i by (simp add: nat_less_iff abs_if)
  then have "length (dec_text (nat \<bar>i\<bar>)) \<le> 20" using dec_text_length by simp
  then have len: "length (int_text i) < 22" by (auto simp: int_text_def abs_if split: if_splits)
  show ?thesis
  proof (cases "i < 0")
    case True
    have s: "sint (word_of_int i :: u64) = i"
      using True i by (simp add: signed_of_int signed_take_bit_int_eq_self)
    have "\<not> ((word_of_int i :: u64) \<le> 0x7FFFFFFF \<and> word_of_int i \<ge> (0xFFFFFFFF80000000 :: u64))"
      by (auto dest: order_trans [of "0xFFFFFFFF80000000" _ "0x7FFFFFFF :: u64"] simp: word_le_nat_alt)
    then show ?thesis using True s len by (auto simp: print_int_def Let_def into_buffer_ok [OF ok])
  next
    case False
    then have u: "unat (word_of_int i :: u64) = nat i" using i by (simp add: unat_eq_nat_uint uint_word_of_int)
    have "v \<le> 0xFFFFFFFF \<Longrightarrow> unat (ucast v :: u32) = unat v" for v :: u64
      by (simp add: unsigned_ucast_eq word_le_nat_alt take_bit_nat_eq_self)
    then show ?thesis using False u len by (simp add: print_int_def Let_def into_buffer_ok [OF ok] int_text_def)
  qed
qed

lemma join_array_cons: "join_array fmt (t # ts) = t @ concat (map (\<lambda>t. '','' @ (if fmt then '' '' else []) @ t) ts)"
  by (induction ts arbitrary: t) auto

lemma compose_array_ok:
  assumes ok: "small_ok ok" and "\<forall>t\<in>set ts. t \<noteq> []" and l: "length (''['' @ join_array fmt ts @ '']'') < 2 ^ 28"
  shows "compose_array ok fmt ts = Some (Some (''['' @ join_array fmt ts @ '']''))"
proof -
  let ?c = "sum_list (map (\<lambda>t. length t + 2 + (if fmt then 1 else 0)) ts)"
  have "length (concat (map (\<lambda>t. '','' @ (if fmt then '' '' else []) @ t) xs))
      \<le> sum_list (map (\<lambda>t. length t + 2 + (if fmt then 1 else 0)) xs)" for xs
    by (induction xs) auto
  from this [of "tl ts"] have "length (join_array fmt ts) \<le> ?c" by (cases ts) (auto simp: join_array_cons)
  moreover have "?c \<le> 4 * length (join_array fmt ts)"
    using assms(2)
  proof (induction ts)
    case (Cons t ts)
    then have "length t \<ge> 1" by (cases t) auto
    moreover have "length (join_array fmt ts) \<le> length (concat (map (\<lambda>t. '','' @ (if fmt then '' '' else []) @ t) ts))"
      by (cases ts) (auto simp: join_array_cons)
    ultimately show ?case using Cons by (cases fmt) (simp_all add: join_array_cons)
  qed simp
  ultimately show ?thesis unfolding compose_array_def using l by (intro into_buffer_ok [OF ok]) auto
qed

lemma compose_object_ok:
  assumes ok: "small_ok ok" and "length ns = length es" "d > 0"
    and l: "length (''{'' @ (if fmt then [CHR 0x0A] else []) @ join_object fmt d (zip ns es)
        @ (if fmt then replicate (d - 1) (CHR 0x09) else []) @ ''}'') < 2 ^ 28"
  shows "compose_object ok fmt d ns es = Some (Some (''{'' @ (if fmt then [CHR 0x0A] else []) @ join_object fmt d (zip ns es)
        @ (if fmt then replicate (d - 1) (CHR 0x09) else []) @ ''}''))"
proof -
  let ?f = "\<lambda>(nm, t). length t + length nm + 2 + (if fmt then 2 + d else 0)"
  have "length (join_object fmt d ps) \<le> sum_list (map ?f ps)
     \<and> sum_list (map ?f ps) \<le> length (join_object fmt d ps) + 1" for ps
  proof (induction ps)
    case (Cons p ps)
    then show ?case by (cases p; cases "ps = []") auto
  qed simp
  from this [of "zip ns es"] show ?thesis unfolding compose_object_def using l \<open>d > 0\<close>
    by (intro into_buffer_ok [OF ok]) (auto split: if_splits)
qed
lemma join_array_member_length: "t \<in> set ts \<Longrightarrow> length t \<le> length (join_array fmt ts)"
proof (cases ts)
  case (Cons u us)
  assume "t \<in> set ts"
  moreover have "t \<in> set us \<Longrightarrow> length t \<le> length (concat (map (\<lambda>t. '','' @ (if fmt then '' '' else []) @ t) us))"
    by (induction us) auto
  ultimately show ?thesis using Cons by (auto simp: join_array_cons)
qed simp

lemma join_array_count: "\<forall>t\<in>set ts. t \<noteq> [] \<Longrightarrow> length ts \<le> length (join_array fmt ts)"
proof (cases ts)
  case (Cons u us)
  assume "\<forall>t\<in>set ts. t \<noteq> []"
  moreover have "length us \<le> length (concat (map (\<lambda>t. '','' @ (if fmt then '' '' else []) @ t) us))"
    by (induction us) auto
  ultimately show ?thesis using Cons by (cases u) (auto simp: join_array_cons)
qed simp

lemma join_object_member_length: "(n, t) \<in> set ps \<Longrightarrow> length n + length t < length (join_object fmt d ps)"
  by (induction ps) auto

lemma join_object_count: "length ps \<le> length (join_object fmt d ps)"
  by (induction ps) auto

declare print_value.simps [simp del]

lemma print_value_text:
  assumes ok: "small_ok ok"
  shows "json_ok j \<Longrightarrow> length (json_text fmt d j) < 2 ^ 28 \<Longrightarrow>
    print_value F ok (json_node F nm j) d fmt = Some (Some (json_text fmt d j))"
proof (induction j arbitrary: d nm)
  case (JInt i)
  then show ?case using print_int_text [OF ok, of i F nm] by (simp add: print_value.simps)
next
  case (JStr s)
  then show ?case using print_string_text [OF ok, of s] by (simp add: print_value.simps)
next
  case (JArr js)
  let ?t = "json_text fmt (d + 1)"
  have len: "length (''['' @ join_array fmt (map ?t js) @ '']'') < 2 ^ 28" using JArr.prems(2) by simp
  have n: "ok (length js * 8)" using ok len join_array_count [of "map ?t js" fmt] by (auto simp: small_ok_def)
  have "print_value F ok (json_node F None j) (d + 1) fmt = Some (Some (?t j))" if "j \<in> set js" for j
    using that JArr.IH [of j "d + 1" None] JArr.prems(1) len join_array_member_length [of "?t j" "map ?t js" fmt]
    by (auto simp: list_all_iff)
  then have "map (\<lambda>c. print_value F ok c (d + 1) fmt) (map (json_node F None) js) = map (\<lambda>j. Some (Some (?t j))) js"
    by simp
  then have "print_all (map (\<lambda>c. print_value F ok c (d + 1) fmt) (map (json_node F None) js)) = Some (Some (map ?t js))"
    by (simp only: print_all_ok)
  moreover have "compose_array ok fmt (map ?t js) = Some (Some (json_text fmt d (JArr js)))"
    using compose_array_ok [OF ok _ len] by simp
  ultimately show ?case using n by (subst print_value.simps) (simp add: res_bind_def)
next
  case (JObj ms)
  let ?t = "json_text fmt (d + 1)" and ?c = "map (\<lambda>(n, j). json_node F (Some n) j) ms"
  let ?ps = "map (\<lambda>(n, j). (string_text n, ?t j)) ms"
  have len: "length (''{'' @ (if fmt then [CHR 0x0A] else []) @ join_object fmt (d + 1) ?ps
      @ (if fmt then replicate d (CHR 0x09) else []) @ ''}'') < 2 ^ 28" using JObj.prems(2) by simp
  have n: "ok (length ms * 8)" using ok len join_object_count [of ?ps fmt "d + 1"] by (auto simp: small_ok_def)
  have m: "length (string_text n) + length (?t j) < 2 ^ 28" if "(n, j) \<in> set ms" for n j
    using that len join_object_member_length [of "string_text n" "?t j" ?ps fmt "d + 1"] by force
  have 1: "map (\<lambda>c. print_string_ptr ok (node_string c)) ?c = map (\<lambda>p. Some (Some (string_text (fst p)))) ms"
    using print_string_text [OF ok] m by fastforce
  have "print_value F ok (json_node F (Some n) j) (d + 1) fmt = Some (Some (?t j))" if "(n, j) \<in> set ms" for n j
    using that JObj.IH [of "(n, j)" j "d + 1" "Some n"] JObj.prems(1) m [OF that] by (auto simp: list_all_iff)
  then have 2: "map (\<lambda>c. print_value F ok c (d + 1) fmt) ?c = map (\<lambda>p. Some (Some (?t (snd p)))) ms"
    by auto
  have z: "zip (map (\<lambda>p. string_text (fst p)) ms) (map (\<lambda>p. ?t (snd p)) ms) = ?ps"
    by (induction ms) auto
  have "compose_object ok fmt (d + 1) (map (\<lambda>p. string_text (fst p)) ms) (map (\<lambda>p. ?t (snd p)) ms)
      = Some (Some (json_text fmt d (JObj ms)))"
    using compose_object_ok [OF ok, of "map (\<lambda>p. string_text (fst p)) ms" "map (\<lambda>p. ?t (snd p)) ms" "d + 1" fmt] len
    unfolding z by (simp only: diff_add_inverse2 json_text.simps length_map simp_thms zero_less_one add_pos_pos trans_less_add2)
  then show ?case using n 1 2
    by (subst print_value.simps) (simp add: print_members_def print_each_ok del: map_map)
qed (use ok in \<open>simp_all add: print_value.simps cJSON_strdup_def small_ok_def\<close>)

subsection \<open>Parsing a printed text\<close>

lemma skip_cons: "c = NUL \<or> 32 < code c \<Longrightarrow> skip (c # r) = Some (c # r)"
  by (auto simp: skip_def)

lemma skip_blank: "\<forall>c\<in>set w. c \<noteq> NUL \<and> code c \<le> 32 \<Longrightarrow> r \<noteq> [] \<Longrightarrow> skip (w @ r) = skip r"
  by (auto simp: skip_def dropWhile_append)

lemma code_lits:
  "code (CHR '','') = 44" "code (CHR '']'') = 93" "code (CHR ''}'') = 125" "code (CHR '' '') = 32"
  "code (CHR 0x0A) = 10" "code (CHR 0x09) = 9" "code (CHR 0x22) = 34" "code (CHR '':'') = 58"
  "code (CHR ''['') = 91" "code (CHR ''{'') = 123" "code (CHR ''-'') = 45" "code (CHR ''0'') = 48"
  "code (CHR ''9'') = 57" "code NUL = 0"
  by (simp_all add: code_def NUL_def)

lemma int_text_head: "\<exists>c q. int_text i = c # q \<and> (c = CHR ''-'' \<or> IS_NUM c)"
proof (cases "i < 0")
  case False
  obtain c q where "dec_text (nat i) = c # q" by (cases "dec_text (nat i)") auto
  then show ?thesis using False dec_text_digits [of "nat i"] by (simp add: int_text_def)
qed (simp add: int_text_def)

lemma json_text_head: "\<exists>c q. json_text fmt d j = c # q \<and> 32 < code c \<and> c \<noteq> CHR '']''"
proof (cases j)
  case (JInt i)
  then show ?thesis using int_text_head [of i] by (auto simp: IS_NUM_def code_lits)
qed (auto simp: string_text_def code_def)

lemma skip_json_text: "skip (json_text fmt d j @ r) = Some (json_text fmt d j @ r)"
  using json_text_head [of fmt d j] by (auto simp: skip_cons)

lemma parse_string_text:
  assumes ok: "small_ok ok" and "NUL \<notin> set s" "length (string_text s) < 2 ^ 28"
  shows "parse_string ok st item (string_text s @ r)
    = Some (POk (set_node_type cJSON_String (set_valuestring (Some s) item), r))"
proof -
  let ?n = "sum_list (map counted_length s)"
  have n: "length s \<le> ?n" "?n < 2 ^ 28" using sum_counted_bounds(1,2) [of s] assms(3) by (auto simp: string_text_def)
  have "string_length (concat (map escape_char s) @ CHR 0x22 # r) 0 = Some ?n"
    using string_length_text [OF assms(2), of r 0] by simp
  moreover have "string_body (?n + 1) (concat (map escape_char s) @ CHR 0x22 # r) [] (fst st) (snd st) = Some (s, CHR 0x22 # r)"
    using string_body_text [OF assms(2), of "[]" "?n + 1" r] n by simp
  moreover have "ok (?n + 1)" "\<not> ?n + 1 \<ge> 2 ^ 31" using n ok by (auto simp: small_ok_def)
  ultimately show ?thesis by (simp add: parse_string_def string_text_def peek_def)
qed

lemma parse_value_number:
  "parse_value F ok st (Suc n) item (int_text i @ r) = parse_number F item (int_text i @ r)"
proof -
  obtain c q where t: "int_text i = c # q" and c: "c = CHR ''-'' \<or> IS_NUM c" using int_text_head [of i] by auto
  then have "c \<notin> {CHR ''n'', CHR ''f'', CHR ''t'', CHR 0x22}" by (auto simp: IS_NUM_def code_def)
  then show ?thesis using c by (simp add: t peek_def)
qed

text \<open>A parser that reads the text \<open>t\<close> of the value \<open>j\<close>, whatever follows it.\<close>

definition reads :: "'d fpu \<Rightarrow> 'd parser_fun \<Rightarrow> json \<Rightarrow> string \<Rightarrow> bool" where
  "reads F pv j t \<longleftrightarrow>
     (\<forall>ty nm r. value_end r \<longrightarrow>
        pv (CJSON ty False [] None 0 (d_zero F) 0 nm) (t @ r) = Some (POk (json_node F nm j, r)))"

lemma readsD:
  "reads F pv j t \<Longrightarrow> value_end r \<Longrightarrow>
     pv (CJSON ty False [] None 0 (d_zero F) 0 nm) (t @ r) = Some (POk (json_node F nm j, r))"
  by (simp add: reads_def)

lemma parse_item_text:
  assumes "small_ok ok" "reads F pv j (json_text fmt d j)" "c \<in> {CHR '','', CHR '']''}"
    and "sp = [] \<or> sp = '' ''"
  shows "parse_item F ok pv (sp @ json_text fmt d j @ c # r) = Some (POk (json_node F None j, c # r))"
proof -
  have "value_end (c # r)" "skip (c # r) = Some (c # r)" using assms(3) by (auto simp: value_end_def intro!: skip_cons simp: code_lits)
  moreover have "skip (sp @ json_text fmt d j @ c # r) = Some (json_text fmt d j @ c # r)"
    using assms(4) skip_blank [of sp "json_text fmt d j @ c # r"] by (auto simp: skip_json_text code_lits NUL_def)
  ultimately show ?thesis using assms(1,2)
    by (simp add: parse_item_def new_item_def cJSON_New_Item_def cJSON_blank_def small_ok_def pskip_def pthen_def readsD)
qed

lemma parse_elements_text:
  assumes ok: "small_ok ok"
  shows "\<forall>j\<in>set js. reads F pv j (json_text fmt d j) \<Longrightarrow> length js < n \<Longrightarrow>
    parse_rest F ok pv (CHR '']'') n item cs
      (concat (map (\<lambda>j. '','' @ (if fmt then '' '' else []) @ json_text fmt d j) js) @ CHR '']'' # r)
    = Some (POk (set_child (cs @ map (json_node F None) js) item, r))"
proof (induction js arbitrary: n cs)
  case Nil
  then show ?case by (cases n) (simp_all add: peek_def)
next
  case (Cons j js)
  let ?rest = "concat (map (\<lambda>j. '','' @ (if fmt then '' '' else []) @ json_text fmt d j) js) @ CHR '']'' # r"
  obtain m where n: "n = Suc m" "length js < m" using Cons.prems by (cases n) auto
  obtain c q where q: "?rest = c # q" "c \<in> {CHR '','', CHR '']''}" by (cases js) auto
  have "parse_item F ok pv ((if fmt then '' '' else []) @ json_text fmt d j @ ?rest) = Some (POk (json_node F None j, ?rest))"
    unfolding q(1) using parse_item_text [OF ok _ q(2), of F pv j fmt d] Cons.prems by simp
  then show ?case using Cons.IH [of m "cs @ [json_node F None j]"] Cons.prems n by (simp add: peek_def pthen_def)
qed

lemma parse_array_text:
  assumes ok: "small_ok ok" and "\<forall>j\<in>set js. reads F pv j (json_text fmt (d + 1) j)" "length js \<le> n"
  shows "parse_array F ok pv n (CJSON ty False [] None 0 (d_zero F) 0 nm) (json_text fmt d (JArr js) @ r)
    = Some (POk (json_node F nm (JArr js), r))"
proof (cases js)
  case Nil
  then show ?thesis by (simp add: parse_array_def parse_list_def peek_def skip_cons code_lits)
next
  case (Cons j ks)
  let ?rest = "concat (map (\<lambda>j. '','' @ (if fmt then '' '' else []) @ json_text fmt (d + 1) j) ks) @ CHR '']'' # r"
  obtain c q where q: "?rest = c # q" "c \<in> {CHR '','', CHR '']''}" by (cases ks) auto
  have t: "json_text fmt d (JArr js) @ r = ''['' @ json_text fmt (d + 1) j @ ?rest"
    by (simp add: Cons join_array_cons comp_def)
  have h: "peek (json_text fmt (d + 1) j @ ?rest) \<noteq> Some (CHR '']'')"
    using json_text_head [of fmt "d + 1" j] by (auto simp: peek_def)
  have "parse_item F ok pv (json_text fmt (d + 1) j @ ?rest) = Some (POk (json_node F None j, ?rest))"
    unfolding q(1) using parse_item_text [OF ok _ q(2), of F pv j fmt "d + 1" "[]"] assms(2) Cons by simp
  moreover have "parse_rest F ok pv (CHR '']'') n (CJSON cJSON_Array False [] None 0 (d_zero F) 0 nm) [json_node F None j] ?rest
    = Some (POk (json_node F nm (JArr js), r))"
    using parse_elements_text [OF ok, of ks F pv fmt "d + 1" n] assms(2,3) Cons by simp
  ultimately show ?thesis using h unfolding t
    by (simp add: parse_array_def parse_list_def skip_json_text pthen_def) (simp add: peek_def)
qed
text \<open>A member of an object, up to the end of its value.\<close>

definition member_text :: "bool \<Rightarrow> nat \<Rightarrow> string \<times> json \<Rightarrow> string" where
  "member_text fmt d m =
     string_text (fst m) @ '':'' @ (if fmt then [CHR 0x09] else []) @ json_text fmt d (snd m)"

lemma parse_member_text:
  assumes ok: "small_ok ok" and "NUL \<notin> set n" "length (string_text n) < 2 ^ 28"
    and pv: "reads F pv j (json_text fmt d j)" "value_end r"
  shows "parse_member ok st pv (CJSON ty False [] None 0 (d_zero F) 0 None) (member_text fmt d (n, j) @ r)
    = Some (POk (json_node F (Some n) j, r))"
proof -
  let ?v = "(if fmt then [CHR 0x09] else []) @ json_text fmt d j @ r"
  have "skip ?v = Some (json_text fmt d j @ r)"
    using skip_blank [of "if fmt then [CHR 0x09] else []" "json_text fmt d j @ r"] by (simp add: skip_json_text code_lits NUL_def)
  then show ?thesis
    using parse_string_text [OF ok assms(2,3), of st "CJSON ty False [] None 0 (d_zero F) 0 None" "CHR '':'' # ?v"] readsD [OF pv]
    by (cases fmt) (simp_all add: parse_member_def member_text_def pskip_def pthen_def skip_cons code_lits peek_def)
qed

lemma skip_member: "skip (member_text fmt d m @ r) = Some (member_text fmt d m @ r)"
  by (simp add: member_text_def string_text_def skip_cons code_lits)

text \<open>What follows the value of a member: the other members \<open>ms\<close> and the closing brace.\<close>

definition members_rest :: "bool \<Rightarrow> nat \<Rightarrow> (string \<times> json) list \<Rightarrow> string \<Rightarrow> string" where
  "members_rest fmt d ms r =
     (if ms \<noteq> [] then '','' else []) @ (if fmt then [CHR 0x0A] else [])
     @ join_object fmt d (map (\<lambda>(n, j). (string_text n, json_text fmt d j)) ms)
     @ (if fmt then replicate (d - 1) (CHR 0x09) else []) @ ''}'' @ r"

lemma join_object_member:
  "join_object fmt d (map (\<lambda>(n, j). (string_text n, json_text fmt d j)) (m # ms))
     @ (if fmt then replicate (d - 1) (CHR 0x09) else []) @ ''}'' @ r
   = (if fmt then replicate d (CHR 0x09) else []) @ member_text fmt d m @ members_rest fmt d ms r"
  by (cases m) (auto simp: member_text_def members_rest_def)

lemma members_rest_Cons:
  "members_rest fmt d (m # ms) r =
     CHR '','' # ((if fmt then CHR 0x0A # replicate d (CHR 0x09) else []) @ member_text fmt d m @ members_rest fmt d ms r)"
  using join_object_member [of fmt d m ms r] by (cases fmt) (simp_all add: members_rest_def)

lemma value_end_rest: "value_end (members_rest fmt d ms r)"
  by (auto simp: value_end_def members_rest_def)

lemma blank_lead: "\<forall>c\<in>set (if fmt then CHR 0x0A # replicate d (CHR 0x09) else []). c \<noteq> NUL \<and> code c \<le> 32"
  "\<forall>c\<in>set (if fmt then replicate d (CHR 0x09) else []). c \<noteq> NUL \<and> code c \<le> 32"
  by (auto simp: code_lits NUL_def)

lemma skip_rest:
  "skip (members_rest fmt d ms r) = Some (if ms = [] then CHR ''}'' # r else members_rest fmt d ms r)"
proof (cases ms)
  case Nil
  let ?w = "if fmt then CHR 0x0A # replicate (d - 1) (CHR 0x09) else []"
  have "members_rest fmt d [] r = ?w @ CHR ''}'' # r" by (simp add: members_rest_def)
  then show ?thesis using Nil skip_blank [OF blank_lead(1), of "CHR ''}'' # r" fmt "d - 1"]
    by (simp only: skip_cons code_lits) (simp add: skip_cons code_lits)
qed (simp add: members_rest_Cons skip_cons code_lits)

lemma parse_item_member:
  assumes ok: "small_ok ok" and "NUL \<notin> set (fst m)" "length (string_text (fst m)) < 2 ^ 28"
    and pv: "reads F pv (snd m) (json_text fmt d (snd m))" and w: "\<forall>c\<in>set w. c \<noteq> NUL \<and> code c \<le> 32"
  shows "parse_item F ok (parse_member ok st pv) (w @ member_text fmt d m @ members_rest fmt d ms r)
    = Some (POk (json_node F (Some (fst m)) (snd m), if ms = [] then CHR ''}'' # r else members_rest fmt d ms r))"
proof -
  have "skip (w @ member_text fmt d m @ members_rest fmt d ms r) = Some (member_text fmt d m @ members_rest fmt d ms r)"
    using skip_blank [OF w, of "member_text fmt d m @ members_rest fmt d ms r"] by (simp add: skip_member) (simp add: member_text_def)
  then show ?thesis
    using parse_member_text [OF assms(1-4) value_end_rest [of fmt d ms r], of st] ok
    by (simp add: parse_item_def new_item_def cJSON_New_Item_def cJSON_blank_def small_ok_def pskip_def pthen_def skip_rest)
qed

lemma parse_members_text:
  assumes ok: "small_ok ok"
  shows "\<forall>m\<in>set ms. NUL \<notin> set (fst m) \<and> length (string_text (fst m)) < 2 ^ 28
        \<and> reads F pv (snd m) (json_text fmt d (snd m)) \<Longrightarrow> length ms < n \<Longrightarrow>
    parse_rest F ok (parse_member ok st pv) (CHR ''}'') n item cs (if ms = [] then CHR ''}'' # r else members_rest fmt d ms r)
    = Some (POk (set_child (cs @ map (\<lambda>(n, j). json_node F (Some n) j) ms) item, r))"
proof (induction ms arbitrary: n cs)
  case Nil
  then show ?case by (cases n) (simp_all add: peek_def)
next
  case (Cons m ms)
  obtain k where n: "n = Suc k" "length ms < k" using Cons.prems by (cases n) auto
  let ?w = "if fmt then CHR 0x0A # replicate d (CHR 0x09) else []"
  have "parse_item F ok (parse_member ok st pv) (?w @ member_text fmt d m @ members_rest fmt d ms r)
    = Some (POk (json_node F (Some (fst m)) (snd m), if ms = [] then CHR ''}'' # r else members_rest fmt d ms r))"
    using Cons.prems by (intro parse_item_member [OF ok] blank_lead) auto
  moreover have "parse_rest F ok (parse_member ok st pv) (CHR ''}'') k item (cs @ [json_node F (Some (fst m)) (snd m)])
      (if ms = [] then CHR ''}'' # r else members_rest fmt d ms r)
    = Some (POk (set_child (cs @ map (\<lambda>(n, j). json_node F (Some n) j) (m # ms)) item, r))"
    using Cons.IH [of k "cs @ [json_node F (Some (fst m)) (snd m)]"] Cons.prems n by (cases m) simp
  ultimately show ?case by (simp add: n members_rest_Cons peek_def pthen_def del: append_Cons)
qed

lemma parse_object_text:
  assumes ok: "small_ok ok" and ms: "\<forall>m\<in>set ms. NUL \<notin> set (fst m) \<and> length (string_text (fst m)) < 2 ^ 28
      \<and> reads F pv (snd m) (json_text fmt (d + 1) (snd m))" "length ms \<le> n"
  shows "parse_object F ok st pv n (CJSON ty False [] None 0 (d_zero F) 0 nm) (json_text fmt d (JObj ms) @ r)
    = Some (POk (json_node F nm (JObj ms), r))"
proof (cases ms)
  case Nil
  have "skip ((if fmt then CHR 0x0A # replicate d (CHR 0x09) else []) @ CHR ''}'' # r) = Some (CHR ''}'' # r)"
    using skip_blank [OF blank_lead(1), of "CHR ''}'' # r" fmt d] by (simp add: skip_cons code_lits)
  then show ?thesis using Nil by (cases fmt) (simp_all add: parse_object_def parse_list_def peek_def)
next
  case (Cons m ks)
  let ?w = "if fmt then CHR 0x0A # replicate (d + 1) (CHR 0x09) else []"
  let ?v = "member_text fmt (d + 1) m @ members_rest fmt (d + 1) ks r"
  have t: "json_text fmt d (JObj ms) @ r = ''{'' @ ?w @ ?v"
    using join_object_member [of fmt "d + 1" m ks r] unfolding Cons by (cases fmt) simp_all
  have "?v \<noteq> []" by (simp add: member_text_def)
  then have s: "skip (?w @ ?v) = Some ?v" using skip_blank [OF blank_lead(1), of ?v fmt "d + 1"] skip_member by metis
  have h: "peek ?v \<noteq> Some (CHR ''}'')" by (simp add: member_text_def string_text_def peek_def)
  have "parse_item F ok (parse_member ok st pv) ?v
    = Some (POk (json_node F (Some (fst m)) (snd m), if ks = [] then CHR ''}'' # r else members_rest fmt (d + 1) ks r))"
    using parse_item_member [OF ok, of m F pv fmt "d + 1" "[]" st ks r] ms Cons by simp
  moreover have "parse_rest F ok (parse_member ok st pv) (CHR ''}'') n (CJSON cJSON_Object False [] None 0 (d_zero F) 0 nm)
      [json_node F (Some (fst m)) (snd m)] (if ks = [] then CHR ''}'' # r else members_rest fmt (d + 1) ks r)
    = Some (POk (json_node F nm (JObj ms), r))"
    using parse_members_text [OF ok, of ks F pv fmt "d + 1" n] ms Cons by (simp add: case_prod_beta)
  ultimately show ?thesis using h s unfolding t
    by (simp add: parse_object_def parse_list_def pthen_def del: append_assoc) (simp add: peek_def)
qed
lemma parse_value_text:
  assumes ok: "small_ok ok"
  shows "json_ok j \<Longrightarrow> length (json_text fmt d j) < 2 ^ 28 \<Longrightarrow> length (json_text fmt d j) \<le> n \<Longrightarrow>
    reads F (parse_value F ok st n) j (json_text fmt d j)"
proof (induction j arbitrary: d n)
  case (JInt i)
  then obtain k where "n = Suc k" using int_text_nonempty [of i] by (cases n) auto
  then show ?case using JInt parse_value_number [of F] parse_number_text [of i _ F] by (simp add: reads_def del: parse_value.simps)
next
  case (JStr s)
  then obtain k where n: "n = Suc k" by (cases n) (auto simp: string_text_def)
  have "parse_value F ok st n item (string_text s @ r) = parse_string ok st item (string_text s @ r)" for item r
    by (simp add: n string_text_def peek_def)
  then show ?case using JStr parse_string_text [OF ok, where s = s and st = st and item = "CJSON _ _ _ _ _ (d_zero F) _ _"] by (simp add: reads_def)
next
  case (JArr js)
  then obtain k where n: "n = Suc k" by (cases n) auto
  let ?t = "json_text fmt (d + 1)"
  have k: "length (join_array fmt (map ?t js)) + 1 \<le> k" "length (join_array fmt (map ?t js)) < 2 ^ 28" using JArr.prems n by auto
  have "reads F (parse_value F ok st k) j (?t j)" if "j \<in> set js" for j
    using that JArr.IH [of j "d + 1" k] JArr.prems(1) join_array_member_length [of "?t j" "map ?t js" fmt] k
    by (auto simp: list_all_iff)
  moreover have "length js \<le> k" using join_array_count [of "map ?t js" fmt] k by simp
  ultimately show ?case using parse_array_text [OF ok, of js F "parse_value F ok st k" fmt d k]
    by (simp add: reads_def n peek_def IS_NUM_def code_lits)
next
  case (JObj ms)
  then obtain k where n: "n = Suc k" by (cases n) auto
  let ?t = "json_text fmt (d + 1)" and ?ps = "map (\<lambda>(n, j). (string_text n, json_text fmt (d + 1) j)) ms"
  have k: "length (join_object fmt (d + 1) ?ps) + 1 \<le> k" "length (join_object fmt (d + 1) ?ps) < 2 ^ 28"
    using JObj.prems n by auto
  have "NUL \<notin> set (fst m) \<and> length (string_text (fst m)) < 2 ^ 28 \<and> reads F (parse_value F ok st k) (snd m) (?t (snd m))"
    if "m \<in> set ms" for m
  proof -
    have "(string_text (fst m), ?t (snd m)) \<in> set ?ps" using that by force
    from join_object_member_length [OF this, of fmt "d + 1"]
    have "length (string_text (fst m)) + length (?t (snd m)) < length (join_object fmt (d + 1) ?ps)" .
    then show ?thesis using that JObj.IH [of m "snd m" "d + 1" k] JObj.prems(1) k by (auto simp: list_all_iff snds.simps)
  qed
  moreover have "length ms \<le> k" using join_object_count [of ?ps fmt "d + 1"] k by simp
  ultimately show ?case using parse_object_text [OF ok, of ms F "parse_value F ok st k" fmt d k st]
    by (simp add: reads_def n peek_def IS_NUM_def code_lits)
next
  case JNull
  then show ?case by (cases n) (simp_all add: reads_def)
next
  case (JBool b)
  then show ?case by (cases n; cases b) (simp_all add: reads_def)
qed


text \<open>
  C29. Printing the node tree of a JSON value whose numbers are integers, formatted or not, yields exactly the text of the
  value: every string, integer, array and object is written inside the buffer whose size the code computed for it, for
  all integers from -2^63 to 2^64 - 1, all strings and names without a \<open>NUL\<close>, and every nesting, as long
  as the text is shorter than 256 MB and allocations of \<open>int\<close> size succeed.  Doubles are left out: the 64 bytes of
  \<open>print_double\<close> are too few for a large one.
\<close>

theorem cJSON_Print_text:
  assumes "small_ok ok" "json_ok j" "length (json_text fmt 0 j) < 2 ^ 28"
  shows "(if fmt then cJSON_Print F ok (json_node F nm j) else cJSON_PrintUnformatted F ok (json_node F nm j))
    = Some (Some (json_text fmt 0 j))"
  using print_value_text [OF assms, of F nm] by (cases fmt) (simp_all add: cJSON_Print_def cJSON_PrintUnformatted_def)

lemma small_ok_True: "small_ok (\<lambda>_. True)"
  by (simp add: small_ok_def)

text \<open>The integral part of \<open>m * 10 ^ e\<close>, where \<open>uint64\<close> holds it.\<close>

definition exact_u64 :: "int \<Rightarrow> int \<Rightarrow> u64 option" where
  "exact_u64 m e =
     (let q = (if 0 \<le> e then m * 10 ^ nat e else sgn m * (\<bar>m\<bar> div 10 ^ nat (- e)))
      in if 0 \<le> q \<and> q < 2 ^ 64 then Some (word_of_int q) else None)"

definition unit_fpu :: "unit fpu" where
  "unit_fpu = \<lparr>d_zero = (), d_of_u64 = (\<lambda>_. ()), d_scaled = (\<lambda>_ _. ()), u64_scaled = exact_u64,
     u64_of_d = (\<lambda>_. 0), d_text = (\<lambda>_. ''0'')\<rparr>"

definition sample_json :: json where
  "sample_json = JObj [(''ids'', JArr [JInt (-7), JInt 18446744073709551615, JNull]), (''s'', JStr [CHR 0x22, CHR 0x01, CHR 0x0A])]"

lemma sample_json_ok: "json_ok sample_json" "length (json_text True 0 sample_json) < 2 ^ 28"
    "length (json_text False 0 sample_json) < 2 ^ 28"
  by (simp_all add: sample_json_def NUL_def string_text_def int_text_def dec_text.simps escape_char_def code_def)

theorem cJSON_Print_text_witness:
  "cJSON_Print unit_fpu (\<lambda>_. True) (json_node unit_fpu None sample_json) = Some (Some (json_text True 0 sample_json))"
  using cJSON_Print_text [OF small_ok_True sample_json_ok(1,2), of unit_fpu None] by simp

text \<open>
  C6. What the printer writes for the node tree of a JSON value whose numbers are integers, formatted or not, parses back to
  exactly this tree: strings with every escape and no \<open>NUL\<close>, integers from -2^63 to 2^64 - 1 with their signs, nested
  arrays and objects with their names, whatever the uninitialised variables of the string parser hold, while the text is
  shorter than 256 MB and allocations succeed.  Fractional numbers are left out: \<open>print_double\<close> keeps only six digits
  of a fraction.
\<close>

theorem cJSON_print_parse:
  assumes "small_ok ok" "json_ok j" "length (json_text fmt 0 j) < 2 ^ 28"
  shows "\<exists>t. (if fmt then cJSON_Print F ok (json_node F None j) else cJSON_PrintUnformatted F ok (json_node F None j)) = Some (Some t)
    \<and> cJSON_Parse F ok st t = Some (POk (json_node F None j))"
proof -
  have "reads F (parse_value F ok st (parse_fuel (json_text fmt 0 j @ [NUL]))) j (json_text fmt 0 j)"
    by (rule parse_value_text [OF assms]) (simp add: parse_fuel_def)
  from readsD [OF this, of "[NUL]"]
  have "cJSON_Parse F ok st (json_text fmt 0 j) = Some (POk (json_node F None j))" using assms(1)
    by (simp add: cJSON_Parse_def new_item_def cJSON_New_Item_def cJSON_blank_def small_ok_def skip_json_text
        value_end_def pthen_def)
  then show ?thesis using print_value_text [OF assms, of F None] by (cases fmt) (simp_all add: cJSON_Print_def cJSON_PrintUnformatted_def)
qed

theorem cJSON_print_parse_witness:
  "\<exists>t. cJSON_PrintUnformatted unit_fpu (\<lambda>_. True) (json_node unit_fpu None sample_json) = Some (Some t)
    \<and> cJSON_Parse unit_fpu (\<lambda>_. True) (5, 5) t = Some (POk (json_node unit_fpu None sample_json))"
  using cJSON_print_parse [OF small_ok_True sample_json_ok(1,3), of unit_fpu "(5, 5)"] by simp

end
