(* ===== verification/CJsonSafety.thy ===== *)
theory CJsonSafety
  imports CJsonText
begin

text \<open>
  Progress and memory safety of the parser of \<open>cJSON.c\<close>.

  Every success of a parse function consumes a character (\<open>consuming\<close>), so that the bound on nesting
  and iterations that \<open>cJSON_Parse\<close> starts with is never reached.  On a text without a backslash every
  read and write is in bounds; with one the parser can leave the string.
\<close>

subsection \<open>Progress\<close>

lemma pthen_POk: "pthen r k = Some (POk y) \<longleftrightarrow> (\<exists>x. r = Some (POk x) \<and> k x = Some (POk y))"
  by (auto simp: pthen_def split: option.splits pres.splits)

lemma peek_Some: "peek p = Some c \<longleftrightarrow> (\<exists>q. p = c # q)"
  by (cases p) (auto simp: peek_def)

lemma peek_Cons [simp]: "peek (c # q) = Some c"
  by (simp add: peek_def)

lemma peek_Nil [simp]: "peek [] = None"
  by (simp add: peek_def)

lemma suffix_tl_trans: "suffix p q \<Longrightarrow> suffix (tl p) q"
  using suffix_order.trans suffix_tl by blast

lemma suffix_strict_Cons: "suffix p q \<Longrightarrow> strict_suffix p (c # q)"
  by (meson suffix_ConsD' suffix_order.le_less_trans suffix_order.order_refl)

lemma skip_suffix: "skip v = Some w \<Longrightarrow> suffix w v"
  by (auto simp: skip_def suffix_dropWhile split: if_splits)

lemma span_digits_suffix: "suffix p q \<Longrightarrow> suffix (snd (span_digits p)) q"
  using suffix_order.trans suffix_dropWhile by (fastforce simp: span_digits_def)

lemma parse_exponent_suffix: "parse_exponent p = Some (e, r) \<Longrightarrow> suffix r p"
  by (auto simp: parse_exponent_def Let_def intro!: span_digits_suffix suffix_tl_trans split: if_splits)

lemma parse_mantissa_suffix: "suffix (snd (snd (parse_mantissa p))) p"
  by (auto simp: parse_mantissa_def Let_def intro!: span_digits_suffix suffix_tl_trans split: if_splits option.splits)

lemma parse_mantissa_strict:
  assumes "IS_NUM c"
  shows "strict_suffix (snd (snd (parse_mantissa (c # q)))) (c # q)"
proof -
  have "suffix (snd (snd (parse_mantissa (c # q)))) q"
  proof (cases "c = CHR ''0''")
    case True
    then show ?thesis
      by (auto simp: parse_mantissa_def Let_def intro!: span_digits_suffix suffix_tl_trans split: if_splits option.splits)
  next
    case False
    have "suffix (snd (span_digits (c # q))) q" using assms by (simp add: span_digits_def suffix_dropWhile)
    then show ?thesis using False assms
      by (auto simp: parse_mantissa_def Let_def intro!: span_digits_suffix suffix_tl_trans split: if_splits option.splits)
  qed
  then show ?thesis by (rule suffix_strict_Cons)
qed

lemma parse_number_strict:
  assumes "parse_number F item (c # q) = Some (POk (x, r))" "c = CHR ''-'' \<or> IS_NUM c"
  shows "strict_suffix r (c # q)"
proof -
  let ?p = "if c = CHR ''-'' then q else c # q"
  obtain e where e: "parse_exponent (snd (snd (parse_mantissa ?p))) = Some (e, r)"
    using assms(1) by (auto simp: parse_number_def peek_def Let_def bind_eq_Some_conv split: if_splits prod.splits)
  then have r: "suffix r (snd (snd (parse_mantissa ?p)))" by (rule parse_exponent_suffix)
  have "strict_suffix (snd (snd (parse_mantissa ?p))) (c # q)"
  proof (cases "c = CHR ''-''")
    case True
    then show ?thesis using parse_mantissa_suffix [of q] suffix_strict_Cons by simp
  next
    case False
    then show ?thesis using parse_mantissa_strict [of c q] assms(2) by simp
  qed
  then show ?thesis using r suffix_order.le_less_trans by blast
qed

lemma unicode_escape_suffix: "unicode_escape p uc uc2 = Some (b, r, u, u2) \<Longrightarrow> suffix r p"
proof -
  assume a: "unicode_escape p uc uc2 = Some (b, r, u, u2)"
  have "suffix (drop 6 (drop 4 p)) p" by (simp add: suffix_drop)
  with a show ?thesis
    by (auto simp: unicode_escape_def Let_def suffix_drop split: if_splits option.splits)
qed

lemma string_body_suffix: "string_body cap p out uc uc2 = Some (s, r) \<Longrightarrow> suffix r p"
proof (induction cap p out uc uc2 rule: string_body.induct)
  case (1 cap p out uc uc2)
  note def = string_body.simps [of cap p out uc uc2]
  show ?case
  proof (cases p)
    case Nil
    then show ?thesis using 1(4) by (simp add: string_body.simps)
  next
    case (Cons c q)
    note def = def [unfolded Cons list.case]
    consider (stop) "c = CHR 0x22 \<or> c = NUL" | (plain) "c \<noteq> CHR 0x22" "c \<noteq> NUL" "c \<noteq> CHR 0x5C"
      | (esc) "c = CHR 0x5C" "c \<noteq> CHR 0x22" "c \<noteq> NUL" by (auto simp: NUL_def)
    then show ?thesis
    proof cases
      case stop
      then show ?thesis using 1(4) def Cons by (auto split: if_splits)
    next
      case plain
      then have "length out < cap" "string_body cap q (out @ [c]) uc uc2 = Some (s, r)"
        using 1(4) def Cons by (auto split: if_splits)
      then have "suffix r q" using 1(1) [OF Cons] plain by auto
      then show ?thesis using Cons by (simp add: suffix_ConsI)
    next
      case esc
      then obtain e q' where q: "q = e # q'" using 1(4) def Cons by (cases q) auto
      note def' = def [unfolded q list.case]
      show ?thesis
      proof (cases "e = CHR ''u''")
        case False
        then have "length out < cap" "string_body cap (tl q) (out @ [simple_escape e]) uc uc2 = Some (s, r)"
          using 1(4) def Cons esc q by (auto split: if_splits)
        then have "suffix r (tl q)" using 1(3) [OF Cons _ _ q False] esc by auto
        then show ?thesis using Cons q by (simp add: suffix_ConsI)
      next
        case True
        obtain b t u u2 where u: "unicode_escape q uc uc2 = Some (b, t, u, u2)"
          and b: "length out + length b \<le> cap \<and> length t < length p" "string_body cap (tl t) (out @ b) u u2 = Some (s, r)"
          using 1(4) def Cons esc q True by (auto split: if_splits option.splits)
        have "suffix r (tl t)" using 1(2) [OF Cons _ _ q True u refl refl refl b(1,2)] esc by auto
        moreover have "suffix (tl t) p" using suffix_tl_trans [OF suffix_ConsI [OF unicode_escape_suffix [OF u]]] Cons by simp
        ultimately show ?thesis by (rule suffix_order.trans)
      qed
    qed
  qed
qed
text \<open>A parser whose success consumes at least one character.\<close>

definition consuming :: "'d parser_fun \<Rightarrow> bool" where
  "consuming pv \<longleftrightarrow> (\<forall>item v x r. pv item v = Some (POk (x, r)) \<longrightarrow> strict_suffix r v)"

lemma consumingD: "consuming pv \<Longrightarrow> pv item v = Some (POk (x, r)) \<Longrightarrow> strict_suffix r v"
  by (simp add: consuming_def)

lemma parse_string_strict: "parse_string ok st item v = Some (POk (x, r)) \<Longrightarrow> strict_suffix r v"
proof -
  assume a: "parse_string ok st item v = Some (POk (x, r))"
  then obtain q n out p where v: "v = CHR 0x22 # q" and b: "string_body n q [] (fst st) (snd st) = Some (out, p)"
    and r: "r = (if peek p = Some (CHR 0x22) then tl p else p)"
    by (cases v) (auto simp: parse_string_def Let_def bind_eq_Some_conv split: if_splits)
  have "suffix r q" using r string_body_suffix [OF b] by (simp add: suffix_tl_trans)
  then show ?thesis unfolding v by (rule suffix_strict_Cons)
qed

lemma pskip_strict:
  assumes "\<And>x r. res = Some (POk (x, r)) \<Longrightarrow> strict_suffix r v" "pskip res = Some (POk (x, r))"
  shows "strict_suffix r v"
proof -
  obtain r' where "res = Some (POk (x, r'))" "skip r' = Some r"
    using assms(2) by (auto simp: pskip_def pthen_POk)
  then show ?thesis using assms(1) [of x r'] skip_suffix [of r' r] suffix_order.le_less_trans by blast
qed

lemma pskip_string_strict: "pskip (parse_string ok st item v) = Some (POk (x, r)) \<Longrightarrow> strict_suffix r v"
  by (rule pskip_strict) (rule parse_string_strict)

lemma parse_item_strict:
  assumes "consuming pv" "parse_item F ok pv v = Some (POk (x, r))"
  shows "strict_suffix r v"
proof -
  obtain node w where w: "skip v = Some w" "pskip (pv node w) = Some (POk (x, r))"
    using assms(2) by (auto simp: parse_item_def new_item_def split: option.splits)
  have "strict_suffix r w" using w(2) by (rule pskip_strict [rotated]) (rule consumingD [OF assms(1)])
  then show ?thesis using skip_suffix [OF w(1)] suffix_order.less_le_trans by blast
qed

lemma parse_member_consuming: "consuming pv \<Longrightarrow> consuming (parse_member ok st pv)"
  unfolding consuming_def
proof (intro allI impI)
  fix item v x r
  assume pv: "\<forall>item v x r. pv item v = Some (POk (x, r)) \<longrightarrow> strict_suffix r v"
    and a: "parse_member ok st pv item v = Some (POk (x, r))"
  obtain y p q w node where p: "pskip (parse_string ok st item v) = Some (POk (y, p))" and q: "p = CHR '':'' # q"
    and w: "skip q = Some w" and x: "pv node w = Some (POk (x, r))"
    using a by (auto simp: parse_member_def pthen_POk Let_def peek_Some split: if_splits option.splits)
  have "strict_suffix p v" by (rule pskip_string_strict [OF p])
  moreover have "strict_suffix r w" using pv x by blast
  moreover have "suffix w p" using skip_suffix [OF w] q by (simp add: suffix_ConsI)
  ultimately show "strict_suffix r v" by (meson suffix_order.less_le_trans suffix_order.less_trans)
qed

lemma parse_rest_suffix:
  "consuming pv \<Longrightarrow> parse_rest F ok pv close n item cs v = Some (POk (x, r)) \<Longrightarrow> suffix r v"
proof (induction n arbitrary: cs v)
  case (Suc n)
  consider (more) q where "v = CHR '','' # q" | (stop) "v = close # r"
    using Suc.prems(2) by (auto simp: peek_Some split: if_splits)
  then show ?case
  proof cases
    case more
    obtain node w where "parse_item F ok pv q = Some (POk (node, w))"
      "parse_rest F ok pv close n item (cs @ [node]) w = Some (POk (x, r))"
      using Suc.prems(2) more by (auto simp: pthen_POk)
    then have "suffix r w" "strict_suffix w q" using Suc.IH Suc.prems(1) parse_item_strict by blast+
    then show ?thesis using more by (meson suffix_ConsI suffix_order.less_imp_le suffix_order.trans)
  qed (simp add: suffix_ConsI)
qed simp

lemma parse_list_consuming: "consuming pv \<Longrightarrow> consuming (parse_list F ok pv ty open close n)"
  unfolding consuming_def [of "parse_list F ok pv ty open close n"]
proof (intro allI impI)
  fix item v x r
  assume pv: "consuming pv" and a: "parse_list F ok pv ty open close n item v = Some (POk (x, r))"
  obtain q w where v: "v = open # q" and w: "skip q = Some w"
    using a by (auto simp: parse_list_def Let_def peek_Some split: if_splits option.splits)
  have "suffix r w"
  proof (cases "peek w = Some close")
    case True
    then show ?thesis using a v w by (auto simp: parse_list_def)
  next
    case False
    obtain node u where u: "parse_item F ok pv w = Some (POk (node, u))"
      "parse_rest F ok pv close n (set_node_type ty item) [node] u = Some (POk (x, r))"
      using a v w False by (auto simp: parse_list_def pthen_POk)
    show ?thesis using parse_item_strict [OF pv u(1)] parse_rest_suffix [OF pv u(2)]
      by (meson suffix_order.less_imp_le suffix_order.trans)
  qed
  then show "strict_suffix r v" unfolding v using suffix_strict_Cons [OF suffix_order.trans [OF _ skip_suffix [OF w]]] by simp
qed

lemma parse_value_consuming: "consuming (parse_value F ok st n)"
proof (induction n)
  case (Suc n)
  have lit: "take k v = t \<Longrightarrow> t \<noteq> [] \<Longrightarrow> k > 0 \<Longrightarrow> strict_suffix (drop k v) v" for k :: nat and v t :: string
    by (cases v; cases k) (auto intro: suffix_strict_Cons simp: suffix_drop)
  show ?case
    unfolding consuming_def
  proof (intro allI impI)
    fix item v x r
    assume a: "parse_value F ok st (Suc n) item v = Some (POk (x, r))"
    show "strict_suffix r v"
    proof (cases "take 4 v = ''null'' \<or> take 5 v = ''false'' \<or> take 4 v = ''true''")
      case True
      then show ?thesis using a lit [of 4 v "''null''"] lit [of 5 v "''false''"] lit [of 4 v "''true''"]
        by (auto split: if_splits)
    next
      case False
      then obtain c q where v: "v = c # q" using a by (cases v) auto
      consider "parse_string ok st item v = Some (POk (x, r))"
        | "c = CHR ''-'' \<or> IS_NUM c" "parse_number F item v = Some (POk (x, r))"
        | "parse_array F ok (parse_value F ok st n) n item v = Some (POk (x, r))"
        | "parse_object F ok st (parse_value F ok st n) n item v = Some (POk (x, r))"
        using a False v by (auto split: if_splits)
      then show ?thesis
      proof cases
        case 2
        then show ?thesis using parse_number_strict v by blast
      qed (auto intro: parse_string_strict consumingD [OF parse_list_consuming [OF Suc.IH]]
          consumingD [OF parse_list_consuming [OF parse_member_consuming [OF Suc.IH]]] simp: parse_array_def parse_object_def)
    qed
  qed
qed (simp add: consuming_def)

subsection \<open>Enough fuel\<close>

definition agree :: "nat \<Rightarrow> 'd parser_fun \<Rightarrow> 'd parser_fun \<Rightarrow> bool" where
  "agree l pv pv' \<longleftrightarrow> (\<forall>item v. length v < l \<longrightarrow> pv item v = pv' item v)"

lemma agreeD: "agree l pv pv' \<Longrightarrow> length v < l \<Longrightarrow> pv item v = pv' item v"
  by (simp add: agree_def)

lemma skip_length: "skip v = Some w \<Longrightarrow> length w \<le> length v"
  using skip_suffix suffix_length_le by blast

lemma parse_item_agree: "agree l pv pv' \<Longrightarrow> length v < l \<Longrightarrow> parse_item F ok pv v = parse_item F ok pv' v"
  using skip_length [of v]
  by (auto simp: parse_item_def new_item_def agree_def split: option.splits intro!: arg_cong [where f = pskip])

lemma parse_rest_agree:
  "consuming pv \<Longrightarrow> agree l pv pv' \<Longrightarrow> length v < l \<Longrightarrow> length v < n \<Longrightarrow> length v < n' \<Longrightarrow>
     parse_rest F ok pv close n item cs v = parse_rest F ok pv' close n' item cs v"
proof (induction n arbitrary: n' cs v)
  case (Suc n)
  then obtain m where n': "n' = Suc m" by (cases n') auto
  show ?case
  proof (cases "peek v = Some (CHR '','')")
    case True
    then obtain q where v: "v = CHR '','' # q" by (auto simp: peek_Some)
    have "parse_item F ok pv q = parse_item F ok pv' q" using Suc.prems v by (intro parse_item_agree [OF Suc.prems(2)]) auto
    moreover have "parse_rest F ok pv close n item (cs @ [node]) w = parse_rest F ok pv' close m item (cs @ [node]) w"
      if "parse_item F ok pv q = Some (POk (node, w))" for node w
      using suffix_length_less [OF parse_item_strict [OF Suc.prems(1) that]] Suc.prems v n' by (intro Suc.IH) auto
    ultimately show ?thesis by (auto simp: v n' pthen_def split: option.splits pres.splits)
  qed (simp add: n')
qed simp

lemma parse_member_agree:
  fixes pv pv' :: "'d parser_fun"
  assumes a: "agree l pv pv'"
  shows "agree l (parse_member ok st pv) (parse_member ok st pv')"
  unfolding agree_def [of l "parse_member ok st pv"]
proof (intro allI impI)
  fix item :: "'d cJSON" and v :: string
  assume l: "length v < l"
  have "pv node w = pv' node w"
    if "pskip (parse_string ok st item v) = Some (POk (x, r))" "skip (tl r) = Some w" for x r node w
    using suffix_length_less [OF pskip_string_strict [OF that(1)]] skip_length [OF that(2)] l
    by (intro agreeD [OF a]) auto
  then show "parse_member ok st pv item v = parse_member ok st pv' item v"
    by (auto simp: parse_member_def pthen_def Let_def split: option.splits pres.splits)
qed

lemma parse_list_agree:
  assumes "consuming pv" "agree l pv pv'" "length v \<le> l" "length v \<le> n" "length v \<le> n'"
  shows "parse_list F ok pv ty open close n item v = parse_list F ok pv' ty open close n' item v"
proof (cases "peek v = Some open")
  case True
  then obtain q where v: "v = open # q" by (auto simp: peek_Some)
  show ?thesis
  proof (cases "skip q")
    case (Some w)
    have w: "length w < length v" using skip_length [OF Some] v by simp
    have "parse_item F ok pv w = parse_item F ok pv' w" using w assms by (intro parse_item_agree [OF assms(2)]) auto
    moreover have "parse_rest F ok pv close n item [node] u = parse_rest F ok pv' close n' item [node] u"
      if "parse_item F ok pv w = Some (POk (node, u))" for node u item
      using suffix_length_less [OF parse_item_strict [OF assms(1) that]] w assms
      by (intro parse_rest_agree [OF assms(1,2)]) auto
    ultimately show ?thesis using Some v by (auto simp: parse_list_def pthen_def Let_def split: option.splits pres.splits)
  qed (simp add: parse_list_def v)
qed (simp add: parse_list_def)

lemma parse_value_fuel:
  "length v < n \<Longrightarrow> length v < n' \<Longrightarrow> parse_value F ok st n item v = parse_value F ok st n' item v"
proof (induction n arbitrary: n' item v)
  case (Suc n)
  then obtain m where n': "n' = Suc m" by (cases n') auto
  have a: "agree (length v) (parse_value F ok st n) (parse_value F ok st m)"
    unfolding agree_def by (intro allI impI Suc.IH) (use Suc.prems n' in auto)
  show ?case
    using Suc.prems parse_list_agree [OF parse_value_consuming a]
      parse_list_agree [OF parse_member_consuming [OF parse_value_consuming] parse_member_agree [OF a]]
    by (simp add: n' parse_array_def parse_object_def split: option.splits)
qed simp

subsection \<open>Texts that are parsed within their bounds\<close>

definition terminated :: "string \<Rightarrow> bool" where
  "terminated v \<longleftrightarrow> v \<noteq> [] \<and> last v = NUL"

lemma terminated_cases: "terminated v \<Longrightarrow> (\<And>q. v = NUL # q \<Longrightarrow> P) \<Longrightarrow> (\<And>c q. v = c # q \<Longrightarrow> terminated q \<Longrightarrow> P) \<Longrightarrow> P"
  by (cases v; cases "tl v") (auto simp: terminated_def)

lemma terminated_tl: "terminated v \<Longrightarrow> peek v = Some c \<Longrightarrow> c \<noteq> NUL \<Longrightarrow> terminated (tl v)"
  by (erule terminated_cases) auto

lemma terminated_dropWhile: "terminated v \<Longrightarrow> \<not> P NUL \<Longrightarrow> terminated (dropWhile P v)"
proof (induction v)
  case (Cons c v)
  then show ?case by (cases "v = []") (auto simp: terminated_def)
qed (simp add: terminated_def)

text \<open>
  No escapes, and wherever a number is read in the text its exponent fits an \<open>int\<close> and its integral part a \<open>uint64\<close>.
\<close>

definition number_fits :: "'d fpu \<Rightarrow> string \<Rightarrow> bool" where
  "number_fits F num =
     (let (sg, p) = (if peek num = Some (CHR ''-'') then (-1, tl num) else (1, num)); (n, scale, p) = parse_mantissa p
      in case parse_exponent p of
           None \<Rightarrow> False
         | Some (e, _) \<Rightarrow> if scale = 0 \<and> e = 0 then n < 2 ^ 64 else u64_scaled F (sg * int n) (scale + e) \<noteq> None)"

definition plain_text :: "'d fpu \<Rightarrow> string \<Rightarrow> bool" where
  "plain_text F t \<longleftrightarrow> length t + 1 < 2 ^ 31 \<and> CHR 0x5C \<notin> set t
     \<and> (\<forall>p\<in>set (suffixes t). number_fits F (p @ [NUL]))"

definition inside :: "string \<Rightarrow> string \<Rightarrow> bool" where
  "inside t v \<longleftrightarrow> (\<exists>p. suffix p t \<and> v = p @ [NUL])"

lemma inside_iff: "inside t v \<longleftrightarrow> terminated v \<and> suffix v (t @ [NUL])"
proof
  assume "terminated v \<and> suffix v (t @ [NUL])"
  then show "inside t v" by (auto simp: terminated_def inside_def)
qed (auto simp: inside_def terminated_def)

lemma inside_dropWhile: "inside t v \<Longrightarrow> \<not> P NUL \<Longrightarrow> inside t (dropWhile P v)"
  unfolding inside_iff using terminated_dropWhile suffix_order.trans [OF suffix_dropWhile] by blast

lemma skip_inside: "inside t v \<Longrightarrow> \<exists>w. skip v = Some w \<and> inside t w"
  by (auto simp: skip_def inside_dropWhile) (auto simp: inside_def)

lemma inside_tl: "inside t v \<Longrightarrow> peek v = Some c \<Longrightarrow> c \<noteq> NUL \<Longrightarrow> inside t (tl v)"
  by (simp add: inside_iff terminated_tl suffix_tl_trans del: suffix_snoc)
lemma IS_NUM_NUL [simp]: "\<not> IS_NUM NUL"
  by (simp add: IS_NUM_def code_lits)

lemma span_inside: "inside t v \<Longrightarrow> inside t (snd (span_digits v))"
  by (simp add: span_digits_def inside_dropWhile)

lemma parse_exponent_inside:
  assumes e: "parse_exponent v = Some (e, r)" and v: "inside t v"
  shows "inside t r"
proof -
  have i: "inside t (tl v)" if "peek v = Some c" "c \<noteq> NUL" for c using inside_tl v that by blast
  then have "inside t (tl (tl v))" if "peek v = Some c" "c \<noteq> NUL" "peek (tl v) = Some d" "d \<noteq> NUL" for c d
    using inside_tl that by blast
  then show ?thesis using e i v
    by (auto simp: parse_exponent_def Let_def NUL_def intro!: span_inside split: if_splits)
qed

lemma parse_mantissa_inside:
  assumes "inside t v"
  shows "inside t (snd (snd (parse_mantissa v)))"
proof -
  let ?p = "if peek v = Some (CHR ''0'') then tl v else v"
  let ?q = "case peek ?p of Some c \<Rightarrow> if IS_NUM c \<and> c \<noteq> CHR ''0'' then snd (span_digits ?p) else ?p | None \<Rightarrow> ?p"
  have "inside t ?p" using assms inside_tl [of t v "CHR ''0''"] by (simp add: NUL_def)
  then have q: "inside t ?q" using span_inside by (auto split: option.splits)
  have "snd (snd (parse_mantissa v)) = (if peek ?q = Some (CHR ''.'') \<and> tl ?q \<noteq> [] \<and> IS_NUM (hd (tl ?q)) then snd (span_digits (tl ?q)) else ?q)"
    by (auto simp: parse_mantissa_def Let_def split: option.splits)
  then show ?thesis using q inside_tl [of t ?q "CHR ''.''"] by (simp add: span_inside NUL_def)
qed

text \<open>The result of a parser that stays inside the text.\<close>

definition fine :: "string \<Rightarrow> ('a \<times> string) pres option \<Rightarrow> bool" where
  "fine t res \<longleftrightarrow> (\<exists>ep. res = Some (PFail ep)) \<or> (\<exists>x r. res = Some (POk (x, r)) \<and> inside t r)"

lemma fineI: "fine t (Some (PFail ep))" "inside t r \<Longrightarrow> fine t (Some (POk (x, r)))"
  by (auto simp: fine_def)

lemma fine_pthen: "fine t res \<Longrightarrow> (\<And>x r. res = Some (POk (x, r)) \<Longrightarrow> inside t r \<Longrightarrow> fine t (k (x, r))) \<Longrightarrow> fine t (pthen res k)"
  by (auto simp: fine_def pthen_def)

lemma fine_pskip: "fine t res \<Longrightarrow> fine t (pskip res)"
  unfolding pskip_def by (rule fine_pthen) (use skip_inside in \<open>force simp: fine_def\<close>)+

lemma parse_number_fine:
  assumes "plain_text F t" "inside t v"
  shows "fine t (parse_number F item v)"
proof -
  let ?p = "if peek v = Some (CHR ''-'') then tl v else v"
  have "number_fits F v" using assms by (auto simp: plain_text_def inside_def)
  moreover have "inside t ?p" using assms(2) inside_tl [of t v "CHR ''-''"] by (simp add: NUL_def)
  then have "inside t (snd (snd (parse_mantissa ?p)))" by (rule parse_mantissa_inside)
  then have "parse_exponent (snd (snd (parse_mantissa ?p))) = Some (e, r) \<Longrightarrow> inside t r" for e r
    by (rule parse_exponent_inside [rotated])
  ultimately show ?thesis
    by (auto simp: number_fits_def parse_number_def Let_def fineI split: prod.splits if_splits option.splits)
qed

lemma string_length_inside:
  "terminated v \<Longrightarrow> CHR 0x5C \<notin> set v \<Longrightarrow> \<exists>n. string_length v l = Some n \<and> l \<le> n \<and> n < l + length v
     \<and> (\<forall>cap out uc uc2. length out + (n - l) < cap \<longrightarrow>
          (\<exists>s r. string_body cap v out uc uc2 = Some (s, r) \<and> terminated r))"
proof (induction v arbitrary: l)
  case (Cons c v)
  show ?case
  proof (cases "c = CHR 0x22 \<or> c = NUL")
    case True
    then show ?thesis using Cons.prems(1) by (auto simp: string_length.simps [of "c # v"] string_body.simps [of _ "c # v"])
  next
    case False
    then have "terminated v" using Cons.prems(1) by (auto elim: terminated_cases)
    then obtain n where n: "string_length v (l + 1) = Some n" "l + 1 \<le> n" "n < l + 1 + length v"
      and b: "\<And>cap out uc uc2. length out + (n - (l + 1)) < cap \<Longrightarrow>
          \<exists>s r. string_body cap v out uc uc2 = Some (s, r) \<and> terminated r"
      using Cons.IH [of "l + 1"] Cons.prems(2) by auto
    have "\<exists>s r. string_body cap (c # v) out uc uc2 = Some (s, r) \<and> terminated r" if "length out + (n - l) < cap" for cap out uc uc2
      using that b [of "out @ [c]" cap uc uc2] n(2) False Cons.prems(2) by (auto simp: string_body.simps [of _ "c # v"])
    then show ?thesis using n False Cons.prems(2) by (auto simp: string_length.simps [of "c # v"])
  qed
qed (simp add: terminated_def)

lemma parse_string_fine:
  assumes "plain_text F t" "inside t v"
  shows "fine t (parse_string ok st item v)"
proof (cases "peek v = Some (CHR 0x22)")
  case True
  have q: "inside t (tl v)" using inside_tl [OF assms(2) True] by (simp add: NUL_def)
  then obtain p where "suffix p t" "tl v = p @ [NUL]" by (auto simp: inside_def)
  then have "CHR 0x5C \<notin> set (tl v)" and l: "length (tl v) < 2 ^ 31"
    using assms(1) set_mono_suffix [of p t] suffix_length_le [of p t] by (auto simp: plain_text_def NUL_def)
  moreover have "terminated (tl v)" using q by (simp add: inside_iff)
  ultimately obtain n where n: "string_length (tl v) 0 = Some n" "n < length (tl v)"
    and "\<exists>s r. string_body (n + 1) (tl v) [] (fst st) (snd st) = Some (s, r) \<and> terminated r"
    using string_length_inside [of "tl v" 0] by auto
  then obtain s r where b: "string_body (n + 1) (tl v) [] (fst st) (snd st) = Some (s, r)" and r: "terminated r" by blast
  have "inside t r" using r string_body_suffix [OF b] q suffix_order.trans unfolding inside_iff by blast
  then have "inside t (if peek r = Some (CHR 0x22) then tl r else r)" using inside_tl [of t r "CHR 0x22"] by (simp add: NUL_def)
  then show ?thesis using True n b l by (auto simp: parse_string_def fineI Let_def)
next
  case False
  then show ?thesis using assms(2) by (cases v) (auto simp: parse_string_def fineI inside_def)
qed

definition safe_below :: "string \<Rightarrow> nat \<Rightarrow> 'd parser_fun \<Rightarrow> bool" where
  "safe_below t l pv \<longleftrightarrow> (\<forall>item v. inside t v \<longrightarrow> length v < l \<longrightarrow> fine t (pv item v))"

lemma safe_belowD: "safe_below t l pv \<Longrightarrow> inside t v \<Longrightarrow> length v < l \<Longrightarrow> fine t (pv item v)"
  by (simp add: safe_below_def)

lemma parse_item_fine:
  assumes "safe_below t l pv" "inside t v" "length v < l"
  shows "fine t (parse_item F ok pv v)"
proof -
  obtain w where w: "skip v = Some w" "inside t w" using skip_inside [OF assms(2)] by blast
  then have "fine t (pskip (pv node w))" for node
    using skip_length [OF w(1)] assms(3) by (intro fine_pskip safe_belowD [OF assms(1)]) auto
  then show ?thesis using w by (auto simp: parse_item_def new_item_def fineI split: option.splits)
qed

lemma parse_rest_fine:
  assumes pv: "consuming pv" "safe_below t l pv" and close: "close \<noteq> NUL"
  shows "inside t v \<Longrightarrow> length v < l \<Longrightarrow> length v < n \<Longrightarrow> fine t (parse_rest F ok pv close n item cs v)"
proof (induction n arbitrary: cs v)
  case (Suc n)
  show ?case
  proof (cases "peek v = Some (CHR '','')")
    case True
    have q: "inside t (tl v)" "length (tl v) < length v"
      using inside_tl [OF Suc.prems(1) True] True by (auto simp: NUL_def peek_Some)
    have "fine t (parse_item F ok pv (tl v))" using q Suc.prems by (intro parse_item_fine [OF pv(2)]) auto
    moreover have "fine t (parse_rest F ok pv close n item (cs @ [node]) w)"
      if "parse_item F ok pv (tl v) = Some (POk (node, w))" "inside t w" for node w
      using suffix_length_less [OF parse_item_strict [OF pv(1) that(1)]] that(2) q Suc.prems by (intro Suc.IH) auto
    ultimately show ?thesis using True by (auto intro!: fine_pthen)
  next
    case False
    then show ?thesis using inside_tl [OF Suc.prems(1) _ close] by (auto simp: fineI)
  qed
qed simp

lemma parse_member_safe:
  assumes t: "plain_text F t" and pv: "safe_below t l pv"
  shows "safe_below t l (parse_member ok st pv)"
  unfolding safe_below_def
proof (intro allI impI)
  fix item and v :: string
  assume v: "inside t v" "length v < l"
  show "fine t (parse_member ok st pv item v)"
    unfolding parse_member_def
  proof (rule fine_pthen)
    show "fine t (pskip (parse_string ok st item v))" by (rule fine_pskip [OF parse_string_fine [OF t v(1)]])
  next
    fix x r assume r: "pskip (parse_string ok st item v) = Some (POk (x, r))" "inside t r"
    show "fine t ((\<lambda>(node, value).
       let node = set_valuestring None (set_node_string (valuestring node) node) in
       if peek value \<noteq> Some (CHR '':'') then Some (PFail (Some value))
       else case skip (tl value) of None \<Rightarrow> None | Some value \<Rightarrow> pv node value) (x, r))"
    proof (cases "peek r = Some (CHR '':'')")
      case True
      obtain w where w: "skip (tl r) = Some w" "inside t w" using skip_inside inside_tl [OF r(2) True] by (auto simp: NUL_def)
      have "length w < l" using skip_length [OF w(1)] suffix_length_less [OF pskip_string_strict [OF r(1)]] v by simp
      then show ?thesis using True w safe_belowD [OF pv] by simp
    qed (simp add: fineI)
  qed
qed

lemma parse_list_fine:
  assumes pv: "consuming pv" "safe_below t l pv" and v: "inside t v" "length v \<le> l" "length v \<le> n"
    and "open \<noteq> NUL" "close \<noteq> NUL"
  shows "fine t (parse_list F ok pv ty open close n item v)"
proof (cases "peek v = Some open")
  case True
  obtain w where w: "skip (tl v) = Some w" "inside t w" using skip_inside inside_tl [OF v(1) True] assms(6) by blast
  have l: "length w < length v" using skip_length [OF w(1)] True by (auto simp: peek_Some)
  have "fine t (parse_item F ok pv w)" using w l v by (intro parse_item_fine [OF pv(2)]) auto
  moreover have "fine t (parse_rest F ok pv close n item [node] u)"
    if "parse_item F ok pv w = Some (POk (node, u))" "inside t u" for node u item
    using suffix_length_less [OF parse_item_strict [OF pv(1) that(1)]] that(2) l v
    by (intro parse_rest_fine [OF pv assms(7)]) auto
  ultimately have "fine t (pthen (parse_item F ok pv w) (\<lambda>(node, value). parse_rest F ok pv close n item [node] value))" for item
    by (auto intro!: fine_pthen)
  then show ?thesis using True w inside_tl [OF w(2) _ assms(7)] by (auto simp: parse_list_def fineI Let_def)
qed (simp add: parse_list_def fineI)

lemma inside_drop: "inside t v \<Longrightarrow> take k v = w \<Longrightarrow> NUL \<notin> set w \<Longrightarrow> length w = k \<Longrightarrow> inside t (drop k v)"
proof -
  assume a: "inside t v" "take k v = w" "NUL \<notin> set w" "length w = k"
  then have "drop k v \<noteq> []" by (metis append_take_drop_id append_Nil2 inside_iff last_in_set terminated_def)
  then show ?thesis using a(1) suffix_order.trans [OF suffix_drop] by (auto simp: inside_iff terminated_def simp del: suffix_snoc)
qed

lemma parse_value_fine:
  assumes t: "plain_text F t"
  shows "inside t v \<Longrightarrow> length v < n \<Longrightarrow> fine t (parse_value F ok st n item v)"
proof (induction n arbitrary: item v)
  case (Suc n)
  have pv: "safe_below t (length v) (parse_value F ok st n)" using Suc by (auto simp: safe_below_def)
  obtain c where c: "peek v = Some c" using Suc.prems(1) by (cases v) (auto simp: inside_def)
  have "fine t (parse_array F ok (parse_value F ok st n) n item v)"
    unfolding parse_array_def using Suc.prems
    by (intro parse_list_fine [OF parse_value_consuming pv]) (auto simp: NUL_def)
  moreover have "fine t (parse_object F ok st (parse_value F ok st n) n item v)"
    unfolding parse_object_def using Suc.prems
    by (intro parse_list_fine [OF parse_member_consuming [OF parse_value_consuming] parse_member_safe [OF t pv]]) (auto simp: NUL_def)
  moreover have "fine t (parse_string ok st item v)" "fine t (parse_number F item v)"
    using Suc.prems(1) by (rule parse_string_fine [OF t], rule parse_number_fine [OF t])
  moreover have "take 4 v = ''null'' \<Longrightarrow> inside t (drop 4 v)" "take 5 v = ''false'' \<Longrightarrow> inside t (drop 5 v)"
    "take 4 v = ''true'' \<Longrightarrow> inside t (drop 4 v)"
    by (rule inside_drop [OF Suc.prems(1)], assumption, simp_all add: NUL_def)+
  ultimately show ?case by (simp add: fineI c)
qed simp

text \<open>
  The parser returns: the bound on nesting depth and loop iterations with which \<open>cJSON_Parse\<close> starts,
  one more than the length of the text, is never reached, since any larger bound gives the same result, on
  every text and with every allocator.
\<close>

theorem parse_value_enough_fuel:
  assumes "parse_fuel value \<le> n"
  shows "parse_value F ok st n item value = parse_value F ok st (parse_fuel value) item value"
  using assms by (intro parse_value_fuel) (auto simp: parse_fuel_def)

theorem parse_value_enough_fuel_witness:
  "parse_value unit_fpu (\<lambda>_. True) (0, 0) 100 (cJSON_blank unit_fpu) (''[1]'' @ [NUL])
     = parse_value unit_fpu (\<lambda>_. True) (0, 0) 6 (cJSON_blank unit_fpu) (''[1]'' @ [NUL])"
  using parse_value_enough_fuel [of "''[1]'' @ [NUL]" 100 unit_fpu "\<lambda>_. True" "(0, 0)" "cJSON_blank unit_fpu"]
    parse_value_enough_fuel [of "''[1]'' @ [NUL]" 6 unit_fpu "\<lambda>_. True" "(0, 0)" "cJSON_blank unit_fpu"]
  by (simp add: parse_fuel_def)

text \<open>
  C28. On a text of less than 2 GB without a backslash, in which the exponents fit an \<open>int\<close> and the integral parts of the
  numbers a \<open>uint64\<close> (\<open>number_fits\<close>, at every position where a number could be read), \<open>cJSON_Parse\<close> ends and has no
  undefined behaviour: whatever the text is, well-formed or not, and with any choice of the sizes for which the allocator fails, every read is inside the string,
  every write inside its buffer, every conversion in range, and the result is a node or a failure.
\<close>

theorem cJSON_Parse_in_bounds:
  assumes "plain_text F text"
  shows "cJSON_Parse F ok st text \<noteq> None"
proof -
  have "inside text (text @ [NUL])" by (simp add: inside_def)
  then obtain w where w: "skip (text @ [NUL]) = Some w" "inside text w" using skip_inside by blast
  have "fine text (parse_value F ok st (parse_fuel w) c w)" for c
    using w(2) by (intro parse_value_fine [OF assms]) (auto simp: parse_fuel_def)
  then show ?thesis using w by (auto simp: cJSON_Parse_def new_item_def pthen_def fine_def split: option.splits pres.splits) (metis option.distinct(1) option.inject pres.distinct(1))
qed

theorem cJSON_Parse_in_bounds_witness:
  "plain_text unit_fpu ''[1.5]]'' \<and> cJSON_Parse unit_fpu (\<lambda>_. True) (0, 0) ''[1.5]]'' \<noteq> None"
proof -
  have "plain_text unit_fpu ''[1.5]]''"     by (simp add: plain_text_def number_fits_def parse_mantissa_def parse_exponent_def span_digits_def digits_value_def IS_NUM_def code_def NUL_def peek_def
        unit_fpu_def exact_u64_def)
  then show ?thesis using cJSON_Parse_in_bounds [of unit_fpu "''[1.5]]''" "\<lambda>_. True" "(0, 0)"] by simp
qed

text \<open>The conversion of a negative fraction to \<open>uint64\<close> is undefined.\<close>

theorem cJSON_Parse_negative_fraction: "cJSON_Parse unit_fpu (\<lambda>_. True) st ''-1.5'' = None"
proof -
  have "parse_number unit_fpu item (''-1.5'' @ [NUL]) = None" for item
    by (simp add: parse_number_def parse_mantissa_def parse_exponent_def span_digits_def digits_value_def IS_NUM_def code_def NUL_def unit_fpu_def exact_u64_def)
  then show ?thesis
    by (simp add: cJSON_Parse_def new_item_def cJSON_New_Item_def skip_cons code_lits parse_fuel_def pthen_def IS_NUM_def)
qed

lemma string_length_plain:
  "list_all plain_char s \<Longrightarrow> string_length (s @ r) l = string_length r (l + length s)"
proof (induction s arbitrary: l)
  case (Cons c s)
  then have "c \<noteq> NUL" by (auto simp: plain_char_def code_lits)
  then show ?case using Cons by (simp add: string_length.simps [of "c # _"] plain_char_def)
qed simp

text \<open>
  A text that ends in a backslash inside a string makes the parser read behind the terminating \<open>NUL\<close>:
  the scan for the closing quote steps over the character after every backslash without a test.  This is
  so for an opening quote, any run of ordinary characters and a backslash, with every allocator that
  provides the root node.
\<close>

theorem cJSON_Parse_backslash_end:
  assumes "list_all plain_char s" "ok 72"
  shows "cJSON_Parse F ok st (CHR 0x22 # s @ [CHR 0x5C]) = None"
proof -
  have "string_length (s @ [CHR 0x5C, NUL]) 0 = None"
    by (simp add: string_length_plain [OF assms(1)] string_length.simps [of "CHR 0x5C # _"] string_length.simps [of "[]"] NUL_def)
  then show ?thesis using assms(2)
    by (simp add: cJSON_Parse_def new_item_def cJSON_New_Item_def skip_cons code_lits parse_fuel_def parse_string_def pthen_def)
qed

theorem cJSON_Parse_backslash_end_witness:
  "cJSON_Parse unit_fpu (\<lambda>_. True) (0, 0) [CHR 0x22, CHR ''a'', CHR 0x5C] = None"
  using cJSON_Parse_backslash_end [of "''a''" "\<lambda>_. True" unit_fpu "(0, 0)"] by (simp add: plain_char_def code_def)

end
