(* ===== verification/CJsonTyped.thy ===== *)
theory CJsonTyped
  imports CJsonObject CJsonSafety
begin

text \<open>
  A typing of JSON trees: only arrays and objects have children, members have names, and strings have their text.  The parser builds
  well-typed trees only, adding values keeps them so, and the readers of \<open>CJsonObject\<close> never meet a null string in a well-typed object.
\<close>

subsection \<open>Well-typed trees\<close>

fun well_typed :: "'d cJSON \<Rightarrow> bool" where
  "well_typed (CJSON ty r cs s i d sg nm) \<longleftrightarrow> \<not> r \<and> (cs \<noteq> [] \<longrightarrow> ty = cJSON_Array \<or> ty = cJSON_Object) \<and> (ty = cJSON_String \<longrightarrow> s \<noteq> None)
     \<and> (ty = cJSON_Object \<longrightarrow> (\<forall>c \<in> set cs. node_string c \<noteq> None)) \<and> (\<forall>c \<in> set cs. well_typed c)"

lemma well_typed_node:
  "well_typed t \<longleftrightarrow> \<not> is_reference t \<and> (child t \<noteq> [] \<longrightarrow> node_type t = cJSON_Array \<or> node_type t = cJSON_Object)
     \<and> (node_type t = cJSON_String \<longrightarrow> valuestring t \<noteq> None) \<and> (node_type t = cJSON_Object \<longrightarrow> (\<forall>c \<in> set (child t). node_string c \<noteq> None))
     \<and> (\<forall>c \<in> set (child t). well_typed c)"
  by (cases t) simp

lemma well_typed_owned: "well_typed t \<Longrightarrow> owned t"
proof -
  have "(\<forall>t \<in> set ts. well_typed t) \<Longrightarrow> (\<forall>t \<in> set ts. owned t)" for ts :: "'a cJSON list"
  proof (induction ts rule: forest_induct)
    case (Cons t ts)
    then show ?case using well_typed_node [of t] owned_simps [of t] by auto
  qed simp
  from this [of "[t]"] show "well_typed t \<Longrightarrow> owned t" by simp
qed

subsection \<open>The parser\<close>

text \<open>A node that the parser has just allocated, and what a parse function makes of it.\<close>

definition plain :: "'d cJSON \<Rightarrow> bool" where
  "plain t \<longleftrightarrow> \<not> is_reference t \<and> child t = []"

definition makes :: "('d cJSON \<Rightarrow> 'd cJSON \<Rightarrow> bool) \<Rightarrow> 'd parser_fun \<Rightarrow> bool" where
  "makes P pv \<longleftrightarrow> (\<forall>item inp t r. plain item \<longrightarrow> pv item inp = Some (POk (t, r)) \<longrightarrow> P item t)"

abbreviation value_result :: "'d cJSON \<Rightarrow> 'd cJSON \<Rightarrow> bool" where
  "value_result item t \<equiv> well_typed t \<and> node_string t = node_string item"

abbreviation member_result :: "'d cJSON \<Rightarrow> 'd cJSON \<Rightarrow> bool" where
  "member_result item t \<equiv> well_typed t \<and> node_string t \<noteq> None"

lemma parse_string_makes: "parse_string ok st item inp = Some (POk (t, r)) \<Longrightarrow> \<exists>s. t = set_node_type cJSON_String (set_valuestring (Some s) item)"
  by (auto simp: parse_string_def Let_def split: option.splits if_splits bind_splits)

lemma parse_number_makes:
  "parse_number F item inp = Some (POk (t, r)) \<Longrightarrow> \<exists>ty i d sg. t = set_node_type ty (set_number i d sg item) \<and> (ty = cJSON_Int \<or> ty = cJSON_Double)"
  by (auto simp: parse_number_def Let_def bind_eq_Some_conv split: prod.splits if_splits)

lemma parse_item_makes:
  assumes "makes P pv" "\<And>item t. P item t \<Longrightarrow> Q t" "parse_item F ok pv inp = Some (POk (t, r))"
  shows "Q t"
proof -
  have "plain (cJSON_blank F)" by (simp add: plain_def cJSON_blank_def)
  then show ?thesis using assms unfolding makes_def
    by (auto simp: parse_item_def new_item_def cJSON_New_Item_def pskip_def pthen_POk split: option.splits if_splits) blast
qed

lemma parse_rest_makes:
  assumes "makes P pv" "\<And>item t. P item t \<Longrightarrow> Q t" "\<forall>c \<in> set cs. Q c" "parse_rest F ok pv close n item cs inp = Some (POk (t, r))"
  shows "\<exists>ds. t = set_child ds item \<and> (\<forall>c \<in> set ds. Q c)"
  using assms(3,4)
proof (induction n arbitrary: cs inp)
  case (Suc n)
  show ?case
  proof (cases "peek inp = Some (CHR '','')")
    case True
    then obtain node inp2 where p: "parse_item F ok pv (tl inp) = Some (POk (node, inp2))" "parse_rest F ok pv close n item (cs @ [node]) inp2 = Some (POk (t, r))"
      using Suc.prems(2) by (auto simp: pthen_POk)
    then show ?thesis using Suc.IH [of "cs @ [node]" inp2] Suc.prems(1) parse_item_makes [OF assms(1), of Q, OF _ p(1)] assms(2) by auto
  next
    case False
    then show ?thesis using Suc.prems by (auto split: if_splits)
  qed
qed simp

lemma parse_list_makes:
  assumes "makes P pv" "\<And>item t. P item t \<Longrightarrow> Q t" "plain item" "parse_list F ok pv ty open close n item inp = Some (POk (t, r))"
  shows "\<exists>ds. t = set_child ds (set_node_type ty item) \<and> (\<forall>c \<in> set ds. Q c)"
proof -
  have self: "set_child [] (set_node_type ty item) = set_node_type ty item" using assms(3) by (cases item) (simp add: plain_def)
  show ?thesis
  proof (cases "\<exists>v1 a b. parse_item F ok pv v1 = Some (POk (a, b)) \<and> parse_rest F ok pv close n (set_node_type ty item) [a] b = Some (POk (t, r))")
    case True
    then obtain v1 a b where p: "parse_item F ok pv v1 = Some (POk (a, b))" "parse_rest F ok pv close n (set_node_type ty item) [a] b = Some (POk (t, r))" by blast
    show ?thesis using parse_rest_makes [OF assms(1), of Q, OF _ _ p(2)] parse_item_makes [OF assms(1), of Q, OF _ p(1)] assms(2) by simp
  next
    case False
    then have "t = set_child [] (set_node_type ty item)" using assms(4) self by (auto simp: parse_list_def Let_def pthen_POk split: if_splits option.splits)
    then show ?thesis by (intro exI [of _ "[]"]) simp
  qed
qed

lemma plain_set [simp]: "plain (set_node_type ty t) = plain t" "plain (set_valuestring s t) = plain t" "plain (set_node_string n t) = plain t"
  by (cases t; simp add: plain_def)+

lemma parse_member_makes:
  assumes "makes value_result pv"
  shows "makes member_result (parse_member ok st pv)"
  unfolding makes_def
proof (intro allI impI)
  fix item inp t r assume a: "plain item" "parse_member ok st pv item inp = Some (POk (t, r))"
  then obtain node v1 v2 where p: "parse_string ok st item inp = Some (POk (node, v1))"
    "pv (set_valuestring None (set_node_string (valuestring node) node)) v2 = Some (POk (t, r))"
    by (auto simp: parse_member_def pskip_def pthen_POk Let_def split: if_splits option.splits)
  from parse_string_makes [OF p(1)] obtain s where s: "node = set_node_type cJSON_String (set_valuestring (Some s) item)" by blast
  have "plain (set_valuestring None (set_node_string (valuestring node) node))" "node_string (set_valuestring None (set_node_string (valuestring node) node)) = Some s"
    using s a(1) by (simp, cases item, simp)
  moreover have "plain node" using s a(1) by simp
  ultimately show "member_result item t" using assms [unfolded makes_def, rule_format, OF _ p(2)] by simp
qed

lemma well_typed_list:
  assumes "plain item" "\<forall>c \<in> set ds. well_typed c" "ty = cJSON_Array \<or> ty = cJSON_Object \<and> (\<forall>c \<in> set ds. node_string c \<noteq> None)"
  shows "value_result item (set_child ds (set_node_type ty item))"
  using assms by (cases item) (auto simp: plain_def)

lemma parse_value_makes: "makes value_result (parse_value F ok st n)"
proof (induction n)
  case 0
  then show ?case by (simp add: makes_def)
next
  case (Suc n)
  show ?case unfolding makes_def
  proof (intro allI impI)
    fix item inp t r assume a: "plain item" "parse_value F ok st (Suc n) item inp = Some (POk (t, r))"
    have leaf: "ty \<notin> {cJSON_String, cJSON_Object} \<Longrightarrow> value_result item (set_node_type ty item)" "value_result item (set_valueint 1 (set_node_type cJSON_True item))"
      "ty = cJSON_Int \<or> ty = cJSON_Double \<Longrightarrow> value_result item (set_node_type ty (set_number i d sg item))"
      "value_result item (set_node_type cJSON_String (set_valuestring (Some s) item))" for ty s i d sg
      using a(1) by (cases item; auto simp: plain_def)+
    consider (word) "\<exists>ty. ty \<notin> {cJSON_String, cJSON_Object} \<and> t = set_node_type ty item" | (true) "t = set_valueint 1 (set_node_type cJSON_True item)"
      | (str) "parse_string ok st item inp = Some (POk (t, r))" | (num) "parse_number F item inp = Some (POk (t, r))"
      | (arr) "parse_array F ok (parse_value F ok st n) n item inp = Some (POk (t, r))" | (obj) "parse_object F ok st (parse_value F ok st n) n item inp = Some (POk (t, r))"
      using a(2) by (fastforce split: if_splits option.splits)
    then show "value_result item t"
    proof cases
      case word
      then show ?thesis using leaf(1) by blast
    next
      case true
      then show ?thesis using leaf(2) by simp
    next
      case str
      then show ?thesis using parse_string_makes [OF str] leaf(4) by auto
    next
      case num
      then show ?thesis using parse_number_makes [OF num] leaf(3) by auto
    next
      case arr
      from parse_list_makes [OF Suc.IH, of well_typed, OF _ a(1) arr [unfolded parse_array_def]] obtain ds
        where "t = set_child ds (set_node_type cJSON_Array item)" "\<forall>c \<in> set ds. well_typed c" by auto
      then show ?thesis using well_typed_list [OF a(1), of ds cJSON_Array] by simp
    next
      case obj
      from parse_list_makes [OF parse_member_makes [OF Suc.IH], of "\<lambda>t. well_typed t \<and> node_string t \<noteq> None", OF _ a(1) obj [unfolded parse_object_def]] obtain ds
        where "t = set_child ds (set_node_type cJSON_Object item)" "\<forall>c \<in> set ds. well_typed c \<and> node_string c \<noteq> None" by auto
      then show ?thesis using well_typed_list [OF a(1), of ds cJSON_Object] by simp
    qed
  qed
qed

lemma cJSON_Parse_typed:
  assumes "cJSON_Parse F ok st s = Some (POk t)"
  shows "well_typed t"
proof -
  obtain inp r where "parse_value F ok st (parse_fuel inp) (cJSON_blank F) inp = Some (POk (t, r))"
    using assms by (auto simp: cJSON_Parse_def new_item_def cJSON_New_Item_def pthen_POk split: option.splits if_splits)
  moreover have "plain (cJSON_blank F)" by (simp add: plain_def cJSON_blank_def)
  ultimately show ?thesis using parse_value_makes [of F ok st "parse_fuel inp"] unfolding makes_def by blast
qed

subsection \<open>Objects\<close>

definition json_typed :: "jobject \<Rightarrow> 'd jheap \<Rightarrow> bool" where
  "json_typed j H \<longleftrightarrow> m_mapJsonObjectRef j = [] \<and> (\<exists>t. json_holds j t H \<and> well_typed t)"

lemma free_heap_ok: "hfree p H = Some H' \<Longrightarrow> heap_ok H \<Longrightarrow> heap_ok H'"
  by (auto simp: hfree_def heap_ok_def split: option.splits)

lemma Delete_heap_ok: "cJSON_Delete c H = Some H' \<Longrightarrow> heap_ok H \<longrightarrow> heap_ok H'"
proof (erule cJSON_Delete.raw_induct [rotated])
  fix del :: "addr \<Rightarrow> 'a jheap \<Rightarrow> 'a jheap option" and c H H'
  assume ih: "\<And>c H H'. del c H = Some H' \<Longrightarrow> heap_ok H \<longrightarrow> heap_ok H'"
    and e: "(if c = 0 then Some H else do { n \<leftarrow> cells H c; H \<leftarrow> (if \<not> n_reference n \<and> n_child n \<noteq> 0 then del (n_child n) H else Some H);
        H \<leftarrow> hfree c H; del (n_next n) H }) = Some H'"
  show "heap_ok H \<longrightarrow> heap_ok H'"
    using e ih free_heap_ok by (auto split: if_splits bind_splits) blast+
qed

lemma delete_objects_heap_ok: "delete_objects os H = Some H' \<Longrightarrow> heap_ok H \<Longrightarrow> heap_ok H'"
proof (induction os H arbitrary: H' rule: delete_objects.induct)
  case (2 d x e as os rest H)
  then obtain H1 H2 H3 where d: "cJSON_Delete d H = Some H1" "delete_objects (map snd as) H1 = Some H2" "delete_objects (map snd os) H2 = Some H3"
    "delete_objects rest H3 = Some H'" by (simp only: delete_objects.simps bind_eq_Some_conv) blast
  then show ?case using "2.IH" Delete_heap_ok [OF d(1)] "2.prems"(2) by metis
qed simp

lemma keys_loop_seg:
  "seg H c pv ts 0 l A \<Longrightarrow> \<forall>t \<in> set ts. node_string t \<noteq> None \<Longrightarrow> keys_loop H c ks = Some (ks @ map (\<lambda>t. the (node_string t)) ts)"
proof (induction ts arbitrary: c pv ks A)
  case Nil
  then show ?case by (subst keys_loop.simps) simp
next
  case (Cons t ts)
  then obtain nx ch A' where n: "c \<noteq> 0" "cells H c = Some (mk_node t nx pv ch)" "seg H nx c ts 0 l A'" unfolding seg_Cons by blast
  from Cons.IH [OF n(3)] Cons.prems(2) n(1,2) show ?case by (subst keys_loop.simps) auto
qed

text \<open>The readers never meet a null string.\<close>

lemma typed_readers:
  assumes "json_typed j H"
  shows "Get_string k j H \<noteq> None" "call_key_const k j H \<noteq> None" "GetKeys j ks H \<noteq> None"
proof -
  from assms obtain t where t: "json_holds j t H" "well_typed t" "m_mapJsonObjectRef j = []" unfolding json_typed_def by blast
  have y: "y \<in> set (child t) \<Longrightarrow> read_string (mk_node y nx pv ch) \<noteq> None" for y nx pv ch
    using t(2) well_typed_node [of t] well_typed_node [of y] by (auto simp: read_string_def is_type_def)
  then show g: "Get_string k j H \<noteq> None" unfolding Get_string_def
    using get_member [OF t(1), of k read_string] member_split [of "c_str k" t] by fastforce
  then show "call_key_const k j H \<noteq> None"
    using t(3) by (auto simp: Get_string_def get_at_def read_string_def call_key_const_def JsonStruct2Str_def split: if_splits bind_splits)
  from t(1) obtain nx pv ch l A where n: "cells H (GetJsonData j) = Some (mk_node t nx pv ch)" "seg H ch 0 (child t) 0 l A" "node_type t = cJSON_Object"
    unfolding json_holds_def holds_def by blast
  then show "GetKeys j ks H \<noteq> None" using keys_loop_seg [OF n(2), of ks] t(2) well_typed_node [of t] by (auto simp: GetKeys_def)
qed

lemma typed_add:
  assumes "json_holds j t H" "well_typed t" "json_holds j (set_child (child t @ [set_node_string (Some k) x]) t) H'" "well_typed x" "m_mapJsonObjectRef j = []"
  shows "json_typed j H'"
proof -
  have "node_type t = cJSON_Object" using assms(1) unfolding json_holds_def by blast
  moreover have "well_typed (set_node_string (Some k) x)" using assms(4) by (cases x) simp
  ultimately have "well_typed (set_child (child t @ [set_node_string (Some k) x]) t)" using assms(2) by (cases t, cases x) auto
  then show ?thesis using assms(3,5) unfolding json_typed_def by blast
qed

lemma add_typed:
  assumes "json_value E mk x rd v" "\<forall>n. j_alloc E n" "json_typed j H" "well_typed x"
  shows "\<exists>H'. add_member E mk no_drop k j H = Some (True, j, H') \<and> json_typed j H'"
proof -
  from assms(3) obtain t where t: "json_holds j t H" "well_typed t" "m_mapJsonObjectRef j = []" unfolding json_typed_def by blast
  from json_value.add_ok [OF assms(1,2) t(1), of k] obtain H' where a: "add_member E mk no_drop k j H = Some (True, j, H')"
    "json_holds j (set_child (child t @ [set_node_string (Some (c_str k)) x]) t) H'" by blast
  from typed_add [OF t(1,2) a(2) assms(4) t(3)] a(1) show ?thesis by blast
qed

text \<open>
  C18.  The parser builds well-typed trees only: if \<open>Parse\<close> returns true, the object has a tree in which only arrays and objects have
  children, every string has its text and every member of an object has its name.
\<close>

theorem json_parse_typed:
  assumes "heap_ok H" "Parse E s j H = Some (True, j', H')"
  shows "\<exists>t. read_tree H' (GetJsonData j') = Some t \<and> well_typed t \<and> (node_type t = cJSON_Object \<longrightarrow> json_typed j' H')"
proof -
  from assms(2) obtain H1 t where p: "delete_objects [j] H = Some H1" "cJSON_Parse (j_fpu E) (j_alloc E) (j_uc E) (c_str s) = Some (POk t)"
    "build [t] 0 H1 = (GetJsonData j', H')" "m_mapJsonObjectRef j' = []"
    by (auto simp: Parse_def CJsonObject_Clear_def parse_new_def GetJsonData_def split: bind_splits option.splits pres.splits sum.splits prod.splits)
  have "heap_ok H1" by (rule delete_objects_heap_ok [OF p(1) assms(1)])
  from build_loose [OF this, of t] p(3) obtain B where b: "loose H' (GetJsonData j') t B" "heap_ok H'" by (metis Pair_inject)
  note h = loose_holds [OF b(1)] and wt = cJSON_Parse_typed [OF p(2)]
  have "json_typed j' H'" if "node_type t = cJSON_Object"
    using that p(4) b h wt well_typed_node [of t] well_typed_owned unfolding json_typed_def json_holds_def holds_def by blast
  then show ?thesis using holds_read [OF h] wt by blast
qed

text \<open>
  C17.  On a well-typed object the readers never meet a null string, so that they always return, and adding a value of any type succeeds and gives a
  well-typed object again.
\<close>

theorem json_typed_methods:
  fixes E :: "'d jenv" and H :: "'d jheap"
  assumes "\<forall>n. j_alloc E n" "json_typed j H"
    "add \<in> {Add_string E k s, Add_int32 E k i, Add_uint32 E k u, Add_int64 E k i, Add_uint64 E k l, Add_bool E k b, Add_float E k d, Add_double E k d}"
  shows "Get_string k' j H \<noteq> None \<and> call_key_const k' j H \<noteq> None \<and> GetKeys j ks H \<noteq> None
    \<and> (\<exists>H'. add j H = Some (True, j, H') \<and> json_typed j H')"
proof -
  note add = add_typed [OF _ assms(1,2)]
  have "\<exists>H'. add j H = Some (True, j, H') \<and> json_typed j H'"
    using assms(3) unfolding add_defs insert_iff empty_iff
    using add [OF string_value.json_value_axioms] add [OF int_value.json_value_axioms] add [OF bool_value.json_value_axioms] add [OF double_value.json_value_axioms]
    by (elim disjE; simp)
  then show ?thesis using typed_readers [OF assms(2)] by blast
qed

lemma sample_parse: "cJSON_Parse (j_fpu sample_jenv) (j_alloc sample_jenv) (j_uc sample_jenv) (c_str ''{}'') = Some (POk (CJSON cJSON_Object False [] None 0 () 0 None))"
  by (simp add: cJSON_Parse_def sample_jenv_def c_str_def new_item_def cJSON_New_Item_def cJSON_blank_def parse_fuel_def skip_def code_def NUL_def peek_def
      parse_object_def parse_list_def pthen_def IS_NUM_def)

theorem json_parse_typed_witness:
  "\<exists>j H t. Parse sample_jenv ''{}'' CJsonObject_new empty_heap = Some (True, j, H) \<and> read_tree H (GetJsonData j) = Some t \<and> well_typed t"
proof -
  obtain t where t: "cJSON_Parse (j_fpu sample_jenv) (j_alloc sample_jenv) (j_uc sample_jenv) (c_str ''{}'') = Some (POk t)" using sample_parse by blast
  have "cJSON_Delete 0 H = Some H" for H :: "unit jheap" by (subst cJSON_Delete.simps) simp
  then obtain j H where p: "Parse sample_jenv ''{}'' CJsonObject_new empty_heap = Some (True, j, H)"
    using t by (cases "build [t] 0 empty_heap") (simp add: Parse_def CJsonObject_Clear_def parse_new_def CJsonObject_new_def)
  have "heap_ok (empty_heap :: unit jheap)" by (simp add: heap_ok_def empty_heap_def)
  from json_parse_typed [OF this p] p show ?thesis by blast
qed

theorem json_typed_methods_witness:
  "Get_string ''KEY'' (JObject 1 0 '''' [] []) sample_heap \<noteq> None
    \<and> (\<exists>H'. Add_bool sample_jenv ''k'' True (JObject 1 0 '''' [] []) sample_heap = Some (True, JObject 1 0 '''' [] [], H') \<and> json_typed (JObject 1 0 '''' [] []) H')"
proof -
  have "json_typed (JObject 1 0 '''' [] []) sample_heap" using sample_holds by (auto simp: json_typed_def sample_tree_def intro!: exI [of _ sample_tree])
  moreover have "Add_bool sample_jenv ''k'' True \<in> {Add_string sample_jenv ''k'' [], Add_int32 sample_jenv ''k'' 0, Add_uint32 sample_jenv ''k'' 0, Add_int64 sample_jenv ''k'' 0,
      Add_uint64 sample_jenv ''k'' 0, Add_bool sample_jenv ''k'' True, Add_float sample_jenv ''k'' (), Add_double sample_jenv ''k'' ()}" by simp
  ultimately show ?thesis using json_typed_methods [OF sample_alloc] by blast
qed

end
