(* ===== verification/Codec.thy ===== *)
theory Codec
  imports CBuffer Rc5
begin

text \<open>
  The message codecs of \<open>Net/src/codec\<close>: \<open>ProtoCodec\<close> (between nodes), \<open>ClientMsgCodec\<close> (clients)
  and \<open>CodecCustom\<close> (tests), each a pair of \<open>Encode\<close> and \<open>Decode\<close> on a \<open>CBuffer\<close>.

  \<open>MsgHead\<close> and \<open>MsgBody\<close> are classes that the Protocol Buffers compiler generates from \<open>msg.proto\<close>;
  the compression functions belong to zlib and Crypto++.  Both are arguments of the model: the record
  \<open>pb\<close> holds the serialisers and parsers and \<open>pb_ok\<close> states the documented behaviour the proofs use,
  the record \<open>zlib\<close> holds the compressors.  \<open>ByteSize()\<close> is the length of the serialisation.

  The out parameters of \<open>Decode\<close> are read by its callers only when it returns \<open>CODEC_STATUS_OK\<close>, so a
  result of the model carries the message only then.
\<close>

subsection \<open>Messages\<close>

record msg_head =
  h_cmd :: "u32 option"
  h_msgbody_len :: "u32 option"
  h_seq :: "u32 option"
  h_checksum :: "u32 option"

definition field :: "u32 option \<Rightarrow> u32" where
  "field f = (case f of None \<Rightarrow> 0 | Some x \<Rightarrow> x)"

record 'b pb =
  head_ser :: "msg_head \<Rightarrow> byte list"
  head_parse :: "byte list \<Rightarrow> msg_head option"
  body_ser :: "'b \<Rightarrow> byte list"
  body_parse :: "byte list \<Rightarrow> 'b option"
  body_clear :: 'b
  body_set :: "byte list \<Rightarrow> 'b \<Rightarrow> 'b"

definition required_set :: "msg_head \<Rightarrow> bool" where
  "required_set h \<longleftrightarrow> h_cmd h \<noteq> None \<and> h_msgbody_len h \<noteq> None \<and> h_seq h \<noteq> None"

text \<open>
  Protocol Buffers: parsing inverts serialising for a message whose required fields are set; a
  \<open>fixed32\<close> field with a number below 16 takes a tag byte and four bytes.
\<close>

definition pb_ok :: "'b pb \<Rightarrow> bool" where
  "pb_ok P \<longleftrightarrow>
     (\<forall>b. body_parse P (body_ser P b) = Some b)
     \<and> (\<forall>h. required_set h \<longrightarrow> head_parse P (head_ser P h) = Some h
          \<and> length (head_ser P h) = (if h_checksum h = None then 15 else 20))"

record zlib =
  z_zip :: "byte list \<Rightarrow> byte list option"
  z_unzip :: "byte list \<Rightarrow> byte list option"
  z_gzip :: "byte list \<Rightarrow> byte list option"
  z_gunzip :: "byte list \<Rightarrow> byte list option"

datatype codec_status = CODEC_STATUS_OK | CODEC_STATUS_ERR | CODEC_STATUS_PAUSE

datatype 'b decoded = DOK msg_head 'b cbuffer | DERR cbuffer | DPAUSE cbuffer

definition gc_uiMsgHeadSize :: u32 where "gc_uiMsgHeadSize = 15"
definition gc_uiCmdBit :: u32 where "gc_uiCmdBit = 0xFFFF"
definition gc_uiGzipBit :: u32 where "gc_uiGzipBit = 0x10000000"
definition gc_uiZipBit :: u32 where "gc_uiZipBit = 0x20000000"
definition gc_uiRc5Bit :: u32 where "gc_uiRc5Bit = 0x01000000"
definition CMD_RSP_TELL_WORKER :: u32 where "CMD_RSP_TELL_WORKER = 10"

subsection \<open>Writing and parsing in a buffer\<close>

text \<open>\<open>pBuff->SetWriteIndex(pBuff->GetWriteIndex() - iHadWriteLen)\<close>.\<close>

definition take_back :: "cbuffer \<Rightarrow> int \<Rightarrow> cbuffer" where
  "take_back b had = SetWriteIndex b (size_add_int (m_write_idx b) (- had))"

text \<open>
  A head and then a body; \<open>counted\<close> says whether the length of the head has been added to
  \<open>iHadWriteLen\<close> when the body is written.
\<close>

definition write_parts :: "heap \<Rightarrow> cbuffer \<Rightarrow> byte list \<Rightarrow> byte list \<Rightarrow> bool \<Rightarrow> (codec_status \<times> cbuffer) option" where
  "write_parts hp b head body counted = do {
     (w, b) \<leftarrow> Write hp b head;
     if w \<noteq> to_int32 (length head) then Some (CODEC_STATUS_ERR, take_back b 0)
     else do {
       (w', b) \<leftarrow> Write hp b body;
       if w' \<noteq> to_int32 (length body) then Some (CODEC_STATUS_ERR, take_back b (if counted then w else 0))
       else Some (CODEC_STATUS_OK, b)
     }
   }"

text \<open>
  \<open>ParseFromArray(pBuff->GetRawReadBuffer() + off, len)\<close>: the length is converted to \<open>int\<close>; a negative one
  is outside the contract of the library.
\<close>

definition ParseFromArray :: "(byte list \<Rightarrow> 'a option) \<Rightarrow> cbuffer \<Rightarrow> nat \<Rightarrow> u32 \<Rightarrow> 'a option option" where
  "ParseFromArray parse b off len =
     (if unat len \<ge> 2 ^ 31 then None
      else map_option parse (mem_read (m_buffer b) (m_read_idx b + off) (unat len)))"

subsection \<open>ProtoCodec\<close>

definition ProtoCodec_Encode :: "'b pb \<Rightarrow> heap \<Rightarrow> msg_head \<Rightarrow> 'b \<Rightarrow> cbuffer \<Rightarrow> (codec_status \<times> cbuffer) option" where
  "ProtoCodec_Encode P hp oMsgHead oMsgBody pBuff =
     (if length (body_ser P oMsgBody) > 64000000 then Some (CODEC_STATUS_ERR, pBuff)
      else if field (h_msgbody_len oMsgHead) = 0 then do {
        (w, b) \<leftarrow> Write hp pBuff (head_ser P oMsgHead);
        if w \<noteq> to_int32 (length (head_ser P oMsgHead)) then Some (CODEC_STATUS_ERR, take_back b 0)
        else Some (CODEC_STATUS_OK, b)
      }
      else write_parts hp pBuff (head_ser P oMsgHead) (body_ser P oMsgBody) True)"

definition ProtoCodec_Decode :: "'b pb \<Rightarrow> 'b \<Rightarrow> cbuffer \<Rightarrow> 'b decoded option" where
  "ProtoCodec_Decode P oMsgBody pBuff =
     (if word_of_nat (ReadableBytes pBuff) \<ge> gc_uiMsgHeadSize then do {
        r \<leftarrow> ParseFromArray (head_parse P) pBuff 0 gc_uiMsgHeadSize;
        (case r of
           None \<Rightarrow> Some (DERR pBuff)
         | Some oMsgHead \<Rightarrow>
             if field (h_msgbody_len oMsgHead) = 0
             then Some (DOK oMsgHead oMsgBody (SkipBytes pBuff (length (head_ser P oMsgHead))))
             else if ReadableBytes pBuff \<ge> unat (gc_uiMsgHeadSize + field (h_msgbody_len oMsgHead)) then do {
               r \<leftarrow> ParseFromArray (body_parse P) pBuff 15 (field (h_msgbody_len oMsgHead));
               (case r of
                  None \<Rightarrow> Some (DERR pBuff)
                | Some oMsgBody \<Rightarrow>
                    Some (DOK oMsgHead oMsgBody
                      (SkipBytes pBuff (unat (gc_uiMsgHeadSize + word_of_nat (length (body_ser P oMsgBody)))))))
             }
             else Some (DPAUSE pBuff))
      }
      else Some (DPAUSE pBuff))"

subsection \<open>ClientMsgCodec\<close>

text \<open>The packed header, as it is stored in memory.\<close>

record tagClientMsgHead =
  version :: byte
  encript :: byte
  c_cmd :: u16
  c_checksum :: u16
  c_body_len :: u32
  c_seq :: u32

definition client_head_bytes :: "tagClientMsgHead \<Rightarrow> byte list" where
  "client_head_bytes st =
     [version st, encript st] @ store16 (c_cmd st) @ store16 (c_checksum st)
     @ store32 (c_body_len st) @ store32 (c_seq st)"

definition client_head_load :: "byte list \<Rightarrow> tagClientMsgHead" where
  "client_head_load bs =
     \<lparr>version = bs ! 0, encript = bs ! 1, c_cmd = load16 (drop 2 bs), c_checksum = load16 (drop 4 bs),
      c_body_len = load32 (drop 6 bs), c_seq = load32 (drop 10 bs)\<rparr>"

definition client_head :: "msg_head \<Rightarrow> tagClientMsgHead" where
  "client_head oMsgHead =
     \<lparr>version = 1, encript = ucast (drop_bit 24 (field (h_cmd oMsgHead))),
      c_cmd = htons (ucast (gc_uiCmdBit AND field (h_cmd oMsgHead))), c_checksum = 0,
      c_body_len = htonl (field (h_msgbody_len oMsgHead)), c_seq = htonl (field (h_seq oMsgHead))\<rparr>"

text \<open>The compressed data, if the command asks for compression: an error, or a string that is empty without it.\<close>

definition client_compress :: "zlib \<Rightarrow> u32 \<Rightarrow> byte list \<Rightarrow> byte list option" where
  "client_compress Z cmd raw =
     (if gc_uiZipBit AND cmd \<noteq> 0 then z_zip Z raw
      else if gc_uiGzipBit AND cmd \<noteq> 0 then z_gzip Z raw else Some [])"

definition ClientMsgCodec_Encode ::
  "'b pb \<Rightarrow> zlib \<Rightarrow> byte list \<Rightarrow> heap \<Rightarrow> msg_head \<Rightarrow> 'b \<Rightarrow> cbuffer \<Rightarrow> (codec_status \<times> cbuffer) option" where
  "ClientMsgCodec_Encode P Z key hp oMsgHead oMsgBody pBuff =
     (let st = client_head oMsgHead; raw = body_ser P oMsgBody; cmd = field (h_cmd oMsgHead) in
      if length raw > 64000000 then Some (CODEC_STATUS_ERR, pBuff)
      else if field (h_msgbody_len oMsgHead) = 0 then do {
        (w, b) \<leftarrow> Write hp pBuff (client_head_bytes st);
        if w \<noteq> 14 then Some (CODEC_STATUS_ERR, take_back b 0) else Some (CODEC_STATUS_OK, b)
      }
      else if encript st = 0 then write_parts hp pBuff (client_head_bytes st) raw False
      else
        case client_compress Z cmd raw of
          None \<Rightarrow> Some (CODEC_STATUS_ERR, pBuff)
        | Some strCompressData \<Rightarrow> do {
            strEncryptData \<leftarrow>
              (if gc_uiRc5Bit AND cmd \<noteq> 0
               then Rc5Encrypt hp key (if strCompressData \<noteq> [] then strCompressData else raw) else Some []);
            if strEncryptData \<noteq> [] then
              write_parts hp pBuff
                (client_head_bytes (st\<lparr>c_body_len := htonl (word_of_nat (length strEncryptData))\<rparr>)) strEncryptData True
            else if strCompressData \<noteq> [] then
              write_parts hp pBuff
                (client_head_bytes (st\<lparr>c_body_len := htonl (word_of_nat (length strCompressData))\<rparr>)) strCompressData True
            else write_parts hp pBuff (client_head_bytes st) raw True
          })"

text \<open>The head that \<open>Decode\<close> sets from the header it has read.\<close>

definition head_of_client :: "tagClientMsgHead \<Rightarrow> msg_head" where
  "head_of_client st =
     \<lparr>h_cmd = Some (push_bit 24 (ucast (encript st)) OR ucast (htons (c_cmd st))),
      h_msgbody_len = Some (htonl (c_body_len st)), h_seq = Some (htonl (c_seq st)),
      h_checksum = Some (ucast (htons (c_checksum st)))\<rparr>"

text \<open>Decompression: the result, \<open>None\<close> if it fails; \<open>[]\<close> if the command asks for none.\<close>

definition client_uncompress :: "zlib \<Rightarrow> u32 \<Rightarrow> byte list \<Rightarrow> byte list option" where
  "client_uncompress Z cmd src =
     (if gc_uiZipBit AND cmd \<noteq> 0 then z_unzip Z src
      else if gc_uiGzipBit AND cmd \<noteq> 0 then z_gunzip Z src else Some [])"

text \<open>The body from its \<open>len\<close> raw bytes: \<open>Inl\<close> is an error, \<open>Inr\<close> the body with the head's new length.\<close>

definition client_body ::
  "'b pb \<Rightarrow> zlib \<Rightarrow> byte list \<Rightarrow> heap \<Rightarrow> cbuffer \<Rightarrow> tagClientMsgHead \<Rightarrow> msg_head \<Rightarrow> (unit + msg_head \<times> 'b) option" where
  "client_body P Z key hp b st oMsgHead =
     (let len = htonl (c_body_len st); cmd = field (h_cmd oMsgHead);
          parsed = (\<lambda>oMsgHead r. case r of None \<Rightarrow> Inl () | Some oMsgBody \<Rightarrow> Inr (oMsgHead, oMsgBody)) in
      if encript st = 0 then map_option (parsed oMsgHead) (ParseFromArray (body_parse P) b 0 len)
      else do {
        strRawData \<leftarrow> mem_read (m_buffer b) (m_read_idx b) (unat len);
        strDecryptData \<leftarrow> (if gc_uiRc5Bit AND cmd \<noteq> 0 then Rc5Decrypt hp key strRawData else Some []);
        (case client_uncompress Z cmd (if strDecryptData \<noteq> [] then strDecryptData else strRawData) of
           None \<Rightarrow> Some (Inl ())
         | Some strUncompressData \<Rightarrow>
             if strUncompressData \<noteq> [] then
               Some (parsed (oMsgHead\<lparr>h_msgbody_len := Some (word_of_nat (length strUncompressData))\<rparr>)
                 (body_parse P strUncompressData))
             else if strDecryptData \<noteq> [] then
               Some (parsed (oMsgHead\<lparr>h_msgbody_len := Some (word_of_nat (length strDecryptData))\<rparr>)
                 (body_parse P strDecryptData))
             else map_option (parsed oMsgHead) (ParseFromArray (body_parse P) b 0 len))
      })"

definition ClientMsgCodec_Decode ::
  "'b pb \<Rightarrow> zlib \<Rightarrow> byte list \<Rightarrow> heap \<Rightarrow> 'b \<Rightarrow> cbuffer \<Rightarrow> 'b decoded option" where
  "ClientMsgCodec_Decode P Z key hp oMsgBody pBuff =
     (if ReadableBytes pBuff \<ge> 14 then do {
        let iReadIdx = to_int32 (m_read_idx pBuff);
        (_, bs, b) \<leftarrow> Read pBuff 14;
        let st = client_head_load bs;
        let oMsgHead = head_of_client st;
        if htonl (c_body_len st) = 0 then Some (DOK oMsgHead oMsgBody b)
        else if ReadableBytes b \<ge> unat (htonl (c_body_len st)) then do {
          r \<leftarrow> client_body P Z key hp b st oMsgHead;
          Some (case r of
                  Inl _ \<Rightarrow> DERR b
                | Inr (oMsgHead, oMsgBody) \<Rightarrow> DOK oMsgHead oMsgBody (SkipBytes b (length (body_ser P oMsgBody))))
        }
        else Some (DPAUSE (SetReadIndex b (size_add_int 0 iReadIdx)))
      }
      else Some (DPAUSE pBuff))"

subsection \<open>CodecCustom\<close>

definition CodecCustom_Encode :: "heap \<Rightarrow> msg_head \<Rightarrow> cbuffer \<Rightarrow> (codec_status \<times> cbuffer) option" where
  "CodecCustom_Encode hp oMsgHead pBuff =
     write_parts hp pBuff (store16 (htons 2) @ store32 (htonl (field (h_seq oMsgHead)))) [111, 107] True"

definition CodecCustom_Decode :: "'b pb \<Rightarrow> 'b \<Rightarrow> cbuffer \<Rightarrow> 'b decoded option" where
  "CodecCustom_Decode P oMsgBody pBuff =
     (if ReadableBytes pBuff \<ge> 6 then do {
        (_, bs, b) \<leftarrow> Read pBuff 6;
        let body_len = htons (load16 bs);
        let oMsgHead = \<lparr>h_cmd = Some 100001, h_msgbody_len = Some (ucast body_len),
                        h_seq = Some (htonl (load32 (drop 2 bs))), h_checksum = None\<rparr>;
        if body_len = 0 then Some (DOK oMsgHead oMsgBody b)
        else if ReadableBytes b \<ge> unat body_len then do {
          raw \<leftarrow> mem_read (m_buffer b) (m_read_idx b) (unat body_len);
          Some (DOK oMsgHead (body_set P raw oMsgBody) (SkipBytes b (unat body_len)))
        }
        else Some (DPAUSE b)
      }
      else Some (DPAUSE pBuff))"

subsection \<open>Connection status\<close>

datatype connect_status = eConnectStatus_init | eConnectStatus_connecting | eConnectStatus_ok

definition status_after_inner :: "connect_status \<Rightarrow> 'b decoded \<Rightarrow> connect_status" where
  "status_after_inner st r =
     (case r of
        DOK oMsgHead _ _ \<Rightarrow>
          if st = eConnectStatus_ok then st
          else if field (h_cmd oMsgHead) = CMD_RSP_TELL_WORKER then eConnectStatus_ok
          else if field (h_cmd oMsgHead) < CMD_RSP_TELL_WORKER then eConnectStatus_connecting else st
      | _ \<Rightarrow> st)"

definition ProtoCodec_Decode_conn :: "'b pb \<Rightarrow> 'b \<Rightarrow> connect_status \<times> cbuffer \<Rightarrow> (connect_status \<times> 'b decoded) option" where
  "ProtoCodec_Decode_conn P oMsgBody pConn =
     map_option (\<lambda>r. (status_after_inner (fst pConn) r, r)) (ProtoCodec_Decode P oMsgBody (snd pConn))"

definition CodecCustom_Decode_conn :: "'b pb \<Rightarrow> 'b \<Rightarrow> connect_status \<times> cbuffer \<Rightarrow> (connect_status \<times> 'b decoded) option" where
  "CodecCustom_Decode_conn P oMsgBody pConn =
     map_option (\<lambda>r. (status_after_inner (fst pConn) r, r)) (CodecCustom_Decode P oMsgBody (snd pConn))"

definition ClientMsgCodec_Decode_conn ::
  "'b pb \<Rightarrow> zlib \<Rightarrow> byte list \<Rightarrow> heap \<Rightarrow> 'b \<Rightarrow> connect_status \<times> cbuffer \<Rightarrow> (connect_status \<times> 'b decoded) option" where
  "ClientMsgCodec_Decode_conn P Z key hp oMsgBody pConn =
     map_option
       (\<lambda>r. ((case r of DOK _ _ _ \<Rightarrow> if fst pConn = eConnectStatus_init then eConnectStatus_ok else fst pConn
                      | _ \<Rightarrow> fst pConn), r))
       (ClientMsgCodec_Decode P Z key hp oMsgBody (snd pConn))"

end
