(* ===== verification/CodecContract.thy ===== *)
theory CodecContract
  imports Codec "HOL-Library.Sublist"
begin

text \<open>
  The contract between the codecs and the code that receives: the locales \<open>stream_codec\<close> and
  \<open>message_codec\<close>, their interpretations for \<open>ProtoCodec\<close> and for the plain messages of
  \<open>ClientMsgCodec\<close>, and the places where the codecs break it.
\<close>

subsection \<open>The contract of a codec\<close>

definition buf_ok :: "cbuffer \<Rightarrow> bool" where
  "buf_ok b \<longleftrightarrow> cb_inv b \<and> m_write_idx b < 2 ^ 31"

lemma buf_ok_readable: "buf_ok b \<Longrightarrow> ReadableBytes b = length (cb_data b) \<and> ReadableBytes b < 2 ^ 31"
  using length_cb_data [of b] by (auto simp: buf_ok_def ReadableBytes_inv cb_inv_def)

lemma SkipBytes_buf: "buf_ok b \<Longrightarrow> n \<le> length (cb_data b) \<Longrightarrow> SkipBytes b n = b\<lparr>m_read_idx := m_read_idx b + n\<rparr>"
  using SkipBytes_ok [of b n] buf_ok_readable [of b] by (auto simp: buf_ok_def)

lemma advance_ok:
  assumes "buf_ok b" "n \<le> length (cb_data b)"
  shows "buf_ok (b\<lparr>m_read_idx := m_read_idx b + n\<rparr>)" "cb_data (b\<lparr>m_read_idx := m_read_idx b + n\<rparr>) = drop n (cb_data b)"
  using cb_inv_advance [of b n] assms buf_ok_readable [of b] by (auto simp: buf_ok_def)

lemma ParseFromArray_data:
  assumes "buf_ok b" "off + unat len \<le> length (cb_data b)"
  shows "ParseFromArray parse b off len = Some (parse (take (unat len) (drop off (cb_data b))))"
proof -
  have le: "m_read_idx b + off + unat len \<le> m_write_idx b" "unat len < 2 ^ 31"
    using assms buf_ok_readable [of b] by (auto simp: buf_ok_def ReadableBytes_inv cb_inv_def)
  then have "mem_read (m_buffer b) (m_read_idx b + off) (unat len) = Some (take (unat len) (drop off (cb_data b)))"
    using assms(1) by (simp add: mem_read_def buf_ok_def cb_inv_def cb_data_def drop_segment take_segment)
  then show ?thesis using le by (simp add: ParseFromArray_def)
qed

text \<open>
  What a receiver relies on: a complete frame at the front of the buffer is decoded and removed; while
  only a proper prefix of a frame has arrived, the buffer is left as it is.
\<close>

locale stream_codec =
  fixes valid :: "'m \<Rightarrow> bool"
    and frame :: "'m \<Rightarrow> byte list"
    and seen :: "'m \<Rightarrow> msg_head \<times> 'b"
    and dec :: "cbuffer \<Rightarrow> 'b decoded option"
  assumes frame_min: "valid m \<Longrightarrow> 14 \<le> length (frame m)"
    and dec_frame: "buf_ok b \<Longrightarrow> valid m \<Longrightarrow> cb_data b = frame m @ rest \<Longrightarrow>
      dec b = Some (DOK (fst (seen m)) (snd (seen m)) (b\<lparr>m_read_idx := m_read_idx b + length (frame m)\<rparr>))"
    and dec_partial: "buf_ok b \<Longrightarrow> valid m \<Longrightarrow> strict_prefix (cb_data b) (frame m) \<Longrightarrow> dec b = Some (DPAUSE b)"

subsection \<open>ProtoCodec keeps the contract\<close>

definition proto_valid :: "'b pb \<Rightarrow> msg_head \<times> 'b \<Rightarrow> bool" where
  "proto_valid P m \<longleftrightarrow> pb_ok P \<and> required_set (fst m) \<and> h_checksum (fst m) = None
     \<and> length (body_ser P (snd m)) = unat (field (h_msgbody_len (fst m)))
     \<and> length (body_ser P (snd m)) \<le> 64000000
     \<and> (field (h_msgbody_len (fst m)) = 0 \<longrightarrow> snd m = body_clear P)"

definition proto_frame :: "'b pb \<Rightarrow> msg_head \<times> 'b \<Rightarrow> byte list" where
  "proto_frame P m = head_ser P (fst m) @ (if field (h_msgbody_len (fst m)) = 0 then [] else body_ser P (snd m))"

lemma proto_head:
  assumes "proto_valid P m"
  shows "length (head_ser P (fst m)) = 15" "head_parse P (head_ser P (fst m)) = Some (fst m)"
    "body_parse P (body_ser P (snd m)) = Some (snd m)"
  using assms by (auto simp: proto_valid_def pb_ok_def)

lemma word_le_readable: "r < 2 ^ 31 \<Longrightarrow> (word_of_nat r :: u32) \<ge> gc_uiMsgHeadSize \<longleftrightarrow> 15 \<le> r"
  by (simp add: word_le_nat_alt gc_uiMsgHeadSize_def unat_of_nat)

lemma unat_head_plus: "unat (l :: u32) \<le> 64000000 \<Longrightarrow> unat (gc_uiMsgHeadSize + l) = 15 + unat l"
  by (simp add: gc_uiMsgHeadSize_def unat_word_ariths)

lemma proto_dec_frame:
  assumes b: "buf_ok b" and v: "proto_valid P m" and d: "cb_data b = proto_frame P m @ rest"
  shows "ProtoCodec_Decode P (body_clear P) b
    = Some (DOK (fst m) (snd m) (b\<lparr>m_read_idx := m_read_idx b + length (proto_frame P m)\<rparr>))"
proof -
  let ?l = "field (h_msgbody_len (fst m))"
  have r: "ReadableBytes b = length (cb_data b)" "ReadableBytes b < 2 ^ 31" using buf_ok_readable [OF b] by auto
  have n: "15 \<le> length (cb_data b)" "take 15 (cb_data b) = head_ser P (fst m)" using proto_head(1) [OF v] d by (auto simp: proto_frame_def)
  have g: "gc_uiMsgHeadSize \<le> (word_of_nat (ReadableBytes b) :: u32)" using word_le_readable [OF r(2)] r(1) n(1) by simp
  have h: "ParseFromArray (head_parse P) b 0 gc_uiMsgHeadSize = Some (Some (fst m))"
    using ParseFromArray_data [OF b, of 0 gc_uiMsgHeadSize "head_parse P"] n proto_head(2) [OF v] by (simp add: gc_uiMsgHeadSize_def)
  show ?thesis
  proof (cases "?l = 0")
    case True
    then have "snd m = body_clear P" "proto_frame P m = head_ser P (fst m)" using v by (auto simp: proto_valid_def proto_frame_def)
    then show ?thesis using True h g n SkipBytes_buf [OF b, of 15] proto_head(1) [OF v]
      by (simp add: ProtoCodec_Decode_def)
  next
    case False
    have l: "length (body_ser P (snd m)) = unat ?l" "unat ?l \<le> 64000000" using v by (auto simp: proto_valid_def)
    have f: "proto_frame P m = head_ser P (fst m) @ body_ser P (snd m)" using False by (simp add: proto_frame_def)
    have all: "15 + unat ?l \<le> length (cb_data b)" using f d l proto_head(1) [OF v] by simp
    have "take (unat ?l) (drop 15 (cb_data b)) = body_ser P (snd m)" using f d l proto_head(1) [OF v] by simp
    then have p: "ParseFromArray (body_parse P) b 15 ?l = Some (Some (snd m))"
      using ParseFromArray_data [OF b all, of "body_parse P"] proto_head(3) [OF v] by simp
    have s: "unat (gc_uiMsgHeadSize + word_of_nat (length (body_ser P (snd m)))) = 15 + unat ?l"
      using l unat_head_plus [of ?l] by simp
    have "15 + unat ?l \<le> ReadableBytes b" using all r by simp
    then have "ProtoCodec_Decode P (body_clear P) b = Some (DOK (fst m) (snd m) (SkipBytes b (15 + unat ?l)))"
      using False h p s g unat_head_plus [OF l(2)] by (simp add: ProtoCodec_Decode_def)
    then show ?thesis using SkipBytes_buf [OF b all] f l proto_head(1) [OF v] by simp
  qed
qed

lemma proto_dec_partial:
  assumes b: "buf_ok b" and v: "proto_valid P m" and d: "strict_prefix (cb_data b) (proto_frame P m)"
  shows "ProtoCodec_Decode P (body_clear P) b = Some (DPAUSE b)"
proof -
  let ?l = "field (h_msgbody_len (fst m))"
  have r: "ReadableBytes b = length (cb_data b)" "ReadableBytes b < 2 ^ 31" using buf_ok_readable [OF b] by auto
  show ?thesis
  proof (cases "15 \<le> length (cb_data b)")
    case False
    then show ?thesis using r by (simp add: ProtoCodec_Decode_def word_le_readable)
  next
    case True
    obtain z where z: "proto_frame P m = cb_data b @ z" "z \<noteq> []" using d by (auto simp: strict_prefix_def prefix_def)
    then have len: "length (cb_data b) < length (proto_frame P m)" by simp
    then have l0: "?l \<noteq> 0" using True proto_head(1) [OF v] by (auto simp: proto_frame_def)
    have l: "length (body_ser P (snd m)) = unat ?l" "unat ?l \<le> 64000000" using v by (auto simp: proto_valid_def)
    have "take 15 (proto_frame P m) = head_ser P (fst m)" using proto_head(1) [OF v] by (simp add: proto_frame_def)
    then have "take 15 (cb_data b) = head_ser P (fst m)" using z True by simp
    then have h: "ParseFromArray (head_parse P) b 0 gc_uiMsgHeadSize = Some (Some (fst m))"
      using ParseFromArray_data [OF b, of 0 gc_uiMsgHeadSize "head_parse P"] True proto_head(2) [OF v] by (simp add: gc_uiMsgHeadSize_def)
    have "length (cb_data b) < 15 + unat ?l" using len l l0 proto_head(1) [OF v] by (simp add: proto_frame_def)
    then show ?thesis using h r True l0 unat_head_plus [OF l(2)] by (simp add: ProtoCodec_Decode_def word_le_readable)
  qed
qed

interpretation proto: stream_codec "proto_valid P" "proto_frame P" "\<lambda>m. m" "ProtoCodec_Decode P (body_clear P)" for P
proof
  fix m assume "proto_valid P m"
  then show "14 \<le> length (proto_frame P m)" using proto_head(1) [of P m] by (simp add: proto_frame_def)
next
  fix b m rest assume "buf_ok b" "proto_valid P m" "cb_data b = proto_frame P m @ rest"
  then show "ProtoCodec_Decode P (body_clear P) b
    = Some (DOK (fst m) (snd m) (b\<lparr>m_read_idx := m_read_idx b + length (proto_frame P m)\<rparr>))" by (rule proto_dec_frame)
next
  fix b m assume "buf_ok b" "proto_valid P m" "strict_prefix (cb_data b) (proto_frame P m)"
  then show "ProtoCodec_Decode P (body_clear P) b = Some (DPAUSE b)" by (rule proto_dec_partial)
qed

subsection \<open>ClientMsgCodec keeps the contract for plain messages\<close>

definition client_valid :: "'b pb \<Rightarrow> msg_head \<times> 'b \<Rightarrow> bool" where
  "client_valid P m \<longleftrightarrow> pb_ok P \<and> unat (field (h_cmd (fst m))) < 2 ^ 16
     \<and> length (body_ser P (snd m)) = unat (field (h_msgbody_len (fst m)))
     \<and> length (body_ser P (snd m)) \<le> 64000000
     \<and> (field (h_msgbody_len (fst m)) = 0 \<longrightarrow> snd m = body_clear P)"

definition client_frame :: "'b pb \<Rightarrow> msg_head \<times> 'b \<Rightarrow> byte list" where
  "client_frame P m = client_head_bytes (client_head (fst m))
     @ (if field (h_msgbody_len (fst m)) = 0 then [] else body_ser P (snd m))"

text \<open>The receiver sees all three fields set and the checksum 0.\<close>

definition client_seen :: "msg_head \<times> 'b \<Rightarrow> msg_head \<times> 'b" where
  "client_seen m = (\<lparr>h_cmd = Some (field (h_cmd (fst m))), h_msgbody_len = Some (field (h_msgbody_len (fst m))),
     h_seq = Some (field (h_seq (fst m))), h_checksum = Some 0\<rparr>, snd m)"

lemma length_client_head [simp]: "length (client_head_bytes st) = 14"
  by (simp add: client_head_bytes_def)

lemma client_head_load_bytes: "client_head_load (client_head_bytes st) = st"
  by (simp add: client_head_load_def client_head_bytes_def store16_def store32_def
      le16_load_bytes [simplified] le32_load_bytes [simplified])

lemma htons_0: "htons 0 = 0"
  by (simp add: htons_def half_byte_def le16_load_def)

lemma client_plain:
  assumes "unat (field (h_cmd h)) < 2 ^ 16"
  shows "encript (client_head h) = 0"
    "head_of_client (client_head h) = \<lparr>h_cmd = Some (field (h_cmd h)), h_msgbody_len = Some (field (h_msgbody_len h)),
     h_seq = Some (field (h_seq h)), h_checksum = Some 0\<rparr>"
proof -
  let ?c = "field (h_cmd h)"
  have "drop_bit 24 ?c = 0" using assms by (intro unat_eqI) (simp add: drop_bit_eq_div unat_div)
  then show e: "encript (client_head h) = 0" by (simp add: client_head_def)
  have t: "take_bit 16 ?c = ?c"
    using assms by (intro unat_eqI) (simp add: unsigned_take_bit_eq take_bit_nat_eq_self)
  have "gc_uiCmdBit = mask 16" by (simp add: gc_uiCmdBit_def mask_eq_exp_minus_1)
  then have "gc_uiCmdBit AND ?c = ?c" using t by (simp add: take_bit_eq_mask and.commute)
  then have "ucast (ucast (gc_uiCmdBit AND ?c) :: u16) = ?c"
    using assms by (intro unat_eqI) (simp add: unsigned_ucast_eq take_bit_nat_eq_self t)
  then show "head_of_client (client_head h) = \<lparr>h_cmd = Some (field (h_cmd h)), h_msgbody_len = Some (field (h_msgbody_len h)),
     h_seq = Some (field (h_seq h)), h_checksum = Some 0\<rparr>"
    using e by (simp add: head_of_client_def) (simp add: client_head_def byte_order htons_0)
qed

lemma client_decode_head:
  assumes b: "buf_ok b" and d: "take 14 (cb_data b) = client_head_bytes (client_head h)"
    and c: "unat (field (h_cmd h)) < 2 ^ 16"
  shows "ClientMsgCodec_Decode P Z key hp body b =
    (let b' = b\<lparr>m_read_idx := m_read_idx b + 14\<rparr>; l = field (h_msgbody_len h) in
     if l = 0 then Some (DOK (fst (client_seen (h, ()))) body b')
     else if ReadableBytes b' \<ge> unat l then
       map_option (\<lambda>r. case r of None \<Rightarrow> DERR b'
         | Some body \<Rightarrow> DOK (fst (client_seen (h, ()))) body (SkipBytes b' (length (body_ser P body))))
         (ParseFromArray (body_parse P) b' 0 l)
     else Some (DPAUSE b))"
proof -
  have len: "14 \<le> ReadableBytes b"
    using arg_cong [OF d, of length] buf_ok_readable [OF b] by simp
  have r: "Read b 14 = Some (14, client_head_bytes (client_head h), b\<lparr>m_read_idx := m_read_idx b + 14\<rparr>)"
    using Read_ok [of b 14] b len d by (simp add: buf_ok_def)
  have i: "m_read_idx b < 2 ^ 31" using b by (auto simp: buf_ok_def cb_inv_def)
  then have "size_add_int 0 (to_int32 (m_read_idx b)) = m_read_idx b"
    using size_add_int_nat [of 0 "m_read_idx b"] by simp
  then have restore: "SetReadIndex (b\<lparr>m_read_idx := m_read_idx b + 14\<rparr>) (size_add_int 0 (to_int32 (m_read_idx b))) = b"
    by (simp add: SetReadIndex_def)
  have l: "htonl (c_body_len (client_head h)) = field (h_msgbody_len h)" by (simp add: client_head_def byte_order)
  show ?thesis
    using len r restore l
    by (simp add: ClientMsgCodec_Decode_def Let_def client_head_load_bytes client_plain [OF c] client_body_def client_seen_def)
      (cases "ParseFromArray (body_parse P) (b\<lparr>m_read_idx := m_read_idx b + 14\<rparr>) 0 (field (h_msgbody_len h))";
        auto split: option.split)
qed

lemma client_dec_frame:
  assumes b: "buf_ok b" and v: "client_valid P m" and d: "cb_data b = client_frame P m @ rest"
  shows "ClientMsgCodec_Decode P Z key hp (body_clear P) b
    = Some (DOK (fst (client_seen m)) (snd (client_seen m)) (b\<lparr>m_read_idx := m_read_idx b + length (client_frame P m)\<rparr>))"
proof -
  let ?l = "field (h_msgbody_len (fst m))" and ?b = "b\<lparr>m_read_idx := m_read_idx b + 14\<rparr>"
  have c: "unat (field (h_cmd (fst m))) < 2 ^ 16" "take 14 (cb_data b) = client_head_bytes (client_head (fst m))"
    "14 \<le> length (cb_data b)" using v d by (auto simp: client_valid_def client_frame_def)
  note D = client_decode_head [OF b c(2,1), of P Z key hp "body_clear P", unfolded Let_def]
  have b': "buf_ok ?b" "cb_data ?b = drop 14 (cb_data b)" using advance_ok [OF b c(3)] by auto
  have s: "fst (client_seen (fst m, ())) = fst (client_seen m)" "snd (client_seen m) = snd m" by (simp_all add: client_seen_def)
  show ?thesis
  proof (cases "?l = 0")
    case True
    then show ?thesis using D b' s d v by (simp add: client_valid_def client_frame_def)
  next
    case False
    have l: "length (body_ser P (snd m)) = unat ?l" using v by (simp add: client_valid_def)
    have e: "cb_data ?b = body_ser P (snd m) @ rest" using b'(2) d False by (simp add: client_frame_def)
    then have g: "unat ?l \<le> ReadableBytes ?b" using buf_ok_readable [OF b'(1)] l by simp
    have "ParseFromArray (body_parse P) ?b 0 ?l = Some (Some (snd m))"
      using ParseFromArray_data [OF b'(1), of 0 ?l "body_parse P"] e l v by (simp add: client_valid_def pb_ok_def)
    then have "ClientMsgCodec_Decode P Z key hp (body_clear P) b = Some (DOK (fst (client_seen m)) (snd m) (SkipBytes ?b (unat ?l)))"
      using D False g s l by simp
    then show ?thesis using SkipBytes_buf [OF b'(1), of "unat ?l"] e l s False by (simp add: client_frame_def)
  qed
qed

lemma client_dec_partial:
  assumes b: "buf_ok b" and v: "client_valid P m" and d: "strict_prefix (cb_data b) (client_frame P m)"
  shows "ClientMsgCodec_Decode P Z key hp (body_clear P) b = Some (DPAUSE b)"
proof (cases "14 \<le> length (cb_data b)")
  case False
  then show ?thesis using buf_ok_readable [OF b] by (simp add: ClientMsgCodec_Decode_def)
next
  case True
  let ?l = "field (h_msgbody_len (fst m))" and ?b = "b\<lparr>m_read_idx := m_read_idx b + 14\<rparr>"
  obtain z where z: "client_frame P m = cb_data b @ z" "z \<noteq> []" using d by (auto simp: strict_prefix_def prefix_def)
  then have len: "length (cb_data b) < length (client_frame P m)" by simp
  then have l0: "?l \<noteq> 0" using True by (auto simp: client_frame_def)
  have l: "length (body_ser P (snd m)) = unat ?l" using v by (simp add: client_valid_def)
  have "take 14 (client_frame P m) = client_head_bytes (client_head (fst m))" by (simp add: client_frame_def)
  then have h: "take 14 (cb_data b) = client_head_bytes (client_head (fst m))" using z True by simp
  have c: "unat (field (h_cmd (fst m))) < 2 ^ 16" using v by (simp add: client_valid_def)
  have "length (cb_data ?b) < unat ?l" using advance_ok(2) [OF b True] len l l0 True by (simp add: client_frame_def)
  then have "\<not> unat ?l \<le> ReadableBytes ?b" using buf_ok_readable [OF advance_ok(1) [OF b True]] by simp
  then show ?thesis using client_decode_head [OF b h c, of P Z key hp "body_clear P"] l0 by (simp add: Let_def)
qed

interpretation client: stream_codec "client_valid P" "client_frame P" client_seen
  "ClientMsgCodec_Decode P Z key hp (body_clear P)" for P Z key hp
  by unfold_locales (simp_all add: client_frame_def client_dec_frame [unfolded client_frame_def] client_dec_partial [unfolded client_frame_def])

subsection \<open>Encoding\<close>

lemma take_back_ok:
  assumes "cb_inv b" "n \<le> length (cb_data b)"
  shows "cb_inv (take_back b (int n))" "cb_data (take_back b (int n)) = take (length (cb_data b) - n) (cb_data b)"
    "m_write_idx (take_back b (int n)) = m_write_idx b - n"
proof -
  have n: "n \<le> m_write_idx b - m_read_idx b" "m_write_idx b < 2 ^ 63"
    using assms length_cb_data [OF assms(1)] ReadableBytes_inv [OF assms(1)] by (auto simp: cb_inv_def)
  have "(int (m_write_idx b) - int n) mod 2 ^ 64 = int (m_write_idx b - n)"
    using n by (subst mod_pos_pos_trivial) auto
  then have i: "size_add_int (m_write_idx b) (- int n) = m_write_idx b - n" by (simp add: size_add_int_def)
  then have t: "take_back b (int n) = b\<lparr>m_write_idx := m_write_idx b - n\<rparr>" by (simp add: take_back_def SetWriteIndex_def)
  have le: "m_read_idx b \<le> m_write_idx b - n" using n assms(1) by (auto simp: cb_inv_def)
  show "cb_inv (take_back b (int n))" using assms(1) le by (auto simp: t cb_inv_def)
  show "m_write_idx (take_back b (int n)) = m_write_idx b - n" by (simp add: t)
  have "length (cb_data b) - n = m_write_idx b - n - m_read_idx b"
    using length_cb_data [OF assms(1)] ReadableBytes_inv [OF assms(1)] by simp
  then have "take (length (cb_data b) - n) (cb_data b) = take (m_write_idx b - n - m_read_idx b) (drop (m_read_idx b) (m_buffer b))"
    by (simp only: cb_data_def segment_def take_take) simp
  then show "cb_data (take_back b (int n)) = take (length (cb_data b) - n) (cb_data b)"
    by (simp add: t cb_data_def segment_def)
qed

lemma take_back_0 [simp]: "cb_inv b \<Longrightarrow> take_back b 0 = b"
  using cb_inv_bounds(2) [of b] by (simp add: take_back_def SetWriteIndex_def size_add_int_def)

lemma write_parts_ok:
  assumes inv: "cb_inv b" and room: "cb_room b (length head + length body)"
  shows "\<exists>s b'. write_parts hp b head body counted = Some (s, b') \<and> cb_inv b'
    \<and> m_write_idx b' \<le> m_write_idx b + length head + length body
    \<and> (s = CODEC_STATUS_OK \<and> cb_data b' = cb_data b @ head @ body
       \<or> s = CODEC_STATUS_ERR \<and> (cb_data b' = cb_data b \<or> \<not> counted \<and> cb_data b' = cb_data b @ head))"
proof -
  have r1: "cb_room b (length head)" and i: "length head < 2 ^ 31" "length body < 2 ^ 31" using room by (auto simp: cb_room_def)
  obtain w b1 where w: "Write hp b head = Some (w, b1)" "cb_inv b1" "m_write_idx b1 \<le> m_write_idx b + length head"
    "w = int (length head) \<and> cb_data b1 = cb_data b @ head \<or> w = -1 \<and> b1 = b" using Write_ok [OF inv r1, of hp] by blast
  show ?thesis
  proof (cases "w = -1")
    case True
    then have "b1 = b" using w(4) by auto
    then show ?thesis using w(1,2) True i inv by (simp add: write_parts_def)
  next
    case False
    then have d1: "w = int (length head)" "cb_data b1 = cb_data b @ head" using w(4) by auto
    have "cb_room b1 (length body)" using Write_room [OF inv room w(1)] .
    then obtain w' b2 where w': "Write hp b1 body = Some (w', b2)" "cb_inv b2" "m_write_idx b2 \<le> m_write_idx b1 + length body"
      "w' = int (length body) \<and> cb_data b2 = cb_data b1 @ body \<or> w' = -1 \<and> b2 = b1" using Write_ok [OF w(2), of body hp] by blast
    show ?thesis
    proof (cases "w' = -1")
      case True
      then have b2: "b2 = b1" using w'(4) by auto
      note tb = take_back_ok [OF w(2), of "length head"]
      show ?thesis using w(1-3) w'(1) True d1 i tb unfolding b2 by (cases counted) (simp_all add: write_parts_def)
    next
      case False
      then show ?thesis using w(1,3) w' d1 i by (simp add: write_parts_def)
    qed
  qed
qed

lemma ProtoCodec_Encode_ok:
  assumes "cb_inv b" "proto_valid P m" "cb_room b (length (proto_frame P m))"
  shows "\<exists>s b'. ProtoCodec_Encode P hp (fst m) (snd m) b = Some (s, b') \<and> cb_inv b'
    \<and> m_write_idx b' \<le> m_write_idx b + length (proto_frame P m)
    \<and> (s = CODEC_STATUS_OK \<and> cb_data b' = cb_data b @ proto_frame P m \<or> s = CODEC_STATUS_ERR \<and> cb_data b' = cb_data b)"
proof -
  have l: "\<not> length (body_ser P (snd m)) > 64000000" using assms(2) by (simp add: proto_valid_def)
  show ?thesis
  proof (cases "field (h_msgbody_len (fst m)) = 0")
    case True
    then have f: "proto_frame P m = head_ser P (fst m)" by (simp add: proto_frame_def)
    show ?thesis
      using Write_ok [OF assms(1), of "head_ser P (fst m)" hp] assms(1,3) True l
      unfolding f by (auto simp: ProtoCodec_Encode_def cb_room_def)
  next
    case False
    then have f: "proto_frame P m = head_ser P (fst m) @ body_ser P (snd m)" by (simp add: proto_frame_def)
    show ?thesis using write_parts_ok [OF assms(1), of "head_ser P (fst m)" "body_ser P (snd m)" hp True] assms(3) False l
      unfolding f by (auto simp: ProtoCodec_Encode_def)
  qed
qed

lemma ClientMsgCodec_Encode_ok:
  assumes "cb_inv b" "client_valid P m" "cb_room b (length (client_frame P m))"
  shows "\<exists>s b'. ClientMsgCodec_Encode P Z key hp (fst m) (snd m) b = Some (s, b') \<and> cb_inv b'
    \<and> m_write_idx b' \<le> m_write_idx b + length (client_frame P m)
    \<and> (s = CODEC_STATUS_OK \<and> cb_data b' = cb_data b @ client_frame P m
       \<or> s = CODEC_STATUS_ERR \<and> (cb_data b' = cb_data b \<or> cb_data b' = cb_data b @ client_head_bytes (client_head (fst m))))"
proof -
  have l: "\<not> length (body_ser P (snd m)) > 64000000" using assms(2) by (simp add: client_valid_def)
  have e: "encript (client_head (fst m)) = 0" using assms(2) client_plain by (auto simp: client_valid_def)
  show ?thesis
  proof (cases "field (h_msgbody_len (fst m)) = 0")
    case True
    then have f: "client_frame P m = client_head_bytes (client_head (fst m))" by (simp add: client_frame_def)
    show ?thesis
      using Write_ok [OF assms(1), of "client_head_bytes (client_head (fst m))" hp] assms(1,3) True l
      unfolding f by (auto simp: ClientMsgCodec_Encode_def cb_room_def Let_def)
  next
    case False
    then have f: "client_frame P m = client_head_bytes (client_head (fst m)) @ body_ser P (snd m)" by (simp add: client_frame_def)
    show ?thesis using write_parts_ok [OF assms(1), of "client_head_bytes (client_head (fst m))" "body_ser P (snd m)" hp False] assms(3) False l e
      unfolding f by (auto simp: ClientMsgCodec_Encode_def Let_def)
  qed
qed

locale message_codec = stream_codec valid frame seen dec
  for valid :: "'m \<Rightarrow> bool" and frame :: "'m \<Rightarrow> byte list" and seen :: "'m \<Rightarrow> msg_head \<times> 'b"
    and dec :: "cbuffer \<Rightarrow> 'b decoded option" +
  fixes enc :: "'m \<Rightarrow> cbuffer \<Rightarrow> (codec_status \<times> cbuffer) option"
  assumes enc_frame: "cb_inv b \<Longrightarrow> valid m \<Longrightarrow> cb_room b (length (frame m)) \<Longrightarrow>
      \<exists>s b'. enc m b = Some (s, b') \<and> cb_inv b' \<and> m_write_idx b' \<le> m_write_idx b + length (frame m)
        \<and> (s = CODEC_STATUS_OK \<and> cb_data b' = cb_data b @ frame m \<or> s = CODEC_STATUS_ERR)"
begin

text \<open>What an encoder appends for a message is decoded to this message, whatever stood before it at the sender and follows it at the receiver.\<close>

lemma enc_dec:
  assumes "cb_inv b" "valid m" "m_write_idx b + length (frame m) < 2 ^ 31" "enc m b = Some (CODEC_STATUS_OK, b1)"
  shows "\<exists>t. cb_data b1 = cb_data b @ t \<and> (\<forall>c rest. buf_ok c \<and> cb_data c = t @ rest \<longrightarrow>
    (\<exists>c1. dec c = Some (DOK (fst (seen m)) (snd (seen m)) c1) \<and> buf_ok c1 \<and> cb_data c1 = rest))"
proof -
  have "cb_room b (length (frame m))" using assms(3) by (simp add: cb_room_def)
  from enc_frame [OF assms(1,2) this] assms(4) have "cb_data b1 = cb_data b @ frame m" by auto
  moreover have "\<exists>c1. dec c = Some (DOK (fst (seen m)) (snd (seen m)) c1) \<and> buf_ok c1 \<and> cb_data c1 = rest"
    if "buf_ok c" "cb_data c = frame m @ rest" for c rest
    using dec_frame [OF that(1) assms(2) that(2)] advance_ok [OF that(1), of "length (frame m)"] that(2) by simp
  ultimately show ?thesis by blast
qed

end

interpretation proto_msg: message_codec "proto_valid P" "proto_frame P" "\<lambda>m. m" "ProtoCodec_Decode P (body_clear P)"
  "\<lambda>m. ProtoCodec_Encode P hp (fst m) (snd m)" for P hp
  by unfold_locales (use ProtoCodec_Encode_ok in blast)

interpretation client_msg: message_codec "client_valid P" "client_frame P" client_seen
  "ClientMsgCodec_Decode P Z key hp (body_clear P)" "\<lambda>m. ClientMsgCodec_Encode P Z key hp (fst m) (snd m)" for P Z key hp
  by unfold_locales (use ClientMsgCodec_Encode_ok in blast)

definition recv_ok :: "cbuffer \<Rightarrow> bool" where
  "recv_ok b \<longleftrightarrow> cb_inv b \<and> Capacity b < 2 ^ 31"

lemma Write_success:
  assumes "fst hp = (\<lambda>_. True)" "recv_ok b" "m_write_idx b + length xs < 2 ^ 30"
  shows "\<exists>b'. Write hp b xs = Some (int (length xs), b') \<and> recv_ok b' \<and> cb_data b' = cb_data b @ xs
    \<and> m_write_idx b' \<le> m_write_idx b + length xs"
proof -
  have inv: "cb_inv b" "cb_room b (length xs)" using assms by (auto simp: recv_ok_def cb_room_def)
  obtain r b' where w: "Write hp b xs = Some (r, b')" "cb_inv b'" "m_write_idx b' \<le> m_write_idx b + length xs"
    "r = int (length xs) \<and> cb_data b' = cb_data b @ xs \<or> r = -1 \<and> b' = b" using Write_ok [OF inv, of hp] by blast
  obtain ok b1 where e: "EnsureWritableBytes hp b (length xs) = Some (ok, b1)"
    using EnsureWritableBytes_ok [OF inv(1), of "length xs" hp] assms(3) by auto
  have "ok" "Capacity b1 < 2 ^ 31"
    using EnsureWritableBytes_total [OF assms(1) _ assms(3) e] assms(2) by (auto simp: recv_ok_def)
  moreover from this have "r = to_int32 (length xs)" "m_buffer_len b' = m_buffer_len b1"
    using w(1) e by (auto simp: Write_def mem_write_def split: if_splits bind_splits)
  ultimately show ?thesis using w assms(3) by (auto simp: recv_ok_def Capacity_def)
qed

lemma write_parts_success:
  assumes "fst hp = (\<lambda>_. True)" "recv_ok b" "m_write_idx b + length head + length body < 2 ^ 30"
  shows "\<exists>b'. write_parts hp b head body counted = Some (CODEC_STATUS_OK, b')"
proof -
  obtain b1 where b1: "Write hp b head = Some (int (length head), b1)" "recv_ok b1" "m_write_idx b1 \<le> m_write_idx b + length head"
    using Write_success [OF assms(1,2), of head] assms(3) by auto
  moreover obtain b2 where "Write hp b1 body = Some (int (length body), b2)"
    using Write_success [OF assms(1) b1(2), of body] b1(3) assms(3) by auto
  ultimately show ?thesis using assms(3) by (simp add: write_parts_def)
qed

subsection \<open>A concrete Protocol Buffers encoding\<close>

definition fixed32 :: "byte \<Rightarrow> u32 option \<Rightarrow> byte list" where
  "fixed32 tag f = (case f of None \<Rightarrow> [] | Some x \<Rightarrow> tag # store32 x)"

definition sample_pb :: "byte list pb" where
  "sample_pb = \<lparr>
     head_ser = (\<lambda>h. fixed32 13 (h_cmd h) @ fixed32 21 (h_msgbody_len h) @ fixed32 29 (h_seq h) @ fixed32 37 (h_checksum h)),
     head_parse = (\<lambda>bs. Some \<lparr>h_cmd = Some (load32 (drop 1 bs)), h_msgbody_len = Some (load32 (drop 6 bs)),
       h_seq = Some (load32 (drop 11 bs)), h_checksum = (if length bs = 20 then Some (load32 (drop 16 bs)) else None)\<rparr>),
     body_ser = (\<lambda>b. b), body_parse = Some, body_clear = [], body_set = (\<lambda>x _. x)\<rparr>"

lemma sample_pb_head:
  assumes "required_set h"
  shows "head_parse sample_pb (head_ser sample_pb h) = Some h"
    "length (head_ser sample_pb h) = (if h_checksum h = None then 15 else 20)"
proof -
  obtain c l s k where h: "h = \<lparr>h_cmd = Some c, h_msgbody_len = Some l, h_seq = Some s, h_checksum = k\<rparr>"
    using assms by (cases h) (auto simp: required_set_def)
  show "head_parse sample_pb (head_ser sample_pb h) = Some h"
    "length (head_ser sample_pb h) = (if h_checksum h = None then 15 else 20)"
    unfolding h by (cases k; simp add: sample_pb_def fixed32_def store32_def le32_load_bytes [simplified])+
qed

lemma sample_pb_ok: "pb_ok sample_pb"
  unfolding pb_ok_def using sample_pb_head by (auto simp: sample_pb_def)

definition sample_msg :: "msg_head \<times> byte list" where
  "sample_msg = (\<lparr>h_cmd = Some 1001, h_msgbody_len = Some 2, h_seq = Some 7, h_checksum = None\<rparr>, [1, 2])"

lemma sample_msg_valid: "proto_valid sample_pb sample_msg" "client_valid sample_pb sample_msg"
  using sample_pb_ok by (simp_all add: proto_valid_def client_valid_def sample_msg_def required_set_def field_def)
    (simp_all add: sample_pb_def)

lemma sample_frame_length: "length (proto_frame sample_pb sample_msg) = 17" "length (client_frame sample_pb sample_msg) = 16"
  using proto_head(1) [OF sample_msg_valid(1)]
  by (simp_all add: proto_frame_def client_frame_def) (simp_all add: sample_msg_def field_def sample_pb_def)

subsection \<open>Properties\<close>

text \<open>
  C26. \<open>ProtoCodec\<close>: encoding a message behind whatever the buffer of the sender holds either reports an error and leaves the content as it was,
  or appends some bytes; a receiver whose buffer begins with these bytes, whatever follows them, decodes exactly this message and is left with
  what follows.
\<close>

theorem ProtoCodec_roundtrip:
  assumes "cb_inv b" "proto_valid P m" "m_write_idx b + length (proto_frame P m) < 2 ^ 31"
  shows "\<exists>b1 t. ProtoCodec_Encode P hp (fst m) (snd m) b = Some (CODEC_STATUS_ERR, b1) \<and> cb_data b1 = cb_data b
    \<or> ProtoCodec_Encode P hp (fst m) (snd m) b = Some (CODEC_STATUS_OK, b1) \<and> cb_data b1 = cb_data b @ t
      \<and> (\<forall>c rest. buf_ok c \<and> cb_data c = t @ rest \<longrightarrow>
          (\<exists>c1. ProtoCodec_Decode P (body_clear P) c = Some (DOK (fst m) (snd m) c1) \<and> buf_ok c1 \<and> cb_data c1 = rest))"
proof -
  have "cb_room b (length (proto_frame P m))" using assms(3) by (simp add: cb_room_def)
  from ProtoCodec_Encode_ok [OF assms(1,2) this, of hp] show ?thesis
    using proto_msg.enc_dec [OF assms, of hp] by auto
qed

theorem ProtoCodec_roundtrip_witness:
  "\<exists>b1 t. ProtoCodec_Encode sample_pb (\<lambda>_. True, \<lambda>_. 0) (fst sample_msg) (snd sample_msg) (sample_buffer [1, 2]) = Some (CODEC_STATUS_ERR, b1) \<and> cb_data b1 = [1, 2]
    \<or> ProtoCodec_Encode sample_pb (\<lambda>_. True, \<lambda>_. 0) (fst sample_msg) (snd sample_msg) (sample_buffer [1, 2]) = Some (CODEC_STATUS_OK, b1) \<and> cb_data b1 = [1, 2] @ t
      \<and> (\<forall>c rest. buf_ok c \<and> cb_data c = t @ rest \<longrightarrow>
          (\<exists>c1. ProtoCodec_Decode sample_pb (body_clear sample_pb) c = Some (DOK (fst sample_msg) (snd sample_msg) c1) \<and> buf_ok c1 \<and> cb_data c1 = rest))"
  using ProtoCodec_roundtrip [OF sample_buffer_inv sample_msg_valid(1), of "[1, 2]" "(\<lambda>_. True, \<lambda>_. 0)"]
  by (simp add: sample_frame_length) (simp add: sample_buffer_def cb_data_def segment_def)

text \<open>
  The length test of \<open>ProtoCodec::Decode\<close> adds the header size to the body length in 32 bits: for a
  header that announces 2^32 - 15 bytes or more the sum wraps, the test passes although no byte of
  the body has arrived, and the library is called with a negative length.
\<close>

theorem ProtoCodec_length_wraps:
  assumes "pb_ok P" "required_set h" "h_checksum h = None" "unat (field (h_msgbody_len h)) \<ge> 2 ^ 32 - 15"
    and "buf_ok b" "cb_data b = head_ser P h"
  shows "ProtoCodec_Decode P body b = None"
proof -
  let ?l = "field (h_msgbody_len h)"
  have h: "length (head_ser P h) = 15" "head_parse P (head_ser P h) = Some h" using assms(1-3) by (auto simp: pb_ok_def)
  have r: "ReadableBytes b = 15" using buf_ok_readable [OF assms(5)] assms(6) h by simp
  have "ParseFromArray (head_parse P) b 0 gc_uiMsgHeadSize = Some (Some h)"
    using ParseFromArray_data [OF assms(5), of 0 gc_uiMsgHeadSize "head_parse P"] assms(6) h by (simp add: gc_uiMsgHeadSize_def)
  moreover have "unat ?l < 2 ^ 32" using unsigned_less [of ?l] by simp
  then have "unat (gc_uiMsgHeadSize + ?l) \<le> 15"
    using assms(4) by (simp add: gc_uiMsgHeadSize_def unat_word_ariths le_mod_geq)
  moreover have "?l \<noteq> 0" using assms(4) by auto
  moreover have "ParseFromArray (body_parse P) b 15 ?l = None" using assms(4) by (simp add: ParseFromArray_def)
  moreover have "gc_uiMsgHeadSize \<le> (word_of_nat (ReadableBytes b) :: u32)" using r by (simp add: gc_uiMsgHeadSize_def)
  ultimately show ?thesis using r by (simp add: ProtoCodec_Decode_def)
qed

theorem ProtoCodec_length_wraps_witness:
  "ProtoCodec_Decode sample_pb []
     (sample_buffer (head_ser sample_pb \<lparr>h_cmd = Some 1, h_msgbody_len = Some 0xFFFFFFFF, h_seq = Some 1, h_checksum = None\<rparr>)) = None"
proof -
  let ?h = "\<lparr>h_cmd = Some 1, h_msgbody_len = Some 0xFFFFFFFF, h_seq = Some 1, h_checksum = None\<rparr> :: msg_head"
  have "length (head_ser sample_pb ?h) = 15" using sample_pb_ok by (auto simp: pb_ok_def required_set_def)
  then have "buf_ok (sample_buffer (head_ser sample_pb ?h))" "cb_data (sample_buffer (head_ser sample_pb ?h)) = head_ser sample_pb ?h"
    using sample_buffer_inv [of "head_ser sample_pb ?h"] by (simp_all add: buf_ok_def) (simp_all add: sample_buffer_def cb_data_def segment_def)
  then show ?thesis by (intro ProtoCodec_length_wraps [OF sample_pb_ok, of ?h]) (simp_all add: required_set_def field_def)
qed

text \<open>
  \<open>CodecCustom::Decode\<close> breaks the contract: when the header has arrived and the body has not, it
  returns \<open>CODEC_STATUS_PAUSE\<close> with the six header bytes consumed, so that the next call takes the
  body for a header.
\<close>

theorem CodecCustom_pause_drops_header:
  assumes "buf_ok b" "6 \<le> length (cb_data b)"
    and "length (cb_data b) < 6 + unat (htons (load16 (cb_data b)))"
  shows "\<exists>b'. CodecCustom_Decode P body b = Some (DPAUSE b') \<and> cb_data b' = drop 6 (cb_data b)"
proof -
  let ?b = "b\<lparr>m_read_idx := m_read_idx b + 6\<rparr>"
  have r: "ReadableBytes b = length (cb_data b)" using buf_ok_readable [OF assms(1)] by simp
  have rd: "Read b 6 = Some (6, take 6 (cb_data b), ?b)" using Read_ok [of b 6] assms(1,2) r by (simp add: buf_ok_def)
  have b': "buf_ok ?b" "cb_data ?b = drop 6 (cb_data b)" using advance_ok [OF assms(1,2)] by auto
  then have r': "ReadableBytes ?b = length (cb_data b) - 6" using buf_ok_readable [OF b'(1)] by simp
  obtain x y z where "cb_data b = x # y # z" using assms(2) by (cases "cb_data b"; cases "tl (cb_data b)") auto
  then have l: "load16 (take 6 (cb_data b)) = load16 (cb_data b)" by simp
  have "htons (load16 (cb_data b)) \<noteq> 0" using assms(2,3) by (intro notI) simp
  then show ?thesis using r rd r' assms(2,3) b'(2) l by (auto simp: CodecCustom_Decode_def Let_def)
qed

theorem CodecCustom_pause_drops_header_witness:
  "\<exists>b'. CodecCustom_Decode sample_pb [] (sample_buffer [0, 2, 0, 0, 0, 7]) = Some (DPAUSE b') \<and> cb_data b' = []"
proof -
  let ?b = "sample_buffer [0, 2, 0, 0, 0, 7]"
  have d: "cb_data ?b = [0, 2, 0, 0, 0, 7]" by (simp add: sample_buffer_def cb_data_def segment_def)
  have "buf_ok ?b" by (simp add: buf_ok_def sample_buffer_def cb_inv_def)
  moreover have "htons (load16 [0, 2, 0, 0, 0, 7]) = 2" by code_simp
  ultimately show ?thesis using CodecCustom_pause_drops_header [of ?b sample_pb "[]"] d by simp
qed

definition rc5_cmd :: "u16 \<Rightarrow> u32" where
  "rc5_cmd c = gc_uiRc5Bit OR ucast c"

lemma rc5_cmd_bits:
  "gc_uiZipBit AND rc5_cmd c = 0" "gc_uiGzipBit AND rc5_cmd c = 0" "gc_uiRc5Bit AND rc5_cmd c \<noteq> 0"
  "ucast (drop_bit 24 (rc5_cmd c)) = (1 :: byte)" "push_bit 24 (ucast (1 :: byte)) OR ucast c = rc5_cmd c"
proof -
  have z: "gc_uiZipBit = 2 ^ 29" "gc_uiGzipBit = 2 ^ 28" "gc_uiRc5Bit = 2 ^ 24"
    by (simp_all add: gc_uiZipBit_def gc_uiGzipBit_def gc_uiRc5Bit_def)
  have bits: "bit gc_uiZipBit n \<longleftrightarrow> n = 29" "bit gc_uiGzipBit n \<longleftrightarrow> n = 28" "bit gc_uiRc5Bit n \<longleftrightarrow> n = 24" for n
    unfolding z bit_exp_iff by auto
  show "gc_uiZipBit AND rc5_cmd c = 0" "gc_uiGzipBit AND rc5_cmd c = 0"
    by (rule bit_word_eqI, auto simp: bits rc5_cmd_def bit_simps dest: bit_imp_le_length)+
  have "bit (gc_uiRc5Bit AND rc5_cmd c) 24" by (simp add: bits rc5_cmd_def bit_simps)
  then show "gc_uiRc5Bit AND rc5_cmd c \<noteq> 0" by auto
  show "push_bit 24 (ucast (1 :: byte)) OR ucast c = rc5_cmd c" by (simp add: rc5_cmd_def gc_uiRc5Bit_def push_bit_eq_mult)
  show "ucast (drop_bit 24 (rc5_cmd c)) = (1 :: byte)"
    by (rule bit_word_eqI) (auto simp: bits rc5_cmd_def bit_simps bit_1_iff dest: bit_imp_le_length)
qed

text \<open>
  \<open>ClientMsgCodec\<close> loses the frame boundary for encrypted messages: \<open>Decode\<close> skips as many bytes as
  the decrypted body has instead of the length in the header, so that after a message encrypted with
  RC5 has been decoded correctly, the last 1 to 8 bytes of its ciphertext stay in the buffer in front
  of the next message.
\<close>

theorem ClientMsgCodec_rc5_leftover:
  fixes P :: "'b pb"
  assumes P: "pb_ok P" and hp: "heap_serves hp (4 * length (body_ser P body) + 512)"
    and key: "0 < length key" "length key \<le> 256"
    and len: "4 \<le> length (body_ser P body)" "length (body_ser P body) \<le> 64000000"
    and h: "h_cmd h = Some (rc5_cmd c)" "h_msgbody_len h = Some (word_of_nat (length (body_ser P body)))"
    and b: "cb_inv b" "cb_data b = []" "m_write_idx b < 2 ^ 30"
    and enc: "ClientMsgCodec_Encode P Z key hp h body b = Some (CODEC_STATUS_OK, b1)"
  shows "\<exists>h' b2. ClientMsgCodec_Decode P Z key hp (body_clear P) b1 = Some (DOK h' body b2)
    \<and> length (cb_data b2) = 8 - length (body_ser P body) mod 8"
proof -
  let ?src = "body_ser P body" and ?st = "client_head h"
  obtain ct where ct: "Rc5Encrypt hp key ?src = Some ct" "Rc5Decrypt hp key ct = Some ?src" "length ct = 8 * (length ?src div 8 + 1)"
    using Rc5_encrypt_decrypt [OF hp key len(1)] len(2) by auto
  let ?st' = "?st\<lparr>c_body_len := htonl (word_of_nat (length ct))\<rparr>"
  have ctl: "length ct \<le> 64000008" "ct \<noteq> []" using ct(3) len(2) by auto
  have f: "field (h_cmd h) = rc5_cmd c" "field (h_msgbody_len h) = word_of_nat (length ?src)" using h by (simp_all add: field_def)
  have "unat (word_of_nat (length ?src) :: u32) = length ?src" using len(2) by (simp add: unat_of_nat)
  then have l0: "field (h_msgbody_len h) \<noteq> 0" using f(2) len(1) by (metis not_numeral_le_zero unat_0)
  have e: "encript ?st = 1" using f rc5_cmd_bits(4) by (simp add: client_head_def)
  have "write_parts hp b (client_head_bytes ?st') ct True = Some (CODEC_STATUS_OK, b1)"
    using enc l0 len(2) e ct(1) ctl(2) f(1) rc5_cmd_bits(1-3) [of c]
    by (simp add: ClientMsgCodec_Encode_def Let_def client_compress_def)
  moreover have "cb_room b (length (client_head_bytes ?st') + length ct)" using b(3) ctl by (simp add: cb_room_def)
  ultimately have b1: "cb_inv b1" "m_write_idx b1 \<le> m_write_idx b + 14 + length ct" "cb_data b1 = client_head_bytes ?st' @ ct"
    using write_parts_ok [OF b(1), of "client_head_bytes ?st'" ct hp True] b(2) by auto
  have ok: "buf_ok b1" using b1 b(3) ctl by (simp add: buf_ok_def)
  let ?b2 = "b1\<lparr>m_read_idx := m_read_idx b1 + 14\<rparr>"
  have r1: "ReadableBytes b1 \<ge> 14" using buf_ok_readable [OF ok] b1(3) by simp
  have b2: "buf_ok ?b2" "cb_data ?b2 = ct" using advance_ok [OF ok, of 14] b1(3) by auto
  have r2: "ReadableBytes ?b2 = length ct" using buf_ok_readable [OF b2(1)] b2(2) by simp
  have rd: "Read b1 14 = Some (14, client_head_bytes ?st', ?b2)" using Read_ok [OF b1(1) r1] b1(3) by simp
  have bl: "htonl (c_body_len ?st') = word_of_nat (length ct)" by (simp add: byte_order)
  have ul: "unat (word_of_nat (length ct) :: u32) = length ct" using ctl by (simp add: unat_of_nat)
  then have bl0: "(word_of_nat (length ct) :: u32) \<noteq> 0" using ctl(2) by (metis length_0_conv unat_0)
  obtain c' where hc: "h_cmd (head_of_client ?st') = Some (rc5_cmd c')"
    using e rc5_cmd_bits(5) by (simp add: head_of_client_def)
  have "mem_read (m_buffer ?b2) (m_read_idx ?b2) (length ct) = Some ct"
    using mem_read_readable [of ?b2 "length ct"] b2 r2 by (simp add: buf_ok_def)
  moreover have "body_parse P ?src = Some body" using P by (simp add: pb_ok_def)
  moreover have "?src \<noteq> []" using len(1) by auto
  ultimately obtain h' where "client_body P Z key hp ?b2 ?st' (head_of_client ?st') = Some (Inr (h', body))"
    using e bl ul ct(2) hc rc5_cmd_bits(1-3) [of c']
    by (simp add: client_body_def Let_def client_uncompress_def field_def)
  then have "ClientMsgCodec_Decode P Z key hp (body_clear P) b1 = Some (DOK h' body (SkipBytes ?b2 (length ?src)))"
    using r1 r2 rd bl bl0 ul by (simp add: ClientMsgCodec_Decode_def Let_def client_head_load_bytes)
  moreover have "length ?src \<le> length ct" unfolding ct(3) by presburger
  ultimately show ?thesis
    using SkipBytes_buf [OF b2(1), of "length ?src"] advance_ok(2) [OF b2(1), of "length ?src"] b2(2) ct(3)
    by (auto simp: minus_mod_eq_mult_div [symmetric])
qed

definition rc5_msg_head :: msg_head where
  "rc5_msg_head = \<lparr>h_cmd = Some (rc5_cmd 1001), h_msgbody_len = Some (word_of_nat 5), h_seq = Some 7, h_checksum = None\<rparr>"

definition no_zlib :: zlib where
  "no_zlib = \<lparr>z_zip = (\<lambda>_. None), z_unzip = (\<lambda>_. None), z_gzip = (\<lambda>_. None), z_gunzip = (\<lambda>_. None)\<rparr>"

theorem ClientMsgCodec_rc5_leftover_witness:
  "\<exists>b1 h' b2. ClientMsgCodec_Encode sample_pb no_zlib [1, 2, 3] (\<lambda>_. True, \<lambda>_. 0) rc5_msg_head [9, 8, 7, 6, 5] CBuffer_new
      = Some (CODEC_STATUS_OK, b1)
    \<and> ClientMsgCodec_Decode sample_pb no_zlib [1, 2, 3] (\<lambda>_. True, \<lambda>_. 0) (body_clear sample_pb) b1 = Some (DOK h' [9, 8, 7, 6, 5] b2)
    \<and> length (cb_data b2) = 3"
proof -
  let ?hp = "(\<lambda>_. True, \<lambda>_. 0) :: heap" and ?body = "[9, 8, 7, 6, 5] :: byte list" and ?key = "[1, 2, 3] :: byte list"
  have s: "body_ser sample_pb ?body = ?body" by (simp add: sample_pb_def)
  have hp: "heap_serves ?hp (4 * length (body_ser sample_pb ?body) + 512)" by (simp add: s heap_serves_def)
  obtain ct where ct: "Rc5Encrypt ?hp ?key ?body = Some ct" "length ct = 8"
    using Rc5_encrypt_decrypt [OF hp, of ?key] by (auto simp: s)
  then have "ct \<noteq> []" by auto
  have f: "field (h_cmd rc5_msg_head) = rc5_cmd 1001" "field (h_msgbody_len rc5_msg_head) = 5" by (simp_all add: rc5_msg_head_def field_def)
  then have e: "encript (client_head rc5_msg_head) = 1" using rc5_cmd_bits(4) by (simp add: client_head_def)
  obtain b1 where "ClientMsgCodec_Encode sample_pb no_zlib ?key ?hp rc5_msg_head ?body CBuffer_new = Some (CODEC_STATUS_OK, b1)"
    using write_parts_success [of ?hp CBuffer_new "client_head_bytes ((client_head rc5_msg_head)\<lparr>c_body_len := htonl (word_of_nat (length ct))\<rparr>)" ct True]
      ct \<open>ct \<noteq> []\<close> f e rc5_cmd_bits(1-3) [of 1001]
    by (auto simp: ClientMsgCodec_Encode_def Let_def client_compress_def s recv_ok_def Capacity_def CBuffer_new_def cb_inv_def)
  moreover from ClientMsgCodec_rc5_leftover [OF sample_pb_ok hp _ _ _ _ _ _ cb_inv_new cb_data_new _ this, of 1001]
  have "\<exists>h' b2. ClientMsgCodec_Decode sample_pb no_zlib ?key ?hp (body_clear sample_pb) b1 = Some (DOK h' ?body b2)
    \<and> length (cb_data b2) = 8 - length (body_ser sample_pb ?body) mod 8"
    by (simp add: s rc5_msg_head_def CBuffer_new_def)
  ultimately show ?thesis by (auto simp: s)
qed

end
