(* ===== verification/ConHash.thy ===== *)
theory ConHash
  imports Prelude "HOL-Library.Sublist"
begin

text \<open>
  The consistent-hash ring of \<open>Net/src/nodes/ConHash.hpp\<close>, with which a worker assigns a session to one
  of the nodes of a type.

  \<open>ConHash\<close> keeps a \<open>std::map\<close> from hash values to virtual nodes, here a list of pairs that is sorted by
  the hash, and a list of the real nodes.  A node is an object on the heap; the model gives it a number as
  its address, and a virtual node holds that number.  Following an address that belongs to no node
  of the list would be a use of freed memory and is \<open>None\<close>.

  The first theorems say that no operation leads there and that the ring is a consistent hash: adding a node moves
  sessions only to the new node, removing one moves only the sessions of the removed node.
\<close>

subsection \<open>The hash function\<close>

definition char_word :: "char \<Rightarrow> u32" where
  "char_word c = scast (of_char c :: byte)"

text \<open>\<open>str[i]\<close> is a signed character, so it is extended with its sign before the exclusive or.\<close>

definition FNVHash :: "string \<Rightarrow> u32" where
  "FNVHash str = foldl (\<lambda>hash c. (hash * 0x811C9DC5) XOR char_word c) 0 str"

fun decimal :: "nat \<Rightarrow> string" where
  "decimal n = (if n < 10 then [char_of (48 + n)] else decimal (n div 10) @ [char_of (48 + n mod 10)])"

declare decimal.simps [simp del]

subsection \<open>ConHash\<close>

record server_info =
  pstrIP :: string
  wdPort :: int
  info_identify :: string

record con_node =
  node_ptr :: nat
  node_identify :: string
  nodedata :: server_info

record con_hash =
  m_vnode_map :: "(u32 \<times> nat) list"
  m_node_list :: "con_node list"
  next_ptr :: nat

definition ConHash_new :: con_hash where
  "ConHash_new = \<lparr>m_vnode_map = [], m_node_list = [], next_ptr = 0\<rparr>"

definition kVirtualNodeDefault :: nat where
  "kVirtualNodeDefault = 80"

definition vnode_hash :: "(string \<Rightarrow> u32) \<Rightarrow> string \<Rightarrow> nat \<Rightarrow> u32" where
  "vnode_hash hash_func strIdentify i = hash_func (strIdentify @ ''#'' @ decimal i)"

text \<open>\<open>m_vnode_map.insert\<close> of a key that is not yet there.\<close>

fun map_insert :: "u32 \<Rightarrow> 'a \<Rightarrow> (u32 \<times> 'a) list \<Rightarrow> (u32 \<times> 'a) list" where
  "map_insert k v [] = [(k, v)]"
| "map_insert k v ((k', v') # kvs) = (if k < k' then (k, v) # (k', v') # kvs else (k', v') # map_insert k v kvs)"

text \<open>The loop over the virtual nodes of a new node; it is left with -1 at the first hash that is taken.\<close>

fun add_vnodes :: "(string \<Rightarrow> u32) \<Rightarrow> string \<Rightarrow> nat \<Rightarrow> nat list \<Rightarrow> (u32 \<times> nat) list \<Rightarrow> int \<times> (u32 \<times> nat) list" where
  "add_vnodes hf strIdentify p [] m = (0, m)"
| "add_vnodes hf strIdentify p (i # is) m =
     (if vnode_hash hf strIdentify i \<in> fst ` set m then (-1, m)
      else add_vnodes hf strIdentify p is (map_insert (vnode_hash hf strIdentify i) p m))"

definition ConHash_addNode :: "(string \<Rightarrow> u32) \<Rightarrow> con_hash \<Rightarrow> string \<Rightarrow> u32 \<Rightarrow> server_info \<Rightarrow> int \<times> con_hash" where
  "ConHash_addNode hf h strIdentify virtual_node_count data =
     (if strIdentify = [] \<or> virtual_node_count = 0 then (-1, h)
      else
        let p = next_ptr h; (r, m) = add_vnodes hf strIdentify p [0..<kVirtualNodeDefault] (m_vnode_map h) in
        (r, \<lparr>m_vnode_map = m, m_node_list = m_node_list h @ [\<lparr>node_ptr = p, node_identify = strIdentify, nodedata = data\<rparr>],
             next_ptr = p + 1\<rparr>))"

fun find_node :: "string \<Rightarrow> con_node list \<Rightarrow> con_node option" where
  "find_node strIdentify [] = None"
| "find_node strIdentify (n # ns) = (if node_identify n = strIdentify then Some n else find_node strIdentify ns)"

definition ConHash_removeNode :: "con_hash \<Rightarrow> string \<Rightarrow> int \<times> con_hash" where
  "ConHash_removeNode h strIdentify =
     (case find_node strIdentify (m_node_list h) of
        None \<Rightarrow> (0, h)
      | Some n \<Rightarrow>
          (1, h\<lparr>m_vnode_map := filter (\<lambda>kv. snd kv \<noteq> node_ptr n) (m_vnode_map h),
               m_node_list := remove1 n (m_node_list h)\<rparr>))"

definition ConHash_clear :: "con_hash \<Rightarrow> con_hash" where
  "ConHash_clear h = h\<lparr>m_vnode_map := [], m_node_list := []\<rparr>"

fun deref_node :: "nat \<Rightarrow> con_node list \<Rightarrow> con_node option" where
  "deref_node p [] = None"
| "deref_node p (n # ns) = (if node_ptr n = p then Some n else deref_node p ns)"

text \<open>The virtual node that serves a hash value: the first at or after it, else the first of the ring.\<close>

definition ring_owner :: "u32 \<Rightarrow> (u32 \<times> 'a) list \<Rightarrow> 'a option" where
  "ring_owner k m =
     (case m of
        [] \<Rightarrow> None
      | first # _ \<Rightarrow> (case dropWhile (\<lambda>kv. fst kv < k) m of [] \<Rightarrow> Some (snd first) | kv # _ \<Rightarrow> Some (snd kv)))"

text \<open>\<open>Some None\<close> is the result \<open>NULL\<close>.\<close>

definition ConHash_lookupNode :: "(string \<Rightarrow> u32) \<Rightarrow> con_hash \<Rightarrow> string \<Rightarrow> server_info option option" where
  "ConHash_lookupNode hf h strModFactor =
     (case ring_owner (hf strModFactor) (m_vnode_map h) of
        None \<Rightarrow> Some None
      | Some p \<Rightarrow> map_option (\<lambda>n. Some (nodedata n)) (deref_node p (m_node_list h)))"

subsection \<open>ChannelConHash\<close>

record server_entry =
  entry_identify :: string
  entry_ip :: string
  entry_port :: int
  dwInuse :: int

record channel_con_hash =
  m_server_info_map :: "string \<rightharpoonup> server_entry"
  m_ConHashProxy :: con_hash

definition ChannelConHash_new :: channel_con_hash where
  "ChannelConHash_new = \<lparr>m_server_info_map = Map.empty, m_ConHashProxy = ConHash_new\<rparr>"

definition addNode :: "channel_con_hash \<Rightarrow> server_entry \<Rightarrow> int \<times> channel_con_hash" where
  "addNode ch entry =
     (if dwInuse entry = 1 then (-1, ch)
      else
        let info = \<lparr>pstrIP = entry_ip entry, wdPort = entry_port entry, info_identify = entry_identify entry\<rparr>;
            m = (case m_server_info_map ch (entry_identify entry) of
                   None \<Rightarrow> (m_server_info_map ch)(entry_identify entry \<mapsto> entry) | Some _ \<Rightarrow> m_server_info_map ch);
            (r, h) = ConHash_addNode FNVHash (m_ConHashProxy ch) (info_identify info) (word_of_nat kVirtualNodeDefault) info in
        (r, \<lparr>m_server_info_map = m, m_ConHashProxy = h\<rparr>))"

definition removeNode :: "channel_con_hash \<Rightarrow> string \<Rightarrow> int \<times> channel_con_hash" where
  "removeNode ch strIdentify =
     (case m_server_info_map ch strIdentify of
        None \<Rightarrow> (0, ch)
      | Some entry \<Rightarrow>
          let (status, h) = ConHash_removeNode (m_ConHashProxy ch) (entry_identify entry) in
          if status = 0 then (status, ch\<lparr>m_ConHashProxy := h\<rparr>)
          else (0, \<lparr>m_server_info_map = (m_server_info_map ch)(strIdentify := None), m_ConHashProxy = h\<rparr>))"

definition ChannelConHash_clear :: "channel_con_hash \<Rightarrow> channel_con_hash" where
  "ChannelConHash_clear ch = \<lparr>m_server_info_map = Map.empty, m_ConHashProxy = ConHash_clear (m_ConHashProxy ch)\<rparr>"

definition lookupNodeIdentify :: "channel_con_hash \<Rightarrow> u32 \<Rightarrow> string option" where
  "lookupNodeIdentify ch uiModFactor =
     (if uiModFactor = 0 then Some []
      else
        map_option (\<lambda>r. case r of None \<Rightarrow> [] | Some info \<Rightarrow> info_identify info)
          (ConHash_lookupNode FNVHash (m_ConHashProxy ch) (decimal (unat uiModFactor))))"

subsection \<open>The ring as a list\<close>

definition ring_ok :: "(u32 \<times> 'a) list \<Rightarrow> bool" where
  "ring_ok m \<longleftrightarrow> sorted_wrt (<) (map fst m)"

lemma set_map_insert [simp]: "set (map_insert k v m) = insert (k, v) (set m)"
  by (induction k v m rule: map_insert.induct) auto

lemma ring_ok_insert: "ring_ok m \<Longrightarrow> k \<notin> fst ` set m \<Longrightarrow> ring_ok (map_insert k v m)"
proof (induction k v m rule: map_insert.induct)
  case (2 k v k' v' kvs)
  then show ?case by (fastforce simp: ring_ok_def)
qed (simp add: ring_ok_def)

lemma ring_ok_filter: "ring_ok m \<Longrightarrow> ring_ok (filter P m)"
  by (simp add: ring_ok_def sorted_wrt_map sorted_wrt_filter)

text \<open>The owner of a hash value by its position: minimal among the keys from the value on, else the least key.\<close>

definition owns :: "u32 \<Rightarrow> u32 \<times> 'a \<Rightarrow> (u32 \<times> 'a) set \<Rightarrow> bool" where
  "owns k kv S \<longleftrightarrow> kv \<in> S \<and>
     (if k \<le> fst kv then \<forall>kv'\<in>S. k \<le> fst kv' \<longrightarrow> fst kv \<le> fst kv'
      else \<forall>kv'\<in>S. fst kv' < k \<and> fst kv \<le> fst kv')"

lemma ring_owner_owns:
  assumes "ring_ok m" "m \<noteq> []"
  shows "\<exists>kv. ring_owner k m = Some (snd kv) \<and> owns k kv (set m)"
proof (cases "dropWhile (\<lambda>kv. fst kv < k) m")
  case Nil
  obtain kv m' where m: "m = kv # m'" using assms(2) by (cases m) auto
  have "\<forall>kv\<in>set m. fst kv < k" using Nil by simp
  moreover have "\<forall>kv'\<in>set m. fst kv \<le> fst kv'" using assms(1) m by (auto simp: ring_ok_def intro: less_imp_le)
  ultimately have "owns k kv (set m)" using m by (auto simp: owns_def not_le)
  then show ?thesis using Nil m by (intro exI [of _ kv]) (simp add: ring_owner_def)
next
  case (Cons kv tl)
  then have m: "m = takeWhile (\<lambda>kv. fst kv < k) m @ kv # tl" by (metis takeWhile_dropWhile_id)
  have k: "k \<le> fst kv" using Cons by (metis hd_dropWhile list.distinct(1) list.sel(1) not_less)
  have "ring_ok (takeWhile (\<lambda>kv. fst kv < k) m @ kv # tl)" using m assms(1) by simp
  then have "\<forall>kv'\<in>set tl. fst kv < fst kv'" by (auto simp: ring_ok_def sorted_wrt_append)
  then have "fst kv \<le> fst kv'" if "kv' \<in> set m" "k \<le> fst kv'" for kv'
    using that m set_takeWhileD [of kv' "\<lambda>kv. fst kv < k" m] by (metis Un_iff less_imp_le list.set_intros order_refl set_ConsD set_append not_le)
  moreover have "kv \<in> set m" using m by (metis in_set_conv_decomp)
  ultimately have "owns k kv (set m)" using k by (simp add: owns_def)
  moreover have "ring_owner k m = Some (snd kv)" unfolding ring_owner_def Cons using assms(2) by (cases m) simp_all
  ultimately show ?thesis by blast
qed

lemma ring_ok_inj: "ring_ok m \<Longrightarrow> kv \<in> set m \<Longrightarrow> kv' \<in> set m \<Longrightarrow> fst kv = fst kv' \<Longrightarrow> kv = kv'"
  by (metis distinct_map inj_on_def ring_ok_def strict_sorted_iff)

lemma owns_unique:
  assumes "ring_ok m" "owns k kv (set m)" "owns k kv' (set m)"
  shows "kv = kv'"
proof -
  have "kv \<in> set m" "kv' \<in> set m" using assms(2,3) by (auto simp: owns_def)
  moreover from this have "fst kv = fst kv'" using assms(2,3)
    by (auto simp: owns_def split: if_splits intro: antisym)
  ultimately show ?thesis using ring_ok_inj [OF assms(1)] by blast
qed

lemma owns_subset: "owns k kv S \<Longrightarrow> T \<subseteq> S \<Longrightarrow> kv \<in> T \<Longrightarrow> owns k kv T"
  by (auto simp: owns_def split: if_splits)

text \<open>Between two rings, one contained in the other, the owner changes only if the larger one owns with an additional entry.\<close>

lemma ring_owner_subset:
  assumes "ring_ok m" "ring_ok m'" "set m' \<subseteq> set m" "m' \<noteq> []" "ring_owner k m = Some p" "\<forall>kv\<in>set m - set m'. snd kv \<noteq> p"
  shows "ring_owner k m' = Some p"
proof -
  have "m \<noteq> []" using assms(3,4) by (cases m') auto
  then obtain kv where kv: "ring_owner k m = Some (snd kv)" "owns k kv (set m)" using ring_owner_owns [OF assms(1)] by blast
  then have "kv \<in> set m'" using assms(5,6) by (auto simp: owns_def)
  then have o: "owns k kv (set m')" using owns_subset [OF kv(2) assms(3)] by simp
  obtain kv' where "ring_owner k m' = Some (snd kv')" "owns k kv' (set m')" using ring_owner_owns [OF assms(2,4)] by blast
  then show ?thesis using owns_unique [OF assms(2) o] kv(1) assms(5) by auto
qed


subsection \<open>Invariant\<close>

definition con_hash_ok :: "con_hash \<Rightarrow> bool" where
  "con_hash_ok h \<longleftrightarrow> ring_ok (m_vnode_map h) \<and> distinct (map node_ptr (m_node_list h))
     \<and> (\<forall>n\<in>set (m_node_list h). node_ptr n < next_ptr h)
     \<and> snd ` set (m_vnode_map h) \<subseteq> node_ptr ` set (m_node_list h)"

lemma add_vnodes_ok:
  "ring_ok m \<Longrightarrow> add_vnodes hf s p is m = (r, m') \<Longrightarrow>
     ring_ok m' \<and> set m \<subseteq> set m' \<and> (\<forall>kv\<in>set m' - set m. snd kv = p)"
proof (induction hf s p "is" m rule: add_vnodes.induct)
  case (2 hf s p i "is" m)
  show ?case
  proof (cases "vnode_hash hf s i \<in> fst ` set m")
    case True then show ?thesis using "2.prems" by simp
  next
    case False
    then show ?thesis using "2.IH" [OF False ring_ok_insert [OF "2.prems"(1) False]] "2.prems"(2) by auto
  qed
qed simp

lemma addNode_ok:
  assumes "con_hash_ok h" "ConHash_addNode hf h s c d = (r, h')"
  shows "con_hash_ok h'"
proof (cases "s = [] \<or> c = 0")
  case True then show ?thesis using assms by (simp add: ConHash_addNode_def)
next
  case False
  obtain m where m: "add_vnodes hf s (next_ptr h) [0..<kVirtualNodeDefault] (m_vnode_map h) = (r, m)"
    and h': "h' = \<lparr>m_vnode_map = m, m_node_list = m_node_list h @ [\<lparr>node_ptr = next_ptr h, node_identify = s, nodedata = d\<rparr>],
      next_ptr = next_ptr h + 1\<rparr>"
    using assms(2) False by (auto simp: ConHash_addNode_def Let_def split: prod.splits)
  have "ring_ok m" "\<forall>kv\<in>set m - set (m_vnode_map h). snd kv = next_ptr h"
    using add_vnodes_ok [OF _ m] assms(1) by (auto simp: con_hash_ok_def)
  moreover from this have "snd ` set m \<subseteq> insert (next_ptr h) (node_ptr ` set (m_node_list h))"
    using assms(1) by (simp add: con_hash_ok_def image_subset_iff) blast
  moreover have "next_ptr h \<notin> node_ptr ` set (m_node_list h)" using assms(1) by (auto simp: con_hash_ok_def)
  ultimately show ?thesis using assms(1) unfolding h' con_hash_ok_def by (simp add: less_Suc_eq)
qed

lemma find_node_Some: "find_node s ns = Some n \<Longrightarrow> n \<in> set ns \<and> node_identify n = s"
  by (induction s ns rule: find_node.induct) (auto split: if_splits)

lemma remove_by_ptr:
  "distinct (map node_ptr ns) \<Longrightarrow> n \<in> set ns \<Longrightarrow> x \<in> set (remove1 n ns) \<longleftrightarrow> x \<in> set ns \<and> node_ptr x \<noteq> node_ptr n"
  by (induction ns) (auto simp: rev_image_eqI)

lemma removeNode_ok:
  assumes "con_hash_ok h" "ConHash_removeNode h s = (r, h')"
  shows "con_hash_ok h'"
proof (cases "find_node s (m_node_list h)")
  case None then show ?thesis using assms by (simp add: ConHash_removeNode_def)
next
  case (Some n)
  have d: "distinct (map node_ptr (remove1 n (m_node_list h)))"
    using assms(1) by (auto simp: con_hash_ok_def distinct_map intro: inj_on_diff)
  have "set (remove1 n (m_node_list h)) = {x \<in> set (m_node_list h). node_ptr x \<noteq> node_ptr n}"
    using remove_by_ptr [of "m_node_list h" n] find_node_Some [OF Some] assms(1) by (auto simp: con_hash_ok_def)
  then have "snd ` set (filter (\<lambda>kv. snd kv \<noteq> node_ptr n) (m_vnode_map h)) \<subseteq> node_ptr ` set (remove1 n (m_node_list h))"
    using assms(1) by (auto simp: con_hash_ok_def)
  moreover have "\<forall>x\<in>set (remove1 n (m_node_list h)). node_ptr x < next_ptr h"
    using assms(1) notin_set_remove1 [of _ "m_node_list h" n] by (auto simp: con_hash_ok_def)
  moreover have "ring_ok (filter (\<lambda>kv. snd kv \<noteq> node_ptr n) (m_vnode_map h))"
    using assms(1) by (simp add: con_hash_ok_def ring_ok_filter)
  moreover have "h' = h\<lparr>m_vnode_map := filter (\<lambda>kv. snd kv \<noteq> node_ptr n) (m_vnode_map h), m_node_list := remove1 n (m_node_list h)\<rparr>"
    using assms(2) Some by (simp add: ConHash_removeNode_def)
  ultimately show ?thesis using d unfolding con_hash_ok_def by simp
qed

lemma deref_node_ok: "p \<in> node_ptr ` set ns \<Longrightarrow> \<exists>n. deref_node p ns = Some n \<and> n \<in> set ns \<and> node_ptr n = p"
  by (induction p ns rule: deref_node.induct) auto

lemma deref_node_unique: "distinct (map node_ptr ns) \<Longrightarrow> n \<in> set ns \<Longrightarrow> deref_node (node_ptr n) ns = Some n"
  by (induction ns) (auto simp: rev_image_eqI)

lemma ring_owner_in: "ring_ok m \<Longrightarrow> ring_owner k m = Some p \<Longrightarrow> p \<in> snd ` set m"
  using ring_owner_owns [of m k] by (cases "m = []") (auto simp: owns_def ring_owner_def [of k "[]"] intro: rev_image_eqI)


subsection \<open>Properties\<close>

datatype ring_op = Add string server_info | Remove string | ClearRing

fun ring_exec :: "(string \<Rightarrow> u32) \<Rightarrow> ring_op \<Rightarrow> con_hash \<Rightarrow> con_hash" where
  "ring_exec hf (Add s d) h = snd (ConHash_addNode hf h s (word_of_nat kVirtualNodeDefault) d)"
| "ring_exec hf (Remove s) h = snd (ConHash_removeNode h s)"
| "ring_exec hf ClearRing h = ConHash_clear h"

lemma ring_exec_ok: "con_hash_ok h \<Longrightarrow> con_hash_ok (ring_exec hf op h)"
proof (cases op)
  case ClearRing then show ?thesis by (simp add: con_hash_ok_def ConHash_clear_def ring_ok_def)
qed (auto intro: addNode_ok removeNode_ok prod.collapse [symmetric])

lemma ring_run_ok: "con_hash_ok h \<Longrightarrow> con_hash_ok (fold (ring_exec hf) ops h)"
  by (induction ops arbitrary: h) (simp_all add: ring_exec_ok)

lemma lookup_owner:
  assumes "con_hash_ok h" "ring_owner (hf key) (m_vnode_map h) = Some p"
  shows "\<exists>n\<in>set (m_node_list h). node_ptr n = p \<and> ConHash_lookupNode hf h key = Some (Some (nodedata n))"
proof -
  have "p \<in> node_ptr ` set (m_node_list h)" using ring_owner_in [OF _ assms(2)] assms(1) by (auto simp: con_hash_ok_def)
  then show ?thesis using deref_node_ok assms(2) by (fastforce simp: ConHash_lookupNode_def)
qed

lemma lookup_dataD:
  assumes "con_hash_ok h" "ConHash_lookupNode hf h key = Some (Some d)"
  shows "\<exists>n\<in>set (m_node_list h). ring_owner (hf key) (m_vnode_map h) = Some (node_ptr n) \<and> nodedata n = d"
  using assms lookup_owner [OF assms(1), of hf key] by (auto simp: ConHash_lookupNode_def split: option.splits)

text \<open>
  A lookup in the ring never follows a dangling pointer, and finds a node whenever the ring has a virtual
  node, in every state that additions, removals and clearing lead to.
\<close>

theorem ring_lookup_safe:
  "\<exists>r. ConHash_lookupNode hf (fold (ring_exec hf) ops ConHash_new) key = Some r
     \<and> (r = None \<longleftrightarrow> m_vnode_map (fold (ring_exec hf) ops ConHash_new) = [])"
proof -
  let ?h = "fold (ring_exec hf) ops ConHash_new"
  have ok: "con_hash_ok ?h" by (rule ring_run_ok) (simp add: con_hash_ok_def ConHash_new_def ring_ok_def)
  show ?thesis
  proof (cases "m_vnode_map ?h = []")
    case True then show ?thesis by (simp add: ConHash_lookupNode_def ring_owner_def)
  next
    case False
    then obtain p where "ring_owner (hf key) (m_vnode_map ?h) = Some p"
      using ring_owner_owns [of "m_vnode_map ?h" "hf key"] ok by (auto simp: con_hash_ok_def)
    then show ?thesis using lookup_owner [OF ok] False by blast
  qed
qed

text \<open>A hash that only looks at the first character, for the examples.\<close>

definition first_char :: "string \<Rightarrow> u32" where
  "first_char s = (case s of [] \<Rightarrow> 0 | c # _ \<Rightarrow> char_word c)"

definition sample_info :: "string \<Rightarrow> server_info" where
  "sample_info s = \<lparr>pstrIP = ''10.0.0.1'', wdPort = 9000, info_identify = s\<rparr>"

definition sample_ring :: con_hash where
  "sample_ring = fold (ring_exec first_char) [Add ''a'' (sample_info ''a''), Add ''k'' (sample_info ''k'')] ConHash_new"

lemma sample_ring_ok: "con_hash_ok sample_ring"
  unfolding sample_ring_def by (rule ring_run_ok) (simp add: con_hash_ok_def ConHash_new_def ring_ok_def)

lemma upt_Cons80: "[0..<kVirtualNodeDefault] = 0 # 1 # [2..<kVirtualNodeDefault]"
  unfolding kVirtualNodeDefault_def by code_simp

lemma vnode_count_nonzero [simp]: "(word_of_nat kVirtualNodeDefault :: u32) \<noteq> 0"
  by (simp add: kVirtualNodeDefault_def)

lemma add_one:
  "add_vnodes first_char (c # s) p [0..<kVirtualNodeDefault] m
     = (-1, if char_word c \<in> fst ` set m then m else map_insert (char_word c) p m)"
  by (simp add: upt_Cons80 vnode_hash_def first_char_def)

lemma sample_ring_eq:
  "sample_ring = \<lparr>m_vnode_map = [(97, 0), (107, 1)],
     m_node_list = [\<lparr>node_ptr = 0, node_identify = ''a'', nodedata = sample_info ''a''\<rparr>, \<lparr>node_ptr = 1, node_identify = ''k'', nodedata = sample_info ''k''\<rparr>],
     next_ptr = 2\<rparr>"
  by (simp add: sample_ring_def ConHash_addNode_def add_one ConHash_new_def char_word_def Let_def)

text \<open>
  C32. Adding a node to a ring that the operations have built moves sessions only to the new node: a session that is not served
  by the new node afterwards was served by the same node before.
\<close>

theorem addNode_moves_to_new:
  assumes "con_hash_ok h" "ConHash_addNode hf h s c d = (r, h')"
    and "ConHash_lookupNode hf h' key = Some (Some e)" "e \<noteq> d"
  shows "ConHash_lookupNode hf h key = Some (Some e)"
proof (cases "s = [] \<or> c = 0")
  case True then show ?thesis using assms by (simp add: ConHash_addNode_def)
next
  case False
  obtain m where m: "add_vnodes hf s (next_ptr h) [0..<kVirtualNodeDefault] (m_vnode_map h) = (r, m)"
    and h': "m_vnode_map h' = m" "m_node_list h' = m_node_list h @ [\<lparr>node_ptr = next_ptr h, node_identify = s, nodedata = d\<rparr>]"
    using assms(2) False by (auto simp: ConHash_addNode_def Let_def split: prod.splits)
  have ok: "ring_ok (m_vnode_map h)" "ring_ok m" "set (m_vnode_map h) \<subseteq> set m" "\<forall>kv\<in>set m - set (m_vnode_map h). snd kv = next_ptr h"
    using add_vnodes_ok [OF _ m] assms(1) by (auto simp: con_hash_ok_def)
  obtain n where n: "n \<in> set (m_node_list h)" "ring_owner (hf key) m = Some (node_ptr n)" "nodedata n = e"
    using lookup_dataD [OF addNode_ok [OF assms(1,2)] assms(3)] assms(4) h' by auto
  then have p: "node_ptr n \<noteq> next_ptr h" using assms(1) by (auto simp: con_hash_ok_def)
  moreover have "m_vnode_map h \<noteq> []" using ring_owner_in [OF ok(2) n(2)] ok(4) p by fastforce
  ultimately have "ring_owner (hf key) (m_vnode_map h) = Some (node_ptr n)" using ring_owner_subset [OF ok(2,1,3)] n(2) ok(4) by auto
  then show ?thesis using n deref_node_unique [of "m_node_list h" n] assms(1) by (simp add: ConHash_lookupNode_def con_hash_ok_def)
qed

theorem addNode_moves_to_new_witness:
  "ConHash_lookupNode first_char sample_ring ''b'' = Some (Some (sample_info ''k''))"
proof -
  obtain r h' where h': "ConHash_addNode first_char sample_ring ''x'' 80 (sample_info ''x'') = (r, h')" by fastforce
  have "ConHash_lookupNode first_char h' ''b'' = Some (Some (sample_info ''k''))"
    using h' by (auto simp: ConHash_addNode_def add_one sample_ring_eq char_word_def ConHash_lookupNode_def ring_owner_def first_char_def)
  then show ?thesis using addNode_moves_to_new [OF sample_ring_ok h'] by (simp add: sample_info_def)
qed

text \<open>
  C13. Removing a node moves only the sessions of the removed node: a session that another node serves
  stays there.
\<close>

theorem removeNode_moves_own:
  assumes "con_hash_ok h" "find_node s (m_node_list h) = Some n"
    and "ConHash_lookupNode hf h key = Some (Some e)" "e \<noteq> nodedata n"
  shows "ConHash_lookupNode hf (snd (ConHash_removeNode h s)) key = Some (Some e)"
proof -
  let ?m = "filter (\<lambda>kv. snd kv \<noteq> node_ptr n) (m_vnode_map h)"
  obtain x where x: "x \<in> set (m_node_list h)" "ring_owner (hf key) (m_vnode_map h) = Some (node_ptr x)" "nodedata x = e"
    using lookup_dataD [OF assms(1,3)] by blast
  have n: "n \<in> set (m_node_list h)" using find_node_Some [OF assms(2)] by blast
  have p: "node_ptr x \<noteq> node_ptr n"
    using deref_node_unique [of "m_node_list h"] x(1,3) n assms(1,4) by (metis con_hash_ok_def option.inject)
  have "?m \<noteq> []" using ring_owner_in [OF _ x(2)] p assms(1) by (fastforce simp: con_hash_ok_def filter_empty_conv)
  then have "ring_owner (hf key) ?m = Some (node_ptr x)"
    using ring_owner_subset [of "m_vnode_map h" ?m "hf key"] x(2) p assms(1) by (auto simp: con_hash_ok_def ring_ok_filter)
  moreover have "deref_node (node_ptr x) (remove1 n (m_node_list h)) = Some x"
    using deref_node_unique [of "remove1 n (m_node_list h)" x] remove_by_ptr [of "m_node_list h" n x] n x(1) p assms(1)
    by (auto simp: con_hash_ok_def distinct_map intro: inj_on_diff)
  ultimately show ?thesis using x(3) assms(2) by (simp add: ConHash_removeNode_def ConHash_lookupNode_def)
qed

theorem removeNode_moves_own_witness:
  "ConHash_lookupNode first_char (snd (ConHash_removeNode sample_ring ''a'')) ''b'' = Some (Some (sample_info ''k''))"
proof (rule removeNode_moves_own [OF sample_ring_ok])
  show "find_node ''a'' (m_node_list sample_ring) = Some \<lparr>node_ptr = 0, node_identify = ''a'', nodedata = sample_info ''a''\<rparr>"
    by (simp add: sample_ring_eq)
  show "ConHash_lookupNode first_char sample_ring ''b'' = Some (Some (sample_info ''k''))"
    by (simp add: sample_ring_eq ConHash_lookupNode_def ring_owner_def first_char_def char_word_def)
qed (simp add: sample_info_def)

lemma add_vnodes_empty:
  "add_vnodes hf s p [0..<kVirtualNodeDefault] [] = (r, m) \<Longrightarrow>
     m \<noteq> [] \<and> (\<forall>kv\<in>set m. snd kv = p) \<and> vnode_hash hf s 0 \<in> fst ` set m \<and> ring_ok m"
proof -
  assume "add_vnodes hf s p [0..<kVirtualNodeDefault] [] = (r, m)"
  then have "add_vnodes hf s p (1 # [2..<kVirtualNodeDefault]) [(vnode_hash hf s 0, p)] = (r, m)" by (simp add: upt_Cons80)
  then have "ring_ok m" "(vnode_hash hf s 0, p) \<in> set m" "\<forall>kv\<in>set m. kv = (vnode_hash hf s 0, p) \<or> snd kv = p"
    using add_vnodes_ok [of "[(vnode_hash hf s 0, p)]" hf s p "1 # [2..<kVirtualNodeDefault]" r m] by (auto simp: ring_ok_def)
  then show ?thesis by (auto intro: rev_image_eqI)
qed

definition announce :: "string \<Rightarrow> server_entry" where
  "announce s = \<lparr>entry_identify = s, entry_ip = ''10.0.0.1'', entry_port = 9000, dwInuse = 0\<rparr>"

text \<open>
  A node that is registered a second time is never taken out of the ring again: after the registrations and
  removals below (a node that is announced twice, leaves, returns and leaves), the table of
  servers no longer lists it, but every session is still routed to it.
\<close>

theorem readded_node_never_leaves:
  assumes "s \<noteq> []" "uiModFactor \<noteq> 0"
  defines "add \<equiv> \<lambda>ch. snd (addNode ch (announce s))" and "del \<equiv> \<lambda>ch. snd (removeNode ch s)"
  defines "ch \<equiv> del (add (del (add (add ChannelConHash_new))))"
  shows "m_server_info_map ch s = None \<and> lookupNodeIdentify ch uiModFactor = Some s"
proof -
  let ?i = "\<lparr>pstrIP = ''10.0.0.1'', wdPort = 9000, info_identify = s\<rparr>"
  let ?n = "\<lambda>p. \<lparr>node_ptr = p, node_identify = s, nodedata = ?i\<rparr>"
  let ?e = "\<lambda>m ns p. \<lparr>m_server_info_map = [s \<mapsto> announce s], m_ConHashProxy = \<lparr>m_vnode_map = m, m_node_list = ns, next_ptr = p\<rparr>\<rparr>"
  let ?z = "\<lambda>m ns p. \<lparr>m_server_info_map = Map.empty, m_ConHashProxy = \<lparr>m_vnode_map = m, m_node_list = ns, next_ptr = p\<rparr>\<rparr>"
  obtain r0 m0 where m0: "add_vnodes FNVHash s 0 [0..<kVirtualNodeDefault] [] = (r0, m0)" by fastforce
  obtain r2 m2 where m2: "add_vnodes FNVHash s 2 [0..<kVirtualNodeDefault] [] = (r2, m2)" by fastforce
  have 1: "add ChannelConHash_new = ?e m0 [?n 0] 1"
    using assms(1) m0 by (simp add: add_def addNode_def announce_def ChannelConHash_new_def ConHash_new_def ConHash_addNode_def Let_def)
  have 2: "add (?e m0 [?n 0] 1) = ?e m0 [?n 0, ?n 1] 2"
    using assms(1) add_vnodes_empty [OF m0] by (simp add: add_def addNode_def announce_def ConHash_addNode_def upt_Cons80 Let_def)
  have 3: "del (?e m0 [?n 0, ?n 1] 2) = ?z [] [?n 1] 2"
    using add_vnodes_empty [OF m0] by (simp add: del_def removeNode_def ConHash_removeNode_def announce_def)
  have 4: "add (?z [] [?n 1] 2) = ?e m2 [?n 1, ?n 2] 3"
    using assms(1) m2 by (simp add: add_def addNode_def announce_def ConHash_addNode_def Let_def)
  have 5: "del (?e m2 [?n 1, ?n 2] 3) = ?z m2 [?n 2] 3"
    using add_vnodes_empty [OF m2] by (simp add: del_def removeNode_def ConHash_removeNode_def announce_def)
  have "ch = ?z m2 [?n 2] 3" unfolding ch_def 1 2 3 4 5 ..
  moreover have "ring_owner h m2 = Some 2" for h
    using ring_owner_owns [of m2 h] add_vnodes_empty [OF m2] by (auto simp: owns_def)
  ultimately show ?thesis using assms(2) by (simp add: lookupNodeIdentify_def ConHash_lookupNode_def)
qed

theorem readded_node_never_leaves_witness:
  "lookupNodeIdentify (snd (removeNode (snd (addNode (snd (removeNode (snd (addNode (snd (addNode ChannelConHash_new
      (announce ''10.0.0.2:9000.1''))) (announce ''10.0.0.2:9000.1''))) ''10.0.0.2:9000.1'')) (announce ''10.0.0.2:9000.1''))) ''10.0.0.2:9000.1'')) 7
    = Some ''10.0.0.2:9000.1''"
  using readded_node_never_leaves [of "''10.0.0.2:9000.1''" 7] by simp

end
