(* ===== verification/WorkerConn.thy ===== *)
theory WorkerConn
  imports CodecContract ConHash Complex_Main
begin

text \<open>
  The state of a worker process (\<open>Net/src/labor/duty/Worker.cpp\<close>, class \<open>Worker\<close>) and the operations on its
  table of connections.

  The record \<open>worker\<close> has the class's tables under their names.  A pointer to a connection is the
  key under which the table holds it; following an iterator whose entry is gone is \<open>None\<close>.  Times
  (\<open>ev_tstamp\<close>, a double) are rational numbers; \<open>w_now\<close> and \<open>w_time\<close> are what \<open>ev_now\<close> and
  \<open>ev_time\<close> return during the call.  A watcher of libev is the record of what it waits for and of its data;
  \<open>new\<close> does not fail (it throws instead of returning \<open>NULL\<close>).

  Two fields are not in the code: \<open>w_tick\<close> counts the system calls, so that their results may change from call to
  call, and \<open>wire\<close> collects, for each connection by its sequence number, the bytes that \<open>send\<close> has accepted.

  The commands and modules that are loaded from shared objects, the objects of the codecs, the generated
  protobuf classes and the operating system are the fields of the environment \<open>wenv\<close>.
\<close>

subsection \<open>Data\<close>

record tagMsgShell =
  sh_fd :: int
  sh_seq :: u32

datatype codec_type = CODEC_UNKNOW | CODEC_PROTOBUF | CODEC_HTTP | CODEC_PRIVATE
  | CODEC_WEBSOCKET_EX_JS | CODEC_WEBSOCKET_EX_PB | CODEC_TLV | CODEC_TEST

record ev_io =
  io_read :: bool
  io_write :: bool
  io_data :: tagMsgShell

record ev_timer =
  t_after :: rat
  t_data :: tagMsgShell

record tagConnectionAttr =
  ucConnectStatus :: connect_status
  pRecvBuff :: cbuffer
  pSendBuff :: cbuffer
  pWaitForSendBuff :: cbuffer
  pClientData :: cbuffer
  pRemoteAddr :: string
  eCodecType :: codec_type
  dActiveTime :: rat
  dKeepAlive :: rat
  iFd :: int
  ulSeq :: u32
  ulMsgNumUnitTime :: u32
  ulMsgNum :: u32
  strIdentify :: string
  pIoWatcher :: "ev_io option"
  pTimeWatcher :: "ev_timer option"

text \<open>
  A step is an object on the heap.  \<open>k_user\<close> stands for the steps of the business logic, which
  are loaded from shared objects; the other kinds are the steps of the framework.  A timer of a step or session is absent,
  stopped (\<open>Some None\<close>) or running with its delay.
\<close>

datatype 'b step_kind =
    StepConnectWorker (k_num: nat) (k_shell: tagMsgShell) (k_head: msg_head) (k_body: 'b)
  | StepTellWorker (k_num: nat) (k_shell: tagMsgShell)
  | StepIoTimeout (k_shell: tagMsgShell)
  | StepUser nat

record 'b step =
  m_bRegistered :: bool
  st_seq :: u32
  m_dActiveTime :: rat
  m_dTimeout :: rat
  m_pTimeoutWatcher :: "rat option option"
  m_pNextStep :: "nat option"
  m_setNextStepSeq :: "u32 list"
  m_setPreStepSeq :: "u32 list"
  st_kind :: "'b step_kind"

record session =
  s_registered :: bool
  m_dSessionTimeout :: rat
  m_activeTime :: rat
  m_strSessionId :: string
  m_strSessionClassName :: string
  s_watcher :: "rat option option"

record 'b worker =
  m_ulSequence :: u32
  m_mapFdAttr :: "int \<rightharpoonup> tagConnectionAttr"
  m_mapInnerFd :: "int \<rightharpoonup> u32"
  m_mapHttpAttr :: "int \<rightharpoonup> u32 list"
  m_mapMsgShell :: "string \<rightharpoonup> tagMsgShell"
  m_mapSeq2WorkerIndex :: "u32 \<rightharpoonup> int"
  m_mapIdentifyNodeType :: "string \<rightharpoonup> string"
  m_mapNodeIdentify :: "string \<rightharpoonup> nat \<times> string list"
  m_mapChannelConHash :: "string \<Rightarrow> channel_con_hash"
  m_mapCallbackStep :: "u32 \<rightharpoonup> nat"
  step_heap :: "nat \<rightharpoonup> 'b step"
  m_mapCallbackSession :: "string \<rightharpoonup> string \<rightharpoonup> nat"
  session_heap :: "nat \<rightharpoonup> session"
  next_addr :: nat
  m_dIoTimeout :: rat
  m_dStepTimeout :: rat
  m_iRecvNum :: u32
  m_iRecvByte :: u32
  m_iSendNum :: u32
  m_iSendByte :: u32
  w_now :: rat
  w_time :: rat
  w_tick :: nat
  wire :: "u32 \<Rightarrow> byte list"

record 'b codec =
  c_enc :: "msg_head \<Rightarrow> 'b \<Rightarrow> cbuffer \<Rightarrow> (codec_status \<times> cbuffer) option"
  c_dec :: "connect_status \<times> cbuffer \<Rightarrow> (connect_status \<times> 'b decoded) option"

type_synonym 'b cmd = "'b worker \<Rightarrow> tagMsgShell \<Rightarrow> msg_head \<Rightarrow> 'b \<Rightarrow> 'b worker option"

datatype cmd_status = STATUS_CMD_START | STATUS_CMD_RUNNING | STATUS_CMD_COMPLETED | STATUS_CMD_OK | STATUS_CMD_FAULT

text \<open>\<open>TargetWorker\<close> of \<open>oss_sys.proto\<close>.\<close>

record target_worker =
  tw_err_no :: int
  tw_identify :: string
  tw_node_type :: string
  tw_err_msg :: string

text \<open>\<open>HttpMsg\<close> of \<open>http.proto\<close>, the fields the worker uses; \<open>hm_type\<close> is 0 for a request and 1 for a response.\<close>

record http_msg =
  hm_type :: int
  hm_major :: int
  hm_minor :: int
  hm_status_code :: int
  hm_path :: string
  hm_headers :: "(string \<times> string) list"
  hm_body :: "byte list"

record 'b wenv =
  e_hp :: heap
  e_pb :: "'b pb"
  e_body :: "'b \<Rightarrow> byte list"
  e_set_additional :: "byte list \<Rightarrow> 'b \<Rightarrow> 'b"
  e_connect_worker :: "int \<Rightarrow> byte list"
  e_target_ser :: "target_worker \<Rightarrow> byte list"
  e_target_parse :: "byte list \<Rightarrow> target_worker option"
  e_response_parse :: "byte list \<Rightarrow> int option"
  e_response_ser :: "int \<Rightarrow> string \<Rightarrow> byte list"
  e_http_parse :: "byte list \<Rightarrow> http_msg option"
  e_codec :: "codec_type \<Rightarrow> 'b codec option"
  e_http_enc :: "http_msg \<Rightarrow> cbuffer \<Rightarrow> (codec_status \<times> cbuffer) option"
  e_cmd :: "u32 \<Rightarrow> 'b cmd option"
  e_so :: "u32 \<Rightarrow> 'b cmd option"
  e_admin :: "msg_head \<Rightarrow> 'b cmd option"
  e_module :: "string \<Rightarrow> ('b worker \<Rightarrow> tagMsgShell \<Rightarrow> http_msg \<Rightarrow> 'b worker option) option"
  e_send :: "nat \<Rightarrow> int \<Rightarrow> byte list \<Rightarrow> nat + int"
  e_close :: "nat \<Rightarrow> int \<Rightarrow> int"
  e_socket :: "nat \<Rightarrow> int"
  e_identify :: string
  e_node_type :: string
  e_emit :: "nat \<Rightarrow> 'b worker \<Rightarrow> nat \<Rightarrow> (cmd_status \<times> 'b worker) option"
  e_callback :: "nat \<Rightarrow> 'b worker \<Rightarrow> nat \<Rightarrow> tagMsgShell \<Rightarrow> msg_head \<Rightarrow> 'b \<Rightarrow> (cmd_status \<times> 'b worker) option"
  e_timeout :: "nat \<Rightarrow> 'b worker \<Rightarrow> nat \<Rightarrow> (cmd_status \<times> 'b worker) option"
  e_http_callback :: "nat \<Rightarrow> 'b worker \<Rightarrow> nat \<Rightarrow> tagMsgShell \<Rightarrow> http_msg \<Rightarrow> (cmd_status \<times> 'b worker) option"
  e_session_timeout :: "'b worker \<Rightarrow> nat \<Rightarrow> (cmd_status \<times> 'b worker) option"
  e_control_fd :: int
  e_data_fd :: int

definition c_EINTR :: int where "c_EINTR = 4"
definition c_EAGAIN :: int where "c_EAGAIN = 11"

subsection \<open>Sequence numbers and entries\<close>

definition GetSequence :: "'b worker \<Rightarrow> u32 \<times> 'b worker" where
  "GetSequence W =
     (let s = m_ulSequence W + 1; s = (if s > 0 then s else s + 1) in (s, W\<lparr>m_ulSequence := s\<rparr>))"

definition put_conn :: "'b worker \<Rightarrow> int \<Rightarrow> tagConnectionAttr \<Rightarrow> 'b worker" where
  "put_conn W fd c = W\<lparr>m_mapFdAttr := (m_mapFdAttr W)(fd \<mapsto> c)\<rparr>"

definition new_conn :: "int \<Rightarrow> u32 \<Rightarrow> codec_type \<Rightarrow> rat \<Rightarrow> tagConnectionAttr" where
  "new_conn fd seq codec now =
     \<lparr>ucConnectStatus = eConnectStatus_init, pRecvBuff = CBuffer_new, pSendBuff = CBuffer_new, pWaitForSendBuff = CBuffer_new,
      pClientData = CBuffer_new, pRemoteAddr = [], eCodecType = codec, dActiveTime = now, dKeepAlive = 0, iFd = fd, ulSeq = seq,
      ulMsgNumUnitTime = 0, ulMsgNum = 0, strIdentify = [], pIoWatcher = None, pTimeWatcher = None\<rparr>"

definition CreateFdAttr :: "'b worker \<Rightarrow> int \<Rightarrow> u32 \<Rightarrow> codec_type \<Rightarrow> bool \<times> 'b worker" where
  "CreateFdAttr W fd seq codec =
     (case m_mapFdAttr W fd of
        None \<Rightarrow> (True, put_conn W fd (new_conn fd seq codec (w_now W)))
      | Some _ \<Rightarrow> (False, W))"

subsection \<open>Watchers\<close>

definition conn_shell :: "tagConnectionAttr \<Rightarrow> tagMsgShell" where
  "conn_shell pConn = \<lparr>sh_fd = iFd pConn, sh_seq = ulSeq pConn\<rparr>"

definition AddIoReadEvent :: "tagConnectionAttr \<Rightarrow> tagConnectionAttr" where
  "AddIoReadEvent pConn =
     pConn\<lparr>pIoWatcher := Some (case pIoWatcher pConn of
        None \<Rightarrow> \<lparr>io_read = True, io_write = False, io_data = conn_shell pConn\<rparr>
      | Some w \<Rightarrow> w\<lparr>io_read := True\<rparr>)\<rparr>"

definition AddIoWriteEvent :: "tagConnectionAttr \<Rightarrow> tagConnectionAttr" where
  "AddIoWriteEvent pConn =
     pConn\<lparr>pIoWatcher := Some (case pIoWatcher pConn of
        None \<Rightarrow> \<lparr>io_read = False, io_write = True, io_data = conn_shell pConn\<rparr>
      | Some w \<Rightarrow> w\<lparr>io_write := True\<rparr>)\<rparr>"

definition RemoveIoWriteEvent :: "tagConnectionAttr \<Rightarrow> tagConnectionAttr" where
  "RemoveIoWriteEvent pConn =
     (case pIoWatcher pConn of
        None \<Rightarrow> pConn
      | Some w \<Rightarrow> if io_write w then pConn\<lparr>pIoWatcher := Some (w\<lparr>io_write := False\<rparr>)\<rparr> else pConn)"

definition DelEvents :: "tagConnectionAttr \<Rightarrow> tagConnectionAttr" where
  "DelEvents pConn = pConn\<lparr>pIoWatcher := None\<rparr>"

definition AddIoTimeout :: "'b worker \<Rightarrow> int \<Rightarrow> u32 \<Rightarrow> tagConnectionAttr \<Rightarrow> rat \<Rightarrow> tagConnectionAttr" where
  "AddIoTimeout W fd seq pConn dTimeout =
     pConn\<lparr>pTimeWatcher := Some (case pTimeWatcher pConn of
        Some w \<Rightarrow> w\<lparr>t_after := m_dIoTimeout W + w_time W - w_now W\<rparr>
      | None \<Rightarrow> \<lparr>t_after = dTimeout + w_time W - w_now W, t_data = \<lparr>sh_fd = fd, sh_seq = seq\<rparr>\<rparr>)\<rparr>"

subsection \<open>Names of connections\<close>

definition SetConnectIdentify :: "'b worker \<Rightarrow> tagMsgShell \<Rightarrow> string \<Rightarrow> bool \<times> 'b worker" where
  "SetConnectIdentify W stMsgShell ident =
     (if sh_fd stMsgShell = 0 \<or> ident = [] then (False, W)
      else
        case m_mapFdAttr W (sh_fd stMsgShell) of
          None \<Rightarrow> (False, W)
        | Some c \<Rightarrow>
            if ulSeq c = sh_seq stMsgShell then (True, put_conn W (sh_fd stMsgShell) (c\<lparr>strIdentify := ident\<rparr>)) else (False, W))"

definition AddMsgShell :: "'b worker \<Rightarrow> string \<Rightarrow> tagMsgShell \<Rightarrow> 'b worker" where
  "AddMsgShell W ident stMsgShell =
     snd (SetConnectIdentify
       (case m_mapMsgShell W ident of
          None \<Rightarrow> W\<lparr>m_mapMsgShell := (m_mapMsgShell W)(ident \<mapsto> stMsgShell)\<rparr>
        | Some old \<Rightarrow>
            if sh_fd stMsgShell \<noteq> sh_fd old \<or> sh_seq stMsgShell \<noteq> sh_seq old
            then W\<lparr>m_mapMsgShell := (m_mapMsgShell W)(ident \<mapsto> stMsgShell)\<rparr> else W)
       stMsgShell ident)"

definition DelMsgShell :: "'b worker \<Rightarrow> string \<Rightarrow> tagMsgShell \<Rightarrow> 'b worker" where
  "DelMsgShell W ident stMsgShell =
     (case m_mapMsgShell W ident of
        None \<Rightarrow> W
      | Some old \<Rightarrow>
          if sh_fd stMsgShell \<noteq> 0 \<and> sh_seq stMsgShell \<noteq> 0 then
            if stMsgShell = old then W\<lparr>m_mapMsgShell := (m_mapMsgShell W)(ident := None)\<rparr> else W
          else W\<lparr>m_mapMsgShell := (m_mapMsgShell W)(ident := None)\<rparr>)"

definition GetMsgShell :: "'b worker \<Rightarrow> string \<Rightarrow> tagMsgShell option" where
  "GetMsgShell W ident = m_mapMsgShell W ident"

definition AddInnerFd :: "'b worker \<Rightarrow> tagMsgShell \<Rightarrow> 'b worker" where
  "AddInnerFd W stMsgShell = W\<lparr>m_mapInnerFd := (m_mapInnerFd W)(sh_fd stMsgShell \<mapsto> sh_seq stMsgShell)\<rparr>"

subsection \<open>Closing a connection\<close>

definition CMD_REQ_DISCONNECT :: u32 where "CMD_REQ_DISCONNECT = 19"

definition bytes_of_string :: "string \<Rightarrow> byte list" where
  "bytes_of_string s = map of_char s"

definition MsgShellNotice :: "'b wenv \<Rightarrow> 'b worker \<Rightarrow> tagMsgShell \<Rightarrow> string \<Rightarrow> cbuffer \<Rightarrow> 'b worker option" where
  "MsgShellNotice E W stMsgShell ident clientData =
     (case e_so E CMD_REQ_DISCONNECT of
        None \<Rightarrow> Some W
      | Some pCmd \<Rightarrow> do {
          let oMsgBody = body_set (e_pb E) (bytes_of_string ident) (body_clear (e_pb E));
          oMsgBody \<leftarrow>
            (if ReadableBytes clientData > 0
             then map_option (\<lambda>bs. e_set_additional E bs oMsgBody) (mem_read (m_buffer clientData) (m_read_idx clientData) (ReadableBytes clientData))
             else Some oMsgBody);
          let (seq, W) = GetSequence W;
          pCmd W stMsgShell
            \<lparr>h_cmd = Some CMD_REQ_DISCONNECT, h_msgbody_len = Some (word_of_nat (length (body_ser (e_pb E) oMsgBody))),
             h_seq = Some seq, h_checksum = None\<rparr> oMsgBody
        })"

text \<open>
  \<open>close\<close> gives 0 or the value of \<open>errno\<close>.  The notice runs a command before the entry is erased; if the
  command has closed the connection itself, the iterator is no longer valid.
\<close>

definition DestroyConnect :: "'b wenv \<Rightarrow> 'b worker \<Rightarrow> int \<Rightarrow> bool \<Rightarrow> (bool \<times> 'b worker) option" where
  "DestroyConnect E W fd bMsgShellNotice =
     (case m_mapFdAttr W fd of
        None \<Rightarrow> Some (False, W)
      | Some c \<Rightarrow>
          let iResult = e_close E (w_tick W) fd; W = W\<lparr>w_tick := w_tick W + 1\<rparr> in
          if iResult \<noteq> 0 \<and> iResult \<noteq> c_EINTR then Some (False, W)
          else do {
            let stMsgShell = \<lparr>sh_fd = fd, sh_seq = ulSeq c\<rparr>;
            let W = W\<lparr>m_mapInnerFd := (m_mapInnerFd W)(fd := None), m_mapHttpAttr := (m_mapHttpAttr W)(fd := None)\<rparr>;
            let W = DelMsgShell W (strIdentify c) stMsgShell;
            W \<leftarrow> (if bMsgShellNotice then MsgShellNotice E W stMsgShell (strIdentify c) (pClientData c) else Some W);
            (case m_mapFdAttr W fd of
               None \<Rightarrow> None
             | Some c' \<Rightarrow> if ulSeq c' = ulSeq c then Some (True, W\<lparr>m_mapFdAttr := (m_mapFdAttr W)(fd := None)\<rparr>) else None)
          })"

definition Disconnect :: "'b wenv \<Rightarrow> 'b worker \<Rightarrow> tagMsgShell \<Rightarrow> bool \<Rightarrow> (bool \<times> 'b worker) option" where
  "Disconnect E W stMsgShell bMsgShellNotice =
     (case m_mapFdAttr W (sh_fd stMsgShell) of
        None \<Rightarrow> Some (False, W)
      | Some c \<Rightarrow>
          if ulSeq c = sh_seq stMsgShell then DestroyConnect E W (sh_fd stMsgShell) bMsgShellNotice else Some (False, W))"

definition Disconnect_name :: "'b wenv \<Rightarrow> 'b worker \<Rightarrow> string \<Rightarrow> bool \<Rightarrow> (bool \<times> 'b worker) option" where
  "Disconnect_name E W ident bMsgShellNotice =
     (case m_mapMsgShell W ident of
        None \<Rightarrow> Some (True, W)
      | Some stMsgShell \<Rightarrow> Disconnect E W stMsgShell bMsgShellNotice)"

definition AbandonConnect :: "'b worker \<Rightarrow> string \<Rightarrow> bool \<times> 'b worker" where
  "AbandonConnect W ident =
     (case m_mapMsgShell W ident of
        None \<Rightarrow> (False, W)
      | Some sh \<Rightarrow>
          case m_mapFdAttr W (sh_fd sh) of
            None \<Rightarrow> (False, W)
          | Some c \<Rightarrow>
              if ulSeq c = sh_seq sh then
                (True, (put_conn W (sh_fd sh) (c\<lparr>strIdentify := [], pClientData := Clear (pClientData c)\<rparr>))
                   \<lparr>m_mapMsgShell := (m_mapMsgShell W)(ident := None)\<rparr>)
              else (False, W))"

subsection \<open>Data of a client\<close>

definition live :: "'b worker \<Rightarrow> tagMsgShell \<Rightarrow> tagConnectionAttr option" where
  "live W sh =
     (case m_mapFdAttr W (sh_fd sh) of None \<Rightarrow> None | Some c \<Rightarrow> if ulSeq c = sh_seq sh then Some c else None)"

definition SetClientData :: "'b wenv \<Rightarrow> 'b worker \<Rightarrow> tagMsgShell \<Rightarrow> cbuffer \<Rightarrow> (bool \<times> 'b worker \<times> cbuffer) option" where
  "SetClientData E W stMsgShell pBuff =
     (case live W stMsgShell of
        None \<Rightarrow> Some (False, W, pBuff)
      | Some c \<Rightarrow> do {
          (_, b, pBuff) \<leftarrow> WriteFrom (e_hp E) (pClientData c) pBuff (ReadableBytes pBuff);
          Some (True, put_conn W (sh_fd stMsgShell) (c\<lparr>pClientData := b\<rparr>), pBuff)
        })"

definition HadClientData :: "'b worker \<Rightarrow> tagMsgShell \<Rightarrow> bool" where
  "HadClientData W stMsgShell =
     (case live W stMsgShell of None \<Rightarrow> False | Some c \<Rightarrow> ReadableBytes (pClientData c) > 0)"

definition GetClientData :: "'b wenv \<Rightarrow> 'b worker \<Rightarrow> tagMsgShell \<Rightarrow> cbuffer \<Rightarrow> (bool \<times> cbuffer) option" where
  "GetClientData E W stMsgShell pBuff =
     (case live W stMsgShell of
        None \<Rightarrow> Some (False, pBuff)
      | Some c \<Rightarrow> do {
          bs \<leftarrow> mem_read (m_buffer (pClientData c)) (m_read_idx (pClientData c)) (ReadableBytes (pClientData c));
          (_, pBuff) \<leftarrow> Write (e_hp E) pBuff bs;
          Some (True, pBuff)
        })"

definition GetClientAddr :: "'b worker \<Rightarrow> tagMsgShell \<Rightarrow> string" where
  "GetClientAddr W stMsgShell = (case live W stMsgShell of None \<Rightarrow> [] | Some c \<Rightarrow> pRemoteAddr c)"

definition GetConnectIdentify :: "'b worker \<Rightarrow> tagMsgShell \<Rightarrow> string" where
  "GetConnectIdentify W stMsgShell = (case live W stMsgShell of None \<Rightarrow> [] | Some c \<Rightarrow> strIdentify c)"


text \<open>
  The descriptor of an HTTP client after \<open>SendTo\<close> has written a request to it: the sequence number of the step that waits for the
  answer, if there is one, is appended to the list of the descriptor.
\<close>

definition mark_http :: "int \<Rightarrow> u32 option \<Rightarrow> 'b worker \<Rightarrow> 'b worker" where
  "mark_http fd pHttpStep W =
     (let seqs = (case m_mapHttpAttr W fd of None \<Rightarrow> [] | Some seqs \<Rightarrow> seqs);
          seqs = (case pHttpStep of None \<Rightarrow> seqs | Some seq \<Rightarrow> seqs @ [seq])
      in W\<lparr>m_mapHttpAttr := (m_mapHttpAttr W)(fd \<mapsto> seqs)\<rparr>)"

subsection \<open>Invariant of the tables\<close>

lemma put_conn_simps [simp]:
  "m_mapFdAttr (put_conn W fd c) = (m_mapFdAttr W)(fd \<mapsto> c)" "m_mapMsgShell (put_conn W fd c) = m_mapMsgShell W"
  "m_mapInnerFd (put_conn W fd c) = m_mapInnerFd W" "m_mapHttpAttr (put_conn W fd c) = m_mapHttpAttr W"
  "m_ulSequence (put_conn W fd c) = m_ulSequence W" "wire (put_conn W fd c) = wire W" "w_tick (put_conn W fd c) = w_tick W"
  "w_now (put_conn W fd c) = w_now W" "w_time (put_conn W fd c) = w_time W"
  by (simp_all add: put_conn_def)

text \<open>A connection is filed under its own descriptor and its watchers carry its descriptor and sequence number.\<close>

definition conn_ok :: "int \<Rightarrow> tagConnectionAttr \<Rightarrow> bool" where
  "conn_ok fd c \<longleftrightarrow> iFd c = fd \<and> (\<forall>w. pIoWatcher c = Some w \<longrightarrow> io_data w = conn_shell c)
     \<and> (\<forall>w. pTimeWatcher c = Some w \<longrightarrow> t_data w = conn_shell c)"

text \<open>Every name stands for a living connection, and that connection bears the name.\<close>

definition names_ok :: "'b worker \<Rightarrow> bool" where
  "names_ok W \<longleftrightarrow> m_mapMsgShell W [] = None
     \<and> (\<forall>ident sh. m_mapMsgShell W ident = Some sh \<longrightarrow> (\<exists>c. live W sh = Some c \<and> strIdentify c = ident))"

text \<open>Descriptors marked as internal or as HTTP clients are open.\<close>

definition tables_ok :: "'b worker \<Rightarrow> bool" where
  "tables_ok W \<longleftrightarrow> names_ok W \<and> (\<forall>fd c. m_mapFdAttr W fd = Some c \<longrightarrow> conn_ok fd c)
     \<and> dom (m_mapInnerFd W) \<subseteq> dom (m_mapFdAttr W) \<and> dom (m_mapHttpAttr W) \<subseteq> dom (m_mapFdAttr W)"

lemma live_Some: "live W sh = Some c \<longleftrightarrow> m_mapFdAttr W (sh_fd sh) = Some c \<and> ulSeq c = sh_seq sh"
  by (auto simp: live_def split: option.splits)

text \<open>Changes of a connection that keep its identity.\<close>

definition same_conn :: "tagConnectionAttr \<Rightarrow> tagConnectionAttr \<Rightarrow> bool" where
  "same_conn c c' \<longleftrightarrow> iFd c' = iFd c \<and> ulSeq c' = ulSeq c \<and> strIdentify c' = strIdentify c"

lemma tables_ok_put:
  assumes "tables_ok W" "m_mapFdAttr W fd = Some c" "same_conn c c'" "conn_ok fd c'"
  shows "tables_ok (put_conn W fd c')"
proof -
  have "\<exists>c2. live (put_conn W fd c') sh = Some c2 \<and> strIdentify c2 = ident" if sh: "m_mapMsgShell W ident = Some sh" for ident sh
  proof -
    obtain c1 where "live W sh = Some c1" "strIdentify c1 = ident" using sh assms(1) unfolding tables_ok_def names_ok_def by blast
    then show ?thesis using assms(2,3) by (cases "sh_fd sh = fd") (auto simp: live_Some same_conn_def)
  qed
  then have "names_ok (put_conn W fd c')" using assms(1) by (simp add: tables_ok_def names_ok_def)
  then show ?thesis using assms(1,2,4) by (auto simp: tables_ok_def)
qed

lemma conn_ok_events:
  assumes "conn_ok fd c"
  shows "conn_ok fd (AddIoReadEvent c)" "conn_ok fd (AddIoWriteEvent c)" "conn_ok fd (RemoveIoWriteEvent c)"
    "conn_ok fd (AddIoTimeout W fd (ulSeq c) c t)"
  using assms by (auto simp: conn_ok_def AddIoReadEvent_def AddIoWriteEvent_def RemoveIoWriteEvent_def AddIoTimeout_def conn_shell_def
      split: option.splits)

lemma same_conn_events:
  "same_conn c (AddIoReadEvent c)" "same_conn c (AddIoWriteEvent c)" "same_conn c (RemoveIoWriteEvent c)"
  "same_conn c (AddIoTimeout W fd q c t)"
  by (auto simp: same_conn_def AddIoReadEvent_def AddIoWriteEvent_def RemoveIoWriteEvent_def AddIoTimeout_def split: option.splits)

text \<open>A command for the notice of a closed connection that leaves the tables of the connections alone.\<close>

definition same_tables :: "'b worker \<Rightarrow> 'b worker \<Rightarrow> bool" where
  "same_tables W W' \<longleftrightarrow> m_mapFdAttr W' = m_mapFdAttr W \<and> m_mapMsgShell W' = m_mapMsgShell W
     \<and> m_mapInnerFd W' = m_mapInnerFd W \<and> m_mapHttpAttr W' = m_mapHttpAttr W"

definition quiet_notice :: "'b wenv \<Rightarrow> bool" where
  "quiet_notice E \<longleftrightarrow> (\<forall>pCmd W sh h b W'. e_so E CMD_REQ_DISCONNECT = Some pCmd \<longrightarrow> pCmd W sh h b = Some W' \<longrightarrow> same_tables W W')"

lemma MsgShellNotice_tables:
  assumes "quiet_notice E" "MsgShellNotice E W sh ident b = Some W'"
  shows "same_tables W W'"
proof (cases "e_so E CMD_REQ_DISCONNECT")
  case None then show ?thesis using assms(2) by (simp add: MsgShellNotice_def same_tables_def)
next
  case (Some pCmd)
  then obtain h b where "pCmd (snd (GetSequence W)) sh h b = Some W'"
    using assms(2) by (auto simp: MsgShellNotice_def GetSequence_def Let_def split: bind_splits)
  then have "same_tables (snd (GetSequence W)) W'" using assms(1) Some by (auto simp: quiet_notice_def)
  then show ?thesis by (simp add: same_tables_def GetSequence_def Let_def)
qed

text \<open>What closing does to the tables, when it succeeds.\<close>

lemma DestroyConnect_True:
  assumes "quiet_notice E" "DestroyConnect E W fd n = Some (True, W')"
  shows "\<exists>c. m_mapFdAttr W fd = Some c \<and> m_mapFdAttr W' = (m_mapFdAttr W)(fd := None)
    \<and> m_mapMsgShell W' = m_mapMsgShell (DelMsgShell W (strIdentify c) \<lparr>sh_fd = fd, sh_seq = ulSeq c\<rparr>)
    \<and> m_mapInnerFd W' = (m_mapInnerFd W)(fd := None) \<and> m_mapHttpAttr W' = (m_mapHttpAttr W)(fd := None)"
proof -
  obtain c where c: "m_mapFdAttr W fd = Some c" using assms(2) by (auto simp: DestroyConnect_def split: option.splits)
  let ?W = "DelMsgShell (W\<lparr>w_tick := w_tick W + 1, m_mapInnerFd := (m_mapInnerFd W)(fd := None), m_mapHttpAttr := (m_mapHttpAttr W)(fd := None)\<rparr>)
    (strIdentify c) \<lparr>sh_fd = fd, sh_seq = ulSeq c\<rparr>"
  obtain W1 where W1: "(if n then MsgShellNotice E ?W \<lparr>sh_fd = fd, sh_seq = ulSeq c\<rparr> (strIdentify c) (pClientData c) else Some ?W) = Some W1"
    "W' = W1\<lparr>m_mapFdAttr := (m_mapFdAttr W1)(fd := None)\<rparr>"
    using assms(2) c by (auto simp: DestroyConnect_def Let_def split: option.splits if_splits bind_splits)
  then have "same_tables ?W W1" using MsgShellNotice_tables [OF assms(1)] by (auto simp: same_tables_def split: if_splits)
  then show ?thesis using c W1(2) by (auto simp: same_tables_def DelMsgShell_def split: option.splits if_splits)
qed

lemma DestroyConnect_False:
  "DestroyConnect E W fd n = Some (False, W') \<Longrightarrow> same_tables W W'"
  by (auto simp: DestroyConnect_def same_tables_def Let_def split: option.splits if_splits bind_splits)


lemma tables_ok_same: "same_tables W W' \<Longrightarrow> tables_ok W \<Longrightarrow> tables_ok W'"
  by (simp add: same_tables_def tables_ok_def names_ok_def live_def)

lemma DestroyConnect_tables:
  assumes "quiet_notice E" "DestroyConnect E W fd n = Some (r, W')" "tables_ok W"
  shows "tables_ok W'"
proof (cases r)
  case False then show ?thesis using DestroyConnect_False [of E W fd n W'] assms(2,3) tables_ok_same [of W W'] by simp
next
  case True
  then obtain c where c: "m_mapFdAttr W fd = Some c" and t: "m_mapFdAttr W' = (m_mapFdAttr W)(fd := None)"
      "m_mapMsgShell W' = m_mapMsgShell (DelMsgShell W (strIdentify c) \<lparr>sh_fd = fd, sh_seq = ulSeq c\<rparr>)"
      "m_mapInnerFd W' = (m_mapInnerFd W)(fd := None)" "m_mapHttpAttr W' = (m_mapHttpAttr W)(fd := None)"
    using DestroyConnect_True [OF assms(1), of W fd n W'] assms(2) by auto
  have "\<exists>c1. live W' sh = Some c1 \<and> strIdentify c1 = ident" if sh: "m_mapMsgShell W' ident = Some sh" for ident sh
  proof -
    have old: "m_mapMsgShell W ident = Some sh" "ident = strIdentify c \<Longrightarrow> sh \<noteq> \<lparr>sh_fd = fd, sh_seq = ulSeq c\<rparr>"
      using sh t(2) by (auto simp: DelMsgShell_def split: option.splits if_splits)
    then obtain c1 where c1: "live W sh = Some c1" "strIdentify c1 = ident" using assms(3) unfolding tables_ok_def names_ok_def by blast
    then have "sh_fd sh \<noteq> fd" using c old(2) by (auto simp: live_Some)
    then show ?thesis using c1 t(1) by (simp add: live_Some)
  qed
  moreover have "m_mapMsgShell W' [] = None" using assms(3) t(2) by (auto simp: DelMsgShell_def tables_ok_def names_ok_def split: option.splits)
  ultimately show ?thesis using assms(3) t by (auto simp: tables_ok_def names_ok_def)
qed

lemma AddMsgShell_eq:
  assumes "live W sh = Some c" "sh_fd sh \<noteq> 0" "ident \<noteq> []"
  shows "AddMsgShell W ident sh
    = put_conn (W\<lparr>m_mapMsgShell := (m_mapMsgShell W)(ident \<mapsto> sh)\<rparr>) (sh_fd sh) (c\<lparr>strIdentify := ident\<rparr>)"
proof -
  have "(case m_mapMsgShell W ident of None \<Rightarrow> W\<lparr>m_mapMsgShell := (m_mapMsgShell W)(ident \<mapsto> sh)\<rparr>
        | Some old \<Rightarrow> if sh_fd sh \<noteq> sh_fd old \<or> sh_seq sh \<noteq> sh_seq old then W\<lparr>m_mapMsgShell := (m_mapMsgShell W)(ident \<mapsto> sh)\<rparr> else W)
      = W\<lparr>m_mapMsgShell := (m_mapMsgShell W)(ident \<mapsto> sh)\<rparr>"
    by (auto split: option.splits simp: fun_upd_idem)
  then show ?thesis using assms by (simp add: AddMsgShell_def SetConnectIdentify_def live_Some)
qed

lemma AddMsgShell_tables:
  assumes "tables_ok W" "live W sh = Some c" "sh_fd sh \<noteq> 0" "ident \<noteq> []" "strIdentify c = [] \<or> strIdentify c = ident"
  shows "tables_ok (AddMsgShell W ident sh)"
proof -
  let ?W = "AddMsgShell W ident sh"
  note eq = AddMsgShell_eq [OF assms(2-4)]
  have "\<exists>c1. live ?W sh1 = Some c1 \<and> strIdentify c1 = id1" if sh1: "m_mapMsgShell ?W id1 = Some sh1" for id1 sh1
  proof (cases "id1 = ident")
    case True
    then have "sh1 = sh" using sh1 by (simp add: eq)
    moreover have "live ?W sh = Some (c\<lparr>strIdentify := ident\<rparr>)" using assms(2) by (simp add: eq live_Some)
    ultimately show ?thesis using True by simp
  next
    case False
    then have old: "m_mapMsgShell W id1 = Some sh1" using sh1 by (simp add: eq)
    then obtain c1 where c1: "live W sh1 = Some c1" "strIdentify c1 = id1" using assms(1) unfolding tables_ok_def names_ok_def by blast
    have "id1 \<noteq> []" using old assms(1) by (auto simp: tables_ok_def names_ok_def)
    then have "sh_fd sh1 \<noteq> sh_fd sh" using c1 assms(2,5) False by (auto simp: live_Some)
    then show ?thesis using c1 by (simp add: eq live_Some)
  qed
  moreover have "conn_ok (sh_fd sh) (c\<lparr>strIdentify := ident\<rparr>)"
    using assms(1,2) by (auto simp: tables_ok_def live_Some conn_ok_def conn_shell_def)
  ultimately show ?thesis using assms(1,4) by (auto simp: tables_ok_def names_ok_def eq)
qed

lemma AbandonConnect_tables:
  assumes "tables_ok W" "AbandonConnect W ident = (r, W')"
  shows "tables_ok W'"
proof (cases r)
  case False then show ?thesis using assms by (auto simp: AbandonConnect_def split: option.splits if_splits)
next
  case True
  then obtain sh c where sh: "m_mapMsgShell W ident = Some sh" "live W sh = Some c"
    and W': "W' = (put_conn W (sh_fd sh) (c\<lparr>strIdentify := [], pClientData := Clear (pClientData c)\<rparr>))
       \<lparr>m_mapMsgShell := (m_mapMsgShell W)(ident := None)\<rparr>"
    using assms(2) by (auto simp: AbandonConnect_def live_Some split: option.splits if_splits)
  have id: "strIdentify c = ident" using sh assms(1) unfolding tables_ok_def names_ok_def by force
  have "\<exists>c1. live W' sh1 = Some c1 \<and> strIdentify c1 = id1" if "m_mapMsgShell W' id1 = Some sh1" for id1 sh1
  proof -
    have old: "m_mapMsgShell W id1 = Some sh1" "id1 \<noteq> ident" using that by (auto simp: W' split: if_splits)
    then obtain c1 where c1: "live W sh1 = Some c1" "strIdentify c1 = id1" using assms(1) unfolding tables_ok_def names_ok_def by blast
    then have "sh_fd sh1 \<noteq> sh_fd sh" using sh(2) id old(2) by (auto simp: live_Some)
    then show ?thesis using c1 by (simp add: W' live_Some)
  qed
  moreover have "conn_ok (sh_fd sh) (c\<lparr>strIdentify := [], pClientData := Clear (pClientData c)\<rparr>)"
    using assms(1) sh by (auto simp: tables_ok_def live_Some conn_ok_def conn_shell_def)
  ultimately show ?thesis using assms(1) sh(2) by (auto simp: tables_ok_def names_ok_def W' live_Some)
qed


subsection \<open>Runs of the connection operations\<close>

text \<open>
  A run registers a connection under a name only if it does not already bear another one (\<open>renamed_connection_stale\<close>
  shows why); the other operations come in any order.
\<close>

inductive conn_step :: "'b wenv \<Rightarrow> 'b worker \<Rightarrow> 'b worker \<Rightarrow> bool" for E where
  Create: "GetSequence W = (seq, W1) \<Longrightarrow> CreateFdAttr W1 fd seq codec = (r, W') \<Longrightarrow> conn_step E W W'"
| Register: "live W sh = Some c \<Longrightarrow> sh_fd sh \<noteq> 0 \<Longrightarrow> ident \<noteq> [] \<Longrightarrow> strIdentify c = [] \<or> strIdentify c = ident \<Longrightarrow>
    conn_step E W (AddMsgShell W ident sh)"
| Inner: "live W sh = Some c \<Longrightarrow> conn_step E W (AddInnerFd W sh)"
| Http: "live W sh = Some c \<Longrightarrow> conn_step E W (mark_http (sh_fd sh) pHttpStep W)"
| Watch: "m_mapFdAttr W fd = Some c \<Longrightarrow>
    c' \<in> {AddIoReadEvent c, AddIoWriteEvent c, RemoveIoWriteEvent c, AddIoTimeout W fd (ulSeq c) c t} \<Longrightarrow> conn_step E W (put_conn W fd c')"
| Close: "Disconnect E W sh n = Some (r, W') \<Longrightarrow> conn_step E W W'"
| CloseName: "Disconnect_name E W ident n = Some (r, W') \<Longrightarrow> conn_step E W W'"
| Abandon: "AbandonConnect W ident = (r, W') \<Longrightarrow> conn_step E W W'"
| ClientData: "SetClientData E W sh b = Some (r, W', b') \<Longrightarrow> conn_step E W W'"

lemma conn_step_tables:
  assumes "conn_step E W W'" "quiet_notice E" "tables_ok W"
  shows "tables_ok W'"
  using assms
proof (induction rule: conn_step.induct)
  case (Create W seq W1 fd codec r W')
  have same: "same_tables W W1" using Create.hyps(1) by (auto simp: GetSequence_def Let_def same_tables_def)
  then have t: "tables_ok W1" using Create.prems tables_ok_same by blast
  show ?case
  proof (cases "m_mapFdAttr W1 fd")
    case None
    then have W': "W' = put_conn W1 fd (new_conn fd seq codec (w_now W1))" using Create.hyps(2) by (simp add: CreateFdAttr_def)
    have "\<exists>c1. live W' sh = Some c1 \<and> strIdentify c1 = ident" if sh: "m_mapMsgShell W1 ident = Some sh" for ident sh
    proof -
      obtain c1 where "live W1 sh = Some c1" "strIdentify c1 = ident" using sh t unfolding tables_ok_def names_ok_def by blast
      then show ?thesis using None by (cases "sh_fd sh = fd") (auto simp: live_Some W')
    qed
    then have "names_ok W'" using t by (simp add: tables_ok_def names_ok_def W')
    then show ?thesis using t by (auto simp: tables_ok_def W' conn_ok_def new_conn_def)
  qed (use t Create.hyps(2) in \<open>simp add: CreateFdAttr_def\<close>)
next
  case (Register W sh c ident)
  then show ?case using AddMsgShell_tables by blast
next
  case (Inner W sh c)
  then show ?case by (auto simp: tables_ok_def names_ok_def live_def AddInnerFd_def split: option.splits)
next
  case (Http W sh c pHttpStep)
  then show ?case by (auto simp: tables_ok_def names_ok_def live_def mark_http_def Let_def split: option.splits)
next
  case (Watch W fd c c' t)
  have "conn_ok fd c" using Watch by (simp add: tables_ok_def)
  then have "same_conn c c'" "conn_ok fd c'" using Watch.hyps(2) conn_ok_events [of fd c] same_conn_events [of c] by auto
  then show ?case using tables_ok_put Watch by blast
next
  case (Close W sh n r W')
  then show ?case using DestroyConnect_tables by (fastforce simp: Disconnect_def split: option.splits if_splits)
next
  case (CloseName W ident n r W')
  then show ?case using DestroyConnect_tables by (fastforce simp: Disconnect_name_def Disconnect_def split: option.splits if_splits)
next
  case (Abandon W ident r W')
  then show ?case using AbandonConnect_tables by blast
next
  case (ClientData W sh b r W' b')
  show ?case
  proof (cases "live W sh")
    case (Some c)
    then obtain d where W': "W' = put_conn W (sh_fd sh) (c\<lparr>pClientData := d\<rparr>)" using ClientData.hyps
      by (auto simp: SetClientData_def split: bind_splits)
    have "same_conn c (c\<lparr>pClientData := d\<rparr>)" "conn_ok (sh_fd sh) (c\<lparr>pClientData := d\<rparr>)"
      using ClientData.prems(2) Some by (auto simp: same_conn_def tables_ok_def live_Some conn_ok_def conn_shell_def)
    then show ?thesis using tables_ok_put [OF ClientData.prems(2)] Some unfolding W' live_Some by blast
  qed (use ClientData in \<open>simp add: SetClientData_def\<close>)
qed


definition empty_worker :: "'b worker" where
  "empty_worker =
     \<lparr>m_ulSequence = 0, m_mapFdAttr = Map.empty, m_mapInnerFd = Map.empty, m_mapHttpAttr = Map.empty, m_mapMsgShell = Map.empty,
      m_mapSeq2WorkerIndex = Map.empty, m_mapIdentifyNodeType = Map.empty, m_mapNodeIdentify = Map.empty,
      m_mapChannelConHash = (\<lambda>_. ChannelConHash_new), m_mapCallbackStep = Map.empty, step_heap = Map.empty,
      m_mapCallbackSession = Map.empty, session_heap = Map.empty, next_addr = 0, m_dIoTimeout = 300, m_dStepTimeout = 1 / 2,
      m_iRecvNum = 0, m_iRecvByte = 0, m_iSendNum = 0, m_iSendByte = 0, w_now = 0, w_time = 0, w_tick = 0, wire = (\<lambda>_. [])\<rparr>"

lemma conn_reach_tables:
  "(conn_step E)\<^sup>*\<^sup>* W W' \<Longrightarrow> quiet_notice E \<Longrightarrow> tables_ok W \<Longrightarrow> tables_ok W'"
  by (induction rule: rtranclp_induct) (blast intro: conn_step_tables)+

lemma tables_ok_empty: "tables_ok empty_worker"
  by (simp add: tables_ok_def names_ok_def empty_worker_def)

text \<open>
  C9. The tables of a worker stay consistent, as long as every connection keeps the name it was first registered with, names are not empty,
  no connection with descriptor 0 is named, and the command for disconnect notices, if one is loaded, leaves the tables alone: in every
  state that the operations on connections lead to, in any order,
  a name is looked up to a living connection that bears the name, the watchers of a connection carry its
  descriptor and sequence number, and only open descriptors are marked as internal or as HTTP clients.
\<close>

theorem connection_tables_consistent:
  assumes "(conn_step E)\<^sup>*\<^sup>* empty_worker W" "quiet_notice E"
  shows "(GetMsgShell W ident = Some sh \<longrightarrow> (\<exists>c. live W sh = Some c \<and> strIdentify c = ident))
    \<and> (m_mapFdAttr W fd = Some c \<longrightarrow> conn_ok fd c)
    \<and> dom (m_mapInnerFd W) \<union> dom (m_mapHttpAttr W) \<subseteq> dom (m_mapFdAttr W)"
  using conn_reach_tables [OF assms tables_ok_empty] unfolding tables_ok_def names_ok_def GetMsgShell_def by blast

text \<open>An environment for examples: no loaded commands, every system call succeeds.\<close>

definition sample_env :: "byte list wenv" where
  "sample_env = \<lparr>e_hp = (\<lambda>_. True, \<lambda>_. 0), e_pb = sample_pb, e_body = id, e_set_additional = (\<lambda>_ b. b),
     e_connect_worker = (\<lambda>i. [word_of_int i]), e_target_ser = (\<lambda>_. []), e_target_parse = (\<lambda>_. None), e_response_parse = (\<lambda>_. None), e_response_ser = (\<lambda>_ _. []),
     e_http_parse = (\<lambda>_. None),
     e_codec = (\<lambda>t. if t = CODEC_PROTOBUF
       then Some \<lparr>c_enc = ProtoCodec_Encode sample_pb (\<lambda>_. True, \<lambda>_. 0), c_dec = ProtoCodec_Decode_conn sample_pb []\<rparr> else None),
     e_http_enc = (\<lambda>_ b. Some (CODEC_STATUS_ERR, b)), e_cmd = (\<lambda>_. None), e_so = (\<lambda>_. None), e_admin = (\<lambda>_. None), e_module = (\<lambda>_. None),
     e_send = (\<lambda>_ _ bs. Inl (length bs)), e_close = (\<lambda>_ _. 0), e_socket = (\<lambda>_. 7), e_identify = ''10.0.0.1:9000.0'', e_node_type = ''LOGIC'',
     e_emit = (\<lambda>_ W _. Some (STATUS_CMD_RUNNING, W)), e_callback = (\<lambda>_ W _ _ _ _. Some (STATUS_CMD_COMPLETED, W)),
     e_timeout = (\<lambda>_ W _. Some (STATUS_CMD_FAULT, W)), e_http_callback = (\<lambda>_ W _ _ _. Some (STATUS_CMD_COMPLETED, W)),
     e_session_timeout = (\<lambda>W _. Some (STATUS_CMD_FAULT, W)), e_control_fd = 3, e_data_fd = 4\<rparr>"

definition one_conn :: "byte list worker" where
  "one_conn = snd (CreateFdAttr (snd (GetSequence empty_worker)) 5 1 CODEC_PROTOBUF)"

lemma one_conn_eq:
  "one_conn = put_conn (empty_worker\<lparr>m_ulSequence := 1\<rparr>) 5 (new_conn 5 1 CODEC_PROTOBUF 0)"
  by (simp add: one_conn_def CreateFdAttr_def GetSequence_def Let_def empty_worker_def)

lemma one_conn_live: "live one_conn \<lparr>sh_fd = 5, sh_seq = 1\<rparr> = Some (new_conn 5 1 CODEC_PROTOBUF 0)"
  by (simp add: one_conn_eq live_Some) (simp add: new_conn_def)

lemma one_conn_reach: "(conn_step sample_env)\<^sup>*\<^sup>* empty_worker one_conn"
proof -
  have "conn_step sample_env empty_worker one_conn"
    by (rule conn_step.Create [of empty_worker 1 "snd (GetSequence empty_worker)" 5 CODEC_PROTOBUF True])
      (simp_all add: GetSequence_def empty_worker_def one_conn_def CreateFdAttr_def)
  then show ?thesis by blast
qed

theorem connection_tables_consistent_witness:
  "(\<exists>c. live (mark_http 5 (Some 8) (AddMsgShell one_conn ''peer'' \<lparr>sh_fd = 5, sh_seq = 1\<rparr>)) \<lparr>sh_fd = 5, sh_seq = 1\<rparr> = Some c \<and> strIdentify c = ''peer'')
    \<and> m_mapFdAttr (mark_http 5 (Some 8) (AddMsgShell one_conn ''peer'' \<lparr>sh_fd = 5, sh_seq = 1\<rparr>)) 5 \<noteq> None"
proof -
  let ?sh = "\<lparr>sh_fd = 5, sh_seq = 1\<rparr>" let ?W = "AddMsgShell one_conn ''peer'' ?sh" let ?V = "mark_http 5 (Some 8) ?W"
  have "conn_step sample_env one_conn ?W"
    by (rule conn_step.Register [OF one_conn_live]) (simp_all add: new_conn_def)
  moreover have "\<exists>c. live ?W ?sh = Some c" using one_conn_live by (simp add: AddMsgShell_eq [OF one_conn_live] live_Some)
  then have "conn_step sample_env ?W ?V" using conn_step.Http [where sh = ?sh] by fastforce
  ultimately have "(conn_step sample_env)\<^sup>*\<^sup>* empty_worker ?V"
    using one_conn_reach by (meson rtranclp.rtrancl_into_rtrancl)
  moreover have "quiet_notice sample_env" by (simp add: quiet_notice_def sample_env_def)
  moreover have "GetMsgShell ?V ''peer'' = Some ?sh" "5 \<in> dom (m_mapHttpAttr ?V)"
    by (simp_all add: AddMsgShell_eq [OF one_conn_live] GetMsgShell_def mark_http_def)
  ultimately show ?thesis using connection_tables_consistent [of sample_env ?V "''peer''" ?sh] by blast
qed

text \<open>
  A connection that is registered under a second name leaves its first name behind: when the connection is
  closed, the first name still leads to the descriptor, which is closed.
\<close>

theorem renamed_connection_stale:
  assumes "live W sh = Some c" "sh_fd sh \<noteq> 0" "a \<noteq> []" "b \<noteq> []" "a \<noteq> b" "quiet_notice E"
    and "DestroyConnect E (AddMsgShell (AddMsgShell W a sh) b sh) (sh_fd sh) n = Some (True, W')"
  shows "GetMsgShell W' a = Some sh \<and> live W' sh = None"
proof -
  let ?W = "AddMsgShell W a sh"
  have W: "live ?W sh = Some (c\<lparr>strIdentify := a\<rparr>)" "m_mapMsgShell ?W a = Some sh"
    using assms(1) by (simp_all add: AddMsgShell_eq [OF assms(1-3)] live_Some)
  then have W2: "m_mapFdAttr (AddMsgShell ?W b sh) (sh_fd sh) = Some (c\<lparr>strIdentify := b\<rparr>)" "m_mapMsgShell (AddMsgShell ?W b sh) a = Some sh"
    using assms(5) by (simp_all add: AddMsgShell_eq [OF W(1) assms(2,4)])
  then have "m_mapMsgShell W' a = Some sh" "m_mapFdAttr W' (sh_fd sh) = None"
    using DestroyConnect_True [OF assms(6,7)] assms(5) by (auto simp: DelMsgShell_def split: option.splits)
  then show ?thesis by (simp add: GetMsgShell_def live_def)
qed

theorem renamed_connection_stale_witness:
  "\<exists>W'. DestroyConnect sample_env (AddMsgShell (AddMsgShell one_conn ''a'' \<lparr>sh_fd = 5, sh_seq = 1\<rparr>) ''b'' \<lparr>sh_fd = 5, sh_seq = 1\<rparr>) 5 True = Some (True, W')
    \<and> GetMsgShell W' ''a'' = Some \<lparr>sh_fd = 5, sh_seq = 1\<rparr> \<and> live W' \<lparr>sh_fd = 5, sh_seq = 1\<rparr> = None"
proof -
  let ?sh = "\<lparr>sh_fd = 5, sh_seq = 1\<rparr>" let ?W = "AddMsgShell (AddMsgShell one_conn ''a'' ?sh) ''b'' ?sh"
  have "m_mapFdAttr ?W 5 = Some ((new_conn 5 1 CODEC_PROTOBUF 0)\<lparr>strIdentify := ''b''\<rparr>)"
    by (simp add: AddMsgShell_def SetConnectIdentify_def one_conn_eq) (simp add: empty_worker_def new_conn_def)
  then have "\<exists>W'. DestroyConnect sample_env ?W 5 True = Some (True, W')"
    by (auto simp: DestroyConnect_def MsgShellNotice_def sample_env_def Let_def DelMsgShell_def split: option.splits)
  moreover have "quiet_notice sample_env" by (simp add: quiet_notice_def sample_env_def)
  ultimately show ?thesis using renamed_connection_stale [OF one_conn_live, of "''a''" "''b''" sample_env True] by auto
qed

end
