(* ===== verification/WorkerSend.thy ===== *)
theory WorkerSend
  imports WorkerConn "HOL-Library.List_Lexorder" "HOL-Library.Char_ord"
begin

text \<open>
  Sending: \<open>Worker::SendTo\<close> in its two forms for connections, the writable event \<open>Worker::IoWrite\<close> and
  \<open>Worker::IoError\<close>, and the routing of a message to a name or to a node of a type (\<open>AddNodeIdentify\<close>,
  \<open>SendToNext\<close>, \<open>SendToWithMod\<close>, \<open>SendToConHash\<close>, \<open>SendToNodeType\<close>).

  While the handshake of an internal connection runs, messages are collected in \<open>pWaitForSendBuff\<close>.
\<close>

subsection \<open>Writing to the descriptor\<close>

text \<open>
  \<open>pSendBuff->WriteFD\<close> followed by \<open>Compact\<close>: the result, \<open>errno\<close>, the connection and the state, in which
  \<open>wire\<close> has what the kernel has taken.
\<close>

definition write_fd :: "'b wenv \<Rightarrow> 'b worker \<Rightarrow> int \<Rightarrow> tagConnectionAttr \<Rightarrow> (int \<times> int \<times> tagConnectionAttr \<times> 'b worker) option" where
  "write_fd E W fd pConn = do {
     (iWriteLen, iErrno, b) \<leftarrow> WriteFD (pSendBuff pConn) (e_send E (w_tick W) fd) 0;
     (_, b) \<leftarrow> Compact (e_hp E) b 8192;
     let sent = take (nat iWriteLen) (cb_data (pSendBuff pConn));
     Some (iWriteLen, iErrno, pConn\<lparr>pSendBuff := b\<rparr>,
       W\<lparr>w_tick := w_tick W + 1, wire := (wire W)(ulSeq pConn := wire W (ulSeq pConn) @ sent)\<rparr>)
   }"

text \<open>
  What follows the write; \<open>bEintr\<close> tells whether the write event is also watched after an interrupted call.
  The result is whether the connection has survived.
\<close>

definition after_write :: "'b wenv \<Rightarrow> 'b worker \<Rightarrow> int \<Rightarrow> tagConnectionAttr \<Rightarrow> int \<Rightarrow> int \<Rightarrow> int \<Rightarrow> bool \<Rightarrow> (bool \<times> 'b worker) option" where
  "after_write E W fd pConn iNeedWriteLen iWriteLen iErrno bEintr =
     (if iWriteLen < 0 then
        if iErrno \<noteq> c_EAGAIN \<and> iErrno \<noteq> c_EINTR then
          map_option (\<lambda>r. (False, snd r)) (DestroyConnect E (put_conn W fd pConn) fd True)
        else if iErrno = c_EAGAIN \<or> bEintr then
          Some (True, put_conn W fd (AddIoWriteEvent (pConn\<lparr>dActiveTime := w_now W\<rparr>)))
        else Some (True, put_conn W fd pConn)
      else if iWriteLen > 0 then
        let W = W\<lparr>m_iSendByte := m_iSendByte W + word_of_int iWriteLen\<rparr>; pConn = pConn\<lparr>dActiveTime := w_now W\<rparr> in
        Some (True, put_conn W fd (if iWriteLen = iNeedWriteLen then RemoveIoWriteEvent pConn else AddIoWriteEvent pConn))
      else Some (True, put_conn W fd pConn))"

subsection \<open>SendTo\<close>

text \<open>\<open>SendTo(stMsgShell)\<close>: what has waited for the connection is appended to \<open>pSendBuff\<close> and sent.\<close>

definition SendTo_waiting :: "'b wenv \<Rightarrow> 'b worker \<Rightarrow> tagMsgShell \<Rightarrow> (bool \<times> 'b worker) option" where
  "SendTo_waiting E W stMsgShell =
     (case m_mapFdAttr W (sh_fd stMsgShell) of
        None \<Rightarrow> Some (False, W)
      | Some pConn \<Rightarrow>
          if ulSeq pConn = sh_seq stMsgShell \<and> iFd pConn = sh_fd stMsgShell then do {
            let iNeedWriteLen = to_int32 (ReadableBytes (pWaitForSendBuff pConn));
            let iWriteIdx = to_int32 (m_write_idx (pSendBuff pConn));
            (iWriteLen, sb, wb) \<leftarrow> WriteFrom (e_hp E) (pSendBuff pConn) (pWaitForSendBuff pConn) (ReadableBytes (pWaitForSendBuff pConn));
            let pConn = pConn\<lparr>pSendBuff := sb, pWaitForSendBuff := wb\<rparr>;
            if iWriteLen = iNeedWriteLen then do {
              (iWriteLen, iErrno, pConn', W) \<leftarrow> write_fd E W (sh_fd stMsgShell) pConn;
              after_write E W (sh_fd stMsgShell) pConn' (to_int32 (ReadableBytes sb)) iWriteLen iErrno False
            }
            else Some (False, put_conn W (sh_fd stMsgShell) (pConn\<lparr>pSendBuff := SetWriteIndex sb (size_add_int 0 iWriteIdx)\<rparr>))
          }
          else Some (False, W))"

definition status_after_send :: "tagConnectionAttr \<Rightarrow> msg_head \<Rightarrow> connect_status" where
  "status_after_send pConn oMsgHead =
     (if eCodecType pConn = CODEC_PROTOBUF \<and> ucConnectStatus pConn \<noteq> eConnectStatus_ok then
        if field (h_cmd oMsgHead) = CMD_RSP_TELL_WORKER then eConnectStatus_ok else eConnectStatus_connecting
      else ucConnectStatus pConn)"

definition SendTo :: "'b wenv \<Rightarrow> 'b worker \<Rightarrow> tagMsgShell \<Rightarrow> msg_head \<Rightarrow> 'b \<Rightarrow> (bool \<times> 'b worker) option" where
  "SendTo E W stMsgShell oMsgHead oMsgBody =
     (case m_mapFdAttr W (sh_fd stMsgShell) of
        None \<Rightarrow> Some (False, W)
      | Some pConn \<Rightarrow>
          if ulSeq pConn = sh_seq stMsgShell \<and> iFd pConn = sh_fd stMsgShell then
            case e_codec E (eCodecType pConn) of
              None \<Rightarrow> map_option (\<lambda>r. (False, snd r)) (DestroyConnect E W (sh_fd stMsgShell) True)
            | Some codec \<Rightarrow>
                if eCodecType pConn = CODEC_PROTOBUF \<and> ucConnectStatus pConn \<noteq> eConnectStatus_ok
                   \<and> field (h_cmd oMsgHead) > CMD_RSP_TELL_WORKER then do {
                  (eCodecStatus, b) \<leftarrow> c_enc codec oMsgHead oMsgBody (pWaitForSendBuff pConn);
                  Some (eCodecStatus = CODEC_STATUS_OK, put_conn W (sh_fd stMsgShell) (pConn\<lparr>pWaitForSendBuff := b\<rparr>))
                }
                else do {
                  (eCodecStatus, b) \<leftarrow> c_enc codec oMsgHead oMsgBody (pSendBuff pConn);
                  let pConn = pConn\<lparr>pSendBuff := b, ucConnectStatus := status_after_send pConn oMsgHead\<rparr>;
                  if eCodecStatus = CODEC_STATUS_OK then do {
                    let W = W\<lparr>m_iSendNum := m_iSendNum W + 1\<rparr>;
                    (iWriteLen, iErrno, pConn, W) \<leftarrow> write_fd E W (sh_fd stMsgShell) pConn;
                    after_write E W (sh_fd stMsgShell) pConn (to_int32 (ReadableBytes b)) iWriteLen iErrno True
                  }
                  else Some (False, put_conn W (sh_fd stMsgShell) pConn)
                }
          else Some (False, W))"


subsection \<open>Connecting to a name\<close>

text \<open>\<open>std::string::find\<close> and \<open>rfind\<close> of a character, as the \<open>int\<close> the code keeps (\<open>npos\<close> becomes -1).\<close>

definition str_find :: "char \<Rightarrow> string \<Rightarrow> int" where
  "str_find c s = (if c \<in> set s then int (length (takeWhile (\<lambda>x. x \<noteq> c) s)) else -1)"

definition str_rfind :: "char \<Rightarrow> string \<Rightarrow> int" where
  "str_rfind c s = (if c \<in> set s then int (length s) - 1 - int (length (takeWhile (\<lambda>x. x \<noteq> c) (rev s))) else -1)"

text \<open>\<open>substr(pos, len)\<close> with an \<open>int\<close> length: a negative one becomes a huge \<open>size_t\<close>.\<close>

definition str_substr :: "string \<Rightarrow> int \<Rightarrow> int \<Rightarrow> string" where
  "str_substr s pos len = (if len < 0 then drop (nat pos) s else take (nat len) (drop (nat pos) s))"

definition is_digit :: "char \<Rightarrow> bool" where
  "is_digit c \<longleftrightarrow> 48 \<le> (of_char c :: nat) \<and> (of_char c :: nat) \<le> 57"

definition digits_int :: "string \<Rightarrow> int" where
  "digits_int s = foldl (\<lambda>n c. 10 * n + (of_char c - 48)) 0 (takeWhile is_digit s)"

text \<open>\<open>atoi\<close>; a value outside \<open>int\<close> is undefined.\<close>

definition atoi :: "string \<Rightarrow> int option" where
  "atoi s =
     (let s = dropWhile (\<lambda>c. c = CHR '' '' \<or> 9 \<le> (of_char c :: nat) \<and> (of_char c :: nat) \<le> 13) s;
          n = (case s of
                 [] \<Rightarrow> 0
               | c # cs \<Rightarrow> if c = CHR ''-'' then - digits_int cs else if c = CHR ''+'' then digits_int cs else digits_int s)
      in if - (2 ^ 31) \<le> n \<and> n < 2 ^ 31 then Some n else None)"

text \<open>
  \<open>snprintf(pRemoteAddr, 32, s)\<close> uses \<open>s\<close> as the format: with a percent sign it would read arguments that are not there.
\<close>

definition remote_addr :: "string \<Rightarrow> string option" where
  "remote_addr s = (if CHR 0x25 \<in> set s then None else Some (take 31 s))"

text \<open>
  \<open>AutoSend\<close>: the descriptor is what \<open>socket\<close> returns; the options that are set on it and the result of
  \<open>connect\<close>, which the code ignores, have no effect on the state.  The fraction is the timeout of 1.5 seconds.
\<close>

definition AutoSend :: "'b wenv \<Rightarrow> 'b worker \<Rightarrow> string \<Rightarrow> msg_head \<Rightarrow> 'b \<Rightarrow> (bool \<times> 'b worker) option" where
  "AutoSend E W ident oMsgHead oMsgBody =
     (let iPosIpPortSeparator = str_find (CHR '':'') ident; iPosPortWorkerIndexSeparator = str_rfind (CHR ''.'') ident in
      if iPosIpPortSeparator = -1 then Some (False, W)
      else do {
        let strPort = str_substr ident (iPosIpPortSeparator + 1) (iPosPortWorkerIndexSeparator - (iPosIpPortSeparator + 1));
        let strWorkerIndex = drop (nat (iPosPortWorkerIndexSeparator + 1)) ident;
        iPort \<leftarrow> atoi strPort;
        if iPort = 0 then Some (False, W)
        else do {
          iWorkerIndex \<leftarrow> atoi strWorkerIndex;
          if iWorkerIndex > 200 then Some (False, W)
          else do {
            let fd = e_socket E (w_tick W);
            let W = W\<lparr>w_tick := w_tick W + 1\<rparr>;
            if fd = -1 then Some (False, W)
            else do {
              let (seq, W) = GetSequence W;
              let (created, W) = CreateFdAttr W fd seq CODEC_PROTOBUF;
              if \<not> created then Some (False, W\<lparr>w_tick := w_tick W + 1\<rparr>)
              else do {
                addr \<leftarrow> remote_addr ident;
                let pConn = (new_conn fd seq CODEC_PROTOBUF (w_now W))\<lparr>pRemoteAddr := addr\<rparr>;
                let pConn = AddIoWriteEvent (AddIoReadEvent ((AddIoTimeout W fd seq pConn (3 / 2))\<lparr>ucConnectStatus := eConnectStatus_init\<rparr>));
                let W = put_conn W fd pConn;
                (case e_codec E (eCodecType pConn) of
                   None \<Rightarrow> map_option (\<lambda>r. (False, snd r)) (DestroyConnect E W fd True)
                 | Some codec \<Rightarrow> do {
                     (eCodecStatus, b) \<leftarrow> c_enc codec oMsgHead oMsgBody (pWaitForSendBuff pConn);
                     let W = put_conn W fd (pConn\<lparr>pWaitForSendBuff := b\<rparr>);
                     if eCodecStatus \<noteq> CODEC_STATUS_OK then Some (False, W)
                     else do {
                       let W = W\<lparr>m_iSendNum := m_iSendNum W + 1,
                         m_mapSeq2WorkerIndex := (case m_mapSeq2WorkerIndex W seq of
                            None \<Rightarrow> (m_mapSeq2WorkerIndex W)(seq \<mapsto> iWorkerIndex) | Some _ \<Rightarrow> m_mapSeq2WorkerIndex W)\<rparr>;
                       Some (True, AddMsgShell W ident \<lparr>sh_fd = fd, sh_seq = seq\<rparr>)
                     }
                   })
              }
            }
          }
        }
      })"

definition SendTo_name :: "'b wenv \<Rightarrow> 'b worker \<Rightarrow> string \<Rightarrow> msg_head \<Rightarrow> 'b \<Rightarrow> (bool \<times> 'b worker) option" where
  "SendTo_name E W ident oMsgHead oMsgBody =
     (case m_mapMsgShell W ident of
        None \<Rightarrow> AutoSend E W ident oMsgHead oMsgBody
      | Some sh \<Rightarrow> SendTo E W sh oMsgHead oMsgBody)"

subsection \<open>Nodes by type\<close>

text \<open>
  \<open>m_mapNodeIdentify\<close> holds, for a type, the set of names and an iterator into it.  The set is a sorted list
  without duplicates and the iterator an index, the length of the list being \<open>end()\<close>; every change of a
  set resets the iterator to \<open>begin()\<close>.
\<close>

definition set_insert :: "'a::linorder \<Rightarrow> 'a list \<Rightarrow> 'a list" where
  "set_insert x xs = (if x \<in> set xs then xs else insort x xs)"

definition AddNodeIdentify :: "'b worker \<Rightarrow> string \<Rightarrow> string \<Rightarrow> 'b worker option" where
  "AddNodeIdentify W strNodeType ident =
     (let W1 = (case m_mapIdentifyNodeType W ident of
                  Some _ \<Rightarrow> W
                | None \<Rightarrow>
                    W\<lparr>m_mapIdentifyNodeType := (m_mapIdentifyNodeType W)(ident \<mapsto> strNodeType),
                      m_mapNodeIdentify := (m_mapNodeIdentify W)(strNodeType \<mapsto>
                        (case m_mapNodeIdentify W strNodeType of
                           None \<Rightarrow> (0, [ident])
                         | Some (i, ids) \<Rightarrow> if ident \<in> set ids then (i, ids) else (0, insort ident ids)))\<rparr>);
          iPosIpPortSeparator = str_find (CHR '':'') ident in
      if iPosIpPortSeparator = -1 then Some W1
      else do {
        iPort \<leftarrow> atoi (drop (nat (iPosIpPortSeparator + 1)) ident);
        if iPort = 0 then Some W1
        else Some (W1\<lparr>m_mapChannelConHash := (m_mapChannelConHash W1)(strNodeType :=
          snd (addNode (m_mapChannelConHash W1 strNodeType)
            \<lparr>entry_identify = ident, entry_ip = take (nat iPosIpPortSeparator) ident, entry_port = iPort, dwInuse = 0\<rparr>))\<rparr>)
      })"

definition DelNodeIdentify :: "'b worker \<Rightarrow> string \<Rightarrow> string \<Rightarrow> 'b worker" where
  "DelNodeIdentify W strNodeType ident =
     (let W1 = (case m_mapIdentifyNodeType W ident of
                  None \<Rightarrow> W
                | Some t \<Rightarrow>
                    W\<lparr>m_mapIdentifyNodeType := (m_mapIdentifyNodeType W)(ident := None),
                      m_mapNodeIdentify :=
                        (case m_mapNodeIdentify W t of
                           None \<Rightarrow> m_mapNodeIdentify W
                         | Some (i, ids) \<Rightarrow>
                             (m_mapNodeIdentify W)(t \<mapsto> (if ident \<in> set ids then (0, remove1 ident ids) else (i, ids))))\<rparr>)
      in W1\<lparr>m_mapChannelConHash := (m_mapChannelConHash W1)(strNodeType := snd (removeNode (m_mapChannelConHash W1 strNodeType) ident))\<rparr>)"

definition GetNodeIdentifys :: "'b worker \<Rightarrow> string \<Rightarrow> string list" where
  "GetNodeIdentifys W strNodeType = (case m_mapNodeIdentify W strNodeType of None \<Rightarrow> [] | Some p \<Rightarrow> snd p)"

text \<open>The name that \<open>SendToNext\<close> chooses, with the advanced iterator.\<close>

definition next_node :: "'b worker \<Rightarrow> string \<Rightarrow> (string \<times> 'b worker) option" where
  "next_node W strNodeType =
     (case m_mapNodeIdentify W strNodeType of
        None \<Rightarrow> None
      | Some (i, ids) \<Rightarrow>
          if i < length ids then Some (ids ! i, W\<lparr>m_mapNodeIdentify := (m_mapNodeIdentify W)(strNodeType \<mapsto> (i + 1, ids))\<rparr>)
          else if ids \<noteq> [] then Some (ids ! 0, W\<lparr>m_mapNodeIdentify := (m_mapNodeIdentify W)(strNodeType \<mapsto> (1, ids))\<rparr>)
          else None)"

definition SendToNext :: "'b wenv \<Rightarrow> 'b worker \<Rightarrow> string \<Rightarrow> msg_head \<Rightarrow> 'b \<Rightarrow> (bool \<times> 'b worker) option" where
  "SendToNext E W strNodeType oMsgHead oMsgBody =
     (case next_node W strNodeType of
        None \<Rightarrow> Some (False, W)
      | Some (ident, W) \<Rightarrow> SendTo_name E W ident oMsgHead oMsgBody)"

definition SendToWithMod :: "'b wenv \<Rightarrow> 'b worker \<Rightarrow> string \<Rightarrow> u32 \<Rightarrow> msg_head \<Rightarrow> 'b \<Rightarrow> (bool \<times> 'b worker) option" where
  "SendToWithMod E W strNodeType uiModFactor oMsgHead oMsgBody =
     (case m_mapNodeIdentify W strNodeType of
        None \<Rightarrow> Some (False, W)
      | Some (_, ids) \<Rightarrow>
          if ids = [] then Some (False, W)
          else SendTo_name E W (ids ! (unat uiModFactor mod length ids)) oMsgHead oMsgBody)"

definition SendToConHash :: "'b wenv \<Rightarrow> 'b worker \<Rightarrow> string \<Rightarrow> u32 \<Rightarrow> msg_head \<Rightarrow> 'b \<Rightarrow> (bool \<times> 'b worker) option" where
  "SendToConHash E W strNodeType uiModFactor oMsgHead oMsgBody = do {
     ident \<leftarrow> lookupNodeIdentify (m_mapChannelConHash W strNodeType) uiModFactor;
     if ident = [] then Some (False, W) else SendTo_name E W ident oMsgHead oMsgBody
   }"

text \<open>The factor of a session that is given as a string: the sum of its (signed) characters.\<close>

definition session_factor :: "string \<Rightarrow> u32" where
  "session_factor s = foldl (\<lambda>n c. n + char_word c) 0 s"

text \<open>\<open>SendToSession\<close> with \<open>USE_CONHASH\<close>, which \<open>Interface.hpp\<close> defines; the session of the body is an argument.\<close>

definition SendToSession ::
  "'b wenv \<Rightarrow> 'b worker \<Rightarrow> string \<Rightarrow> u32 option \<Rightarrow> string option \<Rightarrow> msg_head \<Rightarrow> 'b \<Rightarrow> (bool \<times> 'b worker) option" where
  "SendToSession E W strNodeType session_id session_name oMsgHead oMsgBody =
     (case session_id of
        Some n \<Rightarrow> SendToConHash E W strNodeType n oMsgHead oMsgBody
      | None \<Rightarrow>
          case session_name of
            Some s \<Rightarrow> SendToConHash E W strNodeType (session_factor s) oMsgHead oMsgBody
          | None \<Rightarrow> SendToNext E W strNodeType oMsgHead oMsgBody)"

primrec send_each :: "'b wenv \<Rightarrow> string list \<Rightarrow> 'b worker \<Rightarrow> msg_head \<Rightarrow> 'b \<Rightarrow> 'b worker option" where
  "send_each E [] W oMsgHead oMsgBody = Some W"
| "send_each E (ident # ids) W oMsgHead oMsgBody = do {
     W \<leftarrow> (if ident \<noteq> e_identify E then map_option snd (SendTo_name E W ident oMsgHead oMsgBody) else Some W);
     send_each E ids W oMsgHead oMsgBody
   }"

definition SendToNodeType :: "'b wenv \<Rightarrow> 'b worker \<Rightarrow> string \<Rightarrow> msg_head \<Rightarrow> 'b \<Rightarrow> (bool \<times> 'b worker) option" where
  "SendToNodeType E W strNodeType oMsgHead oMsgBody =
     (case m_mapNodeIdentify W strNodeType of
        None \<Rightarrow> Some (False, W)
      | Some (_, ids) \<Rightarrow> map_option (\<lambda>W. (ids \<noteq> [], W)) (send_each E ids W oMsgHead oMsgBody))"


subsection \<open>Round robin\<close>

fun next_names :: "'b worker \<Rightarrow> string \<Rightarrow> nat \<Rightarrow> string list" where
  "next_names W strNodeType 0 = []"
| "next_names W strNodeType (Suc n) =
     (case next_node W strNodeType of None \<Rightarrow> [] | Some (ident, W') \<Rightarrow> ident # next_names W' strNodeType n)"

lemma next_names_eq:
  "m_mapNodeIdentify W t = Some (i, ids) \<Longrightarrow> ids \<noteq> [] \<Longrightarrow> i \<le> length ids \<Longrightarrow>
     next_names W t n = map (\<lambda>k. ids ! ((i + k) mod length ids)) [0..<n]"
proof (induction n arbitrary: W i)
  case (Suc n)
  let ?j = "if i < length ids then i + 1 else 1" let ?W = "W\<lparr>m_mapNodeIdentify := (m_mapNodeIdentify W)(t \<mapsto> (?j, ids))\<rparr>"
  have "next_node W t = Some (ids ! (i mod length ids), ?W)"
    using Suc.prems by (auto simp: next_node_def)
  moreover have "next_names ?W t n = map (\<lambda>k. ids ! ((?j + k) mod length ids)) [0..<n]"
    using Suc.prems by (intro Suc.IH) (auto simp: Suc_le_eq)
  moreover have "(?j + k) mod length ids = (i + Suc k) mod length ids" for k
    using Suc.prems(3) mod_add_self1 [of "length ids" "Suc k"] by (cases "i = length ids") (auto simp del: mod_add_self1)
  ultimately show ?case by (simp add: map_upt_Suc del: upt_Suc)
qed simp

text \<open>The tables of the nodes: each name is filed under one type, and the lists are sorted and without duplicates.\<close>

definition nodes_ok :: "'b worker \<Rightarrow> bool" where
  "nodes_ok W \<longleftrightarrow>
     (\<forall>t i ids. m_mapNodeIdentify W t = Some (i, ids) \<longrightarrow> sorted ids \<and> distinct ids \<and> i \<le> length ids
        \<and> (\<forall>x\<in>set ids. m_mapIdentifyNodeType W x = Some t))
     \<and> (\<forall>x t. m_mapIdentifyNodeType W x = Some t \<longrightarrow> (\<exists>i ids. m_mapNodeIdentify W t = Some (i, ids) \<and> x \<in> set ids))"

lemma nodes_okD:
  assumes "nodes_ok W" "m_mapNodeIdentify W t = Some (i, ids)"
  shows "sorted ids" "distinct ids" "i \<le> length ids" "x \<in> set ids \<longleftrightarrow> m_mapIdentifyNodeType W x = Some t"
proof -
  show "sorted ids" "distinct ids" "i \<le> length ids" using assms unfolding nodes_ok_def by blast+
  have "x \<in> set ids" if x: "m_mapIdentifyNodeType W x = Some t"
  proof -
    obtain j js where "m_mapNodeIdentify W t = Some (j, js)" "x \<in> set js" using x assms(1) unfolding nodes_ok_def by blast
    then show ?thesis using assms(2) by simp
  qed
  then show "x \<in> set ids \<longleftrightarrow> m_mapIdentifyNodeType W x = Some t" using assms unfolding nodes_ok_def by blast
qed

lemma nodes_okI:
  assumes "\<And>t i ids. m_mapNodeIdentify W t = Some (i, ids) \<Longrightarrow> sorted ids \<and> distinct ids \<and> i \<le> length ids"
    and "\<And>t i ids x. m_mapNodeIdentify W t = Some (i, ids) \<Longrightarrow> x \<in> set ids \<longleftrightarrow> m_mapIdentifyNodeType W x = Some t"
    and "\<And>x t. m_mapIdentifyNodeType W x = Some t \<Longrightarrow> m_mapNodeIdentify W t \<noteq> None"
  shows "nodes_ok W"
  unfolding nodes_ok_def using assms by (metis not_None_eq surj_pair)

lemma AddNodeIdentify_old:
  "AddNodeIdentify W t ident = Some W' \<Longrightarrow> m_mapIdentifyNodeType W ident = Some s \<Longrightarrow>
     m_mapIdentifyNodeType W' = m_mapIdentifyNodeType W \<and> m_mapNodeIdentify W' = m_mapNodeIdentify W"
  by (auto simp: AddNodeIdentify_def Let_def split: if_splits bind_splits)

lemma AddNodeIdentify_new:
  assumes "nodes_ok W" "AddNodeIdentify W t ident = Some W'" "m_mapIdentifyNodeType W ident = None"
  shows "m_mapIdentifyNodeType W' = (m_mapIdentifyNodeType W)(ident \<mapsto> t)"
    "m_mapNodeIdentify W' = (m_mapNodeIdentify W)(t \<mapsto> (0, insort ident (GetNodeIdentifys W t)))" "ident \<notin> set (GetNodeIdentifys W t)"
proof -
  show n: "ident \<notin> set (GetNodeIdentifys W t)"
  proof (cases "m_mapNodeIdentify W t")
    case (Some p)
    then show ?thesis using nodes_okD(4) [OF assms(1), of t "fst p" "snd p" ident] assms(3) by (simp add: GetNodeIdentifys_def)
  qed (simp add: GetNodeIdentifys_def)
  show "m_mapIdentifyNodeType W' = (m_mapIdentifyNodeType W)(ident \<mapsto> t)"
    using assms(2,3) by (auto simp: AddNodeIdentify_def Let_def split: if_splits bind_splits)
  have "(case m_mapNodeIdentify W t of None \<Rightarrow> (0, [ident]) | Some (i, ids) \<Rightarrow> if ident \<in> set ids then (i, ids) else (0, insort ident ids))
      = (0, insort ident (GetNodeIdentifys W t))"
    using n by (auto simp: GetNodeIdentifys_def split: option.splits)
  then show "m_mapNodeIdentify W' = (m_mapNodeIdentify W)(t \<mapsto> (0, insort ident (GetNodeIdentifys W t)))"
    using assms(2,3) by (auto simp: AddNodeIdentify_def Let_def split: if_splits bind_splits)
qed

lemma nodes_ok_dom:
  assumes "nodes_ok W" "m_mapIdentifyNodeType W x = Some t"
  shows "m_mapNodeIdentify W t \<noteq> None"
proof -
  obtain i ids where "m_mapNodeIdentify W t = Some (i, ids)" using assms unfolding nodes_ok_def by blast
  then show ?thesis by simp
qed

lemma GetNodeIdentifys_ok:
  assumes "nodes_ok W"
  shows "sorted (GetNodeIdentifys W t) \<and> distinct (GetNodeIdentifys W t)
    \<and> (\<forall>x. x \<in> set (GetNodeIdentifys W t) \<longleftrightarrow> m_mapIdentifyNodeType W x = Some t)"
proof (cases "m_mapNodeIdentify W t")
  case None
  then show ?thesis using nodes_ok_dom [OF assms, of _ t] by (auto simp: GetNodeIdentifys_def)
next
  case (Some p)
  then show ?thesis using nodes_okD [OF assms, of t "fst p" "snd p"] by (simp add: GetNodeIdentifys_def)
qed

lemma AddNodeIdentify_ok:
  assumes "nodes_ok W" "AddNodeIdentify W t ident = Some W'"
  shows "nodes_ok W'"
proof (cases "m_mapIdentifyNodeType W ident")
  case (Some s) then show ?thesis using AddNodeIdentify_old [OF assms(2)] assms(1) by (simp add: nodes_ok_def)
next
  case None
  note new = AddNodeIdentify_new [OF assms None] and ids = GetNodeIdentifys_ok [OF assms(1), THEN conjunct1] GetNodeIdentifys_ok [OF assms(1), THEN conjunct2, THEN conjunct1]
    GetNodeIdentifys_ok [OF assms(1), THEN conjunct2, THEN conjunct2, rule_format]
  show ?thesis
  proof (rule nodes_okI)
    show "sorted js \<and> distinct js \<and> i \<le> length js" if "m_mapNodeIdentify W' s = Some (i, js)" for s i js
      using that ids(1,2) [of t] new(3) nodes_okD(1-3) [OF assms(1), of s i js] by (auto simp: new(2) sorted_insort distinct_insort split: if_splits)
    show "y \<in> set js \<longleftrightarrow> m_mapIdentifyNodeType W' y = Some s" if "m_mapNodeIdentify W' s = Some (i, js)" for s i js y
    proof (cases "s = t")
      case True
      then have "js = insort ident (GetNodeIdentifys W t)" using that by (simp add: new(2))
      then show ?thesis using ids(3) [of y t] True by (simp add: new(1) set_insort_key)
    next
      case False
      then have "m_mapNodeIdentify W s = Some (i, js)" using that by (simp add: new(2))
      then show ?thesis using nodes_okD(4) [OF assms(1), of s i js y] None False by (simp add: new(1))
    qed
    show "m_mapNodeIdentify W' s \<noteq> None" if "m_mapIdentifyNodeType W' y = Some s" for y s
      using that nodes_ok_dom [OF assms(1), of y s] by (auto simp: new(1,2) split: if_splits)
  qed
qed

lemma DelNodeIdentify_maps:
  assumes "nodes_ok W"
  shows "m_mapIdentifyNodeType (DelNodeIdentify W t ident) = (m_mapIdentifyNodeType W)(ident := None)"
    "m_mapNodeIdentify (DelNodeIdentify W t ident) = (case m_mapIdentifyNodeType W ident of None \<Rightarrow> m_mapNodeIdentify W
       | Some s \<Rightarrow> (m_mapNodeIdentify W)(s \<mapsto> (0, remove1 ident (GetNodeIdentifys W s))))"
proof -
  show "m_mapIdentifyNodeType (DelNodeIdentify W t ident) = (m_mapIdentifyNodeType W)(ident := None)"
    by (auto simp: DelNodeIdentify_def Let_def fun_upd_idem split: option.splits)
  show "m_mapNodeIdentify (DelNodeIdentify W t ident) = (case m_mapIdentifyNodeType W ident of None \<Rightarrow> m_mapNodeIdentify W
       | Some s \<Rightarrow> (m_mapNodeIdentify W)(s \<mapsto> (0, remove1 ident (GetNodeIdentifys W s))))"
  proof (cases "m_mapIdentifyNodeType W ident")
    case (Some s)
    then obtain i ids where "m_mapNodeIdentify W s = Some (i, ids)" "ident \<in> set ids" using assms unfolding nodes_ok_def by blast
    then show ?thesis using Some by (simp add: DelNodeIdentify_def GetNodeIdentifys_def)
  qed (simp add: DelNodeIdentify_def)
qed

lemma DelNodeIdentify_ok:
  assumes "nodes_ok W"
  shows "nodes_ok (DelNodeIdentify W t ident)"
proof (cases "m_mapIdentifyNodeType W ident")
  case None
  then have "m_mapIdentifyNodeType W = (m_mapIdentifyNodeType W)(ident := None)" by auto
  then show ?thesis using assms None unfolding nodes_ok_def by (simp add: DelNodeIdentify_maps [OF assms])
next
  case (Some s)
  note new = DelNodeIdentify_maps [OF assms, of t ident] and ids = GetNodeIdentifys_ok [OF assms, THEN conjunct1] GetNodeIdentifys_ok [OF assms, THEN conjunct2, THEN conjunct1]
    GetNodeIdentifys_ok [OF assms, THEN conjunct2, THEN conjunct2, rule_format]
  show ?thesis
  proof (rule nodes_okI)
    show "sorted js \<and> distinct js \<and> i \<le> length js" if "m_mapNodeIdentify (DelNodeIdentify W t ident) r = Some (i, js)" for r i js
      using that ids(1,2) [of s] nodes_okD(1-3) [OF assms, of r i js] by (auto simp: new Some sorted_remove1 split: if_splits)
    show "y \<in> set js \<longleftrightarrow> m_mapIdentifyNodeType (DelNodeIdentify W t ident) y = Some r"
      if "m_mapNodeIdentify (DelNodeIdentify W t ident) r = Some (i, js)" for r i js y
    proof (cases "r = s")
      case True
      then have "js = remove1 ident (GetNodeIdentifys W s)" using that by (simp add: new Some)
      then show ?thesis using ids(2) [of s] ids(3) [of y s] True by (simp add: new)
    next
      case False
      then have "m_mapNodeIdentify W r = Some (i, js)" using that by (simp add: new Some)
      then show ?thesis using nodes_okD(4) [OF assms, of r i js y] Some False by (simp add: new)
    qed
    show "m_mapNodeIdentify (DelNodeIdentify W t ident) r \<noteq> None" if "m_mapIdentifyNodeType (DelNodeIdentify W t ident) y = Some r" for y r
      using that nodes_ok_dom [OF assms, of y r] by (auto simp: new Some split: if_splits)
  qed
qed


datatype node_op = AddNode string string | DelNode string string | NextNode string

fun node_exec :: "node_op \<Rightarrow> 'b worker \<Rightarrow> 'b worker" where
  "node_exec (AddNode t ident) W = (case AddNodeIdentify W t ident of None \<Rightarrow> W | Some W' \<Rightarrow> W')"
| "node_exec (DelNode t ident) W = DelNodeIdentify W t ident"
| "node_exec (NextNode t) W = (case next_node W t of None \<Rightarrow> W | Some (_, W') \<Rightarrow> W')"

lemma nodes_ok_iter:
  assumes "nodes_ok W" "m_mapNodeIdentify W t = Some (i, ids)" "j \<le> length ids"
  shows "nodes_ok (W\<lparr>m_mapNodeIdentify := (m_mapNodeIdentify W)(t \<mapsto> (j, ids))\<rparr>)"
proof (rule nodes_okI)
  fix s k js assume m: "m_mapNodeIdentify (W\<lparr>m_mapNodeIdentify := (m_mapNodeIdentify W)(t \<mapsto> (j, ids))\<rparr>) s = Some (k, js)"
  then have o: "\<exists>k'. m_mapNodeIdentify W s = Some (k', js)" "k \<le> length js"
    using assms(2,3) nodes_okD(3) [OF assms(1), of s k js] by (auto split: if_splits)
  then show "sorted js \<and> distinct js \<and> k \<le> length js" using nodes_okD(1,2) [OF assms(1), of s _ js] by blast
  show "x \<in> set js \<longleftrightarrow> m_mapIdentifyNodeType (W\<lparr>m_mapNodeIdentify := (m_mapNodeIdentify W)(t \<mapsto> (j, ids))\<rparr>) x = Some s" for x
    using o(1) nodes_okD(4) [OF assms(1), of s _ js x] by auto
qed (use nodes_ok_dom [OF assms(1)] in auto)

lemma next_node_ok:
  assumes "nodes_ok W" "next_node W t = Some (x, W')"
  shows "nodes_ok W'"
proof -
  obtain i ids where i: "m_mapNodeIdentify W t = Some (i, ids)" using assms(2) by (auto simp: next_node_def split: option.splits)
  let ?j = "if i < length ids then i + 1 else 1"
  have "?j \<le> length ids" "W' = W\<lparr>m_mapNodeIdentify := (m_mapNodeIdentify W)(t \<mapsto> (?j, ids))\<rparr>"
    using assms(2) i by (auto simp: next_node_def Suc_le_eq split: if_splits)
  then show ?thesis using nodes_ok_iter [OF assms(1) i] by metis
qed

lemma node_exec_ok: "nodes_ok W \<Longrightarrow> nodes_ok (node_exec op W)"
proof (cases op)
  case (AddNode t ident)
  then show "nodes_ok W \<Longrightarrow> ?thesis" using AddNodeIdentify_ok [of W t ident] by (cases "AddNodeIdentify W t ident") simp_all
next
  case (NextNode t)
  then show "nodes_ok W \<Longrightarrow> ?thesis" using next_node_ok [of W t] by (cases "next_node W t") auto
qed (simp add: DelNodeIdentify_ok)

lemma node_run_ok: "nodes_ok W \<Longrightarrow> nodes_ok (fold node_exec ops W)"
  by (induction ops arbitrary: W) (simp_all add: node_exec_ok)

definition node_run :: "node_op list \<Rightarrow> 'b worker" where
  "node_run ops = fold node_exec ops empty_worker"

lemma nodes_ok_run: "nodes_ok (node_run ops)"
proof -
  have "nodes_ok (empty_worker :: 'b worker)" by (simp add: nodes_ok_def empty_worker_def)
  then show "nodes_ok (node_run ops :: 'b worker)" unfolding node_run_def by (rule node_run_ok)
qed

text \<open>
  C25. The round robin is fair: whatever nodes of a type have been added and removed before, as many successive
  messages as there are nodes of the type are sent to each of them exactly once.
\<close>

theorem round_robin_fair:
  fixes ops t
  defines "W \<equiv> node_run ops"
  shows "distinct (next_names W t (length (GetNodeIdentifys W t)))
    \<and> set (next_names W t (length (GetNodeIdentifys W t))) = {x. m_mapIdentifyNodeType W x = Some t}"
proof -
  have ok: "nodes_ok W" unfolding W_def by (rule nodes_ok_run)
  note ids = GetNodeIdentifys_ok [OF ok, of t]
  show ?thesis
  proof (cases "GetNodeIdentifys W t = []")
    case True then show ?thesis using ids by auto
  next
    case False
    let ?ids = "GetNodeIdentifys W t" let ?n = "length ?ids"
    obtain i where i: "m_mapNodeIdentify W t = Some (i, ?ids)" "i \<le> ?n" using False nodes_okD(3) [OF ok, of t]
      by (auto simp: GetNodeIdentifys_def split: option.splits)
    have "next_names W t ?n = rotate i ?ids"
      by (rule nth_equalityI) (simp_all add: next_names_eq [OF i(1) False i(2)] nth_rotate)
    then show ?thesis using ids by auto
  qed
qed


subsection \<open>Effect of a write\<close>

lemma Compact_buf:
  assumes "buf_ok b"
  shows "\<exists>r b'. Compact hp b n = Some (r, b') \<and> buf_ok b' \<and> cb_data b' = cb_data b \<and> m_write_idx b' \<le> m_write_idx b"
proof -
  have "cb_inv b" "ReadableBytes b < 2 ^ 32" using assms buf_ok_readable [OF assms] by (auto simp: buf_ok_def)
  from Compact_ok [OF this, of hp n] show ?thesis using assms by (auto simp: buf_ok_def)
qed

text \<open>What is written is taken from the front of the buffer and put on the wire.\<close>

lemma write_fd_ok:
  assumes "buf_ok (pSendBuff c)"
    and "\<And>n. e_send E (w_tick W) fd (cb_data (pSendBuff c)) = Inl n \<Longrightarrow> cb_data (pSendBuff c) \<noteq> [] \<Longrightarrow> n \<le> length (cb_data (pSendBuff c))"
  shows "\<exists>n e b. write_fd E W fd c = Some (n, e, c\<lparr>pSendBuff := b\<rparr>,
      W\<lparr>w_tick := w_tick W + 1, wire := (wire W)(ulSeq c := wire W (ulSeq c) @ take (nat n) (cb_data (pSendBuff c)))\<rparr>)
    \<and> buf_ok b \<and> m_write_idx b \<le> m_write_idx (pSendBuff c) \<and> cb_data b = drop (nat n) (cb_data (pSendBuff c))
    \<and> (if cb_data (pSendBuff c) = [] then n = 0
       else case e_send E (w_tick W) fd (cb_data (pSendBuff c)) of Inl k \<Rightarrow> n = int k | Inr err \<Rightarrow> n = -1 \<and> e = err)"
proof -
  let ?b = "pSendBuff c" let ?d = "cb_data ?b" let ?snd = "e_send E (w_tick W) fd"
  have r: "ReadableBytes ?b = length ?d" "length ?d < 2 ^ 31" using buf_ok_readable [OF assms(1)] by auto
  have m: "mem_read (m_buffer ?b) (m_read_idx ?b) (length ?d) = Some ?d"
    using mem_read_readable [of ?b "length ?d"] assms(1) r(1) by (simp add: buf_ok_def)
  obtain n e b where w: "WriteFD ?b ?snd 0 = Some (n, e, b)" "buf_ok b" "m_write_idx b = m_write_idx ?b" "cb_data b = drop (nat n) ?d"
    "if ?d = [] then n = 0 else case ?snd ?d of Inl k \<Rightarrow> n = int k | Inr err \<Rightarrow> n = -1 \<and> e = err"
  proof (cases "?d = []")
    case True
    then show ?thesis using that [of 0 0 ?b] r assms(1) by (simp add: WriteFD_def)
  next
    case False
    show ?thesis
    proof (cases "?snd ?d")
      case (Inl k)
      then have k: "k \<le> length ?d" using assms(2) False by blast
      have "m_read_idx ?b + k < 2 ^ 64" using k r assms(1) by (simp add: buf_ok_def cb_inv_def ReadableBytes_inv)
      then have "WriteFD ?b ?snd 0 = Some (int k, 0, ?b\<lparr>m_read_idx := m_read_idx ?b + k\<rparr>)"
        using False Inl m r by (simp add: WriteFD_def)
      then show ?thesis using that advance_ok [OF assms(1) k] False Inl by simp
    next
      case (Inr err)
      then have "WriteFD ?b ?snd 0 = Some (-1, err, ?b)" using False m r by (simp add: WriteFD_def)
      then show ?thesis using that assms(1) False Inr by simp
    qed
  qed
  obtain q b' where "Compact (e_hp E) b 8192 = Some (q, b')" "buf_ok b'" "cb_data b' = cb_data b" "m_write_idx b' \<le> m_write_idx b"
    using Compact_buf [OF w(2)] by blast
  then show ?thesis using w by (auto simp: write_fd_def)
qed

end
