(* ===== verification/WorkerStep.thy ===== *)
theory WorkerStep
  imports WorkerSend
begin

text \<open>
  Steps: the objects that wait for the answer to a request (\<open>Net/src/step/Step.cpp\<close>) and the table in which
  the worker keeps them (\<open>RegisterCallback\<close>, \<open>DeleteCallback\<close>, \<open>StepTimeout\<close>, \<open>ExecStep\<close> of \<open>Worker.cpp\<close>),
  with the steps of the framework itself: \<open>StepConnectWorker\<close> and \<open>StepTellWorker\<close>, which do the handshake of an
  internal connection, and \<open>StepIoTimeout\<close>, the heartbeat.  Sessions follow at the end.

  The heap of the steps maps addresses to objects; using an address whose object is deleted is \<open>None\<close>.
\<close>

subsection \<open>Objects\<close>

definition new_step :: "'b step_kind \<Rightarrow> 'b step" where
  "new_step kind =
     \<lparr>m_bRegistered = False, st_seq = 0, m_dActiveTime = 0, m_dTimeout = 1 / 2, m_pTimeoutWatcher = None, m_pNextStep = None,
      m_setNextStepSeq = [], m_setPreStepSeq = [], st_kind = kind\<rparr>"

definition alloc_step :: "'b worker \<Rightarrow> 'b step_kind \<Rightarrow> nat \<times> 'b worker" where
  "alloc_step W kind =
     (next_addr W, W\<lparr>step_heap := (step_heap W)(next_addr W \<mapsto> new_step kind), next_addr := next_addr W + 1\<rparr>)"

definition put_step :: "'b worker \<Rightarrow> nat \<Rightarrow> 'b step \<Rightarrow> 'b worker" where
  "put_step W p st = W\<lparr>step_heap := (step_heap W)(p \<mapsto> st)\<rparr>"

definition Step_GetSequence :: "'b worker \<Rightarrow> nat \<Rightarrow> (u32 \<times> 'b worker) option" where
  "Step_GetSequence W p = do {
     st \<leftarrow> step_heap W p;
     if \<not> m_bRegistered st then Some (0, W)
     else if st_seq st = 0 then
       let (s, W) = GetSequence W in Some (s, put_step W p (st\<lparr>st_seq := s\<rparr>))
     else Some (st_seq st, W)
   }"

text \<open>\<open>~Step\<close> also deletes the next step if it is not registered.\<close>

partial_function (option) delete_step :: "'b worker \<Rightarrow> nat \<Rightarrow> 'b worker option" where
  "delete_step W p =
     Option.bind (step_heap W p) (\<lambda>st.
       Option.bind
         (case m_pNextStep st of
            None \<Rightarrow> Some W
          | Some q \<Rightarrow> Option.bind (step_heap W q) (\<lambda>nx. if m_bRegistered nx then Some W else delete_step W q))
         (\<lambda>W. Some (W\<lparr>step_heap := (step_heap W)(p := None)\<rparr>)))"

subsection \<open>Timers of steps\<close>

text \<open>\<open>ResetTimeout\<close> arms the timer, whose argument is a delay, with a point in time.\<close>

definition ResetTimeout :: "'b worker \<Rightarrow> nat \<Rightarrow> 'b worker option" where
  "ResetTimeout W p = do {
     st \<leftarrow> step_heap W p;
     _ \<leftarrow> m_pTimeoutWatcher st;
     let after = w_now W + m_dTimeout st;
     Some (put_step W p (st\<lparr>m_pTimeoutWatcher := Some (Some (after + w_time W - w_now W))\<rparr>))
   }"

definition DelayTimeout :: "'b worker \<Rightarrow> nat \<Rightarrow> 'b worker option" where
  "DelayTimeout W p = do {
     st \<leftarrow> step_heap W p;
     if m_bRegistered st then ResetTimeout W p
     else Some (put_step W p (st\<lparr>m_dActiveTime := m_dActiveTime st + m_dTimeout st + 1 / 2\<rparr>))
   }"

subsection \<open>The table of steps\<close>

definition sizeof_ev_timer :: nat where
  "sizeof_ev_timer = 48"

definition RegisterCallback :: "'b wenv \<Rightarrow> 'b worker \<Rightarrow> nat \<Rightarrow> rat \<Rightarrow> (bool \<times> 'b worker) option" where
  "RegisterCallback E W p dTimeout = do {
     st \<leftarrow> step_heap W p;
     if m_bRegistered st then Some (True, W)
     else do {
       let W = put_step W p (st\<lparr>m_bRegistered := True, m_dActiveTime := w_now W\<rparr>);
       (seq, W) \<leftarrow> Step_GetSequence W p;
       (case m_mapCallbackStep W seq of
          Some _ \<Rightarrow> Some (False, W)
        | None \<Rightarrow> do {
            let W = W\<lparr>m_mapCallbackStep := (m_mapCallbackStep W)(seq \<mapsto> p)\<rparr>;
            if c_malloc (e_hp E) sizeof_ev_timer = None then Some (False, W)
            else do {
              st \<leftarrow> step_heap W p;
              let t = (if dTimeout = 0 then m_dStepTimeout W else dTimeout);
              Some (True, put_step W p (st\<lparr>m_dTimeout := t, m_pTimeoutWatcher := Some (Some (t + w_time W - w_now W))\<rparr>))
            }
          })
     }
   }"

text \<open>
  \<open>RegisterCallback(uiSelfStepSeq, pStep, dTimeout)\<close>: the calling step is first recorded as waiting for
  \<open>pStep\<close> if it is among the next steps of \<open>pStep\<close>.
\<close>

definition RegisterCallback_from :: "'b wenv \<Rightarrow> 'b worker \<Rightarrow> u32 \<Rightarrow> nat \<Rightarrow> rat \<Rightarrow> (bool \<times> 'b worker) option" where
  "RegisterCallback_from E W uiSelfStepSeq p dTimeout = do {
     st \<leftarrow> step_heap W p;
     W \<leftarrow> (if uiSelfStepSeq \<in> set (m_setNextStepSeq st) then
             case m_mapCallbackStep W uiSelfStepSeq of
               None \<Rightarrow> Some W
             | Some q \<Rightarrow> do {
                 (seq, W) \<leftarrow> Step_GetSequence W p;
                 sq \<leftarrow> step_heap W q;
                 Some (put_step W q (sq\<lparr>m_setPreStepSeq := set_insert seq (m_setPreStepSeq sq)\<rparr>))
               }
           else Some W);
     RegisterCallback E W p dTimeout
   }"

text \<open>The pre-steps that are no longer registered are dropped, up to the first that is, except for the caller itself.\<close>

fun drop_finished :: "'b worker \<Rightarrow> u32 option \<Rightarrow> u32 list \<Rightarrow> u32 list \<times> bool" where
  "drop_finished W self [] = ([], False)"
| "drop_finished W self (s # ss) =
     (case m_mapCallbackStep W s of
        None \<Rightarrow> drop_finished W self ss
      | Some _ \<Rightarrow>
          if Some s = self then let (ss', r) = drop_finished W self ss in (s # ss', r) else (s # ss, True))"

definition DeleteCallback_self :: "'b worker \<Rightarrow> u32 option \<Rightarrow> nat \<Rightarrow> 'b worker option" where
  "DeleteCallback_self W self p = do {
     st \<leftarrow> step_heap W p;
     let (pre, running) = drop_finished W self (m_setPreStepSeq st);
     let W = put_step W p (st\<lparr>m_setPreStepSeq := pre\<rparr>);
     if running then DelayTimeout W p
     else do {
       let W = put_step W p (st\<lparr>m_setPreStepSeq := pre, m_pTimeoutWatcher := map_option (\<lambda>_. None) (m_pTimeoutWatcher st)\<rparr>);
       (seq, W) \<leftarrow> Step_GetSequence W p;
       (case m_mapCallbackStep W seq of
          None \<Rightarrow> Some W
        | Some _ \<Rightarrow> map_option (\<lambda>W. W\<lparr>m_mapCallbackStep := (m_mapCallbackStep W)(seq := None)\<rparr>) (delete_step W p))
     }
   }"

definition DeleteCallback :: "'b worker \<Rightarrow> nat \<Rightarrow> 'b worker option" where
  "DeleteCallback W p = DeleteCallback_self W None p"

definition DeleteCallback_from :: "'b worker \<Rightarrow> u32 \<Rightarrow> nat \<Rightarrow> 'b worker option" where
  "DeleteCallback_from W uiSelfStepSeq p = DeleteCallback_self W (Some uiSelfStepSeq) p"

definition GetStep :: "'b worker \<Rightarrow> u32 \<Rightarrow> nat option" where
  "GetStep W uiStepSeq = m_mapCallbackStep W uiStepSeq"

subsection \<open>Emit\<close>

definition msg_of :: "'b wenv \<Rightarrow> u32 \<Rightarrow> u32 \<Rightarrow> byte list \<Rightarrow> msg_head \<times> 'b" where
  "msg_of E cmd seq bs =
     (let body = body_set (e_pb E) bs (body_clear (e_pb E)) in
      (\<lparr>h_cmd = Some cmd, h_msgbody_len = Some (word_of_nat (length (body_ser (e_pb E) body))), h_seq = Some seq, h_checksum = None\<rparr>, body))"

definition CMD_REQ_CONNECT_TO_WORKER :: u32 where "CMD_REQ_CONNECT_TO_WORKER = 7"
definition CMD_REQ_TELL_WORKER :: u32 where "CMD_REQ_TELL_WORKER = 9"
definition CMD_REQ_BEAT :: u32 where "CMD_REQ_BEAT = 507"

definition own_target :: "'b wenv \<Rightarrow> target_worker" where
  "own_target E = \<lparr>tw_err_no = 0, tw_identify = e_identify E, tw_node_type = e_node_type E, tw_err_msg = ''OK''\<rparr>"

definition StepConnectWorker_Emit :: "'b wenv \<Rightarrow> 'b worker \<Rightarrow> nat \<Rightarrow> nat \<Rightarrow> tagMsgShell \<Rightarrow> msg_head \<Rightarrow> 'b \<Rightarrow> (cmd_status \<times> 'b worker) option" where
  "StepConnectWorker_Emit E W p n sh head body = do {
     (seq, W) \<leftarrow> Step_GetSequence W p;
     let head = head\<lparr>h_seq := Some seq\<rparr>;
     st \<leftarrow> step_heap W p;
     let W = put_step W p (st\<lparr>st_kind := StepConnectWorker n sh head body\<rparr>);
     (_, W) \<leftarrow> SendTo E W sh head body;
     Some (STATUS_CMD_RUNNING, W)
   }"

definition StepTellWorker_Emit :: "'b wenv \<Rightarrow> 'b worker \<Rightarrow> nat \<Rightarrow> tagMsgShell \<Rightarrow> (cmd_status \<times> 'b worker) option" where
  "StepTellWorker_Emit E W p sh = do {
     (seq, W) \<leftarrow> Step_GetSequence W p;
     let (head, body) = msg_of E CMD_REQ_TELL_WORKER seq (e_target_ser E (own_target E));
     (_, W) \<leftarrow> SendTo E W sh head body;
     Some (STATUS_CMD_RUNNING, W)
   }"

definition StepIoTimeout_Emit :: "'b wenv \<Rightarrow> 'b worker \<Rightarrow> nat \<Rightarrow> tagMsgShell \<Rightarrow> (cmd_status \<times> 'b worker) option" where
  "StepIoTimeout_Emit E W p sh = do {
     (seq, W) \<leftarrow> Step_GetSequence W p;
     (ok, W) \<leftarrow> SendTo E W sh \<lparr>h_cmd = Some CMD_REQ_BEAT, h_msgbody_len = Some 0, h_seq = Some seq, h_checksum = None\<rparr> (body_clear (e_pb E));
     Some (if ok then STATUS_CMD_RUNNING else STATUS_CMD_FAULT, W)
   }"

definition Emit :: "'b wenv \<Rightarrow> 'b worker \<Rightarrow> nat \<Rightarrow> (cmd_status \<times> 'b worker) option" where
  "Emit E W p = do {
     st \<leftarrow> step_heap W p;
     (case st_kind st of
        StepConnectWorker n sh head body \<Rightarrow> StepConnectWorker_Emit E W p n sh head body
      | StepTellWorker n sh \<Rightarrow> StepTellWorker_Emit E W p sh
      | StepIoTimeout sh \<Rightarrow> StepIoTimeout_Emit E W p sh
      | StepUser n \<Rightarrow> e_emit E n W p)
   }"

text \<open>The loops of three attempts to register a step and emit it, in \<open>CmdConnectWorker::Start\<close> and \<open>StepConnectWorker::Callback\<close>.\<close>

fun start_step :: "'b wenv \<Rightarrow> 'b worker \<Rightarrow> u32 option \<Rightarrow> 'b step_kind \<Rightarrow> nat \<Rightarrow> (bool \<times> 'b worker) option" where
  "start_step E W self kind 0 = Some (False, W)"
| "start_step E W self kind (Suc n) = do {
     let (p, W) = alloc_step W kind;
     (ok, W) \<leftarrow> (case self of None \<Rightarrow> RegisterCallback E W p 0 | Some s \<Rightarrow> RegisterCallback_from E W s p 0);
     if ok then map_option (\<lambda>r. (True, snd r)) (Emit E W p)
     else Option.bind (delete_step W p) (\<lambda>W. start_step E W self kind n)
   }"

definition CmdConnectWorker_Start :: "'b wenv \<Rightarrow> 'b worker \<Rightarrow> tagMsgShell \<Rightarrow> int \<Rightarrow> (bool \<times> 'b worker) option" where
  "CmdConnectWorker_Start E W sh iWorkerIndex =
     (let (head, body) = msg_of E CMD_REQ_CONNECT_TO_WORKER 0 (e_connect_worker E iWorkerIndex) in
      start_step E W None (StepConnectWorker 0 sh (head\<lparr>h_seq := None\<rparr>) body) 3)"


subsection \<open>The timeout of a connection\<close>

definition rearm_conn :: "'b worker \<Rightarrow> tagMsgShell \<Rightarrow> tagConnectionAttr \<Rightarrow> rat \<Rightarrow> 'b worker" where
  "rearm_conn W sh c after =
     put_conn W (sh_fd sh) (c\<lparr>pTimeWatcher := map_option (\<lambda>w. w\<lparr>t_after := after + w_time W - w_now W\<rparr>) (pTimeWatcher c)\<rparr>)"

text \<open>
  \<open>IoTimeout(watcher, bCheckBeat)\<close>: \<open>sh\<close> is the data of the watcher.  The watcher belongs to its
  connection and is deleted with it, so that a call with a watcher whose connection is gone reads freed memory.
\<close>

definition IoTimeout :: "'b wenv \<Rightarrow> 'b worker \<Rightarrow> tagMsgShell \<Rightarrow> bool \<Rightarrow> (bool \<times> 'b worker) option" where
  "IoTimeout E W sh bCheckBeat = do {
     c \<leftarrow> live W sh;
     _ \<leftarrow> pTimeWatcher c;
     if bCheckBeat \<and> dKeepAlive c = 0 then
       let after = dActiveTime c - w_now W + m_dIoTimeout W in
       if after > 0 then Some (True, rearm_conn W sh c after)
       else do {
         let (p, W) = alloc_step W (StepIoTimeout sh);
         (ok, W) \<leftarrow> RegisterCallback E W p 2;
         if ok then do {
           (eStatus, W) \<leftarrow> Emit E W p;
           if eStatus \<noteq> STATUS_CMD_RUNNING then map_option (\<lambda>W. (True, W)) (DeleteCallback W p) else Some (True, W)
         }
         else do {
           W \<leftarrow> delete_step W p;
           map_option (\<lambda>r. (True, snd r)) (DestroyConnect E W (sh_fd sh) True)
         }
       }
     else if dKeepAlive c > 0 \<and> dActiveTime c - w_now W + dKeepAlive c > 0 then
       Some (True, rearm_conn W sh c (dActiveTime c - w_now W + dKeepAlive c))
     else
       case m_mapInnerFd W (sh_fd sh) of
         None \<Rightarrow> map_option (\<lambda>r. (True, snd r)) (DestroyConnect E W (sh_fd sh) True)
       | Some _ \<Rightarrow> Some (True, W)
   }"

subsection \<open>Callback and timeout of a step\<close>

definition StepConnectWorker_Callback :: "'b wenv \<Rightarrow> 'b worker \<Rightarrow> nat \<Rightarrow> tagMsgShell \<Rightarrow> 'b \<Rightarrow> (cmd_status \<times> 'b worker) option" where
  "StepConnectWorker_Callback E W p sh oInMsgBody =
     (if e_response_parse E (e_body E oInMsgBody) = Some 0 then do {
        (seq, W) \<leftarrow> Step_GetSequence W p;
        (ok, W) \<leftarrow> start_step E W (Some seq) (StepTellWorker 0 sh) 3;
        Some (if ok then STATUS_CMD_COMPLETED else STATUS_CMD_FAULT, W)
      }
      else Some (STATUS_CMD_FAULT, W))"

definition StepTellWorker_Callback :: "'b wenv \<Rightarrow> 'b worker \<Rightarrow> tagMsgShell \<Rightarrow> 'b \<Rightarrow> (cmd_status \<times> 'b worker) option" where
  "StepTellWorker_Callback E W stMsgShell oInMsgBody =
     (case e_target_parse E (e_body E oInMsgBody) of
        None \<Rightarrow> Some (STATUS_CMD_FAULT, W)
      | Some tw \<Rightarrow>
          if tw_err_no tw = 0 then do {
            let W = AddMsgShell W (tw_identify tw) stMsgShell;
            W \<leftarrow> AddNodeIdentify W (tw_node_type tw) (tw_identify tw);
            (_, W) \<leftarrow> SendTo_waiting E W stMsgShell;
            Some (STATUS_CMD_COMPLETED, W)
          }
          else Some (STATUS_CMD_FAULT, W))"

definition StepIoTimeout_Callback :: "'b wenv \<Rightarrow> 'b worker \<Rightarrow> tagMsgShell \<Rightarrow> (cmd_status \<times> 'b worker) option" where
  "StepIoTimeout_Callback E W sh = map_option (\<lambda>r. (STATUS_CMD_COMPLETED, snd r)) (IoTimeout E W sh True)"

definition Callback :: "'b wenv \<Rightarrow> 'b worker \<Rightarrow> nat \<Rightarrow> tagMsgShell \<Rightarrow> msg_head \<Rightarrow> 'b \<Rightarrow> (cmd_status \<times> 'b worker) option" where
  "Callback E W p stMsgShell oInMsgHead oInMsgBody = do {
     st \<leftarrow> step_heap W p;
     (case st_kind st of
        StepConnectWorker n sh head body \<Rightarrow> StepConnectWorker_Callback E W p sh oInMsgBody
      | StepTellWorker n sh \<Rightarrow> StepTellWorker_Callback E W stMsgShell oInMsgBody
      | StepIoTimeout sh \<Rightarrow> StepIoTimeout_Callback E W sh
      | StepUser n \<Rightarrow> e_callback E n W p stMsgShell oInMsgHead oInMsgBody)
   }"

definition StepConnectWorker_Timeout :: "'b wenv \<Rightarrow> 'b worker \<Rightarrow> nat \<Rightarrow> 'b step \<Rightarrow> nat \<Rightarrow> tagMsgShell \<Rightarrow> msg_head \<Rightarrow> 'b \<Rightarrow> (cmd_status \<times> 'b worker) option" where
  "StepConnectWorker_Timeout E W p st n sh head body =
     (let W = put_step W p (st\<lparr>st_kind := StepConnectWorker (n + 1) sh head body\<rparr>) in
      if n + 1 \<le> 3 then Emit E W p else Some (STATUS_CMD_FAULT, W))"

definition StepTellWorker_Timeout :: "'b wenv \<Rightarrow> 'b worker \<Rightarrow> nat \<Rightarrow> 'b step \<Rightarrow> nat \<Rightarrow> tagMsgShell \<Rightarrow> (cmd_status \<times> 'b worker) option" where
  "StepTellWorker_Timeout E W p st n sh =
     (let W = put_step W p (st\<lparr>st_kind := StepTellWorker (n + 1) sh\<rparr>) in
      if n + 1 \<le> 3 then Emit E W p else Some (STATUS_CMD_FAULT, W))"

definition StepIoTimeout_Timeout :: "'b wenv \<Rightarrow> 'b worker \<Rightarrow> tagMsgShell \<Rightarrow> (cmd_status \<times> 'b worker) option" where
  "StepIoTimeout_Timeout E W sh = map_option (\<lambda>r. (STATUS_CMD_FAULT, snd r)) (IoTimeout E W sh False)"

definition Timeout :: "'b wenv \<Rightarrow> 'b worker \<Rightarrow> nat \<Rightarrow> (cmd_status \<times> 'b worker) option" where
  "Timeout E W p = do {
     st \<leftarrow> step_heap W p;
     (case st_kind st of
        StepConnectWorker n sh head body \<Rightarrow> StepConnectWorker_Timeout E W p st n sh head body
      | StepTellWorker n sh \<Rightarrow> StepTellWorker_Timeout E W p st n sh
      | StepIoTimeout sh \<Rightarrow> StepIoTimeout_Timeout E W sh
      | StepUser n \<Rightarrow> e_timeout E n W p)
   }"

definition arm_step :: "'b worker \<Rightarrow> nat \<Rightarrow> rat \<Rightarrow> 'b worker option" where
  "arm_step W p after = do {
     st \<leftarrow> step_heap W p;
     Some (put_step W p (st\<lparr>m_pTimeoutWatcher := Some (Some (after + w_time W - w_now W))\<rparr>))
   }"

definition StepTimeout :: "'b wenv \<Rightarrow> 'b worker \<Rightarrow> nat \<Rightarrow> 'b worker option" where
  "StepTimeout E W p = do {
     st \<leftarrow> step_heap W p;
     let after = m_dActiveTime st - w_now W + m_dTimeout st;
     if after > 0 then arm_step W p after
     else do {
       (eResult, W) \<leftarrow> Timeout E W p;
       if eResult = STATUS_CMD_RUNNING then do {
         st \<leftarrow> step_heap W p;
         arm_step W p (m_dTimeout st)
       }
       else DeleteCallback W p
     }
   }"

subsection \<open>Execution of steps\<close>

definition ExecStep_seq :: "'b wenv \<Rightarrow> 'b worker \<Rightarrow> u32 \<Rightarrow> (bool \<times> 'b worker) option" where
  "ExecStep_seq E W uiStepSeq =
     (case m_mapCallbackStep W uiStepSeq of
        None \<Rightarrow> Some (False, W)
      | Some p \<Rightarrow> do {
          (nRet, W) \<leftarrow> Emit E W p;
          W \<leftarrow> (if nRet \<noteq> STATUS_CMD_RUNNING then DeleteCallback W p else Some W);
          Some (nRet \<noteq> STATUS_CMD_FAULT, W)
        })"

definition ExecStep_called :: "'b wenv \<Rightarrow> 'b worker \<Rightarrow> u32 \<Rightarrow> u32 \<Rightarrow> (bool \<times> 'b worker) option" where
  "ExecStep_called E W uiCallerStepSeq uiCalledStepSeq =
     (case m_mapCallbackStep W uiCalledStepSeq of
        None \<Rightarrow> Some (False, W)
      | Some p \<Rightarrow> do {
          (nRet, W) \<leftarrow> Emit E W p;
          W \<leftarrow>
            (if nRet \<noteq> STATUS_CMD_RUNNING then do {
               W \<leftarrow> DeleteCallback_from W uiCallerStepSeq p;
               (case m_mapCallbackStep W uiCallerStepSeq of
                  None \<Rightarrow> Some W
                | Some q \<Rightarrow> do {
                    sq \<leftarrow> step_heap W q;
                    (case m_pNextStep sq of
                       None \<Rightarrow> Some W
                     | Some nx \<Rightarrow> do {
                         (s, W) \<leftarrow> Step_GetSequence W nx;
                         sq \<leftarrow> step_heap W q;
                         Some (if s = uiCalledStepSeq then put_step W q (sq\<lparr>m_pNextStep := None\<rparr>) else W)
                       })
                  })
             }
             else Some W);
          Some (nRet \<noteq> STATUS_CMD_FAULT, W)
        })"

definition ExecStep :: "'b wenv \<Rightarrow> 'b worker \<Rightarrow> nat \<Rightarrow> rat \<Rightarrow> (bool \<times> 'b worker) option" where
  "ExecStep E W p dTimeout = do {
     st \<leftarrow> step_heap W p;
     (ok, W) \<leftarrow> (if m_bRegistered st then Some (True, W) else RegisterCallback E W p dTimeout);
     if \<not> ok then map_option (\<lambda>W. (False, W)) (delete_step W p)
     else do {
       (seq, W) \<leftarrow> Step_GetSequence W p;
       ExecStep_seq E W seq
     }
   }"


subsection \<open>Chains of steps\<close>

text \<open>\<open>Step::RegisterCallback\<close>, \<open>Step::DeleteCallback\<close> and \<open>Step::NextStep\<close>, called on the step \<open>self\<close>.\<close>

definition Step_RegisterCallback :: "'b wenv \<Rightarrow> 'b worker \<Rightarrow> nat \<Rightarrow> nat \<Rightarrow> rat \<Rightarrow> (bool \<times> 'b worker) option" where
  "Step_RegisterCallback E W self p dTimeout = do {
     (seq, W) \<leftarrow> Step_GetSequence W self;
     (ok, W) \<leftarrow> RegisterCallback_from E W seq p dTimeout;
     st \<leftarrow> step_heap W self;
     if ok \<and> m_pNextStep st = Some p then do {
       (pseq, W) \<leftarrow> Step_GetSequence W p;
       st \<leftarrow> step_heap W self;
       Some (ok, put_step W self (st\<lparr>m_setNextStepSeq := set_insert pseq (m_setNextStepSeq st)\<rparr>))
     }
     else Some (ok, W)
   }"

definition Step_DeleteCallback :: "'b worker \<Rightarrow> nat \<Rightarrow> nat \<Rightarrow> 'b worker option" where
  "Step_DeleteCallback W self p = do {
     (seq, W) \<leftarrow> Step_GetSequence W self;
     DeleteCallback_from W seq p
   }"

definition AddNextStepSeq :: "'b worker \<Rightarrow> nat \<Rightarrow> nat option \<Rightarrow> 'b worker option" where
  "AddNextStepSeq W self pStep =
     (case pStep of
        None \<Rightarrow> Some W
      | Some p \<Rightarrow> do {
          st \<leftarrow> step_heap W p;
          me \<leftarrow> step_heap W self;
          if m_bRegistered st \<and> m_bRegistered me then do {
            (seq, W) \<leftarrow> Step_GetSequence W p;
            me \<leftarrow> step_heap W self;
            Some (put_step W self (me\<lparr>m_setNextStepSeq := set_insert seq (m_setNextStepSeq me)\<rparr>))
          }
          else Some W
        })"

definition AddPreStepSeq :: "'b worker \<Rightarrow> nat \<Rightarrow> nat \<Rightarrow> 'b worker option" where
  "AddPreStepSeq W self p = do {
     st \<leftarrow> step_heap W p;
     if m_bRegistered st then do {
       (seq, W) \<leftarrow> Step_GetSequence W p;
       me \<leftarrow> step_heap W self;
       Some (put_step W self (me\<lparr>m_setPreStepSeq := set_insert seq (m_setPreStepSeq me)\<rparr>))
     }
     else Some W
   }"

definition RemovePreStepSeq :: "'b worker \<Rightarrow> nat \<Rightarrow> nat \<Rightarrow> 'b worker option" where
  "RemovePreStepSeq W self p = do {
     st \<leftarrow> step_heap W p;
     if m_bRegistered st then do {
       (seq, W) \<leftarrow> Step_GetSequence W p;
       me \<leftarrow> step_heap W self;
       Some (put_step W self (me\<lparr>m_setPreStepSeq := remove1 seq (m_setPreStepSeq me)\<rparr>))
     }
     else Some W
   }"

definition SetNextStepNull :: "'b worker \<Rightarrow> nat \<Rightarrow> 'b worker option" where
  "SetNextStepNull W self = do {
     me \<leftarrow> step_heap W self;
     Some (put_step W self (me\<lparr>m_setNextStepSeq := [], m_pNextStep := None\<rparr>))
   }"

definition DelayNextStep :: "'b worker \<Rightarrow> nat \<Rightarrow> 'b worker option" where
  "DelayNextStep W self = do {
     me \<leftarrow> step_heap W self;
     (case m_pNextStep me of
        None \<Rightarrow> Some W
      | Some q \<Rightarrow> do {
          nx \<leftarrow> step_heap W q;
          if m_bRegistered nx then DelayTimeout W q else Some W
        })
   }"

text \<open>Up to three attempts to register the next step.\<close>

fun register_next :: "'b wenv \<Rightarrow> 'b worker \<Rightarrow> nat \<Rightarrow> nat \<Rightarrow> nat \<Rightarrow> 'b worker option" where
  "register_next E W self p 0 = Some W"
| "register_next E W self p (Suc n) = do {
     (ok, W) \<leftarrow> Step_RegisterCallback E W self p 0;
     if ok then Some W else register_next E W self p n
   }"

definition NextStep_to :: "'b wenv \<Rightarrow> 'b worker \<Rightarrow> nat \<Rightarrow> nat option \<Rightarrow> (bool \<times> 'b worker) option" where
  "NextStep_to E W self pNextStep =
     (case pNextStep of
        None \<Rightarrow> Some (False, W)
      | Some p \<Rightarrow> do {
          st \<leftarrow> step_heap W p;
          W \<leftarrow> (if m_bRegistered st then Some W else register_next E W self p 3);
          st \<leftarrow> step_heap W p;
          if m_bRegistered st then do {
            (r, W) \<leftarrow> Emit E W p;
            W \<leftarrow> (if r \<noteq> STATUS_CMD_RUNNING then Step_DeleteCallback W self p else Some W);
            Some (True, W)
          }
          else Some (False, W)
        })"

fun exec_next_steps :: "'b wenv \<Rightarrow> 'b worker \<Rightarrow> nat \<Rightarrow> u32 list \<Rightarrow> 'b worker option" where
  "exec_next_steps E W self [] = Some W"
| "exec_next_steps E W self (s # ss) = do {
     (seq, W) \<leftarrow> Step_GetSequence W self;
     (_, W) \<leftarrow> ExecStep_called E W seq s;
     exec_next_steps E W self ss
   }"

text \<open>The set is traversed as it was when the loop began.\<close>

definition NextStep :: "'b wenv \<Rightarrow> 'b worker \<Rightarrow> nat \<Rightarrow> (bool \<times> 'b worker) option" where
  "NextStep E W self = do {
     me \<leftarrow> step_heap W self;
     W \<leftarrow> exec_next_steps E W self (m_setNextStepSeq me);
     me \<leftarrow> step_heap W self;
     if m_setNextStepSeq me \<noteq> [] then Some (True, W)
     else
       case m_pNextStep me of
         None \<Rightarrow> Some (False, W)
       | Some p \<Rightarrow> do {
           st \<leftarrow> step_heap W p;
           W \<leftarrow> (if m_bRegistered st then Some W else map_option snd (Step_RegisterCallback E W self p 0));
           st \<leftarrow> step_heap W p;
           if m_bRegistered st then do {
             (r, W) \<leftarrow> Emit E W p;
             if r \<noteq> STATUS_CMD_RUNNING then do {
               W \<leftarrow> Step_DeleteCallback W self p;
               me \<leftarrow> step_heap W self;
               Some (True, put_step W self (me\<lparr>m_pNextStep := None\<rparr>))
             }
             else Some (True, W)
           }
           else do {
             W \<leftarrow> delete_step W p;
             me \<leftarrow> step_heap W self;
             Some (False, put_step W self (me\<lparr>m_pNextStep := None\<rparr>))
           }
         }
   }"

subsection \<open>Sessions\<close>

definition put_session :: "'b worker \<Rightarrow> nat \<Rightarrow> session \<Rightarrow> 'b worker" where
  "put_session W p s = W\<lparr>session_heap := (session_heap W)(p \<mapsto> s)\<rparr>"

definition RegisterCallback_session :: "'b wenv \<Rightarrow> 'b worker \<Rightarrow> nat \<Rightarrow> (bool \<times> 'b worker) option" where
  "RegisterCallback_session E W p = do {
     s \<leftarrow> session_heap W p;
     if s_registered s then Some (True, W)
     else do {
       let s = s\<lparr>s_registered := True, m_activeTime := w_now W\<rparr>;
       let W = put_session W p s;
       let table = (case m_mapCallbackSession W (m_strSessionClassName s) of None \<Rightarrow> Map.empty | Some t \<Rightarrow> t);
       (case table (m_strSessionId s) of
          Some _ \<Rightarrow> Some (False, W)
        | None \<Rightarrow>
            let W = W\<lparr>m_mapCallbackSession := (m_mapCallbackSession W)(m_strSessionClassName s \<mapsto> table(m_strSessionId s \<mapsto> p))\<rparr> in
            if m_dSessionTimeout s = 0 then Some (True, W)
            else if c_malloc (e_hp E) sizeof_ev_timer = None then Some (False, W)
            else Some (True, put_session W p (s\<lparr>s_watcher := Some (Some (m_dSessionTimeout s + w_time W - w_now W))\<rparr>)))
     }
   }"

text \<open>The session that is deleted is the one in the table under the class and name of the argument.\<close>

definition DeleteCallback_session :: "'b worker \<Rightarrow> nat \<Rightarrow> 'b worker option" where
  "DeleteCallback_session W p = do {
     s \<leftarrow> session_heap W p;
     let W = put_session W p (s\<lparr>s_watcher := map_option (\<lambda>_. None) (s_watcher s)\<rparr>);
     Some (case m_mapCallbackSession W (m_strSessionClassName s) of
             None \<Rightarrow> W
           | Some table \<Rightarrow>
               case table (m_strSessionId s) of
                 None \<Rightarrow> W
               | Some q \<Rightarrow>
                   W\<lparr>session_heap := (session_heap W)(q := None),
                     m_mapCallbackSession := (m_mapCallbackSession W)(m_strSessionClassName s \<mapsto> table(m_strSessionId s := None))\<rparr>)
   }"

definition GetSession :: "'b worker \<Rightarrow> string \<Rightarrow> string \<Rightarrow> (nat option \<times> 'b worker) option" where
  "GetSession W strSessionId strSessionClass =
     (case m_mapCallbackSession W strSessionClass of
        None \<Rightarrow> Some (None, W)
      | Some table \<Rightarrow>
          case table strSessionId of
            None \<Rightarrow> Some (None, W)
          | Some p \<Rightarrow> do {
              s \<leftarrow> session_heap W p;
              Some (Some p, put_session W p (s\<lparr>m_activeTime := w_now W\<rparr>))
            })"

definition GetSession_id :: "'b worker \<Rightarrow> u64 \<Rightarrow> string \<Rightarrow> (nat option \<times> 'b worker) option" where
  "GetSession_id W uiSessionId strSessionClass = GetSession W (decimal (unat uiSessionId)) strSessionClass"

definition arm_session :: "'b worker \<Rightarrow> nat \<Rightarrow> rat \<Rightarrow> 'b worker option" where
  "arm_session W p after = do {
     s \<leftarrow> session_heap W p;
     Some (put_session W p (s\<lparr>s_watcher := Some (Some (after + w_time W - w_now W))\<rparr>))
   }"

definition SessionTimeout :: "'b wenv \<Rightarrow> 'b worker \<Rightarrow> nat \<Rightarrow> 'b worker option" where
  "SessionTimeout E W p = do {
     s \<leftarrow> session_heap W p;
     let after = m_activeTime s - w_now W + m_dSessionTimeout s;
     if after > 0 then arm_session W p after
     else do {
       (r, W) \<leftarrow> e_session_timeout E W p;
       if r = STATUS_CMD_RUNNING then do {
         s \<leftarrow> session_heap W p;
         arm_session W p (m_dSessionTimeout s)
       }
       else DeleteCallback_session W p
     }
   }"

end
