(* ===== verification/WorkerIo.thy ===== *)
theory WorkerIo
  imports WorkerStep
begin

text \<open>
  The events of a connection: \<open>IoWrite\<close>, \<open>IoError\<close>, \<open>FdTransfer\<close>, and the handling of a complete message,
  \<open>Dispose\<close>, with the preloaded commands \<open>CmdToldWorker\<close> and \<open>CmdBeat\<close>.

  The other preloaded commands (\<open>e_cmd\<close>) work on the configuration and the JSON text of node announcements, and the requests of the
  manager (\<open>e_admin\<close>) set the log level and load shared objects: they are arguments of the model, as are the
  commands and modules of the business logic.
\<close>

subsection \<open>Writable and failed descriptors\<close>

definition IoWrite :: "'b wenv \<Rightarrow> 'b worker \<Rightarrow> tagMsgShell \<Rightarrow> (bool \<times> 'b worker) option" where
  "IoWrite E W pData =
     (case m_mapFdAttr W (sh_fd pData) of
        None \<Rightarrow> Some (False, W)
      | Some pConn \<Rightarrow>
          if sh_seq pData \<noteq> ulSeq pConn \<or> sh_fd pData \<noteq> iFd pConn then Some (False, W)
          else do {
            let iNeedWriteLen = to_int32 (ReadableBytes (pSendBuff pConn));
            (iWriteLen, iErrno, pConn, W) \<leftarrow> write_fd E W (sh_fd pData) pConn;
            (alive, W) \<leftarrow> after_write E W (sh_fd pData) pConn iNeedWriteLen iWriteLen iErrno False;
            if iWriteLen = 0 \<and> ReadableBytes (pWaitForSendBuff pConn) > 0 then
              case m_mapSeq2WorkerIndex W (ulSeq pConn) of
                Some index \<Rightarrow> do {
                  let W = AddInnerFd W pData;
                  (_, W) \<leftarrow>
                    (if eCodecType pConn = CODEC_PROTOBUF then CmdConnectWorker_Start E W pData index else SendTo_waiting E W pData);
                  let W = W\<lparr>m_mapSeq2WorkerIndex := (m_mapSeq2WorkerIndex W)(ulSeq pConn := None)\<rparr>;
                  c \<leftarrow> live W pData;
                  Some (True, put_conn W (sh_fd pData) (RemoveIoWriteEvent c))
                }
              | None \<Rightarrow> map_option (\<lambda>r. (True, snd r)) (SendTo_waiting E W pData)
            else Some (True, W)
          })"

definition IoError :: "'b wenv \<Rightarrow> 'b worker \<Rightarrow> tagMsgShell \<Rightarrow> (bool \<times> 'b worker) option" where
  "IoError E W pData =
     (case m_mapFdAttr W (sh_fd pData) of
        None \<Rightarrow> Some (False, W)
      | Some c \<Rightarrow>
          if sh_seq pData \<noteq> ulSeq c then Some (False, W)
          else map_option (\<lambda>r. (True, snd r)) (DestroyConnect E W (sh_fd pData) True))"

text \<open>
  \<open>FdTransfer\<close>: the manager hands over an accepted descriptor with the peer's address and the codec.
  \<open>Inl ()\<close> is the end of the process, when the channel to the manager fails.
\<close>

definition FdTransfer :: "'b wenv \<Rightarrow> 'b worker \<Rightarrow> int \<Rightarrow> string \<Rightarrow> codec_type \<Rightarrow> (unit + bool \<times> 'b worker) option" where
  "FdTransfer E W iAcceptFd szIpAddr codec =
     (if iAcceptFd \<le> 0 then Some (Inl ())
      else do {
        let (seq, W) = GetSequence W;
        let (created, W) = CreateFdAttr W iAcceptFd seq codec;
        if created then do {
          addr \<leftarrow> remote_addr szIpAddr;
          let c = (new_conn iAcceptFd seq codec (w_now W))\<lparr>pRemoteAddr := addr\<rparr>;
          Some (Inr (True, put_conn W iAcceptFd (AddIoReadEvent (AddIoTimeout W iAcceptFd seq c (3 / 2)))))
        }
        else Some (Inr (False, W\<lparr>w_tick := w_tick W + 1\<rparr>))
      })"

subsection \<open>Preloaded commands\<close>

definition ERR_PARASE_PROTOBUF :: int where "ERR_PARASE_PROTOBUF = 10000"
definition ERR_UNKNOWN_CMD :: int where "ERR_UNKNOWN_CMD = 10002"

definition told_answer :: "'b wenv \<Rightarrow> msg_head \<Rightarrow> target_worker \<Rightarrow> msg_head \<times> 'b" where
  "told_answer E oInMsgHead tw =
     msg_of E (field (h_cmd oInMsgHead) + 1) (field (h_seq oInMsgHead)) (e_target_ser E tw)"

definition CmdToldWorker :: "'b wenv \<Rightarrow> 'b cmd" where
  "CmdToldWorker E W stMsgShell oInMsgHead oInMsgBody =
     (let unknow = (\<lambda>err msg. \<lparr>tw_err_no = err, tw_identify = ''unknow'', tw_node_type = e_node_type E, tw_err_msg = msg\<rparr>);
          answer = (\<lambda>W tw. let (head, body) = told_answer E oInMsgHead tw in map_option snd (SendTo E W stMsgShell head body)) in
      if field (h_cmd oInMsgHead) = CMD_REQ_TELL_WORKER then
        case e_target_parse E (e_body E oInMsgBody) of
          Some tw \<Rightarrow> do {
            let W = AddMsgShell W (tw_identify tw) stMsgShell;
            W \<leftarrow> AddNodeIdentify W (tw_node_type tw) (tw_identify tw);
            answer (AddInnerFd W stMsgShell) (own_target E)
          }
        | None \<Rightarrow> answer W (unknow ERR_PARASE_PROTOBUF ''WorkerLoad ParseFromString error!'')
      else answer W (unknow ERR_UNKNOWN_CMD (''invalid cmd '' @ decimal (unat (field (h_cmd oInMsgHead))) @ '' for CmdUpdateWorkerLoad'')))"

definition CmdBeat :: "'b wenv \<Rightarrow> 'b cmd" where
  "CmdBeat E W stMsgShell oInMsgHead oInMsgBody =
     map_option snd (SendTo E W stMsgShell (oInMsgHead\<lparr>h_cmd := Some (field (h_cmd oInMsgHead) + 1)\<rparr>) oInMsgBody)"

text \<open>\<open>m_mapCmd\<close> as \<open>PreloadCmd\<close> fills it.\<close>

definition preloaded_cmd :: "'b wenv \<Rightarrow> u32 \<Rightarrow> 'b cmd option" where
  "preloaded_cmd E uiCmd =
     (if uiCmd = CMD_REQ_TELL_WORKER then Some (CmdToldWorker E)
      else if uiCmd = CMD_REQ_BEAT then Some (CmdBeat E)
      else if uiCmd \<in> {15, 17, 21} then e_cmd E uiCmd else None)"

subsection \<open>Dispose\<close>

definition gc_uiCmdReq :: u32 where "gc_uiCmdReq = 1"
definition CMD_RSP_SYS_ERROR :: u32 where "CMD_RSP_SYS_ERROR = 1000"

text \<open>The answer to a request for which there is no handler.\<close>

definition unknown_cmd_answer :: "'b wenv \<Rightarrow> msg_head \<Rightarrow> msg_head \<times> 'b" where
  "unknown_cmd_answer E oInMsgHead =
     msg_of E CMD_RSP_SYS_ERROR (field (h_seq oInMsgHead))
       (e_response_ser E ERR_UNKNOWN_CMD (''no handler to dispose cmd '' @ decimal (unat (field (h_cmd oInMsgHead))) @ ''!''))"

text \<open>\<open>Dispose\<close> of a message returns \<open>true\<close> in every case; its result is the direct answer, if there is one, and the state.\<close>

definition Dispose :: "'b wenv \<Rightarrow> 'b worker \<Rightarrow> tagMsgShell \<Rightarrow> msg_head \<Rightarrow> 'b \<Rightarrow> ((msg_head \<times> 'b) option \<times> 'b worker) option" where
  "Dispose E W stMsgShell oInMsgHead oInMsgBody =
     (if gc_uiCmdReq AND field (h_cmd oInMsgHead) \<noteq> 0 then
        let uiCmd = gc_uiCmdBit AND field (h_cmd oInMsgHead);
            run = (\<lambda>cmd. map_option (\<lambda>W. (None, W)) (cmd W stMsgShell oInMsgHead oInMsgBody)) in
        case preloaded_cmd E uiCmd of
          Some cmd \<Rightarrow> run cmd
        | None \<Rightarrow>
            case e_so E uiCmd of
              Some cmd \<Rightarrow> run cmd
            | None \<Rightarrow>
                case e_admin E oInMsgHead of
                  Some cmd \<Rightarrow> run cmd
                | None \<Rightarrow> Some (Some (unknown_cmd_answer E oInMsgHead), W)
      else
        case m_mapCallbackStep W (field (h_seq oInMsgHead)) of
          None \<Rightarrow> Some (None, W)
        | Some p \<Rightarrow> do {
            st \<leftarrow> step_heap W p;
            let W = put_step W p (st\<lparr>m_dActiveTime := w_now W\<rparr>);
            (eResult, W) \<leftarrow> Callback E W p stMsgShell oInMsgHead oInMsgBody;
            W \<leftarrow> (if eResult \<noteq> STATUS_CMD_RUNNING then DeleteCallback W p else Some W);
            Some (None, W)
          })"

definition HTTP_REQUEST :: int where "HTTP_REQUEST = 0"
definition HTTP_RESPONSE :: int where "HTTP_RESPONSE = 1"

definition Dispose_http :: "'b wenv \<Rightarrow> 'b worker \<Rightarrow> tagMsgShell \<Rightarrow> http_msg \<Rightarrow> (http_msg option \<times> 'b worker) option" where
  "Dispose_http E W stMsgShell oInHttpMsg =
     (if hm_type oInHttpMsg = HTTP_REQUEST then
        let run = (\<lambda>pModule. map_option (\<lambda>W. (None, W)) (pModule W stMsgShell oInHttpMsg)) in
        case e_module E (hm_path oInHttpMsg) of
          Some pModule \<Rightarrow> run pModule
        | None \<Rightarrow>
            case e_module E ''/util/switch'' of
              Some pModule \<Rightarrow> run pModule
            | None \<Rightarrow>
                Some (Some \<lparr>hm_type = HTTP_RESPONSE, hm_major = hm_major oInHttpMsg, hm_minor = hm_minor oInHttpMsg,
                  hm_status_code = 404, hm_path = [], hm_headers = [], hm_body = []\<rparr>, W)
      else
        case m_mapHttpAttr W (sh_fd stMsgShell) of
          None \<Rightarrow> Some (None, W)
        | Some [] \<Rightarrow> Some (None, W)
        | Some (seq # seqs) \<Rightarrow> do {
            W \<leftarrow>
              (case m_mapCallbackStep W seq of
                 None \<Rightarrow> Some W
               | Some p \<Rightarrow> do {
                   st \<leftarrow> step_heap W p;
                   let W = put_step W p (st\<lparr>m_dActiveTime := w_now W\<rparr>);
                   (eResult, W) \<leftarrow> (case st_kind st of StepUser n \<Rightarrow> e_http_callback E n W p stMsgShell oInHttpMsg | _ \<Rightarrow> None);
                   if eResult \<noteq> STATUS_CMD_RUNNING then DeleteCallback W p else Some W
                 });
            (case m_mapHttpAttr W (sh_fd stMsgShell) of
               Some (_ # seqs) \<Rightarrow> Some (None, W\<lparr>m_mapHttpAttr := (m_mapHttpAttr W)(sh_fd stMsgShell \<mapsto> seqs)\<rparr>)
             | _ \<Rightarrow> None)
          })"

end
