(* ===== verification/RecvLoop.thy ===== *)
theory RecvLoop
  imports WorkerIo
begin

text \<open>
  \<open>Worker::RecvDataAndDispose\<close>: read what the descriptor has, decode as many messages as have arrived and
  handle each of them; and \<open>IoCallback\<close>, which libev calls for a descriptor.

  The watcher's data, \<open>pData\<close>, is freed with the connection.  The code reads it after \<open>Dispose\<close> to find out whether
  the connection is still there, so that a handler that closes the connection makes it read freed memory.

  The proofs are in the context of the codec contract, so that they hold for every codec that keeps it.
\<close>

subsection \<open>The handler\<close>

text \<open>\<open>DestroyConnect\<close> unless the descriptor belongs to the manager; the handler then returns \<open>false\<close>.\<close>

definition destroy_unless_manager :: "'b wenv \<Rightarrow> 'b worker \<Rightarrow> int \<Rightarrow> (bool \<times> 'b worker) option" where
  "destroy_unless_manager E W fd =
     (if fd \<noteq> e_control_fd E \<and> fd \<noteq> e_data_fd E then map_option (\<lambda>r. (False, snd r)) (DestroyConnect E W fd True)
      else Some (False, W))"

text \<open>A direct answer: encoded with the codec of the loop, written and compacted; nothing is done about an incomplete write.\<close>

definition send_reply ::
  "'b wenv \<Rightarrow> 'b worker \<Rightarrow> int \<Rightarrow> tagConnectionAttr \<Rightarrow> (codec_status \<times> cbuffer) option \<Rightarrow> 'b worker option" where
  "send_reply E W fd pConn encoded = do {
     (eCodecStatus, b) \<leftarrow> encoded;
     let pConn = pConn\<lparr>pSendBuff := b\<rparr>;
     if eCodecStatus = CODEC_STATUS_OK then do {
       (_, _, pConn, W) \<leftarrow> write_fd E W fd pConn;
       Some (put_conn W fd pConn)
     }
     else Some (put_conn W fd pConn)
   }"

text \<open>
  The change of the codec on a new connection: a failed WebSocket decoder is replaced by HTTP, a failed
  HTTP decoder by the private protocol.  \<open>Inl\<close> means that the codec is not configured.
\<close>

definition decode_as ::
  "'b wenv \<Rightarrow> tagConnectionAttr \<Rightarrow> codec_type \<Rightarrow> (tagConnectionAttr + tagConnectionAttr \<times> 'b decoded) option" where
  "decode_as E pConn t =
     (let pConn = pConn\<lparr>eCodecType := t\<rparr> in
      case e_codec E t of
        None \<Rightarrow> Some (Inl pConn)
      | Some codec \<Rightarrow> do {
          (st, r) \<leftarrow> c_dec codec (ucConnectStatus pConn, pRecvBuff pConn);
          Some (Inr (pConn\<lparr>ucConnectStatus := st, pRecvBuff := (case r of DOK _ _ b \<Rightarrow> b | DERR b \<Rightarrow> b | DPAUSE b \<Rightarrow> b)\<rparr>, r))
        })"

definition is_err :: "'b decoded \<Rightarrow> bool" where
  "is_err r \<longleftrightarrow> (case r of DERR _ \<Rightarrow> True | _ \<Rightarrow> False)"

definition switch_codec ::
  "'b wenv \<Rightarrow> tagConnectionAttr \<Rightarrow> 'b decoded \<Rightarrow> (tagConnectionAttr + tagConnectionAttr \<times> 'b decoded) option" where
  "switch_codec E pConn r =
     (if ucConnectStatus pConn \<noteq> eConnectStatus_init then Some (Inr (pConn, r))
      else do {
        x \<leftarrow> (if is_err r \<and> (eCodecType pConn = CODEC_WEBSOCKET_EX_JS \<or> eCodecType pConn = CODEC_WEBSOCKET_EX_PB)
              then decode_as E pConn CODEC_HTTP else Some (Inr (pConn, r)));
        (case x of
           Inl c \<Rightarrow> Some (Inl c)
         | Inr (pConn, r) \<Rightarrow> if is_err r \<and> eCodecType pConn = CODEC_HTTP then decode_as E pConn CODEC_PRIVATE else Some (Inr (pConn, r)))
      })"

subsection \<open>HTTP requests\<close>

text \<open>\<open>strtoul(s, NULL, 10)\<close>, as an unsigned number of 64 bits.\<close>

definition strtoul :: "string \<Rightarrow> nat" where
  "strtoul s =
     (let s = dropWhile (\<lambda>c. c = CHR '' '' \<or> 9 \<le> (of_char c :: nat) \<and> (of_char c :: nat) \<le> 13) s;
          neg = (s \<noteq> [] \<and> hd s = CHR ''-''); n = nat (digits_int (if s \<noteq> [] \<and> (hd s = CHR ''-'' \<or> hd s = CHR ''+'') then tl s else s)) in
      if n \<ge> 2 ^ 64 then 2 ^ 64 - 1 else if neg then (2 ^ 64 - n) mod 2 ^ 64 else n)"

text \<open>The loop over the headers; the result says whether the connection was closed.\<close>

fun keep_alive_headers :: "'b wenv \<Rightarrow> 'b worker \<Rightarrow> int \<Rightarrow> tagConnectionAttr \<Rightarrow> int \<Rightarrow> (string \<times> string) list \<Rightarrow> 'b worker option" where
  "keep_alive_headers E W fd pConn type [] = Some (put_conn W fd pConn)"
| "keep_alive_headers E W fd pConn type ((header_name, header_value) # hs) =
     (let timer = (\<lambda>t. AddIoTimeout W fd (ulSeq pConn) (pConn\<lparr>dKeepAlive := t\<rparr>) t) in
      if header_name = ''Keep-Alive'' then Some (put_conn W fd (timer (rat_of_nat (strtoul header_value))))
      else if header_name = ''Connection'' then
        if header_value = ''keep-alive'' then Some (put_conn W fd (timer 65))
        else if header_value = ''close'' \<and> type = HTTP_RESPONSE then
          map_option snd (DestroyConnect E (put_conn W fd (pConn\<lparr>dKeepAlive := -1\<rparr>)) fd True)
        else keep_alive_headers E W fd (timer (dKeepAlive pConn)) type hs
      else keep_alive_headers E W fd pConn type hs)"

definition is_websocket :: "codec_type \<Rightarrow> bool" where
  "is_websocket t \<longleftrightarrow> t = CODEC_WEBSOCKET_EX_PB \<or> t = CODEC_WEBSOCKET_EX_JS"

text \<open>
  A message without a command.  The result is \<open>Inl\<close> if the handler returns, with its value, and \<open>Inr\<close> with
  \<open>bDisposeResult\<close> otherwise.  \<open>AddHttpHeader\<close> changes a table inside the codec object, which is not part of the
  state.  The additional data set on the body before it is parsed is not used afterwards.  After the connection of a
  response has been closed, the code goes on to use it.
\<close>

definition http_request ::
  "'b wenv \<Rightarrow> 'b worker \<Rightarrow> tagMsgShell \<Rightarrow> tagConnectionAttr \<Rightarrow> 'b \<Rightarrow> ((bool \<times> 'b worker) + (bool \<times> 'b worker)) option" where
  "http_request E W sh pConn oInMsgBody =
     (if ReadableBytes (pClientData pConn) = 0 \<and> is_websocket (eCodecType pConn) \<and> m_mapHttpAttr W (sh_fd sh) = None
       \<or> ReadableBytes (pClientData pConn) = 0 \<and> eCodecType pConn = CODEC_HTTP \<and> m_mapHttpAttr W (sh_fd sh) = None \<and> ulMsgNum pConn > 1
      then map_option (\<lambda>r. Inl (False, snd r)) (DestroyConnect E (put_conn W (sh_fd sh) pConn) (sh_fd sh) True)
      else
        case e_http_parse E (e_body E oInMsgBody) of
          None \<Rightarrow> Some (Inr (False, put_conn W (sh_fd sh) pConn))
        | Some oInHttpMsg \<Rightarrow> do {
            let pConn = (if is_websocket (eCodecType pConn) then pConn else pConn\<lparr>dKeepAlive := 10\<rparr>);
            W \<leftarrow> keep_alive_headers E W (sh_fd sh) pConn (hm_type oInHttpMsg) (hm_headers oInHttpMsg);
            (oOutHttpMsg, W) \<leftarrow> Dispose_http E W sh oInHttpMsg;
            pConn \<leftarrow> live W sh;
            W \<leftarrow> (if dKeepAlive pConn < 0 \<and> hm_type oInHttpMsg = HTTP_RESPONSE then do {
                    (closed, W) \<leftarrow> DestroyConnect E W (sh_fd sh) True;
                    if closed then None else Some W
                  }
                  else Some W);
            (case oOutHttpMsg of
               None \<Rightarrow> Some (Inr (True, W))
             | Some out \<Rightarrow> map_option (\<lambda>W. Inr (True, W)) (send_reply E W (sh_fd sh) pConn (e_http_enc E out (pSendBuff pConn))))
          })"

subsection \<open>The loop over the messages\<close>

text \<open>
  \<open>codec\<close> is the codec that was looked up before the loop: inside the loop a second variable of the same
  name hides it, so that a change of the codec has no effect on the next iteration or on the encoding of answers.
\<close>

partial_function (option) recv_loop :: "'b wenv \<Rightarrow> tagMsgShell \<Rightarrow> 'b codec \<Rightarrow> 'b worker \<Rightarrow> (bool \<times> 'b worker) option" where
  "recv_loop E sh codec W =
     Option.bind (live W sh) (\<lambda>pConn.
     if ReadableBytes (pRecvBuff pConn) < 14 then Some (True, W)
     else Option.bind (c_dec codec (ucConnectStatus pConn, pRecvBuff pConn)) (\<lambda>(st, r).
       let pConn = pConn\<lparr>ucConnectStatus := st, pRecvBuff := (case r of DOK _ _ b \<Rightarrow> b | DERR b \<Rightarrow> b | DPAUSE b \<Rightarrow> b)\<rparr> in
       if eCodecType pConn = CODEC_TEST then
         (case r of
            DOK h b _ \<Rightarrow> map_option (\<lambda>r. (True, snd r)) (SendTo E (put_conn W (sh_fd sh) pConn) sh h (body_set (e_pb E) [111, 107] b))
          | DERR _ \<Rightarrow> destroy_unless_manager E (put_conn W (sh_fd sh) pConn) (sh_fd sh)
          | DPAUSE _ \<Rightarrow> Some (True, put_conn W (sh_fd sh) pConn))
       else Option.bind (switch_codec E pConn r) (\<lambda>x.
         case x of
           Inl pConn \<Rightarrow> destroy_unless_manager E (put_conn W (sh_fd sh) pConn) (sh_fd sh)
         | Inr (pConn, r) \<Rightarrow>
             case r of
               DERR _ \<Rightarrow> destroy_unless_manager E (put_conn W (sh_fd sh) pConn) (sh_fd sh)
             | DPAUSE _ \<Rightarrow> Some (True, put_conn W (sh_fd sh) pConn)
             | DOK oInMsgHead oInMsgBody _ \<Rightarrow>
                 let pConn = pConn\<lparr>dActiveTime := w_now W\<rparr>; W = put_conn (W\<lparr>m_iRecvNum := m_iRecvNum W + 1\<rparr>) (sh_fd sh) pConn in
                 if field (h_cmd oInMsgHead) > 0 then
                   if eCodecType pConn = CODEC_PRIVATE \<and> m_mapInnerFd W (sh_fd sh) = None \<and> ulMsgNum pConn > 1 then
                     map_option (\<lambda>r. (False, snd r)) (DestroyConnect E W (sh_fd sh) True)
                   else Option.bind (Dispose E W sh oInMsgHead oInMsgBody) (\<lambda>(out, W).
                     Option.bind (live W sh) (\<lambda>pConn.
                       case out of
                         None \<Rightarrow> recv_loop E sh codec W
                       | Some (oh, ob) \<Rightarrow>
                           Option.bind (send_reply E W (sh_fd sh) pConn (c_enc codec oh ob (pSendBuff pConn))) (\<lambda>W. recv_loop E sh codec W)))
                 else Option.bind (http_request E W sh pConn oInMsgBody) (\<lambda>y.
                   case y of
                     Inl res \<Rightarrow> Some res
                   | Inr (bDisposeResult, W) \<Rightarrow> if bDisposeResult then recv_loop E sh codec W else Some (True, W)))))"

text \<open>The read is repeated while it is interrupted; the list holds the results of the successive calls.\<close>

primrec read_again :: "heap \<Rightarrow> cbuffer \<Rightarrow> (nat \<Rightarrow> byte list + int) list \<Rightarrow> (int \<times> int \<times> cbuffer) option" where
  "read_again hp b [] = None"
| "read_again hp b (rd # rds) = do {
     (iReadLen, iErrno, b) \<leftarrow> ReadFD hp b rd 0;
     if iReadLen < 0 \<and> iErrno = c_EINTR then read_again hp b rds else Some (iReadLen, iErrno, b)
   }"

definition RecvDataAndDispose ::
  "'b wenv \<Rightarrow> 'b worker \<Rightarrow> tagMsgShell \<Rightarrow> (nat \<Rightarrow> byte list + int) list \<Rightarrow> (bool \<times> 'b worker) option" where
  "RecvDataAndDispose E W pData rds =
     (case m_mapFdAttr W (sh_fd pData) of
        None \<Rightarrow> Some (False, W)
      | Some pConn \<Rightarrow>
          let pConn = pConn\<lparr>dActiveTime := w_now W\<rparr> in
          if sh_seq pData \<noteq> ulSeq pConn then Some (False, put_conn W (sh_fd pData) pConn)
          else do {
            (_, b) \<leftarrow> Compact (e_hp E) (pRecvBuff pConn) 8192;
            (iReadLen, iErrno, b) \<leftarrow> read_again (e_hp E) b rds;
            let pConn = pConn\<lparr>pRecvBuff := b\<rparr>;
            if iReadLen > 0 then
              let W = W\<lparr>m_iRecvByte := m_iRecvByte W + word_of_int iReadLen\<rparr>;
                  pConn = pConn\<lparr>ulMsgNumUnitTime := ulMsgNumUnitTime pConn + 1, ulMsgNum := ulMsgNum pConn + 1\<rparr>;
                  W = put_conn W (sh_fd pData) pConn in
              case e_codec E (eCodecType pConn) of
                None \<Rightarrow> destroy_unless_manager E W (sh_fd pData)
              | Some codec \<Rightarrow> recv_loop E pData codec W
            else if iReadLen \<noteq> 0 \<and> iErrno = c_EAGAIN then Some (False, put_conn W (sh_fd pData) pConn)
            else destroy_unless_manager E (put_conn W (sh_fd pData) pConn) (sh_fd pData)
          })"

text \<open>
  \<open>IoCallback\<close> for a descriptor other than the manager's data channel: the watcher and its data are used for the
  second event, whatever the first one did.
\<close>

definition IoCallback ::
  "'b wenv \<Rightarrow> 'b worker \<Rightarrow> tagMsgShell \<Rightarrow> (nat \<Rightarrow> byte list + int) list \<Rightarrow> bool \<Rightarrow> bool \<Rightarrow> bool \<Rightarrow> 'b worker option" where
  "IoCallback E W pData rds bRead bWrite bError = do {
     let alive = (\<lambda>W. case live W pData of None \<Rightarrow> False | Some c \<Rightarrow> pIoWatcher c \<noteq> None);
     W \<leftarrow> (if bRead then map_option snd (RecvDataAndDispose E W pData rds) else Some W);
     W \<leftarrow> (if bWrite then if alive W then map_option snd (IoWrite E W pData) else None else Some W);
     (if bError then if alive W then map_option snd (IoError E W pData) else None else Some W)
   }"


subsection \<open>A stream of messages survives every fragmentation\<close>

text \<open>An observation of the state that the bookkeeping of the receive handler does not touch.\<close>

definition observation :: "('b worker \<Rightarrow> 's) \<Rightarrow> bool" where
  "observation obs \<longleftrightarrow> (\<forall>W fd c. obs (put_conn W fd c) = obs W)
     \<and> (\<forall>W n. obs (W\<lparr>m_iRecvNum := n\<rparr>) = obs W) \<and> (\<forall>W n. obs (W\<lparr>m_iRecvByte := n\<rparr>) = obs W)"

text \<open>
  Handlers that take the messages \<open>M\<close> of a connection, leave the connection open and its input buffer alone and
  give no direct answer; \<open>f\<close> is their effect on what is observed.
\<close>

definition accepts :: "'b wenv \<Rightarrow> tagMsgShell \<Rightarrow> ('b worker \<Rightarrow> 's) \<Rightarrow> ('s \<Rightarrow> msg_head \<times> 'b \<Rightarrow> 's) \<Rightarrow> (msg_head \<times> 'b) set \<Rightarrow> bool" where
  "accepts E sh obs f M \<longleftrightarrow> (\<forall>W c m. m \<in> M \<longrightarrow> live W sh = Some c \<longrightarrow>
     (\<exists>W' c'. Dispose E W sh (fst m) (snd m) = Some (None, W') \<and> live W' sh = Some c' \<and> pRecvBuff c' = pRecvBuff c
        \<and> eCodecType c' = eCodecType c \<and> m_mapInnerFd W' = m_mapInnerFd W \<and> obs W' = f (obs W) m))"

text \<open>Messages are accepted on a connection that does not use the private protocol, or that is an internal one.\<close>

definition admitted :: "'b worker \<Rightarrow> tagMsgShell \<Rightarrow> tagConnectionAttr \<Rightarrow> bool" where
  "admitted W sh c \<longleftrightarrow> eCodecType c \<noteq> CODEC_TEST \<and> (eCodecType c \<noteq> CODEC_PRIVATE \<or> m_mapInnerFd W (sh_fd sh) \<noteq> None)"

text \<open>A codec object whose \<open>Decode\<close> of a connection runs \<open>dec\<close> on the buffer.\<close>

definition decodes_with :: "(cbuffer \<Rightarrow> 'b decoded option) \<Rightarrow> 'b codec \<Rightarrow> bool" where
  "decodes_with dec codec \<longleftrightarrow> (\<exists>g. \<forall>st b. c_dec codec (st, b) = map_option (\<lambda>r. (g st r, r)) (dec b))"

lemma switch_codec_same: "\<not> is_err r \<Longrightarrow> switch_codec E c r = Some (Inr (c, r))"
  by (simp add: switch_codec_def)

lemma live_put [simp]: "live (put_conn W (sh_fd sh) c) sh = (if ulSeq c = sh_seq sh then Some c else None)"
  by (simp add: live_def)

definition partial_frame :: "('m \<Rightarrow> bool) \<Rightarrow> ('m \<Rightarrow> byte list) \<Rightarrow> byte list \<Rightarrow> bool" where
  "partial_frame valid frame p \<longleftrightarrow> p = [] \<or> (\<exists>m. valid m \<and> strict_prefix p (frame m))"

lemma partial_prefix: "partial_frame valid frame (p @ q) \<Longrightarrow> partial_frame valid frame p"
  unfolding partial_frame_def using prefix_order.le_less_trans [of p "p @ q"] by auto

context stream_codec
begin

lemma cut_stream:
  "\<forall>m\<in>set ms. valid m \<Longrightarrow> partial_frame valid frame p \<Longrightarrow> y @ z = concat (map frame ms) @ p \<Longrightarrow>
     \<exists>ms1 ms2 q. ms = ms1 @ ms2 \<and> y = concat (map frame ms1) @ q \<and> partial_frame valid frame q \<and> q @ z = concat (map frame ms2) @ p
       \<and> (ms2 \<noteq> [] \<longrightarrow> length q < length (frame (hd ms2)))"
proof (induction ms arbitrary: y)
  case Nil
  then have "partial_frame valid frame y" using partial_prefix [of valid frame y z] by simp
  then show ?case using Nil by auto
next
  case (Cons m ms)
  show ?case
  proof (cases "length y < length (frame m)")
    case True
    then obtain us where "y @ us = frame m" using Cons.prems(3) by (auto simp: append_eq_append_conv2)
    then have "strict_prefix y (frame m)" using True prefixI [of "frame m" y us] by (auto simp: strict_prefix_def)
    then have "partial_frame valid frame y" using Cons.prems(1) by (auto simp: partial_frame_def)
    then show ?thesis using Cons.prems(3) by (intro exI [of _ "[]"] exI [of _ "m # ms"] exI [of _ y]) (simp add: True)
  next
    case False
    then have "take (length (frame m)) y = frame m"
      using arg_cong [OF Cons.prems(3), of "take (length (frame m))"] by simp
    then obtain y' where y: "y = frame m @ y'" by (metis append_take_drop_id)
    then obtain ms1 ms2 q where "ms = ms1 @ ms2" "y' = concat (map frame ms1) @ q" "partial_frame valid frame q" "q @ z = concat (map frame ms2) @ p"
      "ms2 \<noteq> [] \<longrightarrow> length q < length (frame (hd ms2))"
      using Cons.IH [of y'] Cons.prems by auto
    then show ?thesis using y by (intro exI [of _ "m # ms1"] exI [of _ ms2] exI [of _ q]) simp
  qed
qed

lemma loop_pause:
  assumes "decodes_with dec codec" "partial_frame valid frame p" "live W sh = Some c" "admitted W sh c"
    "buf_ok (pRecvBuff c)" "cb_data (pRecvBuff c) = p"
  shows "\<exists>W' c'. recv_loop E sh codec W = Some (True, W') \<and> live W' sh = Some c' \<and> eCodecType c' = eCodecType c
    \<and> m_mapInnerFd W' = m_mapInnerFd W \<and> pRecvBuff c' = pRecvBuff c \<and> (W' = W \<or> (\<exists>fd d. W' = put_conn W fd d))"
proof (cases "length p < 14")
  case True
  then show ?thesis using assms buf_ok_readable [of "pRecvBuff c"] by (subst recv_loop.simps) simp
next
  case False
  obtain g where g: "\<And>st b. c_dec codec (st, b) = map_option (\<lambda>r. (g st r, r)) (dec b)" using assms(1) by (auto simp: decodes_with_def)
  have "p \<noteq> []" using False by auto
  then obtain m where "valid m" "strict_prefix p (frame m)" using assms(2) by (auto simp: partial_frame_def)
  then have d: "dec (pRecvBuff c) = Some (DPAUSE (pRecvBuff c))" using assms(5,6) by (intro dec_partial) auto
  let ?c = "c\<lparr>ucConnectStatus := g (ucConnectStatus c) (DPAUSE (pRecvBuff c)), pRecvBuff := pRecvBuff c\<rparr>"
  have "recv_loop E sh codec W = Some (True, put_conn W (sh_fd sh) ?c)"
    using assms(3,4,6) False d g buf_ok_readable [OF assms(5)] by (subst recv_loop.simps) (simp add: switch_codec_same is_err_def admitted_def)
  then show ?thesis using assms(3) by (auto simp: live_Some)
qed

lemma loop_step:
  assumes "decodes_with dec codec" "accepts E sh obs f M" "observation obs" "seen m \<in> M"
    and m: "valid m" "field (h_cmd (fst (seen m))) \<noteq> 0"
    and c: "live W sh = Some c" "admitted W sh c" "buf_ok (pRecvBuff c)" "cb_data (pRecvBuff c) = frame m @ q"
  shows "\<exists>W' c'. recv_loop E sh codec W = recv_loop E sh codec W' \<and> live W' sh = Some c' \<and> eCodecType c' = eCodecType c
    \<and> m_mapInnerFd W' = m_mapInnerFd W \<and> pRecvBuff c' = (pRecvBuff c)\<lparr>m_read_idx := m_read_idx (pRecvBuff c) + length (frame m)\<rparr>
    \<and> obs W' = f (obs W) (seen m)"
proof -
  obtain g where g: "\<And>st b. c_dec codec (st, b) = map_option (\<lambda>r. (g st r, r)) (dec b)" using assms(1) by (auto simp: decodes_with_def)
  let ?b = "(pRecvBuff c)\<lparr>m_read_idx := m_read_idx (pRecvBuff c) + length (frame m)\<rparr>" let ?r = "DOK (fst (seen m)) (snd (seen m)) ?b"
  have d: "dec (pRecvBuff c) = Some ?r" using m(1) c(3,4) by (intro dec_frame) auto
  have r: "\<not> ReadableBytes (pRecvBuff c) < 14" using buf_ok_readable [OF c(3)] frame_min [OF m(1)] c(4) by auto
  let ?c = "c\<lparr>ucConnectStatus := g (ucConnectStatus c) ?r, pRecvBuff := ?b, dActiveTime := w_now W\<rparr>"
  let ?W = "put_conn (W\<lparr>m_iRecvNum := m_iRecvNum W + 1\<rparr>) (sh_fd sh) ?c"
  have W: "live ?W sh = Some ?c" "m_mapInnerFd ?W = m_mapInnerFd W" "obs ?W = obs W" using c(1) assms(3) by (auto simp: live_Some observation_def)
  obtain W' c' where W': "Dispose E ?W sh (fst (seen m)) (snd (seen m)) = Some (None, W')" "live W' sh = Some c'" "pRecvBuff c' = pRecvBuff ?c"
    "eCodecType c' = eCodecType ?c" "m_mapInnerFd W' = m_mapInnerFd ?W" "obs W' = f (obs ?W) (seen m)"
    using assms(2,4) W(1) unfolding accepts_def by blast
  have "recv_loop E sh codec W = recv_loop E sh codec W'"
    using c(1,2) r d g m(2) W'(1,2) by (subst recv_loop.simps) (auto simp: switch_codec_same is_err_def admitted_def word_neq_0_conv Let_def)
  then show ?thesis using W' W by auto
qed

lemma loop_drains:
  assumes E: "decodes_with dec codec" "accepts E sh obs f M" "observation obs"
  shows "\<forall>m\<in>set ms. valid m \<and> seen m \<in> M \<and> field (h_cmd (fst (seen m))) \<noteq> 0 \<Longrightarrow> partial_frame valid frame p \<Longrightarrow>
    live W sh = Some c \<Longrightarrow> admitted W sh c \<Longrightarrow> buf_ok (pRecvBuff c) \<Longrightarrow> cb_data (pRecvBuff c) = concat (map frame ms) @ p \<Longrightarrow>
    \<exists>W' c'. recv_loop E sh codec W = Some (True, W') \<and> live W' sh = Some c' \<and> eCodecType c' = eCodecType c
      \<and> m_mapInnerFd W' = m_mapInnerFd W \<and> obs W' = fold (\<lambda>m s. f s (seen m)) ms (obs W)
      \<and> buf_ok (pRecvBuff c') \<and> cb_data (pRecvBuff c') = p
      \<and> m_write_idx (pRecvBuff c') = m_write_idx (pRecvBuff c) \<and> m_buffer_len (pRecvBuff c') = m_buffer_len (pRecvBuff c)"
proof (induction ms arbitrary: W c)
  case Nil
  have "\<exists>W' c'. recv_loop E sh codec W = Some (True, W') \<and> live W' sh = Some c' \<and> eCodecType c' = eCodecType c
    \<and> m_mapInnerFd W' = m_mapInnerFd W \<and> pRecvBuff c' = pRecvBuff c \<and> (W' = W \<or> (\<exists>fd d. W' = put_conn W fd d))"
    using loop_pause [OF E(1) Nil.prems(2-5), of E] Nil.prems(6) by simp
  then obtain W' c' where "recv_loop E sh codec W = Some (True, W')" "live W' sh = Some c'" "eCodecType c' = eCodecType c"
    "m_mapInnerFd W' = m_mapInnerFd W" "pRecvBuff c' = pRecvBuff c" "obs W' = obs W" using E(3) unfolding observation_def by metis
  then show ?case using Nil.prems(5,6) by auto
next
  case (Cons m ms)
  obtain W' c' where W': "recv_loop E sh codec W = recv_loop E sh codec W'" "live W' sh = Some c'" "eCodecType c' = eCodecType c"
    "m_mapInnerFd W' = m_mapInnerFd W" "pRecvBuff c' = (pRecvBuff c)\<lparr>m_read_idx := m_read_idx (pRecvBuff c) + length (frame m)\<rparr>"
    "obs W' = f (obs W) (seen m)"
    using loop_step [OF E, of m W c "concat (map frame ms) @ p"] Cons.prems by auto
  have "buf_ok (pRecvBuff c')" "cb_data (pRecvBuff c') = concat (map frame ms) @ p" "admitted W' sh c'"
    using W' Cons.prems(4-6) advance_ok [OF Cons.prems(5), of "length (frame m)"] by (auto simp: admitted_def)
  then obtain W2 c2 where "recv_loop E sh codec W' = Some (True, W2)" "live W2 sh = Some c2" "eCodecType c2 = eCodecType c'"
    "m_mapInnerFd W2 = m_mapInnerFd W'" "obs W2 = fold (\<lambda>m s. f s (seen m)) ms (obs W')" "buf_ok (pRecvBuff c2)" "cb_data (pRecvBuff c2) = p"
    "m_write_idx (pRecvBuff c2) = m_write_idx (pRecvBuff c')" "m_buffer_len (pRecvBuff c2) = m_buffer_len (pRecvBuff c')"
    using Cons.IH [of W' c'] Cons.prems W'(2) by auto
  then show ?case using W' by (intro exI [of _ W2] exI [of _ c2]) simp
qed

end

subsection \<open>Reads\<close>

lemma ReadFD_success:
  assumes "fst hp = (\<lambda>_. True)" "recv_ok b" "m_write_idx b + length xs < 2 ^ 30"
    and rd: "\<And>room. rd room = Inl xs"
  shows "\<exists>b'. ReadFD hp b rd err = Some (int (length xs), err, b') \<and> recv_ok b' \<and> cb_data b' = cb_data b @ xs
    \<and> m_write_idx b' \<le> m_write_idx b + length xs"
proof (cases "length xs \<le> WriteableBytes b")
  case True
  then show ?thesis using store_at_write [of b xs] assms(2) rd by (auto simp: ReadFD_def Let_def recv_ok_def Capacity_def)
next
  case False
  let ?w = "WriteableBytes b"
  have inv: "cb_inv b" and full: "m_write_idx b + ?w = m_buffer_len b" using assms(2)
    by (auto simp: recv_ok_def WriteableBytes_inv cb_inv_def)
  obtain m where m: "mem_write (m_buffer b) (m_write_idx b) (take ?w xs) = Some m"
    "cb_inv (b\<lparr>m_buffer := m, m_write_idx := m_buffer_len b\<rparr>)"
    "cb_data (b\<lparr>m_buffer := m, m_write_idx := m_buffer_len b\<rparr>) = cb_data b @ take ?w xs"
    using store_at_write [OF inv, of "take ?w xs"] False full by auto
  let ?b = "b\<lparr>m_buffer := m, m_write_idx := m_buffer_len b\<rparr>"
  have "recv_ok ?b" using m(2) assms(2) by (simp add: recv_ok_def Capacity_def)
  moreover have "m_write_idx ?b + length (drop ?w xs) = m_write_idx b + length xs" using False full by simp
  ultimately obtain b' where "Write hp ?b (drop ?w xs) = Some (int (length (drop ?w xs)), b')" "recv_ok b'"
    "cb_data b' = cb_data ?b @ drop ?w xs" "m_write_idx b' \<le> m_write_idx b + length xs"
    using Write_success [OF assms(1), of ?b "drop ?w xs"] assms(3) by auto
  then show ?thesis using rd False m by (auto simp: ReadFD_def Let_def)
qed

lemma Compact_recv:
  assumes "recv_ok b"
  shows "\<exists>r b'. Compact hp b n = Some (r, b') \<and> recv_ok b' \<and> cb_data b' = cb_data b \<and> m_write_idx b' \<le> m_write_idx b"
proof -
  have inv: "cb_inv b" "ReadableBytes b < 2 ^ 32" and rb: "ReadableBytes b \<le> m_buffer_len b"
    using assms by (auto simp: recv_ok_def Capacity_def ReadableBytes_inv cb_inv_def)
  obtain r b' where c: "Compact hp b n = Some (r, b')" "cb_inv b'" "cb_data b' = cb_data b" "m_write_idx b' \<le> m_write_idx b"
    using Compact_ok [OF inv] by blast
  have "m_buffer_len b' \<le> m_buffer_len b"
    using c(1) rb by (auto simp: Compact_def Let_def trunc32_def split: if_splits option.splits bind_splits intro: le_trans [OF mod_less_eq_dividend])
  then show ?thesis using c assms by (auto simp: recv_ok_def Capacity_def)
qed



text \<open>One event after the other on a connection: each reads one chunk.\<close>

fun recv_run :: "'b wenv \<Rightarrow> 'b worker \<Rightarrow> tagMsgShell \<Rightarrow> byte list list \<Rightarrow> 'b worker option" where
  "recv_run E W sh [] = Some W"
| "recv_run E W sh (x # xs) = Option.bind (RecvDataAndDispose E W sh [\<lambda>_. Inl x]) (\<lambda>(_, W). recv_run E W sh xs)"

context stream_codec
begin

lemma recv_step:
  assumes E: "e_codec E t = Some codec" "decodes_with dec codec" "accepts E sh obs f M" "observation obs" and hp: "fst (e_hp E) = (\<lambda>_. True)"
    and c: "live W sh = Some c" "eCodecType c = t" "admitted W sh c" "recv_ok (pRecvBuff c)" "m_write_idx (pRecvBuff c) + length x < 2 ^ 30" "x \<noteq> []"
    and d: "cb_data (pRecvBuff c) @ x = concat (map frame ms) @ q" "partial_frame valid frame q"
      "\<forall>m\<in>set ms. valid m \<and> seen m \<in> M \<and> field (h_cmd (fst (seen m))) \<noteq> 0"
  shows "\<exists>W' c'. RecvDataAndDispose E W sh [\<lambda>_. Inl x] = Some (True, W') \<and> live W' sh = Some c'
    \<and> eCodecType c' = t \<and> admitted W' sh c' \<and> recv_ok (pRecvBuff c') \<and> cb_data (pRecvBuff c') = q
    \<and> obs W' = fold (\<lambda>m s. f s (seen m)) ms (obs W)
    \<and> m_write_idx (pRecvBuff c') \<le> m_write_idx (pRecvBuff c) + length x"
proof -
  obtain r b1 where b1: "Compact (e_hp E) (pRecvBuff c) 8192 = Some (r, b1)" "recv_ok b1" "cb_data b1 = cb_data (pRecvBuff c)"
    "m_write_idx b1 \<le> m_write_idx (pRecvBuff c)" using Compact_recv [OF c(4)] by blast
  obtain b2 where b2: "ReadFD (e_hp E) b1 (\<lambda>_. Inl x) 0 = Some (int (length x), 0, b2)" "recv_ok b2" "cb_data b2 = cb_data b1 @ x"
    "m_write_idx b2 \<le> m_write_idx b1 + length x" using ReadFD_success [OF hp b1(2), of x "\<lambda>_. Inl x" 0] b1(4) c(5) by auto
  let ?c = "c\<lparr>dActiveTime := w_now W, pRecvBuff := b2, ulMsgNumUnitTime := ulMsgNumUnitTime c + 1, ulMsgNum := ulMsgNum c + 1\<rparr>"
  let ?W = "put_conn (W\<lparr>m_iRecvByte := m_iRecvByte W + word_of_int (int (length x))\<rparr>) (sh_fd sh) ?c"
  have W: "live ?W sh = Some ?c" "admitted ?W sh ?c" "obs ?W = obs W"
    using c(1,3) E(4) by (auto simp: live_Some admitted_def observation_def)
  have "RecvDataAndDispose E W sh [\<lambda>_. Inl x] = recv_loop E sh codec ?W"
    using c(1,2,6) b1(1) b2(1) E(1) by (auto simp: RecvDataAndDispose_def live_Some Let_def)
  moreover have "buf_ok b2" using b2 b1(4) c(5) by (simp add: buf_ok_def recv_ok_def)
  then obtain W' c' where "recv_loop E sh codec ?W = Some (True, W')" "live W' sh = Some c'" "eCodecType c' = eCodecType c"
    "m_mapInnerFd W' = m_mapInnerFd W" "obs W' = fold (\<lambda>m s. f s (seen m)) ms (obs W)"
    "buf_ok (pRecvBuff c')" "cb_data (pRecvBuff c') = q" "m_write_idx (pRecvBuff c') = m_write_idx b2" "m_buffer_len (pRecvBuff c') = m_buffer_len b2"
    using loop_drains [OF E(2-4) d(3,2) W(1,2)] d(1) b1(3) b2(3) W(3) by auto
  ultimately show ?thesis using b1(4) b2(2,4) c(2,3) by (auto simp: admitted_def recv_ok_def buf_ok_def Capacity_def)
qed

lemma recv_stream:
  assumes E: "e_codec E t = Some codec" "decodes_with dec codec" "accepts E sh obs f M" "observation obs" and hp: "fst (e_hp E) = (\<lambda>_. True)"
    and p: "partial_frame valid frame p"
  shows "live W sh = Some c \<Longrightarrow> eCodecType c = t \<Longrightarrow> admitted W sh c \<Longrightarrow> recv_ok (pRecvBuff c) \<Longrightarrow>
    m_write_idx (pRecvBuff c) + length (concat xs) < 2 ^ 30 \<Longrightarrow> [] \<notin> set xs \<Longrightarrow>
    \<forall>m\<in>set ms. valid m \<and> seen m \<in> M \<and> field (h_cmd (fst (seen m))) \<noteq> 0 \<Longrightarrow>
    (ms \<noteq> [] \<longrightarrow> length (cb_data (pRecvBuff c)) < length (frame (hd ms))) \<Longrightarrow>
    cb_data (pRecvBuff c) @ concat xs = concat (map frame ms) @ p \<Longrightarrow>
    \<exists>W' c'. recv_run E W sh xs = Some W' \<and> obs W' = fold (\<lambda>m s. f s (seen m)) ms (obs W)
      \<and> live W' sh = Some c' \<and> cb_data (pRecvBuff c') = p"
proof (induction xs arbitrary: W c ms)
  case Nil
  have "ms = []" using Nil.prems(8,9) by (cases ms) auto
  then show ?case using Nil by simp
next
  case (Cons x xs)
  have valid: "\<forall>m\<in>set ms. valid m" using Cons.prems(7) by blast
  obtain ms1 ms2 q where cut: "ms = ms1 @ ms2" "cb_data (pRecvBuff c) @ x = concat (map frame ms1) @ q"
    "partial_frame valid frame q" "q @ concat xs = concat (map frame ms2) @ p"
    "ms2 \<noteq> [] \<longrightarrow> length q < length (frame (hd ms2))"
    using cut_stream [OF valid p, of "cb_data (pRecvBuff c) @ x" "concat xs"] Cons.prems(9) by auto
  obtain W' c' where W': "RecvDataAndDispose E W sh [\<lambda>_. Inl x] = Some (True, W')" "live W' sh = Some c'"
    "eCodecType c' = t" "admitted W' sh c'" "recv_ok (pRecvBuff c')" "cb_data (pRecvBuff c') = q"
    "obs W' = fold (\<lambda>m s. f s (seen m)) ms1 (obs W)" "m_write_idx (pRecvBuff c') \<le> m_write_idx (pRecvBuff c) + length x"
    using recv_step [OF E hp Cons.prems(1-4) _ _ cut(2,3)] Cons.prems cut(1) by auto
  then obtain W2 c2 where "recv_run E W' sh xs = Some W2" "obs W2 = fold (\<lambda>m s. f s (seen m)) ms2 (obs W')"
    "live W2 sh = Some c2" "cb_data (pRecvBuff c2) = p"
    using Cons.IH [of W' c' ms2] Cons.prems cut by auto
  then show ?case using W' cut(1) by auto
qed

end


subsection \<open>Properties\<close>

lemma decodes_with_conn:
  "c_dec codec = ProtoCodec_Decode_conn P b0 \<Longrightarrow> decodes_with (ProtoCodec_Decode P b0) codec"
  "c_dec codec = ClientMsgCodec_Decode_conn P Z key hp b0 \<Longrightarrow> decodes_with (ClientMsgCodec_Decode P Z key hp b0) codec"
proof -
  show "c_dec codec = ProtoCodec_Decode_conn P b0 \<Longrightarrow> decodes_with (ProtoCodec_Decode P b0) codec"
    unfolding decodes_with_def by (rule exI [of _ status_after_inner]) (simp add: ProtoCodec_Decode_conn_def)
  show "c_dec codec = ClientMsgCodec_Decode_conn P Z key hp b0 \<Longrightarrow> decodes_with (ClientMsgCodec_Decode P Z key hp b0) codec"
    unfolding decodes_with_def
    by (rule exI [of _ "\<lambda>st r. case r of DOK _ _ _ \<Rightarrow> if st = eConnectStatus_init then eConnectStatus_ok else st | _ \<Rightarrow> st"])
      (auto simp: ClientMsgCodec_Decode_conn_def intro!: option.map_cong0 split: decoded.splits)
qed

lemma proto_stream:
  assumes "e_codec E CODEC_PROTOBUF = Some codec" "c_dec codec = ProtoCodec_Decode_conn P (body_clear P)" "fst (e_hp E) = (\<lambda>_. True)"
    and "observation obs" "accepts E sh obs f (set ms)"
    and "live W sh = Some c" "eCodecType c = CODEC_PROTOBUF" "recv_ok (pRecvBuff c)" "cb_data (pRecvBuff c) = []"
    and "m_write_idx (pRecvBuff c) + length (concat chunks) < 2 ^ 30" "[] \<notin> set chunks"
    and "\<forall>m\<in>set ms. proto_valid P m \<and> field (h_cmd (fst m)) \<noteq> 0"
    and "partial_frame (proto_valid P) (proto_frame P) rest"
    and "concat chunks = concat (map (proto_frame P) ms) @ rest"
  shows "\<exists>W' c'. recv_run E W sh chunks = Some W' \<and> obs W' = fold (\<lambda>m s. f s m) ms (obs W)
    \<and> live W' sh = Some c' \<and> cb_data (pRecvBuff c') = rest"
proof -
  have "ms \<noteq> [] \<longrightarrow> length (cb_data (pRecvBuff c)) < length (proto_frame P (hd ms))"
    using assms(9,12) proto.frame_min [of P "hd ms"] by fastforce
  then show ?thesis
    using proto.recv_stream [OF assms(1) decodes_with_conn(1) [OF assms(2)] assms(5,4,3,13,6,7) _ assms(8,10,11), of ms] assms(7,9,12,14)
    by (auto simp: admitted_def)
qed


text \<open>An environment whose loaded command records the sequence numbers of the messages it gets.\<close>

definition record_cmd :: "'b cmd" where
  "record_cmd W sh h b = Some (W\<lparr>m_mapHttpAttr := (m_mapHttpAttr W)(0 \<mapsto> (case m_mapHttpAttr W 0 of None \<Rightarrow> [] | Some l \<Rightarrow> l) @ [field (h_seq h)])\<rparr>)"

definition recorded :: "'b worker \<Rightarrow> u32 list" where
  "recorded W = (case m_mapHttpAttr W 0 of None \<Rightarrow> [] | Some l \<Rightarrow> l)"

definition record_env :: "byte list wenv" where
  "record_env = sample_env\<lparr>e_so := \<lambda>_. Some record_cmd,
     e_codec := (\<lambda>t. if t = CODEC_PRIVATE
       then Some \<lparr>c_enc = ClientMsgCodec_Encode sample_pb no_zlib [] (\<lambda>_. True, \<lambda>_. 0),
         c_dec = ClientMsgCodec_Decode_conn sample_pb no_zlib [] (\<lambda>_. True, \<lambda>_. 0) (body_clear sample_pb)\<rparr>
       else Some \<lparr>c_enc = ProtoCodec_Encode sample_pb (\<lambda>_. True, \<lambda>_. 0), c_dec = ProtoCodec_Decode_conn sample_pb (body_clear sample_pb)\<rparr>)\<rparr>"

lemma record_env_simps:
  "\<exists>codec. e_codec record_env CODEC_PROTOBUF = Some codec \<and> c_dec codec = ProtoCodec_Decode_conn sample_pb (body_clear sample_pb)"
  "\<exists>codec. e_codec record_env CODEC_PRIVATE = Some codec
    \<and> c_dec codec = ClientMsgCodec_Decode_conn sample_pb no_zlib [] (\<lambda>_. True, \<lambda>_. 0) (body_clear sample_pb)"
  "fst (e_hp record_env) = (\<lambda>_. True)"
  by (simp_all add: record_env_def sample_env_def)

lemma accepts_subset: "accepts E sh obs f M \<Longrightarrow> N \<subseteq> M \<Longrightarrow> accepts E sh obs f N"
  unfolding accepts_def by blast

lemma record_ok:
  "observation recorded"
  "accepts record_env sh recorded (\<lambda>s m. s @ [field (h_seq (fst m))]) {sample_msg, client_seen sample_msg}"
proof -
  show "observation recorded" by (simp add: observation_def recorded_def)
  have "Dispose record_env W sh (fst m) (snd m) = map_option (\<lambda>W. (None, W)) (record_cmd W sh (fst m) (snd m))"
    if "m \<in> {sample_msg, client_seen sample_msg}" for W m
  proof -
    have "field (h_cmd (fst m)) = 1001" using that by (auto simp: sample_msg_def client_seen_def field_def)
    moreover have "gc_uiCmdReq AND 1001 \<noteq> 0" "gc_uiCmdBit AND 1001 = 1001" by (simp_all add: gc_uiCmdReq_def gc_uiCmdBit_def)
    ultimately show ?thesis
      by (simp add: Dispose_def preloaded_cmd_def CMD_REQ_TELL_WORKER_def CMD_REQ_BEAT_def record_env_def)
  qed
  then show "accepts record_env sh recorded (\<lambda>s m. s @ [field (h_seq (fst m))]) {sample_msg, client_seen sample_msg}"
    by (auto simp: accepts_def record_cmd_def live_def recorded_def split: option.splits)
qed

lemma new_conn_recv: "recv_ok (pRecvBuff (new_conn fd q t now))" "cb_data (pRecvBuff (new_conn fd q t now)) = []"
  "m_write_idx (pRecvBuff (new_conn fd q t now)) = 0"
  by (simp_all add: new_conn_def recv_ok_def Capacity_def) (simp_all add: CBuffer_new_def)





lemma proto_loop_decodes:
  assumes "c_dec codec = ProtoCodec_Decode_conn P (body_clear P)" "proto_valid P m" "live W sh = Some c" "buf_ok (pRecvBuff c)"
    "cb_data (pRecvBuff c) = proto_frame P m @ rest"
  defines "b \<equiv> (pRecvBuff c)\<lparr>m_read_idx := m_read_idx (pRecvBuff c) + length (proto_frame P m)\<rparr>"
  shows "\<not> ReadableBytes (pRecvBuff c) < 14 \<and> c_dec codec (ucConnectStatus c, pRecvBuff c)
      = Some (status_after_inner (ucConnectStatus c) (DOK (fst m) (snd m) b), DOK (fst m) (snd m) b)
    \<and> cb_data b = rest"
  using assms(1) proto_dec_frame [OF assms(4,2,5)] buf_ok_readable [OF assms(4)] proto.frame_min [OF assms(2)] assms(5)
    advance_ok(2) [OF assms(4), of "length (proto_frame P m)"] unfolding b_def by (auto simp: ProtoCodec_Decode_conn_def)

text \<open>
  A message without a command holds up the messages behind it: on a connection between nodes, a complete
  message with command 0 whose body is no HTTP message is dropped and the loop is left, although complete frames may
  follow in the buffer; they stay there until further data arrives on the connection.
\<close>

theorem command_zero_stalls:
  assumes "c_dec codec = ProtoCodec_Decode_conn P (body_clear P)" "proto_valid P m" "field (h_cmd (fst m)) = 0" "e_http_parse E (e_body E (snd m)) = None"
    and "live W sh = Some c" "eCodecType c = CODEC_PROTOBUF" "buf_ok (pRecvBuff c)" "cb_data (pRecvBuff c) = proto_frame P m @ rest"
  shows "\<exists>W' c'. recv_loop E sh codec W = Some (True, W') \<and> live W' sh = Some c' \<and> cb_data (pRecvBuff c') = rest"
proof -
  have "ulSeq c = sh_seq sh" using assms(5) by (simp add: live_Some)
  then show ?thesis using proto_loop_decodes [OF assms(1,2,5,7,8)] assms(3-6)
    by (subst recv_loop.simps) (simp add: switch_codec_same is_err_def Let_def http_request_def is_websocket_def)
qed

text \<open>A connection of the example with data in its input buffer.\<close>

definition with_input :: "byte list \<Rightarrow> byte list worker" where
  "with_input bs = put_conn one_conn 5 ((new_conn 5 1 CODEC_PROTOBUF 0)\<lparr>pRecvBuff := sample_buffer bs\<rparr>)"

lemma with_input_simps:
  "live (with_input bs) \<lparr>sh_fd = 5, sh_seq = 1\<rparr> = Some ((new_conn 5 1 CODEC_PROTOBUF 0)\<lparr>pRecvBuff := sample_buffer bs\<rparr>)"
  "length bs < 2 ^ 31 \<Longrightarrow> buf_ok (sample_buffer bs)" "cb_data (sample_buffer bs) = bs"
proof -
  show "live (with_input bs) \<lparr>sh_fd = 5, sh_seq = 1\<rparr> = Some ((new_conn 5 1 CODEC_PROTOBUF 0)\<lparr>pRecvBuff := sample_buffer bs\<rparr>)"
    by (simp add: with_input_def live_def) (simp add: new_conn_def)
  show "length bs < 2 ^ 31 \<Longrightarrow> buf_ok (sample_buffer bs)" using sample_buffer_inv [of bs] by (simp add: buf_ok_def) (simp add: sample_buffer_def)
  show "cb_data (sample_buffer bs) = bs" by (simp add: cb_data_def sample_buffer_def)
qed

definition beat_msg :: "msg_head \<times> byte list" where
  "beat_msg = (\<lparr>h_cmd = Some 0, h_msgbody_len = Some 0, h_seq = Some 9, h_checksum = None\<rparr>, body_clear sample_pb)"

lemma beat_msg_valid: "proto_valid sample_pb beat_msg" "length (proto_frame sample_pb beat_msg) = 15"
proof -
  have "body_ser sample_pb (body_clear sample_pb) = []" by (simp add: sample_pb_def)
  then show "proto_valid sample_pb beat_msg" "length (proto_frame sample_pb beat_msg) = 15"
    using sample_pb_ok by (auto simp: proto_valid_def proto_frame_def beat_msg_def required_set_def field_def pb_ok_def)
qed

theorem command_zero_stalls_witness:
  "\<exists>codec W' c'. e_codec record_env CODEC_PROTOBUF = Some codec
    \<and> recv_loop record_env \<lparr>sh_fd = 5, sh_seq = 1\<rparr> codec (with_input (proto_frame sample_pb beat_msg @ proto_frame sample_pb sample_msg)) = Some (True, W')
    \<and> live W' \<lparr>sh_fd = 5, sh_seq = 1\<rparr> = Some c' \<and> cb_data (pRecvBuff c') = proto_frame sample_pb sample_msg"
proof -
  obtain codec where codec: "e_codec record_env CODEC_PROTOBUF = Some codec" "c_dec codec = ProtoCodec_Decode_conn sample_pb (body_clear sample_pb)"
    using record_env_simps(1) by blast
  let ?bs = "proto_frame sample_pb beat_msg @ proto_frame sample_pb sample_msg"
  have "e_http_parse record_env (e_body record_env (snd beat_msg)) = None" "field (h_cmd (fst beat_msg)) = 0"
    by (simp_all add: record_env_def sample_env_def beat_msg_def field_def)
  moreover have "buf_ok (sample_buffer ?bs)" using beat_msg_valid(2) sample_frame_length(1) by (intro with_input_simps(2)) simp
  ultimately show ?thesis
    using command_zero_stalls [OF codec(2) beat_msg_valid(1) _ _ with_input_simps(1) [of ?bs], of record_env "proto_frame sample_pb sample_msg"] codec(1)
      with_input_simps(3) by (simp add: new_conn_def)
qed

text \<open>
  A handler that closes the connection it was called for makes the worker use freed memory: the receive
  loop looks up the connection again with the data of the watcher, which was deleted with the connection.
\<close>

theorem handler_close_use_after_free:
  assumes "c_dec codec = ProtoCodec_Decode_conn P (body_clear P)" "proto_valid P m" "field (h_cmd (fst m)) \<noteq> 0"
    and "\<And>W. \<exists>out W'. Dispose E W sh (fst m) (snd m) = Some (out, W') \<and> live W' sh = None"
    and "live W sh = Some c" "eCodecType c = CODEC_PROTOBUF" "buf_ok (pRecvBuff c)" "cb_data (pRecvBuff c) = proto_frame P m @ rest"
  shows "recv_loop E sh codec W = None"
proof -
  let ?b = "(pRecvBuff c)\<lparr>m_read_idx := m_read_idx (pRecvBuff c) + length (proto_frame P m)\<rparr>"
  let ?W = "put_conn (W\<lparr>m_iRecvNum := m_iRecvNum W + 1\<rparr>) (sh_fd sh)
    (c\<lparr>ucConnectStatus := status_after_inner (ucConnectStatus c) (DOK (fst m) (snd m) ?b), pRecvBuff := ?b, dActiveTime := w_now W\<rparr>)"
  obtain out W' where "Dispose E ?W sh (fst m) (snd m) = Some (out, W')" "live W' sh = None" using assms(4) by blast
  then show ?thesis using proto_loop_decodes [OF assms(1,2,5,7,8)] assms(3,5,6)
    by (subst recv_loop.simps) (simp add: switch_codec_same is_err_def Let_def word_neq_0_conv)
qed

definition closing_env :: "byte list wenv" where
  "closing_env = record_env\<lparr>e_so := \<lambda>_. Some (\<lambda>W sh h b. map_option snd (Disconnect sample_env W sh False))\<rparr>"

lemma sample_disconnect: "\<exists>W'. Disconnect sample_env W sh False = Some W' \<and> live (snd W') sh = None"
  by (auto simp: Disconnect_def DestroyConnect_def sample_env_def live_def Let_def DelMsgShell_def split: option.splits)

theorem handler_close_use_after_free_witness:
  "\<exists>codec. e_codec closing_env CODEC_PROTOBUF = Some codec
    \<and> recv_loop closing_env \<lparr>sh_fd = 5, sh_seq = 1\<rparr> codec (with_input (proto_frame sample_pb sample_msg)) = None"
proof -
  let ?sh = "\<lparr>sh_fd = 5, sh_seq = 1\<rparr>"
  obtain codec where codec: "e_codec closing_env CODEC_PROTOBUF = Some codec" "c_dec codec = ProtoCodec_Decode_conn sample_pb (body_clear sample_pb)"
    using record_env_simps(1) by (auto simp: closing_env_def)
  have cmd: "field (h_cmd (fst sample_msg)) = 1001" by (simp add: sample_msg_def field_def)
  have "\<exists>out W'. Dispose closing_env W ?sh (fst sample_msg) (snd sample_msg) = Some (out, W') \<and> live W' ?sh = None" for W
  proof -
    obtain W' where "Disconnect sample_env W ?sh False = Some W'" "live (snd W') ?sh = None" using sample_disconnect by blast
    then show ?thesis
      by (simp add: Dispose_def cmd preloaded_cmd_def CMD_REQ_TELL_WORKER_def CMD_REQ_BEAT_def closing_env_def gc_uiCmdReq_def gc_uiCmdBit_def)
  qed
  moreover have "buf_ok (sample_buffer (proto_frame sample_pb sample_msg))" using sample_frame_length(1) by (intro with_input_simps(2)) simp
  ultimately show ?thesis
    using handler_close_use_after_free [OF codec(2) sample_msg_valid(1) _ _ with_input_simps(1), of closing_env "proto_frame sample_pb sample_msg" "[]"]
      codec(1) cmd with_input_simps(3) by (simp add: new_conn_def)
qed

text \<open>A call of \<open>read\<close> that finds the end of the stream or an error other than \<open>EAGAIN\<close> and \<open>EINTR\<close>.\<close>

definition read_closes :: "(nat \<Rightarrow> byte list + int) \<Rightarrow> bool" where
  "read_closes rd \<longleftrightarrow> (\<forall>n. case rd n of Inl bytes \<Rightarrow> bytes = [] | Inr e \<Rightarrow> e \<noteq> c_EAGAIN \<and> e \<noteq> c_EINTR)"

lemma read_again_closes:
  assumes "recv_ok b" "read_closes rd" "\<forall>r\<in>set interrupted. \<forall>n. r n = Inr c_EINTR"
  shows "\<exists>n e b'. read_again hp b (interrupted @ [rd]) = Some (n, e, b') \<and> n \<le> 0 \<and> (n = 0 \<or> e \<noteq> c_EAGAIN)"
  using assms(3)
proof (induction interrupted)
  case Nil
  have "m_write_idx b \<le> length (m_buffer b)" using assms(1) by (auto simp: recv_ok_def cb_inv_def)
  then have "(\<exists>e. ReadFD hp b rd 0 = Some (-1, e, b) \<and> e \<noteq> c_EAGAIN \<and> e \<noteq> c_EINTR) \<or> (\<exists>b'. ReadFD hp b rd 0 = Some (0, 0, b'))"
    using assms(2) by (cases "rd (if WriteableBytes b > 32768 then WriteableBytes b else WriteableBytes b + 32768)")
      (fastforce simp: ReadFD_def Let_def mem_write_def read_closes_def split del: if_split split: sum.splits)+
  then show ?case by auto
qed (simp add: ReadFD_def Let_def)

text \<open>
  C39. When libev reports a descriptor as readable and writable at once and the read closes the connection, the worker uses
  the freed watcher data for the write event.  The read closes it when it finds the end of the stream or an error other than \<open>EAGAIN\<close>,
  after any number of interrupted calls; the descriptor is not one of the channels to the manager, \<open>close\<close> succeeds and no command for
  disconnect notices is loaded.
\<close>

theorem read_write_event_use_after_free:
  assumes "live W sh = Some c" "pIoWatcher c \<noteq> None" "recv_ok (pRecvBuff c)" "sh_fd sh \<noteq> e_control_fd E" "sh_fd sh \<noteq> e_data_fd E"
    and "\<And>t. e_close E t (sh_fd sh) = 0" "e_so E CMD_REQ_DISCONNECT = None"
    and "read_closes rd" "\<forall>r\<in>set interrupted. \<forall>n. r n = Inr c_EINTR"
  shows "(\<exists>W'. RecvDataAndDispose E W sh (interrupted @ [rd]) = Some (False, W') \<and> live W' sh = None)
    \<and> IoCallback E W sh (interrupted @ [rd]) True True bError = None"
proof -
  obtain r b1 where b1: "Compact (e_hp E) (pRecvBuff c) 8192 = Some (r, b1)" "recv_ok b1" using Compact_recv [OF assms(3)] by blast
  then obtain n e b2 where b2: "read_again (e_hp E) b1 (interrupted @ [rd]) = Some (n, e, b2)" "n \<le> 0" "n = 0 \<or> e \<noteq> c_EAGAIN"
    using read_again_closes [OF b1(2) assms(8,9)] by blast
  let ?W = "put_conn W (sh_fd sh) (c\<lparr>dActiveTime := w_now W, pRecvBuff := b2\<rparr>)"
  have "\<exists>W'. DestroyConnect E ?W (sh_fd sh) True = Some (True, W') \<and> live W' sh = None"
    using assms(6,7) by (auto simp: DestroyConnect_def MsgShellNotice_def live_def Let_def DelMsgShell_def split: option.splits)
  then obtain W' where "RecvDataAndDispose E W sh (interrupted @ [rd]) = Some (False, W')" "live W' sh = None"
    using assms(1,4,5) b1(1) b2 by (auto simp: RecvDataAndDispose_def live_Some destroy_unless_manager_def)
  then show ?thesis by (simp add: IoCallback_def)
qed

text \<open>A connection that is watched for both events; when the read finds no data, both events are handled.\<close>

definition watched_conn :: tagConnectionAttr where
  "watched_conn = AddIoWriteEvent (AddIoReadEvent (new_conn 5 1 CODEC_PROTOBUF 0))"

definition watched :: "byte list worker" where
  "watched = put_conn one_conn 5 watched_conn"

lemma watched_live: "live watched \<lparr>sh_fd = 5, sh_seq = 1\<rparr> = Some watched_conn" "pIoWatcher watched_conn \<noteq> None" "recv_ok (pRecvBuff watched_conn)"
  using new_conn_recv(1) [of 5 1 CODEC_PROTOBUF 0]
  by (simp_all add: watched_def live_Some watched_conn_def AddIoWriteEvent_def AddIoReadEvent_def new_conn_def)

lemma watched_no_data: "IoCallback sample_env watched \<lparr>sh_fd = 5, sh_seq = 1\<rparr> [\<lambda>_. Inr c_EAGAIN] True True False \<noteq> None"
proof -
  let ?sh = "\<lparr>sh_fd = 5, sh_seq = 1\<rparr>"
  obtain r b where b: "Compact (e_hp sample_env) (pRecvBuff watched_conn) 8192 = Some (r, b)" using Compact_recv [OF watched_live(3)] by blast
  let ?c = "watched_conn\<lparr>dActiveTime := w_now watched, pRecvBuff := b\<rparr>" let ?W = "put_conn watched 5 ?c"
  have "RecvDataAndDispose sample_env watched ?sh [\<lambda>_. Inr c_EAGAIN] = Some (False, ?W)"
    using b watched_live(1) by (simp add: RecvDataAndDispose_def live_Some ReadFD_def Let_def c_EAGAIN_def c_EINTR_def)
  moreover have "buf_ok (pSendBuff ?c)" "cb_data (pSendBuff ?c) = []" "ReadableBytes (pWaitForSendBuff ?c) = 0" "iFd ?c = 5"
    by (simp_all add: watched_conn_def AddIoWriteEvent_def AddIoReadEvent_def new_conn_def buf_ok_def) (simp_all add: CBuffer_new_def ReadableBytes_def)
  then obtain e d W1 where "write_fd sample_env ?W 5 ?c = Some (0, e, ?c\<lparr>pSendBuff := d\<rparr>, W1)"
    using write_fd_ok [of ?c sample_env ?W 5] by auto
  then have "\<exists>x. IoWrite sample_env ?W ?sh = Some x"
    using watched_live(1) \<open>iFd ?c = 5\<close> \<open>ReadableBytes (pWaitForSendBuff ?c) = 0\<close> by (auto simp: IoWrite_def after_write_def live_Some)
  moreover have "live ?W ?sh = Some ?c" "pIoWatcher ?c \<noteq> None" using watched_live by (simp_all add: live_Some)
  ultimately show ?thesis by (auto simp: IoCallback_def)
qed

theorem read_write_event_use_after_free_witness:
  "IoCallback sample_env watched \<lparr>sh_fd = 5, sh_seq = 1\<rparr> [\<lambda>_. Inr c_EINTR, \<lambda>_. Inl []] True True False = None
    \<and> IoCallback sample_env watched \<lparr>sh_fd = 5, sh_seq = 1\<rparr> [\<lambda>_. Inr c_EAGAIN] True True False \<noteq> None"
  using read_write_event_use_after_free [OF watched_live, of sample_env "\<lambda>_. Inl []" "[\<lambda>_. Inr c_EINTR]" False] watched_no_data
  by (simp add: sample_env_def read_closes_def)

text \<open>
  A direct answer that the kernel takes only in part is not finished: the rest stays in the send
  buffer and the watcher of the connection is not changed, so no write event is requested for it.
\<close>

theorem reply_left_unsent:
  assumes "live W sh = Some c" "buf_ok b" "cb_data b \<noteq> []" "e_send E (w_tick W) (sh_fd sh) (cb_data b) = Inl n" "n < length (cb_data b)"
  shows "\<exists>W' c'. send_reply E W (sh_fd sh) c (Some (CODEC_STATUS_OK, b)) = Some W' \<and> live W' sh = Some c'
    \<and> cb_data (pSendBuff c') = drop n (cb_data b) \<and> pIoWatcher c' = pIoWatcher c"
  using write_fd_ok [of "c\<lparr>pSendBuff := b\<rparr>" E W "sh_fd sh"] assms by (auto simp: send_reply_def live_Some)

theorem reply_left_unsent_witness:
  "\<exists>W' c'. send_reply (sample_env\<lparr>e_send := \<lambda>_ _ _. Inl 1\<rparr>) one_conn 5 (new_conn 5 1 CODEC_PROTOBUF 0) (Some (CODEC_STATUS_OK, sample_buffer [1, 2, 3])) = Some W'
    \<and> live W' \<lparr>sh_fd = 5, sh_seq = 1\<rparr> = Some c' \<and> cb_data (pSendBuff c') = [2, 3] \<and> pIoWatcher c' = None"
  using reply_left_unsent [OF one_conn_live, of "sample_buffer [1, 2, 3]" "sample_env\<lparr>e_send := \<lambda>_ _ _. Inl 1\<rparr>" 1]
  by (simp add: with_input_simps new_conn_def)

end
