(* ===== verification/SendOrder.thy ===== *)
theory SendOrder
  imports RecvLoop
begin

text \<open>
  The order of the bytes that leave a connection.  The sending operations of \<open>Worker.cpp\<close> keep two buffers for a
  connection, \<open>pSendBuff\<close> and \<open>pWaitForSendBuff\<close>; the specification \<open>channel_step\<close> knows only the sequence of bytes
  that are on the wire or due to be sent, and the sequence that waits for the end of the handshake.  The
  locale \<open>exact_codec\<close> is what the refinement needs of a codec.
\<close>

subsection \<open>Specification\<close>

type_synonym channel = "connect_status \<times> byte list \<times> byte list"

datatype 'b send_op = Send "msg_head \<times> 'b" | Writable | Flush

text \<open>While the handshake runs, only the messages of the handshake itself are sent.\<close>

definition must_wait :: "connect_status \<Rightarrow> msg_head \<Rightarrow> bool" where
  "must_wait st h \<longleftrightarrow> st \<noteq> eConnectStatus_ok \<and> field (h_cmd h) > CMD_RSP_TELL_WORKER"

definition next_status :: "connect_status \<Rightarrow> msg_head \<Rightarrow> connect_status" where
  "next_status st h =
     (if st = eConnectStatus_ok then st
      else if field (h_cmd h) = CMD_RSP_TELL_WORKER then eConnectStatus_ok else eConnectStatus_connecting)"

text \<open>The boolean is the result of the operation.\<close>

inductive channel_step :: "(msg_head \<times> 'b \<Rightarrow> byte list) \<Rightarrow> 'b send_op \<Rightarrow> bool \<Rightarrow> channel \<Rightarrow> channel \<Rightarrow> bool" for frame where
  Queue: "must_wait st (fst m) \<Longrightarrow> channel_step frame (Send m) True (st, out, waiting) (st, out, waiting @ frame m)"
| Append: "\<not> must_wait st (fst m) \<Longrightarrow> channel_step frame (Send m) True (st, out, waiting) (next_status st (fst m), out @ frame m, waiting)"
| Refuse: "st' = st \<or> st' = next_status st (fst m) \<Longrightarrow> channel_step frame (Send m) False (st, out, waiting) (st', out, waiting)"
| Release: "channel_step frame Flush True (st, out, waiting) (st, out @ waiting, [])"
| Keep: "channel_step frame Flush False (st, out, waiting) (st, out, waiting)"
| Write_Release: "channel_step frame Writable r (st, out, waiting) (st, out @ waiting, [])"
| Write_Keep: "channel_step frame Writable r (st, out, waiting) (st, out, waiting)"

inductive_cases channel_SendE: "channel_step frame (Send m) r (st, out, waiting) s'"
inductive_cases channel_FlushE: "channel_step frame Flush r (st, out, waiting) s'"
inductive_cases channel_WritableE: "channel_step frame Writable r (st, out, waiting) s'"

fun channel_run :: "(msg_head \<times> 'b \<Rightarrow> byte list) \<Rightarrow> 'b send_op list \<Rightarrow> bool list \<Rightarrow> channel \<Rightarrow> channel \<Rightarrow> bool" where
  "channel_run frame [] [] s s' \<longleftrightarrow> s' = s"
| "channel_run frame (op # ops) (r # rs) s s' \<longleftrightarrow> (\<exists>s1. channel_step frame op r s s1 \<and> channel_run frame ops rs s1 s')"
| "channel_run frame _ _ s s' \<longleftrightarrow> False"

text \<open>The messages that were accepted, in order.\<close>

fun accepted :: "'b send_op list \<Rightarrow> bool list \<Rightarrow> (msg_head \<times> 'b) list" where
  "accepted (Send m # ops) (r # rs) = (if r then m # accepted ops rs else accepted ops rs)"
| "accepted (op # ops) (r # rs) = accepted ops rs"
| "accepted _ _ = []"

lemma set_accepted: "m \<in> set (accepted ops rs) \<Longrightarrow> Send m \<in> set ops"
  by (induction ops rs rule: accepted.induct) (auto split: if_splits)

text \<open>On an established connection the channel is a queue.\<close>

lemma channel_run_established:
  "channel_run frame ops rs (eConnectStatus_ok, out, []) (st, out', waiting) \<Longrightarrow>
     st = eConnectStatus_ok \<and> waiting = [] \<and> out' = out @ concat (map frame (accepted ops rs))"
proof (induction ops arbitrary: rs out)
  case Nil
  then show ?case by (cases rs) auto
next
  case (Cons op ops)
  then obtain r rs' where rs: "rs = r # rs'" by (cases rs) auto
  then obtain s1 where s1: "channel_step frame op r (eConnectStatus_ok, out, []) s1" "channel_run frame ops rs' s1 (st, out', waiting)"
    using Cons.prems by auto
  show ?case
  proof (cases op)
    case (Send m)
    have "s1 = (eConnectStatus_ok, if r then out @ frame m else out, [])"
      using s1(1) unfolding Send by (rule channel_SendE) (simp_all add: must_wait_def next_status_def)
    then show ?thesis using Cons.IH [of rs' "if r then out @ frame m else out"] s1(2) by (auto simp: Send rs split: if_splits)
  next
    case Writable
    have "s1 = (eConnectStatus_ok, out, [])" using s1(1) unfolding Writable by (rule channel_WritableE) simp_all
    then show ?thesis using Cons.IH [of rs' out] s1(2) by (simp add: Writable rs)
  next
    case Flush
    have "s1 = (eConnectStatus_ok, out, [])" using s1(1) unfolding Flush by (rule channel_FlushE) simp_all
    then show ?thesis using Cons.IH [of rs' out] s1(2) by (simp add: Flush rs)
  qed
qed

subsection \<open>What the sender relies on\<close>

text \<open>A codec that leaves the buffer as it was when it fails.\<close>

locale exact_codec = message_codec valid frame seen dec enc
  for valid :: "msg_head \<times> 'b \<Rightarrow> bool" and frame :: "msg_head \<times> 'b \<Rightarrow> byte list" and seen :: "msg_head \<times> 'b \<Rightarrow> msg_head \<times> 'b"
    and dec :: "cbuffer \<Rightarrow> 'b decoded option" and enc :: "msg_head \<times> 'b \<Rightarrow> cbuffer \<Rightarrow> (codec_status \<times> cbuffer) option" +
  assumes enc_fails: "cb_inv b \<Longrightarrow> valid m \<Longrightarrow> cb_room b (length (frame m)) \<Longrightarrow> enc m b = Some (CODEC_STATUS_ERR, b') \<Longrightarrow> cb_data b' = cb_data b"

interpretation proto_exact: exact_codec "proto_valid P" "proto_frame P" "\<lambda>m. m" "ProtoCodec_Decode P (body_clear P)"
  "\<lambda>m. ProtoCodec_Encode P hp (fst m) (snd m)" for P hp
proof
  fix b m b'
  assume "cb_inv b" "proto_valid P m" "cb_room b (length (proto_frame P m))" "ProtoCodec_Encode P hp (fst m) (snd m) b = Some (CODEC_STATUS_ERR, b')"
  then show "cb_data b' = cb_data b" using ProtoCodec_Encode_ok [of b P m hp] by auto
qed

text \<open>
  The kernel takes at least one byte or reports an error other than an interruption, closing succeeds and
  no command is loaded for the notice of a closed connection.
\<close>

definition sys_ok :: "'b wenv \<Rightarrow> bool" where
  "sys_ok E \<longleftrightarrow> (\<forall>n fd bs. bs \<noteq> [] \<longrightarrow> (case e_send E n fd bs of Inl k \<Rightarrow> 0 < k \<and> k \<le> length bs | Inr e \<Rightarrow> e \<noteq> c_EINTR))
     \<and> (\<forall>n fd. e_close E n fd = 0) \<and> e_so E CMD_REQ_DISCONNECT = None"

subsection \<open>Buffers and writes\<close>

definition armed :: "tagConnectionAttr \<Rightarrow> bool" where
  "armed c \<longleftrightarrow> (\<exists>w. pIoWatcher c = Some w \<and> io_write w)"

lemma armed_Add [simp]: "armed (AddIoWriteEvent c)"
  by (auto simp: armed_def AddIoWriteEvent_def split: option.splits)

lemma WriteFrom_ok:
  assumes "buf_ok b" "buf_ok u" "m_write_idx b + length (cb_data u) < 2 ^ 31"
  shows "\<exists>r b' u'. WriteFrom hp b u (ReadableBytes u) = Some (r, b', u') \<and> buf_ok b' \<and> buf_ok u'
    \<and> m_write_idx b' \<le> m_write_idx b + length (cb_data u) \<and> m_write_idx u' = m_write_idx u
    \<and> (r = int (length (cb_data u)) \<and> cb_data b' = cb_data b @ cb_data u \<and> cb_data u' = [] \<or> r = -1 \<and> b' = b \<and> u' = u)"
proof -
  let ?d = "cb_data u"
  have u: "ReadableBytes u = length ?d" "length ?d < 2 ^ 31" using buf_ok_readable [OF assms(2)] by auto
  have m: "mem_read (m_buffer u) (m_read_idx u) (length ?d) = Some ?d"
    using mem_read_readable [of u "length ?d"] assms(2) u(1) by (simp add: buf_ok_def)
  obtain r b' where w: "Write hp b ?d = Some (r, b')" "cb_inv b'" "m_write_idx b' \<le> m_write_idx b + length ?d"
    "r = int (length ?d) \<and> cb_data b' = cb_data b @ ?d \<or> r = -1 \<and> b' = b"
    using Write_ok [of b ?d hp] assms by (auto simp: buf_ok_def cb_room_def)
  have "m_read_idx u + length ?d < 2 ^ 64" using assms(2) u by (simp add: buf_ok_def cb_inv_def ReadableBytes_inv)
  then have "size_add_int (m_read_idx u) (int (length ?d)) = m_read_idx u + length ?d" by (simp add: size_add_int_def nat_add_distrib)
  then show ?thesis
    using w u m assms advance_ok [OF assms(2), of "length ?d"] by (cases "?d = []") (auto simp: WriteFrom_def buf_ok_def)
qed

lemma SetWriteIndex_same [simp]: "SetWriteIndex b (m_write_idx b) = b"
  by (simp add: SetWriteIndex_def)

lemma DestroyConnect_quiet:
  assumes "sys_ok E" "m_mapFdAttr W fd = Some c"
  shows "\<exists>W'. DestroyConnect E W fd True = Some (True, W') \<and> m_mapFdAttr W' fd = None \<and> wire W' = wire W
    \<and> m_mapSeq2WorkerIndex W' = m_mapSeq2WorkerIndex W"
  using assms by (auto simp: sys_ok_def DestroyConnect_def MsgShellNotice_def Let_def DelMsgShell_def split: option.splits)

text \<open>The effect of a write and of what follows it: the bytes move from the buffer to the wire, or the connection is closed.\<close>

definition wrote :: "'b worker \<Rightarrow> int \<Rightarrow> tagConnectionAttr \<Rightarrow> 'b worker \<Rightarrow> bool" where
  "wrote W fd c W' \<longleftrightarrow> (\<exists>b a w. m_mapFdAttr W' fd = Some (c\<lparr>pSendBuff := b, dActiveTime := a, pIoWatcher := w\<rparr>) \<and> buf_ok b
     \<and> m_write_idx b \<le> m_write_idx (pSendBuff c) \<and> wire W' (ulSeq c) @ cb_data b = wire W (ulSeq c) @ cb_data (pSendBuff c)
     \<and> (cb_data b \<noteq> [] \<longrightarrow> armed (c\<lparr>pIoWatcher := w\<rparr>)))"

lemma wroteI:
  "m_mapFdAttr W' fd = Some (c\<lparr>pSendBuff := b, dActiveTime := a, pIoWatcher := w\<rparr>) \<Longrightarrow> buf_ok b \<Longrightarrow> m_write_idx b \<le> m_write_idx (pSendBuff c) \<Longrightarrow>
     wire W' (ulSeq c) @ cb_data b = wire W (ulSeq c) @ cb_data (pSendBuff c) \<Longrightarrow> (cb_data b \<noteq> [] \<Longrightarrow> armed (c\<lparr>pIoWatcher := w\<rparr>)) \<Longrightarrow>
     wrote W fd c W'"
  unfolding wrote_def by blast

lemma with_watcher: "\<exists>w. AddIoWriteEvent c = c\<lparr>pIoWatcher := w\<rparr> \<and> armed (d\<lparr>pIoWatcher := w\<rparr>)" "\<exists>w. RemoveIoWriteEvent c = c\<lparr>pIoWatcher := w\<rparr>"
proof -
  show "\<exists>w. AddIoWriteEvent c = c\<lparr>pIoWatcher := w\<rparr> \<and> armed (d\<lparr>pIoWatcher := w\<rparr>)"
    by (auto simp: AddIoWriteEvent_def armed_def split: option.splits)
  have "RemoveIoWriteEvent c = c\<lparr>pIoWatcher := pIoWatcher (RemoveIoWriteEvent c)\<rparr>"
    by (auto simp: RemoveIoWriteEvent_def split: option.splits)
  then show "\<exists>w. RemoveIoWriteEvent c = c\<lparr>pIoWatcher := w\<rparr>" by blast
qed

lemma after_write_effect:
  assumes sys: "sys_ok E" and b: "buf_ok b" "m_write_idx b \<le> m_write_idx (pSendBuff c)" "cb_data b = drop (nat n) (cb_data (pSendBuff c))"
    and n: "n = 0 \<longrightarrow> cb_data (pSendBuff c) = []" "n \<le> int (length (cb_data (pSendBuff c)))" "n < 0 \<longrightarrow> e \<noteq> c_EINTR"
    and W1: "wire W1 (ulSeq c) = wire W (ulSeq c) @ take (nat n) (cb_data (pSendBuff c))"
  shows "\<exists>alive W'. after_write E W1 fd (c\<lparr>pSendBuff := b\<rparr>) (int (length (cb_data (pSendBuff c)))) n e bE = Some (alive, W')
    \<and> m_mapSeq2WorkerIndex W' = m_mapSeq2WorkerIndex W1
    \<and> (if alive then wrote W fd c W' else m_mapFdAttr W' fd = None \<and> wire W' (ulSeq c) = wire W (ulSeq c) \<and> n \<noteq> 0)"
proof -
  let ?d = "cb_data (pSendBuff c)"
  consider "n < 0" "e = c_EAGAIN" | "n < 0" "e \<noteq> c_EAGAIN" | "n = 0" | "0 < n" "n = int (length ?d)" | "0 < n" "n \<noteq> int (length ?d)" by linarith
  then show ?thesis
  proof cases
    case 1
    let ?c = "AddIoWriteEvent (c\<lparr>pSendBuff := b, dActiveTime := w_now W1\<rparr>)"
    obtain w where "?c = c\<lparr>pSendBuff := b, dActiveTime := w_now W1, pIoWatcher := w\<rparr>" "armed (c\<lparr>pIoWatcher := w\<rparr>)"
      using with_watcher(1) [of "c\<lparr>pSendBuff := b, dActiveTime := w_now W1\<rparr>" c] by auto
    then have "wrote W fd c (put_conn W1 fd ?c)" using b W1 1(1) by (intro wroteI [where b = b and a = "w_now W1" and w = w]) simp_all
    then show ?thesis using 1 n(3) by (intro exI [of _ True] exI [of _ "put_conn W1 fd ?c"]) (simp add: after_write_def put_conn_def c_EAGAIN_def c_EINTR_def)
  next
    case 2
    have m: "m_mapFdAttr (put_conn W1 fd (c\<lparr>pSendBuff := b\<rparr>)) fd = Some (c\<lparr>pSendBuff := b\<rparr>)" by simp
    obtain W' where "DestroyConnect E (put_conn W1 fd (c\<lparr>pSendBuff := b\<rparr>)) fd True = Some (True, W')" "m_mapFdAttr W' fd = None"
      "wire W' = wire W1" "m_mapSeq2WorkerIndex W' = m_mapSeq2WorkerIndex W1"
      using DestroyConnect_quiet [OF sys m] by (auto simp: put_conn_def)
    then show ?thesis using 2 n(3) W1 by (intro exI [of _ False] exI [of _ W']) (simp add: after_write_def)
  next
    case 3
    have "wrote W fd c (put_conn W1 fd (c\<lparr>pSendBuff := b\<rparr>))"
      using 3 b n(1) W1 by (intro wroteI [where b = b and a = "dActiveTime c" and w = "pIoWatcher c"]) simp_all
    then show ?thesis using 3 by (intro exI [of _ True] exI [of _ "put_conn W1 fd (c\<lparr>pSendBuff := b\<rparr>)"]) (simp add: after_write_def put_conn_def)
  next
    case 4
    let ?W = "put_conn (W1\<lparr>m_iSendByte := m_iSendByte W1 + word_of_int n\<rparr>) fd (RemoveIoWriteEvent (c\<lparr>pSendBuff := b, dActiveTime := w_now W1\<rparr>))"
    obtain w where "RemoveIoWriteEvent (c\<lparr>pSendBuff := b, dActiveTime := w_now W1\<rparr>) = c\<lparr>pSendBuff := b, dActiveTime := w_now W1, pIoWatcher := w\<rparr>"
      using with_watcher(2) [of "c\<lparr>pSendBuff := b, dActiveTime := w_now W1\<rparr>"] by auto
    then have "wrote W fd c ?W" using b W1 4 by (intro wroteI [where b = b and a = "w_now W1" and w = w]) simp_all
    then show ?thesis using 4 by (intro exI [of _ True] exI [of _ ?W]) (simp add: after_write_def put_conn_def)
  next
    case 5
    let ?W = "put_conn (W1\<lparr>m_iSendByte := m_iSendByte W1 + word_of_int n\<rparr>) fd (AddIoWriteEvent (c\<lparr>pSendBuff := b, dActiveTime := w_now W1\<rparr>))"
    obtain w where "AddIoWriteEvent (c\<lparr>pSendBuff := b, dActiveTime := w_now W1\<rparr>) = c\<lparr>pSendBuff := b, dActiveTime := w_now W1, pIoWatcher := w\<rparr>"
      "armed (c\<lparr>pIoWatcher := w\<rparr>)"
      using with_watcher(1) [of "c\<lparr>pSendBuff := b, dActiveTime := w_now W1\<rparr>" c] by auto
    then have "wrote W fd c ?W" using b W1 by (intro wroteI [where b = b and a = "w_now W1" and w = w]) simp_all
    then show ?thesis using 5 by (intro exI [of _ True] exI [of _ ?W]) (simp add: after_write_def put_conn_def)
  qed
qed

lemma write_effect:
  assumes sys: "sys_ok E" and c: "buf_ok (pSendBuff c)"
  shows "\<exists>n e b W1 alive W'. write_fd E W fd c = Some (n, e, c\<lparr>pSendBuff := b\<rparr>, W1)
    \<and> after_write E W1 fd (c\<lparr>pSendBuff := b\<rparr>) (to_int32 (ReadableBytes (pSendBuff c))) n e bE = Some (alive, W')
    \<and> (n = 0 \<longleftrightarrow> cb_data (pSendBuff c) = []) \<and> m_mapSeq2WorkerIndex W' = m_mapSeq2WorkerIndex W
    \<and> (if alive then wrote W fd c W' else m_mapFdAttr W' fd = None \<and> wire W' (ulSeq c) = wire W (ulSeq c) \<and> n \<noteq> 0)"
proof -
  let ?d = "cb_data (pSendBuff c)"
  have r: "ReadableBytes (pSendBuff c) = length ?d" "length ?d < 2 ^ 31" using buf_ok_readable [OF c] by auto
  have snd: "?d \<noteq> [] \<Longrightarrow> (case e_send E (w_tick W) fd ?d of Inl k \<Rightarrow> 0 < k \<and> k \<le> length ?d | Inr e \<Rightarrow> e \<noteq> c_EINTR)"
    using sys unfolding sys_ok_def by blast
  then have "e_send E (w_tick W) fd ?d = Inl k \<Longrightarrow> ?d \<noteq> [] \<Longrightarrow> k \<le> length ?d" for k by simp
  then obtain n e b where w: "write_fd E W fd c = Some (n, e, c\<lparr>pSendBuff := b\<rparr>,
      W\<lparr>w_tick := w_tick W + 1, wire := (wire W)(ulSeq c := wire W (ulSeq c) @ take (nat n) ?d)\<rparr>)"
    "buf_ok b" "m_write_idx b \<le> m_write_idx (pSendBuff c)" "cb_data b = drop (nat n) ?d"
    "if ?d = [] then n = 0 else case e_send E (w_tick W) fd ?d of Inl k \<Rightarrow> n = int k | Inr err \<Rightarrow> n = -1 \<and> e = err"
    using write_fd_ok [OF c, of E W fd] by blast
  have n: "n = 0 \<longleftrightarrow> ?d = []" "n \<le> int (length ?d)" "n < 0 \<longrightarrow> e \<noteq> c_EINTR"
    using w(5) snd by (auto split: sum.splits if_splits)
  obtain alive W' where "after_write E (W\<lparr>w_tick := w_tick W + 1, wire := (wire W)(ulSeq c := wire W (ulSeq c) @ take (nat n) ?d)\<rparr>) fd
      (c\<lparr>pSendBuff := b\<rparr>) (int (length ?d)) n e bE = Some (alive, W')" "m_mapSeq2WorkerIndex W' = m_mapSeq2WorkerIndex W"
    "if alive then wrote W fd c W' else m_mapFdAttr W' fd = None \<and> wire W' (ulSeq c) = wire W (ulSeq c) \<and> n \<noteq> 0"
    using after_write_effect [OF sys w(2-4) _ n(2,3), of "W\<lparr>w_tick := w_tick W + 1, wire := (wire W)(ulSeq c := wire W (ulSeq c) @ take (nat n) ?d)\<rparr>" W fd bE] n(1)
    by auto
  then show ?thesis
    using w(1) n(1) r
    by (intro exI [of _ n] exI [of _ e] exI [of _ b] exI [of _ "W\<lparr>w_tick := w_tick W + 1, wire := (wire W)(ulSeq c := wire W (ulSeq c) @ take (nat n) ?d)\<rparr>"]
        exI [of _ alive] exI [of _ W']) auto
qed

subsection \<open>Simulation\<close>

text \<open>
  A connection of a worker that stands for a channel.  The number bounds what may still be written to its buffers,
  whose indices are 32-bit in places.  Bytes that are due are never left without a write event.
\<close>

definition open_channel :: "'b worker \<Rightarrow> tagMsgShell \<Rightarrow> nat \<Rightarrow> channel \<Rightarrow> bool" where
  "open_channel W sh n s \<longleftrightarrow> m_mapSeq2WorkerIndex W (sh_seq sh) = None \<and>
     (\<exists>c. live W sh = Some c \<and> iFd c = sh_fd sh \<and> eCodecType c = CODEC_PROTOBUF \<and> buf_ok (pSendBuff c) \<and> buf_ok (pWaitForSendBuff c)
        \<and> s = (ucConnectStatus c, wire W (sh_seq sh) @ cb_data (pSendBuff c), cb_data (pWaitForSendBuff c))
        \<and> (cb_data (pSendBuff c) \<noteq> [] \<longrightarrow> armed c)
        \<and> m_write_idx (pSendBuff c) + length (cb_data (pWaitForSendBuff c)) + m_write_idx (pWaitForSendBuff c) + n < 2 ^ 31)"

definition closed_channel :: "'b worker \<Rightarrow> tagMsgShell \<Rightarrow> channel \<Rightarrow> bool" where
  "closed_channel W sh s \<longleftrightarrow> m_mapFdAttr W (sh_fd sh) = None \<and> prefix (wire W (sh_seq sh)) (fst (snd s))"

definition implements :: "'b worker \<Rightarrow> tagMsgShell \<Rightarrow> nat \<Rightarrow> channel \<Rightarrow> bool" where
  "implements W sh n s \<longleftrightarrow> open_channel W sh n s \<or> closed_channel W sh s"

lemma sim_open:
  "x = Some (r, W') \<Longrightarrow> channel_step frame op r s s' \<Longrightarrow> open_channel W' sh n s' \<Longrightarrow>
     \<exists>r W' s'. x = Some (r, W') \<and> channel_step frame op r s s' \<and> implements W' sh n s'"
  unfolding implements_def by blast

lemma sim_closed:
  "x = Some (r, W') \<Longrightarrow> channel_step frame op r s s' \<Longrightarrow> closed_channel W' sh s' \<Longrightarrow>
     \<exists>r W' s'. x = Some (r, W') \<and> channel_step frame op r s s' \<and> implements W' sh n s'"
  unfolding implements_def by blast

lemma open_channel_put:
  assumes "open_channel W sh n s" "live W sh = Some c"
    and "c' = c\<lparr>pWaitForSendBuff := b\<rparr>" "buf_ok b" "m_write_idx (pSendBuff c) + length (cb_data b) + m_write_idx b + k < 2 ^ 31"
  shows "open_channel (put_conn W (sh_fd sh) c') sh k (fst s, fst (snd s), cb_data b)"
  using assms by (auto simp: open_channel_def put_conn_def live_Some armed_def)

lemma open_wrote:
  assumes "wrote W (sh_fd sh) c W'" "ulSeq c = sh_seq sh" "iFd c = sh_fd sh" "eCodecType c = CODEC_PROTOBUF" "buf_ok (pWaitForSendBuff c)"
    and "m_mapSeq2WorkerIndex W' (sh_seq sh) = None"
    and "m_write_idx (pSendBuff c) + length (cb_data (pWaitForSendBuff c)) + m_write_idx (pWaitForSendBuff c) + n < 2 ^ 31"
  shows "open_channel W' sh n (ucConnectStatus c, wire W (sh_seq sh) @ cb_data (pSendBuff c), cb_data (pWaitForSendBuff c))"
proof -
  obtain b a w where c': "m_mapFdAttr W' (sh_fd sh) = Some (c\<lparr>pSendBuff := b, dActiveTime := a, pIoWatcher := w\<rparr>)" "buf_ok b"
    "m_write_idx b \<le> m_write_idx (pSendBuff c)" "wire W' (ulSeq c) @ cb_data b = wire W (ulSeq c) @ cb_data (pSendBuff c)"
    "cb_data b \<noteq> [] \<longrightarrow> armed (c\<lparr>pIoWatcher := w\<rparr>)" using assms(1) unfolding wrote_def by blast
  have "armed (c\<lparr>pSendBuff := b, dActiveTime := a, pIoWatcher := w\<rparr>) = armed (c\<lparr>pIoWatcher := w\<rparr>)" by (simp add: armed_def)
  then show ?thesis using assms(2-7) c' unfolding open_channel_def
    by (intro conjI exI [of _ "c\<lparr>pSendBuff := b, dActiveTime := a, pIoWatcher := w\<rparr>"]) (simp_all add: live_def)
qed

lemma SendTo_waiting_step:
  assumes sys: "sys_ok E" and o: "open_channel W sh n (st, out, waiting)"
  shows "\<exists>r W'. SendTo_waiting E W sh = Some (r, W')
    \<and> (if r then open_channel W' sh n (st, out @ waiting, []) else open_channel W' sh n (st, out, waiting) \<or> closed_channel W' sh (st, out, waiting))"
proof -
  obtain c where c: "live W sh = Some c" "iFd c = sh_fd sh" "eCodecType c = CODEC_PROTOBUF" "buf_ok (pSendBuff c)" "buf_ok (pWaitForSendBuff c)"
    "st = ucConnectStatus c" "out = wire W (sh_seq sh) @ cb_data (pSendBuff c)" "waiting = cb_data (pWaitForSendBuff c)"
    "m_write_idx (pSendBuff c) + length (cb_data (pWaitForSendBuff c)) + m_write_idx (pWaitForSendBuff c) + n < 2 ^ 31"
    "m_mapSeq2WorkerIndex W (sh_seq sh) = None" using o by (auto simp: open_channel_def)
  have q: "m_mapFdAttr W (sh_fd sh) = Some c" "ulSeq c = sh_seq sh" using c(1) by (auto simp: live_Some)
  have len: "to_int32 (ReadableBytes (pWaitForSendBuff c)) = int (length waiting)" using buf_ok_readable [OF c(5)] c(8) by simp
  obtain r b u where w: "WriteFrom (e_hp E) (pSendBuff c) (pWaitForSendBuff c) (ReadableBytes (pWaitForSendBuff c)) = Some (r, b, u)"
    "buf_ok b" "buf_ok u" "m_write_idx b \<le> m_write_idx (pSendBuff c) + length waiting" "m_write_idx u = m_write_idx (pWaitForSendBuff c)"
    "r = int (length waiting) \<and> cb_data b = cb_data (pSendBuff c) @ waiting \<and> cb_data u = []
      \<or> r = -1 \<and> b = pSendBuff c \<and> u = pWaitForSendBuff c"
    using WriteFrom_ok [OF c(4,5), of "e_hp E"] c(8,9) by auto
  let ?c = "c\<lparr>pSendBuff := b, pWaitForSendBuff := u\<rparr>"
  show ?thesis
  proof (cases "r = -1")
    case True
    then have eq: "b = pSendBuff c" "u = pWaitForSendBuff c" using w(6) by auto
    have "m_write_idx (pSendBuff c) < 2 ^ 31" using c(4) by (simp add: buf_ok_def)
    then have "SendTo_waiting E W sh = Some (False, put_conn W (sh_fd sh) c)"
      using q c(2) w(1) True len eq by (simp add: SendTo_waiting_def size_add_int_def)
    moreover have "put_conn W (sh_fd sh) c = W" using q(1) by (simp add: put_conn_def fun_upd_idem)
    ultimately show ?thesis using o by auto
  next
    case False
    then have d: "r = int (length waiting)" "cb_data b = cb_data (pSendBuff c) @ waiting" "cb_data u = []" using w(6) by auto
    obtain k e b' W1 alive W' where x: "write_fd E W (sh_fd sh) ?c = Some (k, e, ?c\<lparr>pSendBuff := b'\<rparr>, W1)"
      "after_write E W1 (sh_fd sh) (?c\<lparr>pSendBuff := b'\<rparr>) (to_int32 (ReadableBytes b)) k e False = Some (alive, W')"
      "m_mapSeq2WorkerIndex W' = m_mapSeq2WorkerIndex W"
      "if alive then wrote W (sh_fd sh) ?c W' else m_mapFdAttr W' (sh_fd sh) = None \<and> wire W' (ulSeq ?c) = wire W (ulSeq ?c) \<and> k \<noteq> 0"
      using write_effect [OF sys, of ?c W "sh_fd sh" False] w(2) by auto
    have "SendTo_waiting E W sh = Some (alive, W')" using q c(2) w(1) d(1) len x(1,2) by (simp add: SendTo_waiting_def)
    moreover have "open_channel W' sh n (st, out @ waiting, [])" if "alive"
      using open_wrote [of W sh ?c W' n] x(3,4) that q c w(3,4,5) d by simp
    moreover have "closed_channel W' sh (st, out, waiting)" if "\<not> alive"
      using x(4) that q c(7) by (simp add: closed_channel_def)
    ultimately show ?thesis by (cases alive) auto
  qed
qed

lemma IoWrite_step:
  assumes sys: "sys_ok E" and o: "open_channel W sh n (st, out, waiting)"
  shows "\<exists>r W' s'. IoWrite E W sh = Some (r, W') \<and> channel_step frame Writable r (st, out, waiting) s' \<and> implements W' sh n s'"
proof -
  obtain c where c: "live W sh = Some c" "iFd c = sh_fd sh" "eCodecType c = CODEC_PROTOBUF" "buf_ok (pSendBuff c)" "buf_ok (pWaitForSendBuff c)"
    "st = ucConnectStatus c" "out = wire W (sh_seq sh) @ cb_data (pSendBuff c)" "waiting = cb_data (pWaitForSendBuff c)"
    "m_write_idx (pSendBuff c) + length (cb_data (pWaitForSendBuff c)) + m_write_idx (pWaitForSendBuff c) + n < 2 ^ 31"
    "m_mapSeq2WorkerIndex W (sh_seq sh) = None" using o by (auto simp: open_channel_def)
  have q: "m_mapFdAttr W (sh_fd sh) = Some c" "ulSeq c = sh_seq sh" using c(1) by (auto simp: live_Some)
  obtain k e b' W1 alive W' where x: "write_fd E W (sh_fd sh) c = Some (k, e, c\<lparr>pSendBuff := b'\<rparr>, W1)"
    "after_write E W1 (sh_fd sh) (c\<lparr>pSendBuff := b'\<rparr>) (to_int32 (ReadableBytes (pSendBuff c))) k e False = Some (alive, W')"
    "k = 0 \<longleftrightarrow> cb_data (pSendBuff c) = []" "m_mapSeq2WorkerIndex W' = m_mapSeq2WorkerIndex W"
    "if alive then wrote W (sh_fd sh) c W' else m_mapFdAttr W' (sh_fd sh) = None \<and> wire W' (ulSeq c) = wire W (ulSeq c) \<and> k \<noteq> 0"
    using write_effect [OF sys c(4), of W "sh_fd sh" False] by blast
  show ?thesis
  proof (cases alive)
    case True
    have o': "open_channel W' sh n (st, out, waiting)" using open_wrote [of W sh c W' n] x(4,5) True q(2) c by simp
    show ?thesis
    proof (cases "k = 0 \<and> ReadableBytes (pWaitForSendBuff c) > 0")
      case True
      obtain r W2 where f: "SendTo_waiting E W' sh = Some (r, W2)"
        "if r then open_channel W2 sh n (st, out @ waiting, []) else open_channel W2 sh n (st, out, waiting) \<or> closed_channel W2 sh (st, out, waiting)"
        using SendTo_waiting_step [OF sys o'] by blast
      have "IoWrite E W sh = Some (True, W2)" using q c(2,10) x(1,2,4) True f(1) by (simp add: IoWrite_def)
      then show ?thesis using f(2) sim_open [OF _ Write_Release] sim_open [OF _ Write_Keep] sim_closed [OF _ Write_Keep] by (metis (full_types))
    next
      case False
      then have "IoWrite E W sh = Some (True, W')" using q c(2,10) x(1,2,4) by (auto simp: IoWrite_def)
      then show ?thesis by (rule sim_open [OF _ Write_Keep o'])
    qed
  next
    case False
    then have "IoWrite E W sh = Some (True, W')" using q c(2) x(1,2,5) by (auto simp: IoWrite_def)
    moreover have "closed_channel W' sh (st, out, waiting)" using x(5) False q(2) c(7) by (simp add: closed_channel_def)
    ultimately show ?thesis by (rule sim_closed [OF _ Write_Keep])
  qed
qed

fun send_exec :: "'b wenv \<Rightarrow> tagMsgShell \<Rightarrow> 'b send_op \<Rightarrow> 'b worker \<Rightarrow> (bool \<times> 'b worker) option" where
  "send_exec E sh (Send m) W = SendTo E W sh (fst m) (snd m)"
| "send_exec E sh Writable W = IoWrite E W sh"
| "send_exec E sh Flush W = SendTo_waiting E W sh"

fun send_run :: "'b wenv \<Rightarrow> tagMsgShell \<Rightarrow> 'b send_op list \<Rightarrow> 'b worker \<Rightarrow> (bool list \<times> 'b worker) option" where
  "send_run E sh [] W = Some ([], W)"
| "send_run E sh (op # ops) W = do {
     (r, W) \<leftarrow> send_exec E sh op W;
     (rs, W) \<leftarrow> send_run E sh ops W;
     Some (r # rs, W)
   }"

context exact_codec
begin

lemma SendTo_step:
  assumes sys: "sys_ok E" and codec: "e_codec E CODEC_PROTOBUF = Some codec" "\<And>m. c_enc codec (fst m) (snd m) = enc m"
    and m: "valid m" and o: "open_channel W sh (2 * length (frame m) + n) (st, out, waiting)"
  shows "\<exists>r W' s'. SendTo E W sh (fst m) (snd m) = Some (r, W') \<and> channel_step frame (Send m) r (st, out, waiting) s' \<and> implements W' sh n s'"
proof -
  obtain c where c: "live W sh = Some c" "iFd c = sh_fd sh" "eCodecType c = CODEC_PROTOBUF" "buf_ok (pSendBuff c)" "buf_ok (pWaitForSendBuff c)"
    "st = ucConnectStatus c" "out = wire W (sh_seq sh) @ cb_data (pSendBuff c)" "waiting = cb_data (pWaitForSendBuff c)"
    "m_write_idx (pSendBuff c) + length (cb_data (pWaitForSendBuff c)) + m_write_idx (pWaitForSendBuff c) + (2 * length (frame m) + n) < 2 ^ 31"
    "m_mapSeq2WorkerIndex W (sh_seq sh) = None" using o by (auto simp: open_channel_def)
  have q: "m_mapFdAttr W (sh_fd sh) = Some c" "ulSeq c = sh_seq sh" using c(1) by (auto simp: live_Some)
  show ?thesis
  proof (cases "must_wait st (fst m)")
    case True
    obtain s b where e: "enc m (pWaitForSendBuff c) = Some (s, b)" "cb_inv b" "m_write_idx b \<le> m_write_idx (pWaitForSendBuff c) + length (frame m)"
      "s = CODEC_STATUS_OK \<and> cb_data b = waiting @ frame m \<or> s = CODEC_STATUS_ERR \<and> cb_data b = waiting"
      using enc_frame [of "pWaitForSendBuff c" m] enc_fails [of "pWaitForSendBuff c" m] m c(5,8,9) by (fastforce simp: buf_ok_def cb_room_def)
    let ?W = "put_conn W (sh_fd sh) (c\<lparr>pWaitForSendBuff := b\<rparr>)"
    have "open_channel ?W sh n (st, out, cb_data b)"
      using open_channel_put [OF o c(1), of _ b n] e c(8,9) by (auto simp: buf_ok_def)
    moreover have "SendTo E W sh (fst m) (snd m) = Some (s = CODEC_STATUS_OK, ?W)"
      using True q c(2,3,6) codec(1) e(1) by (simp add: SendTo_def must_wait_def codec(2))
    moreover have "channel_step frame (Send m) (s = CODEC_STATUS_OK) (st, out, waiting) (st, out, cb_data b)"
      using e(4) Queue [OF True, of frame out waiting] Refuse [of st st m frame out waiting] by auto
    ultimately show ?thesis using sim_open by metis
  next
    case False
    obtain s b where e: "enc m (pSendBuff c) = Some (s, b)" "cb_inv b" "m_write_idx b \<le> m_write_idx (pSendBuff c) + length (frame m)"
      "s = CODEC_STATUS_OK \<and> cb_data b = cb_data (pSendBuff c) @ frame m \<or> s = CODEC_STATUS_ERR \<and> cb_data b = cb_data (pSendBuff c)"
      using enc_frame [of "pSendBuff c" m] enc_fails [of "pSendBuff c" m] m c(4,9) by (fastforce simp: buf_ok_def cb_room_def)
    let ?st = "next_status st (fst m)" let ?c = "c\<lparr>pSendBuff := b, ucConnectStatus := next_status st (fst m)\<rparr>"
    have st: "status_after_send c (fst m) = ?st" using c(3,6) by (auto simp: status_after_send_def next_status_def)
    have b: "buf_ok b" "m_write_idx b + length waiting + m_write_idx (pWaitForSendBuff c) + n < 2 ^ 31" using e(2,3) c(8,9) by (auto simp: buf_ok_def)
    have run: "SendTo E W sh (fst m) (snd m) = (if s = CODEC_STATUS_OK then do {
        (iWriteLen, iErrno, pConn, W) \<leftarrow> write_fd E (W\<lparr>m_iSendNum := m_iSendNum W + 1\<rparr>) (sh_fd sh) ?c;
        after_write E W (sh_fd sh) pConn (to_int32 (ReadableBytes b)) iWriteLen iErrno True
      } else Some (False, put_conn W (sh_fd sh) ?c))"
      using False q c(2,3,6) codec(1) e(1) by (auto simp: SendTo_def must_wait_def codec(2) st)
    show ?thesis
    proof (cases "s = CODEC_STATUS_OK")
      case True
      obtain k e' b' W1 alive W' where x: "write_fd E (W\<lparr>m_iSendNum := m_iSendNum W + 1\<rparr>) (sh_fd sh) ?c = Some (k, e', ?c\<lparr>pSendBuff := b'\<rparr>, W1)"
        "after_write E W1 (sh_fd sh) (?c\<lparr>pSendBuff := b'\<rparr>) (to_int32 (ReadableBytes b)) k e' True = Some (alive, W')"
        "m_mapSeq2WorkerIndex W' = m_mapSeq2WorkerIndex (W\<lparr>m_iSendNum := m_iSendNum W + 1\<rparr>)"
        "if alive then wrote (W\<lparr>m_iSendNum := m_iSendNum W + 1\<rparr>) (sh_fd sh) ?c W'
         else m_mapFdAttr W' (sh_fd sh) = None \<and> wire W' (ulSeq ?c) = wire (W\<lparr>m_iSendNum := m_iSendNum W + 1\<rparr>) (ulSeq ?c) \<and> k \<noteq> 0"
        using write_effect [OF sys, of ?c "W\<lparr>m_iSendNum := m_iSendNum W + 1\<rparr>" "sh_fd sh" True, simplified tagConnectionAttr.select_convs tagConnectionAttr.update_convs] b(1) by simp blast
      have "SendTo E W sh (fst m) (snd m) = Some (alive, W')" using run True x(1,2) by simp
      moreover have "open_channel W' sh n (?st, out @ frame m, waiting)" if alive
        using open_wrote [of "W\<lparr>m_iSendNum := m_iSendNum W + 1\<rparr>" sh ?c W' n] that x(3,4) q(2) c e(4) True b(2) by simp
      moreover have "closed_channel W' sh (st, out, waiting)" if "\<not> alive" using x(4) that q(2) c(7) by (simp add: closed_channel_def)
      ultimately show ?thesis
        using sim_open [OF _ Append [OF False]] sim_closed [OF _ Refuse [OF disjI1 [OF refl]]] by (metis (full_types))
    next
      case failed: False
      have "cb_data (pSendBuff c) \<noteq> [] \<longrightarrow> armed c" using o c(1) by (auto simp: open_channel_def)
      then have o2: "open_channel (put_conn W (sh_fd sh) ?c) sh n (?st, out, waiting)"
        using q c(2,3,5,7,8,10) e(4) failed b by (auto simp: open_channel_def live_Some put_conn_def armed_def)
      show ?thesis by (rule sim_open [OF _ Refuse [OF disjI2 [OF refl]] o2]) (simp add: run failed)
    qed
  qed
qed

lemma send_exec_step:
  assumes sys: "sys_ok E" and codec: "e_codec E CODEC_PROTOBUF = Some codec" "\<And>m. c_enc codec (fst m) (snd m) = enc m"
    and op: "\<And>m. op = Send m \<Longrightarrow> valid m" and i: "implements W sh (2 * length (case op of Send m \<Rightarrow> frame m | _ \<Rightarrow> []) + n) s"
  shows "\<exists>r W' s'. send_exec E sh op W = Some (r, W') \<and> channel_step frame op r s s' \<and> implements W' sh n s'"
proof -
  obtain st out waiting where s: "s = (st, out, waiting)" by (cases s) auto
  show ?thesis
  proof (cases "closed_channel W sh s")
    case True
    then have "m_mapFdAttr W (sh_fd sh) = None" by (simp add: closed_channel_def)
    then have "send_exec E sh op W = Some (False, W)" by (cases op) (simp_all add: SendTo_def IoWrite_def SendTo_waiting_def)
    moreover have "channel_step frame op False s s" unfolding s by (cases op) (auto intro: channel_step.intros)
    ultimately show ?thesis using True by (rule sim_closed)
  next
    case False
    then have o: "open_channel W sh (2 * length (case op of Send m \<Rightarrow> frame m | _ \<Rightarrow> []) + n) (st, out, waiting)" using i s by (simp add: implements_def)
    show ?thesis
    proof (cases op)
      case (Send m)
      then show ?thesis using SendTo_step [OF sys codec op] o s by simp
    next
      case Writable
      then show ?thesis using IoWrite_step [OF sys, of W sh n] o s by simp
    next
      case Flush
      obtain r W' where "SendTo_waiting E W sh = Some (r, W')"
        "if r then open_channel W' sh n (st, out @ waiting, []) else open_channel W' sh n (st, out, waiting) \<or> closed_channel W' sh (st, out, waiting)"
        using SendTo_waiting_step [OF sys, of W sh n st out waiting] o Flush by auto
      then show ?thesis unfolding s Flush send_exec.simps
        using sim_open [OF _ Release] sim_open [OF _ Keep] sim_closed [OF _ Keep] by (metis (full_types))
    qed
  qed
qed

lemma send_run_sim:
  assumes sys: "sys_ok E" and codec: "e_codec E CODEC_PROTOBUF = Some codec" "\<And>m. c_enc codec (fst m) (snd m) = enc m"
  shows "(\<And>m. Send m \<in> set ops \<Longrightarrow> valid m) \<Longrightarrow> implements W sh (2 * (\<Sum>op\<leftarrow>ops. length (case op of Send m \<Rightarrow> frame m | _ \<Rightarrow> []))) s \<Longrightarrow>
    \<exists>rs W' s'. send_run E sh ops W = Some (rs, W') \<and> channel_run frame ops rs s s' \<and> implements W' sh 0 s'"
proof (induction ops arbitrary: W s)
  case Nil
  then show ?case by (intro exI [of _ "[]"] exI [of _ W] exI [of _ s]) simp
next
  case (Cons op ops)
  let ?n = "2 * (\<Sum>op\<leftarrow>ops. length (case op of Send m \<Rightarrow> frame m | _ \<Rightarrow> []))"
  obtain r W1 s1 where 1: "send_exec E sh op W = Some (r, W1)" "channel_step frame op r s s1" "implements W1 sh ?n s1"
    using send_exec_step [OF sys codec, of op W sh ?n s] Cons.prems by auto
  obtain rs W' s' where "send_run E sh ops W1 = Some (rs, W')" "channel_run frame ops rs s1 s'" "implements W' sh 0 s'"
    using Cons.IH [OF _ 1(3)] Cons.prems(1) by auto
  then show ?case using 1 by (intro exI [of _ "r # rs"] exI [of _ W'] exI [of _ s']) (simp del: split_paired_Ex, blast)
qed

end

subsection \<open>Properties\<close>

lemma proto_established:
  assumes "sys_ok E" "e_codec E CODEC_PROTOBUF = Some codec" "c_enc codec = ProtoCodec_Encode P hp"
    and "\<forall>m. Send m \<in> set ops \<longrightarrow> proto_valid P m"
    and "open_channel W sh (2 * (\<Sum>op\<leftarrow>ops. length (case op of Send m \<Rightarrow> proto_frame P m | _ \<Rightarrow> []))) (eConnectStatus_ok, out, [])"
  shows "\<exists>rs W'. send_run E sh ops W = Some (rs, W')
    \<and> prefix (wire W' (sh_seq sh)) (out @ concat (map (proto_frame P) (accepted ops rs)))
    \<and> (\<forall>c. live W' sh = Some c \<longrightarrow> wire W' (sh_seq sh) @ cb_data (pSendBuff c) = out @ concat (map (proto_frame P) (accepted ops rs))
        \<and> (cb_data (pSendBuff c) \<noteq> [] \<longrightarrow> armed c))"
proof -
  obtain rs W' st out' waiting where r: "send_run E sh ops W = Some (rs, W')" "channel_run (proto_frame P) ops rs (eConnectStatus_ok, out, []) (st, out', waiting)"
    "implements W' sh 0 (st, out', waiting)"
    using proto_exact.send_run_sim [OF assms(1,2), of P hp ops W sh "(eConnectStatus_ok, out, [])"] assms(3-5) unfolding implements_def by auto
  have o: "out' = out @ concat (map (proto_frame P) (accepted ops rs))" using channel_run_established [OF r(2)] by simp
  have "prefix (wire W' (sh_seq sh)) out'" "\<forall>c. live W' sh = Some c \<longrightarrow> wire W' (sh_seq sh) @ cb_data (pSendBuff c) = out' \<and> (cb_data (pSendBuff c) \<noteq> [] \<longrightarrow> armed c)"
    using r(3) by (auto simp: implements_def open_channel_def closed_channel_def live_Some)
  then show ?thesis using r(1) o by blast
qed

text \<open>
  C4. The sending side of a connection between nodes (Protocol Buffers codec) refines the channel, for a connection with
  no entry in \<open>m_mapSeq2WorkerIndex\<close>: one that was accepted, or an outgoing one after its first write event, which takes the
  entry away.  Every run of \<open>SendTo\<close>, of writable events and of releases of the waiting messages is a run of the
  specification with the same results.  The bytes on the wire and in the buffer are those
  of the channel, bytes that are due have a write event, and after an error the connection is closed with a
  prefix of the channel's bytes on the wire.  Conditions (\<open>sys_ok\<close>, \<open>open_channel\<close>): each write takes at least one byte or fails with an error other
  than \<open>EINTR\<close>, \<open>close\<close> succeeds, no command for disconnect notices is loaded, and twice the bytes of the messages with the
  buffered ones stay below 2 GiB.  The first write event of an outgoing connection is left out: there \<open>IoWrite\<close> takes
  back the write event that \<open>SendTo\<close> has just added (\<open>first_write_loses_event\<close>).
\<close>

theorem sender_refines_channel:
  assumes "sys_ok E" "e_codec E CODEC_PROTOBUF = Some codec" "c_enc codec = ProtoCodec_Encode P hp"
    and "\<forall>m. Send m \<in> set ops \<longrightarrow> proto_valid P m"
    and "open_channel W sh (2 * (\<Sum>op\<leftarrow>ops. length (case op of Send m \<Rightarrow> proto_frame P m | _ \<Rightarrow> []))) s"
  shows "\<exists>rs W' s'. send_run E sh ops W = Some (rs, W') \<and> channel_run (proto_frame P) ops rs s s'
    \<and> (open_channel W' sh 0 s' \<or> closed_channel W' sh s')"
  using proto_exact.send_run_sim [OF assms(1,2), of P hp ops W sh s] assms(3-5) unfolding implements_def by auto

text \<open>
  The first write event of an outgoing connection starts the handshake.  However much of the request \<open>SendTo\<close> could write,
  \<open>IoWrite\<close> then removes the write event (\<open>Worker.cpp:822\<close>), so that a rest of the request in \<open>pSendBuff\<close> has none.
\<close>

theorem first_write_loses_event:
  assumes "live W sh = Some c" "iFd c = sh_fd sh" "buf_ok (pSendBuff c)" "cb_data (pSendBuff c) = []" "cb_data (pWaitForSendBuff c) \<noteq> []"
    "buf_ok (pWaitForSendBuff c)" "m_mapSeq2WorkerIndex W (sh_seq sh) = Some index" "sys_ok E" "IoWrite E W sh = Some (r, W')"
  shows "\<exists>c'. live W' sh = Some c' \<and> \<not> armed c'"
proof -
  have q: "m_mapFdAttr W (sh_fd sh) = Some c" "ulSeq c = sh_seq sh" using assms(1) by (auto simp: live_Some)
  obtain k e b' W1 alive W2 where x: "write_fd E W (sh_fd sh) c = Some (k, e, c\<lparr>pSendBuff := b'\<rparr>, W1)"
    "after_write E W1 (sh_fd sh) (c\<lparr>pSendBuff := b'\<rparr>) (to_int32 (ReadableBytes (pSendBuff c))) k e False = Some (alive, W2)"
    "k = 0 \<longleftrightarrow> cb_data (pSendBuff c) = []" "m_mapSeq2WorkerIndex W2 = m_mapSeq2WorkerIndex W"
    using write_effect [OF assms(8,3), of W "sh_fd sh" False] by blast
  have "ReadableBytes (pWaitForSendBuff c) > 0" using buf_ok_readable [OF assms(6)] assms(5) by auto
  then obtain W3 c3 where "live W3 sh = Some c3" "W' = put_conn W3 (sh_fd sh) (RemoveIoWriteEvent c3)"
    using assms(2,4,7,9) q x by (auto simp: IoWrite_def Let_def bind_eq_Some_conv split: if_splits)
  then show ?thesis
    by (auto simp: live_Some put_conn_def armed_def RemoveIoWriteEvent_def split: option.splits)
qed

text \<open>An environment in which every write takes one byte, and a new connection that has finished its handshake.\<close>

definition slow_env :: "byte list wenv" where
  "slow_env = sample_env\<lparr>e_send := \<lambda>_ _ bs. Inl 1\<rparr>"

lemma slow_env_ok: "sys_ok slow_env"
  by (simp add: sys_ok_def slow_env_def sample_env_def Suc_le_eq)

lemma slow_env_codec:
  "\<exists>codec. e_codec slow_env CODEC_PROTOBUF = Some codec \<and> c_enc codec = ProtoCodec_Encode sample_pb (\<lambda>_. True, \<lambda>_. 0)"
  by (simp add: slow_env_def sample_env_def)

definition ready_conn :: "byte list worker" where
  "ready_conn = put_conn one_conn 5 ((new_conn 5 1 CODEC_PROTOBUF 0)\<lparr>ucConnectStatus := eConnectStatus_ok\<rparr>)"

lemma ready_conn_open:
  assumes "n < 2 ^ 31"
  shows "open_channel ready_conn \<lparr>sh_fd = 5, sh_seq = 1\<rparr> n (eConnectStatus_ok, [], [])"
proof -
  let ?c = "(new_conn 5 1 CODEC_PROTOBUF 0)\<lparr>ucConnectStatus := eConnectStatus_ok\<rparr>"
  have "live ready_conn \<lparr>sh_fd = 5, sh_seq = 1\<rparr> = Some ?c" by (simp add: ready_conn_def live_def) (simp add: new_conn_def)
  moreover have "m_mapSeq2WorkerIndex ready_conn 1 = None" "wire ready_conn 1 = []"
    by (simp_all add: ready_conn_def one_conn_eq put_conn_def empty_worker_def)
  moreover have "m_write_idx CBuffer_new = 0" by (simp add: CBuffer_new_def)
  ultimately show ?thesis using assms by (auto simp: open_channel_def new_conn_def buf_ok_def)
qed

theorem sender_refines_channel_witness:
  "\<exists>rs W' s'. send_run slow_env \<lparr>sh_fd = 5, sh_seq = 1\<rparr> [Send sample_msg, Writable, Flush] ready_conn = Some (rs, W')
    \<and> channel_run (proto_frame sample_pb) [Send sample_msg, Writable, Flush] rs (eConnectStatus_ok, [], []) s'
    \<and> (open_channel W' \<lparr>sh_fd = 5, sh_seq = 1\<rparr> 0 s' \<or> closed_channel W' \<lparr>sh_fd = 5, sh_seq = 1\<rparr> s')"
proof -
  obtain codec where "e_codec slow_env CODEC_PROTOBUF = Some codec" "c_enc codec = ProtoCodec_Encode sample_pb (\<lambda>_. True, \<lambda>_. 0)"
    using slow_env_codec by blast
  moreover have "\<forall>m. Send m \<in> set [Send sample_msg, Writable, Flush] \<longrightarrow> proto_valid sample_pb m" using sample_msg_valid(1) by simp
  ultimately show ?thesis
    by (rule sender_refines_channel [OF slow_env_ok]) (simp add: ready_conn_open sample_frame_length)
qed

text \<open>
  C12. On an established connection messages leave in the order of the calls: after any run of the sending operations
  the bytes on the wire are a prefix of the frames of the accepted messages, in order; while the
  connection is open, the rest is in the send buffer and has a write event.
\<close>

theorem established_sender_in_order:
  assumes "sys_ok E" "e_codec E CODEC_PROTOBUF = Some codec" "c_enc codec = ProtoCodec_Encode P hp"
    and "\<forall>m. Send m \<in> set ops \<longrightarrow> proto_valid P m"
    and "open_channel W sh (2 * (\<Sum>op\<leftarrow>ops. length (case op of Send m \<Rightarrow> proto_frame P m | _ \<Rightarrow> []))) (eConnectStatus_ok, out, [])"
  shows "\<exists>rs W'. send_run E sh ops W = Some (rs, W')
    \<and> prefix (wire W' (sh_seq sh)) (out @ concat (map (proto_frame P) (accepted ops rs)))
    \<and> (\<forall>c. live W' sh = Some c \<longrightarrow> wire W' (sh_seq sh) @ cb_data (pSendBuff c) = out @ concat (map (proto_frame P) (accepted ops rs))
        \<and> (cb_data (pSendBuff c) \<noteq> [] \<longrightarrow> armed c))"
  using proto_established [OF assms] by blast

theorem established_sender_in_order_witness:
  "\<exists>rs W'. send_run slow_env \<lparr>sh_fd = 5, sh_seq = 1\<rparr> [Send sample_msg, Send sample_msg, Writable] ready_conn = Some (rs, W')
    \<and> prefix (wire W' 1) (concat (map (proto_frame sample_pb) (accepted [Send sample_msg, Send sample_msg, Writable] rs)))"
proof -
  obtain codec where codec: "e_codec slow_env CODEC_PROTOBUF = Some codec" "c_enc codec = ProtoCodec_Encode sample_pb (\<lambda>_. True, \<lambda>_. 0)"
    using slow_env_codec by blast
  have "\<forall>m. Send m \<in> set [Send sample_msg, Send sample_msg, Writable] \<longrightarrow> proto_valid sample_pb m" using sample_msg_valid(1) by simp
  moreover have "open_channel ready_conn \<lparr>sh_fd = 5, sh_seq = 1\<rparr> (2 * (\<Sum>op\<leftarrow>[Send sample_msg, Send sample_msg, Writable].
      length (case op of Send m \<Rightarrow> proto_frame sample_pb m | _ \<Rightarrow> []))) (eConnectStatus_ok, [], [])"
    by (simp add: ready_conn_open sample_frame_length)
  ultimately have "\<exists>rs W'. send_run slow_env \<lparr>sh_fd = 5, sh_seq = 1\<rparr> [Send sample_msg, Send sample_msg, Writable] ready_conn = Some (rs, W')
    \<and> prefix (wire W' (sh_seq \<lparr>sh_fd = 5, sh_seq = 1\<rparr>)) ([] @ concat (map (proto_frame sample_pb) (accepted [Send sample_msg, Send sample_msg, Writable] rs)))"
    using established_sender_in_order [OF slow_env_ok codec] by blast
  then show ?thesis by (simp only: append_Nil tagMsgShell.select_convs)
qed

end
