(* ===== verification/StepTable.thy ===== *)
theory StepTable
  imports WorkerIo
begin

text \<open>
  The table of steps: in every state that creating, registering, delaying and deleting steps leads to, the table
  has no dangling entry, each entry is found under its own sequence number, and deleting a step succeeds.
  The theorems at the end show the cases in which the code breaks this: a failed allocation, a step that is
  still the next step of another, and a heartbeat that outlives its connection.
\<close>

subsection \<open>Invariant\<close>

definition entry_ok :: "'b worker \<Rightarrow> u32 \<Rightarrow> nat \<Rightarrow> bool" where
  "entry_ok W s p \<longleftrightarrow> s \<noteq> 0 \<and> (\<exists>st. step_heap W p = Some st \<and> m_bRegistered st \<and> st_seq st = s \<and> m_pTimeoutWatcher st \<noteq> None)"

definition steps_ok :: "'b worker \<Rightarrow> bool" where
  "steps_ok W \<longleftrightarrow> (\<forall>s p. m_mapCallbackStep W s = Some p \<longrightarrow> entry_ok W s p)
     \<and> (\<forall>p st. step_heap W p = Some st \<longrightarrow> p < next_addr W \<and> m_pNextStep st = None)"

lemma steps_ok_entry: "steps_ok W \<Longrightarrow> m_mapCallbackStep W s = Some p \<Longrightarrow> entry_ok W s p"
  and steps_ok_heap: "steps_ok W \<Longrightarrow> step_heap W p = Some st \<Longrightarrow> p < next_addr W \<and> m_pNextStep st = None"
  unfolding steps_ok_def by blast+

lemma GetSequence_nonzero: "fst (GetSequence W) \<noteq> 0"
  by (auto simp: GetSequence_def Let_def word_gt_0)

lemma GetSequence_keeps [simp]:
  "step_heap (snd (GetSequence W)) = step_heap W" "m_mapCallbackStep (snd (GetSequence W)) = m_mapCallbackStep W"
  "next_addr (snd (GetSequence W)) = next_addr W" "w_now (snd (GetSequence W)) = w_now W" "w_time (snd (GetSequence W)) = w_time W"
  "m_dStepTimeout (snd (GetSequence W)) = m_dStepTimeout W" "m_mapFdAttr (snd (GetSequence W)) = m_mapFdAttr W"
  by (simp_all add: GetSequence_def Let_def)

lemma put_step_simps [simp]:
  "step_heap (put_step W p st) = (step_heap W)(p \<mapsto> st)" "m_mapCallbackStep (put_step W p st) = m_mapCallbackStep W"
  "next_addr (put_step W p st) = next_addr W" "w_now (put_step W p st) = w_now W" "w_time (put_step W p st) = w_time W"
  "m_mapFdAttr (put_step W p st) = m_mapFdAttr W" "m_dStepTimeout (put_step W p st) = m_dStepTimeout W"
  by (simp_all add: put_step_def)

lemma put_step_twice [simp]: "put_step (put_step W p a) p b = put_step W p b"
  by (simp add: put_step_def)

text \<open>A change of an object that keeps what the table relies on.\<close>

lemma steps_ok_put:
  assumes "steps_ok W" "step_heap W p = Some st"
    and "m_bRegistered st \<longrightarrow> m_bRegistered st' \<and> st_seq st' = st_seq st \<and> (m_pTimeoutWatcher st \<noteq> None \<longrightarrow> m_pTimeoutWatcher st' \<noteq> None)"
    and "m_pNextStep st' = None"
  shows "steps_ok (put_step W p st')"
proof -
  have "entry_ok (put_step W p st') s q" if "m_mapCallbackStep W s = Some q" for s q
    using steps_ok_entry [OF assms(1) that] assms(2,3) by (auto simp: entry_ok_def)
  then show ?thesis using assms(2,4) steps_ok_heap [OF assms(1)] by (auto simp: steps_ok_def)
qed

lemma steps_ok_same:
  assumes "steps_ok W" "step_heap W' = step_heap W" "m_mapCallbackStep W' = m_mapCallbackStep W" "next_addr W' = next_addr W"
  shows "steps_ok W'"
  using assms by (simp add: steps_ok_def entry_ok_def)

lemma Step_GetSequence_entry:
  assumes "entry_ok W s p"
  shows "Step_GetSequence W p = Some (s, W)"
  using assms by (auto simp: Step_GetSequence_def entry_ok_def)

lemma delete_step_plain:
  assumes "step_heap W p = Some st" "m_pNextStep st = None"
  shows "delete_step W p = Some (W\<lparr>step_heap := (step_heap W)(p := None)\<rparr>)"
  using assms by (subst delete_step.simps) simp

subsection \<open>Registration\<close>

definition fresh_seq :: "'b worker \<Rightarrow> 'b step \<Rightarrow> u32 \<times> 'b worker" where
  "fresh_seq W st = (if st_seq st = 0 then GetSequence W else (st_seq st, W))"

lemma fresh_seq_keeps:
  "fst (fresh_seq W st) \<noteq> 0" "step_heap (snd (fresh_seq W st)) = step_heap W" "m_mapCallbackStep (snd (fresh_seq W st)) = m_mapCallbackStep W"
  "next_addr (snd (fresh_seq W st)) = next_addr W"
  using GetSequence_nonzero [of W] by (auto simp: fresh_seq_def)

lemma RegisterCallback_new:
  assumes "step_heap W p = Some st" "\<not> m_bRegistered st" "fst (e_hp E) = (\<lambda>_. True)"
  shows "\<exists>W'. RegisterCallback E W p t = Some (m_mapCallbackStep W (fst (fresh_seq W st)) = None, W')
    \<and> next_addr W' = next_addr W
    \<and> (\<exists>st'. step_heap W' = (step_heap W)(p \<mapsto> st') \<and> m_bRegistered st' \<and> st_seq st' = fst (fresh_seq W st) \<and> m_pNextStep st' = m_pNextStep st
        \<and> (if m_mapCallbackStep W (fst (fresh_seq W st)) = None
           then m_pTimeoutWatcher st' \<noteq> None \<and> m_mapCallbackStep W' = (m_mapCallbackStep W)(fst (fresh_seq W st) \<mapsto> p)
           else m_mapCallbackStep W' = m_mapCallbackStep W))"
proof -
  let ?st = "st\<lparr>m_bRegistered := True, m_dActiveTime := w_now W\<rparr>" let ?W = "put_step W p ?st"
  have "\<exists>W1. Step_GetSequence ?W p = Some (fst (fresh_seq W st), W1) \<and> step_heap W1 = (step_heap W)(p \<mapsto> ?st\<lparr>st_seq := fst (fresh_seq W st)\<rparr>)
    \<and> m_mapCallbackStep W1 = m_mapCallbackStep W \<and> next_addr W1 = next_addr W"
    by (auto simp: Step_GetSequence_def fresh_seq_def put_step_def GetSequence_def Let_def)
  then obtain W1 where W1: "Step_GetSequence ?W p = Some (fst (fresh_seq W st), W1)"
    "step_heap W1 = (step_heap W)(p \<mapsto> ?st\<lparr>st_seq := fst (fresh_seq W st)\<rparr>)"
    "m_mapCallbackStep W1 = m_mapCallbackStep W" "next_addr W1 = next_addr W" by blast
  moreover have "c_malloc (e_hp E) sizeof_ev_timer \<noteq> None" using assms(3) by (simp add: c_malloc_def sizeof_ev_timer_def)
  ultimately show ?thesis using assms(1,2)
    by (cases "m_mapCallbackStep W (fst (fresh_seq W st))") (auto simp: RegisterCallback_def Let_def)
qed

text \<open>A successful registration adds an entry; after a failed one the caller deletes the object.\<close>

lemma RegisterCallback_ok:
  assumes ok: "steps_ok W" and E: "fst (e_hp E) = (\<lambda>_. True)" and r: "RegisterCallback E W p t = Some (True, W')"
  shows "steps_ok W'"
proof -
  obtain st where st: "step_heap W p = Some st" using r by (auto simp: RegisterCallback_def split: bind_splits)
  show ?thesis
  proof (cases "m_bRegistered st")
    case True
    then show ?thesis using r st ok by (simp add: RegisterCallback_def)
  next
    case False
    let ?s = "fst (fresh_seq W st)"
    obtain st' where W': "next_addr W' = next_addr W" "step_heap W' = (step_heap W)(p \<mapsto> st')" "m_bRegistered st'" "st_seq st' = ?s"
      "m_pNextStep st' = m_pNextStep st" "m_pTimeoutWatcher st' \<noteq> None" "m_mapCallbackStep W' = (m_mapCallbackStep W)(?s \<mapsto> p)"
      using RegisterCallback_new [OF st False E, of t] r by auto
    have "entry_ok W' s q" if "m_mapCallbackStep W' s = Some q" for s q
    proof (cases "s = ?s")
      case True
      then show ?thesis using that W' fresh_seq_keeps(1) by (auto simp: entry_ok_def)
    next
      case s: False
      then have e: "entry_ok W s q" using that W'(7) steps_ok_entry [OF ok] by simp
      then have "q \<noteq> p" using st False by (auto simp: entry_ok_def)
      then show ?thesis using e W'(2) by (simp add: entry_ok_def)
    qed
    moreover have "q < next_addr W' \<and> m_pNextStep s = None" if "step_heap W' q = Some s" for q s
      using that W'(1,2,5) steps_ok_heap [OF ok] st by (auto split: if_splits)
    ultimately show ?thesis by (simp add: steps_ok_def)
  qed
qed

lemma RegisterCallback_fails:
  assumes ok: "steps_ok W" and E: "fst (e_hp E) = (\<lambda>_. True)"
    and r: "RegisterCallback E W p t = Some (False, W1)" "delete_step W1 p = Some W'"
  shows "steps_ok W'"
proof -
  obtain st where st: "step_heap W p = Some st" using r(1) by (auto simp: RegisterCallback_def split: bind_splits)
  then have reg: "\<not> m_bRegistered st" using r(1) by (auto simp: RegisterCallback_def)
  obtain st' where W1: "next_addr W1 = next_addr W" "step_heap W1 = (step_heap W)(p \<mapsto> st')" "m_pNextStep st' = m_pNextStep st"
    "m_mapCallbackStep W1 = m_mapCallbackStep W"
    using RegisterCallback_new [OF st reg E, of t] r(1) by auto
  then have W': "W' = W1\<lparr>step_heap := (step_heap W1)(p := None)\<rparr>" using r(2) delete_step_plain [of W1 p st'] steps_ok_heap [OF ok st] by simp
  have "entry_ok W' s q" if "m_mapCallbackStep W' s = Some q" for s q
  proof -
    have e: "entry_ok W s q" using that W' W1(4) steps_ok_entry [OF ok] by simp
    then have "q \<noteq> p" using st reg by (auto simp: entry_ok_def)
    then show ?thesis using e W1(2) by (simp add: entry_ok_def W')
  qed
  moreover have "q < next_addr W' \<and> m_pNextStep s = None" if "step_heap W' q = Some s" for q s
    using that W1 W' steps_ok_heap [OF ok] by (auto split: if_splits)
  ultimately show ?thesis by (simp add: steps_ok_def)
qed

subsection \<open>Timers and deletion\<close>

lemma DelayTimeout_entry:
  assumes "steps_ok W" "entry_ok W s p"
  shows "\<exists>W' st'. DelayTimeout W p = Some W' \<and> steps_ok W' \<and> m_mapCallbackStep W' = m_mapCallbackStep W
    \<and> step_heap W' = (step_heap W)(p \<mapsto> st') \<and> m_bRegistered st' \<and> st_seq st' = s"
proof -
  obtain st where st: "step_heap W p = Some st" "m_bRegistered st" "st_seq st = s" "m_pTimeoutWatcher st \<noteq> None" using assms(2) by (auto simp: entry_ok_def)
  let ?st = "st\<lparr>m_pTimeoutWatcher := Some (Some (w_now W + m_dTimeout st + w_time W - w_now W))\<rparr>"
  have "DelayTimeout W p = Some (put_step W p ?st)" using st by (auto simp: DelayTimeout_def ResetTimeout_def Let_def)
  moreover have "steps_ok (put_step W p ?st)" using steps_ok_put [OF assms(1) st(1)] steps_ok_heap [OF assms(1) st(1)] by simp
  ultimately show ?thesis using st by (intro exI [of _ "put_step W p ?st"] exI [of _ ?st]) simp
qed

text \<open>Deleting a registered step either removes it from the table and the heap or, while a pre-step runs, restarts its timer.\<close>

lemma DeleteCallback_entry:
  assumes ok: "steps_ok W" and s: "m_mapCallbackStep W s = Some p"
  shows "\<exists>W'. DeleteCallback_self W self p = Some W' \<and> steps_ok W'
    \<and> (if snd (drop_finished W self (m_setPreStepSeq (the (step_heap W p))))
       then m_mapCallbackStep W' = m_mapCallbackStep W \<and> (\<exists>st'. step_heap W' = (step_heap W)(p \<mapsto> st') \<and> m_bRegistered st' \<and> st_seq st' = s)
       else m_mapCallbackStep W' = (m_mapCallbackStep W)(s := None) \<and> step_heap W' = (step_heap W)(p := None))"
proof -
  have e: "entry_ok W s p" by (rule steps_ok_entry [OF ok s])
  then obtain st where st: "step_heap W p = Some st" "m_bRegistered st" "st_seq st = s" "s \<noteq> 0" "m_pTimeoutWatcher st \<noteq> None" by (auto simp: entry_ok_def)
  obtain pre running where d: "drop_finished W self (m_setPreStepSeq st) = (pre, running)" by (cases "drop_finished W self (m_setPreStepSeq st)")
  have nx: "m_pNextStep st = None" using steps_ok_heap [OF ok st(1)] by simp
  show ?thesis
  proof (cases running)
    case True
    let ?W = "put_step W p (st\<lparr>m_setPreStepSeq := pre\<rparr>)"
    have "steps_ok ?W" using steps_ok_put [OF ok st(1)] nx by simp
    moreover have "entry_ok ?W s p" using st by (auto simp: entry_ok_def)
    ultimately show ?thesis using DelayTimeout_entry [of ?W s p] True d st(1) by (auto simp: DeleteCallback_self_def)
  next
    case False
    let ?st = "st\<lparr>m_setPreStepSeq := pre, m_pTimeoutWatcher := map_option (\<lambda>_. None) (m_pTimeoutWatcher st)\<rparr>" let ?W = "put_step W p ?st"
    let ?W' = "?W\<lparr>step_heap := (step_heap W)(p := None), m_mapCallbackStep := (m_mapCallbackStep W)(s := None)\<rparr>"
    have "Step_GetSequence ?W p = Some (s, ?W)" using st by (auto simp: Step_GetSequence_def)
    moreover have "delete_step ?W p = Some (?W\<lparr>step_heap := (step_heap W)(p := None)\<rparr>)" using delete_step_plain [of ?W p ?st] nx by simp
    ultimately have "DeleteCallback_self W self p = Some ?W'" using False d s st(1) by (simp add: DeleteCallback_self_def Let_def)
    moreover have "entry_ok ?W' x q" if "m_mapCallbackStep ?W' x = Some q" for x q
    proof -
      have x: "x \<noteq> s" "entry_ok W x q" using that steps_ok_entry [OF ok] by (auto split: if_splits)
      then have "q \<noteq> p" using st by (auto simp: entry_ok_def)
      then show ?thesis using x(2) by (simp add: entry_ok_def)
    qed
    then have "steps_ok ?W'" using steps_ok_heap [OF ok] by (auto simp: steps_ok_def split: if_splits)
    ultimately show ?thesis using False d st(1) by simp
  qed
qed

subsection \<open>Reachable states\<close>

text \<open>
  The operations on steps that have no next step, as the steps of the framework itself have none.  Time passes between them, and
  the receipt of a message refreshes the step it is for.
\<close>

inductive step_op :: "'b wenv \<Rightarrow> 'b worker \<Rightarrow> 'b worker \<Rightarrow> bool" for E where
  New: "alloc_step W kind = (p, W') \<Longrightarrow> step_op E W W'"
| Register: "RegisterCallback E W p t = Some (True, W') \<Longrightarrow> step_op E W W'"
| Register_fails: "RegisterCallback E W p t = Some (False, W1) \<Longrightarrow> delete_step W1 p = Some W' \<Longrightarrow> step_op E W W'"
| Delete: "m_mapCallbackStep W s = Some p \<Longrightarrow> DeleteCallback_self W self p = Some W' \<Longrightarrow> step_op E W W'"
| Delay: "m_mapCallbackStep W s = Some p \<Longrightarrow> DelayTimeout W p = Some W' \<Longrightarrow> step_op E W W'"
| Arm: "arm_step W p after = Some W' \<Longrightarrow> step_op E W W'"
| Pre: "AddPreStepSeq W q p = Some W' \<Longrightarrow> m_mapCallbackStep W s = Some p \<Longrightarrow> step_op E W W'"
| Refresh: "step_heap W p = Some st \<Longrightarrow> step_op E W (put_step W p (st\<lparr>m_dActiveTime := now\<rparr>))"
| Tick: "step_op E W (W\<lparr>w_now := now, w_time := time\<rparr>)"

inductive_cases step_opE: "step_op E W W'"

lemma step_op_ok:
  assumes "step_op E W W'" "fst (e_hp E) = (\<lambda>_. True)" "steps_ok W"
  shows "steps_ok W'"
  using assms
proof (induction rule: step_op.induct)
  case (New W kind p W')
  have "step_heap W (next_addr W) = None" using steps_ok_heap [OF New.prems(2), of "next_addr W"] by fastforce
  moreover have "W' = W\<lparr>step_heap := (step_heap W)(next_addr W \<mapsto> new_step kind), next_addr := next_addr W + 1\<rparr>"
    using New.hyps by (auto simp: alloc_step_def)
  ultimately show ?case using New.prems(2) by (fastforce simp: steps_ok_def entry_ok_def new_step_def)
next
  case (Register W p t W')
  then show ?case using RegisterCallback_ok by blast
next
  case (Register_fails W p t W1 W')
  then show ?case using RegisterCallback_fails by blast
next
  case (Delete W s p self W')
  then show ?case using DeleteCallback_entry [OF Delete.prems(2) Delete.hyps(1), of self] by auto
next
  case (Delay W s p W')
  then show ?case using DelayTimeout_entry [OF Delay.prems(2) steps_ok_entry [OF Delay.prems(2) Delay.hyps(1)]] by auto
next
  case (Arm W p after W')
  then obtain st where "step_heap W p = Some st" "W' = put_step W p (st\<lparr>m_pTimeoutWatcher := Some (Some (after + w_time W - w_now W))\<rparr>)"
    by (auto simp: arm_step_def split: bind_splits)
  then show ?case using steps_ok_put [OF Arm.prems(2), of p st] steps_ok_heap [OF Arm.prems(2), of p st] by simp
next
  case (Pre W q p W' s)
  have e: "entry_ok W s p" using steps_ok_entry Pre by blast
  then have "Step_GetSequence W p = Some (s, W)" by (rule Step_GetSequence_entry)
  then obtain me where "step_heap W q = Some me" "W' = put_step W q (me\<lparr>m_setPreStepSeq := set_insert s (m_setPreStepSeq me)\<rparr>)"
    using Pre.hyps(1) e by (auto simp: AddPreStepSeq_def entry_ok_def split: bind_splits)
  then show ?case using steps_ok_put [OF Pre.prems(2), of q me] steps_ok_heap [OF Pre.prems(2), of q me] by simp
next
  case (Refresh W p st now)
  then show ?case using steps_ok_put [OF Refresh.prems(2) Refresh.hyps] steps_ok_heap [OF Refresh.prems(2) Refresh.hyps] by simp
next
  case (Tick W now time)
  then show ?case using steps_ok_same [OF Tick.prems(2)] by simp
qed

lemma step_reach_ok: "(step_op E)\<^sup>*\<^sup>* W W' \<Longrightarrow> fst (e_hp E) = (\<lambda>_. True) \<Longrightarrow> steps_ok W \<Longrightarrow> steps_ok W'"
  by (induction rule: rtranclp_induct) (blast intro: step_op_ok)+

lemma steps_ok_empty: "m_mapCallbackStep W = Map.empty \<Longrightarrow> step_heap W = Map.empty \<Longrightarrow> steps_ok W"
  by (simp add: steps_ok_def)

text \<open>
  C10. For steps without a next step the table has no dangling entry: in every state that creating, registering, delaying, refreshing
  and deleting such steps lead to from a worker
  without steps while memory lasts, an entry leads to a registered object that bears the sequence number of the entry, no two
  entries share an object, and deleting the step succeeds: it removes the object and its entry and nothing
  else or, while a pre-step runs, leaves the table and the other objects alone and keeps the object registered under its number.
  With a next step this fails (\<open>finished_next_step_dangles\<close>).
\<close>

theorem step_table_consistent:
  assumes "(step_op E)\<^sup>*\<^sup>* W0 W" "m_mapCallbackStep W0 = Map.empty" "step_heap W0 = Map.empty"
    and "fst (e_hp E) = (\<lambda>_. True)" "GetStep W s = Some p"
  shows "Step_GetSequence W p = Some (s, W) \<and> (GetStep W s' = Some p \<longrightarrow> s' = s)
    \<and> (\<exists>W'. DeleteCallback W p = Some W' \<and>
        (if snd (drop_finished W None (m_setPreStepSeq (the (step_heap W p))))
         then m_mapCallbackStep W' = m_mapCallbackStep W
           \<and> (\<exists>st'. step_heap W' = (step_heap W)(p \<mapsto> st') \<and> m_bRegistered st' \<and> st_seq st' = s)
         else m_mapCallbackStep W' = (m_mapCallbackStep W)(s := None) \<and> step_heap W' = (step_heap W)(p := None)))"
proof -
  have ok: "steps_ok W" using step_reach_ok [OF assms(1,4) steps_ok_empty [OF assms(2,3)]] .
  have s: "m_mapCallbackStep W s = Some p" using assms(5) by (simp add: GetStep_def)
  have e: "entry_ok W s p" by (rule steps_ok_entry [OF ok s])
  then have "s' = s" if "GetStep W s' = Some p"
    using that steps_ok_entry [OF ok, of s' p] by (auto simp: GetStep_def entry_ok_def)
  moreover have "Step_GetSequence W p = Some (s, W)" using e by (rule Step_GetSequence_entry)
  ultimately show ?thesis using DeleteCallback_entry [OF ok s, of None] unfolding DeleteCallback_def by blast
qed

text \<open>A worker with one registered heartbeat step.\<close>

definition one_step :: "byte list worker" where
  "one_step = snd (the (RegisterCallback sample_env (snd (alloc_step one_conn (StepIoTimeout \<lparr>sh_fd = 5, sh_seq = 1\<rparr>))) 0 2))"

lemma one_step_entry: "GetStep one_step 2 = Some 0"
  and one_step_heap: "step_heap one_step 0 = Some ((new_step (StepIoTimeout \<lparr>sh_fd = 5, sh_seq = 1\<rparr>))
      \<lparr>m_bRegistered := True, st_seq := 2, m_dTimeout := 2, m_pTimeoutWatcher := Some (Some 2)\<rparr>)"
  and one_step_registers: "RegisterCallback sample_env (snd (alloc_step one_conn (StepIoTimeout \<lparr>sh_fd = 5, sh_seq = 1\<rparr>))) 0 2 = Some (True, one_step)"
  by (simp_all add: one_step_def alloc_step_def one_conn_eq empty_worker_def put_conn_def RegisterCallback_def new_step_def Step_GetSequence_def
      put_step_def GetSequence_def sample_env_def c_malloc_def sizeof_ev_timer_def GetStep_def Let_def)

theorem step_table_consistent_witness:
  "\<exists>W'. DeleteCallback one_step 0 = Some W' \<and> GetStep W' 2 = None \<and> step_heap W' 0 = None"
proof -
  let ?W = "snd (alloc_step one_conn (StepIoTimeout \<lparr>sh_fd = 5, sh_seq = 1\<rparr>))"
  have "step_op sample_env one_conn ?W" by (rule step_op.New [of _ _ 0]) (simp add: alloc_step_def one_conn_eq put_conn_def empty_worker_def)
  moreover have "step_op sample_env ?W one_step" by (rule step_op.Register [OF one_step_registers])
  ultimately have "(step_op sample_env)\<^sup>*\<^sup>* one_conn one_step" by (meson converse_rtranclp_into_rtranclp rtranclp.rtrancl_refl)
  moreover have "m_mapCallbackStep one_conn = Map.empty" "step_heap one_conn = Map.empty" "fst (e_hp sample_env) = (\<lambda>_. True)"
    by (simp_all add: one_conn_eq put_conn_def empty_worker_def sample_env_def)
  ultimately have "\<exists>W'. DeleteCallback one_step 0 = Some W' \<and>
        (if snd (drop_finished one_step None (m_setPreStepSeq (the (step_heap one_step 0))))
         then m_mapCallbackStep W' = m_mapCallbackStep one_step
           \<and> (\<exists>st'. step_heap W' = (step_heap one_step)(0 \<mapsto> st') \<and> m_bRegistered st' \<and> st_seq st' = 2)
         else m_mapCallbackStep W' = (m_mapCallbackStep one_step)(2 := None) \<and> step_heap W' = (step_heap one_step)(0 := None))"
    using step_table_consistent [OF _ _ _ _ one_step_entry] by blast
  then show ?thesis by (auto simp: one_step_heap new_step_def GetStep_def)
qed

subsection \<open>Where the table breaks\<close>

text \<open>
  C40. A heartbeat outlives its connection: when a connection with its timer is closed, by \<open>Disconnect\<close> with or without a notice (a notice
  finds no command loaded), while the answer to a heartbeat is outstanding, the heartbeat step stays registered, and its timeout uses
  the timer of the connection, which was deleted with it.
\<close>

theorem heartbeat_outlives_connection:
  assumes "GetStep W s = Some p" "step_heap W p = Some st" "st_kind st = StepIoTimeout sh" "live W sh = Some c" "pTimeWatcher c \<noteq> None"
    and "Disconnect E W sh notice = Some (True, W')" "notice \<longrightarrow> e_so E CMD_REQ_DISCONNECT = None" "m_dActiveTime st + m_dTimeout st \<le> t"
  shows "GetStep W' s = Some p \<and> StepTimeout E (W'\<lparr>w_now := t\<rparr>) p = None"
proof -
  have "step_heap W' = step_heap W" "m_mapFdAttr W' (sh_fd sh) = None" "m_mapCallbackStep W' = m_mapCallbackStep W"
    using assms(4,6,7) by (auto simp: Disconnect_def DestroyConnect_def MsgShellNotice_def live_Some Let_def DelMsgShell_def split: option.splits if_splits)
  then show ?thesis using assms(1-3,8)
    by (simp add: GetStep_def StepTimeout_def Let_def Timeout_def StepIoTimeout_Timeout_def IoTimeout_def live_def)
qed

lemma DelMsgShell_keeps: "m_mapFdAttr (DelMsgShell W ident sh) = m_mapFdAttr W" "step_heap (DelMsgShell W ident sh) = step_heap W"
  "m_mapCallbackStep (DelMsgShell W ident sh) = m_mapCallbackStep W"
  by (simp_all add: DelMsgShell_def split: option.splits)

text \<open>The worker with the heartbeat step, whose connection has its timer.\<close>

definition timed_conn :: tagConnectionAttr where
  "timed_conn = AddIoTimeout one_step 5 1 (new_conn 5 1 CODEC_PROTOBUF 0) (3 / 2)"

definition beating :: "byte list worker" where
  "beating = put_conn one_step 5 timed_conn"

lemma beating_live: "live beating \<lparr>sh_fd = 5, sh_seq = 1\<rparr> = Some timed_conn" "pTimeWatcher timed_conn \<noteq> None"
  by (simp_all add: beating_def live_Some timed_conn_def AddIoTimeout_def) (simp add: new_conn_def)

lemma beating_step: "GetStep beating 2 = Some 0"
  "step_heap beating 0 = Some ((new_step (StepIoTimeout \<lparr>sh_fd = 5, sh_seq = 1\<rparr>))
      \<lparr>m_bRegistered := True, st_seq := 2, m_dTimeout := 2, m_pTimeoutWatcher := Some (Some 2)\<rparr>)"
  using one_step_entry one_step_heap by (simp_all add: beating_def put_conn_def GetStep_def)

text \<open>Without the close the same timeout is harmless.\<close>

lemma beating_timeout: "StepTimeout sample_env (beating\<lparr>w_now := 2\<rparr>) 0 \<noteq> None"
proof -
  let ?W = "beating\<lparr>w_now := 2\<rparr>" let ?sh = "\<lparr>sh_fd = 5, sh_seq = 1\<rparr>"
  have c: "m_mapFdAttr ?W 5 = Some timed_conn" "ulSeq timed_conn = 1" using beating_live(1) by (simp_all add: live_Some)
  have k: "dKeepAlive timed_conn = 0" by (simp add: timed_conn_def AddIoTimeout_def new_conn_def)
  have i: "m_mapInnerFd ?W 5 = None"
    by (simp add: beating_def one_step_def alloc_step_def one_conn_eq empty_worker_def put_conn_def RegisterCallback_def new_step_def Step_GetSequence_def
      put_step_def GetSequence_def sample_env_def c_malloc_def sizeof_ev_timer_def Let_def)
  obtain r W1 where d: "DestroyConnect sample_env ?W 5 True = Some (r, W1)" "step_heap W1 = step_heap beating" "m_mapCallbackStep W1 = m_mapCallbackStep beating"
    using c by (simp add: DestroyConnect_def MsgShellNotice_def sample_env_def Let_def DelMsgShell_keeps)
  have "IoTimeout sample_env ?W ?sh False = Some (True, W1)"
    using c k i d(1) beating_live(2) by (auto simp: IoTimeout_def live_def)
  moreover obtain x where "DeleteCallback W1 0 = Some x"
    using d(2,3) beating_step by (auto simp: DeleteCallback_def DeleteCallback_self_def new_step_def Step_GetSequence_def GetStep_def put_step_def delete_step.simps)
  ultimately show ?thesis using beating_step(2)
    by (simp add: StepTimeout_def Timeout_def StepIoTimeout_Timeout_def new_step_def)
qed

theorem heartbeat_outlives_connection_witness:
  "\<exists>W'. Disconnect sample_env beating \<lparr>sh_fd = 5, sh_seq = 1\<rparr> True = Some (True, W') \<and> GetStep W' 2 = Some 0
    \<and> StepTimeout sample_env (W'\<lparr>w_now := 2\<rparr>) 0 = None \<and> StepTimeout sample_env (beating\<lparr>w_now := 2\<rparr>) 0 \<noteq> None"
proof -
  let ?sh = "\<lparr>sh_fd = 5, sh_seq = 1\<rparr>"
  have "\<exists>W'. Disconnect sample_env beating ?sh True = Some (True, W')"
    using beating_live(1) by (simp add: Disconnect_def DestroyConnect_def MsgShellNotice_def live_Some sample_env_def Let_def DelMsgShell_keeps)
  then obtain W' where d: "Disconnect sample_env beating ?sh True = Some (True, W')" by blast
  moreover have "GetStep W' 2 = Some 0 \<and> StepTimeout sample_env (W'\<lparr>w_now := 2\<rparr>) 0 = None"
    by (rule heartbeat_outlives_connection [OF beating_step _ beating_live d]) (simp_all add: new_step_def sample_env_def)
  ultimately show ?thesis using beating_timeout by blast
qed

text \<open>
  A step that finishes while another still has it as its next step leaves a dangling pointer: \<open>~Step\<close> of the other one asks
  the deleted object whether it is registered.
\<close>

theorem finished_next_step_dangles:
  assumes "m_mapCallbackStep W s = Some q" "entry_ok W s q" "step_heap W q = Some nx" "m_pNextStep nx = None" "m_setPreStepSeq nx = []"
    and "m_mapCallbackStep W r = Some p" "entry_ok W r p" "step_heap W p = Some st" "m_pNextStep st = Some q" "m_setPreStepSeq st = []"
  shows "\<exists>W'. DeleteCallback W q = Some W' \<and> GetStep W' r = Some p \<and> DeleteCallback W' p = None"
proof -
  have q: "m_bRegistered nx" "st_seq nx = s" "s \<noteq> 0" and p: "m_bRegistered st" "st_seq st = r" "r \<noteq> 0" and ne: "p \<noteq> q"
    using assms by (auto simp: entry_ok_def)
  then have "s \<noteq> r" using assms(1,6) by auto
  let ?nx = "nx\<lparr>m_setPreStepSeq := [], m_pTimeoutWatcher := map_option (\<lambda>_. None) (m_pTimeoutWatcher nx)\<rparr>"
  let ?W = "W\<lparr>step_heap := (step_heap W)(q := None), m_mapCallbackStep := (m_mapCallbackStep W)(s := None)\<rparr>"
  have "DeleteCallback W q = Some ?W"
    using assms(1,3-5) q delete_step_plain [of "put_step W q ?nx" q ?nx]
    by (simp add: DeleteCallback_def DeleteCallback_self_def Step_GetSequence_def put_step_def)
  moreover have "delete_step (put_step ?W p x) p = None" if "m_pNextStep x = Some q" for x
    using that ne by (subst delete_step.simps) simp
  then have "DeleteCallback ?W p = None"
    using assms(6,8-10) p ne \<open>s \<noteq> r\<close> by (simp add: DeleteCallback_def DeleteCallback_self_def Step_GetSequence_def)
  ultimately show ?thesis using assms(6) \<open>s \<noteq> r\<close> by (auto simp: GetStep_def)
qed

text \<open>
  A step whose timer cannot be allocated stays in the table after it is deleted: \<open>RegisterCallback\<close> enters
  it before it allocates the timer and reports failure, upon which \<open>ExecStep\<close> deletes the object; whatever
  is done next with the entry uses freed memory.
\<close>

theorem failed_registration_dangles:
  assumes "step_heap W p = Some st" "\<not> m_bRegistered st" "m_pNextStep st = None" "c_malloc (e_hp E) sizeof_ev_timer = None"
    and "m_mapCallbackStep W (fst (fresh_seq W st)) = None"
  shows "\<exists>W'. ExecStep E W p t = Some (False, W') \<and> GetStep W' (fst (fresh_seq W st)) = Some p \<and> step_heap W' p = None
    \<and> ExecStep_seq E W' (fst (fresh_seq W st)) = None"
proof -
  let ?st = "st\<lparr>m_bRegistered := True, m_dActiveTime := w_now W\<rparr>" let ?W = "put_step W p ?st" let ?s = "fst (fresh_seq W st)"
  have "\<exists>W1. Step_GetSequence ?W p = Some (?s, W1) \<and> step_heap W1 p = Some (?st\<lparr>st_seq := ?s\<rparr>) \<and> m_mapCallbackStep W1 = m_mapCallbackStep W"
    by (auto simp: Step_GetSequence_def fresh_seq_def put_step_def GetSequence_def Let_def)
  then obtain W1 where W1: "Step_GetSequence ?W p = Some (?s, W1)" "step_heap W1 p = Some (?st\<lparr>st_seq := ?s\<rparr>)" "m_mapCallbackStep W1 = m_mapCallbackStep W"
    by blast
  let ?W1 = "W1\<lparr>m_mapCallbackStep := (m_mapCallbackStep W)(?s \<mapsto> p)\<rparr>"
  have "RegisterCallback E W p t = Some (False, ?W1)" using assms W1 by (simp add: RegisterCallback_def)
  moreover have "delete_step ?W1 p = Some (?W1\<lparr>step_heap := (step_heap W1)(p := None)\<rparr>)"
    using delete_step_plain [of ?W1 p] W1(2) assms(3) by simp
  ultimately show ?thesis using assms(1,2) by (simp add: ExecStep_def ExecStep_seq_def Emit_def GetStep_def)
qed

theorem failed_registration_dangles_witness:
  "\<exists>W'. ExecStep (sample_env\<lparr>e_hp := (\<lambda>_. False, \<lambda>_. 0)\<rparr>) (snd (alloc_step empty_worker (StepUser 0))) 0 1 = Some (False, W')
    \<and> GetStep W' 1 = Some 0 \<and> step_heap W' 0 = None"
proof -
  let ?E = "sample_env\<lparr>e_hp := (\<lambda>_. False, \<lambda>_. 0)\<rparr>" let ?W = "snd (alloc_step empty_worker (StepUser 0)) :: byte list worker"
  have h: "step_heap ?W 0 = Some (new_step (StepUser 0))" by (simp add: alloc_step_def empty_worker_def)
  have s: "fst (fresh_seq ?W (new_step (StepUser 0))) = 1" by (simp add: fresh_seq_def GetSequence_def alloc_step_def empty_worker_def new_step_def)
  have "\<exists>W'. ExecStep ?E ?W 0 1 = Some (False, W') \<and> GetStep W' (fst (fresh_seq ?W (new_step (StepUser 0)))) = Some 0
    \<and> step_heap W' 0 = None \<and> ExecStep_seq ?E W' (fst (fresh_seq ?W (new_step (StepUser 0)))) = None"
    by (rule failed_registration_dangles [OF h]) (simp_all add: new_step_def c_malloc_def alloc_step_def empty_worker_def)
  then show ?thesis unfolding s by blast
qed

end
