(* ===== verification/Base64.thy ===== *)
theory Base64
  imports Prelude "HOL-Library.Signed_Division"
begin

text \<open>
  The base64 coder, \<open>src/code/Core/Util/src/util/encrypt/base64.c\<close>.

  A source string is a block of bytes; reading outside it is \<open>None\<close>.  The routines write through
  an advancing pointer into a block that the caller sized with \<open>Base64encode_len\<close> or
  \<open>Base64decode_len\<close>; the models return the bytes in the order in which they are written, and the
  theorems say how many there are.  A \<open>char\<close> is signed on the host, so it is sign-extended before
  it is shifted.  The sizes are C \<open>int\<close>s, whose overflow is undefined and \<open>None\<close> here.

  The theorems show that the encoder computes the base64 encoding of RFC 4648 (written as its
  definition by groups of six bits), that the decoder inverts it, and that neither writes more
  than the announced size.
\<close>

subsection \<open>The tables\<close>

definition basis_64 :: "byte list" where
  "basis_64 = map word_of_nat ([65..<91] @ [97..<123] @ [48..<58] @ [43, 47])"

definition pr2six :: "byte list" where
  "pr2six = replicate 43 64 @ [62, 64, 64, 64, 63] @ map word_of_nat [52..<62] @ replicate 7 64 @
            map word_of_nat [0..<26] @ replicate 6 64 @ map word_of_nat [26..<52] @ replicate 133 64"

definition six :: "byte \<Rightarrow> byte" where
  "six c = pr2six ! unat c"

text \<open>Reading one character, and a C \<open>int\<close> result.\<close>

definition char_at :: "byte list \<Rightarrow> nat \<Rightarrow> byte option" where
  "char_at s i = (if i < length s then Some (s ! i) else None)"

definition c_int :: "int \<Rightarrow> int option" where
  "c_int i = (if - (2 ^ 31) \<le> i \<and> i < 2 ^ 31 then Some i else None)"

subsection \<open>Encoding\<close>

definition Base64encode_len :: "int \<Rightarrow> int option" where
  "Base64encode_len len = do {
     l \<leftarrow> c_int (len + 2);
     l \<leftarrow> c_int (l sdiv 3 * 4);
     c_int (l + 1) }"

definition promote :: "byte \<Rightarrow> u32" where
  "promote c = scast c"

text \<open>The four table indexes of a group of three characters.\<close>

definition idx0 :: "byte \<Rightarrow> u32" where
  "idx0 a = signed_drop_bit 2 (promote a) AND 0x3F"

definition idx1 :: "byte \<Rightarrow> byte \<Rightarrow> u32" where
  "idx1 a b = push_bit 4 (promote a AND 0x3) OR signed_drop_bit 4 (promote b AND 0xF0)"

definition idx2 :: "byte \<Rightarrow> byte \<Rightarrow> u32" where
  "idx2 b c = push_bit 2 (promote b AND 0xF) OR signed_drop_bit 6 (promote c AND 0xC0)"

definition idx3 :: "byte \<Rightarrow> u32" where
  "idx3 c = promote c AND 0x3F"

definition idx1_last :: "byte \<Rightarrow> u32" where
  "idx1_last a = push_bit 4 (promote a AND 0x3)"

definition idx2_last :: "byte \<Rightarrow> u32" where
  "idx2_last b = push_bit 2 (promote b AND 0xF)"

definition basis :: "u32 \<Rightarrow> byte" where
  "basis i = basis_64 ! unat i"

definition EQ :: byte where "EQ = 61"

function encode_loop :: "byte list \<Rightarrow> int \<Rightarrow> nat \<Rightarrow> (nat \<times> byte list) option" where
  "encode_loop s len i =
     (if int i < len - 2 then do {
        a \<leftarrow> char_at s i;
        b \<leftarrow> char_at s (i + 1);
        c \<leftarrow> char_at s (i + 2);
        (j, out) \<leftarrow> encode_loop s len (i + 3);
        Some (j, [basis (idx0 a), basis (idx1 a b), basis (idx2 b c), basis (idx3 c)] @ out) }
      else Some (i, []))"
  by pat_completeness auto
termination by (relation "measure (\<lambda>(_, len, i). nat (len - int i))") auto

definition Base64encode :: "byte list \<Rightarrow> int \<Rightarrow> (byte list \<times> int) option" where
  "Base64encode s len = do {
     (i, p) \<leftarrow> encode_loop s len 0;
     p \<leftarrow> (if int i < len then do {
             a \<leftarrow> char_at s i;
             if int i = len - 1 then Some (p @ [basis (idx0 a), basis (idx1_last a), EQ, EQ])
             else do {
               b \<leftarrow> char_at s (i + 1);
               Some (p @ [basis (idx0 a), basis (idx1 a b), basis (idx2_last b), EQ]) } }
           else Some p);
     let p = p @ [0];
     Some (p, int (length p)) }"

subsection \<open>Decoding\<close>

text \<open>The number of characters before the first one that is not in the alphabet.\<close>

function code_chars :: "byte list \<Rightarrow> nat \<Rightarrow> nat option" where
  "code_chars s i = do {
     c \<leftarrow> char_at s i;
     if six c \<le> 63 then code_chars s (i + 1) else Some i }"
  by pat_completeness auto
termination by (relation "measure (\<lambda>(s, i). length s - i)") (auto simp: char_at_def split: if_splits)

definition Base64decode_len :: "byte list \<Rightarrow> int option" where
  "Base64decode_len s = do {
     nprbytes \<leftarrow> code_chars s 0;
     c_int (int ((nprbytes + 3) div 4 * 3) + 1) }"

definition out0 :: "byte \<Rightarrow> byte \<Rightarrow> byte" where
  "out0 a b = push_bit 2 (six a) OR drop_bit 4 (six b)"

definition out1 :: "byte \<Rightarrow> byte \<Rightarrow> byte" where
  "out1 b c = push_bit 4 (six b) OR drop_bit 2 (six c)"

definition out2 :: "byte \<Rightarrow> byte \<Rightarrow> byte" where
  "out2 c d = push_bit 6 (six c) OR six d"

fun decode_loop :: "byte list \<Rightarrow> nat \<Rightarrow> nat \<Rightarrow> (nat \<times> nat \<times> byte list) option" where
  "decode_loop s bufin nprbytes =
     (if nprbytes > 4 then do {
        a \<leftarrow> char_at s bufin;
        b \<leftarrow> char_at s (bufin + 1);
        c \<leftarrow> char_at s (bufin + 2);
        d \<leftarrow> char_at s (bufin + 3);
        (bufin, n, out) \<leftarrow> decode_loop s (bufin + 4) (nprbytes - 4);
        Some (bufin, n, [out0 a b, out1 b c, out2 c d] @ out) }
      else Some (bufin, nprbytes, []))"

declare encode_loop.simps [simp del] code_chars.simps [simp del] decode_loop.simps [simp del]

definition decode_rest :: "byte list \<Rightarrow> nat \<Rightarrow> nat \<Rightarrow> byte list option" where
  "decode_rest s bufin nprbytes = do {
     p \<leftarrow> (if nprbytes > 1 then do {
             a \<leftarrow> char_at s bufin; b \<leftarrow> char_at s (bufin + 1); Some [out0 a b] } else Some []);
     p \<leftarrow> (if nprbytes > 2 then do {
             b \<leftarrow> char_at s (bufin + 1); c \<leftarrow> char_at s (bufin + 2); Some (p @ [out1 b c]) } else Some p);
     (if nprbytes > 3 then do {
        c \<leftarrow> char_at s (bufin + 2); d \<leftarrow> char_at s (bufin + 3); Some (p @ [out2 c d]) } else Some p) }"

definition Base64decode :: "byte list \<Rightarrow> (byte list \<times> int) option" where
  "Base64decode s = do {
     nprbytes \<leftarrow> code_chars s 0;
     nbytesdecoded \<leftarrow> c_int (int ((nprbytes + 3) div 4 * 3));
     (bufin, n, out) \<leftarrow> decode_loop s 0 nprbytes;
     rest \<leftarrow> decode_rest s bufin n;
     Some (out @ rest @ [0], nbytesdecoded - ((4 - int n) AND 3)) }"

subsection \<open>The reference: RFC 4648\<close>

text \<open>
  The input is read as a sequence of bits, most significant first, cut into groups of six; the
  last group is filled with zero bits and the text with \<open>=\<close> up to a multiple of four characters.
\<close>

definition byte_bits :: "byte \<Rightarrow> bool list" where
  "byte_bits b = map (bit b) [7, 6, 5, 4, 3, 2, 1, 0]"

definition bits_val :: "bool list \<Rightarrow> nat" where
  "bits_val = foldl (\<lambda>n b. 2 * n + of_bool b) 0"

fun groups6 :: "bool list \<Rightarrow> bool list list" where
  "groups6 [] = []"
| "groups6 bs = (let g = take 6 bs in (g @ replicate (6 - length g) False) # groups6 (drop 6 bs))"

definition rfc4648 :: "byte list \<Rightarrow> byte list" where
  "rfc4648 bs =
     (let ds = map (\<lambda>g. basis_64 ! bits_val g) (groups6 (concat (map byte_bits bs)))
      in ds @ replicate ((4 - length ds mod 4) mod 4) EQ)"

subsection \<open>Table and index lemmas\<close>

lemma length_basis_64 [simp]: "length basis_64 = 64"
  by (simp add: basis_64_def)

lemma length_pr2six [simp]: "length pr2six = 256"
  by (simp add: pr2six_def)

lemma six_basis_all: "list_all (\<lambda>n. six (basis_64 ! n) = word_of_nat n) [0..<64]"
  by code_simp

lemma six_basis: "n < 64 \<Longrightarrow> six (basis_64 ! n) = word_of_nat n"
  using six_basis_all by (simp add: list_all_iff)

lemma six_EQ [simp]: "six EQ = 64" and six_NUL [simp]: "six 0 = 64"
  by code_simp+

lemma bits_val_six:
  "bits_val [b5, b4, b3, b2, b1, b0] = unat (horner_sum of_bool 2 [b0, b1, b2, b3, b4, b5] :: u32)"
  by (cases b0; cases b1; cases b2; cases b3; cases b4; cases b5) (simp_all add: bits_val_def)

lemma bits_val_index:
  assumes "take_bit 6 (w :: u32) = w"
  shows "bits_val (map (bit w) [5, 4, 3, 2, 1, 0]) = unat w"
proof -
  have upto: "[0..<6] = [0, 1, 2, 3, 4, 5 :: nat]" by (simp add: upt_rec)
  have "horner_sum of_bool 2 (map (bit w) [0, 1, 2, 3, 4, 5]) = w"
    using assms by (simp only: upto [symmetric] horner_sum_bit_eq_take_bit)
  then show ?thesis by (simp only: list.map bits_val_six)
qed

lemma masks:
  "(0x3F :: u32) = mask 6" "(0x3 :: u32) = mask 2" "(0xF :: u32) = mask 4"
  "(0xF0 :: u32) = push_bit 4 (mask 4)" "(0xC0 :: u32) = push_bit 6 (mask 2)"
  by (simp_all add: mask_eq_exp_minus_1)

lemmas idx_defs = idx0_def idx1_def idx2_def idx3_def promote_def

lemma idx_small:
  "take_bit 6 (idx0 a) = idx0 a" "take_bit 6 (idx1 a b) = idx1 a b"
  "take_bit 6 (idx2 b c) = idx2 b c" "take_bit 6 (idx3 c) = idx3 c"
  by (rule bit_word_eqI, auto simp add: idx_defs masks bit_simps simp del: push_bit_mask_eq)+

lemma index_bound: "take_bit 6 (w :: u32) = w \<Longrightarrow> unat w < 64"
proof -
  assume "take_bit 6 w = w"
  then have "take_bit 6 (unat w) = unat w" by (metis unsigned_take_bit_eq)
  then show ?thesis using take_bit_nat_less_exp [of 6 "unat w"] by simp
qed

lemma idx_bits:
  "map (bit (idx0 a)) [5, 4, 3, 2, 1, 0] = map (bit a) [7, 6, 5, 4, 3, 2]"
  "map (bit (idx1 a b)) [5, 4, 3, 2, 1, 0] = map (bit a) [1, 0] @ map (bit b) [7, 6, 5, 4]"
  "map (bit (idx2 b c)) [5, 4, 3, 2, 1, 0] = map (bit b) [3, 2, 1, 0] @ map (bit c) [7, 6]"
  "map (bit (idx3 c)) [5, 4, 3, 2, 1, 0] = map (bit c) [5, 4, 3, 2, 1, 0]"
  by (auto simp: idx_defs bit_simps)

lemma last_bits:
  "take_bit 6 (idx1_last a) = idx1_last a"
  "take_bit 6 (idx2_last a) = idx2_last a"
  "map (bit (idx1_last a)) [5, 4, 3, 2, 1, 0] = map (bit a) [1, 0] @ [False, False, False, False]"
  "map (bit (idx2_last a)) [5, 4, 3, 2, 1, 0] = map (bit a) [3, 2, 1, 0] @ [False, False]"
  subgoal by (rule bit_word_eqI) (auto simp: idx1_last_def idx2_last_def promote_def masks bit_simps)
  subgoal by (rule bit_word_eqI) (auto simp: idx1_last_def idx2_last_def promote_def masks bit_simps)
  by (auto simp: idx1_last_def idx2_last_def promote_def bit_simps)

lemma basis_val: "take_bit 6 w = w \<Longrightarrow> map (bit w) [5, 4, 3, 2, 1, 0] = g \<Longrightarrow> basis w = basis_64 ! bits_val g"
  using bits_val_index by (auto simp: basis_def)

lemmas basis_vals = basis_val [OF idx_small(1) idx_bits(1)] basis_val [OF idx_small(2) idx_bits(2)]
  basis_val [OF idx_small(3) idx_bits(3)] basis_val [OF idx_small(4) idx_bits(4)]
  basis_val [OF last_bits(1,3)] basis_val [OF last_bits(2,4)]

subsection \<open>The encoder is RFC 4648\<close>

lemma groups6_six [simp]: "groups6 (a # b # c # d # e # f # r) = [a, b, c, d, e, f] # groups6 r"
  by simp

lemma groups6_four [simp]: "groups6 [a, b, c, d] = [[a, b, c, d, False, False]]"
  by (simp add: eval_nat_numeral)

lemma groups6_two [simp]: "groups6 [a, b] = [[a, b, False, False, False, False]]"
  by (simp add: eval_nat_numeral)

declare groups6.simps(2) [simp del]

lemma rfc4648_Nil: "rfc4648 [] = []"
  by (simp add: rfc4648_def)

lemma rfc4648_one:
  "rfc4648 [a] = [basis (idx0 a), basis (idx1_last a), EQ, EQ]"
  unfolding basis_vals by (simp add: rfc4648_def byte_bits_def Let_def numeral_2_eq_2)

lemma rfc4648_two:
  "rfc4648 [a, b] = [basis (idx0 a), basis (idx1 a b), basis (idx2_last b), EQ]"
  unfolding basis_vals by (simp add: rfc4648_def byte_bits_def Let_def numeral_2_eq_2)

lemma rfc4648_three:
  "rfc4648 (a # b # c # r) = [basis (idx0 a), basis (idx1 a b), basis (idx2 b c), basis (idx3 c)] @ rfc4648 r"
  unfolding basis_vals by (simp add: rfc4648_def byte_bits_def Let_def)

lemma char_at_middle [simp]:
  "char_at (pre @ bs) (length pre) = (case bs of [] \<Rightarrow> None | b # _ \<Rightarrow> Some b)"
  "char_at (pre @ bs) (length pre + k) = char_at bs k"
  "char_at (pre @ bs) (Suc (length pre)) = char_at bs 1"
  "char_at (pre @ bs) (Suc (Suc (length pre))) = char_at bs 2"
  by (auto simp: char_at_def nth_append split: list.split)

lemma char_at_Cons [simp]:
  "char_at (b # bs) 0 = Some b" "char_at (b # bs) (Suc k) = char_at bs k"
  "char_at (b # bs) (numeral n) = char_at bs (pred_numeral n)"
  by (simp_all add: char_at_def numeral_eq_Suc)

text \<open>The groups of three that the loop handles, and the characters that it leaves.\<close>

fun enc3 :: "byte list \<Rightarrow> byte list \<times> byte list" where
  "enc3 (a # b # c # r) =
     ([basis (idx0 a), basis (idx1 a b), basis (idx2 b c), basis (idx3 c)] @ fst (enc3 r), snd (enc3 r))"
| "enc3 bs = ([], bs)"

lemma rfc4648_enc3: "rfc4648 bs = fst (enc3 bs) @ rfc4648 (snd (enc3 bs))"
  by (induction bs rule: enc3.induct) (simp_all add: rfc4648_three)

lemma enc3_rest: "length (snd (enc3 bs)) < 3"
  by (induction bs rule: enc3.induct) simp_all

lemma enc3_suffix: "\<exists>xs. bs = xs @ snd (enc3 bs)"
proof (induction bs rule: enc3.induct)
  case (1 a b c r)
  then obtain xs where "r = xs @ snd (enc3 r)" by blast
  then have "a # b # c # r = (a # b # c # xs) @ snd (enc3 (a # b # c # r))" by simp
  then show ?case by blast
qed simp_all

lemma encode_loop_enc3:
  "encode_loop (pre @ bs @ post) (int (length (pre @ bs))) (length pre)
     = Some (length (pre @ bs) - length (snd (enc3 bs)), fst (enc3 bs))"
proof (induction bs arbitrary: pre rule: enc3.induct)
  case (1 a b c r)
  note this [of "pre @ [a, b, c]"]
  then show ?case by (subst encode_loop.simps) (simp add: numeral_3_eq_3)
qed (subst encode_loop.simps, simp)+

lemma Base64encode_all:
  "Base64encode (bs @ post) (int (length bs)) = Some (rfc4648 bs @ [0], int (length (rfc4648 bs)) + 1)"
proof -
  define t where "t = snd (enc3 bs)"
  obtain xs where bs: "bs = xs @ t" using enc3_suffix by (auto simp: t_def)
  then have len: "length bs = length xs + length t" by simp
  have loop: "encode_loop (bs @ post) (int (length bs)) 0 = Some (length xs, fst (enc3 bs))"
    using encode_loop_enc3 [of "[]" bs post] len by (simp add: t_def [symmetric])
  have rfc: "rfc4648 bs = fst (enc3 bs) @ rfc4648 t" unfolding t_def by (rule rfc4648_enc3)
  have mem: "bs @ post = xs @ t @ post" using bs by simp
  have "t = [] \<or> (\<exists>a. t = [a]) \<or> (\<exists>a b. t = [a, b])"
    using enc3_rest [of bs] by (auto simp: t_def [symmetric] length_Suc_conv less_Suc_eq numeral_3_eq_3)
  then show ?thesis
    by (elim disjE exE)
       (simp_all add: Base64encode_def loop rfc, simp_all add: mem len rfc4648_Nil rfc4648_one rfc4648_two)
qed

lemma length_rfc4648: "length (rfc4648 bs) = (length bs + 2) div 3 * 4"
proof (induction bs rule: enc3.induct)
  case (1 a b c r)
  have "(length (a # b # c # r) + 2) div 3 = (length r + 2) div 3 + 1" by simp
  with 1 show ?case by (simp only: rfc4648_three) simp
qed (simp_all add: rfc4648_Nil rfc4648_one rfc4648_two)

subsection \<open>The decoder\<close>

text \<open>What a run of characters of the alphabet decodes to.\<close>

fun dec :: "byte list \<Rightarrow> byte list" where
  "dec (a # b # c # d # r) = [out0 a b, out1 b c, out2 c d] @ dec r"
| "dec [a, b, c] = [out0 a b, out1 b c]"
| "dec [a, b] = [out0 a b]"
| "dec _ = []"

abbreviation code_text :: "byte list \<Rightarrow> bool" where
  "code_text cs \<equiv> list_all (\<lambda>c. six c \<le> 63) cs"

lemma code_chars_run:
  "\<lbrakk>code_text cs; \<not> six c \<le> 63\<rbrakk> \<Longrightarrow> code_chars (pre @ cs @ c # post) (length pre) = Some (length (pre @ cs))"
proof (induction cs arbitrary: pre)
  case Nil
  then show ?case by (subst code_chars.simps) simp
next
  case (Cons x xs)
  from Cons.IH [of "pre @ [x]"] Cons.prems show ?case by (subst code_chars.simps) simp
qed

text \<open>The groups of four that the loop handles, and the last one to four characters.\<close>

fun dec4 :: "byte list \<Rightarrow> byte list \<times> byte list" where
  "dec4 (a # b # c # d # e # r) =
     ([out0 a b, out1 b c, out2 c d] @ fst (dec4 (e # r)), snd (dec4 (e # r)))"
| "dec4 cs = ([], cs)"

lemma dec_dec4: "dec cs = fst (dec4 cs) @ dec (snd (dec4 cs))"
  by (induction cs rule: dec4.induct) simp_all

lemma dec4_rest: "length (snd (dec4 cs)) \<le> 4"
  by (induction cs rule: dec4.induct) simp_all

lemma dec4_counts:
  "length (fst (dec4 cs)) + 3 * ((length (snd (dec4 cs)) + 3) div 4) = (length cs + 3) div 4 * 3"
proof (induction cs rule: dec4.induct)
  case (1 a b c d e r)
  have "(length (a # b # c # d # e # r) + 3) div 4 = (length (e # r) + 3) div 4 + 1" by simp
  with 1 show ?case by simp
qed simp_all

lemma dec4_suffix: "\<exists>xs. cs = xs @ snd (dec4 cs)"
proof (induction cs rule: dec4.induct)
  case (1 a b c d e r)
  then obtain xs where "e # r = xs @ snd (dec4 (e # r))" by blast
  then have "a # b # c # d # e # r = (a # b # c # d # xs) @ snd (dec4 (a # b # c # d # e # r))" by simp
  then show ?case by blast
qed simp_all

lemma decode_loop_dec4:
  "decode_loop (pre @ cs @ post) (length pre) (length cs)
     = Some (length (pre @ cs) - length (snd (dec4 cs)), length (snd (dec4 cs)), fst (dec4 cs))"
proof (induction cs arbitrary: pre rule: dec4.induct)
  case (1 a b c d e r)
  have four: "length pre + 4 = length (pre @ [a, b, c, d])" "length (a # b # c # d # e # r) - 4 = length (e # r)"
    by simp_all
  show ?case
    using 1 [of "pre @ [a, b, c, d]"] by (subst decode_loop.simps) (simp add: four del: length_append)
qed (subst decode_loop.simps, simp)+

lemma upto_four: "length t \<le> 4 \<Longrightarrow> t = [] \<or> (\<exists>a. t = [a]) \<or> (\<exists>a b. t = [a, b]) \<or>
    (\<exists>a b c. t = [a, b, c]) \<or> (\<exists>a b c d. t = [a, b, c, d])"
  by (auto simp: length_Suc_conv le_Suc_eq eval_nat_numeral)

lemma decode_rest_dec:
  "length t \<le> 4 \<Longrightarrow> decode_rest (pre @ t @ post) (length pre) (length t) = Some (dec t)"
  by (drule upto_four) (elim disjE exE; simp add: decode_rest_def)

lemma dec_count:
  "length t \<le> 4 \<Longrightarrow> int (3 * ((length t + 3) div 4)) - ((4 - int (length t)) AND 3) = int (length (dec t))"
  by (drule upto_four) (elim disjE exE; simp)

lemma Base64decode_text:
  assumes cs: "code_text cs" and c: "\<not> six c \<le> 63" and size: "length cs + 3 < 2 ^ 31"
  shows "Base64decode (cs @ c # post) = Some (dec cs @ [0], int (length (dec cs)))"
proof -
  define t where "t = snd (dec4 cs)"
  obtain xs where xs: "cs = xs @ t" using dec4_suffix by (auto simp: t_def)
  have t4: "length t \<le> 4" unfolding t_def by (rule dec4_rest)
  have loop: "decode_loop (cs @ c # post) 0 (length cs) = Some (length xs, length t, fst (dec4 cs))"
    using decode_loop_dec4 [of "[]" cs "c # post"] arg_cong [OF xs, of length] by (simp add: t_def [symmetric])
  have rest: "decode_rest (cs @ c # post) (length xs) (length t) = Some (dec t)"
    using decode_rest_dec [OF t4, of xs] xs by simp
  have dec: "dec cs = fst (dec4 cs) @ dec t" unfolding t_def by (rule dec_dec4)
  have cnt: "int ((length cs + 3) div 4 * 3) - ((4 - int (length t)) AND 3) = int (length (dec cs))"
    using dec4_counts [of cs] dec_count [OF t4] dec by (simp add: t_def [symmetric])
  have "(length cs + 3) div 4 * 3 < 2 ^ 31" using size by simp
  then have int: "c_int (int ((length cs + 3) div 4 * 3)) = Some (int ((length cs + 3) div 4 * 3))"
    unfolding c_int_def by simp
  have "code_chars (cs @ c # post) 0 = Some (length cs)"
    using code_chars_run [OF cs c, of "[]"] by simp
  then show ?thesis by (simp add: Base64decode_def int loop rest cnt dec del: of_nat_mult of_nat_add)
qed

lemma six_basis_index:
  "take_bit 6 w = w \<Longrightarrow> six (basis w) = ucast w"
  "take_bit 6 w = w \<Longrightarrow> six (basis w) \<le> 63"
proof -
  assume w: "take_bit 6 w = w"
  show "six (basis w) = ucast w"
    using six_basis [OF index_bound [OF w]] by (simp add: basis_def)
  then show "six (basis w) \<le> 63"
    using index_bound [OF w] by (simp add: word_le_nat_alt unsigned_ucast_eq take_bit_nat_eq_self)
qed

lemma byte_eqI:
  fixes x y :: byte
  assumes "bit x 0 = bit y 0" "bit x 1 = bit y 1" "bit x 2 = bit y 2" "bit x 3 = bit y 3"
    "bit x 4 = bit y 4" "bit x 5 = bit y 5" "bit x 6 = bit y 6" "bit x 7 = bit y 7"
  shows "x = y"
proof (rule bit_word_eqI)
  fix n
  assume "n < LENGTH(8)"
  then have "n \<in> {0, 1, 2, 3, 4, 5, 6, 7}" by auto
  then show "bit x n = bit y n" using assms by auto
qed

lemma group_inverse:
  "out0 (basis (idx0 a)) (basis (idx1 a b)) = a"
  "out1 (basis (idx1 a b)) (basis (idx2 b c)) = b"
  "out2 (basis (idx2 b c)) (basis (idx3 c)) = c"
  "out0 (basis (idx0 a)) (basis (idx1_last a)) = a"
  "out1 (basis (idx1 a b)) (basis (idx2_last b)) = b"
  unfolding out0_def out1_def out2_def six_basis_index(1) [OF idx_small(1)]
    six_basis_index(1) [OF idx_small(2)] six_basis_index(1) [OF idx_small(3)]
    six_basis_index(1) [OF idx_small(4)] six_basis_index(1) [OF last_bits(1)] six_basis_index(1) [OF last_bits(2)]
  by (rule byte_eqI; auto simp: idx_defs idx1_last_def idx2_last_def bit_simps)+

lemmas code_bounds = six_basis_index(2) [OF idx_small(1)] six_basis_index(2) [OF idx_small(2)]
  six_basis_index(2) [OF idx_small(3)] six_basis_index(2) [OF idx_small(4)]
  six_basis_index(2) [OF last_bits(1)] six_basis_index(2) [OF last_bits(2)]

lemma rfc4648_code_part:
  "\<exists>cs k. rfc4648 bs = cs @ replicate k EQ \<and> code_text cs \<and> dec cs = bs"
proof (induction bs rule: enc3.induct [case_names three none one two])
  case (three a b c r)
  then obtain cs k where "rfc4648 r = cs @ replicate k EQ \<and> code_text cs \<and> dec cs = r" by blast
  then show ?case
    by (intro exI [of _ "basis (idx0 a) # basis (idx1 a b) # basis (idx2 b c) # basis (idx3 c) # cs"] exI [of _ k])
       (simp add: rfc4648_three code_bounds group_inverse)
next
  case none
  then show ?case by (intro exI [of _ "[]"] exI [of _ 0]) (simp add: rfc4648_Nil)
next
  case (one a)
  then show ?case
    by (intro exI [of _ "[basis (idx0 a), basis (idx1_last a)]"] exI [of _ 2])
       (simp add: rfc4648_one code_bounds group_inverse numeral_2_eq_2)
next
  case (two a b)
  then show ?case
    by (intro exI [of _ "[basis (idx0 a), basis (idx1 a b), basis (idx2_last b)]"] exI [of _ 1])
       (simp add: rfc4648_two code_bounds group_inverse)
qed

lemma dec_length: "length (dec cs) \<le> (length cs + 3) div 4 * 3"
proof (induction cs rule: dec.induct)
  case (1 a b c d r)
  have "(length (a # b # c # d # r) + 3) div 4 = (length r + 3) div 4 + 1" by simp
  with 1 show ?case by simp
qed simp_all

lemma Base64encode_len_ok:
  assumes "length bs \<le> 1610612733"
  shows "Base64encode_len (int (length bs)) = Some (int (length (rfc4648 bs)) + 1)"
proof -
  have q: "(int (length bs) + 2) sdiv 3 * 4 = int (length (rfc4648 bs))"
    by (simp add: length_rfc4648 signed_divide_int_def zdiv_int)
  have "(length bs + 2) div 3 \<le> 536870911" using assms by simp
  then have "length (rfc4648 bs) + 1 < 2 ^ 31" by (simp add: length_rfc4648)
  then show ?thesis
  proof -
    have "c_int (int (length bs) + 2) = Some (int (length bs) + 2)"
      using assms by (simp add: c_int_def)
    moreover have "c_int (int (length (rfc4648 bs))) = Some (int (length (rfc4648 bs)))"
      "c_int (int (length (rfc4648 bs)) + 1) = Some (int (length (rfc4648 bs)) + 1)"
      using \<open>length (rfc4648 bs) + 1 < 2 ^ 31\<close> by (simp_all add: c_int_def)
    ultimately show ?thesis by (simp add: Base64encode_len_def q)
  qed
qed

lemma Base64decode_len_ok:
  assumes "code_text cs" "\<not> six c \<le> 63" "length cs + 3 < 2 ^ 31"
  shows "Base64decode_len (cs @ c # post) = Some (int ((length cs + 3) div 4 * 3) + 1)"
proof -
  have "(length cs + 3) div 4 * 3 + 1 < 2 ^ 31" using assms(3) by simp
  then have "c_int (int ((length cs + 3) div 4 * 3) + 1) = Some (int ((length cs + 3) div 4 * 3) + 1)"
    unfolding c_int_def by simp
  then show ?thesis using code_chars_run [OF assms(1,2), of "[]" post] by (simp add: Base64decode_len_def)
qed

text \<open>
  C20.  \<open>Base64encode\<close> computes the base64 encoding of RFC 4648.  For every string of up to
  1610612733 bytes it reads only the string, writes exactly the text that the standard defines by
  groups of six bits and padding, then a NUL, and returns the number of bytes written, which is
  the size that \<open>Base64encode_len\<close> announced.
\<close>

theorem Base64encode_rfc4648:
  assumes "length bs \<le> 1610612733"
  shows "Base64encode (bs @ post) (int (length bs))
           = Some (rfc4648 bs @ [0], int (length (rfc4648 bs)) + 1)
       \<and> Base64encode_len (int (length bs)) = Some (int (length (rfc4648 bs)) + 1)"
  using Base64encode_all Base64encode_len_ok [OF assms] by simp_all

theorem Base64encode_rfc4648_witness:
  "Base64encode [102, 111, 111, 98, 97] 5 = Some ([90, 109, 57, 118, 89, 109, 69, 61, 0], 9)
     \<and> Base64encode_len 5 = Some 9"
proof -
  have "rfc4648 [102, 111, 111, 98, 97] = [90, 109, 57, 118, 89, 109, 69, 61]" by code_simp
  then show ?thesis using Base64encode_rfc4648 [of "[102, 111, 111, 98, 97]" "[]"] by simp
qed

text \<open>
  C33.  \<open>Base64decode\<close> inverts \<open>Base64encode\<close>: on the encoding of a string, whatever follows its
  NUL in memory, it writes the string and a NUL and returns the length of the string; and on every
  text, well formed or not, that ends at a character outside the alphabet, the number it returns
  is the number of bytes written before the NUL, and these fit the size that \<open>Base64decode_len\<close>
  announced.
\<close>

theorem Base64_roundtrip:
  assumes "length bs \<le> 1610612728" "Base64encode (bs @ post) (int (length bs)) = Some (t, n)"
    and "code_text cs" "\<not> six c \<le> 63" "length cs + 3 < 2 ^ 31"
  shows "Base64decode (t @ junk) = Some (bs @ [0], int (length bs))
       \<and> (\<exists>out. Base64decode (cs @ c # rest) = Some (out @ [0], int (length out))
              \<and> (\<exists>size. Base64decode_len (cs @ c # rest) = Some size \<and> int (length (out @ [0])) \<le> size))"
proof
  obtain es k where es: "rfc4648 bs = es @ replicate k EQ" "code_text es" "dec es = bs"
    using rfc4648_code_part by blast
  have "(length bs + 2) div 3 * 4 + 3 < 2 ^ 31" using assms(1) by simp
  then have size: "length es + 3 < 2 ^ 31"
    using es(1) length_rfc4648 [of bs] by (metis add.commute le_add1 le_less_trans length_append nat_add_left_cancel_le)
  have tt: "t = es @ replicate k EQ @ [0]"
    using assms(2) es(1) by (simp add: Base64encode_all)
  show "Base64decode (t @ junk) = Some (bs @ [0], int (length bs))"
    using Base64decode_text [OF es(2) _ size] es(3) tt by (cases k) simp_all
  show "\<exists>out. Base64decode (cs @ c # rest) = Some (out @ [0], int (length out))
              \<and> (\<exists>size. Base64decode_len (cs @ c # rest) = Some size \<and> int (length (out @ [0])) \<le> size)"
    using Base64decode_text [OF assms(3-5)] Base64decode_len_ok [OF assms(3-5)] dec_length [of cs]
    by (intro exI [of _ "dec cs"]) (simp flip: of_nat_mult of_nat_add)
qed

theorem Base64_roundtrip_witness:
  "Base64decode [90, 109, 56, 61, 0] = Some ([102, 111, 0], 2)
     \<and> (\<exists>out. Base64decode [65, 65, 65, 65, 65, 61] = Some (out @ [0], int (length out))
          \<and> (\<exists>size. Base64decode_len [65, 65, 65, 65, 65, 61] = Some size \<and> int (length (out @ [0])) \<le> size))"
proof -
  have enc: "Base64encode ([102, 111] @ []) (int (length [102, 111 :: byte])) = Some ([90, 109, 56, 61, 0], 5)"
    by code_simp
  have six: "code_text [65, 65, 65, 65, 65]" "\<not> six 61 \<le> 63" by code_simp+
  show ?thesis
    using Base64_roundtrip [OF _ enc six(1) six(2), of "[]"] by simp
qed

end
