(* ===== verification/HttpParam.thy ===== *)
theory HttpParam
  imports UrlCoder
begin

text \<open>
  Form parameters and cookies, \<open>src/code/Core/Util/src/util/http/HttpParamCodec.cpp\<close>: the object keeps a map of
  parameters, a map of cookies and the path of the last URL.  Strings are shorter than 2 GiB, so
  that a position fits the \<open>int\<close> in which the code keeps it, and \<open>npos\<close> becomes -1.

  An operation returns its boolean result and the object; \<open>None\<close> is undefined behaviour (an access
  outside a block or through an end iterator).  \<open>fill\<close> is the content of the uninitialised stack
  array of \<open>url_decode_original\<close> and \<open>stUrl\<close> the uninitialised result structure of the URL parser.
\<close>

record param_codec =
  m_map :: string_map
  m_mapCookie :: string_map
  m_urlPath :: string

subsection \<open>Strings\<close>

text \<open>\<open>std::string::find\<close>, for a character and for a string.\<close>

fun find_char :: "char \<Rightarrow> string \<Rightarrow> int" where
  "find_char d [] = -1"
| "find_char d (c # s) = (if c = d then 0 else (let i = find_char d s in if i < 0 then -1 else i + 1))"

fun find_string :: "string \<Rightarrow> string \<Rightarrow> nat option" where
  "find_string old [] = (if old = [] then Some 0 else None)"
| "find_string old (c # s) =
     (if take (length old) (c # s) = old then Some 0 else map_option Suc (find_string old s))"

partial_function (option) ReplaceString :: "string \<Rightarrow> string \<Rightarrow> string \<Rightarrow> string option" where
  "ReplaceString strSrc strOld strNew =
     (case find_string strOld strSrc of
        Some pos \<Rightarrow> ReplaceString (take pos strSrc @ strNew @ drop (pos + length strOld) strSrc) strOld strNew
      | None \<Rightarrow> Some strSrc)"

lemma find_char_bounds: "find_char d s = -1 \<or> 0 \<le> find_char d s \<and> find_char d s < int (length s)"
  by (induction s) (auto simp: Let_def)

function split_at :: "char \<Rightarrow> string \<Rightarrow> string list" where
  "split_at d strSrc =
     (let iIndex = find_char d strSrc in
      if iIndex \<ge> 0 then take (nat iIndex) strSrc # split_at d (drop (nat iIndex + 1) strSrc)
      else if strSrc \<noteq> [] then [strSrc] else [])"
  by pat_completeness auto
termination
proof (relation "measure (\<lambda>(_, s). length s)")
  fix d :: char and s :: string and i
  assume "i = find_char d s" "0 \<le> i"
  then show "((d, drop (nat i + 1) s), d, s) \<in> measure (\<lambda>(_, s). length s)"
    using find_char_bounds [of d s] by auto
qed simp

declare split_at.simps [simp del]

subsection \<open>Decoding\<close>

text \<open>The loop that fills a map: an entry without a name or without a value ends it with \<open>false\<close>.\<close>

fun insert_entries :: "string_map \<Rightarrow> string list \<Rightarrow> bool \<times> string_map" where
  "insert_entries m [] = (True, m)"
| "insert_entries m (str # l) =
     (let iIndex = find_char (CHR ''='') str in
      if iIndex \<le> 0 \<or> iIndex = int (length str) - 1 then (False, m)
      else insert_entries (strmap_insert (take (nat iIndex) str) (drop (nat iIndex + 1) str) m) l)"

definition HttpParamCodec_decode :: "(nat \<Rightarrow> char) \<Rightarrow> param_codec \<Rightarrow> string \<Rightarrow> (bool \<times> param_codec) option" where
  "HttpParamCodec_decode fill P strParam = do {
     strSrc \<leftarrow> url_decode_original fill strParam;
     strSrc \<leftarrow> ReplaceString strSrc '' '' [];
     if strSrc = [] then Some (False, P)
     else let (r, m) = insert_entries [] (split_at (CHR ''&'') strSrc) in Some (r, P\<lparr>m_map := m\<rparr>) }"

definition HttpParamCodec_decodeCookie :: "param_codec \<Rightarrow> string \<Rightarrow> (bool \<times> param_codec) option" where
  "HttpParamCodec_decodeCookie P strCookie = do {
     strSrc \<leftarrow> ReplaceString strCookie '' '' [];
     if strSrc = [] then Some (False, P)
     else let (r, m) = insert_entries [] (split_at (CHR '';'') strSrc) in Some (r, P\<lparr>m_mapCookie := m\<rparr>) }"

text \<open>The fields of the URL are read from the string and its terminator.\<close>

definition assign_part :: "string \<Rightarrow> nat \<Rightarrow> nat \<Rightarrow> string option" where
  "assign_part strUrl off len =
     (if off + len \<le> length strUrl + 1 then Some (take len (drop off (strUrl @ [CHR 0x00]))) else None)"

definition HttpParamCodec_decodeUrl :: "http_parser_url \<Rightarrow> param_codec \<Rightarrow> string \<Rightarrow> (bool \<times> param_codec) option" where
  "HttpParamCodec_decodeUrl stUrl P strUrl = do {
     (r, u) \<leftarrow> http_parser_parse_url strUrl [CHR 0x00] False stUrl;
     if r \<noteq> 0 \<or> UF_QUERY \<notin> field_set u then Some (False, P)
     else do {
       path \<leftarrow> assign_part strUrl (field_off u UF_PATH) (field_len u UF_PATH);
       let P = P\<lparr>m_urlPath := path\<rparr>;
       strSrc \<leftarrow> assign_part strUrl (field_off u UF_QUERY) (field_len u UF_QUERY);
       if strSrc = [] then Some (True, P)
       else let (r, m) = insert_entries [] (split_at (CHR ''&'') strSrc) in Some (r, P\<lparr>m_map := m\<rparr>) } }"

subsection \<open>Encoding\<close>

definition HttpParamCodec_encode :: "param_codec \<Rightarrow> string option" where
  "HttpParamCodec_encode P =
     (if m_map P = [] then None
      else Some (foldl (\<lambda>strDes (k, v). (if strDes \<noteq> [] then strDes @ ''&'' else strDes) @ k @ ''='' @ v) [] (m_map P)))"

definition cookie_text :: "string \<Rightarrow> string \<Rightarrow> string" where
  "cookie_text k v = (if k \<noteq> [] \<and> v \<noteq> [] then k @ ''='' @ v else if k \<noteq> [] then k else v)"

definition HttpParamCodec_encodeCookie :: "param_codec \<Rightarrow> string option" where
  "HttpParamCodec_encodeCookie P =
     (if m_mapCookie P = [] then None
      else Some (foldl (\<lambda>strDes (k, v). (if strDes \<noteq> [] then strDes @ '';'' else strDes) @ cookie_text k v) [] (m_mapCookie P)))"

subsection \<open>Access\<close>

text \<open>Assigning through the iterator of an entry.\<close>

fun strmap_assign :: "string \<Rightarrow> string \<Rightarrow> string_map \<Rightarrow> string_map" where
  "strmap_assign k v [] = []"
| "strmap_assign k v ((k', v') # m) = (if k = k' then (k', v) # m else (k', v') # strmap_assign k v m)"

definition setParam :: "param_codec \<Rightarrow> string \<Rightarrow> string \<Rightarrow> bool \<times> param_codec" where
  "setParam P strKey strValue =
     (if strKey = [] \<or> strValue = [] then (False, P)
      else case map_of (m_map P) strKey of
        None \<Rightarrow> (True, P\<lparr>m_map := strmap_insert strKey strValue (m_map P)\<rparr>)
      | Some _ \<Rightarrow> (True, P\<lparr>m_map := strmap_assign strKey strValue (m_map P)\<rparr>))"

text \<open>
  The iterator comes from \<open>m_map\<close> and is compared with the end of \<open>m_mapCookie\<close>, which no iterator of
  \<open>m_map\<close> equals: the branch that inserts into \<open>m_mapCookie\<close> is never taken, and without an entry the
  assignment goes through the end iterator of \<open>m_map\<close>.
\<close>

definition setCookieParam :: "param_codec \<Rightarrow> string \<Rightarrow> string \<Rightarrow> (bool \<times> param_codec) option" where
  "setCookieParam P strKey strValue =
     (if strKey = [] \<or> strValue = [] then Some (False, P)
      else case map_of (m_map P) strKey of
        None \<Rightarrow> None
      | Some _ \<Rightarrow> Some (True, P\<lparr>m_map := strmap_assign strKey strValue (m_map P)\<rparr>))"

definition getParam :: "param_codec \<Rightarrow> string \<Rightarrow> string option" where
  "getParam P strKey = map_of (m_map P) strKey"

definition getUrlPath :: "param_codec \<Rightarrow> string option" where
  "getUrlPath P = (if m_urlPath P = [] then None else Some (m_urlPath P))"

definition getCookieParam :: "param_codec \<Rightarrow> string \<Rightarrow> string option" where
  "getCookieParam P strKey = map_of (m_mapCookie P) strKey"

definition getCount :: "param_codec \<Rightarrow> nat" where
  "getCount P = length (m_map P)"

subsection \<open>The maps\<close>

definition sorted_map :: "string_map \<Rightarrow> bool" where
  "sorted_map m \<longleftrightarrow> sorted_wrt (<) (map fst m)"

lemma map_of_strmap_insert:
  "sorted_map m \<Longrightarrow> map_of (strmap_insert k v m) x = (if x = k \<and> map_of m k = None then Some v else map_of m x)"
proof (induction m)
  case (Cons e m)
  then show ?case
    by (cases e) (auto simp: sorted_map_def map_of_eq_None_iff dest!: map_of_SomeD, force)
qed (simp add: sorted_map_def)

lemma fst_strmap_insert: "set (map fst (strmap_insert k v m)) = insert k (set (map fst m))"
  by (induction k v m rule: strmap_insert.induct) auto

lemma sorted_strmap_insert: "sorted_map m \<Longrightarrow> sorted_map (strmap_insert k v m)"
proof (induction m)
  case (Cons e m)
  then show ?case
    using fst_strmap_insert [of k v m] by (cases e) (auto simp: sorted_map_def simp del: set_map)
qed (simp add: sorted_map_def)

lemma map_of_strmap_assign: "map_of (strmap_assign k v m) x = (if x = k \<and> map_of m k \<noteq> None then Some v else map_of m x)"
  by (induction k v m rule: strmap_assign.induct) auto

lemma fst_strmap_assign: "map fst (strmap_assign k v m) = map fst m"
  by (induction k v m rule: strmap_assign.induct) auto

lemma setParam_get:
  assumes "sorted_map (m_map P)" "strKey \<noteq> []" "strValue \<noteq> []"
  shows "fst (setParam P strKey strValue)" "sorted_map (m_map (snd (setParam P strKey strValue)))"
    "getParam (snd (setParam P strKey strValue)) k = (if k = strKey then Some strValue else getParam P k)"
  using assms
  by (auto simp: setParam_def getParam_def map_of_strmap_insert map_of_strmap_assign sorted_strmap_insert split: option.split)
     (simp add: sorted_map_def fst_strmap_assign)

subsection \<open>Round trip\<close>

text \<open>A plain text: no character that the decoders treat specially.\<close>

definition plain_text :: "string \<Rightarrow> bool" where
  "plain_text s \<longleftrightarrow> s \<noteq> [] \<and>
     list_all (\<lambda>c. c \<notin> set ''&=%+ '' \<and> c \<noteq> CHR 0x22 \<and> c \<noteq> CHR 0x5C \<and> c \<noteq> CHR 0x00) s"

lemma plain_textD:
  assumes "plain_text s"
  shows "s \<noteq> []" "CHR ''='' \<notin> set s" "CHR ''&'' \<notin> set s"
  using assms by (auto simp: plain_text_def list_all_iff)

lemma url_text_id: "CHR ''%'' \<notin> set s \<Longrightarrow> CHR ''+'' \<notin> set s \<Longrightarrow> url_text s = s"
  by (induction s) (auto simp: url_text_plain)

lemma unescape_quotes_id: "CHR 0x22 \<notin> set s \<Longrightarrow> unescape_quotes s = s"
  by (induction s rule: unescape_quotes.induct) auto

lemma url_decode_original_id:
  assumes "set s \<inter> set ''%+'' = {}" "CHR 0x22 \<notin> set s" "CHR 0x00 \<notin> set s"
  shows "url_decode_original fill s = Some s"
proof -
  have copy: "stack_copy fill s = s @ CHR 0x00 # []"
    using c_str_text [OF assms(3), of "[]"] c_str_cut [of s "[]"] by (simp add: stack_copy_def)
  obtain gap where "url_decode (s @ [CHR 0x00]) (length s) = Some (s @ CHR 0x00 # gap, length s)"
    using url_decode_text [of s "CHR 0x00" "[]"] url_text_id assms(1) by auto

  moreover have "(s @ CHR 0x00 # gap) ! 0 \<noteq> CHR 0x22" using assms(2) by (cases s) auto
  moreover have "s \<noteq> [] \<Longrightarrow> (s @ CHR 0x00 # gap) ! (length s - 1) \<noteq> CHR 0x22"
    using assms(2) by (cases s rule: rev_cases) (auto simp: nth_append)
  ultimately show ?thesis
    using c_str_text [OF assms(3), of gap] unescape_quotes_id [OF assms(2)]
    unfolding url_decode_original_def copy by (auto simp: Let_def)
qed

lemma find_string_char:
  "c \<notin> set x \<Longrightarrow> find_string [c] (x @ c # y) = Some (length x)" "c \<notin> set x \<Longrightarrow> find_string [c] x = None"
  by (induction x) auto

lemma ReplaceString_delete: "ReplaceString s [c] [] = Some (filter (\<lambda>x. x \<noteq> c) s)"
proof (induction s rule: length_induct)
  case (1 s)
  show ?case
  proof (cases "c \<in> set s")
    case True
    then obtain x y where s: "s = x @ c # y" "c \<notin> set x" by (meson split_list_first)
    then have "ReplaceString (x @ y) [c] [] = Some (filter (\<lambda>x. x \<noteq> c) (x @ y))" using 1 by simp
    with s show ?thesis by (subst ReplaceString.simps) (simp add: find_string_char)
  next
    case False
    then have "filter (\<lambda>x. x \<noteq> c) s = s" by (auto simp: filter_id_conv)
    with False show ?thesis by (subst ReplaceString.simps) (simp add: find_string_char)
  qed
qed

lemma find_char_text:
  "d \<notin> set x \<Longrightarrow> find_char d (x @ d # y) = int (length x)" "d \<notin> set x \<Longrightarrow> find_char d x = -1"
  by (induction x) (auto simp: Let_def)

lemma split_at_text:
  "d \<notin> set x \<Longrightarrow> split_at d (x @ d # y) = x # split_at d y"
  "d \<notin> set x \<Longrightarrow> x \<noteq> [] \<Longrightarrow> split_at d x = [x]"
  by (subst split_at.simps, simp add: find_char_text Let_def)+

definition pair_text :: "string \<times> string \<Rightarrow> string" where
  "pair_text kv = fst kv @ ''='' @ snd kv"

lemma split_entries:
  "CHR ''&'' \<notin> set e \<Longrightarrow> e \<noteq> [] \<Longrightarrow> list_all (\<lambda>kv. CHR ''&'' \<notin> set (pair_text kv)) m \<Longrightarrow>
   split_at (CHR ''&'') (e @ concat (map entry_text m)) = e # map pair_text m"
proof (induction m arbitrary: e)
  case (Cons kv m)
  have "entry_text kv = CHR ''&'' # pair_text kv" by (simp add: entry_text_def pair_text_def)
  moreover have "pair_text kv \<noteq> []" by (simp add: pair_text_def)
  ultimately show ?case using Cons by (simp add: split_at_text)
qed (simp add: split_at_text)

lemma insert_entries_text:
  assumes "sorted_map (M @ m)" "list_all (\<lambda>(k, v). plain_text k \<and> plain_text v) m"
  shows "insert_entries M (map pair_text m) = (True, M @ m)"
  using assms
proof (induction m arbitrary: M)
  case (Cons kv m)
  obtain k v where kv: "kv = (k, v)" by force
  have k: "plain_text k" "plain_text v" "list_all (\<lambda>(k', _). k' < k) M"
    using Cons.prems kv by (auto simp: sorted_map_def sorted_wrt_append list_all_iff)
  have "CHR ''='' \<notin> set k" and ne: "k \<noteq> []" "v \<noteq> []" using k(1,2) by (simp_all add: plain_textD)
  then have "find_char (CHR ''='') (pair_text kv) = int (length k)" by (simp add: kv pair_text_def find_char_text)
  then show ?case
    using ne Cons.IH [of "M @ [kv]"] Cons.prems strmap_insert_last [OF k(3), of v]
    by (simp add: kv Let_def) (simp add: pair_text_def)
qed simp

lemma EncodeParameter_chars:
  "set (EncodeParameter m) \<subseteq> set ''&='' \<union> (\<Union>(k, v) \<in> set m. set k \<union> set v)"
proof (cases m)
  case Nil
  then show ?thesis by (simp add: EncodeParameter_text)
next
  case (Cons kv m')
  then show ?thesis by (cases kv) (auto simp: EncodeParameter_text entry_text_def)
qed

lemma EncodeParameter_split:
  assumes "list_all (\<lambda>(k, v). plain_text k \<and> plain_text v) m" "m \<noteq> []"
  shows "split_at (CHR ''&'') (EncodeParameter m) = map pair_text m"
proof -
  obtain k v m' where m: "m = (k, v) # m'" using assms(2) by (cases m) auto
  have "list_all (\<lambda>kv. CHR ''&'' \<notin> set (pair_text kv)) m"
    using assms(1) by (fastforce simp: list_all_iff plain_text_def pair_text_def)
  then show ?thesis
    using split_entries [of "pair_text (k, v)" m'] m by (simp add: EncodeParameter_text pair_text_def)
qed

lemma decode_EncodeParameter:
  assumes "sorted_map m" "list_all (\<lambda>(k, v). plain_text k \<and> plain_text v) m" "m \<noteq> []"
  shows "HttpParamCodec_decode fill Q (EncodeParameter m) = Some (True, Q\<lparr>m_map := m\<rparr>)"
proof -
  let ?t = "EncodeParameter m"
  have chars: "set ?t \<inter> set ''%+ '' = {}" "CHR 0x22 \<notin> set ?t" "CHR 0x00 \<notin> set ?t"
    using EncodeParameter_chars [of m] assms(2) by (fastforce simp: list_all_iff plain_text_def)+
  have "?t \<noteq> []" using assms(3) by (cases m) (auto simp: EncodeParameter_text)
  moreover have "url_decode_original fill ?t = Some ?t"
    using chars by (intro url_decode_original_id) auto
  moreover have "ReplaceString ?t '' '' [] = Some ?t"
    using chars(1) ReplaceString_delete [of ?t "CHR '' ''"] by (auto simp: filter_id_conv)
  ultimately show ?thesis
    using EncodeParameter_split [OF assms(2,3)] insert_entries_text [of "[]" m] assms(1,2)
    by (simp add: HttpParamCodec_decode_def)
qed

definition set_params :: "param_codec \<Rightarrow> (string \<times> string) list \<Rightarrow> param_codec" where
  "set_params P kvs = foldl (\<lambda>P (k, v). snd (setParam P k v)) P kvs"

lemma map_set_all:
  "list_all Q m \<Longrightarrow> Q (k, v) \<Longrightarrow> list_all Q (strmap_insert k v m)"
  "list_all Q m \<Longrightarrow> Q (k, v) \<Longrightarrow> list_all Q (strmap_assign k v m)"
  by (induction m) auto

lemma set_params_map:
  assumes "sorted_map (m_map P)" "list_all (\<lambda>(k, v). plain_text k \<and> plain_text v) (m_map P)"
    and "list_all (\<lambda>(k, v). plain_text k \<and> plain_text v) kvs"
  shows "sorted_map (m_map (set_params P kvs))
       \<and> list_all (\<lambda>(k, v). plain_text k \<and> plain_text v) (m_map (set_params P kvs))
       \<and> map_of (m_map (set_params P kvs)) = map_of (m_map P) ++ map_of (rev kvs)"
  using assms
proof (induction kvs arbitrary: P)
  case (Cons kv kvs)
  obtain k v where kv: "kv = (k, v)" by force
  have ne: "k \<noteq> []" "v \<noteq> []" "plain_text k" "plain_text v" using Cons.prems kv by (auto simp: plain_text_def)
  let ?P = "snd (setParam P k v)"
  have s: "sorted_map (m_map ?P)" "map_of (m_map ?P) = (map_of (m_map P))(k \<mapsto> v)"
    using setParam_get [OF Cons.prems(1) ne(1,2)] by (auto simp: getParam_def)
  moreover have "list_all (\<lambda>(k, v). plain_text k \<and> plain_text v) (m_map ?P)"
    using Cons.prems(2) ne by (auto simp: setParam_def intro!: map_set_all split: option.split)
  moreover have rhs: "map_of (m_map P) ++ map_of (rev (kv # kvs)) = (map_of (m_map P))(k \<mapsto> v) ++ map_of (rev kvs)"
    by (rule ext) (simp add: kv map_add_def split: option.split)
  moreover have "set_params P (kv # kvs) = set_params ?P kvs" by (simp add: set_params_def kv)
  ultimately show ?case using Cons.IH [of ?P] Cons.prems(3) unfolding rhs by (simp add: fun_upd_def)
qed (simp add: set_params_def)

text \<open>
  C34.  Form parameters of plain text survive the way through the codec: after any non-empty sequence of \<open>setParam\<close> calls
  on an object without parameters, whose names and values are not empty and have no ampersand, equals sign, percent sign, plus sign, blank,
  quote, backslash or \<open>NUL\<close>, \<open>getParam\<close> returns the last value set for every name, and another
  codec that decodes the encoded text ends with \<open>true\<close> and with the same parameters, whatever it
  held before.  Other characters are not kept (\<open>http_params_lose_data\<close>).
\<close>

theorem http_params_roundtrip:
  assumes "list_all (\<lambda>(k, v). plain_text k \<and> plain_text v) kvs" "kvs \<noteq> []" "m_map P = []"
  shows "getParam (set_params P kvs) k = map_of (rev kvs) k
       \<and> (\<exists>t. HttpParamCodec_encode (set_params P kvs) = Some t
            \<and> HttpParamCodec_decode fill Q t = Some (True, Q\<lparr>m_map := m_map (set_params P kvs)\<rparr>))"
proof -
  let ?m = "m_map (set_params P kvs)"
  have m: "sorted_map ?m" "list_all (\<lambda>(k, v). plain_text k \<and> plain_text v) ?m" "map_of ?m = map_of (rev kvs)"
    using set_params_map [of P kvs] assms by (simp_all add: sorted_map_def)
  then have "?m \<noteq> []" using assms(2) by (metis map_of_eq_empty_iff rev_is_Nil_conv)
  then show ?thesis
    using decode_EncodeParameter [OF m(1,2)] m(3)
    by (simp add: getParam_def HttpParamCodec_encode_def EncodeParameter_def)
qed

theorem http_params_roundtrip_witness:
  "getParam (set_params \<lparr>m_map = [], m_mapCookie = [], m_urlPath = []\<rparr> [(''b'', ''1''), (''a'', ''2''), (''b'', ''3'')]) ''b'' = Some ''3''
   \<and> (\<exists>t. HttpParamCodec_encode (set_params \<lparr>m_map = [], m_mapCookie = [], m_urlPath = []\<rparr> [(''b'', ''1''), (''a'', ''2''), (''b'', ''3'')]) = Some t
      \<and> HttpParamCodec_decode (\<lambda>_. CHR ''%'') \<lparr>m_map = [(''x'', ''y'')], m_mapCookie = [], m_urlPath = []\<rparr> t
        = Some (True, \<lparr>m_map = [(''a'', ''2''), (''b'', ''3'')], m_mapCookie = [], m_urlPath = []\<rparr>))"
proof -
  let ?kvs = "[(''b'', ''1''), (''a'', ''2''), (''b'', ''3'')]"
  let ?P = "\<lparr>m_map = [], m_mapCookie = [], m_urlPath = []\<rparr>"
  have "list_all (\<lambda>(k, v). plain_text k \<and> plain_text v) ?kvs" by code_simp
  moreover have "m_map (set_params ?P ?kvs) = [(''a'', ''2''), (''b'', ''3'')]" by code_simp
  ultimately show ?thesis
    using http_params_roundtrip [of ?kvs ?P "''b''" "\<lambda>_. CHR ''%''" "\<lparr>m_map = [(''x'', ''y'')], m_mapCookie = [], m_urlPath = []\<rparr>"]
    by simp
qed

subsection \<open>Where the codec goes wrong\<close>

text \<open>
  \<open>setCookieParam\<close> searches the parameters instead of the cookies.  With a name and a value it never
  changes a cookie: it overwrites the parameter of the same name, and without one it writes through
  an end iterator.
\<close>

lemma setCookieParam_no_cookie:
  assumes "strKey \<noteq> []" "strValue \<noteq> []"
  shows "setCookieParam P strKey strValue =
     (if getParam P strKey = None then None
      else Some (True, P\<lparr>m_map := strmap_assign strKey strValue (m_map P)\<rparr>))"
  using assms by (auto simp: setCookieParam_def getParam_def)

text \<open>
  \<open>HttpParamCodec\<close> loses data.  \<open>setCookieParam\<close> on a fresh object is undefined for every name and
  value, and when a parameter of that name exists it overwrites that parameter and stores no cookie.
  \<open>decode\<close> undoes the percent encoding before it splits the text, so that an encoded \<open>&\<close> inside a
  value ends the value and creates another parameter.  A cookie without \<open>=\<close>, which \<open>encodeCookie\<close>
  writes for an empty value, makes \<open>decodeCookie\<close> fail and drop the cookies behind it.
\<close>

theorem http_params_lose_data:
  "setCookieParam \<lparr>m_map = [], m_mapCookie = C, m_urlPath = u\<rparr> (k # ks) (v # vs) = None
   \<and> setCookieParam \<lparr>m_map = [(k # ks, old)], m_mapCookie = C, m_urlPath = u\<rparr> (k # ks) (v # vs)
       = Some (True, \<lparr>m_map = [(k # ks, v # vs)], m_mapCookie = C, m_urlPath = u\<rparr>)
   \<and> HttpParamCodec_decode (\<lambda>_. c) \<lparr>m_map = M, m_mapCookie = C, m_urlPath = u\<rparr> ''a=1%26b=2''
       = Some (True, \<lparr>m_map = [(''a'', ''1''), (''b'', ''2'')], m_mapCookie = C, m_urlPath = u\<rparr>)
   \<and> HttpParamCodec_encodeCookie \<lparr>m_map = M, m_mapCookie = [(''a'', ''''), (''b'', ''2'')], m_urlPath = u\<rparr> = Some ''a;b=2''
   \<and> HttpParamCodec_decodeCookie \<lparr>m_map = M, m_mapCookie = C, m_urlPath = u\<rparr> ''a;b=2''
       = Some (False, \<lparr>m_map = M, m_mapCookie = [], m_urlPath = u\<rparr>)"
proof (intro conjI)
  have dec: "url_decode_original (\<lambda>_. c) ''a=1%26b=2'' = Some ''a=1&b=2''" by code_simp
  have "split_at (CHR ''&'') ''a=1&b=2'' = [''a=1'', ''b=2'']" by code_simp
  moreover have "insert_entries [] [''a=1'', ''b=2''] = (True, [(''a'', ''1''), (''b'', ''2'')])" by code_simp
  ultimately show "HttpParamCodec_decode (\<lambda>_. c) \<lparr>m_map = M, m_mapCookie = C, m_urlPath = u\<rparr> ''a=1%26b=2''
       = Some (True, \<lparr>m_map = [(''a'', ''1''), (''b'', ''2'')], m_mapCookie = C, m_urlPath = u\<rparr>)"
    using ReplaceString_delete [of "''a=1&b=2''" "CHR '' ''"] by (simp add: HttpParamCodec_decode_def dec)
  have "split_at (CHR '';'') ''a;b=2'' = [''a'', ''b=2'']" by code_simp
  moreover have "insert_entries [] [''a'', ''b=2''] = (False, [])" by code_simp
  ultimately show "HttpParamCodec_decodeCookie \<lparr>m_map = M, m_mapCookie = C, m_urlPath = u\<rparr> ''a;b=2''
       = Some (False, \<lparr>m_map = M, m_mapCookie = [], m_urlPath = u\<rparr>)"
    using ReplaceString_delete [of "''a;b=2''" "CHR '' ''"] by (simp add: HttpParamCodec_decodeCookie_def)
qed (simp_all add: setCookieParam_no_cookie getParam_def HttpParamCodec_encodeCookie_def cookie_text_def)

text \<open>
  \<open>decodeUrl\<close> copies the path out of a structure that it does not initialise, also for a URL that has
  a query but no path: the stale entry decides between a wrong path and a read outside the URL.
\<close>

lemma no_path_url:
  "\<exists>u. http_parser_parse_url ''http://h?a=1'' [CHR 0x00] False (url_start off len) = Some (0, u)
     \<and> UF_QUERY \<in> field_set u \<and> UF_PATH \<notin> field_set u \<and> field_off u UF_PATH = off \<and> field_len u UF_PATH = len
     \<and> field_off u UF_QUERY = 9 \<and> field_len u UF_QUERY = 3"
proof -
  have cls: "IS_ALPHA (CHR ''h'')" "IS_ALPHA (CHR ''t'')" "IS_ALPHA (CHR ''p'')" "\<not> IS_ALPHA (CHR '':'')"
    "\<not> IS_ALPHA (CHR ''?'')" "\<not> IS_USERINFO_CHAR (CHR ''?'')" "IS_USERINFO_CHAR (CHR ''h'')"
    "IS_URL_CHAR (CHR ''a'')" "IS_URL_CHAR (CHR ''='')" "IS_URL_CHAR (CHR ''1'')"
    by (simp_all add: IS_ALPHA_def LOWER_def code_def IS_URL_CHAR_def BIT_AT_def normal_url_char_def
        IS_USERINFO_CHAR_def IS_ALPHANUM_def IS_NUM_def IS_MARK_def)
  show ?thesis
    by (simp add: http_parser_parse_url_def Let_def url_start_def parse_url_char_def url_state_field_def CR_def LF_def cls
        http_parse_host_def host_loop_step host_loop.simps(2) [of _ _ 0, folded One_nat_def] http_parse_host_char_def
        IS_HOST_CHAR_def IS_ALPHANUM_def add_field_def set_len_def set_off_def inc_len_def host_mark_def)
qed

lemma decodeUrl_stale_path:
  "HttpParamCodec_decodeUrl (url_start 100 1) P ''http://h?a=1'' = None"
  "HttpParamCodec_decodeUrl (url_start 0 4) P ''http://h?a=1''
     = Some (True, P\<lparr>m_urlPath := ''http'', m_map := [(''a'', ''1'')]\<rparr>)"
proof -
  show "HttpParamCodec_decodeUrl (url_start 100 1) P ''http://h?a=1'' = None"
    using no_path_url [of 100 1] by (auto simp: HttpParamCodec_decodeUrl_def assign_part_def)
  have "insert_entries [] (split_at (CHR ''&'') ''a=1'') = (True, [(''a'', ''1'')])" by code_simp
  then show "HttpParamCodec_decodeUrl (url_start 0 4) P ''http://h?a=1''
     = Some (True, P\<lparr>m_urlPath := ''http'', m_map := [(''a'', ''1'')]\<rparr>)"
    using no_path_url [of 0 4] by (auto simp: HttpParamCodec_decodeUrl_def assign_part_def)
qed

end
