(* ===== verification/HttpPhase.thy ===== *)
theory HttpPhase
  imports HttpSafety
begin

text \<open>
  The order in which \<open>http_parser_execute\<close> calls the callbacks, as a contract: the locale \<open>message_callbacks\<close>.  A callback
  object that satisfies \<open>J Idle\<close> between messages, \<open>J Head\<close> inside one, and \<open>J Value\<close> while a header
  value is read, satisfies them whatever the input is: no header value is reported before its name, and every
  error except those that can meet the first byte of a message finds the object inside a message.
\<close>

subsection \<open>Phases\<close>

datatype phase = Idle | Head | Value

definition phase_of :: "state \<Rightarrow> phase" where
  "phase_of s = (case s of
     s_dead \<Rightarrow> Idle | s_start_req_or_res \<Rightarrow> Idle | s_start_res \<Rightarrow> Idle | s_start_req \<Rightarrow> Idle
   | s_header_value_discard_ws \<Rightarrow> Value | s_header_value_discard_ws_almost_done \<Rightarrow> Value
   | s_header_value_discard_lws \<Rightarrow> Value | s_header_value_start \<Rightarrow> Value | s_header_value \<Rightarrow> Value
   | s_header_value_lws \<Rightarrow> Value | s_header_almost_done \<Rightarrow> Value
   | _ \<Rightarrow> Head)"

text \<open>The results of the parser with which a message may not have begun.\<close>

definition first_errors :: "http_errno set" where
  "first_errors = {HPE_OK, HPE_CLOSED_CONNECTION, HPE_INVALID_METHOD, HPE_INVALID_CONSTANT, HPE_HEADER_OVERFLOW}"

text \<open>A callback that only uses the object behind \<open>data\<close>, reports success, and leads from \<open>A\<close> to \<open>B\<close>.\<close>

definition quiet :: "'u http_cb \<Rightarrow> ('u \<Rightarrow> bool) \<Rightarrow> ('u \<Rightarrow> bool) \<Rightarrow> bool" where
  "quiet f A B \<longleftrightarrow> (\<forall>q. \<exists>u. f q = (0, q\<lparr>parser_data := u\<rparr>) \<and> (A (parser_data q) \<longrightarrow> B u))"

definition cb_keeps :: "'u http_cb option \<Rightarrow> ('u \<Rightarrow> bool) \<Rightarrow> ('u \<Rightarrow> bool) \<Rightarrow> bool" where
  "cb_keeps cb A B \<longleftrightarrow> (\<exists>f. cb = Some f \<and> quiet f A B)"

definition data_keeps :: "string \<Rightarrow> 'u http_data_cb option \<Rightarrow> ('u \<Rightarrow> bool) \<Rightarrow> ('u \<Rightarrow> bool) \<Rightarrow> bool" where
  "data_keeps d cb A B \<longleftrightarrow> (\<exists>f. cb = Some f \<and> (\<forall>i j. quiet (\<lambda>q. f q (segment i j d)) A B))"

abbreviation obj :: "'u exec \<Rightarrow> 'u" where "obj st \<equiv> parser_data (parser st)"

definition field_marked :: "'u exec \<Rightarrow> bool" where
  "field_marked st \<longleftrightarrow> (p_state st = s_header_field \<longrightarrow> marks st header_field_mark \<noteq> None)"

locale message_callbacks =
  fixes S :: "'u http_parser_settings" and d :: string and J :: "phase \<Rightarrow> 'u \<Rightarrow> bool"
  assumes settings: "settings_ok S"
    and weaken: "J Value u \<Longrightarrow> J Head u" "J Head u \<Longrightarrow> J Idle u"
    and begins: "cb_keeps (on_message_begin S) (J Idle) (J Head)"
    and url: "data_keeps d (on_url S) (J Head) (J Head)"
    and status: "data_keeps d (on_status S) (J Head) (J Head)"
    and field: "data_keeps d (on_header_field S) (J Head) (J Value)"
    and val: "data_keeps d (on_header_value S) (J Value) (J Value)"
    and complete_headers: "cb_keeps (on_headers_complete S) (J Head) (J Head)"
    and body: "data_keeps d (on_body S) (J Head) (J Head)"
    and chunks: "cb_keeps (on_chunk_header S) (J Head) (J Head)" "cb_keeps (on_chunk_complete S) (J Head) (J Head)"
    and completes: "cb_keeps (on_message_complete S) (J Head) (J Idle)"
begin

text \<open>What holds while the loop runs, of an outcome of the switch, and of the parser that is left.\<close>

definition running :: "'u exec \<Rightarrow> bool" where
  "running st \<longleftrightarrow> J (phase_of (p_state st)) (obj st) \<and> field_marked st"

definition left :: "'u http_parser \<Rightarrow> bool" where
  "left q \<longleftrightarrow> J Idle (parser_data q) \<and> (http_errno q \<notin> first_errors \<longrightarrow> J Head (parser_data q))"

fun keeps :: "'u outcome \<Rightarrow> bool" where
  "keeps (Break st) \<longleftrightarrow> running st"
| "keeps (Reexec st) \<longleftrightarrow> running st"
| "keeps (Return n q) \<longleftrightarrow> left q"
| "keeps Abort \<longleftrightarrow> True"

lemma keeps_fail: "J Head (obj st) \<or> J Idle (obj st) \<and> e \<in> first_errors \<Longrightarrow> e \<noteq> HPE_OK \<Longrightarrow> keeps (fail e st)"
  using weaken by (auto simp: fail_def goto_error_def RETURN_def SET_ERRNO_def left_def Let_def)

lemma keeps_COUNT:
  assumes "J Idle (obj st)" "\<And>n. keeps (k (st\<lparr>parser := (parser st)\<lparr>nread := n\<rparr>\<rparr>))"
  shows "keeps (COUNT_HEADER_SIZE v st k)"
  using assms by (auto simp: COUNT_HEADER_SIZE_def Let_def first_errors_def intro!: keeps_fail)

lemma keeps_NOTIFY:
  assumes "cb_keeps cb A B" "A (obj st)" "\<And>u. B u \<Longrightarrow> http_errno (parser st) = HPE_OK \<Longrightarrow> keeps (k (touch st (p_state st) u))"
  shows "keeps (CALLBACK_NOTIFY_er cb e er st k)"
proof (cases "http_errno (parser st) = HPE_OK")
  case True
  obtain f where f: "cb = Some f" "quiet f A B" using assms(1) by (auto simp: cb_keeps_def)
  let ?q = "(parser st)\<lparr>state := p_state st\<rparr>"
  obtain u where u: "f ?q = (0, ?q\<lparr>parser_data := u\<rparr>)" "A (parser_data ?q) \<longrightarrow> B u" using f(2) unfolding quiet_def by blast
  have "CALLBACK_NOTIFY_er cb e er st k = k (touch st (p_state st) u)"
    using True f(1) u(1) by (simp add: CALLBACK_NOTIFY_er_def ASSERT_def after_callback_def touch_def)
  then show ?thesis using assms(2,3) u(2) True by simp
next
  case False
  then show ?thesis by (simp add: CALLBACK_NOTIFY_er_def ASSERT_def)
qed

lemma keeps_DATA:
  assumes "data_keeps d (data_cb S m) A B" "A (obj st)"
    and "\<And>s u. B u \<Longrightarrow> keeps (k (touch (st\<lparr>marks := (marks st)(m := None)\<rparr>) s u))"
    and "marks st m = None \<Longrightarrow> B (obj st)"
  shows "keeps (CALLBACK_DATA_er S d m till er st k)"
proof (cases "http_errno (parser st) = HPE_OK")
  case True
  show ?thesis
  proof (cases "marks st m")
    case None
    then have "st\<lparr>marks := (marks st)(m := None)\<rparr> = st" by (simp add: fun_upd_idem)
    then have "keeps (k st)" using assms(3) [of "obj st" "state (parser st)"] assms(4) None by (simp add: touch_self)
    with None True show ?thesis by (simp add: CALLBACK_DATA_er_def ASSERT_def)
  next
    case (Some i)
    obtain f where f: "data_cb S m = Some f" "\<And>i j. quiet (\<lambda>q. f q (segment i j d)) A B" using assms(1) by (auto simp: data_keeps_def)
    let ?q = "(parser st)\<lparr>state := p_state st\<rparr>"
    obtain u where u: "f ?q (segment i till d) = (0, ?q\<lparr>parser_data := u\<rparr>)" "A (parser_data ?q) \<longrightarrow> B u"
      using f(2) [of i till] unfolding quiet_def by blast
    have "CALLBACK_DATA_er S d m till er st k = k (touch (st\<lparr>marks := (marks st)(m := None)\<rparr>) (p_state st) u)"
      using True Some f(1) u(1) by (cases st) (simp add: CALLBACK_DATA_er_def ASSERT_def after_callback_def touch_def Let_def)
    then show ?thesis using assms(2,3) u(2) by simp
  qed
next
  case False
  then show ?thesis by (simp add: CALLBACK_DATA_er_def ASSERT_def)
qed

lemma running_phase:
  "running st \<Longrightarrow> phase_of (p_state st) = Head \<Longrightarrow> J Head (obj st)"
  "running st \<Longrightarrow> phase_of (p_state st) = Value \<Longrightarrow> J Value (obj st) \<and> J Head (obj st)"
  "running st \<Longrightarrow> J Idle (obj st)"
  using weaken by (cases "phase_of (p_state st)"; auto simp: running_def)+

lemmas keeps_simps = hp_defs running_def field_marked_def first_errors_def

subsection \<open>Start lines\<close>

lemma keeps_starts:
  assumes "running st"
  shows "keeps (x_dead st)"
    "p_state st = s_start_req_or_res \<Longrightarrow> keeps (x_start_req_or_res S st)"
    "p_state st = s_start_res \<Longrightarrow> keeps (x_start_res S st)"
    "p_state st = s_start_req \<Longrightarrow> keeps (x_start_req S st)"
  using assms running_phase(3) [OF assms]
  by (auto simp: x_dead_def x_start_req_or_res_def x_start_res_def x_start_req_def keeps_simps phase_of_def
      intro!: keeps_fail keeps_NOTIFY [OF begins] dest: weaken split: option.split)

lemma keeps_lines:
  assumes "running st" "phase_of (p_state st) = Head" "phase_of s = Head" "s \<noteq> s_header_field"
  shows "keeps (x_expect c s st)" "keeps (x_first_major c s st)" "keeps (x_http_major s st)" "keeps (x_first_minor s st)"
  using assms(3,4) assms running_phase(1) [OF assms(1,2)]
  by (auto simp: x_expect_def x_first_major_def x_http_major_def x_first_minor_def keeps_simps intro!: keeps_fail)

lemma keeps_head:
  assumes "running st" "phase_of (p_state st) = Head"
  shows "keeps (x_res_or_resp_H st)" "keeps (x_res_http_minor st)" "keeps (x_res_first_status_code st)" "keeps (x_res_status_code st)"
    "keeps (x_res_status_start st)" "keeps (x_req_method st)" "keeps (x_req_http_start st)" "keeps (x_req_http_minor st)"
    "keeps (x_req_line_almost_done st)" "keeps (x_header_field_start st)" "keeps (x_chunk_size_start st)" "keeps (x_chunk_size st)"
    "keeps (x_chunk_parameters st)"
  using assms running_phase(1) [OF assms(1,2)]
  by (auto simp: x_res_or_resp_H_def x_res_http_minor_def x_res_first_status_code_def x_res_status_code_def x_res_status_start_def
      x_req_method_def x_req_http_start_def x_req_http_minor_def x_req_line_almost_done_def x_header_field_start_def
      x_chunk_size_start_def x_chunk_size_def x_chunk_parameters_def more_minor_def MARK_def keeps_simps phase_of_def
      intro!: keeps_fail split: option.split)

lemma url_phase: "mark_of s = Some url_mark \<Longrightarrow> phase_of s = Head \<and> s \<noteq> s_header_field"
  by (cases s) (simp_all add: mark_of_def phase_of_def)

lemma keeps_to_url: "J Head (obj st) \<Longrightarrow> keeps (to_url_state st)"
  using parse_url_char_range [of "p_state st" "ch st"] url_phase [of "parse_url_char (p_state st) (ch st)"]
  by (auto simp: to_url_state_def keeps_simps intro!: keeps_fail)

lemma keeps_urls:
  assumes "running st" "phase_of (p_state st) = Head"
  shows "keeps (x_req_spaces_before_url st)" "keeps (x_req_schema st)" "keeps (x_req_url S d st)" "keeps (x_res_status S d st)"
  using assms running_phase(1) [OF assms] url status
  by (auto simp: x_req_spaces_before_url_def x_req_schema_def x_req_url_def x_res_status_def MARK_def keeps_simps phase_of_def
      intro!: keeps_fail keeps_to_url keeps_DATA)

subsection \<open>Headers\<close>

lemma field_loop_obj:
  assumes "field_loop n d st = Some st'"
  shows "obj st' = obj st \<and> p_state st' = p_state st \<and> marks st' = marks st"
  using assms
proof (induction n arbitrary: st)
  case (Suc n)
  then show ?case by (auto simp: hp_defs split: if_splits option.splits prod.splits)
qed simp

lemma keeps_field:
  assumes "running st" "p_state st = s_header_field"
  shows "keeps (x_header_field S d st)"
proof (cases "field_loop (length d - pp st) d st")
  case None
  then show ?thesis by (simp add: x_header_field_def)
next
  case (Some st')
  have o: "obj st' = obj st" "p_state st' = s_header_field" "marks st' = marks st" using field_loop_obj [OF Some] assms(2) by simp_all
  have J: "J Head (obj st')" "J Idle (obj st')" "marks st' header_field_mark \<noteq> None"
    using running_phase(1,3) [OF assms(1)] assms o by (auto simp: phase_of_def running_def field_marked_def)
  show ?thesis using Some J o field
    by (auto simp: x_header_field_def CALLBACK_DATA_def UPDATE_STATE_def Let_def running_def field_marked_def phase_of_def
        intro!: keeps_COUNT keeps_fail keeps_DATA)
qed

lemma finish_header_obj [simp]: "obj (finish_header st) = obj st" "p_state (finish_header st) = p_state st" "marks (finish_header st) = marks st"
  by (auto simp: finish_header_def hp_defs split: header_states.split)

lemma keeps_value_starts:
  assumes "running st" "phase_of (p_state st) = Value"
  shows "keeps (x_header_value_start st)" "keeps (x_header_value_discard_ws st)" "keeps (x_header_value_lws st)"
    "keeps (x_header_value_discard_lws S d st)" "phase_of s = Value \<Longrightarrow> keeps (x_expect c s st)"
proof -
  note v = running_phase(2) [OF assms]
  have start: "keeps (x_header_value_start st)"
    using v by (auto simp: x_header_value_start_def MARK_def keeps_simps phase_of_def intro!: keeps_fail split: header_states.split)
  then show "keeps (x_header_value_start st)" "keeps (x_header_value_discard_ws st)"
    using v assms by (auto simp: x_header_value_discard_ws_def UPDATE_STATE_def running_def field_marked_def phase_of_def)
  show "keeps (x_header_value_lws st)"
    using v by (auto simp: x_header_value_lws_def UPDATE_STATE_def running_def field_marked_def phase_of_def)
  show "keeps (x_header_value_discard_lws S d st)"
    using v val weaken(1)
    by (auto simp: x_header_value_discard_lws_def UPDATE_STATE_def CALLBACK_DATA_NOADVANCE_def MARK_def running_def field_marked_def phase_of_def
        intro!: keeps_DATA)
  show "phase_of s = Value \<Longrightarrow> keeps (x_expect c s st)"
    using v by (auto simp: x_expect_def keeps_simps phase_of_def intro!: keeps_fail)
qed

lemma value_step_obj:
  assumes "value_step d h st = V_next h' st'" "p_state st = s_header_value"
  shows "obj st' = obj st \<and> p_state st' = s_header_value"
  using assms
  by (auto simp: value_step_def content_length_step_def value_match_def connection_done_def hp_defs
      split: header_states.splits if_splits prod.splits)

lemma keeps_value_end:
  assumes "J Value (obj st)" "phase_of (p_state st) = Value"
  shows "keeps (value_end d start h st)"
proof -
  have n: "p_state st \<noteq> s_header_field" using assms(2) by (auto simp: phase_of_def)
  show ?thesis using assms weaken n
    by (auto simp: value_end_def set_header_state_def on_parser_def running_def field_marked_def intro!: keeps_COUNT)
qed

lemma keeps_value_loop:
  assumes "J Value (obj st)" "p_state st = s_header_value"
  shows "keeps (value_loop n S d start h st)"
  using assms
proof (induction n arbitrary: h st)
  case 0
  then show ?case by (simp add: keeps_value_end phase_of_def)
next
  case (Suc n)
  let ?st = "st\<lparr>ch := d ! pp st\<rparr>"
  have J: "J Value (obj ?st)" "J Idle (obj ?st)" "J Head (obj ?st)" using Suc.prems weaken by auto
  consider "pp st = length d" | "pp st \<noteq> length d" "ch ?st = CR" | "pp st \<noteq> length d" "ch ?st \<noteq> CR" "ch ?st = LF"
    | "pp st \<noteq> length d" "ch ?st \<noteq> CR" "ch ?st \<noteq> LF" by blast
  then show ?case
  proof cases
    case 1
    then show ?thesis using Suc.prems by (simp add: keeps_value_end phase_of_def)
  next
    case 2
    then show ?thesis using J val
      by (auto simp: Let_def CALLBACK_DATA_def set_header_state_def on_parser_def UPDATE_STATE_def phase_of_def intro!: keeps_DATA keeps_value_end)
  next
    case 3
    then show ?thesis using J val
      by (auto simp: Let_def CALLBACK_DATA_NOADVANCE_def set_header_state_def on_parser_def UPDATE_STATE_def phase_of_def running_def field_marked_def
          intro!: keeps_COUNT keeps_DATA)
  next
    case 4
    show ?thesis
    proof (cases "value_step d h ?st")
      case (V_next h' st')
      then have "obj st' = obj st \<and> p_state st' = s_header_value" using value_step_obj [of h ?st h' st'] Suc.prems(2) by simp
      then show ?thesis using 4 V_next Suc.IH [of "st'\<lparr>pp := pp st' + 1\<rparr>" h'] Suc.prems(1) by (simp add: Let_def)
    next
      case (V_fail e)
      moreover have "e \<noteq> HPE_OK" using V_fail
        by (auto simp: value_step_def content_length_step_def value_match_def connection_done_def Let_def split: header_states.splits if_splits prod.splits)
      ultimately show ?thesis using 4 J by (auto simp: Let_def set_header_state_def on_parser_def intro!: keeps_fail)
    next
      case V_abort
      then show ?thesis using 4 by (simp add: Let_def)
    qed
  qed
qed

subsection \<open>End of the headers, body and chunks\<close>

lemma keeps_headers_almost_done:
  assumes "running st" "phase_of (p_state st) = Head"
  shows "keeps (x_headers_almost_done S st)"
proof -
  note J = running_phase(1) [OF assms]
  obtain f where f: "on_headers_complete S = Some f" "quiet f (J Head) (J Head)" using complete_headers by (auto simp: cb_keeps_def)
  let ?st = "on_parser (\<lambda>q. q\<lparr>upgrade := {F_UPGRADE, F_CONNECTION_UPGRADE} \<subseteq> flags q \<or> parser_method q = HTTP_CONNECT\<rparr>) (UPDATE_STATE s_headers_done st)"
  obtain u where u: "f (parser ?st) = (0, (parser ?st)\<lparr>parser_data := u\<rparr>)" "J Head u"
    using spec [OF f(2) [unfolded quiet_def], of "parser ?st"] J by (auto simp: on_parser_def UPDATE_STATE_def)
  have "keeps (let st = ?st in case on_headers_complete S of
               None \<Rightarrow> if http_errno (parser st) \<noteq> HPE_OK then RETURN (pp st) st else Reexec st
             | Some f \<Rightarrow>
                 (case f (parser st) of (r, q) \<Rightarrow>
                    let st = st\<lparr>parser := q\<rparr>;
                        st = (if r = 1 then add_flag F_SKIPBODY st else st)
                    in if r \<noteq> 0 \<and> r \<noteq> 1 then RETURN (pp st) (SET_ERRNO HPE_CB_headers_complete st)
                       else if http_errno (parser st) \<noteq> HPE_OK then RETURN (pp st) st else Reexec st))"
    using f(1) u weaken by (simp add: Let_def RETURN_def left_def running_def field_marked_def)
      (simp add: on_parser_def UPDATE_STATE_def phase_of_def)
  then show ?thesis using J chunks(2)
    by (auto simp: x_headers_almost_done_def STRICT_CHECK_def CALLBACK_NOTIFY_NOADVANCE_def Let_def
        intro!: keeps_fail keeps_NOTIFY) (auto simp: UPDATE_STATE_def running_def field_marked_def phase_of_def)
qed

lemma NEW_MESSAGE_phase: "phase_of (NEW_MESSAGE q) = Idle \<and> NEW_MESSAGE q \<noteq> s_header_field"
  by (simp add: NEW_MESSAGE_def start_state_def phase_of_def)

lemma keeps_complete:
  assumes "J Head (obj st)"
    and "\<And>st'. J Idle (obj st') \<Longrightarrow> phase_of (p_state st') = Idle \<Longrightarrow> p_state st' \<noteq> s_header_field \<Longrightarrow> http_errno (parser st') = HPE_OK \<Longrightarrow> keeps (k st')"
  shows "keeps (complete_message S st k)"
  unfolding complete_message_def CALLBACK_NOTIFY_def
proof (rule keeps_NOTIFY [OF completes])
  show "J Head (obj (UPDATE_STATE (NEW_MESSAGE (parser st)) st))" using assms(1) by (simp add: UPDATE_STATE_def)
  fix u assume "J Idle u" "http_errno (parser (UPDATE_STATE (NEW_MESSAGE (parser st)) st)) = HPE_OK"
  then show "keeps (k (touch (UPDATE_STATE (NEW_MESSAGE (parser st)) st) (p_state (UPDATE_STATE (NEW_MESSAGE (parser st)) st)) u))"
    using NEW_MESSAGE_phase by (intro assms(2)) (auto simp: UPDATE_STATE_def)
qed

lemma keeps_after:
  assumes "J Idle (obj st)" "phase_of (p_state st) = Idle" "p_state st \<noteq> s_header_field" "http_errno (parser st) = HPE_OK"
  shows "keeps (Break st)" "keeps (RETURN n st)"
  using assms by (auto simp: running_def field_marked_def RETURN_def left_def first_errors_def)

lemma keeps_headers_done:
  assumes "running st" "phase_of (p_state st) = Head"
  shows "keeps (x_headers_done S st)"
proof -
  note J = running_phase(1) [OF assms]
  let ?st = "on_parser (\<lambda>q. q\<lparr>nread := 0\<rparr>) st"
  have o: "J Head (obj ?st)" using J by (simp add: on_parser_def)
  have fin: "keeps (complete_message S ?st Break)" "keeps (complete_message S ?st (\<lambda>st. RETURN (pp st + 1) st))"
    by (rule keeps_complete [OF o], rule keeps_after; assumption)+
  have go: "phase_of s = Head \<Longrightarrow> s \<noteq> s_header_field \<Longrightarrow> keeps (Break (UPDATE_STATE s ?st))" for s
    using o by (simp add: running_def field_marked_def UPDATE_STATE_def)
  show ?thesis using fin go J
    by (auto simp: x_headers_done_def STRICT_CHECK_def Let_def phase_of_def intro!: keeps_fail)
qed

lemma keeps_message_done:
  assumes "running st" "phase_of (p_state st) = Head"
  shows "keeps (x_message_done S st)"
  unfolding x_message_done_def using running_phase(1) [OF assms] keeps_after by (intro keeps_complete) auto

lemma take_body_obj: "obj (take_body d st) = obj st \<and> p_state (take_body d st) = p_state st"
  by (simp add: take_body_def Let_def on_parser_def MARK_def)

lemma keeps_bodies:
  assumes "running st" "phase_of (p_state st) = Head" "p_state st \<noteq> s_header_field"
  shows "keeps (x_body_identity S d st)" "keeps (x_body_identity_eof d st)" "keeps (x_chunk_data d st)"
    "keeps (x_chunk_data_almost_done S d st)" "keeps (x_chunk_data_done S st)" "keeps (x_chunk_size_almost_done S st)"
proof -
  note J = running_phase(1) [OF assms(1,2)] and b = take_body_obj [of st]
  show "keeps (x_body_identity S d st)" using J assms b body
    by (auto simp: x_body_identity_def ASSERT_def Let_def UPDATE_STATE_def running_def field_marked_def phase_of_def intro!: keeps_DATA)
  show "keeps (x_body_identity_eof d st)" using J assms by (auto simp: x_body_identity_eof_def running_def field_marked_def MARK_def)
  show "keeps (x_chunk_data d st)" using J assms b
    by (auto simp: x_chunk_data_def ASSERT_def Let_def UPDATE_STATE_def running_def field_marked_def) (simp add: phase_of_def)
  show "keeps (x_chunk_data_almost_done S d st)" using J body
    by (auto simp: x_chunk_data_almost_done_def ASSERT_def STRICT_CHECK_def CALLBACK_DATA_def UPDATE_STATE_def running_def field_marked_def phase_of_def
        intro!: keeps_fail keeps_DATA)
  show "keeps (x_chunk_data_done S st)" using J chunks(2)
    by (auto simp: x_chunk_data_done_def ASSERT_def STRICT_CHECK_def CALLBACK_NOTIFY_def UPDATE_STATE_def on_parser_def running_def field_marked_def phase_of_def
        intro!: keeps_fail keeps_NOTIFY)
  show "keeps (x_chunk_size_almost_done S st)" using J chunks(1)
    by (auto simp: x_chunk_size_almost_done_def ASSERT_def STRICT_CHECK_def CALLBACK_NOTIFY_def add_flag_def UPDATE_STATE_def on_parser_def Let_def
        running_def field_marked_def phase_of_def intro!: keeps_fail keeps_NOTIFY)
qed

subsection \<open>The loop\<close>

lemma keeps_switch:
  assumes "running st"
  shows "keeps (exec_switch S d st)"
proof -
  note r = assms
  note idle = keeps_starts [OF r]
  note head = keeps_head [OF r] keeps_lines [OF r] keeps_urls [OF r] keeps_field [OF r] keeps_headers_almost_done [OF r]
    keeps_headers_done [OF r] keeps_message_done [OF r] keeps_bodies [OF r]
  note value_states = keeps_value_starts [OF r]
  have loop: "p_state st = s_header_value \<Longrightarrow> keeps (x_header_value S d st)"
    unfolding x_header_value_def by (rule keeps_value_loop) (use running_phase(2) [OF r] in \<open>simp_all add: phase_of_def\<close>)
  show ?thesis
    by (cases "p_state st") (simp_all add: exec_switch_def idle head value_states loop phase_of_def)
qed

lemma keeps_step:
  assumes "running st"
  shows "keeps (exec_step S d re st)"
proof -
  have r: "running (st\<lparr>ch := c\<rparr>)" "running (st\<lparr>ch := c, parser := (parser st)\<lparr>nread := n\<rparr>\<rparr>)" for c n
    using assms by (simp_all add: running_def field_marked_def)
  show ?thesis using keeps_switch [OF assms] keeps_switch [OF r(1)] keeps_switch [OF r(2)] running_phase(3) [OF assms]
    by (auto simp: exec_step_def Let_def intro!: keeps_COUNT)
qed

lemma mark_phase: "mark_of s = Some m \<Longrightarrow> phase_of s = (if m = header_value_mark then Value else Head)"
  by (cases s) (auto simp: mark_of_def phase_of_def)

lemma DATA_skip: "marks st m = None \<Longrightarrow> http_errno (parser st) = HPE_OK \<Longrightarrow> CALLBACK_DATA_er S d m till er st k = k st"
  by (simp add: CALLBACK_DATA_er_def ASSERT_def)

lemma keeps_finish:
  assumes "running st" "marks_ok (mark_of (p_state st)) n (marks st)" "http_errno (parser st) = HPE_OK"
  shows "keeps (exec_finish S d st)"
proof -
  have ret: "J Idle (obj st') \<Longrightarrow> http_errno (parser st') = HPE_OK \<Longrightarrow> keeps (RETURN n st')" for st' n
    by (simp add: RETURN_def left_def first_errors_def)
  show ?thesis
  proof (cases "marks st = (\<lambda>_. None)")
    case True
    then show ?thesis using assms(3) ret [of st] running_phase(3) [OF assms(1)]
      by (simp add: exec_finish_def CALLBACK_DATA_NOADVANCE_def DATA_skip ASSERT_def)
  next
    case False
    then obtain m i where m: "mark_of (p_state st) = Some m" "marks st = [m \<mapsto> i]" using assms(2) by (auto simp: marks_ok_def)
    let ?p = "if m = header_value_mark then Value else Head"
    have J: "J ?p (obj st)" using assms(1) mark_phase [OF m(1)] by (simp add: running_def)
    let ?B = "if m = header_field_mark \<or> m = header_value_mark then J Value else J Head"
    have dk: "data_keeps d (data_cb S m) (J ?p) ?B" using url status field val body by (cases m) simp_all
    have B: "?B u \<Longrightarrow> J Idle u" for u using weaken by (auto split: if_splits)
    have clear: "(marks st)(m := None) = (\<lambda>_. None)" using m(2) by auto
    have one: "keeps (CALLBACK_DATA_er S d m till er st k)"
      if "\<And>st'. marks st' = (\<lambda>_. None) \<Longrightarrow> http_errno (parser st') = HPE_OK \<Longrightarrow> J Idle (obj st') \<Longrightarrow> keeps (k st')" for till er k
      by (rule keeps_DATA [OF dk J]) (use assms(3) m(2) clear B in \<open>auto intro!: that\<close>)
    show ?thesis unfolding exec_finish_def ASSERT_def if_P [OF marks_ok_count [OF assms(2)]] CALLBACK_DATA_NOADVANCE_def
      using assms(3) m(2) one by (cases m) (simp_all add: DATA_skip ret)
  qed
qed

definition ready :: "bool \<Rightarrow> 'u exec \<Rightarrow> bool" where
  "ready re st \<longleftrightarrow> running st \<and> http_errno (parser st) = HPE_OK \<and> state_inv (p_state st) (parser st)
     \<and> marks_ok (mark_of (p_state st)) (pp st) (marks st) \<and> (if re then pp st < length d else pp st \<le> length d)
     \<and> (if re then p_state st \<noteq> s_chunk_size_start else rest_inv (p_state st) (parser st))"

lemma ready_next:
  assumes "ready re st" "re \<or> pp st \<noteq> length d"
  shows "exec_step S d re st = Break st' \<Longrightarrow> ready False (st'\<lparr>pp := pp st' + 1\<rparr>)"
    "exec_step S d re st = Reexec st' \<Longrightarrow> ready True st'"
    "exec_step S d re st = Return n q \<Longrightarrow> left q"
proof -
  have e: "exec_inv d st" using assms by (auto simp: ready_def exec_inv_def split: if_splits)
  have g: "good d (pp st) (rank (p_state st)) (exec_step S d re st)"
    using good_step [OF settings e, of re] assms(1) by (auto simp: ready_def split: if_splits)
  have k: "keeps (exec_step S d re st)" using assms(1) by (intro keeps_step) (simp add: ready_def)
  show "exec_step S d re st = Break st' \<Longrightarrow> ready False (st'\<lparr>pp := pp st' + 1\<rparr>)"
    using g k marks_ok_mono [of _ "pp st'" "marks st'" "pp st' + 1"] by (auto simp: ready_def exec_inv_def running_def field_marked_def)
  show "exec_step S d re st = Reexec st' \<Longrightarrow> ready True st'" using g k by (auto simp: ready_def exec_inv_def)
  show "exec_step S d re st = Return n q \<Longrightarrow> left q" using k by simp
qed

lemma exec_loop_left:
  assumes "exec_loop S d re st = Some (n, q)" "ready re st"
  shows "left q"
proof -
  let ?P = "\<lambda>S' d' re st y. S' = S \<longrightarrow> d' = d \<longrightarrow> ready re st \<longrightarrow> left (snd y)"
  have "?P S d re st (n, q)"
  proof (rule exec_loop.raw_induct [where P = ?P, OF _ assms(1)])
    fix rec S' d' re st y
    assume IH: "\<And>S d re st y. rec S d re st = Some y \<Longrightarrow> ?P S d re st y"
      and body: "(if \<not> re \<and> pp st = length d'
          then (case exec_finish S' d' st of Return n q \<Rightarrow> Some (n, q) | _ \<Rightarrow> None)
          else case exec_step S' d' re st of
             Break st' \<Rightarrow> rec S' d' False (st'\<lparr>pp := pp st' + 1\<rparr>)
           | Reexec st' \<Rightarrow> rec S' d' True st'
           | Return n q \<Rightarrow> Some (n, q)
           | Abort \<Rightarrow> None) = Some y"
    show "?P S' d' re st y"
    proof (intro impI)
      assume S: "S' = S" "d' = d" and r: "ready re st"
      show "left (snd y)"
      proof (cases "\<not> re \<and> pp st = length d")
        case True
        then have "keeps (exec_finish S d st)" using r by (intro keeps_finish [of st "pp st"]) (simp_all add: ready_def)
        then show ?thesis using body True S by (auto split: outcome.splits)
      next
        case False
        then have f: "re \<or> pp st \<noteq> length d" by blast
        show ?thesis
        proof (cases "exec_step S d re st")
          case (Break st')
          then have "rec S d False (st'\<lparr>pp := pp st' + 1\<rparr>) = Some y" using body f S by (auto split: if_splits)
          from IH [OF this] ready_next(1) [OF r f Break] show ?thesis by simp
        next
          case (Reexec st')
          then have "rec S d True st' = Some y" using body f S by (auto split: if_splits)
          from IH [OF this] ready_next(2) [OF r f Reexec] show ?thesis by simp
        next
          case (Return n q)
          then show ?thesis using body f S ready_next(3) [OF r f Return] by (auto split: if_splits)
        next
          case Abort
          then show ?thesis using body f S by (auto split: if_splits)
        qed
      qed
    qed
  qed
  then show ?thesis using assms(2) by simp
qed

text \<open>A fresh parser on any input.\<close>

lemma execute_fresh:
  assumes "J Idle (parser_data q0)" "d \<noteq> []"
  shows "\<exists>n q. http_parser_execute (http_parser_init q0 HTTP_BOTH) S d = Some (n, q) \<and> n \<le> length d \<and> left q \<and> parser_inv q"
proof -
  let ?q = "http_parser_init q0 HTTP_BOTH"
  let ?st = "\<lparr>parser = ?q, p_state = state ?q, pp = 0, ch = NUL, marks = initial_marks (state ?q)\<rparr>"
  have e: "http_parser_execute ?q S d = exec_loop S d False ?st" using assms(2) by (simp add: http_parser_execute_def http_parser_init_def)
  have inv: "parser_inv ?q" by (rule parser_inv_init)
  have r: "ready False ?st" using assms(1) inv initial_marks_ok [of "state ?q"]
    by (simp add: ready_def running_def field_marked_def parser_inv_def rest_inv_def)
      (simp add: http_parser_init_def phase_of_def)
  obtain n q where l: "exec_loop S d False ?st = Some (n, q)" "n \<le> length d" "parser_inv q"
    using exec_loop_ok [OF settings, of ?st False d] r by (auto simp: ready_def)
  with exec_loop_left [OF l(1) r] e show ?thesis by auto
qed

end

end
