(* ===== verification/Tlv.thy ===== *)
theory Tlv
  imports CodecContract
begin

text \<open>
  The type-length-value codec, \<open>src/code/Core/Util/src/util/CTlv.cpp\<close>: a type and a length, four bytes each in the byte
  order of the host, and the value.  The object holds the last value in a buffer of its own.
\<close>

record ctlv =
  m_uiType :: u32
  m_uiLength :: u32
  m_oBuff :: cbuffer

definition CTlv_empty :: ctlv where
  "CTlv_empty = \<lparr>m_uiType = 0, m_uiLength = 0, m_oBuff = CBuffer_new\<rparr>"

text \<open>
  \<open>Write(GetRawReadBuffer(), n)\<close> reads \<open>n\<close> bytes of memory from the read index on, readable or not.
\<close>

definition write_raw :: "heap \<Rightarrow> cbuffer \<Rightarrow> cbuffer \<Rightarrow> u32 \<Rightarrow> (int \<times> cbuffer) option" where
  "write_raw hp out src n = do {
     bs \<leftarrow> mem_read (m_buffer src) (m_read_idx src) (unat n);
     Write hp out bs }"

definition CTlv_new :: "heap \<Rightarrow> u32 \<Rightarrow> u32 \<Rightarrow> cbuffer \<Rightarrow> ctlv option" where
  "CTlv_new hp uiType uiLength oBuff = do {
     (_, b) \<leftarrow> write_raw hp CBuffer_new oBuff uiLength;
     Some \<lparr>m_uiType = uiType, m_uiLength = uiLength, m_oBuff = b\<rparr> }"

text \<open>The result of \<open>Write\<close> is converted to \<open>unsigned int\<close> before it is compared.\<close>

definition CTlv_Encode_static :: "heap \<Rightarrow> u32 \<Rightarrow> u32 \<Rightarrow> cbuffer \<Rightarrow> cbuffer \<Rightarrow> (bool \<times> cbuffer) option" where
  "CTlv_Encode_static hp uiType uiInBuffLength oInBuff oOutBuff = do {
     (w, b) \<leftarrow> Write hp oOutBuff (store32 uiType);
     if (word_of_int w :: u32) \<noteq> 4 then Some (False, b)
     else do {
       (w, b) \<leftarrow> Write hp b (store32 uiInBuffLength);
       if (word_of_int w :: u32) \<noteq> 4 then Some (False, b)
       else do {
         (w, b) \<leftarrow> write_raw hp b oInBuff uiInBuffLength;
         Some (word_of_int w = uiInBuffLength, b) } } }"

definition CTlv_Encode :: "heap \<Rightarrow> ctlv \<Rightarrow> cbuffer \<Rightarrow> (bool \<times> cbuffer) option" where
  "CTlv_Encode hp T oOutBuff = do {
     (w, b) \<leftarrow> Write hp oOutBuff (store32 (m_uiType T));
     if (word_of_int w :: u32) \<noteq> 4 then Some (False, b)
     else do {
       (w, b) \<leftarrow> Write hp b (store32 (m_uiLength T));
       if (word_of_int w :: u32) \<noteq> 4 then Some (False, b)
       else do {
         (w, b) \<leftarrow> write_raw hp b (m_oBuff T) (m_uiLength T);
         Some (word_of_int w = m_uiLength T, b) } } }"

definition CTlv_Decode :: "heap \<Rightarrow> ctlv \<Rightarrow> cbuffer \<Rightarrow> (bool \<times> ctlv \<times> cbuffer) option" where
  "CTlv_Decode hp T oInBuff =
     (if ReadableBytes oInBuff < 4 then Some (False, T, oInBuff)
      else do {
        let uiReadIdx = m_read_idx oInBuff;
        (r, bs, b) \<leftarrow> Read oInBuff 4;
        let T = (if bs = [] then T else T\<lparr>m_uiType := load32 bs\<rparr>);
        if r \<noteq> 4 then Some (False, T, SetReadIndex b uiReadIdx)
        else do {
          (r, bs, b) \<leftarrow> Read b 4;
          let T = (if bs = [] then T else T\<lparr>m_uiLength := load32 bs\<rparr>);
          if r \<noteq> 4 then Some (False, T, SetReadIndex b uiReadIdx)
          else if ReadableBytes b < unat (m_uiLength T) then Some (False, T, SetReadIndex b uiReadIdx)
          else do {
            (r, o2, b) \<leftarrow> WriteFrom hp (m_oBuff T) b (unat (m_uiLength T));
            let T = T\<lparr>m_oBuff := o2\<rparr>;
            if r \<noteq> to_int32 (unat (m_uiLength T)) then Some (False, T, SetReadIndex b uiReadIdx)
            else Some (True, T, b) } } })"

subsection \<open>Frames\<close>

definition tlv_frame :: "u32 \<Rightarrow> byte list \<Rightarrow> byte list" where
  "tlv_frame ty v = store32 ty @ store32 (word_of_nat (length v)) @ v"

text \<open>A small value: its length fits a positive \<open>int\<close>.\<close>

lemma unat_length: "length v < 2 ^ 31 \<Longrightarrow> unat (word_of_nat (length v) :: u32) = length v"
  by (simp add: unsigned_of_nat take_bit_nat_eq_self)

lemma word_int_length: "n < 2 ^ 31 \<Longrightarrow> (word_of_int (int n) :: u32) = word_of_nat n"
  by simp

lemma minus_one_word: "n < 2 ^ 31 \<Longrightarrow> (word_of_int (-1) :: u32) \<noteq> word_of_nat n"
proof
  assume "n < 2 ^ 31" "(word_of_int (-1) :: u32) = word_of_nat n"
  then have "unat (- 1 :: u32) = n" by (simp add: unsigned_of_nat take_bit_nat_eq_self)
  then show False using \<open>n < 2 ^ 31\<close> by (simp add: unsigned_minus_1_eq_mask mask_eq_exp_minus_1)
qed

lemma Write_word:
  assumes "cb_inv b" "cb_room b (length xs)"
  shows "\<exists>r b'. Write hp b xs = Some (r, b') \<and> cb_inv b'
    \<and> ((word_of_int r :: u32) = word_of_nat (length xs) \<and> cb_data b' = cb_data b @ xs
       \<or> (word_of_int r :: u32) \<noteq> word_of_nat (length xs) \<and> b' = b)"
proof -
  have "length xs < 2 ^ 31" using assms(2) by (simp add: cb_room_def)
  then show ?thesis using Write_ok [OF assms, of hp] minus_one_word [of "length xs"] by auto
qed

lemma write_raw_ok:
  assumes "cb_inv b" "cb_inv src" "unat n \<le> length (cb_data src)" "cb_room b (unat n)"
  shows "\<exists>r b'. write_raw hp b src n = Some (r, b') \<and> cb_inv b'
    \<and> ((word_of_int r :: u32) = n \<and> cb_data b' = cb_data b @ take (unat n) (cb_data src)
       \<or> (word_of_int r :: u32) \<noteq> n \<and> b' = b)"
proof -
  have "mem_read (m_buffer src) (m_read_idx src) (unat n) = Some (take (unat n) (cb_data src))"
    using mem_read_readable [of src "unat n"] assms(2,3) length_cb_data [of src] by simp
  moreover have "length (take (unat n) (cb_data src)) = unat n" using assms(3) by simp
  ultimately show ?thesis
    using Write_word [OF assms(1), of "take (unat n) (cb_data src)" hp] assms(4) by (auto simp: write_raw_def)
qed

lemma CTlv_Encode_static_ok:
  assumes "cb_inv b" "cb_inv src" "length v < 2 ^ 31 - 8" "cb_room b (8 + length v)" "prefix v (cb_data src)"
  shows "\<exists>ok b'. CTlv_Encode_static hp ty (word_of_nat (length v)) src b = Some (ok, b') \<and> cb_inv b'
    \<and> (if ok then cb_data b' = cb_data b @ tlv_frame ty v else \<exists>k \<le> 8. cb_data b' = cb_data b @ take k (tlv_frame ty v))"
proof -
  let ?n = "word_of_nat (length v) :: u32"
  have n: "unat ?n = length v" using assms(3) unat_length [of v] by simp
  obtain r1 b1 where 1: "Write hp b (store32 ty) = Some (r1, b1)" "cb_inv b1"
    "(word_of_int r1 :: u32) = 4 \<and> cb_data b1 = cb_data b @ store32 ty \<or> (word_of_int r1 :: u32) \<noteq> 4 \<and> b1 = b"
    using Write_word [OF assms(1), of "store32 ty" hp] assms(4) by (auto simp: cb_room_def)
  have room1: "cb_room b1 (4 + length v)"
    using Write_room [OF assms(1) _ 1(1), of "4 + length v"] assms(4) by (simp add: add.commute add.assoc)
  obtain r2 b2 where 2: "Write hp b1 (store32 ?n) = Some (r2, b2)" "cb_inv b2"
    "(word_of_int r2 :: u32) = 4 \<and> cb_data b2 = cb_data b1 @ store32 ?n \<or> (word_of_int r2 :: u32) \<noteq> 4 \<and> b2 = b1"
    using Write_word [OF 1(2), of "store32 ?n" hp] room1 by (auto simp: cb_room_def)
  have room2: "cb_room b2 (length v)"
    using Write_room [OF 1(2) _ 2(1), of "length v"] room1 by simp
  obtain r3 b3 where 3: "write_raw hp b2 src ?n = Some (r3, b3)" "cb_inv b3"
    "(word_of_int r3 :: u32) = ?n \<and> cb_data b3 = cb_data b2 @ v \<or> (word_of_int r3 :: u32) \<noteq> ?n \<and> b3 = b2"
    using write_raw_ok [OF 2(2) assms(2), of ?n hp] n assms(5) room2 by (auto simp: prefix_def)
  have parts: "take 4 (tlv_frame ty v) = store32 ty" "take 8 (tlv_frame ty v) = store32 ty @ store32 ?n"
    by (simp_all add: tlv_frame_def)
  show ?thesis
    using 1 2 3 parts unfolding CTlv_Encode_static_def
    by (fastforce simp: tlv_frame_def intro: exI [of _ "0::nat"] exI [of _ "4::nat"] exI [of _ "8::nat"])
qed

text \<open>Enough memory for a write: the request is small and every allocation succeeds.\<close>

definition enough :: "heap \<Rightarrow> cbuffer \<Rightarrow> nat \<Rightarrow> bool" where
  "enough hp b n \<longleftrightarrow> fst hp = (\<lambda>_. True) \<and> recv_ok b \<and> m_write_idx b + n < 2 ^ 30"

lemma Write_enough:
  assumes "enough hp b (length xs)" "Write hp b xs = Some (r, b')"
  shows "r = int (length xs) \<and> recv_ok b' \<and> m_write_idx b' \<le> m_write_idx b + length xs"
  using Write_success [of hp b xs] assms by (auto simp: enough_def)

lemma WriteFrom_cases:
  assumes "cb_inv b" "cb_inv src" "n \<le> ReadableBytes src" "cb_room b n"
  shows "\<exists>r b' src'. WriteFrom hp b src n = Some (r, b', src') \<and> cb_inv b'
    \<and> (r = int n \<and> cb_data b' = cb_data b @ take n (cb_data src) \<and> src' = src\<lparr>m_read_idx := m_read_idx src + n\<rparr>
         \<and> (enough hp b n \<longrightarrow> recv_ok b' \<and> m_write_idx b' \<le> m_write_idx b + n)
       \<or> r = -1 \<and> b' = b \<and> src' = src \<and> \<not> enough hp b n)"
proof -
  have len: "length (take n (cb_data src)) = n" using assms(2,3) length_cb_data [of src] by simp
  then obtain r b' where w: "Write hp b (take n (cb_data src)) = Some (r, b')" "cb_inv b'"
    "r = int n \<and> cb_data b' = cb_data b @ take n (cb_data src) \<or> r = -1 \<and> b' = b"
    using Write_ok [OF assms(1), of "take n (cb_data src)" hp] assms(4) by auto
  have "m_read_idx src + n < 2 ^ 64" using cb_inv_bounds [OF assms(2)] assms(3) by simp
  with w show ?thesis
    using mem_read_readable [OF assms(2,3)] assms(3) Write_enough [OF _ w(1)] len by (auto simp: WriteFrom_def Let_def)
qed

lemma restore_index: "SetReadIndex (b\<lparr>m_read_idx := i\<rparr>) (m_read_idx b) = b" "SetReadIndex b (m_read_idx b) = b"
  by (simp_all add: SetReadIndex_def)

lemma CTlv_Decode_frame:
  assumes "cb_inv b" "cb_data b = tlv_frame ty v @ rest" "length v < 2 ^ 31" "cb_inv (m_oBuff T)" "cb_room (m_oBuff T) (length v)"
  shows "\<exists>ok T' b'. CTlv_Decode hp T b = Some (ok, T', b') \<and> cb_inv (m_oBuff T')
    \<and> (if ok then m_uiType T' = ty \<and> m_uiLength T' = word_of_nat (length v)
            \<and> cb_data (m_oBuff T') = cb_data (m_oBuff T) @ v \<and> cb_inv b' \<and> cb_data b' = rest
            \<and> (enough hp (m_oBuff T) (length v) \<longrightarrow>
                 recv_ok (m_oBuff T') \<and> m_write_idx (m_oBuff T') \<le> m_write_idx (m_oBuff T) + length v)
       else b' = b \<and> m_oBuff T' = m_oBuff T \<and> \<not> enough hp (m_oBuff T) (length v))"
proof -
  let ?n = "word_of_nat (length v) :: u32"
  have n: "unat ?n = length v" using assms(3) unat_length [of v] by simp
  have len: "ReadableBytes b = 8 + length v + length rest"
    using length_cb_data [OF assms(1)] assms(2) by (simp add: tlv_frame_def)
  let ?b1 = "b\<lparr>m_read_idx := m_read_idx b + 4\<rparr>"
  let ?b2 = "b\<lparr>m_read_idx := m_read_idx b + 8\<rparr>"
  have b1: "cb_inv ?b1" "cb_data ?b1 = store32 ?n @ v @ rest" "ReadableBytes ?b1 = 4 + length v + length rest"
    using cb_inv_advance [OF assms(1), of 4] len length_cb_data [of ?b1] assms(2) by (simp_all add: tlv_frame_def)
  have b2: "cb_inv ?b2" "cb_data ?b2 = v @ rest" "ReadableBytes ?b2 = length v + length rest"
    using cb_inv_advance [OF assms(1), of 8] len length_cb_data [of ?b2] assms(2) by (simp_all add: tlv_frame_def)
  have r1: "Read b 4 = Some (4, store32 ty, ?b1)" using Read_ok [OF assms(1), of 4] len assms(2) by (simp add: tlv_frame_def)
  have r2: "Read ?b1 4 = Some (4, store32 ?n, ?b2)" using Read_ok [OF b1(1), of 4] b1 by (simp add: add.commute)
  have ne: "store32 w \<noteq> []" for w using length_store32 [of w] by force
  obtain r o2 b3 where w: "WriteFrom hp (m_oBuff T) ?b2 (length v) = Some (r, o2, b3)" "cb_inv o2"
    "r = int (length v) \<and> cb_data o2 = cb_data (m_oBuff T) @ v \<and> b3 = ?b2\<lparr>m_read_idx := m_read_idx ?b2 + length v\<rparr>
         \<and> (enough hp (m_oBuff T) (length v) \<longrightarrow> recv_ok o2 \<and> m_write_idx o2 \<le> m_write_idx (m_oBuff T) + length v)
       \<or> r = -1 \<and> o2 = m_oBuff T \<and> b3 = ?b2 \<and> \<not> enough hp (m_oBuff T) (length v)"
    using WriteFrom_cases [OF assms(4) b2(1), of "length v" hp] b2 assms(5) by auto
  have adv: "cb_inv (?b2\<lparr>m_read_idx := m_read_idx ?b2 + length v\<rparr>)" "cb_data (?b2\<lparr>m_read_idx := m_read_idx ?b2 + length v\<rparr>) = rest"
    using cb_inv_advance [OF b2(1), of "length v"] b2 by simp_all
  have dec: "CTlv_Decode hp T b = (let T' = T\<lparr>m_uiType := ty, m_uiLength := ?n, m_oBuff := o2\<rparr> in
      if r \<noteq> to_int32 (length v) then Some (False, T', SetReadIndex b3 (m_read_idx b)) else Some (True, T', b3))"
    using len b2(3) r1 r2 w(1) n ne by (simp add: CTlv_Decode_def Let_def load_store32)
  from w(3) show ?thesis
  proof
    assume ok: "r = int (length v) \<and> cb_data o2 = cb_data (m_oBuff T) @ v \<and> b3 = ?b2\<lparr>m_read_idx := m_read_idx ?b2 + length v\<rparr>
      \<and> (enough hp (m_oBuff T) (length v) \<longrightarrow> recv_ok o2 \<and> m_write_idx o2 \<le> m_write_idx (m_oBuff T) + length v)"
    then have "CTlv_Decode hp T b = Some (True, T\<lparr>m_uiType := ty, m_uiLength := ?n, m_oBuff := o2\<rparr>, b3)"
      using dec assms(3) by (simp add: Let_def)
    then show ?thesis using ok w(2) adv by auto
  next
    assume fail: "r = -1 \<and> o2 = m_oBuff T \<and> b3 = ?b2 \<and> \<not> enough hp (m_oBuff T) (length v)"
    then have "CTlv_Decode hp T b = Some (False, T\<lparr>m_uiType := ty, m_uiLength := ?n, m_oBuff := o2\<rparr>, b)"
      using dec assms(3) by (simp add: Let_def restore_index)
    then show ?thesis using fail w(2) by auto
  qed
qed

lemma CTlv_Decode_partial:
  assumes "cb_inv b" "strict_prefix (cb_data b) (tlv_frame ty v)" "length v < 2 ^ 31"
  shows "\<exists>T'. CTlv_Decode hp T b = Some (False, T', b) \<and> m_oBuff T' = m_oBuff T"
proof -
  let ?n = "word_of_nat (length v) :: u32"
  have n: "unat ?n = length v" using assms(3) unat_length [of v] by simp
  let ?d = "cb_data b"
  have len: "ReadableBytes b = length ?d" "length ?d < 8 + length v"
    using length_cb_data [OF assms(1)] prefix_length_less [OF assms(2)] by (simp_all add: tlv_frame_def)
  have pre: "?d = take (length ?d) (tlv_frame ty v)"
    using assms(2) by (metis append_eq_conv_conj prefix_def strict_prefix_def)
  consider "length ?d < 4" | "4 \<le> length ?d" "length ?d < 8" | "8 \<le> length ?d" by linarith
  then show ?thesis
  proof cases
    case 1
    then show ?thesis using len by (simp add: CTlv_Decode_def)
  next
    case 2
    let ?b1 = "b\<lparr>m_read_idx := m_read_idx b + 4\<rparr>"
    have "ReadableBytes ?b1 < 4" using cb_inv_advance [OF assms(1), of 4] 2 len length_cb_data [of ?b1] by simp
    moreover have "Read b 4 = Some (4, take 4 ?d, ?b1)" using Read_ok [OF assms(1), of 4] 2 len by simp
    ultimately show ?thesis using 2 len by (simp add: CTlv_Decode_def Let_def Read_short restore_index)
  next
    case 3
    let ?b1 = "b\<lparr>m_read_idx := m_read_idx b + 4\<rparr>"
    let ?b2 = "b\<lparr>m_read_idx := m_read_idx b + 8\<rparr>"
    have d4: "take 4 ?d = store32 ty" "take 4 (drop 4 ?d) = store32 ?n"
      by (subst pre, use 3 in \<open>simp add: tlv_frame_def take_drop\<close>)+
    have b1: "cb_inv ?b1" "cb_data ?b1 = drop 4 ?d" "4 \<le> ReadableBytes ?b1"
      using cb_inv_advance [OF assms(1), of 4] 3 len length_cb_data [of ?b1] by simp_all
    have "ReadableBytes ?b2 < length v"
      using cb_inv_advance [OF assms(1), of 8] 3 len length_cb_data [of ?b2] by simp
    moreover have "Read b 4 = Some (4, store32 ty, ?b1)" using Read_ok [OF assms(1), of 4] 3 len d4 by simp
    moreover have "Read ?b1 4 = Some (4, store32 ?n, ?b2)" using Read_ok [OF b1(1), of 4] b1 d4 by (simp add: add.commute)
    moreover have "store32 w \<noteq> []" for w using length_store32 [of w] by force
    ultimately show ?thesis using 3 len n by (simp add: CTlv_Decode_def Let_def load_store32 restore_index)
  qed
qed

subsection \<open>Properties\<close>

lemma empty_object [simp]: "m_oBuff CTlv_empty = CBuffer_new" "m_write_idx CBuffer_new = 0"
  by (simp_all add: CTlv_empty_def CBuffer_new_def)

lemma CTlv_Encode_static_eq: "CTlv_Encode hp T b = CTlv_Encode_static hp (m_uiType T) (m_uiLength T) (m_oBuff T) b"
  by (simp add: CTlv_Encode_def CTlv_Encode_static_def)

text \<open>
  A TLV message survives its codec.  \<open>Encode\<close> of a value of fewer than \<open>2 ^ 31 - 8\<close> bytes either
  reports success and has appended exactly the frame to the output, or reports failure.  \<open>Decode\<close> with an
  empty object returns the type, the length and the value and leaves what follows, or, if memory is short, reports failure
  and leaves the input as it was; while only a proper part of the frame has arrived it reports failure
  and leaves the input as it was.
\<close>

theorem tlv_roundtrip:
  assumes "cb_inv b" "cb_inv src" "prefix v (cb_data src)" "length v < 2 ^ 31 - 8" "cb_room b (8 + length v)"
    and "cb_inv b2" "cb_data b2 = tlv_frame ty v @ rest" "cb_inv b3" "strict_prefix (cb_data b3) (tlv_frame ty v)"
  shows "(\<exists>ok b'. CTlv_Encode_static hp ty (word_of_nat (length v)) src b = Some (ok, b')
              \<and> (ok \<longrightarrow> cb_data b' = cb_data b @ tlv_frame ty v))
       \<and> (\<exists>ok T' b'. CTlv_Decode hp CTlv_empty b2 = Some (ok, T', b')
              \<and> (if ok then m_uiType T' = ty \<and> m_uiLength T' = word_of_nat (length v) \<and> cb_data (m_oBuff T') = v
                      \<and> cb_data b' = rest
                 else b' = b2))
       \<and> (\<exists>T'. CTlv_Decode hp CTlv_empty b3 = Some (False, T', b3))"
proof -
  have "cb_room CBuffer_new (length v)" using assms(4) by (simp add: cb_room_def CBuffer_new_def)
  then obtain ok T' b' where "CTlv_Decode hp CTlv_empty b2 = Some (ok, T', b')"
    "if ok then m_uiType T' = ty \<and> m_uiLength T' = word_of_nat (length v) \<and> cb_data (m_oBuff T') = v \<and> cb_data b' = rest
     else b' = b2"
    using CTlv_Decode_frame [OF assms(6,7), of CTlv_empty hp] assms(4)
    by (auto split: if_splits)
  moreover have "\<exists>T'. CTlv_Decode hp CTlv_empty b3 = Some (False, T', b3)"
    using CTlv_Decode_partial [OF assms(8,9), of hp CTlv_empty] assms(4) by auto
  moreover obtain ok2 b4 where "CTlv_Encode_static hp ty (word_of_nat (length v)) src b = Some (ok2, b4)"
    "ok2 \<longrightarrow> cb_data b4 = cb_data b @ tlv_frame ty v"
    using CTlv_Encode_static_ok [OF assms(1,2,4,5,3), of hp ty] by (auto split: if_splits)
  ultimately show ?thesis by blast
qed

lemma cb_data_sample [simp]: "cb_data (sample_buffer bs) = bs"
  by (simp add: cb_data_def sample_buffer_def)

theorem tlv_roundtrip_witness:
  "(\<exists>ok T' b'. CTlv_Decode (\<lambda>_. True, \<lambda>_. 0) CTlv_empty (sample_buffer (tlv_frame 1 [7, 8] @ [9])) = Some (ok, T', b')
       \<and> (if ok then m_uiType T' = 1 \<and> m_uiLength T' = word_of_nat (length [7, 8 :: byte]) \<and> cb_data (m_oBuff T') = [7, 8] \<and> cb_data b' = [9]
          else b' = sample_buffer (tlv_frame 1 [7, 8] @ [9])))
   \<and> (\<exists>T'. CTlv_Decode (\<lambda>_. True, \<lambda>_. 0) CTlv_empty (sample_buffer (store32 1)) = Some (False, T', sample_buffer (store32 1)))"
proof -
  have b2: "cb_inv (sample_buffer (tlv_frame 1 [7, 8] @ [9]))" by (intro sample_buffer_inv) (simp add: tlv_frame_def)
  have room: "cb_room CBuffer_new (8 + length [7, 8 :: byte])" by (simp add: cb_room_def CBuffer_new_def)
  have b3: "strict_prefix (cb_data (sample_buffer (store32 1))) (tlv_frame 1 [7, 8])"
    by (simp add: tlv_frame_def strict_prefix_def)
  show ?thesis
    using tlv_roundtrip [of CBuffer_new "sample_buffer [7, 8]" "[7, 8]", OF _ _ _ _ room b2 cb_data_sample _ b3,
        of "(\<lambda>_. True, \<lambda>_. 0)"] by simp
qed

lemma CTlv_Encode_enough:
  assumes "enough hp b (8 + length v)" "cb_inv src" "prefix v (cb_data src)"
  shows "\<exists>b'. CTlv_Encode_static hp ty (word_of_nat (length v)) src b = Some (True, b') \<and> cb_data b' = cb_data b @ tlv_frame ty v"
proof -
  let ?n = "word_of_nat (length v) :: u32"
  have hp: "fst hp = (\<lambda>_. True)" "recv_ok b" "m_write_idx b + 8 + length v < 2 ^ 30" using assms(1) by (simp_all add: enough_def)
  obtain b1 where b1: "Write hp b (store32 ty) = Some (4, b1)" "recv_ok b1" "cb_data b1 = cb_data b @ store32 ty"
    "m_write_idx b1 \<le> m_write_idx b + 4" using Write_success [OF hp(1,2), of "store32 ty"] hp(3) by auto
  obtain b2 where b2: "Write hp b1 (store32 ?n) = Some (4, b2)" "recv_ok b2" "cb_data b2 = cb_data b1 @ store32 ?n"
    "m_write_idx b2 \<le> m_write_idx b1 + 4" using Write_success [OF hp(1) b1(2), of "store32 ?n"] b1(4) hp(3) by auto
  obtain b3 where b3: "Write hp b2 v = Some (int (length v), b3)" "cb_data b3 = cb_data b2 @ v"
    using Write_success [OF hp(1) b2(2), of v] b1(4) b2(4) hp(3) by auto
  have "unat ?n = length v" using unat_length [of v] hp(3) by simp
  then have "write_raw hp b2 src ?n = Some (int (length v), b3)"
    using mem_read_readable [OF assms(2), of "length v"] length_cb_data [OF assms(2)] assms(3) b3(1)
    by (auto simp: write_raw_def prefix_def)
  then show ?thesis using b1 b2 b3 by (simp add: CTlv_Encode_static_def tlv_frame_def)
qed

text \<open>
  An object that decodes two messages encodes a mixture of them.  \<open>Decode\<close> appends the value to the buffer of
  the object and never clears it, while \<open>Encode\<close> takes the length of the last message from the start of that
  buffer: after the messages \<open>v1\<close> and \<open>v2\<close> it writes the type and length of the second with the first bytes of \<open>v1 @ v2\<close>.
\<close>

theorem tlv_object_reuse:
  assumes "cb_inv b" "cb_data b = tlv_frame t1 v1 @ tlv_frame t2 v2" "length v1 + length v2 < 2 ^ 29" "fst hp = (\<lambda>_. True)"
  shows "\<exists>T1 b1 T2 b2 out. CTlv_Decode hp CTlv_empty b = Some (True, T1, b1) \<and> CTlv_Decode hp T1 b1 = Some (True, T2, b2)
     \<and> cb_data b2 = [] \<and> CTlv_Encode hp T2 CBuffer_new = Some (True, out)
     \<and> cb_data out = tlv_frame t2 (take (length v2) (v1 @ v2))"
proof -
  have new: "recv_ok CBuffer_new" by (simp add: recv_ok_def Capacity_def) (simp add: CBuffer_new_def)
  have room: "cb_room CBuffer_new (length v1)" "enough hp CBuffer_new (length v1)"
    using assms(3,4) new by (simp_all add: cb_room_def CBuffer_new_def enough_def)
  obtain ok T1 b1 where d1: "CTlv_Decode hp CTlv_empty b = Some (ok, T1, b1)" "ok" "cb_inv (m_oBuff T1)" "cb_data (m_oBuff T1) = v1"
    "cb_inv b1" "cb_data b1 = tlv_frame t2 v2" "recv_ok (m_oBuff T1)" "m_write_idx (m_oBuff T1) \<le> length v1"
    using CTlv_Decode_frame [OF assms(1,2), of CTlv_empty hp] assms(3) room
    by (auto split: if_splits)
  have room1: "cb_room (m_oBuff T1) (length v2)" "enough hp (m_oBuff T1) (length v2)"
    using assms(3,4) d1(7,8) by (simp_all add: cb_room_def enough_def)
  obtain ok2 T2 b2 where d2: "CTlv_Decode hp T1 b1 = Some (ok2, T2, b2)" "ok2" "cb_inv (m_oBuff T2)" "cb_data (m_oBuff T2) = v1 @ v2"
    "m_uiType T2 = t2" "m_uiLength T2 = word_of_nat (length v2)" "cb_data b2 = []"
    using CTlv_Decode_frame [OF d1(5), of t2 v2 "[]" T1 hp] d1(3,4,6) assms(3) room1 by (auto split: if_splits)
  let ?v = "take (length v2) (v1 @ v2)"
  have v: "length ?v = length v2" "prefix ?v (cb_data (m_oBuff T2))" using d2(4) by (simp, metis take_is_prefix)
  have "enough hp CBuffer_new (8 + length ?v)" using v(1) assms(3,4) new by (simp add: enough_def CBuffer_new_def)
  from CTlv_Encode_enough [OF this d2(3) v(2), of t2]
  obtain out where "CTlv_Encode hp T2 CBuffer_new = Some (True, out)" "cb_data out = tlv_frame t2 ?v"
    unfolding v(1) CTlv_Encode_static_eq d2(5,6) by auto
  moreover have "ok = True" "ok2 = True" using d1(2) d2(2) by simp_all
  ultimately show ?thesis using d1(1) d2(1,7) by metis
qed

theorem tlv_object_reuse_witness:
  "\<exists>T1 b1 T2 b2 out. CTlv_Decode (\<lambda>_. True, \<lambda>_. 0) CTlv_empty (sample_buffer (tlv_frame 1 [7] @ tlv_frame 2 [8])) = Some (True, T1, b1)
     \<and> CTlv_Decode (\<lambda>_. True, \<lambda>_. 0) T1 b1 = Some (True, T2, b2) \<and> cb_data b2 = []
     \<and> CTlv_Encode (\<lambda>_. True, \<lambda>_. 0) T2 CBuffer_new = Some (True, out) \<and> cb_data out = tlv_frame 2 [7]"
proof -
  have "cb_inv (sample_buffer (tlv_frame 1 [7] @ tlv_frame 2 [8]))" by (intro sample_buffer_inv) (simp add: tlv_frame_def)
  from tlv_object_reuse [OF this cb_data_sample, of "(\<lambda>_. True, \<lambda>_. 0)"] show ?thesis by simp
qed

end
