(* ===== verification/HttpCodec.thy ===== *)
theory HttpCodec
  imports HttpSafety HttpParam Tlv ConHash "HOL-Library.Multiset"
begin

text \<open>
  The HTTP codec, \<open>src/code/Core/Net/src/codec/HttpCodec.cpp\<close>: messages of the class \<open>HttpMsg\<close> to and from the text of
  HTTP, on the byte buffer and the HTTP parser.

  \<open>http_msg\<close> has the fields of the generated class with their default values; its serialisation is an
  argument.  The callbacks of the parser work on a message that is \<open>None\<close> once a callback has run into
  undefined behaviour.  The codec keeps a hash table of headers to be added; where it puts a new key is the
  argument \<open>place\<close>.  An operation is \<open>None\<close> on undefined behaviour.
\<close>

subsection \<open>Messages\<close>

record http_msg =
  msg_type :: int
  msg_http_major :: int
  msg_http_minor :: int
  msg_content_length :: int
  msg_method :: int
  msg_status_code :: int
  msg_encoding :: int
  msg_url :: string
  msg_headers :: "(string \<times> string) list"
  msg_body :: string
  msg_path :: string
  is_decoding :: bool

definition HttpMsg_new :: http_msg where
  "HttpMsg_new = \<lparr>msg_type = 0, msg_http_major = 0, msg_http_minor = 0, msg_content_length = 0, msg_method = 0,
     msg_status_code = 0, msg_encoding = 0, msg_url = '''', msg_headers = [], msg_body = '''', msg_path = '''', is_decoding = False\<rparr>"

definition to_bytes :: "string \<Rightarrow> byte list" where
  "to_bytes s = map (\<lambda>c. word_of_nat (of_char c)) s"

definition to_chars :: "byte list \<Rightarrow> string" where
  "to_chars bs = map (\<lambda>b. char_of (unat b)) bs"

definition status_texts :: "(int \<times> string) list" where
  "status_texts = [(100, ''Continue''), (101, ''Switching Protocols''), (102, ''Processing''),
     (200, ''OK''), (201, ''Created''), (202, ''Accepted''), (203, ''Non-Authoritative Information''), (204, ''No Content''),
     (205, ''Reset Content''), (206, ''Partial Content''), (207, ''Multi-Status''),
     (300, ''Multiple Choices''), (301, ''Moved Permanently''), (302, ''Moved Temporarily''), (303, ''See Other''),
     (304, ''Not Modified''), (305, ''Use Proxy''), (307, ''Temporary Redirect''),
     (400, ''Bad Request''), (401, ''Unauthorized''), (402, ''Payment Required''), (403, ''Forbidden''), (404, ''Not Found''),
     (405, ''Method Not Allowed''), (406, ''Not Acceptable''), (407, ''Proxy Authentication Required''), (408, ''Request Time-out''),
     (409, ''Conflict''), (410, ''Gone''), (411, ''Length Required''), (412, ''Precondition Failed''),
     (413, ''Request Entity Too Large''), (414, ''Request-URI Too Large''), (415, ''Unsupported Media Type''),
     (416, ''Requested Range Not Satisfiable''), (417, ''Expectation Failed''), (418, ''I'' @ [CHR 0x22] @ ''m a teapot''),
     (422, ''Unprocessable Entity''), (423, ''Locked''), (424, ''Failed Dependency''), (425, ''Unordered Collection''),
     (426, ''Upgrade Required''),
     (500, ''Internal Server Error''), (501, ''Not Implemented''), (502, ''Bad Gateway''), (503, ''Service Unavailable''),
     (504, ''Gateway Time-out''), (505, ''HTTP Version not supported''), (506, ''Variant Also Negotiates''),
     (507, ''Insufficient Storage''), (509, ''Bandwidth Limit Exceeded''), (510, ''Not Extended'')]"

definition status_string :: "int \<Rightarrow> string option" where
  "status_string n = map_of status_texts n"

text \<open>The numbers of the methods, and \<open>http_method_str\<close> of a number.\<close>

definition method_list :: "http_method list" where
  "method_list = [HTTP_DELETE, HTTP_GET, HTTP_HEAD, HTTP_POST, HTTP_PUT, HTTP_CONNECT, HTTP_OPTIONS, HTTP_TRACE, HTTP_COPY,
     HTTP_LOCK, HTTP_MKCOL, HTTP_MOVE, HTTP_PROPFIND, HTTP_PROPPATCH, HTTP_SEARCH, HTTP_UNLOCK, HTTP_REPORT, HTTP_MKACTIVITY,
     HTTP_CHECKOUT, HTTP_MERGE, HTTP_MSEARCH, HTTP_NOTIFY, HTTP_SUBSCRIBE, HTTP_UNSUBSCRIBE, HTTP_PATCH, HTTP_PURGE,
     HTTP_MKCALENDAR]"

fun position :: "'a \<Rightarrow> 'a list \<Rightarrow> nat" where
  "position x [] = 0"
| "position x (y # ys) = (if x = y then 0 else position x ys + 1)"

definition method_number :: "http_method \<Rightarrow> int" where
  "method_number m = int (position m method_list)"

definition method_text :: "int \<Rightarrow> string" where
  "method_text i = (if 0 \<le> i \<and> i < 27 then http_method_str (method_list ! nat i) else ''<unknown>'')"

subsection \<open>The callbacks\<close>

definition on_msg :: "(http_msg \<Rightarrow> http_msg option) \<Rightarrow> http_msg option http_cb" where
  "on_msg f q = (0, q\<lparr>parser_data := Option.bind (parser_data q) f\<rparr>)"

definition OnMessageBegin :: "http_msg option http_cb" where
  "OnMessageBegin = on_msg (\<lambda>m. Some (m\<lparr>is_decoding := True\<rparr>))"

text \<open>\<open>strncpy\<close> stops at a NUL and fills up with NUL.\<close>

definition strncpy_text :: "string \<Rightarrow> nat \<Rightarrow> string" where
  "strncpy_text s n = take n (c_str s @ replicate n (CHR 0x00))"

text \<open>\<open>stUrl\<close> is the uninitialised structure, \<open>rest\<close> what follows the URL in memory.\<close>

definition OnUrl :: "heap \<Rightarrow> http_parser_url \<Rightarrow> string \<Rightarrow> http_msg option http_data_cb" where
  "OnUrl hp stUrl rest q at = on_msg (\<lambda>m. do {
     let m = m\<lparr>msg_url := at\<rparr>;
     (r, u) \<leftarrow> http_parser_parse_url at rest False stUrl;
     if r = 0 \<and> UF_PATH \<in> field_set u then do {
       _ \<leftarrow> c_malloc hp (field_len u UF_PATH);
       if field_off u UF_PATH + field_len u UF_PATH \<le> length at
       then Some (m\<lparr>msg_path := strncpy_text (drop (field_off u UF_PATH) at) (field_len u UF_PATH)\<rparr>) else None }
     else Some m }) q"

definition OnStatus :: "http_msg option http_data_cb" where
  "OnStatus q at = on_msg (\<lambda>m. Some (m\<lparr>msg_status_code := int (status_code q)\<rparr>)) q"

definition OnHeaderField :: "http_msg option http_data_cb" where
  "OnHeaderField q at = on_msg (\<lambda>m. Some (m\<lparr>msg_headers := msg_headers m @ [(at, '''')]\<rparr>)) q"

definition OnHeaderValue :: "http_msg option http_data_cb" where
  "OnHeaderValue q at = on_msg (\<lambda>m. if msg_headers m = [] then None
     else Some (m\<lparr>msg_headers := butlast (msg_headers m) @ [(fst (last (msg_headers m)), at)]\<rparr>)) q"

definition OnHeadersComplete :: "http_msg option http_cb" where
  "OnHeadersComplete q = (0, q)"

definition OnBody :: "http_msg option http_data_cb" where
  "OnBody q at = on_msg (\<lambda>m. Some (m\<lparr>msg_body := (if msg_body m \<noteq> [] then msg_body m @ at else at)\<rparr>)) q"

definition OnMessageComplete :: "http_msg option http_cb" where
  "OnMessageComplete q = on_msg (\<lambda>m.
     let m = (if status_code q \<noteq> 0 then m\<lparr>msg_status_code := int (status_code q), msg_type := 1\<rparr>
              else m\<lparr>msg_method := method_number (parser_method q), msg_type := 0\<rparr>);
         m = m\<lparr>msg_http_major := int (http_major q), msg_http_minor := int (http_minor q)\<rparr> in
     if msg_method m = 1 then Some (m\<lparr>is_decoding := False\<rparr>)
     else if content_length q = 0 then Some (m\<lparr>is_decoding := False\<rparr>)
     else if content_length q = length (msg_body m) then Some (m\<lparr>is_decoding := False\<rparr>)
     else Some m) q"

definition OnChunkHeader :: "http_msg option http_cb" where "OnChunkHeader q = (0, q)"
definition OnChunkComplete :: "http_msg option http_cb" where "OnChunkComplete q = (0, q)"

definition http_codec_settings :: "heap \<Rightarrow> http_parser_url \<Rightarrow> string \<Rightarrow> http_msg option http_parser_settings" where
  "http_codec_settings hp stUrl rest =
     \<lparr>on_message_begin = Some OnMessageBegin, on_url = Some (OnUrl hp stUrl rest), on_status = Some OnStatus,
      on_header_field = Some OnHeaderField, on_header_value = Some OnHeaderValue,
      on_headers_complete = Some OnHeadersComplete, on_body = Some OnBody, on_message_complete = Some OnMessageComplete,
      on_chunk_header = Some OnChunkHeader, on_chunk_complete = Some OnChunkComplete\<rparr>"

subsection \<open>Decode\<close>

definition fresh_parser :: "http_msg \<Rightarrow> http_msg option http_parser" where
  "fresh_parser m = http_parser_init
     \<lparr>parser_type = HTTP_BOTH, flags = {}, state = s_dead, header_state = h_general, index = 0, nread = 0,
      content_length = 0, http_major = 0, http_minor = 0, status_code = 0, parser_method = HTTP_DELETE,
      http_errno = HPE_OK, upgrade = False, parser_data = Some m\<rparr> HTTP_BOTH"

datatype http_decoded = HOK http_msg cbuffer | HPAUSE cbuffer | HERR cbuffer

fun gunzip_headers :: "zlib \<Rightarrow> (string \<times> string) list \<Rightarrow> http_msg \<Rightarrow> http_msg option" where
  "gunzip_headers Z [] m = Some m"
| "gunzip_headers Z ((k, v) # hs) m =
     (if k = ''Content-Encoding'' \<and> v = ''gzip'' then
        (case z_gunzip Z (to_bytes (msg_body m)) of
           None \<Rightarrow> None
         | Some strData \<Rightarrow> gunzip_headers Z hs (m\<lparr>msg_body := to_chars strData\<rparr>))
      else gunzip_headers Z hs m)"

definition HttpCodec_Decode_msg ::
  "heap \<Rightarrow> zlib \<Rightarrow> http_parser_url \<Rightarrow> string \<Rightarrow> http_msg \<Rightarrow> cbuffer \<Rightarrow> http_decoded option" where
  "HttpCodec_Decode_msg hp Z stUrl rest oHttpMsg pBuff =
     (if ReadableBytes pBuff = 0 then Some (HPAUSE pBuff)
      else do {
        bs \<leftarrow> mem_read (m_buffer pBuff) (m_read_idx pBuff) (ReadableBytes pBuff);
        (uiLen, q) \<leftarrow> http_parser_execute (fresh_parser oHttpMsg) (http_codec_settings hp stUrl rest) (to_chars bs);
        m \<leftarrow> parser_data q;
        if \<not> is_decoding m then
          if http_errno q \<noteq> HPE_OK then Some (HERR pBuff)
          else let b = AdvanceReadIndex pBuff (to_int32 uiLen) in
            Some (case gunzip_headers Z (msg_headers m) m of None \<Rightarrow> HERR b | Some m \<Rightarrow> HOK m b)
        else Some (HPAUSE pBuff) })"

text \<open>The conversions of the C library: \<open>atoi\<close> is undefined if the value does not fit, \<open>strtoul\<close> is capped.\<close>

definition is_space :: "char \<Rightarrow> bool" where
  "is_space c \<longleftrightarrow> of_char c = (32 :: nat) \<or> 9 \<le> (of_char c :: nat) \<and> (of_char c :: nat) \<le> 13"

definition signed_digits :: "string \<Rightarrow> bool \<times> nat" where
  "signed_digits s =
     (let s = dropWhile is_space (c_str s);
          neg = (s \<noteq> [] \<and> hd s = CHR ''-'');
          s = (if s \<noteq> [] \<and> (hd s = CHR ''-'' \<or> hd s = CHR ''+'') then tl s else s)
      in (neg, foldl (\<lambda>v c. v * 10 + (of_char c - 48)) 0 (takeWhile IS_NUM s)))"

definition c_atoi :: "string \<Rightarrow> int option" where
  "c_atoi s = (let (neg, v) = signed_digits s; i = (if neg then - int v else int v)
     in if - (2 ^ 31) \<le> i \<and> i < 2 ^ 31 then Some i else None)"

definition c_strtoul :: "string \<Rightarrow> u64" where
  "c_strtoul s = (let (neg, v) = signed_digits s
     in if v > 2 ^ 64 - 1 then - 1 else if neg then - word_of_nat v else word_of_nat v)"

fun head_from_headers :: "(string \<times> string) list \<Rightarrow> msg_head \<Rightarrow> msg_head option" where
  "head_from_headers [] h = Some h"
| "head_from_headers ((k, v) # hs) h =
     (if k = ''x-cmd'' \<or> k = ''x-CMD'' \<or> k = ''x-Cmd'' then do {
        i \<leftarrow> c_atoi v;
        head_from_headers hs (h\<lparr>h_cmd := Some (word_of_int i)\<rparr>) }
      else if k = ''x-seq'' \<or> k = ''x-SEQ'' \<or> k = ''x-Seq'' then
        head_from_headers hs (h\<lparr>h_seq := Some (ucast (c_strtoul v))\<rparr>)
      else head_from_headers hs h)"

definition HttpCodec_Decode ::
  "'b pb \<Rightarrow> (http_msg \<Rightarrow> byte list) \<Rightarrow> heap \<Rightarrow> zlib \<Rightarrow> http_parser_url \<Rightarrow> string \<Rightarrow> msg_head \<Rightarrow> 'b \<Rightarrow> cbuffer \<Rightarrow> 'b decoded option" where
  "HttpCodec_Decode P msg_ser hp Z stUrl rest oMsgHead oMsgBody pBuff =
     (if ReadableBytes pBuff = 0 then Some (DPAUSE pBuff)
      else do {
        r \<leftarrow> HttpCodec_Decode_msg hp Z stUrl rest HttpMsg_new pBuff;
        (case r of
           HOK m b \<Rightarrow> do {
             let oMsgBody = body_set P (msg_ser m) oMsgBody;
             h \<leftarrow> head_from_headers (msg_headers m)
                    (oMsgHead\<lparr>h_msgbody_len := Some (word_of_nat (length (body_ser P oMsgBody)))\<rparr>);
             Some (DOK h oMsgBody b) }
         | HPAUSE b \<Rightarrow> Some (DPAUSE b)
         | HERR b \<Rightarrow> Some (DERR b)) })"

text \<open>The first message sets the status of the connection.\<close>

definition HttpCodec_Decode_conn ::
  "'b pb \<Rightarrow> (http_msg \<Rightarrow> byte list) \<Rightarrow> heap \<Rightarrow> zlib \<Rightarrow> http_parser_url \<Rightarrow> string \<Rightarrow> msg_head \<Rightarrow> 'b \<Rightarrow> connect_status \<times> cbuffer
     \<Rightarrow> (connect_status \<times> 'b decoded) option" where
  "HttpCodec_Decode_conn P msg_ser hp Z stUrl rest oMsgHead oMsgBody pConn = do {
     r \<leftarrow> HttpCodec_Decode P msg_ser hp Z stUrl rest oMsgHead oMsgBody (snd pConn);
     Some (if fst pConn = eConnectStatus_init then (case r of DOK _ _ _ \<Rightarrow> eConnectStatus_ok | _ \<Rightarrow> fst pConn) else fst pConn, r) }"

subsection \<open>ToString\<close>

definition u_text :: "int \<Rightarrow> string" where
  "u_text i = ConHash.decimal (nat (i mod 2 ^ 32))"

definition CRLF :: string where "CRLF = [CR, LF]"

text \<open>\<open>sprintf\<close> into an array of \<open>n\<close> characters.\<close>

definition sprintf_into :: "nat \<Rightarrow> string \<Rightarrow> string option" where
  "sprintf_into n s = (if length s < n then Some s else None)"

definition HttpCodec_ToString :: "http_msg \<Rightarrow> string option" where
  "HttpCodec_ToString m = do {
     prover \<leftarrow> sprintf_into 16 (''HTTP/'' @ u_text (msg_http_major m) @ ''.'' @ u_text (msg_http_minor m));
     start \<leftarrow>
       (if msg_type m = 0 then
          Some ((if msg_method m > 0 then method_text (msg_method m) @ '' '' else '''') @ msg_url m @ '' '' @ prover @ CRLF)
        else if msg_status_code m > 0 then do {
          tmp \<leftarrow> sprintf_into 10 ('' '' @ u_text (msg_status_code m) @ CRLF);
          Some (prover @ tmp) }
        else Some prover);
     Some (start @ concat (map (\<lambda>(k, v). k @ '':'' @ v @ CRLF) (msg_headers m)) @ CRLF
       @ (if msg_body m \<noteq> [] then msg_body m @ CRLF @ CRLF else [])) }"

subsection \<open>Encode: the parts\<close>

type_synonym header_map = "(string \<times> string) list"
type_synonym header_placing = "header_map \<Rightarrow> string \<times> string \<Rightarrow> header_map"

text \<open>A part of \<open>Encode\<close> goes on with the bytes written so far, \<open>Inr\<close>, or returns the error with the buffer, \<open>Inl\<close>.\<close>

type_synonym enc_state = "int \<times> cbuffer"
type_synonym enc_result = "(cbuffer + enc_state) option"

definition enc_then :: "enc_result \<Rightarrow> (enc_state \<Rightarrow> enc_result) \<Rightarrow> enc_result" where
  "enc_then r k = (case r of None \<Rightarrow> None | Some (Inl b) \<Rightarrow> Some (Inl b) | Some (Inr st) \<Rightarrow> k st)"

definition put_text :: "heap \<Rightarrow> string \<Rightarrow> enc_state \<Rightarrow> enc_result" where
  "put_text hp s st = do {
     (iWriteSize, b) \<leftarrow> VPrintf hp (snd st) (Some (to_bytes s));
     Some (if iWriteSize < 0 then Inl (take_back b (fst st)) else Inr (fst st + iWriteSize, b)) }"

definition put_data :: "heap \<Rightarrow> byte list \<Rightarrow> enc_state \<Rightarrow> enc_result" where
  "put_data hp bs st = do {
     (iWriteSize, b) \<leftarrow> Write hp (snd st) bs;
     Some (if iWriteSize < 0 then Inl (take_back b (fst st)) else Inr (fst st + iWriteSize, b)) }"

fun put_headers :: "heap \<Rightarrow> header_map \<Rightarrow> enc_state \<Rightarrow> enc_result" where
  "put_headers hp [] st = Some (Inr st)"
| "put_headers hp ((k, v) # hs) st =
     enc_then (put_text hp (c_str k @ '': '' @ c_str v @ CRLF) st) (put_headers hp hs)"

fun hex_digits :: "nat \<Rightarrow> string" where
  "hex_digits n = (let c = ''0123456789abcdef'' ! (n mod 16) in if n < 16 then [c] else hex_digits (n div 16) @ [c])"

declare hex_digits.simps [simp del]

text \<open>The chunks of at most 8192 bytes; each is printed as a C string.\<close>

function put_chunks :: "heap \<Rightarrow> byte list \<Rightarrow> enc_state \<Rightarrow> enc_result" where
  "put_chunks hp data st =
     (if data = [] then Some (Inr st)
      else let chunk = take 8192 data in
        enc_then (put_text hp (hex_digits (length chunk) @ CRLF) st) (\<lambda>st.
          enc_then (put_text hp (c_str (to_chars chunk) @ CRLF) st) (put_chunks hp (drop 8192 data))))"
  by pat_completeness auto
termination by (relation "measure (\<lambda>(_, data, _). length data)") auto

declare put_chunks.simps [simp del]

definition put_message_body :: "heap \<Rightarrow> zlib \<Rightarrow> http_msg \<Rightarrow> bool \<Rightarrow> bool \<Rightarrow> enc_state \<Rightarrow> enc_result" where
  "put_message_body hp Z m bIsChunked bIsGzip st =
     (if msg_body m \<noteq> [] then
        (case (if bIsGzip then z_gzip Z (to_bytes (msg_body m)) else Some []) of
           None \<Rightarrow> Some (Inl (take_back (snd st) (fst st)))
         | Some strGzipData \<Rightarrow>
             let data = (if strGzipData \<noteq> [] then strGzipData else to_bytes (msg_body m)) in
             if bIsChunked then
               enc_then (if msg_encoding m = 0 then put_text hp CRLF st else Some (Inr (0, take_back (snd st) (fst st)))) (\<lambda>st.
                 enc_then (put_text hp (hex_digits (length data) @ CRLF) st) (put_data hp data))
             else if length data > 8192 then
               enc_then (put_text hp (''Transfer-Encoding: chunked'' @ CRLF @ CRLF) st) (\<lambda>st.
                 enc_then (put_chunks hp data st) (put_text hp (''0'' @ CRLF @ CRLF)))
             else
               enc_then (put_text hp (''Content-Length: '' @ ConHash.decimal (length data) @ CRLF @ CRLF) st) (put_data hp data))
      else if bIsChunked then
        enc_then (if msg_encoding m = 0 then put_text hp CRLF st else Some (Inr (fst st, take_back (snd st) (fst st))))
          (put_text hp (''0'' @ CRLF @ CRLF))
      else put_text hp (''Content-Length: 0'' @ CRLF @ CRLF) st)"

definition map_insert_at :: "header_placing \<Rightarrow> string \<Rightarrow> string \<Rightarrow> header_map \<Rightarrow> header_map" where
  "map_insert_at place k v mp = (if map_of mp k = None then place mp (k, v) else mp)"

text \<open>The headers of the message: into the table, and whether they ask for gzip or chunks.\<close>

definition merge_header :: "header_placing \<Rightarrow> header_map \<times> bool \<times> bool \<Rightarrow> string \<times> string \<Rightarrow> header_map \<times> bool \<times> bool" where
  "merge_header place acc kv =
     (case (acc, kv) of ((mp, bIsGzip, bIsChunked), (k, v)) \<Rightarrow>
       (if k \<noteq> ''Content-Length'' then (if map_of mp k = None then place mp (k, v) else strmap_assign k v mp) else mp,
        bIsGzip \<or> k = ''Content-Encoding'' \<and> v = ''gzip'',
        bIsChunked \<or> k = ''Transfer-Encoding'' \<and> v = ''chunked''))"

subsection \<open>Encode\<close>

definition std_substr :: "string \<Rightarrow> nat \<Rightarrow> nat \<Rightarrow> string option" where
  "std_substr s off len = (if off \<le> length s then Some (take len (drop off s)) else None)"

definition version_text :: "http_msg \<Rightarrow> string" where
  "version_text m = ''HTTP/'' @ u_text (msg_http_major m) @ ''.'' @ u_text (msg_http_minor m)"

text \<open>The request line and the host; \<open>Some (Inl b)\<close> also if the URL is not accepted.\<close>

definition put_request :: "heap \<Rightarrow> http_parser_url \<Rightarrow> http_msg \<Rightarrow> enc_state \<Rightarrow> enc_result" where
  "put_request hp stUrl m st =
     (if msg_method m = 0 \<or> msg_url m = [] then Some (Inl (snd st))
      else do {
        (r, u) \<leftarrow> http_parser_parse_url (msg_url m) [CHR 0x00] False stUrl;
        if r \<noteq> 0 then Some (Inl (snd st))
        else do {
          let iPort = (if UF_PORT \<in> field_set u then port u else 80);
          strHost \<leftarrow> (if UF_HOST \<in> field_set u then std_substr (msg_url m) (field_off u UF_HOST) (field_len u UF_HOST) else Some []);
          strPath \<leftarrow> (if UF_PATH \<in> field_set u then std_substr (msg_url m) (field_off u UF_PATH) (field_len u UF_PATH) else Some []);
          let target = (if strPath \<noteq> [] then strPath else msg_url m);
          enc_then (put_text hp (method_text (msg_method m) @ '' '' @ c_str target @ '' '' @ version_text m @ CRLF) st)
            (put_text hp (''Host: '' @ c_str strHost @ '':'' @ ConHash.decimal iPort @ CRLF)) } })"

definition put_status :: "heap \<Rightarrow> http_msg \<Rightarrow> enc_state \<Rightarrow> enc_result" where
  "put_status hp m st =
     (if msg_status_code m = 0 then Some (Inl (take_back (snd st) (fst st)))
      else do {
        str \<leftarrow> status_string (msg_status_code m);
        put_text hp (version_text m @ '' '' @ u_text (msg_status_code m) @ '' '' @ str @ CRLF) st })"

definition response_headers :: "header_placing \<Rightarrow> http_msg \<Rightarrow> header_map \<Rightarrow> header_map" where
  "response_headers place m mp =
     map_insert_at place ''Allow'' ''POST,GET''
       (map_insert_at place ''Content-Type'' ''application/json;charset=UTF-8''
         (map_insert_at place ''Server'' ''StarHttp''
           (map_insert_at place ''Connection''
             (if msg_http_major m < 1 \<or> msg_http_major m = 1 \<and> msg_http_minor m < 1 then ''close'' else ''keep-alive'') mp)))"

definition HttpCodec_Encode_msg ::
  "(http_msg \<Rightarrow> byte list) \<Rightarrow> header_placing \<Rightarrow> heap \<Rightarrow> zlib \<Rightarrow> http_parser_url \<Rightarrow> http_msg \<Rightarrow> header_map \<Rightarrow> cbuffer
     \<Rightarrow> (codec_status \<times> header_map \<times> cbuffer) option" where
  "HttpCodec_Encode_msg msg_ser place hp Z stUrl oHttpMsg m_mapAddingHttpHeader pBuff =
     (if length (msg_ser oHttpMsg) > 64000000 then Some (CODEC_STATUS_ERR, m_mapAddingHttpHeader, pBuff)
      else if msg_http_major oHttpMsg = 0 \<and> msg_http_minor oHttpMsg = 0 then Some (CODEC_STATUS_ERR, [], pBuff)
      else do {
        r \<leftarrow> enc_then
          (if msg_type oHttpMsg = 0 then put_request hp stUrl oHttpMsg (0, pBuff)
           else if msg_type oHttpMsg = 1 then put_status hp oHttpMsg (0, pBuff)
           else Some (Inr (0, pBuff)))
          (\<lambda>st.
             let mp = (if msg_type oHttpMsg = 1 then response_headers place oHttpMsg m_mapAddingHttpHeader else m_mapAddingHttpHeader);
                 (mp, bIsGzip, bIsChunked) = foldl (merge_header place) (mp, False, False) (msg_headers oHttpMsg) in
             enc_then (put_headers hp mp st)
               (put_message_body hp Z oHttpMsg (bIsChunked \<or> (''Transfer-Encoding'', ''chunked'') \<in> set mp) bIsGzip));
        (case r of
           Inl b \<Rightarrow> Some (CODEC_STATUS_ERR, [], b)
         | Inr (_, b) \<Rightarrow> do {
             (iWriteSize, b) \<leftarrow> WriteByte hp b 0;
             Some (CODEC_STATUS_OK, [], take_back b iWriteSize) }) })"

definition AddHttpHeader :: "header_placing \<Rightarrow> string \<Rightarrow> string \<Rightarrow> header_map \<Rightarrow> header_map" where
  "AddHttpHeader place strHeaderName strHeaderValue mp = map_insert_at place strHeaderName strHeaderValue mp"

definition HttpCodec_Encode ::
  "('b \<Rightarrow> byte list) \<Rightarrow> (byte list \<Rightarrow> http_msg option) \<Rightarrow> (http_msg \<Rightarrow> byte list) \<Rightarrow> header_placing \<Rightarrow> heap \<Rightarrow> zlib \<Rightarrow> http_parser_url
     \<Rightarrow> msg_head \<Rightarrow> 'b \<Rightarrow> header_map \<Rightarrow> cbuffer \<Rightarrow> (codec_status \<times> header_map \<times> cbuffer) option" where
  "HttpCodec_Encode body_of msg_parse msg_ser place hp Z stUrl oMsgHead oMsgBody mp pBuff =
     (case msg_parse (body_of oMsgBody) of
        None \<Rightarrow> Some (CODEC_STATUS_ERR, mp, pBuff)
      | Some m \<Rightarrow>
          HttpCodec_Encode_msg msg_ser place hp Z stUrl
            (m\<lparr>msg_headers := msg_headers m @ [(''x-cmd'', ConHash.decimal (unat (field (h_cmd oMsgHead)))),
                                              (''x-seq'', ConHash.decimal (unat (field (h_seq oMsgHead))))]\<rparr>) mp pBuff)"

subsection \<open>What a part of Encode appends\<close>

definition room :: "heap \<Rightarrow> cbuffer \<Rightarrow> nat \<Rightarrow> bool" where
  "room hp b n \<longleftrightarrow> fst hp = (\<lambda>_. True) \<and> recv_ok b \<and> m_write_idx b + 2 * n + 64 < 2 ^ 30"

definition puts :: "heap \<Rightarrow> (enc_state \<Rightarrow> enc_result) \<Rightarrow> byte list \<Rightarrow> bool" where
  "puts hp k t \<longleftrightarrow> (\<forall>had b. room hp b (length t) \<longrightarrow>
     (\<exists>had' b'. k (had, b) = Some (Inr (had', b')) \<and> recv_ok b' \<and> cb_data b' = cb_data b @ t
        \<and> m_write_idx b' \<le> m_write_idx b + length t))"

lemma putsD:
  assumes "puts hp k t" "room hp b (length t)"
  obtains had' b' where "k (had, b) = Some (Inr (had', b'))" "recv_ok b'" "cb_data b' = cb_data b @ t" "m_write_idx b' \<le> m_write_idx b + length t"
  using assms unfolding puts_def by blast

lemma puts_nothing: "puts hp (\<lambda>st. Some (Inr st)) []"
  by (simp add: puts_def room_def)

lemma puts_then:
  assumes "puts hp k1 t1" "puts hp k2 t2"
  shows "puts hp (\<lambda>st. enc_then (k1 st) k2) (t1 @ t2)"
  unfolding puts_def
proof (intro allI impI)
  fix had b assume r: "room hp b (length (t1 @ t2))"
  then have "room hp b (length t1)" by (simp add: room_def)
  from putsD [OF assms(1) this] obtain h1 b1 where b1: "k1 (had, b) = Some (Inr (h1, b1))" "recv_ok b1"
    "cb_data b1 = cb_data b @ t1" "m_write_idx b1 \<le> m_write_idx b + length t1" .
  then have "room hp b1 (length t2)" using r by (simp add: room_def)
  from putsD [OF assms(2) this] obtain h2 b2 where "k2 (h1, b1) = Some (Inr (h2, b2))" "recv_ok b2"
    "cb_data b2 = cb_data b1 @ t2" "m_write_idx b2 \<le> m_write_idx b1 + length t2" .
  with b1 show "\<exists>had' b'. enc_then (k1 (had, b)) k2 = Some (Inr (had', b')) \<and> recv_ok b' \<and> cb_data b' = cb_data b @ t1 @ t2
      \<and> m_write_idx b' \<le> m_write_idx b + length (t1 @ t2)" by (auto simp: enc_then_def)
qed

lemma puts_data: "puts hp (put_data hp t) t"
  unfolding puts_def
proof (intro allI impI)
  fix had b assume "room hp b (length t)"
  then have "fst hp = (\<lambda>_. True)" "recv_ok b" "m_write_idx b + length t < 2 ^ 30" by (simp_all add: room_def)
  from Write_success [OF this] show "\<exists>had' b'. put_data hp t (had, b) = Some (Inr (had', b')) \<and> recv_ok b' \<and> cb_data b' = cb_data b @ t
      \<and> m_write_idx b' \<le> m_write_idx b + length t" by (auto simp: put_data_def)
qed

lemma VPrintf_loop_store:
  assumes "recv_ok b" "length s < WriteableBytes b" "m_write_idx b + length s < 2 ^ 30"
  shows "\<exists>b'. VPrintf_loop hp s b r = Some (r + int (length s), b') \<and> recv_ok b' \<and> cb_data b' = cb_data b @ s
    \<and> m_write_idx b' = m_write_idx b + length s"
proof -
  have inv: "cb_inv b" using assms(1) by (simp add: recv_ok_def)
  obtain m where m: "vsnprintf_store (m_buffer b) (m_write_idx b) (WriteableBytes b) s = Some m"
    "length m = length (m_buffer b)" "cb_data (b\<lparr>m_buffer := m, m_write_idx := m_write_idx b + length s\<rparr>) = cb_data b @ s"
    using vsnprintf_store_ok [OF inv] assms(2) by blast
  have "VPrintf_loop hp s b r = Some (r + int (length s), b\<lparr>m_buffer := m, m_write_idx := m_write_idx b + length s\<rparr>)"
    using m assms(2,3) by (subst VPrintf_loop.simps) (simp add: AdvanceWriteIndex_def)
  moreover have "recv_ok (b\<lparr>m_buffer := m, m_write_idx := m_write_idx b + length s\<rparr>)"
    using inv assms(1,2) m(2) by (auto simp: recv_ok_def cb_inv_def WriteableBytes_inv Capacity_def)
  ultimately show ?thesis using m(3) by auto
qed

lemma EnsureWritableBytes_success:
  assumes "fst hp = (\<lambda>_. True)" "recv_ok b" "m_write_idx b + n < 2 ^ 30"
  shows "\<exists>b'. EnsureWritableBytes hp b n = Some (True, b') \<and> recv_ok b' \<and> cb_data b' = cb_data b
    \<and> m_write_idx b' \<le> m_write_idx b \<and> n \<le> WriteableBytes b'"
proof -
  have inv: "cb_inv b" "Capacity b < 2 ^ 31" using assms(2) by (simp_all add: recv_ok_def)
  obtain ok b' where b': "EnsureWritableBytes hp b n = Some (ok, b')" "cb_inv b'" "cb_data b' = cb_data b"
    "m_write_idx b' \<le> m_write_idx b" "if ok then n \<le> WriteableBytes b' else b' = b"
    using EnsureWritableBytes_ok [OF inv(1), of n hp] assms(3) by auto
  with EnsureWritableBytes_total [OF assms(1) inv(2) assms(3) b'(1)] show ?thesis by (auto simp: recv_ok_def)
qed

lemma VPrintf_success:
  assumes "fst hp = (\<lambda>_. True)" "recv_ok b" "m_write_idx b + 2 * length s + 64 < 2 ^ 30"
  shows "\<exists>r b'. VPrintf hp b (Some s) = Some (r, b') \<and> 0 \<le> r \<and> recv_ok b' \<and> cb_data b' = cb_data b @ s
    \<and> m_write_idx b' \<le> m_write_idx b + length s"
proof -
  obtain b1 where b1: "EnsureWritableBytes hp b 64 = Some (True, b1)" "recv_ok b1" "cb_data b1 = cb_data b"
    "m_write_idx b1 \<le> m_write_idx b" "64 \<le> WriteableBytes b1"
    using EnsureWritableBytes_success [OF assms(1,2), of 64] assms(3) by auto
  show ?thesis
  proof (cases "length s < WriteableBytes b1")
    case True
    from VPrintf_loop_store [OF b1(2) True, of hp 0] b1 assms(3) show ?thesis by (auto simp: VPrintf_def)
  next
    case False
    have inv1: "cb_inv b1" using b1(2) by (simp add: recv_ok_def)
    obtain m where m: "vsnprintf_store (m_buffer b1) (m_write_idx b1) (WriteableBytes b1) s = Some m"
      "length m = length (m_buffer b1)" "cb_data (b1\<lparr>m_buffer := m\<rparr>) = cb_data b1"
      using vsnprintf_store_ok [OF inv1] by blast
    have r2: "recv_ok (b1\<lparr>m_buffer := m\<rparr>)" using b1(2) m(2) by (simp add: recv_ok_def cb_inv_def Capacity_def)
    obtain b3 where b3: "EnsureWritableBytes hp (b1\<lparr>m_buffer := m\<rparr>) (2 * length s) = Some (True, b3)" "recv_ok b3"
      "cb_data b3 = cb_data b1" "m_write_idx b3 \<le> m_write_idx b1" "2 * length s \<le> WriteableBytes b3"
      using EnsureWritableBytes_success [OF assms(1) r2, of "2 * length s"] assms(3) b1(4) m(3) by auto
    have "length s < WriteableBytes b3" using b3(5) False b1(5) by simp
    from VPrintf_loop_store [OF b3(2) this, of hp "int (length s)"] b3(3,4) b1(3,4) assms(3)
    obtain b' where "VPrintf_loop hp s b3 (int (length s)) = Some (int (length s) + int (length s), b')" "recv_ok b'"
      "cb_data b' = cb_data b @ s" "m_write_idx b' \<le> m_write_idx b + length s" by auto
    moreover have "VPrintf_loop hp s b1 0 = VPrintf_loop hp s b3 (int (length s))"
      using m(1) False assms(3) b3(1) by (subst VPrintf_loop.simps) simp
    ultimately show ?thesis using b1(1) by (auto simp: VPrintf_def)
  qed
qed

lemma length_to_bytes [simp]: "length (to_bytes s) = length s"
  by (simp add: to_bytes_def)

lemma puts_text: "puts hp (put_text hp s) (to_bytes s)"
  unfolding puts_def
proof (intro allI impI)
  fix had b assume "room hp b (length (to_bytes s))"
  then have "fst hp = (\<lambda>_. True)" "recv_ok b" "m_write_idx b + 2 * length (to_bytes s) + 64 < 2 ^ 30" by (simp_all add: room_def)
  from VPrintf_success [OF this] show "\<exists>had' b'. put_text hp s (had, b) = Some (Inr (had', b')) \<and> recv_ok b'
      \<and> cb_data b' = cb_data b @ to_bytes s \<and> m_write_idx b' \<le> m_write_idx b + length (to_bytes s)" by (auto simp: put_text_def)
qed

subsection \<open>The text of a message\<close>

definition header_text :: "header_map \<Rightarrow> string" where
  "header_text mp = concat (map (\<lambda>(k, v). c_str k @ '': '' @ c_str v @ CRLF) mp)"

function chunk_text :: "byte list \<Rightarrow> byte list" where
  "chunk_text data = (if data = [] then []
     else to_bytes (hex_digits (length (take 8192 data)) @ CRLF) @ to_bytes (c_str (to_chars (take 8192 data)) @ CRLF) @ chunk_text (drop 8192 data))"
  by pat_completeness auto
termination by (relation "measure length") auto

declare chunk_text.simps [simp del]

definition body_text :: "zlib \<Rightarrow> http_msg \<Rightarrow> bool \<Rightarrow> bool \<Rightarrow> byte list option" where
  "body_text Z m chunked gz =
     (if msg_body m = [] then
        Some (to_bytes (if chunked then CRLF @ ''0'' @ CRLF @ CRLF else ''Content-Length: 0'' @ CRLF @ CRLF))
      else map_option
        (\<lambda>zipped. let data = (if zipped \<noteq> [] then zipped else to_bytes (msg_body m)) in
           if chunked then to_bytes (CRLF @ hex_digits (length data) @ CRLF) @ data
           else if length data > 8192
           then to_bytes (''Transfer-Encoding: chunked'' @ CRLF @ CRLF) @ chunk_text data @ to_bytes (''0'' @ CRLF @ CRLF)
           else to_bytes (''Content-Length: '' @ ConHash.decimal (length data) @ CRLF @ CRLF) @ data)
        (if gz then z_gzip Z (to_bytes (msg_body m)) else Some []))"

definition request_text :: "http_parser_url \<Rightarrow> http_msg \<Rightarrow> string option" where
  "request_text stUrl m =
     (if msg_method m = 0 \<or> msg_url m = [] then None
      else do {
        (r, u) \<leftarrow> http_parser_parse_url (msg_url m) [CHR 0x00] False stUrl;
        if r \<noteq> 0 then None
        else do {
          host \<leftarrow> (if UF_HOST \<in> field_set u then std_substr (msg_url m) (field_off u UF_HOST) (field_len u UF_HOST) else Some []);
          path \<leftarrow> (if UF_PATH \<in> field_set u then std_substr (msg_url m) (field_off u UF_PATH) (field_len u UF_PATH) else Some []);
          Some (method_text (msg_method m) @ '' '' @ c_str (if path \<noteq> [] then path else msg_url m) @ '' '' @ version_text m @ CRLF
            @ ''Host: '' @ c_str host @ '':'' @ ConHash.decimal (if UF_PORT \<in> field_set u then port u else 80) @ CRLF) } })"

definition start_text :: "http_parser_url \<Rightarrow> http_msg \<Rightarrow> string option" where
  "start_text stUrl m =
     (if msg_type m = 0 then request_text stUrl m
      else if msg_type m = 1 then
        if msg_status_code m = 0 then None
        else map_option (\<lambda>s. version_text m @ '' '' @ u_text (msg_status_code m) @ '' '' @ s @ CRLF) (status_string (msg_status_code m))
      else Some [])"

text \<open>The complete text: start line, the headers of the table with those of the message, and the body.\<close>

definition http_text :: "header_placing \<Rightarrow> zlib \<Rightarrow> http_parser_url \<Rightarrow> http_msg \<Rightarrow> header_map \<Rightarrow> byte list option" where
  "http_text place Z stUrl m mp = do {
     start \<leftarrow> start_text stUrl m;
     let (mp, gz, chunked) = foldl (merge_header place) (if msg_type m = 1 then response_headers place m mp else mp, False, False) (msg_headers m);
     body \<leftarrow> body_text Z m (chunked \<or> (''Transfer-Encoding'', ''chunked'') \<in> set mp) gz;
     Some (to_bytes (start @ header_text mp) @ body) }"

lemma to_bytes_append [simp]: "to_bytes (s @ t) = to_bytes s @ to_bytes t"
  by (simp add: to_bytes_def)

lemma to_bytes_Nil [simp]: "to_bytes [] = []"
  by (simp add: to_bytes_def)

lemma to_bytes_Cons [simp]: "to_bytes (c # s) = word_of_nat (of_char c) # to_bytes s"
  by (simp add: to_bytes_def)

lemma puts_headers: "puts hp (put_headers hp mp) (to_bytes (header_text mp))"
proof (induction mp)
  case Nil
  then show ?case using puts_nothing [of hp] by (simp add: header_text_def puts_def)
next
  case (Cons kv mp)
  obtain k v where kv: "kv = (k, v)" by force
  have "puts hp (\<lambda>st. enc_then (put_text hp (c_str k @ '': '' @ c_str v @ CRLF) st) (put_headers hp mp))
      (to_bytes (c_str k @ '': '' @ c_str v @ CRLF) @ to_bytes (header_text mp))" by (rule puts_then [OF puts_text Cons.IH])
  moreover have "put_headers hp (kv # mp) = (\<lambda>st. enc_then (put_text hp (c_str k @ '': '' @ c_str v @ CRLF) st) (put_headers hp mp))"
    by (rule ext) (simp add: kv)
  moreover have "to_bytes (header_text (kv # mp)) = to_bytes (c_str k @ '': '' @ c_str v @ CRLF) @ to_bytes (header_text mp)"
    by (simp add: kv header_text_def)
  ultimately show ?case by simp
qed

lemma puts_chunks: "puts hp (put_chunks hp data) (chunk_text data)"
proof (induction data rule: chunk_text.induct)
  case (1 data)
  show ?case
  proof (cases "data = []")
    case True
    then show ?thesis using puts_nothing [of hp] by (simp add: puts_def chunk_text.simps [of "[]"] put_chunks.simps [of _ "[]"])
  next
    case False
    let ?c = "take 8192 data"
    have "puts hp (\<lambda>st. enc_then (put_text hp (hex_digits (length ?c) @ CRLF) st) (\<lambda>st.
          enc_then (put_text hp (c_str (to_chars ?c) @ CRLF) st) (put_chunks hp (drop 8192 data))))
        (to_bytes (hex_digits (length ?c) @ CRLF) @ to_bytes (c_str (to_chars ?c) @ CRLF) @ chunk_text (drop 8192 data))"
      by (rule puts_then [OF puts_text puts_then [OF puts_text 1 [OF False]]])
    moreover have "put_chunks hp data = (\<lambda>st. enc_then (put_text hp (hex_digits (length ?c) @ CRLF) st) (\<lambda>st.
          enc_then (put_text hp (c_str (to_chars ?c) @ CRLF) st) (put_chunks hp (drop 8192 data))))"
      using False by (intro ext) (subst put_chunks.simps, simp add: Let_def)
    ultimately show ?thesis using False by (simp only: chunk_text.simps [of data] if_False)
  qed
qed

lemma puts_body:
  assumes "body_text Z m chunked gz = Some t" "chunked \<longrightarrow> msg_encoding m = 0"
  shows "puts hp (put_message_body hp Z m chunked gz) t"
proof (cases "msg_body m = []")
  case True
  have a: "puts hp (\<lambda>st. enc_then (put_text hp CRLF st) (put_text hp (''0'' @ CRLF @ CRLF))) (to_bytes CRLF @ to_bytes (''0'' @ CRLF @ CRLF))"
    by (rule puts_then [OF puts_text puts_text])
  have p: "put_message_body hp Z m chunked gz = (if chunked then (\<lambda>st. enc_then (put_text hp CRLF st) (put_text hp (''0'' @ CRLF @ CRLF)))
      else put_text hp (''Content-Length: 0'' @ CRLF @ CRLF))"
    using True assms(2) by (intro ext) (simp add: put_message_body_def)
  have "t = (if chunked then to_bytes CRLF @ to_bytes (''0'' @ CRLF @ CRLF) else to_bytes (''Content-Length: 0'' @ CRLF @ CRLF))"
    using True assms(1) by (auto simp: body_text_def)
  then show ?thesis unfolding p using a puts_text [of hp "''Content-Length: 0'' @ CRLF @ CRLF"] by (cases chunked) simp_all
next
  case False
  then obtain zipped where z: "(if gz then z_gzip Z (to_bytes (msg_body m)) else Some []) = Some zipped"
    using assms(1) by (auto simp: body_text_def)
  let ?d = "if zipped \<noteq> [] then zipped else to_bytes (msg_body m)"
  note pieces = puts_then [OF puts_text puts_then [OF puts_text puts_data]] puts_then [OF puts_text puts_then [OF puts_chunks puts_text]]
    puts_then [OF puts_text puts_data]
  have c: "puts hp (\<lambda>st. enc_then (put_text hp CRLF st) (\<lambda>st. enc_then (put_text hp (hex_digits (length ?d) @ CRLF) st) (put_data hp ?d)))
      (to_bytes CRLF @ to_bytes (hex_digits (length ?d) @ CRLF) @ ?d)" by (rule pieces)
  have l: "puts hp (\<lambda>st. enc_then (put_text hp (''Transfer-Encoding: chunked'' @ CRLF @ CRLF) st)
        (\<lambda>st. enc_then (put_chunks hp ?d st) (put_text hp (''0'' @ CRLF @ CRLF))))
      (to_bytes (''Transfer-Encoding: chunked'' @ CRLF @ CRLF) @ chunk_text ?d @ to_bytes (''0'' @ CRLF @ CRLF))" by (rule pieces)
  have s: "puts hp (\<lambda>st. enc_then (put_text hp (''Content-Length: '' @ ConHash.decimal (length ?d) @ CRLF @ CRLF) st) (put_data hp ?d))
      (to_bytes (''Content-Length: '' @ ConHash.decimal (length ?d) @ CRLF @ CRLF) @ ?d)" by (rule pieces)
  have "put_message_body hp Z m chunked gz = (\<lambda>st.
      if chunked then enc_then (put_text hp CRLF st) (\<lambda>st. enc_then (put_text hp (hex_digits (length ?d) @ CRLF) st) (put_data hp ?d))
      else if length ?d > 8192 then enc_then (put_text hp (''Transfer-Encoding: chunked'' @ CRLF @ CRLF) st)
        (\<lambda>st. enc_then (put_chunks hp ?d st) (put_text hp (''0'' @ CRLF @ CRLF)))
      else enc_then (put_text hp (''Content-Length: '' @ ConHash.decimal (length ?d) @ CRLF @ CRLF) st) (put_data hp ?d))"
    using False z assms(2) by (simp add: put_message_body_def Let_def fun_eq_iff)
  moreover have "t = (if chunked then to_bytes CRLF @ to_bytes (hex_digits (length ?d) @ CRLF) @ ?d
      else if length ?d > 8192 then to_bytes (''Transfer-Encoding: chunked'' @ CRLF @ CRLF) @ chunk_text ?d @ to_bytes (''0'' @ CRLF @ CRLF)
      else to_bytes (''Content-Length: '' @ ConHash.decimal (length ?d) @ CRLF @ CRLF) @ ?d)"
    using False z assms(1) by (simp add: body_text_def Let_def split: if_splits)
  ultimately show ?thesis using c l s by (cases chunked; cases "length ?d > 8192") simp_all
qed

lemma puts_start:
  assumes "start_text stUrl m = Some s"
  shows "puts hp (\<lambda>st. if msg_type m = 0 then put_request hp stUrl m st else if msg_type m = 1 then put_status hp m st else Some (Inr st)) (to_bytes s)"
proof -
  consider (req) "msg_type m = 0" | (rsp) "msg_type m = 1" | (other) "msg_type m \<noteq> 0" "msg_type m \<noteq> 1" by blast
  then show ?thesis
  proof cases
    case req
    then obtain u host path where u: "msg_method m \<noteq> 0" "msg_url m \<noteq> []" "http_parser_parse_url (msg_url m) [CHR 0x00] False stUrl = Some (0, u)"
      "(if UF_HOST \<in> field_set u then std_substr (msg_url m) (field_off u UF_HOST) (field_len u UF_HOST) else Some []) = Some host"
      "(if UF_PATH \<in> field_set u then std_substr (msg_url m) (field_off u UF_PATH) (field_len u UF_PATH) else Some []) = Some path"
      "s = method_text (msg_method m) @ '' '' @ c_str (if path \<noteq> [] then path else msg_url m) @ '' '' @ version_text m @ CRLF
            @ ''Host: '' @ c_str host @ '':'' @ ConHash.decimal (if UF_PORT \<in> field_set u then port u else 80) @ CRLF"
      using assms by (auto simp: start_text_def request_text_def split: if_splits bind_splits)
    let ?l = "method_text (msg_method m) @ '' '' @ c_str (if path \<noteq> [] then path else msg_url m) @ '' '' @ version_text m @ CRLF"
    let ?h = "''Host: '' @ c_str host @ '':'' @ ConHash.decimal (if UF_PORT \<in> field_set u then port u else 80) @ CRLF"
    have "put_request hp stUrl m = (\<lambda>st. enc_then (put_text hp ?l st) (put_text hp ?h))"
      using u(1,2,3) u(4,5) by (intro ext) (simp add: put_request_def Let_def)
    moreover have "to_bytes s = to_bytes ?l @ to_bytes ?h" using u(6) by simp
    moreover have "puts hp (\<lambda>st. enc_then (put_text hp ?l st) (put_text hp ?h)) (to_bytes ?l @ to_bytes ?h)"
      by (rule puts_then [OF puts_text puts_text])
    ultimately show ?thesis using req by simp
  next
    case rsp
    then obtain str where "msg_status_code m \<noteq> 0" "status_string (msg_status_code m) = Some str"
      "s = version_text m @ '' '' @ u_text (msg_status_code m) @ '' '' @ str @ CRLF"
      using assms by (auto simp: start_text_def split: if_splits)
    then have "put_status hp m = put_text hp s" by (intro ext) (simp add: put_status_def)
    then show ?thesis using rsp puts_text [of hp s] by simp
  next
    case other
    then show ?thesis using assms puts_nothing [of hp] by (simp add: start_text_def)
  qed
qed

lemma take_back_last:
  assumes "recv_ok b" "m_write_idx b + 1 < 2 ^ 30" "fst hp = (\<lambda>_. True)"
  shows "\<exists>b'. WriteByte hp b 0 = Some (1, b') \<and> cb_data (take_back b' 1) = cb_data b"
proof -
  obtain b' where b': "Write hp b [0] = Some (1, b')" "recv_ok b'" "cb_data b' = cb_data b @ [0]" "m_write_idx b' \<le> m_write_idx b + 1"
    using Write_success [OF assms(3,1), of "[0]"] assms(2) by auto
  have inv: "cb_inv b'" using b'(2) by (simp add: recv_ok_def)
  have pos: "m_read_idx b' < m_write_idx b'"
    using length_cb_data [OF inv] b'(3) inv by (auto simp: ReadableBytes_inv cb_inv_def)
  then have "size_add_int (m_write_idx b') (-1) = m_write_idx b' - 1"
    using b'(4) assms(2) by (simp add: size_add_int_def nat_diff_distrib')
  then have "cb_data (take_back b' 1) = segment (m_read_idx b') (m_write_idx b' - 1) (m_buffer b')"
    by (simp add: take_back_def SetWriteIndex_def cb_data_def)
  also have "\<dots> = butlast (cb_data b')"
    using pos inv butlast_take [of "m_write_idx b' - m_read_idx b'" "drop (m_read_idx b') (m_buffer b')"]
    by (simp add: cb_data_def segment_def cb_inv_def diff_le_mono)
  finally show ?thesis using b'(1,3) by (simp add: WriteByte_def)
qed

lemma Encode_msg_text:
  assumes t: "http_text place Z stUrl m mp = Some t" and m: "length (msg_ser m) \<le> 64000000"
    "msg_http_major m \<noteq> 0 \<or> msg_http_minor m \<noteq> 0" and r: "room hp b (length t + 1)"
    and enc: "\<And>mp' gz ch. foldl (merge_header place) (if msg_type m = 1 then response_headers place m mp else mp, False, False) (msg_headers m) = (mp', gz, ch) \<Longrightarrow>
      ch \<or> (''Transfer-Encoding'', ''chunked'') \<in> set mp' \<Longrightarrow> msg_encoding m = 0"
  shows "\<exists>b'. HttpCodec_Encode_msg msg_ser place hp Z stUrl m mp b = Some (CODEC_STATUS_OK, [], b') \<and> cb_data b' = cb_data b @ t"
proof -
  let ?mp0 = "if msg_type m = 1 then response_headers place m mp else mp"
  obtain mp' gz ch where f: "foldl (merge_header place) (?mp0, False, False) (msg_headers m) = (mp', gz, ch)"
    by (cases "foldl (merge_header place) (?mp0, False, False) (msg_headers m)") auto
  let ?c = "ch \<or> (''Transfer-Encoding'', ''chunked'') \<in> set mp'"
  obtain start body where s: "start_text stUrl m = Some start" "body_text Z m ?c gz = Some body"
    "t = to_bytes start @ to_bytes (header_text mp') @ body"
    using t f by (auto simp: http_text_def Let_def split: bind_splits)
  let ?st = "\<lambda>st. if msg_type m = 0 then put_request hp stUrl m st else if msg_type m = 1 then put_status hp m st else Some (Inr st)"
  let ?rest = "\<lambda>st. enc_then (put_headers hp mp' st) (put_message_body hp Z m ?c gz)"
  have all: "puts hp (\<lambda>st. enc_then (?st st) ?rest) t" unfolding s(3)
    by (rule puts_then [OF puts_start [OF s(1)] puts_then [OF puts_headers puts_body [OF s(2)]]]) (use enc [OF f] in blast)
  have "room hp b (length t)" using r by (simp add: room_def)
  from putsD [OF all this] obtain had b1 where b1: "enc_then (?st (0, b)) ?rest = Some (Inr (had, b1))" "recv_ok b1"
    "cb_data b1 = cb_data b @ t" "m_write_idx b1 \<le> m_write_idx b + length t" .
  have "m_write_idx b1 + 1 < 2 ^ 30" "fst hp = (\<lambda>_. True)" using r b1(4) by (simp_all add: room_def)
  from take_back_last [OF b1(2) this] obtain b2 where b2: "WriteByte hp b1 0 = Some (1, b2)" "cb_data (take_back b2 1) = cb_data b1" by blast
  have "HttpCodec_Encode_msg msg_ser place hp Z stUrl m mp b = Some (CODEC_STATUS_OK, [], take_back b2 1)"
    using b1(1) b2(1) m f by (auto simp: HttpCodec_Encode_msg_def)
  then show ?thesis using b2(2) b1(3) by simp
qed

text \<open>
  \<open>Encode\<close> appends exactly the text of the message to the buffer and empties the table of added headers: the
  request line with the host, or the status line; the headers of the table, with those that a response gets and those of the message, and the body
  with its length, in chunks if it is longer than 8192 bytes, compressed if a header asks for it.  This holds if the version is not 0.0, the text
  exists (the URL is accepted, the status code is known, the body can be compressed), and there is room.
\<close>

theorem http_encode_text:
  assumes "http_text place Z stUrl m mp = Some t" "msg_encoding m = 0" "length (msg_ser m) \<le> 64000000"
    "msg_http_major m \<noteq> 0 \<or> msg_http_minor m \<noteq> 0" "room hp b (length t + 1)"
  shows "\<exists>b'. HttpCodec_Encode_msg msg_ser place hp Z stUrl m mp b = Some (CODEC_STATUS_OK, [], b') \<and> cb_data b' = cb_data b @ t"
  by (rule Encode_msg_text [where msg_ser = msg_ser, OF assms(1,3,4,5)]) (rule assms(2))

definition sample_reply :: http_msg where
  "sample_reply = HttpMsg_new\<lparr>msg_type := 1, msg_status_code := 200, msg_http_major := 1, msg_http_minor := 1,
     msg_headers := [(''Server'', ''x''), (''Content-Length'', ''7'')], msg_body := ''hi''\<rparr>"

definition sample_text :: string where
  "sample_text = ''HTTP/1.1 200 OK'' @ CRLF @ ''Connection: keep-alive'' @ CRLF @ ''Server: x'' @ CRLF
     @ ''Content-Type: application/json;charset=UTF-8'' @ CRLF @ ''Allow: POST,GET'' @ CRLF @ ''Content-Length: 2'' @ CRLF @ CRLF @ ''hi''"

lemma sample_reply_text: "http_text (\<lambda>mp kv. mp @ [kv]) Z stUrl sample_reply [] = Some (to_bytes sample_text)"
  by (simp add: http_text_def start_text_def sample_reply_def HttpMsg_new_def status_string_def status_texts_def response_headers_def map_insert_at_def
      merge_header_def body_text_def header_text_def version_text_def u_text_def ConHash.decimal.simps c_str_def sample_text_def)

theorem http_encode_text_witness:
  "\<exists>b'. HttpCodec_Encode_msg (\<lambda>_. []) (\<lambda>mp kv. mp @ [kv]) (\<lambda>_. True, \<lambda>_. 0) \<lparr>z_zip = Some, z_unzip = Some, z_gzip = Some, z_gunzip = Some\<rparr>
       (url_start 0 0) sample_reply [] CBuffer_new = Some (CODEC_STATUS_OK, [], b') \<and> cb_data b' = to_bytes sample_text"
proof -
  have "recv_ok CBuffer_new" by (simp add: recv_ok_def Capacity_def) (simp add: CBuffer_new_def)
  moreover have "length (to_bytes sample_text) \<le> 500" by (simp add: sample_text_def to_bytes_def CRLF_def)
  ultimately have "room (\<lambda>_. True, \<lambda>_. 0) CBuffer_new (length (to_bytes sample_text) + 1)" by (simp add: room_def CBuffer_new_def)
  from http_encode_text [OF sample_reply_text _ _ _ this, of "\<lambda>_. []" "\<lparr>z_zip = Some, z_unzip = Some, z_gzip = Some, z_gunzip = Some\<rparr>" "url_start 0 0"]
  show ?thesis by (simp add: sample_reply_def HttpMsg_new_def)
qed

subsection \<open>Responses\<close>

lemma to_chars_to_bytes [simp]: "to_chars (to_bytes s) = s"
  by (simp add: to_chars_def to_bytes_def comp_def unat_of_nat take_bit_nat_eq_self)

lemma c_str_id: "CHR 0x00 \<notin> set s \<Longrightarrow> c_str s = s"
  by (simp add: c_str_def takeWhile_eq_all_conv) blast

lemma map_of_placed:
  assumes "mset ps = add_mset (k, v) (mset mp)" "map_of mp k = None" "distinct (map fst mp)"
  shows "distinct (map fst ps)" "map_of ps = (map_of mp)(k \<mapsto> v)" "set ps = insert (k, v) (set mp)"
proof -
  have "mset (map fst ps) = mset (k # map fst mp)" using assms(1) by simp
  then show d: "distinct (map fst ps)" using assms(2,3) mset_eq_imp_distinct_iff [of "map fst ps" "k # map fst mp"] by (simp add: map_of_eq_None_iff)
  show s: "set ps = insert (k, v) (set mp)" using arg_cong [OF assms(1), of set_mset] by simp
  have "(\<exists>a. (x, a) \<in> set ps \<and> map_of ps x = Some a) \<longleftrightarrow> x \<in> fst ` set ps" for x using d by force
  show "map_of ps = (map_of mp)(k \<mapsto> v)"
  proof (rule ext)
    fix x
    have "map_of ps x = Some a \<longleftrightarrow> ((map_of mp)(k \<mapsto> v)) x = Some a" for a
      using d assms(2,3) s by (auto simp: map_of_eq_None_iff split: if_splits intro: rev_image_eqI)
    then show "map_of ps x = ((map_of mp)(k \<mapsto> v)) x" by (metis option.exhaust)
  qed
qed

lemma map_insert_at_placed:
  assumes "\<And>mp kv. mset (place mp kv) = add_mset kv (mset mp)" "distinct (map fst mp)"
  shows "distinct (map fst (map_insert_at place k v mp))" "map_of (map_insert_at place k v mp) = [k \<mapsto> v] ++ map_of mp"
    "set (map_insert_at place k v mp) \<subseteq> insert (k, v) (set mp)"
  using map_of_placed [OF assms(1) [of mp "(k, v)"] _ assms(2)] assms(2)
  by (auto simp: map_insert_at_def map_add_def fun_eq_iff split: option.splits)

lemma strmap_assign_set: "set (strmap_assign k v mp) \<subseteq> insert (k, v) (set mp)"
  by (induction k v mp rule: strmap_assign.induct) auto

lemma merge_headers_placed:
  assumes place: "\<And>mp kv. mset (place mp kv) = add_mset kv (mset mp)"
  shows "distinct (map fst mp) \<Longrightarrow> foldl (merge_header place) (mp, gz, cu) hs = (mp', gz', cu') \<Longrightarrow>
    distinct (map fst mp') \<and> map_of mp' = map_of mp ++ map_of (rev (filter (\<lambda>kv. fst kv \<noteq> ''Content-Length'') hs)) \<and> set mp' \<subseteq> set mp \<union> set hs
      \<and> (gz' \<longleftrightarrow> gz \<or> (''Content-Encoding'', ''gzip'') \<in> set hs) \<and> (cu' \<longleftrightarrow> cu \<or> (''Transfer-Encoding'', ''chunked'') \<in> set hs)"
proof (induction hs arbitrary: mp gz cu)
  case (Cons kv hs)
  obtain k v where kv: "kv = (k, v)" by force
  define mp1 where "mp1 = (if k \<noteq> ''Content-Length'' then (if map_of mp k = None then place mp (k, v) else strmap_assign k v mp) else mp)"
  have m1: "distinct (map fst mp1)" "map_of mp1 = (if k \<noteq> ''Content-Length'' then (map_of mp)(k \<mapsto> v) else map_of mp)" "set mp1 \<subseteq> insert (k, v) (set mp)"
    using map_of_placed [OF place [of mp "(k, v)"] _ Cons.prems(1)] Cons.prems(1) strmap_assign_set [of k v mp]
    by (auto simp: mp1_def fst_strmap_assign map_of_strmap_assign fun_eq_iff)
  obtain gz1 cu1 where g: "merge_header place (mp, gz, cu) kv = (mp1, gz1, cu1)" "gz1 \<longleftrightarrow> gz \<or> kv = (''Content-Encoding'', ''gzip'')"
    "cu1 \<longleftrightarrow> cu \<or> kv = (''Transfer-Encoding'', ''chunked'')" by (auto simp: merge_header_def kv mp1_def)
  have "map_of mp1 ++ map_of (rev (filter (\<lambda>kv. fst kv \<noteq> ''Content-Length'') hs)) = map_of mp ++ map_of (rev (filter (\<lambda>kv. fst kv \<noteq> ''Content-Length'') (kv # hs)))"
    using m1(2) by (auto simp: kv map_add_def fun_eq_iff split: option.splits)
  moreover have "foldl (merge_header place) (mp1, gz1, cu1) hs = (mp', gz', cu')" using Cons.prems(2) g(1) by simp
  note ih = Cons.IH [OF m1(1) this]
  moreover have "set mp' \<subseteq> set mp \<union> set (kv # hs)" using ih m1(3) unfolding kv by auto
  moreover have "gz' \<longleftrightarrow> gz \<or> (''Content-Encoding'', ''gzip'') \<in> set (kv # hs)" "cu' \<longleftrightarrow> cu \<or> (''Transfer-Encoding'', ''chunked'') \<in> set (kv # hs)"
    using ih g(2,3) by (metis list.set_intros(1) list.set_intros(2) set_ConsD)+
  ultimately show ?case by simp
qed simp

text \<open>The number that hexadecimal digits stand for.\<close>

definition hex_number :: "string \<Rightarrow> nat" where
  "hex_number s = foldl (\<lambda>n c. 16 * n + (if of_char c < (58 :: nat) then of_char c - 48 else of_char c - 87)) 0 s"

lemma hex_number_digits: "hex_number (hex_digits n) = n"
proof (induction n rule: hex_digits.induct)
  case (1 n)
  define k where "k = n mod 16"
  have "k \<in> set [0..<16]" by (simp add: k_def)
  moreover have "\<forall>k \<in> set [0..<16]. (if of_char (''0123456789abcdef'' ! k) < (58 :: nat) then of_char (''0123456789abcdef'' ! k) - 48 else of_char (''0123456789abcdef'' ! k) - 87) = k"
    by code_simp
  ultimately have "(if of_char (''0123456789abcdef'' ! k) < (58 :: nat) then of_char (''0123456789abcdef'' ! k) - 48 else of_char (''0123456789abcdef'' ! k) - 87) = k"
    by blast
  then show ?case using 1 by (subst hex_digits.simps) (auto simp: hex_number_def Let_def k_def)
qed

text \<open>
  What follows the headers of an answer: the length and the body, or the body cut into chunks of at most 8192 characters, each behind
  its length in hexadecimal digits, and an empty chunk.
\<close>

definition body_lines :: "string \<Rightarrow> string \<Rightarrow> bool" where
  "body_lines body rest \<longleftrightarrow>
     (if length body \<le> 8192 then rest = ''Content-Length: '' @ ConHash.decimal (length body) @ CRLF @ CRLF @ body
      else \<exists>chunks. concat (map snd chunks) = body \<and> (\<forall>(h, c) \<in> set chunks. 0 < length c \<and> length c \<le> 8192 \<and> hex_number h = length c)
        \<and> rest = ''Transfer-Encoding: chunked'' @ CRLF @ CRLF @ concat (map (\<lambda>(h, c). h @ CRLF @ c @ CRLF) chunks) @ ''0'' @ CRLF @ CRLF)"

definition header_lines :: "header_map \<Rightarrow> string" where
  "header_lines hs = concat (map (\<lambda>(k, v). k @ '': '' @ v @ CRLF) hs)"

lemma chunk_text_lines:
  "CHR 0x00 \<notin> set s \<Longrightarrow> \<exists>chunks. concat (map snd chunks) = s \<and> (\<forall>(h, c) \<in> set chunks. 0 < length c \<and> length c \<le> 8192 \<and> hex_number h = length c)
     \<and> chunk_text (to_bytes s) = to_bytes (concat (map (\<lambda>(h, c). h @ CRLF @ c @ CRLF) chunks))"
proof (induction "length s" arbitrary: s rule: less_induct)
  case less
  show ?case
  proof (cases "s = []")
    case True
    then show ?thesis by (intro exI [of _ "[]"]) (simp add: chunk_text.simps)
  next
    case False
    let ?c = "take 8192 s" and ?r = "drop 8192 s"
    have "CHR 0x00 \<notin> set ?r" "CHR 0x00 \<notin> set ?c" using less.prems by (auto dest: in_set_dropD in_set_takeD)
    have "length ?r < length s" using False by simp
    from less.hyps [OF this \<open>CHR 0x00 \<notin> set ?r\<close>] obtain chunks where c: "concat (map snd chunks) = ?r" "\<forall>(h, c) \<in> set chunks. 0 < length c \<and> length c \<le> 8192 \<and> hex_number h = length c"
      "chunk_text (to_bytes ?r) = to_bytes (concat (map (\<lambda>(h, c). h @ CRLF @ c @ CRLF) chunks))"
      by blast
    have "take 8192 (to_bytes s) = to_bytes ?c" "drop 8192 (to_bytes s) = to_bytes ?r" by (simp_all add: to_bytes_def take_map drop_map)
    moreover have "to_bytes s \<noteq> []" using False by (simp add: to_bytes_def)
    ultimately have "chunk_text (to_bytes s) = to_bytes (hex_digits (length ?c) @ CRLF @ ?c @ CRLF) @ chunk_text (to_bytes ?r)"
      using c_str_id [OF \<open>CHR 0x00 \<notin> set ?c\<close>] by (subst chunk_text.simps) simp
    then show ?thesis using c False
      by (intro exI [of _ "(hex_digits (length ?c), ?c) # chunks"]) (auto simp: hex_number_digits)
  qed
qed

lemma body_text_lines:
  assumes "length (msg_body m) > 8192 \<Longrightarrow> CHR 0x00 \<notin> set (msg_body m)"
  shows "\<exists>rest. body_text Z m False False = Some (to_bytes rest) \<and> body_lines (msg_body m) rest"
proof (cases "length (msg_body m) \<le> 8192")
  case True
  let ?t = "''Content-Length: '' @ ConHash.decimal (length (msg_body m)) @ CRLF @ CRLF @ msg_body m"
  have "body_text Z m False False = Some (to_bytes ?t)" using True by (auto simp: body_text_def Let_def ConHash.decimal.simps)
  then show ?thesis using True by (auto simp: body_lines_def)
next
  case False
  then have "CHR 0x00 \<notin> set (msg_body m)" using assms by simp
  from chunk_text_lines [OF this] obtain chunks where
    c: "concat (map snd chunks) = msg_body m" "\<forall>(h, c) \<in> set chunks. 0 < length c \<and> length c \<le> 8192 \<and> hex_number h = length c"
      "chunk_text (to_bytes (msg_body m)) = to_bytes (concat (map (\<lambda>(h, c). h @ CRLF @ c @ CRLF) chunks))" by blast
  let ?t = "''Transfer-Encoding: chunked'' @ CRLF @ CRLF @ concat (map (\<lambda>(h, c). h @ CRLF @ c @ CRLF) chunks) @ ''0'' @ CRLF @ CRLF"
  have "body_text Z m False False = Some (to_bytes ?t)" using False c(3) by (auto simp: body_text_def Let_def)
  moreover have "body_lines (msg_body m) ?t" using False c(1,2) unfolding body_lines_def by auto
  ultimately show ?thesis by blast
qed

lemma status_string_known:
  assumes "status_string n = Some reason"
  shows "100 \<le> n" "n \<le> 510" "CR \<notin> set reason" "LF \<notin> set reason"
proof -
  have "(n, reason) \<in> set status_texts" using assms by (simp add: status_string_def map_of_SomeD)
  moreover have "\<forall>(n, s) \<in> set status_texts. 100 \<le> n \<and> n \<le> 510 \<and> CR \<notin> set s \<and> LF \<notin> set s" by code_simp
  ultimately show "100 \<le> n" "n \<le> 510" "CR \<notin> set reason" "LF \<notin> set reason" by blast+
qed

lemma response_headers_placed:
  fixes mp :: header_map and m :: http_msg
  assumes place: "\<And>mp kv. mset (place mp kv) = add_mset kv (mset mp)" and d: "distinct (map fst mp)"
  defines "c \<equiv> if msg_http_major m < 1 \<or> msg_http_major m = 1 \<and> msg_http_minor m < 1 then ''close'' else ''keep-alive''"
  shows "distinct (map fst (response_headers place m mp))"
    "map_of (response_headers place m mp) = [''Allow'' \<mapsto> ''POST,GET'', ''Content-Type'' \<mapsto> ''application/json;charset=UTF-8'',
        ''Server'' \<mapsto> ''StarHttp'', ''Connection'' \<mapsto> c] ++ map_of mp"
    "set (response_headers place m mp) \<subseteq> {(''Allow'', ''POST,GET''), (''Content-Type'', ''application/json;charset=UTF-8''),
        (''Server'', ''StarHttp''), (''Connection'', c)} \<union> set mp"
proof -
  let ?mp1 = "map_insert_at place ''Connection'' c mp"
  let ?mp2 = "map_insert_at place ''Server'' ''StarHttp'' ?mp1"
  let ?mp3 = "map_insert_at place ''Content-Type'' ''application/json;charset=UTF-8'' ?mp2"
  note i1 = map_insert_at_placed [OF place d, of "''Connection''" c]
  note i2 = map_insert_at_placed [OF place i1(1), of "''Server''" "''StarHttp''"]
  note i3 = map_insert_at_placed [OF place i2(1), of "''Content-Type''" "''application/json;charset=UTF-8''"]
  note i4 = map_insert_at_placed [OF place i3(1), of "''Allow''" "''POST,GET''"]
  have r: "response_headers place m mp = map_insert_at place ''Allow'' ''POST,GET'' ?mp3" by (simp add: response_headers_def c_def)
  show "distinct (map fst (response_headers place m mp))" unfolding r by (rule i4(1))
  have "[''Allow'' \<mapsto> ''POST,GET''] ++ ([''Content-Type'' \<mapsto> ''application/json;charset=UTF-8''] ++ ([''Server'' \<mapsto> ''StarHttp''] ++ ([''Connection'' \<mapsto> c] ++ map_of mp)))
      = [''Allow'' \<mapsto> ''POST,GET'', ''Content-Type'' \<mapsto> ''application/json;charset=UTF-8'', ''Server'' \<mapsto> ''StarHttp'', ''Connection'' \<mapsto> c] ++ map_of mp"
    by (simp only: map_add_assoc map_add_upd map_add_empty)
  then show "map_of (response_headers place m mp) = [''Allow'' \<mapsto> ''POST,GET'', ''Content-Type'' \<mapsto> ''application/json;charset=UTF-8'',
        ''Server'' \<mapsto> ''StarHttp'', ''Connection'' \<mapsto> c] ++ map_of mp"
    unfolding r i4(2) i3(2) i2(2) i1(2) .
  show "set (response_headers place m mp) \<subseteq> {(''Allow'', ''POST,GET''), (''Content-Type'', ''application/json;charset=UTF-8''),
        (''Server'', ''StarHttp''), (''Connection'', c)} \<union> set mp"
    unfolding r using i4(3) i3(3) i2(3) i1(3) by blast
qed

lemma ball_covered: "hs \<subseteq> A \<union> B \<Longrightarrow> Ball A P \<Longrightarrow> Ball B P \<Longrightarrow> Ball hs P"
  by blast

lemma header_text_lines: "\<forall>(k, v) \<in> set hs. CHR 0x00 \<notin> set k \<and> CHR 0x00 \<notin> set v \<Longrightarrow> header_text hs = header_lines hs"
  by (induction hs) (auto simp: header_text_def header_lines_def c_str_id)

lemma u_text_decimal: "0 \<le> i \<Longrightarrow> i < 2 ^ 32 \<Longrightarrow> u_text i = ConHash.decimal (nat i)"
  by (simp add: u_text_def)

text \<open>
  C15.  The text of an answer, said without the operations of the encoder.  The message has a version other than 0.0, a status code
  of the table and a serialisation of at most 64000000 bytes; it asks neither for gzip nor, itself or through the added headers, for a chunked
  body; the added headers have distinct names; no name or value of a header has a NUL, nor has the body if it is longer than 8192
  characters; and the hash table keeps a new header besides those it had, wherever it puts it.  Then, in any
  buffer with room for it, \<open>Encode\<close> appends the status line \<open>HTTP/major.minor code reason\<close>, where the reason has no line
  break; one line for each header, in some order and under distinct names: the last value the message gives it,
  its \<open>Content-Length\<close> apart, else the added value, else the default of \<open>Allow\<close>, \<open>Content-Type\<close>,
  \<open>Server\<close> and \<open>Connection\<close> (\<open>close\<close> below version 1.1); and then \<open>Content-Length\<close> with the length of the body, an empty line
  and the body, or, if it is longer than 8192 characters, chunks that make up the body, each of at most 8192 characters behind
  its length, and the empty chunk.  The table of added headers is emptied.
\<close>

theorem http_response_text:
  fixes m :: http_msg and mp :: header_map
  assumes type: "msg_type m = 1" and size: "length (msg_ser m) \<le> 64000000"
    and version: "0 \<le> msg_http_major m" "msg_http_major m < 2 ^ 31" "0 \<le> msg_http_minor m" "msg_http_minor m < 2 ^ 31"
      "msg_http_major m \<noteq> 0 \<or> msg_http_minor m \<noteq> 0"
    and code: "status_string (msg_status_code m) = Some reason"
    and place: "\<And>mp kv. mset (place mp kv) = add_mset kv (mset mp)" and added: "distinct (map fst mp)"
    and plain: "(''Content-Encoding'', ''gzip'') \<notin> set (msg_headers m)" "(''Transfer-Encoding'', ''chunked'') \<notin> set (mp @ msg_headers m)"
    and nul: "\<forall>(k, v) \<in> set (mp @ msg_headers m). CHR 0x00 \<notin> set k \<and> CHR 0x00 \<notin> set v"
      "length (msg_body m) > 8192 \<Longrightarrow> CHR 0x00 \<notin> set (msg_body m)"
  shows "\<exists>hs rest t. distinct (map fst hs)
    \<and> map_of hs = ([''Allow'' \<mapsto> ''POST,GET'', ''Content-Type'' \<mapsto> ''application/json;charset=UTF-8'', ''Server'' \<mapsto> ''StarHttp'',
          ''Connection'' \<mapsto> (if msg_http_major m < 1 \<or> msg_http_major m = 1 \<and> msg_http_minor m < 1 then ''close'' else ''keep-alive'')]
        ++ map_of mp) ++ map_of (rev (filter (\<lambda>kv. fst kv \<noteq> ''Content-Length'') (msg_headers m)))
    \<and> body_lines (msg_body m) rest \<and> CR \<notin> set reason \<and> LF \<notin> set reason
    \<and> t = to_bytes (''HTTP/'' @ ConHash.decimal (nat (msg_http_major m)) @ ''.'' @ ConHash.decimal (nat (msg_http_minor m)) @ '' ''
        @ ConHash.decimal (nat (msg_status_code m)) @ '' '' @ reason @ CRLF @ header_lines hs @ rest)
    \<and> (\<forall>hp b. room hp b (length t + 1) \<longrightarrow>
        (\<exists>b'. HttpCodec_Encode_msg msg_ser place hp Z stUrl m mp b = Some (CODEC_STATUS_OK, [], b') \<and> cb_data b' = cb_data b @ t))"
proof -
  let ?c = "if msg_http_major m < 1 \<or> msg_http_major m = 1 \<and> msg_http_minor m < 1 then ''close'' else ''keep-alive''"
  note r = response_headers_placed [OF place added, where m = m]
  obtain hs gz ch where f: "foldl (merge_header place) (response_headers place m mp, False, False) (msg_headers m) = (hs, gz, ch)"
    by (cases "foldl (merge_header place) (response_headers place m mp, False, False) (msg_headers m)") auto
  note h = merge_headers_placed [OF place r(1) f]
  have set: "set hs \<subseteq> {(''Allow'', ''POST,GET''), (''Content-Type'', ''application/json;charset=UTF-8''), (''Server'', ''StarHttp''), (''Connection'', ?c)}
      \<union> set (mp @ msg_headers m)" using h r(3) unfolding set_append by blast
  have flags: "gz = ((''Content-Encoding'', ''gzip'') \<in> set (msg_headers m))" "ch = ((''Transfer-Encoding'', ''chunked'') \<in> set (msg_headers m))" using h by blast+
  have chunked: "\<not> gz" "\<not> ch" "(''Transfer-Encoding'', ''chunked'') \<notin> set hs" using flags plain set by auto
  have "\<forall>(k, v) \<in> {(''Allow'', ''POST,GET''), (''Content-Type'', ''application/json;charset=UTF-8''), (''Server'', ''StarHttp''), (''Connection'', ?c)}.
      CHR 0x00 \<notin> set k \<and> CHR 0x00 \<notin> set v" by simp
  then have "\<forall>(k, v) \<in> set hs. CHR 0x00 \<notin> set k \<and> CHR 0x00 \<notin> set v" by (rule ball_covered [OF set _ nul(1)])
  note lines = header_text_lines [OF this]
  from body_text_lines [OF nul(2)] obtain rest where b: "body_text Z m False False = Some (to_bytes rest)" "body_lines (msg_body m) rest" by blast
  note st = status_string_known [OF code]
  define t where "t = to_bytes (''HTTP/'' @ ConHash.decimal (nat (msg_http_major m)) @ ''.'' @ ConHash.decimal (nat (msg_http_minor m)) @ '' ''
        @ ConHash.decimal (nat (msg_status_code m)) @ '' '' @ reason @ CRLF @ header_lines hs @ rest)"
  have "http_text place Z stUrl m mp = Some t"
    using type code st(1,2) version f b(1) chunked lines
    by (simp add: http_text_def start_text_def version_text_def u_text_decimal t_def)
  moreover have "\<And>mp' gz ch. foldl (merge_header place) (if msg_type m = 1 then response_headers place m mp else mp, False, False) (msg_headers m) = (mp', gz, ch) \<Longrightarrow>
      ch \<or> (''Transfer-Encoding'', ''chunked'') \<in> set mp' \<Longrightarrow> msg_encoding m = 0" using type f chunked by simp
  ultimately have "\<forall>hp b. room hp b (length t + 1) \<longrightarrow>
      (\<exists>b'. HttpCodec_Encode_msg msg_ser place hp Z stUrl m mp b = Some (CODEC_STATUS_OK, [], b') \<and> cb_data b' = cb_data b @ t)"
    using Encode_msg_text [where msg_ser = msg_ser, OF _ size version(5)] by blast
  moreover have "map_of hs = ([''Allow'' \<mapsto> ''POST,GET'', ''Content-Type'' \<mapsto> ''application/json;charset=UTF-8'', ''Server'' \<mapsto> ''StarHttp'',
          ''Connection'' \<mapsto> ?c] ++ map_of mp) ++ map_of (rev (filter (\<lambda>kv. fst kv \<noteq> ''Content-Length'') (msg_headers m)))"
    using h unfolding r(2) by blast
  ultimately show ?thesis using h b(2) st(3,4) t_def by blast
qed

theorem http_response_text_witness:
  "\<exists>hs t. distinct (map fst hs) \<and> map_of hs ''Server'' = Some ''x'' \<and> map_of hs ''Connection'' = Some ''keep-alive'' \<and> map_of hs ''Date'' = Some ''now''
    \<and> map_of hs ''Content-Length'' = None
    \<and> t = to_bytes (''HTTP/1.1 200 OK'' @ CRLF @ header_lines hs @ ''Content-Length: 2'' @ CRLF @ CRLF @ ''hi'')
    \<and> (\<forall>hp b. room hp b (length t + 1) \<longrightarrow> (\<exists>b'. HttpCodec_Encode_msg (\<lambda>_. []) (\<lambda>mp kv. kv # mp) hp
        \<lparr>z_zip = Some, z_unzip = Some, z_gzip = Some, z_gunzip = Some\<rparr> (url_start 0 0) sample_reply [(''Date'', ''now'')] b
          = Some (CODEC_STATUS_OK, [], b') \<and> cb_data b' = cb_data b @ t))"
proof -
  note s = sample_reply_def HttpMsg_new_def
  have f: "msg_type sample_reply = 1" "0 \<le> msg_http_major sample_reply" "msg_http_major sample_reply < 2 ^ 31" "0 \<le> msg_http_minor sample_reply"
    "msg_http_minor sample_reply < 2 ^ 31" "msg_http_major sample_reply \<noteq> 0 \<or> msg_http_minor sample_reply \<noteq> 0"
    "(''Content-Encoding'', ''gzip'') \<notin> set (msg_headers sample_reply)"
    "(''Transfer-Encoding'', ''chunked'') \<notin> set ([(''Date'', ''now'')] @ msg_headers sample_reply)"
    "\<forall>(k, v) \<in> set ([(''Date'', ''now'')] @ msg_headers sample_reply). CHR 0x00 \<notin> set k \<and> CHR 0x00 \<notin> set v"
    "distinct (map fst [(''Date'', ''now'')])" "status_string (msg_status_code sample_reply) = Some ''OK''"
    by (simp_all add: s status_string_def status_texts_def)
  have "length ((\<lambda>_. [] :: byte list) sample_reply) \<le> 64000000" "\<And>mp kv. mset (kv # mp) = add_mset (kv :: string \<times> string) (mset mp)"
    "length (msg_body sample_reply) > 8192 \<Longrightarrow> CHR 0x00 \<notin> set (msg_body sample_reply)" by (simp_all add: s)
  from http_response_text [where place = "\<lambda>mp kv. kv # mp" and Z = "\<lparr>z_zip = Some, z_unzip = Some, z_gzip = Some, z_gunzip = Some\<rparr>" and stUrl = "url_start 0 0",
      OF f(1) this(1) f(2-6,11) this(2) f(10,7-9) this(3)]
  obtain hs rest t where h: "distinct (map fst hs)"
    "map_of hs = ([''Allow'' \<mapsto> ''POST,GET'', ''Content-Type'' \<mapsto> ''application/json;charset=UTF-8'', ''Server'' \<mapsto> ''StarHttp'',
          ''Connection'' \<mapsto> (if msg_http_major sample_reply < 1 \<or> msg_http_major sample_reply = 1 \<and> msg_http_minor sample_reply < 1 then ''close'' else ''keep-alive'')]
        ++ map_of [(''Date'', ''now'')]) ++ map_of (rev (filter (\<lambda>kv. fst kv \<noteq> ''Content-Length'') (msg_headers sample_reply)))"
    "body_lines (msg_body sample_reply) rest"
    "t = to_bytes (''HTTP/'' @ ConHash.decimal (nat (msg_http_major sample_reply)) @ ''.'' @ ConHash.decimal (nat (msg_http_minor sample_reply)) @ '' ''
        @ ConHash.decimal (nat (msg_status_code sample_reply)) @ '' '' @ ''OK'' @ CRLF @ header_lines hs @ rest)"
    "\<forall>hp b. room hp b (length t + 1) \<longrightarrow> (\<exists>b'. HttpCodec_Encode_msg (\<lambda>_. []) (\<lambda>mp kv. kv # mp) hp
        \<lparr>z_zip = Some, z_unzip = Some, z_gzip = Some, z_gunzip = Some\<rparr> (url_start 0 0) sample_reply [(''Date'', ''now'')] b
          = Some (CODEC_STATUS_OK, [], b') \<and> cb_data b' = cb_data b @ t)" by blast
  have d: "ConHash.decimal 2 = ''2''" "ConHash.decimal 1 = ''1''" "ConHash.decimal 200 = ''200''" by code_simp+
  have "rest = ''Content-Length: 2'' @ CRLF @ CRLF @ ''hi''" using h(3) d(1) by (simp add: s body_lines_def numeral_2_eq_2)
  then have "t = to_bytes (''HTTP/1.1 200 OK'' @ CRLF @ header_lines hs @ ''Content-Length: 2'' @ CRLF @ CRLF @ ''hi'')"
    using h(4) d(2,3) by (simp add: s)
  moreover have "map_of hs ''Server'' = Some ''x''" "map_of hs ''Connection'' = Some ''keep-alive''" "map_of hs ''Date'' = Some ''now''"
    "map_of hs ''Content-Length'' = None" unfolding h(2) by (simp_all add: s map_add_def)
  ultimately show ?thesis using h(1,5) by blast
qed

end
