(* ===== verification/HttpDecode.thy ===== *)
theory HttpDecode
  imports HttpPhase HttpCodec
begin

text \<open>
  Decoding HTTP messages: the callbacks of the codec satisfy the contract \<open>message_callbacks\<close>, so \<open>Decode\<close> never runs into undefined
  behaviour as long as the URL parser does not, never reads or skips past the readable bytes, and, because \<open>OnMessageBegin\<close> raises
  the flag \<open>is_decoding\<close> that only a complete message lowers, answers almost every malformed message with \<open>PAUSE\<close>.
\<close>

subsection \<open>The codec's callbacks\<close>

text \<open>When the URL parser cannot read outside the URL: short inputs, and the host entry of the uninitialised structure is 0.\<close>

definition url_safe :: "heap \<Rightarrow> http_parser_url \<Rightarrow> string \<Rightarrow> bool" where
  "url_safe hp stUrl d \<longleftrightarrow> fst hp = (\<lambda>_. True) \<and> field_len stUrl UF_HOST = 0 \<and> length d < 2 ^ 16"

fun codec_phase :: "bool \<Rightarrow> phase \<Rightarrow> http_msg option \<Rightarrow> bool" where
  "codec_phase safe _ None \<longleftrightarrow> \<not> safe"
| "codec_phase safe Idle (Some m) \<longleftrightarrow> True"
| "codec_phase safe Head (Some m) \<longleftrightarrow> is_decoding m"
| "codec_phase safe Value (Some m) \<longleftrightarrow> is_decoding m \<and> msg_headers m \<noteq> []"

lemma quiet_on_msg:
  assumes "\<And>q. \<exists>g. f q = on_msg g q \<and> (\<forall>m. A (Some m) \<longrightarrow> B (g m))" "A None \<Longrightarrow> B None"
  shows "quiet f A B"
  unfolding quiet_def
proof
  fix q
  obtain g where "f q = on_msg g q" "\<forall>m. A (Some m) \<longrightarrow> B (g m)" using assms(1) by blast
  then show "\<exists>u. f q = (0, q\<lparr>parser_data := u\<rparr>) \<and> (A (parser_data q) \<longrightarrow> B u)"
    using assms(2) by (cases "parser_data q") (auto simp: on_msg_def)
qed

lemma self_data [simp]: "q\<lparr>http_errno := http_errno q, parser_data := parser_data q\<rparr> = q" "q\<lparr>parser_data := parser_data q\<rparr> = q"
  by (cases q; simp)+

lemma quiet_nothing: "quiet (\<lambda>q. (0, q)) A A"
  unfolding quiet_def by (metis self_data(2))

lemma on_msg_Some: "on_msg Some q = (0, q)"
  by (simp add: on_msg_def)

lemma on_msg_cb_ok: "(\<And>q. \<exists>g. f q = on_msg g q) \<Longrightarrow> cb_ok f"
proof -
  assume f: "\<And>q. \<exists>g. f q = on_msg g q"
  have "\<exists>u. snd (f q) = q\<lparr>http_errno := http_errno q, parser_data := u\<rparr>" for q
    using f [of q] by (cases q) (auto simp: on_msg_def)
  then show "cb_ok f" unfolding cb_ok_def by blast
qed

lemma codec_settings_ok: "settings_ok (http_codec_settings hp stUrl rest)"
proof -
  let ?S = "http_codec_settings hp stUrl rest"
  note self = exI [of "\<lambda>g. (0, q) = on_msg g q" Some for q, OF on_msg_Some [symmetric]]
  have "cb_ok (\<lambda>q. f q s)" if "data_cb ?S m = Some f" for m f s
    using that by (cases m) (auto simp: http_codec_settings_def OnUrl_def OnStatus_def OnHeaderField_def OnHeaderValue_def OnBody_def intro!: on_msg_cb_ok)
  moreover have "cb_ok f" if "Some f \<in> {on_message_begin ?S, on_headers_complete ?S, on_message_complete ?S, on_chunk_header ?S, on_chunk_complete ?S}" for f
    by (rule on_msg_cb_ok) (use that in \<open>auto simp: http_codec_settings_def OnMessageBegin_def OnMessageComplete_def OnHeadersComplete_def
        OnChunkHeader_def OnChunkComplete_def intro: self\<close>)
  ultimately show ?thesis unfolding settings_ok_def by blast
qed

lemma length_segment_le: "length (segment i j xs) \<le> length xs"
  by (simp add: segment_def)

lemma quiet_OnUrl:
  "quiet (\<lambda>q. OnUrl hp stUrl rest q (segment i j d)) (codec_phase (url_safe hp stUrl d) Head) (codec_phase (url_safe hp stUrl d) Head)"
proof (rule quiet_on_msg, intro exI conjI)
  let ?at = "segment i j d"
  fix q :: "http_msg option http_parser"
  show "OnUrl hp stUrl rest q ?at = on_msg (\<lambda>m. do {
     let m = m\<lparr>msg_url := ?at\<rparr>;
     (r, u) \<leftarrow> http_parser_parse_url ?at rest False stUrl;
     if r = 0 \<and> UF_PATH \<in> field_set u then do {
       _ \<leftarrow> c_malloc hp (field_len u UF_PATH);
       if field_off u UF_PATH + field_len u UF_PATH \<le> length ?at
       then Some (m\<lparr>msg_path := strncpy_text (drop (field_off u UF_PATH) ?at) (field_len u UF_PATH)\<rparr>) else None }
     else Some m }) q" by (simp add: OnUrl_def)
  have "\<exists>r u. http_parser_parse_url ?at rest False stUrl = Some (r, u)
     \<and> (r = 0 \<longrightarrow> UF_PATH \<in> field_set u \<longrightarrow> field_off u UF_PATH + field_len u UF_PATH \<le> length ?at \<and> c_malloc hp (field_len u UF_PATH) \<noteq> None)"
    if safe: "url_safe hp stUrl d"
  proof -
    have l: "length ?at < 2 ^ 16" using length_segment_le [of i j d] safe by (auto simp: url_safe_def)
    obtain r u where "http_parser_parse_url ?at rest False stUrl = Some (r, u)"
      "r = 0 \<Longrightarrow> \<forall>f \<in> field_set u. field_off u f + field_len u f \<le> length ?at"
      using parse_url_bounds [OF l, of stUrl rest False] safe unfolding url_safe_def by metis
    moreover have "c_malloc hp n \<noteq> None" if "n \<le> length ?at" for n using that l safe by (simp add: url_safe_def c_malloc_def)
    ultimately show ?thesis by fastforce
  qed
  then show "\<forall>m. codec_phase (url_safe hp stUrl d) Head (Some m) \<longrightarrow> codec_phase (url_safe hp stUrl d) Head (do {
     let m = m\<lparr>msg_url := ?at\<rparr>;
     (r, u) \<leftarrow> http_parser_parse_url ?at rest False stUrl;
     if r = 0 \<and> UF_PATH \<in> field_set u then do {
       _ \<leftarrow> c_malloc hp (field_len u UF_PATH);
       if field_off u UF_PATH + field_len u UF_PATH \<le> length ?at
       then Some (m\<lparr>msg_path := strncpy_text (drop (field_off u UF_PATH) ?at) (field_len u UF_PATH)\<rparr>) else None }
     else Some m })"
    by (cases "url_safe hp stUrl d") (auto simp: Let_def split: bind_splits)
qed simp

lemmas callback_defs = OnMessageBegin_def OnStatus_def OnHeaderField_def OnHeaderValue_def OnBody_def OnMessageComplete_def

interpretation http_codec: message_callbacks "http_codec_settings hp stUrl rest" d "codec_phase (url_safe hp stUrl d)" for hp stUrl rest d
proof
  let ?S = "http_codec_settings hp stUrl rest" and ?J = "codec_phase (url_safe hp stUrl d)"
  show "settings_ok ?S" by (rule codec_settings_ok)
  show "?J Value u \<Longrightarrow> ?J Head u" "?J Head u \<Longrightarrow> ?J Idle u" for u by (cases u; simp)+
  show "data_keeps d (on_url ?S) (?J Head) (?J Head)" by (simp add: http_codec_settings_def data_keeps_def quiet_OnUrl)
  show "cb_keeps (on_message_begin ?S) (?J Idle) (?J Head)" "data_keeps d (on_status ?S) (?J Head) (?J Head)"
    "data_keeps d (on_header_field ?S) (?J Head) (?J Value)" "data_keeps d (on_header_value ?S) (?J Value) (?J Value)"
    "data_keeps d (on_body ?S) (?J Head) (?J Head)" "cb_keeps (on_message_complete ?S) (?J Head) (?J Idle)"
    by (auto simp: http_codec_settings_def cb_keeps_def data_keeps_def callback_defs Let_def intro!: quiet_on_msg)
  show "cb_keeps (on_headers_complete ?S) (?J Head) (?J Head)" "cb_keeps (on_chunk_header ?S) (?J Head) (?J Head)"
    "cb_keeps (on_chunk_complete ?S) (?J Head) (?J Head)"
    using quiet_nothing by (simp_all add: http_codec_settings_def cb_keeps_def OnHeadersComplete_def [abs_def] OnChunkHeader_def [abs_def]
        OnChunkComplete_def [abs_def])
qed

lemma execute_codec:
  fixes m :: http_msg
  assumes "d \<noteq> []"
  obtains n q where "http_parser_execute (fresh_parser m) (http_codec_settings hp stUrl rest) d = Some (n, q)" "n \<le> length d"
    "codec_phase (url_safe hp stUrl d) Idle (parser_data q)"
    "http_errno q \<notin> first_errors \<Longrightarrow> codec_phase (url_safe hp stUrl d) Head (parser_data q)"
proof -
  let ?q0 = "\<lparr>parser_type = HTTP_BOTH, flags = {}, state = s_dead, header_state = h_general, index = 0, nread = 0,
      content_length = 0, http_major = 0, http_minor = 0, status_code = 0, parser_method = HTTP_DELETE,
      http_errno = HPE_OK, upgrade = False, parser_data = Some m\<rparr>"
  have "codec_phase (url_safe hp stUrl d) Idle (parser_data ?q0)" by simp
  from http_codec.execute_fresh [OF this assms, of rest] show ?thesis
    using that unfolding fresh_parser_def http_codec.left_def by blast
qed

subsection \<open>Decode\<close>

lemma gunzip_is_decoding: "gunzip_headers Z hs m = Some m' \<Longrightarrow> is_decoding m' = is_decoding m"
  by (induction Z hs m rule: gunzip_headers.induct) (auto split: if_splits option.splits)

lemma length_to_chars [simp]: "length (to_chars bs) = length bs"
  by (simp add: to_chars_def)

lemma AdvanceReadIndex_ok:
  assumes "cb_inv b" "n \<le> ReadableBytes b" "n < 2 ^ 31"
  shows "cb_inv (AdvanceReadIndex b (to_int32 n))" "cb_data (AdvanceReadIndex b (to_int32 n)) = drop n (cb_data b)"
  using SkipBytes_ok [OF assms] assms
  by (auto simp: SkipBytes_def cb_inv_def cb_data_def segment_def ReadableBytes_inv drop_take drop_drop add.commute)

lemma Decode_msg_execute:
  assumes "cb_inv b" "cb_data b \<noteq> []"
    "http_parser_execute (fresh_parser m) (http_codec_settings hp stUrl rest) (to_chars (cb_data b)) = Some (n, q)"
    "parser_data q = Some m'"
  shows "HttpCodec_Decode_msg hp Z stUrl rest m b =
    Some (if is_decoding m' then HPAUSE b else if http_errno q \<noteq> HPE_OK then HERR b
      else case gunzip_headers Z (msg_headers m') m' of
          None \<Rightarrow> HERR (AdvanceReadIndex b (to_int32 n)) | Some m'' \<Rightarrow> HOK m'' (AdvanceReadIndex b (to_int32 n)))"
proof -
  have "mem_read (m_buffer b) (m_read_idx b) (ReadableBytes b) = Some (cb_data b)"
    using mem_read_readable [OF assms(1) order_refl] length_cb_data [OF assms(1)] by simp
  moreover have "ReadableBytes b \<noteq> 0" using assms(2) length_cb_data [OF assms(1)] by (metis length_0_conv)
  ultimately show ?thesis using assms(3,4) by (simp add: HttpCodec_Decode_msg_def Let_def split: option.splits)
qed

text \<open>A buffer that holds a text.\<close>

definition text_buffer :: "string \<Rightarrow> cbuffer" where
  "text_buffer s = CBuffer_new\<lparr>m_buffer := to_bytes s, m_buffer_len := length s, m_write_idx := length s\<rparr>"

text \<open>
  C16.  If the host entry of the URL structure, which the code leaves uninitialised on its stack, happens to have length 0, and every allocation succeeds,
  then \<open>Decode\<close> of a buffer with fewer than 65536 readable bytes returns: the message with the bytes the parser used skipped, \<open>PAUSE\<close> with the buffer unchanged, or
  \<open>ERR\<close> with the buffer unchanged or the message skipped.  It never skips more than the readable bytes.  Without the first condition a peer
  that asks for \<open>http:///x\<close> makes \<open>OnUrl\<close> read outside the URL (\<open>http_parser_parse_url_stale_host\<close>).
\<close>

theorem http_decode_returns:
  assumes "cb_inv b" "length (cb_data b) < 2 ^ 16" "fst hp = (\<lambda>_. True)" "field_len stUrl UF_HOST = 0"
  shows "\<exists>r. HttpCodec_Decode_msg hp Z stUrl rest m b = Some r
    \<and> (case r of
        HOK m' b' \<Rightarrow> \<not> is_decoding m' \<and> cb_inv b' \<and> (\<exists>n \<le> length (cb_data b). cb_data b' = drop n (cb_data b))
      | HPAUSE b' \<Rightarrow> b' = b
      | HERR b' \<Rightarrow> cb_inv b' \<and> (\<exists>n \<le> length (cb_data b). cb_data b' = drop n (cb_data b)))"
proof (cases "cb_data b = []")
  case True
  then have "ReadableBytes b = 0" using length_cb_data [OF assms(1)] by simp
  then show ?thesis by (simp add: HttpCodec_Decode_msg_def)
next
  case False
  then have "to_chars (cb_data b) \<noteq> []" by (simp add: to_chars_def)
  from execute_codec [OF this, of m hp stUrl rest] obtain n q where
    e: "http_parser_execute (fresh_parser m) (http_codec_settings hp stUrl rest) (to_chars (cb_data b)) = Some (n, q)"
      "n \<le> length (cb_data b)" "codec_phase (url_safe hp stUrl (to_chars (cb_data b))) Idle (parser_data q)" by (metis length_to_chars)
  have "url_safe hp stUrl (to_chars (cb_data b))" using assms by (simp add: url_safe_def)
  then obtain m' where m': "parser_data q = Some m'" using e(3) by (cases "parser_data q") auto
  have n: "n \<le> ReadableBytes b" "n < 2 ^ 31" using e(2) assms(1,2) length_cb_data [OF assms(1)] by simp_all
  note adv = AdvanceReadIndex_ok [OF assms(1) n]
  have same: "\<exists>n \<le> length (cb_data b). cb_data b = drop n (cb_data b)" by (rule exI [of _ 0]) simp
  show ?thesis
    using Decode_msg_execute [OF assms(1) False e(1) m', of Z] adv e(2) same assms(1) gunzip_is_decoding
    by (fastforce split: option.splits)
qed

text \<open>
  C35.  A malformed message is not refused: if the parser stops with an error other than those that can meet the first byte of a message, the
  flag \<open>is_decoding\<close> is still raised, \<open>Decode\<close> returns \<open>PAUSE\<close> instead of \<open>ERR\<close> and leaves the buffer as it
  is, so that the connection waits for more of a message that can never be completed.
\<close>

theorem http_errors_pause:
  assumes "cb_inv b" "cb_data b \<noteq> []"
    "http_parser_execute (fresh_parser m) (http_codec_settings hp stUrl rest) (to_chars (cb_data b)) = Some (n, q)"
    "http_errno q \<notin> {HPE_OK, HPE_CLOSED_CONNECTION, HPE_INVALID_METHOD, HPE_INVALID_CONSTANT, HPE_HEADER_OVERFLOW}"
    "parser_data q \<noteq> None"
  shows "HttpCodec_Decode_msg hp Z stUrl rest m b = Some (HPAUSE b)"
proof -
  obtain m' where m': "parser_data q = Some m'" using assms(5) by auto
  have "to_chars (cb_data b) \<noteq> []" using assms(2) by (simp add: to_chars_def)
  from execute_codec [OF this, of m hp stUrl rest] have "is_decoding m'"
    using assms(3,4) m' by (auto simp: first_errors_def)
  then show ?thesis using Decode_msg_execute [OF assms(1-3) m'] by simp
qed

subsection \<open>Samples\<close>

lemma text_buffer_inv: "length s < 2 ^ 31 \<Longrightarrow> cb_inv (text_buffer s)"
  by (simp add: text_buffer_def cb_inv_def CBuffer_new_def to_bytes_def)

lemma to_bytes_empty [simp]: "to_bytes s = [] \<longleftrightarrow> s = []"
  by (simp add: to_bytes_def)

lemma text_buffer_data [simp]: "cb_data (text_buffer s) = to_bytes s"
  by (simp add: text_buffer_def cb_data_def CBuffer_new_def segment_def to_bytes_def)

text \<open>Evaluation of the parser: the loop with its macros, the states of a request line, and the URL parser.\<close>

lemmas run_loop = http_parser_execute_def fresh_parser_def http_parser_init_def http_codec_settings_def exec_loop.simps exec_step_def
  exec_switch_def initial_marks_def url_states_def HTTP_MAX_HEADER_SIZE_def after_callback_def hp_defs on_msg_def CALLBACK_NOTIFY_er_def
  code_def IS_NUM_def goto_error_def HttpMsg_new_def COUNT_HEADER_SIZE_def CRLF_def CR_def LF_def NUL_def fail_def SET_ERRNO_def ULLONG_MAX_def
  PARSING_HEADER_def exec_finish_def is_marked_def callback_defs OnHeadersComplete_def x_start_req_or_res_def x_expect_def x_first_major_def
  x_res_or_resp_H_def CALLBACK_DATA_er_def

lemmas run_request = x_start_req_def first_method_def x_req_method_def x_req_spaces_before_url_def x_req_url_def x_req_http_start_def
  x_http_major_def x_first_minor_def x_req_http_minor_def more_minor_def x_req_line_almost_done_def x_header_field_start_def
  x_headers_almost_done_def x_headers_done_def complete_message_def NEW_MESSAGE_def http_should_keep_alive_def http_message_needs_eof_def
  start_state_def to_url_state_def switch_method_def http_method_str_def method_strings_def MARK_def OnUrl_def digit_def
  segment_def method_number_def method_list_def

lemmas run_url = parse_url_char_def IS_URL_CHAR_def BIT_AT_def normal_url_char_def http_parser_parse_url_def url_state_field_def url_start_def
  c_malloc_def strncpy_text_def IS_ALPHA_def LOWER_def c_str_def

abbreviation sample_settings :: "http_msg option http_parser_settings" where
  "sample_settings \<equiv> http_codec_settings (\<lambda>_. True, \<lambda>_. 0) (url_start 0 0) []"

lemma run_bad_version:
  "\<exists>q. http_parser_execute (fresh_parser HttpMsg_new) sample_settings ''HTTP/x'' = Some (5, q)
    \<and> http_errno q = HPE_INVALID_VERSION \<and> parser_data q \<noteq> None"
  by (simp add: run_loop)

lemma run_no_length:
  "\<exists>q m. http_parser_execute (fresh_parser HttpMsg_new) sample_settings (''DELETE / HTTP/1.1'' @ CRLF @ CRLF) = Some (21, q)
    \<and> http_errno q = HPE_OK \<and> parser_data q = Some m \<and> is_decoding m"
  by (simp add: run_loop run_request run_url)

lemma run_empty_line:
  "\<exists>q. http_parser_execute (fresh_parser HttpMsg_new) sample_settings CRLF = Some (2, q)
    \<and> http_errno q = HPE_OK \<and> parser_data q = Some HttpMsg_new"
  by (simp add: run_loop)

lemma run_two_requests:
  "\<exists>q m. http_parser_execute (fresh_parser HttpMsg_new) sample_settings
       (''GET / HTTP/1.1'' @ CRLF @ CRLF @ ''GET * HTTP/1.1'' @ CRLF @ CRLF) = Some (36, q)
    \<and> http_errno q = HPE_OK \<and> parser_data q = Some m \<and> \<not> is_decoding m \<and> msg_url m = ''*'' \<and> msg_headers m = []"
  by (simp add: run_loop run_request run_url)

theorem http_errors_pause_witness:
  "HttpCodec_Decode_msg (\<lambda>_. True, \<lambda>_. 0) \<lparr>z_zip = Some, z_unzip = Some, z_gzip = Some, z_gunzip = Some\<rparr> (url_start 0 0) [] HttpMsg_new
      (text_buffer ''HTTP/x'') = Some (HPAUSE (text_buffer ''HTTP/x''))"
proof -
  obtain q where "http_parser_execute (fresh_parser HttpMsg_new) sample_settings ''HTTP/x'' = Some (5, q)"
    "http_errno q = HPE_INVALID_VERSION" "parser_data q \<noteq> None" using run_bad_version by blast
  then show ?thesis by (intro http_errors_pause [OF text_buffer_inv, where n = 5 and q = q]) (simp_all del: to_bytes_Cons)
qed

theorem http_decode_returns_witness:
  "\<exists>r. HttpCodec_Decode_msg (\<lambda>_. True, \<lambda>_. 0) \<lparr>z_zip = Some, z_unzip = Some, z_gzip = Some, z_gunzip = Some\<rparr> (url_start 0 0) [] HttpMsg_new
      (text_buffer ''GET / HTTP/1.1'') = Some r"
proof -
  have "length (cb_data (text_buffer ''GET / HTTP/1.1'')) < 2 ^ 16" "fst (\<lambda>_. True, \<lambda>_. 0) = (\<lambda>_. True)" "field_len (url_start 0 0) UF_HOST = 0"
    by (simp_all add: url_start_def del: to_bytes_Cons)
  from http_decode_returns [OF text_buffer_inv this] show ?thesis by fastforce
qed

text \<open>
  Three messages and what becomes of them.  A complete \<open>DELETE\<close> without a body and without \<open>Content-Length\<close> is never
  delivered: the parser's length is then the largest 64-bit number, which no body reaches.  Of two pipelined requests only the second is
  delivered, and both are skipped.  An empty line is delivered as a message without method and URL.
\<close>

theorem http_decode_misreads:
  fixes Z :: zlib
  defines "dec \<equiv> HttpCodec_Decode_msg (\<lambda>_. True, \<lambda>_. 0) Z (url_start 0 0) [] HttpMsg_new"
  shows "(let b = text_buffer (''DELETE / HTTP/1.1'' @ CRLF @ CRLF) in dec b = Some (HPAUSE b))
    \<and> (\<exists>m b. dec (text_buffer (''GET / HTTP/1.1'' @ CRLF @ CRLF @ ''GET * HTTP/1.1'' @ CRLF @ CRLF)) = Some (HOK m b)
          \<and> msg_url m = ''*'' \<and> cb_data b = [])
    \<and> (\<exists>b. dec (text_buffer CRLF) = Some (HOK HttpMsg_new b) \<and> cb_data b = [])"
proof (intro conjI)
  have ne: "cb_data (text_buffer (c # s)) \<noteq> []" "cb_data (text_buffer CRLF) \<noteq> []" for c s by (simp_all add: to_bytes_def CRLF_def)
  have d: "s \<noteq> [] \<Longrightarrow> length s < 2 ^ 31 \<Longrightarrow> http_parser_execute (fresh_parser HttpMsg_new) sample_settings s = Some (n, q)
      \<Longrightarrow> parser_data q = Some m \<Longrightarrow> dec (text_buffer s) =
      Some (if is_decoding m then HPAUSE (text_buffer s) else if http_errno q \<noteq> HPE_OK then HERR (text_buffer s)
        else case gunzip_headers Z (msg_headers m) m of
          None \<Rightarrow> HERR (AdvanceReadIndex (text_buffer s) (to_int32 n)) | Some m'' \<Rightarrow> HOK m'' (AdvanceReadIndex (text_buffer s) (to_int32 n)))"
    for s n q m unfolding dec_def by (rule Decode_msg_execute) (simp_all add: text_buffer_inv)
  have skip: "length s < 2 ^ 31 \<Longrightarrow> cb_data (AdvanceReadIndex (text_buffer s) (to_int32 (length s))) = []" for s
    using AdvanceReadIndex_ok(2) [OF text_buffer_inv, of s "length s"] length_cb_data [OF text_buffer_inv, of s] by (simp add: to_bytes_def)
  show "let b = text_buffer (''DELETE / HTTP/1.1'' @ CRLF @ CRLF) in dec b = Some (HPAUSE b)"
    using run_no_length d [of "''DELETE / HTTP/1.1'' @ CRLF @ CRLF"] by (auto simp: CRLF_def)
  show "\<exists>m b. dec (text_buffer (''GET / HTTP/1.1'' @ CRLF @ CRLF @ ''GET * HTTP/1.1'' @ CRLF @ CRLF)) = Some (HOK m b)
      \<and> msg_url m = ''*'' \<and> cb_data b = []"
    using run_two_requests d [of "''GET / HTTP/1.1'' @ CRLF @ CRLF @ ''GET * HTTP/1.1'' @ CRLF @ CRLF"]
      skip [of "''GET / HTTP/1.1'' @ CRLF @ CRLF @ ''GET * HTTP/1.1'' @ CRLF @ CRLF"] by (auto simp: CRLF_def)
  show "\<exists>b. dec (text_buffer CRLF) = Some (HOK HttpMsg_new b) \<and> cb_data b = []"
    using run_empty_line d [of CRLF] skip [of CRLF] by (auto simp: CRLF_def HttpMsg_new_def)
qed

end
