(* ===== verification/HashCalc.thy ===== *)
theory HashCalc
  imports Prelude
begin

text \<open>
  The hash functions of \<open>src/code/Core/Util/src/util/HashCalc.cpp\<close> and \<open>src/code/Core/Util/src/util/bzhash.cpp\<close>, and the copies of
  the former that \<open>src/code/Core/Net/src/nodes/Nodes.cpp\<close> has as members.

  A key is a block of bytes with a length; a read outside the block is \<open>None\<close>.  A \<open>char\<close> is signed,
  so it is extended with its sign.  \<open>unsigned long\<close> has 64 bits.
\<close>

definition byte_at :: "byte list \<Rightarrow> nat \<Rightarrow> byte option" where
  "byte_at key x = (if x < length key then Some (key ! x) else None)"

text \<open>\<open>for (x = 0; x < key_length; x++)\<close>, with the value that the body computes from the character.\<close>

fun over_key :: "('s \<Rightarrow> byte \<Rightarrow> 's) \<Rightarrow> byte list \<Rightarrow> nat \<Rightarrow> nat \<Rightarrow> 's \<Rightarrow> 's option" where
  "over_key f key x 0 s = Some s"
| "over_key f key x (Suc n) s = do { c \<leftarrow> byte_at key x; over_key f key (x + 1) n (f s c) }"

subsection \<open>HashCalc.cpp\<close>

definition FNV_64_INIT :: u64 where "FNV_64_INIT = 0x100000001b3"
definition FNV_64_PRIME :: u64 where "FNV_64_PRIME = 0xcbf29ce484222325"

definition fnv1a_step :: "u32 \<Rightarrow> byte \<Rightarrow> u32" where
  "fnv1a_step hash c = (hash XOR scast c) * ucast FNV_64_PRIME"

text \<open>\<open>None\<close> as key is the null pointer.\<close>

definition CalcKeyHash :: "byte list option \<Rightarrow> nat \<Rightarrow> u32 option" where
  "CalcKeyHash key key_length =
     (case key of
        None \<Rightarrow> Some (ucast FNV_64_INIT)
      | Some key \<Rightarrow> over_key fnv1a_step key 0 key_length (ucast FNV_64_INIT))"

definition CalcStringSum :: "byte list \<Rightarrow> u32" where
  "CalcStringSum strKey =
     foldl (\<lambda>uiHash c. let iValue = sint c; iValue = (if iValue > 0 then iValue else iValue * -1)
                      in uiHash + word_of_int iValue) 0 strKey"

definition hash_fnv1_64 :: "byte list \<Rightarrow> nat \<Rightarrow> u32 option" where
  "hash_fnv1_64 key key_length =
     map_option ucast
       (over_key (\<lambda>hash c. (hash * FNV_64_PRIME) XOR scast c) key 0 key_length FNV_64_INIT)"

definition hash_fnv1a_64 :: "byte list \<Rightarrow> nat \<Rightarrow> u32 option" where
  "hash_fnv1a_64 key key_length = over_key fnv1a_step key 0 key_length (ucast FNV_64_INIT)"

definition ROT32 :: "u32 \<Rightarrow> nat \<Rightarrow> u32" where
  "ROT32 x y = push_bit y x OR drop_bit (32 - y) x"

definition c1 :: u32 where "c1 = 0xcc9e2d51"
definition c2 :: u32 where "c2 = 0x1b873593"

definition murmur_scramble :: "u32 \<Rightarrow> u32" where
  "murmur_scramble k = ROT32 (k * c1) 15 * c2"

definition murmur_block :: "u32 \<Rightarrow> u32 \<Rightarrow> u32" where
  "murmur_block hash k = ROT32 (hash XOR murmur_scramble k) 13 * 5 + 0xe6546b64"

definition murmur_final :: "u32 \<Rightarrow> u32 \<Rightarrow> u32" where
  "murmur_final hash len =
     (let hash = hash XOR len;
          hash = hash XOR drop_bit 16 hash;
          hash = hash * 0x85ebca6b;
          hash = hash XOR drop_bit 13 hash;
          hash = hash * 0xc2b2ae35
      in hash XOR drop_bit 16 hash)"

fun murmur_blocks :: "byte list \<Rightarrow> nat \<Rightarrow> nat \<Rightarrow> u32 \<Rightarrow> u32 option" where
  "murmur_blocks key i 0 hash = Some hash"
| "murmur_blocks key i (Suc n) hash = do {
     bs \<leftarrow> mem_read key (4 * i) 4;
     murmur_blocks key (i + 1) n (murmur_block hash (load32 bs)) }"

text \<open>The \<open>switch\<close> falls through from 3 to 2 to 1.\<close>

definition murmur_tail :: "byte list \<Rightarrow> nat \<Rightarrow> nat \<Rightarrow> u32 \<Rightarrow> u32 option" where
  "murmur_tail key tail r hash = do {
     k1 \<leftarrow> (if r = 3 then map_option (\<lambda>b. push_bit 16 (ucast b)) (byte_at key (tail + 2)) else Some 0);
     k1 \<leftarrow> (if r \<ge> 2 then map_option (\<lambda>b. k1 XOR push_bit 8 (ucast b)) (byte_at key (tail + 1)) else Some k1);
     (if r \<ge> 1 then map_option (\<lambda>b. hash XOR murmur_scramble (k1 XOR ucast b)) (byte_at key tail) else Some hash) }"

definition murmur3_32 :: "byte list \<Rightarrow> u32 \<Rightarrow> u32 \<Rightarrow> u32 option" where
  "murmur3_32 key len seed = do {
     let nblocks = unat len div 4;
     hash \<leftarrow> murmur_blocks key 0 nblocks seed;
     hash \<leftarrow> murmur_tail key (nblocks * 4) (unat len mod 4) hash;
     Some (murmur_final hash len) }"

subsection \<open>bzhash.cpp\<close>

definition next_seed :: "u64 \<Rightarrow> u64" where
  "next_seed seed = (seed * 125 + 3) mod 0x2AAAAB"

definition init_cell :: "u64 \<times> u64 list \<Rightarrow> nat \<Rightarrow> u64 \<times> u64 list" where
  "init_cell st index2 =
     (let (seed, tab) = st;
          seed1 = next_seed seed;
          temp1 = push_bit 16 (seed1 AND 0xFFFF);
          seed2 = next_seed seed1;
          temp2 = seed2 AND 0xFFFF
      in (seed2, tab[index2 := temp1 OR temp2]))"

definition initCryptrTable :: "u64 list \<Rightarrow> u64 list" where
  "initCryptrTable tab =
     snd (foldl (\<lambda>st index1. foldl init_cell st (map (\<lambda>i. index1 + i * 0x100) [0..<5])) (0x00100001, tab) [0..<0x100])"

definition c_toupper :: "byte \<Rightarrow> byte" where
  "c_toupper ch = (if 97 \<le> ch \<and> ch \<le> 122 then ch - 32 else ch)"

text \<open>The table is filled by the first call and not changed afterwards.\<close>

definition cryptTable :: "u64 list" where
  "cryptTable = initCryptrTable (replicate 0x500 0)"

fun bz_loop :: "byte list \<Rightarrow> nat \<Rightarrow> nat \<Rightarrow> u64 \<Rightarrow> u64 \<Rightarrow> u64 \<Rightarrow> u64 option" where
  "bz_loop str x 0 seed seed1 seed2 = Some seed1"
| "bz_loop str x (Suc n) seed seed1 seed2 = do {
     c \<leftarrow> byte_at str x;
     let ch = ucast (c_toupper c);
     let i = unat (push_bit 8 seed + ch);
     v \<leftarrow> (if i < length cryptTable then Some (cryptTable ! i) else None);
     let seed1 = v XOR (seed1 + seed2);
     let seed2 = ch + seed1 + seed2 + push_bit 5 seed2 + 3;
     bz_loop str (x + 1) n seed seed1 seed2 }"

definition bzhashstr :: "byte list \<Rightarrow> nat \<Rightarrow> u64 \<Rightarrow> u64 option" where
  "bzhashstr str n seed = bz_loop str 0 n seed 0x7FED7FED 0xEEEEEEEE"

definition HashStrToUint64 :: "byte list \<Rightarrow> nat \<Rightarrow> u64 option" where
  "HashStrToUint64 str n = do {
     hash1 \<leftarrow> bzhashstr str n 0;
     hash2 \<leftarrow> bzhashstr str n 1;
     Some (ucast (ucast hash1 :: u32) OR push_bit 32 (ucast (ucast hash2 :: u32))) }"

subsection \<open>The reference MurmurHash3\<close>

text \<open>
  The published definition over byte strings, independent of the code above: the groups of four bytes, little endian, are mixed into the
  seed one by one with multiplications and rotations, the remaining bytes count as the low bytes of one more number, and the length and an avalanche of
  multiplications and divisions close the hash.  The constants are those of the reference, in decimal.
\<close>

fun le_number :: "byte list \<Rightarrow> u32" where
  "le_number [] = 0"
| "le_number (b # bs) = ucast b + 256 * le_number bs"

definition m3_group :: "u32 \<Rightarrow> u32" where
  "m3_group k = word_rotl 15 (3432918353 * k) * 461845907"

definition m3_mix :: "u32 \<Rightarrow> u32 \<Rightarrow> u32" where
  "m3_mix h k = 5 * word_rotl 13 (h XOR m3_group k) + 3864292196"

definition m3_shift :: "nat \<Rightarrow> u32 \<Rightarrow> u32" where
  "m3_shift n h = h XOR (h div 2 ^ n)"

definition m3_avalanche :: "u32 \<Rightarrow> u32" where
  "m3_avalanche h = m3_shift 16 (3266489909 * m3_shift 13 (2246822507 * m3_shift 16 h))"

fun murmur_mix :: "u32 \<Rightarrow> byte list \<Rightarrow> u32" where
  "murmur_mix h (a # b # c # d # r) = murmur_mix (m3_mix h (le_number [a, b, c, d])) r"
| "murmur_mix h [] = h"
| "murmur_mix h r = h XOR m3_group (le_number r)"

definition murmur3 :: "byte list \<Rightarrow> u32 \<Rightarrow> u32" where
  "murmur3 bs seed = m3_avalanche (murmur_mix seed bs XOR word_of_nat (length bs))"

subsection \<open>Theorems\<close>

lemma ROT32_word_rotl: "0 < n \<Longrightarrow> n < 32 \<Longrightarrow> ROT32 x n = word_rotl n x"
proof (rule bit_word_eqI)
  fix k assume n: "0 < n" "n < 32" and k: "k < LENGTH(32)"
  have c: "k + (32 - n) = 32 - n + k" "32 + k - n = k + 32 - n" by simp_all
  show "bit (ROT32 x n) k \<longleftrightarrow> bit (word_rotl n x) k"
    using n k by (cases "k < n") (auto simp: ROT32_def bit_simps bit_word_rotl_iff mod_if c dest: bit_imp_le_length)
qed

lemma murmur_scramble_ref: "murmur_scramble k = m3_group k"
  by (simp add: murmur_scramble_def m3_group_def ROT32_word_rotl c1_def c2_def mult.commute)

lemma murmur_block_ref: "murmur_block h k = m3_mix h k"
  by (simp add: murmur_block_def m3_mix_def ROT32_word_rotl murmur_scramble_ref mult.commute)

lemma murmur_final_ref: "murmur_final h len = m3_avalanche (h XOR len)"
  by (simp add: murmur_final_def m3_avalanche_def m3_shift_def Let_def drop_bit_eq_div mult.commute)

lemma le_number_load32: "le_number [a, b, c, d] = le32_load a b c d"
  by (simp add: le32_load_def push_bit_eq_mult algebra_simps)

text \<open>The bytes of the tail occupy different bits, so that the exclusive or adds them.\<close>

lemma tail_sums:
  "push_bit 8 (ucast b) XOR ucast a = (ucast (a :: byte) + 256 * ucast (b :: byte) :: u32)"
  "(push_bit 16 (ucast c) XOR push_bit 8 (ucast b)) XOR ucast a
     = (ucast a + (256 * ucast b + 65536 * ucast (c :: byte)) :: u32)"
proof -
  have ab: "push_bit 8 (ucast b) + ucast a = (push_bit 8 (ucast b) XOR ucast a :: u32)"
    by (intro disjunctive_add_eq_xor bit_word_eqI) (auto simp: bit_simps dest: bit_imp_le_length)
  then show "push_bit 8 (ucast b) XOR ucast a = (ucast a + 256 * ucast b :: u32)"
    by (simp add: push_bit_eq_mult add.commute mult.commute)
  have abc: "push_bit 16 (ucast c) + (push_bit 8 (ucast b) XOR ucast a)
      = (push_bit 16 (ucast c) XOR (push_bit 8 (ucast b) XOR ucast a) :: u32)"
    by (intro disjunctive_add_eq_xor bit_word_eqI) (auto simp: bit_simps dest: bit_imp_le_length)
  show "(push_bit 16 (ucast c) XOR push_bit 8 (ucast b)) XOR ucast a
      = (ucast a + (256 * ucast b + 65536 * ucast c) :: u32)"
    unfolding xor.assoc abc [symmetric] unfolding ab [symmetric] by (simp add: push_bit_eq_mult algebra_simps)
qed

lemma murmur_tail_mix:
  "length r < 4 \<Longrightarrow> murmur_tail (pre @ r @ post) (length pre) (length r) h = Some (murmur_mix h r)"
  by (cases "(h, r)" rule: murmur_mix.cases)
     (auto simp: murmur_tail_def byte_at_def nth_append tail_sums murmur_scramble_ref algebra_simps)

lemma murmur_run_short:
  "length r < 4 \<Longrightarrow>
   (murmur_blocks (pre @ r @ post) i (length r div 4) h
      \<bind> murmur_tail (pre @ r @ post) (length pre + length r div 4 * 4) (length r mod 4)) = Some (murmur_mix h r)"
  using murmur_tail_mix [of r pre post h] by (simp del: murmur_mix.simps)

lemma murmur_run:
  "(murmur_blocks (pre @ bs @ post) i (length bs div 4) h
      \<bind> murmur_tail (pre @ bs @ post) (length pre + length bs div 4 * 4) (length bs mod 4)) = Some (murmur_mix h bs)"
  if "length pre = 4 * i"
  using that
proof (induction h bs arbitrary: pre i rule: murmur_mix.induct)
  case (1 h a b c d r)
  have four: "length (a # b # c # d # r) div 4 = Suc (length r div 4)"
    "length (a # b # c # d # r) mod 4 = length r mod 4"
    "4 + k = Suc (Suc (Suc (Suc k)))" for k
    by simp_all
  have "mem_read (pre @ (a # b # c # d # r) @ post) (4 * i) 4 = Some [a, b, c, d]"
    using 1(2) by (simp add: mem_read_def)
  with 1(1) [of "pre @ [a, b, c, d]" "i + 1"] 1(2) show ?case
    unfolding four by (simp add: le_number_load32 murmur_block_ref four add.commute add.left_commute del: le_number.simps)
qed (rule murmur_run_short, simp)+

lemma murmur3_32_all:
  assumes "length bs < 2 ^ 32"
  shows "murmur3_32 (bs @ post) (word_of_nat (length bs)) seed = Some (murmur3 bs seed)"
proof -
  have "unat (word_of_nat (length bs) :: u32) = length bs"
    using assms by (simp add: unsigned_of_nat take_bit_nat_eq_self)
  then show ?thesis
    using murmur_run [of "[]" 0 bs post seed] unfolding murmur3_32_def murmur3_def Let_def
    by (auto simp: Option.bind_eq_Some_conv murmur_final_ref)
qed

lemma length_init_cell [simp]: "length (snd (init_cell st i)) = length (snd st)"
  by (simp add: init_cell_def Let_def split: prod.split)

lemma length_cryptTable [simp]: "length cryptTable = 0x500"
proof -
  have cells: "length (snd (foldl init_cell st js)) = length (snd st)" for st js
    by (induction js arbitrary: st) simp_all
  have "length (snd (foldl (\<lambda>st index1. foldl init_cell st (f index1)) st js)) = length (snd st)" for st js f
    by (induction js arbitrary: st) (simp_all add: cells)
  from this [of "\<lambda>index1. map (\<lambda>i. index1 + i * 0x100) [0..<5]"] show ?thesis
    unfolding cryptTable_def initCryptrTable_def by simp
qed

lemma bz_index:
  assumes "seed \<le> 4"
  shows "unat (push_bit 8 seed + (ucast (c :: byte) :: u64)) < 0x500"
proof -
  have s: "unat seed \<le> 4" using assms by (simp add: word_le_nat_alt)
  have "unat (push_bit 8 seed :: u64) = 256 * unat seed"
    using s by (simp add: push_bit_eq_mult unat_word_ariths)
  moreover have "unat (ucast c :: u64) = unat c"
    using unat_byte_bound [of c] by (simp add: unsigned_ucast_eq take_bit_nat_eq_self)
  ultimately show ?thesis
    using s unat_byte_bound [of c] by (simp add: unat_word_ariths)
qed

lemma bz_loop_fold:
  assumes "seed \<le> 4"
  shows "\<exists>h. \<forall>pre bs post. map c_toupper bs = us \<longrightarrow>
           bz_loop (pre @ bs @ post) (length pre) (length bs) seed s1 s2 = Some h"
proof (induction us arbitrary: s1 s2)
  case Nil
  then show ?case by simp
next
  case (Cons u us)
  let ?ch = "ucast u :: u64"
  let ?s1 = "cryptTable ! unat (push_bit 8 seed + ?ch) XOR (s1 + s2)"
  let ?s2 = "?ch + ?s1 + s2 + push_bit 5 s2 + 3"
  obtain h where h: "\<And>pre bs post. map c_toupper bs = us \<Longrightarrow>
      bz_loop (pre @ bs @ post) (length pre) (length bs) seed ?s1 ?s2 = Some h"
    using Cons [of ?s1 ?s2] by blast
  show ?case
  proof (intro exI [of _ h] allI impI)
    fix pre bs post
    assume "map c_toupper bs = u # us"
    then obtain b bs' where bs: "bs = b # bs'" "c_toupper b = u" "map c_toupper bs' = us" by auto
    then show "bz_loop (pre @ bs @ post) (length pre) (length bs) seed s1 s2 = Some h"
      using h [of bs' "pre @ [b]" post] bz_index [OF assms, of u] by (simp add: byte_at_def Let_def)
  qed
qed



end
