(* ===== verification/Nodes.thy ===== *)
theory Nodes
  imports HashCalc ConHash UrlCoder "HOL-Library.Multiset"
begin

text \<open>
  The node table of the data layer, \<open>src/code/Core/Net/src/nodes/Nodes.cpp\<close>: for every type of node the nodes of that
  type, the points each of them has on a ketama ring, the ring, and the node that the polling
  selection returned last.

  \<open>mapNode2Hash\<close> is a \<open>std::unordered_map\<close>: it is the list of its entries in the order of iteration,
  and where an insertion puts the new entry is the argument \<open>order\<close> (the standard leaves it open;
  \<open>libstdc++\<close> puts it in front when its bucket is empty).  \<open>mapHash2Node\<close> is a \<open>std::map\<close>: the list
  of its entries in the order of the keys.  The MD5 of Crypto++ is the argument \<open>md5\<close>, which gives the
  sixteen bytes of a digest.

  A lookup returns \<open>Some None\<close> for \<open>false\<close>; \<open>None\<close> is undefined behaviour: reading the first entry
  of an empty map, or erasing the end iterator.
\<close>

subsection \<open>State\<close>

type_synonym node_entries = "(string \<times> u32 list) list"
type_synonym placing = "node_entries \<Rightarrow> string \<times> u32 list \<Rightarrow> node_entries"

record tagNode =
  mapNode2Hash :: node_entries
  itPollingNode :: string
  mapHash2Node :: "(u32 \<times> string) list"

record node_table =
  m_iHashAlgorithm :: int
  m_iVirtualNodeNum :: int
  m_mapNode :: "string \<rightharpoonup> tagNode"

definition HASH_fnv1_64 :: int where "HASH_fnv1_64 = 1"
definition HASH_murmur3_32 :: int where "HASH_murmur3_32 = 2"

subsection \<open>Hashes\<close>

text \<open>The members have the same text as the functions of \<open>HashCalc.cpp\<close>.\<close>

definition string_bytes :: "string \<Rightarrow> byte list" where
  "string_bytes s = map (\<lambda>c. word_of_nat (code c)) s"

definition key_hash :: "node_table \<Rightarrow> string \<Rightarrow> u32 option" where
  "key_hash N strHashKey =
     (let key = string_bytes strHashKey @ [0] in
      if m_iHashAlgorithm N = HASH_fnv1_64 then hash_fnv1_64 key (length strHashKey)
      else if m_iHashAlgorithm N = HASH_murmur3_32 then murmur3_32 key (word_of_nat (length strHashKey)) 0x000001b3
      else hash_fnv1a_64 key (length strHashKey))"

text \<open>\<open>snprintf\<close> into 32 characters cuts the name of a virtual node after 31.\<close>

definition virtual_name :: "string \<Rightarrow> nat \<Rightarrow> string" where
  "virtual_name strNodeIdentify i = take 31 (c_str strNodeIdentify @ ''##'' @ decimal i)"

definition digest_point :: "byte list \<Rightarrow> nat \<Rightarrow> u32" where
  "digest_point szDigest j =
     push_bit 24 (ucast (szDigest ! (3 + j * 4))) OR push_bit 16 (ucast (szDigest ! (2 + j * 4)))
       OR push_bit 8 (ucast (szDigest ! (1 + j * 4))) OR ucast (szDigest ! (j * 4))"

definition node_points :: "(string \<Rightarrow> byte list) \<Rightarrow> int \<Rightarrow> string \<Rightarrow> u32 list" where
  "node_points md5 vnodes strNodeIdentify =
     concat (map (\<lambda>i. map (digest_point (md5 (virtual_name strNodeIdentify i))) [0..<4]) [0..<nat vnodes div 4])"

subsection \<open>Lookup\<close>

definition ring_lookup :: "tagNode \<Rightarrow> u32 \<Rightarrow> string option" where
  "ring_lookup t uiHash = ring_owner uiHash (mapHash2Node t)"

definition GetNode_hash :: "node_table \<Rightarrow> string \<Rightarrow> u32 \<Rightarrow> string option option" where
  "GetNode_hash N strNodeType uiHash =
     (case m_mapNode N strNodeType of
        None \<Rightarrow> Some None
      | Some t \<Rightarrow> map_option Some (ring_lookup t uiHash))"

definition GetNode_key :: "node_table \<Rightarrow> string \<Rightarrow> string \<Rightarrow> string option option" where
  "GetNode_key N strNodeType strHashKey = do {
     uiKeyHash \<leftarrow> key_hash N strHashKey;
     (case m_mapNode N strNodeType of
        None \<Rightarrow> Some None
      | Some t \<Rightarrow> map_option Some (ring_lookup t uiKeyHash)) }"

text \<open>The entry after the one with key \<open>k\<close>, or the first one behind the last.\<close>

fun after_key :: "string \<Rightarrow> string list \<Rightarrow> string option" where
  "after_key k [] = None"
| "after_key k (x # xs) = (if x = k then (case xs of [] \<Rightarrow> None | y # _ \<Rightarrow> Some y) else after_key k xs)"

definition GetNode_polling :: "node_table \<Rightarrow> string \<Rightarrow> (string option \<times> node_table) option" where
  "GetNode_polling N strNodeType =
     (case m_mapNode N strNodeType of
        None \<Rightarrow> Some (None, N)
      | Some t \<Rightarrow>
          (case map fst (mapNode2Hash t) of
             [] \<Rightarrow> None
           | first # rest \<Rightarrow>
               let k = (case after_key (itPollingNode t) (first # rest) of None \<Rightarrow> first | Some k \<Rightarrow> k)
               in Some (Some k, N\<lparr>m_mapNode := (m_mapNode N)(strNodeType \<mapsto> t\<lparr>itPollingNode := k\<rparr>)\<rparr>)))"

definition GetNode_all :: "node_table \<Rightarrow> string \<Rightarrow> string set option" where
  "GetNode_all N strNodeType = map_option (\<lambda>t. set (map fst (mapNode2Hash t))) (m_mapNode N strNodeType)"

definition IsNodeType :: "node_table \<Rightarrow> string \<Rightarrow> string \<Rightarrow> bool" where
  "IsNodeType N strNodeIdentify strNodeType =
     (case m_mapNode N strNodeType of
        None \<Rightarrow> False
      | Some t \<Rightarrow> strNodeIdentify \<in> set (map fst (mapNode2Hash t)))"

subsection \<open>Changes\<close>

text \<open>
  Every point is appended to the vector of the entry that the iteration starts with, whichever node that
  is, and entered into the ring unless the point is taken.
\<close>

fun push_begin :: "node_entries \<Rightarrow> u32 \<Rightarrow> node_entries" where
  "push_begin [] k = []"
| "push_begin ((n, ks) # es) k = (n, ks @ [k]) # es"

definition ring_insert :: "u32 \<Rightarrow> string \<Rightarrow> (u32 \<times> string) list \<Rightarrow> (u32 \<times> string) list" where
  "ring_insert k n m = (if k \<in> fst ` set m then m else map_insert k n m)"

definition add_point :: "string \<Rightarrow> tagNode \<Rightarrow> u32 \<Rightarrow> tagNode" where
  "add_point n t k = t\<lparr>mapNode2Hash := push_begin (mapNode2Hash t) k, mapHash2Node := ring_insert k n (mapHash2Node t)\<rparr>"

text \<open>Both branches of \<open>AddNode\<close> insert the node with an empty vector, add its points and reset the polling.\<close>

definition enter_node :: "(string \<Rightarrow> byte list) \<Rightarrow> placing \<Rightarrow> int \<Rightarrow> string \<Rightarrow> tagNode \<Rightarrow> tagNode" where
  "enter_node md5 order vnodes n t =
     (let t = t\<lparr>mapNode2Hash := order (mapNode2Hash t) (n, [])\<rparr>;
          t = foldl (add_point n) t (node_points md5 vnodes n)
      in t\<lparr>itPollingNode := fst (hd (mapNode2Hash t))\<rparr>)"

definition AddNode :: "(string \<Rightarrow> byte list) \<Rightarrow> placing \<Rightarrow> node_table \<Rightarrow> string \<Rightarrow> string \<Rightarrow> node_table" where
  "AddNode md5 order N strNodeType strNodeIdentify =
     (case m_mapNode N strNodeType of
        None \<Rightarrow>
          N\<lparr>m_mapNode := (m_mapNode N)(strNodeType \<mapsto>
              enter_node md5 order (m_iVirtualNodeNum N) strNodeIdentify
                \<lparr>mapNode2Hash = [], itPollingNode = [], mapHash2Node = []\<rparr>)\<rparr>
      | Some t \<Rightarrow>
          if strNodeIdentify \<in> set (map fst (mapNode2Hash t)) then N
          else N\<lparr>m_mapNode := (m_mapNode N)(strNodeType \<mapsto>
                   enter_node md5 order (m_iVirtualNodeNum N) strNodeIdentify t)\<rparr>)"

fun erase_points :: "u32 list \<Rightarrow> (u32 \<times> string) list \<Rightarrow> (u32 \<times> string) list option" where
  "erase_points [] m = Some m"
| "erase_points (h # hs) m =
     (if h \<in> fst ` set m then erase_points hs (filter (\<lambda>kv. fst kv \<noteq> h) m) else None)"

definition DelNode :: "node_table \<Rightarrow> string \<Rightarrow> string \<Rightarrow> node_table option" where
  "DelNode N strNodeType strNodeIdentify =
     (case m_mapNode N strNodeType of
        None \<Rightarrow> Some N
      | Some t \<Rightarrow> do {
          t \<leftarrow> (case map_of (mapNode2Hash t) strNodeIdentify of
                 None \<Rightarrow> Some t
               | Some hs \<Rightarrow> do {
                   m \<leftarrow> erase_points hs (mapHash2Node t);
                   let es = filter (\<lambda>e. fst e \<noteq> strNodeIdentify) (mapNode2Hash t);
                   Some \<lparr>mapNode2Hash = es, itPollingNode = (case es of [] \<Rightarrow> [] | e # _ \<Rightarrow> fst e),
                         mapHash2Node = m\<rparr> });
          Some (N\<lparr>m_mapNode := (m_mapNode N)(strNodeType := (if mapNode2Hash t = [] then None else Some t))\<rparr>) })"

subsection \<open>The invariant\<close>

text \<open>
  What the table of a type should be: every node has its own points, the ring holds exactly the
  points of the nodes, and the polling stands on a node.  \<open>pts\<close> gives the points of a node.
\<close>

definition ring_of :: "(string \<Rightarrow> u32 list) \<Rightarrow> string set \<Rightarrow> (u32 \<times> string) set" where
  "ring_of pts S = {(h, n). n \<in> S \<and> h \<in> set (pts n)}"

definition tag_ok :: "(string \<Rightarrow> u32 list) \<Rightarrow> string set \<Rightarrow> tagNode \<Rightarrow> bool" where
  "tag_ok pts S t \<longleftrightarrow>
     S \<noteq> {} \<and> fst ` set (mapNode2Hash t) = S \<and> distinct (map fst (mapNode2Hash t))
     \<and> (\<forall>(n, hs) \<in> set (mapNode2Hash t). hs = pts n)
     \<and> ring_ok (mapHash2Node t) \<and> set (mapHash2Node t) = ring_of pts S
     \<and> itPollingNode t \<in> S"

lemma tag_okD:
  assumes "tag_ok pts S t"
  shows "fst ` set (mapNode2Hash t) = S" "distinct (map fst (mapNode2Hash t))"
    "\<forall>(n, hs) \<in> set (mapNode2Hash t). hs = pts n" "ring_ok (mapHash2Node t)" "set (mapHash2Node t) = ring_of pts S"
  using assms by (simp_all add: tag_ok_def)

definition points_free :: "(string \<Rightarrow> u32 list) \<Rightarrow> string set \<Rightarrow> bool" where
  "points_free pts U \<longleftrightarrow>
     (\<forall>a \<in> U. pts a \<noteq> [] \<and> distinct (pts a))
     \<and> (\<forall>a \<in> U. \<forall>b \<in> U. a \<noteq> b \<longrightarrow> set (pts a) \<inter> set (pts b) = {})"

lemma points_free_inj:
  "points_free pts U \<Longrightarrow> a \<in> U \<Longrightarrow> b \<in> U \<Longrightarrow> h \<in> set (pts a) \<Longrightarrow> h \<in> set (pts b) \<Longrightarrow> a = b"
  by (auto simp: points_free_def)

lemma ring_of_insert: "ring_of pts (insert n S) = ring_of pts S \<union> {(h, n) |h. h \<in> set (pts n)}"
  by (auto simp: ring_of_def)

lemma add_points:
  assumes "mapNode2Hash t = (m, ks) # es" "ring_ok (mapHash2Node t)" "distinct ps"
    and "set ps \<inter> fst ` set (mapHash2Node t) = {}"
  shows "mapNode2Hash (foldl (add_point n) t ps) = (m, ks @ ps) # es
       \<and> ring_ok (mapHash2Node (foldl (add_point n) t ps))
       \<and> set (mapHash2Node (foldl (add_point n) t ps)) = set (mapHash2Node t) \<union> {(h, n) |h. h \<in> set ps}"
  using assms
proof (induction ps arbitrary: t ks)
  case (Cons p ps)
  let ?t = "add_point n t p"
  have "p \<notin> fst ` set (mapHash2Node t)" using Cons.prems(4) by auto
  then have t: "mapNode2Hash ?t = (m, ks @ [p]) # es" "ring_ok (mapHash2Node ?t)"
    "set (mapHash2Node ?t) = insert (p, n) (set (mapHash2Node t))"
    using Cons.prems(1,2) by (simp_all add: add_point_def ring_insert_def ring_ok_insert)
  have "set ps \<inter> fst ` set (mapHash2Node ?t) = {}" "distinct ps" using Cons.prems(3,4) t(3) by auto
  with Cons.IH [OF t(1,2)] show ?case by (auto simp: t(3))
qed simp

lemma enter_node_ok:
  assumes free: "points_free pts U" "n \<in> U" "S \<subseteq> U" "n \<notin> S" and pts: "pts = node_points md5 vnodes"
    and order: "order (mapNode2Hash t) (n, []) = (n, []) # mapNode2Hash t"
    and t: "fst ` set (mapNode2Hash t) = S" "distinct (map fst (mapNode2Hash t))"
      "\<forall>(n, hs) \<in> set (mapNode2Hash t). hs = pts n" "ring_ok (mapHash2Node t)" "set (mapHash2Node t) = ring_of pts S"
  shows "tag_ok pts (insert n S) (enter_node md5 order vnodes n t)"
proof -
  let ?t = "t\<lparr>mapNode2Hash := (n, []) # mapNode2Hash t\<rparr>"
  have "set (pts n) \<inter> fst ` set (mapHash2Node t) = {}" "distinct (pts n)"
    using free t(5) by (fastforce simp: points_free_def ring_of_def)+
  then have "mapNode2Hash (foldl (add_point n) ?t (pts n)) = (n, pts n) # mapNode2Hash t"
    "ring_ok (mapHash2Node (foldl (add_point n) ?t (pts n)))"
    "set (mapHash2Node (foldl (add_point n) ?t (pts n))) = ring_of pts (insert n S)"
    using add_points [of ?t n "[]" "mapNode2Hash t" "pts n" n] t(4,5) by (simp_all add: ring_of_insert)
  then show ?thesis
    using t(1-3) free(4) order by (auto simp: tag_ok_def enter_node_def Let_def pts)
qed

lemma erase_points_filter:
  "ring_ok m \<Longrightarrow> distinct hs \<Longrightarrow> set hs \<subseteq> fst ` set m \<Longrightarrow>
   erase_points hs m = Some (filter (\<lambda>kv. fst kv \<notin> set hs) m)"
proof (induction hs arbitrary: m)
  case (Cons h hs)
  have "set hs \<subseteq> fst ` set (filter (\<lambda>kv. fst kv \<noteq> h) m)" using Cons.prems(2,3) by fastforce
  with Cons.IH [OF ring_ok_filter [OF Cons.prems(1)]] Cons.prems show ?case
    by (auto simp: conj_commute intro!: filter_cong)
qed simp

fun entry_ok :: "(string \<Rightarrow> u32 list) \<Rightarrow> string set \<Rightarrow> tagNode option \<Rightarrow> bool" where
  "entry_ok pts S None \<longleftrightarrow> S = {}"
| "entry_ok pts S (Some t) \<longleftrightarrow> tag_ok pts S t"

definition nodes_ok :: "(string \<Rightarrow> u32 list) \<Rightarrow> (string \<Rightarrow> string set) \<Rightarrow> node_table \<Rightarrow> bool" where
  "nodes_ok pts A N \<longleftrightarrow> (\<forall>ty. entry_ok pts (A ty) (m_mapNode N ty))"

lemma nodes_ok_entry: "nodes_ok pts A N \<Longrightarrow> entry_ok pts (A ty) (m_mapNode N ty)"
  by (simp add: nodes_ok_def)

lemma nodes_ok_upd:
  "nodes_ok pts A N \<Longrightarrow> entry_ok pts S v \<Longrightarrow> nodes_ok pts (A(ty := S)) (N\<lparr>m_mapNode := (m_mapNode N)(ty := v)\<rparr>)"
  by (simp add: nodes_ok_def)

lemma AddNode_ok:
  assumes "nodes_ok pts A N" "points_free pts U" "n \<in> U" "A ty \<subseteq> U" "pts = node_points md5 (m_iVirtualNodeNum N)"
    and "\<And>es x. order es x = x # es"
  shows "nodes_ok pts (A(ty := insert n (A ty))) (AddNode md5 order N ty n)
       \<and> m_iVirtualNodeNum (AddNode md5 order N ty n) = m_iVirtualNodeNum N"
proof (cases "m_mapNode N ty")
  case None
  then have "A ty = {}" using nodes_ok_entry [OF assms(1), of ty] by simp
  moreover have "tag_ok pts {n} (enter_node md5 order (m_iVirtualNodeNum N) n \<lparr>mapNode2Hash = [], itPollingNode = [], mapHash2Node = []\<rparr>)"
    using enter_node_ok [OF assms(2,3), of "{}"] assms(5,6) by (simp add: ring_ok_def ring_of_def)
  ultimately show ?thesis using None nodes_ok_upd [OF assms(1)] by (simp add: AddNode_def)
next
  case (Some t)
  then have t: "tag_ok pts (A ty) t" using nodes_ok_entry [OF assms(1), of ty] by simp
  then have mem: "n \<in> set (map fst (mapNode2Hash t)) \<longleftrightarrow> n \<in> A ty" by (simp add: tag_ok_def)
  show ?thesis
  proof (cases "n \<in> A ty")
    case True
    then have "A(ty := insert n (A ty)) = A" by (simp add: insert_absorb)
    moreover have "AddNode md5 order N ty n = N" using True mem Some by (simp add: AddNode_def)
    ultimately show ?thesis using assms(1) by simp
  next
    case False
    then have "tag_ok pts (insert n (A ty)) (enter_node md5 order (m_iVirtualNodeNum N) n t)"
      by (rule enter_node_ok [OF assms(2-4) _ assms(5)]) (use assms(6) tag_okD [OF t] in simp_all)
    moreover have "AddNode md5 order N ty n = N\<lparr>m_mapNode := (m_mapNode N)(ty := Some (enter_node md5 order (m_iVirtualNodeNum N) n t))\<rparr>"
      using False mem Some by (simp add: AddNode_def)
    ultimately show ?thesis using nodes_ok_upd [OF assms(1)] by simp
  qed
qed

lemma entry_okI:
  assumes "fst ` set es = S" "distinct (map fst es)" "\<forall>(n, hs) \<in> set es. hs = pts n" "ring_ok m" "set m = ring_of pts S"
  shows "entry_ok pts S (if es = [] then None else
     Some \<lparr>mapNode2Hash = es, itPollingNode = (case es of [] \<Rightarrow> [] | e # _ \<Rightarrow> fst e), mapHash2Node = m\<rparr>)"
  using assms by (cases es) (auto simp: tag_ok_def)

lemma DelNode_ok:
  assumes "nodes_ok pts A N" "points_free pts U" "A ty \<subseteq> U"
  shows "\<exists>N'. DelNode N ty n = Some N' \<and> nodes_ok pts (A(ty := A ty - {n})) N'
       \<and> m_iVirtualNodeNum N' = m_iVirtualNodeNum N"
proof (cases "m_mapNode N ty")
  case None
  then have "A(ty := A ty - {n}) = A" using nodes_ok_entry [OF assms(1), of ty] by (simp add: fun_upd_idem)
  then show ?thesis using None assms(1) by (simp add: DelNode_def)
next
  case (Some t)
  then have t: "tag_ok pts (A ty) t" using nodes_ok_entry [OF assms(1), of ty] by simp
  show ?thesis
  proof (cases "map_of (mapNode2Hash t) n")
    case None
    then have "n \<notin> A ty" "mapNode2Hash t \<noteq> []" using t by (auto simp: tag_ok_def map_of_eq_None_iff)
    moreover from this have "A(ty := A ty - {n}) = A" by simp
    ultimately show ?thesis
      using Some None t nodes_ok_upd [OF assms(1), of "A ty" "Some t" ty] by (simp add: DelNode_def)
  next
    case hs: (Some hs)
    have mem: "(n, hs) \<in> set (mapNode2Hash t)" by (rule map_of_SomeD [OF hs])
    have n: "n \<in> A ty" using tag_okD(1) [OF t] mem by (metis fst_conv image_eqI)
    have hs_pts: "hs = pts n" using bspec [OF tag_okD(3) [OF t] mem] by simp
    let ?m = "filter (\<lambda>kv. fst kv \<notin> set hs) (mapHash2Node t)"
    let ?es = "filter (\<lambda>e. fst e \<noteq> n) (mapNode2Hash t)"
    have own: "h \<in> set (pts n) \<longleftrightarrow> k = n" if "(h, k) \<in> set (mapHash2Node t)" for h k
    proof -
      have "k \<in> A ty" "h \<in> set (pts k)" using that tag_okD(5) [OF t] by (auto simp: ring_of_def)
      then show ?thesis using points_free_inj [OF assms(2), of k n h] assms(3) n by blast
    qed
    have "erase_points hs (mapHash2Node t) = Some ?m"
    proof (rule erase_points_filter [OF tag_okD(4) [OF t]])
      show "distinct hs" using n hs_pts assms(2,3) by (auto simp: points_free_def)
      show "set hs \<subseteq> fst ` set (mapHash2Node t)"
        unfolding tag_okD(5) [OF t] hs_pts using n by (auto simp: ring_of_def image_iff)
    qed
    moreover have "set ?m = ring_of pts (A ty - {n})"
      using tag_okD(5) [OF t] n hs_pts own by (auto simp: ring_of_def)
    moreover have "fst ` set ?es = A ty - {n}" using tag_okD(1) [OF t] by auto
    ultimately have "entry_ok pts (A ty - {n}) (if ?es = [] then None else
        Some \<lparr>mapNode2Hash = ?es, itPollingNode = (case ?es of [] \<Rightarrow> [] | e # _ \<Rightarrow> fst e), mapHash2Node = ?m\<rparr>)"
      using tag_okD(2-4) [OF t] by (intro entry_okI) (simp_all add: ring_ok_filter distinct_map_filter)
    then show ?thesis
      using Some hs \<open>erase_points hs (mapHash2Node t) = Some ?m\<close> nodes_ok_upd [OF assms(1)]
      by (auto simp: DelNode_def Let_def)
  qed
qed

subsection \<open>Refinement of a set of nodes per type\<close>

datatype node_op = AddN string string | DelN string string | PollN string

fun nodes_exec :: "(string \<Rightarrow> byte list) \<Rightarrow> placing \<Rightarrow> node_table \<Rightarrow> node_op \<Rightarrow> node_table option" where
  "nodes_exec md5 order N (AddN ty n) = Some (AddNode md5 order N ty n)"
| "nodes_exec md5 order N (DelN ty n) = DelNode N ty n"
| "nodes_exec md5 order N (PollN ty) = map_option snd (GetNode_polling N ty)"

fun nodes_run :: "(string \<Rightarrow> byte list) \<Rightarrow> placing \<Rightarrow> node_table \<Rightarrow> node_op list \<Rightarrow> node_table option" where
  "nodes_run md5 order N [] = Some N"
| "nodes_run md5 order N (op # ops) = nodes_exec md5 order N op \<bind> (\<lambda>N. nodes_run md5 order N ops)"

fun spec_exec :: "(string \<Rightarrow> string set) \<Rightarrow> node_op \<Rightarrow> string \<Rightarrow> string set" where
  "spec_exec A (AddN ty n) = A(ty := insert n (A ty))"
| "spec_exec A (DelN ty n) = A(ty := A ty - {n})"
| "spec_exec A (PollN ty) = A"

fun op_node :: "node_op \<Rightarrow> string option" where
  "op_node (AddN ty n) = Some n"
| "op_node _ = None"

definition Nodes_new :: "int \<Rightarrow> int \<Rightarrow> node_table" where
  "Nodes_new alg vnodes = \<lparr>m_iHashAlgorithm = alg, m_iVirtualNodeNum = vnodes, m_mapNode = Map.empty\<rparr>"

lemma after_key_in: "after_key k ks = Some k' \<Longrightarrow> k' \<in> set ks"
  by (induction ks) (auto split: if_splits list.splits)

lemma GetNode_polling_ok:
  assumes "nodes_ok pts A N"
  shows "\<exists>r N'. GetNode_polling N ty = Some (r, N') \<and> nodes_ok pts A N' \<and> m_iVirtualNodeNum N' = m_iVirtualNodeNum N
       \<and> (case r of None \<Rightarrow> A ty = {} | Some n \<Rightarrow> n \<in> A ty)"
proof (cases "m_mapNode N ty")
  case None
  then show ?thesis using assms nodes_ok_entry [OF assms, of ty] by (simp add: GetNode_polling_def)
next
  case (Some t)
  then have t: "tag_ok pts (A ty) t" using nodes_ok_entry [OF assms, of ty] by simp
  then obtain first rest where keys: "map fst (mapNode2Hash t) = first # rest"
    by (cases "map fst (mapNode2Hash t)") (auto simp: tag_ok_def)
  define k where "k = (case after_key (itPollingNode t) (first # rest) of None \<Rightarrow> first | Some k \<Rightarrow> k)"
  have "k \<in> set (first # rest)"
    using after_key_in [of "itPollingNode t" "first # rest"] by (auto simp: k_def split: option.split)
  then have "k \<in> A ty" using tag_okD(1) [OF t] keys by (metis list.set_map)
  moreover from this have "tag_ok pts (A ty) (t\<lparr>itPollingNode := k\<rparr>)" using t by (simp add: tag_ok_def)
  then have "nodes_ok pts A (N\<lparr>m_mapNode := (m_mapNode N)(ty \<mapsto> t\<lparr>itPollingNode := k\<rparr>)\<rparr>)"
    using nodes_ok_upd [OF assms, of "A ty" "Some (t\<lparr>itPollingNode := k\<rparr>)" ty] by simp
  ultimately show ?thesis
    using Some keys by (simp add: GetNode_polling_def Let_def del: after_key.simps flip: k_def)
qed

lemma nodes_run_ok:
  assumes "nodes_ok pts A N" "points_free pts U" "\<forall>ty. A ty \<subseteq> U" "pts = node_points md5 (m_iVirtualNodeNum N)"
    and "\<And>es x. order es x = x # es" and "\<forall>op \<in> set ops. \<forall>n. op_node op = Some n \<longrightarrow> n \<in> U"
  shows "\<exists>N'. nodes_run md5 order N ops = Some N' \<and> nodes_ok pts (foldl spec_exec A ops) N'"
  using assms(1,3,4,6)
proof (induction ops arbitrary: A N)
  case (Cons op ops)
  have "\<exists>N'. nodes_exec md5 order N op = Some N' \<and> nodes_ok pts (spec_exec A op) N'
      \<and> m_iVirtualNodeNum N' = m_iVirtualNodeNum N"
  proof (cases op)
    case (AddN ty n)
    then show ?thesis using AddNode_ok [OF Cons.prems(1) assms(2), of n ty md5 order] Cons.prems assms(5) by simp
  next
    case (DelN ty n)
    then show ?thesis using DelNode_ok [OF Cons.prems(1) assms(2), of ty n] Cons.prems(2) by simp
  next
    case (PollN ty)
    then show ?thesis using GetNode_polling_ok [OF Cons.prems(1), of ty] by auto
  qed
  then obtain N' where N': "nodes_exec md5 order N op = Some N'" "nodes_ok pts (spec_exec A op) N'"
    "m_iVirtualNodeNum N' = m_iVirtualNodeNum N" by blast
  moreover have "\<forall>ty. spec_exec A op ty \<subseteq> U" using Cons.prems(2,4) by (cases op) auto
  ultimately show ?case using Cons.IH [OF N'(2)] Cons.prems by simp
qed simp

lemma GetNode_hash_ok:
  assumes "nodes_ok pts A N" "points_free pts U" "A ty \<subseteq> U"
  shows "if A ty = {} then GetNode_hash N ty h = Some None
         else \<exists>p n. GetNode_hash N ty h = Some (Some n) \<and> owns h (p, n) (ring_of pts (A ty))"
proof (cases "m_mapNode N ty")
  case None
  then show ?thesis using nodes_ok_entry [OF assms(1), of ty] by (simp add: GetNode_hash_def)
next
  case (Some t)
  then have t: "tag_ok pts (A ty) t" using nodes_ok_entry [OF assms(1), of ty] by simp
  then obtain n where n: "n \<in> A ty" by (auto simp: tag_ok_def)
  then have "pts n \<noteq> []" using assms(2,3) by (auto simp: points_free_def)
  then have "mapHash2Node t \<noteq> []" using n tag_okD(5) [OF t] by (cases "pts n") (auto simp: ring_of_def)
  then obtain kv where "ring_owner h (mapHash2Node t) = Some (snd kv)" "owns h kv (set (mapHash2Node t))"
    using ring_owner_owns [OF tag_okD(4) [OF t]] by blast
  then show ?thesis
    using Some n tag_okD(5) [OF t] by (cases kv) (auto simp: GetNode_hash_def ring_lookup_def)
qed

text \<open>
  The node table implements a set of nodes per type.  After any sequence of additions, removals and
  polls, none of them undefined, \<open>IsNodeType\<close> and the lookup of all nodes give exactly the nodes that
  were added and not removed since, and the lookup by hash returns the owner of the hash on the
  ring of the points of these nodes, or \<open>false\<close> if the type has none.  This holds if no two
  points of the nodes are equal and the hash table iterates a new entry first.
\<close>

theorem nodes_refine_sets:
  assumes "points_free (node_points md5 vnodes) U" "\<And>es x. order es x = x # es"
    and "\<forall>op \<in> set ops. \<forall>n. op_node op = Some n \<longrightarrow> n \<in> U" "A = foldl spec_exec (\<lambda>_. {}) ops"
  shows "\<exists>N. nodes_run md5 order (Nodes_new alg vnodes) ops = Some N
    \<and> (\<forall>ty. GetNode_all N ty = (if A ty = {} then None else Some (A ty)))
    \<and> (\<forall>ty n. IsNodeType N n ty \<longleftrightarrow> n \<in> A ty)
    \<and> (\<forall>ty h. if A ty = {} then GetNode_hash N ty h = Some None
              else \<exists>p n. GetNode_hash N ty h = Some (Some n) \<and> owns h (p, n) (ring_of (node_points md5 vnodes) (A ty)))"
proof -
  let ?pts = "node_points md5 vnodes"
  have "nodes_ok ?pts (\<lambda>_. {}) (Nodes_new alg vnodes)" by (simp add: nodes_ok_def Nodes_new_def)
  then obtain N where N: "nodes_run md5 order (Nodes_new alg vnodes) ops = Some N" "nodes_ok ?pts A N"
    using nodes_run_ok [OF _ assms(1) _ _ assms(2,3), of "\<lambda>_. {}"] unfolding assms(4)
    by (metis Nodes_new_def empty_subsetI node_table.select_convs(2))
  have "(\<forall>ty. A' ty \<subseteq> U) \<Longrightarrow> (\<forall>ty. foldl spec_exec A' ops ty \<subseteq> U)" for A'
    using assms(3)
  proof (induction ops arbitrary: A')
    case (Cons op ops)
    then have "\<forall>ty. spec_exec A' op ty \<subseteq> U" by (cases op) auto
    with Cons show ?case by simp
  qed simp
  then have A: "A ty \<subseteq> U" for ty using assms(4) by simp
  have "GetNode_all N ty = (if A ty = {} then None else Some (A ty)) \<and> (IsNodeType N n ty \<longleftrightarrow> n \<in> A ty)" for ty n
  proof (cases "m_mapNode N ty")
    case None
    then show ?thesis using nodes_ok_entry [OF N(2), of ty] by (simp add: GetNode_all_def IsNodeType_def)
  next
    case (Some t)
    then have t: "tag_ok ?pts (A ty) t" using nodes_ok_entry [OF N(2), of ty] by simp
    then have "A ty \<noteq> {}" by (simp add: tag_ok_def)
    then show ?thesis using Some tag_okD(1) [OF t] by (simp add: GetNode_all_def IsNodeType_def)
  qed
  then show ?thesis using N GetNode_hash_ok [OF N(2) assms(1) A] by blast
qed

definition sample_md5 :: "string \<Rightarrow> byte list" where
  "sample_md5 s = (let x = (if hd s = CHR ''a'' then 1 else 2) in [x, 0, 0, 0, x, 1, 0, 0, x, 2, 0, 0, x, 3, 0, 0])"

lemma sample_points:
  "node_points sample_md5 4 ''a'' = [1, 257, 513, 769]" "node_points sample_md5 4 ''b'' = [2, 258, 514, 770]"
proof -
  have "[0..<4] = [0, 1, 2, 3 :: nat]" by (simp add: upt_rec)
  then show "node_points sample_md5 4 ''a'' = [1, 257, 513, 769]" "node_points sample_md5 4 ''b'' = [2, 258, 514, 770]"
    by (simp_all add: node_points_def sample_md5_def virtual_name_def c_str_def digest_point_def)
qed

lemma sample_points_free: "points_free (node_points sample_md5 4) {''a'', ''b''}"
  by (simp add: points_free_def sample_points)

theorem nodes_refine_sets_witness:
  "\<exists>N. nodes_run sample_md5 (\<lambda>es x. x # es) (Nodes_new 0 4) [AddN ''t'' ''a'', AddN ''t'' ''b'', PollN ''t'', DelN ''t'' ''a''] = Some N
     \<and> GetNode_all N ''t'' = Some {''b''} \<and> \<not> IsNodeType N ''a'' ''t''
     \<and> (\<exists>p n. GetNode_hash N ''t'' 5 = Some (Some n) \<and> owns 5 (p, n) (ring_of (node_points sample_md5 4) {''b''}))"
proof -
  let ?ops = "[AddN ''t'' ''a'', AddN ''t'' ''b'', PollN ''t'', DelN ''t'' ''a'']"
  let ?A = "foldl spec_exec (\<lambda>_. {}) ?ops"
  have A: "?A ''t'' = {''b''}" by auto
  have U: "\<forall>op \<in> set ?ops. \<forall>n. op_node op = Some n \<longrightarrow> n \<in> {''a'', ''b''}" by simp
  obtain N where "nodes_run sample_md5 (\<lambda>es x. x # es) (Nodes_new 0 4) ?ops = Some N"
    "GetNode_all N ''t'' = (if ?A ''t'' = {} then None else Some (?A ''t''))" "IsNodeType N ''a'' ''t'' \<longleftrightarrow> ''a'' \<in> ?A ''t''"
    "if ?A ''t'' = {} then GetNode_hash N ''t'' 5 = Some None
     else \<exists>p n. GetNode_hash N ''t'' 5 = Some (Some n) \<and> owns 5 (p, n) (ring_of (node_points sample_md5 4) (?A ''t''))"
    using nodes_refine_sets [OF sample_points_free refl U refl, of 0] by blast
  then show ?thesis unfolding A by auto
qed

subsection \<open>Membership for every order of iteration\<close>

text \<open>
  What holds wherever the hash table puts a new entry: the vectors of the entries together hold every point of the ring once, although not each under its
  own node.  \<open>H\<close> are the nodes that were ever added to the type; \<open>d\<close> tells whether nodes were removed.
\<close>

definition tag_weak :: "(string \<Rightarrow> u32 list) \<Rightarrow> bool \<Rightarrow> string set \<Rightarrow> string set \<Rightarrow> tagNode \<Rightarrow> bool" where
  "tag_weak pts d H S t \<longleftrightarrow>
     fst ` set (mapNode2Hash t) = S \<and> distinct (map fst (mapNode2Hash t))
     \<and> distinct (concat (map snd (mapNode2Hash t))) \<and> set (concat (map snd (mapNode2Hash t))) = fst ` set (mapHash2Node t)
     \<and> ring_ok (mapHash2Node t) \<and> set (mapHash2Node t) \<subseteq> ring_of pts H \<and> (\<not> d \<longrightarrow> set (mapHash2Node t) = ring_of pts S)"

fun weak_entry :: "(string \<Rightarrow> u32 list) \<Rightarrow> bool \<Rightarrow> string set \<Rightarrow> string set \<Rightarrow> tagNode option \<Rightarrow> bool" where
  "weak_entry pts d H S None \<longleftrightarrow> S = {}"
| "weak_entry pts d H S (Some t) \<longleftrightarrow> S \<noteq> {} \<and> tag_weak pts d H S t"

definition weak_ok :: "(string \<Rightarrow> u32 list) \<Rightarrow> bool \<Rightarrow> (string \<Rightarrow> string set) \<Rightarrow> (string \<Rightarrow> string set) \<Rightarrow> node_table \<Rightarrow> bool" where
  "weak_ok pts d H A N \<longleftrightarrow> (\<forall>ty. A ty \<subseteq> H ty \<and> weak_entry pts d (H ty) (A ty) (m_mapNode N ty))"

lemma weak_okD: "weak_ok pts d H A N \<Longrightarrow> weak_entry pts d (H ty) (A ty) (m_mapNode N ty)" "weak_ok pts d H A N \<Longrightarrow> A ty \<subseteq> H ty"
  by (simp_all add: weak_ok_def)

lemma weak_ok_upd:
  "weak_ok pts d H A N \<Longrightarrow> S \<subseteq> H' \<Longrightarrow> weak_entry pts d H' S v \<Longrightarrow>
   weak_ok pts d (H(ty := H')) (A(ty := S)) (N\<lparr>m_mapNode := (m_mapNode N)(ty := v)\<rparr>)"
  by (simp add: weak_ok_def)

lemma weak_ok_mono: "weak_ok pts d H A N \<Longrightarrow> weak_ok pts True H A N"
proof -
  have "weak_entry pts d h a v \<Longrightarrow> weak_entry pts True h a v" for h a v by (cases v) (auto simp: tag_weak_def)
  then show "weak_ok pts d H A N \<Longrightarrow> weak_ok pts True H A N" by (simp add: weak_ok_def)
qed

lemma mset_vectors: "mset (concat (map snd es)) = (\<Sum>e\<in>#mset es. mset (snd e))"
  by (induction es) auto

lemma enter_node_weak:
  assumes free: "points_free pts U" "n \<in> U" "H \<subseteq> U" "n \<notin> H" "S \<subseteq> H" and pts: "pts = node_points md5 vnodes"
    and order: "mset (order (mapNode2Hash t) (n, [])) = add_mset (n, []) (mset (mapNode2Hash t))" and t: "tag_weak pts d H S t"
  shows "tag_weak pts d (insert n H) (insert n S) (enter_node md5 order vnodes n t)"
proof -
  let ?es = "order (mapNode2Hash t) (n, [])" let ?t = "t\<lparr>mapNode2Hash := ?es\<rparr>"
  obtain m ks es where es: "?es = (m, ks) # es" using order by (cases ?es) auto
  have "(h, m) \<in> set (mapHash2Node t) \<Longrightarrow> m \<in> H \<and> h \<in> set (pts m)" for h m using t by (auto simp: tag_weak_def ring_of_def)
  then have "(h, m) \<in> set (mapHash2Node t) \<Longrightarrow> h \<notin> set (pts n)" for h m using points_free_inj [OF free(1,2), of m h] free(3,4) by blast
  then have ring: "set (pts n) \<inter> fst ` set (mapHash2Node t) = {}" "distinct (pts n)"
    using free(1,2) by (force, simp add: points_free_def)
  then have u: "mapNode2Hash (foldl (add_point n) ?t (pts n)) = (m, ks @ pts n) # es"
    "ring_ok (mapHash2Node (foldl (add_point n) ?t (pts n)))"
    "set (mapHash2Node (foldl (add_point n) ?t (pts n))) = set (mapHash2Node t) \<union> {(h, n) |h. h \<in> set (pts n)}"
    using add_points [of ?t m ks es "pts n" n] t es by (simp_all add: tag_weak_def)
  have "mset (map fst ?es) = mset (n # map fst (mapNode2Hash t))" using order by simp
  then have k: "distinct (m # map fst es)" "set (m # map fst es) = insert n S"
    using t free(4,5) es mset_eq_imp_distinct_iff [of "map fst ?es" "n # map fst (mapNode2Hash t)"] mset_eq_setD [of "map fst ?es" "n # map fst (mapNode2Hash t)"]
    by (auto simp: tag_weak_def)
  have "mset (concat (map snd ?es)) = mset (concat (map snd (mapNode2Hash t)))" unfolding mset_vectors order by simp
  then have "mset (ks @ concat (map snd es)) = mset (concat (map snd (mapNode2Hash t)))" by (simp add: es)
  then have v: "distinct (ks @ concat (map snd es))" "set (ks @ concat (map snd es)) = fst ` set (mapHash2Node t)"
    using t mset_eq_imp_distinct_iff [of "ks @ concat (map snd es)"] mset_eq_setD [of "ks @ concat (map snd es)"] by (simp_all add: tag_weak_def)
  have "fst ` {(h, n) |h. h \<in> set (pts n)} = set (pts n)" by force
  then have img: "fst ` set (mapHash2Node (foldl (add_point n) ?t (pts n))) = fst ` set (mapHash2Node t) \<union> set (pts n)"
    unfolding u(3) image_Un by simp
  have "set (concat (map snd ((m, ks @ pts n) # es))) = set (ks @ concat (map snd es)) \<union> set (pts n)" by auto
  moreover have "distinct (concat (map snd ((m, ks @ pts n) # es)))" using v ring by auto
  moreover have "set (mapHash2Node t) \<subseteq> ring_of pts H" "\<not> d \<longrightarrow> set (mapHash2Node t) = ring_of pts S" using t by (simp_all add: tag_weak_def)
  then have "set (mapHash2Node (foldl (add_point n) ?t (pts n))) \<subseteq> ring_of pts (insert n H)"
    "\<not> d \<longrightarrow> set (mapHash2Node (foldl (add_point n) ?t (pts n))) = ring_of pts (insert n S)" unfolding u(3) ring_of_insert by blast+
  ultimately have "tag_weak pts d (insert n H) (insert n S) (foldl (add_point n) ?t (pts n))"
    unfolding tag_weak_def u(1) img using u(2) k v(2) by (simp del: set_concat)
  then show ?thesis by (simp add: enter_node_def Let_def pts tag_weak_def)
qed

lemma AddNode_weak:
  assumes "weak_ok pts d H A N" "points_free pts U" "n \<in> U" "H ty \<subseteq> U" "pts = node_points md5 (m_iVirtualNodeNum N)"
    and "\<And>es x. mset (order es x) = add_mset x (mset es)" "n \<in> A ty \<or> n \<notin> H ty"
  shows "weak_ok pts d (H(ty := insert n (H ty))) (A(ty := insert n (A ty))) (AddNode md5 order N ty n)
       \<and> m_iVirtualNodeNum (AddNode md5 order N ty n) = m_iVirtualNodeNum N"
proof (cases "m_mapNode N ty")
  case None
  let ?t = "\<lparr>mapNode2Hash = [], itPollingNode = [], mapHash2Node = []\<rparr>"
  have A: "A ty = {}" using weak_okD(1) [OF assms(1), of ty] None by simp
  have "tag_weak pts d (H ty) {} ?t" by (simp add: tag_weak_def ring_ok_def ring_of_def)
  then have "tag_weak pts d (insert n (H ty)) {n} (enter_node md5 order (m_iVirtualNodeNum N) n ?t)"
    using enter_node_weak [OF assms(2-4), of "{}" md5 "m_iVirtualNodeNum N" order ?t d] assms(5-7) A by simp
  then show ?thesis using None A weak_ok_upd [OF assms(1), of "{n}" "insert n (H ty)"] by (simp add: AddNode_def)
next
  case (Some t)
  then have t: "tag_weak pts d (H ty) (A ty) t" "A ty \<subseteq> H ty" using weak_okD [OF assms(1), of ty] by simp_all
  then have mem: "n \<in> set (map fst (mapNode2Hash t)) \<longleftrightarrow> n \<in> A ty" by (simp add: tag_weak_def)
  show ?thesis
  proof (cases "n \<in> A ty")
    case True
    then have "A(ty := insert n (A ty)) = A" "H(ty := insert n (H ty)) = H" using t(2) by (auto simp: fun_upd_idem insert_absorb)
    moreover have "AddNode md5 order N ty n = N" using True mem Some by (simp add: AddNode_def)
    ultimately show ?thesis using assms(1) by simp
  next
    case False
    then have "tag_weak pts d (insert n (H ty)) (insert n (A ty)) (enter_node md5 order (m_iVirtualNodeNum N) n t)"
      using enter_node_weak [OF assms(2-4) _ t(2) assms(5), of order t d] t(1) assms(6,7) by simp
    moreover have "AddNode md5 order N ty n = N\<lparr>m_mapNode := (m_mapNode N)(ty := Some (enter_node md5 order (m_iVirtualNodeNum N) n t))\<rparr>"
      using False mem Some by (simp add: AddNode_def)
    moreover have "insert n (A ty) \<subseteq> insert n (H ty)" using t(2) by blast
    ultimately show ?thesis using weak_ok_upd [OF assms(1)] by simp
  qed
qed

lemma drop_entry:
  assumes "distinct (map fst es)" "distinct (concat (map snd es))" "map_of es n = Some hs"
  defines "fs \<equiv> filter (\<lambda>e. fst e \<noteq> n) es"
  shows "distinct hs" "set hs \<subseteq> set (concat (map snd es))" "distinct (map fst fs)" "fst ` set fs = fst ` set es - {n}"
    "distinct (concat (map snd fs))" "set (concat (map snd fs)) = set (concat (map snd es)) - set hs"
proof -
  obtain xs ys where es: "es = xs @ (n, hs) # ys" using map_of_SomeD [OF assms(3)] by (meson split_list)
  have "filter (\<lambda>e. fst e \<noteq> n) xs = xs" "filter (\<lambda>e. fst e \<noteq> n) ys = ys" using assms(1) by (auto simp: es filter_id_conv)
  then have "fs = xs @ ys" by (simp add: fs_def es)
  then show "distinct hs" "set hs \<subseteq> set (concat (map snd es))" "distinct (map fst fs)" "fst ` set fs = fst ` set es - {n}"
    "distinct (concat (map snd fs))" "set (concat (map snd fs)) = set (concat (map snd es)) - set hs"
    using assms(1,2) by (auto simp: es)
qed

lemma DelNode_weak:
  assumes "weak_ok pts d H A N"
  shows "\<exists>N'. DelNode N ty n = Some N' \<and> weak_ok pts True H (A(ty := A ty - {n})) N'
       \<and> m_iVirtualNodeNum N' = m_iVirtualNodeNum N"
proof (cases "m_mapNode N ty")
  case None
  then have "A(ty := A ty - {n}) = A" using weak_okD(1) [OF assms, of ty] by (simp add: fun_upd_idem)
  then show ?thesis using None weak_ok_mono [OF assms] by (simp add: DelNode_def)
next
  case (Some t)
  then have t: "tag_weak pts d (H ty) (A ty) t" "A ty \<noteq> {}" using weak_okD(1) [OF assms, of ty] by simp_all
  have w: "weak_ok pts True (H(ty := H ty)) (A(ty := A ty - {n})) (N\<lparr>m_mapNode := (m_mapNode N)(ty := v)\<rparr>)"
    if "weak_entry pts True (H ty) (A ty - {n}) v" for v
    using weak_ok_upd [OF weak_ok_mono [OF assms] _ that, of ty] weak_okD(2) [OF assms, of ty] by auto
  show ?thesis
  proof (cases "map_of (mapNode2Hash t) n")
    case None
    then have "n \<notin> A ty" "mapNode2Hash t \<noteq> []" using t by (auto simp: tag_weak_def map_of_eq_None_iff)
    then have "weak_entry pts True (H ty) (A ty - {n}) (Some t)" using t by (auto simp: tag_weak_def)
    then show ?thesis using Some None w [of "Some t"] \<open>mapNode2Hash t \<noteq> []\<close> by (simp add: DelNode_def)
  next
    case hs: (Some hs)
    let ?es = "filter (\<lambda>e. fst e \<noteq> n) (mapNode2Hash t)" let ?m = "filter (\<lambda>kv. fst kv \<notin> set hs) (mapHash2Node t)"
    have t': "distinct (map fst (mapNode2Hash t))" "distinct (concat (map snd (mapNode2Hash t)))" "ring_ok (mapHash2Node t)"
      "set (concat (map snd (mapNode2Hash t))) = fst ` set (mapHash2Node t)" "fst ` set (mapNode2Hash t) = A ty" "set (mapHash2Node t) \<subseteq> ring_of pts (H ty)"
      using t(1) by (simp_all add: tag_weak_def)
    note e = drop_entry [OF t'(1,2) hs]
    have "erase_points hs (mapHash2Node t) = Some ?m" using erase_points_filter [OF t'(3) e(1)] e(2) t'(4) by simp
    moreover have "fst ` set ?m = fst ` set (mapHash2Node t) - set hs" by force
    then have "tag_weak pts True (H ty) (A ty - {n}) \<lparr>mapNode2Hash = ?es, itPollingNode = p, mapHash2Node = ?m\<rparr>" for p
      unfolding tag_weak_def using e(3-6) t' ring_ok_filter [OF t'(3)] by auto
    then have "weak_entry pts True (H ty) (A ty - {n}) (if ?es = [] then None else
        Some \<lparr>mapNode2Hash = ?es, itPollingNode = (case ?es of [] \<Rightarrow> [] | e # _ \<Rightarrow> fst e), mapHash2Node = ?m\<rparr>)"
      using e(4) t'(5) by (auto simp: filter_empty_conv)
    ultimately show ?thesis using Some hs w by (auto simp: DelNode_def Let_def)
  qed
qed

lemma GetNode_polling_weak:
  assumes "weak_ok pts d H A N"
  shows "\<exists>r N'. GetNode_polling N ty = Some (r, N') \<and> weak_ok pts d H A N' \<and> m_iVirtualNodeNum N' = m_iVirtualNodeNum N
       \<and> (case r of None \<Rightarrow> A ty = {} | Some n \<Rightarrow> n \<in> A ty)"
proof (cases "m_mapNode N ty")
  case None
  then show ?thesis using assms weak_okD(1) [OF assms, of ty] by (simp add: GetNode_polling_def)
next
  case (Some t)
  then have t: "tag_weak pts d (H ty) (A ty) t" "A ty \<noteq> {}" using weak_okD(1) [OF assms, of ty] by simp_all
  then obtain first rest where keys: "map fst (mapNode2Hash t) = first # rest"
    by (cases "map fst (mapNode2Hash t)") (auto simp: tag_weak_def)
  define k where "k = (case after_key (itPollingNode t) (first # rest) of None \<Rightarrow> first | Some k \<Rightarrow> k)"
  have "k \<in> set (first # rest)"
    using after_key_in [of "itPollingNode t" "first # rest"] by (auto simp: k_def split: option.split)
  then have "k \<in> A ty" using t(1) keys unfolding tag_weak_def by (metis list.set_map)
  moreover have "weak_entry pts d (H ty) (A ty) (Some (t\<lparr>itPollingNode := k\<rparr>))" using t by (simp add: tag_weak_def)
  then have "weak_ok pts d H A (N\<lparr>m_mapNode := (m_mapNode N)(ty \<mapsto> t\<lparr>itPollingNode := k\<rparr>)\<rparr>)"
    using weak_ok_upd [OF assms weak_okD(2) [OF assms], of ty "Some (t\<lparr>itPollingNode := k\<rparr>)" ty] by simp
  ultimately show ?thesis
    using Some keys by (simp add: GetNode_polling_def Let_def del: after_key.simps flip: k_def)
qed

text \<open>A node that was removed from a type is not added to it again.\<close>

fun no_return :: "node_op list \<Rightarrow> bool" where
  "no_return [] \<longleftrightarrow> True"
| "no_return (op # ops) \<longleftrightarrow> (case op of DelN ty n \<Rightarrow> AddN ty n \<notin> set ops | _ \<Rightarrow> True) \<and> no_return ops"

definition removes :: "node_op list \<Rightarrow> bool" where
  "removes ops \<longleftrightarrow> (\<exists>op \<in> set ops. case op of DelN ty n \<Rightarrow> True | _ \<Rightarrow> False)"

lemma nodes_run_weak:
  assumes "points_free pts U" "\<And>es x. mset (order es x) = add_mset x (mset es)"
    and "weak_ok pts d H A N" "\<forall>ty. H ty \<subseteq> U" "pts = node_points md5 (m_iVirtualNodeNum N)"
    and "\<forall>op \<in> set ops. \<forall>n. op_node op = Some n \<longrightarrow> n \<in> U" "no_return ops" "\<forall>ty n. AddN ty n \<in> set ops \<longrightarrow> n \<in> A ty \<or> n \<notin> H ty"
  shows "\<exists>N' H'. nodes_run md5 order N ops = Some N' \<and> weak_ok pts (d \<or> removes ops) H' (foldl spec_exec A ops) N' \<and> (\<forall>ty. H' ty \<subseteq> U)"
  using assms(3-8)
proof (induction ops arbitrary: d H A N)
  case Nil
  then show ?case by (auto simp: removes_def)
next
  case (Cons op ops)
  have "\<exists>N1 H1 d1. nodes_exec md5 order N op = Some N1 \<and> weak_ok pts d1 H1 (spec_exec A op) N1 \<and> m_iVirtualNodeNum N1 = m_iVirtualNodeNum N
    \<and> (\<forall>ty. H1 ty \<subseteq> U) \<and> (d1 \<or> removes ops \<longleftrightarrow> d \<or> removes (op # ops)) \<and> (\<forall>ty n. AddN ty n \<in> set ops \<longrightarrow> n \<in> spec_exec A op ty \<or> n \<notin> H1 ty)"
  proof (cases op)
    case (AddN ty n)
    then have n: "n \<in> U" "n \<in> A ty \<or> n \<notin> H ty" "H ty \<subseteq> U" using Cons.prems(2,4,6) by auto
    have "weak_ok pts d (H(ty := insert n (H ty))) (A(ty := insert n (A ty))) (AddNode md5 order N ty n)
       \<and> m_iVirtualNodeNum (AddNode md5 order N ty n) = m_iVirtualNodeNum N"
      by (rule AddNode_weak [OF Cons.prems(1) assms(1) n(1,3) Cons.prems(3) assms(2) n(2)])
    then show ?thesis using AddN n(1) Cons.prems(2,6)
      by (intro exI [of _ "AddNode md5 order N ty n"] exI [of _ "H(ty := insert n (H ty))"] exI [of _ d]) (auto simp: removes_def)
  next
    case (DelN ty n)
    then obtain N1 where "DelNode N ty n = Some N1" "weak_ok pts True H (A(ty := A ty - {n})) N1" "m_iVirtualNodeNum N1 = m_iVirtualNodeNum N"
      using DelNode_weak [OF Cons.prems(1)] by blast
    then show ?thesis using DelN Cons.prems(2,5,6) by (intro exI [of _ N1] exI [of _ H] exI [of _ True]) (auto simp: removes_def)
  next
    case (PollN ty)
    then obtain r N1 where "GetNode_polling N ty = Some (r, N1)" "weak_ok pts d H A N1" "m_iVirtualNodeNum N1 = m_iVirtualNodeNum N"
      using GetNode_polling_weak [OF Cons.prems(1)] by blast
    then show ?thesis using PollN Cons.prems(2,6) by (intro exI [of _ N1] exI [of _ H] exI [of _ d]) (auto simp: removes_def)
  qed
  then obtain N1 H1 d1 where N1: "nodes_exec md5 order N op = Some N1" "weak_ok pts d1 H1 (spec_exec A op) N1" "m_iVirtualNodeNum N1 = m_iVirtualNodeNum N"
    "\<forall>ty. H1 ty \<subseteq> U" "d1 \<or> removes ops \<longleftrightarrow> d \<or> removes (op # ops)" "\<forall>ty n. AddN ty n \<in> set ops \<longrightarrow> n \<in> spec_exec A op ty \<or> n \<notin> H1 ty" by blast
  have "pts = node_points md5 (m_iVirtualNodeNum N1)" "\<forall>op \<in> set ops. \<forall>n. op_node op = Some n \<longrightarrow> n \<in> U" "no_return ops"
    using Cons.prems(3-5) N1(3) by simp_all
  from Cons.IH [OF N1(2,4) this N1(6)] show ?case using N1(1,5) by simp
qed

lemma weak_lookups:
  assumes "weak_ok pts d H A N"
  shows "GetNode_all N ty = (if A ty = {} then None else Some (A ty))" "IsNodeType N n ty \<longleftrightarrow> n \<in> A ty"
  using weak_okD(1) [OF assms, of ty] by (cases "m_mapNode N ty"; auto simp: GetNode_all_def IsNodeType_def tag_weak_def)+

lemma weak_hash:
  assumes "weak_ok pts False H A N" "points_free pts U" "A ty \<subseteq> U"
  shows "if A ty = {} then GetNode_hash N ty h = Some None
         else \<exists>p n. GetNode_hash N ty h = Some (Some n) \<and> owns h (p, n) (ring_of pts (A ty))"
proof (cases "m_mapNode N ty")
  case None
  then show ?thesis using weak_okD(1) [OF assms(1), of ty] by (simp add: GetNode_hash_def)
next
  case (Some t)
  then have t: "A ty \<noteq> {}" "set (mapHash2Node t) = ring_of pts (A ty)" "ring_ok (mapHash2Node t)"
    using weak_okD(1) [OF assms(1), of ty] by (simp_all add: tag_weak_def)
  then obtain n where n: "n \<in> A ty" by blast
  then have "pts n \<noteq> []" using assms(2,3) by (auto simp: points_free_def)
  then have "mapHash2Node t \<noteq> []" using n t(2) by (cases "pts n") (auto simp: ring_of_def)
  then obtain kv where "ring_owner h (mapHash2Node t) = Some (snd kv)" "owns h kv (set (mapHash2Node t))"
    using ring_owner_owns [OF t(3)] by blast
  then show ?thesis using Some t(1,2) by (cases kv) (auto simp: GetNode_hash_def ring_lookup_def)
qed

text \<open>
  C21.  The node table implements a set of nodes per type, wherever the hash table puts a new entry: the only law of \<open>std::unordered_map\<close> that is used is that
  an insertion keeps the other entries and adds the new one.  After any sequence of additions, removals and
  polls in which a removed node is not added to its type again, none of the calls is undefined, \<open>IsNodeType\<close> and the lookup of all nodes give exactly the nodes that
  were added and not removed since, polling returns one of them, and as long as no node was removed the lookup by hash returns the owner of the hash on the
  ring of the points of these nodes, or \<open>false\<close> if the type has none.  No two points of the nodes are equal.  After a removal the ring may be wrong
  (\<open>nodes_points_misfiled\<close>).
\<close>

theorem nodes_members_exact:
  assumes "points_free (node_points md5 vnodes) U" "\<And>es x. mset (order es x) = add_mset x (mset es)"
    and "\<forall>op \<in> set ops. \<forall>n. op_node op = Some n \<longrightarrow> n \<in> U" "no_return ops" "A = foldl spec_exec (\<lambda>_. {}) ops"
  shows "\<exists>N. nodes_run md5 order (Nodes_new alg vnodes) ops = Some N
    \<and> (\<forall>ty. GetNode_all N ty = (if A ty = {} then None else Some (A ty)))
    \<and> (\<forall>ty n. IsNodeType N n ty \<longleftrightarrow> n \<in> A ty)
    \<and> (\<forall>ty. \<exists>r N'. GetNode_polling N ty = Some (r, N') \<and> (case r of None \<Rightarrow> A ty = {} | Some n \<Rightarrow> n \<in> A ty))
    \<and> (removes ops \<or> (\<forall>ty h. if A ty = {} then GetNode_hash N ty h = Some None
              else \<exists>p n. GetNode_hash N ty h = Some (Some n) \<and> owns h (p, n) (ring_of (node_points md5 vnodes) (A ty))))"
proof -
  let ?pts = "node_points md5 vnodes"
  have w: "weak_ok ?pts False (\<lambda>_. {}) (\<lambda>_. {}) (Nodes_new alg vnodes)" and v: "?pts = node_points md5 (m_iVirtualNodeNum (Nodes_new alg vnodes))"
    by (simp_all add: weak_ok_def Nodes_new_def)
  have "\<exists>N H. nodes_run md5 order (Nodes_new alg vnodes) ops = Some N \<and> weak_ok ?pts (False \<or> removes ops) H (foldl spec_exec (\<lambda>_. {}) ops) N \<and> (\<forall>ty. H ty \<subseteq> U)"
    by (rule nodes_run_weak [OF assms(1,2) w _ v assms(3,4)]) simp_all
  then obtain N H where N: "nodes_run md5 order (Nodes_new alg vnodes) ops = Some N" "weak_ok ?pts (removes ops) H A N" "\<forall>ty. H ty \<subseteq> U"
    unfolding assms(5) by auto
  have "A ty \<subseteq> U" for ty using N(3) weak_okD(2) [OF N(2), of ty] by blast
  then have "\<not> removes ops \<Longrightarrow> if A ty = {} then GetNode_hash N ty h = Some None
      else \<exists>p n. GetNode_hash N ty h = Some (Some n) \<and> owns h (p, n) (ring_of ?pts (A ty))" for ty h
    using weak_hash [OF _ assms(1), of H A N ty h] N(2) by auto
  moreover have "\<exists>r N'. GetNode_polling N ty = Some (r, N') \<and> (case r of None \<Rightarrow> A ty = {} | Some n \<Rightarrow> n \<in> A ty)" for ty
    using GetNode_polling_weak [OF N(2), of ty] by blast
  ultimately show ?thesis using N(1) weak_lookups [OF N(2)] by blast
qed

theorem nodes_members_exact_witness:
  "\<exists>N. nodes_run sample_md5 (\<lambda>es x. es @ [x]) (Nodes_new 0 4) [AddN ''t'' ''a'', AddN ''t'' ''b'', PollN ''t'', DelN ''t'' ''a''] = Some N
     \<and> GetNode_all N ''t'' = Some {''b''} \<and> \<not> IsNodeType N ''a'' ''t''"
proof -
  let ?ops = "[AddN ''t'' ''a'', AddN ''t'' ''b'', PollN ''t'', DelN ''t'' ''a'']"
  have A: "foldl spec_exec (\<lambda>_. {}) ?ops ''t'' = {''b''}" by auto
  have U: "\<forall>op \<in> set ?ops. \<forall>n. op_node op = Some n \<longrightarrow> n \<in> {''a'', ''b''}" "no_return ?ops" by simp_all
  have "mset (es @ [x]) = add_mset x (mset es)" for es and x :: "string \<times> u32 list" by simp
  from nodes_members_exact [where order = "\<lambda>es x. es @ [x]", OF sample_points_free this U refl, of 0]
  obtain N where "nodes_run sample_md5 (\<lambda>es x. es @ [x]) (Nodes_new 0 4) ?ops = Some N"
    "\<forall>ty. GetNode_all N ty = (if foldl spec_exec (\<lambda>_. {}) ?ops ty = {} then None else Some (foldl spec_exec (\<lambda>_. {}) ?ops ty))"
    "\<forall>ty n. IsNodeType N n ty \<longleftrightarrow> n \<in> foldl spec_exec (\<lambda>_. {}) ?ops ty" by blast
  moreover from this(2,3) have "GetNode_all N ''t'' = Some {''b''}" "IsNodeType N ''a'' ''t'' \<longleftrightarrow> ''a'' \<in> {''b''}" unfolding A [symmetric] by (simp_all only: A) simp
  ultimately show ?thesis by auto
qed

subsection \<open>Points of other nodes\<close>

lemma ring_owner_point:
  assumes "ring_ok m" "(h, n) \<in> set m"
  shows "ring_owner h m = Some n"
proof -
  obtain kv where kv: "ring_owner h m = Some (snd kv)" "owns h kv (set m)"
    using ring_owner_owns [OF assms(1), of h] assms(2) by fastforce
  then have "kv \<in> set m" "fst kv = h"
    using assms(2) by (auto simp: owns_def split: if_splits intro: antisym dest: bspec)
  then show ?thesis using ring_ok_inj [OF assms(1) _ assms(2)] kv(1) by force
qed

lemma append_two:
  assumes free: "points_free pts {a, b}" "a \<noteq> b" and pts: "pts = node_points md5 vnodes"
    and order: "\<And>es x. order es x = es @ [x]"
  shows "\<exists>t. m_mapNode (AddNode md5 order (AddNode md5 order (Nodes_new alg vnodes) ty a) ty b) ty = Some t
      \<and> mapNode2Hash t = [(a, pts a @ pts b), (b, [])]
      \<and> ring_ok (mapHash2Node t) \<and> set (mapHash2Node t) = ring_of pts {a, b}"
proof -
  let ?t0 = "\<lparr>mapNode2Hash = [(a, [])], itPollingNode = [], mapHash2Node = []\<rparr>"
  let ?t1 = "foldl (add_point a) ?t0 (pts a)"
  have d: "distinct (pts a)" "distinct (pts b)" "set (pts b) \<inter> set (pts a) = {}"
    using free by (auto simp: points_free_def)
  have single: "{(h, a) |h. h \<in> set (pts a)} = ring_of pts {a}" by (auto simp: ring_of_def)
  have t1: "mapNode2Hash ?t1 = [(a, pts a)]" "ring_ok (mapHash2Node ?t1)" "set (mapHash2Node ?t1) = ring_of pts {a}"
    using add_points [of ?t0 a "[]" "[]" "pts a" a] d(1) by (simp_all add: ring_ok_def single)
  let ?t1' = "?t1\<lparr>itPollingNode := a, mapNode2Hash := [(a, pts a), (b, [])]\<rparr>"
  let ?t2 = "foldl (add_point b) ?t1' (pts b)"
  have "mapNode2Hash ?t2 = [(a, pts a @ pts b), (b, [])]" "ring_ok (mapHash2Node ?t2)"
    "set (mapHash2Node ?t2) = ring_of pts {a, b}"
    using add_points [of ?t1' a "pts a" "[(b, [])]" "pts b" b] d t1 by (force simp: ring_of_def)+
  then show ?thesis
    using free(2) t1(1) by (simp add: AddNode_def Nodes_new_def enter_node_def Let_def order pts [symmetric])
qed

text \<open>
  \<open>AddNode\<close> appends the points of a node to the vector of whichever node the hash table iterates
  first.  If that is not the new node, then removing the new node leaves all its points in the ring and lookups still return
  the removed node; and removing the first node erases the points of both, after which every lookup reads the first
  entry of an empty ring, although the other node is still registered.
\<close>

theorem nodes_points_misfiled:
  assumes "points_free (node_points md5 vnodes) {a, b}" "a \<noteq> b" "\<And>es x. order es x = es @ [x]"
  shows "(\<exists>N. nodes_run md5 order (Nodes_new alg vnodes) [AddN ty a, AddN ty b, DelN ty b] = Some N
          \<and> \<not> IsNodeType N b ty \<and> (\<forall>h \<in> set (node_points md5 vnodes b). GetNode_hash N ty h = Some (Some b)))
       \<and> (\<exists>N. nodes_run md5 order (Nodes_new alg vnodes) [AddN ty a, AddN ty b, DelN ty a] = Some N
          \<and> IsNodeType N b ty \<and> (\<forall>h. GetNode_hash N ty h = None))"
proof -
  let ?pts = "node_points md5 vnodes"
  let ?N = "AddNode md5 order (AddNode md5 order (Nodes_new alg vnodes) ty a) ty b"
  obtain t where t: "m_mapNode ?N ty = Some t" "mapNode2Hash t = [(a, ?pts a @ ?pts b), (b, [])]"
    "ring_ok (mapHash2Node t)" "set (mapHash2Node t) = ring_of ?pts {a, b}"
    using append_two [OF assms(1,2) refl assms(3)] by blast
  have stale: "ring_owner h (mapHash2Node t) = Some b" if "h \<in> set (?pts b)" for h
    using ring_owner_point [OF t(3)] that t(4) by (auto simp: ring_of_def)
  have "filter (\<lambda>kv. fst kv \<notin> set (?pts a @ ?pts b)) (mapHash2Node t) = []"
    using t(4) by (auto simp: filter_empty_conv ring_of_def)
  then have erase: "erase_points (?pts a @ ?pts b) (mapHash2Node t) = Some []"
  proof -
    have "set (?pts a @ ?pts b) \<subseteq> fst ` set (mapHash2Node t)"
      unfolding t(4) by (auto simp: ring_of_def image_iff)
    moreover have "distinct (?pts a @ ?pts b)" using assms(1,2) by (auto simp: points_free_def)
    ultimately show ?thesis
      using erase_points_filter [OF t(3)] \<open>filter _ _ = []\<close> by simp
  qed
  show ?thesis
    using t stale erase assms(2)
    by (auto simp: DelNode_def IsNodeType_def GetNode_hash_def ring_lookup_def Let_def ring_owner_def)
qed

theorem nodes_points_misfiled_witness:
  "(\<exists>N. nodes_run sample_md5 (\<lambda>es x. es @ [x]) (Nodes_new 0 4) [AddN ''t'' ''a'', AddN ''t'' ''b'', DelN ''t'' ''a''] = Some N
     \<and> IsNodeType N ''b'' ''t'' \<and> GetNode_hash N ''t'' 7 = None)"
  using nodes_points_misfiled [OF sample_points_free _ refl, of 0 "''t''"] by auto

end
