(* ===== verification/WebSocket.thy ===== *)
theory WebSocket
  imports Tlv
begin

text \<open>
  The WebSocket codecs, \<open>src/code/Core/Net/src/codec/CodecWebSocketPb.cpp\<close> and \<open>src/code/Core/Net/src/codec/CodecWebSocketJson.cpp\<close>: the
  data frames that follow the handshake.  A frame has two bytes, an extended length of no, two or
  eight bytes, the masking key if the client sent it, and the payload, which is the packed header of \<open>ClientMsgCodec\<close>
  and the body.  \<open>Decode\<close> removes the mask in place, in the memory of the receive buffer.

  The two codecs share the text that handles frames; they differ in the body: Protocol Buffers
  bytes, or the JSON form of the message.  The generated class gives the functions \<open>sw\<close> (a message
  with only the field that is sent) and, for JSON, \<open>to_json\<close> and \<open>of_json\<close>.

  The handshake, which is HTTP, is not modelled here.
\<close>

subsection \<open>Constants and byte order\<close>

definition WEBSOCKET_FIN :: byte where "WEBSOCKET_FIN = 0x80"
definition WEBSOCKET_FRAME_BINARY :: byte where "WEBSOCKET_FRAME_BINARY = 0x2"
definition WEBSOCKET_MASK :: byte where "WEBSOCKET_MASK = 0x80"
definition WEBSOCKET_PAYLOAD_LEN :: byte where "WEBSOCKET_PAYLOAD_LEN = 0x7F"
definition WEBSOCKET_PAYLOAD_LEN_UINT16 :: byte where "WEBSOCKET_PAYLOAD_LEN_UINT16 = 126"
definition WEBSOCKET_PAYLOAD_LEN_UINT64 :: byte where "WEBSOCKET_PAYLOAD_LEN_UINT64 = 127"

definition store64 :: "u64 \<Rightarrow> byte list" where
  "store64 w = store32 (ucast w) @ store32 (ucast (drop_bit 32 w))"

definition load64 :: "byte list \<Rightarrow> u64" where
  "load64 bs = ucast (load32 bs) + push_bit 32 (ucast (load32 (drop 4 bs)))"

definition htonll :: "u64 \<Rightarrow> u64" where
  "htonll val = push_bit 32 (ucast (htonl (ucast val))) + ucast (htonl (ucast (drop_bit 32 val)))"

subsection \<open>Encode\<close>

text \<open>The writes of a frame header: the results are added up and not looked at.\<close>

fun write_all :: "heap \<Rightarrow> cbuffer \<Rightarrow> int \<Rightarrow> byte list list \<Rightarrow> (int \<times> cbuffer) option" where
  "write_all hp b iHadWriteLen [] = Some (iHadWriteLen, b)"
| "write_all hp b iHadWriteLen (p # ps) = do {
     (iWriteLen, b) \<leftarrow> Write hp b p;
     write_all hp b (iHadWriteLen + iWriteLen) ps }"

definition frame_header :: "int \<Rightarrow> byte list list" where
  "frame_header payloadLen =
     (let ucFirstByte = WEBSOCKET_FIN OR WEBSOCKET_FRAME_BINARY in
      if payloadLen > 65535
      then [[ucFirstByte], [WEBSOCKET_PAYLOAD_LEN_UINT64], store64 (htonll (word_of_int payloadLen))]
      else if payloadLen \<ge> 126
      then [[ucFirstByte], [WEBSOCKET_PAYLOAD_LEN_UINT16], store16 (htons (word_of_int payloadLen))]
      else [[ucFirstByte], [word_of_int payloadLen]])"

text \<open>The data to send: encrypted, compressed or as it is; \<open>Some None\<close> is a failed compression.\<close>

definition ws_data :: "zlib \<Rightarrow> byte list \<Rightarrow> heap \<Rightarrow> u32 \<Rightarrow> byte list \<Rightarrow> byte list option option" where
  "ws_data Z key hp cmd raw =
     (case client_compress Z cmd raw of
        None \<Rightarrow> Some None
      | Some strCompressData \<Rightarrow> do {
          strEncryptData \<leftarrow>
            (if gc_uiRc5Bit AND cmd \<noteq> 0
             then Rc5Encrypt hp key (if strCompressData \<noteq> [] then strCompressData else raw) else Some []);
          Some (Some (if strEncryptData \<noteq> [] then strEncryptData
                      else if strCompressData \<noteq> [] then strCompressData else raw)) })"

definition ws_out_head :: "msg_head \<Rightarrow> nat \<Rightarrow> tagClientMsgHead" where
  "ws_out_head oMsgHead n = (client_head oMsgHead)\<lparr>c_body_len := htonl (word_of_nat n)\<rparr>"

text \<open>\<open>payloadLen\<close> is computed in \<open>size_t\<close> and converted to \<open>int\<close>.\<close>

definition ws_write :: "heap \<Rightarrow> msg_head \<Rightarrow> byte list \<Rightarrow> cbuffer \<Rightarrow> (codec_status \<times> cbuffer) option" where
  "ws_write hp oMsgHead data pBuff = do {
     let payloadLen = to_int32 (14 + length data);
     (had, b) \<leftarrow> write_all hp pBuff 0 (frame_header payloadLen);
     (w, b) \<leftarrow> Write hp b (client_head_bytes (ws_out_head oMsgHead (length data)));
     let had = had + w;
     if w \<noteq> 14 then Some (CODEC_STATUS_ERR, take_back b had)
     else do {
       (w, b) \<leftarrow> Write hp b data;
       if w \<noteq> to_int32 (length data) then Some (CODEC_STATUS_ERR, take_back b had)
       else Some (CODEC_STATUS_OK, b) } }"

definition CodecWebSocketPb_Encode ::
  "'b pb \<Rightarrow> ('b \<Rightarrow> 'b) \<Rightarrow> zlib \<Rightarrow> byte list \<Rightarrow> heap \<Rightarrow> msg_head \<Rightarrow> 'b \<Rightarrow> cbuffer \<Rightarrow> (codec_status \<times> cbuffer) option" where
  "CodecWebSocketPb_Encode P sw Z key hp oMsgHead oMsgBody pBuff =
     (let strPbBody = body_ser P (sw oMsgBody) in
      if length strPbBody > 64000000 then Some (CODEC_STATUS_ERR, pBuff)
      else do {
        d \<leftarrow> ws_data Z key hp (field (h_cmd oMsgHead)) strPbBody;
        (case d of
           None \<Rightarrow> Some (CODEC_STATUS_ERR, pBuff)
         | Some data \<Rightarrow> ws_write hp oMsgHead data pBuff) })"

text \<open>
  The JSON codec sends an empty body for a message without one and compresses or encrypts only a
  body that is not empty; \<open>to_json\<close> is \<open>None\<close> if the conversion fails.
\<close>

definition CodecWebSocketJson_Encode ::
  "'b pb \<Rightarrow> ('b \<Rightarrow> 'b) \<Rightarrow> ('b \<Rightarrow> bool) \<Rightarrow> ('b \<Rightarrow> byte list option) \<Rightarrow> zlib \<Rightarrow> byte list \<Rightarrow> heap \<Rightarrow> msg_head \<Rightarrow> 'b \<Rightarrow> cbuffer
     \<Rightarrow> (codec_status \<times> cbuffer) option" where
  "CodecWebSocketJson_Encode P sw has_body to_json Z key hp oMsgHead oMsgBody pBuff =
     (if length (body_ser P (sw oMsgBody)) > 64000000 then Some (CODEC_STATUS_ERR, pBuff)
      else case (if has_body (sw oMsgBody) then to_json (sw oMsgBody) else Some []) of
        None \<Rightarrow> Some (CODEC_STATUS_ERR, pBuff)
      | Some strJsonMsg \<Rightarrow> do {
          d \<leftarrow> (if strJsonMsg \<noteq> [] then ws_data Z key hp (field (h_cmd oMsgHead)) strJsonMsg else Some (Some []));
          (case d of
             None \<Rightarrow> Some (CODEC_STATUS_ERR, pBuff)
           | Some data \<Rightarrow> ws_write hp oMsgHead data pBuff) })"

subsection \<open>Decode: the frame\<close>

text \<open>What the frame header leads to: a status at once, or the payload length and the masking key.\<close>

datatype frame_start = FErr cbuffer | FPause cbuffer | FData u32 "byte list" cbuffer

definition back_to :: "cbuffer \<Rightarrow> int \<Rightarrow> cbuffer" where
  "back_to b iReadIdx = SetReadIndex b (size_add_int 0 iReadIdx)"

definition ws_frame_start :: "cbuffer \<Rightarrow> frame_start option" where
  "ws_frame_start pBuff = do {
     let iReadIdx = to_int32 (m_read_idx pBuff);
     (_, bs, b) \<leftarrow> Read pBuff 1;
     let ucFirstByte = (if bs = [] then 0 else bs ! 0);
     (_, bs, b) \<leftarrow> Read b 1;
     let ucSecondByte = (if bs = [] then 0 else bs ! 0);
     let len7 = WEBSOCKET_PAYLOAD_LEN AND ucSecondByte;
     if WEBSOCKET_MASK AND ucSecondByte = 0 then Some (FErr b)
     else if len7 = 0 then Some (FPause b)
     else do {
       r \<leftarrow> (if len7 = WEBSOCKET_PAYLOAD_LEN_UINT64 then
               if ReadableBytes b \<le> 12 then Some None
               else do { (_, l, b) \<leftarrow> Read b 8; (_, k, b) \<leftarrow> Read b 4; Some (Some (ucast (htonll (load64 l)), k, b)) }
             else if len7 = WEBSOCKET_PAYLOAD_LEN_UINT16 then
               if ReadableBytes b \<le> 6 then Some None
               else do { (_, l, b) \<leftarrow> Read b 2; (_, k, b) \<leftarrow> Read b 4; Some (Some (ucast (htons (load16 l)), k, b)) }
             else
               if ReadableBytes b \<le> 4 then Some None
               else do { (_, k, b) \<leftarrow> Read b 4; Some (Some (ucast len7, k, b)) });
       Some (case r of
               None \<Rightarrow> FPause (back_to b iReadIdx)
             | Some (uiPayload, szMaskKey, b) \<Rightarrow>
                 if ReadableBytes b < unat uiPayload then FPause (back_to b iReadIdx) else FData uiPayload szMaskKey b) } }"

text \<open>The loop that removes the mask: \<open>SetBytes\<close> of one byte at the read index plus \<open>j\<close>.\<close>

fun unmask_loop :: "byte list \<Rightarrow> cbuffer \<Rightarrow> nat \<Rightarrow> nat \<Rightarrow> cbuffer option" where
  "unmask_loop szMaskKey b j 0 = Some b"
| "unmask_loop szMaskKey b j (Suc n) = do {
     d \<leftarrow> mem_read (m_buffer b) (m_read_idx b + j) 1;
     (_, b) \<leftarrow> SetBytes b [d ! 0 XOR szMaskKey ! (j mod 4)] (size_add_int 0 (to_int32 (m_read_idx b) + int j));
     unmask_loop szMaskKey b (j + 1) n }"

subsection \<open>Decode: the message\<close>

text \<open>
  The body from its raw bytes, as \<open>client_body\<close> has it, but copied out of the buffer and with the length of
  the head set to the size of the parsed message.
\<close>

definition ws_body ::
  "(byte list \<Rightarrow> 'b option) \<Rightarrow> ('b \<Rightarrow> nat) \<Rightarrow> zlib \<Rightarrow> byte list \<Rightarrow> heap \<Rightarrow> byte list \<Rightarrow> tagClientMsgHead \<Rightarrow> msg_head
     \<Rightarrow> (unit + msg_head \<times> 'b) option" where
  "ws_body parse bsize Z key hp raw st oMsgHead =
     (let cmd = field (h_cmd oMsgHead);
          parsed = (\<lambda>data. case parse data of None \<Rightarrow> Inl ()
                     | Some oMsgBody \<Rightarrow> Inr (oMsgHead\<lparr>h_msgbody_len := Some (word_of_nat (bsize oMsgBody))\<rparr>, oMsgBody)) in
      if encript st = 0 then Some (parsed raw)
      else do {
        strDecryptData \<leftarrow> (if gc_uiRc5Bit AND cmd \<noteq> 0 then Rc5Decrypt hp key raw else Some []);
        Some (case client_uncompress Z cmd (if strDecryptData \<noteq> [] then strDecryptData else raw) of
                None \<Rightarrow> Inl ()
              | Some strUncompressData \<Rightarrow>
                  parsed (if strUncompressData \<noteq> [] then strUncompressData
                          else if strDecryptData \<noteq> [] then strDecryptData else raw)) })"

definition ws_in_head :: "tagClientMsgHead \<Rightarrow> msg_head" where
  "ws_in_head st = (head_of_client st)\<lparr>h_msgbody_len := None\<rparr>"

definition CodecWebSocketPb_Decode ::
  "'b pb \<Rightarrow> zlib \<Rightarrow> byte list \<Rightarrow> heap \<Rightarrow> cbuffer \<Rightarrow> 'b decoded option" where
  "CodecWebSocketPb_Decode P Z key hp pBuff =
     (if ReadableBytes pBuff \<ge> 2 then do {
        f \<leftarrow> ws_frame_start pBuff;
        (case f of
           FErr b \<Rightarrow> Some (DERR b)
         | FPause b \<Rightarrow> Some (DPAUSE b)
         | FData uiPayload szMaskKey b \<Rightarrow> do {
             b \<leftarrow> unmask_loop szMaskKey b 0 (unat uiPayload);
             if ReadableBytes b < 14 then Some (DERR b)
             else do {
               (_, bs, b') \<leftarrow> Read b 14;
               let st = client_head_load bs;
               let body_len = unat (htonl (c_body_len st));
               if 14 + body_len \<noteq> unat uiPayload then Some (DERR b)
               else do {
                 raw \<leftarrow> mem_read (m_buffer b') (m_read_idx b') body_len;
                 r \<leftarrow> ws_body (body_parse P) (\<lambda>x. length (body_ser P x)) Z key hp raw st (ws_in_head st);
                 Some (case r of
                         Inl _ \<Rightarrow> DERR b'
                       | Inr (oMsgHead, oMsgBody) \<Rightarrow> DOK oMsgHead oMsgBody (SkipBytes b' body_len)) } } })
      }
      else Some (DPAUSE pBuff))"

text \<open>
  \<open>JsonStringToMessage\<close> leaves a body that is empty alone: \<open>oMsgBody\<close> is the message of the caller.
\<close>

definition CodecWebSocketJson_Decode ::
  "'b pb \<Rightarrow> (byte list \<Rightarrow> 'b option) \<Rightarrow> 'b \<Rightarrow> zlib \<Rightarrow> byte list \<Rightarrow> heap \<Rightarrow> cbuffer \<Rightarrow> 'b decoded option" where
  "CodecWebSocketJson_Decode P of_json oMsgBody Z key hp pBuff =
     (if ReadableBytes pBuff \<ge> 2 then do {
        let iReadIdx = to_int32 (m_read_idx pBuff);
        f \<leftarrow> ws_frame_start pBuff;
        (case f of
           FErr b \<Rightarrow> Some (DERR b)
         | FPause b \<Rightarrow> Some (DPAUSE b)
         | FData uiPayload szMaskKey b \<Rightarrow> do {
             b \<leftarrow> unmask_loop szMaskKey b 0 (unat uiPayload);
             if ReadableBytes b < 14 then Some (DPAUSE (back_to b iReadIdx))
             else do {
               (_, bs, b') \<leftarrow> Read b 14;
               let st = client_head_load bs;
               let body_len = unat (htonl (c_body_len st));
               if 14 + body_len > unat uiPayload then Some (DPAUSE (back_to b' iReadIdx))
               else if ReadableBytes b' < body_len then Some (DPAUSE (back_to b' iReadIdx))
               else do {
                 raw \<leftarrow> mem_read (m_buffer b') (m_read_idx b') body_len;
                 r \<leftarrow> ws_body (\<lambda>d. if d = [] then Some oMsgBody else of_json d) (\<lambda>x. length (body_ser P x))
                       Z key hp raw st (ws_in_head st);
                 Some (case r of
                         Inl _ \<Rightarrow> DERR b'
                       | Inr (oMsgHead, oMsgBody) \<Rightarrow> DOK oMsgHead oMsgBody (SkipBytes b' body_len)) } } })
      }
      else Some (DPAUSE pBuff))"

subsection \<open>Byte order\<close>

lemma ucast_split64: "ucast (ucast w :: u32) + push_bit 32 (ucast (ucast (drop_bit 32 w) :: u32)) = (w :: u64)"
proof -
  have "ucast (ucast w :: u32) + push_bit 32 (ucast (ucast (drop_bit 32 w) :: u32))
      = (ucast (ucast w :: u32) XOR push_bit 32 (ucast (ucast (drop_bit 32 w) :: u32)) :: u64)"
    by (intro disjunctive_add_eq_xor bit_word_eqI) (auto simp: bit_simps)
  also have "\<dots> = w" by (rule bit_word_eqI) (auto simp: bit_simps)
  finally show ?thesis .
qed

lemma load_store64: "load64 (store64 w @ rest) = w" "load64 (store64 w) = w"
  using ucast_split64 [of w] by (simp_all add: load64_def store64_def load_store32)

lemma length_store64 [simp]: "length (store64 w) = 8"
  by (simp add: store64_def)

lemma low_high: "ucast (push_bit 32 (ucast (h :: u32)) + ucast (l :: u32) :: u64) = l"
    "ucast (drop_bit 32 (push_bit 32 (ucast h) + ucast l :: u64)) = h"
proof -
  have x: "push_bit 32 (ucast h) + ucast l = (push_bit 32 (ucast h) XOR ucast l :: u64)"
    by (intro disjunctive_add_eq_xor bit_word_eqI) (auto simp: bit_simps dest: bit_imp_le_length)
  show "ucast (push_bit 32 (ucast h) + ucast l :: u64) = l" unfolding x
    by (rule bit_word_eqI) (auto simp: bit_simps)
  show "ucast (drop_bit 32 (push_bit 32 (ucast h) + ucast l :: u64)) = h" unfolding x
    by (rule bit_word_eqI) (auto simp: bit_simps dest: bit_imp_le_length)
qed

lemma htonll_htonll: "htonll (htonll w) = w"
  using ucast_split64 [of w] by (simp add: htonll_def low_high htonl_htonl add.commute)

subsection \<open>Removing the mask\<close>

definition xor_mask :: "byte list \<Rightarrow> byte list \<Rightarrow> byte list" where
  "xor_mask k xs = map (\<lambda>i. xs ! i XOR k ! (i mod 4)) [0..<length xs]"

lemma length_xor_mask [simp]: "length (xor_mask k xs) = length xs"
  by (simp add: xor_mask_def)

lemma xor_mask_twice: "xor_mask k (xor_mask k xs) = xs"
  by (rule nth_equalityI) (simp_all add: xor_mask_def xor.assoc)

text \<open>Replacing one readable byte.\<close>

definition put_byte :: "cbuffer \<Rightarrow> nat \<Rightarrow> byte \<Rightarrow> cbuffer" where
  "put_byte b j v = b\<lparr>m_buffer := (m_buffer b)[m_read_idx b + j := v]\<rparr>"

lemma put_byte_data:
  assumes "buf_ok b"
  shows "buf_ok (put_byte b j v)" "m_read_idx (put_byte b j v) = m_read_idx b" "m_write_idx (put_byte b j v) = m_write_idx b"
    "m_buffer_len (put_byte b j v) = m_buffer_len b" "cb_data (put_byte b j v) = (cb_data b)[j := v]"
  using assms
  by (auto simp: put_byte_def buf_ok_def cb_inv_def cb_data_def segment_def drop_update_swap take_update_swap)

lemma idx_in: "buf_ok b \<Longrightarrow> j < length (cb_data b) \<Longrightarrow> m_read_idx b + j < m_write_idx b \<and> m_read_idx b + j < length (m_buffer b)"
  using length_cb_data [of b] by (auto simp: buf_ok_def cb_inv_def ReadableBytes_inv)

lemma SetBytes_put:
  assumes "buf_ok b" "j < length (cb_data b)"
  shows "SetBytes b [v] (m_read_idx b + j) = Some (1, put_byte b j v)"
proof -
  have i: "m_read_idx b + j < m_write_idx b" "m_read_idx b + j < length (m_buffer b)" "m_write_idx b < 2 ^ 31"
    using idx_in [OF assms] assms(1) by (auto simp: buf_ok_def)
  then have "\<not> m_write_idx b < size_add (m_read_idx b + j) 1" by simp
  with i show ?thesis
    by (simp add: SetBytes_def mem_write_def put_byte_def upd_conv_take_nth_drop)
qed

lemma mem_read_byte:
  assumes "buf_ok b" "j < length (cb_data b)"
  shows "mem_read (m_buffer b) (m_read_idx b + j) 1 = Some [cb_data b ! j]"
proof -
  have "m_read_idx b + j < length (m_buffer b)" "cb_data b ! j = m_buffer b ! (m_read_idx b + j)"
    using idx_in [OF assms] assms by (auto simp: cb_data_def segment_def buf_ok_def cb_inv_def)
  then show ?thesis by (simp add: mem_read_def take_Suc_conv_app_nth [of 0, simplified] hd_drop_conv_nth take_Suc)
qed

lemma unmask_loop_ok:
  assumes "buf_ok b" "j + n \<le> length (cb_data b)"
  shows "\<exists>b'. unmask_loop k b j n = Some b' \<and> buf_ok b' \<and> m_read_idx b' = m_read_idx b \<and> m_write_idx b' = m_write_idx b
     \<and> m_buffer_len b' = m_buffer_len b \<and> length (cb_data b') = length (cb_data b)
     \<and> (\<forall>i < length (cb_data b). cb_data b' ! i = (if j \<le> i \<and> i < j + n then cb_data b ! i XOR k ! (i mod 4) else cb_data b ! i))"
  using assms
proof (induction n arbitrary: b j)
  case (Suc n)
  let ?v = "cb_data b ! j XOR k ! (j mod 4)"
  have j: "j < length (cb_data b)" using Suc.prems(2) by simp
  have "m_read_idx b < 2 ^ 31" "m_read_idx b + j < 2 ^ 64" using idx_in [OF Suc.prems(1) j] Suc.prems(1) by (auto simp: buf_ok_def)
  then have idx: "size_add_int 0 (to_int32 (m_read_idx b) + int j) = m_read_idx b + j"
    using size_add_int_nat [of 0 "m_read_idx b + j"] by simp
  note p = put_byte_data [OF Suc.prems(1), of j ?v]
  obtain b' where b': "unmask_loop k (put_byte b j ?v) (j + 1) n = Some b'" "buf_ok b'" "m_read_idx b' = m_read_idx b"
    "m_write_idx b' = m_write_idx b" "m_buffer_len b' = m_buffer_len b" "length (cb_data b') = length (cb_data b)"
    "\<forall>i < length (cb_data b). cb_data b' ! i =
       (if j + 1 \<le> i \<and> i < j + 1 + n then (cb_data b)[j := ?v] ! i XOR k ! (i mod 4) else (cb_data b)[j := ?v] ! i)"
    using Suc.IH [OF p(1), of "j + 1"] Suc.prems(2) p by auto
  have "cb_data b' ! i = (if j \<le> i \<and> i < j + Suc n then cb_data b ! i XOR k ! (i mod 4) else cb_data b ! i)"
    if "i < length (cb_data b)" for i
    using b'(7) that j by (cases "i = j") auto
  moreover have "unmask_loop k b j (Suc n) = Some b'"
    using b'(1) mem_read_byte [OF Suc.prems(1) j] SetBytes_put [OF Suc.prems(1) j] by (simp add: idx)
  ultimately show ?case using b' by blast
qed auto

lemma unmask_payload:
  assumes "buf_ok b" "cb_data b = xor_mask k p @ rest"
  shows "\<exists>b'. unmask_loop k b 0 (length p) = Some b' \<and> buf_ok b' \<and> m_read_idx b' = m_read_idx b \<and> m_write_idx b' = m_write_idx b
     \<and> m_buffer_len b' = m_buffer_len b \<and> cb_data b' = p @ rest"
proof -
  obtain b' where b': "unmask_loop k b 0 (length p) = Some b'" "buf_ok b'" "m_read_idx b' = m_read_idx b" "m_write_idx b' = m_write_idx b"
    "m_buffer_len b' = m_buffer_len b" "length (cb_data b') = length (cb_data b)"
    "\<forall>i < length (cb_data b). cb_data b' ! i = (if i < length p then cb_data b ! i XOR k ! (i mod 4) else cb_data b ! i)"
    using unmask_loop_ok [OF assms(1), of 0 "length p" k] assms(2) by auto
  have "cb_data b' = p @ rest"
    by (rule nth_equalityI) (use b'(6,7) assms(2) in \<open>auto simp: nth_append xor_mask_def xor.assoc\<close>)
  with b' show ?thesis by blast
qed

subsection \<open>Frames from a client\<close>

definition adv :: "cbuffer \<Rightarrow> nat \<Rightarrow> cbuffer" where
  "adv b n = b\<lparr>m_read_idx := m_read_idx b + n\<rparr>"

lemma adv_adv [simp]: "adv (adv b m) n = adv b (m + n)"
  by (simp add: adv_def add.assoc)

lemma adv_ok:
  assumes "buf_ok b" "n \<le> length (cb_data b)"
  shows "buf_ok (adv b n)" "cb_data (adv b n) = drop n (cb_data b)" "ReadableBytes (adv b n) = length (cb_data b) - n"
    "Read b n = Some (int n, take n (cb_data b), adv b n)"
proof -
  show a: "buf_ok (adv b n)" "cb_data (adv b n) = drop n (cb_data b)"
    using advance_ok [OF assms] by (simp_all add: adv_def)
  show "ReadableBytes (adv b n) = length (cb_data b) - n" using buf_ok_readable [OF a(1)] a(2) by simp
  show "Read b n = Some (int n, take n (cb_data b), adv b n)"
    using Read_ok [of b n] assms buf_ok_readable [OF assms(1)] by (simp add: buf_ok_def adv_def)
qed

lemma back_to_start: "buf_ok b \<Longrightarrow> back_to (adv b n) (to_int32 (m_read_idx b)) = b"
proof -
  assume "buf_ok b"
  then have "m_read_idx b < 2 ^ 31" by (simp add: buf_ok_def cb_inv_def)
  then have "size_add_int 0 (to_int32 (m_read_idx b)) = m_read_idx b"
    using size_add_int_nat [of 0 "m_read_idx b"] by simp
  then show ?thesis by (simp add: back_to_def SetReadIndex_def adv_def)
qed

text \<open>The header of a frame with \<open>n\<close> bytes of payload and the mask bit set.\<close>

definition client_header :: "byte \<Rightarrow> nat \<Rightarrow> byte list" where
  "client_header f n =
     (if n > 65535 then [f, 0xFF] @ store64 (htonll (word_of_nat n))
      else if n \<ge> 126 then [f, 0xFE] @ store16 (htons (word_of_nat n))
      else [f, 0x80 OR word_of_nat n])"

lemma small_len7:
  assumes "0 < n" "n < 126"
  shows "WEBSOCKET_PAYLOAD_LEN AND (0x80 OR word_of_nat n) = word_of_nat n" "WEBSOCKET_MASK AND (0x80 OR word_of_nat n) \<noteq> 0"
    "(word_of_nat n :: byte) \<noteq> 0" "(word_of_nat n :: byte) \<noteq> 126" "(word_of_nat n :: byte) \<noteq> 127"
    "unat (ucast (word_of_nat n :: byte) :: u32) = n"
proof -
  have u: "unat (word_of_nat n :: byte) = n" using assms by (simp add: unat_of_nat)
  have m: "(0x7F :: byte) = mask 7" by (simp add: mask_eq_exp_minus_1)
  have "take_bit 7 (word_of_nat n :: byte) = word_of_nat n"
    by (rule unat_eqI) (use u assms in \<open>simp add: unsigned_take_bit_eq take_bit_nat_eq_self\<close>)
  moreover have "take_bit 7 (0x80 :: byte) = 0" by simp
  ultimately show "WEBSOCKET_PAYLOAD_LEN AND (0x80 OR word_of_nat n) = word_of_nat n"
    by (simp add: WEBSOCKET_PAYLOAD_LEN_def m and.commute [of "mask 7"] flip: take_bit_eq_mask)
  have "bit (WEBSOCKET_MASK AND (0x80 OR word_of_nat n)) 7" by (simp add: WEBSOCKET_MASK_def bit_and_iff bit_or_iff)
  then show "WEBSOCKET_MASK AND (0x80 OR word_of_nat n) \<noteq> 0" by (metis bit_0_eq bot_apply bot_bool_def)
  show "(word_of_nat n :: byte) \<noteq> 0" "(word_of_nat n :: byte) \<noteq> 126" "(word_of_nat n :: byte) \<noteq> 127"
    using u assms by (auto simp: unat_eq_0 dest: arg_cong [where f = unat])
  show "unat (ucast (word_of_nat n :: byte) :: u32) = n" using u assms by (simp add: unsigned_ucast_eq take_bit_nat_eq_self)
qed

text \<open>The frame header on the bytes that can be read: the length, the key and where the payload starts.\<close>

definition header_fields :: "byte \<Rightarrow> byte list \<Rightarrow> (u32 \<times> byte list \<times> nat) option" where
  "header_fields len7 d =
     (if len7 = 127 then if length d \<le> 12 then None else Some (ucast (htonll (load64 (take 8 d))), take 4 (drop 8 d), 14)
      else if len7 = 126 then if length d \<le> 6 then None else Some (ucast (htons (load16 (take 2 d))), take 4 (drop 2 d), 8)
      else if length d \<le> 4 then None else Some (ucast len7, take 4 d, 6))"

lemma ws_frame_start_eval:
  assumes b: "buf_ok b" and d: "cb_data b = f # s # d" and m: "WEBSOCKET_MASK AND s \<noteq> 0" "WEBSOCKET_PAYLOAD_LEN AND s \<noteq> 0"
  shows "ws_frame_start b = Some (case header_fields (WEBSOCKET_PAYLOAD_LEN AND s) d of
      None \<Rightarrow> FPause b
    | Some (u, k, off) \<Rightarrow> if length (cb_data b) - off < unat u then FPause b else FData u k (adv b off))"
proof -
  let ?l = "WEBSOCKET_PAYLOAD_LEN AND s"
  have a1: "buf_ok (adv b 1)" "cb_data (adv b 1) = s # d" "Read b 1 = Some (1, [f], adv b 1)"
    using adv_ok [OF b, of 1] d by simp_all
  have a2: "buf_ok (adv b 2)" "cb_data (adv b 2) = d" "ReadableBytes (adv b 2) = length d"
    "Read (adv b 1) 1 = Some (1, [s], adv b 2)"
    using adv_ok [OF b, of 2] adv_ok(4) [OF a1(1), of 1] a1(2) d by (simp_all flip: Suc_1)
  note adv2 = adv_ok [OF a2(1), unfolded a2(2)]
  have two: "buf_ok (adv b (2 + i))" "cb_data (adv b (2 + i)) = drop i d" "Read (adv b 2) i = Some (int i, take i d, adv b (2 + i))"
    "i + 4 \<le> length d \<Longrightarrow> Read (adv b (2 + i)) 4 = Some (4, take 4 (drop i d), adv b (2 + i + 4))"
    "i + 4 \<le> length d \<Longrightarrow> ReadableBytes (adv b (2 + i + 4)) = length d - (i + 4)" if "i \<le> length d" for i
    using adv2 [of i] adv_ok [of "adv b (2 + i)" 4] adv2(3) [of "i + 4"] that by simp_all
  note restart = back_to_start [OF b]
  consider "?l = 127" | "?l = 126" | "?l \<noteq> 127" "?l \<noteq> 126" by blast
  then show ?thesis
  proof cases
    case 1
    then show ?thesis
      using a1 a2 m d restart two(3,4,5) [of 8]
      by (auto simp: ws_frame_start_def Let_def WEBSOCKET_PAYLOAD_LEN_UINT64_def WEBSOCKET_PAYLOAD_LEN_UINT16_def header_fields_def)
  next
    case 2
    then show ?thesis
      using a1 a2 m d restart two(3,4,5) [of 2]
      by (auto simp: ws_frame_start_def Let_def WEBSOCKET_PAYLOAD_LEN_UINT64_def WEBSOCKET_PAYLOAD_LEN_UINT16_def header_fields_def)
  next
    case 3
    then show ?thesis
      using a1 a2 m d restart two(4,5) [of 0]
      by (auto simp: ws_frame_start_def Let_def WEBSOCKET_PAYLOAD_LEN_UINT64_def WEBSOCKET_PAYLOAD_LEN_UINT16_def header_fields_def)
  qed
qed

lemma client_header_second:
  assumes "0 < n" "n < 2 ^ 31"
  obtains s ext where "client_header f n = f # s # ext" "WEBSOCKET_MASK AND s \<noteq> 0" "WEBSOCKET_PAYLOAD_LEN AND s \<noteq> 0"
    "\<And>k d. length k = 4 \<Longrightarrow> d \<noteq> [] \<Longrightarrow> header_fields (WEBSOCKET_PAYLOAD_LEN AND s) (ext @ k @ d) = Some (word_of_nat n, k, length (f # s # ext) + 4)"
    "\<And>d. length d \<le> length ext + 4 \<Longrightarrow> header_fields (WEBSOCKET_PAYLOAD_LEN AND s) d = None"
proof -
  note found = that
  consider "n > 65535" | "126 \<le> n" "n \<le> 65535" | "n < 126" by linarith
  then show thesis
  proof cases
    case 1
    let ?e = "store64 (htonll (word_of_nat n))"
    have u: "ucast (word_of_nat n :: u64) = (word_of_nat n :: u32)"
      by (rule unat_eqI) (use assms in \<open>simp add: unsigned_ucast_eq unat_of_nat take_bit_nat_eq_self\<close>)
    show thesis
      by (rule found [where s = "0xFF" and ext = ?e])
        (use 1 u in \<open>auto simp: client_header_def WEBSOCKET_MASK_def WEBSOCKET_PAYLOAD_LEN_def header_fields_def load_store64 htonll_htonll\<close>)
  next
    case 2
    let ?e = "store16 (htons (word_of_nat n))"
    have u: "ucast (word_of_nat n :: u16) = (word_of_nat n :: u32)"
      by (rule unat_eqI) (use 2 in \<open>simp add: unsigned_ucast_eq unat_of_nat take_bit_nat_eq_self\<close>)
    show thesis
      by (rule found [where s = "0xFE" and ext = ?e])
        (use 2 u in \<open>auto simp: client_header_def WEBSOCKET_MASK_def WEBSOCKET_PAYLOAD_LEN_def header_fields_def byte_order\<close>)
  next
    case 3
    note s = small_len7 [OF assms(1) 3]
    have u: "ucast (word_of_nat n :: byte) = (word_of_nat n :: u32)"
      by (rule unat_eqI) (use 3 in \<open>simp add: unsigned_ucast_eq unat_of_nat take_bit_nat_eq_self\<close>)
    show thesis
      by (rule found [where s = "0x80 OR word_of_nat n" and ext = "[]"])
        (use 3 u s in \<open>auto simp: client_header_def header_fields_def\<close>)
  qed
qed

subsection \<open>The stream of a client\<close>

text \<open>
  A client message is its first byte, its masking key, its head and its body; \<open>enc\<close> gives the bytes of the body.
\<close>

type_synonym 'b client_msg = "byte \<times> byte list \<times> msg_head \<times> 'b"

fun ws_payload :: "('b \<Rightarrow> byte list) \<Rightarrow> 'b client_msg \<Rightarrow> byte list" where
  "ws_payload enc (f, k, h, x) = client_head_bytes (ws_out_head h (length (enc x))) @ enc x"

fun ws_frame :: "('b \<Rightarrow> byte list) \<Rightarrow> 'b client_msg \<Rightarrow> byte list" where
  "ws_frame enc (f, k, h, x) = client_header f (14 + length (enc x)) @ k @ xor_mask k (ws_payload enc (f, k, h, x))"

fun ws_valid :: "('b \<Rightarrow> byte list) \<Rightarrow> 'b client_msg \<Rightarrow> bool" where
  "ws_valid enc (f, k, h, x) \<longleftrightarrow> length k = 4 \<and> unat (field (h_cmd h)) < 2 ^ 16 \<and> length (enc x) \<le> 64000000"

fun ws_seen :: "'b pb \<Rightarrow> 'b client_msg \<Rightarrow> msg_head \<times> 'b" where
  "ws_seen P (f, k, h, x) = (\<lparr>h_cmd = Some (field (h_cmd h)), h_msgbody_len = Some (word_of_nat (length (body_ser P x))),
     h_seq = Some (field (h_seq h)), h_checksum = Some 0\<rparr>, x)"

lemma unat_small: "n < 2 ^ 31 \<Longrightarrow> unat (word_of_nat n :: u32) = n"
  by (simp add: unat_of_nat)

lemma length_ws_payload [simp]: "length (ws_payload enc (f, k, h, x)) = 14 + length (enc x)"
  by simp

lemma ws_start_frame:
  assumes "buf_ok b" "ws_valid enc (f, k, h, x)" "cb_data b = ws_frame enc (f, k, h, x) @ rest"
  defines "n \<equiv> length (client_header f (14 + length (enc x))) + 4"
  shows "ws_frame_start b = Some (FData (word_of_nat (14 + length (enc x))) k (adv b n))" "buf_ok (adv b n)"
    "cb_data (adv b n) = xor_mask k (ws_payload enc (f, k, h, x)) @ rest"
proof -
  let ?n = "14 + length (enc x)" and ?p = "xor_mask k (ws_payload enc (f, k, h, x)) @ rest"
  have k: "length k = 4" "0 < ?n" "?n < 2 ^ 31" using assms(2) by auto
  obtain s ext where s: "client_header f ?n = f # s # ext" "WEBSOCKET_MASK AND s \<noteq> 0" "WEBSOCKET_PAYLOAD_LEN AND s \<noteq> 0"
    "\<And>k d. length k = 4 \<Longrightarrow> d \<noteq> [] \<Longrightarrow> header_fields (WEBSOCKET_PAYLOAD_LEN AND s) (ext @ k @ d) = Some (word_of_nat ?n, k, length (f # s # ext) + 4)"
    using client_header_second [OF k(2,3)] by metis
  have p: "length ?p = ?n + length rest" by (simp del: ws_payload.simps)
  then have "?p \<noteq> []" by (metis add_is_0 length_0_conv zero_neq_numeral)
  note hf = s(4) [OF k(1) this]
  have d: "cb_data b = f # s # (ext @ k @ ?p)" using assms(3) s(1) by (simp del: ws_payload.simps)
  have n: "n = length (f # s # ext) + 4" using s(1) by (simp add: n_def)
  have "unat (word_of_nat ?n :: u32) = ?n" using k(3) by (rule unat_small)
  then have "\<not> length (cb_data b) - n < unat (word_of_nat ?n :: u32)"
    unfolding d n using p k(1) by (simp del: ws_payload.simps)
  then show "ws_frame_start b = Some (FData (word_of_nat ?n) k (adv b n))"
    using ws_frame_start_eval [OF assms(1) d s(2,3)] hf n by (simp del: ws_payload.simps)
  have d': "cb_data b = (f # s # ext @ k) @ ?p" "n = length (f # s # ext @ k)" using d n k(1) by (simp_all del: ws_payload.simps)
  then have "n \<le> length (cb_data b)" "drop n (cb_data b) = ?p" by (simp_all del: append_Cons ws_payload.simps)
  with adv_ok(1,2) [OF assms(1), of n] show "buf_ok (adv b n)" "cb_data (adv b n) = ?p" by simp_all
qed

lemma ws_start_partial:
  assumes "buf_ok b" "ws_valid enc (f, k, h, x)" "strict_prefix (cb_data b) (ws_frame enc (f, k, h, x))" "2 \<le> length (cb_data b)"
  shows "ws_frame_start b = Some (FPause b)"
proof -
  let ?n = "14 + length (enc x)" and ?p = "xor_mask k (ws_payload enc (f, k, h, x))"
  have k: "length k = 4" "0 < ?n" "?n < 2 ^ 31" using assms(2) by auto
  obtain s ext where s: "client_header f ?n = f # s # ext" "WEBSOCKET_MASK AND s \<noteq> 0" "WEBSOCKET_PAYLOAD_LEN AND s \<noteq> 0"
    "\<And>k d. length k = 4 \<Longrightarrow> d \<noteq> [] \<Longrightarrow> header_fields (WEBSOCKET_PAYLOAD_LEN AND s) (ext @ k @ d) = Some (word_of_nat ?n, k, length (f # s # ext) + 4)"
    "\<And>d. length d \<le> length ext + 4 \<Longrightarrow> header_fields (WEBSOCKET_PAYLOAD_LEN AND s) d = None"
    using client_header_second [OF k(2,3)] by metis
  obtain z where z: "ws_frame enc (f, k, h, x) = cb_data b @ z" "z \<noteq> []"
    using assms(3) by (auto simp: strict_prefix_def prefix_def)
  obtain d where d: "cb_data b = f # s # d" "ext @ k @ ?p = d @ z"
    using z(1) assms(4) s(1) by (cases "cb_data b"; cases "tl (cb_data b)") (auto simp del: ws_payload.simps)
  show ?thesis
  proof (cases "length d \<le> length ext + 4")
    case True
    then show ?thesis using ws_frame_start_eval [OF assms(1) d(1) s(2,3)] s(5) by simp
  next
    case False
    then have "ext @ k = take (length (ext @ k)) d" using d(2) k(1)
      by (metis add.commute append.assoc append_eq_append_conv_if length_append linorder_le_cases)
    then obtain d' where d': "d = ext @ k @ d'" using append_take_drop_id by (metis append.assoc)
    then have "d' \<noteq> []" using False k(1) by auto
    note hf = s(4) [OF k(1) this]
    have "?p = d' @ z" using d(2) d' by simp
    then have "length d' < ?n" using z(2) length_xor_mask [of k "ws_payload enc (f, k, h, x)"]
      by (metis length_append length_greater_0_conv length_ws_payload less_add_same_cancel1)
    moreover have "unat (word_of_nat ?n :: u32) = ?n" using k(3) by (rule unat_small)
    ultimately have "length (cb_data b) - (length (f # s # ext) + 4) < unat (word_of_nat ?n :: u32)" unfolding d(1) d' using k(1) by simp
    then show ?thesis using ws_frame_start_eval [OF assms(1) d(1) s(2,3)] hf by (simp add: d')
  qed
qed

lemma ws_out_head_plain:
  assumes "unat (field (h_cmd h)) < 2 ^ 16" "n < 2 ^ 31"
  shows "encript (ws_out_head h n) = 0" "unat (htonl (c_body_len (ws_out_head h n))) = n"
    "ws_in_head (ws_out_head h n) = \<lparr>h_cmd = Some (field (h_cmd h)), h_msgbody_len = None,
       h_seq = Some (field (h_seq h)), h_checksum = Some 0\<rparr>"
proof -
  have "head_of_client (client_head h) = \<lparr>h_cmd = Some (field (h_cmd h)), h_msgbody_len = Some (field (h_msgbody_len h)),
     h_seq = Some (field (h_seq h)), h_checksum = Some 0\<rparr>" using client_plain(2) [OF assms(1)] .
  then show "ws_in_head (ws_out_head h n) = \<lparr>h_cmd = Some (field (h_cmd h)), h_msgbody_len = None,
       h_seq = Some (field (h_seq h)), h_checksum = Some 0\<rparr>"
    by (simp add: ws_in_head_def ws_out_head_def head_of_client_def)
  show "encript (ws_out_head h n) = 0" using client_plain(1) [OF assms(1)] by (simp add: ws_out_head_def)
  show "unat (htonl (c_body_len (ws_out_head h n))) = n" using unat_small [OF assms(2)] by (simp add: ws_out_head_def byte_order)
qed

text \<open>The buffer once the mask is removed, and the reads of the header and the body from it.\<close>

lemma ws_unmasked:
  assumes "buf_ok b" "ws_valid enc (f, k, h, x)" "cb_data b = ws_frame enc (f, k, h, x) @ rest"
  shows "\<exists>c b1. ws_frame_start b = Some (FData (word_of_nat (14 + length (enc x))) k c)
    \<and> unmask_loop k c 0 (14 + length (enc x)) = Some b1 \<and> ReadableBytes b1 \<ge> 14
    \<and> Read b1 14 = Some (14, client_head_bytes (ws_out_head h (length (enc x))), adv b1 14)
    \<and> ReadableBytes (adv b1 14) \<ge> length (enc x)
    \<and> mem_read (m_buffer (adv b1 14)) (m_read_idx (adv b1 14)) (length (enc x)) = Some (enc x)
    \<and> buf_ok (SkipBytes (adv b1 14) (length (enc x))) \<and> cb_data (SkipBytes (adv b1 14) (length (enc x))) = rest"
proof -
  let ?p = "ws_payload enc (f, k, h, x)" and ?n = "length (enc x)"
  obtain c where c: "ws_frame_start b = Some (FData (word_of_nat (14 + ?n)) k c)" "buf_ok c" "cb_data c = xor_mask k ?p @ rest"
    using ws_start_frame [OF assms] by blast
  obtain b1 where b1: "unmask_loop k c 0 (14 + ?n) = Some b1" "buf_ok b1" "cb_data b1 = ?p @ rest"
    using unmask_payload [OF c(2,3)] unfolding length_ws_payload by blast
  have d: "cb_data b1 = client_head_bytes (ws_out_head h ?n) @ enc x @ rest" using b1(3) by simp
  have r1: "ReadableBytes b1 \<ge> 14" using buf_ok_readable [OF b1(2)] d by simp
  have a: "buf_ok (adv b1 14)" "cb_data (adv b1 14) = enc x @ rest"
    "Read b1 14 = Some (14, client_head_bytes (ws_out_head h ?n), adv b1 14)"
    using adv_ok [OF b1(2), of 14] d by simp_all
  have inv: "cb_inv (adv b1 14)" using a(1) by (simp add: buf_ok_def)
  have "mem_read (m_buffer (adv b1 14)) (m_read_idx (adv b1 14)) ?n = Some (enc x)"
    using ParseFromArray_data [OF a(1), of 0 "word_of_nat ?n" Some] mem_read_readable [OF inv, of ?n] length_cb_data [OF inv] a(2) by simp
  moreover have "ReadableBytes (adv b1 14) \<ge> ?n" using buf_ok_readable [OF a(1)] a(2) by simp
  moreover have "buf_ok (SkipBytes (adv b1 14) ?n)" "cb_data (SkipBytes (adv b1 14) ?n) = rest"
    using SkipBytes_buf [OF a(1), of ?n] advance_ok [OF a(1), of ?n] a(2) by simp_all
  ultimately show ?thesis using c(1) b1(1) r1 a(3) by blast
qed

lemma ws_readable: "buf_ok b \<Longrightarrow> 2 \<le> ReadableBytes b \<longleftrightarrow> 2 \<le> length (cb_data b)"
  using buf_ok_readable [of b] by simp

lemma ws_frame_min: "ws_valid enc (f, k, h, x) \<Longrightarrow> 14 \<le> length (ws_frame enc (f, k, h, x))"
  by simp

lemma ws_pb_frame:
  assumes P: "pb_ok P" and a: "buf_ok b" "ws_valid (body_ser P) m" "cb_data b = ws_frame (body_ser P) m @ rest"
  shows "\<exists>b'. CodecWebSocketPb_Decode P Z key hp b = Some (DOK (fst (ws_seen P m)) (snd (ws_seen P m)) b') \<and> buf_ok b' \<and> cb_data b' = rest"
proof -
  obtain f k h x where m: "m = (f, k, h, x)" by (cases m)
  let ?n = "length (body_ser P x)" and ?st = "ws_out_head h (length (body_ser P x))"
  note a = a [unfolded m]
  obtain c b1 where c: "ws_frame_start b = Some (FData (word_of_nat (14 + ?n)) k c)" "unmask_loop k c 0 (14 + ?n) = Some b1"
    "ReadableBytes b1 \<ge> 14" "Read b1 14 = Some (14, client_head_bytes ?st, adv b1 14)"
    "mem_read (m_buffer (adv b1 14)) (m_read_idx (adv b1 14)) ?n = Some (body_ser P x)"
    "buf_ok (SkipBytes (adv b1 14) ?n)" "cb_data (SkipBytes (adv b1 14) ?n) = rest" using ws_unmasked [OF a] by blast
  have v: "unat (field (h_cmd h)) < 2 ^ 16" "?n < 2 ^ 31" "14 + ?n < 2 ^ 31" using a(2) by auto
  have r: "2 \<le> ReadableBytes b" using ws_readable [OF a(1)] a(3) ws_frame_min [OF a(2)] by (simp del: ws_frame.simps)
  have u: "unat (word_of_nat (14 + ?n) :: u32) = 14 + ?n" using v(3) by (rule unat_small)
  have "CodecWebSocketPb_Decode P Z key hp b = Some (DOK (fst (ws_seen P m)) (snd (ws_seen P m)) (SkipBytes (adv b1 14) ?n))"
    using P r c u ws_out_head_plain [OF v(1,2)]
    by (simp add: CodecWebSocketPb_Decode_def m client_head_load_bytes ws_body_def pb_ok_def Let_def del: of_nat_add)
  with c(6,7) show ?thesis by blast
qed

text \<open>The JSON codec reads the same frames if the body is the JSON text of the message.\<close>

lemma ws_json_frame:
  assumes J: "of_json (enc (snd (snd (snd m)))) = Some (snd (snd (snd m)))" "enc (snd (snd (snd m))) \<noteq> []"
    and a: "buf_ok b" "ws_valid enc m" "cb_data b = ws_frame enc m @ rest"
  shows "\<exists>b'. CodecWebSocketJson_Decode P of_json old Z key hp b = Some (DOK (fst (ws_seen P m)) (snd (ws_seen P m)) b')
    \<and> buf_ok b' \<and> cb_data b' = rest"
proof -
  obtain f k h x where m: "m = (f, k, h, x)" by (cases m)
  let ?n = "length (enc x)" and ?st = "ws_out_head h (length (enc x))"
  note a = a [unfolded m] and J = J [unfolded m snd_conv]
  obtain c b1 where c: "ws_frame_start b = Some (FData (word_of_nat (14 + ?n)) k c)" "unmask_loop k c 0 (14 + ?n) = Some b1"
    "ReadableBytes b1 \<ge> 14" "Read b1 14 = Some (14, client_head_bytes ?st, adv b1 14)" "ReadableBytes (adv b1 14) \<ge> ?n"
    "mem_read (m_buffer (adv b1 14)) (m_read_idx (adv b1 14)) ?n = Some (enc x)"
    "buf_ok (SkipBytes (adv b1 14) ?n)" "cb_data (SkipBytes (adv b1 14) ?n) = rest" using ws_unmasked [OF a] by blast
  have v: "unat (field (h_cmd h)) < 2 ^ 16" "?n < 2 ^ 31" "14 + ?n < 2 ^ 31" using a(2) by auto
  have r: "2 \<le> ReadableBytes b" using ws_readable [OF a(1)] a(3) ws_frame_min [OF a(2)] by (simp del: ws_frame.simps)
  have u: "unat (word_of_nat (14 + ?n) :: u32) = 14 + ?n" using v(3) by (rule unat_small)
  have "CodecWebSocketJson_Decode P of_json old Z key hp b = Some (DOK (fst (ws_seen P m)) (snd (ws_seen P m)) (SkipBytes (adv b1 14) ?n))"
    using J r c u ws_out_head_plain [OF v(1,2)]
    by (simp add: CodecWebSocketJson_Decode_def m client_head_load_bytes ws_body_def Let_def del: of_nat_add)
  with c(7,8) show ?thesis by blast
qed

lemma ws_pause:
  assumes "buf_ok b" "ws_valid enc m" "strict_prefix (cb_data b) (ws_frame enc m)"
  shows "CodecWebSocketPb_Decode P Z key hp b = Some (DPAUSE b)" "CodecWebSocketJson_Decode P of_json old Z key hp b = Some (DPAUSE b)"
proof -
  obtain f k h x where m: "m = (f, k, h, x)" by (cases m)
  note a = assms [unfolded m]
  show "CodecWebSocketPb_Decode P Z key hp b = Some (DPAUSE b)" "CodecWebSocketJson_Decode P of_json old Z key hp b = Some (DPAUSE b)"
    using ws_readable [OF a(1)] ws_start_partial [OF a]
    by (auto simp: CodecWebSocketPb_Decode_def CodecWebSocketJson_Decode_def Let_def simp del: ws_frame.simps)
qed

text \<open>
  The contract of a codec that may change the memory it reads: a complete frame gives its message
  and leaves what follows, a part of a frame is left as it is.  \<open>decode_run\<close> calls \<open>Decode\<close> as long as there are messages.
\<close>

fun decode_run :: "(cbuffer \<Rightarrow> 'b decoded option) \<Rightarrow> nat \<Rightarrow> cbuffer \<Rightarrow> ((msg_head \<times> 'b) list \<times> cbuffer) option" where
  "decode_run dec 0 b = None"
| "decode_run dec (Suc n) b = do {
     r \<leftarrow> dec b;
     (case r of
        DOK h m b' \<Rightarrow> map_option (\<lambda>(ms, b''). ((h, m) # ms, b'')) (decode_run dec n b')
      | DPAUSE b' \<Rightarrow> Some ([], b')
      | DERR b' \<Rightarrow> None) }"

locale frame_codec =
  fixes valid :: "'m \<Rightarrow> bool"
    and frame :: "'m \<Rightarrow> byte list"
    and seen :: "'m \<Rightarrow> msg_head \<times> 'b"
    and dec :: "cbuffer \<Rightarrow> 'b decoded option"
  assumes frame_nonempty: "valid m \<Longrightarrow> frame m \<noteq> []"
    and dec_message: "buf_ok b \<Longrightarrow> valid m \<Longrightarrow> cb_data b = frame m @ rest \<Longrightarrow>
      \<exists>b'. dec b = Some (DOK (fst (seen m)) (snd (seen m)) b') \<and> buf_ok b' \<and> cb_data b' = rest"
    and dec_part: "buf_ok b \<Longrightarrow> valid m \<Longrightarrow> strict_prefix (cb_data b) (frame m) \<Longrightarrow> dec b = Some (DPAUSE b)"
begin

lemma run_stream:
  assumes "buf_ok b" "list_all valid ms" "valid m" "strict_prefix part (frame m)" "cb_data b = concat (map frame ms) @ part"
  shows "\<exists>b'. decode_run dec (Suc (length ms)) b = Some (map seen ms, b') \<and> buf_ok b' \<and> cb_data b' = part"
  using assms(1,2,5)
proof (induction ms arbitrary: b)
  case Nil
  then show ?case using dec_part [OF Nil(1) assms(3)] assms(4) by simp
next
  case (Cons a ms)
  obtain b1 where b1: "dec b = Some (DOK (fst (seen a)) (snd (seen a)) b1)" "buf_ok b1" "cb_data b1 = concat (map frame ms) @ part"
    using dec_message [OF Cons.prems(1), of a] Cons.prems by auto
  with Cons.IH [OF b1(2)] Cons.prems show ?case by auto
qed

end

text \<open>The codecs that leave the memory alone keep this contract too.\<close>

sublocale stream_codec \<subseteq> frame: frame_codec valid frame seen dec
proof
  show "valid m \<Longrightarrow> frame m \<noteq> []" for m using frame_min [of m] by auto
  show "\<exists>b'. dec b = Some (DOK (fst (seen m)) (snd (seen m)) b') \<and> buf_ok b' \<and> cb_data b' = rest"
    if "buf_ok b" "valid m" "cb_data b = frame m @ rest" for b m rest
    using dec_frame [OF that] advance_ok [OF that(1), of "length (frame m)"] that(3) by simp
qed (rule dec_partial)

interpretation ws_pb: frame_codec "\<lambda>m. pb_ok P \<and> ws_valid (body_ser P) m" "ws_frame (body_ser P)" "ws_seen P"
    "CodecWebSocketPb_Decode P Z key hp" for P Z key hp
proof
  show "ws_frame (body_ser P) m \<noteq> []" if "pb_ok P \<and> ws_valid (body_ser P) m" for m :: "'a client_msg"
    using that ws_frame_min [of "body_ser P"] by (cases m) fastforce
qed (use ws_pb_frame ws_pause(1) in blast)+

interpretation ws_json: frame_codec "\<lambda>m. (\<forall>x. of_json (enc x) = Some x \<and> enc x \<noteq> []) \<and> ws_valid enc m" "ws_frame enc" "ws_seen P"
    "CodecWebSocketJson_Decode P of_json old Z key hp" for P of_json enc old Z key hp
proof
  show "ws_frame enc m \<noteq> []" if "(\<forall>x. of_json (enc x) = Some x \<and> enc x \<noteq> []) \<and> ws_valid enc m" for m :: "'a client_msg"
    using that ws_frame_min [of enc] by (cases m) fastforce
  show "\<exists>b'. CodecWebSocketJson_Decode P of_json old Z key hp b = Some (DOK (fst (ws_seen P m)) (snd (ws_seen P m)) b')
      \<and> buf_ok b' \<and> cb_data b' = rest"
    if "buf_ok b" "(\<forall>x. of_json (enc x) = Some x \<and> enc x \<noteq> []) \<and> ws_valid enc m" "cb_data b = ws_frame enc m @ rest" for b m rest
    by (rule ws_json_frame [OF _ _ that(1) _ that(3)]) (use that(2) in simp_all)
  show "CodecWebSocketJson_Decode P of_json old Z key hp b = Some (DPAUSE b)"
    if "buf_ok b" "(\<forall>x. of_json (enc x) = Some x \<and> enc x \<noteq> []) \<and> ws_valid enc m" "strict_prefix (cb_data b) (ws_frame enc m)" for b m
    by (rule ws_pause(2) [OF that(1) _ that(3)]) (use that(2) in simp)
qed

subsection \<open>Properties\<close>

text \<open>
  C14.  The stream of plain messages of a WebSocket client is read frame by frame.  A message is plain when its command is below 2^16, so that
  it is neither encrypted nor compressed; its frame always has a payload, the 14 bytes of the head and a body of at most 64000000 bytes.  If the buffer holds the masked frames of any plain
  messages, of every length form, followed by a part of another frame, then \<open>Decode\<close> called again and again returns the
  messages in order, then pauses, and leaves the part of the frame as it was; this holds for the Protocol Buffers
  codec, and for the JSON codec with any text form that the parser takes back.  Frames without a payload are not among them (\<open>ws_frames_lost\<close>).
\<close>

theorem ws_client_stream:
  assumes "pb_ok P" "\<And>x. of_json (enc x) = Some x \<and> enc x \<noteq> []" "buf_ok b" "buf_ok c"
    and "list_all (ws_valid (body_ser P)) ms" "ws_valid (body_ser P) m" "strict_prefix part (ws_frame (body_ser P) m)"
    and "list_all (ws_valid enc) ns" "ws_valid enc n" "strict_prefix jpart (ws_frame enc n)"
    and "cb_data b = concat (map (ws_frame (body_ser P)) ms) @ part" "cb_data c = concat (map (ws_frame enc) ns) @ jpart"
  shows "(\<exists>b'. decode_run (CodecWebSocketPb_Decode P Z key hp) (Suc (length ms)) b = Some (map (ws_seen P) ms, b') \<and> cb_data b' = part)
       \<and> (\<exists>c'. decode_run (CodecWebSocketJson_Decode P of_json old Z key hp) (Suc (length ns)) c = Some (map (ws_seen P) ns, c')
            \<and> cb_data c' = jpart)"
proof -
  have pb: "list_all (\<lambda>m. pb_ok P \<and> ws_valid (body_ser P) m) ms" using assms(1,5) by (simp add: list_all_iff)
  have js: "list_all (\<lambda>m. (\<forall>x. of_json (enc x) = Some x \<and> enc x \<noteq> []) \<and> ws_valid enc m) ns" using assms(2,8) by (simp add: list_all_iff)
  show ?thesis
    using ws_pb.run_stream [OF assms(3) pb _ assms(7,11)] ws_json.run_stream [OF assms(4) js _ assms(10,12)] assms(1,2,6,9) by blast
qed

text \<open>A text form for the witness: a brace before the bytes.\<close>

definition sample_of_json :: "byte list \<Rightarrow> byte list option" where
  "sample_of_json s = (case s of [] \<Rightarrow> None | c # x \<Rightarrow> if c = 123 then Some x else None)"

definition sample_client :: "byte list client_msg" where
  "sample_client = (0x82, [1, 2, 3, 4], fst sample_msg, [5, 6])"

lemma sample_client_valid: "ws_valid enc sample_client \<longleftrightarrow> length (enc [5, 6]) \<le> 64000000"
  by (simp add: sample_client_def sample_msg_def field_def)

lemma sample_buffer_ok: "length bs < 2 ^ 31 \<Longrightarrow> buf_ok (sample_buffer bs)"
  using sample_buffer_inv [of bs] by (simp add: buf_ok_def) (simp add: sample_buffer_def)

theorem ws_client_stream_witness:
  "(\<exists>b'. decode_run (CodecWebSocketPb_Decode sample_pb no_zlib [] (\<lambda>_. True, \<lambda>_. 0)) 2 (sample_buffer (ws_frame (body_ser sample_pb) sample_client @ [0x82]))
       = Some ([ws_seen sample_pb sample_client], b') \<and> cb_data b' = [0x82])
   \<and> (\<exists>c'. decode_run (CodecWebSocketJson_Decode sample_pb sample_of_json [] no_zlib [] (\<lambda>_. True, \<lambda>_. 0)) 2 (sample_buffer (ws_frame (\<lambda>x. 123 # x) sample_client))
       = Some ([ws_seen sample_pb sample_client], c') \<and> cb_data c' = [])"
proof -
  have ser: "body_ser sample_pb = (\<lambda>x. x)" by (simp add: sample_pb_def)
  have v: "ws_valid (body_ser sample_pb) sample_client" "ws_valid (\<lambda>x. 123 # x) sample_client"
    by (simp_all add: sample_client_valid ser)
  have f: "length (ws_frame (body_ser sample_pb) sample_client @ [0x82]) < 2 ^ 31" "length (ws_frame (\<lambda>x. 123 # x) sample_client) < 2 ^ 31"
    by (simp_all add: sample_client_def ser client_header_def)
  have p: "strict_prefix [0x82] (ws_frame (body_ser sample_pb) sample_client)" "strict_prefix [] (ws_frame (\<lambda>x. 123 # x) sample_client)"
    by (simp_all add: sample_client_def ser client_header_def strict_prefix_def)
  have j: "sample_of_json (123 # x) = Some x \<and> 123 # x \<noteq> []" for x by (simp add: sample_of_json_def)
  from ws_client_stream [OF sample_pb_ok j sample_buffer_ok [OF f(1)] sample_buffer_ok [OF f(2)], of "[sample_client]",
      OF _ v(1) p(1), of "[sample_client]", OF _ _ v(2) p(2), of no_zlib "[]" "(\<lambda>_. True, \<lambda>_. 0)" "[]"] v
  show ?thesis by (simp del: ws_frame.simps add: numeral_2_eq_2)
qed

text \<open>The frame a server sends: the header without a mask, the packed head and the data.\<close>

definition server_frame :: "msg_head \<Rightarrow> byte list \<Rightarrow> byte list" where
  "server_frame h data = concat (frame_header (int (14 + length data))) @ client_head_bytes (ws_out_head h (length data)) @ data"

lemma write_all_enough:
  assumes "enough hp b (length (concat ps) + n)"
  shows "\<exists>b'. write_all hp b had ps = Some (had + int (length (concat ps)), b') \<and> enough hp b' n \<and> cb_data b' = cb_data b @ concat ps"
  using assms
proof (induction ps arbitrary: b had)
  case (Cons p ps)
  have e: "fst hp = (\<lambda>_. True)" "recv_ok b" "m_write_idx b + length p < 2 ^ 30" using Cons.prems by (simp_all add: enough_def)
  obtain b1 where b1: "Write hp b p = Some (int (length p), b1)" "recv_ok b1" "cb_data b1 = cb_data b @ p"
    "m_write_idx b1 \<le> m_write_idx b + length p" using Write_success [OF e] by blast
  have "enough hp b1 (length (concat ps) + n)" using Cons.prems b1(2,4) by (simp add: enough_def)
  from Cons.IH [OF this, of "had + int (length p)"] b1 show ?case by (auto simp: add.assoc)
qed simp

lemma frame_header_length: "length (concat (frame_header n)) \<le> 10"
  by (simp add: frame_header_def Let_def)

lemma ws_write_enough:
  assumes "enough hp b (24 + length data)"
  shows "\<exists>b'. ws_write hp h data b = Some (CODEC_STATUS_OK, b') \<and> cb_data b' = cb_data b @ server_frame h data"
proof -
  let ?ps = "frame_header (int (14 + length data))" and ?hd = "client_head_bytes (ws_out_head h (length data))"
  have small: "length data < 2 ^ 30" using assms by (simp add: enough_def)
  then have t: "to_int32 (14 + length data) = int (14 + length data)" "to_int32 (length data) = int (length data)" by simp_all
  have "enough hp b (length (concat ?ps) + (14 + length data))" using assms frame_header_length [of "int (14 + length data)"] by (auto simp: enough_def)
  from write_all_enough [OF this, of 0] obtain b1 where b1: "write_all hp b 0 ?ps = Some (int (length (concat ?ps)), b1)"
    "enough hp b1 (14 + length data)" "cb_data b1 = cb_data b @ concat ?ps" by auto
  have e1: "fst hp = (\<lambda>_. True)" "recv_ok b1" "m_write_idx b1 + length ?hd < 2 ^ 30" using b1(2) by (simp_all add: enough_def)
  obtain b2 where b2: "Write hp b1 ?hd = Some (14, b2)" "recv_ok b2" "cb_data b2 = cb_data b1 @ ?hd" "m_write_idx b2 \<le> m_write_idx b1 + 14"
    using Write_success [OF e1] by auto
  have e2: "m_write_idx b2 + length data < 2 ^ 30" using b1(2) b2(4) by (simp add: enough_def)
  obtain b3 where b3: "Write hp b2 data = Some (int (length data), b3)" "cb_data b3 = cb_data b2 @ data"
    using Write_success [OF e1(1) b2(2) e2] by auto
  show ?thesis using b1(1,3) b2(1,3) b3 t by (simp add: ws_write_def server_frame_def)
qed

lemma server_frame_second:
  obtains f s d where "length data < 2 ^ 30 \<Longrightarrow> server_frame h data = f # s # d" "length data < 2 ^ 30 \<Longrightarrow> WEBSOCKET_MASK AND s = 0"
proof -
  have "\<exists>s d. server_frame h data = 0x82 # s # d \<and> WEBSOCKET_MASK AND s = 0" if "length data < 2 ^ 30"
  proof (cases "14 + length data < 126")
    case True
    have "unat (word_of_nat (14 + length data) :: byte) = 14 + length data" using True by (simp only: unat_of_nat) simp
    then have "take_bit 7 (word_of_nat (14 + length data) :: byte) = word_of_nat (14 + length data)"
      by (intro unat_eqI) (use True in \<open>simp add: unsigned_take_bit_eq take_bit_nat_eq_self\<close>)
    then have "bit (word_of_nat (14 + length data) :: byte) 7 = False" by (metis bit_take_bit_iff less_irrefl)
    then have "WEBSOCKET_MASK AND (word_of_nat (14 + length data) :: byte) = 0"
      by (simp add: WEBSOCKET_MASK_def and_exp_eq_0_iff_not_bit [of _ 7, simplified] and.commute del: of_nat_add)
    then show ?thesis using True
      by (simp add: server_frame_def frame_header_def Let_def WEBSOCKET_FIN_def WEBSOCKET_FRAME_BINARY_def)
  next
    case False
    then show ?thesis
      by (simp add: server_frame_def frame_header_def Let_def WEBSOCKET_FIN_def WEBSOCKET_FRAME_BINARY_def WEBSOCKET_MASK_def
          WEBSOCKET_PAYLOAD_LEN_UINT64_def WEBSOCKET_PAYLOAD_LEN_UINT16_def)
  qed
  then show thesis using that by metis
qed

lemma ws_unmasked_refused:
  assumes "buf_ok b" "cb_data b = f # s # d" "WEBSOCKET_MASK AND s = 0"
  shows "CodecWebSocketPb_Decode P Z key hp b = Some (DERR (adv b 2))" "CodecWebSocketJson_Decode P of_json old Z key hp b = Some (DERR (adv b 2))"
proof -
  have a1: "buf_ok (adv b 1)" "cb_data (adv b 1) = s # d" "Read b 1 = Some (1, [f], adv b 1)"
    using adv_ok [OF assms(1), of 1] assms(2) by simp_all
  have "Read (adv b 1) 1 = Some (1, [s], adv b 2)"
    using adv_ok(4) [OF a1(1), of 1] a1(2) by (simp flip: Suc_1)
  then have "ws_frame_start b = Some (FErr (adv b 2))" using a1(3) assms(3) by (simp add: ws_frame_start_def Let_def)
  then show "CodecWebSocketPb_Decode P Z key hp b = Some (DERR (adv b 2))" "CodecWebSocketJson_Decode P of_json old Z key hp b = Some (DERR (adv b 2))"
    using ws_readable [OF assms(1)] assms(2) by (simp_all add: CodecWebSocketPb_Decode_def CodecWebSocketJson_Decode_def)
qed

text \<open>
  What \<open>Encode\<close> sends.  With enough memory it appends exactly one unmasked binary frame, with the packed head and the
  data, encrypted or compressed as the command asks; a receiver that uses the same codec refuses this frame at once, so
  the codec serves one direction only.
\<close>

theorem ws_server_frames:
  assumes "ws_data Z key hp (field (h_cmd h)) (body_ser P (sw x)) = Some (Some data)" "length (body_ser P (sw x)) \<le> 64000000"
    and "enough hp b (24 + length data)" "buf_ok c" "cb_data c = server_frame h data @ rest"
  shows "(\<exists>b'. CodecWebSocketPb_Encode P sw Z key hp h x b = Some (CODEC_STATUS_OK, b') \<and> cb_data b' = cb_data b @ server_frame h data)
     \<and> CodecWebSocketPb_Decode P Z key hp c = Some (DERR (adv c 2)) \<and> CodecWebSocketJson_Decode P of_json old Z key hp c = Some (DERR (adv c 2))"
proof -
  have "length data < 2 ^ 30" using assms(3) by (simp add: enough_def)
  then obtain f s d where s: "server_frame h data = f # s # d" "WEBSOCKET_MASK AND s = 0" using server_frame_second [of data h] by metis
  have "cb_data c = f # s # (d @ rest)" using s(1) assms(5) by simp
  from ws_unmasked_refused(1) [OF assms(4) this s(2), of P Z key hp] ws_unmasked_refused(2) [OF assms(4) this s(2), of P of_json old Z key hp]
    ws_write_enough [OF assms(3), of h] assms(1,2)
  show ?thesis by (auto simp add: CodecWebSocketPb_Encode_def simp del: split_paired_All)
qed

theorem ws_server_frames_witness:
  "(\<exists>b'. CodecWebSocketPb_Encode sample_pb (\<lambda>x. x) no_zlib [] (\<lambda>_. True, \<lambda>_. 0) (fst sample_msg) [5, 6] CBuffer_new = Some (CODEC_STATUS_OK, b')
      \<and> cb_data b' = server_frame (fst sample_msg) [5, 6])
   \<and> CodecWebSocketPb_Decode sample_pb no_zlib [] (\<lambda>_. True, \<lambda>_. 0) (sample_buffer (server_frame (fst sample_msg) [5, 6]))
      = Some (DERR (adv (sample_buffer (server_frame (fst sample_msg) [5, 6])) 2))"
proof -
  have d: "ws_data no_zlib [] (\<lambda>_. True, \<lambda>_. 0) (field (h_cmd (fst sample_msg))) (body_ser sample_pb [5, 6]) = Some (Some [5, 6])"
    by (simp add: ws_data_def sample_msg_def field_def client_compress_def gc_uiZipBit_def gc_uiGzipBit_def gc_uiRc5Bit_def sample_pb_def)
  have e: "enough (\<lambda>_. True, \<lambda>_. 0) CBuffer_new (24 + length [5, 6 :: byte])"
    by (simp add: enough_def recv_ok_def Capacity_def) (simp add: CBuffer_new_def)
  have c: "buf_ok (sample_buffer (server_frame (fst sample_msg) [5, 6]))"
    by (rule sample_buffer_ok) (simp add: server_frame_def frame_header_def Let_def)
  have l: "length (body_ser sample_pb [5, 6]) \<le> 64000000" by (simp add: sample_pb_def)
  show ?thesis using ws_server_frames [where sw = "\<lambda>x. x", OF d l e c, of "[]"] by simp
qed

text \<open>A write that cannot get memory, and the frame that is not written.\<close>

lemma Write_refused:
  assumes "cb_inv b" "WriteableBytes b = 0" "fst hp = (\<lambda>_. False)" "xs \<noteq> []" "m_write_idx b + length xs < 2 ^ 31"
  shows "Write hp b xs = Some (-1, b)"
proof -
  let ?cap = "if Capacity b = 0 then DEFAULT_BUFFER_SIZE else Capacity b"
  have "0 < ?cap" by (simp add: DEFAULT_BUFFER_SIZE_def)
  then obtain c where c: "grow_capacity ?cap (size_add (m_write_idx b) (length xs)) = Some c"
    using grow_capacity_returns [of ?cap "m_write_idx b + length xs"] assms(5) by auto
  have "c_malloc hp c = None" using assms(3) by (cases hp) (simp add: c_malloc_def)
  then have "EnsureWritableBytes hp b (length xs) = Some (False, b)"
    using EnsureWritableBytes_grow [of b "length xs" hp] assms(2,4) c by simp
  then show ?thesis by (simp add: Write_def)
qed

lemma ws_write_refused:
  assumes "cb_inv b" "WriteableBytes b = 0" "fst hp = (\<lambda>_. False)" "m_write_idx b + 14 < 2 ^ 31" "length data < 112"
  shows "ws_write hp h data b = Some (CODEC_STATUS_ERR, b\<lparr>m_write_idx := m_write_idx b + 3\<rparr>)"
proof -
  note w = Write_refused [OF assms(1,2,3)]
  have "frame_header (int (14 + length data)) = [[0x82], [word_of_int (int (14 + length data))]]"
    using assms(5) by (simp add: frame_header_def Let_def WEBSOCKET_FIN_def WEBSOCKET_FRAME_BINARY_def)
  then have "write_all hp b 0 (frame_header (int (14 + length data))) = Some (-2, b)"
    using w [of "[0x82]"] w [of "[word_of_int (int (14 + length data))]"] assms(4) by simp
  moreover have "Write hp b (client_head_bytes (ws_out_head h (length data))) = Some (-1, b)"
    using assms(4) by (intro w) (simp_all add: length_0_conv [symmetric] del: length_0_conv)
  moreover have "size_add_int (m_write_idx b) 3 = m_write_idx b + 3" using size_add_int_nat [of "m_write_idx b" 3] assms(4) by simp
  moreover have "to_int32 (14 + length data) = int (14 + length data)" using assms(5) by simp
  ultimately show ?thesis by (simp add: ws_write_def take_back_def SetWriteIndex_def)
qed

lemma ws_empty_frame:
  assumes "buf_ok b" "cb_data b = f # 0x80 # d"
  shows "CodecWebSocketPb_Decode P Z key hp b = Some (DPAUSE (adv b 2))" "buf_ok (adv b 2)" "cb_data (adv b 2) = d"
proof -
  have a1: "buf_ok (adv b 1)" "cb_data (adv b 1) = 0x80 # d" "Read b 1 = Some (1, [f], adv b 1)"
    using adv_ok [OF assms(1), of 1] assms(2) by simp_all
  have "Read (adv b 1) 1 = Some (1, [0x80], adv b 2)"
    using adv_ok(4) [OF a1(1), of 1] a1(2) by (simp flip: Suc_1)
  then have "ws_frame_start b = Some (FPause (adv b 2))" using a1(3)
    by (simp add: ws_frame_start_def Let_def WEBSOCKET_MASK_def WEBSOCKET_PAYLOAD_LEN_def)
  then show "CodecWebSocketPb_Decode P Z key hp b = Some (DPAUSE (adv b 2))"
    using ws_readable [OF assms(1)] assms(2) by (simp add: CodecWebSocketPb_Decode_def)
  show "buf_ok (adv b 2)" "cb_data (adv b 2) = d" using adv_ok(1,2) [OF assms(1), of 2] assms(2) by simp_all
qed

text \<open>A payload shorter than the packed head: the JSON codec pauses with the mask removed.\<close>

lemma cb_data_split: "cb_inv b \<Longrightarrow> m_read_idx b = i + n \<Longrightarrow> i + n \<le> m_write_idx b \<Longrightarrow>
    cb_data (b\<lparr>m_read_idx := i\<rparr>) = take n (drop i (m_buffer b)) @ cb_data b"
  using take_add [of n "m_write_idx b - (i + n)" "drop i (m_buffer b)"]
  by (simp add: cb_data_def segment_def cb_inv_def add.commute)

lemma unmask_loop_before: "unmask_loop k b j n = Some b' \<Longrightarrow> buf_ok b \<Longrightarrow> j + n \<le> length (cb_data b) \<Longrightarrow>
    take (m_read_idx b) (m_buffer b') = take (m_read_idx b) (m_buffer b)"
proof (induction n arbitrary: b j)
  case (Suc n)
  let ?v = "cb_data b ! j XOR k ! (j mod 4)"
  have j: "j < length (cb_data b)" using Suc.prems(3) by simp
  have "m_read_idx b < 2 ^ 31" "m_read_idx b + j < 2 ^ 64" using idx_in [OF Suc.prems(2) j] Suc.prems(2) by (auto simp: buf_ok_def)
  then have idx: "size_add_int 0 (to_int32 (m_read_idx b) + int j) = m_read_idx b + j"
    using size_add_int_nat [of 0 "m_read_idx b + j"] by simp
  note p = put_byte_data [OF Suc.prems(2), of j ?v]
  have "unmask_loop k (put_byte b j ?v) (j + 1) n = Some b'"
    using Suc.prems(1) mem_read_byte [OF Suc.prems(2) j] SetBytes_put [OF Suc.prems(2) j] by (simp add: idx)
  from Suc.IH [OF this p(1)] p Suc.prems(3) show ?case by (simp add: put_byte_def)
qed simp

lemma ws_json_short:
  assumes b: "buf_ok b" and k: "length k = 4" and p: "0 < length p" "length p < 14"
    and d: "cb_data b = client_header f (length p) @ k @ xor_mask k p"
  shows "\<exists>b'. CodecWebSocketJson_Decode P of_json old Z key hp b = Some (DPAUSE b') \<and> cb_data b' = client_header f (length p) @ k @ p"
proof -
  let ?n = "length p" and ?h = "client_header f (length p)"
  have h: "?h = [f, 0x80 OR word_of_nat ?n]" using p by (simp add: client_header_def)
  note s = small_len7 [OF p(1)]
  have n126: "?n < 126" using p by simp
  note s = s [OF this]
  have ne: "xor_mask k p \<noteq> []" using p(1) length_xor_mask [of k p] by (metis length_greater_0_conv)
  have dd: "cb_data b = f # (0x80 OR word_of_nat ?n) # (k @ xor_mask k p)" using d h by simp
  have hf: "header_fields (word_of_nat ?n) (k @ xor_mask k p) = Some (ucast (word_of_nat ?n :: byte), k, 6)"
    using s ne k p(1) by (simp add: header_fields_def)
  have fs: "ws_frame_start b = Some (FData (ucast (word_of_nat ?n :: byte)) k (adv b 6))"
    using ws_frame_start_eval [OF b dd] s hf k dd by simp
  have a: "buf_ok (adv b 6)" "cb_data (adv b 6) = xor_mask k p @ []"
    using adv_ok(1,2) [OF b, of 6] dd k by simp_all
  obtain b1 where b1: "unmask_loop k (adv b 6) 0 ?n = Some b1" "buf_ok b1" "m_read_idx b1 = m_read_idx b + 6"
    "m_write_idx b1 = m_write_idx b" "cb_data b1 = p"
    using unmask_payload [OF a] by (auto simp: adv_def)
  have inv: "cb_inv b1" "cb_inv b" using b1(2) b by (simp_all add: buf_ok_def)
  have r: "ReadableBytes b1 < 14" "2 \<le> ReadableBytes b" using buf_ok_readable [OF b1(2)] b1(5) p(2) ws_readable [OF b] dd by simp_all
  have i: "m_read_idx b + 6 \<le> m_write_idx b" using inv b1(3,4) by (simp add: cb_inv_def)
  have "size_add_int 0 (to_int32 (m_read_idx b)) = m_read_idx b" using size_add_int_nat [of 0 "m_read_idx b"] b i by (simp add: buf_ok_def)
  then have bk: "back_to b1 (to_int32 (m_read_idx b)) = b1\<lparr>m_read_idx := m_read_idx b\<rparr>" by (simp add: back_to_def SetReadIndex_def)
  have m6: "take (m_read_idx b + 6) (m_buffer b1) = take (m_read_idx b + 6) (m_buffer b)"
    using unmask_loop_before [OF b1(1) a(1)] a(2) by (simp add: adv_def)
  have "take 6 (drop (m_read_idx b) (m_buffer b1)) = take 6 (drop (m_read_idx b) (m_buffer b))"
    using arg_cong [OF m6, of "drop (m_read_idx b)"] by (simp add: drop_take)
  also have "\<dots> = take 6 (cb_data b)" using i by (simp add: cb_data_def segment_def)
  also have "\<dots> = ?h @ k" using d h k by simp
  finally have "cb_data (b1\<lparr>m_read_idx := m_read_idx b\<rparr>) = ?h @ k @ p"
    using cb_data_split [OF inv(1), of "m_read_idx b" 6] b1(3,4,5) i by simp
  moreover have "CodecWebSocketJson_Decode P of_json old Z key hp b = Some (DPAUSE (b1\<lparr>m_read_idx := m_read_idx b\<rparr>))"
    using fs b1(1) r bk s(6) by (simp add: CodecWebSocketJson_Decode_def Let_def)
  ultimately show ?thesis by blast
qed

text \<open>
  Where the WebSocket codecs lose the connection.  (1) A frame without payload, as a ping has it, is left after two bytes:
  \<open>Decode\<close> pauses, the masking key stays in the buffer and is read as the next frame header, and if its second
  byte has no mask bit the whole connection is refused.  (2) A payload shorter than the packed head makes the JSON codec pause after it has removed the
  mask in place, so the next call finds the plain bytes and masks them again.  (3) If the buffer is full and no memory can be
  had, \<open>Encode\<close> adds up the three failures and moves the write index three bytes forward instead of back, past the end of the block.
\<close>

theorem ws_frames_lost:
  assumes "buf_ok b1" "cb_data b1 = f # 0x80 # k1 # k2 # rest" "WEBSOCKET_MASK AND k2 = 0"
    and "buf_ok b2" "length k = 4" "0 < length p" "length p < 14" "cb_data b2 = client_header f (length p) @ k @ xor_mask k p"
    and "cb_inv b3" "WriteableBytes b3 = 0" "fst nomem = (\<lambda>_. False)" "m_write_idx b3 + 14 < 2 ^ 31" "length data < 112"
  shows "(\<exists>b'. CodecWebSocketPb_Decode P Z key hp b1 = Some (DPAUSE b') \<and> cb_data b' = k1 # k2 # rest
            \<and> CodecWebSocketPb_Decode P Z key hp b' = Some (DERR (adv b' 2)))
     \<and> (\<exists>b'. CodecWebSocketJson_Decode P of_json old Z key hp b2 = Some (DPAUSE b') \<and> cb_data b' = client_header f (length p) @ k @ p)
     \<and> (\<exists>b'. ws_write nomem h data b3 = Some (CODEC_STATUS_ERR, b') \<and> \<not> cb_inv b' \<and> ReadableBytes b' = ReadableBytes b3 + 3)"
proof -
  note e = ws_empty_frame(1) [OF assms(1,2), of P Z key hp] ws_empty_frame(2,3) [OF assms(1,2)]
  have "CodecWebSocketPb_Decode P Z key hp (adv b1 2) = Some (DERR (adv (adv b1 2) 2))"
    using ws_unmasked_refused(1) [OF e(2,3) assms(3)] .
  with e have 1: "\<exists>b'. CodecWebSocketPb_Decode P Z key hp b1 = Some (DPAUSE b') \<and> cb_data b' = k1 # k2 # rest
      \<and> CodecWebSocketPb_Decode P Z key hp b' = Some (DERR (adv b' 2))" by blast
  have full: "m_write_idx b3 = m_buffer_len b3" using assms(9,10) by (auto simp: WriteableBytes_def Writeable_def cb_inv_def split: if_splits)
  let ?b' = "b3\<lparr>m_write_idx := m_write_idx b3 + 3\<rparr>"
  have "\<not> cb_inv ?b'" "ReadableBytes ?b' = ReadableBytes b3 + 3"
    using full assms(9) by (auto simp: cb_inv_def ReadableBytes_def Readable_def)
  with ws_write_refused [OF assms(9-13), of h] have "\<exists>b'. ws_write nomem h data b3 = Some (CODEC_STATUS_ERR, b') \<and> \<not> cb_inv b'
      \<and> ReadableBytes b' = ReadableBytes b3 + 3" by blast
  with 1 ws_json_short [OF assms(4-8), of P of_json old Z key hp] show ?thesis by blast
qed

theorem ws_frames_lost_witness:
  "(\<exists>b'. CodecWebSocketPb_Decode sample_pb no_zlib [] (\<lambda>_. True, \<lambda>_. 0) (sample_buffer [0x89, 0x80, 1, 2, 3, 4]) = Some (DPAUSE b')
      \<and> cb_data b' = [1, 2, 3, 4]
      \<and> CodecWebSocketPb_Decode sample_pb no_zlib [] (\<lambda>_. True, \<lambda>_. 0) b' = Some (DERR (adv b' 2)))
   \<and> (\<exists>b'. ws_write (\<lambda>_. False, \<lambda>_. 0) (fst sample_msg) [5] CBuffer_new = Some (CODEC_STATUS_ERR, b') \<and> \<not> cb_inv b'
      \<and> ReadableBytes b' = ReadableBytes CBuffer_new + 3)"
proof -
  have b: "buf_ok (sample_buffer [0x89, 0x80, 1, 2, 3, 4])" "buf_ok (sample_buffer (client_header 0x89 1 @ [1, 2, 3, 4] @ xor_mask [1, 2, 3, 4] [9]))"
    by (rule sample_buffer_ok, simp add: client_header_def)+
  have n: "WriteableBytes CBuffer_new = 0" "m_write_idx CBuffer_new + 14 < 2 ^ 31"
    by (simp_all add: WriteableBytes_def Writeable_def CBuffer_new_def)
  show ?thesis
    using ws_frames_lost [OF b(1) cb_data_sample _ b(2), of "[1, 2, 3, 4]" "[9]" CBuffer_new "(\<lambda>_. False, \<lambda>_. 0)" "[5]"
        sample_pb no_zlib "[]" "(\<lambda>_. True, \<lambda>_. 0)" _ _ "fst sample_msg"] n
    by (simp add: WEBSOCKET_MASK_def)
qed

end
