(* ===== verification/Center.thy ===== *)
theory Center
  imports CJsonObject CJsonText WorkerSend
begin

text \<open>
  The registry of nodes in the center (\<open>Center/src/NodeSession.cpp\<close>, \<open>Comm.hpp\<close> and the commands beside them).

  Nodes register with their type and address and report their load.  The center gives each an id and tells the nodes which others they may send
  to: every node gets the nodes of the types that its own type needs, when it registers and whenever one of them comes, leaves or is suspended.

  The table of nodes is a \<open>std::map\<close> by \<open>ip:port\<close>, here a list of pairs in the order of the keys.  A message is the JSON value of its body with
  its receiver; \<open>sent\<close>, which is not in the code, collects the messages that the center hands to the framework, and \<open>ce_send\<close> says whether the
  framework reports success.  \<open>ce_empty\<close> is the serialisation of a message body without fields.  Writing more than a buffer holds is \<open>None\<close>.
\<close>

declare dec_text.simps [simp del]

subsection \<open>Error codes and commands\<close>

definition ERR_OK :: int where "ERR_OK = 0"
definition ERR_SERVER_LOGIC_ERROR :: int where "ERR_SERVER_LOGIC_ERROR = 500"
definition ERR_SERVERINFO :: int where "ERR_SERVERINFO = 20009"
definition ERR_BODY_JSON :: int where "ERR_BODY_JSON = 20011"
definition ERR_SERVER_ERROR :: int where "ERR_SERVER_ERROR = 20204"
definition ERR_REQ_MISS_PARAM :: int where "ERR_REQ_MISS_PARAM = 20224"
definition ERR_SERVER_NODE_NO_EXIST :: int where "ERR_SERVER_NODE_NO_EXIST = 28002"
definition ERR_SERVER_NODE_ALREADY_OFFLINE :: int where "ERR_SERVER_NODE_ALREADY_OFFLINE = 28003"
definition ERR_SERVER_NODE_ALREADY_ONLINE :: int where "ERR_SERVER_NODE_ALREADY_ONLINE = 28004"
definition ERR_SERVER_SELF_ONLINE :: int where "ERR_SERVER_SELF_ONLINE = 28006"
definition ERR_SERVER_SELF_OFFLINE :: int where "ERR_SERVER_SELF_OFFLINE = 28007"
definition ERR_SERVER_CENTER_RESTART_SCRIPT :: int where "ERR_SERVER_CENTER_RESTART_SCRIPT = 28008"
definition ERR_SERVER_CENTER_NO_SUSPEND :: int where "ERR_SERVER_CENTER_NO_SUSPEND = 28009"
definition ERR_SERVER_CENTER_NO_ROUTES_RESTORE :: int where "ERR_SERVER_CENTER_NO_ROUTES_RESTORE = 28010"
definition ERR_SERVER_NODE_OFFLINE_NEED_MORE_NODES :: int where "ERR_SERVER_NODE_OFFLINE_NEED_MORE_NODES = 28016"

lemmas center_codes = ERR_OK_def ERR_SERVER_LOGIC_ERROR_def ERR_SERVERINFO_def ERR_BODY_JSON_def ERR_SERVER_ERROR_def ERR_REQ_MISS_PARAM_def
  ERR_SERVER_NODE_NO_EXIST_def ERR_SERVER_NODE_ALREADY_OFFLINE_def ERR_SERVER_NODE_ALREADY_ONLINE_def ERR_SERVER_SELF_ONLINE_def
  ERR_SERVER_SELF_OFFLINE_def ERR_SERVER_CENTER_RESTART_SCRIPT_def ERR_SERVER_CENTER_NO_SUSPEND_def ERR_SERVER_CENTER_NO_ROUTES_RESTORE_def
  ERR_SERVER_NODE_OFFLINE_NEED_MORE_NODES_def

definition CMD_REQ_NODE_REG_NOTICE :: nat where "CMD_REQ_NODE_REG_NOTICE = 15"
definition CMD_REQ_NODE_STOP :: nat where "CMD_REQ_NODE_STOP = 35"
definition CMD_REQ_NODE_RESTART_WORKERS :: nat where "CMD_REQ_NODE_RESTART_WORKERS = 37"

subsection \<open>Nodes (Comm.hpp)\<close>

record node_status =
  nodeId :: int
  nodeType :: string
  nodeInnerPort :: int
  nodeInnerIp :: string
  nodeAccessPort :: int
  nodeAccessIp :: string
  workerNum :: int
  activeTime :: u64
  ni_load :: int
  ni_connect :: int
  ni_client :: int
  recvNum :: int
  recvByte :: int
  sendNum :: int
  sendByte :: int
  ni_worker :: string
  suspend :: int

definition NodeStatusInfo_clean :: node_status where
  "NodeStatusInfo_clean = \<lparr>nodeId = 0, nodeType = [], nodeInnerPort = 0, nodeInnerIp = [], nodeAccessPort = 0, nodeAccessIp = [], workerNum = 0,
     activeTime = 0, ni_load = 0, ni_connect = 0, ni_client = 0, recvNum = 0, recvByte = 0, sendNum = 0, sendByte = 0, ni_worker = [], suspend = 0\<rparr>"

text \<open>\<open>sprintf\<close> of an address into a buffer of 100 bytes.\<close>

definition address_text :: "string \<Rightarrow> int \<Rightarrow> string option" where
  "address_text sIp iPort = (let s = c_str sIp @ '':'' @ int_text iPort in if length s < 100 then Some s else None)"

definition getNodeKey :: "node_status \<Rightarrow> string option" where
  "getNodeKey info = address_text (nodeInnerIp info) (nodeInnerPort info)"

text \<open>\<open>update\<close>: the load of a node.  Its type, id and state stay.\<close>

definition update_load :: "node_status \<Rightarrow> node_status \<Rightarrow> bool \<times> node_status" where
  "update_load this info =
     (if nodeInnerIp this = nodeInnerIp info \<and> nodeInnerPort this = nodeInnerPort info
      then (True, this\<lparr>activeTime := activeTime info, workerNum := workerNum info, ni_load := ni_load info, ni_connect := ni_connect info,
        ni_client := ni_client info, recvNum := recvNum info, recvByte := recvByte info, sendNum := sendNum info, sendByte := sendByte info,
        ni_worker := ni_worker info\<rparr>)
      else (False, this))"

record node_load =
  nl_nodetype :: string
  serverload :: u16
  innerport :: u16
  innerip :: string
  outerport :: u16
  outerip :: string

definition NodeLoadStatus_of :: "node_status \<Rightarrow> node_load" where
  "NodeLoadStatus_of i = \<lparr>nl_nodetype = nodeType i, serverload = word_of_int (ni_load i), innerport = word_of_int (nodeInnerPort i), innerip = nodeInnerIp i,
     outerport = word_of_int (nodeAccessPort i), outerip = nodeAccessIp i\<rparr>"

record node_type =
  nt_nodetype :: string
  neededServers :: "string list"

subsection \<open>The session\<close>

datatype center_status = eOfflineStatus | eMasterStatus | eSlaveStatus

datatype center_msg = ToClient tagMsgShell json | ToShell tagMsgShell nat json | ToNode string nat json
  | ToTarget string nat string | Ack tagMsgShell string u32 u32 int

record center_env =
  ce_send :: "center_msg \<Rightarrow> bool"
  ce_empty :: string

record node_session =
  cs_status :: center_status
  m_vecNodeTypes :: "node_type list"
  m_vecWhiteNode :: "string list"
  m_mapNodesStatus :: "(string \<times> node_status) list"
  m_objRoute :: jobject
  m_uiNodeId :: u32
  m_centerInnerHost :: string
  m_centerInnerPort :: int
  m_centerNodeType :: string
  m_centerProcessNum :: int
  m_GatewayTypeList :: "string list"
  m_vecCenterServer :: "string list"
  sent :: "center_msg list"

text \<open>One message to the framework, and its result.\<close>

definition send_msg :: "center_env \<Rightarrow> center_msg \<Rightarrow> node_session \<Rightarrow> bool \<times> node_session" where
  "send_msg C m S = (ce_send C m, S\<lparr>sent := sent S @ [m]\<rparr>)"

definition send_msgs :: "center_msg list \<Rightarrow> node_session \<Rightarrow> node_session" where
  "send_msgs ms S = S\<lparr>sent := sent S @ ms\<rparr>"

text \<open>The lock that decides which center is the master: \<open>None\<close> if no Redis server is configured.\<close>

definition CheckCenterActive :: "bool option \<Rightarrow> node_session \<Rightarrow> node_session" where
  "CheckCenterActive lock S = S\<lparr>cs_status := (case lock of None \<Rightarrow> eMasterStatus | Some True \<Rightarrow> eMasterStatus | Some False \<Rightarrow> eSlaveStatus)\<rparr>"

subsection \<open>The table of nodes\<close>

fun stdmap_insert :: "string \<Rightarrow> 'v \<Rightarrow> (string \<times> 'v) list \<Rightarrow> (string \<times> 'v) list" where
  "stdmap_insert k v [] = [(k, v)]"
| "stdmap_insert k v ((k', v') # m) = (if k < k' then (k, v) # (k', v') # m else if k = k' then (k', v') # m else (k', v') # stdmap_insert k v m)"

definition AddNodeInfo :: "string \<Rightarrow> node_status \<Rightarrow> node_session \<Rightarrow> node_session" where
  "AddNodeInfo NodeKey Info S =
     (if map_of (m_mapNodesStatus S) NodeKey = None then S\<lparr>m_mapNodesStatus := stdmap_insert NodeKey Info (m_mapNodesStatus S)\<rparr> else S)"

definition DelNodeInfo :: "string \<Rightarrow> node_session \<Rightarrow> bool \<times> node_session" where
  "DelNodeInfo strNodeKey S =
     (map_of (m_mapNodesStatus S) strNodeKey \<noteq> None, S\<lparr>m_mapNodesStatus := filter (\<lambda>kv. fst kv \<noteq> strNodeKey) (m_mapNodesStatus S)\<rparr>)"

definition GetNodeInfo :: "string \<Rightarrow> node_session \<Rightarrow> node_status option" where
  "GetNodeInfo NodeKey S = map_of (m_mapNodesStatus S) NodeKey"

text \<open>A write through the pointer that \<open>GetNodeInfo\<close> returns.\<close>

definition put_info :: "string \<Rightarrow> node_status \<Rightarrow> node_session \<Rightarrow> node_session" where
  "put_info NodeKey Info S = S\<lparr>m_mapNodesStatus := map (\<lambda>(k, i). (k, if k = NodeKey then Info else i)) (m_mapNodesStatus S)\<rparr>"

definition GetNewNodeID :: "node_session \<Rightarrow> u32 \<times> node_session" where
  "GetNewNodeID S =
     (let tmpID = foldl (\<lambda>tmpID kv. if nodeId (snd kv) > sint tmpID then word_of_int (nodeId (snd kv)) else tmpID) 0 (m_mapNodesStatus S) + 1
      in (tmpID, S\<lparr>m_uiNodeId := tmpID\<rparr>))"

definition GetNodeCountByType :: "string \<Rightarrow> node_session \<Rightarrow> u32" where
  "GetNodeCountByType ty S = foldl (\<lambda>n kv. if nodeType (snd kv) = ty then n + 1 else n) 0 (m_mapNodesStatus S)"

definition GetNodeTypeServerInfo :: "string \<Rightarrow> node_session \<Rightarrow> node_type option" where
  "GetNodeTypeServerInfo ty S = find (\<lambda>t. ty = nt_nodetype t) (m_vecNodeTypes S)"

definition CheckNodeType :: "string \<Rightarrow> node_session \<Rightarrow> bool" where
  "CheckNodeType ty S = list_ex (\<lambda>t. nt_nodetype t = ty) (m_vecNodeTypes S)"

definition CheckWhiteNode :: "string \<Rightarrow> node_session \<Rightarrow> bool" where
  "CheckWhiteNode nodeIp S = list_ex (\<lambda>w. w = nodeIp) (m_vecWhiteNode S)"

definition CheckNodeSuspend :: "node_status \<Rightarrow> node_session \<Rightarrow> node_status option" where
  "CheckNodeSuspend nodeinfo S = do {
     key \<leftarrow> getNodeKey nodeinfo;
     Some (case GetNodeInfo key S of None \<Rightarrow> nodeinfo | Some i \<Rightarrow> nodeinfo\<lparr>suspend := suspend i\<rparr>) }"

definition GetNodeStatusByNodeType :: "string \<Rightarrow> node_session \<Rightarrow> node_load list" where
  "GetNodeStatusByNodeType ty S = map (\<lambda>kv. NodeLoadStatus_of (snd kv)) (filter (\<lambda>kv. ty = nodeType (snd kv)) (m_mapNodesStatus S))"

text \<open>The node of a type with the least load.\<close>

definition GetLoadMinNode :: "string \<Rightarrow> node_session \<Rightarrow> int + node_load" where
  "GetLoadMinNode serverType S =
     (if \<not> CheckNodeType serverType S then Inl ERR_SERVERINFO
      else case GetNodeStatusByNodeType serverType S of
             [] \<Rightarrow> Inl ERR_SERVERINFO
           | n # ns \<Rightarrow> Inr (foldl (\<lambda>b i. if serverload b > serverload i then i else b) n (n # ns)))"

subsection \<open>Configuration\<close>

text \<open>\<open>RemoveFlag\<close>: a text without its quotes.\<close>

definition RemoveFlagString :: "string \<Rightarrow> string" where
  "RemoveFlagString str = filter (\<lambda>c. c \<noteq> CHR 0x22) str"

text \<open>The texts of the elements \<open>i\<close> to \<open>s - 1\<close> of an array.\<close>

fun array_texts :: "'d jenv \<Rightarrow> nat \<Rightarrow> nat \<Rightarrow> jobject \<Rightarrow> 'd jheap \<Rightarrow> (string list \<times> jobject) option" where
  "array_texts E i 0 j H = Some ([], j)"
| "array_texts E i (Suc n) j H = do {
     (r, j) \<leftarrow> subscript_index (word_of_nat i) j H;
     s \<leftarrow> CJsonObject_ToString E r H;
     (ts, j) \<leftarrow> array_texts E (i + 1) n j H;
     Some (RemoveFlagString s # ts, j) }"

definition json_strings :: "'d jenv \<Rightarrow> jobject \<Rightarrow> 'd jheap \<Rightarrow> (string list \<times> jobject) option" where
  "json_strings E j H = do { s \<leftarrow> GetArraySize j H; array_texts E 0 (nat s) j H }"

text \<open>\<open>snprintf\<close> into 32 bytes with the text as the format: a percent sign reads arguments that are not there.\<close>

definition white_ip :: "string \<Rightarrow> string option" where
  "white_ip s = (if CHR ''%'' \<in> set (c_str s) then None else Some (take 31 (c_str s)))"

fun all_some :: "'a option list \<Rightarrow> 'a list option" where
  "all_some [] = Some []"
| "all_some (x # xs) = do { y \<leftarrow> x; ys \<leftarrow> all_some xs; Some (y # ys) }"

definition load_white :: "'d jenv \<Rightarrow> node_session \<Rightarrow> 'd jheap \<Rightarrow> (node_session \<times> 'd jheap) option" where
  "load_white E S H =
     (if m_vecWhiteNode S \<noteq> [] then Some (S, H)
      else do {
        (found, objIpwhite, H) \<leftarrow> Get_object E ''ipwhite'' (m_objRoute S) CJsonObject_new H;
        (S, objIpwhite) \<leftarrow>
          (if found then do {
             (ts, objIpwhite) \<leftarrow> json_strings E objIpwhite H;
             ws \<leftarrow> all_some (map white_ip ts);
             Some (S\<lparr>m_vecWhiteNode := ws\<rparr>, objIpwhite) }
           else Some (S, objIpwhite));
        H \<leftarrow> delete_objects [objIpwhite] H;
        Some (S, H) })"

fun load_needed :: "'d jenv \<Rightarrow> string list \<Rightarrow> jobject \<Rightarrow> 'd jheap \<Rightarrow> (node_type list \<times> 'd jheap) option" where
  "load_needed E [] j H = Some ([], H)"
| "load_needed E (node # nodes) j H = do {
     (_, neededservers, H) \<leftarrow> Get_object E node j CJsonObject_new H;
     (ts, neededservers) \<leftarrow> json_strings E neededservers H;
     H \<leftarrow> delete_objects [neededservers] H;
     (tys, H) \<leftarrow> load_needed E nodes j H;
     Some (\<lparr>nt_nodetype = node, neededServers = ts\<rparr> # tys, H) }"

definition load_types :: "'d jenv \<Rightarrow> node_session \<Rightarrow> 'd jheap \<Rightarrow> (node_session \<times> 'd jheap) option" where
  "load_types E S H =
     (if m_vecNodeTypes S \<noteq> [] then Some (S, H)
      else do {
        (found, objAutoNodetype, H) \<leftarrow> Get_object E ''auto'' (m_objRoute S) CJsonObject_new H;
        (S, objAutoNodetype, H) \<leftarrow>
          (if found then do {
             (vecNode, objAutoNodetype) \<leftarrow> json_strings E objAutoNodetype H;
             Some (S\<lparr>m_vecNodeTypes := map (\<lambda>node. \<lparr>nt_nodetype = node, neededServers = vecNode\<rparr>) vecNode\<rparr>, objAutoNodetype, H) }
           else do {
             (found, objNodetype, H) \<leftarrow> Get_object E ''node'' (m_objRoute S) CJsonObject_new H;
             (S, H) \<leftarrow>
               (if found then do {
                  vecNode \<leftarrow> GetKeys objNodetype [] H;
                  (tys, H) \<leftarrow> load_needed E vecNode objNodetype H;
                  Some (S\<lparr>m_vecNodeTypes := tys\<rparr>, H) }
                else Some (S, H));
             H \<leftarrow> delete_objects [objNodetype] H;
             Some (S, objAutoNodetype, H) });
        H \<leftarrow> delete_objects [objAutoNodetype] H;
        Some (S, H) })"

definition LoadNodeRoute :: "'d jenv \<Rightarrow> node_session \<Rightarrow> 'd jheap \<Rightarrow> (node_session \<times> 'd jheap) option" where
  "LoadNodeRoute E S H =
     (if IsEmpty (m_objRoute S) then Some (S, H)
      else do { (S, H) \<leftarrow> load_white E S H; load_types E S H })"

definition CheckNodeStatus :: "'d jenv \<Rightarrow> node_status \<Rightarrow> node_session \<Rightarrow> 'd jheap \<Rightarrow> (bool \<times> node_session \<times> 'd jheap) option" where
  "CheckNodeStatus E nodeinfo S H = do {
     (S, H) \<leftarrow> LoadNodeRoute E S H;
     Some (CheckNodeType (nodeType nodeinfo) S \<and> CheckWhiteNode (nodeInnerIp nodeinfo) S, S, H) }"

subsection \<open>Notices\<close>

definition route_json :: "string \<Rightarrow> string \<Rightarrow> int \<Rightarrow> int \<Rightarrow> json" where
  "route_json ty sIp iPort num =
     JObj [(''node_type'', JStr (c_str ty)), (''node_ip'', JStr (c_str sIp)), (''node_port'', JInt iPort), (''worker_num'', JInt num)]"

definition node_json :: "node_status \<Rightarrow> json" where
  "node_json i = route_json (nodeType i) (nodeInnerIp i) (nodeInnerPort i) (workerNum i)"

definition center_json :: "node_session \<Rightarrow> json" where
  "center_json S = route_json (m_centerNodeType S) (m_centerInnerHost S) (m_centerInnerPort S) (m_centerProcessNum S)"

definition GetNeededNodesStatus :: "string list \<Rightarrow> node_session \<Rightarrow> json" where
  "GetNeededNodesStatus needed S =
     JObj [(''node_arry_reg'', JArr (concat (map (\<lambda>kv. map (\<lambda>_. node_json (snd kv))
       (filter (\<lambda>it. it = nodeType (snd kv) \<and> suspend (snd kv) = 0) needed)) (m_mapNodesStatus S)) @ [center_json S]))]"

definition GetCenterNodesStatus :: "node_session \<Rightarrow> json" where
  "GetCenterNodesStatus S = JObj [(''node_arry_reg'', JArr [center_json S])]"

definition ResToReg :: "center_env \<Rightarrow> tagMsgShell \<Rightarrow> int \<Rightarrow> node_status \<Rightarrow> node_session \<Rightarrow> bool \<times> node_session" where
  "ResToReg C stMsgShell iRet i S =
     send_msg C (ToClient stMsgShell (JObj [(''errcode'', JInt iRet), (''node_id'', JInt (if iRet \<noteq> 0 then 0 else nodeId i))])) S"

definition SendOthersToReg :: "center_env \<Rightarrow> tagMsgShell \<Rightarrow> node_status \<Rightarrow> node_session \<Rightarrow> node_session" where
  "SendOthersToReg C stMsgShell i S =
     (case GetNodeTypeServerInfo (nodeType i) S of
        None \<Rightarrow> S
      | Some t \<Rightarrow> snd (send_msg C (ToShell stMsgShell CMD_REQ_NODE_REG_NOTICE (GetNeededNodesStatus (neededServers t) S)) S))"

definition SendCenterToReg :: "center_env \<Rightarrow> tagMsgShell \<Rightarrow> node_status \<Rightarrow> node_session \<Rightarrow> int \<times> node_session" where
  "SendCenterToReg C stMsgShell i S =
     (case GetNodeTypeServerInfo (nodeType i) S of
        None \<Rightarrow> (ERR_OK, S)
      | Some t \<Rightarrow> (case send_msg C (ToShell stMsgShell CMD_REQ_NODE_REG_NOTICE (GetCenterNodesStatus S)) S of
                     (ok, S) \<Rightarrow> (if ok then ERR_OK else ERR_SERVER_ERROR, S)))"

text \<open>The messages to the nodes of the table whose type needs \<open>ty\<close>, one for each time it is listed.\<close>

fun notices :: "node_session \<Rightarrow> string \<Rightarrow> json \<Rightarrow> (string \<times> node_status) list \<Rightarrow> center_msg list option" where
  "notices S ty body [] = Some []"
| "notices S ty body ((k, i) # m) = do {
     ms \<leftarrow> (case GetNodeTypeServerInfo (nodeType i) S of
              None \<Rightarrow> Some []
            | Some t \<Rightarrow> all_some (map (\<lambda>_. map_option (\<lambda>key. ToNode key CMD_REQ_NODE_REG_NOTICE body) (getNodeKey i))
                          (filter (\<lambda>it. it = ty) (neededServers t))));
     ms' \<leftarrow> notices S ty body m;
     Some (ms @ ms') }"

definition IsGate :: "string \<Rightarrow> node_session \<Rightarrow> bool" where
  "IsGate nodetype S = list_ex (\<lambda>g. nodetype = g) (m_GatewayTypeList S)"

definition reg_notice :: "node_status \<Rightarrow> json" where
  "reg_notice i = JObj [(''node_arry_reg'', JArr [node_json i])]"

definition exit_notice :: "node_status \<Rightarrow> json" where
  "exit_notice i = JObj [(''node_arry_exit'', JArr [node_json i])]"

definition SendRegToOthers :: "node_status \<Rightarrow> node_session \<Rightarrow> node_session option" where
  "SendRegToOthers i S =
     (if suspend i \<noteq> 0 then Some S
      else do { ms \<leftarrow> notices S (nodeType i) (reg_notice i) (m_mapNodesStatus S); Some (send_msgs ms S) })"

definition SendUnregToOthers :: "node_status \<Rightarrow> node_session \<Rightarrow> node_session option" where
  "SendUnregToOthers i S = do { ms \<leftarrow> notices S (nodeType i) (exit_notice i) (m_mapNodesStatus S); Some (send_msgs ms S) }"

definition SendOfflineToGate :: "node_status \<Rightarrow> node_session \<Rightarrow> node_session option" where
  "SendOfflineToGate i S = do {
     ms \<leftarrow> notices S (nodeType i) (exit_notice i) (filter (\<lambda>kv. IsGate (nodeType (snd kv)) S) (m_mapNodesStatus S)); Some (send_msgs ms S) }"

definition SendOnlineToGate :: "node_status \<Rightarrow> node_session \<Rightarrow> node_session option" where
  "SendOnlineToGate i S = do {
     ms \<leftarrow> notices S (nodeType i) (reg_notice i) (filter (\<lambda>kv. IsGate (nodeType (snd kv)) S) (m_mapNodesStatus S)); Some (send_msgs ms S) }"

subsection \<open>Registering, reporting and leaving\<close>

definition RegNodeRoute :: "center_env \<Rightarrow> tagMsgShell \<Rightarrow> node_status \<Rightarrow> node_session \<Rightarrow> (int \<times> node_session) option" where
  "RegNodeRoute C stMsgShell nodeinfo S = do {
     key \<leftarrow> getNodeKey nodeinfo;
     (i, S) \<leftarrow>
       (case GetNodeInfo key S of
          Some i \<Rightarrow> (let i = snd (update_load i nodeinfo) in Some (i, put_info key i S))
        | None \<Rightarrow>
            (case GetNewNodeID S of (newId, S) \<Rightarrow>
               (let i = nodeinfo\<lparr>nodeId := sint newId\<rparr> in Some (i, AddNodeInfo key i S))));
     S \<leftarrow> SendRegToOthers i (SendOthersToReg C stMsgShell i (snd (ResToReg C stMsgShell ERR_OK i S)));
     Some (ERR_OK, S) }"

definition RegNode :: "center_env \<Rightarrow> tagMsgShell \<Rightarrow> node_status \<Rightarrow> node_session \<Rightarrow> (int \<times> node_session) option" where
  "RegNode C stMsgShell nodeinfo S = do {
     i \<leftarrow> CheckNodeSuspend nodeinfo S;
     (case cs_status S of
        eMasterStatus \<Rightarrow> RegNodeRoute C stMsgShell i S
      | eSlaveStatus \<Rightarrow> do {
          key \<leftarrow> getNodeKey i;
          let S = (case GetNodeInfo key S of Some old \<Rightarrow> put_info key (snd (update_load old i)) S | None \<Rightarrow> AddNodeInfo key i S);
          Some (SendCenterToReg C stMsgShell i S) }
      | eOfflineStatus \<Rightarrow> Some (ERR_OK, S)) }"

definition UpdateNode :: "center_env \<Rightarrow> tagMsgShell \<Rightarrow> node_status \<Rightarrow> node_session \<Rightarrow> (int \<times> node_session) option" where
  "UpdateNode C stMsgShell nodeinfo S = do {
     key \<leftarrow> getNodeKey nodeinfo;
     (case GetNodeInfo key S of
        None \<Rightarrow> RegNode C stMsgShell nodeinfo S
      | Some i \<Rightarrow> (case update_load i nodeinfo of (ok, i) \<Rightarrow> Some (if ok then ERR_OK else ERR_SERVERINFO, put_info key i S))) }"

definition NodeSession_DelNode :: "string \<Rightarrow> node_session \<Rightarrow> (bool \<times> node_session) option" where
  "NodeSession_DelNode delNodeIdentify S =
     (case GetNodeInfo delNodeIdentify S of
        None \<Rightarrow> Some (False, S)
      | Some i \<Rightarrow>
          (case DelNodeInfo delNodeIdentify S of (ok, S) \<Rightarrow>
             if \<not> ok then Some (False, S)
             else if cs_status S = eMasterStatus then do { S \<leftarrow> SendUnregToOthers i S; Some (True, S) }
             else Some (True, S)))"

subsection \<open>Suspending and resuming\<close>

definition GetSelfNodeIdentify :: "node_session \<Rightarrow> string option" where
  "GetSelfNodeIdentify S = address_text (m_centerInnerHost S) (m_centerInnerPort S)"

definition OfflineNode :: "string \<Rightarrow> node_session \<Rightarrow> (int \<times> node_session) option" where
  "OfflineNode sOfflineIdentify S = do {
     self \<leftarrow> GetSelfNodeIdentify S;
     if sOfflineIdentify = self then Some (ERR_SERVER_SELF_OFFLINE, S)
     else case GetNodeInfo sOfflineIdentify S of
            None \<Rightarrow> Some (ERR_SERVER_NODE_NO_EXIST, S)
          | Some i \<Rightarrow>
              if suspend i = 1 then Some (ERR_SERVER_NODE_ALREADY_OFFLINE, S)
              else if GetNodeCountByType (nodeType i) S < 2 then Some (ERR_SERVER_NODE_OFFLINE_NEED_MORE_NODES, S)
              else do {
                let i = i\<lparr>suspend := 1\<rparr>;
                S \<leftarrow> SendUnregToOthers i (put_info sOfflineIdentify i S);
                Some (ERR_OK, S) } }"

definition CanOnlineNode :: "string \<Rightarrow> node_session \<Rightarrow> int option" where
  "CanOnlineNode sOnlineIdentify S = do {
     self \<leftarrow> GetSelfNodeIdentify S;
     Some (if sOnlineIdentify = self then ERR_SERVER_SELF_ONLINE
           else case GetNodeInfo sOnlineIdentify S of
                  None \<Rightarrow> ERR_SERVER_NODE_NO_EXIST
                | Some i \<Rightarrow> if suspend i = 0 then ERR_SERVER_NODE_ALREADY_ONLINE else ERR_OK) }"

definition OnlineNode :: "string \<Rightarrow> node_session \<Rightarrow> (int \<times> node_session) option" where
  "OnlineNode sOnlineIdentify S = do {
     self \<leftarrow> GetSelfNodeIdentify S;
     if sOnlineIdentify = self then Some (ERR_SERVER_CENTER_NO_ROUTES_RESTORE, S)
     else case GetNodeInfo sOnlineIdentify S of
            None \<Rightarrow> Some (ERR_SERVER_NODE_NO_EXIST, S)
          | Some i \<Rightarrow>
              if suspend i = 0 then Some (ERR_SERVER_NODE_ALREADY_ONLINE, S)
              else do {
                let i = i\<lparr>suspend := 0\<rparr>;
                S \<leftarrow> SendRegToOthers i (put_info sOnlineIdentify i S);
                Some (ERR_OK, S) } }"

definition IsSelfNodeIdentify :: "string \<Rightarrow> node_session \<Rightarrow> bool option" where
  "IsSelfNodeIdentify identify S = map_option (\<lambda>self. identify = self) (GetSelfNodeIdentify S)"

definition IsCenterServer :: "string \<Rightarrow> node_session \<Rightarrow> bool" where
  "IsCenterServer identify S = list_ex (\<lambda>c. identify = c) (m_vecCenterServer S)"

definition HasIdentifyAuthority :: "string \<Rightarrow> node_session \<Rightarrow> bool option" where
  "HasIdentifyAuthority ident S = (if IsCenterServer ident S then IsSelfNodeIdentify ident S else Some (cs_status S = eMasterStatus))"

subsection \<open>Commands\<close>

text \<open>A getter of JSON that leaves the variable as it is when it returns false.\<close>

definition or_old :: "'v option option \<Rightarrow> 'v \<Rightarrow> (bool \<times> 'v) option" where
  "or_old r v = map_option (\<lambda>x. case x of None \<Rightarrow> (False, v) | Some v \<Rightarrow> (True, v)) r"

text \<open>\<open>&&\<close>: the second getter is called only if the first returns true.\<close>

definition and_get :: "bool \<Rightarrow> 'v option option \<Rightarrow> 'v \<Rightarrow> (bool \<times> 'v) option" where
  "and_get b r v = (if b then or_old r v else Some (False, v))"

definition pareJsonData :: "'d jenv \<Rightarrow> u64 \<Rightarrow> jobject \<Rightarrow> node_status \<Rightarrow> 'd jheap \<Rightarrow> (bool \<times> node_status \<times> 'd jheap) option" where
  "pareJsonData E now jObj this H = do {
     (b, v) \<leftarrow> or_old (Get_string ''node_type'' jObj H) (nodeType this); let this = this\<lparr>nodeType := v\<rparr>;
     (b, v) \<leftarrow> and_get b (Get_string ''node_ip'' jObj H) (nodeInnerIp this); let this = this\<lparr>nodeInnerIp := v\<rparr>;
     (b, v) \<leftarrow> and_get b (Get_int32 ''node_port'' jObj H) (nodeInnerPort this); let this = this\<lparr>nodeInnerPort := v\<rparr>;
     (b, v) \<leftarrow> and_get b (Get_int32 ''worker_num'' jObj H) (workerNum this); let this = this\<lparr>workerNum := v\<rparr>;
     (b, v) \<leftarrow> and_get b (Get_int32 ''node_id'' jObj H) (nodeId this); let this = this\<lparr>nodeId := v\<rparr>;
     (b, nodeobj, H) \<leftarrow> (if b then Get_object E ''node'' jObj CJsonObject_new H else Some (False, CJsonObject_new, H));
     (b, workerobj, H) \<leftarrow> (if b then Get_object E ''worker'' jObj CJsonObject_new H else Some (False, CJsonObject_new, H));
     if b \<and> \<not> (nodeType this = [] \<or> nodeInnerPort this = 0 \<or> workerNum this = 0 \<or> nodeInnerIp this = []) then do {
       s \<leftarrow> CJsonObject_ToString E workerobj H; let this = this\<lparr>activeTime := now, ni_worker := s\<rparr>;
       (_, v) \<leftarrow> or_old (Get_int32 ''access_port'' jObj H) (nodeAccessPort this); let this = this\<lparr>nodeAccessPort := v\<rparr>;
       (_, v) \<leftarrow> or_old (Get_string ''access_ip'' jObj H) (nodeAccessIp this); let this = this\<lparr>nodeAccessIp := v\<rparr>;
       (_, v) \<leftarrow> or_old (Get_int32 ''load'' nodeobj H) (ni_load this); let this = this\<lparr>ni_load := v\<rparr>;
       (_, v) \<leftarrow> or_old (Get_int32 ''connect'' nodeobj H) (ni_connect this); let this = this\<lparr>ni_connect := v\<rparr>;
       (_, v) \<leftarrow> or_old (Get_int32 ''client'' nodeobj H) (ni_client this); let this = this\<lparr>ni_client := v\<rparr>;
       (_, v) \<leftarrow> or_old (Get_int32 ''recv_num'' nodeobj H) (recvNum this); let this = this\<lparr>recvNum := v\<rparr>;
       (_, v) \<leftarrow> or_old (Get_int32 ''recv_byte'' nodeobj H) (recvByte this); let this = this\<lparr>recvByte := v\<rparr>;
       (_, v) \<leftarrow> or_old (Get_int32 ''send_num'' nodeobj H) (sendNum this); let this = this\<lparr>sendNum := v\<rparr>;
       (_, v) \<leftarrow> or_old (Get_int32 ''send_byte'' nodeobj H) (sendByte this); let this = this\<lparr>sendByte := v\<rparr>;
       H \<leftarrow> delete_objects [workerobj, nodeobj] H;
       Some (True, this, H) }
     else do { H \<leftarrow> delete_objects [workerobj, nodeobj] H; Some (False, this, H) } }"

text \<open>The node that a message describes: parse the body, read it, and destroy the objects.\<close>

definition parse_node :: "'d jenv \<Rightarrow> u64 \<Rightarrow> string \<Rightarrow> 'd jheap \<Rightarrow> (node_status option \<times> 'd jheap) option" where
  "parse_node E now body H = do {
     (ok, jParseObj, H) \<leftarrow> Parse E body CJsonObject_new H;
     (ok, nodeinfo, H) \<leftarrow> (if ok then pareJsonData E now jParseObj NodeStatusInfo_clean H else Some (False, NodeStatusInfo_clean, H));
     H \<leftarrow> delete_objects [jParseObj] H;
     Some (if ok then Some nodeinfo else None, H) }"

definition register_Response :: "center_env \<Rightarrow> tagMsgShell \<Rightarrow> int \<Rightarrow> int \<Rightarrow> node_session \<Rightarrow> bool \<times> node_session" where
  "register_Response C stMsgShell iRet node_id S =
     (if iRet \<noteq> 0 then send_msg C (ToClient stMsgShell (JObj [(''errcode'', JInt iRet), (''node_id'', JInt 0)])) S else (True, S))"

text \<open>A request that passes the checks, or the error with which it is answered.\<close>

definition checked_node :: "'d jenv \<Rightarrow> u64 \<Rightarrow> string \<Rightarrow> node_session \<Rightarrow> 'd jheap \<Rightarrow> ((int + node_status) \<times> node_session \<times> 'd jheap) option" where
  "checked_node E now body S H = do {
     (i, H) \<leftarrow> parse_node E now body H;
     (case i of
        None \<Rightarrow> Some (Inl ERR_BODY_JSON, S, H)
      | Some i \<Rightarrow> do { (ok, S, H) \<leftarrow> CheckNodeStatus E i S H; Some (if ok then Inr i else Inl ERR_SERVERINFO, S, H) }) }"

definition CmdNodeRegister :: "center_env \<Rightarrow> 'd jenv \<Rightarrow> u64 \<Rightarrow> tagMsgShell \<Rightarrow> string \<Rightarrow> node_session \<Rightarrow> 'd jheap
    \<Rightarrow> (bool \<times> node_session \<times> 'd jheap) option" where
  "CmdNodeRegister C E now stMsgShell body S H = do {
     (r, S, H) \<leftarrow> checked_node E now body S H;
     (case r of
        Inl err \<Rightarrow> (case register_Response C stMsgShell err 0 S of (ok, S) \<Rightarrow> Some (ok, S, H))
      | Inr i \<Rightarrow> do {
          (ret, S) \<leftarrow> RegNode C stMsgShell i S;
          if ret \<noteq> 0 then (case register_Response C stMsgShell ERR_SERVERINFO 0 S of (ok, S) \<Rightarrow> Some (ok, S, H))
          else do { _ \<leftarrow> getNodeKey i; Some (True, S, H) } }) }"

definition report_Response :: "center_env \<Rightarrow> tagMsgShell \<Rightarrow> int \<Rightarrow> node_session \<Rightarrow> bool \<times> node_session" where
  "report_Response C stMsgShell iRet S = send_msg C (ToClient stMsgShell (JObj [(''errcode'', JInt iRet)])) S"

definition CmdNodeReport :: "center_env \<Rightarrow> 'd jenv \<Rightarrow> u64 \<Rightarrow> tagMsgShell \<Rightarrow> string \<Rightarrow> node_session \<Rightarrow> 'd jheap
    \<Rightarrow> (bool \<times> node_session \<times> 'd jheap) option" where
  "CmdNodeReport C E now stMsgShell body S H = do {
     (r, S, H) \<leftarrow> checked_node E now body S H;
     (ret, S) \<leftarrow> (case r of Inl err \<Rightarrow> Some (err, S) | Inr i \<Rightarrow> UpdateNode C stMsgShell i S);
     (case report_Response C stMsgShell ret S of (ok, S) \<Rightarrow> Some (ok, S, H)) }"

definition CmdNodeDisconnect :: "string \<Rightarrow> node_session \<Rightarrow> (bool \<times> node_session) option" where
  "CmdNodeDisconnect body S = NodeSession_DelNode body S"

record node_req =
  inner_ip :: string
  inner_port :: u32
  req_flag :: u32

text \<open>\<open>snprintf\<close> of the address of a request into 32 bytes.\<close>

definition req_identify :: "node_req \<Rightarrow> string" where
  "req_identify req = take 31 (c_str (inner_ip req) @ '':'' @ dec_text (unat (inner_port req)))"

definition ack :: "center_env \<Rightarrow> tagMsgShell \<Rightarrow> node_req \<Rightarrow> int \<Rightarrow> node_session \<Rightarrow> bool \<times> node_session" where
  "ack C stMsgShell req iErrno S = send_msg C (Ack stMsgShell (inner_ip req) (inner_port req) (req_flag req) iErrno) S"

text \<open>\<open>SendToCallback\<close> with a serialised body: the step of the framework sends nothing if it is empty.\<close>

definition send_target :: "center_env \<Rightarrow> string \<Rightarrow> nat \<Rightarrow> string \<Rightarrow> node_session \<Rightarrow> bool \<times> node_session" where
  "send_target C key cmd body S = (if cmd > 0 \<and> body \<noteq> [] then send_msg C (ToTarget key cmd body) S else (False, S))"

text \<open>The requests are parsed by the generated classes: \<open>None\<close> is a body that cannot be parsed.\<close>

definition CmdOfflineNode :: "center_env \<Rightarrow> tagMsgShell \<Rightarrow> node_req \<Rightarrow> node_req option \<Rightarrow> node_session \<Rightarrow> (bool \<times> node_session) option" where
  "CmdOfflineNode C stMsgShell old req S =
     (if cs_status S \<noteq> eMasterStatus then Some (False, S)
      else case req of
        None \<Rightarrow> Some (False, snd (ack C stMsgShell old ERR_REQ_MISS_PARAM S))
      | Some req \<Rightarrow> do {
          let key = req_identify req;
          auth \<leftarrow> HasIdentifyAuthority key S;
          if \<not> auth then Some (False, S)
          else if req_flag req \<noteq> 1 \<and> req_flag req \<noteq> 0 then Some (ack C stMsgShell req ERR_REQ_MISS_PARAM S)
          else do {
            (nRet, S) \<leftarrow> OfflineNode key S;
            if nRet = ERR_SERVER_SELF_OFFLINE
            then Some (ack C stMsgShell req (if req_flag req = 1 then ERR_SERVER_CENTER_RESTART_SCRIPT else ERR_SERVER_CENTER_NO_SUSPEND) S)
            else if nRet \<noteq> 0 \<and> nRet \<noteq> ERR_SERVER_NODE_ALREADY_OFFLINE then Some (ack C stMsgShell req nRet S)
            else if req_flag req = 1 then
              (case send_target C key CMD_REQ_NODE_STOP (ce_empty C) S of (ok, S) \<Rightarrow> Some (if ok then (True, S) else ack C stMsgShell req nRet S))
            else Some (ack C stMsgShell req nRet S) } })"

datatype online_result = Returned bool | Exited

definition CmdOnlineNode :: "center_env \<Rightarrow> tagMsgShell \<Rightarrow> node_req \<Rightarrow> node_req option \<Rightarrow> node_session \<Rightarrow> (online_result \<times> node_session) option" where
  "CmdOnlineNode C stMsgShell old req S =
     (if cs_status S \<noteq> eMasterStatus then Some (Returned False, S)
      else case req of
        None \<Rightarrow> Some (map_prod Returned id (ack C stMsgShell old ERR_REQ_MISS_PARAM S))
      | Some req \<Rightarrow> do {
          let key = req_identify req;
          auth \<leftarrow> HasIdentifyAuthority key S;
          if \<not> auth then Some (Returned False, S)
          else if req_flag req = 0 then do {
            (nRet, S) \<leftarrow> OnlineNode key S;
            Some (map_prod Returned id (ack C stMsgShell req nRet S)) }
          else if req_flag req = 1 then do {
            nRet \<leftarrow> CanOnlineNode key S;
            if nRet = ERR_SERVER_SELF_ONLINE then Some (Exited, snd (ack C stMsgShell req ERR_OK S))
            else if nRet \<noteq> 0 then Some (map_prod Returned id (ack C stMsgShell req nRet S))
            else (case send_target C key CMD_REQ_NODE_RESTART_WORKERS (ce_empty C) S of
                    (ok, S) \<Rightarrow> Some (map_prod Returned id (if ok then (True, S) else ack C stMsgShell req ERR_SERVER_LOGIC_ERROR S))) }
          else Some (map_prod Returned id (ack C stMsgShell req ERR_REQ_MISS_PARAM S)) })"

subsection \<open>Notices at a node\<close>

text \<open>
  The names in a notice (\<open>Net/src/cmd/sys_cmd/CmdNodeNotice.cpp\<close>): one for each worker, written into 50 bytes.  \<open>AddNodeIdentify\<close> and
  \<open>DelNodeIdentify\<close> are those of the worker.
\<close>

definition worker_ident :: "string \<Rightarrow> int \<Rightarrow> int \<Rightarrow> string option" where
  "worker_ident sIp iPort j = (let s = c_str sIp @ '':'' @ int_text iPort @ ''.'' @ int_text j in if length s < 50 then Some s else None)"

fun add_workers :: "string \<Rightarrow> string \<Rightarrow> int \<Rightarrow> int list \<Rightarrow> 'b worker \<Rightarrow> 'b worker option" where
  "add_workers ty sIp iPort [] W = Some W"
| "add_workers ty sIp iPort (j # js) W = do { x \<leftarrow> worker_ident sIp iPort j; W \<leftarrow> AddNodeIdentify W ty x; add_workers ty sIp iPort js W }"

fun del_workers :: "string \<Rightarrow> string \<Rightarrow> int \<Rightarrow> int list \<Rightarrow> 'b worker \<Rightarrow> 'b worker option" where
  "del_workers ty sIp iPort [] W = Some W"
| "del_workers ty sIp iPort (j # js) W = do { x \<leftarrow> worker_ident sIp iPort j; del_workers ty sIp iPort js (DelNodeIdentify W ty x) }"

end
