(* ===== verification/CenterRoutes.thy ===== *)
theory CenterRoutes
  imports Center
begin

text \<open>
  The routes of the nodes.  Every registered node has a table of the workers it may send to, which the notices of the center fill.  The center
  and the tables together are a transition system; in every state that it reaches the table of a node holds exactly the workers of the registered nodes
  that are not suspended and whose type it needs, and the center.
\<close>

subsection \<open>Reading a notice\<close>

text \<open>
  What a notice does to the table \<open>m_mapIdentifyNodeType\<close> of a worker: names that are new are filed under their type, names of nodes that left are
  removed.
\<close>

definition ident :: "string \<Rightarrow> int \<Rightarrow> string" where
  "ident key j = key @ ''.'' @ int_text j"

definition address :: "string \<Rightarrow> int \<Rightarrow> string" where
  "address sIp iPort = sIp @ '':'' @ int_text iPort"

definition idents :: "string \<Rightarrow> int \<Rightarrow> string set" where
  "idents key num = {ident key j | j. 0 \<le> j \<and> j < num}"

fun entry :: "json \<Rightarrow> (string \<times> string set) option" where
  "entry (JObj [(_, JStr ty), (_, JStr sIp), (_, JInt iPort), (_, JInt num)]) = Some (ty, idents (address sIp iPort) num)"
| "entry _ = None"

definition add_entry :: "string \<times> string set \<Rightarrow> (string \<rightharpoonup> string) \<Rightarrow> (string \<rightharpoonup> string)" where
  "add_entry e T = (\<lambda>x. case T x of Some t \<Rightarrow> Some t | None \<Rightarrow> if x \<in> snd e then Some (fst e) else None)"

definition del_entry :: "string \<times> string set \<Rightarrow> (string \<rightharpoonup> string) \<Rightarrow> (string \<rightharpoonup> string)" where
  "del_entry e T = (\<lambda>x. if x \<in> snd e then None else T x)"

fun read_notice :: "json \<Rightarrow> (string \<rightharpoonup> string) \<Rightarrow> (string \<rightharpoonup> string)" where
  "read_notice (JObj [(key, JArr js)]) T =
     fold (if key = ''node_arry_reg'' then add_entry else del_entry) (map (\<lambda>j. the (entry j)) js) T"
| "read_notice _ T = T"

text \<open>A message reaches the table of its receiver; \<open>me\<close> is the node behind the shell of a request.\<close>

fun deliver :: "string \<Rightarrow> center_msg \<Rightarrow> (string \<Rightarrow> string \<rightharpoonup> string) \<Rightarrow> (string \<Rightarrow> string \<rightharpoonup> string)" where
  "deliver me (ToShell _ _ j) T = T(me := read_notice j (T me))"
| "deliver me (ToNode k _ j) T = T(k := read_notice j (T k))"
| "deliver me _ T = T"

subsection \<open>The system\<close>

type_synonym world = "node_session \<times> (string \<Rightarrow> string \<rightharpoonup> string)"

definition new_msgs :: "node_session \<Rightarrow> node_session \<Rightarrow> center_msg list" where
  "new_msgs S S' = drop (length (sent S)) (sent S')"

text \<open>A node that the checks of the center let pass, with an address of its own and an unchanged number of workers.\<close>

definition acceptable :: "node_session \<Rightarrow> node_status \<Rightarrow> string \<Rightarrow> bool" where
  "acceptable S i k \<longleftrightarrow> getNodeKey i = Some k \<and> CheckNodeType (nodeType i) S \<and> NUL \<notin> set (nodeType i) \<and> NUL \<notin> set (nodeInnerIp i) \<and> suspend i = 0
     \<and> GetSelfNodeIdentify S \<noteq> Some k \<and> (\<forall>old. GetNodeInfo k S = Some old \<longrightarrow> workerNum old = workerNum i)"

text \<open>
  A node that the center does not know registers with an empty table: its process has just started.  Nothing in the code clears the table of
  a process that goes on running while the center forgets it.
\<close>

definition starts_empty :: "node_session \<Rightarrow> (string \<Rightarrow> string \<rightharpoonup> string) \<Rightarrow> string \<Rightarrow> bool" where
  "starts_empty S T k \<longleftrightarrow> (GetNodeInfo k S = None \<longrightarrow> T k = Map.empty)"

inductive center_step :: "center_env \<Rightarrow> world \<Rightarrow> world \<Rightarrow> bool" for C where
  register: "acceptable S i k \<Longrightarrow> starts_empty S T k \<Longrightarrow> RegNode C sh i S = Some (r, S') \<Longrightarrow> center_step C (S, T) (S', fold (deliver k) (new_msgs S S') T)"
| report: "acceptable S i k \<Longrightarrow> starts_empty S T k \<Longrightarrow> UpdateNode C sh i S = Some (r, S') \<Longrightarrow> center_step C (S, T) (S', fold (deliver k) (new_msgs S S') T)"
| disconnect: "NodeSession_DelNode k S = Some (b, S') \<Longrightarrow> center_step C (S, T) (S', fold (deliver k) (new_msgs S S') T)"
| offline: "OfflineNode k S = Some (r, S') \<Longrightarrow> center_step C (S, T) (S', fold (deliver k) (new_msgs S S') T)"
| online: "OnlineNode k S = Some (r, S') \<Longrightarrow> center_step C (S, T) (S', fold (deliver k) (new_msgs S S') T)"

text \<open>Runs, with the number of operations of the center; in between, the process of a node that is not registered may start, with an empty table.\<close>

inductive center_reach :: "center_env \<Rightarrow> world \<Rightarrow> nat \<Rightarrow> world \<Rightarrow> bool" for C w where
  start: "center_reach C w 0 w"
| step: "center_reach C w n w' \<Longrightarrow> center_step C w' w'' \<Longrightarrow> center_reach C w (Suc n) w''"
| boot: "center_reach C w n (S, T) \<Longrightarrow> GetNodeInfo k S = None \<Longrightarrow> center_reach C w n (S, T(k := Map.empty))"

text \<open>The workers that a node with these needs may send to.\<close>

definition routes :: "node_session \<Rightarrow> string list \<Rightarrow> string \<Rightarrow> string \<Rightarrow> bool" where
  "routes S needed x ty \<longleftrightarrow>
     (\<exists>(k, i) \<in> set (m_mapNodesStatus S). suspend i = 0 \<and> nodeType i \<in> set needed \<and> ty = nodeType i \<and> x \<in> idents k (workerNum i))
     \<or> (ty = m_centerNodeType S \<and> (\<exists>self. GetSelfNodeIdentify S = Some self \<and> x \<in> idents self (m_centerProcessNum S)))"

definition table_exact :: "node_session \<Rightarrow> (string \<Rightarrow> string \<rightharpoonup> string) \<Rightarrow> string \<Rightarrow> node_status \<Rightarrow> bool" where
  "table_exact S T k i \<longleftrightarrow> (\<forall>t x ty. GetNodeTypeServerInfo (nodeType i) S = Some t \<longrightarrow> T k x = Some ty \<longleftrightarrow> routes S (neededServers t) x ty)"

subsection \<open>Names\<close>

lemma last_dot:
  assumes "a @ d # x = b @ d # y" "d \<notin> set x" "d \<notin> set y"
  shows "a = b \<and> x = y"
proof -
  have "takeWhile (\<lambda>c. c \<noteq> d) (rev (a @ d # x)) = rev x" "takeWhile (\<lambda>c. c \<noteq> d) (rev (b @ d # y)) = rev y"
    using assms(2,3) by (auto simp: takeWhile_append)
  then have "x = y" using assms(1) by simp
  then show ?thesis using assms(1) by simp
qed

lemma int_text_no_dot: "0 \<le> j \<Longrightarrow> CHR ''.'' \<notin> set (int_text j)"
proof
  assume "0 \<le> j" "CHR ''.'' \<in> set (int_text j)"
  then have "IS_NUM (CHR ''.'')" using dec_text_digits [of "nat j"] by (simp add: int_text_def)
  then show False by (simp add: IS_NUM_def code_def)
qed

lemma ident_key: "ident k j = ident k' j' \<Longrightarrow> 0 \<le> j \<Longrightarrow> 0 \<le> j' \<Longrightarrow> k = k'"
  using last_dot [of k "CHR ''.''" "int_text j" k' "int_text j'"] int_text_no_dot [of j] int_text_no_dot [of j'] by (simp add: ident_def)

lemma idents_key: "x \<in> idents k n \<Longrightarrow> x \<in> idents k' n' \<Longrightarrow> k = k'"
  unfolding idents_def using ident_key by blast

lemma c_str_same: "NUL \<notin> set s \<Longrightarrow> c_str s = s"
  unfolding c_str_def NUL_def by (induction s) auto

lemma key_address: "getNodeKey i = Some k \<Longrightarrow> NUL \<notin> set (nodeInnerIp i) \<Longrightarrow> k = address (nodeInnerIp i) (nodeInnerPort i)"
  by (auto simp: getNodeKey_def address_text_def address_def Let_def c_str_same split: if_splits)

subsection \<open>The worker that reads a notice\<close>

text \<open>The loops over the workers in \<open>CmdNodeNotice\<close> do to the table of a worker what \<open>add_entry\<close> and \<open>del_entry\<close> say.\<close>

lemma idents_image: "idents k num = ident k ` set [0..num - 1]"
  by (auto simp: idents_def image_def)

lemma worker_ident_eq: "worker_ident sIp iPort j = Some x \<Longrightarrow> NUL \<notin> set sIp \<Longrightarrow> x = ident (address sIp iPort) j"
  by (auto simp: worker_ident_def ident_def address_def c_str_same Let_def split: if_splits)

lemma AddNodeIdentify_entry: "AddNodeIdentify W ty x = Some W' \<Longrightarrow> m_mapIdentifyNodeType W' = add_entry (ty, {x}) (m_mapIdentifyNodeType W)"
  by (auto simp: AddNodeIdentify_def add_entry_def fun_eq_iff Let_def split: option.splits bind_splits if_splits)

lemma DelNodeIdentify_entry: "m_mapIdentifyNodeType (DelNodeIdentify W ty x) = del_entry (ty, {x}) (m_mapIdentifyNodeType W)"
  by (auto simp: DelNodeIdentify_def del_entry_def fun_eq_iff Let_def split: option.splits)

lemma entry_entry:
  "add_entry (ty, A) (add_entry (ty, {x}) T) = add_entry (ty, insert x A) T"
  "del_entry (ty, A) (del_entry (ty, {x}) T) = del_entry (ty, insert x A) T"
  by (auto simp: add_entry_def del_entry_def fun_eq_iff split: option.splits)

lemma entry_empty: "add_entry (ty, {}) T = T" "del_entry (ty, {}) T = T"
  by (auto simp: add_entry_def del_entry_def fun_eq_iff split: option.splits)

lemma add_workers_image:
  assumes "add_workers ty sIp iPort js W = Some W'" "NUL \<notin> set sIp"
  shows "m_mapIdentifyNodeType W' = add_entry (ty, ident (address sIp iPort) ` set js) (m_mapIdentifyNodeType W)"
  using assms(1)
proof (induction js arbitrary: W)
  case (Cons j js)
  then obtain x W1 where W1: "worker_ident sIp iPort j = Some x" "AddNodeIdentify W ty x = Some W1" "add_workers ty sIp iPort js W1 = Some W'"
    by (auto split: bind_splits)
  show ?case using Cons.IH [OF W1(3)] AddNodeIdentify_entry [OF W1(2)] worker_ident_eq [OF W1(1) assms(2)] by (simp add: entry_entry)
qed (simp add: entry_empty)

lemma del_workers_image:
  assumes "del_workers ty sIp iPort js W = Some W'" "NUL \<notin> set sIp"
  shows "m_mapIdentifyNodeType W' = del_entry (ty, ident (address sIp iPort) ` set js) (m_mapIdentifyNodeType W)"
  using assms(1)
proof (induction js arbitrary: W)
  case (Cons j js)
  then obtain x where x: "worker_ident sIp iPort j = Some x" "del_workers ty sIp iPort js (DelNodeIdentify W ty x) = Some W'"
    by (auto split: bind_splits)
  show ?case using Cons.IH [OF x(2)] worker_ident_eq [OF x(1) assms(2)] by (simp add: DelNodeIdentify_entry entry_entry)
qed (simp add: entry_empty)

text \<open>
  A worker reads a notice as the routes assume: adding the workers of an entry files every name that is new under the type of the entry, and removing
  them takes out exactly those names.
\<close>

theorem notice_entries_refine:
  assumes "NUL \<notin> set sIp" "NUL \<notin> set ty" "entry (route_json ty sIp iPort num) = Some e"
  shows "(\<forall>W'. add_workers ty sIp iPort [0..num - 1] W = Some W' \<longrightarrow> m_mapIdentifyNodeType W' = add_entry e (m_mapIdentifyNodeType W))
    \<and> (\<forall>W'. del_workers ty sIp iPort [0..num - 1] W = Some W' \<longrightarrow> m_mapIdentifyNodeType W' = del_entry e (m_mapIdentifyNodeType W))"
proof -
  have "e = (ty, ident (address sIp iPort) ` set [0..num - 1])"
    using assms(3) by (simp add: route_json_def c_str_same assms(1,2) idents_image)
  then show ?thesis using add_workers_image [OF _ assms(1)] del_workers_image [OF _ assms(1)] by blast
qed

subsection \<open>The table of nodes\<close>

lemma set_stdmap_insert: "map_of m k = None \<Longrightarrow> set (stdmap_insert k v m) = insert (k, v) (set m)"
  by (induction m) (auto split: if_splits)

lemma sorted_stdmap_insert:
  "sorted_wrt (<) (map fst m) \<Longrightarrow> sorted_wrt (<) (map fst (stdmap_insert k v m))"
proof (induction m)
  case (Cons kv m)
  have "kv \<in> set (stdmap_insert k v m) \<Longrightarrow> kv = (k, v) \<or> kv \<in> set m" for kv by (induction m) (auto split: if_splits)
  then show ?case using Cons by (cases kv) fastforce
qed simp

lemma sorted_distinct: "sorted_wrt (<) (map fst (m :: (string \<times> 'v) list)) \<Longrightarrow> distinct (map fst m)"
  using strict_sorted_iff by blast

subsection \<open>Sending to the nodes that need a type\<close>

definition needs :: "node_session \<Rightarrow> node_status \<Rightarrow> string \<Rightarrow> bool" where
  "needs S i ty \<longleftrightarrow> (\<exists>t. GetNodeTypeServerInfo (nodeType i) S = Some t \<and> ty \<in> set (neededServers t))"

lemma all_some_replicate: "all_some (map (\<lambda>_. Some y) xs) = Some (replicate (length xs) y)"
  by (induction xs) auto

lemma deliver_replicate:
  assumes "\<And>t. read_notice j (read_notice j t) = read_notice j t"
  shows "fold (deliver me) (replicate n (ToNode k c j)) T = (if n = 0 then T else T(k := read_notice j (T k)))"
  by (induction n arbitrary: T) (auto simp: assms)

lemma notices_Some:
  assumes "\<forall>(k, i) \<in> set m. getNodeKey i \<noteq> None"
  shows "\<exists>ms. notices S ty body m = Some ms"
  using assms
proof (induction m)
  case (Cons kv m)
  obtain k i where kv: "kv = (k, i)" by (cases kv)
  obtain key where "getNodeKey i = Some key" using Cons.prems kv by auto
  then show ?case using Cons kv by (auto simp: all_some_replicate split: option.splits)
qed simp

lemma deliver_notices:
  assumes "notices S ty body m = Some ms" "\<forall>(k, i) \<in> set m. getNodeKey i = Some k" "distinct (map fst m)"
    and idem: "\<And>t. read_notice body (read_notice body t) = read_notice body t"
  shows "fold (deliver me) ms T = (\<lambda>k. if \<exists>i. (k, i) \<in> set m \<and> needs S i ty then read_notice body (T k) else T k)"
  using assms(1-3)
proof (induction m arbitrary: ms T)
  case (Cons kv m)
  obtain k i where kv: "kv = (k, i)" by (cases kv)
  have key: "getNodeKey i = Some k" using Cons.prems(2) kv by auto
  obtain ms2 where m2: "notices S ty body m = Some ms2" using Cons.prems(1) kv by (auto split: bind_splits)
  define n where "n = (case GetNodeTypeServerInfo (nodeType i) S of None \<Rightarrow> 0 | Some t \<Rightarrow> length (filter (\<lambda>it. it = ty) (neededServers t)))"
  have ms: "ms = replicate n (ToNode k CMD_REQ_NODE_REG_NOTICE body) @ ms2"
    using Cons.prems(1) kv m2 key by (auto simp: all_some_replicate n_def split: option.splits)
  have n: "n \<noteq> 0 \<longleftrightarrow> needs S i ty" by (auto simp: n_def needs_def filter_empty_conv split: option.splits)
  have new: "(k, i') \<notin> set m" for i' using Cons.prems(3) kv by force
  have "fold (deliver me) ms T = fold (deliver me) ms2 (if n = 0 then T else T(k := read_notice body (T k)))"
    unfolding ms fold_append comp_apply deliver_replicate [OF idem] ..
  also have "\<dots> = (\<lambda>q. if \<exists>i. (q, i) \<in> set m \<and> needs S i ty then read_notice body ((if n = 0 then T else T(k := read_notice body (T k))) q)
      else (if n = 0 then T else T(k := read_notice body (T k))) q)"
    using Cons.IH [OF m2] Cons.prems(2,3) kv by simp
  finally show ?case using n new kv by (auto simp: fun_eq_iff)
qed simp

subsection \<open>The invariant\<close>

definition node_ok :: "node_session \<Rightarrow> nat \<Rightarrow> string \<Rightarrow> node_status \<Rightarrow> bool" where
  "node_ok S n k i \<longleftrightarrow> getNodeKey i = Some k \<and> NUL \<notin> set (nodeType i) \<and> NUL \<notin> set (nodeInnerIp i) \<and> (suspend i = 0 \<or> suspend i = 1)
     \<and> GetSelfNodeIdentify S \<noteq> Some k \<and> 1 \<le> nodeId i \<and> nodeId i \<le> int n"

definition center_ok :: "nat \<Rightarrow> node_session \<Rightarrow> bool" where
  "center_ok n S \<longleftrightarrow> cs_status S = eMasterStatus \<and> sorted_wrt (<) (map fst (m_mapNodesStatus S)) \<and> GetSelfNodeIdentify S \<noteq> None
     \<and> NUL \<notin> set (m_centerInnerHost S) \<and> NUL \<notin> set (m_centerNodeType S)
     \<and> (\<forall>(k, i) \<in> set (m_mapNodesStatus S). node_ok S n k i) \<and> distinct (map (\<lambda>kv. nodeId (snd kv)) (m_mapNodesStatus S))"

lemma center_okD:
  assumes "center_ok n S"
  shows "cs_status S = eMasterStatus" "sorted_wrt (<) (map fst (m_mapNodesStatus S))" "(k, i) \<in> set (m_mapNodesStatus S) \<Longrightarrow> node_ok S n k i"
    "(k, i) \<in> set (m_mapNodesStatus S) \<Longrightarrow> (k, i') \<in> set (m_mapNodesStatus S) \<Longrightarrow> i = i'" "GetNodeInfo k S = Some i \<longleftrightarrow> (k, i) \<in> set (m_mapNodesStatus S)"
    "\<exists>self. GetSelfNodeIdentify S = Some self \<and> self = address (m_centerInnerHost S) (m_centerInnerPort S)"
proof -
  show "cs_status S = eMasterStatus" "sorted_wrt (<) (map fst (m_mapNodesStatus S))" "(k, i) \<in> set (m_mapNodesStatus S) \<Longrightarrow> node_ok S n k i"
    using assms by (auto simp: center_ok_def)
  have d: "distinct (map fst (m_mapNodesStatus S))" using assms sorted_distinct by (auto simp: center_ok_def)
  show "(k, i) \<in> set (m_mapNodesStatus S) \<Longrightarrow> (k, i') \<in> set (m_mapNodesStatus S) \<Longrightarrow> i = i'" using d by (meson eq_key_imp_eq_value)
  show "GetNodeInfo k S = Some i \<longleftrightarrow> (k, i) \<in> set (m_mapNodesStatus S)" using d by (simp add: GetNodeInfo_def)
  show "\<exists>self. GetSelfNodeIdentify S = Some self \<and> self = address (m_centerInnerHost S) (m_centerInnerPort S)"
    using assms by (auto simp: center_ok_def GetSelfNodeIdentify_def address_text_def address_def c_str_same Let_def split: if_splits)
qed

lemma owner_unique:
  assumes "center_ok n S" "(k, i) \<in> set (m_mapNodesStatus S)" "x \<in> idents k a" "(q, j) \<in> set (m_mapNodesStatus S)" "x \<in> idents q b"
  shows "q = k \<and> j = i"
  using idents_key [OF assms(3,5)] center_okD(4) [OF assms(1,2)] assms(4) by blast

lemma owner_not_center:
  assumes "center_ok n S" "(k, i) \<in> set (m_mapNodesStatus S)" "x \<in> idents k a" "GetSelfNodeIdentify S = Some self"
  shows "x \<notin> idents self b"
  using idents_key [OF assms(3)] center_okD(3) [OF assms(1,2)] assms(4) by (auto simp: node_ok_def)

lemma routesE:
  assumes "routes S needed x ty"
  obtains (node) k i where "(k, i) \<in> set (m_mapNodesStatus S)" "suspend i = 0" "nodeType i \<in> set needed" "ty = nodeType i" "x \<in> idents k (workerNum i)"
  | (center) self where "ty = m_centerNodeType S" "GetSelfNodeIdentify S = Some self" "x \<in> idents self (m_centerProcessNum S)"
  using assms unfolding routes_def by blast

lemma routes_owner:
  assumes "center_ok n S" "(k, i) \<in> set (m_mapNodesStatus S)" "x \<in> idents k a" "routes S needed x ty"
  shows "suspend i = 0 \<and> nodeType i \<in> set needed \<and> ty = nodeType i"
  using assms(4) by (cases rule: routesE) (use owner_unique [OF assms(1-3)] owner_not_center [OF assms(1-3)] in blast)+

lemma routes_unique:
  assumes "center_ok n S" "routes S needed x ty" "routes S needed x ty'"
  shows "ty = ty'"
  using assms(2)
proof (cases rule: routesE)
  case (node k i)
  then show ?thesis using routes_owner [OF assms(1) _ _ assms(3)] by blast
next
  case (center self)
  show ?thesis using assms(3) by (cases rule: routesE) (use center owner_not_center [OF assms(1)] in blast)+
qed

lemma routesI: "(k, i) \<in> set (m_mapNodesStatus S) \<Longrightarrow> suspend i = 0 \<Longrightarrow> nodeType i \<in> set needed \<Longrightarrow> x \<in> idents k (workerNum i) \<Longrightarrow> routes S needed x (nodeType i)"
  unfolding routes_def by blast

subsection \<open>Notices and tables\<close>

abbreviation node_entry :: "string \<Rightarrow> node_status \<Rightarrow> string \<times> string set" where
  "node_entry k i \<equiv> (nodeType i, idents k (workerNum i))"

lemma entry_node: "node_ok S n k i \<Longrightarrow> entry (node_json i) = Some (node_entry k i)"
  using key_address [of i k] by (simp add: node_ok_def node_json_def route_json_def c_str_same)

lemma read_reg: "node_ok S n k i \<Longrightarrow> read_notice (reg_notice i) = add_entry (node_entry k i)"
  by (rule ext) (simp add: reg_notice_def entry_node)

lemma read_exit: "node_ok S n k i \<Longrightarrow> read_notice (exit_notice i) = del_entry (node_entry k i)"
  by (rule ext) (simp add: exit_notice_def entry_node)

lemma entry_idem: "add_entry e (add_entry e T) = add_entry e T" "del_entry e (del_entry e T) = del_entry e T"
  by (auto simp: add_entry_def del_entry_def fun_eq_iff split: option.splits)

lemma fold_add_entry:
  "fold add_entry es T x = (case T x of Some t \<Rightarrow> Some t | None \<Rightarrow> map_option fst (find (\<lambda>e. x \<in> snd e) es))"
  by (induction es arbitrary: T) (auto simp: add_entry_def split: option.splits)

lemma find_SomeD: "find P xs = Some x \<Longrightarrow> P x \<and> x \<in> set xs"
  by (auto simp: find_Some_iff)

lemma read_needed:
  assumes "center_ok n S" "\<And>ty. T x = Some ty \<Longrightarrow> routes S needed x ty"
  shows "read_notice (GetNeededNodesStatus needed S) T x = Some ty \<longleftrightarrow> routes S needed x ty"
proof -
  define es where "es = concat (map (\<lambda>(k, i). map (\<lambda>_. node_entry k i) (filter (\<lambda>it. it = nodeType i \<and> suspend i = 0) needed)) (m_mapNodesStatus S))
    @ [(m_centerNodeType S, idents (address (m_centerInnerHost S) (m_centerInnerPort S)) (m_centerProcessNum S))]"
  have nodes: "map (\<lambda>j. the (entry j)) (concat (map (\<lambda>kv. map (\<lambda>_. node_json (snd kv)) (filter (P (snd kv)) needed)) m))
      = concat (map (\<lambda>(k, i). map (\<lambda>_. node_entry k i) (filter (P i) needed)) m)" if "\<forall>(k, i) \<in> set m. node_ok S n k i" for m P
    using that by (induction m) (auto simp: entry_node)
  have "entry (center_json S) = Some (m_centerNodeType S, idents (address (m_centerInnerHost S) (m_centerInnerPort S)) (m_centerProcessNum S))"
    using assms(1) by (simp add: center_json_def route_json_def c_str_same center_ok_def)
  moreover have "\<forall>(k, i) \<in> set (m_mapNodesStatus S). node_ok S n k i" using center_okD(3) [OF assms(1)] by blast
  ultimately have read: "read_notice (GetNeededNodesStatus needed S) T = fold add_entry es T"
    using nodes [of "m_mapNodesStatus S" "\<lambda>i it. it = nodeType i \<and> suspend i = 0"] by (simp add: GetNeededNodesStatus_def es_def)
  have mem: "e \<in> set es \<Longrightarrow> x \<in> snd e \<Longrightarrow> routes S needed x (fst e)" for e
    using center_okD(6) [OF assms(1)] by (auto simp: es_def routes_def)
  have ex: "\<exists>e \<in> set es. x \<in> snd e" if "routes S needed x ty"
    using that
  proof (cases rule: routesE)
    case (node k i)
    then have "node_entry k i \<in> set es" by (auto simp: es_def intro!: bexI [of _ "(k, i)"])
    then show ?thesis using node(5) by (metis snd_conv)
  next
    case (center self)
    then show ?thesis using center_okD(6) [OF assms(1)] by (simp add: es_def)
  qed
  show ?thesis
  proof (cases "T x")
    case None
    then show ?thesis unfolding read fold_add_entry using mem ex routes_unique [OF assms(1)]
      by (cases "find (\<lambda>e. x \<in> snd e) es") (auto simp: find_None_iff dest!: find_SomeD, blast)
  next
    case (Some t)
    then show ?thesis unfolding read fold_add_entry using assms(2) [OF Some] routes_unique [OF assms(1)] by auto
  qed
qed

definition views_ok :: "node_session \<Rightarrow> (string \<Rightarrow> string \<rightharpoonup> string) \<Rightarrow> bool" where
  "views_ok S T \<longleftrightarrow> (\<forall>(k, i) \<in> set (m_mapNodesStatus S). table_exact S T k i)"

lemma views_okI:
  assumes "\<And>q j t x ty. (q, j) \<in> set (m_mapNodesStatus S) \<Longrightarrow> GetNodeTypeServerInfo (nodeType j) S = Some t \<Longrightarrow> T q x = Some ty \<longleftrightarrow> routes S (neededServers t) x ty"
  shows "views_ok S T"
  using assms unfolding views_ok_def table_exact_def by blast

lemma views_okD:
  "views_ok S T \<Longrightarrow> (q, j) \<in> set (m_mapNodesStatus S) \<Longrightarrow> GetNodeTypeServerInfo (nodeType j) S = Some t \<Longrightarrow> T q x = Some ty \<longleftrightarrow> routes S (neededServers t) x ty"
  unfolding views_ok_def table_exact_def by blast

lemma deliver_all:
  assumes "center_ok n S" "notices S ty body (m_mapNodesStatus S) = Some ms" "\<And>t. read_notice body (read_notice body t) = read_notice body t"
    "(q, j) \<in> set (m_mapNodesStatus S)" "GetNodeTypeServerInfo (nodeType j) S = Some t"
  shows "fold (deliver me) ms T q = (if ty \<in> set (neededServers t) then read_notice body (T q) else T q)"
proof -
  have keys: "\<forall>(k, i) \<in> set (m_mapNodesStatus S). getNodeKey i = Some k" using center_okD(3) [OF assms(1)] by (auto simp: node_ok_def)
  have "(\<exists>i. (q, i) \<in> set (m_mapNodesStatus S) \<and> needs S i ty) \<longleftrightarrow> ty \<in> set (neededServers t)"
    using assms(4,5) center_okD(4) [OF assms(1,4)] unfolding needs_def by (metis option.inject)
  then show ?thesis using deliver_notices [OF assms(2) keys sorted_distinct [OF center_okD(2) [OF assms(1)]] assms(3)] by simp
qed

text \<open>A node that is announced: the tables lack at most its workers.\<close>

lemma announce:
  assumes ok: "center_ok n S" and i: "(k, i) \<in> set (m_mapNodesStatus S)" "suspend i = 0"
    and ms: "notices S (nodeType i) (reg_notice i) (m_mapNodesStatus S) = Some ms"
    and sub: "\<And>q j t x ty. (q, j) \<in> set (m_mapNodesStatus S) \<Longrightarrow> GetNodeTypeServerInfo (nodeType j) S = Some t \<Longrightarrow> T q x = Some ty \<Longrightarrow> routes S (neededServers t) x ty"
    and lack: "\<And>q j t x ty. (q, j) \<in> set (m_mapNodesStatus S) \<Longrightarrow> GetNodeTypeServerInfo (nodeType j) S = Some t \<Longrightarrow> routes S (neededServers t) x ty \<Longrightarrow>
      T q x = Some ty \<or> x \<in> idents k (workerNum i)"
  shows "views_ok S (fold (deliver me) ms T)"
proof (rule views_okI)
  fix q j t x ty assume q: "(q, j) \<in> set (m_mapNodesStatus S)" "GetNodeTypeServerInfo (nodeType j) S = Some t"
  note read = read_reg [OF center_okD(3) [OF ok i(1)]] and own = routes_owner [OF ok i(1)]
  have d: "fold (deliver me) ms T q = (if nodeType i \<in> set (neededServers t) then add_entry (node_entry k i) (T q) else T q)"
    using deliver_all [OF ok ms _ q] by (simp add: read entry_idem)
  show "fold (deliver me) ms T q x = Some ty \<longleftrightarrow> routes S (neededServers t) x ty"
  proof
    assume "fold (deliver me) ms T q x = Some ty"
    then have "T q x = Some ty \<or> nodeType i \<in> set (neededServers t) \<and> x \<in> idents k (workerNum i) \<and> ty = nodeType i"
      unfolding d by (auto simp: add_entry_def split: if_splits option.splits)
    then show "routes S (neededServers t) x ty" using sub [OF q] routesI [OF i] by blast
  next
    assume r: "routes S (neededServers t) x ty"
    then have "nodeType i \<notin> set (neededServers t) \<Longrightarrow> T q x = Some ty" "x \<in> idents k (workerNum i) \<Longrightarrow> ty = nodeType i"
      using lack [OF q r] own [OF _ r] by blast+
    moreover have "T q x = Some ty' \<Longrightarrow> ty' = ty" for ty' using sub [OF q] routes_unique [OF ok r] by blast
    ultimately show "fold (deliver me) ms T q x = Some ty" unfolding d using lack [OF q r] by (cases "T q x") (auto simp: add_entry_def)
  qed
qed

text \<open>A node that is withdrawn: the tables have at most its workers in excess.\<close>

lemma withdraw:
  assumes ok: "center_ok n S" and i: "node_ok S n k i" and ms: "notices S (nodeType i) (exit_notice i) (m_mapNodesStatus S) = Some ms"
    and gone: "\<And>nd x ty. routes S nd x ty \<Longrightarrow> x \<notin> idents k (workerNum i)"
    and sup: "\<And>q j t x ty. (q, j) \<in> set (m_mapNodesStatus S) \<Longrightarrow> GetNodeTypeServerInfo (nodeType j) S = Some t \<Longrightarrow> routes S (neededServers t) x ty \<Longrightarrow> T q x = Some ty"
    and excess: "\<And>q j t x ty. (q, j) \<in> set (m_mapNodesStatus S) \<Longrightarrow> GetNodeTypeServerInfo (nodeType j) S = Some t \<Longrightarrow> T q x = Some ty \<Longrightarrow>
      routes S (neededServers t) x ty \<or> x \<in> idents k (workerNum i) \<and> nodeType i \<in> set (neededServers t)"
  shows "views_ok S (fold (deliver me) ms T)"
proof (rule views_okI)
  fix q j t x ty assume q: "(q, j) \<in> set (m_mapNodesStatus S)" "GetNodeTypeServerInfo (nodeType j) S = Some t"
  have d: "fold (deliver me) ms T q = (if nodeType i \<in> set (neededServers t) then del_entry (node_entry k i) (T q) else T q)"
    using deliver_all [OF ok ms _ q] by (simp add: read_exit [OF i] entry_idem)
  show "fold (deliver me) ms T q x = Some ty \<longleftrightarrow> routes S (neededServers t) x ty"
    unfolding d using gone [of "neededServers t" x ty] sup [OF q, of x ty] excess [OF q, of x ty] by (auto simp: del_entry_def)
qed

subsection \<open>Registering\<close>

lemma sent_irrelevant [simp]:
  "GetNodeTypeServerInfo ty (S\<lparr>sent := l\<rparr>) = GetNodeTypeServerInfo ty S" "GetSelfNodeIdentify (S\<lparr>sent := l\<rparr>) = GetSelfNodeIdentify S"
  "GetNodeTypeServerInfo ty (S\<lparr>m_uiNodeId := u\<rparr>) = GetNodeTypeServerInfo ty S" "GetSelfNodeIdentify (S\<lparr>m_uiNodeId := u\<rparr>) = GetSelfNodeIdentify S"
  "GetNodeTypeServerInfo ty (S\<lparr>m_mapNodesStatus := m\<rparr>) = GetNodeTypeServerInfo ty S" "GetSelfNodeIdentify (S\<lparr>m_mapNodesStatus := m\<rparr>) = GetSelfNodeIdentify S"
  by (simp_all add: GetNodeTypeServerInfo_def GetSelfNodeIdentify_def)

lemma node_ok_irrelevant [simp]:
  "node_ok (S\<lparr>sent := l\<rparr>) = node_ok S" "node_ok (S\<lparr>m_uiNodeId := u\<rparr>) = node_ok S" "node_ok (S\<lparr>m_mapNodesStatus := m\<rparr>) = node_ok S"
  by (intro ext; simp add: node_ok_def)+

lemma irrelevant [simp]:
  "center_ok n (S\<lparr>sent := l\<rparr>) = center_ok n S" "routes (S\<lparr>sent := l\<rparr>) = routes S" "views_ok (S\<lparr>sent := l\<rparr>) T = views_ok S T"
  "center_ok n (S\<lparr>m_uiNodeId := u\<rparr>) = center_ok n S" "routes (S\<lparr>m_uiNodeId := u\<rparr>) = routes S"
  by (simp_all add: center_ok_def routes_def views_ok_def table_exact_def fun_eq_iff)

lemma notices_irrelevant [simp]: "notices (S\<lparr>sent := l\<rparr>) ty body m = notices S ty body m"
  by (induction m) auto

lemma GetNeeded_irrelevant [simp]: "GetNeededNodesStatus nd (S\<lparr>sent := l\<rparr>) = GetNeededNodesStatus nd S"
  by (simp add: GetNeededNodesStatus_def center_json_def)

text \<open>The answers to a registration: the node gets its table, the others get the node.\<close>

definition answers :: "center_env \<Rightarrow> tagMsgShell \<Rightarrow> node_status \<Rightarrow> node_session \<Rightarrow> node_session option" where
  "answers C sh i S = SendRegToOthers i (SendOthersToReg C sh i (snd (ResToReg C sh ERR_OK i S)))"

lemma answers_ok:
  assumes ok: "center_ok n S" and i: "(k, i) \<in> set (m_mapNodesStatus S)" "GetNodeTypeServerInfo (nodeType i) S = Some t0"
    and sub: "\<And>q j t x ty. (q, j) \<in> set (m_mapNodesStatus S) \<Longrightarrow> GetNodeTypeServerInfo (nodeType j) S = Some t \<Longrightarrow> T q x = Some ty \<Longrightarrow> routes S (neededServers t) x ty"
    and lack: "\<And>q j t x ty. (q, j) \<in> set (m_mapNodesStatus S) \<Longrightarrow> q \<noteq> k \<Longrightarrow> GetNodeTypeServerInfo (nodeType j) S = Some t \<Longrightarrow> routes S (neededServers t) x ty \<Longrightarrow>
      T q x = Some ty \<or> x \<in> idents k (workerNum i)"
  shows "\<exists>ms. answers C sh i S = Some (S\<lparr>sent := sent S @ ms\<rparr>) \<and> views_ok S (fold (deliver k) ms T)"
proof -
  define m1 where "m1 = ToClient sh (JObj [(''errcode'', JInt ERR_OK), (''node_id'', JInt (nodeId i))])"
  define m2 where "m2 = ToShell sh CMD_REQ_NODE_REG_NOTICE (GetNeededNodesStatus (neededServers t0) S)"
  define T2 where "T2 = T(k := read_notice (GetNeededNodesStatus (neededServers t0) S) (T k))"
  have "snd (ResToReg C sh ERR_OK i S) = S\<lparr>sent := sent S @ [m1]\<rparr>" by (simp add: ResToReg_def send_msg_def m1_def ERR_OK_def)
  then have others: "SendOthersToReg C sh i (snd (ResToReg C sh ERR_OK i S)) = S\<lparr>sent := sent S @ [m1, m2]\<rparr>"
    using i(2) by (simp add: SendOthersToReg_def send_msg_def m2_def)
  have keys: "\<forall>(k, i) \<in> set (m_mapNodesStatus S). getNodeKey i \<noteq> None" using center_okD(3) [OF ok] by (auto simp: node_ok_def)
  obtain ms where ms: "notices S (nodeType i) (reg_notice i) (m_mapNodesStatus S) = Some ms" using notices_Some [OF keys] by blast
  have T2: "T2 k x = Some ty \<longleftrightarrow> routes S (neededServers t0) x ty" for x ty
    unfolding T2_def using read_needed [OF ok, of "T k" x "neededServers t0" ty] sub [OF i] by simp
  have same: "(k, j) \<in> set (m_mapNodesStatus S) \<Longrightarrow> j = i" for j using center_okD(4) [OF ok i(1)] by blast
  have sub2: "T2 q x = Some ty \<Longrightarrow> routes S (neededServers t) x ty"
    if "(q, j) \<in> set (m_mapNodesStatus S)" "GetNodeTypeServerInfo (nodeType j) S = Some t" for q j t x ty
    using that T2 [of x ty] sub [OF that, of x ty] same [of j] i(2) by (cases "q = k") (auto simp: T2_def)
  have lack2: "T2 q x = Some ty \<or> x \<in> idents k (workerNum i)"
    if "(q, j) \<in> set (m_mapNodesStatus S)" "GetNodeTypeServerInfo (nodeType j) S = Some t" "routes S (neededServers t) x ty" for q j t x ty
    using that T2 [of x ty] lack [OF that(1) _ that(2,3)] same [of j] i(2) by (cases "q = k") (auto simp: T2_def)
  have T: "fold (deliver k) ([m1, m2] @ l) T = fold (deliver k) l T2" for l by (simp add: m1_def m2_def T2_def)
  show ?thesis
  proof (cases "suspend i = 0")
    case True
    then have "answers C sh i S = Some (S\<lparr>sent := sent S @ [m1, m2] @ ms\<rparr>)" using others ms by (simp add: answers_def SendRegToOthers_def send_msgs_def)
    moreover have "views_ok S (fold (deliver k) ms T2)" by (rule announce [OF ok i(1) True ms sub2 lack2])
    ultimately show ?thesis unfolding T [symmetric] by blast
  next
    case False
    then have "answers C sh i S = Some (S\<lparr>sent := sent S @ [m1, m2] @ []\<rparr>)" using others by (simp add: answers_def SendRegToOthers_def)
    moreover have "views_ok S (fold (deliver k) [] T2)"
    proof (rule views_okI)
      fix q j t x ty assume q: "(q, j) \<in> set (m_mapNodesStatus S)" "GetNodeTypeServerInfo (nodeType j) S = Some t"
      show "fold (deliver k) [] T2 q x = Some ty \<longleftrightarrow> routes S (neededServers t) x ty"
        using sub2 [OF q, of x ty] lack2 [OF q, of x ty] routes_owner [OF ok i(1), of x "workerNum i" "neededServers t" ty] False by auto
    qed
    ultimately show ?thesis unfolding T [symmetric] by blast
  qed
qed

lemma sint_small: "0 \<le> v \<Longrightarrow> v < 2 ^ 31 \<Longrightarrow> sint (word_of_int v :: u32) = v"
  by (simp add: signed_of_int signed_take_bit_int_eq_self)

lemma fold_max:
  fixes tmp :: u32
  assumes "\<forall>v \<in> set vs. 1 \<le> v \<and> v \<le> N" "0 \<le> sint tmp" "sint tmp \<le> N" "N < 2 ^ 31"
  defines "r \<equiv> foldl (\<lambda>tmp v. if v > sint tmp then word_of_int v else tmp) tmp vs"
  shows "sint tmp \<le> sint r \<and> sint r \<le> N \<and> (\<forall>v \<in> set vs. v \<le> sint r)"
  using assms(1-3) unfolding r_def
proof (induction vs arbitrary: tmp)
  case (Cons v vs)
  define tmp2 where "tmp2 = (if v > sint tmp then word_of_int v else tmp)"
  have "0 \<le> v" "v < 2 ^ 31" using Cons.prems(1) assms(4) by auto
  then have "sint tmp2 = max v (sint tmp)" by (simp add: tmp2_def sint_small del: power_numeral)
  then show ?case using Cons.IH [of tmp2] Cons.prems by (auto simp: tmp2_def [symmetric])
qed simp

lemma new_id:
  assumes "center_ok n S" "n < 2 ^ 31 - 1" "GetNewNodeID S = (w, S')"
  shows "S' = S\<lparr>m_uiNodeId := w\<rparr>" "1 \<le> sint w" "sint w \<le> int n + 1" "\<And>k i. (k, i) \<in> set (m_mapNodesStatus S) \<Longrightarrow> nodeId i < sint w"
proof -
  define vs where "vs = map (\<lambda>kv. nodeId (snd kv)) (m_mapNodesStatus S)"
  define r :: u32 where "r = foldl (\<lambda>tmp v. if v > sint tmp then word_of_int v else tmp) 0 vs"
  have vs: "\<forall>v \<in> set vs. 1 \<le> v \<and> v \<le> int n" using center_okD(3) [OF assms(1)] by (auto simp: vs_def node_ok_def)
  have "r = foldl (\<lambda>tmpID kv. if nodeId (snd kv) > sint tmpID then word_of_int (nodeId (snd kv)) else tmpID) 0 (m_mapNodesStatus S)"
    by (simp add: r_def vs_def foldl_map)
  then have w: "w = r + 1" "S' = S\<lparr>m_uiNodeId := w\<rparr>" using assms(3) by (auto simp: GetNewNodeID_def Let_def)
  have r: "0 \<le> sint r" "sint r \<le> int n" "\<forall>v \<in> set vs. v \<le> sint r" using fold_max [OF vs, of 0] assms(2) by (simp_all add: r_def)
  have "sint r + 1 < 2 ^ 31" using r(2) assms(2) by simp
  then have "sint w = sint r + 1" using r(1) sint_small [of "sint r + 1"] by (simp add: w(1))
  then show "1 \<le> sint w" "sint w \<le> int n + 1" "\<And>k i. (k, i) \<in> set (m_mapNodesStatus S) \<Longrightarrow> nodeId i < sint w"
    using r vs_def by auto
  show "S' = S\<lparr>m_uiNodeId := w\<rparr>" by (rule w(2))
qed

lemma node_ok_mono: "node_ok S n k i \<Longrightarrow> node_ok S (Suc n) k i"
  by (auto simp: node_ok_def)

lemma type_known: "CheckNodeType ty S \<Longrightarrow> \<exists>t. GetNodeTypeServerInfo ty S = Some t"
  by (cases "GetNodeTypeServerInfo ty S") (auto simp: CheckNodeType_def GetNodeTypeServerInfo_def find_None_iff list_ex_iff)

lemma added_ok:
  assumes "center_ok n S" "GetNodeInfo k S = None" "node_ok S (Suc n) k i" "\<forall>(q, j) \<in> set (m_mapNodesStatus S). nodeId j < nodeId i"
  shows "center_ok (Suc n) (AddNodeInfo k i S)" "set (m_mapNodesStatus (AddNodeInfo k i S)) = insert (k, i) (set (m_mapNodesStatus S))"
proof -
  let ?m = "stdmap_insert k i (m_mapNodesStatus S)"
  have add: "AddNodeInfo k i S = S\<lparr>m_mapNodesStatus := ?m\<rparr>" using assms(2) by (simp add: AddNodeInfo_def GetNodeInfo_def)
  have set: "set ?m = insert (k, i) (set (m_mapNodesStatus S))" using assms(2) by (simp add: set_stdmap_insert GetNodeInfo_def)
  then show "set (m_mapNodesStatus (AddNodeInfo k i S)) = insert (k, i) (set (m_mapNodesStatus S))" by (simp add: add)
  have sorted: "sorted_wrt (<) (map fst ?m)" using sorted_stdmap_insert assms(1) by (auto simp: center_ok_def)
  have "inj_on (\<lambda>kv. nodeId (snd kv)) (set ?m)"
    unfolding set using assms(1,4) by (auto simp: inj_on_def center_ok_def distinct_map)
  then have "distinct (map (\<lambda>kv. nodeId (snd kv)) ?m)" using sorted_distinct [OF sorted] by (simp add: distinct_map)
  then show "center_ok (Suc n) (AddNodeInfo k i S)"
    using assms(1,3) sorted set node_ok_mono by (auto simp: add center_ok_def)
qed

lemma routes_added:
  assumes "center_ok n S" "GetNodeInfo k S = None" "node_ok S (Suc n) k i" "\<forall>(q, j) \<in> set (m_mapNodesStatus S). nodeId j < nodeId i"
  shows "routes S nd x ty \<Longrightarrow> routes (AddNodeInfo k i S) nd x ty" "routes (AddNodeInfo k i S) nd x ty \<Longrightarrow> routes S nd x ty \<or> x \<in> idents k (workerNum i)"
proof -
  have set: "set (m_mapNodesStatus (AddNodeInfo k i S)) = insert (k, i) (set (m_mapNodesStatus S))" by (rule added_ok(2) [OF assms])
  have same: "GetSelfNodeIdentify (AddNodeInfo k i S) = GetSelfNodeIdentify S" "m_centerNodeType (AddNodeInfo k i S) = m_centerNodeType S"
    "m_centerProcessNum (AddNodeInfo k i S) = m_centerProcessNum S" by (simp_all add: AddNodeInfo_def)
  show "routes S nd x ty \<Longrightarrow> routes (AddNodeInfo k i S) nd x ty" "routes (AddNodeInfo k i S) nd x ty \<Longrightarrow> routes S nd x ty \<or> x \<in> idents k (workerNum i)"
    unfolding routes_def set same by blast+
qed

lemma fresh_idents:
  assumes "center_ok n S" "GetNodeInfo k S = None" "GetSelfNodeIdentify S \<noteq> Some k" "routes S nd x ty"
  shows "x \<notin> idents k a"
  using assms(4)
proof (cases rule: routesE)
  case (node q j)
  then have "q \<noteq> k" using center_okD(5) [OF assms(1), of k j] assms(2) by auto
  then show ?thesis using idents_key node(5) by blast
next
  case (center self)
  then show ?thesis using idents_key assms(3) by blast
qed

text \<open>Types that are registered stay configured.\<close>

definition types_ok :: "node_session \<Rightarrow> bool" where
  "types_ok S \<longleftrightarrow> (\<forall>(k, i) \<in> set (m_mapNodesStatus S). GetNodeTypeServerInfo (nodeType i) S \<noteq> None)"

lemma register_new:
  assumes ok: "center_ok n S" "n < 2 ^ 31 - 1" "views_ok S T" and acc: "acceptable S i k" and new: "GetNodeInfo k S = None"
  shows "\<exists>S'. RegNode C sh i S = Some (ERR_OK, S') \<and> center_ok (Suc n) S' \<and> views_ok S' (fold (deliver k) (new_msgs S S') (T(k := Map.empty)))
    \<and> (types_ok S \<longrightarrow> types_ok S')"
proof -
  obtain w S1 where w: "GetNewNodeID S = (w, S1)" by (cases "GetNewNodeID S")
  note id = new_id [OF ok(1,2) w]
  let ?i = "i\<lparr>nodeId := sint w\<rparr>" let ?S = "AddNodeInfo k ?i S1" let ?T = "T(k := Map.empty)"
  have key: "getNodeKey i = Some k" and sus: "suspend i = 0" using acc by (auto simp: acceptable_def)
  have nok: "node_ok S1 (Suc n) k ?i" using acc id(2,3) by (simp add: acceptable_def node_ok_def id(1) getNodeKey_def)
  have ok1: "center_ok n S1" "GetNodeInfo k S1 = None" using ok(1) new by (simp_all add: id(1) GetNodeInfo_def)
  have below: "\<forall>(q, j) \<in> set (m_mapNodesStatus S1). nodeId j < nodeId ?i" using id(4) by (auto simp: id(1))
  note added = added_ok [OF ok1 nok below] and routes = routes_added [OF ok1 nok below]
  have types: "GetNodeTypeServerInfo ty ?S = GetNodeTypeServerInfo ty S" "sent ?S = sent S" for ty by (simp_all add: AddNodeInfo_def id(1) GetNodeTypeServerInfo_def)
  obtain t0 where t0: "GetNodeTypeServerInfo (nodeType ?i) ?S = Some t0" using type_known acc types by (fastforce simp: acceptable_def)
  have old: "(q, j) \<in> set (m_mapNodesStatus S)" if "(q, j) \<in> set (m_mapNodesStatus ?S)" "q \<noteq> k" for q j
    using that added(2) by (auto simp: id(1))
  have eq: "routes S1 = routes S" by (simp add: id(1))
  have sub: "?T q x = Some ty \<Longrightarrow> CenterRoutes.routes ?S (neededServers t) x ty"
    if "(q, j) \<in> set (m_mapNodesStatus ?S)" "GetNodeTypeServerInfo (nodeType j) ?S = Some t" for q j t x ty
    using that old [OF that(1)] views_okD [OF ok(3), of q j t x ty] routes(1) [where nd = "neededServers t" and x = x and ty = ty] types eq by (cases "q = k") auto
  have lack: "?T q x = Some ty \<or> x \<in> idents k (workerNum ?i)"
    if "(q, j) \<in> set (m_mapNodesStatus ?S)" "q \<noteq> k" "GetNodeTypeServerInfo (nodeType j) ?S = Some t" "CenterRoutes.routes ?S (neededServers t) x ty" for q j t x ty
    using old [OF that(1,2)] views_okD [OF ok(3), of q j t x ty] routes(2) [OF that(4)] that(2,3) types eq by auto
  have "\<exists>ms. answers C sh ?i ?S = Some (?S\<lparr>sent := sent ?S @ ms\<rparr>) \<and> views_ok ?S (fold (deliver k) ms ?T)"
    by (rule answers_ok [OF added(1) _ t0 sub lack]) (use added(2) in auto)
  then obtain ms where ms: "answers C sh ?i ?S = Some (?S\<lparr>sent := sent ?S @ ms\<rparr>)" "views_ok ?S (fold (deliver k) ms ?T)" by blast
  have "CheckNodeSuspend i S = Some i" using key new by (simp add: CheckNodeSuspend_def)
  then have "RegNode C sh i S = Some (ERR_OK, ?S\<lparr>sent := sent ?S @ ms\<rparr>)"
    using center_okD(1) [OF ok(1)] key new w ms(1) by (simp add: RegNode_def RegNodeRoute_def answers_def Let_def)
  moreover have "types_ok S \<longrightarrow> types_ok (?S\<lparr>sent := sent ?S @ ms\<rparr>)" using added(2) t0 types(1) by (auto simp: types_ok_def id(1))
  ultimately show ?thesis using added(1) ms(2) types(2) by (intro exI [of _ "?S\<lparr>sent := sent ?S @ ms\<rparr>"]) (simp add: new_msgs_def)
qed

subsection \<open>Changing an entry\<close>

lemma put_fields [simp]:
  "GetNodeTypeServerInfo ty (put_info k i S) = GetNodeTypeServerInfo ty S" "GetSelfNodeIdentify (put_info k i S) = GetSelfNodeIdentify S"
  "sent (put_info k i S) = sent S" "node_ok (put_info k i S) = node_ok S" "m_centerNodeType (put_info k i S) = m_centerNodeType S"
  "m_centerProcessNum (put_info k i S) = m_centerProcessNum S" "cs_status (put_info k i S) = cs_status S" "m_centerInnerHost (put_info k i S) = m_centerInnerHost S"
  by (simp_all add: put_info_def)

lemma put_ok:
  assumes "center_ok n S" "(k, i) \<in> set (m_mapNodesStatus S)" "node_ok S n k i'" "nodeId i' = nodeId i"
  shows "center_ok n (put_info k i' S)" "(q, j) \<in> set (m_mapNodesStatus (put_info k i' S)) \<longleftrightarrow> (if q = k then j = i' else (q, j) \<in> set (m_mapNodesStatus S))"
proof -
  let ?f = "\<lambda>(q, j). (q, if q = k then i' else j)"
  have map: "m_mapNodesStatus (put_info k i' S) = map ?f (m_mapNodesStatus S)" by (simp add: put_info_def)
  have keys: "map fst (map ?f (m_mapNodesStatus S)) = map fst (m_mapNodesStatus S)" by auto
  have ids: "map (\<lambda>kv. nodeId (snd kv)) (map ?f (m_mapNodesStatus S)) = map (\<lambda>kv. nodeId (snd kv)) (m_mapNodesStatus S)"
    using center_okD(4) [OF assms(1,2)] assms(4) by auto
  have "\<forall>(q, j) \<in> set (map ?f (m_mapNodesStatus S)). node_ok S n q j" using center_okD(3) [OF assms(1)] assms(3) by auto
  then show "center_ok n (put_info k i' S)" unfolding center_ok_def map keys ids put_fields using assms(1) [unfolded center_ok_def] by blast
  show "(q, j) \<in> set (m_mapNodesStatus (put_info k i' S)) \<longleftrightarrow> (if q = k then j = i' else (q, j) \<in> set (m_mapNodesStatus S))"
    unfolding map using assms(2) by (auto split: prod.splits if_splits) (force split: if_splits)+
qed

lemma put_same:
  assumes "center_ok n S" "(k, i) \<in> set (m_mapNodesStatus S)" "node_ok S n k i'" "nodeId i' = nodeId i"
    and same: "nodeType i' = nodeType i" "suspend i' = suspend i" "workerNum i' = workerNum i"
  shows "routes (put_info k i' S) = routes S" "views_ok S T \<Longrightarrow> views_ok (put_info k i' S) T"
proof -
  note set = put_ok(2) [OF assms(1-4)] and uniq = center_okD(4) [OF assms(1,2)]
  have "(\<exists>(q, j) \<in> set (m_mapNodesStatus (put_info k i' S)). suspend j = 0 \<and> nodeType j \<in> set nd \<and> ty = nodeType j \<and> x \<in> idents q (workerNum j))
    \<longleftrightarrow> (\<exists>(q, j) \<in> set (m_mapNodesStatus S). suspend j = 0 \<and> nodeType j \<in> set nd \<and> ty = nodeType j \<and> x \<in> idents q (workerNum j))" for nd ty x
    unfolding Bex_def split_paired_Ex prod.case set using same uniq assms(2) by metis
  then show r: "routes (put_info k i' S) = routes S" by (auto simp: routes_def fun_eq_iff)
  show "views_ok (put_info k i' S) T" if t: "views_ok S T"
  proof (rule views_okI)
    fix q j t0 x ty assume "(q, j) \<in> set (m_mapNodesStatus (put_info k i' S))" "GetNodeTypeServerInfo (nodeType j) (put_info k i' S) = Some t0"
    then show "T q x = Some ty \<longleftrightarrow> routes (put_info k i' S) (neededServers t0) x ty"
      using views_okD [OF t, of q "if q = k then i else j" t0 x ty] assms(2) same(1) by (auto simp: set r split: if_splits)
  qed
qed

lemma update_facts:
  assumes "node_ok S n k i" "getNodeKey i' = Some k" "NUL \<notin> set (nodeInnerIp i')" "workerNum i = workerNum i'"
  shows "node_ok S n k (snd (update_load i i'))" "nodeId (snd (update_load i i')) = nodeId i" "nodeType (snd (update_load i i')) = nodeType i"
    "suspend (snd (update_load i i')) = suspend i" "workerNum (snd (update_load i i')) = workerNum i"
  using assms by (auto simp: update_load_def node_ok_def getNodeKey_def)

lemma known_entry:
  assumes "center_ok n S" "acceptable S i k" "GetNodeInfo k S = Some old"
  defines "u \<equiv> snd (update_load old i)"
  shows "(k, old) \<in> set (m_mapNodesStatus S)" "node_ok S n k u" "nodeId u = nodeId old" "nodeType u = nodeType old" "suspend u = suspend old" "workerNum u = workerNum old"
proof -
  show mem: "(k, old) \<in> set (m_mapNodesStatus S)" using center_okD(5) [OF assms(1)] assms(3) by blast
  show "node_ok S n k u" "nodeId u = nodeId old" "nodeType u = nodeType old" "suspend u = suspend old" "workerNum u = workerNum old"
    using update_facts [OF center_okD(3) [OF assms(1) mem], of i] assms(2,3) by (auto simp: acceptable_def u_def)
qed

text \<open>A change of one entry that keeps its type, or none.\<close>

definition same_registry :: "node_session \<Rightarrow> node_session \<Rightarrow> bool" where
  "same_registry S S' \<longleftrightarrow> S' = S \<or> (\<exists>k u. S' = (put_info k u S)\<lparr>sent := sent S'\<rparr> \<and> (\<forall>i. GetNodeInfo k S = Some i \<longrightarrow> nodeType u = nodeType i))"

lemma same_registryI: "GetNodeInfo k S = Some i \<Longrightarrow> nodeType u = nodeType i \<Longrightarrow> same_registry S ((put_info k u S)\<lparr>sent := l\<rparr>)"
  unfolding same_registry_def by (intro disjI2 exI [of _ k] exI [of _ u]) simp

lemma register_old:
  assumes ok: "center_ok n S" "views_ok S T" "types_ok S" and acc: "acceptable S i k" and old: "GetNodeInfo k S = Some old"
  shows "\<exists>S'. RegNode C sh i S = Some (ERR_OK, S') \<and> center_ok n S' \<and> views_ok S' (fold (deliver k) (new_msgs S S') T) \<and> same_registry S S'"
proof -
  let ?i = "i\<lparr>suspend := suspend old\<rparr>"
  define u where "u = snd (update_load old ?i)"
  have eq: "u = snd (update_load old i)" by (simp add: u_def update_load_def)
  note e = known_entry [OF ok(1) acc old, folded eq]
  let ?S = "put_info k u S"
  note put = put_ok [OF ok(1) e(1-3)] and same = put_same [OF ok(1) e(1-6)]
  have t: "views_ok ?S T" by (rule same(2) [OF ok(2)])
  obtain t0 where t0: "GetNodeTypeServerInfo (nodeType u) ?S = Some t0" using ok(3) e(1,4) by (auto simp: types_ok_def)
  have "\<exists>ms. answers C sh u ?S = Some (?S\<lparr>sent := sent ?S @ ms\<rparr>) \<and> views_ok ?S (fold (deliver k) ms T)"
    by (rule answers_ok [OF put(1) _ t0]) (use put(2) views_okD [OF t] in \<open>simp, blast, blast\<close>)
  then obtain ms where ms: "answers C sh u ?S = Some (?S\<lparr>sent := sent ?S @ ms\<rparr>)" "views_ok ?S (fold (deliver k) ms T)" by blast
  have key: "getNodeKey i = Some k" "getNodeKey ?i = Some k" using acc by (auto simp: acceptable_def getNodeKey_def)
  then have "CheckNodeSuspend i S = Some ?i" using old by (simp add: CheckNodeSuspend_def)
  then have reg: "RegNode C sh i S = Some (ERR_OK, ?S\<lparr>sent := sent ?S @ ms\<rparr>)"
    using center_okD(1) [OF ok(1)] key old ms(1) by (simp add: RegNode_def RegNodeRoute_def answers_def Let_def u_def)
  have "center_ok n (?S\<lparr>sent := sent ?S @ ms\<rparr>)" "views_ok (?S\<lparr>sent := sent ?S @ ms\<rparr>) (fold (deliver k) (new_msgs S (?S\<lparr>sent := sent ?S @ ms\<rparr>)) T)"
    using put(1) ms(2) by (simp_all add: new_msgs_def)
  then show ?thesis using reg same_registryI [OF old e(4)] by blast
qed

lemma report_old:
  assumes ok: "center_ok n S" "views_ok S T" and acc: "acceptable S i k" and old: "GetNodeInfo k S = Some old"
  shows "\<exists>r S'. UpdateNode C sh i S = Some (r, S') \<and> center_ok n S' \<and> views_ok S' (fold (deliver k) (new_msgs S S') T) \<and> same_registry S S'"
proof -
  define u where "u = snd (update_load old i)"
  note e = known_entry [OF ok(1) acc old, folded u_def]
  have "getNodeKey i = Some k" using acc by (simp add: acceptable_def)
  then have "UpdateNode C sh i S = Some (if fst (update_load old i) then ERR_OK else ERR_SERVERINFO, put_info k u S)"
    using old by (simp add: UpdateNode_def u_def split: prod.splits)
  moreover have "same_registry S (put_info k u S)" using same_registryI [OF old e(4), of "sent S"] by (simp add: put_info_def)
  ultimately show ?thesis using put_ok(1) [OF ok(1) e(1-3)] put_same(2) [OF ok(1) e(1-6) ok(2)] by (simp add: new_msgs_def)
qed

subsection \<open>Leaving, suspending and resuming\<close>

lemma routes_other:
  assumes "\<And>q j. q \<noteq> k \<Longrightarrow> (q, j) \<in> set (m_mapNodesStatus S) \<Longrightarrow> (q, j) \<in> set (m_mapNodesStatus S')" "\<And>j. (k, j) \<in> set (m_mapNodesStatus S) \<Longrightarrow> j = i"
    "GetSelfNodeIdentify S' = GetSelfNodeIdentify S" "m_centerNodeType S' = m_centerNodeType S" "m_centerProcessNum S' = m_centerProcessNum S"
    "routes S nd x ty"
  shows "routes S' nd x ty \<or> x \<in> idents k (workerNum i) \<and> nodeType i \<in> set nd"
  using assms(6)
proof (cases rule: routesE)
  case (node q j)
  then show ?thesis using assms(1) [of q j] assms(2) [of j] routesI [of q j S' nd x] by (cases "q = k") auto
next
  case (center self)
  then show ?thesis unfolding routes_def assms(3-5) by blast
qed

lemma notices_here:
  assumes "center_ok n S"
  obtains ms where "notices S ty body (m_mapNodesStatus S) = Some ms"
proof -
  have "\<forall>(k, i) \<in> set (m_mapNodesStatus S). getNodeKey i \<noteq> None" using center_okD(3) [OF assms] by (auto simp: node_ok_def)
  then show thesis using that notices_Some by blast
qed

lemma delete_ok:
  assumes ok: "center_ok n S" "views_ok S T"
  shows "\<exists>b S'. NodeSession_DelNode k S = Some (b, S') \<and> center_ok n S' \<and> views_ok S' (fold (deliver me) (new_msgs S S') T)
    \<and> (types_ok S \<longrightarrow> types_ok S')"
proof (cases "GetNodeInfo k S")
  case None
  then show ?thesis using ok by (auto simp: NodeSession_DelNode_def new_msgs_def)
next
  case (Some i)
  let ?S = "S\<lparr>m_mapNodesStatus := filter (\<lambda>kv. fst kv \<noteq> k) (m_mapNodesStatus S)\<rparr>"
  have i: "(k, i) \<in> set (m_mapNodesStatus S)" using center_okD(5) [OF ok(1)] Some by blast
  have ok1: "center_ok n ?S" using ok(1) by (auto simp: center_ok_def sorted_wrt_filter distinct_map_filter sorted_wrt_map)
  obtain ms where ms: "notices ?S (nodeType i) (exit_notice i) (m_mapNodesStatus ?S) = Some ms" by (rule notices_here [OF ok1])
  have none: "GetNodeInfo k ?S = None" "GetSelfNodeIdentify ?S \<noteq> Some k"
    using center_okD(3) [OF ok(1) i] by (auto simp: GetNodeInfo_def map_of_eq_None_iff node_ok_def)
  have down: "CenterRoutes.routes ?S nd x ty \<Longrightarrow> CenterRoutes.routes S nd x ty" for nd x ty unfolding routes_def by auto
  have up: "CenterRoutes.routes S nd x ty \<Longrightarrow> CenterRoutes.routes ?S nd x ty \<or> x \<in> idents k (workerNum i) \<and> nodeType i \<in> set nd" for nd x ty
    by (rule routes_other [of k S]) (use center_okD(4) [OF ok(1) i] in auto)
  have "views_ok ?S (fold (deliver me) ms T)"
  proof (rule withdraw [OF ok1 _ ms])
    show "node_ok ?S n k i" using center_okD(3) [OF ok(1) i] by simp
    show "CenterRoutes.routes ?S nd x ty \<Longrightarrow> x \<notin> idents k (workerNum i)" for nd x ty by (rule fresh_idents [OF ok1 none])
  next
    fix q j t x ty assume q: "(q, j) \<in> set (m_mapNodesStatus ?S)" "GetNodeTypeServerInfo (nodeType j) ?S = Some t"
    then have q': "(q, j) \<in> set (m_mapNodesStatus S)" "GetNodeTypeServerInfo (nodeType j) S = Some t" by auto
    show "CenterRoutes.routes ?S (neededServers t) x ty \<Longrightarrow> T q x = Some ty" using down views_okD [OF ok(2) q'] by blast
    show "T q x = Some ty \<Longrightarrow> CenterRoutes.routes ?S (neededServers t) x ty \<or> x \<in> idents k (workerNum i) \<and> nodeType i \<in> set (neededServers t)"
      using up views_okD [OF ok(2) q'] by blast
  qed
  moreover have "NodeSession_DelNode k S = Some (True, ?S\<lparr>sent := sent S @ ms\<rparr>)"
    using Some center_okD(1) [OF ok(1)] ms by (simp add: NodeSession_DelNode_def DelNodeInfo_def GetNodeInfo_def SendUnregToOthers_def send_msgs_def)
  ultimately show ?thesis using ok1 by (intro exI [of _ True] exI [of _ "?S\<lparr>sent := sent S @ ms\<rparr>"]) (auto simp: new_msgs_def types_ok_def)
qed

lemma offline_ok:
  assumes ok: "center_ok n S" "views_ok S T"
  shows "\<exists>r S'. OfflineNode k S = Some (r, S') \<and> center_ok n S' \<and> views_ok S' (fold (deliver me) (new_msgs S S') T) \<and> same_registry S S'"
proof -
  obtain self where self: "GetSelfNodeIdentify S = Some self" using center_okD(6) [OF ok(1)] by blast
  show ?thesis
  proof (cases "\<exists>i. k \<noteq> self \<and> GetNodeInfo k S = Some i \<and> suspend i \<noteq> 1 \<and> \<not> GetNodeCountByType (nodeType i) S < 2")
    case False
    then have "\<exists>r. OfflineNode k S = Some (r, S)" using self by (auto simp: OfflineNode_def split: option.splits)
    then show ?thesis using ok by (auto simp: new_msgs_def same_registry_def)
  next
    case True
    then obtain i where i: "k \<noteq> self" "GetNodeInfo k S = Some i" "suspend i \<noteq> 1" "\<not> GetNodeCountByType (nodeType i) S < 2" by blast
    let ?i = "i\<lparr>suspend := 1\<rparr>" let ?S = "put_info k ?i S"
    have mem: "(k, i) \<in> set (m_mapNodesStatus S)" using center_okD(5) [OF ok(1)] i(2) by blast
    have nok: "node_ok S n k ?i" using center_okD(3) [OF ok(1) mem] by (auto simp: node_ok_def getNodeKey_def)
    note put = put_ok [OF ok(1) mem nok, simplified]
    obtain ms where ms: "notices ?S (nodeType ?i) (exit_notice ?i) (m_mapNodesStatus ?S) = Some ms" by (rule notices_here [OF put(1)])
    have up: "routes S nd x ty \<Longrightarrow> routes ?S nd x ty \<or> x \<in> idents k (workerNum i) \<and> nodeType i \<in> set nd" for nd x ty
      by (rule routes_other [of k S]) (use put(2) center_okD(4) [OF ok(1) mem] in auto)
    have gone: "routes ?S nd x ty \<Longrightarrow> x \<notin> idents k (workerNum ?i)" for nd x ty
      using routes_owner [OF put(1), of k ?i x "workerNum ?i" nd ty] put(2) by auto
    have down: "routes ?S nd x ty \<Longrightarrow> routes S nd x ty" for nd x ty
      using routes_other [of k ?S S ?i nd x ty] gone [of nd x ty] put(2) by (auto split: if_splits)
    have "views_ok ?S (fold (deliver me) ms T)"
    proof (rule withdraw [OF put(1) _ ms gone])
      fix q j t x ty assume q: "(q, j) \<in> set (m_mapNodesStatus ?S)" "GetNodeTypeServerInfo (nodeType j) ?S = Some t"
      then obtain j' where q': "(q, j') \<in> set (m_mapNodesStatus S)" "GetNodeTypeServerInfo (nodeType j') S = Some t" using put(2) mem by (cases "q = k") auto
      show "routes ?S (neededServers t) x ty \<Longrightarrow> T q x = Some ty" using down views_okD [OF ok(2) q'] by blast
      show "T q x = Some ty \<Longrightarrow> routes ?S (neededServers t) x ty \<or> x \<in> idents k (workerNum ?i) \<and> nodeType ?i \<in> set (neededServers t)"
        using up [of "neededServers t" x ty] views_okD [OF ok(2) q'] by simp
    qed (use nok in simp)
    moreover have "OfflineNode k S = Some (ERR_OK, ?S\<lparr>sent := sent S @ ms\<rparr>)"
      using self i ms by (simp add: OfflineNode_def SendUnregToOthers_def send_msgs_def Let_def)
    moreover have "same_registry S (?S\<lparr>sent := sent S @ ms\<rparr>)" by (rule same_registryI [OF i(2)]) simp
    ultimately show ?thesis using put(1) by (intro exI [of _ ERR_OK] exI [of _ "?S\<lparr>sent := sent S @ ms\<rparr>"]) (auto simp: new_msgs_def)
  qed
qed

lemma online_ok:
  assumes ok: "center_ok n S" "views_ok S T"
  shows "\<exists>r S'. OnlineNode k S = Some (r, S') \<and> center_ok n S' \<and> views_ok S' (fold (deliver me) (new_msgs S S') T) \<and> same_registry S S'"
proof -
  obtain self where self: "GetSelfNodeIdentify S = Some self" using center_okD(6) [OF ok(1)] by blast
  show ?thesis
  proof (cases "\<exists>i. k \<noteq> self \<and> GetNodeInfo k S = Some i \<and> suspend i \<noteq> 0")
    case False
    then have "\<exists>r. OnlineNode k S = Some (r, S)" using self by (auto simp: OnlineNode_def split: option.splits)
    then show ?thesis using ok by (auto simp: new_msgs_def same_registry_def)
  next
    case True
    then obtain i where i: "k \<noteq> self" "GetNodeInfo k S = Some i" "suspend i \<noteq> 0" by blast
    let ?i = "i\<lparr>suspend := 0\<rparr>" let ?S = "put_info k ?i S"
    have mem: "(k, i) \<in> set (m_mapNodesStatus S)" using center_okD(5) [OF ok(1)] i(2) by blast
    have nok: "node_ok S n k ?i" using center_okD(3) [OF ok(1) mem] by (auto simp: node_ok_def getNodeKey_def)
    note put = put_ok [OF ok(1) mem nok, simplified]
    obtain ms where ms: "notices ?S (nodeType ?i) (reg_notice ?i) (m_mapNodesStatus ?S) = Some ms" by (rule notices_here [OF put(1)])
    have absent: "routes S nd x ty \<Longrightarrow> x \<notin> idents k (workerNum i)" for nd x ty
      using routes_owner [OF ok(1) mem, of x "workerNum i" nd ty] i(3) by auto
    have up: "routes S nd x ty \<Longrightarrow> routes ?S nd x ty" for nd x ty
      using routes_other [of k S ?S i nd x ty] absent [of nd x ty] put(2) center_okD(4) [OF ok(1) mem] by auto
    have down: "routes ?S nd x ty \<Longrightarrow> routes S nd x ty \<or> x \<in> idents k (workerNum ?i)" for nd x ty
      using routes_other [of k ?S S ?i nd x ty] put(2) by (auto split: if_splits)
    have "views_ok ?S (fold (deliver me) ms T)"
    proof (rule announce [OF put(1) _ _ ms])
      fix q j t x ty assume q: "(q, j) \<in> set (m_mapNodesStatus ?S)" "GetNodeTypeServerInfo (nodeType j) ?S = Some t"
      then obtain j' where q': "(q, j') \<in> set (m_mapNodesStatus S)" "GetNodeTypeServerInfo (nodeType j') S = Some t" using put(2) mem by (cases "q = k") auto
      show "T q x = Some ty \<Longrightarrow> routes ?S (neededServers t) x ty" using up views_okD [OF ok(2) q'] by blast
      show "routes ?S (neededServers t) x ty \<Longrightarrow> T q x = Some ty \<or> x \<in> idents k (workerNum ?i)" using down views_okD [OF ok(2) q'] by blast
    qed (use put(2) in simp_all)
    moreover have "OnlineNode k S = Some (ERR_OK, ?S\<lparr>sent := sent S @ ms\<rparr>)"
      using self i ms by (simp add: OnlineNode_def SendRegToOthers_def send_msgs_def Let_def)
    moreover have "same_registry S (?S\<lparr>sent := sent S @ ms\<rparr>)" by (rule same_registryI [OF i(2)]) simp
    ultimately show ?thesis using put(1) by (intro exI [of _ ERR_OK] exI [of _ "?S\<lparr>sent := sent S @ ms\<rparr>"]) (auto simp: new_msgs_def)
  qed
qed

subsection \<open>All reachable states\<close>

lemma types_same:
  assumes "center_ok n S" "same_registry S S'" "types_ok S"
  shows "types_ok S'"
  using assms(2) unfolding same_registry_def
proof (elim disjE exE conjE)
  fix k u assume u: "S' = (put_info k u S)\<lparr>sent := sent S'\<rparr>" "\<forall>i. GetNodeInfo k S = Some i \<longrightarrow> nodeType u = nodeType i"
  have "\<exists>i. (q, i) \<in> set (m_mapNodesStatus S) \<and> nodeType i = nodeType j" if "(q, j) \<in> set (m_mapNodesStatus (put_info k u S))" for q j
    using that u(2) center_okD(5) [OF assms(1), of k] by (auto simp: put_info_def split: if_splits)
  then have "types_ok (put_info k u S)" using assms(3) unfolding types_ok_def by (fastforce split: prod.splits)
  then have "types_ok ((put_info k u S)\<lparr>sent := sent S'\<rparr>)" by (simp add: types_ok_def)
  then show ?thesis using u(1) by simp
qed (use assms(3) in simp)

definition world_ok :: "nat \<Rightarrow> world \<Rightarrow> bool" where
  "world_ok n w \<longleftrightarrow> center_ok n (fst w) \<and> views_ok (fst w) (snd w) \<and> types_ok (fst w)"

lemma center_ok_mono: "center_ok n S \<Longrightarrow> center_ok (Suc n) S"
  by (auto simp: center_ok_def dest: node_ok_mono)

lemma world_ok_boot:
  assumes "world_ok n (S, T)" "GetNodeInfo k S = None"
  shows "world_ok n (S, T(k := Map.empty))"
proof -
  have "(k, j) \<notin> set (m_mapNodesStatus S)" for j using assms center_okD(5) [of n S k j] by (auto simp: world_ok_def)
  then have "table_exact S (T(k := Map.empty)) q j" if "(q, j) \<in> set (m_mapNodesStatus S)" "table_exact S T q j" for q j
    using that unfolding table_exact_def by (metis fun_upd_other)
  then show ?thesis using assms(1) by (fastforce simp: world_ok_def views_ok_def)
qed

lemma UpdateNode_new: "acceptable S i k \<Longrightarrow> GetNodeInfo k S = None \<Longrightarrow> UpdateNode C sh i S = RegNode C sh i S"
  by (simp add: UpdateNode_def acceptable_def)

text \<open>What every operation does in a state that satisfies the invariant.\<close>

lemma registration_ok:
  assumes "world_ok n (S, T)" "n < 2 ^ 31 - 1" "acceptable S i k" "f = RegNode C sh i \<or> f = UpdateNode C sh i" "starts_empty S T k"
  shows "\<exists>r S'. f S = Some (r, S') \<and> world_ok (Suc n) (S', fold (deliver k) (new_msgs S S') T)"
proof -
  have ok: "center_ok n S" "views_ok S T" "types_ok S" using assms(1) by (auto simp: world_ok_def)
  show ?thesis
  proof (cases "GetNodeInfo k S")
    case None
    then have "f S = RegNode C sh i S" using assms(4) UpdateNode_new [OF assms(3) None] by auto
    moreover have "T(k := Map.empty) = T" using assms(5) None by (simp add: starts_empty_def fun_upd_idem)
    ultimately show ?thesis using register_new [OF ok(1) assms(2) ok(2) assms(3) None, of C sh] ok(3) by (auto simp: world_ok_def)
  next
    case (Some old)
    show ?thesis using assms(4) register_old [OF ok assms(3) Some, of C sh] report_old [OF ok(1,2) assms(3) Some, of C sh] types_same [OF ok(1) _ ok(3)]
      by (auto simp: world_ok_def dest: center_ok_mono)
  qed
qed

lemma removal_ok:
  assumes "world_ok n (S, T)"
  shows "\<exists>b S'. NodeSession_DelNode k S = Some (b, S') \<and> world_ok (Suc n) (S', fold (deliver k) (new_msgs S S') T)"
    "\<exists>r S'. OfflineNode k S = Some (r, S') \<and> world_ok (Suc n) (S', fold (deliver k) (new_msgs S S') T)"
    "\<exists>r S'. OnlineNode k S = Some (r, S') \<and> world_ok (Suc n) (S', fold (deliver k) (new_msgs S S') T)"
proof -
  have ok: "center_ok n S" "views_ok S T" "types_ok S" using assms by (auto simp: world_ok_def)
  show "\<exists>b S'. NodeSession_DelNode k S = Some (b, S') \<and> world_ok (Suc n) (S', fold (deliver k) (new_msgs S S') T)"
    using delete_ok [OF ok(1,2), of k k] ok(3) center_ok_mono unfolding world_ok_def fst_conv snd_conv by blast
  show "\<exists>r S'. OfflineNode k S = Some (r, S') \<and> world_ok (Suc n) (S', fold (deliver k) (new_msgs S S') T)"
    using offline_ok [OF ok(1,2), of k k] types_same [OF ok(1) _ ok(3)] center_ok_mono unfolding world_ok_def fst_conv snd_conv by blast
  show "\<exists>r S'. OnlineNode k S = Some (r, S') \<and> world_ok (Suc n) (S', fold (deliver k) (new_msgs S S') T)"
    using online_ok [OF ok(1,2), of k k] types_same [OF ok(1) _ ok(3)] center_ok_mono unfolding world_ok_def fst_conv snd_conv by blast
qed

lemma step_ok:
  assumes "center_step C w w'" "world_ok n w" "n < 2 ^ 31 - 1"
  shows "world_ok (Suc n) w'"
  using assms
proof cases
  case (register S i k T sh r S')
  then show ?thesis using registration_ok [of n S T i k "RegNode C sh i" C sh] assms(2,3) by auto
next
  case (report S i k T sh r S')
  then show ?thesis using registration_ok [of n S T i k "UpdateNode C sh i" C sh] assms(2,3) by auto
next
  case (disconnect k S b S' T)
  then show ?thesis using removal_ok(1) [of n S T k] assms(2) by auto
next
  case (offline k S r S' T)
  then show ?thesis using removal_ok(2) [of n S T k] assms(2) by auto
next
  case (online k S r S' T)
  then show ?thesis using removal_ok(3) [of n S T k] assms(2) by auto
qed

definition fresh_center :: "node_session \<Rightarrow> bool" where
  "fresh_center S \<longleftrightarrow> cs_status S = eMasterStatus \<and> m_mapNodesStatus S = [] \<and> GetSelfNodeIdentify S \<noteq> None
     \<and> NUL \<notin> set (m_centerInnerHost S) \<and> NUL \<notin> set (m_centerNodeType S)"

lemma reach_ok: "center_reach C (S0, T0) n w \<Longrightarrow> fresh_center S0 \<Longrightarrow> n < 2 ^ 31 \<Longrightarrow> world_ok n w"
proof (induction rule: center_reach.induct)
  case start
  then show ?case by (auto simp: world_ok_def fresh_center_def center_ok_def views_ok_def types_ok_def)
next
  case (step n w' w'')
  then show ?case using step_ok [OF step.hyps(2), of n] by simp
next
  case (boot n S T k)
  then show ?case using world_ok_boot by simp
qed

text \<open>
  C11.  The center keeps the routes of all nodes exact.  Nodes register, report, disconnect, are suspended and resumed in any order, under these
  conditions: every notice reaches its receiver and its names fit the 50 bytes they are written to, a node keeps its number of workers while it is registered and has another address than
  the center, and a node that registers while the center does not know it has just started and has an empty table.  Then, after every step, the table of each registered node holds exactly the
  workers of the registered nodes that are not suspended and whose type it needs, and the center, each under its type; and no two nodes have the same id.
\<close>

theorem center_routes_exact:
  assumes "fresh_center S0" "center_reach C (S0, T0) n (S, T)" "n < 2 ^ 31"
  shows "distinct (map (\<lambda>kv. nodeId (snd kv)) (m_mapNodesStatus S))
    \<and> (\<forall>(k, i) \<in> set (m_mapNodesStatus S). \<exists>t. GetNodeTypeServerInfo (nodeType i) S = Some t \<and> (\<forall>x ty. T k x = Some ty \<longleftrightarrow> routes S (neededServers t) x ty))"
proof -
  have ok: "center_ok n S" "views_ok S T" "types_ok S" using reach_ok [OF assms(2,1,3)] by (auto simp: world_ok_def)
  have "\<exists>t. GetNodeTypeServerInfo (nodeType i) S = Some t \<and> (\<forall>x ty. T k x = Some ty \<longleftrightarrow> routes S (neededServers t) x ty)"
    if "(k, i) \<in> set (m_mapNodesStatus S)" for k i
    using that ok(3) views_okD [OF ok(2) that] unfolding types_ok_def by blast
  then show ?thesis using ok(1) by (auto simp: center_ok_def)
qed

lemma white_key:
  assumes "\<forall>w \<in> set (m_vecWhiteNode S). length w < 32" "CheckWhiteNode (nodeInnerIp i) S" "- (2 ^ 31) \<le> nodeInnerPort i" "nodeInnerPort i < 2 ^ 31"
  shows "\<exists>k. getNodeKey i = Some k"
proof -
  have "length (nodeInnerIp i) < 32" using assms(1,2) by (auto simp: CheckWhiteNode_def list_ex_iff)
  moreover have "length (c_str s) \<le> length s" for s by (simp add: c_str_def length_takeWhile_le)
  ultimately have "length (c_str (nodeInnerIp i)) < 32" using le_less_trans by blast
  moreover have "nat (nodeInnerPort i) < 10 ^ 10" "nat (- nodeInnerPort i) < 10 ^ 10" using assms(3,4) by auto
  then have "length (int_text (nodeInnerPort i)) \<le> 11"
    using dec_text_length [of "nat (nodeInnerPort i)" 10] dec_text_length [of "nat (- nodeInnerPort i)" 10] by (simp add: int_text_def)
  ultimately show ?thesis by (simp add: getNodeKey_def address_text_def Let_def)
qed

text \<open>
  C22.  The operations of the center always return.  The keys of nodes are written into a buffer of 100 bytes without a test of their length; a node whose
  address is on the white list, whose entries have at most 31 characters, fits, and so do the keys of all nodes in the table.
\<close>

theorem center_operations_return:
  assumes "fresh_center S0" "center_reach C (S0, T0) n (S, T)" "n < 2 ^ 31 - 1" "\<forall>w \<in> set (m_vecWhiteNode S). length w < 32 \<and> NUL \<notin> set w"
    and i: "CheckNodeType (nodeType i) S" "CheckWhiteNode (nodeInnerIp i) S" "- (2 ^ 31) \<le> nodeInnerPort i" "nodeInnerPort i < 2 ^ 31" "NUL \<notin> set (nodeType i)" "suspend i = 0"
      "getNodeKey i \<noteq> GetSelfNodeIdentify S" "\<forall>old \<in> snd ` set (m_mapNodesStatus S). getNodeKey old = getNodeKey i \<longrightarrow> workerNum old = workerNum i"
  shows "RegNode C sh i S \<noteq> None \<and> UpdateNode C sh i S \<noteq> None \<and> NodeSession_DelNode k S \<noteq> None \<and> OfflineNode k S \<noteq> None \<and> OnlineNode k S \<noteq> None"
proof -
  have w: "world_ok n (S, T)" using reach_ok [OF assms(2,1)] assms(3) by simp
  obtain key where key: "getNodeKey i = Some key" using white_key [of S i] assms(4) i(2-4) by auto
  have same: "workerNum old = workerNum i" if "GetNodeInfo key S = Some old" for old
  proof -
    have "(key, old) \<in> set (m_mapNodesStatus S)" "getNodeKey old = Some key"
      using that center_okD(5,3) [of n S key old] w by (auto simp: world_ok_def node_ok_def)
    then show ?thesis using i(8) key by force
  qed
  have "NUL \<notin> set (nodeInnerIp i)" using assms(4) i(2) by (auto simp: CheckWhiteNode_def list_ex_iff)
  then have acc: "acceptable S i key" using key i same by (auto simp: acceptable_def)
  obtain T' where "world_ok n (S, T')" "starts_empty S T' key"
    using w world_ok_boot [OF w, of key] by (cases "GetNodeInfo key S") (auto simp: starts_empty_def)
  then show ?thesis using registration_ok [OF _ assms(3) acc] removal_ok [OF w, of k] by fastforce
qed

lemma count_nodes: "GetNodeCountByType ty S = word_of_nat (length (filter (\<lambda>kv. nodeType (snd kv) = ty) (m_mapNodesStatus S)))"
proof -
  have "foldl (\<lambda>n kv. if nodeType (snd kv) = ty then n + 1 else n) c m = c + word_of_nat (length (filter (\<lambda>kv. nodeType (snd kv) = ty) m))" for c :: u32 and m :: "(string \<times> node_status) list"
    by (induction m arbitrary: c) (auto simp: algebra_simps)
  then show ?thesis by (simp add: GetNodeCountByType_def)
qed

lemma few_nodes:
  assumes "center_ok n S"
  shows "length (m_mapNodesStatus S) \<le> n"
proof -
  let ?ids = "map (\<lambda>kv. nodeId (snd kv)) (m_mapNodesStatus S)"
  have "set ?ids \<subseteq> {1..int n}" using center_okD(3) [OF assms] by (auto simp: node_ok_def)
  then have "card (set ?ids) \<le> n" using card_mono [of "{1..int n}" "set ?ids"] by simp
  then show ?thesis using assms distinct_card [of ?ids] by (simp add: center_ok_def)
qed

text \<open>
  C37.  The last node of a type can be suspended.  \<open>OfflineNode\<close> counts all nodes of the type and not those that are online, which the error code asks
  for: if the only other nodes of the type are suspended already, it succeeds, and no node of the type is left.
\<close>

theorem center_last_node_offline:
  assumes "fresh_center S0" "center_reach C (S0, T0) n (S, T)" "n < 2 ^ 31" "(k, i) \<in> set (m_mapNodesStatus S)" "suspend i = 0"
    and others: "\<forall>(q, j) \<in> set (m_mapNodesStatus S). q \<noteq> k \<and> nodeType j = nodeType i \<longrightarrow> suspend j = 1" "\<exists>q j. (q, j) \<in> set (m_mapNodesStatus S) \<and> q \<noteq> k \<and> nodeType j = nodeType i"
  shows "\<exists>S'. OfflineNode k S = Some (ERR_OK, S') \<and> (\<forall>(q, j) \<in> set (m_mapNodesStatus S'). nodeType j = nodeType i \<longrightarrow> suspend j = 1)"
proof -
  have ok: "center_ok n S" using reach_ok [OF assms(2,1,3)] by (simp add: world_ok_def)
  let ?l = "filter (\<lambda>kv. nodeType (snd kv) = nodeType i) (m_mapNodesStatus S)" let ?i = "i\<lparr>suspend := 1\<rparr>" let ?S = "put_info k ?i S"
  obtain q j where q: "(q, j) \<in> set ?l" "q \<noteq> k" using others(2) by auto
  have "{(k, i), (q, j)} \<subseteq> set ?l" "card {(k, i), (q, j)} = 2" using q assms(4) by auto
  then have "2 \<le> length ?l" using card_mono [of "set ?l" "{(k, i), (q, j)}"] card_length [of ?l] by simp
  moreover have "length ?l < 2 ^ 31" using few_nodes [OF ok] length_filter_le [of _ "m_mapNodesStatus S"] assms(3) by (meson le_less_trans order_trans)
  ultimately have count: "\<not> GetNodeCountByType (nodeType i) S < 2"
    unfolding count_nodes by (simp add: word_less_nat_alt unat_of_nat take_bit_nat_eq_self)
  have nok: "node_ok S n k ?i" using center_okD(3) [OF ok assms(4)] by (auto simp: node_ok_def getNodeKey_def)
  note put = put_ok [OF ok assms(4) nok, simplified]
  obtain ms where ms: "notices ?S (nodeType ?i) (exit_notice ?i) (m_mapNodesStatus ?S) = Some ms" by (rule notices_here [OF put(1)])
  have "GetNodeInfo k S = Some i" "GetSelfNodeIdentify S \<noteq> Some k" using center_okD(5,3) [OF ok] assms(4) by (auto simp: node_ok_def)
  then have "OfflineNode k S = Some (ERR_OK, ?S\<lparr>sent := sent S @ ms\<rparr>)"
    using center_okD(6) [OF ok] count assms(5) ms by (auto simp: OfflineNode_def SendUnregToOthers_def send_msgs_def Let_def)
  moreover have "\<forall>(q, j) \<in> set (m_mapNodesStatus ?S). nodeType j = nodeType i \<longrightarrow> suspend j = 1" using put(2) others(1) by (auto split: if_splits)
  ultimately show ?thesis by (intro exI [of _ "?S\<lparr>sent := sent S @ ms\<rparr>"]) simp
qed

text \<open>
  The node with the least load: \<open>GetLoadMinNode\<close> returns a node of the type whose load is least.  It compares loads modulo 65536, because
  it copies them into 16 bits, and it does not look at the state of the nodes: a suspended node with the least load is returned.
\<close>

theorem center_min_load:
  assumes "CheckNodeType ty S" "(k, i) \<in> set (m_mapNodesStatus S)" "nodeType i = ty"
  shows "\<exists>q j. (q, j) \<in> set (m_mapNodesStatus S) \<and> nodeType j = ty \<and> GetLoadMinNode ty S = Inr (NodeLoadStatus_of j) \<and> ni_load j mod 2 ^ 16 \<le> ni_load i mod 2 ^ 16"
proof -
  define ns where "ns = GetNodeStatusByNodeType ty S"
  have set: "set ns = {NodeLoadStatus_of j | q j. (q, j) \<in> set (m_mapNodesStatus S) \<and> nodeType j = ty}" by (force simp: ns_def GetNodeStatusByNodeType_def)
  have least: "foldl (\<lambda>b i. if serverload b > serverload i then i else b) n l \<in> insert n (set l) \<and> serverload (foldl (\<lambda>b i. if serverload b > serverload i then i else b) n l) \<le> serverload n
      \<and> (\<forall>x \<in> set l. serverload (foldl (\<lambda>b i. if serverload b > serverload i then i else b) n l) \<le> serverload x)" for n :: node_load and l
  proof (induction l arbitrary: n)
    case (Cons x l)
    show ?case using Cons.IH [of x] Cons.IH [of n] by (cases "serverload n > serverload x") (auto intro: order_trans less_imp_le)
  qed simp
  have i: "NodeLoadStatus_of i \<in> set ns" using assms(2,3) set by blast
  then obtain n l where ns: "ns = n # l" by (cases ns) auto
  then have r: "GetLoadMinNode ty S = Inr (foldl (\<lambda>b i. if serverload b > serverload i then i else b) n (n # l))" using assms(1) by (simp add: GetLoadMinNode_def ns_def)
  define m where "m = foldl (\<lambda>b i. if serverload b > serverload i then i else b) n (n # l)"
  have "m \<in> set ns" "serverload m \<le> serverload (NodeLoadStatus_of i)" using least [of n "n # l"] i by (simp_all only: m_def ns list.set insert_absorb2)
  then obtain q j where "(q, j) \<in> set (m_mapNodesStatus S)" "nodeType j = ty" "m = NodeLoadStatus_of j" using set by blast
  then show ?thesis using r \<open>serverload m \<le> _\<close> unfolding m_def [symmetric] by (auto simp: NodeLoadStatus_of_def word_le_def uint_word_of_int)
qed

lemma new_msgs_append [simp]: "new_msgs S (S'\<lparr>sent := sent S @ ms\<rparr>) = ms"
  by (simp add: new_msgs_def)

subsection \<open>Samples\<close>

definition sample_cenv :: center_env where
  "sample_cenv = \<lparr>ce_send = (\<lambda>_. True), ce_empty = []\<rparr>"

definition sample_center :: node_session where
  "sample_center = \<lparr>cs_status = eMasterStatus, m_vecNodeTypes = [\<lparr>nt_nodetype = ''A'', neededServers = [''A'']\<rparr>], m_vecWhiteNode = [''a'', ''b''], m_mapNodesStatus = [],
     m_objRoute = CJsonObject_new, m_uiNodeId = 0, m_centerInnerHost = ''c'', m_centerInnerPort = 1, m_centerNodeType = ''C'', m_centerProcessNum = 1,
     m_GatewayTypeList = [], m_vecCenterServer = [], sent = []\<rparr>"

definition sample_node :: "string \<Rightarrow> node_status" where
  "sample_node sIp = NodeStatusInfo_clean\<lparr>nodeType := ''A'', nodeInnerIp := sIp, nodeInnerPort := 8, workerNum := 1\<rparr>"

definition center_1 :: node_session where "center_1 = snd (the (RegNode sample_cenv \<lparr>sh_fd = 5, sh_seq = 1\<rparr> (sample_node ''a'') sample_center))"
definition center_2 :: node_session where "center_2 = snd (the (RegNode sample_cenv \<lparr>sh_fd = 6, sh_seq = 2\<rparr> (sample_node ''b'') center_1))"
definition center_3 :: node_session where "center_3 = snd (the (OfflineNode ''a:8'' center_2))"

lemma sample_fresh: "fresh_center sample_center"
  by (simp add: fresh_center_def sample_center_def GetSelfNodeIdentify_def address_text_def c_str_def int_text_def dec_text.simps NUL_def Let_def)

lemma sample_accept:
  assumes "sIp = ''a'' \<or> sIp = ''b''" "m_vecNodeTypes S = [\<lparr>nt_nodetype = ''A'', neededServers = [''A'']\<rparr>]" "GetSelfNodeIdentify S = Some ''c:1''"
    "GetNodeInfo (sIp @ '':8'') S = None"
  shows "acceptable S (sample_node sIp) (sIp @ '':8'')"
proof -
  have "getNodeKey (sample_node ''a'') = Some ''a:8''" "getNodeKey (sample_node ''b'') = Some ''b:8''" by code_simp+
  then show ?thesis using assms by (auto simp: acceptable_def sample_node_def NodeStatusInfo_clean_def CheckNodeType_def NUL_def)
qed

lemma sample_facts:
  "RegNode sample_cenv \<lparr>sh_fd = 5, sh_seq = 1\<rparr> (sample_node ''a'') sample_center \<noteq> None" "GetSelfNodeIdentify sample_center = Some ''c:1''"
  "RegNode sample_cenv \<lparr>sh_fd = 6, sh_seq = 2\<rparr> (sample_node ''b'') center_1 \<noteq> None" "GetSelfNodeIdentify center_1 = Some ''c:1''"
  "GetNodeInfo ''b:8'' center_1 = None" "m_vecNodeTypes center_1 = [\<lparr>nt_nodetype = ''A'', neededServers = [''A'']\<rparr>]" "OfflineNode ''a:8'' center_2 \<noteq> None"
  by code_simp+

lemma sample_reach: "\<exists>T. center_reach sample_cenv (sample_center, \<lambda>_. Map.empty) 3 (center_3, T)"
proof -
  have r: "f = Some (fst (the f), snd (the f))" if "f \<noteq> None" for f :: "('r \<times> node_session) option" using that by auto
  have a: "acceptable sample_center (sample_node ''a'') (''a'' @ '':8'')"
    by (rule sample_accept) (use sample_facts(2) in \<open>simp_all add: sample_center_def GetNodeInfo_def\<close>)
  have b: "acceptable center_1 (sample_node ''b'') (''b'' @ '':8'')" by (rule sample_accept) (use sample_facts in simp_all)
  have s1: "starts_empty sample_center T (''a'' @ '':8'') \<Longrightarrow> center_step sample_cenv (sample_center, T) (center_1, fold (deliver (''a'' @ '':8'')) (new_msgs sample_center center_1) T)" for T
    using center_step.register [OF a] r [OF sample_facts(1)] unfolding center_1_def by blast
  have s2: "starts_empty center_1 T (''b'' @ '':8'') \<Longrightarrow> center_step sample_cenv (center_1, T) (center_2, fold (deliver (''b'' @ '':8'')) (new_msgs center_1 center_2) T)" for T
    using center_step.register [OF b] r [OF sample_facts(3)] unfolding center_2_def by blast
  have s3: "center_step sample_cenv (center_2, T) (center_3, fold (deliver ''a:8'') (new_msgs center_2 center_3) T)" for T
    using center_step.offline r [OF sample_facts(7)] unfolding center_3_def by blast
  have "\<exists>T. center_reach sample_cenv (sample_center, \<lambda>_. Map.empty) 1 (center_1, T) \<and> starts_empty center_1 T (''b'' @ '':8'')"
  proof -
    obtain T where "center_reach sample_cenv (sample_center, \<lambda>_. Map.empty) 1 (center_1, T)"
      using center_reach.step [OF center_reach.start s1, of "\<lambda>_. Map.empty"] by (auto simp: starts_empty_def)
    then have "center_reach sample_cenv (sample_center, \<lambda>_. Map.empty) 1 (center_1, T(''b'' @ '':8'' := Map.empty))"
      by (rule center_reach.boot) (use sample_facts(5) in simp)
    then show ?thesis by (auto simp: starts_empty_def)
  qed
  then show ?thesis using center_reach.step [OF center_reach.step [OF _ s2] s3] unfolding numeral_3_eq_3 by fastforce
qed

theorem center_routes_exact_witness:
  "\<exists>T. center_reach sample_cenv (sample_center, \<lambda>_. Map.empty) 3 (center_3, T) \<and> distinct (map (\<lambda>kv. nodeId (snd kv)) (m_mapNodesStatus center_3))
    \<and> (\<forall>(k, i) \<in> set (m_mapNodesStatus center_3). \<exists>t. GetNodeTypeServerInfo (nodeType i) center_3 = Some t
      \<and> (\<forall>x ty. T k x = Some ty \<longleftrightarrow> routes center_3 (neededServers t) x ty))"
proof -
  obtain T where T: "center_reach sample_cenv (sample_center, \<lambda>_. Map.empty) 3 (center_3, T)" using sample_reach by blast
  then show ?thesis using center_routes_exact [OF sample_fresh T] by auto
qed

theorem center_operations_return_witness:
  "RegNode sample_cenv \<lparr>sh_fd = 7, sh_seq = 3\<rparr> (sample_node ''b'') center_3 \<noteq> None \<and> OnlineNode ''a:8'' center_3 \<noteq> None"
proof -
  obtain T where T: "center_reach sample_cenv (sample_center, \<lambda>_. Map.empty) 3 (center_3, T)" using sample_reach by blast
  have w: "m_vecWhiteNode center_3 = [''a'', ''b'']" "CheckNodeType (nodeType (sample_node ''b'')) center_3" "CheckWhiteNode (nodeInnerIp (sample_node ''b'')) center_3"
    "nodeInnerPort (sample_node ''b'') = 8" "nodeType (sample_node ''b'') = ''A''" "suspend (sample_node ''b'') = 0" "getNodeKey (sample_node ''b'') \<noteq> GetSelfNodeIdentify center_3"
    "\<forall>old \<in> snd ` set (m_mapNodesStatus center_3). getNodeKey old = getNodeKey (sample_node ''b'') \<longrightarrow> workerNum old = workerNum (sample_node ''b'')"
    by code_simp+
  show ?thesis using center_operations_return [OF sample_fresh T _ _ w(2,3) _ _ _ w(6,7,8)] w(1,4,5) by (simp add: NUL_def)
qed

theorem center_last_node_offline_witness:
  "\<exists>S'. OfflineNode ''b:8'' center_3 = Some (ERR_OK, S') \<and> (\<forall>(q, j) \<in> set (m_mapNodesStatus S'). nodeType j = ''A'' \<longrightarrow> suspend j = 1)"
proof -
  obtain T where T: "center_reach sample_cenv (sample_center, \<lambda>_. Map.empty) 3 (center_3, T)" using sample_reach by blast
  have "map (\<lambda>kv. (fst kv, nodeType (snd kv), suspend (snd kv))) (m_mapNodesStatus center_3) = [(''a:8'', ''A'', 1), (''b:8'', ''A'', 0)]" by code_simp
  then obtain i j where m: "m_mapNodesStatus center_3 = [(''a:8'', j), (''b:8'', i)]" "nodeType i = ''A''" "nodeType j = ''A''" "suspend i = 0" "suspend j = 1" by auto
  show ?thesis using center_last_node_offline [OF sample_fresh T, of "''b:8''" i] m by auto
qed

theorem center_min_load_witness:
  "\<exists>q j. (q, j) \<in> set (m_mapNodesStatus center_3) \<and> nodeType j = ''A'' \<and> GetLoadMinNode ''A'' center_3 = Inr (NodeLoadStatus_of j)"
proof -
  have t: "CheckNodeType ''A'' center_3" by code_simp
  have "map (\<lambda>kv. (fst kv, nodeType (snd kv))) (m_mapNodesStatus center_3) = [(''a:8'', ''A''), (''b:8'', ''A'')]" by code_simp
  then obtain i where "(''a:8'', i) \<in> set (m_mapNodesStatus center_3)" "nodeType i = ''A''" by auto
  then show ?thesis using center_min_load [OF t] by blast
qed

subsection \<open>Closing a node\<close>

definition to_target :: "center_msg \<Rightarrow> bool" where
  "to_target m = (case m of ToTarget k c b \<Rightarrow> True | _ \<Rightarrow> False)"

abbreviation orders :: "node_session \<Rightarrow> center_msg list" where
  "orders S \<equiv> filter to_target (sent S)"

lemma all_some_not_target:
  "all_some (map (\<lambda>_. map_option (\<lambda>key. ToNode key c body) o_key) l) = Some ms \<Longrightarrow> filter to_target ms = []"
  by (cases o_key; cases l) (auto simp: all_some_replicate to_target_def)

lemma notices_not_target: "notices S ty body m = Some ms \<Longrightarrow> filter to_target ms = []"
proof (induction m arbitrary: ms)
  case (Cons kv m)
  from Cons.prems show ?case
    by (cases kv) (auto simp del: filter_empty_conv split: bind_splits option.splits dest!: all_some_not_target Cons.IH)
qed simp

lemma suspending_orders:
  "OfflineNode k S = Some (r, S') \<Longrightarrow> orders S' = orders S"
  "OnlineNode k S = Some (r, S') \<Longrightarrow> orders S' = orders S"
  by (auto simp: OfflineNode_def OnlineNode_def SendUnregToOthers_def SendRegToOthers_def send_msgs_def Let_def put_info_def
      simp del: filter_empty_conv split: bind_splits if_splits option.splits dest!: notices_not_target)

lemma ack_orders: "ack C sh q e S = (b, S') \<Longrightarrow> orders S' = orders S"
  by (auto simp: ack_def send_msg_def to_target_def split: if_splits)

lemma ack_orders_snd [simp]: "orders (snd (ack C sh q e S)) = orders S"
  by (rule ack_orders) (rule surjective_pairing)

lemma send_target_empty [simp]: "send_target C key cmd [] S = (False, S)"
  by (simp add: send_target_def)

lemma CmdOfflineNode_orders: "CmdOfflineNode C sh old req S = Some (b, S') \<Longrightarrow> ce_empty C = [] \<Longrightarrow> orders S' = orders S"
  by (auto simp: CmdOfflineNode_def Let_def simp del: filter_empty_conv split: bind_splits if_splits option.splits prod.splits
      dest!: suspending_orders ack_orders)

lemma CmdOnlineNode_orders: "CmdOnlineNode C sh old req S = Some (r, S') \<Longrightarrow> ce_empty C = [] \<Longrightarrow> orders S' = orders S"
  by (auto simp: CmdOnlineNode_def Let_def map_prod_def simp del: filter_empty_conv split: bind_splits if_splits option.splits prod.splits
      dest!: suspending_orders ack_orders)

text \<open>
  C36.  A node can be neither closed nor restarted.  \<open>CmdOfflineNode\<close> and \<open>CmdOnlineNode\<close> send the order with the serialisation of an empty message
  body, which is the empty string, and the step that sends it refuses an empty body: whatever is asked and in whatever state, the orders that have
  been sent to a target are those that had been sent before.
\<close>

theorem center_close_never_sent:
  assumes "ce_empty C = []"
  shows "(\<forall>b S'. CmdOfflineNode C sh old req S = Some (b, S') \<longrightarrow> filter to_target (sent S') = filter to_target (sent S))
    \<and> (\<forall>r S'. CmdOnlineNode C sh old req S = Some (r, S') \<longrightarrow> filter to_target (sent S') = filter to_target (sent S))"
  using CmdOfflineNode_orders CmdOnlineNode_orders assms by blast

theorem center_close_never_sent_witness:
  "\<exists>b S'. CmdOfflineNode sample_cenv \<lparr>sh_fd = 9, sh_seq = 9\<rparr> \<lparr>inner_ip = [], inner_port = 0, req_flag = 0\<rparr> (Some \<lparr>inner_ip = ''b'', inner_port = 8, req_flag = 1\<rparr>) center_2
     = Some (b, S') \<and> filter to_target (sent S') = filter to_target (sent center_2)"
proof -
  have "CmdOfflineNode sample_cenv \<lparr>sh_fd = 9, sh_seq = 9\<rparr> \<lparr>inner_ip = [], inner_port = 0, req_flag = 0\<rparr> (Some \<lparr>inner_ip = ''b'', inner_port = 8, req_flag = 1\<rparr>) center_2 \<noteq> None"
    by code_simp
  moreover have "ce_empty sample_cenv = []" by (simp add: sample_cenv_def)
  ultimately show ?thesis using center_close_never_sent [of sample_cenv] by (metis option.exhaust surj_pair)
qed

end
