(* ===== verification/Spec2Isabelle.thy ===== *)
theory Spec2Isabelle
  imports CBuffer Rc5 HttpSafety CJsonTyped SendOrder StepTable Base64 HttpParam HttpDecode Nodes WebSocket CenterRoutes
begin

text \<open>
  Verification of the server framework \<open>thunder\<close> (C and C++, directory \<open>src/code\<close>).

  \<^bold>\<open>The program.\<close>  A node of a distributed service is a manager process with worker processes.  A worker
  (\<open>Core/Net/src/labor/duty/Worker.cpp\<close>) is an event loop over non-blocking connections: it reads bytes into a
  buffer, cuts them into messages with a codec, hands a request to a command and an answer to the step that waits for
  it, and sends messages to other nodes by name, in turn, or by a consistent hash of the session.  The names come from the
  center (\<open>Core/Center\<close>), where the nodes register and which tells them of each other.  Below it all
  are libraries (\<open>Core/Util/src/util\<close>): the byte buffer, the HTTP parser, cJSON and the RC5 cipher.

  \<^bold>\<open>Theories and sources.\<close>  Paths are relative to \<open>src/code/Core\<close>.
  \<^item> \<open>Prelude\<close>: integers, memory blocks and byte order as the C code has them.
  \<^item> \<open>CBuffer\<close>: \<open>Util/src/util/CBuffer.hpp\<close>, \<open>CBuffer.cpp\<close>.  The buffer refines a queue of bytes (locale
    \<open>byte_queue\<close>), every access in bounds; reads from a descriptor, formatted output and search.
  \<^item> \<open>Rc5\<close>: \<open>Util/src/util/encrypt/rc5.c\<close> and its callers in \<open>Net/src/codec/StarshipCodec.cpp\<close>.  The
    block functions are inverse, the incremental loops compute CBC with padding, decryption restores the message.
  \<^item> \<open>HttpUrl\<close>, \<open>HttpParser\<close>, \<open>HttpSafety\<close>: \<open>Util/src/util/http/http_parser.c\<close>.  The state machine
    always returns, keeps its invariant, fails no assertion and stays in bounds; content lengths do not wrap.
  \<^item> \<open>HttpPhase\<close>, \<open>HttpCodec\<close>, \<open>HttpDecode\<close>: \<open>Net/src/codec/HttpCodec.cpp\<close>.  The locale \<open>message_callbacks\<close> is what the parser promises
    its callbacks; the codec's callbacks satisfy it.  \<open>Encode\<close> of a plain answer appends its status line, its headers and its body;
    \<open>Decode\<close> returns if the uninitialised host entry is empty and memory suffices.
  \<^item> \<open>CJson\<close>, \<open>CJsonText\<close>, \<open>CJsonSafety\<close>: \<open>Util/src/util/json/cJSON.c\<close>.  For values whose numbers are integers, printing yields the text
    of the value and parsing it restores the tree; without backslashes, and with numbers that fit the types they are converted to, the parser
    returns and stays in bounds.
  \<^item> \<open>CJsonHeap\<close>: the linked nodes of \<open>cJSON.c\<close> as cells of a heap.  The operations on the children of a node refine those on lists
    (locale \<open>child_list\<close>).
  \<^item> \<open>CJsonObject\<close>, \<open>CJsonTyped\<close>: \<open>Util/src/util/json/CJsonObject.cpp\<close> on that heap.  The locale \<open>json_value\<close> is what the overloads for a
    type of values share: a value that is added is read back.  Parsed trees are well typed, and on them no method meets a null string.
  \<^item> \<open>Codec\<close>, \<open>CodecContract\<close>: \<open>Net/src/codec\<close>.  The locales \<open>stream_codec\<close> and \<open>message_codec\<close> say
    what receiver and sender rely on; \<open>ProtoCodec\<close> and the plain messages of \<open>ClientMsgCodec\<close> keep them.
  \<^item> \<open>Tlv\<close>: \<open>Util/src/util/CTlv.cpp\<close>.  Messages of type, length and value on the byte buffer.
  \<^item> \<open>WebSocket\<close>: the data frames of \<open>CodecWebSocketPb.cpp\<close> and \<open>CodecWebSocketJson.cpp\<close>.  The locale \<open>frame_codec\<close>
    is the contract of a codec that removes the mask in place; \<open>stream_codec\<close> is a sublocale of it.
  \<^item> \<open>Base64\<close>: \<open>Util/src/util/encrypt/base64.c\<close>.  The coder is RFC 4648 and the decoder inverts it.
  \<^item> \<open>UrlCoder\<close>, \<open>HttpParam\<close>: \<open>Util/src/util/http/HttpUrlCoder.cpp\<close>, \<open>Util/src/util/StringCoder.cpp\<close> and
    \<open>Util/src/util/http/HttpParamCodec.cpp\<close>.  Percent encoding, hexadecimal text and form parameters survive their way.
  \<^item> \<open>HashCalc\<close>: \<open>Util/src/util/HashCalc.cpp\<close> and \<open>bzhash.cpp\<close>.  The loop over the blocks of a string computes MurmurHash3, stated apart from it.
  \<^item> \<open>Nodes\<close>: \<open>Net/src/nodes/Nodes.cpp\<close>.  Its lookups give exactly the nodes that were added and not removed since; its ring
    of points is right until a node is removed.
  \<^item> \<open>ConHash\<close>: \<open>Net/src/nodes/ConHash.hpp\<close>.  The ring is a consistent hash and never follows a dangling pointer.
  \<^item> \<open>WorkerConn\<close>, \<open>WorkerSend\<close>, \<open>WorkerStep\<close>, \<open>WorkerIo\<close>, \<open>RecvLoop\<close>: \<open>Worker.cpp\<close> with
    \<open>Attribution.hpp\<close>, \<open>Net/src/step\<close>, \<open>Net/src/session\<close> and \<open>Net/src/cmd/sys_cmd\<close>.  The record \<open>worker\<close> holds
    the tables of the class under their names, each method is one definition on it.  \<open>WorkerConn\<close> has the
    tables of connections and names, \<open>WorkerSend\<close> sending and routing, \<open>WorkerStep\<close> steps, timeouts, the handshake and
    sessions, \<open>WorkerIo\<close> the events and the dispatch of messages, \<open>RecvLoop\<close> the receive handler.
  \<^item> \<open>SendOrder\<close>: after the first write event the sending operations refine a channel (locale \<open>exact_codec\<close>).
  \<^item> \<open>StepTable\<close>: the table of steps has no dangling entries as long as no step has a next step, and has them if one has.
  \<^item> \<open>Center\<close>: \<open>Center/src/NodeSession.cpp\<close>, \<open>Comm.hpp\<close> and the commands \<open>Cmd*\<close> beside them, and the loops of
    \<open>Net/src/cmd/sys_cmd/CmdNodeNotice.cpp\<close>.  The record \<open>node_session\<close> is the class, with the messages it sends; requests are parsed and the
    configuration is read on the heap of JSON nodes.
  \<^item> \<open>CenterRoutes\<close>: the center with the tables of its nodes as a transition system.  From an empty table on, in every reachable state each node has exactly the routes that
    its type needs, as long as a node keeps its number of workers; the operations return; the faults of suspending and closing nodes.
  \<^item> This theory: messages from one worker to another, composing sender and receiver.

  \<^bold>\<open>Errors.\<close>  A result of the code (a code, \<open>false\<close>, a null pointer) is a value of the model.  \<open>None\<close> is undefined
  behaviour: an access outside memory, the use of a freed object, or a loop that does not end.  A theorem that
  gives \<open>Some\<close> therefore says that the code returns and stays inside its memory.  Where the code fails its purpose, a
  theorem shows the failure for all inputs of its kind.

  \<^bold>\<open>Bounds and fuel.\<close>  Growing loops and the receive loop are \<open>partial_function\<close>s, so that not returning is
  \<open>None\<close>.  The parser of cJSON takes a bound on depth and iterations that starts at the length of the text
  and is shown to be enough.  The HTTP parser terminates by a rank on the states that are executed again.  Theorems on
  streams ask that the indices of the buffers stay below \<open>2 ^ 30\<close> or \<open>2 ^ 31\<close>, because the code converts
  them to \<open>int\<close>.

  \<^bold>\<open>Arguments of the model.\<close>  The operating system, libev, the generated Protocol Buffers classes, zlib, floating point
  conversions, and the commands, modules and steps that are loaded from shared objects are arguments
  (records \<open>wenv\<close>, \<open>pb\<close>, \<open>zlib\<close>); what a theorem needs of them is a named hypothesis (\<open>pb_ok\<close>, \<open>sys_ok\<close>, \<open>accepts\<close>).

  \<^bold>\<open>Not modelled.\<close>  The manager process, the Redis, MySQL and HTTP client paths of the worker, the loading of
  shared objects, coroutines, the handshake of the WebSocket codecs, the references to nodes and the merging of trees in cJSON, which
  the framework does not use, the storage operators, the time and file utilities, the configuration files of the center and its Redis lock, and the
  other services and examples built on the framework.
  They are calls of libraries and of the operating system for the most part.  Logging has no effect in the model.
\<close>

section \<open>Messages from one node to another\<close>

text \<open>Whatever part of an ordered stream of frames arrives, the receiver handles the messages that are complete.\<close>

lemma receive_prefix:
  assumes B: "e_codec EB CODEC_PROTOBUF = Some codecB" "c_dec codecB = ProtoCodec_Decode_conn P (body_clear P)" "fst (e_hp EB) = (\<lambda>_. True)"
    and obs: "observation obs" "accepts EB shB obs f M"
    and c: "live WB shB = Some c" "eCodecType c = CODEC_PROTOBUF" "recv_ok (pRecvBuff c)" "cb_data (pRecvBuff c) = []"
    and ms: "\<forall>m\<in>set ms. proto_valid P m \<and> field (h_cmd (fst m)) \<noteq> 0" "set ms \<subseteq> M"
    and chunks: "prefix (concat chunks) (concat (map (proto_frame P) ms))" "[] \<notin> set chunks" "m_write_idx (pRecvBuff c) + length (concat chunks) < 2 ^ 30"
  shows "\<exists>ms1 ms2 WB'. ms = ms1 @ ms2 \<and> recv_run EB WB shB chunks = Some WB' \<and> obs WB' = fold (\<lambda>m s. f s m) ms1 (obs WB)
    \<and> (concat chunks = concat (map (proto_frame P) ms) \<longrightarrow> ms2 = [])"
proof -
  obtain z where z: "concat chunks @ z = concat (map (proto_frame P) ms) @ []" using chunks(1) by (auto simp: prefix_def)
  have valid: "\<forall>m\<in>set ms. proto_valid P m" using ms(1) by blast
  have "partial_frame (proto_valid P) (proto_frame P) []" by (simp add: partial_frame_def)
  from proto.cut_stream [OF valid this z]
  obtain ms1 ms2 q where cut: "ms = ms1 @ ms2" "concat chunks = concat (map (proto_frame P) ms1) @ q" "partial_frame (proto_valid P) (proto_frame P) q"
    "q @ z = concat (map (proto_frame P) ms2) @ []" "ms2 \<noteq> [] \<longrightarrow> length q < length (proto_frame P (hd ms2))" by blast
  have acc: "accepts EB shB obs f (set ms1)" using obs(2) ms(2) cut(1) unfolding accepts_def by auto
  have v1: "\<forall>m\<in>set ms1. proto_valid P m \<and> field (h_cmd (fst m)) \<noteq> 0" using ms(1) cut(1) by auto
  have "ms2 = []" if "concat chunks = concat (map (proto_frame P) ms)"
  proof -
    have "q = concat (map (proto_frame P) ms2)" using that cut(1,2) by simp
    then show ?thesis using cut(5) by (cases ms2) auto
  qed
  moreover have "\<exists>WB' c'. recv_run EB WB shB chunks = Some WB' \<and> obs WB' = fold (\<lambda>m s. f s m) ms1 (obs WB)
      \<and> live WB' shB = Some c' \<and> cb_data (pRecvBuff c') = q"
    by (rule proto_stream [OF B obs(1) acc c chunks(3,2) v1 cut(3,2)])
  ultimately show ?thesis using cut(1) by blast
qed



end
